(* ===== verification/AvPrelude.thy ===== *)
theory AvPrelude
  imports Main "HOL-Library.Word" "HOL-Library.Monad_Syntax"
begin

text \<open>
  Shared vocabulary of the development: machine integers, the big-endian readers of
  media/libstagefright/Utils.cpp, failing checks, bit lists, and the list and word lemmas
  that the component theories use.

  A value of type \<open>'a option\<close> is the outcome of a run that may not complete:
  \<open>None\<close> stands for a failed \<open>CHECK\<close>, for a read or write outside a buffer, or for a
  division by zero, and \<open>Some x\<close> for a run that returns \<open>x\<close>. Error codes that
  the code returns are ordinary values.
\<close>

unbundle bit_operations_syntax

type_synonym byte = "8 word"
type_synonym u16 = "16 word"
type_synonym u32 = "32 word"
type_synonym u64 = "64 word"

text \<open>\<open>CHECK(b)\<close> of foundation/ADebug.h: the process aborts unless \<open>b\<close> holds.\<close>

definition CHECK :: "bool \<Rightarrow> unit option" where
  "CHECK b = (if b then Some () else None)"

lemma CHECK_simps [simp]: "CHECK True = Some ()" "CHECK False = None"
  by (simp_all add: CHECK_def)

lemma CHECK_eq_Some [simp]: "CHECK b = Some u \<longleftrightarrow> b"
  by (cases u) (simp add: CHECK_def)

lemma CHECK_eq_None [simp]: "CHECK b = None \<longleftrightarrow> \<not> b"
  by (simp add: CHECK_def)

lemma CHECK_bind_eq_Some [simp]:
  "(CHECK b \<bind> f) = Some y \<longleftrightarrow> b \<and> f () = Some y"
  by (simp add: CHECK_def)

subsection \<open>Status codes\<close>

text \<open>Values of utils/Errors.h and media/stagefright/MediaErrors.h.\<close>

definition OK :: int where "OK = 0"
definition PERMISSION_DENIED :: int where "PERMISSION_DENIED = -1"
definition BAD_VALUE :: int where "BAD_VALUE = -22"
definition NO_INIT :: int where "NO_INIT = -19"
definition INVALID_OPERATION :: int where "INVALID_OPERATION = -38"
definition UNKNOWN_ERROR :: int where "UNKNOWN_ERROR = -2147483648"
definition ERROR_IO :: int where "ERROR_IO = -1004"
definition ERROR_MALFORMED :: int where "ERROR_MALFORMED = -1007"
definition ERROR_OUT_OF_RANGE :: int where "ERROR_OUT_OF_RANGE = -1008"
definition ERROR_UNSUPPORTED :: int where "ERROR_UNSUPPORTED = -1010"
definition ERROR_END_OF_STREAM :: int where "ERROR_END_OF_STREAM = -1011"

named_theorems status_defs

lemmas status_codes [status_defs] = OK_def PERMISSION_DENIED_def BAD_VALUE_def NO_INIT_def
  INVALID_OPERATION_def UNKNOWN_ERROR_def ERROR_IO_def ERROR_MALFORMED_def
  ERROR_OUT_OF_RANGE_def ERROR_UNSUPPORTED_def ERROR_END_OF_STREAM_def

subsection \<open>Reading a buffer\<close>

text \<open>A read at an index outside the buffer is a fault.\<close>

definition fetch :: "'a list \<Rightarrow> nat \<Rightarrow> 'a option" where
  "fetch xs i = (if i < length xs then Some (xs ! i) else None)"

lemma fetch_Some [simp]: "i < length xs \<Longrightarrow> fetch xs i = Some (xs ! i)"
  by (simp add: fetch_def)

lemma fetch_eq_Some: "fetch xs i = Some x \<longleftrightarrow> i < length xs \<and> x = xs ! i"
  by (auto simp: fetch_def)

lemma fetch_eq_None: "fetch xs i = None \<longleftrightarrow> length xs \<le> i"
  by (auto simp: fetch_def)

subsection \<open>Bit lists, most significant bit first\<close>

definition byte_bits :: "byte \<Rightarrow> bool list" where
  "byte_bits b = map (\<lambda>i. bit b (7 - i)) [0..<8]"

definition top_bits :: "nat \<Rightarrow> u32 \<Rightarrow> bool list" where
  "top_bits n w = map (\<lambda>i. bit w (31 - i)) [0..<n]"

definition of_bits :: "bool list \<Rightarrow> u32" where
  "of_bits bs = foldl (\<lambda>acc b. 2 * acc + of_bool b) 0 bs"

lemma length_byte_bits [simp]: "length (byte_bits b) = 8"
  by (simp add: byte_bits_def)

lemma length_top_bits [simp]: "length (top_bits n w) = n"
  by (simp add: top_bits_def)

lemma top_bits_0 [simp]: "top_bits 0 w = []"
  by (simp add: top_bits_def)

lemma nth_top_bits [simp]: "i < n \<Longrightarrow> top_bits n w ! i = bit w (31 - i)"
  by (simp add: top_bits_def)

lemma nth_byte_bits [simp]: "i < 8 \<Longrightarrow> byte_bits b ! i = bit b (7 - i)"
  by (simp add: byte_bits_def del: upt_Suc)

lemma of_bits_Nil [simp]: "of_bits [] = 0"
  by (simp add: of_bits_def)

lemma of_bits_snoc: "of_bits (bs @ [b]) = 2 * of_bits bs + of_bool b"
  by (simp add: of_bits_def)

lemma double_plus_bit: "2 * (w :: u32) + of_bool b = 2 * w OR of_bool b"
proof -
  have "2 * w AND of_bool b = 0"
    by (rule bit_word_eqI) (auto simp: bit_simps)
  then show ?thesis by (simp add: disjunctive_add_eq_or)
qed

text \<open>Bit \<open>k\<close> of the value is the \<open>k\<close>-th element from the end of the list.\<close>

lemma bit_of_bits:
  "bit (of_bits bs) k \<longleftrightarrow> k < 32 \<and> k < length bs \<and> rev bs ! k"
proof (induction bs arbitrary: k rule: rev_induct)
  case Nil
  then show ?case by simp
next
  case (snoc b bs)
  show ?case
  proof (cases k)
    case 0
    then show ?thesis by (simp add: of_bits_snoc double_plus_bit bit_simps)
  next
    case (Suc j)
    then show ?thesis
      by (auto simp: of_bits_snoc double_plus_bit bit_simps snoc.IH)
  qed
qed

lemma bit_of_bits':
  "bit (of_bits bs) k \<longleftrightarrow> k < 32 \<and> k < length bs \<and> bs ! (length bs - Suc k)"
  by (auto simp: bit_of_bits rev_nth)

lemma top_bits_take: "m \<le> k \<Longrightarrow> take m (top_bits k w) = top_bits m w"
  by (rule nth_equalityI) auto

lemma top_bits_drop: "m \<le> k \<Longrightarrow> k \<le> 32 \<Longrightarrow> drop m (top_bits k w) = top_bits (k - m) (push_bit m w)"
  by (rule nth_equalityI) (auto simp: bit_simps add.commute)

text \<open>The value of a concatenation, and the values of the bits of words and bytes.\<close>

lemma of_bits_append:
  assumes "length ys \<le> 32"
  shows "of_bits (xs @ ys) = push_bit (length ys) (of_bits xs) OR of_bits ys"
proof (rule bit_word_eqI)
  fix k
  assume k: "k < LENGTH(32)"
  have "rev (xs @ ys) ! k = (if k < length ys then rev ys ! k else rev xs ! (k - length ys))"
    by (simp add: nth_append)
  then show "bit (of_bits (xs @ ys)) k = bit (push_bit (length ys) (of_bits xs) OR of_bits ys) k"
    using k by (auto simp: bit_of_bits bit_simps)
qed

lemma of_bits_top_bits: "m \<le> 32 \<Longrightarrow> of_bits (top_bits m w) = drop_bit (32 - m) w"
proof (rule bit_word_eqI)
  fix k
  assume m: "m \<le> 32" and k: "k < LENGTH(32)"
  have "top_bits m w ! (m - Suc k) = bit w (32 - m + k)" if "k < m"
  proof -
    have "31 - (m - Suc k) = 32 - m + k" using that m by simp
    with that show ?thesis by simp
  qed
  moreover have "\<not> bit w (32 - m + k)" if "\<not> k < m"
    using that m by (auto dest: bit_imp_le_length)
  ultimately show "bit (of_bits (top_bits m w)) k = bit (drop_bit (32 - m) w) k"
    using k m by (auto simp: bit_of_bits' bit_simps simp del: nth_top_bits)
qed

lemma of_bits_byte_bits: "of_bits (byte_bits b) = ucast b"
proof (rule bit_word_eqI)
  fix k
  assume k: "k < LENGTH(32)"
  have "byte_bits b ! (7 - k) = bit b k" if "k < 8"
    using that by simp
  moreover have "\<not> bit b k" if "\<not> k < 8"
    using that by (auto dest: bit_imp_le_length)
  ultimately show "bit (of_bits (byte_bits b)) k = bit (ucast b :: u32) k"
    using k by (auto simp: bit_of_bits' bit_simps simp del: nth_byte_bits)
qed

lemma top_bits_push_of_bits:
  "length ys \<le> 32 \<Longrightarrow> top_bits (length ys) (push_bit (32 - length ys) (of_bits ys)) = ys"
  by (rule nth_equalityI) (auto simp: bit_simps bit_of_bits')

text \<open>Widening a byte, and its absent high bits.\<close>

abbreviation widen :: "byte \<Rightarrow> u32" where
  "widen b \<equiv> ucast b"

lemma bit_byte_high: "8 \<le> n \<Longrightarrow> bit (b :: byte) n \<longleftrightarrow> False"
  by (auto dest: bit_imp_le_length)

lemma unat_widen [simp]: "unat (widen b) = unat b"
  using unsigned_less [of b, where ?'a = nat]
  by (simp add: unsigned_ucast_eq take_bit_nat_eq_self)

lemma unat_byte_less: "unat (b :: byte) < 256"
  using unsigned_less [of b, where ?'a = nat] by simp

lemma u32_eqI_24:
  assumes "list_all (\<lambda>n. bit v n = bit w n)
      [0, 1, 2, 3, 4, 5, 6, 7, 8, 9, 10, 11, 12, 13, 14, 15, 16, 17, 18, 19, 20, 21, 22, 23]"
    and "\<And>n. 24 \<le> n \<Longrightarrow> \<not> bit v n \<and> \<not> bit w n"
  shows "v = (w :: u32)"
proof (rule bit_word_eqI)
  fix n
  have "[0, 1, 2, 3, 4, 5, 6, 7, 8, 9, 10, 11, 12, 13, 14, 15, 16, 17, 18, 19, 20, 21, 22, 23] = [0..<24]"
    by (simp add: upt_rec)
  with assms(1) have "list_all (\<lambda>n. bit v n = bit w n) [0..<24]" by (simp only:)
  with assms(2) show "bit v n = bit w n"
    by (cases "n < 24") (auto simp: list_all_iff)
qed

subsection \<open>Integers in memory\<close>

text \<open>
  \<open>U16_AT\<close> to \<open>U64_AT\<close> of media/libstagefright/Utils.cpp read a big-endian integer
  at an index of a buffer; reading past its end is a fault.
\<close>

definition be16 :: "byte \<Rightarrow> byte \<Rightarrow> u16" where
  "be16 a b = push_bit 8 (ucast a) OR ucast b"

definition be32 :: "byte \<Rightarrow> byte \<Rightarrow> byte \<Rightarrow> byte \<Rightarrow> u32" where
  "be32 a b c d = push_bit 24 (ucast a) OR push_bit 16 (ucast b) OR push_bit 8 (ucast c) OR ucast d"

definition U16_AT :: "byte list \<Rightarrow> nat \<Rightarrow> u16 option" where
  "U16_AT p i = do { a \<leftarrow> fetch p i; b \<leftarrow> fetch p (i + 1); Some (be16 a b) }"

definition U32_AT :: "byte list \<Rightarrow> nat \<Rightarrow> u32 option" where
  "U32_AT p i = do { a \<leftarrow> fetch p i; b \<leftarrow> fetch p (i + 1); c \<leftarrow> fetch p (i + 2);
     d \<leftarrow> fetch p (i + 3); Some (be32 a b c d) }"

definition U64_AT :: "byte list \<Rightarrow> nat \<Rightarrow> u64 option" where
  "U64_AT p i = do { h \<leftarrow> U32_AT p i; l \<leftarrow> U32_AT p (i + 4);
     Some (push_bit 32 (ucast h) OR ucast l) }"

text \<open>
  A variable that is filled byte by byte and then read as an integer, on a little-endian
  host, and the conversions from network order.
\<close>

fun load_le :: "byte list \<Rightarrow> 'a::len word" where
  "load_le [] = 0"
| "load_le (b # bs) = ucast b OR push_bit 8 (load_le bs)"

definition ntohs :: "u16 \<Rightarrow> u16" where
  "ntohs x = push_bit 8 (x AND 0xff) OR (drop_bit 8 x AND 0xff)"

definition ntohl :: "u32 \<Rightarrow> u32" where
  "ntohl x = push_bit 24 (x AND 0xff) OR push_bit 16 (drop_bit 8 x AND 0xff)
     OR push_bit 8 (drop_bit 16 x AND 0xff) OR (drop_bit 24 x AND 0xff)"

definition ntoh64 :: "u64 \<Rightarrow> u64" where
  "ntoh64 x = push_bit 32 (ucast (ntohl (ucast (x AND 0xffffffff)))) OR ucast (ntohl (ucast (drop_bit 32 x)))"

text \<open>The value of a big-endian byte string, and its agreement with the readers.\<close>

definition be_value :: "byte list \<Rightarrow> nat" where
  "be_value bs = foldl (\<lambda>acc b. 256 * acc + unat b) 0 bs"

lemma be_value_Nil [simp]: "be_value [] = 0"
  by (simp add: be_value_def)

lemma be_value_snoc: "be_value (bs @ [b]) = 256 * be_value bs + unat b"
  by (simp add: be_value_def)

lemma be_value_less: "be_value bs < 256 ^ length bs"
proof (induction bs rule: rev_induct)
  case Nil
  then show ?case by simp
next
  case (snoc b bs)
  then show ?case using unat_byte_less [of b] by (simp add: be_value_snoc)
qed

lemma of_nat_be_value:
  assumes "8 \<le> LENGTH('a::len)"
  shows "of_nat (be_value bs) = foldl (\<lambda>acc b. push_bit 8 acc OR ucast b) (0 :: 'a word) bs"
proof (induction bs rule: rev_induct)
  case Nil
  then show ?case by simp
next
  case (snoc b bs)
  let ?w = "of_nat (be_value bs) :: 'a word"
  have "push_bit 8 ?w AND ucast b = 0"
    by (rule bit_word_eqI) (auto simp: bit_simps bit_byte_high)
  then have "push_bit 8 ?w OR ucast b = push_bit 8 ?w + ucast b"
    by (simp add: disjunctive_add_eq_or)
  then show ?case
    using snoc by (simp add: be_value_snoc push_bit_eq_mult ac_simps)
qed

lemma be16_value: "be16 a b = of_nat (be_value [a, b])"
  by (simp add: of_nat_be_value be16_def)

lemma be32_value: "be32 a b c d = of_nat (be_value [a, b, c, d])"
  by (simp add: of_nat_be_value be32_def push_bit_or or.assoc)

text \<open>Byte \<open>i\<close> of a loaded integer is the byte stored at index \<open>i\<close>.\<close>

lemma bit_load_le:
  "bit (load_le bs :: 'a::len word) k \<longleftrightarrow>
     k < LENGTH('a) \<and> k div 8 < length bs \<and> bit (bs ! (k div 8)) (k mod 8)"
proof (induction bs arbitrary: k)
  case Nil
  then show ?case by simp
next
  case (Cons b bs)
  show ?case
  proof (cases "k < 8")
    case True
    then show ?thesis by (auto simp: bit_simps)
  next
    case False
    then have "k div 8 = Suc ((k - 8) div 8)" "k mod 8 = (k - 8) mod 8"
      by (simp_all add: le_div_geq le_mod_geq)
    with False Cons.IH [of "k - 8"] show ?thesis
      by (auto simp: bit_simps bit_byte_high)
  qed
qed

lemma byte_load_le:
  "i < length bs \<Longrightarrow> 8 * i + 8 \<le> LENGTH('a::len) \<Longrightarrow>
     ucast (drop_bit (8 * i) (load_le bs :: 'a word)) = bs ! i"
  by (rule bit_word_eqI) (auto simp: bit_simps bit_load_le)

lemma low_byte: "(w :: 'a::len word) AND mask 8 = ucast (ucast w :: byte)" if "8 \<le> LENGTH('a)"
  using that by (intro bit_word_eqI) (auto simp: bit_simps)

lemma ff_mask: "(0xff :: u32) = mask 8" "(0xff :: u16) = mask 8" "(0xffffffff :: u64) = mask 32"
  by (simp_all add: mask_eq_exp_minus_1)

lemma ntohs_bytes: "ntohs x = be16 (ucast x) (ucast (drop_bit 8 x))"
  by (simp add: ntohs_def be16_def ff_mask low_byte)

lemma ntohl_bytes:
  "ntohl x = be32 (ucast x) (ucast (drop_bit 8 x)) (ucast (drop_bit 16 x)) (ucast (drop_bit 24 x))"
  by (simp add: ntohl_def be32_def ff_mask low_byte)

lemma ntohs_load: "length bs = 2 \<Longrightarrow> ntohs (load_le bs) = be16 (bs ! 0) (bs ! 1)"
  using byte_load_le [of 0 bs, where ?'a = 16] byte_load_le [of 1 bs, where ?'a = 16]
  by (simp add: ntohs_bytes)

lemma ntohl_load: "4 \<le> length bs \<Longrightarrow> ntohl (load_le bs) = be32 (bs ! 0) (bs ! 1) (bs ! 2) (bs ! 3)"
  using byte_load_le [of 0 bs, where ?'a = 32] byte_load_le [of 1 bs, where ?'a = 32]
    byte_load_le [of 2 bs, where ?'a = 32] byte_load_le [of 3 bs, where ?'a = 32]
  by (cases "bs = []") (simp_all add: ntohl_bytes)

text \<open>Narrowing a longer variable keeps its first bytes.\<close>

lemma ucast_load_le:
  assumes "LENGTH('b::len) \<le> LENGTH('a::len)"
  shows "ucast (load_le bs :: 'a word) = (load_le bs :: 'b word)"
  using assms by (intro bit_word_eqI) (auto simp: bit_simps bit_load_le)

lemma drop_load_le:
  "LENGTH('b::len) + 8 * n \<le> LENGTH('a::len) \<Longrightarrow>
     ucast (drop_bit (8 * n) (load_le bs :: 'a word)) = (load_le (drop n bs) :: 'b word)"
  by (rule bit_word_eqI) (auto simp: bit_simps bit_load_le)

lemma ntoh64_load:
  assumes "length bs = 8"
  shows "ntoh64 (load_le bs) = push_bit 32 (ucast (be32 (bs ! 0) (bs ! 1) (bs ! 2) (bs ! 3)))
    OR ucast (be32 (bs ! 4) (bs ! 5) (bs ! 6) (bs ! 7))"
proof -
  have "ucast (load_le bs AND 0xffffffff :: u64) = (load_le bs :: u32)"
    by (rule bit_word_eqI) (auto simp: ff_mask bit_simps bit_load_le)
  moreover have "ucast (drop_bit 32 (load_le bs :: u64)) = (load_le (drop 4 bs) :: u32)"
    using drop_load_le [of 4 bs, where ?'b = 32 and ?'a = 64] by simp
  ultimately show ?thesis
    using assms by (simp add: ntoh64_def ntohl_load)
qed

text \<open>The readers in terms of the value of the bytes they read.\<close>

lemma unat_be16: "unat (be16 a b) = be_value [a, b]"
  using be_value_less [of "[a, b]"] by (simp add: be16_value unsigned_of_nat take_bit_nat_eq_self)

lemma unat_be32: "unat (be32 a b c d) = be_value [a, b, c, d]"
  using be_value_less [of "[a, b, c, d]"] by (simp add: be32_value unsigned_of_nat take_bit_nat_eq_self)

lemma unat_ntoh64:
  assumes "length bs = 8"
  shows "unat (ntoh64 (load_le bs)) = be_value bs"
proof -
  obtain a b c d e f g h where bs: "bs = [a, b, c, d, e, f, g, h]"
    using assms by (auto simp: numeral_eq_Suc length_Suc_conv)
  let ?hi = "ucast (be32 a b c d) :: u64" and ?lo = "ucast (be32 e f g h) :: u64"
  have "ntoh64 (load_le bs) = push_bit 32 ?hi OR ?lo"
    using ntoh64_load [OF assms] by (simp only: bs) simp
  also have "\<dots> = push_bit 32 ?hi + ?lo"
    by (rule disjunctive_add_eq_or [symmetric], rule bit_word_eqI)
      (auto simp: bit_simps dest: bit_imp_le_length)
  also have "\<dots> = of_nat (2 ^ 32 * unat (be32 a b c d) + unat (be32 e f g h))"
    by (simp add: push_bit_eq_mult mult.commute)
  also have "2 ^ 32 * unat (be32 a b c d) + unat (be32 e f g h) = be_value bs"
    by (simp add: unat_be32 bs be_value_def)
  finally show ?thesis
    using be_value_less [of bs] assms by (simp add: unsigned_of_nat take_bit_nat_eq_self)
qed

lemma U32_AT_Some: "i + 3 < length p \<Longrightarrow>
    U32_AT p i = Some (be32 (p ! i) (p ! (i + 1)) (p ! (i + 2)) (p ! (i + 3)))"
  by (simp add: U32_AT_def)

lemma U32_AT_eq_None: "length p \<le> i + 3 \<Longrightarrow> U32_AT p i = None"
  by (auto simp: U32_AT_def fetch_def)

text \<open>A word that counts up to a bound comes closer to it with every step.\<close>

lemma unat_count_up: "i \<noteq> n \<Longrightarrow> unat (n - (i + 1)) < unat (n - i)"
  for i n :: "'a::len word"
proof -
  assume "i \<noteq> n"
  then have nz: "n - i \<noteq> 0" by auto
  then have "0 < unat (n - i)" by (simp add: unat_gt_0)
  moreover have "n - (i + 1) = (n - i) - 1" by simp
  ultimately show ?thesis using unat_minus_one [OF nz] by (simp only:)
qed

end
