(* ===== verification/BitReader.thy ===== *)
theory BitReader
  imports AvPrelude
begin

text \<open>
  media/libstagefright/foundation/ABitReader.cpp: \<open>ABitReader\<close> and \<open>NALBitReader\<close>.

  The buffer is a byte list, \<open>mData\<close> an index into it (an \<open>int\<close>, since \<open>putBits\<close>
  moves it backwards) and \<open>mReservoir\<close> a 32-bit word whose \<open>mNumBitsLeft\<close> top bits
  are unread. \<open>getBits\<close> calls the virtual \<open>fillReservoir\<close>, so it takes the refill
  as an argument. A shift of a 32-bit value by 32 has no meaning in C++; the code performs
  one in \<open>getBits\<close> (a full reservoir read at once), so shifts are taken from a machine
  about which only the behaviour common to the target processors is assumed.
\<close>

subsection \<open>Shifts of the target machine\<close>

record shift_unit =
  shl :: "u32 \<Rightarrow> nat \<Rightarrow> u32"
  shr :: "u32 \<Rightarrow> nat \<Rightarrow> u32"

locale shift_machine =
  fixes M :: shift_unit
  assumes shl_less: "n < 32 \<Longrightarrow> shl M w n = push_bit n w"
    and shr_less: "n < 32 \<Longrightarrow> shr M w n = drop_bit n w"
    and shl_zero: "shl M 0 n = 0"
    and shr_zero: "shr M 0 n = 0"

text \<open>ARM register shifts by 32 give zero; x86 uses the low five bits of the count.\<close>

definition arm_shifts :: shift_unit where
  "arm_shifts = \<lparr>shl = (\<lambda>w n. push_bit n w), shr = (\<lambda>w n. drop_bit n w)\<rparr>"

definition x86_shifts :: shift_unit where
  "x86_shifts = \<lparr>shl = (\<lambda>w n. push_bit (n mod 32) w), shr = (\<lambda>w n. drop_bit (n mod 32) w)\<rparr>"

interpretation arm: shift_machine arm_shifts
  by unfold_locales (simp_all add: arm_shifts_def)

interpretation x86: shift_machine x86_shifts
  by unfold_locales (simp_all add: x86_shifts_def)

subsection \<open>The readers\<close>

record bit_reader =
  buf :: "byte list"
  mData :: int
  mSize :: nat
  mReservoir :: u32
  mNumBitsLeft :: nat

record nal_reader = bit_reader +
  mNumZeros :: nat

text \<open>The constructors.\<close>

definition ABitReader :: "byte list \<Rightarrow> bit_reader" where
  "ABitReader data = \<lparr>buf = data, mData = 0, mSize = length data, mReservoir = 0, mNumBitsLeft = 0\<rparr>"

definition NALBitReader :: "byte list \<Rightarrow> nal_reader" where
  "NALBitReader data = \<lparr>buf = data, mData = 0, mSize = length data, mReservoir = 0,
     mNumBitsLeft = 0, mNumZeros = 0\<rparr>"

text \<open>\<open>*mData\<close>\<close>

definition deref :: "'a bit_reader_scheme \<Rightarrow> byte option" where
  "deref r = (if 0 \<le> mData r then fetch (buf r) (nat (mData r)) else None)"

text \<open>\<open>++mData; --mSize\<close>\<close>

definition advance :: "'a bit_reader_scheme \<Rightarrow> 'a bit_reader_scheme" where
  "advance r = r\<lparr>mData := mData r + 1, mSize := mSize r - 1\<rparr>"

text \<open>\<open>ABitReader::fillReservoir\<close>: the loop over at most four bytes, then the alignment.\<close>

function fill_loop :: "nat \<Rightarrow> 'a bit_reader_scheme \<Rightarrow> (nat \<times> 'a bit_reader_scheme) option" where
  "fill_loop i r =
     (if 0 < mSize r \<and> i < 4 then do {
        b \<leftarrow> deref r;
        fill_loop (Suc i) (advance (r\<lparr>mReservoir := push_bit 8 (mReservoir r) OR ucast b\<rparr>))
      } else Some (i, r))"
  by pat_completeness auto
termination
  by (relation "measure (\<lambda>(i, r). 4 - i)") auto

definition fillReservoir :: "shift_unit \<Rightarrow> 'a bit_reader_scheme \<Rightarrow> 'a bit_reader_scheme option" where
  "fillReservoir M r = do {
     CHECK (0 < mSize r);
     (i, r) \<leftarrow> fill_loop 0 (r\<lparr>mReservoir := 0\<rparr>);
     Some (r\<lparr>mNumBitsLeft := 8 * i, mReservoir := shl M (mReservoir r) (32 - 8 * i)\<rparr>)
   }"

text \<open>\<open>NALBitReader::fillReservoir\<close> drops emulation prevention bytes.\<close>

definition nal_step :: "byte \<Rightarrow> nat \<Rightarrow> nal_reader \<Rightarrow> nat \<times> nal_reader" where
  "nal_step b i r =
     (let isEmulationPreventionByte = (2 \<le> mNumZeros r \<and> b = 3);
          r = r\<lparr>mNumZeros := (if b = 0 then mNumZeros r + 1 else 0)\<rparr>
      in if isEmulationPreventionByte then (i, r)
         else (Suc i, r\<lparr>mReservoir := push_bit 8 (mReservoir r) OR ucast b\<rparr>))"

lemma mSize_nal_step [simp]: "mSize (snd (nal_step b i r)) = mSize r"
  by (simp add: nal_step_def Let_def)

lemma mSize_advance [simp]: "mSize (advance r) = mSize r - 1"
  by (simp add: advance_def)

function nal_fill_loop :: "nat \<Rightarrow> nal_reader \<Rightarrow> (nat \<times> nal_reader) option" where
  "nal_fill_loop i r =
     (if 0 < mSize r \<and> i < 4 then do {
        b \<leftarrow> deref r;
        nal_fill_loop (fst (nal_step b i r)) (advance (snd (nal_step b i r)))
      } else Some (i, r))"
  by pat_completeness auto
termination
  by (relation "measure (\<lambda>(i, r). mSize r)") auto

definition nal_fillReservoir :: "shift_unit \<Rightarrow> nal_reader \<Rightarrow> nal_reader option" where
  "nal_fillReservoir M r = do {
     CHECK (0 < mSize r);
     (i, r) \<leftarrow> nal_fill_loop 0 (r\<lparr>mReservoir := 0\<rparr>);
     Some (r\<lparr>mNumBitsLeft := 8 * i, mReservoir := shl M (mReservoir r) (32 - 8 * i)\<rparr>)
   }"

declare fill_loop.simps [simp del] nal_fill_loop.simps [simp del]

text \<open>
  \<open>getBits\<close>: the loop takes what the reservoir holds and refills it. The refill is the
  virtual \<open>fillReservoir\<close> of the object's class.
\<close>

partial_function (option) getBits_loop ::
  "shift_unit \<Rightarrow> ('a bit_reader_scheme \<Rightarrow> 'a bit_reader_scheme option) \<Rightarrow> nat \<Rightarrow> u32
    \<Rightarrow> 'a bit_reader_scheme \<Rightarrow> (u32 \<times> 'a bit_reader_scheme) option" where
  "getBits_loop M fill n result r =
     (if 0 < n then do {
        r \<leftarrow> (if mNumBitsLeft r = 0 then fill r else Some r);
        let m = (if n > mNumBitsLeft r then mNumBitsLeft r else n);
        getBits_loop M fill (n - m) (shl M result m OR shr M (mReservoir r) (32 - m))
          (r\<lparr>mReservoir := shl M (mReservoir r) m, mNumBitsLeft := mNumBitsLeft r - m\<rparr>)
      } else Some (result, r))"

definition getBits ::
  "shift_unit \<Rightarrow> ('a bit_reader_scheme \<Rightarrow> 'a bit_reader_scheme option) \<Rightarrow> nat
    \<Rightarrow> 'a bit_reader_scheme \<Rightarrow> (u32 \<times> 'a bit_reader_scheme) option" where
  "getBits M fill n r = do { CHECK (n \<le> 32); getBits_loop M fill n 0 r }"

fun skipBits ::
  "shift_unit \<Rightarrow> ('a bit_reader_scheme \<Rightarrow> 'a bit_reader_scheme option) \<Rightarrow> nat
    \<Rightarrow> 'a bit_reader_scheme \<Rightarrow> 'a bit_reader_scheme option" where
  "skipBits M fill n r =
     (if 32 < n then do { (_, r) \<leftarrow> getBits M fill 32 r; skipBits M fill (n - 32) r }
      else if 0 < n then do { (_, r) \<leftarrow> getBits M fill n r; Some r }
      else Some r)"

declare skipBits.simps [simp del]

text \<open>
  \<open>putBits\<close> pushes \<open>n\<close> bits back. The loop counts with \<open>int\<close>: the code's
  \<open>size_t\<close> may pass below zero there, where \<open>mNumBitsLeft + n > 32\<close> and the final
  \<open>+= n\<close> give the same values modulo \<open>2 ^ 64\<close>.
\<close>

function put_loop :: "int \<Rightarrow> nat \<Rightarrow> 'a bit_reader_scheme \<Rightarrow> int \<times> 'a bit_reader_scheme" where
  "put_loop k n r =
     (if k + int n > 32 then put_loop (k - 8) n (r\<lparr>mData := mData r - 1, mSize := mSize r + 1\<rparr>)
      else (k, r))"
  by pat_completeness auto
termination
  by (relation "measure (\<lambda>(k, n, r). nat (k + int n))") auto

declare put_loop.simps [simp del]

definition putBits ::
  "shift_unit \<Rightarrow> u32 \<Rightarrow> nat \<Rightarrow> 'a bit_reader_scheme \<Rightarrow> 'a bit_reader_scheme option" where
  "putBits M x n r = do {
     CHECK (n \<le> 32);
     let (k, r) = put_loop (int (mNumBitsLeft r)) n r;
     Some (r\<lparr>mReservoir := shr M (mReservoir r) n OR shl M x (32 - n),
             mNumBitsLeft := nat (k + int n)\<rparr>)
   }"

definition numBitsLeft :: "'a bit_reader_scheme \<Rightarrow> nat" where
  "numBitsLeft r = mSize r * 8 + mNumBitsLeft r"

definition data :: "'a bit_reader_scheme \<Rightarrow> int" where
  "data r = mData r - int ((mNumBitsLeft r + 7) div 8)"

text \<open>\<open>NALBitReader::atLeastNumBitsLeft\<close>\<close>

function at_least_loop :: "int \<Rightarrow> nat \<Rightarrow> 'a bit_reader_scheme \<Rightarrow> int option" where
  "at_least_loop numBitsRemaining numZeros r =
     (if 0 < mSize r \<and> 0 < numBitsRemaining then do {
        b \<leftarrow> deref r;
        let isEmulationPreventionByte = (2 \<le> numZeros \<and> b = 3);
        at_least_loop (if isEmulationPreventionByte then numBitsRemaining else numBitsRemaining - 8)
          (if b = 0 then numZeros + 1 else 0) (advance r)
      } else Some numBitsRemaining)"
  by pat_completeness auto
termination
  by (relation "measure (\<lambda>(k, z, r). mSize r)") auto

declare at_least_loop.simps [simp del]

definition atLeastNumBitsLeft :: "nat \<Rightarrow> nal_reader \<Rightarrow> bool option" where
  "atLeastNumBitsLeft n r =
     (if n > numBitsLeft r then Some False
      else do {
        k \<leftarrow> at_least_loop (int n - int (mNumBitsLeft r)) (mNumZeros r) r;
        Some (k \<le> 0)
      })"

subsection \<open>What the readers denote: the bits still to be read\<close>

definition pending :: "'a bit_reader_scheme \<Rightarrow> byte list" where
  "pending r = take (mSize r) (drop (nat (mData r)) (buf r))"

definition reader_inv :: "'a bit_reader_scheme \<Rightarrow> bool" where
  "reader_inv r \<longleftrightarrow> 0 \<le> mData r \<and> nat (mData r) + mSize r \<le> length (buf r) \<and> mNumBitsLeft r \<le> 32"

definition bytes_bits :: "byte list \<Rightarrow> bool list" where
  "bytes_bits bs = concat (map byte_bits bs)"

definition stream :: "'a bit_reader_scheme \<Rightarrow> bool list" where
  "stream r = top_bits (mNumBitsLeft r) (mReservoir r) @ bytes_bits (pending r)"

text \<open>The buffer and the end of its unread part, which reading never changes.\<close>

definition window :: "'a bit_reader_scheme \<Rightarrow> byte list \<times> int" where
  "window r = (buf r, mData r + int (mSize r))"

text \<open>The bytes of a NAL unit without its emulation prevention bytes.\<close>

fun unescape :: "nat \<Rightarrow> byte list \<Rightarrow> byte list" where
  "unescape z [] = []"
| "unescape z (b # bs) =
     (if 2 \<le> z \<and> b = 3 then unescape 0 bs else b # unescape (if b = 0 then Suc z else 0) bs)"

definition nal_stream :: "nal_reader \<Rightarrow> bool list" where
  "nal_stream r =
     top_bits (mNumBitsLeft r) (mReservoir r) @ bytes_bits (unescape (mNumZeros r) (pending r))"

lemma bytes_bits_simps [simp]:
  "bytes_bits [] = []" "bytes_bits (b # bs) = byte_bits b @ bytes_bits bs"
  "bytes_bits (xs @ ys) = bytes_bits xs @ bytes_bits ys"
  by (simp_all add: bytes_bits_def)

lemma length_bytes_bits [simp]: "length (bytes_bits bs) = 8 * length bs"
  by (induction bs) auto

lemma length_pending: "reader_inv r \<Longrightarrow> length (pending r) = mSize r"
  by (auto simp: pending_def reader_inv_def)

lemma pending_Nil_iff: "reader_inv r \<Longrightarrow> pending r = [] \<longleftrightarrow> mSize r = 0"
  by (metis length_pending length_0_conv)

lemma pending_Cons:
  assumes "reader_inv r" "0 < mSize r"
  obtains b where "deref r = Some b" "pending r = b # pending (advance r)" "reader_inv (advance r)"
proof
  let ?p = "nat (mData r)"
  have p: "?p < length (buf r)" and "0 \<le> mData r"
    using assms by (auto simp: reader_inv_def)
  then show "deref r = Some (buf r ! ?p)" by (simp add: deref_def)
  have "nat (mData r + 1) = Suc ?p" using \<open>0 \<le> mData r\<close> by simp
  then show "pending r = buf r ! ?p # pending (advance r)"
    using p assms(2) by (cases "mSize r") (auto simp: pending_def advance_def Cons_nth_drop_Suc [symmetric])
  show "reader_inv (advance r)"
    using assms by (auto simp: reader_inv_def advance_def)
qed

lemma pending_update [simp]:
  "pending (r\<lparr>mReservoir := w\<rparr>) = pending r" "pending (r\<lparr>mNumBitsLeft := k\<rparr>) = pending r"
  "pending (mNumZeros_update f q) = pending q"
  by (simp_all add: pending_def)

lemma reader_inv_update [simp]:
  "reader_inv (r\<lparr>mReservoir := w\<rparr>) = reader_inv r"
  "reader_inv (mNumZeros_update f q) = reader_inv q"
  by (simp_all add: reader_inv_def)

lemma deref_update [simp]:
  "deref (r\<lparr>mReservoir := w\<rparr>) = deref r" "deref (mNumZeros_update f q) = deref q"
  by (simp_all add: deref_def)

subsection \<open>The refill interface of getBits\<close>

text \<open>
  What \<open>getBits\<close> needs of a \<open>fillReservoir\<close>: from an empty reservoir it produces at
  least one bit as long as bits remain, loses none, and otherwise aborts or empties the
  buffer without producing a bit.
\<close>

locale refillable = shift_machine M for M +
  fixes fill :: "'a bit_reader_scheme \<Rightarrow> 'a bit_reader_scheme option"
    and rest :: "'a bit_reader_scheme \<Rightarrow> bool list"
  assumes refill: "reader_inv r \<Longrightarrow> mNumBitsLeft r = 0 \<Longrightarrow> rest r \<noteq> [] \<Longrightarrow>
      \<exists>r'. fill r = Some r' \<and> reader_inv r' \<and> 0 < mNumBitsLeft r' \<and>
        top_bits (mNumBitsLeft r') (mReservoir r') @ rest r' = rest r"
    and exhausted: "reader_inv r \<Longrightarrow> mNumBitsLeft r = 0 \<Longrightarrow> rest r = [] \<Longrightarrow> fill r = Some r' \<Longrightarrow>
      reader_inv r' \<and> mNumBitsLeft r' = 0 \<and> rest r' = [] \<and> mSize r' < mSize r"
    and refill_window: "fill r = Some r' \<Longrightarrow> window r' = window r"
    and rest_frame: "rest (r\<lparr>mReservoir := w, mNumBitsLeft := k\<rparr>) = rest r"
begin

definition remaining :: "'a bit_reader_scheme \<Rightarrow> bool list" where
  "remaining r = top_bits (mNumBitsLeft r) (mReservoir r) @ rest r"

lemma take_step:
  assumes "reader_inv r" "m \<le> mNumBitsLeft r" "0 < m"
  defines "r' \<equiv> r\<lparr>mReservoir := shl M (mReservoir r) m, mNumBitsLeft := mNumBitsLeft r - m\<rparr>"
  shows "reader_inv r'" "remaining r' = drop m (remaining r)"
    "length xs + m \<le> 32 \<Longrightarrow>
      shl M (of_bits xs) m OR shr M (mReservoir r) (32 - m) = of_bits (xs @ take m (remaining r))"
proof -
  from assms(1) have le: "mNumBitsLeft r \<le> 32" by (simp add: reader_inv_def)
  show "reader_inv r'" using assms(1) by (auto simp: r'_def reader_inv_def)
  have "top_bits (mNumBitsLeft r - m) (shl M (mReservoir r) m) = drop m (top_bits (mNumBitsLeft r) (mReservoir r))"
  proof (cases "m = 32")
    case True
    with assms(2) le show ?thesis by simp
  next
    case False
    with assms(2) le show ?thesis by (simp add: top_bits_drop shl_less)
  qed
  then show "remaining r' = drop m (remaining r)"
    using assms(2) by (simp add: remaining_def r'_def rest_frame)
  assume 32: "length xs + m \<le> 32"
  have "shl M (of_bits xs) m = push_bit m (of_bits xs)"
    using 32 by (cases "m = 32") (auto simp: shl_zero shl_less)
  moreover have "shr M (mReservoir r) (32 - m) = of_bits (top_bits m (mReservoir r))"
    using 32 assms(3) by (simp add: shr_less of_bits_top_bits)
  moreover have "take m (remaining r) = top_bits m (mReservoir r)"
    using assms(2) by (simp add: remaining_def top_bits_take)
  ultimately show "shl M (of_bits xs) m OR shr M (mReservoir r) (32 - m) = of_bits (xs @ take m (remaining r))"
    using 32 by (simp add: of_bits_append)
qed

text \<open>The refill at the head of the loop keeps the remaining bits.\<close>

lemma head_step:
  assumes "reader_inv r" "remaining r \<noteq> []"
  obtains r' where "(if mNumBitsLeft r = 0 then fill r else Some r) = Some r'"
    "reader_inv r'" "0 < mNumBitsLeft r'" "remaining r' = remaining r"
proof (cases "mNumBitsLeft r = 0")
  case True
  with assms refill [of r] show ?thesis
    using that by (auto simp: remaining_def)
next
  case False
  with assms show ?thesis using that by auto
qed

lemma getBits_loop_step:
  assumes "0 < n" "(if mNumBitsLeft r = 0 then fill r else Some r) = Some r1"
    "m = (if n > mNumBitsLeft r1 then mNumBitsLeft r1 else n)"
  shows "getBits_loop M fill n w r = getBits_loop M fill (n - m) (shl M w m OR shr M (mReservoir r1) (32 - m))
    (r1\<lparr>mReservoir := shl M (mReservoir r1) m, mNumBitsLeft := mNumBitsLeft r1 - m\<rparr>)"
  unfolding assms(3) by (subst getBits_loop.simps) (simp only: assms(1,2) if_True bind.bind_lunit Let_def)

lemma getBits_loop_correct:
  assumes "reader_inv r" "length xs + n \<le> 32" "n \<le> length (remaining r)"
  shows "\<exists>r'. getBits_loop M fill n (of_bits xs) r = Some (of_bits (xs @ take n (remaining r)), r')
    \<and> reader_inv r' \<and> remaining r' = drop n (remaining r)"
  using assms
proof (induction n arbitrary: xs r rule: less_induct)
  case (less n)
  show ?case
  proof (cases "n = 0")
    case True
    with less.prems show ?thesis by (simp add: getBits_loop.simps)
  next
    case False
    then have "remaining r \<noteq> []" using less.prems by auto
    with less.prems(1) obtain r1 where r1: "(if mNumBitsLeft r = 0 then fill r else Some r) = Some r1"
      "reader_inv r1" "0 < mNumBitsLeft r1" "remaining r1 = remaining r"
      by (rule head_step)
    define m where "m = min n (mNumBitsLeft r1)"
    have m: "0 < m" "m \<le> n" "m \<le> mNumBitsLeft r1" "length xs + m \<le> 32"
      using False r1(3) less.prems(2) by (simp_all add: m_def)
    define r2 where "r2 = r1\<lparr>mReservoir := shl M (mReservoir r1) m, mNumBitsLeft := mNumBitsLeft r1 - m\<rparr>"
    note step = take_step [OF r1(2) m(3,1), folded r2_def, unfolded r1(4)]
    let ?ys = "xs @ take m (remaining r)"
    have "length ?ys = length xs + m"
      using less.prems(3) m(2) by simp
    moreover have "n - m \<le> length (remaining r2)" "n - m < n"
      using less.prems(3) m(1) False by (simp_all add: step(2) diff_le_mono)
    ultimately have "\<exists>r'. getBits_loop M fill (n - m) (of_bits ?ys) r2
        = Some (of_bits (?ys @ take (n - m) (remaining r2)), r')
      \<and> reader_inv r' \<and> remaining r' = drop (n - m) (remaining r2)"
      using less.prems(2) m(2) by (intro less.IH step(1)) simp_all
    moreover have "?ys @ take (n - m) (remaining r2) = xs @ take n (remaining r)"
      using m(2) by (simp add: step(2) flip: take_add)
    moreover have "drop (n - m) (remaining r2) = drop n (remaining r)"
      using m(2) by (simp add: step(2))
    moreover have "getBits_loop M fill n (of_bits xs) r = getBits_loop M fill (n - m) (of_bits ?ys) r2"
      unfolding r2_def step(3) [OF m(4), symmetric]
      by (rule getBits_loop_step [OF _ r1(1)]) (use False in \<open>simp_all add: m_def\<close>)
    ultimately show ?thesis by simp
  qed
qed

text \<open>Too few bits: the refill runs dry and its \<open>CHECK\<close> aborts.\<close>

lemma getBits_loop_dry:
  assumes "reader_inv r" "remaining r = []" "0 < n"
  shows "getBits_loop M fill n w r = None"
  using assms
proof (induction "mSize r" arbitrary: w r rule: less_induct)
  case less
  from less.prems have 0: "mNumBitsLeft r = 0" "rest r = []"
    by (auto simp: remaining_def top_bits_def)
  show ?case
  proof (cases "fill r")
    case None
    with 0 less.prems show ?thesis by (simp add: getBits_loop.simps)
  next
    case (Some r1)
    note ex = exhausted [OF less.prems(1) 0 Some]
    let ?r2 = "r1\<lparr>mReservoir := shl M (mReservoir r1) 0, mNumBitsLeft := 0\<rparr>"
    have "getBits_loop M fill n (shl M w 0 OR shr M (mReservoir r1) 32) ?r2 = None"
      using ex less.prems by (intro less.hyps) (auto simp: remaining_def rest_frame reader_inv_def)
    with Some ex 0 less.prems show ?thesis
      by (subst getBits_loop.simps) simp
  qed
qed

lemma getBits_loop_short:
  assumes "reader_inv r" "length (remaining r) < n" "length xs + n \<le> 32"
  shows "getBits_loop M fill n (of_bits xs) r = None"
  using assms
proof (induction n arbitrary: xs r rule: less_induct)
  case (less n)
  show ?case
  proof (cases "remaining r = []")
    case True
    with less.prems show ?thesis by (auto intro: getBits_loop_dry)
  next
    case False
    with less.prems(1) obtain r1 where r1: "(if mNumBitsLeft r = 0 then fill r else Some r) = Some r1"
      "reader_inv r1" "0 < mNumBitsLeft r1" "remaining r1 = remaining r"
      by (rule head_step)
    define m where "m = mNumBitsLeft r1"
    have "m \<le> length (remaining r1)" by (simp add: remaining_def m_def)
    with less.prems r1(3,4) have m: "0 < m" "m < n" "length xs + m \<le> 32"
      by (simp_all add: m_def)
    define r2 where "r2 = r1\<lparr>mReservoir := shl M (mReservoir r1) m, mNumBitsLeft := mNumBitsLeft r1 - m\<rparr>"
    note step = take_step [OF r1(2) eq_refl [OF m_def] m(1), folded r2_def, unfolded r1(4)]
    let ?ys = "xs @ take m (remaining r)"
    have "length (remaining r2) < n - m"
      using less.prems(2) m \<open>m \<le> length (remaining r1)\<close> by (simp add: step(2) r1(4))
    moreover have "length ?ys + (n - m) \<le> 32"
      using less.prems(3) m by simp
    ultimately have "getBits_loop M fill (n - m) (of_bits ?ys) r2 = None"
      using m(1,2) by (intro less.IH step(1)) simp_all
    moreover have "getBits_loop M fill n (of_bits xs) r = getBits_loop M fill (n - m) (of_bits ?ys) r2"
      unfolding r2_def step(3) [OF m(3), symmetric]
      by (rule getBits_loop_step [OF _ r1(1)]) (use m in \<open>simp_all add: m_def\<close>)
    ultimately show ?thesis by simp
  qed
qed

lemma getBits_loop_window:
  assumes "getBits_loop M fill n w r = Some (v, r')"
  shows "window r' = window r"
proof -
  have "(\<forall>r r'. fill r = Some r' \<longrightarrow> window r' = window r) \<longrightarrow> window (snd p) = window r"
    if "getBits_loop M fill n w r = Some p" for p
  proof (rule getBits_loop.raw_induct [OF _ that, where
        P = "\<lambda>M fill n w r p. (\<forall>r r'. fill r = Some r' \<longrightarrow> window r' = window r) \<longrightarrow> window (snd p) = window r"])
    fix g M fill n w r p
    assume IH: "\<And>M fill n w r p. g M fill n w r = Some p \<Longrightarrow>
        (\<forall>r r'. fill r = Some r' \<longrightarrow> window r' = window r) \<longrightarrow> window (snd p) = window r"
      and eq: "(if 0 < n then (if mNumBitsLeft r = 0 then fill r else Some r) \<bind>
        (\<lambda>r. let m = if mNumBitsLeft r < n then mNumBitsLeft r else n
          in g M fill (n - m) (shl M w m OR shr M (mReservoir r) (32 - m))
            (r\<lparr>mReservoir := shl M (mReservoir r) m, mNumBitsLeft := mNumBitsLeft r - m\<rparr>))
        else Some (w, r)) = Some p"
    show "(\<forall>r r'. fill r = Some r' \<longrightarrow> window r' = window r) \<longrightarrow> window (snd p) = window r"
    proof
      assume fill: "\<forall>r r'. fill r = Some r' \<longrightarrow> window r' = window r"
      show "window (snd p) = window r"
      proof (cases "0 < n")
        case True
        with eq obtain r1 m where r1: "(if mNumBitsLeft r = 0 then fill r else Some r) = Some r1"
          "g M fill (n - m) (shl M w m OR shr M (mReservoir r1) (32 - m))
            (r1\<lparr>mReservoir := shl M (mReservoir r1) m, mNumBitsLeft := mNumBitsLeft r1 - m\<rparr>) = Some p"
          by (auto simp: Let_def bind_eq_Some_conv)
        from IH [OF r1(2)] fill have "window (snd p) = window r1" by (simp add: window_def)
        moreover from r1(1) fill have "window r1 = window r" by (auto split: if_splits)
        ultimately show ?thesis by simp
      qed (use eq in auto)
    qed
  qed
  with assms refill_window show ?thesis by auto
qed

lemma getBits_window: "getBits M fill n r = Some (v, r') \<Longrightarrow> window r' = window r"
  by (auto simp: getBits_def intro: getBits_loop_window)

lemma getBits_correct:
  assumes "reader_inv r" "n \<le> 32" "n \<le> length (remaining r)"
  shows "\<exists>r'. getBits M fill n r = Some (of_bits (take n (remaining r)), r')
    \<and> reader_inv r' \<and> remaining r' = drop n (remaining r)"
  using getBits_loop_correct [of r "[]" n] assms by (simp add: getBits_def)

lemma getBits_aborts_iff:
  assumes "reader_inv r"
  shows "getBits M fill n r = None \<longleftrightarrow> 32 < n \<or> length (remaining r) < n"
proof (cases "n \<le> 32")
  case True
  with assms getBits_correct [of r n] getBits_loop_short [of r n "[]"] show ?thesis
    by (cases "n \<le> length (remaining r)") (auto simp: getBits_def)
next
  case False
  then show ?thesis by (simp add: getBits_def)
qed

lemma skipBits_correct:
  assumes "reader_inv r" "n \<le> length (remaining r)"
  shows "\<exists>r'. skipBits M fill n r = Some r' \<and> reader_inv r' \<and> remaining r' = drop n (remaining r)"
  using assms
proof (induction n arbitrary: r rule: less_induct)
  case (less n)
  consider "32 < n" | "0 < n" "n \<le> 32" | "n = 0" by linarith
  then show ?case
  proof cases
    case 1
    then obtain r1 where r1: "getBits M fill 32 r = Some (of_bits (take 32 (remaining r)), r1)"
      "reader_inv r1" "remaining r1 = drop 32 (remaining r)"
      using getBits_correct [of r 32] less.prems by auto
    moreover obtain r2 where "skipBits M fill (n - 32) r1 = Some r2" "reader_inv r2"
      "remaining r2 = drop (n - 32) (remaining r1)"
      using less.IH [of "n - 32" r1] 1 less.prems r1 by (auto simp: diff_le_mono)
    ultimately show ?thesis using 1 by (subst skipBits.simps) simp
  next
    case 2
    with getBits_correct [of r n] less.prems show ?thesis
      by (subst skipBits.simps) auto
  next
    case 3
    with less.prems show ?thesis by (subst skipBits.simps) simp
  qed
qed

end

subsection \<open>Both readers provide the interface\<close>

lemma window_simps [simp]:
  "0 < mSize r \<Longrightarrow> window (advance r) = window r"
  "window (r\<lparr>mReservoir := w\<rparr>) = window r" "window (r\<lparr>mNumBitsLeft := k\<rparr>) = window r"
  "window (snd (nal_step b i q)) = window q"
  by (auto simp: window_def advance_def nal_step_def Let_def)

lemma fill_loop_window: "fill_loop i r = Some (j, r') \<Longrightarrow> window r' = window r"
proof (induction i r arbitrary: j r' rule: fill_loop.induct)
  case (1 i r)
  from "1.prems" "1.IH" show ?case
    by (subst (asm) fill_loop.simps) (fastforce simp: bind_eq_Some_conv split: if_splits)
qed

lemma nal_fill_loop_window: "nal_fill_loop i r = Some (j, r') \<Longrightarrow> window r' = window r"
proof (induction i r arbitrary: j r' rule: nal_fill_loop.induct)
  case (1 i r)
  from "1.prems" "1.IH" show ?case
    by (subst (asm) nal_fill_loop.simps) (fastforce simp: bind_eq_Some_conv split: if_splits)
qed

lemma fill_loop_correct:
  assumes "reader_inv r" "mReservoir r = of_bits xs" "length xs = 8 * i" "i \<le> 4"
  defines "k \<equiv> min (4 - i) (mSize r)"
  shows "\<exists>r'. fill_loop i r = Some (i + k, r') \<and> reader_inv r' \<and> mSize r' = mSize r - k
    \<and> mReservoir r' = of_bits (xs @ bytes_bits (take k (pending r))) \<and> pending r' = drop k (pending r)"
  using assms(1-4) unfolding k_def
proof (induction i r arbitrary: xs rule: fill_loop.induct)
  case (1 i r)
  show ?case
  proof (cases "0 < mSize r \<and> i < 4")
    case True
    with "1.prems"(1) obtain b where b: "deref r = Some b" "pending r = b # pending (advance r)"
      by (auto elim: pending_Cons)
    define r1 where "r1 = advance (r\<lparr>mReservoir := push_bit 8 (mReservoir r) OR ucast b\<rparr>)"
    have r1: "reader_inv r1" "pending r1 = pending (advance r)" "mSize r1 = mSize r - 1"
      using "1.prems"(1) True by (auto simp: r1_def advance_def reader_inv_def pending_def)
    have "mReservoir r1 = of_bits (xs @ byte_bits b)"
      by (simp add: r1_def advance_def "1.prems"(2) of_bits_append of_bits_byte_bits)
    then have "\<exists>r'. fill_loop (Suc i) r1 = Some (Suc i + min (4 - Suc i) (mSize r1), r') \<and> reader_inv r'
        \<and> mSize r' = mSize r1 - min (4 - Suc i) (mSize r1)
        \<and> mReservoir r' = of_bits ((xs @ byte_bits b) @ bytes_bits (take (min (4 - Suc i) (mSize r1)) (pending r1)))
        \<and> pending r' = drop (min (4 - Suc i) (mSize r1)) (pending r1)"
      unfolding r1_def [symmetric] using r1 True "1.prems"
      by (intro "1.IH" [of b, folded r1_def]) (auto simp: b)
    moreover have "fill_loop i r = fill_loop (Suc i) r1"
      using True b by (subst fill_loop.simps) (simp add: r1_def)
    moreover have "min (4 - i) (mSize r) = Suc (min (4 - Suc i) (mSize r1))"
      using True r1 by auto
    ultimately show ?thesis using r1 b by auto
  next
    case False
    then have "min (4 - i) (mSize r) = 0" using "1.prems" by auto
    moreover have "fill_loop i r = Some (i, r)"
      using False by (subst fill_loop.simps) auto
    ultimately show ?thesis using "1.prems" by simp
  qed
qed

lemma mNumBitsLeft_aligned:
  assumes "length ys = 8 * i" "i \<le> 4"
  shows "top_bits (8 * i) (push_bit (32 - 8 * i) (of_bits ys)) = ys"
  using top_bits_push_of_bits [of ys] assms by simp

lemma shl_aligned:
  assumes "shift_machine M" "length ys = 8 * i" "i \<le> 4"
  shows "top_bits (8 * i) (shl M (of_bits ys) (32 - 8 * i)) = ys"
proof (cases "i = 0")
  case False
  then show ?thesis
    using assms mNumBitsLeft_aligned [of ys i] by (simp add: shift_machine.shl_less)
qed (use assms in simp)

lemma fillReservoir_refill:
  assumes "shift_machine M" "reader_inv r" "pending r \<noteq> []"
  shows "\<exists>r'. fillReservoir M r = Some r' \<and> reader_inv r' \<and> 0 < mNumBitsLeft r' \<and> stream r' = bytes_bits (pending r)"
proof -
  have pos: "0 < mSize r" using assms(2,3) by (simp add: pending_Nil_iff)
  define k where "k = min 4 (mSize r)"
  obtain r1 where r1: "fill_loop 0 (r\<lparr>mReservoir := 0\<rparr>) = Some (k, r1)" "reader_inv r1"
    "mReservoir r1 = of_bits (bytes_bits (take k (pending r)))" "pending r1 = drop k (pending r)"
    using fill_loop_correct [of "r\<lparr>mReservoir := 0\<rparr>" "[]" 0] assms(2) by (auto simp: k_def)
  define r2 where "r2 = r1\<lparr>mNumBitsLeft := 8 * k, mReservoir := shl M (mReservoir r1) (32 - 8 * k)\<rparr>"
  have k: "0 < k" "k \<le> 4" "length (take k (pending r)) = k"
    using pos assms(2) by (auto simp: k_def length_pending)
  have "fillReservoir M r = Some r2"
    using pos r1 by (simp add: fillReservoir_def r2_def)
  moreover have "reader_inv r2" using r1(2) k by (auto simp: r2_def reader_inv_def)
  moreover have "stream r2 = bytes_bits (pending r)"
    using k r1(3,4) shl_aligned [OF assms(1), of "bytes_bits (take k (pending r))" k]
    by (simp add: stream_def r2_def flip: bytes_bits_simps(3))
  ultimately show ?thesis using k by (auto simp: r2_def)
qed

sublocale shift_machine \<subseteq> abit: refillable M "fillReservoir M" "\<lambda>r. bytes_bits (pending r)"
proof unfold_locales
  fix r :: "'a bit_reader_scheme"
  assume "reader_inv r" "bytes_bits (pending r) \<noteq> []"
  then show "\<exists>r'. fillReservoir M r = Some r' \<and> reader_inv r' \<and> 0 < mNumBitsLeft r' \<and>
      top_bits (mNumBitsLeft r') (mReservoir r') @ bytes_bits (pending r') = bytes_bits (pending r)"
    using fillReservoir_refill [OF shift_machine_axioms, of r] by (cases "pending r") (auto simp: stream_def)
next
  fix r r' :: "'a bit_reader_scheme"
  assume r: "reader_inv r" "bytes_bits (pending r) = []" "fillReservoir M r = Some r'"
  then have "pending r = []" by (metis length_bytes_bits length_0_conv mult_is_0 zero_neq_numeral)
  with r show "reader_inv r' \<and> mNumBitsLeft r' = 0 \<and> bytes_bits (pending r') = [] \<and> mSize r' < mSize r"
    by (simp add: fillReservoir_def pending_Nil_iff)
next
  fix r r' :: "'a bit_reader_scheme"
  assume "fillReservoir M r = Some r'"
  then show "window r' = window r"
    by (auto simp: fillReservoir_def bind_eq_Some_conv dest!: fill_loop_window)
qed (simp add: pending_def)

text \<open>The NAL reader: the same loop over the bytes that survive the unescaping.\<close>

lemma nal_step_frame [simp]:
  "reader_inv (snd (nal_step b i r)) = reader_inv r" "pending (snd (nal_step b i r)) = pending r"
  "deref (snd (nal_step b i r)) = deref r"
  by (simp_all add: nal_step_def Let_def)

lemma advance_frame [simp]:
  "mReservoir (advance r) = mReservoir r" "mNumBitsLeft (advance r) = mNumBitsLeft r"
  "mNumZeros (advance q) = mNumZeros q"
  by (simp_all add: advance_def)

lemma pending_nal_step [simp]: "pending (advance (snd (nal_step b i r))) = pending (advance r)"
  by (simp add: nal_step_def Let_def advance_def pending_def)

lemma reader_inv_nal_step [simp]: "reader_inv (advance (snd (nal_step b i r))) = reader_inv (advance r)"
  by (simp add: nal_step_def Let_def advance_def reader_inv_def)

lemma nal_fill_loop_correct:
  assumes "reader_inv r" "mReservoir r = of_bits xs" "length xs = 8 * i" "i \<le> 4"
  shows "\<exists>j r' ys. nal_fill_loop i r = Some (j, r') \<and> reader_inv r' \<and> i \<le> j \<and> j \<le> 4
    \<and> mReservoir r' = of_bits (xs @ bytes_bits ys) \<and> length ys = j - i
    \<and> ys @ unescape (mNumZeros r') (pending r') = unescape (mNumZeros r) (pending r)
    \<and> (mSize r' = 0 \<or> j = 4) \<and> mSize r' \<le> mSize r"
  using assms
proof (induction i r arbitrary: xs rule: nal_fill_loop.induct)
  case (1 i r)
  show ?case
  proof (cases "0 < mSize r \<and> i < 4")
    case True
    with "1.prems"(1) obtain b where b: "deref r = Some b" "pending r = b # pending (advance r)"
      "reader_inv (advance r)"
      by (auto elim: pending_Cons)
    define r1 where "r1 = advance (snd (nal_step b i r))"
    have eq: "nal_fill_loop i r = nal_fill_loop (fst (nal_step b i r)) r1"
      using True b by (subst nal_fill_loop.simps) (simp add: r1_def)
    have r1: "reader_inv r1" "pending r1 = pending (advance r)" "mSize r1 < mSize r"
      using b True by (simp_all add: r1_def)
    note IH = "1.IH" [OF True b(1), folded r1_def]
    show ?thesis
    proof (cases "2 \<le> mNumZeros r \<and> b = 3")
      case skip: True
      then have step: "fst (nal_step b i r) = i" "mReservoir r1 = mReservoir r" "mNumZeros r1 = 0"
        by (simp_all add: nal_step_def r1_def)
      have "unescape (mNumZeros r) (pending r) = unescape (mNumZeros r1) (pending r1)"
        using skip step b r1 by simp
      with IH [of xs] step r1 eq "1.prems" show ?thesis by fastforce
    next
      case keep: False
      then have step: "fst (nal_step b i r) = Suc i" "mReservoir r1 = of_bits (xs @ byte_bits b)"
        "mNumZeros r1 = (if b = 0 then Suc (mNumZeros r) else 0)"
        using "1.prems"(2)
        by (auto simp: nal_step_def r1_def of_bits_append of_bits_byte_bits)
      have un: "unescape (mNumZeros r) (pending r) = b # unescape (mNumZeros r1) (pending r1)"
        using keep step b r1 by auto
      obtain j r' ys where j: "nal_fill_loop (Suc i) r1 = Some (j, r')" "reader_inv r'" "Suc i \<le> j" "j \<le> 4"
        "mReservoir r' = of_bits ((xs @ byte_bits b) @ bytes_bits ys)" "length ys = j - Suc i"
        "ys @ unescape (mNumZeros r') (pending r') = unescape (mNumZeros r1) (pending r1)"
        "mSize r' = 0 \<or> j = 4" "mSize r' \<le> mSize r1"
        using IH [of "xs @ byte_bits b"] step r1(1) "1.prems"(3,4) True by fastforce
      show ?thesis
        using j eq step r1 un
        by (intro exI [of _ j] exI [of _ r'] exI [of _ "b # ys"]) auto
    qed
  next
    case False
    then have "nal_fill_loop i r = Some (i, r)"
      by (subst nal_fill_loop.simps) auto
    with False "1.prems" show ?thesis
      by (intro exI [of _ i] exI [of _ r] exI [of _ "[]"]) auto
  qed
qed

lemma nal_fillReservoir_cases:
  assumes "shift_machine M" "reader_inv r" "nal_fillReservoir M r = Some r'"
  shows "reader_inv r'" "nal_stream r' = bytes_bits (unescape (mNumZeros r) (pending r))"
    "mNumBitsLeft r' = 0 \<Longrightarrow> mSize r' = 0 \<and> mSize r' < mSize r"
proof -
  obtain j r1 ys where j: "nal_fill_loop 0 (r\<lparr>mReservoir := 0\<rparr>) = Some (j, r1)" "reader_inv r1" "j \<le> 4"
    "mReservoir r1 = of_bits (bytes_bits ys)" "length ys = j"
    "ys @ unescape (mNumZeros r1) (pending r1) = unescape (mNumZeros r) (pending r)"
    "mSize r1 = 0 \<or> j = 4" "mSize r1 \<le> mSize r"
    using nal_fill_loop_correct [of "r\<lparr>mReservoir := 0\<rparr>" "[]" 0] assms(2) by auto
  have pos: "0 < mSize r" using assms(3) by (simp add: nal_fillReservoir_def)
  have r': "r' = r1\<lparr>mNumBitsLeft := 8 * j, mReservoir := shl M (mReservoir r1) (32 - 8 * j)\<rparr>"
    using assms(3) j(1) by (simp add: nal_fillReservoir_def)
  show "reader_inv r'" using j(2,3) by (auto simp: r' reader_inv_def)
  show "nal_stream r' = bytes_bits (unescape (mNumZeros r) (pending r))"
    using j(4-6) shl_aligned [OF assms(1), of "bytes_bits ys" j] j(3)
    by (simp add: nal_stream_def r' flip: bytes_bits_simps(3))
  show "mSize r' = 0 \<and> mSize r' < mSize r" if "mNumBitsLeft r' = 0"
    using that j pos by (auto simp: r')
qed

lemma nal_fillReservoir_total:
  assumes "reader_inv r" "0 < mSize r"
  shows "\<exists>r'. nal_fillReservoir M r = Some r'"
  using nal_fill_loop_correct [of "r\<lparr>mReservoir := 0\<rparr>" "[]" 0] assms
  by (auto simp: nal_fillReservoir_def)

sublocale shift_machine \<subseteq>
  nal: refillable M "nal_fillReservoir M" "\<lambda>r. bytes_bits (unescape (mNumZeros r) (pending r))"
proof unfold_locales
  fix r :: nal_reader
  assume r: "reader_inv r" "mNumBitsLeft r = 0" "bytes_bits (unescape (mNumZeros r) (pending r)) \<noteq> []"
  then have "pending r \<noteq> []" by auto
  with r obtain r' where r': "nal_fillReservoir M r = Some r'"
    using nal_fillReservoir_total [of r M] by (auto simp: pending_Nil_iff)
  note c = nal_fillReservoir_cases [OF shift_machine_axioms r(1) r']
  have "0 < mNumBitsLeft r'"
  proof (rule ccontr)
    assume "\<not> 0 < mNumBitsLeft r'"
    then have "nal_stream r' = []"
      using c(1,3) by (simp add: nal_stream_def pending_def)
    with c(2) r(3) show False by simp
  qed
  with c r' show "\<exists>r'. nal_fillReservoir M r = Some r' \<and> reader_inv r' \<and> 0 < mNumBitsLeft r' \<and>
      top_bits (mNumBitsLeft r') (mReservoir r') @ bytes_bits (unescape (mNumZeros r') (pending r')) =
      bytes_bits (unescape (mNumZeros r) (pending r))"
    by (auto simp: nal_stream_def)
next
  fix r r' :: nal_reader
  assume r: "reader_inv r" "bytes_bits (unescape (mNumZeros r) (pending r)) = []"
    "nal_fillReservoir M r = Some r'"
  note c = nal_fillReservoir_cases [OF shift_machine_axioms r(1,3)]
  from c(2) r(2) have "nal_stream r' = []" by simp
  then have "mNumBitsLeft r' = 0" and "bytes_bits (unescape (mNumZeros r') (pending r')) = []"
    by (auto simp: nal_stream_def top_bits_def)
  with c show "reader_inv r' \<and> mNumBitsLeft r' = 0 \<and> bytes_bits (unescape (mNumZeros r') (pending r')) = []
    \<and> mSize r' < mSize r"
    by simp
next
  fix r r' :: nal_reader
  assume "nal_fillReservoir M r = Some r'"
  then show "window r' = window r"
    by (auto simp: nal_fillReservoir_def bind_eq_Some_conv dest!: nal_fill_loop_window)
qed (simp add: pending_def)

subsection \<open>The readers as cursors over the bits of the buffer\<close>

text \<open>
  The reservoir of an \<open>ABitReader\<close> that was only read from still agrees with the bytes
  before \<open>mData\<close>: the reader is a cursor, \<open>8 * mData - mNumBitsLeft\<close>, into the bits of
  the buffer.
\<close>

definition synced :: "'a bit_reader_scheme \<Rightarrow> bool" where
  "synced r \<longleftrightarrow> reader_inv r \<and> mNumBitsLeft r \<le> 8 * nat (mData r) \<and>
     stream r = take (8 * mSize r + mNumBitsLeft r)
       (drop (8 * nat (mData r) - mNumBitsLeft r) (bytes_bits (buf r)))"

lemma bytes_bits_drop: "bytes_bits (drop n bs) = drop (8 * n) (bytes_bits bs)"
  by (induction bs arbitrary: n) (auto simp: drop_Cons split: nat.split)

lemma bytes_bits_take: "bytes_bits (take n bs) = take (8 * n) (bytes_bits bs)"
  by (induction bs arbitrary: n) (auto simp: take_Cons split: nat.split)

lemma synced_ABitReader: "synced (ABitReader bs)"
  by (simp add: synced_def ABitReader_def reader_inv_def stream_def pending_def)

lemma mNumBitsLeft_ABitReader: "mNumBitsLeft (ABitReader bs) = 0"
  by (simp add: ABitReader_def)

lemma length_stream: "reader_inv r \<Longrightarrow> length (stream r) = numBitsLeft r"
  by (simp add: stream_def numBitsLeft_def length_pending)

text \<open>The last \<open>q\<close> bytes before \<open>mData\<close> are the last \<open>8 * q\<close> bits of the reservoir.\<close>

lemma synced_tail:
  assumes "synced r" "8 * q \<le> mNumBitsLeft r"
  shows "bytes_bits (take q (drop (nat (mData r) - q) (buf r)))
    = drop (mNumBitsLeft r - 8 * q) (top_bits (mNumBitsLeft r) (mReservoir r))"
proof -
  let ?k = "mNumBitsLeft r" and ?p = "nat (mData r)" and ?bs = "bytes_bits (buf r)"
  have k: "?k \<le> 8 * ?p" using assms(1) by (simp add: synced_def)
  have "stream r = take (8 * mSize r + ?k) (drop (8 * ?p - ?k) ?bs)"
    using assms(1) by (simp add: synced_def)
  then have "take ?k (stream r) = take ?k (drop (8 * ?p - ?k) ?bs)"
    by (simp add: take_take)
  moreover have "take ?k (stream r) = top_bits ?k (mReservoir r)" by (simp add: stream_def)
  moreover have "?k - 8 * q + (8 * ?p - ?k) = 8 * ?p - 8 * q" "?k - (?k - 8 * q) = 8 * q"
    using assms(2) k by simp_all
  ultimately have "drop (?k - 8 * q) (top_bits ?k (mReservoir r)) = take (8 * q) (drop (8 * ?p - 8 * q) ?bs)"
    by (metis drop_take drop_drop)
  moreover have "8 * ?p - 8 * q = 8 * (?p - q)" by simp
  ultimately show ?thesis by (simp only: bytes_bits_take bytes_bits_drop)
qed

definition low_bits :: "nat \<Rightarrow> u32 \<Rightarrow> bool list" where
  "low_bits n x = top_bits n (push_bit (32 - n) x)"

lemma of_bits_low_bits: "n \<le> 32 \<Longrightarrow> of_bits (low_bits n x) = take_bit n x"
  by (rule bit_word_eqI) (auto simp: low_bits_def of_bits_top_bits bit_simps)

lemma put_loop_eq:
  "put_loop k n r = (k - 8 * int q, r\<lparr>mData := mData r - int q, mSize := mSize r + q\<rparr>)"
  if "q = nat ((k + int n - 32 + 7) div 8)"
  using that
proof (induction k n r arbitrary: q rule: put_loop.induct)
  case (1 k n r)
  show ?case
  proof (cases "k + int n > 32")
    case True
    then have q: "q = Suc (nat ((k - 8 + int n - 32 + 7) div 8))"
      using "1.prems" by linarith
    with "1.IH" [OF True refl] True show ?thesis
      by (subst put_loop.simps) (simp add: algebra_simps)
  next
    case False
    then have "q = 0" using "1.prems" by simp
    with False show ?thesis by (subst put_loop.simps) simp
  qed
qed

context shift_machine
begin

lemma top_bits_put:
  assumes "0 < n" "n < 32" "j + n \<le> 32"
  shows "top_bits (j + n) (shr M w n OR shl M x (32 - n)) = low_bits n x @ top_bits j w"
proof (rule nth_equalityI)
  fix i
  assume "i < length (top_bits (j + n) (shr M w n OR shl M x (32 - n)))"
  then have i: "i < j + n" by simp
  have "bit w (n + (31 - i)) \<longleftrightarrow> n \<le> i \<and> bit w (31 - (i - n))"
  proof (cases "n \<le> i")
    case True
    then have "n + (31 - i) = 31 - (i - n)" using i assms by simp
    with True show ?thesis by simp
  next
    case False
    then have "32 \<le> n + (31 - i)" by simp
    with False show ?thesis by (auto dest: bit_imp_le_length)
  qed
  moreover have "bit (push_bit (32 - n) x) (31 - i) \<longleftrightarrow> i < n \<and> bit (push_bit (32 - n) x) (31 - i)"
    using assms by (auto simp: bit_simps)
  ultimately show "top_bits (j + n) (shr M w n OR shl M x (32 - n)) ! i = (low_bits n x @ top_bits j w) ! i"
    using i assms by (auto simp: low_bits_def nth_append shl_less shr_less bit_or_iff bit_drop_bit_eq)
qed (simp add: low_bits_def)

lemma putBits_stream:
  assumes "synced r" "0 < n" "n < 32" "mNumBitsLeft r mod 8 + n \<le> 32"
  shows "\<exists>r'. putBits M x n r = Some r' \<and> reader_inv r' \<and> stream r' = low_bits n x @ stream r"
proof -
  let ?k = "mNumBitsLeft r"
  define q where "q = nat ((int ?k + int n - 32 + 7) div 8)"
  have "int ?k + int n - 32 + 7 \<le> 8 * int (?k div 8) + 7" using assms(4) by presburger
  then have "(int ?k + int n - 32 + 7) div 8 \<le> int (?k div 8)" by linarith
  then have "q \<le> ?k div 8" by (simp add: q_def nat_le_iff)
  then have q: "8 * q \<le> ?k" "?k - 8 * q + n \<le> 32"
    using assms(3) unfolding q_def by linarith+
  have inv: "reader_inv r" and k8: "?k \<le> 8 * nat (mData r)" using assms(1) by (simp_all add: synced_def)
  define r' where "r' = r\<lparr>mData := mData r - int q, mSize := mSize r + q,
      mReservoir := shr M (mReservoir r) n OR shl M x (32 - n), mNumBitsLeft := ?k - 8 * q + n\<rparr>"
  have "nat (int ?k - 8 * int q + int n) = ?k - 8 * q + n" using q by simp
  then have "putBits M x n r = Some r'"
    using assms(3) by (simp add: putBits_def put_loop_eq [OF q_def] r'_def)
  moreover have "q \<le> nat (mData r)" using q(1) k8 by linarith
  then have "int q \<le> mData r" using inv by (simp add: reader_inv_def le_nat_iff)
  then have pos: "nat (mData r - int q) = nat (mData r) - q" "q \<le> nat (mData r)" by auto
  then have "reader_inv r'" using inv q by (auto simp: reader_inv_def r'_def)
  moreover have "pending r' = take q (drop (nat (mData r) - q) (buf r)) @ pending r"
  proof -
    have "pending r' = take (q + mSize r) (drop (nat (mData r) - q) (buf r))"
      using pos by (simp add: pending_def r'_def add.commute)
    also have "\<dots> = take q (drop (nat (mData r) - q) (buf r)) @ take (mSize r) (drop q (drop (nat (mData r) - q) (buf r)))"
      by (simp only: take_add)
    finally show ?thesis using pos(2) by (simp add: pending_def)
  qed
  then have "stream r' = low_bits n x @ stream r"
    using top_bits_put [OF assms(2,3) q(2), of "mReservoir r" x] synced_tail [OF assms(1) q(1)]
      top_bits_take [of "?k - 8 * q" ?k "mReservoir r"]
    by (simp add: stream_def r'_def) (metis append_assoc append_take_drop_id)
  ultimately show ?thesis by blast
qed

end

context shift_machine
begin

lemma getBits_synced:
  assumes "synced r" "getBits M (fillReservoir M) n r = Some (v, r')"
  shows "synced r' \<and> 8 * mData r' - int (mNumBitsLeft r') = 8 * mData r - int (mNumBitsLeft r) + int n"
proof -
  from assms(1) have r: "reader_inv r" "mNumBitsLeft r \<le> 8 * nat (mData r)"
    "stream r = take (8 * mSize r + mNumBitsLeft r) (drop (8 * nat (mData r) - mNumBitsLeft r) (bytes_bits (buf r)))"
    by (simp_all add: synced_def)
  from assms(2) r(1) have n: "n \<le> 32" "n \<le> length (stream r)"
    using abit.getBits_aborts_iff [of r n] by (auto simp: abit.remaining_def stream_def)
  with assms(2) r(1) have r': "reader_inv r'" "stream r' = drop n (stream r)"
    using abit.getBits_correct [of r n] by (auto simp: abit.remaining_def stream_def)
  have len: "numBitsLeft r' = numBitsLeft r - n" "n \<le> numBitsLeft r"
    using r'(2) n(2) r(1) r'(1) by (auto simp flip: length_stream)
  have w: "buf r' = buf r" "mData r' + int (mSize r') = mData r + int (mSize r)"
    using abit.getBits_window [OF assms(2)] by (simp_all add: window_def)
  have cursor: "8 * mData r' - int (mNumBitsLeft r') = 8 * mData r - int (mNumBitsLeft r) + int n"
    using len w(2) unfolding numBitsLeft_def by linarith
  have pos: "0 \<le> mData r" "0 \<le> mData r'" using r(1) r'(1) by (simp_all add: reader_inv_def)
  then have k: "mNumBitsLeft r' \<le> 8 * nat (mData r')"
    "8 * nat (mData r') - mNumBitsLeft r' = n + (8 * nat (mData r) - mNumBitsLeft r)"
    using cursor r(2) by linarith+
  have "8 * mSize r' + mNumBitsLeft r' = 8 * mSize r + mNumBitsLeft r - n"
    using len by (simp add: numBitsLeft_def mult.commute)
  with r'(2) r(3) w(1) k have "stream r' = take (8 * mSize r' + mNumBitsLeft r')
      (drop (8 * nat (mData r') - mNumBitsLeft r') (bytes_bits (buf r')))"
    by (simp add: drop_take add.commute)
  with k r'(1) cursor show ?thesis by (simp add: synced_def)
qed

lemma putBits_getBits:
  assumes "synced r" "0 < n" "n < 32" "mNumBitsLeft r mod 8 + n \<le> 32"
  shows "\<exists>r1 r2. putBits M x n r = Some r1 \<and> getBits M (fillReservoir M) n r1 = Some (take_bit n x, r2)
    \<and> reader_inv r2 \<and> stream r2 = stream r"
proof -
  obtain r1 where r1: "putBits M x n r = Some r1" "reader_inv r1" "stream r1 = low_bits n x @ stream r"
    using putBits_stream [OF assms] by blast
  have "length (low_bits n x) = n" by (simp add: low_bits_def)
  with r1 abit.getBits_correct [of r1 n] assms(3) show ?thesis
    by (auto simp: abit.remaining_def stream_def [symmetric] of_bits_low_bits)
qed

end

text \<open>How many surviving bits the look-ahead of \<open>atLeastNumBitsLeft\<close> counts.\<close>

lemma at_least_loop_correct:
  assumes "reader_inv r"
  shows "\<exists>k'. at_least_loop k z r = Some k' \<and> (k' \<le> 0 \<longleftrightarrow> k \<le> 8 * int (length (unescape z (pending r))))"
  using assms
proof (induction k z r rule: at_least_loop.induct)
  case (1 k z r)
  show ?case
  proof (cases "0 < mSize r \<and> 0 < k")
    case True
    with "1.prems" obtain b where b: "deref r = Some b" "pending r = b # pending (advance r)" "reader_inv (advance r)"
      by (auto elim: pending_Cons)
    from "1.IH" [OF True b(1) refl b(3)] show ?thesis
      using True b by (subst at_least_loop.simps) (auto simp: Let_def)
  next
    case False
    then have "at_least_loop k z r = Some k" by (subst at_least_loop.simps) auto
    with False "1.prems" show ?thesis
      using pending_Nil_iff [OF "1.prems"] by auto
  qed
qed

lemma length_unescape: "length (unescape z bs) \<le> length bs"
  by (induction z bs rule: unescape.induct) auto

lemma atLeastNumBitsLeft_correct:
  assumes "reader_inv r"
  shows "atLeastNumBitsLeft n r = Some (n \<le> length (nal_stream r))"
proof -
  let ?u = "unescape (mNumZeros r) (pending r)"
  obtain k where k: "at_least_loop (int n - int (mNumBitsLeft r)) (mNumZeros r) r = Some k"
    "k \<le> 0 \<longleftrightarrow> int n - int (mNumBitsLeft r) \<le> 8 * int (length ?u)"
    using at_least_loop_correct [OF assms] by blast
  have "length (nal_stream r) = mNumBitsLeft r + 8 * length ?u" by (simp add: nal_stream_def)
  moreover have "length ?u \<le> mSize r"
    using length_unescape [of "mNumZeros r" "pending r"] length_pending [OF assms] by simp
  ultimately show ?thesis
    using k by (auto simp: atLeastNumBitsLeft_def numBitsLeft_def)
qed

definition cursor :: "'a bit_reader_scheme \<Rightarrow> int" where
  "cursor r = 8 * mData r - int (mNumBitsLeft r)"

lemma data_cursor: "data r = cursor r div 8"
  unfolding data_def cursor_def by linarith

lemma synced_stream_cursor:
  "synced r \<Longrightarrow> n \<le> length (stream r) \<Longrightarrow>
    0 \<le> cursor r \<and> take n (stream r) = take n (drop (nat (cursor r)) (bytes_bits (buf r)))"
proof -
  assume s: "synced r" and n: "n \<le> length (stream r)"
  then have "length (stream r) = 8 * mSize r + mNumBitsLeft r"
    using length_stream [of r] by (simp add: synced_def numBitsLeft_def)
  moreover have "nat (cursor r) = 8 * nat (mData r) - mNumBitsLeft r" "0 \<le> cursor r"
    using s by (auto simp: synced_def cursor_def reader_inv_def nat_diff_distrib' nat_mult_distrib)
  ultimately show ?thesis
    using s n by (auto simp: synced_def min_def)
qed

context shift_machine
begin

lemma abit_getBits:
  "reader_inv r \<Longrightarrow> n \<le> 32 \<Longrightarrow> n \<le> length (stream r) \<Longrightarrow>
    \<exists>r'. getBits M (fillReservoir M) n r = Some (of_bits (take n (stream r)), r')
      \<and> reader_inv r' \<and> stream r' = drop n (stream r)"
  using abit.getBits_correct [of r n] by (auto simp: abit.remaining_def stream_def)

lemma abit_getBits_cursor:
  assumes "synced r" "getBits M (fillReservoir M) n r = Some (v, r')"
  shows "synced r' \<and> cursor r' = cursor r + int n \<and> data r' = (cursor r + int n) div 8
    \<and> v = of_bits (take n (drop (nat (cursor r)) (bytes_bits (buf r))))"
proof -
  from assms have inv: "reader_inv r" and n: "n \<le> 32" "n \<le> length (stream r)"
    using abit.getBits_aborts_iff [of r n]
    by (auto simp: abit.remaining_def stream_def synced_def)
  then have "v = of_bits (take n (stream r))"
    using abit_getBits [of r n] assms(2) by auto
  with synced_stream_cursor [OF assms(1) n(2)] getBits_synced [OF assms] show ?thesis
    by (simp add: data_cursor cursor_def)
qed

lemma nal_getBits:
  assumes "reader_inv r" "n \<le> 32"
  shows "n \<le> length (nal_stream r) \<Longrightarrow>
      \<exists>r'. getBits M (nal_fillReservoir M) n r = Some (of_bits (take n (nal_stream r)), r')
        \<and> reader_inv r' \<and> nal_stream r' = drop n (nal_stream r)"
    and "length (nal_stream r) < n \<Longrightarrow> getBits M (nal_fillReservoir M) n r = None"
  using nal.getBits_correct [OF assms] nal.getBits_aborts_iff [OF assms(1), of n]
  by (auto simp: nal.remaining_def nal_stream_def)

end

subsection \<open>Properties\<close>

text \<open>
  C33: \<open>ABitReader::getBits(n)\<close> returns exactly the next \<open>n\<close> unread bits, most
  significant first, and leaves the rest of the bit stream, on every machine whose shifts
  agree with C++ below 32; in particular for \<open>n = 32\<close> with a full reservoir.
\<close>

theorem getBits_reads_stream:
  assumes "shift_machine M" "reader_inv r" "n \<le> 32" "n \<le> length (stream r)"
  shows "\<exists>r'. getBits M (fillReservoir M) n r = Some (of_bits (take n (stream r)), r')
    \<and> reader_inv r' \<and> stream r' = drop n (stream r)"
  by (rule shift_machine.abit_getBits [OF assms])

theorem getBits_reads_stream_witness:
  "\<exists>r'. getBits x86_shifts (fillReservoir x86_shifts) 12 (ABitReader [171, 205, 239])
      = Some (of_bits (take 12 (stream (ABitReader [171, 205, 239]))), r')
    \<and> reader_inv r' \<and> stream r' = drop 12 (stream (ABitReader [171, 205, 239]))"
  by (rule getBits_reads_stream)
    (simp_all add: x86.shift_machine_axioms ABitReader_def reader_inv_def length_stream numBitsLeft_def)

text \<open>
  an \<open>ABitReader\<close> that was only read from is a cursor over the bits of its buffer:
  \<open>getBits(n)\<close> returns the bits at the cursor, moves the cursor by \<open>n\<close>, keeps the
  agreement of reservoir and buffer, and afterwards \<open>data()\<close> is the byte that holds the
  cursor.
\<close>

theorem getBits_moves_cursor:
  assumes "shift_machine M" "synced r" "getBits M (fillReservoir M) n r = Some (v, r')"
  shows "synced r' \<and> cursor r' = cursor r + int n \<and> data r' = (cursor r + int n) div 8
    \<and> v = of_bits (take n (drop (nat (cursor r)) (bytes_bits (buf r))))"
  by (rule shift_machine.abit_getBits_cursor [OF assms])

lemma ABitReader_read_twelve:
  "\<exists>v r'. getBits arm_shifts (fillReservoir arm_shifts) 12 (ABitReader [171, 205, 239]) = Some (v, r')"
  using arm.abit_getBits [of "ABitReader [171, 205, 239]" 12]
  by (auto simp: ABitReader_def reader_inv_def length_stream numBitsLeft_def)

theorem getBits_moves_cursor_witness:
  "\<exists>v r'. getBits arm_shifts (fillReservoir arm_shifts) 12 (ABitReader [171, 205, 239]) = Some (v, r')
    \<and> cursor r' = 12 \<and> data r' = 1"
proof -
  obtain v r' where r': "getBits arm_shifts (fillReservoir arm_shifts) 12 (ABitReader [171, 205, 239]) = Some (v, r')"
    using ABitReader_read_twelve by blast
  with getBits_moves_cursor [OF arm.shift_machine_axioms synced_ABitReader r'] show ?thesis
    by (auto simp: cursor_def ABitReader_def)
qed

text \<open>
  C34: \<open>NALBitReader\<close> reads the NAL unit with its emulation prevention bytes removed, and
  \<open>atLeastNumBitsLeft(n)\<close>, which looks ahead without consuming anything, answers true
  exactly when the following \<open>getBits(n)\<close> will not abort.
\<close>

theorem nal_getBits_guarded:
  assumes "shift_machine M" "reader_inv r" "n \<le> 32"
  shows "atLeastNumBitsLeft n r = Some (getBits M (nal_fillReservoir M) n r \<noteq> None)
    \<and> (\<forall>v r'. getBits M (nal_fillReservoir M) n r = Some (v, r') \<longrightarrow>
         v = of_bits (take n (nal_stream r)) \<and> nal_stream r' = drop n (nal_stream r) \<and> reader_inv r')"
  using shift_machine.nal_getBits [OF assms] atLeastNumBitsLeft_correct [OF assms(2), of n]
  by (cases "n \<le> length (nal_stream r)") auto

theorem nal_getBits_guarded_witness:
  "atLeastNumBitsLeft 24 (NALBitReader [0, 0, 3, 1])
     = Some (getBits x86_shifts (nal_fillReservoir x86_shifts) 24 (NALBitReader [0, 0, 3, 1]) \<noteq> None)"
  using nal_getBits_guarded [OF x86.shift_machine_axioms, of "NALBitReader [0, 0, 3, 1]" 24]
  by (simp add: NALBitReader_def reader_inv_def)

text \<open>
  \<open>putBits(x, n)\<close> undoes a read: on a reader in step with its buffer, the next
  \<open>getBits(n)\<close> returns the low \<open>n\<close> bits of \<open>x\<close> and gives back the stream as it
  was, provided the reservoir's partial byte and the \<open>n\<close> bits fit in 32 bits.
\<close>

theorem putBits_then_getBits:
  assumes "shift_machine M" "synced r" "0 < n" "n < 32" "mNumBitsLeft r mod 8 + n \<le> 32"
  shows "\<exists>r1 r2. putBits M x n r = Some r1 \<and> getBits M (fillReservoir M) n r1 = Some (take_bit n x, r2)
    \<and> reader_inv r2 \<and> stream r2 = stream r"
  by (rule shift_machine.putBits_getBits [OF assms])

theorem putBits_then_getBits_witness:
  "\<exists>r1 r2. putBits arm_shifts 255 4 (ABitReader [171]) = Some r1
    \<and> getBits arm_shifts (fillReservoir arm_shifts) 4 r1 = Some (take_bit 4 255, r2)
    \<and> reader_inv r2 \<and> stream r2 = stream (ABitReader [171])"
  by (rule putBits_then_getBits)
    (simp_all add: arm.shift_machine_axioms synced_ABitReader mNumBitsLeft_ABitReader)

end
