(* ===== verification/Base64.thy ===== *)
theory Base64
  imports AvPrelude
begin

text \<open>
  media/libstagefright/foundation/base64.cpp: \<open>decodeBase64\<close> and \<open>encodeBase64\<close>.

  A result of \<open>decodeBase64\<close> is \<open>None\<close> when the code writes past its output buffer,
  \<open>Some None\<close> when it returns \<open>NULL\<close>, and \<open>Some (Some bs)\<close> when it returns a
  buffer holding \<open>bs\<close>. Whether \<open>malloc(n)\<close> succeeds is the argument \<open>alloc\<close>.
\<close>

subsection \<open>Decoding\<close>

definition padding_of :: "string \<Rightarrow> nat" where
  "padding_of s =
     (let n = length s in
      if 1 \<le> n \<and> s ! (n - 1) = CHR ''='' then
        (if 2 \<le> n \<and> s ! (n - 2) = CHR ''='' then
           (if 3 \<le> n \<and> s ! (n - 3) = CHR ''='' then 3 else 2)
         else 1)
      else 0)"

definition between :: "char \<Rightarrow> char \<Rightarrow> char \<Rightarrow> bool" where
  "between lo c hi \<longleftrightarrow> (of_char lo :: nat) \<le> of_char c \<and> (of_char c :: nat) \<le> of_char hi"

definition offset_from :: "char \<Rightarrow> char \<Rightarrow> u32" where
  "offset_from c lo = of_nat (of_char c - of_char lo)"

text \<open>The value of the character at index \<open>i\<close>; \<open>None\<close> makes the code return \<open>NULL\<close>.\<close>

definition char_value :: "nat \<Rightarrow> nat \<Rightarrow> nat \<Rightarrow> char \<Rightarrow> u32 option" where
  "char_value n padding i c =
     (if between CHR ''A'' c CHR ''Z'' then Some (offset_from c CHR ''A'')
      else if between CHR ''a'' c CHR ''z'' then Some (26 + offset_from c CHR ''a'')
      else if between CHR ''0'' c CHR ''9'' then Some (52 + offset_from c CHR ''0'')
      else if c = CHR ''+'' then Some 62
      else if c = CHR ''/'' then Some 63
      else if c \<noteq> CHR ''='' then None
      else if i < n - padding then None
      else Some 0)"

text \<open>The three stores at the end of a group; only the first is unguarded.\<close>

definition store_group :: "nat \<Rightarrow> u32 \<Rightarrow> byte list \<Rightarrow> byte list option" where
  "store_group outLen accum out = do {
     CHECK (length out < outLen);
     let out = out @ [ucast (drop_bit 16 accum)];
     let out = (if length out < outLen then out @ [ucast (drop_bit 8 accum AND 255)] else out);
     let out = (if length out < outLen then out @ [ucast (accum AND 255)] else out);
     Some out
   }"

fun decode_loop :: "nat \<Rightarrow> nat \<Rightarrow> nat \<Rightarrow> nat \<Rightarrow> u32 \<Rightarrow> byte list \<Rightarrow> string \<Rightarrow> byte list option option" where
  "decode_loop n padding outLen i accum out [] = Some (Some out)"
| "decode_loop n padding outLen i accum out (c # cs) =
     (case char_value n padding i c of
        None \<Rightarrow> Some None
      | Some v \<Rightarrow>
          (if (i + 1) mod 4 = 0 then do {
             out \<leftarrow> store_group outLen (push_bit 6 accum OR v) out;
             decode_loop n padding outLen (i + 1) 0 out cs
           } else decode_loop n padding outLen (i + 1) (push_bit 6 accum OR v) out cs))"

definition decodeBase64 :: "(nat \<Rightarrow> bool) \<Rightarrow> string \<Rightarrow> byte list option option" where
  "decodeBase64 alloc s =
     (let n = length s in
      if n mod 4 \<noteq> 0 then Some None
      else
        let padding = padding_of s;
            outLen = (n div 4) * 3 - padding
        in if \<not> alloc outLen then Some None
           else decode_loop n padding outLen 0 0 [] s)"

subsection \<open>Encoding\<close>

definition encode6Bit :: "u32 \<Rightarrow> char" where
  "encode6Bit x =
     (if x \<le> 25 then char_of (65 + unat x)
      else if x \<le> 51 then char_of (97 + unat x - 26)
      else if x \<le> 61 then char_of (48 + unat x - 52)
      else if x = 62 then CHR ''+''
      else CHR ''/'')"

fun encodeBase64 :: "byte list \<Rightarrow> string" where
  "encodeBase64 (x1 # x2 # x3 # xs) =
     encode6Bit (drop_bit 2 (widen x1))
     # encode6Bit ((push_bit 4 (widen x1) OR drop_bit 4 (widen x2)) AND 63)
     # encode6Bit ((push_bit 2 (widen x2) OR drop_bit 6 (widen x3)) AND 63)
     # encode6Bit (widen x3 AND 63)
     # encodeBase64 xs"
| "encodeBase64 [] = []"
| "encodeBase64 [x1, x2] =
     [encode6Bit (drop_bit 2 (widen x1)),
      encode6Bit ((push_bit 4 (widen x1) OR drop_bit 4 (widen x2)) AND 63),
      encode6Bit (push_bit 2 (widen x2) AND 63), CHR ''='']"
| "encodeBase64 [x1] =
     [encode6Bit (drop_bit 2 (widen x1)),
      encode6Bit (push_bit 4 (widen x1) AND 63), CHR ''='', CHR ''='']"

subsection \<open>Decoding goes group by group\<close>

lemma decode_loop_group:
  assumes "i = 4 * g"
  shows "decode_loop n p L i 0 out (c1 # c2 # c3 # c4 # cs) =
    (case (char_value n p i c1, char_value n p (i + 1) c2, char_value n p (i + 2) c3, char_value n p (i + 3) c4) of
       (Some v1, Some v2, Some v3, Some v4) \<Rightarrow> do {
         out \<leftarrow> store_group L (push_bit 6 (push_bit 6 (push_bit 6 v1 OR v2) OR v3) OR v4) out;
         decode_loop n p L (i + 4) 0 out cs
       }
     | _ \<Rightarrow> Some None)"
proof -
  have eqs: "i + 1 + 1 = i + 2" "i + 2 + 1 = i + 3" "i + 3 + 1 = i + 4" by simp_all
  have mods: "(i + 1) mod 4 = 1" "(i + 2) mod 4 = 2" "(i + 3) mod 4 = 3" "(i + 4) mod 4 = 0"
    using assms by presburger+
  show ?thesis
    by (simp only: decode_loop.simps mods eqs zero_neq_one [symmetric] push_bit_of_0 or.left_neutral
        zero_neq_numeral [symmetric] if_False if_True simp_thms prod.case split: option.split)
qed

lemma store_group_Some:
  "length out < L \<Longrightarrow> \<exists>out'. store_group L a out = Some out' \<and> length out' = min L (length out + 3)"
  by (auto simp: store_group_def Let_def)

lemma store_group_None: "store_group L a out = None \<longleftrightarrow> L \<le> length out"
  by (auto simp: store_group_def Let_def bind_eq_None_conv)

lemma four_chars:
  assumes "length cs = 4 * Suc h"
  obtains c1 c2 c3 c4 cs' where "cs = c1 # c2 # c3 # c4 # cs'" "length cs' = 4 * h"
proof -
  have "4 * Suc h = Suc (Suc (Suc (Suc (4 * h))))" by simp
  with assms have "length cs = Suc (Suc (Suc (Suc (4 * h))))" by (simp only:)
  with that show ?thesis by (auto simp: length_Suc_conv)
qed

definition chars_ok :: "nat \<Rightarrow> nat \<Rightarrow> nat \<Rightarrow> string \<Rightarrow> bool" where
  "chars_ok n p i cs \<longleftrightarrow> (\<forall>k<length cs. char_value n p (i + k) (cs ! k) \<noteq> None)"

lemma chars_ok_Nil [simp]: "chars_ok n p i []"
  by (simp add: chars_ok_def)

lemma chars_ok_Cons [simp]:
  "chars_ok n p i (c # cs) \<longleftrightarrow> char_value n p i c \<noteq> None \<and> chars_ok n p (Suc i) cs"
  by (auto simp: chars_ok_def less_Suc_eq_0_disj)

lemma chars_ok_group:
  "chars_ok n p i (c1 # c2 # c3 # c4 # cs) \<longleftrightarrow>
     (\<exists>v1 v2 v3 v4. char_value n p i c1 = Some v1 \<and> char_value n p (i + 1) c2 = Some v2
       \<and> char_value n p (i + 2) c3 = Some v3 \<and> char_value n p (i + 3) c4 = Some v4)
     \<and> chars_ok n p (i + 4) cs"
  by (auto simp: numeral_2_eq_2 numeral_3_eq_3 numeral_Bit0)

lemma decode_loop_good:
  assumes "i = 4 * g" "char_value n p i c1 = Some v1" "char_value n p (i + 1) c2 = Some v2"
    "char_value n p (i + 2) c3 = Some v3" "char_value n p (i + 3) c4 = Some v4"
  shows "decode_loop n p L i 0 out (c1 # c2 # c3 # c4 # cs) = do {
      out \<leftarrow> store_group L (push_bit 6 (push_bit 6 (push_bit 6 v1 OR v2) OR v3) OR v4) out;
      decode_loop n p L (i + 4) 0 out cs }"
  by (simp only: decode_loop_group [OF assms(1)] assms(2-) prod.case option.case)

lemma decode_loop_bad:
  assumes "i = 4 * g" "\<nexists>v1 v2 v3 v4. char_value n p i c1 = Some v1 \<and> char_value n p (i + 1) c2 = Some v2
       \<and> char_value n p (i + 2) c3 = Some v3 \<and> char_value n p (i + 3) c4 = Some v4"
  shows "decode_loop n p L i 0 out (c1 # c2 # c3 # c4 # cs) = Some None"
  unfolding decode_loop_group [OF assms(1)] using assms(2) by (auto split: option.split)

text \<open>What an aligned suffix of the input does: refuse, overflow, or fill the buffer.\<close>

definition suffix_outcome :: "nat \<Rightarrow> nat \<Rightarrow> nat \<Rightarrow> nat \<Rightarrow> byte list \<Rightarrow> string \<Rightarrow> bool" where
  "suffix_outcome n p L i out cs \<longleftrightarrow>
     (if \<not> chars_ok n p i cs then decode_loop n p L i 0 out cs = Some None
      else if p = 3 then decode_loop n p L i 0 out cs = None
      else \<exists>bs. decode_loop n p L i 0 out cs = Some (Some bs) \<and> length bs = L)"

lemma decode_loop_outcome:
  assumes "length cs = 4 * Suc h" "p \<le> 3" "n = 4 * (g + Suc h)" "L = 3 * (g + Suc h) - p" "length out = 3 * g"
  shows "suffix_outcome n p L (4 * g) out cs"
  using assms
proof (induction h arbitrary: cs g out)
  case 0
  from 0(1) obtain c1 c2 c3 c4 where cs: "cs = [c1, c2, c3, c4]"
    by (elim four_chars) simp
  have L: "L \<le> length out \<longleftrightarrow> p = 3" "min L (length out + 3) = L" using 0 by auto
  show ?case
  proof (cases "chars_ok n p (4 * g) cs")
    case True
    then obtain v1 v2 v3 v4 where "char_value n p (4 * g) c1 = Some v1" "char_value n p (4 * g + 1) c2 = Some v2"
      "char_value n p (4 * g + 2) c3 = Some v3" "char_value n p (4 * g + 3) c4 = Some v4"
      unfolding cs chars_ok_group by blast
    note good = decode_loop_good [OF refl this, of L out "[]", folded cs]
    define a where "a = push_bit 6 (push_bit 6 (push_bit 6 v1 OR v2) OR v3) OR v4"
    from True L good store_group_Some [of out L a] store_group_None [of L a out] show ?thesis
      unfolding suffix_outcome_def a_def [symmetric] by (cases "p = 3") auto
  next
    case False
    then have neg: "\<nexists>v1 v2 v3 v4. char_value n p (4 * g) c1 = Some v1 \<and> char_value n p (4 * g + 1) c2 = Some v2
       \<and> char_value n p (4 * g + 2) c3 = Some v3 \<and> char_value n p (4 * g + 3) c4 = Some v4"
      unfolding cs chars_ok_group using chars_ok_Nil by blast
    with decode_loop_bad [OF refl neg, of L out "[]"] False show ?thesis
      by (simp only: suffix_outcome_def cs if_True simp_thms)
  qed
next
  case (Suc h)
  from Suc.prems(1) obtain c1 c2 c3 c4 cs' where cs: "cs = c1 # c2 # c3 # c4 # cs'" "length cs' = 4 * Suc h"
    by (rule four_chars)
  have L: "length out < L" "min L (length out + 3) = length out + 3" using Suc.prems by auto
  show ?case
  proof (cases "\<exists>v1 v2 v3 v4. char_value n p (4 * g) c1 = Some v1 \<and> char_value n p (4 * g + 1) c2 = Some v2
       \<and> char_value n p (4 * g + 2) c3 = Some v3 \<and> char_value n p (4 * g + 3) c4 = Some v4")
    case True
    then obtain v1 v2 v3 v4 where vs: "char_value n p (4 * g) c1 = Some v1" "char_value n p (4 * g + 1) c2 = Some v2"
      "char_value n p (4 * g + 2) c3 = Some v3" "char_value n p (4 * g + 3) c4 = Some v4"
      by blast
    note good = decode_loop_good [OF refl this, of L out cs', folded cs]
    define a where "a = push_bit 6 (push_bit 6 (push_bit 6 v1 OR v2) OR v3) OR v4"
    obtain out' where out': "store_group L a out = Some out'" "length out' = length out + 3"
      using store_group_Some [OF L(1), of a] L(2) by auto
    have "suffix_outcome n p L (4 * (g + 1)) out' cs'"
      using Suc.prems out'(2) cs(2) by (intro Suc.IH) auto
    moreover have "decode_loop n p L (4 * g) 0 out cs = decode_loop n p L (4 * (g + 1)) 0 out' cs'"
      using good out'(1) by (simp add: a_def cs(1) algebra_simps)
    moreover have "chars_ok n p (4 * g) cs \<longleftrightarrow> chars_ok n p (4 * (g + 1)) cs'"
      unfolding cs(1) chars_ok_group using vs by (simp add: algebra_simps)
    ultimately show ?thesis by (simp only: suffix_outcome_def)
  next
    case False
    then have "\<not> chars_ok n p (4 * g) cs" unfolding cs(1) chars_ok_group by blast
    with decode_loop_bad [OF refl False, of L out cs'] show ?thesis
      by (simp only: suffix_outcome_def cs(1) if_True simp_thms)
  qed
qed

lemma padding_of_le: "padding_of s \<le> 3" "padding_of s \<le> length s"
  by (simp_all add: padding_of_def Let_def)

lemma decodeBase64_eq:
  assumes "length s mod 4 = 0" "alloc (length s div 4 * 3 - padding_of s)"
  shows "decodeBase64 alloc s
    = decode_loop (length s) (padding_of s) (length s div 4 * 3 - padding_of s) 0 0 [] s"
  using assms by (simp add: decodeBase64_def Let_def)

lemma decodeBase64_outcome:
  assumes "length s mod 4 = 0" "alloc (length s div 4 * 3 - padding_of s)" "s \<noteq> []"
  shows "suffix_outcome (length s) (padding_of s) (length s div 4 * 3 - padding_of s) 0 [] s"
proof -
  obtain h where h: "length s = 4 * Suc h"
    using assms(1,3) by (metis mod_0_imp_dvd dvdE length_0_conv mult_is_0 not0_implies_Suc)
  have "suffix_outcome (4 * (0 + Suc h)) (padding_of s) (3 * (0 + Suc h) - padding_of s) (4 * 0) [] s"
    by (rule decode_loop_outcome [OF h padding_of_le(1) refl refl]) simp
  moreover have "length s = 4 * (0 + Suc h)" "length s div 4 * 3 = 3 * (0 + Suc h)" using h by simp_all
  ultimately show ?thesis by (simp only: mult_0_right)
qed

subsection \<open>Decoding inverts encoding\<close>

lemma char_value_encode6Bit:
  assumes "x \<le> 63"
  shows "char_value n p i (encode6Bit x) = Some x"
proof -
  define k where "k = unat x"
  have x: "x = of_nat k" and k: "k \<le> 63"
    using assms by (simp_all add: k_def word_le_nat_alt)
  have le: "of_nat k \<le> (25 :: u32) \<longleftrightarrow> k \<le> 25" "of_nat k \<le> (51 :: u32) \<longleftrightarrow> k \<le> 51"
    "of_nat k \<le> (61 :: u32) \<longleftrightarrow> k \<le> 61" "of_nat k = (62 :: u32) \<longleftrightarrow> k = 62" "unat (of_nat k :: u32) = k"
    using k by (auto simp: word_le_nat_alt unat_of_nat word_unat_eq_iff)
  consider "k \<le> 25" | "26 \<le> k" "k \<le> 51" | "52 \<le> k" "k \<le> 61" | "k = 62" | "k = 63"
    using k by linarith
  then show ?thesis
  proof cases
    case 3
    then have "48 \<le> k - 4" "k - 4 \<le> 57" "\<not> 65 \<le> k - 4" "\<not> 97 \<le> k - 4" by auto
    with 3 show ?thesis
      by (simp add: x encode6Bit_def le char_value_def between_def offset_from_def of_nat_diff)
  qed (simp_all add: x encode6Bit_def le char_value_def between_def offset_from_def of_nat_diff)
qed

text \<open>The three sextet masks, and a group of four sextets put back together.\<close>

lemma and_63_le: "x AND 63 \<le> (63 :: u32)"
  by (rule word_and_le1)

lemma drop_2_le: "drop_bit 2 (widen x) \<le> 63"
proof -
  have "unat x < 256" by (rule unat_byte_less)
  then show ?thesis
    by (simp add: word_le_nat_alt unat_drop_bit_eq) (simp add: drop_bit_eq_div)
qed

definition sextets :: "u32 \<Rightarrow> u32 \<Rightarrow> u32 \<Rightarrow> u32 \<Rightarrow> u32" where
  "sextets v1 v2 v3 v4 = push_bit 6 (push_bit 6 (push_bit 6 v1 OR v2) OR v3) OR v4"

lemma mask_63: "(63 :: u32) = mask 6" and mask_255: "(255 :: u32) = mask 8"
  by (simp_all add: mask_eq_exp_minus_1)

lemma sextets_three:
  fixes x1 x2 x3 :: byte
  shows "sextets (drop_bit 2 (widen x1)) ((push_bit 4 (widen x1) OR drop_bit 4 (widen x2)) AND 63)
    ((push_bit 2 (widen x2) OR drop_bit 6 (widen x3)) AND 63) (widen x3 AND 63)
    = push_bit 16 (widen x1) OR push_bit 8 (widen x2) OR widen x3"
  unfolding sextets_def mask_63
  apply (rule u32_eqI_24)
   apply (simp add: bit_simps bit_byte_high)
   apply (simp add: numeral_2_eq_2 numeral_3_eq_3)
  apply (simp add: bit_simps bit_byte_high)
  done

lemma store_three:
  fixes x1 x2 x3 :: byte
  assumes "length out + 3 \<le> L"
  shows "store_group L (push_bit 16 (widen x1) OR push_bit 8 (widen x2) OR widen x3) out
    = Some (out @ [x1, x2, x3])"
proof -
  let ?a = "push_bit 16 (widen x1) OR push_bit 8 (widen x2) OR widen x3"
  have "ucast (drop_bit 16 ?a) = x1" "ucast (drop_bit 8 ?a AND 255) = x2" "ucast (?a AND 255) = x3"
    unfolding mask_255
    by (rule bit_word_eqI; auto simp: bit_simps bit_byte_high)+
  with assms show ?thesis by (simp add: store_group_def Let_def)
qed

text \<open>The remainder groups: one or two bytes with padding.\<close>

lemma sextets_two:
  fixes x1 x2 :: byte
  shows "sextets (drop_bit 2 (widen x1)) ((push_bit 4 (widen x1) OR drop_bit 4 (widen x2)) AND 63)
    (push_bit 2 (widen x2) AND 63) 0 = push_bit 16 (widen x1) OR push_bit 8 (widen x2) OR widen 0"
  using sextets_three [of x1 x2 0] by simp

lemma sextets_one:
  fixes x1 :: byte
  shows "sextets (drop_bit 2 (widen x1)) (push_bit 4 (widen x1) AND 63) 0 0
    = push_bit 16 (widen x1) OR push_bit 8 (widen 0) OR widen 0"
  using sextets_three [of x1 0 0] by simp

lemma store_prefix:
  assumes "length out < L" "L \<le> length out + 3"
  shows "store_group L (push_bit 16 (widen x1) OR push_bit 8 (widen x2) OR widen x3) out
    = Some (out @ take (L - length out) [x1, x2, x3])"
proof -
  let ?a = "push_bit 16 (widen x1) OR push_bit 8 (widen x2) OR widen x3"
  have "ucast (drop_bit 16 ?a) = x1" "ucast (drop_bit 8 ?a AND 255) = x2" "ucast (?a AND 255) = x3"
    unfolding mask_255
    by (rule bit_word_eqI; auto simp: bit_simps bit_byte_high)+
  moreover have "L - length out = 1 \<or> L - length out = 2 \<or> L - length out = 3" using assms by auto
  ultimately show ?thesis
    using assms by (auto simp: store_group_def Let_def numeral_2_eq_2 numeral_3_eq_3)
qed

lemma length_encodeBase64: "length (encodeBase64 bs) = (length bs + 2) div 3 * 4"
proof (induction bs rule: encodeBase64.induct)
  case (1 x1 x2 x3 xs)
  have "(length (x1 # x2 # x3 # xs) + 2) div 3 = Suc ((length xs + 2) div 3)" by simp
  with 1 show ?case by (simp del: add_2_eq_Suc')
qed auto

text \<open>One encoded group decodes to the stores of its sextets.\<close>

lemma decode_encoded_group:
  assumes "v1 \<le> 63" "v2 \<le> 63" "char_value n p (4 * g + 2) c3 = Some v3" "char_value n p (4 * g + 3) c4 = Some v4"
    "store_group L (sextets v1 v2 v3 v4) out = Some out'"
  shows "decode_loop n p L (4 * g) 0 out (encode6Bit v1 # encode6Bit v2 # c3 # c4 # cs)
    = decode_loop n p L (4 * (g + 1)) 0 out' cs"
  using decode_loop_good [OF refl char_value_encode6Bit [OF assms(1)] char_value_encode6Bit [OF assms(2)] assms(3,4),
      of L out cs, folded sextets_def] assms(5)
  by (simp add: algebra_simps)

text \<open>Decoding an encoded suffix that starts at a group boundary.\<close>

lemma decode_encode_suffix:
  assumes "n = 4 * g + length (encodeBase64 bs)" "p = (3 - length bs mod 3) mod 3"
    "L = length out + length bs"
  shows "decode_loop n p L (4 * g) 0 out (encodeBase64 bs) = Some (Some (out @ bs))"
  using assms
proof (induction bs arbitrary: g out rule: encodeBase64.induct)
  case (1 x1 x2 x3 xs)
  have "decode_loop n p L (4 * (g + 1)) 0 (out @ [x1, x2, x3]) (encodeBase64 xs)
      = Some (Some ((out @ [x1, x2, x3]) @ xs))"
    using "1.prems" by (intro "1.IH") (simp_all add: algebra_simps mod_Suc)
  moreover have "store_group L (push_bit 16 (widen x1) OR push_bit 8 (widen x2) OR widen x3) out
      = Some (out @ [x1, x2, x3])"
    using "1.prems" by (intro store_three) simp
  ultimately show ?case
    using decode_encoded_group [OF drop_2_le and_63_le char_value_encode6Bit [OF and_63_le] char_value_encode6Bit [OF and_63_le],
        of L x1 _ _ _ out "out @ [x1, x2, x3]" n p g "encodeBase64 xs"]
    by (simp add: sextets_three)
next
  case 2
  then show ?case by simp
next
  case (3 x1 x2)
  then have n: "n = 4 * g + 4" "p = 1" "L = length out + 2" by simp_all
  have "store_group L (sextets (drop_bit 2 (widen x1)) ((push_bit 4 (widen x1) OR drop_bit 4 (widen x2)) AND 63)
      (push_bit 2 (widen x2) AND 63) 0) out = Some (out @ [x1, x2])"
    unfolding sextets_two using store_prefix [of out L x1 x2 0] n by (simp add: numeral_2_eq_2)
  moreover have "char_value n p (4 * g + 3) CHR ''='' = Some 0"
    using n by (simp add: char_value_def between_def)
  ultimately show ?case
    using decode_encoded_group [OF drop_2_le and_63_le char_value_encode6Bit [OF and_63_le]] by simp
next
  case (4 x1)
  then have n: "n = 4 * g + 4" "p = 2" "L = length out + 1" by simp_all
  have "store_group L (sextets (drop_bit 2 (widen x1)) (push_bit 4 (widen x1) AND 63) 0 0) out = Some (out @ [x1])"
    unfolding sextets_one using store_prefix [of out L x1 0 0] n by simp
  moreover have "char_value n p (4 * g + 2) CHR ''='' = Some 0" "char_value n p (4 * g + 3) CHR ''='' = Some 0"
    using n by (simp_all add: char_value_def between_def)
  ultimately show ?case
    using decode_encoded_group [OF drop_2_le and_63_le] by simp
qed

lemma encode6Bit_neq_eq: "encode6Bit x \<noteq> CHR ''=''"
proof
  assume eq: "encode6Bit x = CHR ''=''"
  have "char_value 4 0 0 (encode6Bit (if x \<le> 63 then x else 63)) = Some (if x \<le> 63 then x else 63)"
    by (rule char_value_encode6Bit) simp
  moreover have "encode6Bit (if x \<le> 63 then x else 63) = encode6Bit x"
    by (auto simp: encode6Bit_def word_le_nat_alt not_le)
  ultimately show False by (simp add: eq char_value_def between_def split: if_splits)
qed

text \<open>No character outside the alphabet occurs in an encoding, except the equals sign.\<close>

lemma encode6Bit_in_alphabet:
  assumes "char_value 4 0 0 c = None"
  shows "encode6Bit x \<noteq> c"
proof
  assume eq: "encode6Bit x = c"
  have "char_value 4 0 0 (encode6Bit (if x \<le> 63 then x else 63)) = Some (if x \<le> 63 then x else 63)"
    by (rule char_value_encode6Bit) simp
  moreover have "encode6Bit (if x \<le> 63 then x else 63) = encode6Bit x"
    by (auto simp: encode6Bit_def word_le_nat_alt not_le)
  ultimately show False using assms by (simp add: eq)
qed

lemma encodeBase64_alphabet:
  "char_value 4 0 0 c = None \<Longrightarrow> c \<noteq> CHR ''='' \<Longrightarrow> c \<notin> set (encodeBase64 bs)"
  by (induction bs rule: encodeBase64.induct) (simp_all add: encode6Bit_in_alphabet [symmetric])

lemma nth_append_end: "k \<le> length s \<Longrightarrow> 0 < k \<Longrightarrow> (t @ s) ! (length (t @ s) - k) = s ! (length s - k)"
  by (auto simp: nth_append)

lemma padding_of_append: "3 \<le> length s \<Longrightarrow> padding_of (t @ s) = padding_of s"
  unfolding padding_of_def Let_def
  using nth_append_end [of 1 s t] nth_append_end [of 2 s t] nth_append_end [of 3 s t] by simp

lemma padding_of_encode: "padding_of (encodeBase64 bs) = (3 - length bs mod 3) mod 3"
proof (induction bs rule: encodeBase64.induct)
  case (1 x1 x2 x3 xs)
  show ?case
  proof (cases "xs = []")
    case True
    then show ?thesis by (simp add: padding_of_def Let_def encode6Bit_neq_eq)
  next
    case False
    then have "1 \<le> (length xs + 2) div 3" by (cases xs) simp_all
    then have "3 \<le> length (encodeBase64 xs)" unfolding length_encodeBase64 by simp
    from padding_of_append [OF this, of "take 4 (encodeBase64 (x1 # x2 # x3 # xs))"] 1 show ?thesis
      by (simp add: mod_Suc)
  qed
qed (simp_all add: padding_of_def Let_def encode6Bit_neq_eq)

lemma decode_of_encode:
  assumes "alloc (length bs)"
  shows "decodeBase64 alloc (encodeBase64 bs) = Some (Some bs)"
proof -
  let ?e = "encodeBase64 bs"
  have len: "length ?e mod 4 = 0" by (simp add: length_encodeBase64)
  have L: "length ?e div 4 * 3 - padding_of ?e = length bs"
  proof -
    obtain q r where "length bs = 3 * q + r" "r = 0 \<or> r = 1 \<or> r = 2"
      using that [of "length bs div 3" "length bs mod 3"] by fastforce
    then show ?thesis by (auto simp: length_encodeBase64 padding_of_encode)
  qed
  have "decode_loop (length ?e) (padding_of ?e) (length bs) (4 * 0) 0 [] ?e = Some (Some ([] @ bs))"
    by (rule decode_encode_suffix) (simp_all add: padding_of_encode)
  with decodeBase64_eq [of ?e alloc] len L assms show ?thesis by simp
qed

subsection \<open>Properties\<close>

text \<open>
  C35: \<open>decodeBase64\<close> inverts \<open>encodeBase64\<close> on every byte sequence: when the output
  buffer can be allocated, decoding the encoding of \<open>bs\<close> returns exactly \<open>bs\<close>, without
  a write outside the buffer.
\<close>

theorem decode_encode_base64:
  assumes "alloc (length bs)"
  shows "decodeBase64 alloc (encodeBase64 bs) = Some (Some bs)"
  using assms by (rule decode_of_encode)

theorem decode_encode_base64_witness:
  "decodeBase64 (\<lambda>n. n \<le> 10) (encodeBase64 [222, 173, 190, 239]) = Some (Some [222, 173, 190, 239])"
  by (rule decode_encode_base64) simp

text \<open>
  what \<open>decodeBase64\<close> does on every non-empty input of a valid length whose buffer can be
  allocated: it returns \<open>NULL\<close> exactly when a character is outside the alphabet or an
  equals sign stands before the padding; otherwise it writes one byte past its buffer exactly
  when the input ends in three equals signs, and in all other cases returns a buffer of the
  announced length.
\<close>

theorem decode_base64_outcome:
  assumes "length s mod 4 = 0" "s \<noteq> []" "alloc (length s div 4 * 3 - padding_of s)"
  shows "(decodeBase64 alloc s = Some None \<longleftrightarrow> \<not> chars_ok (length s) (padding_of s) 0 s)
    \<and> (decodeBase64 alloc s = None \<longleftrightarrow> chars_ok (length s) (padding_of s) 0 s \<and> padding_of s = 3)
    \<and> (\<forall>bs. decodeBase64 alloc s = Some (Some bs) \<longrightarrow> length bs = length s div 4 * 3 - padding_of s)"
proof -
  note eq = decodeBase64_eq [of s alloc, OF assms(1,3)]
  from decodeBase64_outcome [of s alloc, OF assms(1,3,2)] show ?thesis
    unfolding suffix_outcome_def eq [symmetric] by (auto split: if_splits)
qed

theorem decode_base64_outcome_witness:
  "decodeBase64 (\<lambda>n. True) ''A==='' = None"
proof -
  have "chars_ok (length ''A==='') 3 0 ''A===''" "padding_of ''A==='' = 3"
    by (simp_all add: char_value_def between_def padding_of_def Let_def)
  moreover have "length ''A==='' mod 4 = 0" "''A==='' \<noteq> []" by simp_all
  ultimately show ?thesis
    using decode_base64_outcome [of "''A===''" "\<lambda>n. True"] by metis
qed

end
