(* ===== verification/DataSources.thy ===== *)
theory DataSources
  imports AvPrelude Base64
begin

text \<open>
  The data sources of media/libstagefright through which every extractor reads its input:
  the integer readers of DataSource.cpp, DataURISource.cpp, FileSource.cpp (the operating
  system and the DRM plugin are arguments), CallbackDataSource and TinyCacheSource of
  CallbackDataSource.cpp (the binder object is an argument).

  A call \<open>readAt(offset, data, size)\<close> yields the returned \<open>ssize_t\<close> and the bytes it
  stored from the start of \<open>data\<close>; an error may come after bytes were stored.
\<close>

type_synonym source = "int \<Rightarrow> nat \<Rightarrow> int \<times> byte list"

text \<open>A fixed-size array after bytes were stored from its start.\<close>

definition overwrite :: "byte list \<Rightarrow> byte list \<Rightarrow> byte list" where
  "overwrite bs buf = bs @ drop (length bs) buf"

definition slice :: "int \<Rightarrow> nat \<Rightarrow> byte list \<Rightarrow> byte list" where
  "slice off n bs = take n (drop (nat off) bs)"

lemma length_slice: "length (slice off n bs) = min n (length bs - nat off)"
  by (simp add: slice_def min.commute)

lemma slice_self: "slice off (length (slice off n bs)) bs = slice off n bs"
  by (simp add: slice_def min_def)

lemma nth_slice: "i < n \<Longrightarrow> nat off + i < length bs \<Longrightarrow> slice off n bs ! i = bs ! (nat off + i)"
  by (simp add: slice_def)

lemma take_slice: "take k (slice off n bs) = slice off (min k n) bs"
  by (simp add: slice_def)

lemma drop_slice: "0 \<le> off \<Longrightarrow> drop k (slice off n bs) = slice (off + int k) (n - k) bs"
  by (simp add: slice_def drop_take add.commute nat_add_distrib)

lemma slice_append: "0 \<le> off \<Longrightarrow> slice off m bs @ slice (off + int m) n bs = slice off (m + n) bs"
  by (simp add: slice_def take_add nat_add_distrib add.commute)

section \<open>The integer readers of DataSource\<close>

text \<open>The returned flag and the value left in \<open>*x\<close>.\<close>

definition getUInt16 :: "source \<Rightarrow> int \<Rightarrow> (bool \<times> u16) option" where
  "getUInt16 readAt off =
     (case readAt off 2 of (r, byte) \<Rightarrow>
        if r \<noteq> 2 then Some (False, 0)
        else do { b0 \<leftarrow> fetch byte 0; b1 \<leftarrow> fetch byte 1;
                  Some (True, push_bit 8 (ucast b0) OR ucast b1) })"

definition getUInt24 :: "source \<Rightarrow> int \<Rightarrow> (bool \<times> u32) option" where
  "getUInt24 readAt off =
     (case readAt off 3 of (r, byte) \<Rightarrow>
        if r \<noteq> 3 then Some (False, 0)
        else do { b0 \<leftarrow> fetch byte 0; b1 \<leftarrow> fetch byte 1; b2 \<leftarrow> fetch byte 2;
                  Some (True, push_bit 16 (ucast b0) OR push_bit 8 (ucast b1) OR ucast b2) })"

definition getUInt32 :: "source \<Rightarrow> int \<Rightarrow> (bool \<times> u32) option" where
  "getUInt32 readAt off =
     (case readAt off 4 of (r, tmp) \<Rightarrow>
        if r \<noteq> 4 then Some (False, 0)
        else do { CHECK (length tmp = 4); Some (True, ntohl (load_le tmp)) })"

definition getUInt64 :: "source \<Rightarrow> int \<Rightarrow> (bool \<times> u64) option" where
  "getUInt64 readAt off =
     (case readAt off 8 of (r, tmp) \<Rightarrow>
        if r \<noteq> 8 then Some (False, 0)
        else do { CHECK (length tmp = 8); Some (True, ntoh64 (load_le tmp)) })"

section \<open>DataURISource\<close>

definition uri_readAt :: "byte list \<Rightarrow> source" where
  "uri_readAt mBuffer offset sz =
     (if offset < 0 \<or> int (length mBuffer) \<le> offset then (0, [])
      else let copy = length mBuffer - nat offset;
               copy' = (if sz < copy then sz else copy)
           in (int copy', take copy' (drop (nat offset) mBuffer)))"

definition uri_getSize :: "byte list \<Rightarrow> int" where
  "uri_getSize mBuffer = int (length mBuffer)"

text \<open>
  \<open>DataURISource::Create\<close>: \<open>strncasecmp\<close> against "data:", the last comma, the
  \<open>;base64\<close> suffix and the removal of line ends. \<open>None\<close> is the overrun of
  \<open>decodeBase64\<close>, \<open>Some None\<close> the result \<open>NULL\<close>, otherwise the buffer of the source.
\<close>

definition to_lower :: "char \<Rightarrow> char" where
  "to_lower c = (let n = (of_char c :: nat) in if 65 \<le> n \<and> n \<le> 90 then char_of (n + 32) else c)"

definition after_last :: "char \<Rightarrow> string \<Rightarrow> string" where
  "after_last x s = rev (takeWhile (\<lambda>c. c \<noteq> x) (rev s))"

definition before_last :: "char \<Rightarrow> string \<Rightarrow> string" where
  "before_last x s = rev (tl (dropWhile (\<lambda>c. c \<noteq> x) (rev s)))"

definition endsWith :: "string \<Rightarrow> string \<Rightarrow> bool" where
  "endsWith s suffix \<longleftrightarrow>
     length suffix \<le> length s \<and> drop (length s - length suffix) s = suffix"

definition uri_Create :: "(nat \<Rightarrow> bool) \<Rightarrow> string \<Rightarrow> byte list option option" where
  "uri_Create alloc uri =
     (if map to_lower (take 5 uri) \<noteq> ''data:'' then Some None
      else if CHR '','' \<notin> set uri then Some None
      else let tmp = drop 5 (before_last CHR '','' uri)
           in if endsWith tmp '';base64''
              then decodeBase64 alloc
                     (filter (\<lambda>c. c \<noteq> CHR 0x0D \<and> c \<noteq> CHR 0x0A) (after_last CHR '','' uri))
              else Some None)"

section \<open>FileSource\<close>

text \<open>
  A source on a file descriptor: \<open>mFd\<close>, the region it covers and the DRM read-ahead
  buffer of \<open>DRM_CACHE_SIZE\<close> bytes (\<open>mDrmBuf\<close>; its first allocation is the initial list).
  \<open>mDrmBufSize\<close> is a \<open>size_t\<close>: a negative result of the plugin is stored modulo
  \<open>2 ^ 64\<close>, and the comparison of buffer ends is one of 64-bit unsigned numbers.
  \<open>lseek64\<close>, \<open>read\<close> (at the position set by the seek) and the plugin's \<open>pread\<close>
  are arguments. A copy from outside the buffer is \<open>None\<close>.
\<close>

definition size_t :: "int \<Rightarrow> nat" where
  "size_t x = nat (x mod 2 ^ 64)"

record file_source =
  mFd :: int
  mOffset :: int
  mLength :: int
  drm_container :: bool
  mDrmBuf :: "byte list"
  mDrmBufOffset :: int
  mDrmBufSize :: nat

definition DRM_CACHE_SIZE :: nat where "DRM_CACHE_SIZE = 1024"

definition copy_from :: "byte list \<Rightarrow> nat \<Rightarrow> nat \<Rightarrow> byte list option" where
  "copy_from buf i n = (if i + n \<le> length buf then Some (take n (drop i buf)) else None)"

definition readAtDRM :: "(int \<Rightarrow> nat \<Rightarrow> int \<times> byte list) \<Rightarrow> file_source \<Rightarrow> int \<Rightarrow> nat
    \<Rightarrow> (file_source \<times> int \<times> byte list) option" where
  "readAtDRM pread fs offset sz =
     (let pos = offset + mOffset fs in
      if 0 < mDrmBufSize fs \<and> mDrmBufOffset fs \<le> pos
           \<and> size_t (pos + int sz) \<le> size_t (mDrmBufOffset fs + int (mDrmBufSize fs))
      then do { bs \<leftarrow> copy_from (mDrmBuf fs) (nat (pos - mDrmBufOffset fs)) sz; Some (fs, int sz, bs) }
      else if sz \<le> DRM_CACHE_SIZE
      then case pread pos DRM_CACHE_SIZE of (r, bs) \<Rightarrow>
             let fs' = fs\<lparr>mDrmBufOffset := pos, mDrmBufSize := size_t r,
                          mDrmBuf := overwrite bs (mDrmBuf fs)\<rparr>
             in if 0 < mDrmBufSize fs'
                then let dataRead = (if mDrmBufSize fs' < sz then mDrmBufSize fs' else sz)
                     in do { out \<leftarrow> copy_from (mDrmBuf fs') 0 dataRead; Some (fs', int dataRead, out) }
                else Some (fs', 0, [])
      else Some (fs, pread pos sz))"

definition file_readAt :: "(int \<Rightarrow> int) \<Rightarrow> (int \<Rightarrow> nat \<Rightarrow> int \<times> byte list)
    \<Rightarrow> (int \<Rightarrow> nat \<Rightarrow> int \<times> byte list) \<Rightarrow> file_source \<Rightarrow> int \<Rightarrow> nat
    \<Rightarrow> (file_source \<times> int \<times> byte list) option" where
  "file_readAt lseek64 read pread fs offset sz =
     (if mFd fs < 0 then Some (fs, NO_INIT, [])
      else if 0 \<le> mLength fs \<and> mLength fs \<le> offset then Some (fs, 0, [])
      else let sz = (if 0 \<le> mLength fs \<and> mLength fs - offset < int sz
                       then nat (mLength fs - offset) else sz)
           in if drm_container fs then readAtDRM pread fs offset sz
              else let result = lseek64 (offset + mOffset fs)
                   in if result = -1 then Some (fs, UNKNOWN_ERROR, [])
                      else Some (fs, read result sz))"

definition file_getSize :: "file_source \<Rightarrow> int \<times> int" where
  "file_getSize fs = (if mFd fs < 0 then (NO_INIT, 0) else (OK, mLength fs))"

section \<open>CallbackDataSource and TinyCacheSource\<close>

text \<open>
  \<open>mIDataSource->readAt\<close> returns a count and leaves bytes in the shared memory; the loop
  copies them behind the \<open>acc\<close> bytes read so far.
\<close>

function callback_loop :: "(int \<Rightarrow> nat \<Rightarrow> int \<times> byte list) \<Rightarrow> nat \<Rightarrow> int \<Rightarrow> nat \<Rightarrow> byte list
    \<Rightarrow> (int \<times> byte list) option" where
  "callback_loop idr bufferSize offset numLeft acc =
     (if numLeft = 0 then Some (int (length acc), acc)
      else let numToRead = min numLeft bufferSize in
        case idr (offset + int (length acc)) numToRead of (numRead, mem) \<Rightarrow>
        if numRead < 0 then Some (numRead, acc)
        else if numRead = 0 then Some (int (length acc), acc)
        else if int numToRead < numRead then Some (ERROR_OUT_OF_RANGE, acc)
        else do {
          CHECK (0 \<le> numRead \<and> numRead \<le> int bufferSize);
          CHECK (nat numRead \<le> length mem);
          callback_loop idr bufferSize offset (numLeft - nat numRead) (acc @ take (nat numRead) mem)
        })"
  by pat_completeness auto
termination
  by (relation "measure (\<lambda>(_, _, _, numLeft, _). numLeft)") auto

declare callback_loop.simps [simp del]

definition callback_readAt :: "bool \<Rightarrow> (int \<Rightarrow> nat \<Rightarrow> int \<times> byte list) \<Rightarrow> nat \<Rightarrow> int \<Rightarrow> nat
    \<Rightarrow> (int \<times> byte list) option" where
  "callback_readAt has_memory idr bufferSize offset sz =
     (if \<not> has_memory then Some (-1, []) else callback_loop idr bufferSize offset sz [])"

definition callback_getSize :: "int \<times> int \<Rightarrow> int \<times> int" where
  "callback_getSize reply =
     (case reply of (err, sz) \<Rightarrow>
        if err \<noteq> OK then (err, sz) else if sz < 0 then (ERROR_UNSUPPORTED, sz) else (OK, sz))"

record tiny =
  mCache :: "byte list"
  mCachedOffset :: int
  mCachedSize :: nat

definition kCacheSize :: nat where "kCacheSize = 2048"

definition TinyCacheSource :: "byte list \<Rightarrow> tiny" where
  "TinyCacheSource garbage = \<lparr>mCache = garbage, mCachedOffset = 0, mCachedSize = 0\<rparr>"

function tiny_readAt :: "source \<Rightarrow> tiny \<Rightarrow> int \<Rightarrow> nat \<Rightarrow> (tiny \<times> int \<times> byte list) option" where
  "tiny_readAt src t offset sz =
     (if kCacheSize \<le> sz then Some (t, src offset sz)
      else let cachedEnd = mCachedOffset t + int (mCachedSize t) in
      if mCachedOffset t \<le> offset \<and> offset < cachedEnd
      then let hit = drop (nat (offset - mCachedOffset t)) (mCache t) in
        if offset + int sz \<le> cachedEnd
        then do { CHECK (sz \<le> length hit); Some (t, int sz, take sz hit) }
        else let remaining = nat (cachedEnd - offset) in do {
          CHECK (remaining \<le> length hit);
          (t, readMore, more) \<leftarrow> tiny_readAt src t (offset + int remaining) (sz - remaining);
          Some (t, (if readMore < 0 then readMore else int remaining + readMore),
                take remaining hit @ more) }
      else case src offset kCacheSize of (numRead, bs) \<Rightarrow>
        let t = t\<lparr>mCache := overwrite bs (mCache t)\<rparr> in
        if numRead \<le> 0 then Some (t, numRead, [])
        else if int kCacheSize < numRead then Some (t, ERROR_OUT_OF_RANGE, [])
        else let t = t\<lparr>mCachedSize := nat numRead, mCachedOffset := offset\<rparr> in do {
          CHECK (mCachedSize t \<le> kCacheSize \<and> 0 \<le> mCachedOffset t);
          let numToReturn = min sz (nat numRead) in do {
          CHECK (numToReturn \<le> length (mCache t));
          Some (t, int numToReturn, take numToReturn (mCache t)) } })"
  by pat_completeness auto
termination
  by (relation "measure (\<lambda>(_, _, _, sz). sz)") auto

declare tiny_readAt.simps [simp del]

section \<open>What a data source promises\<close>

text \<open>
  The contract of \<open>DataSource::readAt\<close>: a read at a non-negative offset that returns a count
  returns that many bytes of the content from that offset on, and no more than were asked
  for. A full source never returns fewer bytes than asked for while the content lasts.
\<close>

locale data_source =
  fixes read :: "'s \<Rightarrow> int \<Rightarrow> nat \<Rightarrow> 's \<times> int \<times> byte list"
    and inv :: "'s \<Rightarrow> bool"
    and content :: "byte list"
  assumes keeps: "inv s \<Longrightarrow> 0 \<le> off \<Longrightarrow> read s off n = (s', r, bs) \<Longrightarrow> inv s'"
    and reads: "inv s \<Longrightarrow> 0 \<le> off \<Longrightarrow> read s off n = (s', r, bs) \<Longrightarrow> 0 \<le> r \<Longrightarrow>
      slice off (nat r) content = bs \<and> int (length bs) = r \<and> r \<le> int n"

locale full_source = data_source +
  assumes full: "inv s \<Longrightarrow> 0 \<le> off \<Longrightarrow> off + int n \<le> int (length content) \<Longrightarrow>
      read s off n = (s', r, bs) \<Longrightarrow> r = int n"

context data_source
begin

text \<open>A reply as the integer readers see it.\<close>

definition answer :: "'s \<Rightarrow> source" where
  "answer s off n = snd (read s off n)"

lemma answer_reads:
  "inv s \<Longrightarrow> 0 \<le> off \<Longrightarrow> answer s off n = (r, bs) \<Longrightarrow> 0 \<le> r \<Longrightarrow>
     slice off (nat r) content = bs \<and> int (length bs) = r \<and> r \<le> int n"
  using reads by (metis answer_def prod.collapse)

lemma getUInt16_cases:
  assumes "inv s" "0 \<le> off"
  shows "(\<exists>x. getUInt16 (answer s) off = Some (True, x) \<and>
      unat x = be_value (slice off 2 content) \<and> fst (answer s off 2) = 2)
    \<or> (getUInt16 (answer s) off = Some (False, 0) \<and> fst (answer s off 2) \<noteq> 2)"
proof (cases "answer s off 2")
  case (Pair r bs)
  show ?thesis
  proof (cases "r = 2")
    case True
    with answer_reads [OF assms Pair] have s: "slice off 2 content = bs" and "length bs = 2" by auto
    then obtain a b where bs: "bs = [a, b]"
      by (auto simp: numeral_2_eq_2 length_Suc_conv)
    have "getUInt16 (answer s) off = Some (True, be16 a b)"
      by (simp add: getUInt16_def Pair True bs be16_def)
    with s bs Pair True show ?thesis by (simp add: unat_be16)
  qed (simp add: getUInt16_def Pair)
qed

lemma getUInt24_cases:
  assumes "inv s" "0 \<le> off"
  shows "(\<exists>x. getUInt24 (answer s) off = Some (True, x) \<and>
      unat x = be_value (slice off 3 content) \<and> fst (answer s off 3) = 3)
    \<or> (getUInt24 (answer s) off = Some (False, 0) \<and> fst (answer s off 3) \<noteq> 3)"
proof (cases "answer s off 3")
  case (Pair r bs)
  show ?thesis
  proof (cases "r = 3")
    case True
    with answer_reads [OF assms Pair] have s: "slice off 3 content = bs" and "length bs = 3" by auto
    then obtain a b c where bs: "bs = [a, b, c]"
      by (auto simp: numeral_3_eq_3 length_Suc_conv)
    have "getUInt24 (answer s) off = Some (True, be32 0 a b c)"
      by (simp add: getUInt24_def Pair True bs be32_def)
    with s bs Pair True show ?thesis by (simp add: unat_be32 be_value_def)
  qed (simp add: getUInt24_def Pair)
qed

lemma getUInt32_cases:
  assumes "inv s" "0 \<le> off"
  shows "(\<exists>x. getUInt32 (answer s) off = Some (True, x) \<and>
      unat x = be_value (slice off 4 content) \<and> fst (answer s off 4) = 4)
    \<or> (getUInt32 (answer s) off = Some (False, 0) \<and> fst (answer s off 4) \<noteq> 4)"
proof (cases "answer s off 4")
  case (Pair r bs)
  show ?thesis
  proof (cases "r = 4")
    case True
    with answer_reads [OF assms Pair] have s: "slice off 4 content = bs" and l: "length bs = 4" by auto
    then obtain a b c d where bs: "bs = [a, b, c, d]"
      by (auto simp: numeral_eq_Suc length_Suc_conv)
    have "getUInt32 (answer s) off = Some (True, ntohl (load_le bs))"
      using l by (simp add: getUInt32_def Pair True)
    moreover have "ntohl (load_le bs) = be32 a b c d"
      using ntohl_load [of bs] l by (simp only: bs) simp
    ultimately show ?thesis using s bs Pair True by (simp add: unat_be32)
  qed (simp add: getUInt32_def Pair)
qed

lemma getUInt64_cases:
  assumes "inv s" "0 \<le> off"
  shows "(\<exists>x. getUInt64 (answer s) off = Some (True, x) \<and>
      unat x = be_value (slice off 8 content) \<and> fst (answer s off 8) = 8)
    \<or> (getUInt64 (answer s) off = Some (False, 0) \<and> fst (answer s off 8) \<noteq> 8)"
proof (cases "answer s off 8")
  case (Pair r bs)
  show ?thesis
  proof (cases "r = 8")
    case True
    with answer_reads [OF assms Pair] have s: "slice off 8 content = bs" and l: "length bs = 8" by auto
    have "getUInt64 (answer s) off = Some (True, ntoh64 (load_le bs))"
      using l by (simp add: getUInt64_def Pair True)
    with s l Pair True show ?thesis by (simp add: unat_ntoh64)
  qed (simp add: getUInt64_def Pair)
qed

end

context full_source
begin

lemma answer_full: "inv s \<Longrightarrow> 0 \<le> off \<Longrightarrow> off + int n \<le> int (length content) \<Longrightarrow>
    fst (answer s off n) = int n"
  using full by (metis answer_def prod.collapse)

lemma getUInts_inside:
  assumes "inv s" "0 \<le> off"
  shows "off + 2 \<le> int (length content) \<Longrightarrow>
      \<exists>x. getUInt16 (answer s) off = Some (True, x) \<and> unat x = be_value (slice off 2 content)"
    and "off + 3 \<le> int (length content) \<Longrightarrow>
      \<exists>x. getUInt24 (answer s) off = Some (True, x) \<and> unat x = be_value (slice off 3 content)"
    and "off + 4 \<le> int (length content) \<Longrightarrow>
      \<exists>x. getUInt32 (answer s) off = Some (True, x) \<and> unat x = be_value (slice off 4 content)"
    and "off + 8 \<le> int (length content) \<Longrightarrow>
      \<exists>x. getUInt64 (answer s) off = Some (True, x) \<and> unat x = be_value (slice off 8 content)"
  using getUInt16_cases [OF assms] getUInt24_cases [OF assms] getUInt32_cases [OF assms]
    getUInt64_cases [OF assms] answer_full [OF assms, of 2] answer_full [OF assms, of 3]
    answer_full [OF assms, of 4] answer_full [OF assms, of 8] by auto

end

section \<open>DataURISource keeps the promise\<close>

interpretation uri: full_source "\<lambda>u off n. (u :: unit, uri_readAt buf off n)" "\<lambda>_. True" buf for buf
proof
  fix s s' :: unit and off n r bs
  assume a: "0 \<le> (off :: int)" "(s, uri_readAt buf off n) = (s', r, bs)"
  show "slice off (nat r) buf = bs \<and> int (length bs) = r \<and> r \<le> int n"
    using a by (auto simp: uri_readAt_def Let_def slice_def split: if_splits)
  show "r = int n" if "off + int n \<le> int (length buf)"
    using a that by (auto simp: uri_readAt_def Let_def split: if_splits)
qed simp

section \<open>The callback source keeps the promise\<close>

text \<open>
  The binder object: a positive reply leaves that many bytes of the content in a shared
  memory of \<open>bufferSize\<close> bytes. Replies may be short, and may be errors at any point.
\<close>

locale binder_source =
  fixes idr :: "int \<Rightarrow> nat \<Rightarrow> int \<times> byte list" and bufferSize :: nat and content :: "byte list"
  assumes shared: "0 \<le> off \<Longrightarrow> n \<le> bufferSize \<Longrightarrow> idr off n = (r, mem) \<Longrightarrow> 0 < r \<Longrightarrow>
      length mem = bufferSize \<and> take (nat r) mem = slice off (nat r) content \<and>
      off + r \<le> int (length content)"

context binder_source
begin

lemma callback_loop_reads:
  assumes "0 \<le> off" "acc = slice off (length acc) content"
  shows "\<exists>r bs. callback_loop idr bufferSize off n acc = Some (r, bs) \<and>
    slice off (length bs) content = bs \<and> length bs \<le> length acc + n \<and>
    (0 \<le> r \<longrightarrow> r = int (length bs))"
  using assms(2)
proof (induction n arbitrary: acc rule: less_induct)
  case (less n)
  let ?off = "off + int (length acc)"
  obtain r mem where rep: "idr ?off (min n bufferSize) = (r, mem)" by fastforce
  show ?case
  proof (cases "n = 0 \<or> r \<le> 0 \<or> int (min n bufferSize) < r")
    case True
    then show ?thesis
      using less.prems rep
      by (auto simp: callback_loop.simps [of idr bufferSize off n] Let_def ERROR_OUT_OF_RANGE_def)
  next
    case False
    then have r: "0 < r" "r \<le> int (min n bufferSize)" "n \<noteq> 0" by auto
    from shared [OF _ _ rep] r assms(1) have mem: "length mem = bufferSize"
        "take (nat r) mem = slice ?off (nat r) content" "?off + r \<le> int (length content)" by auto
    let ?acc = "acc @ take (nat r) mem"
    have len: "length ?acc = length acc + nat r" using r mem(1) by auto
    have "?acc = slice off (length ?acc) content"
    proof -
      have "acc @ slice ?off (nat r) content = slice off (length acc + nat r) content"
        using slice_append [OF assms(1), of "length acc" content "nat r"] less.prems by simp
      then show ?thesis unfolding mem(2) using r mem(3) assms(1) by (simp add: length_slice)
    qed
    from less.IH [OF _ this, of "n - nat r"] r obtain r' bs where IH:
      "callback_loop idr bufferSize off (n - nat r) ?acc = Some (r', bs)"
      "slice off (length bs) content = bs" "length bs \<le> length ?acc + (n - nat r)"
      "0 \<le> r' \<longrightarrow> r' = int (length bs)" by auto
    have "callback_loop idr bufferSize off n acc = Some (r', bs)"
      using rep r mem(1) IH(1) by (subst callback_loop.simps) (auto simp: Let_def)
    then show ?thesis using IH len r by auto
  qed
qed

lemma callback_reads:
  assumes "0 \<le> off"
  shows "\<exists>r bs. callback_readAt m idr bufferSize off n = Some (r, bs) \<and>
    (0 \<le> r \<longrightarrow> slice off (nat r) content = bs \<and> int (length bs) = r \<and> r \<le> int n)"
proof (cases m)
  case True
  have "([] :: byte list) = slice off (length ([] :: byte list)) content" by (simp add: slice_def)
  from callback_loop_reads [OF assms this, of n] True show ?thesis
    by (auto simp: callback_readAt_def)
qed (auto simp: callback_readAt_def)

end

sublocale binder_source \<subseteq> cb: data_source
  "\<lambda>u off n. (u :: unit, the (callback_readAt m idr bufferSize off n))" "\<lambda>_. True" content for m
proof
  fix s s' :: unit and off n r bs
  assume "0 \<le> (off :: int)" "(s, the (callback_readAt m idr bufferSize off n)) = (s', r, bs)" "0 \<le> r"
  with callback_reads [of off m n]
  show "slice off (nat r) content = bs \<and> int (length bs) = r \<and> r \<le> int n" by auto
qed simp

text \<open>A binder object that serves a data URI through shared memory.\<close>

definition serve_uri :: "byte list \<Rightarrow> nat \<Rightarrow> int \<Rightarrow> nat \<Rightarrow> int \<times> byte list" where
  "serve_uri buf bufferSize off n =
     (case uri_readAt buf off n of (r, bs) \<Rightarrow> (r, bs @ replicate (bufferSize - length bs) 0))"

interpretation served: binder_source "serve_uri buf bufferSize" bufferSize buf for buf bufferSize
proof
  fix off n r mem
  assume a: "0 \<le> (off :: int)" "n \<le> bufferSize" "serve_uri buf bufferSize off n = (r, mem)" "0 < r"
  show "length mem = bufferSize \<and> take (nat r) mem = slice off (nat r) buf \<and> off + r \<le> int (length buf)"
    using a by (auto simp: serve_uri_def uri_readAt_def Let_def slice_def split: if_splits)
qed

section \<open>TinyCacheSource keeps the promise over a quiet source\<close>

text \<open>A source that stores nothing when it returns an error.\<close>

locale quiet_source =
  fixes src :: source and content :: "byte list"
  assumes reads: "0 \<le> off \<Longrightarrow> src off n = (r, bs) \<Longrightarrow> 0 \<le> r \<Longrightarrow>
      slice off (nat r) content = bs \<and> int (length bs) = r \<and> r \<le> int n"
    and quiet: "0 \<le> off \<Longrightarrow> src off n = (r, bs) \<Longrightarrow> r < 0 \<Longrightarrow> bs = []"

definition tiny_ok :: "byte list \<Rightarrow> tiny \<Rightarrow> bool" where
  "tiny_ok content t \<longleftrightarrow> length (mCache t) = kCacheSize \<and> mCachedSize t \<le> kCacheSize \<and>
     0 \<le> mCachedOffset t \<and> mCachedOffset t + int (mCachedSize t) \<le> int (length content) \<and>
     take (mCachedSize t) (mCache t) = slice (mCachedOffset t) (mCachedSize t) content"

context quiet_source
begin

lemma tiny_hit:
  assumes "tiny_ok content t" "mCachedOffset t \<le> off" "off + int n \<le> mCachedOffset t + int (mCachedSize t)"
  shows "take n (drop (nat (off - mCachedOffset t)) (mCache t)) = slice off n content"
    and "n \<le> length (mCache t) - nat (off - mCachedOffset t)"
proof -
  let ?d = "nat (off - mCachedOffset t)"
  have d: "?d + n \<le> mCachedSize t" using assms by linarith
  then have "take n (drop ?d (mCache t)) = take n (drop ?d (take (mCachedSize t) (mCache t)))"
    by (simp add: drop_take)
  also have "\<dots> = take n (drop ?d (slice (mCachedOffset t) (mCachedSize t) content))"
    using assms(1) by (simp add: tiny_ok_def)
  also have "\<dots> = slice off n content"
    using assms d by (auto simp: tiny_ok_def drop_slice take_slice)
  finally show "take n (drop ?d (mCache t)) = slice off n content" .
  show "n \<le> length (mCache t) - ?d"
    using d assms(1) by (auto simp: tiny_ok_def)
qed

lemma tiny_fill:
  assumes "tiny_ok content t" "0 \<le> off" "src off kCacheSize = (r, bs)"
  shows "tiny_ok content (if r \<le> 0 then t\<lparr>mCache := overwrite bs (mCache t)\<rparr>
      else t\<lparr>mCache := overwrite bs (mCache t), mCachedSize := nat r, mCachedOffset := off\<rparr>)"
    and "r \<le> int kCacheSize"
proof -
  consider "r < 0" "bs = []" | "r = 0" "bs = []"
    | "0 < r" "slice off (nat r) content = bs" "int (length bs) = r" "r \<le> int kCacheSize"
    using reads [OF assms(2,3)] quiet [OF assms(2,3)] by fastforce
  note c = this
  from c show "r \<le> int kCacheSize" by cases auto
  from c show "tiny_ok content (if r \<le> 0 then t\<lparr>mCache := overwrite bs (mCache t)\<rparr>
      else t\<lparr>mCache := overwrite bs (mCache t), mCachedSize := nat r, mCachedOffset := off\<rparr>)"
  proof cases
    case 3
    then have "nat r \<le> length content - nat off" using assms(2) by (auto simp: length_slice)
    moreover have "nat r \<noteq> 0" using 3 by simp
    ultimately have "off + r \<le> int (length content)" using assms(2) 3(1) by linarith
    then show ?thesis using 3 assms by (auto simp: tiny_ok_def overwrite_def slice_def)
  qed (use assms in \<open>auto simp: tiny_ok_def overwrite_def\<close>)
qed

lemma tiny_reads:
  assumes "tiny_ok content t" "0 \<le> off"
  shows "\<exists>t' r bs. tiny_readAt src t off n = Some (t', r, bs) \<and> tiny_ok content t' \<and>
    (0 \<le> r \<longrightarrow> slice off (nat r) content = bs \<and> int (length bs) = r \<and> r \<le> int n)"
  using assms
proof (induction n arbitrary: off rule: less_induct)
  case (less n)
  let ?stop = "mCachedOffset t + int (mCachedSize t)"
  consider (direct) "kCacheSize \<le> n"
    | (hit) "n < kCacheSize" "mCachedOffset t \<le> off" "off < ?stop" "off + int n \<le> ?stop"
    | (partial) "n < kCacheSize" "mCachedOffset t \<le> off" "off < ?stop" "?stop < off + int n"
    | (miss) "n < kCacheSize" "\<not> (mCachedOffset t \<le> off \<and> off < ?stop)"
    by linarith
  then show ?case
  proof cases
    case direct
    then show ?thesis
      using less.prems reads by (cases "src off n") (auto simp: tiny_readAt.simps [of src t off n])
  next
    case hit
    from tiny_hit [OF less.prems(1) hit(2,4)] hit less.prems show ?thesis
      by (auto simp: tiny_readAt.simps [of src t off n] Let_def length_slice tiny_ok_def)
  next
    case partial
    define rem where "rem = nat (?stop - off)"
    have rem: "0 < rem" "rem < n" "off + int rem = ?stop" using partial by (auto simp: rem_def)
    note hit = tiny_hit [OF less.prems(1) partial(2), of rem]
    from less.IH [of "n - rem" "off + int rem"] less.prems rem obtain t' r bs where IH:
      "tiny_readAt src t (off + int rem) (n - rem) = Some (t', r, bs)" "tiny_ok content t'"
      "0 \<le> r \<longrightarrow> slice (off + int rem) (nat r) content = bs \<and> int (length bs) = r \<and> r \<le> int (n - rem)"
      by auto
    have "tiny_readAt src t off n = Some (t', (if r < 0 then r else int rem + r), slice off rem content @ bs)"
      using partial hit rem IH(1)
      by (subst tiny_readAt.simps) (simp add: Let_def rem_def [symmetric])
    moreover have "length (slice off rem content) = rem"
      using rem less.prems by (auto simp: length_slice tiny_ok_def)
    moreover have "slice off rem content @ bs = slice off (nat (int rem + r)) content" if "0 \<le> r"
    proof -
      have "slice off rem content @ slice (off + int rem) (nat r) content = slice off (rem + nat r) content"
        by (rule slice_append [OF less.prems(2)])
      then show ?thesis using IH(3) that by (simp add: nat_add_distrib)
    qed
    ultimately show ?thesis
      using IH rem by auto
  next
    case miss
    obtain r bs where s: "src off kCacheSize = (r, bs)" by fastforce
    note fill = tiny_fill [OF less.prems s]
    show ?thesis
    proof (cases "r \<le> 0")
      case True
      then show ?thesis using miss s fill less.prems
        by (auto simp: tiny_readAt.simps [of src t off n] Let_def slice_def)
    next
      case False
      let ?t = "t\<lparr>mCache := overwrite bs (mCache t), mCachedSize := nat r, mCachedOffset := off\<rparr>"
      from False fill have ok: "tiny_ok content ?t" and r: "r \<le> int kCacheSize" by auto
      have "take (min n (nat r)) (mCache ?t) = slice off (min n (nat r)) content"
        using tiny_hit(1) [OF ok, of off "min n (nat r)"] False by simp
      with False miss s ok r less.prems show ?thesis
        by (auto simp: tiny_readAt.simps [of src t off n] Let_def tiny_ok_def length_slice)
    qed
  qed
qed

end

sublocale quiet_source \<subseteq> tiny: data_source
  "\<lambda>t off n. the (tiny_readAt src t off n)" "tiny_ok content" content
proof
  fix t t' off n r bs
  assume a: "tiny_ok content t" "0 \<le> off" "the (tiny_readAt src t off n) = (t', r, bs)"
  from tiny_reads [OF a(1,2), of n] a(3) show "tiny_ok content t'" by auto
  from tiny_reads [OF a(1,2), of n] a(3)
  show "slice off (nat r) content = bs \<and> int (length bs) = r \<and> r \<le> int n" if "0 \<le> r"
    using that by auto
qed

interpretation tiny_uri: quiet_source "uri_readAt buf" buf for buf
proof
  fix off n r bs
  assume a: "0 \<le> (off :: int)" "uri_readAt buf off n = (r, bs)"
  show "slice off (nat r) buf = bs \<and> int (length bs) = r \<and> r \<le> int n" if "0 \<le> r"
    by (rule uri.reads [where s = "()" and s' = "()"]) (use a that in auto)
  show "bs = []" if "r < 0"
    using a that by (auto simp: uri_readAt_def Let_def split: if_splits)
qed

section \<open>FileSource keeps the promise on a regular file\<close>

text \<open>
  The operating system and the DRM plugin on an open file: a seek to a non-negative offset
  succeeds, \<open>read\<close> returns bytes of the file or an error, and \<open>pread\<close> returns decrypted
  bytes. A plugin that reports errors is the subject of \<open>drm_error_returns_stale\<close> below.
\<close>

locale regular_file =
  fixes lseek64 :: "int \<Rightarrow> int" and read pread :: "int \<Rightarrow> nat \<Rightarrow> int \<times> byte list"
    and disk plain :: "byte list"
  assumes seek: "0 \<le> p \<Longrightarrow> lseek64 p = p"
    and read: "0 \<le> p \<Longrightarrow> read p n = (r, bs) \<Longrightarrow> 0 \<le> r \<Longrightarrow>
      slice p (nat r) disk = bs \<and> int (length bs) = r \<and> r \<le> int n"
    and pread: "0 \<le> p \<Longrightarrow> pread p n = (r, bs) \<Longrightarrow>
      bs = slice p (nat r) plain \<and> r = int (length (slice p (nat r) plain)) \<and> r \<le> int n"
    and plain: "length plain < 2 ^ 63"

text \<open>The region of the file that the source covers, and what its DRM buffer holds.\<close>

definition region :: "byte list \<Rightarrow> file_source \<Rightarrow> byte list" where
  "region disk fs = (if 0 \<le> mLength fs then slice (mOffset fs) (nat (mLength fs)) disk
     else drop (nat (mOffset fs)) disk)"

definition file_ok :: "byte list \<Rightarrow> file_source \<Rightarrow> bool" where
  "file_ok plain fs \<longleftrightarrow> 0 \<le> mOffset fs \<and> length (mDrmBuf fs) = DRM_CACHE_SIZE \<and>
     mDrmBufSize fs \<le> DRM_CACHE_SIZE \<and>
     (0 < mDrmBufSize fs \<longrightarrow> 0 \<le> mDrmBufOffset fs \<and>
        take (mDrmBufSize fs) (mDrmBuf fs) = slice (mDrmBufOffset fs) (mDrmBufSize fs) plain \<and>
        mDrmBufOffset fs + int (mDrmBufSize fs) \<le> int (length plain))"

lemma slice_region:
  assumes "0 \<le> mOffset fs" "0 \<le> off" "0 \<le> mLength fs \<longrightarrow> off + int n \<le> mLength fs"
  shows "slice (off + mOffset fs) n disk = slice off n (region disk fs)"
  using assms
  by (auto simp: region_def slice_def drop_take nat_add_distrib add.commute min_def)

lemma size_t_id [simp]: "0 \<le> x \<Longrightarrow> x < 2 ^ 64 \<Longrightarrow> size_t x = nat x"
  by (simp add: size_t_def)

context regular_file
begin

lemma DRM_hit:
  assumes "file_ok plain fs" "0 < mDrmBufSize fs" "mDrmBufOffset fs \<le> pos"
    "pos + int n \<le> mDrmBufOffset fs + int (mDrmBufSize fs)"
  shows "copy_from (mDrmBuf fs) (nat (pos - mDrmBufOffset fs)) n = Some (slice pos n plain)"
    "length (slice pos n plain) = n"
proof -
  let ?d = "nat (pos - mDrmBufOffset fs)" and ?s = "mDrmBufSize fs"
  have d: "?d + n \<le> ?s" "mDrmBufOffset fs + int ?d = pos" using assms by linarith+
  have ok: "0 \<le> mDrmBufOffset fs" "take ?s (mDrmBuf fs) = slice (mDrmBufOffset fs) ?s plain"
      "mDrmBufOffset fs + int ?s \<le> int (length plain)" "?s \<le> length (mDrmBuf fs)"
    using assms(1,2) by (auto simp: file_ok_def)
  have "take n (drop ?d (mDrmBuf fs)) = take n (drop ?d (take ?s (mDrmBuf fs)))"
    using d(1) by (simp add: drop_take)
  also have "\<dots> = slice pos n plain"
    using d ok(1,2) by (simp add: drop_slice take_slice)
  finally show "copy_from (mDrmBuf fs) ?d n = Some (slice pos n plain)"
    using d(1) ok(4) by (simp add: copy_from_def)
  show "length (slice pos n plain) = n" using d ok by (auto simp: length_slice)
qed

lemma DRM_fill:
  assumes "file_ok plain fs" "0 \<le> pos" "pread pos DRM_CACHE_SIZE = (r, bs)"
  defines "fs' \<equiv> fs\<lparr>mDrmBufOffset := pos, mDrmBufSize := size_t r, mDrmBuf := overwrite bs (mDrmBuf fs)\<rparr>"
  shows "file_ok plain fs'" "int (size_t r) = r"
proof -
  from pread [OF assms(2,3)] have bs: "bs = slice pos (nat r) plain"
    and r: "r = int (length bs)" "r \<le> int DRM_CACHE_SIZE" by auto
  then have st: "size_t r = length bs" by (simp add: DRM_CACHE_SIZE_def)
  have "length bs \<le> length plain - nat pos" by (simp add: bs length_slice)
  then have last: "0 < length bs \<longrightarrow> pos + int (length bs) \<le> int (length plain)"
    using assms(2) by linarith
  have "slice pos (length bs) plain = bs" using bs r(1) by (metis nat_int)
  then show "file_ok plain fs'"
    using assms(1,2) r last st [unfolded r(1)] by (auto simp: fs'_def file_ok_def overwrite_def)
  show "int (size_t r) = r" using st r(1) by simp
qed

lemma readAtDRM_reads:
  assumes "file_ok plain fs" "0 \<le> off" "off + mOffset fs + int n < 2 ^ 64"
  shows "\<exists>fs' r bs. readAtDRM pread fs off n = Some (fs', r, bs) \<and> file_ok plain fs' \<and>
    slice (off + mOffset fs) (nat r) plain = bs \<and> int (length bs) = r \<and> r \<le> int n"
proof -
  let ?pos = "off + mOffset fs"
  have pos: "0 \<le> ?pos" using assms by (simp add: file_ok_def)
  let ?hit = "0 < mDrmBufSize fs \<and> mDrmBufOffset fs \<le> ?pos
    \<and> size_t (?pos + int n) \<le> size_t (mDrmBufOffset fs + int (mDrmBufSize fs))"
  show ?thesis
  proof (cases ?hit)
    case True
    then have "?pos + int n \<le> mDrmBufOffset fs + int (mDrmBufSize fs)"
      using assms pos plain by (auto simp: file_ok_def)
    note hit = DRM_hit [OF assms(1) _ _ this]
    have "readAtDRM pread fs off n = Some (fs, int n, slice ?pos n plain)"
      unfolding readAtDRM_def Let_def if_P [OF True] using True hit(1) by simp
    then show ?thesis using True hit(2) assms(1) by auto
  next
    case miss: False
    show ?thesis
    proof (cases "n \<le> DRM_CACHE_SIZE")
      case False
      obtain r bs where p: "pread ?pos n = (r, bs)" by fastforce
      have "readAtDRM pread fs off n = Some (fs, r, bs)"
        unfolding readAtDRM_def Let_def if_not_P [OF miss] if_not_P [OF False] p ..
      moreover have "slice ?pos (nat r) plain = bs" "int (length bs) = r" "r \<le> int n"
        using pread [OF pos p] by auto
      ultimately show ?thesis using assms(1) by blast
    next
      case True
      obtain r bs where p: "pread ?pos DRM_CACHE_SIZE = (r, bs)" by fastforce
      define fs' where "fs' = fs\<lparr>mDrmBufOffset := ?pos, mDrmBufSize := size_t r,
        mDrmBuf := overwrite bs (mDrmBuf fs)\<rparr>"
      note fill = DRM_fill [OF assms(1) pos p, folded fs'_def]
      have sel: "mDrmBufOffset fs' = ?pos" "mDrmBufSize fs' = size_t r" by (simp_all add: fs'_def)
      let ?k = "if size_t r < n then size_t r else n"
      have eq: "readAtDRM pread fs off n =
        (if 0 < size_t r then do { out \<leftarrow> copy_from (mDrmBuf fs') 0 ?k; Some (fs', int ?k, out) }
         else Some (fs', 0, []))"
        unfolding readAtDRM_def Let_def if_not_P [OF miss] if_P [OF True] p prod.case fs'_def [symmetric]
          sel ..
      show ?thesis
      proof (cases "0 < size_t r")
        case True
        have "copy_from (mDrmBuf fs') (nat (?pos - mDrmBufOffset fs')) ?k = Some (slice ?pos ?k plain)"
          "length (slice ?pos ?k plain) = ?k"
          by (rule DRM_hit [OF fill(1)]; use True sel in auto)+
        then show ?thesis using eq True fill(1) sel by auto
      next
        case False
        then show ?thesis using eq fill(1) by (simp add: slice_def)
      qed
    qed
  qed
qed

text \<open>The content a source promises: the region of the file, decrypted or not.\<close>

lemma file_readAt_reads:
  assumes "file_ok plain fs" "0 \<le> off" "off + mOffset fs + int n < 2 ^ 64"
  shows "\<exists>fs' r bs. file_readAt lseek64 read pread fs off n = Some (fs', r, bs) \<and> file_ok plain fs' \<and>
    (0 \<le> r \<longrightarrow> slice off (nat r) (region (if drm_container fs then plain else disk) fs) = bs \<and>
      int (length bs) = r \<and> r \<le> int n)"
proof -
  define k where "k = (if 0 \<le> mLength fs \<and> mLength fs - off < int n then nat (mLength fs - off) else n)"
  have k: "k \<le> n" "0 \<le> mLength fs \<and> off < mLength fs \<Longrightarrow> off + int k \<le> mLength fs"
    using assms(2) by (auto simp: k_def)
  have O: "0 \<le> mOffset fs" "0 \<le> off + mOffset fs" using assms(1,2) by (auto simp: file_ok_def)
  show ?thesis
  proof (cases "mFd fs < 0 \<or> (0 \<le> mLength fs \<and> mLength fs \<le> off)")
    case True
    then show ?thesis
      using assms(1) by (auto simp: file_readAt_def NO_INIT_def slice_def)
  next
    case False
    then have bound: "0 \<le> mLength fs \<longrightarrow> off + int k \<le> mLength fs" using k by auto
    have n: "mFd fs < 0 \<longleftrightarrow> False" "(0 \<le> mLength fs \<and> mLength fs \<le> off) \<longleftrightarrow> False"
      using False by auto
    have eq: "file_readAt lseek64 read pread fs off n =
      (if drm_container fs then readAtDRM pread fs off k
       else if off + mOffset fs = -1 then Some (fs, UNKNOWN_ERROR, [])
       else Some (fs, read (off + mOffset fs) k))"
      unfolding file_readAt_def k_def [symmetric] Let_def seek [OF O(2)] n if_False ..
    have reg: "slice off (nat r) (region c fs) = slice (off + mOffset fs) (nat r) c"
      if "0 \<le> r" "r \<le> int k" for r c
      by (rule slice_region [symmetric]) (use that bound O assms(2) in linarith)+
    show ?thesis
    proof (cases "drm_container fs")
      case True
      from readAtDRM_reads [OF assms(1,2), of k] assms(3) k(1) obtain fs' r bs where
        r: "readAtDRM pread fs off k = Some (fs', r, bs)" "file_ok plain fs'"
          "slice (off + mOffset fs) (nat r) plain = bs" "int (length bs) = r" "r \<le> int k" by auto
      have "0 \<le> r \<longrightarrow> slice off (nat r) (region plain fs) = bs" using reg [of r plain] r(3,5) by simp
      moreover have "r \<le> int n" using r(5) k(1) by linarith
      ultimately show ?thesis using True eq r(1,2,4) by simp
    next
      case False
      obtain r bs where f: "read (off + mOffset fs) k = (r, bs)" by fastforce
      note r = read [OF O(2) f]
      have "0 \<le> r \<longrightarrow> slice off (nat r) (region disk fs) = bs \<and> int (length bs) = r \<and> r \<le> int n"
        using reg [of r disk] r k(1) by auto
      then show ?thesis using False eq f assms(1) O(2) by simp
    qed
  qed
qed

end

text \<open>A regular file as the system serves it.\<close>

definition serve_file :: "byte list \<Rightarrow> int \<Rightarrow> nat \<Rightarrow> int \<times> byte list" where
  "serve_file disk p n = (int (length (slice p n disk)), slice p n disk)"

interpretation served_file: regular_file "\<lambda>p. p" "serve_file disk" "serve_file (take 4096 plain)"
    disk "take 4096 plain" for disk plain
  by unfold_locales (simp_all add: serve_file_def, auto simp: slice_self, simp_all add: length_slice)

section \<open>A data URI read back\<close>

lemma uri_readAt_one:
  assumes "i < length bs"
  shows "uri_readAt bs (int i) (Suc 0) = (1, [bs ! i])"
proof -
  have one: "take (Suc 0) (drop i bs) = [bs ! i]"
    using assms by (simp add: take_Suc hd_drop_conv_nth)
  show ?thesis
  proof (cases "Suc 0 < length bs - i")
    case True
    then show ?thesis using assms one by (simp add: uri_readAt_def Let_def)
  next
    case False
    then have "length bs - i = Suc 0" using assms by simp
    then show ?thesis using assms one by (simp add: uri_readAt_def Let_def)
  qed
qed

lemma before_last_append [simp]: "x \<notin> set t \<Longrightarrow> before_last x (s @ x # t) = s"
  unfolding before_last_def by (simp, subst dropWhile_append2) auto

lemma after_last_append [simp]: "x \<notin> set t \<Longrightarrow> after_last x (s @ x # t) = t"
  by (auto simp: after_last_def takeWhile_append)

lemma lower_DATA: "map to_lower ''DATA:'' = ''data:''"
  by code_simp

section \<open>Properties\<close>

text \<open>
  through any data source that keeps the contract, the readers \<open>getUInt16\<close> to
  \<open>getUInt64\<close> return true with the big-endian value of the bytes at the offset, or false
  with 0; over a full source such as a data URI they return true for every integer that lies
  inside the content.
\<close>

theorem getUInt_big_endian:
  assumes "full_source (\<lambda>u off n. (u :: unit, src off n)) (\<lambda>_. True) content" "0 \<le> off"
  shows "(off + 2 \<le> int (length content) \<longrightarrow>
        (\<exists>x. getUInt16 src off = Some (True, x) \<and> unat x = be_value (slice off 2 content)))
    \<and> (off + 3 \<le> int (length content) \<longrightarrow>
        (\<exists>x. getUInt24 src off = Some (True, x) \<and> unat x = be_value (slice off 3 content)))
    \<and> (off + 4 \<le> int (length content) \<longrightarrow>
        (\<exists>x. getUInt32 src off = Some (True, x) \<and> unat x = be_value (slice off 4 content)))
    \<and> (off + 8 \<le> int (length content) \<longrightarrow>
        (\<exists>x. getUInt64 src off = Some (True, x) \<and> unat x = be_value (slice off 8 content)))"
proof -
  have a: "data_source.answer (\<lambda>u off n. (u :: unit, src off n)) () = src"
    by (intro ext) (subst data_source.answer_def [OF full_source.axioms(1) [OF assms(1)]], rule snd_conv)
  from full_source.getUInts_inside [OF assms(1), where s = "()" and off = off] assms(2) show ?thesis
    unfolding a by blast
qed

theorem getUInt_big_endian_witness:
  "\<exists>x. getUInt32 (uri_readAt [9, 1, 2, 3, 4]) 1 = Some (True, x) \<and> unat x = 16909060"
  using getUInt_big_endian [of "uri_readAt [9, 1, 2, 3, 4]" "[9, 1, 2, 3, 4]" 1] uri.full_source_axioms
  by (auto simp: slice_def be_value_def)

text \<open>
  \<open>CallbackDataSource::readAt\<close> never runs into its CHECK and, however the binder object
  splits the data into short replies, a count it returns is the number of bytes of the content
  it stored, starting at the offset.
\<close>

theorem callback_readAt_content:
  assumes "binder_source idr bufferSize content" "0 \<le> off"
  shows "\<exists>r bs. callback_readAt m idr bufferSize off n = Some (r, bs) \<and>
    (0 \<le> r \<longrightarrow> slice off (nat r) content = bs \<and> int (length bs) = r \<and> r \<le> int n)"
  using binder_source.callback_reads [OF assms] .

theorem callback_readAt_content_witness:
  "callback_readAt True (serve_uri [1, 2, 3, 4, 5] 2) 2 1 9 = Some (4, [2, 3, 4, 5]) \<and>
   (\<exists>r bs. callback_readAt True (serve_uri [1, 2, 3, 4, 5] 2) 2 1 9 = Some (r, bs) \<and>
    (0 \<le> r \<longrightarrow> slice 1 (nat r) [1, 2, 3, 4, 5] = bs \<and> int (length bs) = r \<and> r \<le> 9))"
proof -
  have "\<exists>r bs. callback_readAt True (serve_uri [1, 2, 3, 4, 5] 2) 2 1 9 = Some (r, bs) \<and>
    (0 \<le> r \<longrightarrow> slice 1 (nat r) [1, 2, 3, 4, 5] = bs \<and> int (length bs) = r \<and> r \<le> int 9)"
    by (rule callback_readAt_content [OF served.binder_source_axioms]) simp
  moreover have "callback_readAt True (serve_uri [1, 2, 3, 4, 5] 2) 2 1 9 = Some (4, [2, 3, 4, 5])"
    by (simp add: callback_readAt_def callback_loop.simps serve_uri_def uri_readAt_def Let_def)
  ultimately show ?thesis by simp
qed

text \<open>
  over a source that stores nothing when it fails, \<open>TinyCacheSource::readAt\<close> never aborts,
  keeps its cache equal to the bytes of the content it claims to hold, and returns the
  bytes of the content at the offset, whether the read hits, misses, or hits only partially.
\<close>

theorem tiny_readAt_content:
  assumes "quiet_source src content" "tiny_ok content t" "0 \<le> off"
  shows "\<exists>t' r bs. tiny_readAt src t off n = Some (t', r, bs) \<and> tiny_ok content t' \<and>
    (0 \<le> r \<longrightarrow> slice off (nat r) content = bs \<and> int (length bs) = r \<and> r \<le> int n)"
  using quiet_source.tiny_reads [OF assms] .

theorem tiny_readAt_content_witness:
  "\<exists>t' r bs. tiny_readAt (uri_readAt [1, 2, 3]) (TinyCacheSource (replicate 2048 0)) 1 5 = Some (t', r, bs) \<and>
    tiny_ok [1, 2, 3] t' \<and>
    (0 \<le> r \<longrightarrow> slice 1 (nat r) [1, 2, 3] = bs \<and> int (length bs) = r \<and> r \<le> int 5)"
  by (rule tiny_readAt_content [OF tiny_uri.quiet_source_axioms])
    (simp_all add: tiny_ok_def TinyCacheSource_def kCacheSize_def slice_def)

text \<open>
  \<open>FileSource::readAt\<close> never returns bytes outside the region of the file it was opened
  on, nor a stale DRM buffer: a count it returns at a non-negative offset is the number of bytes
  of that region it stored, read from the descriptor or decrypted by a DRM plugin that does not
  fail, and the DRM buffer goes on holding the plain bytes it claims to hold.
\<close>

theorem file_readAt_region:
  assumes "regular_file lseek64 read pread disk plain" "file_ok plain fs" "0 \<le> off"
    "off + mOffset fs + int n < 2 ^ 64"
  shows "\<exists>fs' r bs. file_readAt lseek64 read pread fs off n = Some (fs', r, bs) \<and> file_ok plain fs' \<and>
    (0 \<le> r \<longrightarrow> slice off (nat r) (region (if drm_container fs then plain else disk) fs) = bs \<and>
      int (length bs) = r \<and> r \<le> int n)"
  using regular_file.file_readAt_reads [OF assms] .

theorem file_readAt_region_witness:
  "\<exists>fs' r bs. file_readAt (\<lambda>p. p) (serve_file [1, 2, 3, 4]) (serve_file (take 4096 [7, 8, 9, 10]))
      \<lparr>mFd = 3, mOffset = 1, mLength = 2, drm_container = True, mDrmBuf = replicate 1024 0, mDrmBufOffset = 0, mDrmBufSize = 0\<rparr> 1 5 = Some (fs', r, bs) \<and> (0 \<le> r \<longrightarrow> slice 1 (nat r) [8, 9] = bs)"
  using file_readAt_region [OF served_file.regular_file_axioms [of "[1, 2, 3, 4]" "[7, 8, 9, 10]"], of
    "\<lparr>mFd = 3, mOffset = 1, mLength = 2, drm_container = True, mDrmBuf = replicate 1024 0, mDrmBufOffset = 0, mDrmBufSize = 0\<rparr>" 1 5]
  by (auto simp: file_ok_def DRM_CACHE_SIZE_def region_def slice_def)

text \<open>
  when the DRM plugin reports an error, \<open>readAtDRM\<close> does not: the negative result is stored
  in the unsigned \<open>mDrmBufSize\<close>, counts as data, and the call reports that it has read all of
  the requested bytes, which are the old contents of the buffer.
\<close>

theorem drm_error_returns_stale:
  assumes "mDrmBufSize fs = 0" "n \<le> DRM_CACHE_SIZE" "length (mDrmBuf fs) = DRM_CACHE_SIZE"
    "pread (off + mOffset fs) DRM_CACHE_SIZE = (r, [])" "r < 0" "- (2 ^ 31) \<le> r"
  shows "readAtDRM pread fs off n =
    Some (fs\<lparr>mDrmBufOffset := off + mOffset fs, mDrmBufSize := size_t r\<rparr>, int n, take n (mDrmBuf fs))"
proof -
  have "r mod 2 ^ 64 = r + 2 ^ 64"
  proof -
    have "r mod 2 ^ 64 = (r + 2 ^ 64) mod 2 ^ 64" by (rule mod_add_self2 [symmetric])
    also have "\<dots> = r + 2 ^ 64" using assms(5,6) by (intro mod_pos_pos_trivial) simp_all
    finally show ?thesis .
  qed
  then have big: "DRM_CACHE_SIZE < size_t r"
    using assms(6) by (simp add: size_t_def DRM_CACHE_SIZE_def)
  have "overwrite [] (mDrmBuf fs) = mDrmBuf fs" by (simp add: overwrite_def)
  with big assms show ?thesis
    by (simp add: readAtDRM_def Let_def copy_from_def)
qed

theorem drm_error_returns_stale_witness:
  "\<exists>fs'. readAtDRM (\<lambda>_ _. (-1, [])) \<lparr>mFd = 3, mOffset = 1, mLength = 2, drm_container = True, mDrmBuf = replicate 1024 0, mDrmBufOffset = 0, mDrmBufSize = 0\<rparr> 0 3 = Some (fs', 3, [0, 0, 0])"
  using drm_error_returns_stale [of
    "\<lparr>mFd = 3, mOffset = 1, mLength = 2, drm_container = True, mDrmBuf = replicate 1024 0, mDrmBufOffset = 0, mDrmBufSize = 0\<rparr>" 3 "\<lambda>_ _. (-1, [])" 0 "-1"]
  by (simp add: DRM_CACHE_SIZE_def numeral_3_eq_3)

text \<open>
  when the source of a \<open>TinyCacheSource\<close> fails after it has stored some bytes, the cache
  keeps its old offset and size over the new bytes: the next read that hits returns the
  bytes of the failed read as if they stood at the cached offset.
\<close>

theorem tiny_failed_refill:
  assumes "tiny_ok content t" "n < kCacheSize" "\<not> (mCachedOffset t \<le> off \<and> off < mCachedOffset t + int (mCachedSize t))"
    "src off kCacheSize = (r, bs)" "r < 0" "length bs \<le> kCacheSize"
    "0 < m" "m \<le> mCachedSize t" "m < kCacheSize"
  shows "\<exists>t'. tiny_readAt src t off n = Some (t', r, []) \<and>
    tiny_readAt src t' (mCachedOffset t) m = Some (t', int m, take m (overwrite bs (mCache t)))"
proof -
  let ?t = "t\<lparr>mCache := overwrite bs (mCache t)\<rparr>"
  have "tiny_readAt src t off n = Some (?t, r, [])"
    using assms(2-5) by (subst tiny_readAt.simps) (auto simp: Let_def)
  moreover have "tiny_readAt src ?t (mCachedOffset t) m = Some (?t, int m, take m (overwrite bs (mCache t)))"
    using assms by (subst tiny_readAt.simps) (auto simp: Let_def tiny_ok_def overwrite_def)
  ultimately show ?thesis by blast
qed

theorem tiny_failed_refill_witness:
  "\<exists>t'. tiny_readAt (\<lambda>_ _. (-1, [7])) \<lparr>mCache = 5 # replicate 2047 0, mCachedOffset = 0, mCachedSize = 1\<rparr> 9 1 = Some (t', -1, []) \<and>
    tiny_readAt (\<lambda>_ _. (-1, [7])) t' 0 1 = Some (t', 1, [7])"
  using tiny_failed_refill [of "[5]" "\<lparr>mCache = 5 # replicate 2047 0, mCachedOffset = 0, mCachedSize = 1\<rparr>"
      1 9 "\<lambda>_ _. (-1, [7])" "-1" "[7]" 1]
  by (simp add: tiny_ok_def kCacheSize_def slice_def overwrite_def)

text \<open>
  \<open>DataURISource::Create\<close> on a base64 data URI gives a source whose content is exactly the
  encoded bytes: \<open>getSize\<close> is their number and \<open>readAt\<close> returns every one of them.
\<close>

theorem uri_Create_reads:
  assumes "alloc (length bs)"
  shows "uri_Create alloc (''DATA:'' @ mime @ '';base64,'' @ encodeBase64 bs) = Some (Some bs)
    \<and> uri_getSize bs = int (length bs)
    \<and> (\<forall>i < length bs. uri_readAt bs (int i) 1 = (1, [bs ! i]))"
proof -
  let ?e = "encodeBase64 bs"
  have none: "CHR '','' \<notin> set ?e" "CHR 0x0D \<notin> set ?e" "CHR 0x0A \<notin> set ?e"
    by (rule encodeBase64_alphabet; simp add: char_value_def between_def)+
  have uri: "''DATA:'' @ mime @ '';base64,'' @ ?e = (''DATA:'' @ mime @ '';base64'') @ CHR '','' # ?e" by simp
  have "filter (\<lambda>c. c \<noteq> CHR 0x0D \<and> c \<noteq> CHR 0x0A) ?e = ?e"
    using none by (intro filter_True) auto
  then have "uri_Create alloc (''DATA:'' @ mime @ '';base64,'' @ ?e) = Some (Some bs)"
    unfolding uri uri_Create_def before_last_append [OF none(1)] after_last_append [OF none(1)] Let_def
    using decode_of_encode [of alloc, OF assms] by (simp add: lower_DATA [simplified] endsWith_def)
  then show ?thesis
    by (simp add: uri_getSize_def uri_readAt_one)
qed

theorem uri_Create_reads_witness:
  "uri_Create (\<lambda>n. n < 100) (''DATA:'' @ ''text/plain'' @ '';base64,'' @ encodeBase64 [1, 255, 7, 9]) = Some (Some [1, 255, 7, 9])"
  using uri_Create_reads [of "\<lambda>n. n < 100" "[1, 255, 7, 9]" "''text/plain''"] by simp

end
