(* ===== verification/PlayerClient.thy ===== *)
theory PlayerClient
  imports AvPrelude Complex_Main
begin

text \<open>
  The client side of media playback, class MediaPlayer of media/libmedia/mediaplayer.cpp: its
  state machine, the coalescing of seeks, the blocking \<open>prepare\<close> and the handler of the
  notifications of the media server.

  The remote \<open>IMediaPlayer\<close> is an identity; what it replies during an operation is an
  argument \<open>svc\<close> of the operation, the status and the value of each call. The calls made and
  the events delivered to the listener are recorded in the state. A call on a null \<open>mPlayer\<close>
  is the value \<open>None\<close>.
\<close>

section \<open>States and calls\<close>

definition MEDIA_PLAYER_STATE_ERROR :: u32 where "MEDIA_PLAYER_STATE_ERROR = 0"
definition MEDIA_PLAYER_IDLE :: u32 where "MEDIA_PLAYER_IDLE = 1"
definition MEDIA_PLAYER_INITIALIZED :: u32 where "MEDIA_PLAYER_INITIALIZED = 2"
definition MEDIA_PLAYER_PREPARING :: u32 where "MEDIA_PLAYER_PREPARING = 4"
definition MEDIA_PLAYER_PREPARED :: u32 where "MEDIA_PLAYER_PREPARED = 8"
definition MEDIA_PLAYER_STARTED :: u32 where "MEDIA_PLAYER_STARTED = 16"
definition MEDIA_PLAYER_PAUSED :: u32 where "MEDIA_PLAYER_PAUSED = 32"
definition MEDIA_PLAYER_STOPPED :: u32 where "MEDIA_PLAYER_STOPPED = 64"
definition MEDIA_PLAYER_PLAYBACK_COMPLETE :: u32 where "MEDIA_PLAYER_PLAYBACK_COMPLETE = 128"

lemmas player_states = MEDIA_PLAYER_STATE_ERROR_def MEDIA_PLAYER_IDLE_def
  MEDIA_PLAYER_INITIALIZED_def MEDIA_PLAYER_PREPARING_def MEDIA_PLAYER_PREPARED_def
  MEDIA_PLAYER_STARTED_def MEDIA_PLAYER_PAUSED_def MEDIA_PLAYER_STOPPED_def
  MEDIA_PLAYER_PLAYBACK_COMPLETE_def

definition EALREADY :: int where "EALREADY = 114"
definition KEY_PARAMETER_AUDIO_ATTRIBUTES :: int where "KEY_PARAMETER_AUDIO_ATTRIBUTES = 1400"
definition MEDIA_ERROR_SERVER_DIED :: int where "MEDIA_ERROR_SERVER_DIED = 100"

datatype media_event = MEDIA_NOP | MEDIA_PREPARED | MEDIA_PLAYBACK_COMPLETE | MEDIA_BUFFERING_UPDATE
  | MEDIA_SEEK_COMPLETE | MEDIA_SET_VIDEO_SIZE | MEDIA_STARTED | MEDIA_PAUSED | MEDIA_STOPPED
  | MEDIA_SKIPPED | MEDIA_TIMED_TEXT | MEDIA_ERROR | MEDIA_INFO
  | MEDIA_SUBTITLE_DATA | MEDIA_META_DATA | MEDIA_OTHER int

type_synonym parcel = "byte list"

text \<open>The calls on an \<open>IMediaPlayer\<close>.\<close>

datatype source_arg = Url string | Fd int int int | StreamSource nat | BinderSource nat

datatype call =
    R_setDataSource source_arg | R_setRetransmitEndpoint | R_disconnect
  | R_invoke parcel | R_setMetadataFilter parcel | R_getMetadata bool bool
  | R_setVideoSurfaceTexture nat | R_setParameter int parcel | R_getParameter int
  | R_setAudioStreamType int | R_prepareAsync | R_setLooping int | R_setVolume real real
  | R_setAuxEffectSendLevel real | R_start | R_stop | R_pause | R_isPlaying
  | R_setPlaybackSettings real real | R_getPlaybackSettings | R_setSyncSettings int int real real
  | R_getSyncSettings | R_getCurrentPosition | R_getDuration | R_seekTo int | R_reset
  | R_attachAuxEffect int | R_setNextPlayer "nat option"

type_synonym svc = "call \<Rightarrow> int \<times> int"

text \<open>
  The members of the class. \<open>waiters\<close> counts the threads blocked in \<open>mSignal.wait\<close> and
  \<open>woken\<close> those that were signalled and have not run yet.
\<close>

record player =
  mPlayer :: "nat option"
  mListener :: "nat option"
  mCurrentState :: u32
  mCurrentPosition :: int
  mSeekPosition :: int
  mPrepareSync :: bool
  mPrepareStatus :: int
  mStreamType :: int
  mAudioAttributesParcel :: "parcel option"
  mLoop :: bool
  mLeftVolume :: real
  mRightVolume :: real
  mVideoWidth :: int
  mVideoHeight :: int
  mAudioSessionId :: int
  mSendLevel :: real
  mRetransmitEndpoint :: "u32 \<times> u16"
  mRetransmitEndpointValid :: bool
  waiters :: nat
  woken :: nat
  calls :: "(nat \<times> call) list"
  delivered :: "(nat \<times> media_event \<times> int \<times> int) list"
  sessions :: "int list"

text \<open>
  The constructor; the value of \<open>AUDIO_STREAM_MUSIC\<close> (system/audio.h) and the fresh session
  id of the audio system are arguments.
\<close>

definition MediaPlayer :: "int \<Rightarrow> int \<Rightarrow> player" where
  "MediaPlayer music session = \<lparr>mPlayer = None, mListener = None, mCurrentState = MEDIA_PLAYER_IDLE,
     mCurrentPosition = -1, mSeekPosition = -1, mPrepareSync = False, mPrepareStatus = OK,
     mStreamType = music, mAudioAttributesParcel = None, mLoop = False, mLeftVolume = 1, mRightVolume = 1,
     mVideoWidth = 0, mVideoHeight = 0, mAudioSessionId = session, mSendLevel = 0,
     mRetransmitEndpoint = (0, 0), mRetransmitEndpointValid = False, waiters = 0, woken = 0,
     calls = [], delivered = [], sessions = [session]\<rparr>"

text \<open>\<open>mPlayer->c\<close>, and \<open>(mCurrentState & mask) != 0\<close>.\<close>

definition remote :: "svc \<Rightarrow> call \<Rightarrow> player \<Rightarrow> (player \<times> int \<times> int) option" where
  "remote svc c p =
     (case mPlayer p of None \<Rightarrow> None
      | Some o' \<Rightarrow> Some (p\<lparr>calls := calls p @ [(o', c)]\<rparr>, svc c))"

text \<open>A call on another object \<open>o'\<close>, which is a local pointer.\<close>

definition call_on :: "svc \<Rightarrow> nat option \<Rightarrow> call \<Rightarrow> player \<Rightarrow> (player \<times> int \<times> int) option" where
  "call_on svc o' c p =
     (case o' of None \<Rightarrow> None | Some i \<Rightarrow> Some (p\<lparr>calls := calls p @ [(i, c)]\<rparr>, svc c))"

definition in_state :: "player \<Rightarrow> u32 \<Rightarrow> bool" where
  "in_state p ms \<longleftrightarrow> mCurrentState p AND ms \<noteq> 0"

definition status_of :: "(player \<times> int \<times> int) option \<Rightarrow> (player \<times> int) option" where
  "status_of r = map_option (\<lambda>(p, st, _). (p, st)) r"

section \<open>Attaching, resetting and disconnecting\<close>

definition disconnect :: "svc \<Rightarrow> player \<Rightarrow> player option" where
  "disconnect svc p =
     (let q = mPlayer p; p = p\<lparr>mPlayer := None\<rparr>
      in if q \<noteq> None then map_option fst (call_on svc q R_disconnect p) else Some p)"

definition clear_l :: "player \<Rightarrow> player" where
  "clear_l p = p\<lparr>mCurrentPosition := -1, mSeekPosition := -1, mVideoWidth := 0, mVideoHeight := 0,
     mRetransmitEndpointValid := False\<rparr>"

definition setListener :: "nat option \<Rightarrow> player \<Rightarrow> player \<times> int" where
  "setListener l p = (p\<lparr>mListener := l\<rparr>, OK)"

definition attachNewPlayer :: "svc \<Rightarrow> nat option \<Rightarrow> player \<Rightarrow> (player \<times> int) option" where
  "attachNewPlayer svc new p =
     (if \<not> (in_state p MEDIA_PLAYER_IDLE \<or> mCurrentState p = MEDIA_PLAYER_STATE_ERROR)
      then Some (p, INVALID_OPERATION)
      else
        let p = clear_l p;
            old = mPlayer p;
            p = p\<lparr>mPlayer := new\<rparr>;
            (p, err) = (if new \<noteq> None then (p\<lparr>mCurrentState := MEDIA_PLAYER_INITIALIZED\<rparr>, OK)
                        else (p, UNKNOWN_ERROR))
        in if old \<noteq> None
           then map_option (\<lambda>(p, _). (p, err)) (call_on svc old R_disconnect p)
           else Some (p, err))"

definition doSetRetransmitEndpoint :: "svc \<Rightarrow> nat option \<Rightarrow> player \<Rightarrow> (player \<times> int) option" where
  "doSetRetransmitEndpoint svc new p =
     (if new = None then Some (p, UNKNOWN_ERROR)
      else if mRetransmitEndpointValid p then status_of (call_on svc new R_setRetransmitEndpoint p)
      else Some (p, OK))"

text \<open>
  The common part of the four \<open>setDataSource\<close>: the service creates a player (\<open>created\<close>, null
  when it cannot), which gets the endpoint and the source and is attached unless one of the two
  failed.
\<close>

definition create_and_attach :: "svc \<Rightarrow> nat option \<Rightarrow> source_arg \<Rightarrow> player \<Rightarrow> (player \<times> int) option" where
  "create_and_attach svc created src p = do {
     (p, e1) \<leftarrow> doSetRetransmitEndpoint svc created p;
     (p, new) \<leftarrow> (if e1 \<noteq> OK then Some (p, None)
                  else do { (p, e2, _) \<leftarrow> call_on svc created (R_setDataSource src) p;
                            Some (p, if e2 \<noteq> OK then None else created) });
     attachNewPlayer svc new p
   }"

definition setDataSource_url :: "svc \<Rightarrow> bool \<Rightarrow> nat option \<Rightarrow> string option \<Rightarrow> player \<Rightarrow> (player \<times> int) option" where
  "setDataSource_url svc service created url p =
     (case url of None \<Rightarrow> Some (p, BAD_VALUE)
      | Some u \<Rightarrow> if service then create_and_attach svc created (Url u) p else Some (p, BAD_VALUE))"

definition setDataSource_fd :: "svc \<Rightarrow> bool \<Rightarrow> nat option \<Rightarrow> int \<Rightarrow> int \<Rightarrow> int \<Rightarrow> player \<Rightarrow> (player \<times> int) option" where
  "setDataSource_fd svc service created fd off len p =
     (if service then create_and_attach svc created (Fd fd off len) p else Some (p, UNKNOWN_ERROR))"

definition setDataSource_stream :: "svc \<Rightarrow> bool \<Rightarrow> nat option \<Rightarrow> nat \<Rightarrow> player \<Rightarrow> (player \<times> int) option" where
  "setDataSource_stream svc service created src p =
     (if service then create_and_attach svc created (StreamSource src) p else Some (p, UNKNOWN_ERROR))"

definition setDataSource_data :: "svc \<Rightarrow> bool \<Rightarrow> nat option \<Rightarrow> nat \<Rightarrow> player \<Rightarrow> (player \<times> int) option" where
  "setDataSource_data svc service created src p =
     (if service then create_and_attach svc created (BinderSource src) p else Some (p, UNKNOWN_ERROR))"

definition reset_l :: "svc \<Rightarrow> player \<Rightarrow> (player \<times> int) option" where
  "reset_l svc p =
     (let p = p\<lparr>mLoop := False\<rparr> in
      if mCurrentState p = MEDIA_PLAYER_IDLE then Some (p, OK)
      else let p = p\<lparr>mPrepareSync := False\<rparr> in
      if mPlayer p \<noteq> None then do {
        (p, ret, _) \<leftarrow> remote svc R_reset p;
        p \<leftarrow> (if ret \<noteq> OK then Some (p\<lparr>mCurrentState := MEDIA_PLAYER_STATE_ERROR\<rparr>)
             else do { (p, _) \<leftarrow> remote svc R_disconnect p;
                       Some (p\<lparr>mCurrentState := MEDIA_PLAYER_IDLE\<rparr>) });
        Some (p\<lparr>mPlayer := None\<rparr>, ret)
      }
      else Some (clear_l p, OK))"

section \<open>Calls that pass through\<close>

definition invoke :: "svc \<Rightarrow> parcel \<Rightarrow> player \<Rightarrow> (player \<times> int) option" where
  "invoke svc request p =
     (let hasBeenInitialized = mCurrentState p \<noteq> MEDIA_PLAYER_STATE_ERROR
            \<and> mCurrentState p AND MEDIA_PLAYER_IDLE \<noteq> MEDIA_PLAYER_IDLE
      in if mPlayer p \<noteq> None \<and> hasBeenInitialized then status_of (remote svc (R_invoke request) p)
         else Some (p, INVALID_OPERATION))"

definition setMetadataFilter :: "svc \<Rightarrow> parcel \<Rightarrow> player \<Rightarrow> (player \<times> int) option" where
  "setMetadataFilter svc flt p =
     (if mPlayer p = None then Some (p, NO_INIT) else status_of (remote svc (R_setMetadataFilter flt) p))"

definition getMetadata :: "svc \<Rightarrow> bool \<Rightarrow> bool \<Rightarrow> player \<Rightarrow> (player \<times> int) option" where
  "getMetadata svc update_only apply_filter p =
     (if mPlayer p = None then Some (p, NO_INIT)
      else status_of (remote svc (R_getMetadata update_only apply_filter) p))"

definition setVideoSurfaceTexture :: "svc \<Rightarrow> nat \<Rightarrow> player \<Rightarrow> (player \<times> int) option" where
  "setVideoSurfaceTexture svc bufferProducer p =
     (if mPlayer p = None then Some (p, NO_INIT)
      else status_of (remote svc (R_setVideoSurfaceTexture bufferProducer) p))"

section \<open>Seeking\<close>

definition playing_states :: u32 where
  "playing_states = MEDIA_PLAYER_STARTED OR MEDIA_PLAYER_PREPARED OR MEDIA_PLAYER_PAUSED OR MEDIA_PLAYER_PLAYBACK_COMPLETE"

definition seekTo_l :: "svc \<Rightarrow> int \<Rightarrow> player \<Rightarrow> (player \<times> int) option" where
  "seekTo_l svc msec p =
     (if mPlayer p \<noteq> None \<and> in_state p playing_states
      then let msec = (if msec < 0 then 0 else msec) in do {
        (p, err, durationMs) \<leftarrow> remote svc R_getDuration p;
        if err \<noteq> OK then Some (p, err)
        else
          let msec = (if durationMs < msec then durationMs else msec);
              p = p\<lparr>mCurrentPosition := msec\<rparr>
          in if mSeekPosition p < 0
             then status_of (remote svc (R_seekTo msec) (p\<lparr>mSeekPosition := msec\<rparr>))
             else Some (p, OK)
      }
      else Some (p, INVALID_OPERATION))"

section \<open>Notifications\<close>

text \<open>\<open>mSignal.signal()\<close> wakes one waiting thread, if there is one.\<close>

definition signal :: "player \<Rightarrow> player" where
  "signal p = (if 0 < waiters p then p\<lparr>waiters := waiters p - 1, woken := woken p + 1\<rparr> else p)"

text \<open>The switch over the message; the flag says whether the listener is told.\<close>

fun handle :: "svc \<Rightarrow> media_event \<Rightarrow> int \<Rightarrow> int \<Rightarrow> player \<Rightarrow> (player \<times> bool) option" where
  "handle svc MEDIA_PREPARED ext1 ext2 p =
     (let p = p\<lparr>mCurrentState := MEDIA_PLAYER_PREPARED\<rparr>
      in Some (if mPrepareSync p then signal (p\<lparr>mPrepareSync := False, mPrepareStatus := OK\<rparr>) else p, True))"
| "handle svc MEDIA_PLAYBACK_COMPLETE ext1 ext2 p =
     Some (if \<not> mLoop p then p\<lparr>mCurrentState := MEDIA_PLAYER_PLAYBACK_COMPLETE\<rparr> else p, True)"
| "handle svc MEDIA_ERROR ext1 ext2 p =
     (let p = p\<lparr>mCurrentState := MEDIA_PLAYER_STATE_ERROR\<rparr>
      in if mPrepareSync p then Some (signal (p\<lparr>mPrepareSync := False, mPrepareStatus := ext1\<rparr>), False)
         else Some (p, True))"
| "handle svc MEDIA_SEEK_COMPLETE ext1 ext2 p =
     (if mSeekPosition p \<noteq> mCurrentPosition p
      then let p = p\<lparr>mSeekPosition := -1\<rparr>
           in map_option (\<lambda>(p, _). (p, True)) (seekTo_l svc (mCurrentPosition p) p)
      else Some (p\<lparr>mCurrentPosition := -1, mSeekPosition := -1\<rparr>, True))"
| "handle svc MEDIA_SET_VIDEO_SIZE ext1 ext2 p =
     Some (p\<lparr>mVideoWidth := ext1, mVideoHeight := ext2\<rparr>, True)"
| "handle svc _ ext1 ext2 p = Some (p, True)"

definition notify :: "svc \<Rightarrow> media_event \<Rightarrow> int \<Rightarrow> int \<Rightarrow> player \<Rightarrow> player option" where
  "notify svc msg ext1 ext2 p =
     (if \<not> (msg = MEDIA_ERROR \<and> mCurrentState p = MEDIA_PLAYER_IDLE) \<and> mPlayer p = None then Some p
      else do {
        (p, send) \<leftarrow> handle svc msg ext1 ext2 p;
        Some (case mListener p of
                Some l \<Rightarrow> if send then p\<lparr>delivered := delivered p @ [(l, msg, ext1, ext2)]\<rparr> else p
              | None \<Rightarrow> p)
      })"

definition died :: "svc \<Rightarrow> player \<Rightarrow> player option" where
  "died svc p = notify svc MEDIA_ERROR MEDIA_ERROR_SERVER_DIED 0 p"

text \<open>
  Notifications that the server delivers on the calling thread while a call is under way, when
  both run in one process.
\<close>

type_synonym notice = "svc \<times> media_event \<times> int \<times> int"

fun reentrant :: "notice list \<Rightarrow> player \<Rightarrow> player option" where
  "reentrant [] p = Some p"
| "reentrant ((svc, msg, ext1, ext2) # ns) p = do { p \<leftarrow> notify svc msg ext1 ext2 p; reentrant ns p }"

definition seekTo :: "svc \<Rightarrow> notice list \<Rightarrow> int \<Rightarrow> player \<Rightarrow> (player \<times> int) option" where
  "seekTo svc ns msec p = do { (p, ret) \<leftarrow> seekTo_l svc msec p; p \<leftarrow> reentrant ns p; Some (p, ret) }"

section \<open>Preparing\<close>

definition prepareAsync_l :: "svc \<Rightarrow> player \<Rightarrow> (player \<times> int) option" where
  "prepareAsync_l svc p =
     (if mPlayer p \<noteq> None \<and> in_state p (MEDIA_PLAYER_INITIALIZED OR MEDIA_PLAYER_STOPPED)
      then do {
        (p, _) \<leftarrow> (case mAudioAttributesParcel p of
                     Some a \<Rightarrow> remote svc (R_setParameter KEY_PARAMETER_AUDIO_ATTRIBUTES a) p
                   | None \<Rightarrow> remote svc (R_setAudioStreamType (mStreamType p)) p);
        status_of (remote svc R_prepareAsync (p\<lparr>mCurrentState := MEDIA_PLAYER_PREPARING\<rparr>))
      }
      else Some (p, INVALID_OPERATION))"

definition prepareAsync :: "svc \<Rightarrow> player \<Rightarrow> (player \<times> int) option" where
  "prepareAsync svc p = prepareAsync_l svc p"

text \<open>
  \<open>prepare()\<close> up to its return or to \<open>mSignal.wait\<close>, where it blocks and gives up the lock
  (\<open>Blocked\<close>), and what the thread does once it was signalled.
\<close>

datatype prepared = Returned int | Blocked

definition prepare :: "svc \<Rightarrow> notice list \<Rightarrow> player \<Rightarrow> (player \<times> prepared) option" where
  "prepare svc ns p =
     (if mPrepareSync p then Some (p, Returned (- EALREADY))
      else do {
        (p, ret) \<leftarrow> prepareAsync_l svc (p\<lparr>mPrepareSync := True\<rparr>);
        p \<leftarrow> reentrant ns p;
        Some (if ret \<noteq> OK then (p, Returned ret)
              else if mPrepareSync p then (p\<lparr>waiters := waiters p + 1\<rparr>, Blocked)
              else (p, Returned (mPrepareStatus p)))
      })"

definition prepare_resume :: "player \<Rightarrow> (player \<times> int) option" where
  "prepare_resume p =
     (if 0 < woken p then Some (p\<lparr>woken := woken p - 1, mPrepareSync := False\<rparr>, mPrepareStatus p) else None)"

section \<open>Transport controls\<close>

definition start :: "svc \<Rightarrow> notice list \<Rightarrow> player \<Rightarrow> (player \<times> int) option" where
  "start svc ns p =
     (if in_state p MEDIA_PLAYER_STARTED then Some (p, OK)
      else if mPlayer p \<noteq> None \<and>
          in_state p (MEDIA_PLAYER_PREPARED OR MEDIA_PLAYER_PLAYBACK_COMPLETE OR MEDIA_PLAYER_PAUSED)
      then do {
        (p, _) \<leftarrow> remote svc (R_setLooping (of_bool (mLoop p))) p;
        (p, _) \<leftarrow> remote svc (R_setVolume (mLeftVolume p) (mRightVolume p)) p;
        (p, _) \<leftarrow> remote svc (R_setAuxEffectSendLevel (mSendLevel p)) p;
        (p, ret, _) \<leftarrow> remote svc R_start (p\<lparr>mCurrentState := MEDIA_PLAYER_STARTED\<rparr>);
        p \<leftarrow> reentrant ns p;
        Some (if ret \<noteq> OK then p\<lparr>mCurrentState := MEDIA_PLAYER_STATE_ERROR\<rparr> else p, ret)
      }
      else Some (p, INVALID_OPERATION))"

definition stop :: "svc \<Rightarrow> player \<Rightarrow> (player \<times> int) option" where
  "stop svc p =
     (if in_state p MEDIA_PLAYER_STOPPED then Some (p, OK)
      else if mPlayer p \<noteq> None \<and> in_state p (MEDIA_PLAYER_STARTED OR MEDIA_PLAYER_PREPARED OR
                    MEDIA_PLAYER_PAUSED OR MEDIA_PLAYER_PLAYBACK_COMPLETE)
      then do {
        (p, ret, _) \<leftarrow> remote svc R_stop p;
        Some (if ret \<noteq> OK then p\<lparr>mCurrentState := MEDIA_PLAYER_STATE_ERROR\<rparr>
              else p\<lparr>mCurrentState := MEDIA_PLAYER_STOPPED\<rparr>, ret)
      }
      else Some (p, INVALID_OPERATION))"

definition pause :: "svc \<Rightarrow> player \<Rightarrow> (player \<times> int) option" where
  "pause svc p =
     (if in_state p (MEDIA_PLAYER_PAUSED OR MEDIA_PLAYER_PLAYBACK_COMPLETE) then Some (p, OK)
      else if mPlayer p \<noteq> None \<and> in_state p MEDIA_PLAYER_STARTED
      then do {
        (p, ret, _) \<leftarrow> remote svc R_pause p;
        Some (if ret \<noteq> OK then p\<lparr>mCurrentState := MEDIA_PLAYER_STATE_ERROR\<rparr>
              else p\<lparr>mCurrentState := MEDIA_PLAYER_PAUSED\<rparr>, ret)
      }
      else Some (p, INVALID_OPERATION))"

text \<open>The reply of \<open>isPlaying(&temp)\<close> is its value; \<open>temp\<close> stays false when the call fails.\<close>

definition isPlaying :: "svc \<Rightarrow> player \<Rightarrow> (player \<times> bool) option" where
  "isPlaying svc p =
     (if mPlayer p \<noteq> None then do {
        (p, _, v) \<leftarrow> remote svc R_isPlaying p;
        let temp = v \<noteq> 0 in
        Some (if in_state p MEDIA_PLAYER_STARTED \<and> \<not> temp then p\<lparr>mCurrentState := MEDIA_PLAYER_PAUSED\<rparr>
              else if in_state p MEDIA_PLAYER_PAUSED \<and> temp then p\<lparr>mCurrentState := MEDIA_PLAYER_STARTED\<rparr>
              else p, temp)
      }
      else Some (p, False))"

definition setPlaybackSettings :: "svc \<Rightarrow> real \<Rightarrow> real \<Rightarrow> player \<Rightarrow> (player \<times> int) option" where
  "setPlaybackSettings svc mSpeed mPitch p =
     (if mSpeed < 0 \<or> mPitch < 0 then Some (p, BAD_VALUE)
      else if mPlayer p = None then Some (p, INVALID_OPERATION)
      else do {
        (p, err, _) \<leftarrow> remote svc (R_setPlaybackSettings mSpeed mPitch) p;
        Some (if err = OK
              then if mSpeed = 0 \<and> mCurrentState p = MEDIA_PLAYER_STARTED
                   then p\<lparr>mCurrentState := MEDIA_PLAYER_PAUSED\<rparr>
                   else if mSpeed \<noteq> 0 \<and> mCurrentState p = MEDIA_PLAYER_PAUSED
                   then p\<lparr>mCurrentState := MEDIA_PLAYER_STARTED\<rparr> else p
              else p, err)
      })"

section \<open>Settings and queries\<close>

definition getPlaybackSettings :: "svc \<Rightarrow> player \<Rightarrow> (player \<times> int) option" where
  "getPlaybackSettings svc p =
     (if mPlayer p = None then Some (p, INVALID_OPERATION) else status_of (remote svc R_getPlaybackSettings p))"

definition setSyncSettings :: "svc \<Rightarrow> int \<Rightarrow> int \<Rightarrow> real \<Rightarrow> real \<Rightarrow> player \<Rightarrow> (player \<times> int) option" where
  "setSyncSettings svc source mode tolerance hint p =
     (if mPlayer p = None then Some (p, INVALID_OPERATION)
      else status_of (remote svc (R_setSyncSettings source mode tolerance hint) p))"

definition getSyncSettings :: "svc \<Rightarrow> player \<Rightarrow> (player \<times> int) option" where
  "getSyncSettings svc p =
     (if mPlayer p = None then Some (p, INVALID_OPERATION) else status_of (remote svc R_getSyncSettings p))"

text \<open>Queries with an output parameter: the status and what was stored, if anything.\<close>

definition getVideoWidth :: "player \<Rightarrow> int \<times> int option" where
  "getVideoWidth p = (if mPlayer p = None then (INVALID_OPERATION, None) else (OK, Some (mVideoWidth p)))"

definition getVideoHeight :: "player \<Rightarrow> int \<times> int option" where
  "getVideoHeight p = (if mPlayer p = None then (INVALID_OPERATION, None) else (OK, Some (mVideoHeight p)))"

definition getCurrentPosition :: "svc \<Rightarrow> player \<Rightarrow> (player \<times> int \<times> int option) option" where
  "getCurrentPosition svc p =
     (if mPlayer p \<noteq> None
      then if 0 \<le> mCurrentPosition p then Some (p, OK, Some (mCurrentPosition p))
           else map_option (\<lambda>(p, st, v). (p, st, Some v)) (remote svc R_getCurrentPosition p)
      else Some (p, INVALID_OPERATION, None))"

definition getDuration_l :: "svc \<Rightarrow> player \<Rightarrow> (player \<times> int \<times> int option) option" where
  "getDuration_l svc p =
     (if mPlayer p \<noteq> None \<and> in_state p (MEDIA_PLAYER_PREPARED OR MEDIA_PLAYER_STARTED OR
            MEDIA_PLAYER_PAUSED OR MEDIA_PLAYER_STOPPED OR MEDIA_PLAYER_PLAYBACK_COMPLETE)
      then do {
        (p, ret, durationMs) \<leftarrow> remote svc R_getDuration p;
        let (ret, durationMs) = (if ret \<noteq> OK then (OK, -1) else (ret, durationMs)) in
        Some (p, ret, Some durationMs)
      }
      else Some (p, INVALID_OPERATION, None))"

definition getDuration :: "svc \<Rightarrow> player \<Rightarrow> (player \<times> int \<times> int option) option" where
  "getDuration svc p = getDuration_l svc p"

definition reset :: "svc \<Rightarrow> player \<Rightarrow> (player \<times> int) option" where
  "reset svc p = reset_l svc p"

definition setAudioStreamType :: "int \<Rightarrow> player \<Rightarrow> player \<times> int" where
  "setAudioStreamType type p =
     (if mStreamType p = type then (p, OK)
      else if in_state p (MEDIA_PLAYER_PREPARED OR MEDIA_PLAYER_STARTED OR
            MEDIA_PLAYER_PAUSED OR MEDIA_PLAYER_PLAYBACK_COMPLETE) then (p, INVALID_OPERATION)
      else (p\<lparr>mStreamType := type\<rparr>, OK))"

definition getAudioStreamType :: "player \<Rightarrow> int \<times> int" where
  "getAudioStreamType p = (OK, mStreamType p)"

definition setLooping :: "svc \<Rightarrow> int \<Rightarrow> player \<Rightarrow> (player \<times> int) option" where
  "setLooping svc loop p =
     (let p = p\<lparr>mLoop := loop \<noteq> 0\<rparr> in
      if mPlayer p \<noteq> None then status_of (remote svc (R_setLooping loop) p) else Some (p, OK))"

definition isLooping :: "player \<Rightarrow> bool" where
  "isLooping p = (if mPlayer p \<noteq> None then mLoop p else False)"

definition setVolume :: "svc \<Rightarrow> real \<Rightarrow> real \<Rightarrow> player \<Rightarrow> (player \<times> int) option" where
  "setVolume svc l r p =
     (let p = p\<lparr>mLeftVolume := l, mRightVolume := r\<rparr> in
      if mPlayer p \<noteq> None then status_of (remote svc (R_setVolume l r) p) else Some (p, OK))"

text \<open>\<open>sessions\<close> lists the audio session ids the player holds, the newest last.\<close>

definition setAudioSessionId :: "int \<Rightarrow> player \<Rightarrow> player \<times> int" where
  "setAudioSessionId sessionId p =
     (if \<not> in_state p MEDIA_PLAYER_IDLE then (p, INVALID_OPERATION)
      else if sessionId < 0 then (p, BAD_VALUE)
      else if sessionId \<noteq> mAudioSessionId p
      then (p\<lparr>sessions := remove1 (mAudioSessionId p) (sessions p @ [sessionId]),
              mAudioSessionId := sessionId\<rparr>, OK)
      else (p, OK))"

definition getAudioSessionId :: "player \<Rightarrow> int" where
  "getAudioSessionId p = mAudioSessionId p"

definition setAuxEffectSendLevel :: "svc \<Rightarrow> real \<Rightarrow> player \<Rightarrow> (player \<times> int) option" where
  "setAuxEffectSendLevel svc level p =
     (let p = p\<lparr>mSendLevel := level\<rparr> in
      if mPlayer p \<noteq> None then status_of (remote svc (R_setAuxEffectSendLevel level) p) else Some (p, OK))"

definition attachAuxEffect :: "svc \<Rightarrow> int \<Rightarrow> player \<Rightarrow> (player \<times> int) option" where
  "attachAuxEffect svc effectId p =
     (if mPlayer p = None \<or> in_state p MEDIA_PLAYER_IDLE \<or> mCurrentState p = MEDIA_PLAYER_STATE_ERROR
      then Some (p, INVALID_OPERATION)
      else status_of (remote svc (R_attachAuxEffect effectId) p))"

definition checkStateForKeySet_l :: "int \<Rightarrow> player \<Rightarrow> int" where
  "checkStateForKeySet_l key p =
     (if key = KEY_PARAMETER_AUDIO_ATTRIBUTES \<and>
         in_state p (MEDIA_PLAYER_PREPARED OR MEDIA_PLAYER_STARTED OR
            MEDIA_PLAYER_PAUSED OR MEDIA_PLAYER_PLAYBACK_COMPLETE)
      then INVALID_OPERATION else OK)"

definition setParameter :: "svc \<Rightarrow> int \<Rightarrow> parcel \<Rightarrow> player \<Rightarrow> (player \<times> int) option" where
  "setParameter svc key request p =
     (if checkStateForKeySet_l key p \<noteq> OK then Some (p, INVALID_OPERATION)
      else let (p, status) = (if key = KEY_PARAMETER_AUDIO_ATTRIBUTES
                              then (p\<lparr>mAudioAttributesParcel := Some request\<rparr>, OK)
                              else (p, INVALID_OPERATION))
           in if mPlayer p \<noteq> None then status_of (remote svc (R_setParameter key request) p)
              else Some (p, status))"

definition getParameter :: "svc \<Rightarrow> int \<Rightarrow> player \<Rightarrow> (player \<times> int) option" where
  "getParameter svc key p =
     (if mPlayer p \<noteq> None then status_of (remote svc (R_getParameter key) p) else Some (p, INVALID_OPERATION))"

text \<open>\<open>inet_aton\<close> is an argument; the port is stored in network order.\<close>

definition setRetransmitEndpoint :: "(string \<Rightarrow> u32 option) \<Rightarrow> string option \<Rightarrow> u16 \<Rightarrow> player \<Rightarrow> player \<times> int" where
  "setRetransmitEndpoint inet_aton addrString port p =
     (if mPlayer p \<noteq> None \<or> mCurrentState p \<noteq> MEDIA_PLAYER_IDLE then (p, INVALID_OPERATION)
      else case addrString of None \<Rightarrow> (p\<lparr>mRetransmitEndpointValid := False\<rparr>, OK)
        | Some a \<Rightarrow> (case inet_aton a of None \<Rightarrow> (p, BAD_VALUE)
            | Some saddr \<Rightarrow> (p\<lparr>mRetransmitEndpoint := (saddr, ntohs port), mRetransmitEndpointValid := True\<rparr>, OK)))"

definition setNextMediaPlayer :: "svc \<Rightarrow> player option \<Rightarrow> player \<Rightarrow> (player \<times> int) option" where
  "setNextMediaPlayer svc next p =
     (if mPlayer p = None then Some (p, NO_INIT)
      else case next of
        Some n \<Rightarrow> if \<not> in_state n (MEDIA_PLAYER_PREPARED OR MEDIA_PLAYER_PAUSED OR MEDIA_PLAYER_PLAYBACK_COMPLETE)
                  then Some (p, INVALID_OPERATION)
                  else status_of (remote svc (R_setNextPlayer (mPlayer n)) p)
      | None \<Rightarrow> status_of (remote svc (R_setNextPlayer None) p))"

text \<open>The destructor gives back the session and disconnects.\<close>

definition MediaPlayer_destroy :: "svc \<Rightarrow> player \<Rightarrow> player option" where
  "MediaPlayer_destroy svc p =
     disconnect svc (p\<lparr>mAudioAttributesParcel := None, sessions := remove1 (mAudioSessionId p) (sessions p)\<rparr>)"

section \<open>Runs\<close>

text \<open>
  One step of a run: an application call, a notification of the server, or a signalled thread
  that returns from \<open>prepare\<close>.
\<close>

datatype op =
    SetDataSource bool "nat option" source_arg | SetListener "nat option" | Prepare "notice list"
  | Resume | PrepareAsync | Start "notice list" | Stop | Pause | SeekTo "notice list" int | Reset
  | Disconnect | Notify media_event int int | IsPlaying | SetPlaybackSettings real real
  | GetCurrentPosition | GetDuration | SetAudioStreamType int | SetLooping int | SetVolume real real
  | SetAudioSessionId int | SetAuxEffectSendLevel real | AttachAuxEffect int
  | SetParameter int parcel | SetRetransmitEndpoint "string option" u16 | Invoke parcel

fun exec :: "(string \<Rightarrow> u32 option) \<Rightarrow> svc \<Rightarrow> op \<Rightarrow> player \<Rightarrow> player option" where
  "exec ia svc (SetDataSource sv cr (Url u)) p = map_option fst (setDataSource_url svc sv cr (Some u) p)"
| "exec ia svc (SetDataSource sv cr (Fd f off len)) p = map_option fst (setDataSource_fd svc sv cr f off len p)"
| "exec ia svc (SetDataSource sv cr (StreamSource src)) p = map_option fst (setDataSource_stream svc sv cr src p)"
| "exec ia svc (SetDataSource sv cr (BinderSource src)) p = map_option fst (setDataSource_data svc sv cr src p)"
| "exec ia svc (SetListener l) p = Some (fst (setListener l p))"
| "exec ia svc (Prepare ns) p = map_option fst (prepare svc ns p)"
| "exec ia svc Resume p = (if 0 < woken p then map_option fst (prepare_resume p) else Some p)"
| "exec ia svc PrepareAsync p = map_option fst (prepareAsync svc p)"
| "exec ia svc (Start ns) p = map_option fst (start svc ns p)"
| "exec ia svc Stop p = map_option fst (stop svc p)"
| "exec ia svc Pause p = map_option fst (pause svc p)"
| "exec ia svc (SeekTo ns m) p = map_option fst (seekTo svc ns m p)"
| "exec ia svc Reset p = map_option fst (reset svc p)"
| "exec ia svc Disconnect p = disconnect svc p"
| "exec ia svc (Notify m e1 e2) p = notify svc m e1 e2 p"
| "exec ia svc IsPlaying p = map_option fst (isPlaying svc p)"
| "exec ia svc (SetPlaybackSettings s t) p = map_option fst (setPlaybackSettings svc s t p)"
| "exec ia svc GetCurrentPosition p = map_option fst (getCurrentPosition svc p)"
| "exec ia svc GetDuration p = map_option fst (getDuration svc p)"
| "exec ia svc (SetAudioStreamType t) p = Some (fst (setAudioStreamType t p))"
| "exec ia svc (SetLooping l) p = map_option fst (setLooping svc l p)"
| "exec ia svc (SetVolume l r) p = map_option fst (setVolume svc l r p)"
| "exec ia svc (SetAudioSessionId i) p = Some (fst (setAudioSessionId i p))"
| "exec ia svc (SetAuxEffectSendLevel l) p = map_option fst (setAuxEffectSendLevel svc l p)"
| "exec ia svc (AttachAuxEffect e) p = map_option fst (attachAuxEffect svc e p)"
| "exec ia svc (SetParameter k r) p = map_option fst (setParameter svc k r p)"
| "exec ia svc (SetRetransmitEndpoint a port) p = Some (fst (setRetransmitEndpoint ia a port p))"
| "exec ia svc (Invoke r) p = map_option fst (invoke svc r p)"

text \<open>A run of the player: each step with the replies it gets.\<close>

inductive run :: "(string \<Rightarrow> u32 option) \<Rightarrow> player \<Rightarrow> (svc \<times> op) list \<Rightarrow> player \<Rightarrow> bool" for ia where
  run_Nil: "run ia p [] p"
| run_step: "exec ia svc x p = Some p' \<Longrightarrow> run ia p' xs p'' \<Longrightarrow> run ia p ((svc, x) # xs) p''"

inductive_cases run_NilE: "run ia p [] q"
inductive_cases run_ConsE: "run ia p ((svc, x) # xs) q"
inductive_simps run_Cons: "run ia p ((svc, x) # xs) q"
inductive_simps run_Nil_simp: "run ia p [] q"

section \<open>The state word\<close>

definition valid_state :: "u32 \<Rightarrow> bool" where
  "valid_state s \<longleftrightarrow> s \<in> {MEDIA_PLAYER_STATE_ERROR, MEDIA_PLAYER_IDLE, MEDIA_PLAYER_INITIALIZED,
     MEDIA_PLAYER_PREPARING, MEDIA_PLAYER_PREPARED, MEDIA_PLAYER_STARTED, MEDIA_PLAYER_PAUSED,
     MEDIA_PLAYER_STOPPED, MEDIA_PLAYER_PLAYBACK_COMPLETE}"

lemma valid_states [simp]:
  "valid_state MEDIA_PLAYER_STATE_ERROR" "valid_state MEDIA_PLAYER_IDLE"
  "valid_state MEDIA_PLAYER_INITIALIZED" "valid_state MEDIA_PLAYER_PREPARING"
  "valid_state MEDIA_PLAYER_PREPARED" "valid_state MEDIA_PLAYER_STARTED"
  "valid_state MEDIA_PLAYER_PAUSED" "valid_state MEDIA_PLAYER_STOPPED"
  "valid_state MEDIA_PLAYER_PLAYBACK_COMPLETE"
  by (simp_all add: valid_state_def)

text \<open>The masks of the code are sets of states.\<close>

named_theorems masks

lemma mask_STARTED [masks]: "valid_state (mCurrentState p) \<Longrightarrow>
    in_state p MEDIA_PLAYER_STARTED \<longleftrightarrow> mCurrentState p = MEDIA_PLAYER_STARTED"
  by (auto simp: valid_state_def in_state_def player_states)

lemma mask_IDLE [masks]: "valid_state (mCurrentState p) \<Longrightarrow>
    in_state p MEDIA_PLAYER_IDLE \<longleftrightarrow> mCurrentState p = MEDIA_PLAYER_IDLE"
  by (auto simp: valid_state_def in_state_def player_states)

lemma mask_PAUSED [masks]: "valid_state (mCurrentState p) \<Longrightarrow>
    in_state p MEDIA_PLAYER_PAUSED \<longleftrightarrow> mCurrentState p = MEDIA_PLAYER_PAUSED"
  by (auto simp: valid_state_def in_state_def player_states)

lemma mask_STOPPED [masks]: "valid_state (mCurrentState p) \<Longrightarrow>
    in_state p MEDIA_PLAYER_STOPPED \<longleftrightarrow> mCurrentState p = MEDIA_PLAYER_STOPPED"
  by (auto simp: valid_state_def in_state_def player_states)

lemma mask_prepare [masks]: "valid_state (mCurrentState p) \<Longrightarrow>
    in_state p (MEDIA_PLAYER_INITIALIZED OR MEDIA_PLAYER_STOPPED) \<longleftrightarrow>
    mCurrentState p \<in> {MEDIA_PLAYER_INITIALIZED, MEDIA_PLAYER_STOPPED}"
  by (auto simp: valid_state_def in_state_def player_states)

lemma mask_start [masks]: "valid_state (mCurrentState p) \<Longrightarrow>
    in_state p (MEDIA_PLAYER_PREPARED OR MEDIA_PLAYER_PLAYBACK_COMPLETE OR MEDIA_PLAYER_PAUSED) \<longleftrightarrow>
    mCurrentState p \<in> {MEDIA_PLAYER_PREPARED, MEDIA_PLAYER_PLAYBACK_COMPLETE, MEDIA_PLAYER_PAUSED}"
  by (auto simp: valid_state_def in_state_def player_states)

lemma mask_stop [masks]: "valid_state (mCurrentState p) \<Longrightarrow>
    in_state p (MEDIA_PLAYER_STARTED OR MEDIA_PLAYER_PREPARED OR MEDIA_PLAYER_PAUSED OR
      MEDIA_PLAYER_PLAYBACK_COMPLETE) \<longleftrightarrow>
    mCurrentState p \<in> {MEDIA_PLAYER_STARTED, MEDIA_PLAYER_PREPARED, MEDIA_PLAYER_PAUSED,
      MEDIA_PLAYER_PLAYBACK_COMPLETE}"
  by (auto simp: valid_state_def in_state_def player_states)

lemma mask_pause [masks]: "valid_state (mCurrentState p) \<Longrightarrow>
    in_state p (MEDIA_PLAYER_PAUSED OR MEDIA_PLAYER_PLAYBACK_COMPLETE) \<longleftrightarrow>
    mCurrentState p \<in> {MEDIA_PLAYER_PAUSED, MEDIA_PLAYER_PLAYBACK_COMPLETE}"
  by (auto simp: valid_state_def in_state_def player_states)

lemma mask_playing [masks]: "valid_state (mCurrentState p) \<Longrightarrow>
    in_state p playing_states \<longleftrightarrow>
    mCurrentState p \<in> {MEDIA_PLAYER_STARTED, MEDIA_PLAYER_PREPARED, MEDIA_PLAYER_PAUSED,
      MEDIA_PLAYER_PLAYBACK_COMPLETE}"
  unfolding playing_states_def by (rule mask_stop)

lemma states_distinct [simp]:
  "MEDIA_PLAYER_STARTED \<noteq> MEDIA_PLAYER_IDLE" "MEDIA_PLAYER_PREPARED \<noteq> MEDIA_PLAYER_IDLE"
  "MEDIA_PLAYER_PAUSED \<noteq> MEDIA_PLAYER_IDLE" "MEDIA_PLAYER_STOPPED \<noteq> MEDIA_PLAYER_IDLE"
  "MEDIA_PLAYER_PLAYBACK_COMPLETE \<noteq> MEDIA_PLAYER_IDLE" "MEDIA_PLAYER_PREPARING \<noteq> MEDIA_PLAYER_IDLE"
  "MEDIA_PLAYER_INITIALIZED \<noteq> MEDIA_PLAYER_IDLE" "MEDIA_PLAYER_STATE_ERROR \<noteq> MEDIA_PLAYER_IDLE"
  by (simp_all add: player_states)

section \<open>Frame lemmas\<close>

lemma remote_Some [simp]: "mPlayer p = Some i \<Longrightarrow>
    remote svc c p = Some (p\<lparr>calls := calls p @ [(i, c)]\<rparr>, svc c)"
  by (simp add: remote_def)

lemma call_on_Some [simp]: "call_on svc (Some i) c p = Some (p\<lparr>calls := calls p @ [(i, c)]\<rparr>, svc c)"
  by (simp add: call_on_def)

lemma status_of_Some [simp]: "status_of (Some (p, r)) = Some (p, fst r)"
  by (cases r) (simp add: status_of_def)

lemma signal_simps [simp]:
  "mPlayer (signal p) = mPlayer p" "mCurrentState (signal p) = mCurrentState p"
  "calls (signal p) = calls p" "sessions (signal p) = sessions p"
  "mAudioSessionId (signal p) = mAudioSessionId p" "mSeekPosition (signal p) = mSeekPosition p"
  "mCurrentPosition (signal p) = mCurrentPosition p" "waiters (signal p) + woken (signal p) = waiters p + woken p"
  by (simp_all add: signal_def)

text \<open>The invariant of the player, kept by every operation.\<close>

definition player_inv :: "player \<Rightarrow> bool" where
  "player_inv p \<longleftrightarrow> valid_state (mCurrentState p)
     \<and> (mCurrentState p = MEDIA_PLAYER_IDLE \<longrightarrow> mPlayer p = None)
     \<and> sessions p = [mAudioSessionId p]"

text \<open>What an operation may do: it keeps the invariant, and it does not fault.\<close>

definition keeps_inv :: "player \<Rightarrow> player option \<Rightarrow> bool" where
  "keeps_inv p r \<longleftrightarrow> (\<exists>p'. r = Some p' \<and> (player_inv p \<longrightarrow> player_inv p'))"

lemma seekTo_l_frame:
  "\<exists>p' st. seekTo_l svc m p = Some (p', st) \<and> mPlayer p' = mPlayer p \<and>
     mCurrentState p' = mCurrentState p \<and> sessions p' = sessions p \<and>
     mAudioSessionId p' = mAudioSessionId p \<and> waiters p' = waiters p \<and> woken p' = woken p \<and>
     mPrepareSync p' = mPrepareSync p"
  by (cases "svc R_getDuration")
    (auto simp: seekTo_l_def Let_def)

lemma handle_keeps:
  "\<exists>p' b. handle svc msg e1 e2 p = Some (p', b) \<and> mPlayer p' = mPlayer p \<and>
     (mPlayer p \<noteq> None \<or> msg = MEDIA_ERROR \<longrightarrow> player_inv p \<longrightarrow> player_inv p')"
  using seekTo_l_frame [of svc "mCurrentPosition p" "p\<lparr>mSeekPosition := -1\<rparr>"]
  by (cases "(svc, msg, e1, e2, p)" rule: handle.cases) (auto simp: player_inv_def Let_def)

lemma notify_keeps: "\<exists>p'. notify svc msg e1 e2 p = Some p' \<and> mPlayer p' = mPlayer p \<and>
    (player_inv p \<longrightarrow> player_inv p')"
proof (cases "\<not> (msg = MEDIA_ERROR \<and> mCurrentState p = MEDIA_PLAYER_IDLE) \<and> mPlayer p = None")
  case True
  then show ?thesis by (simp add: notify_def)
next
  case False
  then show ?thesis
    using handle_keeps [of svc msg e1 e2 p]
    by (auto simp: notify_def player_inv_def split: option.split)
qed

lemma reentrant_keeps: "\<exists>p'. reentrant ns p = Some p' \<and> mPlayer p' = mPlayer p \<and>
    (player_inv p \<longrightarrow> player_inv p')"
proof (induction ns arbitrary: p)
  case Nil
  then show ?case by simp
next
  case (Cons n ns)
  obtain svc m e1 e2 where n: "n = (svc, m, e1, e2)" by (cases n) auto
  obtain p1 where p1: "notify svc m e1 e2 p = Some p1" "mPlayer p1 = mPlayer p"
      "player_inv p \<longrightarrow> player_inv p1"
    using notify_keeps [of svc m e1 e2 p] by blast
  with Cons.IH [of p1] show ?case by (auto simp: n)
qed

text \<open>Each operation runs to its end and keeps the invariant.\<close>

lemma keeps_simps: "keeps_inv p (Some p') \<longleftrightarrow> (player_inv p \<longrightarrow> player_inv p')"
  "\<not> keeps_inv p None"
  by (simp_all add: keeps_inv_def)

lemma keeps_disconnect: "keeps_inv p (disconnect svc p)"
  by (auto simp: disconnect_def Let_def keeps_simps player_inv_def split: option.split)

lemma keeps_setListener: "keeps_inv p (Some (fst (setListener l p)))"
  by (auto simp: setListener_def keeps_simps player_inv_def)

lemma doSetRetransmitEndpoint_frame:
  "\<exists>p' e. doSetRetransmitEndpoint svc cr p = Some (p', e) \<and> (player_inv p \<longrightarrow> player_inv p') \<and>
     mPlayer p' = mPlayer p \<and> (cr = None \<longrightarrow> e \<noteq> OK)"
  by (cases cr) (auto simp: doSetRetransmitEndpoint_def player_inv_def OK_def UNKNOWN_ERROR_def)

lemma attach_keeps: "\<exists>p' e. attachNewPlayer svc cr p = Some (p', e) \<and> (player_inv p \<longrightarrow> player_inv p')"
  by (cases "mPlayer p"; cases cr)
    (auto simp: attachNewPlayer_def Let_def clear_l_def player_inv_def split: if_splits)

lemma create_keeps: "keeps_inv p (map_option fst (create_and_attach svc cr src p))"
proof -
  obtain p1 e1 where p1: "doSetRetransmitEndpoint svc cr p = Some (p1, e1)" "player_inv p \<longrightarrow> player_inv p1"
      "cr = None \<longrightarrow> e1 \<noteq> OK"
    using doSetRetransmitEndpoint_frame by blast
  have step: "\<exists>p2 new. (if e1 \<noteq> OK then Some (p1, None)
      else do { (p, e2, _) \<leftarrow> call_on svc cr (R_setDataSource src) p1;
                Some (p, if e2 \<noteq> OK then None else cr) }) = Some (p2, new) \<and> (player_inv p1 \<longrightarrow> player_inv p2)"
    using p1(3) by (cases cr) (auto simp: player_inv_def split: prod.split)
  then obtain p2 new where p2: "(if e1 \<noteq> OK then Some (p1, None)
      else do { (p, e2, _) \<leftarrow> call_on svc cr (R_setDataSource src) p1;
                Some (p, if e2 \<noteq> OK then None else cr) }) = Some (p2, new)" "player_inv p1 \<longrightarrow> player_inv p2"
    by blast
  obtain p3 e3 where "attachNewPlayer svc new p2 = Some (p3, e3)" "player_inv p2 \<longrightarrow> player_inv p3"
    using attach_keeps by blast
  then show ?thesis using p1(1,2) p2 by (simp add: create_and_attach_def keeps_simps)
qed

lemma keeps_reset_l: "keeps_inv p (map_option fst (reset_l svc p))"
  by (cases "mPlayer p"; cases "svc R_reset"; cases "svc R_disconnect")
    (auto simp: reset_l_def Let_def keeps_simps player_inv_def clear_l_def)

lemma prepareAsync_l_keeps:
  "\<exists>p' e. prepareAsync_l svc p = Some (p', e) \<and> (player_inv p \<longrightarrow> player_inv p')"
  by (cases "mPlayer p"; cases "svc R_prepareAsync")
    (auto simp: prepareAsync_l_def player_inv_def split: option.split prod.split)

lemma keeps_prepare: "keeps_inv p (map_option fst (prepare svc ns p))"
proof (cases "mPrepareSync p")
  case True
  then show ?thesis by (simp add: prepare_def keeps_simps)
next
  case False
  obtain p1 e where p1: "prepareAsync_l svc (p\<lparr>mPrepareSync := True\<rparr>) = Some (p1, e)"
      "player_inv (p\<lparr>mPrepareSync := True\<rparr>) \<longrightarrow> player_inv p1"
    using prepareAsync_l_keeps by blast
  obtain p2 where p2: "reentrant ns p1 = Some p2" "player_inv p1 \<longrightarrow> player_inv p2"
    using reentrant_keeps by blast
  from False p1 p2 show ?thesis
    by (auto simp: prepare_def keeps_simps player_inv_def)
qed

lemma keeps_start: "keeps_inv p (map_option fst (start svc ns p))"
proof (cases "\<not> in_state p MEDIA_PLAYER_STARTED \<and> mPlayer p \<noteq> None \<and>
    in_state p (MEDIA_PLAYER_PREPARED OR MEDIA_PLAYER_PLAYBACK_COMPLETE OR MEDIA_PLAYER_PAUSED)")
  case True
  then obtain i where i: "mPlayer p = Some i" by blast
  let ?p = "p\<lparr>mCurrentState := MEDIA_PLAYER_STARTED, calls := calls p @ [(i, R_setLooping (of_bool (mLoop p))),
    (i, R_setVolume (mLeftVolume p) (mRightVolume p)), (i, R_setAuxEffectSendLevel (mSendLevel p)), (i, R_start)]\<rparr>"
  obtain q where q: "reentrant ns ?p = Some q" "player_inv ?p \<longrightarrow> player_inv q"
    using reentrant_keeps by blast
  have "start svc ns p = Some (if fst (svc R_start) \<noteq> OK then q\<lparr>mCurrentState := MEDIA_PLAYER_STATE_ERROR\<rparr> else q,
      fst (svc R_start))"
    using True i q(1) by (simp add: start_def split: prod.split)
  moreover have "player_inv p \<longrightarrow> player_inv ?p" by (auto simp: player_inv_def)
  ultimately show ?thesis using q(2) by (auto simp: keeps_simps player_inv_def)
next
  case False
  then show ?thesis by (auto simp: start_def keeps_simps)
qed

lemma keeps_seekTo: "keeps_inv p (map_option fst (seekTo svc ns m p))"
proof -
  obtain p1 st where p1: "seekTo_l svc m p = Some (p1, st)" "player_inv p \<longrightarrow> player_inv p1"
    using seekTo_l_frame [of svc m p] by (auto simp: player_inv_def)
  obtain p2 where "reentrant ns p1 = Some p2" "player_inv p1 \<longrightarrow> player_inv p2"
    using reentrant_keeps by blast
  with p1 show ?thesis by (auto simp: seekTo_def keeps_simps)
qed

text \<open>The remaining operations do at most one call and one assignment.\<close>

lemma keeps_stop: "keeps_inv p (map_option fst (stop svc p))"
proof (cases "mPlayer p")
  case (Some i)
  obtain st v where r: "svc (R_stop) = (st, v)" by fastforce
  have "player_inv p \<longrightarrow> player_inv (p\<lparr>calls := cs, mCurrentState := st'\<rparr>)"
    if "valid_state st'" "st' \<noteq> MEDIA_PLAYER_IDLE" for cs st' using that by (simp add: player_inv_def)
  moreover have "player_inv p \<longrightarrow> player_inv (p\<lparr>calls := cs\<rparr>)" for cs by (simp add: player_inv_def)
  ultimately show ?thesis by (simp add: stop_def Some r Let_def keeps_simps)
qed (simp add: stop_def keeps_simps)

lemma keeps_pause: "keeps_inv p (map_option fst (pause svc p))"
proof (cases "mPlayer p")
  case (Some i)
  obtain st v where r: "svc (R_pause) = (st, v)" by fastforce
  have "player_inv p \<longrightarrow> player_inv (p\<lparr>calls := cs, mCurrentState := st'\<rparr>)"
    if "valid_state st'" "st' \<noteq> MEDIA_PLAYER_IDLE" for cs st' using that by (simp add: player_inv_def)
  moreover have "player_inv p \<longrightarrow> player_inv (p\<lparr>calls := cs\<rparr>)" for cs by (simp add: player_inv_def)
  ultimately show ?thesis by (simp add: pause_def Some r Let_def keeps_simps)
qed (simp add: pause_def keeps_simps)

lemma keeps_isPlaying: "keeps_inv p (map_option fst (isPlaying svc p))"
proof (cases "mPlayer p")
  case (Some i)
  obtain st v where r: "svc (R_isPlaying) = (st, v)" by fastforce
  have "player_inv p \<longrightarrow> player_inv (p\<lparr>calls := cs, mCurrentState := st'\<rparr>)"
    if "valid_state st'" "st' \<noteq> MEDIA_PLAYER_IDLE" for cs st' using that by (simp add: player_inv_def)
  moreover have "player_inv p \<longrightarrow> player_inv (p\<lparr>calls := cs\<rparr>)" for cs by (simp add: player_inv_def)
  ultimately show ?thesis by (simp add: isPlaying_def Some r Let_def keeps_simps)
qed (simp add: isPlaying_def keeps_simps)

lemma keeps_setPlaybackSettings: "keeps_inv p (map_option fst (setPlaybackSettings svc x y p))"
proof (cases "mPlayer p")
  case (Some i)
  obtain st v where r: "svc (R_setPlaybackSettings x y) = (st, v)" by fastforce
  have "player_inv p \<longrightarrow> player_inv (p\<lparr>calls := cs, mCurrentState := st'\<rparr>)"
    if "valid_state st'" "st' \<noteq> MEDIA_PLAYER_IDLE" for cs st' using that by (simp add: player_inv_def)
  moreover have "player_inv p \<longrightarrow> player_inv (p\<lparr>calls := cs\<rparr>)" for cs by (simp add: player_inv_def)
  ultimately show ?thesis by (simp add: setPlaybackSettings_def Some r Let_def keeps_simps)
qed (simp add: setPlaybackSettings_def keeps_simps)

lemmas keeps_passing = keeps_stop keeps_pause keeps_isPlaying keeps_setPlaybackSettings

lemma keeps_call: "mPlayer p = Some i \<Longrightarrow> keeps_inv p (map_option fst (status_of (remote svc c p)))"
  by (simp add: keeps_simps player_inv_def)

lemma keeps_getCurrentPosition: "keeps_inv p (map_option fst (getCurrentPosition svc p))"
  by (cases "mPlayer p")
    (auto simp: getCurrentPosition_def  Let_def keeps_simps player_inv_def split: prod.split)

lemma keeps_getDuration: "keeps_inv p (map_option fst (getDuration svc p))"
  by (cases "mPlayer p")
    (auto simp: getDuration_def getDuration_l_def Let_def keeps_simps player_inv_def split: prod.split)

lemma keeps_setLooping: "keeps_inv p (map_option fst (setLooping svc l p))"
  by (cases "mPlayer p")
    (auto simp: setLooping_def  Let_def keeps_simps player_inv_def split: prod.split)

lemma keeps_setVolume: "keeps_inv p (map_option fst (setVolume svc x y p))"
  by (cases "mPlayer p")
    (auto simp: setVolume_def  Let_def keeps_simps player_inv_def split: prod.split)

lemma keeps_setAuxEffectSendLevel: "keeps_inv p (map_option fst (setAuxEffectSendLevel svc x p))"
  by (cases "mPlayer p")
    (auto simp: setAuxEffectSendLevel_def  Let_def keeps_simps player_inv_def split: prod.split)

lemma keeps_attachAuxEffect: "keeps_inv p (map_option fst (attachAuxEffect svc e p))"
  by (cases "mPlayer p")
    (auto simp: attachAuxEffect_def  Let_def keeps_simps player_inv_def split: prod.split)

lemma keeps_setParameter: "keeps_inv p (map_option fst (setParameter svc k r p))"
  by (cases "mPlayer p")
    (auto simp: setParameter_def  Let_def keeps_simps player_inv_def split: prod.split)

lemma keeps_invoke: "keeps_inv p (map_option fst (invoke svc r p))"
  by (cases "mPlayer p")
    (auto simp: invoke_def  Let_def keeps_simps player_inv_def split: prod.split)

lemmas keeps_settings = keeps_getCurrentPosition keeps_getDuration keeps_setLooping keeps_setVolume keeps_setAuxEffectSendLevel keeps_attachAuxEffect keeps_setParameter keeps_invoke

lemma keeps_local:
  "keeps_inv p (Some (fst (setAudioStreamType t p)))"
  "keeps_inv p (Some (fst (setAudioSessionId i p)))"
  "keeps_inv p (Some (fst (setRetransmitEndpoint ia a port p)))"
  by (auto simp: setAudioStreamType_def setAudioSessionId_def setRetransmitEndpoint_def keeps_simps
      player_inv_def split: option.split)

lemma keeps_notify: "keeps_inv p (notify svc m e1 e2 p)"
  using notify_keeps [of svc m e1 e2 p] by (auto simp: keeps_inv_def)

lemma keeps_resume: "0 < woken p \<Longrightarrow> keeps_inv p (map_option fst (prepare_resume p))"
  by (auto simp: prepare_resume_def keeps_simps player_inv_def)

lemmas keeps_all = keeps_disconnect keeps_setListener create_keeps keeps_reset_l keeps_prepare keeps_start
  keeps_seekTo keeps_passing keeps_settings keeps_local keeps_notify keeps_resume

lemma keeps_prepareAsync: "keeps_inv p (map_option fst (prepareAsync svc p))"
  using prepareAsync_l_keeps [of svc p] by (auto simp: prepareAsync_def keeps_simps)

lemma exec_keeps: "keeps_inv p (exec ia svc x p)"
  by (cases "(ia, svc, x, p)" rule: exec.cases)
    (auto simp: keeps_all keeps_prepareAsync setDataSource_url_def setDataSource_fd_def setDataSource_stream_def
      setDataSource_data_def reset_def, simp_all add: keeps_simps)

text \<open>A whole run, from any player that satisfies the invariant.\<close>

lemma run_keeps: "run ia p xs p' \<Longrightarrow> player_inv p \<Longrightarrow> player_inv p'"
proof (induction rule: run.induct)
  case (run_step svc x p p' xs p'')
  then show ?case using exec_keeps [of p ia svc x] by (simp add: keeps_simps)
qed

lemma run_total: "\<exists>p'. run ia p xs p'"
proof (induction xs arbitrary: p)
  case Nil
  show ?case by (auto intro: run_Nil)
next
  case (Cons x xs)
  obtain svc y where x: "x = (svc, y)" by fastforce
  obtain p1 where "exec ia svc y p = Some p1" using exec_keeps [of p ia svc y] by (auto simp: keeps_inv_def)
  with Cons.IH [of p1] show ?case by (auto simp: x run_Cons)
qed

lemma player_inv_init: "player_inv (MediaPlayer m s)"
  by (simp add: player_inv_def MediaPlayer_def)

section \<open>The state diagram\<close>

text \<open>
  The documented life cycle of a player, as a machine of its own: what a control does in each
  state when a remote player is attached, given whether the remote accepts it.
\<close>

datatype pstate = SError | SIdle | SInitialized | SPreparing | SPrepared | SStarted | SPaused | SStopped | SComplete

datatype control = CPrepare | CStart | CPause | CStop

datatype outcome = Unneeded | Rejected | Done | Failed

fun source_states :: "control \<Rightarrow> pstate list" where
  "source_states CPrepare = [SInitialized, SStopped]"
| "source_states CStart = [SPrepared, SPaused, SComplete]"
| "source_states CPause = [SStarted]"
| "source_states CStop = [SPrepared, SStarted, SPaused, SComplete]"

fun idempotent_states :: "control \<Rightarrow> pstate list" where
  "idempotent_states CPrepare = []"
| "idempotent_states CStart = [SStarted]"
| "idempotent_states CPause = [SPaused, SComplete]"
| "idempotent_states CStop = [SStopped]"

fun target_state :: "control \<Rightarrow> pstate" where
  "target_state CPrepare = SPreparing"
| "target_state CStart = SStarted"
| "target_state CPause = SPaused"
| "target_state CStop = SStopped"

definition diagram :: "control \<Rightarrow> bool \<Rightarrow> pstate \<Rightarrow> pstate \<times> outcome" where
  "diagram c accepts s =
     (if s \<in> set (idempotent_states c) then (s, Unneeded)
      else if s \<in> set (source_states c)
      then if accepts then (target_state c, Done)
           else (if c = CPrepare then SPreparing else SError, Failed)
      else (s, Rejected))"

text \<open>The controls of the code, and the reading of the state word.\<close>

fun control_op :: "svc \<Rightarrow> control \<Rightarrow> player \<Rightarrow> (player \<times> int) option" where
  "control_op svc CPrepare p = prepareAsync svc p"
| "control_op svc CStart p = start svc [] p"
| "control_op svc CPause p = pause svc p"
| "control_op svc CStop p = stop svc p"

fun control_call :: "control \<Rightarrow> call" where
  "control_call CPrepare = R_prepareAsync"
| "control_call CStart = R_start"
| "control_call CPause = R_pause"
| "control_call CStop = R_stop"

definition state_of :: "u32 \<Rightarrow> pstate" where
  "state_of s = (if s = MEDIA_PLAYER_IDLE then SIdle else if s = MEDIA_PLAYER_INITIALIZED then SInitialized
     else if s = MEDIA_PLAYER_PREPARING then SPreparing else if s = MEDIA_PLAYER_PREPARED then SPrepared
     else if s = MEDIA_PLAYER_STARTED then SStarted else if s = MEDIA_PLAYER_PAUSED then SPaused
     else if s = MEDIA_PLAYER_STOPPED then SStopped else if s = MEDIA_PLAYER_PLAYBACK_COMPLETE then SComplete
     else SError)"

definition status_for :: "int \<Rightarrow> outcome \<Rightarrow> int" where
  "status_for reply out = (case out of Unneeded \<Rightarrow> OK | Rejected \<Rightarrow> INVALID_OPERATION | _ \<Rightarrow> reply)"

text \<open>The calls on remote players that change their playback state.\<close>

definition controls :: "player \<Rightarrow> (nat \<times> call) list" where
  "controls p = filter (\<lambda>(i, c). c \<in> {R_prepareAsync, R_start, R_pause, R_stop}) (calls p)"

lemma state_of_simps [simp]:
  "state_of MEDIA_PLAYER_STATE_ERROR = SError" "state_of MEDIA_PLAYER_IDLE = SIdle"
  "state_of MEDIA_PLAYER_INITIALIZED = SInitialized" "state_of MEDIA_PLAYER_PREPARING = SPreparing"
  "state_of MEDIA_PLAYER_PREPARED = SPrepared" "state_of MEDIA_PLAYER_STARTED = SStarted"
  "state_of MEDIA_PLAYER_PAUSED = SPaused" "state_of MEDIA_PLAYER_STOPPED = SStopped"
  "state_of MEDIA_PLAYER_PLAYBACK_COMPLETE = SComplete"
  by (simp_all add: state_of_def player_states)

lemma state_of_eq:
  assumes "valid_state s"
  shows "s = MEDIA_PLAYER_STATE_ERROR \<longleftrightarrow> state_of s = SError" "s = MEDIA_PLAYER_IDLE \<longleftrightarrow> state_of s = SIdle"
    "s = MEDIA_PLAYER_INITIALIZED \<longleftrightarrow> state_of s = SInitialized" "s = MEDIA_PLAYER_PREPARING \<longleftrightarrow> state_of s = SPreparing"
    "s = MEDIA_PLAYER_PREPARED \<longleftrightarrow> state_of s = SPrepared" "s = MEDIA_PLAYER_STARTED \<longleftrightarrow> state_of s = SStarted"
    "s = MEDIA_PLAYER_PAUSED \<longleftrightarrow> state_of s = SPaused" "s = MEDIA_PLAYER_STOPPED \<longleftrightarrow> state_of s = SStopped"
    "s = MEDIA_PLAYER_PLAYBACK_COMPLETE \<longleftrightarrow> state_of s = SComplete"
  using assms by (auto simp: valid_state_def player_states state_of_def)

lemma controls_append [simp]: "controls (p\<lparr>calls := cs\<rparr>) = filter (\<lambda>(i, c). c \<in> {R_prepareAsync, R_start, R_pause, R_stop}) cs"
  by (simp add: controls_def)

lemma control_prepare:
  assumes "valid_state (mCurrentState p)" "mPlayer p = Some i"
  shows "\<exists>p'. prepareAsync svc p = Some (p', status_for (fst (svc R_prepareAsync))
      (snd (diagram CPrepare (fst (svc R_prepareAsync) = OK) (state_of (mCurrentState p)))))
    \<and> state_of (mCurrentState p') = fst (diagram CPrepare (fst (svc R_prepareAsync) = OK) (state_of (mCurrentState p)))
    \<and> valid_state (mCurrentState p')
    \<and> controls p' = controls p @ (if state_of (mCurrentState p) \<in> set (source_states CPrepare) then [(i, R_prepareAsync)] else [])"
  using assms
  by (cases "mAudioAttributesParcel p"; cases "svc R_prepareAsync")
    (auto simp: prepareAsync_def prepareAsync_l_def masks state_of_eq diagram_def status_for_def controls_def)

lemma control_start:
  assumes "valid_state (mCurrentState p)" "mPlayer p = Some i"
  shows "\<exists>p'. start svc [] p = Some (p', status_for (fst (svc R_start))
      (snd (diagram CStart (fst (svc R_start) = OK) (state_of (mCurrentState p)))))
    \<and> state_of (mCurrentState p') = fst (diagram CStart (fst (svc R_start) = OK) (state_of (mCurrentState p)))
    \<and> valid_state (mCurrentState p')
    \<and> controls p' = controls p @ (if state_of (mCurrentState p) \<in> set (source_states CStart) then [(i, R_start)] else [])"
  using assms
  by (cases "svc R_start")
    (auto simp: start_def masks state_of_eq diagram_def status_for_def controls_def split: prod.split)

lemma control_pause:
  assumes "valid_state (mCurrentState p)" "mPlayer p = Some i"
  shows "\<exists>p'. pause svc p = Some (p', status_for (fst (svc R_pause))
      (snd (diagram CPause (fst (svc R_pause) = OK) (state_of (mCurrentState p)))))
    \<and> state_of (mCurrentState p') = fst (diagram CPause (fst (svc R_pause) = OK) (state_of (mCurrentState p)))
    \<and> valid_state (mCurrentState p')
    \<and> controls p' = controls p @ (if state_of (mCurrentState p) \<in> set (source_states CPause) then [(i, R_pause)] else [])"
  using assms
  by (cases "svc R_pause")
    (auto simp: pause_def masks state_of_eq diagram_def status_for_def controls_def split: prod.split)

lemma control_stop:
  assumes "valid_state (mCurrentState p)" "mPlayer p = Some i"
  shows "\<exists>p'. stop svc p = Some (p', status_for (fst (svc R_stop))
      (snd (diagram CStop (fst (svc R_stop) = OK) (state_of (mCurrentState p)))))
    \<and> state_of (mCurrentState p') = fst (diagram CStop (fst (svc R_stop) = OK) (state_of (mCurrentState p)))
    \<and> valid_state (mCurrentState p')
    \<and> controls p' = controls p @ (if state_of (mCurrentState p) \<in> set (source_states CStop) then [(i, R_stop)] else [])"
  using assms
  by (cases "svc R_stop")
    (auto simp: stop_def masks state_of_eq diagram_def status_for_def controls_def split: prod.split)

lemma control_op_diagram:
  assumes "valid_state (mCurrentState p)" "mPlayer p = Some i"
  shows "\<exists>p'. control_op svc c p = Some (p', status_for (fst (svc (control_call c)))
      (snd (diagram c (fst (svc (control_call c)) = OK) (state_of (mCurrentState p)))))
    \<and> state_of (mCurrentState p') = fst (diagram c (fst (svc (control_call c)) = OK) (state_of (mCurrentState p)))
    \<and> valid_state (mCurrentState p')
    \<and> controls p' = controls p @ (if state_of (mCurrentState p) \<in> set (source_states c) then [(i, control_call c)] else [])"
  using control_prepare [OF assms, of svc] control_start [OF assms, of svc]
    control_pause [OF assms, of svc] control_stop [OF assms, of svc]
  by (cases c) (simp_all only: control_op.simps control_call.simps)

section \<open>Seeks\<close>

text \<open>The position a request is clamped to, and the seeks sent to remote players.\<close>

definition clamp :: "int \<Rightarrow> int \<Rightarrow> int" where
  "clamp duration msec = min duration (max 0 msec)"

definition seeks :: "player \<Rightarrow> (nat \<times> int) list" where
  "seeks p = List.map_filter (\<lambda>(i, c). case c of R_seekTo m \<Rightarrow> Some (i, m) | _ \<Rightarrow> None) (calls p)"

text \<open>Requests made one after the other, with their results.\<close>

fun seek_all :: "svc \<Rightarrow> int list \<Rightarrow> player \<Rightarrow> (player \<times> int list) option" where
  "seek_all svc [] p = Some (p, [])"
| "seek_all svc (m # ms) p = do {
     (p, r) \<leftarrow> seekTo svc [] m p; (p, rs) \<leftarrow> seek_all svc ms p; Some (p, r # rs) }"

lemma seeks_append [simp]:
  "seeks (p\<lparr>calls := cs @ ds\<rparr>) = seeks (p\<lparr>calls := cs\<rparr>) @ seeks (p\<lparr>calls := ds\<rparr>)"
  "seeks (p\<lparr>calls := (i, R_getDuration) # cs\<rparr>) = seeks (p\<lparr>calls := cs\<rparr>)"
  "seeks (p\<lparr>calls := (i, R_seekTo m) # cs\<rparr>) = (i, m) # seeks (p\<lparr>calls := cs\<rparr>)"
  "seeks (p\<lparr>calls := []\<rparr>) = []" "seeks (p\<lparr>calls := calls p\<rparr>) = seeks p"
  by (simp_all add: seeks_def List.map_filter_def)

lemma seeks_cong: "calls p = calls q \<Longrightarrow> seeks p = seeks q"
  by (simp add: seeks_def)

text \<open>One request: sent when no seek is under way, otherwise only remembered.\<close>

definition seekable :: "svc \<Rightarrow> nat \<Rightarrow> int \<Rightarrow> player \<Rightarrow> bool" where
  "seekable svc i d p \<longleftrightarrow> mPlayer p = Some i \<and> in_state p playing_states \<and> svc R_getDuration = (OK, d) \<and> 0 \<le> d"

lemma seekTo_sent:
  assumes "seekable svc i d p" "mSeekPosition p < 0"
  shows "\<exists>p'. seekTo_l svc m p = Some (p', fst (svc (R_seekTo (clamp d m))))
    \<and> mSeekPosition p' = clamp d m \<and> mCurrentPosition p' = clamp d m
    \<and> seeks p' = seeks p @ [(i, clamp d m)] \<and> seekable svc i d p'"
  using assms
  by (auto simp: seekTo_l_def seekable_def clamp_def Let_def min_def max_def in_state_def seeks_def List.map_filter_def)

lemma seekTo_queued:
  assumes "seekable svc i d p" "0 \<le> mSeekPosition p"
  shows "\<exists>p'. seekTo_l svc m p = Some (p', OK)
    \<and> mSeekPosition p' = mSeekPosition p \<and> mCurrentPosition p' = clamp d m
    \<and> seeks p' = seeks p \<and> seekable svc i d p'"
  using assms
  by (auto simp: seekTo_l_def seekable_def clamp_def Let_def min_def max_def in_state_def seeks_def List.map_filter_def)

lemma clamp_nonneg: "0 \<le> d \<Longrightarrow> 0 \<le> clamp d m"
  by (simp add: clamp_def)

lemma seek_all_queued:
  assumes "seekable svc i d p" "0 \<le> mSeekPosition p"
  shows "\<exists>p'. seek_all svc ms p = Some (p', replicate (length ms) OK)
    \<and> mSeekPosition p' = mSeekPosition p
    \<and> mCurrentPosition p' = (if ms = [] then mCurrentPosition p else clamp d (last ms))
    \<and> seeks p' = seeks p \<and> seekable svc i d p'"
  using assms
proof (induction ms arbitrary: p)
  case Nil
  then show ?case by simp
next
  case (Cons m ms)
  obtain p1 where p1: "seekTo_l svc m p = Some (p1, OK)" "mSeekPosition p1 = mSeekPosition p"
      "mCurrentPosition p1 = clamp d m" "seeks p1 = seeks p" "seekable svc i d p1"
    using seekTo_queued [OF Cons.prems] by blast
  with Cons.prems Cons.IH [of p1] show ?case by (auto simp: seekTo_def)
qed

text \<open>The end of a seek starts the latest request that differs from it.\<close>

lemma seek_complete:
  assumes "seekable svc i d p" "mCurrentPosition p = clamp d l"
  shows "\<exists>p'. notify svc MEDIA_SEEK_COMPLETE 0 0 p = Some p' \<and> seekable svc i d p' \<and>
    (if mSeekPosition p = clamp d l
     then mSeekPosition p' = -1 \<and> mCurrentPosition p' = -1 \<and> seeks p' = seeks p
     else mSeekPosition p' = clamp d l \<and> mCurrentPosition p' = clamp d l \<and>
          seeks p' = seeks p @ [(i, clamp d l)])"
proof (cases "mSeekPosition p = clamp d l")
  case True
  then show ?thesis using assms
    by (auto simp: notify_def seekable_def in_state_def seeks_def split: option.split)
next
  case False
  let ?p = "p\<lparr>mSeekPosition := -1\<rparr>"
  have "seekable svc i d ?p" using assms(1) by (simp add: seekable_def in_state_def)
  then obtain p1 where p1: "seekTo_l svc (clamp d l) ?p = Some (p1, fst (svc (R_seekTo (clamp d (clamp d l)))))"
      "mSeekPosition p1 = clamp d (clamp d l)" "mCurrentPosition p1 = clamp d (clamp d l)"
      "seeks p1 = seeks ?p @ [(i, clamp d (clamp d l))]" "seekable svc i d p1"
    using seekTo_sent [of svc i d ?p "clamp d l"] by auto
  have idem: "clamp d (clamp d l) = clamp d l" using assms(1) by (auto simp: clamp_def seekable_def)
  have "seeks ?p = seeks p" by (rule seeks_cong) simp
  with False assms p1 show ?thesis unfolding idem
    by (auto simp: notify_def seekable_def in_state_def seeks_def split: option.split)
qed

section \<open>Waiting for the preparation\<close>

text \<open>A \<open>prepare\<close> that fails, and notifications that reach a player that was reset.\<close>

lemma notify_detached:
  "mPlayer p = None \<Longrightarrow> \<not> mPrepareSync p \<Longrightarrow> \<exists>p'. notify svc m e1 e2 p = Some p' \<and>
     mPlayer p' = None \<and> \<not> mPrepareSync p' \<and> waiters p' = waiters p \<and> woken p' = woken p"
  by (cases m) (auto simp: notify_def split: option.split)

lemma reentrant_detached:
  "mPlayer p = None \<Longrightarrow> \<not> mPrepareSync p \<Longrightarrow> \<exists>p'. reentrant ns p = Some p' \<and>
     mPlayer p' = None \<and> \<not> mPrepareSync p' \<and> waiters p' = waiters p \<and> woken p' = woken p"
proof (induction ns arbitrary: p)
  case (Cons n ns)
  obtain svc m e1 e2 where n: "n = (svc, m, e1, e2)" by (cases n) auto
  obtain p1 where "notify svc m e1 e2 p = Some p1" "mPlayer p1 = None" "\<not> mPrepareSync p1"
      "waiters p1 = waiters p" "woken p1 = woken p"
    using notify_detached [OF Cons.prems] by blast
  with Cons.IH [of p1] show ?case by (auto simp: n)
qed simp

section \<open>Properties\<close>





text \<open>
  C3: seeks are coalesced: of any number of requests made while no seek is under way, the first
  is sent at once and all the others succeed without a call; when the server reports the seek
  as complete, exactly the last request is sent, unless it asked for the same position, and when
  that one completes no seek is left. Every position sent is clamped to the duration.
\<close>

theorem seeks_coalesce:
  assumes "seekable svc i d p" "mSeekPosition p < 0" "svc (R_seekTo (clamp d m)) = (OK, x)" "ms \<noteq> []"
  shows "\<exists>p1 p2. seek_all svc (m # ms) p = Some (p1, replicate (length ms + 1) OK)
    \<and> seeks p1 = seeks p @ [(i, clamp d m)]
    \<and> notify svc MEDIA_SEEK_COMPLETE 0 0 p1 = Some p2
    \<and> (if clamp d (last ms) = clamp d m
       then seeks p2 = seeks p1 \<and> mSeekPosition p2 = -1 \<and> mCurrentPosition p2 = -1
       else seeks p2 = seeks p1 @ [(i, clamp d (last ms))] \<and>
         (\<exists>p3. notify svc MEDIA_SEEK_COMPLETE 0 0 p2 = Some p3 \<and> seeks p3 = seeks p2 \<and>
            mSeekPosition p3 = -1 \<and> mCurrentPosition p3 = -1))"
proof -
  from seekTo_sent [OF assms(1,2), of m] assms(3) obtain p0 where
    p0: "seekTo_l svc m p = Some (p0, OK)" "mSeekPosition p0 = clamp d m"
      "seeks p0 = seeks p @ [(i, clamp d m)]" "seekable svc i d p0" by auto
  moreover have "0 \<le> d" using assms(1) by (simp add: seekable_def)
  ultimately obtain p1 where p1: "seek_all svc ms p0 = Some (p1, replicate (length ms) OK)"
      "mSeekPosition p1 = clamp d m" "mCurrentPosition p1 = clamp d (last ms)"
      "seeks p1 = seeks p0" "seekable svc i d p1"
    using seek_all_queued [of svc i d p0 ms] assms(4) clamp_nonneg by auto
  obtain p2 where p2: "notify svc MEDIA_SEEK_COMPLETE 0 0 p1 = Some p2" "seekable svc i d p2"
      "if clamp d m = clamp d (last ms)
       then mSeekPosition p2 = -1 \<and> mCurrentPosition p2 = -1 \<and> seeks p2 = seeks p1
       else mSeekPosition p2 = clamp d (last ms) \<and> mCurrentPosition p2 = clamp d (last ms) \<and>
            seeks p2 = seeks p1 @ [(i, clamp d (last ms))]"
    using seek_complete [OF p1(5,3)] unfolding p1(2) by blast
  have "seek_all svc (m # ms) p = Some (p1, replicate (length ms + 1) OK)"
    using p0(1) p1(1) by (simp add: seekTo_def)
  moreover have "\<exists>p3. notify svc MEDIA_SEEK_COMPLETE 0 0 p2 = Some p3 \<and> seeks p3 = seeks p2 \<and>
      mSeekPosition p3 = -1 \<and> mCurrentPosition p3 = -1" if "clamp d (last ms) \<noteq> clamp d m"
    using seek_complete [OF p2(2), of "last ms"] p2(3) that by auto
  ultimately show ?thesis using p0(3) p1(4) p2(1,3) by auto
qed

theorem seeks_coalesce_witness:
  "\<exists>p1 p2. seek_all (\<lambda>c. (0, 1000)) [10, 20, 5000]
      ((MediaPlayer 3 7)\<lparr>mCurrentState := MEDIA_PLAYER_STARTED, mPlayer := Some 1\<rparr>) = Some (p1, [0, 0, 0])
    \<and> seeks p1 = [(1, 10)]
    \<and> notify (\<lambda>c. (0, 1000)) MEDIA_SEEK_COMPLETE 0 0 p1 = Some p2 \<and> seeks p2 = [(1, 10), (1, 1000)]"
proof -
  let ?p = "(MediaPlayer 3 7)\<lparr>mCurrentState := MEDIA_PLAYER_STARTED, mPlayer := Some 1\<rparr>"
  have "seekable (\<lambda>c. (0, 1000)) 1 1000 ?p"
    by (simp add: seekable_def in_state_def playing_states_def player_states OK_def)
  moreover have "mSeekPosition ?p < 0" by (simp add: MediaPlayer_def)
  moreover have "((0 :: int), (1000 :: int)) = (OK, 1000)" by (simp add: OK_def)
  moreover have "[20, 5000] \<noteq> ([] :: int list)" by simp
  ultimately obtain p1 p2 where
    "seek_all (\<lambda>c. (0, 1000)) (10 # [20, 5000]) ?p = Some (p1, replicate (length [20 :: int, 5000] + 1) OK)"
    "seeks p1 = seeks ?p @ [(1, clamp 1000 10)]" "notify (\<lambda>c. (0, 1000)) MEDIA_SEEK_COMPLETE 0 0 p1 = Some p2"
    "clamp 1000 (last [20, 5000]) \<noteq> clamp 1000 10 \<Longrightarrow> seeks p2 = seeks p1 @ [(1, clamp 1000 (last [20, 5000]))]"
    by (rule exE [OF seeks_coalesce [of "\<lambda>c. (0, 1000)" 1 1000 ?p 10 1000 "[20, 5000]"]]) auto
  moreover have "seeks ?p = []" by (simp add: seeks_def MediaPlayer_def List.map_filter_def)
  moreover have "replicate (length [20 :: int, 5000] + 1) OK = [0, 0, 0]" by (simp add: OK_def numeral_2_eq_2)
  moreover have "clamp 1000 10 = 10" "clamp 1000 (last [20, 5000]) = 1000" by (simp_all add: clamp_def)
  ultimately show ?thesis by (intro exI [of _ p1] exI [of _ p2]) simp
qed

text \<open>
  a seek that the remote player refuses blocks all later ones: \<open>mSeekPosition\<close> stays set
  although no completion will come, so every later request reports success, is never sent, and
  \<open>getCurrentPosition\<close> answers with the requested position.
\<close>

theorem failed_seek_blocks_later:
  assumes "seekable svc i d p" "mSeekPosition p < 0" "svc (R_seekTo (clamp d m)) = (e, x)" "e \<noteq> OK"
  shows "\<exists>p1. seekTo svc [] m p = Some (p1, e) \<and>
    (\<exists>p2. seek_all svc (ms @ [l]) p1 = Some (p2, replicate (length ms + 1) OK) \<and> seeks p2 = seeks p1 \<and>
       getCurrentPosition svc' p2 = Some (p2, OK, Some (clamp d l)))"
proof -
  from seekTo_sent [OF assms(1,2), of m] assms(3) obtain p1 where
    p1: "seekTo_l svc m p = Some (p1, e)" "mSeekPosition p1 = clamp d m" "seekable svc i d p1" by auto
  have d: "0 \<le> d" using assms(1) by (simp add: seekable_def)
  then have "0 \<le> mSeekPosition p1" using p1(2) clamp_nonneg by simp
  from seek_all_queued [OF p1(3) this, of "ms @ [l]"] p1(1) clamp_nonneg [OF d, of l] show ?thesis
    by (auto simp: seekTo_def getCurrentPosition_def seekable_def)
qed

theorem failed_seek_blocks_later_witness:
  "\<exists>p1. seekTo (\<lambda>c. case c of R_seekTo m \<Rightarrow> (-38, 0) | _ \<Rightarrow> (0, 1000)) [] 10
      ((MediaPlayer 3 7)\<lparr>mCurrentState := MEDIA_PLAYER_STARTED, mPlayer := Some 1\<rparr>) = Some (p1, -38) \<and>
    (\<exists>p2. seek_all (\<lambda>c. case c of R_seekTo m \<Rightarrow> (-38, 0) | _ \<Rightarrow> (0, 1000)) ([50] @ [70]) p1
       = Some (p2, replicate (length [50 :: int] + 1) OK) \<and> seeks p2 = seeks p1 \<and>
       getCurrentPosition (\<lambda>c. (0, 0)) p2 = Some (p2, OK, Some (clamp 1000 70)))"
  by (rule failed_seek_blocks_later [where i = 1 and x = 0])
    (auto simp: seekable_def in_state_def playing_states_def player_states OK_def MediaPlayer_def)

text \<open>
  a \<open>prepare\<close> that fails leaves \<open>mPrepareSync\<close> set, and a \<open>reset\<close> in the idle state does
  not clear it: after a source was then set successfully, \<open>prepare\<close> refuses with \<open>-EALREADY\<close>
  although no preparation is under way.
\<close>

theorem failed_prepare_sticks:
  assumes "player_inv p" "mCurrentState p = MEDIA_PLAYER_IDLE" "\<not> mPrepareSync p"
    "\<not> mRetransmitEndpointValid p" "svc (R_setDataSource (Url u)) = (OK, x)"
  shows "\<exists>p1 p2 p3. prepare svc1 [] p = Some (p1, Returned INVALID_OPERATION)
    \<and> reset svc2 p1 = Some (p2, OK)
    \<and> setDataSource_url svc True (Some i) (Some u) p2 = Some (p3, OK)
    \<and> mCurrentState p3 = MEDIA_PLAYER_INITIALIZED
    \<and> prepare svc3 [] p3 = Some (p3, Returned (- EALREADY))"
proof -
  have n: "mPlayer p = None" using assms(1,2) by (simp add: player_inv_def)
  let ?p1 = "p\<lparr>mPrepareSync := True\<rparr>" and ?p2 = "p\<lparr>mPrepareSync := True, mLoop := False\<rparr>"
  have "prepare svc1 [] p = Some (?p1, Returned INVALID_OPERATION)"
    using n assms(3) by (simp add: prepare_def prepareAsync_l_def INVALID_OPERATION_def OK_def)
  moreover have "reset svc2 ?p1 = Some (?p2, OK)"
    using assms(2) by (simp add: reset_def reset_l_def)
  moreover have "\<exists>p3. setDataSource_url svc True (Some i) (Some u) ?p2 = Some (p3, OK) \<and>
      mCurrentState p3 = MEDIA_PLAYER_INITIALIZED \<and> mPrepareSync p3"
    using n assms(2,4,5)
    by (simp add: setDataSource_url_def create_and_attach_def doSetRetransmitEndpoint_def attachNewPlayer_def
        Let_def clear_l_def in_state_def MEDIA_PLAYER_IDLE_def OK_def)
  ultimately show ?thesis by (auto simp: prepare_def)
qed

theorem failed_prepare_sticks_witness:
  "\<exists>p1 p2 p3. prepare (\<lambda>_. (0, 0)) [] (MediaPlayer 3 7) = Some (p1, Returned INVALID_OPERATION)
    \<and> reset (\<lambda>_. (0, 0)) p1 = Some (p2, OK)
    \<and> setDataSource_url (\<lambda>_. (0, 0)) True (Some 1) (Some ''a'') p2 = Some (p3, OK)
    \<and> mCurrentState p3 = MEDIA_PLAYER_INITIALIZED
    \<and> prepare (\<lambda>_. (0, 0)) [] p3 = Some (p3, Returned (- EALREADY))"
  by (rule failed_prepare_sticks [where x = 0]) (simp_all add: player_inv_init, simp_all add: MediaPlayer_def OK_def)

text \<open>
  a thread that waits in \<open>prepare\<close> when another thread resets the player is not woken:
  \<open>reset\<close> clears \<open>mPrepareSync\<close> and the remote player without a signal, and no notification
  that arrives afterwards signals the waiting thread.
\<close>

theorem reset_loses_wakeup:
  assumes "mPlayer p = Some i" "mCurrentState p = MEDIA_PLAYER_INITIALIZED" "\<not> mPrepareSync p"
    "fst (svc R_prepareAsync) = OK" "fst (svc' R_reset) = OK"
  shows "\<exists>p1 p2. prepare svc [] p = Some (p1, Blocked) \<and> waiters p1 = waiters p + 1
    \<and> reset svc' p1 = Some (p2, OK) \<and> mCurrentState p2 = MEDIA_PLAYER_IDLE
    \<and> (\<forall>ns. \<exists>p3. reentrant ns p2 = Some p3 \<and> waiters p3 = waiters p + 1 \<and> woken p3 = woken p)"
proof -
  have m: "in_state q (MEDIA_PLAYER_INITIALIZED OR MEDIA_PLAYER_STOPPED)"
    if "mCurrentState q = MEDIA_PLAYER_INITIALIZED" for q
    using that by (simp add: in_state_def player_states)
  obtain p1 where p1: "prepare svc [] p = Some (p1, Blocked)" "waiters p1 = waiters p + 1" "woken p1 = woken p"
      "mPlayer p1 = Some i" "mCurrentState p1 = MEDIA_PLAYER_PREPARING"
    using assms by (cases "mAudioAttributesParcel p") (auto simp: prepare_def prepareAsync_l_def m)
  obtain p2 where p2: "reset svc' p1 = Some (p2, OK)" "mPlayer p2 = None" "\<not> mPrepareSync p2"
      "waiters p2 = waiters p1" "woken p2 = woken p1" "mCurrentState p2 = MEDIA_PLAYER_IDLE"
    using p1 assms(5) by (cases "svc' R_reset"; cases "svc' R_disconnect") (auto simp: reset_def reset_l_def Let_def)
  have "\<exists>p3. reentrant ns p2 = Some p3 \<and> waiters p3 = waiters p + 1 \<and> woken p3 = woken p" for ns
    using reentrant_detached [OF p2(2,3), of ns] p1 p2 by auto
  with p1 p2 show ?thesis by blast
qed

theorem reset_loses_wakeup_witness:
  "\<exists>p1 p2. prepare (\<lambda>_. (0, 0)) [] ((MediaPlayer 3 7)\<lparr>mCurrentState := MEDIA_PLAYER_INITIALIZED, mPlayer := Some 1\<rparr>)
      = Some (p1, Blocked) \<and> reset (\<lambda>_. (0, 0)) p1 = Some (p2, OK) \<and>
      (\<exists>p3. reentrant [((\<lambda>_. (0, 0)), MEDIA_PREPARED, 0, 0), ((\<lambda>_. (0, 0)), MEDIA_ERROR, 1, 0)] p2 = Some p3 \<and> woken p3 = 0)"
proof -
  let ?p = "(MediaPlayer 3 7)\<lparr>mCurrentState := MEDIA_PLAYER_INITIALIZED, mPlayer := Some 1\<rparr>"
  have "\<exists>p1 p2. prepare (\<lambda>_. (0, 0)) [] ?p = Some (p1, Blocked) \<and> waiters p1 = waiters ?p + 1
    \<and> reset (\<lambda>_. (0, 0)) p1 = Some (p2, OK) \<and> mCurrentState p2 = MEDIA_PLAYER_IDLE
    \<and> (\<forall>ns. \<exists>p3. reentrant ns p2 = Some p3 \<and> waiters p3 = waiters ?p + 1 \<and> woken p3 = woken ?p)"
    by (rule reset_loses_wakeup [where i = 1]) (simp_all add: OK_def MediaPlayer_def)
  moreover have "woken ?p = 0" by (simp add: MediaPlayer_def)
  ultimately show ?thesis by metis
qed

text \<open>
  every outcome of \<open>reset\<close>: nothing in the idle state; with a remote player, that player is
  released and the state is idle if it accepted the reset and the error state otherwise; without
  one (after an error or \<open>disconnect\<close>) it reports success but the state stays as it was, so
  that a player in the error state does not become idle.
\<close>

theorem reset_outcome:
  "reset svc p =
     (if mCurrentState p = MEDIA_PLAYER_IDLE then Some (p\<lparr>mLoop := False\<rparr>, OK)
      else case mPlayer p of
        Some i \<Rightarrow> (if fst (svc R_reset) = OK
           then Some (p\<lparr>mLoop := False, mPrepareSync := False, mPlayer := None, mCurrentState := MEDIA_PLAYER_IDLE,
                        calls := calls p @ [(i, R_reset), (i, R_disconnect)]\<rparr>, OK)
           else Some (p\<lparr>mLoop := False, mPrepareSync := False, mPlayer := None,
                        mCurrentState := MEDIA_PLAYER_STATE_ERROR, calls := calls p @ [(i, R_reset)]\<rparr>,
                      fst (svc R_reset)))
      | None \<Rightarrow> Some (clear_l (p\<lparr>mLoop := False, mPrepareSync := False\<rparr>), OK))
   \<and> (mCurrentState p = MEDIA_PLAYER_STATE_ERROR \<and> mPlayer p = None \<longrightarrow>
        (\<exists>p'. reset svc p = Some (p', OK) \<and> mCurrentState p' = MEDIA_PLAYER_STATE_ERROR \<and>
           setAudioSessionId 5 p' = (p', INVALID_OPERATION)))"
  by (cases "mPlayer p"; cases "svc R_reset"; cases "svc R_disconnect")
    (auto simp: reset_def reset_l_def Let_def clear_l_def setAudioSessionId_def in_state_def MEDIA_PLAYER_STATE_ERROR_def
      MEDIA_PLAYER_IDLE_def)

theorem reset_outcome_witness:
  "\<exists>p'. reset (\<lambda>_. (0, 0)) ((MediaPlayer 3 7)\<lparr>mCurrentState := MEDIA_PLAYER_STATE_ERROR\<rparr>) = Some (p', OK) \<and>
     mCurrentState p' = MEDIA_PLAYER_STATE_ERROR"
  using reset_outcome [of "\<lambda>_. (0, 0)" "(MediaPlayer 3 7)\<lparr>mCurrentState := MEDIA_PLAYER_STATE_ERROR\<rparr>"]
  by (simp add: MediaPlayer_def MEDIA_PLAYER_STATE_ERROR_def MEDIA_PLAYER_IDLE_def clear_l_def)

end
