(* ===== verification/CachePages.thy ===== *)
theory CachePages
  imports DataSources
begin

text \<open>
  The page cache of media/libstagefright/NuCachedSource2.cpp: a FIFO of pages of at most
  \<open>mPageSize\<close> bytes with a list of spare pages, the interface it offers to the cached source
  (a window of bytes that grows at its end and shrinks at its start), and the proof that the
  pages implement it. An intrusive list of pages is a list; following an iterator past the end
  is \<open>None\<close>.
\<close>

record page =
  mData :: "byte list"
  mSize :: nat

record page_cache =
  mPageSize :: nat
  mTotalSize :: nat
  mActivePages :: "page list"
  mFreePages :: "page list"

definition PageCache :: "nat \<Rightarrow> page_cache" where
  "PageCache pageSize = \<lparr>mPageSize = pageSize, mTotalSize = 0, mActivePages = [], mFreePages = []\<rparr>"

definition totalSize :: "page_cache \<Rightarrow> nat" where
  "totalSize c = mTotalSize c"

text \<open>\<open>malloc\<close> yields some \<open>garbage\<close> of the page size.\<close>

definition acquirePage :: "byte list \<Rightarrow> page_cache \<Rightarrow> page_cache \<times> page" where
  "acquirePage garbage c =
     (case mFreePages c of
        p # ps \<Rightarrow> (c\<lparr>mFreePages := ps\<rparr>, p)
      | [] \<Rightarrow> (c, \<lparr>mData = garbage, mSize = 0\<rparr>))"

definition releasePage :: "page \<Rightarrow> page_cache \<Rightarrow> page_cache" where
  "releasePage p c = c\<lparr>mFreePages := mFreePages c @ [p\<lparr>mSize := 0\<rparr>]\<rparr>"

definition appendPage :: "page \<Rightarrow> page_cache \<Rightarrow> page_cache" where
  "appendPage p c = c\<lparr>mTotalSize := mTotalSize c + mSize p, mActivePages := mActivePages c @ [p]\<rparr>"

fun release_loop :: "nat \<Rightarrow> nat \<Rightarrow> page list \<Rightarrow> page_cache \<Rightarrow> page_cache \<times> nat" where
  "release_loop maxBytes released [] c = (c\<lparr>mActivePages := []\<rparr>, released)"
| "release_loop maxBytes released (p # ps) c =
     (if 0 < maxBytes \<and> mSize p \<le> maxBytes
      then release_loop (maxBytes - mSize p) (released + mSize p) ps
             (releasePage p (c\<lparr>mActivePages := ps\<rparr>))
      else (c\<lparr>mActivePages := p # ps\<rparr>, released))"

definition releaseFromStart :: "nat \<Rightarrow> page_cache \<Rightarrow> page_cache \<times> nat" where
  "releaseFromStart maxBytes c =
     (case release_loop maxBytes 0 (mActivePages c) c of
        (c, bytesReleased) \<Rightarrow> (c\<lparr>mTotalSize := mTotalSize c - bytesReleased\<rparr>, bytesReleased))"

text \<open>The three loops of \<open>copy\<close>: find the first page, then append the pages that follow.\<close>

fun copy_skip :: "page list \<Rightarrow> nat \<Rightarrow> nat \<Rightarrow> (page list \<times> nat) option" where
  "copy_skip [] from offset = None"
| "copy_skip (p # ps) from offset =
     (if offset + mSize p \<le> from then copy_skip ps from (offset + mSize p) else Some (p # ps, offset))"

fun copy_rest :: "page list \<Rightarrow> nat \<Rightarrow> byte list option" where
  "copy_rest ps 0 = Some []"
| "copy_rest [] n = None"
| "copy_rest (p # ps) n = do {
     rest \<leftarrow> copy_rest ps (n - (if n < mSize p then n else mSize p));
     Some (take (if n < mSize p then n else mSize p) (mData p) @ rest) }"

definition copy :: "nat \<Rightarrow> nat \<Rightarrow> page_cache \<Rightarrow> byte list option" where
  "copy from n c =
     (if n = 0 then Some []
      else do {
        CHECK (from + n \<le> mTotalSize c);
        (ps, offset) \<leftarrow> copy_skip (mActivePages c) from 0;
        case ps of [] \<Rightarrow> None
        | p # ps \<Rightarrow>
          let delta = from - offset; avail = mSize p - delta in
          if n \<le> avail then Some (take n (drop delta (mData p)))
          else do { rest \<leftarrow> copy_rest ps (n - avail); Some (take avail (drop delta (mData p)) @ rest) }
      })"

section \<open>The window contract\<close>

text \<open>
  What the cached source relies on: the cache holds a string of bytes; appending extends it,
  releasing drops a prefix no longer than asked for (everything when everything is asked for),
  copying reads from it.
\<close>

locale byte_window =
  fixes bytes :: "'c \<Rightarrow> byte list"
    and ok :: "'c \<Rightarrow> bool"
    and size_of :: "'c \<Rightarrow> nat"
    and append :: "byte list \<Rightarrow> 'c \<Rightarrow> 'c"
    and release :: "nat \<Rightarrow> 'c \<Rightarrow> 'c \<times> nat"
    and read :: "nat \<Rightarrow> nat \<Rightarrow> 'c \<Rightarrow> byte list option"
  assumes size: "ok c \<Longrightarrow> size_of c = length (bytes c)"
    and append: "ok c \<Longrightarrow> bs \<noteq> [] \<Longrightarrow> bytes (append bs c) = bytes c @ bs"
    and release: "ok c \<Longrightarrow> release m c = (c', k) \<Longrightarrow>
      ok c' \<and> k \<le> m \<and> k \<le> length (bytes c) \<and> bytes c' = drop k (bytes c)"
    and release_all: "ok c \<Longrightarrow> release (length (bytes c)) c = (c', k) \<Longrightarrow> bytes c' = []"
    and read: "ok c \<Longrightarrow> from + n \<le> length (bytes c) \<Longrightarrow> read from n c = Some (take n (drop from (bytes c)))"

text \<open>The bytes are the part of a content that starts at an offset.\<close>

definition holds :: "byte list \<Rightarrow> int \<Rightarrow> byte list \<Rightarrow> bool" where
  "holds content off bs \<longleftrightarrow> 0 \<le> off \<and> slice off (length bs) content = bs"

context byte_window
begin

lemma holds_append:
  assumes "ok c" "holds content off (bytes c)" "bs \<noteq> []"
    and "slice (off + int (length (bytes c))) (length bs) content = bs"
  shows "holds content off (bytes (append bs c))"
proof -
  have "slice off (length (bytes c) + length bs) content = bytes c @ bs"
    using assms slice_append [of off "length (bytes c)" content "length bs"] by (simp add: holds_def)
  then show ?thesis using assms by (simp add: append holds_def)
qed

lemma holds_release:
  assumes "ok c" "holds content off (bytes c)" "release m c = (c', k)"
  shows "holds content (off + int k) (bytes c')" "size_of c' = size_of c - k" "k \<le> size_of c"
proof -
  note r = release [OF assms(1,3)]
  have "drop k (slice off (length (bytes c)) content) = slice (off + int k) (length (bytes c) - k) content"
    using assms(2) by (intro drop_slice) (simp add: holds_def)
  then show "holds content (off + int k) (bytes c')"
    using r assms(2) by (auto simp: holds_def slice_self)
  show "size_of c' = size_of c - k" "k \<le> size_of c" using r assms(1) by (auto simp: size)
qed

lemma holds_read:
  assumes "ok c" "holds content off (bytes c)" "off \<le> pos" "pos + int n \<le> off + int (size_of c)"
  shows "read (nat (pos - off)) n c = Some (slice pos n content)" "length (slice pos n content) = n"
proof -
  have d: "nat (pos - off) + n \<le> length (bytes c)" using assms by (auto simp: size)
  have "take n (drop (nat (pos - off)) (bytes c)) =
      take n (drop (nat (pos - off)) (slice off (length (bytes c)) content))"
    using assms(2) by (simp add: holds_def)
  also have "\<dots> = slice pos n content"
  proof -
    have "0 \<le> off" "off + int (nat (pos - off)) = pos" using assms(2,3) by (auto simp: holds_def)
    moreover have "min n (length (bytes c) - nat (pos - off)) = n" using d by linarith
    ultimately show ?thesis by (simp only: drop_slice take_slice)
  qed
  finally have eq: "take n (drop (nat (pos - off)) (bytes c)) = slice pos n content" .
  then show "read (nat (pos - off)) n c = Some (slice pos n content)"
    using read [OF assms(1) d] by simp
  show "length (slice pos n content) = n" using d unfolding eq [symmetric] by simp
qed

end

section \<open>The pages implement the window\<close>

definition page_ok :: "nat \<Rightarrow> page \<Rightarrow> bool" where
  "page_ok k p \<longleftrightarrow> length (mData p) = k \<and> mSize p \<le> k"

definition page_bytes :: "page \<Rightarrow> byte list" where
  "page_bytes p = take (mSize p) (mData p)"

definition cache_bytes :: "page_cache \<Rightarrow> byte list" where
  "cache_bytes c = concat (map page_bytes (mActivePages c))"

definition cache_ok :: "page_cache \<Rightarrow> bool" where
  "cache_ok c \<longleftrightarrow> mTotalSize c = length (cache_bytes c)
     \<and> (\<forall>p \<in> set (mActivePages c) \<union> set (mFreePages c). page_ok (mPageSize c) p)
     \<and> (\<forall>p \<in> set (mActivePages c). 0 < mSize p)"

lemma length_page_bytes [simp]: "page_ok k p \<Longrightarrow> length (page_bytes p) = mSize p"
  by (simp add: page_ok_def page_bytes_def)

lemma cache_ok_PageCache: "cache_ok (PageCache k)"
  by (simp add: cache_ok_def PageCache_def cache_bytes_def)

lemma release_loop_drop:
  assumes "\<forall>p \<in> set ps. page_ok k p \<and> 0 < mSize p" "release_loop m r ps c = (c', r')"
  shows "\<exists>j. r' = r + j \<and> j \<le> m \<and> j \<le> length (concat (map page_bytes ps)) \<and>
    concat (map page_bytes (mActivePages c')) = drop j (concat (map page_bytes ps)) \<and>
    (m = length (concat (map page_bytes ps)) \<longrightarrow> mActivePages c' = []) \<and>
    mTotalSize c' = mTotalSize c \<and> mPageSize c' = mPageSize c \<and>
    set (mActivePages c') \<subseteq> set ps \<and>
    (\<forall>p \<in> set (mFreePages c'). p \<in> set (mFreePages c) \<or> (\<exists>q \<in> set ps. p = q\<lparr>mSize := 0\<rparr>))"
  using assms
proof (induction ps arbitrary: m r c)
  case Nil
  then show ?case by auto
next
  case (Cons p ps)
  have len: "length (page_bytes p) = mSize p" using Cons.prems(1) by auto
  show ?case
  proof (cases "0 < m \<and> mSize p \<le> m")
    case True
    let ?c = "releasePage p (c\<lparr>mActivePages := ps\<rparr>)"
    have "release_loop (m - mSize p) (r + mSize p) ps ?c = (c', r')"
      using True Cons.prems(2) by simp
    from Cons.IH [OF _ this] Cons.prems(1) obtain j where
      j: "r' = r + mSize p + j" "j \<le> m - mSize p" "j \<le> length (concat (map page_bytes ps))"
        "concat (map page_bytes (mActivePages c')) = drop j (concat (map page_bytes ps))"
        "m - mSize p = length (concat (map page_bytes ps)) \<longrightarrow> mActivePages c' = []"
        "mTotalSize c' = mTotalSize c" "mPageSize c' = mPageSize c" "set (mActivePages c') \<subseteq> set ps"
        "\<forall>q \<in> set (mFreePages c'). q \<in> set (mFreePages ?c) \<or> (\<exists>x \<in> set ps. q = x\<lparr>mSize := 0\<rparr>)"
      by (auto simp: releasePage_def)
    show ?thesis
      using j True len by (intro exI [of _ "mSize p + j"]) (auto simp: releasePage_def)
  next
    case False
    have "\<not> (m = length (concat (map page_bytes (p # ps))))"
      using False Cons.prems(1) len by auto
    then show ?thesis using False Cons.prems(2) by (intro exI [of _ 0]) auto
  qed
qed

lemma release_ok:
  assumes "cache_ok c" "releaseFromStart m c = (c', k)"
  shows "cache_ok c' \<and> k \<le> m \<and> k \<le> length (cache_bytes c) \<and> cache_bytes c' = drop k (cache_bytes c)"
    and "m = length (cache_bytes c) \<Longrightarrow> cache_bytes c' = []"
    and "mPageSize c' = mPageSize c"
proof -
  obtain c1 where c1: "release_loop m 0 (mActivePages c) c = (c1, k)" "c' = c1\<lparr>mTotalSize := mTotalSize c1 - k\<rparr>"
    using assms(2) by (auto simp: releaseFromStart_def split: prod.splits)
  have "\<forall>p \<in> set (mActivePages c). page_ok (mPageSize c) p \<and> 0 < mSize p"
    using assms(1) by (auto simp: cache_ok_def)
  note d = release_loop_drop [OF this c1(1)]
  then show "cache_ok c' \<and> k \<le> m \<and> k \<le> length (cache_bytes c) \<and> cache_bytes c' = drop k (cache_bytes c)"
    using assms(1) c1(2) by (auto simp: cache_ok_def cache_bytes_def page_ok_def subset_iff)
  show "cache_bytes c' = []" if "m = length (cache_bytes c)"
    using d that c1(2) by (simp add: cache_bytes_def)
  show "mPageSize c' = mPageSize c" using d c1(2) by auto
qed

text \<open>Appending a filled page, and the copy loops.\<close>

definition append_bytes :: "byte list \<Rightarrow> page_cache \<Rightarrow> page_cache" where
  "append_bytes bs c = appendPage \<lparr>mData = overwrite bs (replicate (mPageSize c) 0), mSize = length bs\<rparr> c"

lemma appendPage_bytes: "cache_bytes (appendPage p c) = cache_bytes c @ page_bytes p"
  by (simp add: appendPage_def cache_bytes_def)

lemma appendPage_ok: "cache_ok c \<Longrightarrow> page_ok (mPageSize c) p \<Longrightarrow> 0 < mSize p \<Longrightarrow> cache_ok (appendPage p c)"
  using appendPage_bytes [of p c] by (auto simp: cache_ok_def) (auto simp: appendPage_def)

lemma copy_skip_split:
  assumes "\<forall>p \<in> set ps. page_ok k p" "offset \<le> from" "from < offset + length (concat (map page_bytes ps))"
  shows "\<exists>p qs o'. copy_skip ps from offset = Some (p # qs, o') \<and> page_ok k p \<and> set qs \<subseteq> set ps \<and>
    o' \<le> from \<and> from < o' + mSize p \<and>
    drop (from - offset) (concat (map page_bytes ps)) = drop (from - o') (page_bytes p) @ concat (map page_bytes qs)"
  using assms
proof (induction ps arbitrary: offset)
  case Nil
  then show ?case by simp
next
  case (Cons p ps)
  have len: "length (page_bytes p) = mSize p" using Cons.prems(1) by auto
  show ?case
  proof (cases "offset + mSize p \<le> from")
    case True
    have "from < offset + mSize p + length (concat (map page_bytes ps))" using Cons.prems(3) len by simp
    from Cons.IH [OF _ True this] Cons.prems(1) obtain q qs o' where
      "copy_skip ps from (offset + mSize p) = Some (q # qs, o')" "page_ok k q" "set qs \<subseteq> set ps"
      "o' \<le> from" "from < o' + mSize q"
      "drop (from - (offset + mSize p)) (concat (map page_bytes ps)) = drop (from - o') (page_bytes q) @ concat (map page_bytes qs)"
      by auto
    moreover have "drop (from - offset) (concat (map page_bytes (p # ps))) =
        drop (from - (offset + mSize p)) (concat (map page_bytes ps))"
      using True len by simp
    ultimately show ?thesis using True by auto
  next
    case False
    then have "drop (from - offset) (concat (map page_bytes (p # ps))) =
        drop (from - offset) (page_bytes p) @ concat (map page_bytes ps)"
      using Cons.prems(2) len by simp
    then show ?thesis using False Cons.prems by auto
  qed
qed

lemma copy_rest_take:
  assumes "\<forall>p \<in> set ps. page_ok k p \<and> 0 < mSize p" "n \<le> length (concat (map page_bytes ps))"
  shows "copy_rest ps n = Some (take n (concat (map page_bytes ps)))"
  using assms
proof (induction ps n rule: copy_rest.induct)
  case (3 p ps n)
  have len: "length (page_bytes p) = mSize p" using "3.prems"(1) by auto
  let ?k = "if Suc n < mSize p then Suc n else mSize p"
  have "Suc n - ?k \<le> length (concat (map page_bytes ps))" using "3.prems"(2) len by auto
  with "3.IH" "3.prems"(1) have "copy_rest ps (Suc n - ?k) = Some (take (Suc n - ?k) (concat (map page_bytes ps)))"
    by auto
  moreover have "take ?k (mData p) = take ?k (page_bytes p)"
    by (simp add: page_bytes_def)
  ultimately show ?case using len by simp
qed auto

lemma copy_bytes:
  assumes "cache_ok c" "from + n \<le> length (cache_bytes c)"
  shows "copy from n c = Some (take n (drop from (cache_bytes c)))"
proof (cases "n = 0")
  case True
  then show ?thesis by (simp add: copy_def)
next
  case False
  have ok: "\<forall>p \<in> set (mActivePages c). page_ok (mPageSize c) p" using assms(1) by (auto simp: cache_ok_def)
  have "from < 0 + length (concat (map page_bytes (mActivePages c)))"
    using False assms(2) by (simp add: cache_bytes_def)
  from copy_skip_split [OF ok _ this] obtain p qs o' where
    s: "copy_skip (mActivePages c) from 0 = Some (p # qs, o')" "page_ok (mPageSize c) p"
      "o' \<le> from" "from < o' + mSize p" "set qs \<subseteq> set (mActivePages c)"
      "drop from (cache_bytes c) = drop (from - o') (page_bytes p) @ concat (map page_bytes qs)"
    by (auto simp: cache_bytes_def)
  let ?d = "from - o'" and ?avail = "mSize p - (from - o')"
  have total: "from + n \<le> mTotalSize c" using assms by (simp add: cache_ok_def)
  have len: "length (drop ?d (page_bytes p)) = ?avail" using s(2) by simp
  have head: "take k (drop ?d (mData p)) = take k (drop ?d (page_bytes p))" if "k \<le> ?avail" for k
    using that by (simp add: page_bytes_def drop_take min_def)
  show ?thesis
  proof (cases "n \<le> ?avail")
    case True
    have "copy from n c = Some (take n (drop ?d (mData p)))"
      using False total s(1) True by (simp add: copy_def Let_def)
    then show ?thesis using head [OF True] len True by (simp add: s(6))
  next
    case more: False
    have "length (cache_bytes c) - from = ?avail + length (concat (map page_bytes qs))"
      using arg_cong [OF s(6), of length] len by simp
    then have "n - ?avail \<le> length (concat (map page_bytes qs))"
      using assms(2) by linarith
    moreover have "\<forall>q \<in> set qs. page_ok (mPageSize c) q \<and> 0 < mSize q"
      using s(5) assms(1) by (auto simp: cache_ok_def)
    ultimately have rest: "copy_rest qs (n - ?avail) = Some (take (n - ?avail) (concat (map page_bytes qs)))"
      by (intro copy_rest_take)
    have "copy from n c = Some (take ?avail (drop ?d (mData p)) @ take (n - ?avail) (concat (map page_bytes qs)))"
      using False total s(1) more rest by (simp add: copy_def Let_def)
    then show ?thesis using head [of ?avail] len more by (simp add: s(6))
  qed
qed

interpretation pages: byte_window cache_bytes cache_ok totalSize append_bytes releaseFromStart copy
proof
  fix c c' :: page_cache and bs :: "byte list" and m k pos n :: nat
  assume ok: "cache_ok c"
  show "totalSize c = length (cache_bytes c)" using ok by (simp add: totalSize_def cache_ok_def)
  show "cache_bytes (append_bytes bs c) = cache_bytes c @ bs"
    by (simp add: append_bytes_def appendPage_bytes page_bytes_def overwrite_def)
  show "releaseFromStart m c = (c', k) \<Longrightarrow>
      cache_ok c' \<and> k \<le> m \<and> k \<le> length (cache_bytes c) \<and> cache_bytes c' = drop k (cache_bytes c)"
    using release_ok(1) [OF ok] by simp
  show "releaseFromStart (length (cache_bytes c)) c = (c', k) \<Longrightarrow> cache_bytes c' = []"
    using release_ok(2) [OF ok] by simp
  show "pos + n \<le> length (cache_bytes c) \<Longrightarrow> copy pos n c = Some (take n (drop pos (cache_bytes c)))"
    by (rule copy_bytes [OF ok])
qed

section \<open>Properties\<close>

text \<open>
  \<open>PageCache::copy\<close> reads across page boundaries exactly the bytes of the cache and aborts
  exactly when the range is not in it; appending a page extends the bytes by the page's, and
  \<open>releaseFromStart\<close> drops whole pages from the front, never more than asked for, and keeps
  the total size equal to the number of bytes held.
\<close>

theorem page_cache_fifo:
  assumes "cache_ok c"
  shows "copy from n c = (if n = 0 \<or> from + n \<le> totalSize c then Some (take n (drop from (cache_bytes c))) else None)
    \<and> (page_ok (mPageSize c) p \<and> 0 < mSize p \<longrightarrow>
         cache_ok (appendPage p c) \<and> cache_bytes (appendPage p c) = cache_bytes c @ page_bytes p)
    \<and> (\<forall>c' k. releaseFromStart m c = (c', k) \<longrightarrow> cache_ok c' \<and> k \<le> m \<and>
         cache_bytes c' = drop k (cache_bytes c) \<and> totalSize c' = totalSize c - k)"
proof (intro conjI impI allI)
  show "copy from n c = (if n = 0 \<or> from + n \<le> totalSize c then Some (take n (drop from (cache_bytes c))) else None)"
    using copy_bytes [OF assms, of "from" n] pages.size [OF assms]
    by (cases "from + n \<le> totalSize c") (auto simp: copy_def totalSize_def CHECK_def)
qed (use assms release_ok appendPage_ok appendPage_bytes pages.size in \<open>auto 0 3\<close>)

theorem page_cache_fifo_witness:
  "copy 1 3 (appendPage \<lparr>mData = [3, 4], mSize = 2\<rparr> (appendPage \<lparr>mData = [1, 2], mSize = 2\<rparr> (PageCache 2))) = Some [2, 3, 4]"
proof -
  let ?c1 = "appendPage \<lparr>mData = [1, 2], mSize = 2\<rparr> (PageCache 2)"
  have p: "page_ok 2 \<lparr>mData = [x, y], mSize = 2\<rparr>" for x y by (simp add: page_ok_def)
  have "cache_ok ?c1" "mPageSize ?c1 = 2"
    using page_cache_fifo [OF cache_ok_PageCache, of 0 0 2 "\<lparr>mData = [1, 2], mSize = 2\<rparr>" 0] p
    by (simp_all add: PageCache_def appendPage_def)
  then have "cache_ok (appendPage \<lparr>mData = [3, 4], mSize = 2\<rparr> ?c1)"
    using page_cache_fifo [of ?c1 0 0 "\<lparr>mData = [3, 4], mSize = 2\<rparr>" 0] p by simp
  from page_cache_fifo [OF this, of 1 3] show ?thesis
    by (simp add: totalSize_def appendPage_def PageCache_def cache_bytes_def page_bytes_def numeral_3_eq_3)
qed

end
