(* ===== verification/CachedSource.thy ===== *)
theory CachedSource
  imports CachePages
begin

text \<open>
  NuCachedSource2 of media/libstagefright/NuCachedSource2.cpp: the source that fetches a network
  stream ahead of its reader into the page cache. The looper thread fetches and serves deferred
  reads, a client thread reads, both under \<open>mLock\<close>; a fetch gives the lock up around the calls
  on the network source, so that it is split into the steps between which other threads run.

  The replies of the network source and the clock are arguments of the steps. A failed CHECK or
  a read outside the cache is \<open>None\<close>. Offsets are unbounded integers; where the code compares
  or subtracts in \<open>size_t\<close> the model does so modulo \<open>2 ^ 64\<close>.
\<close>

definition kPageSize :: nat where "kPageSize = 65536"
definition kDefaultHighWaterThreshold :: nat where "kDefaultHighWaterThreshold = 20 * 1024 * 1024"
definition kDefaultLowWaterThreshold :: nat where "kDefaultLowWaterThreshold = 4 * 1024 * 1024"
definition kDefaultKeepAliveIntervalUs :: int where "kDefaultKeepAliveIntervalUs = 15000000"
definition kMaxNumRetries :: int where "kMaxNumRetries = 10"
definition kGrayArea :: nat where "kGrayArea = 1024 * 1024"
definition kPadding :: int where "kPadding = 256 * 1024"
definition EPIPE :: int where "EPIPE = 32"
definition EAGAIN :: int where "EAGAIN = 11"

text \<open>Where the looper thread is in \<open>fetchInternal\<close>.\<close>

datatype phase = Resting | Reconnecting int | Reading int page

record nu =
  mCache :: page_cache
  mCacheOffset :: int
  mFinalStatus :: int
  mLastAccessPos :: int
  mFetching :: bool
  mDisconnecting :: bool
  mLastFetchTimeUs :: int
  mNumRetriesLeft :: int
  mHighwaterThresholdBytes :: nat
  mLowwaterThresholdBytes :: nat
  mKeepAliveIntervalUs :: int
  mDisconnectAtHighwatermark :: bool
  mAsyncResult :: "(int \<times> byte list) option"
  looper :: phase
  readMsg :: "(int \<times> nat) option"
  reader :: "(int \<times> nat) option"

text \<open>
  \<open>mAsyncResult\<close> carries the result and the bytes that were stored in the reader's buffer;
  \<open>readMsg\<close> is the message in the looper's queue, \<open>reader\<close> the read that waits for its answer.
\<close>

section \<open>Configuration\<close>

text \<open>\<open>sscanf\<close> with the format "%zd/%zd/%d" is an argument: the three numbers, if all were read.\<close>

definition updateCacheParamsFromString :: "(string \<Rightarrow> (int \<times> int \<times> int) option) \<Rightarrow> string \<Rightarrow> nu \<Rightarrow> nu" where
  "updateCacheParamsFromString sscanf s c =
     (case sscanf s of None \<Rightarrow> c
      | Some (lowKb, highKb, keepAliveSecs) \<Rightarrow>
        let low = (if 0 \<le> lowKb then size_t (lowKb * 1024) else kDefaultLowWaterThreshold);
            high = (if 0 \<le> highKb then size_t (highKb * 1024) else kDefaultHighWaterThreshold);
            (low, high) = (if high \<le> low then (kDefaultLowWaterThreshold, kDefaultHighWaterThreshold) else (low, high));
            keep = (if 0 \<le> keepAliveSecs then keepAliveSecs * 1000000 else kDefaultKeepAliveIntervalUs)
        in c\<lparr>mLowwaterThresholdBytes := low, mHighwaterThresholdBytes := high, mKeepAliveIntervalUs := keep\<rparr>)"

text \<open>The constructor: defaults, then the system property, then the caller's string.\<close>

definition NuCachedSource2 :: "(string \<Rightarrow> (int \<times> int \<times> int) option) \<Rightarrow> string option \<Rightarrow> string option \<Rightarrow> bool \<Rightarrow> nu" where
  "NuCachedSource2 sscanf prop cacheConfig disconnectAtHighwatermark =
     (let c = \<lparr>mCache = PageCache kPageSize, mCacheOffset = 0, mFinalStatus = OK, mLastAccessPos = 0,
            mFetching = True, mDisconnecting = False, mLastFetchTimeUs = -1, mNumRetriesLeft = kMaxNumRetries,
            mHighwaterThresholdBytes = kDefaultHighWaterThreshold, mLowwaterThresholdBytes = kDefaultLowWaterThreshold,
            mKeepAliveIntervalUs = kDefaultKeepAliveIntervalUs, mDisconnectAtHighwatermark = disconnectAtHighwatermark,
            mAsyncResult = None, looper = Resting, readMsg = None, reader = None\<rparr>;
          c = (case prop of Some v \<Rightarrow> updateCacheParamsFromString sscanf v c | None \<Rightarrow> c);
          c = (case cacheConfig of Some v \<Rightarrow> updateCacheParamsFromString sscanf v c | None \<Rightarrow> c)
      in if disconnectAtHighwatermark then c\<lparr>mKeepAliveIntervalUs := 0\<rparr> else c)"

text \<open>The headers are a map with unique keys, in the order of the vector.\<close>

definition RemoveCacheSpecificHeaders :: "(string \<times> string) list option
    \<Rightarrow> (string \<times> string) list option \<times> string \<times> bool" where
  "RemoveCacheSpecificHeaders headers =
     (case headers of None \<Rightarrow> (None, '''', False)
      | Some hs \<Rightarrow>
        let cacheConfig = (case map_of hs ''x-cache-config'' of Some v \<Rightarrow> v | None \<Rightarrow> '''');
            hs = filter (\<lambda>(k, _). k \<noteq> ''x-cache-config'') hs;
            disconnect = map_of hs ''x-disconnect-at-highwatermark'' \<noteq> None;
            hs = filter (\<lambda>(k, _). k \<noteq> ''x-disconnect-at-highwatermark'') hs
        in (Some hs, cacheConfig, disconnect))"

definition kWantsPrefetching :: u32 where "kWantsPrefetching = 1"
definition kIsCachingDataSource :: u32 where "kIsCachingDataSource = 4"
definition kIsHTTPBasedSource :: u32 where "kIsHTTPBasedSource = 8"

definition nu_flags :: "u32 \<Rightarrow> u32" where
  "nu_flags source_flags =
     (source_flags AND NOT (kWantsPrefetching OR kIsHTTPBasedSource)) OR kIsCachingDataSource"

section \<open>Seeking and restarting the prefetcher\<close>

definition cacheEnd :: "nu \<Rightarrow> int" where
  "cacheEnd c = mCacheOffset c + int (totalSize (mCache c))"

definition restartPrefetcherIfNecessary_l :: "bool \<Rightarrow> bool \<Rightarrow> nu \<Rightarrow> nu" where
  "restartPrefetcherIfNecessary_l ignoreLowWaterThreshold force c =
     (if mFetching c \<or> (mFinalStatus c \<noteq> OK \<and> mNumRetriesLeft c = 0) then c
      else if \<not> ignoreLowWaterThreshold \<and> \<not> force
          \<and> mLowwaterThresholdBytes c \<le> size_t (cacheEnd c - mLastAccessPos c) then c
      else
        let maxBytes = size_t (mLastAccessPos c - mCacheOffset c) in
        if \<not> force \<and> maxBytes < kGrayArea then c
        else let maxBytes = (if \<not> force then maxBytes - kGrayArea else maxBytes);
                 (pc, actualBytes) = releaseFromStart maxBytes (mCache c)
             in c\<lparr>mCache := pc, mCacheOffset := mCacheOffset c + int actualBytes, mFetching := True\<rparr>)"

definition resumeFetchingIfNecessary :: "nu \<Rightarrow> nu" where
  "resumeFetchingIfNecessary c = restartPrefetcherIfNecessary_l True False c"

definition seekInternal_l :: "int \<Rightarrow> nu \<Rightarrow> nu option" where
  "seekInternal_l offset c =
     (let c = c\<lparr>mLastAccessPos := offset\<rparr> in
      if mCacheOffset c \<le> offset \<and> offset \<le> cacheEnd c then Some c
      else
        let c = c\<lparr>mCacheOffset := offset\<rparr>;
            total = totalSize (mCache c);
            (pc, released) = releaseFromStart total (mCache c)
        in do {
          CHECK (released = total);
          Some (c\<lparr>mCache := pc, mNumRetriesLeft := kMaxNumRetries, mFetching := True\<rparr>)
        })"

section \<open>Fetching\<close>

text \<open>
  \<open>fetchInternal\<close> up to the first call on the source, after the call to \<open>reconnectAtOffset\<close>,
  and after the call to \<open>readAt\<close>; \<open>None\<close> for the offset means that the fetch is over.
\<close>

definition fetch_begin :: "byte list \<Rightarrow> nu \<Rightarrow> nu option" where
  "fetch_begin garbage c = do {
     CHECK (mFinalStatus c = OK \<or> 0 < mNumRetriesLeft c);
     Some (if mFinalStatus c \<noteq> OK
           then c\<lparr>mNumRetriesLeft := mNumRetriesLeft c - 1, looper := Reconnecting (cacheEnd c)\<rparr>
           else case acquirePage garbage (mCache c) of
             (pc, p) \<Rightarrow> c\<lparr>mCache := pc, looper := Reading (cacheEnd c) p\<rparr>)
   }"

definition fetch_reconnected :: "int \<Rightarrow> byte list \<Rightarrow> nu \<Rightarrow> nu \<times> bool" where
  "fetch_reconnected err garbage c =
     (if mDisconnecting c then (c\<lparr>mNumRetriesLeft := 0, mFinalStatus := ERROR_END_OF_STREAM, looper := Resting\<rparr>, True)
      else if err = ERROR_UNSUPPORTED \<or> err = - EPIPE then (c\<lparr>mNumRetriesLeft := 0, looper := Resting\<rparr>, True)
      else if err \<noteq> OK then (c\<lparr>looper := Resting\<rparr>, True)
      else case acquirePage garbage (mCache c) of
        (pc, p) \<Rightarrow> (c\<lparr>mCache := pc, looper := Reading (cacheEnd c) p\<rparr>, False))"

definition fetch_read :: "int \<Rightarrow> byte list \<Rightarrow> page \<Rightarrow> nu \<Rightarrow> nu" where
  "fetch_read n bs p c =
     (let p = p\<lparr>mData := overwrite bs (mData p)\<rparr>; c = c\<lparr>looper := Resting\<rparr> in
      if n = 0 \<or> mDisconnecting c
      then c\<lparr>mNumRetriesLeft := 0, mFinalStatus := ERROR_END_OF_STREAM, mCache := releasePage p (mCache c)\<rparr>
      else if n < 0
      then c\<lparr>mFinalStatus := n,
             mNumRetriesLeft := (if n = ERROR_UNSUPPORTED \<or> n = - EPIPE then 0 else mNumRetriesLeft c),
             mCache := releasePage p (mCache c)\<rparr>
      else c\<lparr>mNumRetriesLeft := kMaxNumRetries, mFinalStatus := OK,
             mCache := appendPage (p\<lparr>mSize := nat n\<rparr>) (mCache c)\<rparr>)"

text \<open>The rest of \<open>onFetch\<close> after \<open>fetchInternal\<close>, and the delay of the next message.\<close>

definition fetch_tail :: "int \<Rightarrow> bool \<Rightarrow> nu \<Rightarrow> nu" where
  "fetch_tail now http c =
     (let c = c\<lparr>mLastFetchTimeUs := now\<rparr> in
      if mFetching c \<and> mHighwaterThresholdBytes c \<le> totalSize (mCache c)
      then let c = c\<lparr>mFetching := False\<rparr>
           in if mDisconnectAtHighwatermark c \<and> http then c\<lparr>mFinalStatus := - EAGAIN\<rparr> else c
      else c)"

definition fetch_delay :: "nu \<Rightarrow> int" where
  "fetch_delay c =
     (if mFetching c
      then if mFinalStatus c \<noteq> OK \<and> 0 < mNumRetriesLeft c then 3000000 else 0
      else 100000)"

definition onFetch_begin :: "int \<Rightarrow> byte list \<Rightarrow> nu \<Rightarrow> nu option" where
  "onFetch_begin now garbage c =
     (let c = (if mFinalStatus c \<noteq> OK \<and> mNumRetriesLeft c = 0 then c\<lparr>mFetching := False\<rparr> else c);
          keepAlive = (\<not> mFetching c \<and> mFinalStatus c = OK \<and> 0 < mKeepAliveIntervalUs c
                       \<and> mLastFetchTimeUs c + mKeepAliveIntervalUs c \<le> now)
      in if mFetching c \<or> keepAlive then fetch_begin garbage c
         else Some (restartPrefetcherIfNecessary_l False False c))"

section \<open>Reading\<close>

definition readInternal :: "int \<Rightarrow> nat \<Rightarrow> nu \<Rightarrow> (nu \<times> int \<times> byte list) option" where
  "readInternal offset sz c = do {
     CHECK (sz \<le> mHighwaterThresholdBytes c);
     if mDisconnecting c then Some (c, ERROR_END_OF_STREAM, [])
     else
       let c = (if \<not> mFetching c then restartPrefetcherIfNecessary_l False True (c\<lparr>mLastAccessPos := offset\<rparr>) else c)
       in do {
         c \<leftarrow> (if offset < mCacheOffset c \<or> cacheEnd c \<le> offset
              then seekInternal_l (if kPadding < offset then offset - kPadding else 0) c
              else Some c);
         let delta = size_t (offset - mCacheOffset c) in
         if mFinalStatus c \<noteq> OK \<and> mNumRetriesLeft c = 0
         then if totalSize (mCache c) \<le> delta then Some (c, mFinalStatus c, [])
              else let avail = totalSize (mCache c) - delta;
                       avail = (if sz < avail then sz else avail)
                   in do { bs \<leftarrow> copy delta avail (mCache c); Some (c, int avail, bs) }
         else if size_t (offset + int sz) \<le> size_t (cacheEnd c)
         then do { bs \<leftarrow> copy delta sz (mCache c); Some (c, int sz, bs) }
         else Some (c, - EAGAIN, [])
       }
   }"

text \<open>\<open>onRead\<close> on the message in the queue: it stays there while the read is deferred.\<close>

definition onRead :: "nu \<Rightarrow> nu option" where
  "onRead c =
     (case readMsg c of None \<Rightarrow> Some c
      | Some (offset, sz) \<Rightarrow> do {
          (c, result, bs) \<leftarrow> readInternal offset sz c;
          if result = - EAGAIN then Some c
          else let c = c\<lparr>readMsg := None\<rparr> in
            if mDisconnecting c then Some c
            else do { CHECK (mAsyncResult c = None); Some (c\<lparr>mAsyncResult := Some (result, bs)\<rparr>) }
        })"

text \<open>
  \<open>readAt\<close> up to its return (with the result and the bytes stored) or to its wait, and from the
  wait to its return.
\<close>

definition readAt_begin :: "int \<Rightarrow> nat \<Rightarrow> nu \<Rightarrow> (nu \<times> (int \<times> byte list) option) option" where
  "readAt_begin offset sz c =
     (if mDisconnecting c then Some (c, Some (ERROR_END_OF_STREAM, []))
      else if mCacheOffset c \<le> offset \<and> size_t (offset + int sz) \<le> size_t (cacheEnd c)
      then do { bs \<leftarrow> copy (size_t (offset - mCacheOffset c)) sz (mCache c);
                Some (c\<lparr>mLastAccessPos := offset + int sz\<rparr>, Some (int sz, bs)) }
      else do { CHECK (mAsyncResult c = None);
                Some (c\<lparr>readMsg := Some (offset, sz), reader := Some (offset, sz)\<rparr>, None) })"

definition readAt_end :: "nu \<Rightarrow> (nu \<times> int \<times> byte list) option" where
  "readAt_end c =
     (case reader c of None \<Rightarrow> None
      | Some (offset, sz) \<Rightarrow>
        let c' = c\<lparr>mAsyncResult := None, reader := None\<rparr> in
        if mDisconnecting c then Some (c', ERROR_END_OF_STREAM, [])
        else (case mAsyncResult c of None \<Rightarrow> None
          | Some (result, bs) \<Rightarrow>
            Some (if 0 < result then c'\<lparr>mLastAccessPos := offset + result\<rparr> else c', result, bs)))"

definition nu_disconnect :: "bool \<Rightarrow> nu \<Rightarrow> nu" where
  "nu_disconnect http c = (if http then c\<lparr>mDisconnecting := True\<rparr> else c)"

definition cachedSize :: "nu \<Rightarrow> nat" where
  "cachedSize c = size_t (cacheEnd c)"

definition approxDataRemaining_l :: "nu \<Rightarrow> nat \<times> int" where
  "approxDataRemaining_l c =
     ((if mLastAccessPos c < cacheEnd c then size_t (cacheEnd c - mLastAccessPos c) else 0),
      (if mFinalStatus c \<noteq> OK \<and> 0 < mNumRetriesLeft c then OK else mFinalStatus c))"

definition approxDataRemaining :: "nu \<Rightarrow> nat \<times> int" where
  "approxDataRemaining c = approxDataRemaining_l c"

section \<open>Runs\<close>

text \<open>
  The steps of the looper and client threads. A read that returns is an answer: its offset and
  size, the result and the bytes stored.
\<close>

datatype nu_op =
    OnFetch int "byte list" | Reconnected int "byte list" int | Fetched int "byte list" int
  | OnRead | ReadBegin int nat | ReadEnd | Resume | Disconnect

type_synonym answer = "(int \<times> nat) \<times> int \<times> byte list"

fun nu_exec :: "bool \<Rightarrow> nu_op \<Rightarrow> nu \<Rightarrow> (nu \<times> answer option) option" where
  "nu_exec http (OnFetch now g) c = map_option (\<lambda>c. (c, None)) (onFetch_begin now g c)"
| "nu_exec http (Reconnected err g now) c =
     (case fetch_reconnected err g c of (c, over) \<Rightarrow> Some (if over then fetch_tail now http c else c, None))"
| "nu_exec http (Fetched n bs now) c =
     (case looper c of Reading _ p \<Rightarrow> Some (fetch_tail now http (fetch_read n bs p c), None) | _ \<Rightarrow> None)"
| "nu_exec http OnRead c = map_option (\<lambda>c. (c, None)) (onRead c)"
| "nu_exec http (ReadBegin off sz) c =
     map_option (\<lambda>(c, a). (c, map_option (\<lambda>a. ((off, sz), a)) a)) (readAt_begin off sz c)"
| "nu_exec http ReadEnd c = map_option (\<lambda>(c', a). (c', map_option (\<lambda>q. (q, a)) (reader c))) (readAt_end c)"
| "nu_exec http Resume c = Some (resumeFetchingIfNecessary c, None)"
| "nu_exec http Disconnect c = Some (nu_disconnect http c, None)"

text \<open>
  When a step can happen: the looper does one thing at a time, \<open>mSerializer\<close> admits one read,
  a read asks for no more than the high water mark, and the network source answers with bytes
  of the stream or with an error.
\<close>

definition reply_ok :: "byte list \<Rightarrow> int \<Rightarrow> int \<Rightarrow> byte list \<Rightarrow> bool" where
  "reply_ok content off n bs \<longleftrightarrow> length bs \<le> kPageSize \<and>
     (0 \<le> n \<longrightarrow> int (length bs) = n \<and> slice off (length bs) content = bs)"

fun enabled :: "byte list \<Rightarrow> nu_op \<Rightarrow> nu \<Rightarrow> bool" where
  "enabled content (OnFetch now g) c \<longleftrightarrow> looper c = Resting \<and> length g = kPageSize"
| "enabled content (Reconnected err g now) c \<longleftrightarrow>
     (case looper c of Reconnecting _ \<Rightarrow> length g = kPageSize | _ \<Rightarrow> False)"
| "enabled content (Fetched n bs now) c \<longleftrightarrow>
     (case looper c of Reading off p \<Rightarrow> reply_ok content off n bs | _ \<Rightarrow> False)"
| "enabled content OnRead c \<longleftrightarrow> looper c = Resting"
| "enabled content (ReadBegin off sz) c \<longleftrightarrow> reader c = None \<and> 0 \<le> off \<and> off + int sz < 2 ^ 63
     \<and> sz \<le> mHighwaterThresholdBytes c"
| "enabled content ReadEnd c \<longleftrightarrow> reader c \<noteq> None \<and> (mAsyncResult c \<noteq> None \<or> mDisconnecting c)"
| "enabled content Resume c \<longleftrightarrow> True"
| "enabled content Disconnect c \<longleftrightarrow> True"

inductive nu_reachable :: "bool \<Rightarrow> byte list \<Rightarrow> nu \<Rightarrow> nu \<Rightarrow> bool" for http content c0 where
  nu_start: "nu_reachable http content c0 c0"
| nu_next: "nu_reachable http content c0 c \<Longrightarrow> enabled content x c \<Longrightarrow> nu_exec http x c = Some (c', a)
     \<Longrightarrow> nu_reachable http content c0 c'"

section \<open>The invariant\<close>

definition result_ok :: "byte list \<Rightarrow> int \<times> nat \<Rightarrow> int \<times> byte list \<Rightarrow> bool" where
  "result_ok content q a \<longleftrightarrow>
     (if 0 \<le> fst a then fst a \<le> int (snd q) \<and> int (length (snd a)) = fst a
        \<and> slice (fst q) (nat (fst a)) content = snd a
      else snd a = [])"

definition window_inv :: "byte list \<Rightarrow> nu \<Rightarrow> bool" where
  "window_inv content c \<longleftrightarrow> cache_ok (mCache c) \<and> mPageSize (mCache c) = kPageSize
     \<and> holds content (mCacheOffset c) (cache_bytes (mCache c)) \<and> mCacheOffset c < 2 ^ 63
     \<and> length content < 2 ^ 63"

definition looper_inv :: "nu \<Rightarrow> bool" where
  "looper_inv c \<longleftrightarrow> 0 \<le> mNumRetriesLeft c \<and> mFinalStatus c \<le> 0 \<and>
     (case looper c of Reading off p \<Rightarrow> off = cacheEnd c \<and> page_ok kPageSize p | _ \<Rightarrow> True)"

definition reads_ok :: "byte list \<Rightarrow> nat \<Rightarrow> bool \<Rightarrow> (int \<times> nat) option \<Rightarrow> (int \<times> nat) option
    \<Rightarrow> (int \<times> byte list) option \<Rightarrow> bool" where
  "reads_ok content high disconnecting msg waiting res \<longleftrightarrow>
     (\<forall>off sz. msg = Some (off, sz) \<longrightarrow> 0 \<le> off \<and> off + int sz < 2 ^ 63 \<and> sz \<le> high
        \<and> res = None \<and> (disconnecting \<or> waiting = Some (off, sz)))
     \<and> (\<forall>a. res = Some a \<longrightarrow> (\<exists>q. waiting = Some q \<and> result_ok content q a))"

definition reader_inv :: "byte list \<Rightarrow> nu \<Rightarrow> bool" where
  "reader_inv content c \<longleftrightarrow> reads_ok content (mHighwaterThresholdBytes c) (mDisconnecting c)
     (readMsg c) (reader c) (mAsyncResult c)"

definition nu_inv :: "byte list \<Rightarrow> nu \<Rightarrow> bool" where
  "nu_inv content c \<longleftrightarrow> window_inv content c \<and> looper_inv c \<and> reader_inv content c"

lemma window_bounds:
  assumes "window_inv content c"
  shows "0 \<le> mCacheOffset c" "cacheEnd c < 2 ^ 63" "mCacheOffset c \<le> cacheEnd c"
proof -
  let ?n = "length (cache_bytes (mCache c))"
  have w: "0 \<le> mCacheOffset c" "slice (mCacheOffset c) ?n content = cache_bytes (mCache c)" "mCacheOffset c < 2 ^ 63"
      "totalSize (mCache c) = ?n" "length content < 2 ^ 63"
    using assms pages.size by (auto simp: window_inv_def holds_def)
  have "?n \<le> length content - nat (mCacheOffset c)"
    using arg_cong [OF w(2), of length] by (simp add: length_slice)
  then have "?n = 0 \<or> mCacheOffset c + int ?n \<le> int (length content)" using w(1) by linarith
  then show "cacheEnd c < 2 ^ 63" "0 \<le> mCacheOffset c" "mCacheOffset c \<le> cacheEnd c"
    using w by (auto simp: cacheEnd_def)
qed

text \<open>Operations that change only the cache, its offset and the fetch state.\<close>

definition same_reads :: "nu \<Rightarrow> nu \<Rightarrow> bool" where
  "same_reads c c' \<longleftrightarrow> readMsg c' = readMsg c \<and> reader c' = reader c \<and> mAsyncResult c' = mAsyncResult c
     \<and> mDisconnecting c' = mDisconnecting c \<and> mHighwaterThresholdBytes c' = mHighwaterThresholdBytes c
     \<and> mFinalStatus c' = mFinalStatus c"

lemma same_reads_refl [simp]: "same_reads c c"
  by (simp add: same_reads_def)

lemma same_reads_trans: "same_reads a b \<Longrightarrow> same_reads b c \<Longrightarrow> same_reads a c"
  by (simp add: same_reads_def)

lemma same_reads_reader: "same_reads c c' \<Longrightarrow> reader_inv content c \<Longrightarrow> reader_inv content c'"
  by (simp add: same_reads_def reader_inv_def)

lemma restart_window:
  assumes "window_inv content c"
  shows "window_inv content (restartPrefetcherIfNecessary_l a b c)"
    "cacheEnd (restartPrefetcherIfNecessary_l a b c) = cacheEnd c"
    "same_reads c (restartPrefetcherIfNecessary_l a b c)"
    "looper (restartPrefetcherIfNecessary_l a b c) = looper c"
    "mNumRetriesLeft (restartPrefetcherIfNecessary_l a b c) = mNumRetriesLeft c"
    "mFinalStatus (restartPrefetcherIfNecessary_l a b c) = mFinalStatus c"
proof -
  define m where "m = (let k = size_t (mLastAccessPos c - mCacheOffset c) in if \<not> b then k - kGrayArea else k)"
  obtain pc k where r: "releaseFromStart m (mCache c) = (pc, k)" by fastforce
  let ?c = "c\<lparr>mCache := pc, mCacheOffset := mCacheOffset c + int k, mFetching := True\<rparr>"
  have ok: "cache_ok (mCache c)" "holds content (mCacheOffset c) (cache_bytes (mCache c))"
    using assms by (auto simp: window_inv_def)
  note h = pages.holds_release [OF ok r] and p = release_ok [OF ok(1) r]
  have cases: "restartPrefetcherIfNecessary_l a b c = c \<or> restartPrefetcherIfNecessary_l a b c = ?c"
    using r by (auto simp: restartPrefetcherIfNecessary_l_def m_def Let_def)
  have e: "cacheEnd ?c = cacheEnd c" using h(2,3) by (simp add: cacheEnd_def)
  have "mCacheOffset c + int k < 2 ^ 63"
    using window_bounds [OF assms] h(3) by (simp add: cacheEnd_def)
  then have w: "window_inv content ?c"
    using assms h(1) p(1,3) by (simp add: window_inv_def)
  show "window_inv content (restartPrefetcherIfNecessary_l a b c)"
    "cacheEnd (restartPrefetcherIfNecessary_l a b c) = cacheEnd c"
    "same_reads c (restartPrefetcherIfNecessary_l a b c)"
    "looper (restartPrefetcherIfNecessary_l a b c) = looper c"
    "mNumRetriesLeft (restartPrefetcherIfNecessary_l a b c) = mNumRetriesLeft c"
    "mFinalStatus (restartPrefetcherIfNecessary_l a b c) = mFinalStatus c"
    using cases w e assms by (auto simp: same_reads_def)
qed

lemma seek_window:
  assumes "window_inv content c" "0 \<le> off" "off < 2 ^ 63"
  shows "\<exists>c'. seekInternal_l off c = Some c' \<and> window_inv content c' \<and> same_reads c c'
    \<and> looper c' = looper c \<and> mCacheOffset c' \<le> off
    \<and> (0 \<le> mNumRetriesLeft c \<longrightarrow> 0 \<le> mNumRetriesLeft c')"
proof (cases "mCacheOffset c \<le> off \<and> off \<le> cacheEnd c")
  case True
  then show ?thesis using assms(1)
    by (auto simp: seekInternal_l_def Let_def cacheEnd_def window_inv_def same_reads_def)
next
  case False
  have ok: "cache_ok (mCache c)" using assms(1) by (simp add: window_inv_def)
  obtain pc k where r: "releaseFromStart (totalSize (mCache c)) (mCache c) = (pc, k)" by fastforce
  have all: "cache_bytes pc = []"
    using pages.release_all [OF ok] r pages.size [OF ok] by simp
  then have k: "k = totalSize (mCache c)"
    using release_ok(1) [OF ok r] pages.size [OF ok] by simp
  let ?c = "c\<lparr>mLastAccessPos := off, mCacheOffset := off, mCache := pc, mNumRetriesLeft := kMaxNumRetries, mFetching := True\<rparr>"
  have "seekInternal_l off c = Some ?c"
    using False r k by (auto simp: seekInternal_l_def Let_def cacheEnd_def)
  moreover have "window_inv content ?c"
    using assms all release_ok(1,3) [OF ok r] by (simp add: window_inv_def holds_def slice_def)
  ultimately show ?thesis by (simp add: same_reads_def kMaxNumRetries_def)
qed

text \<open>A range inside the window is read exactly.\<close>

lemma window_copy:
  assumes "window_inv content c" "mCacheOffset c \<le> off" "off + int n \<le> cacheEnd c"
  shows "copy (size_t (off - mCacheOffset c)) n (mCache c) = Some (slice off n content)"
    "length (slice off n content) = n"
proof -
  have "(2 :: int) ^ 63 < 2 ^ 64" by simp
  then have "off - mCacheOffset c < 2 ^ 64" using window_bounds [OF assms(1)] assms(3) by linarith
  then have "size_t (off - mCacheOffset c) = nat (off - mCacheOffset c)" using assms(2) by simp
  then show "copy (size_t (off - mCacheOffset c)) n (mCache c) = Some (slice off n content)"
    "length (slice off n content) = n"
    using pages.holds_read [of "mCache c" content "mCacheOffset c" off n] assms
    by (auto simp: window_inv_def cacheEnd_def)
qed

lemma readInternal_window:
  assumes "window_inv content c" "0 \<le> mNumRetriesLeft c" "0 \<le> off" "off + int sz < 2 ^ 63"
    "sz \<le> mHighwaterThresholdBytes c" "mFinalStatus c \<le> 0"
  shows "\<exists>c' r bs. readInternal off sz c = Some (c', r, bs) \<and> window_inv content c' \<and> same_reads c c'
    \<and> looper c' = looper c \<and> 0 \<le> mNumRetriesLeft c' \<and> result_ok content (off, sz) (r, bs)"
proof (cases "mDisconnecting c")
  case True
  then show ?thesis using assms
    by (auto simp: readInternal_def result_ok_def ERROR_END_OF_STREAM_def)
next
  case False
  define c1 where "c1 = (if \<not> mFetching c then restartPrefetcherIfNecessary_l False True (c\<lparr>mLastAccessPos := off\<rparr>) else c)"
  have "window_inv content (c\<lparr>mLastAccessPos := off\<rparr>)" using assms(1) by (simp add: window_inv_def)
  note rs = restart_window [OF this, of False True]
  have c1: "window_inv content c1" "same_reads c c1" "looper c1 = looper c" "0 \<le> mNumRetriesLeft c1"
    using rs assms(1,2) by (auto simp: c1_def same_reads_def)
  let ?s = "if kPadding < off then off - kPadding else 0"
  have sk: "0 \<le> ?s" "?s < 2 ^ 63" "?s \<le> off" using assms(3,4) by (auto simp: kPadding_def)
  obtain c2 where c2: "(if off < mCacheOffset c1 \<or> cacheEnd c1 \<le> off then seekInternal_l ?s c1 else Some c1) = Some c2"
      "window_inv content c2" "same_reads c1 c2" "looper c2 = looper c1" "mCacheOffset c2 \<le> off" "0 \<le> mNumRetriesLeft c2"
  proof (cases "off < mCacheOffset c1 \<or> cacheEnd c1 \<le> off")
    case True
    with seek_window [OF c1(1) sk(1,2)] sk(3) c1(4) that show ?thesis by fastforce
  next
    case False
    with c1 that [of c1] show ?thesis by auto
  qed
  let ?total = "totalSize (mCache c2)" and ?d = "size_t (off - mCacheOffset c2)"
  have b: "0 \<le> mCacheOffset c2" "cacheEnd c2 < 2 ^ 63" using window_bounds [OF c2(2)] by auto
  then have d: "?d = nat (off - mCacheOffset c2)" using c2(5) assms(4) by (intro size_t_id) auto
  have eq: "readInternal off sz c =
    (if mFinalStatus c2 \<noteq> OK \<and> mNumRetriesLeft c2 = 0
     then if ?total \<le> ?d then Some (c2, mFinalStatus c2, [])
          else do { bs \<leftarrow> copy ?d (min sz (?total - ?d)) (mCache c2); Some (c2, int (min sz (?total - ?d)), bs) }
     else if size_t (off + int sz) \<le> size_t (cacheEnd c2)
     then do { bs \<leftarrow> copy ?d sz (mCache c2); Some (c2, int sz, bs) }
     else Some (c2, - EAGAIN, []))"
    using False assms(5) c2(1)
    by (simp add: readInternal_def c1_def [symmetric] Let_def min_def)
  have same: "same_reads c c2" by (rule same_reads_trans [OF c1(2) c2(3)])
  then have fin: "mFinalStatus c2 \<le> 0" using assms(6) by (simp add: same_reads_def)
  have "\<exists>r bs. readInternal off sz c = Some (c2, r, bs) \<and> result_ok content (off, sz) (r, bs)"
  proof (cases "mFinalStatus c2 \<noteq> OK \<and> mNumRetriesLeft c2 = 0")
    case eos: True
    show ?thesis
    proof (cases "?total \<le> ?d")
      case True
      then show ?thesis using eos eq fin by (auto simp: result_ok_def OK_def)
    next
      case False
      let ?n = "min sz (?total - ?d)"
      have "off + int ?n \<le> cacheEnd c2" using False d c2(5) by (simp add: cacheEnd_def)
      note cp = window_copy [OF c2(2) c2(5) this]
      show ?thesis using eos False eq cp by (auto simp: result_ok_def)
    qed
  next
    case more: False
    show ?thesis
    proof (cases "size_t (off + int sz) \<le> size_t (cacheEnd c2)")
      case True
      have "(2 :: int) ^ 63 < 2 ^ 64" by simp
      then have "size_t (off + int sz) = nat (off + int sz)" "size_t (cacheEnd c2) = nat (cacheEnd c2)"
        using assms(3,4) b window_bounds(3) [OF c2(2)] by (intro size_t_id; linarith)+
      moreover have "0 \<le> cacheEnd c2" using b window_bounds(3) [OF c2(2)] by linarith
      ultimately have "off + int sz \<le> cacheEnd c2" using True by (simp only: nat_le_eq_zle)
      note cp = window_copy [OF c2(2) c2(5) this]
      show ?thesis using more True eq cp by (auto simp: result_ok_def)
    next
      case False
      then show ?thesis using more eq by (auto simp: result_ok_def EAGAIN_def)
    qed
  qed
  then show ?thesis using same c1(3) c2(2,4,6) by auto
qed

text \<open>Fetching keeps the window.\<close>

lemma acquire_ok:
  assumes "cache_ok pc" "mPageSize pc = k" "length g = k" "acquirePage g pc = (pc', p)"
  shows "cache_ok pc'" "mPageSize pc' = k" "page_ok k p" "cache_bytes pc' = cache_bytes pc" "totalSize pc' = totalSize pc"
proof -
  consider "mFreePages pc = []" "pc' = pc" "p = \<lparr>mData = g, mSize = 0\<rparr>"
    | ps where "mFreePages pc = p # ps" "pc' = pc\<lparr>mFreePages := ps\<rparr>"
    using assms(4) by (cases "mFreePages pc") (auto simp: acquirePage_def)
  then have "cache_ok pc' \<and> mPageSize pc' = k \<and> page_ok k p \<and> cache_bytes pc' = cache_bytes pc \<and> totalSize pc' = totalSize pc"
    using assms(1-3) by cases (auto simp: cache_ok_def cache_bytes_def totalSize_def page_ok_def)
  then show "cache_ok pc'" "mPageSize pc' = k" "page_ok k p" "cache_bytes pc' = cache_bytes pc" "totalSize pc' = totalSize pc"
    by simp_all
qed

lemma acquire_window:
  assumes "window_inv content c" "length g = kPageSize" "acquirePage g (mCache c) = (pc, p)"
  shows "window_inv content (c\<lparr>mCache := pc, looper := l\<rparr>)" "page_ok kPageSize p"
    "cacheEnd (c\<lparr>mCache := pc, looper := l\<rparr>) = cacheEnd c"
  using acquire_ok [OF _ _ assms(2,3)] assms(1) by (auto simp: window_inv_def cacheEnd_def)

lemma onFetch_inv:
  assumes "nu_inv content c" "length g = kPageSize" "looper c = Resting"
  shows "\<exists>c'. onFetch_begin now g c = Some c' \<and> nu_inv content c'"
proof -
  define c0 where "c0 = (if mFinalStatus c \<noteq> OK \<and> mNumRetriesLeft c = 0 then c\<lparr>mFetching := False\<rparr> else c)"
  have inv: "window_inv content c0" "looper_inv c0" "reader_inv content c0" "looper c0 = Resting"
    using assms(1,3) by (auto simp: c0_def nu_inv_def window_inv_def looper_inv_def reader_inv_def)
  let ?go = "mFetching c0 \<or> (\<not> mFetching c0 \<and> mFinalStatus c0 = OK \<and> 0 < mKeepAliveIntervalUs c0
      \<and> mLastFetchTimeUs c0 + mKeepAliveIntervalUs c0 \<le> now)"
  have eq: "onFetch_begin now g c = (if ?go then fetch_begin g c0 else Some (restartPrefetcherIfNecessary_l False False c0))"
    by (simp add: onFetch_begin_def c0_def [symmetric] Let_def)
  show ?thesis
  proof (cases ?go)
    case True
    then have ok: "mFinalStatus c0 = OK \<or> 0 < mNumRetriesLeft c0"
      using inv(2) by (auto simp: c0_def looper_inv_def split: if_splits)
    obtain pc p where ac: "acquirePage g (mCache c0) = (pc, p)" by fastforce
    note aw = acquire_window [OF inv(1) assms(2) ac]
    show ?thesis
    proof (cases "mFinalStatus c0 = OK")
      case True
      then show ?thesis using eq \<open>?go\<close> ac aw inv
        by (auto simp: fetch_begin_def nu_inv_def looper_inv_def reader_inv_def)
    next
      case False
      then show ?thesis using eq \<open>?go\<close> ok inv
        by (auto simp: fetch_begin_def nu_inv_def looper_inv_def reader_inv_def window_inv_def)
    qed
  next
    case False
    note rs = restart_window [OF inv(1), of False False]
    then show ?thesis using False eq inv same_reads_reader [OF rs(3) inv(3)]
      by (auto simp: nu_inv_def looper_inv_def)
  qed
qed

text \<open>The tail of a fetch changes neither the cache nor the reads.\<close>

lemma fetch_tail_inv: "nu_inv content c \<Longrightarrow> nu_inv content (fetch_tail now http c)"
  by (auto simp: fetch_tail_def Let_def nu_inv_def window_inv_def looper_inv_def reader_inv_def cacheEnd_def
      EAGAIN_def split: phase.splits)

lemma reconnected_inv:
  assumes "nu_inv content c" "length g = kPageSize" "fetch_reconnected err g c = (c', over)"
  shows "nu_inv content c'"
proof -
  have inv: "window_inv content c" "0 \<le> mNumRetriesLeft c" "mFinalStatus c \<le> 0" "reader_inv content c"
    using assms(1) by (auto simp: nu_inv_def looper_inv_def)
  obtain pc p where ac: "acquirePage g (mCache c) = (pc, p)" by fastforce
  note aw = acquire_window [OF inv(1) assms(2) ac]
  show ?thesis
  proof (cases "mDisconnecting c \<or> err \<noteq> OK")
    case True
    then show ?thesis using assms(3) inv
      by (auto simp: fetch_reconnected_def nu_inv_def looper_inv_def reader_inv_def window_inv_def
          ERROR_END_OF_STREAM_def split: if_splits)
  next
    case False
    then have "c' = c\<lparr>mCache := pc, looper := Reading (cacheEnd c) p\<rparr>"
      using assms(3) ac by (auto simp: fetch_reconnected_def OK_def ERROR_UNSUPPORTED_def EPIPE_def)
    then show ?thesis using aw inv by (simp add: nu_inv_def looper_inv_def reader_inv_def)
  qed
qed

lemma releasePage_bytes:
  "cache_ok pc \<Longrightarrow> page_ok (mPageSize pc) p \<Longrightarrow> cache_ok (releasePage p pc)"
  "mPageSize (releasePage p pc) = mPageSize pc"
  "cache_bytes (releasePage p pc) = cache_bytes pc" "totalSize (releasePage p pc) = totalSize pc"
  by (auto simp: releasePage_def cache_ok_def cache_bytes_def totalSize_def page_ok_def)

lemma fetch_read_inv:
  assumes "nu_inv content c" "looper c = Reading off p" "reply_ok content off n bs"
  shows "nu_inv content (fetch_read n bs p c)"
proof -
  let ?p = "p\<lparr>mData := overwrite bs (mData p)\<rparr>"
  have inv: "cache_ok (mCache c)" "mPageSize (mCache c) = kPageSize" "holds content (mCacheOffset c) (cache_bytes (mCache c))"
      "mCacheOffset c < 2 ^ 63" "length content < 2 ^ 63" "0 \<le> mNumRetriesLeft c" "mFinalStatus c \<le> 0"
      "reader_inv content c" "off = cacheEnd c" "page_ok kPageSize p"
    using assms(1,2) by (auto simp: nu_inv_def window_inv_def looper_inv_def)
  have len: "length bs \<le> kPageSize" using assms(3) by (simp add: reply_ok_def)
  have pk: "page_ok kPageSize ?p" using inv(10) len by (auto simp: page_ok_def overwrite_def)
  show ?thesis
  proof (cases "n \<le> 0 \<or> mDisconnecting c")
    case True
    then show ?thesis
      using inv releasePage_bytes(1) [of "mCache c" ?p] releasePage_bytes(2-4) pk
      by (auto simp: fetch_read_def Let_def nu_inv_def window_inv_def looper_inv_def reader_inv_def ERROR_END_OF_STREAM_def)
  next
    case False
    let ?q = "?p\<lparr>mSize := nat n\<rparr>"
    have bs: "int (length bs) = n" "slice off (length bs) content = bs" "bs \<noteq> []"
      using assms(3) False by (auto simp: reply_ok_def)
    have q: "page_ok (mPageSize (mCache c)) ?q" "0 < mSize ?q" "page_bytes ?q = bs"
      using pk inv(2) bs(1) len False by (auto simp: page_ok_def page_bytes_def overwrite_def)
    have "cache_bytes (appendPage ?q (mCache c)) = cache_bytes (append_bytes bs (mCache c))"
      by (simp add: appendPage_bytes q(3) pages.append [OF inv(1) bs(3)])
    moreover have "holds content (mCacheOffset c) (cache_bytes (append_bytes bs (mCache c)))"
      using bs(2) inv(9) pages.size [OF inv(1)]
      by (intro pages.holds_append [OF inv(1,3) bs(3)]) (simp add: cacheEnd_def)
    moreover have "mPageSize (appendPage ?q (mCache c)) = kPageSize" using inv(2) by (simp add: appendPage_def)
    ultimately show ?thesis
      using False inv appendPage_ok [OF inv(1) q(1,2)]
      by (auto simp: fetch_read_def Let_def nu_inv_def window_inv_def looper_inv_def reader_inv_def kMaxNumRetries_def OK_def)
  qed
qed

lemma onRead_inv:
  assumes "nu_inv content c" "looper c = Resting"
  shows "\<exists>c'. onRead c = Some c' \<and> nu_inv content c'"
proof (cases "readMsg c")
  case None
  then show ?thesis using assms(1) by (simp add: onRead_def)
next
  case (Some q)
  obtain off sz where q: "q = (off, sz)" by fastforce
  have inv: "window_inv content c" "0 \<le> mNumRetriesLeft c" "mFinalStatus c \<le> 0" "reader_inv content c"
    using assms(1) by (auto simp: nu_inv_def looper_inv_def)
  then have r: "0 \<le> off" "off + int sz < 2 ^ 63" "sz \<le> mHighwaterThresholdBytes c" "mAsyncResult c = None"
      "mDisconnecting c \<or> reader c = Some (off, sz)"
    using Some q by (auto simp: reader_inv_def reads_ok_def)
  obtain c' res bs where ri: "readInternal off sz c = Some (c', res, bs)" "window_inv content c'"
      "same_reads c c'" "looper c' = looper c" "0 \<le> mNumRetriesLeft c'" "result_ok content (off, sz) (res, bs)"
    using readInternal_window [OF inv(1,2) r(1-3) inv(3)] by blast
  have li: "looper_inv c'" using ri assms(2) inv(3) by (simp add: looper_inv_def same_reads_def)
  show ?thesis
  proof (cases "res = - EAGAIN")
    case True
    then show ?thesis using Some q ri li same_reads_reader [OF ri(3) inv(4)]
      by (simp add: onRead_def nu_inv_def)
  next
    case False
    let ?c = "c'\<lparr>readMsg := None\<rparr>"
    have s: "mDisconnecting c' = mDisconnecting c" "mAsyncResult c' = None" "reader c' = reader c"
      using ri(3) r(4) by (auto simp: same_reads_def)
    have "nu_inv content ?c" "mDisconnecting c \<or> nu_inv content (?c\<lparr>mAsyncResult := Some (res, bs)\<rparr>)"
      using ri li s r(5) assms(2)
      by (auto simp: nu_inv_def window_inv_def looper_inv_def reader_inv_def reads_ok_def)
    then show ?thesis using Some q ri False s by (auto simp: onRead_def Let_def)
  qed
qed

lemma readAt_begin_inv:
  assumes "nu_inv content c" "reader c = None" "0 \<le> off" "off + int sz < 2 ^ 63" "sz \<le> mHighwaterThresholdBytes c"
  shows "\<exists>c' a. readAt_begin off sz c = Some (c', a) \<and> nu_inv content c' \<and>
    (\<forall>x. a = Some x \<longrightarrow> result_ok content (off, sz) x)"
proof -
  have inv: "window_inv content c" "looper_inv c" "reader_inv content c"
    using assms(1) by (auto simp: nu_inv_def)
  have free: "mAsyncResult c = None" using inv(3) assms(2) by (cases "mAsyncResult c") (auto simp: reader_inv_def reads_ok_def)
  have b: "0 \<le> cacheEnd c" "cacheEnd c < 2 ^ 63" using window_bounds [OF inv(1)] by auto
  have "(2 :: int) ^ 63 < 2 ^ 64" by simp
  then have st: "size_t (off + int sz) = nat (off + int sz)" "size_t (cacheEnd c) = nat (cacheEnd c)"
    using assms(3,4) b by (intro size_t_id; linarith)+
  show ?thesis
  proof (cases "mDisconnecting c")
    case True
    then show ?thesis using assms(1) by (simp add: readAt_begin_def result_ok_def ERROR_END_OF_STREAM_def)
  next
    case live: False
    show ?thesis
    proof (cases "mCacheOffset c \<le> off \<and> size_t (off + int sz) \<le> size_t (cacheEnd c)")
      case True
      then have "off + int sz \<le> cacheEnd c" using b(1) unfolding st by (auto simp: nat_le_eq_zle)
      note cp = window_copy [OF inv(1) _ this]
      have "nu_inv content (c\<lparr>mLastAccessPos := off + int sz\<rparr>)"
        using inv by (auto simp: nu_inv_def window_inv_def looper_inv_def reader_inv_def cacheEnd_def split: phase.splits)
      then show ?thesis using live True cp by (auto simp: readAt_begin_def result_ok_def)
    next
      case False
      have "nu_inv content (c\<lparr>readMsg := Some (off, sz), reader := Some (off, sz)\<rparr>)"
        using inv assms free
        by (auto simp: nu_inv_def window_inv_def looper_inv_def reader_inv_def reads_ok_def cacheEnd_def split: phase.splits)
      then show ?thesis using live False free by (auto simp: readAt_begin_def)
    qed
  qed
qed

lemma readAt_end_inv:
  assumes "nu_inv content c" "reader c = Some q" "mAsyncResult c \<noteq> None \<or> mDisconnecting c"
  shows "\<exists>c' a. readAt_end c = Some (c', a) \<and> nu_inv content c' \<and> result_ok content q a"
proof -
  have inv: "window_inv content c" "looper_inv c" "reader_inv content c"
    using assms(1) by (auto simp: nu_inv_def)
  obtain off sz where q: "q = (off, sz)" by fastforce
  show ?thesis
  proof (cases "mDisconnecting c")
    case True
    then show ?thesis using inv assms(2) q
      by (auto simp: readAt_end_def Let_def nu_inv_def window_inv_def looper_inv_def reader_inv_def reads_ok_def
          cacheEnd_def result_ok_def ERROR_END_OF_STREAM_def split: phase.splits)
  next
    case False
    then obtain r bs where a: "mAsyncResult c = Some (r, bs)" using assms(3) by auto
    with inv(3) assms(2) q have "result_ok content (off, sz) (r, bs)" "readMsg c = None"
      by (cases "readMsg c"; auto simp: reader_inv_def reads_ok_def)+
    then show ?thesis using inv assms(2) q a False
      by (auto simp: readAt_end_def Let_def nu_inv_def window_inv_def looper_inv_def reader_inv_def reads_ok_def
          cacheEnd_def split: phase.splits)
  qed
qed

lemma resume_inv: "nu_inv content c \<Longrightarrow> nu_inv content (resumeFetchingIfNecessary c)"
proof -
  assume a: "nu_inv content c"
  then have inv: "window_inv content c" "looper_inv c" "reader_inv content c" by (auto simp: nu_inv_def)
  note rs = restart_window [OF inv(1), of True False]
  show ?thesis
    using rs inv same_reads_reader [OF rs(3) inv(3)]
    by (auto simp: resumeFetchingIfNecessary_def nu_inv_def looper_inv_def split: phase.splits)
qed

lemma disconnect_inv: "nu_inv content c \<Longrightarrow> nu_inv content (nu_disconnect http c)"
  by (auto simp: nu_disconnect_def nu_inv_def window_inv_def looper_inv_def reader_inv_def reads_ok_def
      cacheEnd_def split: phase.splits)

lemma nu_exec_inv:
  assumes "nu_inv content c" "enabled content x c"
  shows "\<exists>c' a. nu_exec http x c = Some (c', a) \<and> nu_inv content c' \<and> (\<forall>q r. a = Some (q, r) \<longrightarrow> result_ok content q r)"
proof (cases x)
  case (OnFetch now g)
  then show ?thesis using onFetch_inv [of content c g now] assms by auto
next
  case (Reconnected err g now)
  obtain c' over where "fetch_reconnected err g c = (c', over)" by fastforce
  then show ?thesis using Reconnected assms reconnected_inv [of content c g err c' over] fetch_tail_inv [of content c' now http]
    by (auto split: phase.splits)
next
  case (Fetched n bs now)
  then obtain off p where l: "looper c = Reading off p" "reply_ok content off n bs"
    using assms(2) by (auto split: phase.splits)
  from fetch_tail_inv [OF fetch_read_inv [OF assms(1) l], of now http] Fetched l(1) show ?thesis by simp
next
  case OnRead
  then show ?thesis using onRead_inv assms by auto
next
  case (ReadBegin off sz)
  then show ?thesis using readAt_begin_inv [OF assms(1), of off sz] assms(2) by auto
next
  case ReadEnd
  then obtain q where q: "reader c = Some q" "mAsyncResult c \<noteq> None \<or> mDisconnecting c" using assms(2) by auto
  then show ?thesis using readAt_end_inv [OF assms(1) q] ReadEnd by auto
next
  case Resume
  then show ?thesis using resume_inv [OF assms(1)] by simp
next
  case Disconnect
  then show ?thesis using disconnect_inv [OF assms(1)] by simp
qed

lemma update_params:
  assumes "mLowwaterThresholdBytes c < mHighwaterThresholdBytes c" "0 \<le> mKeepAliveIntervalUs c"
  shows "mLowwaterThresholdBytes (updateCacheParamsFromString sc s c) < mHighwaterThresholdBytes (updateCacheParamsFromString sc s c)"
    "0 \<le> mKeepAliveIntervalUs (updateCacheParamsFromString sc s c)"
    "nu_inv content c \<Longrightarrow> reader c = None \<Longrightarrow> looper c = Resting \<Longrightarrow> readMsg c = None \<Longrightarrow> nu_inv content (updateCacheParamsFromString sc s c)"
    "reader (updateCacheParamsFromString sc s c) = reader c" "looper (updateCacheParamsFromString sc s c) = looper c"
    "readMsg (updateCacheParamsFromString sc s c) = readMsg c"
  using assms
  by (auto simp: updateCacheParamsFromString_def Let_def kDefaultLowWaterThreshold_def kDefaultHighWaterThreshold_def
      kDefaultKeepAliveIntervalUs_def nu_inv_def window_inv_def looper_inv_def reader_inv_def reads_ok_def
      split: option.split prod.split)

text \<open>The state the constructor starts from, before any configuration is read.\<close>

lemma constructor_ok:
  assumes "length content < 2 ^ 63"
  shows "nu_inv content (NuCachedSource2 sc prop cfg d)
    \<and> mLowwaterThresholdBytes (NuCachedSource2 sc prop cfg d) < mHighwaterThresholdBytes (NuCachedSource2 sc prop cfg d)
    \<and> 0 \<le> mKeepAliveIntervalUs (NuCachedSource2 sc prop cfg d)
    \<and> (d \<longrightarrow> mKeepAliveIntervalUs (NuCachedSource2 sc prop cfg d) = 0)"
proof -
  define c0 where "c0 = \<lparr>mCache = PageCache kPageSize, mCacheOffset = 0, mFinalStatus = OK, mLastAccessPos = 0,
            mFetching = True, mDisconnecting = False, mLastFetchTimeUs = -1, mNumRetriesLeft = kMaxNumRetries,
            mHighwaterThresholdBytes = kDefaultHighWaterThreshold, mLowwaterThresholdBytes = kDefaultLowWaterThreshold,
            mKeepAliveIntervalUs = kDefaultKeepAliveIntervalUs, mDisconnectAtHighwatermark = d,
            mAsyncResult = None, looper = Resting, readMsg = None, reader = None\<rparr>"
  define good where "good c \<longleftrightarrow> nu_inv content c \<and> mLowwaterThresholdBytes c < mHighwaterThresholdBytes c \<and>
      0 \<le> mKeepAliveIntervalUs c \<and> reader c = None \<and> looper c = Resting \<and> readMsg c = None" for c :: nu
  have "cache_bytes (PageCache kPageSize) = []" "mPageSize (PageCache kPageSize) = kPageSize"
    by (simp_all add: cache_bytes_def PageCache_def)
  then have "good c0"
    using assms cache_ok_PageCache [of kPageSize]
    by (simp add: good_def c0_def nu_inv_def window_inv_def looper_inv_def reader_inv_def reads_ok_def holds_def
        slice_def OK_def kMaxNumRetries_def kDefaultLowWaterThreshold_def kDefaultHighWaterThreshold_def
        kDefaultKeepAliveIntervalUs_def)
  have upd: "good c \<Longrightarrow> good (updateCacheParamsFromString sc s c)" for c s
    using update_params [of c] by (simp add: good_def)
  have opt: "good c \<Longrightarrow> good (case v of Some v \<Rightarrow> updateCacheParamsFromString sc v c | None \<Rightarrow> c)" for c v
    using upd by (cases v) auto
  define c2 where "c2 = (case cfg of Some v \<Rightarrow> updateCacheParamsFromString sc v (case prop of Some v \<Rightarrow> updateCacheParamsFromString sc v c0 | None \<Rightarrow> c0)
     | None \<Rightarrow> (case prop of Some v \<Rightarrow> updateCacheParamsFromString sc v c0 | None \<Rightarrow> c0))"
  have "good c2" unfolding c2_def by (rule opt [OF opt [OF \<open>good c0\<close>]])
  moreover have "NuCachedSource2 sc prop cfg d = (if d then c2\<lparr>mKeepAliveIntervalUs := 0\<rparr> else c2)"
    unfolding NuCachedSource2_def Let_def c0_def [symmetric] c2_def ..
  ultimately show ?thesis
    by (auto simp: good_def nu_inv_def window_inv_def looper_inv_def reader_inv_def)
qed

lemma reachable_inv:
  "nu_reachable http content c0 c \<Longrightarrow> nu_inv content c0 \<Longrightarrow> nu_inv content c"
proof (induction rule: nu_reachable.induct)
  case (nu_next c x c' a)
  then show ?case using nu_exec_inv [of content c x http] by auto
qed

section \<open>Deferred reads\<close>

lemma restart_forced:
  "mFetching (restartPrefetcherIfNecessary_l False True c) \<or>
   (mFinalStatus c \<noteq> OK \<and> mNumRetriesLeft c = 0 \<and> restartPrefetcherIfNecessary_l False True c = c)"
  by (auto simp: restartPrefetcherIfNecessary_l_def Let_def split: prod.split)

lemma seek_fetching:
  assumes "seekInternal_l off c = Some c'"
  shows "mFetching c' \<or> (mFetching c' = mFetching c \<and> mFinalStatus c' = mFinalStatus c \<and> mNumRetriesLeft c' = mNumRetriesLeft c)"
  using assms by (auto simp: seekInternal_l_def Let_def split: if_splits prod.splits)

lemma deferred_fetching:
  assumes "readInternal off sz c = Some (c', - EAGAIN, bs)" "\<not> mDisconnecting c"
  shows "mFetching c' \<or> (mFinalStatus c' = - EAGAIN \<and> mNumRetriesLeft c' = 0)"
proof -
  define c1 where "c1 = (if \<not> mFetching c then restartPrefetcherIfNecessary_l False True (c\<lparr>mLastAccessPos := off\<rparr>) else c)"
  have c1: "mFetching c1 \<or> (mFinalStatus c1 \<noteq> OK \<and> mNumRetriesLeft c1 = 0)"
    using restart_forced [of "c\<lparr>mLastAccessPos := off\<rparr>"] by (auto simp: c1_def)
  let ?s = "if kPadding < off then off - kPadding else 0"
  obtain c2 where c2: "(if off < mCacheOffset c1 \<or> cacheEnd c1 \<le> off then seekInternal_l ?s c1 else Some c1) = Some c2"
    using assms by (cases "if off < mCacheOffset c1 \<or> cacheEnd c1 \<le> off then seekInternal_l ?s c1 else Some c1")
      (auto simp: readInternal_def c1_def [symmetric] Let_def)
  have f2: "mFetching c2 \<or> (mFinalStatus c2 \<noteq> OK \<and> mNumRetriesLeft c2 = 0)"
    using c1 c2 seek_fetching [of ?s c1 c2] by (auto split: if_splits)
  let ?total = "totalSize (mCache c2)" and ?d = "size_t (off - mCacheOffset c2)"
  have "c' = c2 \<and> (mFinalStatus c2 \<noteq> OK \<and> mNumRetriesLeft c2 = 0 \<longrightarrow> mFinalStatus c2 = - EAGAIN)"
    using assms c2
    by (auto simp: readInternal_def c1_def [symmetric] Let_def EAGAIN_def split: if_splits bind_splits)
  with f2 show ?thesis by auto
qed

text \<open>Turns of the looper, and the state in which a read is put off for ever.\<close>

fun turns :: "nu_op list \<Rightarrow> nu \<Rightarrow> nu option" where
  "turns [] c = Some c"
| "turns (OnRead # ts) c = do { c \<leftarrow> onRead c; turns ts c }"
| "turns (OnFetch now g # ts) c = do { c \<leftarrow> onFetch_begin now g c; turns ts c }"
| "turns (x # ts) c = turns ts c"

definition stuck :: "int \<Rightarrow> nat \<Rightarrow> nu \<Rightarrow> bool" where
  "stuck off sz c \<longleftrightarrow> mFinalStatus c = - EAGAIN \<and> mNumRetriesLeft c = 0 \<and> \<not> mFetching c \<and> \<not> mDisconnecting c
     \<and> readMsg c = Some (off, sz) \<and> mAsyncResult c = None \<and> sz \<le> mHighwaterThresholdBytes c
     \<and> 0 \<le> mCacheOffset c \<and> cacheEnd c \<le> off \<and> off < 2 ^ 63
     \<and> mCacheOffset c \<le> (if kPadding < off then off - kPadding else 0)
     \<and> (if kPadding < off then off - kPadding else 0) \<le> cacheEnd c"

lemma restart_exhausted:
  "mFinalStatus c \<noteq> OK \<Longrightarrow> mNumRetriesLeft c = 0 \<Longrightarrow> restartPrefetcherIfNecessary_l a b c = c"
  by (simp add: restartPrefetcherIfNecessary_l_def)

lemma stuck_read:
  assumes "stuck off sz c"
  shows "\<exists>c'. onRead c = Some c' \<and> stuck off sz c'"
proof -
  let ?s = "if kPadding < off then off - kPadding else 0"
  let ?c1 = "c\<lparr>mLastAccessPos := off\<rparr>" and ?c = "c\<lparr>mLastAccessPos := ?s\<rparr>"
  have st: "mFinalStatus c = - EAGAIN" "mNumRetriesLeft c = 0" "\<not> mFetching c" "\<not> mDisconnecting c"
      "readMsg c = Some (off, sz)" "sz \<le> mHighwaterThresholdBytes c" "0 \<le> mCacheOffset c" "cacheEnd c \<le> off" "off < 2 ^ 63"
      "mCacheOffset c \<le> ?s" "?s \<le> cacheEnd c"
    using assms by (auto simp: stuck_def)
  have n: "- EAGAIN \<noteq> OK" by (simp add: EAGAIN_def OK_def)
  have r: "restartPrefetcherIfNecessary_l False True ?c1 = ?c1"
    by (rule restart_exhausted) (use st n in auto)
  have e: "cacheEnd ?c1 = cacheEnd c" "cacheEnd ?c = cacheEnd c" by (simp_all add: cacheEnd_def)
  have sk: "seekInternal_l ?s ?c1 = Some ?c"
    using st(10,11) by (simp add: seekInternal_l_def Let_def cacheEnd_def)
  have "(2 :: int) ^ 63 < 2 ^ 64" by simp
  moreover have le: "mCacheOffset c \<le> cacheEnd c" by (simp add: cacheEnd_def)
  ultimately have "size_t (off - mCacheOffset c) = nat (off - mCacheOffset c)"
    using st(7,8,9) by (intro size_t_id; linarith)
  moreover have "totalSize (mCache c) \<le> nat (off - mCacheOffset c)" using st(8) by (simp add: cacheEnd_def)
  ultimately have total: "totalSize (mCache ?c) \<le> size_t (off - mCacheOffset ?c)" by simp
  have "readInternal off sz c = Some (?c, - EAGAIN, [])"
    using st(1-4,6,8) n r sk total
    by (simp add: readInternal_def e)
  then have "onRead c = Some ?c" using st(5) by (simp add: onRead_def)
  moreover have "stuck off sz ?c" using assms by (simp add: stuck_def cacheEnd_def)
  ultimately show ?thesis by blast
qed

lemma stuck_fetch: "stuck off sz c \<Longrightarrow> onFetch_begin now g c = Some c"
  by (auto simp: stuck_def onFetch_begin_def Let_def EAGAIN_def OK_def restart_exhausted)

lemma stuck_turns: "stuck off sz c \<Longrightarrow> \<exists>c'. turns ts c = Some c' \<and> stuck off sz c'"
proof (induction ts c rule: turns.induct)
  case (2 ts c)
  then show ?case using stuck_read [OF "2.prems"] by auto
qed (auto simp: stuck_fetch)

section \<open>Properties\<close>



text \<open>
  a read that is deferred cannot be forgotten: whenever \<open>readInternal\<close> puts a read off, the
  prefetcher is running afterwards, except when the final status is itself \<open>-EAGAIN\<close>.
\<close>

theorem deferred_read_keeps_fetching:
  assumes "readInternal off sz c = Some (c', - EAGAIN, bs)" "\<not> mDisconnecting c"
  shows "mFetching c' \<or> (mFinalStatus c' = - EAGAIN \<and> mNumRetriesLeft c' = 0)"
  using assms by (rule deferred_fetching)

theorem deferred_read_keeps_fetching_witness:
  "\<exists>c'. readInternal 9 4 (NuCachedSource2 (\<lambda>_. None) None None False) = Some (c', - EAGAIN, []) \<and> mFetching c'"
proof -
  let ?c = "NuCachedSource2 (\<lambda>_. None) None None False"
  let ?c' = "?c\<lparr>mLastAccessPos := 0\<rparr>"
  have r: "readInternal 9 4 ?c = Some (?c', - EAGAIN, [])"
    by (simp add: readInternal_def NuCachedSource2_def cacheEnd_def totalSize_def PageCache_def seekInternal_l_def
        kPadding_def Let_def OK_def kDefaultHighWaterThreshold_def size_t_def)
  have "\<not> mDisconnecting ?c" "mFinalStatus ?c' \<noteq> - EAGAIN" by (simp_all add: NuCachedSource2_def OK_def EAGAIN_def)
  with deferred_read_keeps_fetching [OF r] r show ?thesis by auto
qed

text \<open>
  C38: when the stream ends while a source that disconnects at the high water mark holds that
  much, \<open>onFetch\<close> overwrites the end-of-stream status with \<open>-EAGAIN\<close>; a read at the end of the
  stream, which should return the end of the stream, is then put off again and again, however
  often the looper turns.
\<close>

theorem eof_at_high_water_blocks_read:
  assumes "looper c = Reading o' p" "mFetching c" "\<not> mDisconnecting c" "mDisconnectAtHighwatermark c"
    "mHighwaterThresholdBytes c \<le> totalSize (mCache c)" "readMsg c = Some (off, sz)" "mAsyncResult c = None"
    "sz \<le> mHighwaterThresholdBytes c" "0 \<le> mCacheOffset c" "cacheEnd c \<le> off" "off < 2 ^ 63"
    "mCacheOffset c \<le> (if kPadding < off then off - kPadding else 0)"
    "(if kPadding < off then off - kPadding else 0) \<le> cacheEnd c"
  shows "\<exists>c1. nu_exec True (Fetched 0 [] now) c = Some (c1, None) \<and>
    (\<forall>ts. \<exists>c2. turns ts c1 = Some c2 \<and> readMsg c2 = Some (off, sz) \<and> mAsyncResult c2 = None)"
proof -
  let ?c1 = "fetch_tail now True (fetch_read 0 [] p c)"
  have t: "totalSize (releasePage q (mCache c)) = totalSize (mCache c)" for q
    by (simp add: releasePage_def totalSize_def)
  have "stuck off sz ?c1"
    using assms by (simp add: stuck_def fetch_tail_def fetch_read_def Let_def t cacheEnd_def)
  then have "\<exists>c2. turns ts ?c1 = Some c2 \<and> readMsg c2 = Some (off, sz) \<and> mAsyncResult c2 = None" for ts
    using stuck_turns [of off sz ?c1 ts] by (auto simp: stuck_def)
  then show ?thesis using assms(1) by simp
qed

theorem eof_at_high_water_blocks_read_witness:
  "\<exists>c c1. mFinalStatus c = OK \<and> nu_exec True (Fetched 0 [] 7) c = Some (c1, None) \<and>
    (\<exists>c2. turns [OnRead, OnFetch 8 [], OnRead] c1 = Some c2 \<and> readMsg c2 = Some (2, 1))"
proof -
  let ?c = "(NuCachedSource2 (\<lambda>_. None) None None True)\<lparr>mHighwaterThresholdBytes := 2,
     mCache := appendPage \<lparr>mData = replicate kPageSize 7, mSize = 2\<rparr> (PageCache kPageSize),
     looper := Reading 2 \<lparr>mData = [], mSize = 0\<rparr>, readMsg := Some (2, 1), reader := Some (2, 1)\<rparr>"
  have "\<exists>c1. nu_exec True (Fetched 0 [] 7) ?c = Some (c1, None) \<and>
    (\<forall>ts. \<exists>c2. turns ts c1 = Some c2 \<and> readMsg c2 = Some (2, 1) \<and> mAsyncResult c2 = None)"
    by (rule eof_at_high_water_blocks_read)
      (simp_all add: NuCachedSource2_def totalSize_def appendPage_def PageCache_def cacheEnd_def kPadding_def)
  moreover have "mFinalStatus ?c = OK" by (simp add: NuCachedSource2_def)
  ultimately show ?thesis by blast
qed

end
