(* ===== verification/SampleTables.thy ===== *)
theory SampleTables
  imports DataSources
begin

text \<open>
  The sample table of an MP4 track: media/libstagefright/SampleTable.cpp and
  SampleIterator.cpp, on a platform with 64-bit \<open>size_t\<close>. The boxes of the file are read through
  a data source; \<open>new (nothrow)\<close> succeeds as an argument says. \<open>uint32_t\<close> arithmetic is that of
  32-bit words and wraps where the code's does. A failed CHECK, a read outside an array or of a
  part of it that was never filled, and a division by zero are \<open>None\<close>.
\<close>

section \<open>Data\<close>

definition FOURCC :: "char \<Rightarrow> char \<Rightarrow> char \<Rightarrow> char \<Rightarrow> u32" where
  "FOURCC a b c d = be32 (of_char a) (of_char b) (of_char c) (of_char d)"

definition kChunkOffsetType32 :: u32 where "kChunkOffsetType32 = FOURCC CHR ''s'' CHR ''t'' CHR ''c'' CHR ''o''"
definition kChunkOffsetType64 :: u32 where "kChunkOffsetType64 = FOURCC CHR ''c'' CHR ''o'' CHR ''6'' CHR ''4''"
definition kSampleSizeType32 :: u32 where "kSampleSizeType32 = FOURCC CHR ''s'' CHR ''t'' CHR ''s'' CHR ''z''"
definition kSampleSizeTypeCompact :: u32 where "kSampleSizeTypeCompact = FOURCC CHR ''s'' CHR ''t'' CHR ''z'' CHR ''2''"

definition kFlagBefore :: u32 where "kFlagBefore = 0"
definition kFlagAfter :: u32 where "kFlagAfter = 1"
definition kFlagClosest :: u32 where "kFlagClosest = 2"

record chunk_entry =
  startChunk :: u32
  samplesPerChunk :: u32
  chunkDesc :: u32

record lookup =
  mDeltaEntries :: "u32 list option"
  mNumDeltaEntries :: nat
  mCurrentDeltaEntry :: nat
  mCurrentEntrySampleIndex :: nat

record iterator =
  mInitialized :: bool
  mSampleToChunkIndex :: u32
  mFirstChunk :: u32
  mFirstChunkSampleIndex :: u32
  mStopChunk :: u32
  mStopChunkSampleIndex :: u32
  mSamplesPerChunk :: u32
  mChunkDesc :: u32
  mCurrentChunkIndex :: u32
  mCurrentChunkOffset :: int
  mCurrentChunkSampleSizes :: "nat list"
  mTimeToSampleIndex :: u32
  mTTSSampleIndex :: u32
  mTTSSampleTime :: u32
  mTTSCount :: u32
  mTTSDuration :: u32
  mCurrentSampleIndex :: u32
  mCurrentSampleOffset :: int
  mCurrentSampleSize :: nat
  mCurrentSampleTime :: u32
  mCurrentSampleDuration :: u32

record table =
  mChunkOffsetOffset :: int
  mChunkOffsetType :: u32
  mNumChunkOffsets :: u32
  mSampleToChunkOffset :: int
  mNumSampleToChunkOffsets :: u32
  mSampleToChunkEntries :: "chunk_entry list"
  mSampleSizeOffset :: int
  mSampleSizeFieldSize :: u32
  mDefaultSampleSize :: u32
  mNumSampleSizes :: u32
  mTimeToSampleCount :: u32
  mTimeToSample :: "u32 list option"
  mSampleTimeEntries :: "(u32 \<times> u32) list option"
  mCompositionTimeDeltaEntries :: "u32 list option"
  mNumCompositionTimeDeltaEntries :: nat
  mCompositionDeltaLookup :: lookup
  mSyncSampleOffset :: int
  mNumSyncSamples :: u32
  mSyncSamples :: "u32 list option"
  mLastSyncSampleIndex :: nat
  mSampleIterator :: iterator

text \<open>A sample time entry is its sample index and its composition time.\<close>

section \<open>The composition time lookup\<close>

definition CompositionDeltaLookup :: lookup where
  "CompositionDeltaLookup = \<lparr>mDeltaEntries = None, mNumDeltaEntries = 0, mCurrentDeltaEntry = 0,
     mCurrentEntrySampleIndex = 0\<rparr>"

definition setEntries :: "u32 list option \<Rightarrow> nat \<Rightarrow> lookup \<Rightarrow> lookup" where
  "setEntries es n l = l\<lparr>mDeltaEntries := es, mNumDeltaEntries := n, mCurrentDeltaEntry := 0,
     mCurrentEntrySampleIndex := 0\<rparr>"

function lookup_loop :: "u32 list \<Rightarrow> u32 \<Rightarrow> lookup \<Rightarrow> (lookup \<times> u32) option" where
  "lookup_loop es sampleIndex l =
     (if mCurrentDeltaEntry l < mNumDeltaEntries l
      then do {
        sampleCount \<leftarrow> fetch es (2 * mCurrentDeltaEntry l);
        if unat sampleIndex < mCurrentEntrySampleIndex l + unat sampleCount
        then do { v \<leftarrow> fetch es (2 * mCurrentDeltaEntry l + 1); Some (l, v) }
        else lookup_loop es sampleIndex
               (l\<lparr>mCurrentEntrySampleIndex := mCurrentEntrySampleIndex l + unat sampleCount,
                  mCurrentDeltaEntry := mCurrentDeltaEntry l + 1\<rparr>)
      }
      else Some (l, 0))"
  by pat_completeness auto
termination
  by (relation "measure (\<lambda>(_, _, l). mNumDeltaEntries l - mCurrentDeltaEntry l)") auto

declare lookup_loop.simps [simp del]

definition lookup_offset :: "u32 \<Rightarrow> lookup \<Rightarrow> (lookup \<times> u32) option" where
  "lookup_offset sampleIndex l =
     (case mDeltaEntries l of
        None \<Rightarrow> Some (l, 0)
      | Some es \<Rightarrow> lookup_loop es sampleIndex
          (if unat sampleIndex < mCurrentEntrySampleIndex l
           then l\<lparr>mCurrentDeltaEntry := 0, mCurrentEntrySampleIndex := 0\<rparr> else l))"

section \<open>Construction\<close>

text \<open>The current sample of a fresh iterator is never read before it is set; it is 0 here.\<close>

definition reset :: "iterator \<Rightarrow> iterator" where
  "reset it = it\<lparr>mSampleToChunkIndex := 0, mFirstChunk := 0, mFirstChunkSampleIndex := 0, mStopChunk := 0,
     mStopChunkSampleIndex := 0, mSamplesPerChunk := 0, mChunkDesc := 0\<rparr>"

definition SampleIterator :: iterator where
  "SampleIterator = reset \<lparr>mInitialized = False, mSampleToChunkIndex = 0, mFirstChunk = 0,
     mFirstChunkSampleIndex = 0, mStopChunk = 0, mStopChunkSampleIndex = 0, mSamplesPerChunk = 0,
     mChunkDesc = 0, mCurrentChunkIndex = 0, mCurrentChunkOffset = 0, mCurrentChunkSampleSizes = [],
     mTimeToSampleIndex = 0, mTTSSampleIndex = 0, mTTSSampleTime = 0, mTTSCount = 0, mTTSDuration = 0,
     mCurrentSampleIndex = 0, mCurrentSampleOffset = 0, mCurrentSampleSize = 0, mCurrentSampleTime = 0,
     mCurrentSampleDuration = 0\<rparr>"

definition SampleTable :: table where
  "SampleTable = \<lparr>mChunkOffsetOffset = -1, mChunkOffsetType = 0, mNumChunkOffsets = 0,
     mSampleToChunkOffset = -1, mNumSampleToChunkOffsets = 0, mSampleToChunkEntries = [],
     mSampleSizeOffset = -1, mSampleSizeFieldSize = 0, mDefaultSampleSize = 0, mNumSampleSizes = 0,
     mTimeToSampleCount = 0, mTimeToSample = None, mSampleTimeEntries = None,
     mCompositionTimeDeltaEntries = None, mNumCompositionTimeDeltaEntries = 0,
     mCompositionDeltaLookup = CompositionDeltaLookup, mSyncSampleOffset = -1, mNumSyncSamples = 0,
     mSyncSamples = None, mLastSyncSampleIndex = 0, mSampleIterator = SampleIterator\<rparr>"

definition isValid :: "table \<Rightarrow> bool" where
  "isValid t \<longleftrightarrow> 0 \<le> mChunkOffsetOffset t \<and> 0 \<le> mSampleToChunkOffset t \<and> 0 \<le> mSampleSizeOffset t
     \<and> mTimeToSample t \<noteq> None"

definition countChunkOffsets :: "table \<Rightarrow> u32" where "countChunkOffsets t = mNumChunkOffsets t"
definition countSamples :: "table \<Rightarrow> u32" where "countSamples t = mNumSampleSizes t"

section \<open>Reading the boxes\<close>

text \<open>Each parser returns the table it leaves behind, on every path, and the status.\<close>

definition setChunkOffsetParams :: "source \<Rightarrow> u32 \<Rightarrow> int \<Rightarrow> nat \<Rightarrow> table \<Rightarrow> (table \<times> int) option" where
  "setChunkOffsetParams readAt type data_offset data_size t =
     (if 0 \<le> mChunkOffsetOffset t then Some (t, ERROR_MALFORMED)
      else do {
        CHECK (type = kChunkOffsetType32 \<or> type = kChunkOffsetType64);
        let t = t\<lparr>mChunkOffsetOffset := data_offset, mChunkOffsetType := type\<rparr> in
        if data_size < 8 then Some (t, ERROR_MALFORMED)
        else case readAt data_offset 8 of (r, header) \<Rightarrow>
          if r < 8 then Some (t, ERROR_IO)
          else do {
            version \<leftarrow> U32_AT header 0;
            if version \<noteq> 0 then Some (t, ERROR_MALFORMED)
            else do {
              n \<leftarrow> U32_AT header 4;
              let t = t\<lparr>mNumChunkOffsets := n\<rparr> in
              if mChunkOffsetType t = kChunkOffsetType32
              then if data_size < unat (8 + n * 4) then Some (t, ERROR_MALFORMED) else Some (t, OK)
              else if data_size < unat (8 + n * 8) then Some (t, ERROR_MALFORMED) else Some (t, OK)
            }
          }
      })"

text \<open>The loop of \<open>setSampleToChunkParams\<close>, with the entries filled so far.\<close>

function chunk_loop :: "source \<Rightarrow> u32 \<Rightarrow> table \<Rightarrow> (table \<times> int) option" where
  "chunk_loop readAt i t =
     (if i < mNumSampleToChunkOffsets t
      then case readAt (mSampleToChunkOffset t + 8 + int (unat (i * 12))) 12 of (r, buffer) \<Rightarrow>
        if r \<noteq> 12 then Some (t, ERROR_IO)
        else do {
          a \<leftarrow> U32_AT buffer 0;
          CHECK (1 \<le> a);
          b \<leftarrow> U32_AT buffer 4;
          d \<leftarrow> U32_AT buffer 8;
          chunk_loop readAt (i + 1)
            (t\<lparr>mSampleToChunkEntries := mSampleToChunkEntries t @
                [\<lparr>startChunk = a - 1, samplesPerChunk = b, chunkDesc = d\<rparr>]\<rparr>)
        }
      else Some (t, OK))"
  by pat_completeness auto
termination
  by (relation "measure (\<lambda>(_, i, t). unat (mNumSampleToChunkOffsets t - i))") (auto intro: unat_count_up)

declare chunk_loop.simps [simp del]

definition setSampleToChunkParams :: "source \<Rightarrow> (nat \<Rightarrow> bool) \<Rightarrow> int \<Rightarrow> nat \<Rightarrow> table \<Rightarrow> (table \<times> int) option" where
  "setSampleToChunkParams readAt alloc data_offset data_size t =
     (if 0 \<le> mSampleToChunkOffset t then Some (t, ERROR_MALFORMED)
      else let t = t\<lparr>mSampleToChunkOffset := data_offset\<rparr> in
        if data_size < 8 then Some (t, ERROR_MALFORMED)
        else case readAt data_offset 8 of (r, header) \<Rightarrow>
          if r < 8 then Some (t, ERROR_IO)
          else do {
            version \<leftarrow> U32_AT header 0;
            if version \<noteq> 0 then Some (t, ERROR_MALFORMED)
            else do {
              n \<leftarrow> U32_AT header 4;
              let t = t\<lparr>mNumSampleToChunkOffsets := n\<rparr> in
              if data_size < unat (8 + n * 12) then Some (t, ERROR_MALFORMED)
              else if (2 ^ 64 - 1) div 12 \<le> unat n then Some (t, ERROR_OUT_OF_RANGE)
              else if \<not> alloc (12 * unat n) then Some (t, ERROR_OUT_OF_RANGE)
              else chunk_loop readAt 0 (t\<lparr>mSampleToChunkEntries := []\<rparr>)
            }
          })"

definition setSampleSizeParams :: "source \<Rightarrow> u32 \<Rightarrow> int \<Rightarrow> nat \<Rightarrow> table \<Rightarrow> (table \<times> int) option" where
  "setSampleSizeParams readAt type data_offset data_size t =
     (if 0 \<le> mSampleSizeOffset t then Some (t, ERROR_MALFORMED)
      else do {
        CHECK (type = kSampleSizeType32 \<or> type = kSampleSizeTypeCompact);
        let t = t\<lparr>mSampleSizeOffset := data_offset\<rparr> in
        if data_size < 12 then Some (t, ERROR_MALFORMED)
        else case readAt data_offset 12 of (r, header) \<Rightarrow>
          if r < 12 then Some (t, ERROR_IO)
          else do {
            version \<leftarrow> U32_AT header 0;
            if version \<noteq> 0 then Some (t, ERROR_MALFORMED)
            else do {
              d \<leftarrow> U32_AT header 4;
              n \<leftarrow> U32_AT header 8;
              let t = t\<lparr>mDefaultSampleSize := d, mNumSampleSizes := n\<rparr> in
              if (0xffffffff - 12) div 16 < mNumSampleSizes t then Some (t, ERROR_MALFORMED)
              else if type = kSampleSizeType32
              then let t = t\<lparr>mSampleSizeFieldSize := 32\<rparr> in
                if mDefaultSampleSize t \<noteq> 0 then Some (t, OK)
                else if data_size < unat (12 + n * 4) then Some (t, ERROR_MALFORMED)
                else Some (t, OK)
              else if mDefaultSampleSize t AND 0xffffff00 \<noteq> 0 then Some (t, ERROR_MALFORMED)
              else let t = t\<lparr>mSampleSizeFieldSize := mDefaultSampleSize t AND 0xff, mDefaultSampleSize := 0\<rparr> in
                if mSampleSizeFieldSize t \<noteq> 4 \<and> mSampleSizeFieldSize t \<noteq> 8 \<and> mSampleSizeFieldSize t \<noteq> 16
                then Some (t, ERROR_MALFORMED)
                else if data_size < unat (12 + (n * mSampleSizeFieldSize t + 4) div 8)
                then Some (t, ERROR_MALFORMED)
                else Some (t, OK)
            }
          }
      })"

text \<open>
  An array of \<open>uint32_t\<close> into which bytes were stored: its complete elements, in memory order.
\<close>

fun stored_words :: "byte list \<Rightarrow> u32 list" where
  "stored_words (a # b # c # d # r) = load_le [a, b, c, d] # stored_words r"
| "stored_words _ = []"

definition setTimeToSampleParams :: "source \<Rightarrow> (nat \<Rightarrow> bool) \<Rightarrow> int \<Rightarrow> nat \<Rightarrow> table \<Rightarrow> (table \<times> int) option" where
  "setTimeToSampleParams readAt alloc data_offset data_size t =
     (if mTimeToSample t \<noteq> None \<or> data_size < 8 then Some (t, ERROR_MALFORMED)
      else case readAt data_offset 8 of (r, header) \<Rightarrow>
        if r < 8 then Some (t, ERROR_IO)
        else do {
          version \<leftarrow> U32_AT header 0;
          if version \<noteq> 0 then Some (t, ERROR_MALFORMED)
          else do {
            n \<leftarrow> U32_AT header 4;
            let t = t\<lparr>mTimeToSampleCount := n\<rparr>; allocSize = unat n * 2 * 4 in
            if 2 ^ 32 - 1 < allocSize then Some (t, ERROR_OUT_OF_RANGE)
            else if \<not> alloc (4 * unat (n * 2)) then Some (t, ERROR_OUT_OF_RANGE)
            else case readAt (data_offset + 8) allocSize of (r, bs) \<Rightarrow>
              if r < int allocSize then Some (t\<lparr>mTimeToSample := Some (stored_words bs)\<rparr>, ERROR_IO)
              else do {
                CHECK (unat (n * 2) \<le> length (stored_words bs));
                Some (t\<lparr>mTimeToSample := Some (map ntohl (stored_words bs))\<rparr>, OK)
              }
          }
        })"

definition setCompositionTimeToSampleParams :: "source \<Rightarrow> (nat \<Rightarrow> bool) \<Rightarrow> int \<Rightarrow> nat \<Rightarrow> table
    \<Rightarrow> (table \<times> int) option" where
  "setCompositionTimeToSampleParams readAt alloc data_offset data_size t =
     (if mCompositionTimeDeltaEntries t \<noteq> None \<or> data_size < 8 then Some (t, ERROR_MALFORMED)
      else case readAt data_offset 8 of (r, header) \<Rightarrow>
        if r < 8 then Some (t, ERROR_IO)
        else do {
          version \<leftarrow> U32_AT header 0;
          if version \<noteq> 0 then Some (t, ERROR_MALFORMED)
          else do {
            n \<leftarrow> U32_AT header 4;
            let numEntries = unat n in
            if data_size \<noteq> (numEntries + 1) * 8 then Some (t, ERROR_MALFORMED)
            else let t = t\<lparr>mNumCompositionTimeDeltaEntries := numEntries\<rparr> in
            if 2 ^ 32 - 1 < numEntries * 2 * 4 then Some (t, ERROR_OUT_OF_RANGE)
            else if \<not> alloc (8 * numEntries) then Some (t, ERROR_OUT_OF_RANGE)
            else case readAt (data_offset + 8) (numEntries * 8) of (r, bs) \<Rightarrow>
              if r < int numEntries * 8 then Some (t\<lparr>mCompositionTimeDeltaEntries := None\<rparr>, ERROR_IO)
              else do {
                CHECK (2 * numEntries \<le> length (stored_words bs));
                let es = map ntohl (stored_words bs) in
                Some (t\<lparr>mCompositionTimeDeltaEntries := Some es,
                        mCompositionDeltaLookup := setEntries (Some es) numEntries (mCompositionDeltaLookup t)\<rparr>, OK)
              }
          }
        })"

definition setSyncSampleParams :: "source \<Rightarrow> (nat \<Rightarrow> bool) \<Rightarrow> int \<Rightarrow> nat \<Rightarrow> table \<Rightarrow> (table \<times> int) option" where
  "setSyncSampleParams readAt alloc data_offset data_size t =
     (if 0 \<le> mSyncSampleOffset t \<or> data_size < 8 then Some (t, ERROR_MALFORMED)
      else let t = t\<lparr>mSyncSampleOffset := data_offset\<rparr> in
      case readAt data_offset 8 of (r, header) \<Rightarrow>
        if r < 8 then Some (t, ERROR_IO)
        else do {
          version \<leftarrow> U32_AT header 0;
          if version \<noteq> 0 then Some (t, ERROR_MALFORMED)
          else do {
            n \<leftarrow> U32_AT header 4;
            let t = t\<lparr>mNumSyncSamples := n\<rparr>; sz = unat n * 4 in
            if 2 ^ 64 - 1 < sz then Some (t, ERROR_OUT_OF_RANGE)
            else if \<not> alloc sz then Some (t, ERROR_OUT_OF_RANGE)
            else case readAt (mSyncSampleOffset t + 8) sz of (r, bs) \<Rightarrow>
              if r \<noteq> int sz then Some (t\<lparr>mSyncSamples := Some (stored_words bs)\<rparr>, ERROR_IO)
              else do {
                CHECK (unat n \<le> length (stored_words bs));
                Some (t\<lparr>mSyncSamples := Some (map (\<lambda>x. ntohl x - 1) (stored_words bs))\<rparr>, OK)
              }
          }
        })"

section \<open>The sample iterator\<close>

text \<open>The body of the loop of \<open>findChunkRange\<close>: go to the next entry of the sample-to-chunk table.\<close>

definition next_range :: "table \<Rightarrow> iterator \<Rightarrow> iterator option" where
  "next_range t it = do {
     entry \<leftarrow> fetch (mSampleToChunkEntries t) (unat (mSampleToChunkIndex it));
     let first = mStopChunkSampleIndex it;
         it' = it\<lparr>mFirstChunkSampleIndex := first, mFirstChunk := startChunk entry,
                 mSamplesPerChunk := samplesPerChunk entry, mChunkDesc := chunkDesc entry,
                 mSampleToChunkIndex := mSampleToChunkIndex it + 1\<rparr> in
     if mSampleToChunkIndex it + 1 < mNumSampleToChunkOffsets t
     then do {
       next \<leftarrow> fetch (mSampleToChunkEntries t) (unat (mSampleToChunkIndex it) + 1);
       Some (it'\<lparr>mStopChunk := startChunk next,
                 mStopChunkSampleIndex := first + (startChunk next - startChunk entry) * samplesPerChunk entry\<rparr>)
     }
     else Some (it'\<lparr>mStopChunk := 0xffffffff, mStopChunkSampleIndex := 0xffffffff\<rparr>)
   }"

lemma next_range_index: "next_range t it = Some it' \<Longrightarrow> mSampleToChunkIndex it' = mSampleToChunkIndex it + 1"
  by (auto simp: next_range_def Let_def split: bind_splits if_splits)

function chunk_range_loop :: "table \<Rightarrow> u32 \<Rightarrow> iterator \<Rightarrow> (iterator \<times> int) option" where
  "chunk_range_loop t sampleIndex it =
     (if mStopChunkSampleIndex it \<le> sampleIndex
      then if mSampleToChunkIndex it = mNumSampleToChunkOffsets t then Some (it, ERROR_OUT_OF_RANGE)
        else do { it \<leftarrow> next_range t it; chunk_range_loop t sampleIndex it }
      else Some (it, OK))"
  by pat_completeness auto
termination
  by (relation "measure (\<lambda>(t, _, it). unat (mNumSampleToChunkOffsets t - mSampleToChunkIndex it))")
    (auto simp: next_range_index intro: unat_count_up)

declare chunk_range_loop.simps [simp del]

definition findChunkRange :: "table \<Rightarrow> u32 \<Rightarrow> iterator \<Rightarrow> (iterator \<times> int) option" where
  "findChunkRange t sampleIndex it = do {
     CHECK (mFirstChunkSampleIndex it \<le> sampleIndex);
     chunk_range_loop t sampleIndex it
   }"

text \<open>The status and the value left in \<open>*offset\<close>.\<close>

definition getChunkOffset :: "source \<Rightarrow> table \<Rightarrow> u32 \<Rightarrow> (int \<times> int) option" where
  "getChunkOffset readAt t chunk =
     (if mNumChunkOffsets t \<le> chunk then Some (ERROR_OUT_OF_RANGE, 0)
      else if mChunkOffsetType t = kChunkOffsetType32
      then case readAt (mChunkOffsetOffset t + 8 + int (unat (4 * chunk))) 4 of (r, bs) \<Rightarrow>
        if r < 4 then Some (ERROR_IO, 0)
        else do { CHECK (4 \<le> length bs); Some (OK, uint (ntohl (load_le bs))) }
      else do {
        CHECK (mChunkOffsetType t = kChunkOffsetType64);
        case readAt (mChunkOffsetOffset t + 8 + int (unat (8 * chunk))) 8 of (r, bs) \<Rightarrow>
        if r < 8 then Some (ERROR_IO, 0)
        else do { CHECK (8 \<le> length bs); Some (OK, sint (ntoh64 (load_le bs))) }
      })"

text \<open>The status and \<open>*size\<close> when the status is \<open>OK\<close>.\<close>

definition getSampleSizeDirect :: "source \<Rightarrow> table \<Rightarrow> u32 \<Rightarrow> (int \<times> nat) option" where
  "getSampleSizeDirect readAt t sampleIndex =
     (if mNumSampleSizes t \<le> sampleIndex then Some (ERROR_OUT_OF_RANGE, 0)
      else if 0 < mDefaultSampleSize t then Some (OK, unat (mDefaultSampleSize t))
      else if mSampleSizeFieldSize t = 32
      then case readAt (mSampleSizeOffset t + 12 + int (unat (4 * sampleIndex))) 8 of (r, bs) \<Rightarrow>
        if r < 8 then Some (ERROR_IO, 0)
        else do { CHECK (8 \<le> length bs); Some (OK, unat (ntohl (ucast (load_le bs :: u64)))) }
      else if mSampleSizeFieldSize t = 16
      then case readAt (mSampleSizeOffset t + 12 + int (unat (2 * sampleIndex))) 2 of (r, bs) \<Rightarrow>
        if r < 2 then Some (ERROR_IO, 0)
        else do { CHECK (2 \<le> length bs); Some (OK, unat (ntohs (load_le bs))) }
      else if mSampleSizeFieldSize t = 8
      then case readAt (mSampleSizeOffset t + 12 + int (unat sampleIndex)) 1 of (r, bs) \<Rightarrow>
        if r < 1 then Some (ERROR_IO, 0)
        else do { x \<leftarrow> fetch bs 0; Some (OK, unat x) }
      else do {
        CHECK (mSampleSizeFieldSize t = 4);
        case readAt (mSampleSizeOffset t + 12 + int (unat (sampleIndex div 2))) 1 of (r, bs) \<Rightarrow>
        if r < 1 then Some (ERROR_IO, 0)
        else do { x \<leftarrow> fetch bs 0;
                  Some (OK, unat (if sampleIndex AND 1 \<noteq> 0 then x AND 0x0f else drop_bit 4 x)) }
      })"

function time_loop :: "table \<Rightarrow> u32 \<Rightarrow> iterator \<Rightarrow> (iterator \<times> int) option" where
  "time_loop t sampleIndex it =
     (if mTTSSampleIndex it + mTTSCount it \<le> sampleIndex
      then if mTimeToSampleIndex it = mTimeToSampleCount t then Some (it, ERROR_OUT_OF_RANGE)
        else do {
          es \<leftarrow> mTimeToSample t;
          count \<leftarrow> fetch es (unat (2 * mTimeToSampleIndex it));
          duration \<leftarrow> fetch es (unat (2 * mTimeToSampleIndex it + 1));
          time_loop t sampleIndex
            (it\<lparr>mTTSSampleIndex := mTTSSampleIndex it + mTTSCount it,
                mTTSSampleTime := mTTSSampleTime it + mTTSCount it * mTTSDuration it,
                mTTSCount := count, mTTSDuration := duration,
                mTimeToSampleIndex := mTimeToSampleIndex it + 1\<rparr>)
        }
      else Some (it, OK))"
  by pat_completeness auto
termination
  by (relation "measure (\<lambda>(t, _, it). unat (mTimeToSampleCount t - mTimeToSampleIndex it))")
    (auto intro: unat_count_up)

declare time_loop.simps [simp del]

text \<open>
  \<open>findSampleTimeAndDuration\<close> on the table with its iterator: the table, the status, the time
  and the duration. \<open>SampleTable::getCompositionTimeOffset\<close> moves the cursor of the lookup.
\<close>

definition getCompositionTimeOffset :: "u32 \<Rightarrow> table \<Rightarrow> (table \<times> u32) option" where
  "getCompositionTimeOffset sampleIndex t = do {
     (l, v) \<leftarrow> lookup_offset sampleIndex (mCompositionDeltaLookup t);
     Some (t\<lparr>mCompositionDeltaLookup := l\<rparr>, v) }"

definition findSampleTimeAndDuration :: "u32 \<Rightarrow> table \<Rightarrow> (table \<times> int \<times> u32 \<times> u32) option" where
  "findSampleTimeAndDuration sampleIndex t =
     (if mNumSampleSizes t \<le> sampleIndex then Some (t, ERROR_OUT_OF_RANGE, 0, 0)
      else do {
        (it, err) \<leftarrow> time_loop t sampleIndex (mSampleIterator t);
        let t = t\<lparr>mSampleIterator := it\<rparr> in
        if err \<noteq> OK then Some (t, err, 0, 0)
        else do {
          (t, delta) \<leftarrow> getCompositionTimeOffset sampleIndex t;
          Some (t, OK, mTTSSampleTime it + mTTSDuration it * (sampleIndex - mTTSSampleIndex it) + delta,
                mTTSDuration it)
        }
      })"

text \<open>The sample sizes of a chunk, pushed one by one.\<close>

function sizes_loop :: "source \<Rightarrow> table \<Rightarrow> u32 \<Rightarrow> u32 \<Rightarrow> iterator \<Rightarrow> (iterator \<times> int) option" where
  "sizes_loop readAt t first i it =
     (if i < mSamplesPerChunk it
      then do {
        (err, sampleSize) \<leftarrow> getSampleSizeDirect readAt t (first + i);
        if err \<noteq> OK then Some (it, err)
        else sizes_loop readAt t first (i + 1)
               (it\<lparr>mCurrentChunkSampleSizes := mCurrentChunkSampleSizes it @ [sampleSize]\<rparr>)
      }
      else Some (it, OK))"
  by pat_completeness auto
termination
  by (relation "measure (\<lambda>(_, _, _, i, it). unat (mSamplesPerChunk it - i))") (auto intro: unat_count_up)

declare sizes_loop.simps [simp del]

text \<open>
  \<open>seekTo\<close> in its four parts: the guards, the chunk range, the chunk (its offset and the sizes of
  its samples, read again when the chunk changes), and the sample within the chunk.
\<close>

definition seek_range :: "u32 \<Rightarrow> table \<Rightarrow> iterator \<Rightarrow> (iterator \<times> int) option" where
  "seek_range sampleIndex t it =
     (let it = (if \<not> mInitialized it \<or> sampleIndex < mFirstChunkSampleIndex it then reset it else it) in
      if mStopChunkSampleIndex it \<le> sampleIndex then findChunkRange t sampleIndex it else Some (it, OK))"

definition seek_chunk :: "source \<Rightarrow> u32 \<Rightarrow> table \<Rightarrow> iterator \<Rightarrow> (iterator \<times> int) option" where
  "seek_chunk readAt sampleIndex t it = do {
     CHECK (sampleIndex < mStopChunkSampleIndex it);
     CHECK (mSamplesPerChunk it \<noteq> 0);
     let chunk = (sampleIndex - mFirstChunkSampleIndex it) div mSamplesPerChunk it + mFirstChunk it in
     if \<not> mInitialized it \<or> chunk \<noteq> mCurrentChunkIndex it
     then do {
       (err, offset) \<leftarrow> getChunkOffset readAt t chunk;
       let it = it\<lparr>mCurrentChunkIndex := chunk, mCurrentChunkOffset := offset\<rparr> in
       if err \<noteq> OK then Some (it, err)
       else sizes_loop readAt t
              (mFirstChunkSampleIndex it + mSamplesPerChunk it * (mCurrentChunkIndex it - mFirstChunk it)) 0
              (it\<lparr>mCurrentChunkSampleSizes := []\<rparr>)
     }
     else Some (it, OK)
   }"

definition seek_sample :: "u32 \<Rightarrow> table \<Rightarrow> (table \<times> int) option" where
  "seek_sample sampleIndex t =
     (let it = mSampleIterator t;
          rel = unat ((sampleIndex - mFirstChunkSampleIndex it) mod mSamplesPerChunk it) in do {
      CHECK (rel \<le> length (mCurrentChunkSampleSizes it));
      sz \<leftarrow> fetch (mCurrentChunkSampleSizes it) rel;
      let it = it\<lparr>mCurrentSampleOffset := mCurrentChunkOffset it
                    + int (sum_list (take rel (mCurrentChunkSampleSizes it))),
                  mCurrentSampleSize := sz\<rparr>;
          it = (if sampleIndex < mTTSSampleIndex it
                then it\<lparr>mTimeToSampleIndex := 0, mTTSSampleIndex := 0, mTTSSampleTime := 0, mTTSCount := 0,
                        mTTSDuration := 0\<rparr> else it) in do {
      (t, err, time, duration) \<leftarrow> findSampleTimeAndDuration sampleIndex (t\<lparr>mSampleIterator := it\<rparr>);
      if err \<noteq> OK then Some (t, err)
      else Some (t\<lparr>mSampleIterator := (mSampleIterator t)
             \<lparr>mCurrentSampleTime := time, mCurrentSampleDuration := duration,
              mCurrentSampleIndex := sampleIndex, mInitialized := True\<rparr>\<rparr>, OK) } })"

definition seekTo :: "source \<Rightarrow> u32 \<Rightarrow> table \<Rightarrow> (table \<times> int) option" where
  "seekTo readAt sampleIndex t =
     (if mNumSampleSizes t \<le> sampleIndex then Some (t, ERROR_END_OF_STREAM)
      else if mSampleToChunkOffset t < 0 \<or> mChunkOffsetOffset t < 0 \<or> mSampleSizeOffset t < 0
            \<or> mTimeToSampleCount t = 0 then Some (t, ERROR_MALFORMED)
      else if mInitialized (mSampleIterator t) \<and> mCurrentSampleIndex (mSampleIterator t) = sampleIndex
      then Some (t, OK)
      else do {
        (it, err) \<leftarrow> seek_range sampleIndex t (mSampleIterator t);
        if err \<noteq> OK then Some (t\<lparr>mSampleIterator := it\<rparr>, err)
        else do {
          (it, err) \<leftarrow> seek_chunk readAt sampleIndex t it;
          let t = t\<lparr>mSampleIterator := it\<rparr> in
          if err \<noteq> OK then Some (t, err) else seek_sample sampleIndex t
        }
      })"

section \<open>Queries\<close>

function max_loop :: "source \<Rightarrow> table \<Rightarrow> u32 \<Rightarrow> nat \<Rightarrow> (int \<times> nat) option" where
  "max_loop readAt t i max_size =
     (if i < mNumSampleSizes t
      then do {
        (err, sample_size) \<leftarrow> getSampleSizeDirect readAt t i;
        if err \<noteq> OK then Some (err, max_size)
        else max_loop readAt t (i + 1) (if max_size < sample_size then sample_size else max_size)
      }
      else Some (OK, max_size))"
  by pat_completeness auto
termination
  by (relation "measure (\<lambda>(_, t, i, _). unat (mNumSampleSizes t - i))") (auto intro: unat_count_up)

declare max_loop.simps [simp del]

definition getMaxSampleSize :: "source \<Rightarrow> table \<Rightarrow> (int \<times> nat) option" where
  "getMaxSampleSize readAt t = max_loop readAt t 0 0"

definition abs_difference :: "u32 \<Rightarrow> u32 \<Rightarrow> u32" where
  "abs_difference time1 time2 = (if time2 < time1 then time1 - time2 else time2 - time1)"

definition CompareIncreasingTime :: "u32 \<times> u32 \<Rightarrow> u32 \<times> u32 \<Rightarrow> int" where
  "CompareIncreasingTime a b = (if snd a < snd b then -1 else if snd b < snd a then 1 else 0)"

text \<open>
  The two loops that fill the table of sample times: \<open>fill_run\<close> for one entry of the
  time-to-sample table, with the entries, the lookup, the sample index and the sample time.
\<close>

fun fill_run :: "u32 \<Rightarrow> nat \<Rightarrow> u32 \<Rightarrow> (u32 \<times> u32) list \<times> lookup \<times> u32 \<times> u32
    \<Rightarrow> ((u32 \<times> u32) list \<times> lookup \<times> u32 \<times> u32) option" where
  "fill_run num 0 delta st = Some st"
| "fill_run num (Suc j) delta (es, l, sampleIndex, sampleTime) =
     (if sampleIndex < num
      then do {
        (l, compTimeDelta) \<leftarrow> lookup_offset sampleIndex l;
        CHECK (unat sampleIndex < length es);
        fill_run num j delta (es[unat sampleIndex := (sampleIndex, sampleTime + compTimeDelta)], l,
          sampleIndex + 1, sampleTime + delta)
      }
      else fill_run num j delta (es, l, sampleIndex + 1, sampleTime + delta))"

function fill_loop :: "table \<Rightarrow> u32 \<Rightarrow> (u32 \<times> u32) list \<times> lookup \<times> u32 \<times> u32
    \<Rightarrow> ((u32 \<times> u32) list \<times> lookup \<times> u32 \<times> u32) option" where
  "fill_loop t i st =
     (if i < mTimeToSampleCount t
      then do {
        tts \<leftarrow> mTimeToSample t;
        n \<leftarrow> fetch tts (unat (2 * i));
        delta \<leftarrow> fetch tts (unat (2 * i + 1));
        st \<leftarrow> fill_run (mNumSampleSizes t) (unat n) delta st;
        fill_loop t (i + 1) st
      }
      else Some st)"
  by pat_completeness auto
termination
  by (relation "measure (\<lambda>(t, i, _). unat (mTimeToSampleCount t - i))") (auto intro: unat_count_up)

declare fill_loop.simps [simp del]

text \<open>
  \<open>qsort\<close> and the contents of fresh memory are arguments; an allocation that fails leaves the
  table unbuilt.
\<close>

definition buildSampleEntriesTable :: "((u32 \<times> u32) list \<Rightarrow> (u32 \<times> u32) list) \<Rightarrow> (nat \<Rightarrow> u32 \<times> u32)
    \<Rightarrow> (nat \<Rightarrow> bool) \<Rightarrow> table \<Rightarrow> table option" where
  "buildSampleEntriesTable qsort garbage alloc t =
     (if mSampleTimeEntries t \<noteq> None \<or> mNumSampleSizes t = 0 then Some t
      else let n = unat (mNumSampleSizes t) in
        if \<not> alloc (8 * n) then Some t
        else do {
          (es, l, _, _) \<leftarrow> fill_loop t 0 (map garbage [0..<n], mCompositionDeltaLookup t, 0, 0);
          Some (t\<lparr>mCompositionDeltaLookup := l, mSampleTimeEntries := Some (qsort es)\<rparr>)
        })"

definition getSampleTime :: "table \<Rightarrow> nat \<Rightarrow> u64 \<Rightarrow> u64 \<Rightarrow> u64 option" where
  "getSampleTime t sample_index scale_num scale_den =
     (if sample_index < unat (mNumSampleSizes t) \<and> mSampleTimeEntries t \<noteq> None \<and> scale_den \<noteq> 0
      then do { es \<leftarrow> mSampleTimeEntries t; e \<leftarrow> fetch es sample_index;
                Some (ucast (snd e) * scale_num div scale_den) }
      else Some 0)"

text \<open>
  The binary search that both \<open>findSampleAtTime\<close> and \<open>findSyncSampleNear\<close> contain: the position
  and whether the key was met exactly.
\<close>

definition center_of :: "u32 \<Rightarrow> u32 \<Rightarrow> u32" where
  "center_of left right = left + (right - left) div 2"

lemma unat_center:
  assumes "left < right"
  shows "unat (center_of left right) = unat left + (unat right - unat left) div 2"
proof -
  have "unat ((right - left) div 2) = (unat right - unat left) div 2"
    using assms by (simp add: unat_div unat_sub)
  moreover have "unat left + (unat right - unat left) div 2 < 2 ^ 32"
    using unsigned_less [of right, where ?'a = nat] assms by (simp add: word_less_nat_alt)
  ultimately show ?thesis by (simp add: center_of_def unat_word_ariths)
qed

lemma center_between:
  assumes "left < right"
  shows "left \<le> center_of left right" "center_of left right < right"
    "unat (center_of left right + 1) = unat (center_of left right) + 1"
proof -
  have lt: "unat left < unat right" using assms by (simp add: word_less_nat_alt)
  then show c: "left \<le> center_of left right" "center_of left right < right"
    by (auto simp: word_le_nat_alt word_less_nat_alt unat_center [OF assms])
  have "unat (center_of left right) + 1 < 2 ^ 32"
    using c(2) unsigned_less [of right, where ?'a = nat] by (simp add: word_less_nat_alt)
  then show "unat (center_of left right + 1) = unat (center_of left right) + 1"
    by (simp add: unat_word_ariths)
qed

function search :: "(u32 \<Rightarrow> ('k::linorder) option) \<Rightarrow> 'k \<Rightarrow> u32 \<Rightarrow> u32 \<Rightarrow> (u32 \<times> bool) option" where
  "search key x left right =
     (if left < right
      then do {
        y \<leftarrow> key (center_of left right);
        if x < y then search key x left (center_of left right)
        else if y < x then search key x (center_of left right + 1) right
        else Some (center_of left right, True)
      }
      else Some (left, False))"
  by pat_completeness auto
termination
proof (relation "measure (\<lambda>(_, _, l, r). unat r - unat l)")
  fix key :: "u32 \<Rightarrow> ('k::linorder) option" and x y and l r :: u32
  assume lr: "l < r"
  from center_between [OF lr] lr show "((key, x, l, center_of l r), (key, x, l, r)) \<in> measure (\<lambda>(_, _, l, r). unat r - unat l)"
    by (simp add: word_less_nat_alt word_le_nat_alt)
  from center_between [OF lr] lr show "((key, x, center_of l r + 1, r), (key, x, l, r)) \<in> measure (\<lambda>(_, _, l, r). unat r - unat l)"
    by (simp add: word_less_nat_alt word_le_nat_alt)
qed simp

declare search.simps [simp del]

text \<open>What the flags become at the two ends of a table; the error is that of a search after its end.\<close>

definition adjust_flags :: "u32 \<Rightarrow> u32 \<Rightarrow> u32 \<Rightarrow> u32 option" where
  "adjust_flags position num flags =
     (if position = num then if flags = kFlagAfter then None else Some kFlagBefore
      else if position = 0 then Some kFlagAfter
      else Some flags)"

definition findSampleAtTime :: "((u32 \<times> u32) list \<Rightarrow> (u32 \<times> u32) list) \<Rightarrow> (nat \<Rightarrow> u32 \<times> u32)
    \<Rightarrow> (nat \<Rightarrow> bool) \<Rightarrow> u64 \<Rightarrow> u64 \<Rightarrow> u64 \<Rightarrow> u32 \<Rightarrow> table \<Rightarrow> (table \<times> int \<times> u32 option) option" where
  "findSampleAtTime qsort garbage alloc req_time scale_num scale_den flags t = do {
     t \<leftarrow> buildSampleEntriesTable qsort garbage alloc t;
     case mSampleTimeEntries t of
       None \<Rightarrow> Some (t, ERROR_OUT_OF_RANGE, None)
     | Some es \<Rightarrow> do {
         (position, found) \<leftarrow> search (\<lambda>c. getSampleTime t (unat c) scale_num scale_den) req_time 0 (mNumSampleSizes t);
         if found then do { e \<leftarrow> fetch es (unat position); Some (t, OK, Some (fst e)) }
         else case adjust_flags position (mNumSampleSizes t) flags of
           None \<Rightarrow> Some (t, ERROR_OUT_OF_RANGE, None)
         | Some flags \<Rightarrow> do {
             closestIndex \<leftarrow>
               (if flags = kFlagBefore then Some (position - 1)
                else if flags = kFlagAfter then Some position
                else do {
                  CHECK (flags = kFlagClosest);
                  upper \<leftarrow> getSampleTime t (unat position) scale_num scale_den;
                  lower \<leftarrow> getSampleTime t (unat (position - 1)) scale_num scale_den;
                  Some (if abs_difference (ucast req_time) (ucast lower) < abs_difference (ucast upper) (ucast req_time)
                        then position - 1 else position)
                });
             e \<leftarrow> fetch es (unat closestIndex);
             Some (t, OK, Some (fst e))
           }
       }
   }"

text \<open>The closest of two sync samples, by the times that the iterator finds for them.\<close>

definition closest_sync :: "source \<Rightarrow> u32 \<Rightarrow> u32 \<Rightarrow> u32 list \<Rightarrow> table \<Rightarrow> (table \<times> int \<times> u32) option" where
  "closest_sync readAt start_sample_index left ss t = do {
     (t, err) \<leftarrow> seekTo readAt start_sample_index t;
     if err \<noteq> OK then Some (t, err, left)
     else let sample_time = mCurrentSampleTime (mSampleIterator t) in do {
       upper \<leftarrow> fetch ss (unat left);
       (t, err) \<leftarrow> seekTo readAt upper t;
       if err \<noteq> OK then Some (t, err, left)
       else let upper_time = mCurrentSampleTime (mSampleIterator t) in do {
         lower \<leftarrow> fetch ss (unat (left - 1));
         (t, err) \<leftarrow> seekTo readAt lower t;
         if err \<noteq> OK then Some (t, err, left)
         else let lower_time = mCurrentSampleTime (mSampleIterator t) in
           Some (t, OK, if abs_difference sample_time lower_time < abs_difference upper_time sample_time
                        then left - 1 else left)
       }
     }
   }"

text \<open>The table, the status and \<open>*sample_index\<close>.\<close>

definition findSyncSampleNear :: "source \<Rightarrow> u32 \<Rightarrow> u32 \<Rightarrow> table \<Rightarrow> (table \<times> int \<times> u32) option" where
  "findSyncSampleNear readAt start_sample_index flags t =
     (if mSyncSampleOffset t < 0 then Some (t, OK, start_sample_index)
      else if mNumSyncSamples t = 0 then Some (t, OK, 0)
      else do {
        ss \<leftarrow> mSyncSamples t;
        (left, found) \<leftarrow> search (\<lambda>c. fetch ss (unat c)) start_sample_index 0 (mNumSyncSamples t);
        if found then Some (t, OK, start_sample_index)
        else case adjust_flags left (mNumSyncSamples t) flags of
          None \<Rightarrow> Some (t, ERROR_OUT_OF_RANGE, 0)
        | Some flags \<Rightarrow> do {
            (t, err, left) \<leftarrow>
              (if flags = kFlagBefore then Some (t, OK, left - 1)
               else if flags = kFlagAfter then Some (t, OK, left)
               else do { CHECK (flags = kFlagClosest); closest_sync readAt start_sample_index left ss t });
            if err \<noteq> OK then Some (t, err, 0)
            else do { x \<leftarrow> fetch ss (unat left); Some (t, OK, x) }
          }
      })"

definition kMaxNumSyncSamplesToScan :: nat where "kMaxNumSyncSamplesToScan = 20"

fun thumbnail_loop :: "source \<Rightarrow> table \<Rightarrow> u32 list \<Rightarrow> bool \<Rightarrow> u32 \<times> nat \<Rightarrow> (int \<times> u32) option" where
  "thumbnail_loop readAt t [] first (best, max_size) = Some (OK, best)"
| "thumbnail_loop readAt t (x # xs) first (best, max_size) = do {
     (err, sampleSize) \<leftarrow> getSampleSizeDirect readAt t x;
     if err \<noteq> OK then Some (err, 0)
     else thumbnail_loop readAt t xs False (if first \<or> max_size < sampleSize then (x, sampleSize) else (best, max_size))
   }"

definition findThumbnailSample :: "source \<Rightarrow> table \<Rightarrow> (int \<times> u32) option" where
  "findThumbnailSample readAt t =
     (if mSyncSampleOffset t < 0 then Some (OK, 0)
      else let n = unat (mNumSyncSamples t);
               n = (if kMaxNumSyncSamplesToScan < n then kMaxNumSyncSamplesToScan else n)
           in if n = 0 then Some (OK, 0)
              else do {
                ss \<leftarrow> mSyncSamples t;
                CHECK (n \<le> length ss);
                thumbnail_loop readAt t (take n ss) True (0, 0)
              })"

function sync_scan :: "u32 list \<Rightarrow> nat \<Rightarrow> u32 \<Rightarrow> nat \<Rightarrow> nat option" where
  "sync_scan ss num sampleIndex i =
     (if i < num
      then do { x \<leftarrow> fetch ss i; if x < sampleIndex then sync_scan ss num sampleIndex (i + 1) else Some i }
      else Some i)"
  by pat_completeness auto
termination
  by (relation "measure (\<lambda>(_, num, _, i). num - i)") auto

declare sync_scan.simps [simp del]

definition is_sync_sample :: "u32 \<Rightarrow> table \<Rightarrow> (table \<times> bool) option" where
  "is_sync_sample sampleIndex t =
     (if mSyncSampleOffset t < 0 then Some (t, True)
      else let num = unat (mNumSyncSamples t); last = mLastSyncSampleIndex t; ss = (case mSyncSamples t of Some ss \<Rightarrow> ss | None \<Rightarrow> []) in do {
        i \<leftarrow> (if last < num
             then do { x \<leftarrow> fetch ss last; Some (if x \<le> sampleIndex then last else 0) }
             else Some 0);
        i \<leftarrow> sync_scan ss num sampleIndex i;
        found \<leftarrow> (if i < num then do { x \<leftarrow> fetch ss i; Some (x = sampleIndex) } else Some False);
        Some (t\<lparr>mLastSyncSampleIndex := i\<rparr>, found)
      })"

text \<open>
  \<open>getMetaDataForSample\<close> with all outputs asked for, or without the sync flag: the offset, the
  size, the composition time, the duration and the flag.
\<close>

record meta_data =
  md_offset :: int
  md_size :: nat
  md_time :: u32
  md_duration :: u32
  md_sync :: bool

definition getMetaDataForSample :: "source \<Rightarrow> u32 \<Rightarrow> bool \<Rightarrow> table \<Rightarrow> (table \<times> int \<times> meta_data option) option" where
  "getMetaDataForSample readAt sampleIndex want_sync t = do {
     (t, err) \<leftarrow> seekTo readAt sampleIndex t;
     if err \<noteq> OK then Some (t, err, None)
     else let it = mSampleIterator t in do {
       (t, sync) \<leftarrow> (if want_sync then is_sync_sample sampleIndex t else Some (t, False));
       Some (t, OK, Some \<lparr>md_offset = mCurrentSampleOffset it, md_size = mCurrentSampleSize it,
         md_time = mCurrentSampleTime it, md_duration = mCurrentSampleDuration it, md_sync = sync\<rparr>)
     }
   }"

end
