(* ===== verification/SampleTableFacts.thy ===== *)
theory SampleTableFacts
  imports SampleTables
begin

text \<open>
  What the sample table guarantees: cursors that answer as a search from the start would,
  binary searches, size checks of the boxes; and where the code falls short of it.
\<close>

section \<open>Runs of equal values\<close>

text \<open>A run-length table: the value at an index, and the number of indices it covers.\<close>

fun run_value :: "(nat \<times> 'v) list \<Rightarrow> nat \<Rightarrow> 'v option" where
  "run_value [] i = None"
| "run_value ((n, v) # rs) i = (if i < n then Some v else run_value rs (i - n))"

definition run_length :: "(nat \<times> 'v) list \<Rightarrow> nat" where
  "run_length rs = sum_list (map fst rs)"

lemma run_length_simps [simp]: "run_length [] = 0" "run_length ((n, v) # rs) = n + run_length rs"
  "run_length (xs @ ys) = run_length xs + run_length ys"
  by (simp_all add: run_length_def)

lemma run_value_append:
  "run_value (xs @ ys) i = (if i < run_length xs then run_value xs i else run_value ys (i - run_length xs))"
  by (induction xs arbitrary: i) auto

lemma run_value_None: "run_value rs i = None \<longleftrightarrow> run_length rs \<le> i"
  by (induction rs arbitrary: i) (auto split: if_splits)

text \<open>The first \<open>n\<close> pairs of an array of counts and values.\<close>

definition pairs :: "u32 list \<Rightarrow> nat \<Rightarrow> (nat \<times> u32) list" where
  "pairs es n = map (\<lambda>k. (unat (es ! (2 * k)), es ! (2 * k + 1))) [0..<n]"

lemma length_pairs [simp]: "length (pairs es n) = n"
  by (simp add: pairs_def)

lemma pairs_0 [simp]: "pairs es 0 = []"
  by (simp add: pairs_def)

lemma pairs_Suc: "pairs es (Suc n) = pairs es n @ [(unat (es ! (2 * n)), es ! (2 * n + 1))]"
  by (simp add: pairs_def)

lemma pairs_split: "k \<le> n \<Longrightarrow> \<exists>rest. pairs es n = pairs es k @ rest"
  by (auto simp: pairs_def le_iff_add upt_add_eq_append [of 0])

section \<open>The composition time cursor\<close>

definition lookup_ok :: "u32 list \<Rightarrow> nat \<Rightarrow> lookup \<Rightarrow> bool" where
  "lookup_ok es n l \<longleftrightarrow> mDeltaEntries l = Some es \<and> mNumDeltaEntries l = n \<and> 2 * n \<le> length es
     \<and> mCurrentDeltaEntry l \<le> n \<and> mCurrentEntrySampleIndex l = run_length (pairs es (mCurrentDeltaEntry l))"

lemma lookup_loop_value:
  assumes "lookup_ok es n l" "mCurrentEntrySampleIndex l \<le> unat i"
  shows "\<exists>l'. lookup_loop es i l = Some (l', case run_value (pairs es n) (unat i) of Some v \<Rightarrow> v | None \<Rightarrow> 0)
    \<and> lookup_ok es n l'"
  using assms
proof (induction es i l rule: lookup_loop.induct)
  case (1 es i l)
  let ?k = "mCurrentDeltaEntry l"
  show ?case
  proof (cases "?k < n")
    case False
    then have "?k = n" using "1.prems"(1) by (simp add: lookup_ok_def)
    then have "run_value (pairs es n) (unat i) = None"
      using "1.prems" by (simp add: run_value_None lookup_ok_def)
    then show ?thesis using False "1.prems" by (subst lookup_loop.simps) (auto simp: lookup_ok_def)
  next
    case True
    then have in_range: "2 * ?k + 1 < length es" using "1.prems"(1) by (auto simp: lookup_ok_def)
    let ?c = "es ! (2 * ?k)" and ?v = "es ! (2 * ?k + 1)"
    have start: "mCurrentEntrySampleIndex l = run_length (pairs es ?k)" using "1.prems"(1) by (simp add: lookup_ok_def)
    show ?thesis
    proof (cases "unat i < mCurrentEntrySampleIndex l + unat ?c")
      case inside: True
      obtain rest where "pairs es n = pairs es (Suc ?k) @ rest" using pairs_split [of "Suc ?k" n es] True by auto
      moreover have "unat i - run_length (pairs es ?k) < unat ?c" "\<not> unat i < run_length (pairs es ?k)"
        using inside "1.prems"(2) start by linarith+
      ultimately have "run_value (pairs es n) (unat i) = Some ?v"
        by (simp add: pairs_Suc run_value_append)
      then show ?thesis using True inside in_range "1.prems"
        by (subst lookup_loop.simps) (auto simp: lookup_ok_def)
    next
      case False
      let ?l = "l\<lparr>mCurrentEntrySampleIndex := mCurrentEntrySampleIndex l + unat ?c, mCurrentDeltaEntry := ?k + 1\<rparr>"
      have "lookup_ok es n ?l" using True "1.prems"(1) start by (simp add: lookup_ok_def pairs_Suc)
      moreover have "mCurrentEntrySampleIndex ?l \<le> unat i" using False by simp
      moreover have "lookup_loop es i l = lookup_loop es i ?l"
        using True False in_range "1.prems"(1) by (subst lookup_loop.simps) (simp add: lookup_ok_def)
      ultimately show ?thesis
        using "1.IH" [of ?c] True False in_range "1.prems"(1) by (simp add: lookup_ok_def)
    qed
  qed
qed

lemma lookup_offset_value:
  assumes "lookup_ok es n l"
  shows "\<exists>l'. lookup_offset i l = Some (l', case run_value (pairs es n) (unat i) of Some v \<Rightarrow> v | None \<Rightarrow> 0)
    \<and> lookup_ok es n l'"
proof -
  let ?l = "if unat i < mCurrentEntrySampleIndex l
    then l\<lparr>mCurrentDeltaEntry := 0, mCurrentEntrySampleIndex := 0\<rparr> else l"
  have "lookup_ok es n ?l" "mCurrentEntrySampleIndex ?l \<le> unat i"
    using assms by (auto simp: lookup_ok_def)
  from lookup_loop_value [OF this] assms show ?thesis
    by (simp add: lookup_offset_def lookup_ok_def)
qed

section \<open>The decoding time cursor\<close>

text \<open>The time at which a sample is decoded: the durations of all samples before it.\<close>

fun decode_time :: "(nat \<times> u32) list \<Rightarrow> nat \<Rightarrow> u32" where
  "decode_time [] i = 0"
| "decode_time ((n, d) # rs) i = (if i < n then of_nat i * d else of_nat n * d + decode_time rs (i - n))"

definition total_time :: "(nat \<times> u32) list \<Rightarrow> u32" where
  "total_time rs = sum_list (map (\<lambda>(n, d). of_nat n * d) rs)"

lemma total_time_simps [simp]: "total_time [] = 0" "total_time (xs @ ys) = total_time xs + total_time ys"
  "total_time [(n, d)] = of_nat n * d"
  by (simp_all add: total_time_def)

lemma decode_time_append:
  "decode_time (xs @ ys) i = (if i < run_length xs then decode_time xs i
     else total_time xs + decode_time ys (i - run_length xs))"
  by (induction xs arbitrary: i) (auto simp: total_time_def)

text \<open>The time-to-sample table of a track, and a cursor that stands on one of its entries.\<close>

definition tts_pairs :: "table \<Rightarrow> (nat \<times> u32) list" where
  "tts_pairs t = (case mTimeToSample t of Some es \<Rightarrow> pairs es (unat (mTimeToSampleCount t)) | None \<Rightarrow> [])"

definition tts_ok :: "table \<Rightarrow> bool" where
  "tts_ok t \<longleftrightarrow> (case mTimeToSample t of None \<Rightarrow> False | Some es \<Rightarrow> 2 * unat (mTimeToSampleCount t) \<le> length es)
     \<and> 2 * unat (mTimeToSampleCount t) < 2 ^ 32 \<and> run_length (tts_pairs t) < 2 ^ 32"

definition cursor_ok :: "table \<Rightarrow> iterator \<Rightarrow> bool" where
  "cursor_ok t it \<longleftrightarrow> (let k = unat (mTimeToSampleIndex it); ps = take k (tts_pairs t) in
     k \<le> unat (mTimeToSampleCount t)
     \<and> unat (mTTSSampleIndex it) + unat (mTTSCount it) = run_length ps
     \<and> mTTSSampleTime it + mTTSCount it * mTTSDuration it = total_time ps
     \<and> (if k = 0 then mTTSSampleIndex it = 0 \<and> mTTSCount it = 0
        else last ps = (unat (mTTSCount it), mTTSDuration it)))"

lemma run_length_take: "run_length (take k ps) \<le> run_length ps"
  by (metis append_take_drop_id le_add1 run_length_simps(3))

lemma cursor_before:
  assumes "cursor_ok t it" "tts_ok t" "unat (mTTSSampleIndex it) \<le> i" "i < unat (mTTSSampleIndex it) + unat (mTTSCount it)"
  shows "run_value (tts_pairs t) i = Some (mTTSDuration it)"
    "decode_time (tts_pairs t) i = mTTSSampleTime it + mTTSDuration it * (of_nat i - mTTSSampleIndex it)"
proof -
  let ?k = "unat (mTimeToSampleIndex it)"
  let ?ps = "take ?k (tts_pairs t)"
  have c: "unat (mTTSSampleIndex it) + unat (mTTSCount it) = run_length ?ps"
      "mTTSSampleTime it + mTTSCount it * mTTSDuration it = total_time ?ps"
      "if ?k = 0 then mTTSSampleIndex it = 0 \<and> mTTSCount it = 0 else last ?ps = (unat (mTTSCount it), mTTSDuration it)"
    using assms(1) by (auto simp: cursor_ok_def Let_def)
  have "?k \<noteq> 0" using c(3) assms(4) by (auto split: if_splits)
  then have l: "last ?ps = (unat (mTTSCount it), mTTSDuration it)" using c(3) by simp
  have "?ps \<noteq> []"
  proof
    assume "?ps = []"
    then have "run_length ?ps = 0" by (simp only: run_length_simps)
    then show False using c(1) assms(3,4) by linarith
  qed
  then obtain qs where qs: "?ps = qs @ [(unat (mTTSCount it), mTTSDuration it)]"
    using l by (metis append_butlast_last_id)
  have rl: "run_length qs = unat (mTTSSampleIndex it)" using c(1) qs by simp
  have tt: "total_time qs = mTTSSampleTime it" using c(2) unfolding qs by simp
  have all: "tts_pairs t = qs @ (unat (mTTSCount it), mTTSDuration it) # drop ?k (tts_pairs t)"
    using qs append_take_drop_id [of ?k "tts_pairs t"] by simp
  have i: "\<not> i < run_length qs" "i - run_length qs < unat (mTTSCount it)" using assms(3,4) rl by linarith+
  show "run_value (tts_pairs t) i = Some (mTTSDuration it)"
    by (subst all) (use i in \<open>simp add: run_value_append\<close>)
  have "(of_nat (i - run_length qs) :: u32) = of_nat i - mTTSSampleIndex it"
    using assms(3) rl by (simp add: of_nat_diff)
  then show "decode_time (tts_pairs t) i = mTTSSampleTime it + mTTSDuration it * (of_nat i - mTTSSampleIndex it)"
    by (subst all) (use i tt in \<open>simp add: decode_time_append\<close>)
qed

text \<open>Everything that \<open>seekTo\<close> set before it moves the time cursor.\<close>

definition same_but_time :: "iterator \<Rightarrow> iterator \<Rightarrow> bool" where
  "same_but_time it it' \<longleftrightarrow> mSampleToChunkIndex it' = mSampleToChunkIndex it \<and> mFirstChunk it' = mFirstChunk it
     \<and> mFirstChunkSampleIndex it' = mFirstChunkSampleIndex it \<and> mStopChunkSampleIndex it' = mStopChunkSampleIndex it
     \<and> mSamplesPerChunk it' = mSamplesPerChunk it \<and> mCurrentChunkIndex it' = mCurrentChunkIndex it
     \<and> mCurrentChunkOffset it' = mCurrentChunkOffset it \<and> mCurrentChunkSampleSizes it' = mCurrentChunkSampleSizes it
     \<and> mCurrentSampleOffset it' = mCurrentSampleOffset it \<and> mCurrentSampleSize it' = mCurrentSampleSize it"

lemma cursor_step:
  assumes "cursor_ok t it" "tts_ok t" "mTimeToSampleIndex it \<noteq> mTimeToSampleCount t"
  defines "k \<equiv> unat (mTimeToSampleIndex it)"
  shows "\<exists>es. mTimeToSample t = Some es \<and> unat (2 * mTimeToSampleIndex it) = 2 * k
    \<and> unat (2 * mTimeToSampleIndex it + 1) = 2 * k + 1 \<and> 2 * k + 1 < length es
    \<and> cursor_ok t (it\<lparr>mTTSSampleIndex := mTTSSampleIndex it + mTTSCount it,
                mTTSSampleTime := mTTSSampleTime it + mTTSCount it * mTTSDuration it,
                mTTSCount := es ! (2 * k), mTTSDuration := es ! (2 * k + 1),
                mTimeToSampleIndex := mTimeToSampleIndex it + 1\<rparr>)
    \<and> unat (mTTSSampleIndex it + mTTSCount it) = unat (mTTSSampleIndex it) + unat (mTTSCount it)"
proof -
  let ?n = "unat (mTimeToSampleCount t)"
  obtain es where es: "mTimeToSample t = Some es" "2 * ?n \<le> length es" "2 * ?n < 2 ^ 32" "run_length (tts_pairs t) < 2 ^ 32"
    using assms(2) by (auto simp: tts_ok_def split: option.splits)
  have k: "k < ?n"
    using assms(1,3) by (auto simp: cursor_ok_def Let_def k_def word_unat_eq_iff order.order_iff_strict)
  have u: "unat (2 * mTimeToSampleIndex it) = 2 * k" "unat (2 * mTimeToSampleIndex it + 1) = 2 * k + 1"
      "unat (mTimeToSampleIndex it + 1) = k + 1"
    using k es(3) by (simp_all add: unat_word_ariths k_def)
  have ps: "tts_pairs t = pairs es ?n" by (simp add: tts_pairs_def es(1))
  have tk: "take j (tts_pairs t) = pairs es j" if "j \<le> ?n" for j
    using that by (simp add: ps pairs_def take_map take_upt)
  have c: "unat (mTTSSampleIndex it) + unat (mTTSCount it) = run_length (pairs es k)"
      "mTTSSampleTime it + mTTSCount it * mTTSDuration it = total_time (pairs es k)"
    using assms(1) k tk [of k] by (auto simp: cursor_ok_def Let_def k_def)
  have "run_length (pairs es k) < 2 ^ 32"
    using run_length_take [of k "tts_pairs t"] tk [of k] k es(4) by simp
  then have idx: "unat (mTTSSampleIndex it + mTTSCount it) = unat (mTTSSampleIndex it) + unat (mTTSCount it)"
    using c(1) by (simp add: unat_word_ariths)
  have "cursor_ok t (it\<lparr>mTTSSampleIndex := mTTSSampleIndex it + mTTSCount it,
                mTTSSampleTime := mTTSSampleTime it + mTTSCount it * mTTSDuration it,
                mTTSCount := es ! (2 * k), mTTSDuration := es ! (2 * k + 1),
                mTimeToSampleIndex := mTimeToSampleIndex it + 1\<rparr>)"
    using k tk [of "Suc k"] u(3) idx c by (simp add: cursor_ok_def Let_def pairs_Suc)
  then show ?thesis using es u idx k by auto
qed

lemma time_loop_value:
  assumes "cursor_ok t it" "tts_ok t" "mTTSSampleIndex it \<le> i"
  shows "\<exists>it'. time_loop t i it = Some (it', if unat i < run_length (tts_pairs t) then OK else ERROR_OUT_OF_RANGE)
    \<and> cursor_ok t it' \<and> same_but_time it it' \<and> mTTSSampleIndex it' \<le> i
    \<and> (unat i < run_length (tts_pairs t) \<longrightarrow> unat i < unat (mTTSSampleIndex it') + unat (mTTSCount it'))"
  using assms
proof (induction t i it rule: time_loop.induct)
  case (1 t i it)
  let ?k = "unat (mTimeToSampleIndex it)"
  have c: "unat (mTTSSampleIndex it) + unat (mTTSCount it) = run_length (take ?k (tts_pairs t))"
    using "1.prems"(1) by (simp add: cursor_ok_def Let_def)
  moreover have "run_length (tts_pairs t) < 2 ^ 32" using "1.prems"(2) by (simp add: tts_ok_def)
  ultimately have sum: "unat (mTTSSampleIndex it + mTTSCount it) = unat (mTTSSampleIndex it) + unat (mTTSCount it)"
    using run_length_take [of ?k "tts_pairs t"] by (simp add: unat_word_ariths)
  show ?case
  proof (cases "mTTSSampleIndex it + mTTSCount it \<le> i")
    case False
    then have "unat i < run_length (tts_pairs t)"
      using c sum run_length_take [of ?k "tts_pairs t"] by (simp add: word_le_nat_alt)
    then show ?thesis using False "1.prems" sum
      by (subst time_loop.simps) (auto simp: same_but_time_def word_le_nat_alt)
  next
    case past: True
    show ?thesis
    proof (cases "mTimeToSampleIndex it = mTimeToSampleCount t")
      case True
      then have "take ?k (tts_pairs t) = tts_pairs t"
        using "1.prems"(2) by (auto simp: tts_pairs_def tts_ok_def split: option.splits)
      then have "\<not> unat i < run_length (tts_pairs t)" using past c sum by (simp add: word_le_nat_alt)
      then show ?thesis using past True "1.prems"
        by (subst time_loop.simps) (auto simp: same_but_time_def)
    next
      case False
      from cursor_step [OF "1.prems"(1,2) False] obtain es where
        es: "mTimeToSample t = Some es" "unat (2 * mTimeToSampleIndex it) = 2 * ?k"
          "unat (2 * mTimeToSampleIndex it + 1) = 2 * ?k + 1" "2 * ?k + 1 < length es"
          "cursor_ok t (it\<lparr>mTTSSampleIndex := mTTSSampleIndex it + mTTSCount it,
                mTTSSampleTime := mTTSSampleTime it + mTTSCount it * mTTSDuration it,
                mTTSCount := es ! (2 * ?k), mTTSDuration := es ! (2 * ?k + 1),
                mTimeToSampleIndex := mTimeToSampleIndex it + 1\<rparr>)" (is "cursor_ok t ?it")
        by blast
      have "time_loop t i it = time_loop t i ?it"
        using past False es(1-4) by (subst time_loop.simps) simp
      moreover have "mTTSSampleIndex ?it \<le> i" using past by simp
      ultimately show ?thesis
        using "1.IH" [OF past False es(1), of "es ! (2 * ?k)" "es ! (2 * ?k + 1)"] es "1.prems"(2)
        by (auto simp: same_but_time_def)
    qed
  qed
qed

section \<open>The chunk range cursor\<close>

text \<open>
  The first sample of an entry of the sample-to-chunk table, the entry of a sample, and the
  chunk of a sample with its first sample, without regard to overflow.
\<close>

definition first_of :: "chunk_entry list \<Rightarrow> nat \<Rightarrow> nat" where
  "first_of es k = sum_list (map (\<lambda>m. (unat (startChunk (es ! (m + 1))) - unat (startChunk (es ! m)))
     * unat (samplesPerChunk (es ! m))) [0..<k])"

definition entry_of :: "chunk_entry list \<Rightarrow> nat \<Rightarrow> nat" where
  "entry_of es i = length (takeWhile (\<lambda>k. first_of es k \<le> i) [1..<length es])"

definition samples_per_chunk_of :: "chunk_entry list \<Rightarrow> nat \<Rightarrow> nat" where
  "samples_per_chunk_of es i = unat (samplesPerChunk (es ! entry_of es i))"

definition chunk_of :: "chunk_entry list \<Rightarrow> nat \<Rightarrow> nat" where
  "chunk_of es i = unat (startChunk (es ! entry_of es i))
     + (i - first_of es (entry_of es i)) div samples_per_chunk_of es i"

definition chunk_start_of :: "chunk_entry list \<Rightarrow> nat \<Rightarrow> nat" where
  "chunk_start_of es i = first_of es (entry_of es i)
     + samples_per_chunk_of es i * ((i - first_of es (entry_of es i)) div samples_per_chunk_of es i)"

definition chunks_ok :: "chunk_entry list \<Rightarrow> bool" where
  "chunks_ok es \<longleftrightarrow> es \<noteq> [] \<and> list_all (\<lambda>e. samplesPerChunk e \<noteq> 0) es
     \<and> list_all (\<lambda>k. startChunk (es ! k) < startChunk (es ! (k + 1))) [0..<length es - 1]
     \<and> first_of es (length es - 1) < 2 ^ 32 - 1"

lemma first_of_simps [simp]: "first_of es 0 = 0"
  "first_of es (Suc k) = first_of es k + (unat (startChunk (es ! Suc k)) - unat (startChunk (es ! k)))
     * unat (samplesPerChunk (es ! k))"
  by (simp_all add: first_of_def)

lemma chunks_ok_entry:
  assumes "chunks_ok es" "k < length es"
  shows "0 < unat (samplesPerChunk (es ! k))"
  using assms by (auto simp: chunks_ok_def list_all_length unat_gt_0)

lemma chunks_ok_next:
  assumes "chunks_ok es" "Suc k < length es"
  shows "startChunk (es ! k) < startChunk (es ! Suc k)" "first_of es k < first_of es (Suc k)"
proof -
  show *: "startChunk (es ! k) < startChunk (es ! Suc k)"
    using assms by (auto simp: chunks_ok_def list_all_iff)
  then show "first_of es k < first_of es (Suc k)"
    using chunks_ok_entry [of es k] assms by (simp add: word_less_nat_alt)
qed

lemma first_of_strict:
  assumes "chunks_ok es" "j < k" "k < length es"
  shows "first_of es j < first_of es k"
  using assms(2,3)
proof (induction k)
  case (Suc k)
  then show ?case using chunks_ok_next(2) [OF assms(1), of k] by (cases "j = k") auto
qed simp

lemma first_of_less:
  assumes "chunks_ok es" "k < length es"
  shows "first_of es k < 2 ^ 32 - 1"
proof -
  have "k < length es - 1 \<or> k = length es - 1" using assms(2) by auto
  then have "first_of es k \<le> first_of es (length es - 1)"
    using first_of_strict [OF assms(1), of k "length es - 1"] by fastforce
  then show ?thesis using assms(1) by (simp add: chunks_ok_def)
qed

text \<open>The entry of a sample is the last one whose first sample is not after it.\<close>

lemma entry_of_unique:
  assumes "chunks_ok es" "k < length es" "first_of es k \<le> i" "Suc k < length es \<Longrightarrow> i < first_of es (Suc k)"
  shows "entry_of es i = k"
proof -
  have "[1..<length es] = [1..<Suc k] @ [Suc k..<length es]"
    using assms(2) upt_add_eq_append [of 1 "Suc k" "length es - Suc k"]
    by (metis Suc_leI One_nat_def le_add1 le_add_diff_inverse plus_1_eq_Suc)
  moreover have "first_of es j \<le> i" if "j \<le> k" for j
    using first_of_strict [OF assms(1), of j k] that assms(2,3) by (cases "j = k") auto
  moreover have "takeWhile (\<lambda>k. first_of es k \<le> i) [Suc k..<length es] = []"
    using assms(4) by (cases "Suc k < length es") (simp_all add: upt_conv_Cons)
  ultimately have "takeWhile (\<lambda>k. first_of es k \<le> i) [1..<length es] = [1..<Suc k]"
    using takeWhile_append2 [of "[1..<Suc k]" "\<lambda>k. first_of es k \<le> i" "[Suc k..<length es]"]
    by (simp del: upt_Suc)
  then show ?thesis by (simp add: entry_of_def)
qed

text \<open>A cursor that has passed \<open>k\<close> entries holds the range of the last of them.\<close>

definition range_ok :: "chunk_entry list \<Rightarrow> iterator \<Rightarrow> bool" where
  "range_ok es it \<longleftrightarrow> (let k = unat (mSampleToChunkIndex it) in k \<le> length es
     \<and> (if k = 0 then mFirstChunkSampleIndex it = 0 \<and> mStopChunkSampleIndex it = 0
        else mFirstChunk it = startChunk (es ! (k - 1)) \<and> mSamplesPerChunk it = samplesPerChunk (es ! (k - 1))
          \<and> unat (mFirstChunkSampleIndex it) = first_of es (k - 1)
          \<and> unat (mStopChunkSampleIndex it) = (if k < length es then first_of es k else 2 ^ 32 - 1)))"

text \<open>Everything of the iterator but its chunk range.\<close>

definition same_but_range :: "iterator \<Rightarrow> iterator \<Rightarrow> bool" where
  "same_but_range it it' \<longleftrightarrow> mInitialized it' = mInitialized it \<and> mCurrentChunkIndex it' = mCurrentChunkIndex it
     \<and> mCurrentChunkOffset it' = mCurrentChunkOffset it \<and> mCurrentChunkSampleSizes it' = mCurrentChunkSampleSizes it
     \<and> mTimeToSampleIndex it' = mTimeToSampleIndex it \<and> mTTSSampleIndex it' = mTTSSampleIndex it
     \<and> mTTSSampleTime it' = mTTSSampleTime it \<and> mTTSCount it' = mTTSCount it \<and> mTTSDuration it' = mTTSDuration it
     \<and> mCurrentSampleIndex it' = mCurrentSampleIndex it"

lemma next_range_ok:
  assumes "chunks_ok es" "es = mSampleToChunkEntries t" "unat (mNumSampleToChunkOffsets t) = length es"
    "range_ok es it" "mSampleToChunkIndex it \<noteq> mNumSampleToChunkOffsets t"
  shows "\<exists>it'. next_range t it = Some it' \<and> range_ok es it' \<and> same_but_range it it'
    \<and> mFirstChunkSampleIndex it' = mStopChunkSampleIndex it"
proof -
  let ?k = "unat (mSampleToChunkIndex it)"
  have k: "?k < length es"
    using assms(3-5) by (auto simp: range_ok_def Let_def word_unat_eq_iff order.order_iff_strict)
  have len: "length es < 2 ^ 32" using unsigned_less [of "mNumSampleToChunkOffsets t", where ?'a = nat] assms(3) by simp
  have suc: "unat (mSampleToChunkIndex it + 1) = Suc ?k" using k len by (simp add: unat_word_ariths)
  have stop: "unat (mStopChunkSampleIndex it) = first_of es ?k"
    using assms(4) k by (auto simp: range_ok_def Let_def split: if_splits)
  have last_iff: "mSampleToChunkIndex it + 1 < mNumSampleToChunkOffsets t \<longleftrightarrow> Suc ?k < length es"
    using assms(3) suc by (simp add: word_less_nat_alt)
  show ?thesis
  proof (cases "Suc ?k < length es")
    case True
    have lt: "startChunk (es ! ?k) < startChunk (es ! Suc ?k)" using chunks_ok_next(1) [OF assms(1) True] .
    then have d: "unat (startChunk (es ! Suc ?k) - startChunk (es ! ?k))
        = unat (startChunk (es ! Suc ?k)) - unat (startChunk (es ! ?k))"
      by (simp add: unat_sub)
    have f: "first_of es (Suc ?k) < 2 ^ 32" using first_of_less [OF assms(1) True] by simp
    have "unat (mStopChunkSampleIndex it + (startChunk (es ! Suc ?k) - startChunk (es ! ?k)) * samplesPerChunk (es ! ?k))
        = first_of es (Suc ?k)"
      using f stop d by (simp add: unat_word_ariths mod_add_right_eq)
    then show ?thesis
      using True k stop suc last_iff assms(2)
      by (simp add: next_range_def Let_def range_ok_def same_but_range_def)
  next
    case False
    moreover have "length (mSampleToChunkEntries t) - Suc 0 = ?k" "mSampleToChunkEntries t \<noteq> []"
      using False k assms(2) by auto
    ultimately show ?thesis
      using k stop suc last_iff assms(2)
      by (simp add: next_range_def Let_def range_ok_def same_but_range_def)
  qed
qed


lemma chunk_range_loop_ok:
  assumes "chunks_ok (mSampleToChunkEntries t)"
    "unat (mNumSampleToChunkOffsets t) = length (mSampleToChunkEntries t)"
    "range_ok (mSampleToChunkEntries t) it" "mFirstChunkSampleIndex it \<le> i" "i < 0xffffffff"
  shows "\<exists>it'. chunk_range_loop t i it = Some (it', OK) \<and> range_ok (mSampleToChunkEntries t) it'
    \<and> same_but_range it it' \<and> mFirstChunkSampleIndex it' \<le> i \<and> i < mStopChunkSampleIndex it'"
  using assms
proof (induction t i it rule: chunk_range_loop.induct)
  case (1 t i it)
  show ?case
  proof (cases "mStopChunkSampleIndex it \<le> i")
    case False
    then show ?thesis using "1.prems"
      by (subst chunk_range_loop.simps) (auto simp: same_but_range_def)
  next
    case True
    have more: "mSampleToChunkIndex it \<noteq> mNumSampleToChunkOffsets t"
    proof
      assume "mSampleToChunkIndex it = mNumSampleToChunkOffsets t"
      moreover have "mSampleToChunkEntries t \<noteq> []" using "1.prems"(1) by (simp add: chunks_ok_def)
      ultimately have "unat (mStopChunkSampleIndex it) = 2 ^ 32 - 1"
        using "1.prems"(2,3) by (simp add: range_ok_def Let_def)
      then show False using True "1.prems"(5) by (simp add: word_le_nat_alt word_less_nat_alt)
    qed
    obtain it' where it': "next_range t it = Some it'" "range_ok (mSampleToChunkEntries t) it'"
        "same_but_range it it'" "mFirstChunkSampleIndex it' = mStopChunkSampleIndex it"
      using next_range_ok [OF "1.prems"(1) refl "1.prems"(2,3) more] by blast
    have "chunk_range_loop t i it = chunk_range_loop t i it'"
      using True more it'(1) by (subst chunk_range_loop.simps) simp
    then show ?thesis
      using "1.IH" [OF True more it'(1) "1.prems"(1,2) it'(2) _ "1.prems"(5)] True it'(3,4)
      by (auto simp: same_but_range_def)
  qed
qed

text \<open>What a cursor that stands on the range of a sample says of it.\<close>

lemma range_ok_entry:
  assumes "chunks_ok es" "range_ok es it" "mFirstChunkSampleIndex it \<le> i" "i < mStopChunkSampleIndex it"
  shows "unat (mFirstChunkSampleIndex it) = first_of es (entry_of es (unat i))"
    "mFirstChunk it = startChunk (es ! entry_of es (unat i))"
    "mSamplesPerChunk it = samplesPerChunk (es ! entry_of es (unat i))"
    "entry_of es (unat i) < length es"
proof -
  let ?k = "unat (mSampleToChunkIndex it)"
  have nz: "?k \<noteq> 0" using assms(2,4) by (auto simp: range_ok_def Let_def split: if_splits)
  then have r: "?k \<le> length es" "mFirstChunk it = startChunk (es ! (?k - 1))"
      "mSamplesPerChunk it = samplesPerChunk (es ! (?k - 1))"
      "unat (mFirstChunkSampleIndex it) = first_of es (?k - 1)"
      "unat (mStopChunkSampleIndex it) = (if ?k < length es then first_of es ?k else 2 ^ 32 - 1)"
    using assms(2) by (simp_all add: range_ok_def Let_def)
  have "entry_of es (unat i) = ?k - 1"
    by (rule entry_of_unique [OF assms(1)])
      (use nz r assms(3,4) in \<open>auto simp: word_le_nat_alt word_less_nat_alt\<close>)
  then show "unat (mFirstChunkSampleIndex it) = first_of es (entry_of es (unat i))"
    "mFirstChunk it = startChunk (es ! entry_of es (unat i))"
    "mSamplesPerChunk it = samplesPerChunk (es ! entry_of es (unat i))"
    "entry_of es (unat i) < length es"
    using r nz by auto
qed

lemma seek_range_ok:
  assumes "chunks_ok (mSampleToChunkEntries t)"
    "unat (mNumSampleToChunkOffsets t) = length (mSampleToChunkEntries t)"
    "mInitialized it \<Longrightarrow> range_ok (mSampleToChunkEntries t) it" "i < 0xffffffff"
  shows "\<exists>it'. seek_range i t it = Some (it', OK) \<and> range_ok (mSampleToChunkEntries t) it'
    \<and> same_but_range it it' \<and> mFirstChunkSampleIndex it' \<le> i \<and> i < mStopChunkSampleIndex it'"
proof -
  let ?it = "if \<not> mInitialized it \<or> i < mFirstChunkSampleIndex it then reset it else it"
  have ok: "range_ok (mSampleToChunkEntries t) ?it" "mFirstChunkSampleIndex ?it \<le> i"
    using assms(3) by (auto simp: range_ok_def reset_def)
  have same: "same_but_range it ?it" by (auto simp: same_but_range_def reset_def)
  show ?thesis
  proof (cases "mStopChunkSampleIndex ?it \<le> i")
    case False
    then show ?thesis using ok same by (auto simp: seek_range_def Let_def)
  next
    case True
    then have "seek_range i t it = chunk_range_loop t i ?it"
      using ok(2) by (auto simp: seek_range_def Let_def findChunkRange_def)
    then show ?thesis
      using chunk_range_loop_ok [OF assms(1,2) ok assms(4)] same
      by (auto simp: same_but_range_def)
  qed
qed

section \<open>The sample of an index\<close>

text \<open>
  What the tables of the file say of a sample, when nothing is cached: the offset of a chunk,
  the size of a sample, and the data that \<open>getMetaDataForSample\<close> is to return.
\<close>

definition offset_value :: "source \<Rightarrow> table \<Rightarrow> nat \<Rightarrow> int option" where
  "offset_value readAt t c = (case getChunkOffset readAt t (of_nat c) of
     Some (e, off) \<Rightarrow> if e = OK then Some off else None | None \<Rightarrow> None)"

definition size_value :: "source \<Rightarrow> table \<Rightarrow> nat \<Rightarrow> nat option" where
  "size_value readAt t j = (case getSampleSizeDirect readAt t (of_nat j) of
     Some (e, sz) \<Rightarrow> if e = OK then Some sz else None | None \<Rightarrow> None)"

definition sizes_from :: "source \<Rightarrow> table \<Rightarrow> nat \<Rightarrow> nat \<Rightarrow> nat list" where
  "sizes_from readAt t first num = map (\<lambda>j. the (size_value readAt t j)) [first..<first + num]"

definition composition_offset :: "table \<Rightarrow> nat \<Rightarrow> u32" where
  "composition_offset t i = (case mCompositionTimeDeltaEntries t of None \<Rightarrow> 0
     | Some ds \<Rightarrow> (case run_value (pairs ds (mNumCompositionTimeDeltaEntries t)) i of Some v \<Rightarrow> v | None \<Rightarrow> 0))"

definition sample_of :: "source \<Rightarrow> table \<Rightarrow> nat \<Rightarrow> meta_data" where
  "sample_of readAt t i =
     (let es = mSampleToChunkEntries t; first = chunk_start_of es i in
      \<lparr>md_offset = the (offset_value readAt t (chunk_of es i)) + int (sum_list (sizes_from readAt t first (i - first))),
       md_size = the (size_value readAt t i),
       md_time = decode_time (tts_pairs t) i + composition_offset t i,
       md_duration = the (run_value (tts_pairs t) i),
       md_sync = False\<rparr>)"

text \<open>
  A track whose boxes agree with one another: the chunk entries are in order, every sample has
  a size, a time and a chunk that the offset table covers, and chunks hold only existing samples.
\<close>

definition track_ok :: "source \<Rightarrow> table \<Rightarrow> bool" where
  "track_ok readAt t \<longleftrightarrow> (let es = mSampleToChunkEntries t; n = unat (mNumSampleSizes t) in
     0 \<le> mSampleToChunkOffset t \<and> 0 \<le> mChunkOffsetOffset t \<and> 0 \<le> mSampleSizeOffset t
     \<and> chunks_ok es \<and> unat (mNumSampleToChunkOffsets t) = length es
     \<and> tts_ok t \<and> mTimeToSampleCount t \<noteq> 0 \<and> n \<le> run_length (tts_pairs t)
     \<and> list_all (\<lambda>i. chunk_of es i < unat (mNumChunkOffsets t) \<and> offset_value readAt t (chunk_of es i) \<noteq> None
         \<and> chunk_start_of es i + samples_per_chunk_of es i \<le> n \<and> size_value readAt t i \<noteq> None) [0..<n])"

lemma entry_of_bounds:
  assumes "es \<noteq> []"
  shows "entry_of es i < length es" "first_of es (entry_of es i) \<le> i"
    "Suc (entry_of es i) < length es \<Longrightarrow> i < first_of es (Suc (entry_of es i))"
proof -
  let ?tw = "takeWhile (\<lambda>k. first_of es k \<le> i) [1..<length es]"
  have e: "entry_of es i = length ?tw" by (simp add: entry_of_def)
  have le: "length ?tw \<le> length es - 1" using length_takeWhile_le [of _ "[1..<length es]"] by simp
  then show "entry_of es i < length es" using assms by (simp add: e Suc_le_eq [symmetric]) (cases es; simp)
  show "first_of es (entry_of es i) \<le> i"
  proof (cases "length ?tw")
    case (Suc m)
    then have "?tw ! m \<in> set ?tw" by (intro nth_mem) simp
    from set_takeWhileD [OF this] have "first_of es (?tw ! m) \<le> i" by simp
    moreover have "?tw ! m = Suc m" using takeWhile_nth [of m _ "[1..<length es]"] Suc le by simp
    ultimately show ?thesis using Suc by (simp add: e)
  qed (simp add: e)
  show "i < first_of es (Suc (entry_of es i))" if "Suc (entry_of es i) < length es"
  proof -
    have "length ?tw < length [1..<length es]" using that e by simp
    from nth_length_takeWhile [OF this] have "\<not> first_of es (Suc (length ?tw)) \<le> i"
      using that e by (simp del: first_of_simps)
    then show ?thesis by (simp add: e del: first_of_simps)
  qed
qed

lemma start_mono:
  assumes "chunks_ok es" "j \<le> k" "k < length es"
  shows "startChunk (es ! j) \<le> startChunk (es ! k)"
  using assms(2,3)
proof (induction k)
  case (Suc k)
  then show ?case using chunks_ok_next(1) [OF assms(1), of k] by (cases "j = Suc k") auto
qed simp

lemma chunk_of_bounds:
  assumes "chunks_ok es"
  shows "unat (startChunk (es ! entry_of es i)) \<le> chunk_of es i"
    "Suc (entry_of es i) < length es \<Longrightarrow> chunk_of es i < unat (startChunk (es ! Suc (entry_of es i)))"
proof -
  let ?k = "entry_of es i"
  have ne: "es \<noteq> []" using assms by (simp add: chunks_ok_def)
  show "unat (startChunk (es ! ?k)) \<le> chunk_of es i" by (simp add: chunk_of_def)
  assume k: "Suc ?k < length es"
  have "i - first_of es ?k < (unat (startChunk (es ! Suc ?k)) - unat (startChunk (es ! ?k))) * samples_per_chunk_of es i"
    using entry_of_bounds(2,3) [OF ne, of i] k by (simp add: samples_per_chunk_of_def)
  then have "(i - first_of es ?k) div samples_per_chunk_of es i
      < unat (startChunk (es ! Suc ?k)) - unat (startChunk (es ! ?k))"
    by (rule less_mult_imp_div_less)
  then show "chunk_of es i < unat (startChunk (es ! Suc ?k))" by (simp add: chunk_of_def)
qed

lemma same_chunk:
  assumes "chunks_ok es" "chunk_of es i = chunk_of es j"
  shows "entry_of es i = entry_of es j" "chunk_start_of es i = chunk_start_of es j"
proof -
  have ne: "es \<noteq> []" using assms by (simp add: chunks_ok_def)
  have *: False if "entry_of es a < entry_of es b" "chunk_of es a = chunk_of es b" for a b
  proof -
    have "Suc (entry_of es a) < length es" using that entry_of_bounds(1) [OF ne, of b] by simp
    then have "chunk_of es a < unat (startChunk (es ! Suc (entry_of es a)))"
      using chunk_of_bounds(2) [OF assms(1)] by blast
    also have "\<dots> \<le> unat (startChunk (es ! entry_of es b))"
      using start_mono [OF assms(1), of "Suc (entry_of es a)" "entry_of es b"] that entry_of_bounds(1) [OF ne, of b]
      by (simp add: word_le_nat_alt)
    also have "\<dots> \<le> chunk_of es b" using chunk_of_bounds(1) [OF assms(1)] .
    finally show False using that(2) by simp
  qed
  show e: "entry_of es i = entry_of es j"
    by (rule ccontr) (metis * assms(2) linorder_neqE_nat)
  then show "chunk_start_of es i = chunk_start_of es j"
    using assms(2) by (simp add: chunk_start_of_def chunk_of_def samples_per_chunk_of_def)
qed

section \<open>Seeking\<close>

text \<open>The iterator with the chunk of a sample loaded.\<close>

definition with_chunk :: "source \<Rightarrow> table \<Rightarrow> nat \<Rightarrow> iterator \<Rightarrow> iterator" where
  "with_chunk readAt t i it = (let es = mSampleToChunkEntries t in
     it\<lparr>mCurrentChunkIndex := of_nat (chunk_of es i), mCurrentChunkOffset := the (offset_value readAt t (chunk_of es i)),
        mCurrentChunkSampleSizes := sizes_from readAt t (chunk_start_of es i) (samples_per_chunk_of es i)\<rparr>)"

lemma sizes_from_Cons: "sizes_from readAt t a (Suc n) = the (size_value readAt t a) # sizes_from readAt t (Suc a) n"
  by (simp add: sizes_from_def upt_conv_Cons del: upt_Suc)

lemma sizes_loop_ok:
  assumes "unat first + unat (mSamplesPerChunk it) \<le> unat (mNumSampleSizes t)" "i \<le> mSamplesPerChunk it"
    "\<And>j. j < unat (mNumSampleSizes t) \<Longrightarrow> size_value readAt t j \<noteq> None"
  shows "sizes_loop readAt t first i it = Some (it\<lparr>mCurrentChunkSampleSizes := mCurrentChunkSampleSizes it
      @ sizes_from readAt t (unat first + unat i) (unat (mSamplesPerChunk it) - unat i)\<rparr>, OK)"
  using assms
proof (induction readAt t first i it rule: sizes_loop.induct)
  case (1 readAt t first i it)
  show ?case
  proof (cases "i < mSamplesPerChunk it")
    case False
    then have "unat (mSamplesPerChunk it) - unat i = 0" using "1.prems"(2) by (simp add: word_le_nat_alt)
    then show ?thesis using False by (subst sizes_loop.simps) (simp add: sizes_from_def)
  next
    case True
    then have lt: "unat i < unat (mSamplesPerChunk it)" by (simp add: word_less_nat_alt)
    have n32: "unat (mNumSampleSizes t) < 2 ^ 32" using unsigned_less [of "mNumSampleSizes t", where ?'a = nat] by simp
    have "size_value readAt t (unat first + unat i) \<noteq> None" using "1.prems"(3) lt "1.prems"(1) by simp
    then obtain sz where sz: "getSampleSizeDirect readAt t (first + i) = Some (OK, sz)"
        "size_value readAt t (unat first + unat i) = Some sz"
      by (auto simp: size_value_def split: option.splits prod.splits if_splits)
    have suc: "unat (i + 1) = unat i + 1" using lt n32 "1.prems"(1) by (simp add: unat_word_ariths)
    then have le: "i + 1 \<le> mSamplesPerChunk it" using lt by (simp add: word_le_nat_alt)
    let ?it = "it\<lparr>mCurrentChunkSampleSizes := mCurrentChunkSampleSizes it @ [sz]\<rparr>"
    obtain m where m: "unat (mSamplesPerChunk it) - unat i = Suc m" "unat (mSamplesPerChunk it) - unat (i + 1) = m"
      using lt suc by (cases "unat (mSamplesPerChunk it) - unat i") auto
    have "sizes_loop readAt t first i it = sizes_loop readAt t first (i + 1) ?it"
      using True sz(1) by (subst sizes_loop.simps) simp
    also have "\<dots> = Some (?it\<lparr>mCurrentChunkSampleSizes := mCurrentChunkSampleSizes ?it
        @ sizes_from readAt t (unat first + unat (i + 1)) (unat (mSamplesPerChunk ?it) - unat (i + 1))\<rparr>, OK)"
      by (rule "1.IH" [OF True sz(1)]) (use "1.prems" le in simp_all)
    finally show ?thesis using m suc sz(2) by (simp add: sizes_from_Cons)
  qed
qed

lemma track_okD:
  assumes "track_ok readAt t"
  defines "es \<equiv> mSampleToChunkEntries t" and "n \<equiv> unat (mNumSampleSizes t)"
  shows "chunks_ok es" "unat (mNumSampleToChunkOffsets t) = length es" "tts_ok t" "mTimeToSampleCount t \<noteq> 0"
    "n \<le> run_length (tts_pairs t)" "0 \<le> mSampleToChunkOffset t" "0 \<le> mChunkOffsetOffset t" "0 \<le> mSampleSizeOffset t"
    "i < n \<Longrightarrow> chunk_of es i < unat (mNumChunkOffsets t)"
    "i < n \<Longrightarrow> offset_value readAt t (chunk_of es i) \<noteq> None"
    "i < n \<Longrightarrow> chunk_start_of es i + samples_per_chunk_of es i \<le> n"
    "i < n \<Longrightarrow> size_value readAt t i \<noteq> None"
  using assms(1) by (auto simp: track_ok_def Let_def list_all_iff es_def n_def)

text \<open>The place of a sample in its chunk.\<close>

lemma sample_in_chunk:
  fixes i :: nat
  assumes "chunks_ok es"
  defines "r \<equiv> (i - first_of es (entry_of es i)) mod samples_per_chunk_of es i"
  shows "0 < samples_per_chunk_of es i" "i = chunk_start_of es i + r" "r < samples_per_chunk_of es i"
proof -
  have ne: "es \<noteq> []" using assms by (simp add: chunks_ok_def)
  show pos: "0 < samples_per_chunk_of es i"
    using chunks_ok_entry [OF assms(1) entry_of_bounds(1) [OF ne]] by (simp add: samples_per_chunk_of_def)
  show "i = chunk_start_of es i + r"
    using entry_of_bounds(2) [OF ne, of i] by (simp add: chunk_start_of_def r_def)
  show "r < samples_per_chunk_of es i" using pos by (simp add: r_def)
qed

text \<open>A loaded chunk is that of the last sample sought.\<close>

definition chunk_loaded :: "source \<Rightarrow> table \<Rightarrow> nat \<Rightarrow> iterator \<Rightarrow> bool" where
  "chunk_loaded readAt t i it \<longleftrightarrow> it = with_chunk readAt t i it"

lemma chunk_loaded_eq:
  "chunk_loaded readAt t i it \<longleftrightarrow> mCurrentChunkIndex it = of_nat (chunk_of (mSampleToChunkEntries t) i)
     \<and> mCurrentChunkOffset it = the (offset_value readAt t (chunk_of (mSampleToChunkEntries t) i))
     \<and> mCurrentChunkSampleSizes it = sizes_from readAt t (chunk_start_of (mSampleToChunkEntries t) i)
         (samples_per_chunk_of (mSampleToChunkEntries t) i)"
  by (cases it) (auto simp: chunk_loaded_def with_chunk_def Let_def)

text \<open>The words that \<open>seekTo\<close> computes for the chunk of a sample.\<close>

lemma chunk_words:
  assumes "track_ok readAt t" "i < mNumSampleSizes t" "range_ok (mSampleToChunkEntries t) it"
    "mFirstChunkSampleIndex it \<le> i" "i < mStopChunkSampleIndex it"
  defines "es \<equiv> mSampleToChunkEntries t"
  shows "mSamplesPerChunk it \<noteq> 0" "unat (mSamplesPerChunk it) = samples_per_chunk_of es (unat i)"
    "(i - mFirstChunkSampleIndex it) div mSamplesPerChunk it + mFirstChunk it = of_nat (chunk_of es (unat i))"
    "unat (mFirstChunkSampleIndex it + mSamplesPerChunk it * (of_nat (chunk_of es (unat i)) - mFirstChunk it))
      = chunk_start_of es (unat i)"
    "unat ((i - mFirstChunkSampleIndex it) mod mSamplesPerChunk it) = unat i - chunk_start_of es (unat i)"
proof -
  let ?i = "unat i"
  let ?spc = "samples_per_chunk_of es ?i" and ?c = "chunk_of es ?i" and ?start = "chunk_start_of es ?i"
  note tok = track_okD [OF assms(1), folded es_def]
  have i: "?i < unat (mNumSampleSizes t)" using assms(2) by (simp add: word_less_nat_alt)
  note entry = range_ok_entry [OF tok(1) assms(3,4,5) [folded es_def]]
  show spc: "unat (mSamplesPerChunk it) = ?spc" using entry(3) by (simp add: samples_per_chunk_of_def)
  then show "mSamplesPerChunk it \<noteq> 0" using sample_in_chunk(1) [OF tok(1), of ?i] by auto
  have n32: "unat (mNumSampleSizes t) < 2 ^ 32" "unat (mNumChunkOffsets t) < 2 ^ 32"
    using unsigned_less [of "mNumSampleSizes t", where ?'a = nat] unsigned_less [of "mNumChunkOffsets t", where ?'a = nat] by simp_all
  have quot: "unat ((i - mFirstChunkSampleIndex it) div mSamplesPerChunk it)
      = (?i - first_of es (entry_of es ?i)) div ?spc"
    using assms(4) entry(1) spc by (simp add: unat_div unat_sub)
  have "unat ((i - mFirstChunkSampleIndex it) div mSamplesPerChunk it + mFirstChunk it) = ?c"
    using unat_add_lem [of "(i - mFirstChunkSampleIndex it) div mSamplesPerChunk it" "mFirstChunk it"]
      tok(9) [OF i] n32(2) quot entry(2) by (simp add: chunk_of_def)
  then show chunk: "(i - mFirstChunkSampleIndex it) div mSamplesPerChunk it + mFirstChunk it = of_nat ?c"
    by (metis of_nat_unat ucast_id)
  have "of_nat ?c - mFirstChunk it = (i - mFirstChunkSampleIndex it) div mSamplesPerChunk it"
    using chunk by (metis add_diff_cancel_right')
  then show "unat (mFirstChunkSampleIndex it + mSamplesPerChunk it * (of_nat ?c - mFirstChunk it)) = ?start"
    using unat_mult_lem [of "mSamplesPerChunk it" "of_nat ?c - mFirstChunk it"]
      unat_add_lem [of "mFirstChunkSampleIndex it" "mSamplesPerChunk it * (of_nat ?c - mFirstChunk it)"]
      tok(11) [OF i] n32(1) quot entry(1) spc by (simp add: chunk_start_of_def)
  have "unat ((i - mFirstChunkSampleIndex it) mod mSamplesPerChunk it) = (?i - first_of es (entry_of es ?i)) mod ?spc"
    using assms(4) entry(1) spc by (simp add: unat_mod unat_sub)
  then show "unat ((i - mFirstChunkSampleIndex it) mod mSamplesPerChunk it) = ?i - ?start"
    using sample_in_chunk(2) [OF tok(1), of ?i] by simp
qed

lemma seek_chunk_ok:
  assumes "track_ok readAt t" "i < mNumSampleSizes t" "range_ok (mSampleToChunkEntries t) it"
    "mFirstChunkSampleIndex it \<le> i" "i < mStopChunkSampleIndex it"
    "mInitialized it \<Longrightarrow> \<exists>j < unat (mNumSampleSizes t). chunk_loaded readAt t j it"
  shows "seek_chunk readAt i t it = Some (with_chunk readAt t (unat i) it, OK)"
proof -
  let ?es = "mSampleToChunkEntries t" and ?i = "unat i"
  let ?spc = "samples_per_chunk_of ?es ?i" and ?c = "chunk_of ?es ?i" and ?start = "chunk_start_of ?es ?i"
  note tok = track_okD [OF assms(1)]
  note words = chunk_words [OF assms(1-5)]
  have i: "?i < unat (mNumSampleSizes t)" using assms(2) by (simp add: word_less_nat_alt)
  have n32: "unat (mNumChunkOffsets t) < 2 ^ 32"
    using unsigned_less [of "mNumChunkOffsets t", where ?'a = nat] by simp
  show ?thesis
  proof (cases "\<not> mInitialized it \<or> of_nat ?c \<noteq> mCurrentChunkIndex it")
    case True
    from tok(10) [OF i] obtain off where off: "getChunkOffset readAt t (of_nat ?c) = Some (OK, off)"
        "offset_value readAt t ?c = Some off"
      by (auto simp: offset_value_def split: option.splits prod.splits if_splits)
    let ?it = "it\<lparr>mCurrentChunkIndex := of_nat ?c, mCurrentChunkOffset := off, mCurrentChunkSampleSizes := []\<rparr>"
    have "sizes_loop readAt t (mFirstChunkSampleIndex it + mSamplesPerChunk it * (of_nat ?c - mFirstChunk it)) 0 ?it
        = Some (?it\<lparr>mCurrentChunkSampleSizes := sizes_from readAt t ?start ?spc\<rparr>, OK)"
      using sizes_loop_ok [of "mFirstChunkSampleIndex it + mSamplesPerChunk it * (of_nat ?c - mFirstChunk it)" ?it t 0 readAt]
        tok(11,12) i words(2,4) by simp
    then show ?thesis
      using True off words(1,3) assms(5) by (simp add: seek_chunk_def Let_def with_chunk_def)
  next
    case False
    then obtain j where j: "j < unat (mNumSampleSizes t)" "chunk_loaded readAt t j it" using assms(6) by blast
    have "chunk_of ?es j = ?c"
      using False j tok(9) [OF j(1)] tok(9) [OF i] n32
      by (auto simp: chunk_loaded_eq of_nat_inverse word_of_nat_eq_iff take_bit_nat_eq_self)
    with same_chunk [OF tok(1) this] j(2) have "chunk_loaded readAt t ?i it"
      by (simp add: chunk_loaded_eq samples_per_chunk_of_def)
    then have "with_chunk readAt t ?i it = it" by (simp add: chunk_loaded_def)
    then show ?thesis
      using False words(1,3) assms(5) by (simp add: seek_chunk_def Let_def)
  qed
qed

text \<open>The boxes of a track do not depend on its cursors.\<close>

named_theorems boxes

lemma boxes_parts [boxes]:
  "getChunkOffset readAt (t\<lparr>mSampleIterator := it\<rparr>) = getChunkOffset readAt t"
  "getChunkOffset readAt (t\<lparr>mCompositionDeltaLookup := l\<rparr>) = getChunkOffset readAt t"
  "getSampleSizeDirect readAt (t\<lparr>mSampleIterator := it\<rparr>) = getSampleSizeDirect readAt t"
  "getSampleSizeDirect readAt (t\<lparr>mCompositionDeltaLookup := l\<rparr>) = getSampleSizeDirect readAt t"
  "tts_pairs (t\<lparr>mSampleIterator := it\<rparr>) = tts_pairs t"
  "tts_pairs (t\<lparr>mCompositionDeltaLookup := l\<rparr>) = tts_pairs t"
  "composition_offset (t\<lparr>mSampleIterator := it\<rparr>) = composition_offset t"
  "composition_offset (t\<lparr>mCompositionDeltaLookup := l\<rparr>) = composition_offset t"
  by (auto simp: fun_eq_iff getChunkOffset_def getSampleSizeDirect_def tts_pairs_def composition_offset_def
      split: option.split)

lemma boxes_values [boxes]:
  "offset_value readAt (t\<lparr>mSampleIterator := it\<rparr>) = offset_value readAt t"
  "offset_value readAt (t\<lparr>mCompositionDeltaLookup := l\<rparr>) = offset_value readAt t"
  "size_value readAt (t\<lparr>mSampleIterator := it\<rparr>) = size_value readAt t"
  "size_value readAt (t\<lparr>mCompositionDeltaLookup := l\<rparr>) = size_value readAt t"
  "tts_ok (t\<lparr>mSampleIterator := it\<rparr>) = tts_ok t"
  "tts_ok (t\<lparr>mCompositionDeltaLookup := l\<rparr>) = tts_ok t"
  by (auto simp: offset_value_def size_value_def tts_ok_def boxes split: option.splits)

lemma boxes_sizes [boxes]:
  "sizes_from readAt (t\<lparr>mSampleIterator := it\<rparr>) = sizes_from readAt t"
  "sizes_from readAt (t\<lparr>mCompositionDeltaLookup := l\<rparr>) = sizes_from readAt t"
  by (auto simp: fun_eq_iff sizes_from_def boxes)

lemma boxes_track [boxes]:
  "sample_of readAt (t\<lparr>mSampleIterator := it\<rparr>) = sample_of readAt t"
  "sample_of readAt (t\<lparr>mCompositionDeltaLookup := l\<rparr>) = sample_of readAt t"
  "track_ok readAt (t\<lparr>mSampleIterator := it\<rparr>) = track_ok readAt t"
  "track_ok readAt (t\<lparr>mCompositionDeltaLookup := l\<rparr>) = track_ok readAt t"
  "cursor_ok (t\<lparr>mSampleIterator := it\<rparr>) = cursor_ok t"
  "cursor_ok (t\<lparr>mCompositionDeltaLookup := l\<rparr>) = cursor_ok t"
  "chunk_loaded readAt (t\<lparr>mSampleIterator := it\<rparr>) = chunk_loaded readAt t"
  "chunk_loaded readAt (t\<lparr>mCompositionDeltaLookup := l\<rparr>) = chunk_loaded readAt t"
  by (simp_all add: fun_eq_iff sample_of_def track_ok_def cursor_ok_def chunk_loaded_def with_chunk_def boxes)

text \<open>The cursors of a table between two calls.\<close>

definition composition_ok :: "table \<Rightarrow> bool" where
  "composition_ok t \<longleftrightarrow> (case mCompositionTimeDeltaEntries t of
     None \<Rightarrow> mDeltaEntries (mCompositionDeltaLookup t) = None
   | Some ds \<Rightarrow> lookup_ok ds (mNumCompositionTimeDeltaEntries t) (mCompositionDeltaLookup t))"

definition current_sample :: "iterator \<Rightarrow> meta_data" where
  "current_sample it = \<lparr>md_offset = mCurrentSampleOffset it, md_size = mCurrentSampleSize it,
     md_time = mCurrentSampleTime it, md_duration = mCurrentSampleDuration it, md_sync = False\<rparr>"

definition iterator_ok :: "source \<Rightarrow> table \<Rightarrow> iterator \<Rightarrow> bool" where
  "iterator_ok readAt t it \<longleftrightarrow> cursor_ok t it \<and> (mInitialized it \<longrightarrow>
     range_ok (mSampleToChunkEntries t) it \<and> mCurrentSampleIndex it < mNumSampleSizes t
     \<and> chunk_loaded readAt t (unat (mCurrentSampleIndex it)) it
     \<and> current_sample it = sample_of readAt t (unat (mCurrentSampleIndex it)))"

lemma boxes_cursors [boxes]:
  "composition_ok (t\<lparr>mSampleIterator := it\<rparr>) = composition_ok t"
  "iterator_ok readAt (t\<lparr>mSampleIterator := it\<rparr>) = iterator_ok readAt t"
  "iterator_ok readAt (t\<lparr>mCompositionDeltaLookup := l\<rparr>) = iterator_ok readAt t"
  by (simp_all add: fun_eq_iff composition_ok_def iterator_ok_def boxes split: option.split)

lemma getCompositionTimeOffset_ok:
  assumes "composition_ok t"
  shows "\<exists>l. getCompositionTimeOffset i t = Some (t\<lparr>mCompositionDeltaLookup := l\<rparr>, composition_offset t (unat i))
    \<and> composition_ok (t\<lparr>mCompositionDeltaLookup := l\<rparr>)"
proof (cases "mCompositionTimeDeltaEntries t")
  case None
  moreover have "t\<lparr>mCompositionDeltaLookup := mCompositionDeltaLookup t\<rparr> = t" by (cases t) simp
  ultimately show ?thesis using assms
    by (intro exI [of _ "mCompositionDeltaLookup t"])
      (simp add: composition_ok_def getCompositionTimeOffset_def lookup_offset_def composition_offset_def)
next
  case (Some ds)
  then have "lookup_ok ds (mNumCompositionTimeDeltaEntries t) (mCompositionDeltaLookup t)"
    using assms by (simp add: composition_ok_def)
  from lookup_offset_value [OF this, of i] Some show ?thesis
    by (auto simp: composition_ok_def getCompositionTimeOffset_def composition_offset_def)
qed

lemma time_loop_boxes [boxes]: "time_loop (t\<lparr>mSampleIterator := x\<rparr>) i it = time_loop t i it"
proof (induction t i it rule: time_loop.induct)
  case (1 t i it)
  show ?case
  proof (cases "mTTSSampleIndex it + mTTSCount it \<le> i \<and> mTimeToSampleIndex it \<noteq> mTimeToSampleCount t")
    case True
    then show ?thesis
      by (subst (1 2) time_loop.simps) (auto simp: "1.IH" intro!: Option.bind_cong)
  qed (subst (1 2) time_loop.simps; auto)+
qed

text \<open>
  The last part of \<open>seekTo\<close>: the sample at a position of the chunk that is loaded, whichever
  chunk that is, with the time of the index sought.
\<close>

lemma seek_sample_value:
  fixes t :: table and i :: u32
  defines "it \<equiv> mSampleIterator t"
  defines "r \<equiv> unat ((i - mFirstChunkSampleIndex it) mod mSamplesPerChunk it)"
  assumes "tts_ok t" "composition_ok t" "i < mNumSampleSizes t" "unat i < run_length (tts_pairs t)" "cursor_ok t it"
    "r < length (mCurrentChunkSampleSizes it)"
  shows "\<exists>it' l. seek_sample i t = Some (t\<lparr>mSampleIterator := it', mCompositionDeltaLookup := l\<rparr>, OK)
    \<and> mInitialized it' \<and> mCurrentSampleIndex it' = i \<and> cursor_ok t it'
    \<and> same_but_time (it\<lparr>mCurrentSampleOffset := mCurrentChunkOffset it
          + int (sum_list (take r (mCurrentChunkSampleSizes it))),
        mCurrentSampleSize := mCurrentChunkSampleSizes it ! r\<rparr>) it'
    \<and> mCurrentSampleTime it' = decode_time (tts_pairs t) (unat i) + composition_offset t (unat i)
    \<and> mCurrentSampleDuration it' = the (run_value (tts_pairs t) (unat i))
    \<and> composition_ok (t\<lparr>mSampleIterator := it', mCompositionDeltaLookup := l\<rparr>)"
proof -
  let ?i = "unat i"
  let ?it1 = "it\<lparr>mCurrentSampleOffset := mCurrentChunkOffset it + int (sum_list (take r (mCurrentChunkSampleSizes it))),
      mCurrentSampleSize := mCurrentChunkSampleSizes it ! r\<rparr>"
  let ?it2 = "if i < mTTSSampleIndex ?it1
      then ?it1\<lparr>mTimeToSampleIndex := 0, mTTSSampleIndex := 0, mTTSSampleTime := 0, mTTSCount := 0, mTTSDuration := 0\<rparr>
      else ?it1"
  have "cursor_ok t ?it2" "mTTSSampleIndex ?it2 \<le> i"
    using assms(7) by (auto simp: cursor_ok_def Let_def)
  then obtain it3 where it3: "time_loop t i ?it2 = Some (it3, OK)" "cursor_ok t it3"
      "same_but_time ?it2 it3" "mTTSSampleIndex it3 \<le> i" "?i < unat (mTTSSampleIndex it3) + unat (mTTSCount it3)"
    using time_loop_value [of t ?it2 i] assms(3,6) by auto
  have time: "decode_time (tts_pairs t) ?i = mTTSSampleTime it3 + mTTSDuration it3 * (i - mTTSSampleIndex it3)"
      "run_value (tts_pairs t) ?i = Some (mTTSDuration it3)"
    using cursor_before [OF it3(2) assms(3), of ?i] it3(4,5) by (simp_all add: word_le_nat_alt)
  let ?time = "decode_time (tts_pairs t) ?i + composition_offset t ?i"
  let ?it4 = "it3\<lparr>mCurrentSampleTime := ?time, mCurrentSampleDuration := mTTSDuration it3,
      mCurrentSampleIndex := i, mInitialized := True\<rparr>"
  obtain l where l: "getCompositionTimeOffset i (t\<lparr>mSampleIterator := it3\<rparr>)
        = Some (t\<lparr>mSampleIterator := it3, mCompositionDeltaLookup := l\<rparr>, composition_offset t ?i)"
      "composition_ok (t\<lparr>mSampleIterator := it3, mCompositionDeltaLookup := l\<rparr>)"
    using getCompositionTimeOffset_ok [of "t\<lparr>mSampleIterator := it3\<rparr>" i] assms(4) by (auto simp: boxes)
  have "findSampleTimeAndDuration i (t\<lparr>mSampleIterator := ?it2\<rparr>)
      = Some (t\<lparr>mSampleIterator := it3, mCompositionDeltaLookup := l\<rparr>, OK, ?time, mTTSDuration it3)"
    using assms(5) it3(1) l(1) time(1) by (simp add: findSampleTimeAndDuration_def boxes linorder_not_le [symmetric])
  then have "seek_sample i t = Some (t\<lparr>mSampleIterator := ?it4, mCompositionDeltaLookup := l\<rparr>, OK)"
    using assms(8)
    by (cases "i < mTTSSampleIndex it") (simp_all add: seek_sample_def Let_def it_def [symmetric] r_def [symmetric])
  moreover have "same_but_time ?it1 it3"
    using it3(3) by (cases "i < mTTSSampleIndex it") (simp_all add: same_but_time_def)
  then have "same_but_time ?it1 ?it4" "cursor_ok t ?it4"
    using it3(2) by (simp_all add: same_but_time_def cursor_ok_def Let_def)
  moreover have "composition_ok (t\<lparr>mSampleIterator := ?it4, mCompositionDeltaLookup := l\<rparr>)"
    using l(2) by (simp add: composition_ok_def split: option.splits)
  ultimately show ?thesis using time(2) by (intro exI [of _ ?it4] exI [of _ l]) simp
qed

text \<open>With the chunk of the sample loaded, that is the sample sought.\<close>

lemma seek_sample_ok:
  fixes t :: table and i :: u32
  defines "it \<equiv> mSampleIterator t"
  assumes "track_ok readAt t" "composition_ok t" "i < mNumSampleSizes t" "cursor_ok t it"
    "range_ok (mSampleToChunkEntries t) it" "mFirstChunkSampleIndex it \<le> i" "i < mStopChunkSampleIndex it"
    "chunk_loaded readAt t (unat i) it"
  shows "\<exists>it' l. seek_sample i t = Some (t\<lparr>mSampleIterator := it', mCompositionDeltaLookup := l\<rparr>, OK)
    \<and> mInitialized it' \<and> mCurrentSampleIndex it' = i \<and> iterator_ok readAt t it'
    \<and> composition_ok (t\<lparr>mSampleIterator := it', mCompositionDeltaLookup := l\<rparr>)"
proof -
  let ?es = "mSampleToChunkEntries t" and ?i = "unat i"
  let ?start = "chunk_start_of ?es ?i" and ?spc = "samples_per_chunk_of ?es ?i"
  let ?rel = "unat ((i - mFirstChunkSampleIndex it) mod mSamplesPerChunk it)"
  note tok = track_okD [OF assms(2)]
  have i: "?i < unat (mNumSampleSizes t)" using assms(4) by (simp add: word_less_nat_alt)
  note rel = chunk_words(5) [OF assms(2,4,6,7,8)]
  have in_chunk: "?i = ?start + ?rel" "?rel < ?spc"
    using sample_in_chunk(2,3) [OF tok(1), of ?i] rel by simp_all
  have sizes: "mCurrentChunkSampleSizes it = sizes_from readAt t ?start ?spc"
    and offset: "mCurrentChunkOffset it = the (offset_value readAt t (chunk_of ?es ?i))"
    using assms(9) by (simp_all add: chunk_loaded_eq)
  have this_size: "mCurrentChunkSampleSizes it ! ?rel = the (size_value readAt t ?i)"
    and before: "take ?rel (mCurrentChunkSampleSizes it) = sizes_from readAt t ?start (?i - ?start)"
    using in_chunk by (simp_all add: sizes sizes_from_def take_map take_upt)
  have "?rel < length (mCurrentChunkSampleSizes it)" using in_chunk(2) by (simp add: sizes sizes_from_def)
  with seek_sample_value [of t i] tok(3,5) i assms(3,4,5) obtain it' l where s:
      "seek_sample i t = Some (t\<lparr>mSampleIterator := it', mCompositionDeltaLookup := l\<rparr>, OK)"
      "mInitialized it'" "mCurrentSampleIndex it' = i" "cursor_ok t it'"
      "same_but_time (it\<lparr>mCurrentSampleOffset := mCurrentChunkOffset it
          + int (sum_list (take ?rel (mCurrentChunkSampleSizes it))),
        mCurrentSampleSize := mCurrentChunkSampleSizes it ! ?rel\<rparr>) it'"
      "mCurrentSampleTime it' = decode_time (tts_pairs t) ?i + composition_offset t ?i"
      "mCurrentSampleDuration it' = the (run_value (tts_pairs t) ?i)"
      "composition_ok (t\<lparr>mSampleIterator := it', mCompositionDeltaLookup := l\<rparr>)"
    unfolding it_def by fastforce
  have "iterator_ok readAt t it'"
    using s assms(4,6,9) before this_size offset
    by (simp add: iterator_ok_def same_but_time_def range_ok_def chunk_loaded_eq current_sample_def sample_of_def Let_def)
  with s show ?thesis by blast
qed

text \<open>A table whose cursors agree with its boxes, and the sample that \<open>seekTo\<close> finds in it.\<close>

definition table_ok :: "source \<Rightarrow> table \<Rightarrow> bool" where
  "table_ok readAt t \<longleftrightarrow> track_ok readAt t \<and> composition_ok t \<and> iterator_ok readAt t (mSampleIterator t)"

lemma seekTo_current:
  assumes "table_ok readAt t" "i < mNumSampleSizes t"
  shows "\<exists>it l. seekTo readAt i t = Some (t\<lparr>mSampleIterator := it, mCompositionDeltaLookup := l\<rparr>, OK)
    \<and> table_ok readAt (t\<lparr>mSampleIterator := it, mCompositionDeltaLookup := l\<rparr>)
    \<and> mInitialized it \<and> mCurrentSampleIndex it = i \<and> current_sample it = sample_of readAt t (unat i)"
proof -
  let ?it = "mSampleIterator t" and ?es = "mSampleToChunkEntries t"
  have t: "track_ok readAt t" "composition_ok t" "iterator_ok readAt t ?it" using assms(1) by (auto simp: table_ok_def)
  note tok = track_okD [OF t(1)]
  have guards: "\<not> mNumSampleSizes t \<le> i" "\<not> (mSampleToChunkOffset t < 0 \<or> mChunkOffsetOffset t < 0
      \<or> mSampleSizeOffset t < 0 \<or> mTimeToSampleCount t = 0)"
    using assms(2) tok(4,6,7,8) by auto
  show ?thesis
  proof (cases "mInitialized ?it \<and> mCurrentSampleIndex ?it = i")
    case True
    have same: "t\<lparr>mSampleIterator := mSampleIterator t, mCompositionDeltaLookup := mCompositionDeltaLookup t\<rparr> = t"
      by (cases t) simp
    have "seekTo readAt i t = Some (t, OK)" using True guards by (simp add: seekTo_def)
    moreover have "current_sample ?it = sample_of readAt t (unat i)"
      using True t(3) by (auto simp: iterator_ok_def)
    ultimately show ?thesis
      using assms(1) by (intro exI [of _ ?it] exI [of _ "mCompositionDeltaLookup t"])
        (simp only: same True simp_thms)
  next
    case False
    have "mNumSampleSizes t \<le> 0xffffffff" using unsigned_less [of "mNumSampleSizes t", where ?'a = nat]
      by (simp add: word_le_nat_alt)
    then have "i < 0xffffffff" using assms(2) by simp
    moreover have "range_ok ?es ?it" if "mInitialized ?it" using t(3) that by (simp add: iterator_ok_def)
    ultimately obtain it1 where it1: "seek_range i t ?it = Some (it1, OK)" "range_ok ?es it1"
        "same_but_range ?it it1" "mFirstChunkSampleIndex it1 \<le> i" "i < mStopChunkSampleIndex it1"
      using seek_range_ok [OF tok(1,2), of ?it i] by blast
    let ?it2 = "with_chunk readAt t (unat i) it1"
    have "\<exists>j < unat (mNumSampleSizes t). chunk_loaded readAt t j it1" if "mInitialized it1"
      using that t(3) it1(3) by (auto simp: iterator_ok_def same_but_range_def chunk_loaded_eq word_less_nat_alt)
    then have it2: "seek_chunk readAt i t it1 = Some (?it2, OK)"
      using seek_chunk_ok [OF t(1) assms(2) it1(2,4,5)] by blast
    have "cursor_ok t ?it2" using t(3) it1(3)
      by (simp add: iterator_ok_def same_but_range_def cursor_ok_def with_chunk_def Let_def)
    moreover have "range_ok ?es ?it2" "mFirstChunkSampleIndex ?it2 \<le> i" "i < mStopChunkSampleIndex ?it2"
      using it1 by (simp_all add: range_ok_def with_chunk_def Let_def)
    moreover have "chunk_loaded readAt t (unat i) ?it2"
      by (simp add: chunk_loaded_def with_chunk_def Let_def)
    ultimately obtain it' l where s: "seek_sample i (t\<lparr>mSampleIterator := ?it2\<rparr>)
          = Some (t\<lparr>mSampleIterator := it', mCompositionDeltaLookup := l\<rparr>, OK)"
        "mInitialized it'" "mCurrentSampleIndex it' = i" "iterator_ok readAt t it'"
        "composition_ok (t\<lparr>mSampleIterator := it', mCompositionDeltaLookup := l\<rparr>)"
      using seek_sample_ok [of readAt "t\<lparr>mSampleIterator := ?it2\<rparr>" i] t assms(2)
      by (auto simp: boxes)
    have "seekTo readAt i t = Some (t\<lparr>mSampleIterator := it', mCompositionDeltaLookup := l\<rparr>, OK)"
      using guards False it1(1) it2 s(1) by (auto simp: seekTo_def)
    moreover have "current_sample it' = sample_of readAt t (unat i)" using s(2,3,4) by (simp add: iterator_ok_def)
    ultimately show ?thesis using s t by (auto simp: table_ok_def boxes)
  qed
qed

text \<open>
  A chunk offset that cannot be read leaves the new chunk with the sizes of the old one, and
  offset 0; they are taken for those of the new chunk by the next call.
\<close>

lemma stale_chunk:
  assumes "table_ok readAt t" "mInitialized (mSampleIterator t)" "i < mNumSampleSizes t"
  defines "es \<equiv> mSampleToChunkEntries t" and "j \<equiv> unat (mCurrentSampleIndex (mSampleIterator t))"
  assumes "chunk_of es (unat i) \<noteq> chunk_of es j"
    "unat i - chunk_start_of es (unat i) < samples_per_chunk_of es j"
    "getChunkOffset broken t (of_nat (chunk_of es (unat i))) = Some (ERROR_IO, 0)"
  shows "\<exists>t1 t2. seekTo broken i t = Some (t1, ERROR_IO) \<and> seekTo readAt i t1 = Some (t2, OK)
    \<and> mCurrentSampleOffset (mSampleIterator t2)
        = int (sum_list (sizes_from readAt t (chunk_start_of es j) (unat i - chunk_start_of es (unat i))))
    \<and> mCurrentSampleSize (mSampleIterator t2)
        = the (size_value readAt t (chunk_start_of es j + (unat i - chunk_start_of es (unat i))))"
proof -
  let ?it = "mSampleIterator t" and ?c = "chunk_of es (unat i)" and ?r = "unat i - chunk_start_of es (unat i)"
  have t: "track_ok readAt t" "composition_ok t" "iterator_ok readAt t ?it" using assms(1) by (auto simp: table_ok_def)
  note tok = track_okD [OF t(1)]
  have it: "range_ok es ?it" "cursor_ok t ?it" "chunk_loaded readAt t j ?it" "j < unat (mNumSampleSizes t)"
    using t(3) assms(2) by (auto simp: iterator_ok_def es_def j_def word_less_nat_alt)
  have guards: "\<not> mNumSampleSizes t \<le> i" "\<not> (mSampleToChunkOffset t < 0 \<or> mChunkOffsetOffset t < 0
      \<or> mSampleSizeOffset t < 0 \<or> mTimeToSampleCount t = 0)" "mCurrentSampleIndex ?it \<noteq> i"
    using assms(3,6) tok(4,6,7,8) by (auto simp: j_def)
  have "mNumSampleSizes t \<le> 0xffffffff"
    using unsigned_less [of "mNumSampleSizes t", where ?'a = nat] by (simp add: word_le_nat_alt)
  then have "i < 0xffffffff" using assms(3) by simp
  then obtain it1 where it1: "seek_range i t ?it = Some (it1, OK)" "range_ok es it1"
      "same_but_range ?it it1" "mFirstChunkSampleIndex it1 \<le> i" "i < mStopChunkSampleIndex it1"
    using seek_range_ok [OF tok(1,2), of ?it i] it(1) by (auto simp: es_def)
  note words = chunk_words [OF t(1) assms(3) it1(2) [unfolded es_def] it1(4,5), folded es_def]
  have i: "unat i < unat (mNumSampleSizes t)" using assms(3) by (simp add: word_less_nat_alt)
  have n32: "unat (mNumChunkOffsets t) < 2 ^ 32"
    using unsigned_less [of "mNumChunkOffsets t", where ?'a = nat] by simp
  have new: "of_nat ?c \<noteq> mCurrentChunkIndex it1"
    using it(3) it1(3) assms(6) tok(9) [OF i] tok(9) [OF it(4)] n32
    by (auto simp: chunk_loaded_eq same_but_range_def es_def word_of_nat_eq_iff take_bit_nat_eq_self)
  let ?it2 = "it1\<lparr>mCurrentChunkIndex := of_nat ?c, mCurrentChunkOffset := 0\<rparr>"
  let ?t1 = "t\<lparr>mSampleIterator := ?it2\<rparr>"
  have kept: "mInitialized it1" "mCurrentSampleIndex it1 = mCurrentSampleIndex ?it"
    using it1(3) assms(2) by (simp_all add: same_but_range_def)
  have "seek_chunk broken i t it1 = Some (?it2, ERROR_IO)"
    using new words(1,3) it1(5) assms(8) by (simp add: seek_chunk_def Let_def status_defs)
  then have first: "seekTo broken i t = Some (?t1, ERROR_IO)"
    using guards assms(2) it1(1) by (auto simp: seekTo_def status_defs)
  have range: "seek_range i ?t1 ?it2 = Some (?it2, OK)"
    using kept(1) it1(4,5) by (simp add: seek_range_def linorder_not_le [symmetric])
  have chunk: "seek_chunk readAt i ?t1 ?it2 = Some (?it2, OK)"
    using kept(1) words(1,3) it1(5) by (simp add: seek_chunk_def Let_def)
  have sizes: "mCurrentChunkSampleSizes it1 = sizes_from readAt t (chunk_start_of es j) (samples_per_chunk_of es j)"
    using it(3) it1(3) by (simp add: chunk_loaded_eq same_but_range_def es_def)
  have "cursor_ok t ?it2" using it(2) it1(3) by (simp add: same_but_range_def cursor_ok_def Let_def)
  then obtain it' l where s: "seek_sample i ?t1 = Some (t\<lparr>mSampleIterator := it', mCompositionDeltaLookup := l\<rparr>, OK)"
      "same_but_time (?it2\<lparr>mCurrentSampleOffset := int (sum_list (take ?r (mCurrentChunkSampleSizes it1))),
        mCurrentSampleSize := mCurrentChunkSampleSizes it1 ! ?r\<rparr>) it'"
    using seek_sample_value [of ?t1 i] tok(3,5) i t(2) assms(3,7) words(5) sizes
    by (auto simp: boxes sizes_from_def)
  have "seekTo readAt i ?t1 = Some (t\<lparr>mSampleIterator := it', mCompositionDeltaLookup := l\<rparr>, OK)"
    using guards kept range chunk s(1) by (simp add: seekTo_def)
  with first show ?thesis
    using s(2) sizes assms(7) by (auto simp: same_but_time_def sizes_from_def take_map take_upt)
qed

text \<open>Metadata requests for a sequence of samples.\<close>

fun requests :: "source \<Rightarrow> u32 list \<Rightarrow> table \<Rightarrow> (int \<times> meta_data option) list option" where
  "requests readAt [] t = Some []"
| "requests readAt (i # is) t = do {
     (t, err, md) \<leftarrow> getMetaDataForSample readAt i False t;
     rs \<leftarrow> requests readAt is t;
     Some ((err, md) # rs) }"

lemma requests_ok:
  assumes "table_ok readAt t"
  shows "requests readAt is t = Some (map (\<lambda>i. if i < mNumSampleSizes t then (OK, Some (sample_of readAt t (unat i)))
    else (ERROR_END_OF_STREAM, None)) is)"
  using assms
proof (induction "is" arbitrary: t)
  case Nil
  then show ?case by simp
next
  case (Cons i "is")
  show ?case
  proof (cases "i < mNumSampleSizes t")
    case True
    with seekTo_current [OF Cons.prems True] obtain it l where
      s: "seekTo readAt i t = Some (t\<lparr>mSampleIterator := it, mCompositionDeltaLookup := l\<rparr>, OK)"
        "table_ok readAt (t\<lparr>mSampleIterator := it, mCompositionDeltaLookup := l\<rparr>)"
        "current_sample it = sample_of readAt t (unat i)"
      by blast
    then have "getMetaDataForSample readAt i False t
        = Some (t\<lparr>mSampleIterator := it, mCompositionDeltaLookup := l\<rparr>, OK, Some (sample_of readAt t (unat i)))"
      by (simp add: getMetaDataForSample_def Let_def current_sample_def)
    then show ?thesis using Cons.IH [OF s(2)] True by (simp add: boxes)
  next
    case False
    then have "getMetaDataForSample readAt i False t = Some (t, ERROR_END_OF_STREAM, None)"
      by (simp add: getMetaDataForSample_def seekTo_def status_defs linorder_not_le [symmetric])
    then show ?thesis using Cons.IH [OF Cons.prems] False by simp
  qed
qed

section \<open>Binary search\<close>

lemma search_steps:
  "\<not> l < r \<Longrightarrow> search key x l r = Some (l, False)"
  "l < r \<Longrightarrow> key (center_of l r) = Some y \<Longrightarrow> x < y \<Longrightarrow> search key x l r = search key x l (center_of l r)"
  "l < r \<Longrightarrow> key (center_of l r) = Some y \<Longrightarrow> y < x \<Longrightarrow> search key x l r = search key x (center_of l r + 1) r"
  "l < r \<Longrightarrow> key (center_of l r) = Some x \<Longrightarrow> search key x l r = Some (center_of l r, True)"
  using search.simps [of key x l r] by auto

lemma search_spec:
  assumes "\<And>c. l \<le> c \<Longrightarrow> c < r \<Longrightarrow> key c = Some (f c)"
    "\<And>c d. l \<le> c \<Longrightarrow> c \<le> d \<Longrightarrow> d < r \<Longrightarrow> f c \<le> f d" "l \<le> r"
  shows "\<exists>p found. search key x l r = Some (p, found) \<and> l \<le> p \<and> p \<le> r \<and> (found \<longrightarrow> p < r \<and> f p = x)
    \<and> (\<not> found \<longrightarrow> (\<forall>c. l \<le> c \<longrightarrow> c < p \<longrightarrow> f c < x) \<and> (\<forall>c. p \<le> c \<longrightarrow> c < r \<longrightarrow> x < f c))"
  using assms
proof (induction key x l r rule: search.induct)
  case (1 key x l r)
  let ?c = "center_of l r"
  show ?case
  proof (cases "l < r")
    case False
    then have "l = r" using "1.prems"(3) by simp
    then have "search key x l r = Some (l, False)" "l \<le> r" "\<And>c. l \<le> c \<Longrightarrow> \<not> c < l" "\<And>c. l \<le> c \<Longrightarrow> \<not> c < r"
      by (simp_all add: search_steps(1))
    then show ?thesis by blast
  next
    case True
    note c = center_between [OF True]
    have key: "key ?c = Some (f ?c)" using "1.prems"(1) c by blast
    consider "x < f ?c" | "f ?c < x" | "f ?c = x" by fastforce
    then show ?thesis
    proof cases
      case 1
      have step: "search key x l r = search key x l ?c" by (rule search_steps(2) [of l r key, OF True key 1])
      have "\<exists>p found. search key x l ?c = Some (p, found) \<and> l \<le> p \<and> p \<le> ?c \<and> (found \<longrightarrow> p < ?c \<and> f p = x)
          \<and> (\<not> found \<longrightarrow> (\<forall>d. l \<le> d \<longrightarrow> d < p \<longrightarrow> f d < x) \<and> (\<forall>d. p \<le> d \<longrightarrow> d < ?c \<longrightarrow> x < f d))"
        by (rule "1.IH"(1) [OF True key 1]) (use "1.prems"(1,2) c(1,2) in \<open>auto intro: order_less_trans\<close>)
      then obtain p found where ih: "search key x l ?c = Some (p, found)" "l \<le> p" "p \<le> ?c"
          "found \<Longrightarrow> p < ?c \<and> f p = x" "\<not> found \<Longrightarrow> \<forall>d. l \<le> d \<longrightarrow> d < p \<longrightarrow> f d < x"
          "\<not> found \<Longrightarrow> \<forall>d. p \<le> d \<longrightarrow> d < ?c \<longrightarrow> x < f d"
        by blast
      have "x < f d" if "\<not> found" "p \<le> d" "d < r" for d
        using ih(6) [OF that(1)] that "1.prems"(2) [of ?c d] c(1) 1 by (cases "d < ?c") (auto simp: not_less)
      moreover have "p \<le> r" "found \<Longrightarrow> p < r" using ih(3,4) c(2) by auto
      ultimately show ?thesis unfolding step using ih(1,2,4,5) by blast
    next
      case 2
      have suc: "d \<le> ?c \<longleftrightarrow> \<not> ?c + 1 \<le> d" for d using c(3) by (auto simp: word_le_nat_alt)
      have step: "search key x l r = search key x (?c + 1) r" by (rule search_steps(3) [of l r key, OF True key 2])
      have le: "?c + 1 \<le> r" using c(2,3) by (simp add: word_le_nat_alt word_less_nat_alt)
      have up: "l \<le> d" if "?c + 1 \<le> d" for d using that c(1) suc [of d] by auto
      have "\<exists>p found. search key x (?c + 1) r = Some (p, found) \<and> ?c + 1 \<le> p \<and> p \<le> r \<and> (found \<longrightarrow> p < r \<and> f p = x)
          \<and> (\<not> found \<longrightarrow> (\<forall>d. ?c + 1 \<le> d \<longrightarrow> d < p \<longrightarrow> f d < x) \<and> (\<forall>d. p \<le> d \<longrightarrow> d < r \<longrightarrow> x < f d))"
        by (rule "1.IH"(2) [OF True key]) (use "1.prems"(1,2) 2 le up in auto)
      then obtain p found where ih: "search key x (?c + 1) r = Some (p, found)" "?c + 1 \<le> p" "p \<le> r"
          "found \<Longrightarrow> p < r \<and> f p = x" "\<not> found \<Longrightarrow> \<forall>d. ?c + 1 \<le> d \<longrightarrow> d < p \<longrightarrow> f d < x"
          "\<not> found \<Longrightarrow> \<forall>d. p \<le> d \<longrightarrow> d < r \<longrightarrow> x < f d"
        by blast
      have "f d < x" if "\<not> found" "l \<le> d" "d < p" for d
        using ih(5) [OF that(1)] that "1.prems"(2) [of d ?c] c(2) 2 suc [of d] by (cases "?c + 1 \<le> d") auto
      moreover have "l \<le> p" using up ih(2) by blast
      ultimately show ?thesis unfolding step using ih(1,3,4,6) by blast
    next
      case 3
      then have "search key x l r = Some (?c, True)" using True key by (intro search_steps(4)) auto
      with 3 c(1,2) show ?thesis by (intro exI [of _ ?c] exI [of _ True]) simp
    qed
  qed
qed

text \<open>In a sorted array of numbers.\<close>

lemma search_sorted:
  fixes xs :: "u32 list"
  assumes "sorted xs" "unat r = length xs"
  shows "\<exists>p found. search (\<lambda>c. fetch xs (unat c)) x 0 r = Some (p, found) \<and> unat p \<le> length xs
    \<and> (found \<longrightarrow> x \<in> set xs) \<and> (\<not> found \<longrightarrow> x \<notin> set xs
      \<and> filter (\<lambda>s. s < x) xs = take (unat p) xs \<and> filter (\<lambda>s. x < s) xs = drop (unat p) xs)"
proof -
  have key: "fetch xs (unat c) = Some (xs ! unat c)" if "c < r" for c
    using that assms(2) by (simp add: word_less_nat_alt)
  have mono: "xs ! unat c \<le> xs ! unat d" if "c \<le> d" "d < r" for c d
    by (rule sorted_nth_mono [OF assms(1)]) (use that assms(2) in \<open>simp_all add: word_less_nat_alt word_le_nat_alt\<close>)
  obtain p found where s: "search (\<lambda>c. fetch xs (unat c)) x 0 r = Some (p, found)" "p \<le> r"
      "found \<Longrightarrow> p < r \<and> xs ! unat p = x" "\<not> found \<Longrightarrow> \<forall>c. c < p \<longrightarrow> xs ! unat c < x"
      "\<not> found \<Longrightarrow> \<forall>c. p \<le> c \<longrightarrow> c < r \<longrightarrow> x < xs ! unat c"
    using search_spec [of 0 r "\<lambda>c. fetch xs (unat c)" "\<lambda>c. xs ! unat c" x] key mono by auto
  have len: "length xs < 2 ^ 32" using unsigned_less [of r, where ?'a = nat] assms(2) by simp
  have idx: "unat (of_nat k :: u32) = k" if "k < length xs" for k
    using that len by (simp add: unsigned_of_nat take_bit_nat_eq_self)
  have "filter (\<lambda>s. s < x) xs = take (unat p) xs \<and> filter (\<lambda>s. x < s) xs = drop (unat p) xs \<and> x \<notin> set xs" if "\<not> found"
  proof -
    have "xs ! k < x" if "k < length xs" "k < unat p" for k
      using s(4) [OF \<open>\<not> found\<close>] idx [OF that(1)] that(2) by (metis word_less_nat_alt)
    then have before: "\<forall>y \<in> set (take (unat p) xs). y < x" by (auto simp: in_set_conv_nth)
    have "x < xs ! k" if "k < length xs" "unat p \<le> k" for k
      using s(5) [OF \<open>\<not> found\<close>] idx [OF that(1)] that assms(2) by (metis word_less_nat_alt word_le_nat_alt)
    then have after: "\<forall>y \<in> set (drop (unat p) xs). x < y" by (auto simp: in_set_conv_nth)
    have "set xs = set (take (unat p) xs) \<union> set (drop (unat p) xs)" by (metis append_take_drop_id set_append)
    with before after have "x \<notin> set xs" by auto
    moreover have "filter P xs = filter P (take (unat p) xs) @ filter P (drop (unat p) xs)" for P
      by (metis append_take_drop_id filter_append)
    ultimately show ?thesis using before after by (auto simp: filter_id_conv filter_empty_conv)
  qed
  moreover have "x \<in> set xs" if "found"
    using s(3) [OF that] assms(2) nth_mem [of "unat p" xs] by (auto simp: word_less_nat_alt)
  moreover have "unat p \<le> length xs" using s(2) assms(2) by (simp add: word_le_nat_alt)
  ultimately show ?thesis using s(1) by blast
qed

section \<open>Sync samples\<close>

lemma sync_scan_first:
  assumes "num \<le> length ss" "i \<le> num"
  shows "\<exists>j. sync_scan ss num x i = Some j \<and> i \<le> j \<and> j \<le> num \<and> (\<forall>k. i \<le> k \<longrightarrow> k < j \<longrightarrow> ss ! k < x)
    \<and> (j < num \<longrightarrow> x \<le> ss ! j)"
  using assms
proof (induction ss num x i rule: sync_scan.induct)
  case (1 ss num x i)
  show ?case
  proof (cases "i < num \<and> ss ! i < x")
    case True
    then have here: "fetch ss i = Some (ss ! i)" using "1.prems"(1) by simp
    obtain j where j: "sync_scan ss num x (i + 1) = Some j" "i + 1 \<le> j" "j \<le> num"
        "\<forall>k. i + 1 \<le> k \<longrightarrow> k < j \<longrightarrow> ss ! k < x" "j < num \<longrightarrow> x \<le> ss ! j"
      using "1.IH" [OF _ here] True "1.prems"(1) by auto
    have "sync_scan ss num x i = Some j" using True here j(1) by (subst sync_scan.simps) simp
    moreover have "ss ! k < x" if "i \<le> k" "k < j" for k
      using True j(4) that by (cases "k = i") auto
    ultimately show ?thesis using j(2,3,5) by (intro exI [of _ j]) simp
  next
    case False
    then have "sync_scan ss num x i = Some i" using "1.prems"(1) by (subst sync_scan.simps) auto
    then show ?thesis using False "1.prems"(2) by auto
  qed
qed

section \<open>Words of a box\<close>

lemma length_stored_words: "length (stored_words bs) = length bs div 4"
  by (induction bs rule: stored_words.induct) auto

lemma stored_words_nth:
  "k < length (stored_words bs) \<Longrightarrow> U32_AT bs (4 * k) = Some (ntohl (stored_words bs ! k))"
proof (induction bs arbitrary: k rule: stored_words.induct)
  case (1 a b c d r)
  show ?case
  proof (cases k)
    case 0
    then show ?thesis using ntohl_load [of "[a, b, c, d]"] by (simp add: U32_AT_def del: load_le.simps)
  next
    case (Suc m)
    have "U32_AT (a # b # c # d # r) (4 * Suc m) = U32_AT r (4 * m)"
      by (simp add: U32_AT_def fetch_def add.commute [of 3])
    then show ?thesis using 1 Suc by simp
  qed
qed simp_all

lemma U32_AT_take_drop: "i + 4 \<le> n \<Longrightarrow> U32_AT (take n (drop m bs)) i = U32_AT bs (m + i)"
  by (auto simp: U32_AT_def fetch_def ac_simps)

text \<open>A read from a buffer that returns all that was asked for.\<close>

lemma uri_read_all:
  assumes "uri_readAt bs (int off) n = (r, data)" "int n \<le> r"
  shows "data = take n (drop off bs) \<and> length data = n"
  using assms by (auto simp: uri_readAt_def Let_def split: if_splits)

end
