(* ===== verification/SampleTableProperties.thy ===== *)
theory SampleTableProperties
  imports SampleTableFacts
begin

text \<open>
  The properties of the sample table, with the track on which they are applied.
\<close>

section \<open>An example track\<close>

text \<open>
  The bodies of the four boxes of a track of four samples, three in its first chunk and one in
  its second: the sizes, the chunk offsets, the sample-to-chunk and the time-to-sample table.
\<close>

definition example_stsz :: "byte list" where
  "example_stsz = [0,0,0,0, 0,0,0,0, 0,0,0,4, 0,0,0,10, 0,0,0,20, 0,0,0,30, 0,0,0,40]"

definition example_stco :: "byte list" where
  "example_stco = [0,0,0,0, 0,0,0,2, 0,0,3,232, 0,0,7,208]"

definition example_stsc :: "byte list" where
  "example_stsc = [0,0,0,0, 0,0,0,2, 0,0,0,1, 0,0,0,3, 0,0,0,1, 0,0,0,2, 0,0,0,1, 0,0,0,1]"

definition example_stts :: "byte list" where
  "example_stts = [0,0,0,0, 0,0,0,2, 0,0,0,1, 0,0,0,5, 0,0,0,3, 0,0,0,7]"

definition example_file :: "byte list" where
  "example_file = example_stsz @ example_stco @ example_stsc @ example_stts"

definition parse_track :: "source \<Rightarrow> table option" where
  "parse_track readAt = do {
     (t, _) \<leftarrow> setSampleSizeParams readAt kSampleSizeType32 0 28 SampleTable;
     (t, _) \<leftarrow> setChunkOffsetParams readAt kChunkOffsetType32 28 16 t;
     (t, _) \<leftarrow> setSampleToChunkParams readAt (\<lambda>_. True) 44 32 t;
     (t, _) \<leftarrow> setTimeToSampleParams readAt (\<lambda>_. True) 76 24 t;
     Some t }"

definition example_chunks :: "chunk_entry list" where
  "example_chunks = [\<lparr>startChunk = 0, samplesPerChunk = 3, chunkDesc = 1\<rparr>,
     \<lparr>startChunk = 1, samplesPerChunk = 1, chunkDesc = 1\<rparr>]"

definition example_track :: table where
  "example_track = SampleTable\<lparr>mSampleSizeOffset := 0, mNumSampleSizes := 4, mSampleSizeFieldSize := 32,
     mChunkOffsetOffset := 28, mChunkOffsetType := kChunkOffsetType32, mNumChunkOffsets := 2,
     mSampleToChunkOffset := 44, mNumSampleToChunkOffsets := 2,
     mSampleToChunkEntries := example_chunks,
     mTimeToSampleCount := 2, mTimeToSample := Some [1, 5, 3, 7]\<rparr>"

lemmas evaluate = uri_readAt_def U32_AT_def be32_def fetch_def status_defs
  example_file_def example_stsz_def example_stco_def example_stsc_def example_stts_def

lemma example_stsz_parsed:
  "mSampleSizeOffset t = -1 \<Longrightarrow> setSampleSizeParams (uri_readAt example_file) kSampleSizeType32 0 28 t =
     Some (t\<lparr>mSampleSizeOffset := 0, mNumSampleSizes := 4, mDefaultSampleSize := 0, mSampleSizeFieldSize := 32\<rparr>, OK)"
  by (simp add: setSampleSizeParams_def evaluate)

lemma example_stco_parsed:
  "mChunkOffsetOffset t = -1 \<Longrightarrow> setChunkOffsetParams (uri_readAt example_file) kChunkOffsetType32 28 16 t =
     Some (t\<lparr>mChunkOffsetOffset := 28, mChunkOffsetType := kChunkOffsetType32, mNumChunkOffsets := 2\<rparr>, OK)"
  by (simp add: setChunkOffsetParams_def evaluate)

lemma example_stsc_loop:
  "mSampleToChunkOffset t = 44 \<Longrightarrow> mNumSampleToChunkOffsets t = 2 \<Longrightarrow> mSampleToChunkEntries t = [] \<Longrightarrow>
     chunk_loop (uri_readAt example_file) 0 t =
       Some (t\<lparr>mSampleToChunkEntries := example_chunks\<rparr>, OK)"
  by (subst chunk_loop.simps, simp add: evaluate example_chunks_def)+

lemma example_stsc_parsed:
  "mSampleToChunkOffset t = -1 \<Longrightarrow> setSampleToChunkParams (uri_readAt example_file) (\<lambda>_. True) 44 32 t =
     Some (t\<lparr>mSampleToChunkOffset := 44, mNumSampleToChunkOffsets := 2,
       mSampleToChunkEntries := example_chunks\<rparr>, OK)"
  using example_stsc_loop by (simp add: setSampleToChunkParams_def) (simp add: evaluate)

lemma example_stts_parsed:
  "mTimeToSample t = None \<Longrightarrow> setTimeToSampleParams (uri_readAt example_file) (\<lambda>_. True) 76 24 t =
     Some (t\<lparr>mTimeToSampleCount := 2, mTimeToSample := Some [1, 5, 3, 7]\<rparr>, OK)"
  by (simp add: setTimeToSampleParams_def evaluate ntohl_def)

lemma example_parse: "parse_track (uri_readAt example_file) = Some example_track"
  by (simp add: parse_track_def example_stsz_parsed example_stco_parsed example_stsc_parsed
    example_stts_parsed SampleTable_def example_track_def)

lemma example_counts [simp]:
  "mNumSampleSizes example_track = 4" "mNumChunkOffsets example_track = 2"
  "mSampleToChunkEntries example_track = example_chunks"
  "tts_pairs example_track = [(1, 5), (3, 7)]"
  "composition_offset example_track i = 0"
  by (simp_all add: example_track_def SampleTable_def tts_pairs_def pairs_def composition_offset_def upt_rec)

lemma example_chunk_table [simp]:
  "length example_chunks = 2" "chunks_ok example_chunks"
  "entry_of example_chunks i = (if i < 3 then 0 else 1)"
  "chunk_of example_chunks i = (if i < 3 then 0 else Suc (i - 3))"
  "chunk_start_of example_chunks i = (if i < 3 then 0 else i)"
  "samples_per_chunk_of example_chunks i = (if i < 3 then 3 else 1)"
  by (simp_all add: example_chunks_def chunks_ok_def chunk_of_def chunk_start_of_def samples_per_chunk_of_def
      entry_of_def first_of_def upt_rec)

lemma example_offsets [simp]:
  "offset_value (uri_readAt example_file) example_track 0 = Some 1000"
  "offset_value (uri_readAt example_file) example_track (Suc 0) = Some 2000"
  by (simp_all add: offset_value_def getChunkOffset_def example_track_def SampleTable_def evaluate ntohl_def word_le_nat_alt)

lemma example_sizes [simp]:
  "size_value (uri_readAt example_file) example_track 0 = Some 10"
  "size_value (uri_readAt example_file) example_track (Suc 0) = Some 20"
  "size_value (uri_readAt example_file) example_track 2 = Some 30"
  "size_value (uri_readAt example_file) example_track 3 = Some 40"
  by (simp_all add: size_value_def getSampleSizeDirect_def example_track_def SampleTable_def evaluate ntohl_def word_le_nat_alt)

lemma example_track_ok: "track_ok (uri_readAt example_file) example_track"
proof -
  have "[0..<4] = [0, 1, 2, 3::nat]" by (simp add: upt_rec)
  then show ?thesis
    by (simp add: track_ok_def Let_def tts_ok_def) (simp add: example_track_def SampleTable_def)
qed

section \<open>Properties\<close>



text \<open>
  When the offset of a new chunk cannot be read, seekTo has already recorded the new chunk as
  the current one. The next request for the same sample then reads nothing and succeeds with the
  size of a sample of the old chunk and with an offset counted from the start of the file.
\<close>

theorem failed_offset_read_poisons_cache:
  assumes "track_ok readAt t" "composition_ok t" "mSampleIterator t = SampleIterator"
    "i < mNumSampleSizes t" "j < mNumSampleSizes t"
  defines "es \<equiv> mSampleToChunkEntries t"
  assumes "chunk_of es (unat i) \<noteq> chunk_of es (unat j)"
    "unat i - chunk_start_of es (unat i) < samples_per_chunk_of es (unat j)"
    "getChunkOffset broken t (of_nat (chunk_of es (unat i))) = Some (ERROR_IO, 0)"
  shows "\<exists>t0 t1 t2. seekTo readAt j t = Some (t0, OK) \<and> seekTo broken i t0 = Some (t1, ERROR_IO)
    \<and> seekTo readAt i t1 = Some (t2, OK)
    \<and> mCurrentSampleOffset (mSampleIterator t2)
        = int (sum_list (sizes_from readAt t (chunk_start_of es (unat j)) (unat i - chunk_start_of es (unat i))))
    \<and> mCurrentSampleSize (mSampleIterator t2)
        = the (size_value readAt t (chunk_start_of es (unat j) + (unat i - chunk_start_of es (unat i))))"
proof -
  have "table_ok readAt t"
    using assms(1-3) by (simp add: table_ok_def iterator_ok_def cursor_ok_def SampleIterator_def reset_def)
  from seekTo_current [OF this assms(5)] obtain it0 l where t0:
      "seekTo readAt j t = Some (t\<lparr>mSampleIterator := it0, mCompositionDeltaLookup := l\<rparr>, OK)"
      "table_ok readAt (t\<lparr>mSampleIterator := it0, mCompositionDeltaLookup := l\<rparr>)"
      "mInitialized it0" "mCurrentSampleIndex it0 = j"
    by blast
  from stale_chunk [OF t0(2), of i broken] t0(3,4) assms(4,5,7-9) show ?thesis
    unfolding es_def using t0(1) by (auto simp: boxes)
qed

theorem failed_offset_read_poisons_cache_witness:
  "\<exists>t0 t1 t2. seekTo (uri_readAt example_file) 0 example_track = Some (t0, OK)
    \<and> seekTo (\<lambda>_ _. (-1, [])) 3 t0 = Some (t1, ERROR_IO) \<and> seekTo (uri_readAt example_file) 3 t1 = Some (t2, OK)
    \<and> mCurrentSampleOffset (mSampleIterator t2) = 0 \<and> mCurrentSampleSize (mSampleIterator t2) = 10"
proof -
  have "composition_ok example_track" "mSampleIterator example_track = SampleIterator"
    by (simp_all add: composition_ok_def example_track_def SampleTable_def CompositionDeltaLookup_def)
  then show ?thesis
    using failed_offset_read_poisons_cache [OF example_track_ok, of 3 0 "\<lambda>_ _. (-1, [])"]
    by (simp add: sizes_from_def getChunkOffset_def) (simp add: example_track_def SampleTable_def word_le_nat_alt)
qed

text \<open>
  A table that setSampleSizeParams accepts lies within its box: the sizes of all samples take
  no more bytes than the box has after its header, for 32, 16, 8 and 4-bit sizes alike.
\<close>

theorem sample_sizes_within_box:
  assumes "setSampleSizeParams readAt type data_offset data_size t = Some (t', OK)" "mDefaultSampleSize t' = 0"
  shows "mSampleSizeFieldSize t' \<in> {4, 8, 16, 32}
    \<and> 12 + (unat (mNumSampleSizes t') * unat (mSampleSizeFieldSize t') + 7) div 8 \<le> data_size"
proof -
  have small: "unat n \<le> 268435455" if "n \<le> 268435455" for n :: u32
    using that by (simp add: word_le_nat_alt)
  have "unat (12 + n * 4) = 12 + (unat n * 32 + 7) div 8"
      "unat (12 + (n * 4 + 4) div 8) = 12 + (unat n * 4 + 7) div 8"
      "unat (12 + (n * 8 + 4) div 8) = 12 + (unat n * 8 + 7) div 8"
      "unat (12 + (n * 16 + 4) div 8) = 12 + (unat n * 16 + 7) div 8"
    if "n \<le> 268435455" for n :: u32
  proof -
    have "unat (12 + w div 8) = 12 + unat w div 8" for w :: u32
      using unsigned_less [of w, where ?'a = nat] by (simp add: unat_word_ariths unat_div)
    moreover have "unat (n * 4 + 4) = unat n * 4 + 4" "unat (n * 8 + 4) = unat n * 8 + 4"
        "unat (n * 16 + 4) = unat n * 16 + 4" "unat (12 + n * 4) = 12 + unat n * 4"
      using small [OF that] by (simp_all add: unat_word_ariths)
    ultimately show "unat (12 + n * 4) = 12 + (unat n * 32 + 7) div 8"
        "unat (12 + (n * 4 + 4) div 8) = 12 + (unat n * 4 + 7) div 8"
        "unat (12 + (n * 8 + 4) div 8) = 12 + (unat n * 8 + 7) div 8"
        "unat (12 + (n * 16 + 4) div 8) = 12 + (unat n * 16 + 7) div 8"
      by presburger+
  qed
  then show ?thesis
    using assms
    by (auto simp: setSampleSizeParams_def status_defs Let_def not_less
        split: if_splits prod.splits bind_splits)
qed

theorem sample_sizes_within_box_witness:
  "\<exists>t'. setSampleSizeParams (uri_readAt example_file) kSampleSizeType32 0 28 SampleTable = Some (t', OK)
    \<and> 12 + (unat (mNumSampleSizes t') * unat (mSampleSizeFieldSize t') + 7) div 8 \<le> (28 :: nat)"
  using sample_sizes_within_box [OF example_stsz_parsed [of SampleTable]] example_stsz_parsed [of SampleTable]
  by (simp add: SampleTable_def)

text \<open>
  The size check of a 32-bit chunk offset table is made modulo 2 ^ 32: a box that claims n
  offsets is accepted exactly when 8 + 4 n, reduced modulo 2 ^ 32, is at most its size. A box of
  8 bytes that claims 2 ^ 30 offsets passes.
\<close>

theorem chunk_offset_count_wraps:
  assumes "mChunkOffsetOffset t < 0" "readAt data_offset 8 = (8, [0, 0, 0, 0, a, b, c, d])" "8 \<le> data_size"
  shows "\<exists>t'. setChunkOffsetParams readAt kChunkOffsetType32 data_offset data_size t
      = Some (t', if (8 + 4 * be_value [a, b, c, d]) mod 2 ^ 32 \<le> data_size then OK else ERROR_MALFORMED)
    \<and> unat (mNumChunkOffsets t') = be_value [a, b, c, d]"
proof -
  have "unat (8 + be32 a b c d * 4) = (8 + 4 * be_value [a, b, c, d]) mod 2 ^ 32"
    by (simp add: unat_word_ariths unat_be32 mult.commute mod_simps)
  moreover have "U32_AT [0, 0, 0, 0, a, b, c, d] 4 = Some (be32 a b c d)" "U32_AT [0, 0, 0, 0, a, b, c, d] 0 = Some 0"
    by (simp_all add: U32_AT_def fetch_def) (simp add: be32_def)
  ultimately show ?thesis
    using assms by (simp add: setChunkOffsetParams_def unat_be32)
qed

theorem chunk_offset_count_wraps_witness:
  "\<exists>t'. setChunkOffsetParams (uri_readAt [0, 0, 0, 0, 64, 0, 0, 0]) kChunkOffsetType32 0 8 SampleTable = Some (t', OK)
    \<and> unat (mNumChunkOffsets t') = 2 ^ 30"
  using chunk_offset_count_wraps [of SampleTable "uri_readAt [0, 0, 0, 0, 64, 0, 0, 0]" 0 64 0 0 0 8]
  by (simp add: SampleTable_def uri_readAt_def be_value_def)

text \<open>
  The size of a 32-bit sample is read with eight bytes, the size of a size_t: when the size
  table ends at the end of the source, the size of its last sample is never read.
\<close>

theorem last_sample_size_unreadable:
  assumes "mSampleSizeFieldSize t = 32" "mDefaultSampleSize t = 0" "i < mNumSampleSizes t"
    "0 \<le> mSampleSizeOffset t" "4 * unat i < 2 ^ 32"
    "nat (mSampleSizeOffset t) + 12 + 4 * unat i + 4 = length bs"
  shows "getSampleSizeDirect (uri_readAt bs) t i = Some (ERROR_IO, 0)"
proof -
  let ?k = "nat (mSampleSizeOffset t) + 12 + 4 * unat i"
  have "unat (4 * i) = 4 * unat i" using assms(5) by (simp add: unat_word_ariths)
  then have off: "mSampleSizeOffset t + 12 + int (unat (4 * i)) = int ?k" using assms(4) by simp
  have "uri_readAt bs (int k) 8 = (4, drop k bs)" if "length bs = k + 4" for k
    using that by (simp add: uri_readAt_def)
  moreover have "length bs = ?k + 4" using assms(6) by simp
  ultimately have "uri_readAt bs (mSampleSizeOffset t + 12 + int (unat (4 * i))) 8 = (4, drop ?k bs)" by (simp only: off)
  then show ?thesis using assms(1-3) by (simp add: getSampleSizeDirect_def linorder_not_le [symmetric])
qed

theorem last_sample_size_unreadable_witness:
  "getSampleSizeDirect (uri_readAt example_stsz) example_track 3 = Some (ERROR_IO, 0)"
  by (rule last_sample_size_unreadable)
    (simp_all add: example_track_def SampleTable_def example_stsz_def)

text \<open>
  An entry of zero samples per chunk, which the parser accepts, makes the first seek divide
  by zero.
\<close>

theorem zero_samples_per_chunk_faults:
  assumes "mSampleIterator t = SampleIterator" "i < mNumSampleSizes t" "0 \<le> mSampleToChunkOffset t"
    "0 \<le> mChunkOffsetOffset t" "0 \<le> mSampleSizeOffset t" "mTimeToSampleCount t \<noteq> 0"
    "mNumSampleToChunkOffsets t = 1" "mSampleToChunkEntries t = [e]" "samplesPerChunk e = 0"
  shows "seekTo readAt i t = None"
proof -
  have "mNumSampleSizes t \<le> 0xffffffff"
    using unsigned_less [of "mNumSampleSizes t", where ?'a = nat] by (simp add: word_le_nat_alt)
  then have i: "i < 0xffffffff" "\<not> 0xffffffff \<le> i" using assms(2) by simp_all
  have "next_range t SampleIterator = Some (SampleIterator\<lparr>mFirstChunk := startChunk e, mSamplesPerChunk := 0,
      mChunkDesc := chunkDesc e, mSampleToChunkIndex := 1, mStopChunk := 0xffffffff, mStopChunkSampleIndex := 0xffffffff\<rparr>)"
    using assms(7-9) by (simp add: next_range_def SampleIterator_def reset_def)
  then have "seek_range i t SampleIterator = Some (SampleIterator\<lparr>mFirstChunk := startChunk e, mSamplesPerChunk := 0,
      mChunkDesc := chunkDesc e, mSampleToChunkIndex := 1, mStopChunk := 0xffffffff, mStopChunkSampleIndex := 0xffffffff\<rparr>, OK)"
    using assms(7) i
    by (simp add: seek_range_def findChunkRange_def SampleIterator_def reset_def)
      (subst chunk_range_loop.simps, simp, subst chunk_range_loop.simps, auto)
  then show ?thesis
    using assms i by (auto simp: seekTo_def seek_chunk_def SampleIterator_def reset_def)
qed

theorem zero_samples_per_chunk_faults_witness:
  "seekTo (uri_readAt example_file) 0 (example_track\<lparr>mNumSampleToChunkOffsets := 1,
     mSampleToChunkEntries := [\<lparr>startChunk = 0, samplesPerChunk = 0, chunkDesc = 1\<rparr>]\<rparr>) = None"
  by (rule zero_samples_per_chunk_faults [where e = "\<lparr>startChunk = 0, samplesPerChunk = 0, chunkDesc = 1\<rparr>"]) (simp_all add: example_track_def SampleTable_def)

text \<open>
  The sync sample nearest to a sample: the sample itself if it is one; otherwise the one before
  or after it as the flag asks, the other one at the two ends of the table, except that nothing
  is found after the last one.
\<close>

definition nearest_sync :: "u32 \<Rightarrow> u32 \<Rightarrow> u32 list \<Rightarrow> int \<times> u32" where
  "nearest_sync i flags ss =
     (let before = filter (\<lambda>s. s < i) ss; after = filter (\<lambda>s. i < s) ss in
      if i \<in> set ss then (OK, i)
      else if after = [] \<and> flags = kFlagAfter then (ERROR_OUT_OF_RANGE, 0)
      else if after \<noteq> [] \<and> (before = [] \<or> flags = kFlagAfter) then (OK, hd after)
      else (OK, last before))"

text \<open>
  C40: On a sorted table of sync samples, the binary search of findSyncSampleNear finds the sync
  sample that a scan of the whole table finds.
\<close>

theorem sync_search_is_scan:
  assumes "0 \<le> mSyncSampleOffset t" "mSyncSamples t = Some ss" "ss \<noteq> []" "sorted ss"
    "length ss = unat (mNumSyncSamples t)" "flags = kFlagBefore \<or> flags = kFlagAfter"
  shows "findSyncSampleNear readAt i flags t = (case nearest_sync i flags ss of (err, s) \<Rightarrow> Some (t, err, s))"
proof -
  obtain p found where s: "search (\<lambda>c. fetch ss (unat c)) i 0 (mNumSyncSamples t) = Some (p, found)"
      "unat p \<le> length ss" "found \<Longrightarrow> i \<in> set ss" "\<not> found \<Longrightarrow> i \<notin> set ss"
      "\<not> found \<Longrightarrow> filter (\<lambda>s. s < i) ss = take (unat p) ss" "\<not> found \<Longrightarrow> filter (\<lambda>s. i < s) ss = drop (unat p) ss"
    using search_sorted [OF assms(4), of "mNumSyncSamples t" i] assms(5) [symmetric] by blast
  have n: "mNumSyncSamples t \<noteq> 0" using assms(3,5) by auto
  note unfold = findSyncSampleNear_def nearest_sync_def adjust_flags_def Let_def kFlagAfter_def kFlagBefore_def
  show ?thesis
  proof (cases found)
    case True
    then show ?thesis using assms(1,2) n s(1,3) by (simp add: unfold)
  next
    case False
    note s' = s(4,5,6) [OF False]
    consider (past) "p = mNumSyncSamples t" | (first) "p \<noteq> mNumSyncSamples t" "p = 0"
      | (inside) "p \<noteq> mNumSyncSamples t" "p \<noteq> 0" by blast
    then show ?thesis
    proof cases
      case past
      then have "unat p = length ss" using assms(5) by simp
      moreover have "unat (p - 1) = unat p - 1" using past n by (intro unat_minus_one) simp
      ultimately show ?thesis using assms(1-3,6) n s(1) s' False past
        by (auto simp: unfold last_conv_nth)
    next
      case first
      then show ?thesis using assms(1-3,6) n s(1) s' False by (auto simp: unfold hd_conv_nth)
    next
      case inside
      then have "unat p < length ss" using s(2) assms(5) by (auto simp: word_unat_eq_iff)
      moreover obtain k where k: "unat p = Suc k" using inside(2) by (metis gr0_implies_Suc unat_gt_0)
      moreover have "unat (p - 1) = k" using unat_minus_one [OF inside(2)] k by simp
      moreover have "last (take (unat p) ss) = ss ! k" "take (unat p) ss \<noteq> []"
        using k \<open>unat p < length ss\<close> by (auto simp: take_Suc_conv_app_nth)
      ultimately show ?thesis using assms(1-3,6) n s(1) s' False inside
        by (auto simp: unfold hd_drop_conv_nth)
    qed
  qed
qed

definition example_sync :: table where
  "example_sync = SampleTable\<lparr>mSyncSampleOffset := 0, mNumSyncSamples := 3, mSyncSamples := Some [2, 5, 9]\<rparr>"

theorem sync_search_is_scan_witness:
  "findSyncSampleNear (uri_readAt []) 7 kFlagBefore example_sync = Some (example_sync, OK, 5)"
  using sync_search_is_scan [of example_sync "[2, 5, 9]" kFlagBefore "uri_readAt []" 7]
  by (simp add: example_sync_def SampleTable_def nearest_sync_def kFlagBefore_def kFlagAfter_def)

text \<open>
  On a sorted table of sync samples the sync flag of a sample says whether the table holds
  it, whatever the cursor mLastSyncSampleIndex left by earlier requests.
\<close>

theorem sync_flag_ignores_cursor:
  assumes "0 \<le> mSyncSampleOffset t" "mSyncSamples t = Some ss" "sorted ss" "length ss = unat (mNumSyncSamples t)"
  shows "\<exists>k. is_sync_sample i t = Some (t\<lparr>mLastSyncSampleIndex := k\<rparr>, i \<in> set ss)"
proof -
  define s0 where "s0 = (if mLastSyncSampleIndex t < length ss \<and> ss ! mLastSyncSampleIndex t \<le> i
    then mLastSyncSampleIndex t else 0)"
  then have s0: "s0 \<le> length ss" "0 < s0 \<Longrightarrow> s0 < length ss \<and> ss ! s0 \<le> i" by (auto split: if_splits)
  obtain j where j: "sync_scan ss (length ss) i s0 = Some j" "s0 \<le> j" "j \<le> length ss"
      "\<And>k. s0 \<le> k \<Longrightarrow> k < j \<Longrightarrow> ss ! k < i" "j < length ss \<Longrightarrow> i \<le> ss ! j"
    using sync_scan_first [OF le_refl s0(1), of i] by blast
  have "j < length ss \<and> ss ! j = i" if "i \<in> set ss"
  proof -
    obtain m where m: "m < length ss" "ss ! m = i" using \<open>i \<in> set ss\<close> by (auto simp: in_set_conv_nth)
    show ?thesis
    proof (cases "m < s0")
      case True
      then have "ss ! s0 = i" "s0 < length ss"
        using s0(2) m(2) sorted_nth_mono [OF assms(3), of m s0] by auto
      moreover from this have "j = s0" using j(2) j(4) [of s0] by (cases "s0 < j") auto
      ultimately show ?thesis by simp
    next
      case False
      then have "\<not> m < j" using j(4) [of m] m(2) by auto
      then show ?thesis using m j(5) sorted_nth_mono [OF assms(3), of j m] by auto
    qed
  qed
  then have found: "(j < length ss \<and> ss ! j = i) \<longleftrightarrow> i \<in> set ss" by (auto simp: in_set_conv_nth)
  have "is_sync_sample i t = Some (t\<lparr>mLastSyncSampleIndex := j\<rparr>, j < length ss \<and> ss ! j = i)"
    using j(1) assms(1,2,4)
    by (cases "mLastSyncSampleIndex t < length ss"; cases "ss ! mLastSyncSampleIndex t \<le> i")
      (simp_all add: is_sync_sample_def Let_def s0_def)
  then show ?thesis using found by auto
qed

theorem sync_flag_ignores_cursor_witness:
  "\<exists>k. is_sync_sample 5 (example_sync\<lparr>mLastSyncSampleIndex := 2\<rparr>)
    = Some (example_sync\<lparr>mLastSyncSampleIndex := k\<rparr>, True)"
  using sync_flag_ignores_cursor [of "example_sync\<lparr>mLastSyncSampleIndex := 2\<rparr>" "[2, 5, 9]" 5]
  by (simp add: example_sync_def SampleTable_def)

text \<open>
  From a source whose bytes are known, the time-to-sample table that is read is the sequence of
  big-endian numbers that follows the count in the box, two for each entry counted.
\<close>

theorem time_to_sample_decoded:
  assumes "setTimeToSampleParams (uri_readAt bs) alloc (int off) data_size t = Some (t', OK)"
  shows "\<exists>es. mTimeToSample t' = Some es \<and> U32_AT bs (off + 4) = Some (mTimeToSampleCount t')
    \<and> length es = 2 * unat (mTimeToSampleCount t')
    \<and> (\<forall>k < length es. U32_AT bs (off + 8 + 4 * k) = Some (es ! k))"
proof -
  obtain r header where h: "uri_readAt bs (int off) 8 = (r, header)" by force
  with assms obtain version n r' body where p: "\<not> r < 8" "U32_AT header 0 = Some version" "U32_AT header 4 = Some n"
      "uri_readAt bs (int off + 8) (unat n * 2 * 4) = (r', body)" "\<not> r' < int (unat n * 2 * 4)"
      "unat (n * 2) \<le> length (stored_words body)" "\<not> 2 ^ 32 - 1 < unat n * 2 * 4"
      "t' = t\<lparr>mTimeToSampleCount := n, mTimeToSample := Some (map ntohl (stored_words body))\<rparr>"
    by (auto simp: setTimeToSampleParams_def Let_def status_defs split: if_splits prod.splits bind_splits)
  have hd: "header = take 8 (drop off bs)" using uri_read_all [OF h] p(1) by simp
  have "body = take (8 * unat n) (drop (off + 8) bs) \<and> length body = 8 * unat n"
    by (rule uri_read_all [of _ _ _ r']) (use p(4,5) in \<open>simp_all add: mult.commute\<close>)
  then have bd: "body = take (8 * unat n) (drop (off + 8) bs)" "length body = 8 * unat n" by blast+
  have len: "length (stored_words body) = 2 * unat n" by (simp add: length_stored_words bd(2))
  have "U32_AT bs (off + 8 + 4 * k) = Some (map ntohl (stored_words body) ! k)" if "k < 2 * unat n" for k
    using stored_words_nth [of k body] U32_AT_take_drop [of "4 * k" "8 * unat n" "off + 8" bs] bd(1) len that by simp
  moreover have "U32_AT bs (off + 4) = Some n"
    using p(3) U32_AT_take_drop [of 4 8 off bs] by (simp add: hd)
  ultimately show ?thesis by (simp add: p(8) len)
qed

theorem time_to_sample_decoded_witness:
  "U32_AT example_file (76 + 8 + 4 * 1) = Some 5"
  using time_to_sample_decoded [of example_file "\<lambda>_. True" 76 24 SampleTable] example_stts_parsed [of SampleTable]
  by (auto simp: SampleTable_def dest: spec [of _ "1 :: nat"])

end
