(* ===== verification/EbmlCoding.thy ===== *)
theory EbmlCoding
  imports AvPrelude
begin

text \<open>
  The variable-length integers of EBML, media/libstagefright/webm/EbmlUtil.cpp, and a reader for
  them. The multiplication of Seal's algorithm wraps modulo \<open>2 ^ 32\<close>; a shift of an \<open>int\<close> by more
  than 31 has no value and is \<open>None\<close>.
\<close>

section \<open>The code\<close>

definition NTZ_TABLE :: "int list" where
  "NTZ_TABLE = [
    32,  0,  1, 12,  2,  6, -1, 13,   3, -1,  7, -1, -1, -1, -1, 14,
    10,  4, -1, -1,  8, -1, -1, 25,  -1, -1, -1, -1, -1, 21, 27, 15,
    31, 11,  5, -1, -1, -1, -1, -1,   9, -1, -1, 24, -1, -1, 20, 26,
    30, -1, -1, -1, -1, 23, -1, 19,  29, -1, 22, 18, 28, 17, 16, -1]"

definition numberOfTrailingZeros32 :: "u32 \<Rightarrow> int" where
  "numberOfTrailingZeros32 i = (let u = (i AND - i) * 0x0450FBAF in NTZ_TABLE ! unat (drop_bit 26 u))"

definition highestOneBit :: "u64 \<Rightarrow> u64" where
  "highestOneBit n =
     (let n = n OR drop_bit 1 n; n = n OR drop_bit 2 n; n = n OR drop_bit 4 n; n = n OR drop_bit 8 n;
          n = n OR drop_bit 16 n; n = n OR drop_bit 32 n
      in n - drop_bit 1 n)"

definition powerOf2 :: "u64 \<Rightarrow> u64" where
  "powerOf2 u = (let p = highestOneBit u in if p \<noteq> 0 then p else 1)"

definition numberOfTrailingZeros :: "u64 \<Rightarrow> int" where
  "numberOfTrailingZeros u =
     (let low = ucast u :: u32 in
      if low \<noteq> 0 then numberOfTrailingZeros32 low
      else 32 + numberOfTrailingZeros32 (ucast (drop_bit 32 u)))"

definition encodeUnsigned :: "u64 \<Rightarrow> u64 option" where
  "encodeUnsigned u =
     (let p = powerOf2 u;
          p = (if u + 1 = push_bit 1 p then push_bit 1 p else p);
          shiftWidth = (7 + numberOfTrailingZeros p) div 7 * 7
      in if 31 < shiftWidth then None
         else Some (push_bit (nat shiftWidth) 1 OR u))"

definition encodeUnsigned_width :: "u64 \<Rightarrow> nat \<Rightarrow> u64" where
  "encodeUnsigned_width u width = push_bit (7 * width) 1 OR u"

definition sizeOf :: "u64 \<Rightarrow> int" where
  "sizeOf u = numberOfTrailingZeros (powerOf2 u) div 8 + 1"

text \<open>The loop that stores the bytes, from the last one to the first.\<close>

fun serialize_loop :: "nat \<Rightarrow> u64 \<Rightarrow> byte list" where
  "serialize_loop 0 u = []"
| "serialize_loop (Suc i) u = serialize_loop i (drop_bit 8 u) @ [ucast (u AND 0xff)]"

definition serializeCodedUnsigned :: "u64 \<Rightarrow> byte list" where
  "serializeCodedUnsigned u = serialize_loop (nat (sizeOf u)) u"

section \<open>The highest bit\<close>

lemma smear:
  fixes m n :: u64
  assumes "\<And>i. bit m i \<longleftrightarrow> (\<exists>j. i \<le> j \<and> j < i + w \<and> bit n j)"
  shows "bit (m OR drop_bit w m) i \<longleftrightarrow> (\<exists>j. i \<le> j \<and> j < i + 2 * w \<and> bit n j)"
proof -
  have "bit (m OR drop_bit w m) i \<longleftrightarrow> bit m i \<or> bit m (w + i)"
    by (auto simp: bit_simps dest: bit_imp_le_length)
  also have "\<dots> \<longleftrightarrow> (\<exists>j. i \<le> j \<and> j < i + 2 * w \<and> bit n j)"
    unfolding assms
  proof (intro iffI; elim disjE exE conjE)
    fix j assume j: "i \<le> j" "j < i + 2 * w" "bit n j"
    then show "(\<exists>j. i \<le> j \<and> j < i + w \<and> bit n j) \<or> (\<exists>j. w + i \<le> j \<and> j < w + i + w \<and> bit n j)"
      by (cases "j < i + w") auto
  next
    fix j assume "i \<le> j" "j < i + w" "bit n j"
    then show "\<exists>j. i \<le> j \<and> j < i + 2 * w \<and> bit n j" by (intro exI [of _ j]) simp
  next
    fix j assume "w + i \<le> j" "j < w + i + w" "bit n j"
    then show "\<exists>j. i \<le> j \<and> j < i + 2 * w \<and> bit n j" by (intro exI [of _ j]) simp
  qed
  finally show ?thesis .
qed

lemma bit_unat: "bit n j \<longleftrightarrow> odd (unat n div 2 ^ j)" for n :: "'a::len word"
  by (metis bit_iff_odd bit_unsigned_iff possible_bit_nat)

lemma highest_bit:
  fixes n :: "'a::len word"
  assumes "2 ^ k \<le> unat n" "unat n < 2 ^ Suc k"
  shows "bit n k" "k < j \<Longrightarrow> \<not> bit n j"
proof -
  have "unat n div 2 ^ k = 1" using assms by (simp add: div_nat_eqI)
  then show "bit n k" by (simp add: bit_unat)
  assume "k < j"
  then have "(2 :: nat) ^ Suc k \<le> 2 ^ j" by (intro power_increasing) auto
  then have "unat n div 2 ^ j = 0" using assms(2) by simp
  then show "\<not> bit n j" by (simp only: bit_unat) simp
qed

lemma highestOneBit_power:
  assumes "2 ^ k \<le> unat n" "unat n < 2 ^ Suc k"
  shows "highestOneBit n = 2 ^ k"
proof -
  define m1 where "m1 = n OR drop_bit 1 n"
  define m2 where "m2 = m1 OR drop_bit 2 m1"
  define m3 where "m3 = m2 OR drop_bit 4 m2"
  define m4 where "m4 = m3 OR drop_bit 8 m3"
  define m5 where "m5 = m4 OR drop_bit 16 m4"
  define m6 where "m6 = m5 OR drop_bit 32 m5"
  have "bit n i \<longleftrightarrow> (\<exists>j. i \<le> j \<and> j < i + 1 \<and> bit n j)" for i by (auto simp: less_Suc_eq)
  note b1 = smear [OF this, folded m1_def]
  note b2 = smear [OF b1, simplified, folded m2_def]
  note b3 = smear [OF b2, simplified, folded m3_def]
  note b4 = smear [OF b3, simplified, folded m4_def]
  note b5 = smear [OF b4, simplified, folded m5_def]
  note b6 = smear [OF b5, simplified, folded m6_def]
  have k: "k < 64" using highest_bit(1) [OF assms] by (auto dest: bit_imp_le_length)
  have "m6 = mask (Suc k)"
  proof (rule bit_word_eqI)
    fix i assume "i < LENGTH(64)"
    then show "bit m6 i = bit (mask (Suc k) :: u64) i"
      using highest_bit [OF assms] k by (auto simp: b6 bit_simps less_Suc_eq_le) (meson leI order_less_le_trans)
  qed
  moreover have "drop_bit 1 (mask (Suc k) :: u64) = mask k"
    using k by (intro bit_word_eqI) (auto simp: bit_simps)
  ultimately have "m6 - drop_bit 1 m6 = 2 ^ k" by (simp add: mask_eq_exp_minus_1)
  moreover have "highestOneBit n = m6 - drop_bit 1 m6"
    unfolding highestOneBit_def Let_def m6_def m5_def m4_def m3_def m2_def m1_def by (rule refl)
  ultimately show ?thesis by simp
qed

lemma powerOf2_power: "2 ^ k \<le> unat n \<Longrightarrow> unat n < 2 ^ Suc k \<Longrightarrow> powerOf2 n = 2 ^ k"
  using highestOneBit_power [of k n] highest_bit(1) [of k n]
  by (auto simp: powerOf2_def Let_def dest: bit_imp_le_length)

lemma powerOf2_0: "powerOf2 0 = 1"
  by (simp add: powerOf2_def highestOneBit_def)

section \<open>Trailing zeros\<close>

lemma numberOfTrailingZeros32_table: "list_all (\<lambda>k. numberOfTrailingZeros32 (2 ^ k) = int k) [0..<32]"
  by (simp add: numberOfTrailingZeros32_def NTZ_TABLE_def upt_rec)

lemma numberOfTrailingZeros_power:
  assumes "k < 64"
  shows "numberOfTrailingZeros (2 ^ k) = int k"
proof -
  have small: "numberOfTrailingZeros32 (2 ^ j) = int j" if "j < 32" for j
    using numberOfTrailingZeros32_table that by (auto simp: list_all_iff)
  show ?thesis
  proof (cases "k < 32")
    case True
    have "(ucast (2 ^ k :: u64) :: u32) = 2 ^ k"
      using True by (intro bit_word_eqI) (auto simp: bit_simps)
    moreover have "(2 ^ k :: u32) \<noteq> 0" using True by simp
    ultimately show ?thesis using small [OF True] by (simp add: numberOfTrailingZeros_def)
  next
    case False
    have "(ucast (2 ^ k :: u64) :: u32) = 0"
      using False by (intro bit_word_eqI) (auto simp: bit_simps)
    moreover have "(ucast (drop_bit 32 (2 ^ k :: u64)) :: u32) = 2 ^ (k - 32)"
      using False assms by (intro bit_word_eqI) (auto simp: bit_simps)
    ultimately show ?thesis using small [of "k - 32"] False assms by (simp add: numberOfTrailingZeros_def)
  qed
qed

section \<open>Encoded sizes\<close>

text \<open>The floor of the logarithm of a positive number.\<close>

lemma power_bounds: "0 < n \<Longrightarrow> \<exists>k. 2 ^ k \<le> n \<and> n < 2 ^ Suc k" for n :: nat
  using ex_power_ivl1 [of 2 n] by simp

lemma unat_power: "k < 64 \<Longrightarrow> unat (2 ^ k :: u64) = 2 ^ k"
proof -
  assume "k < 64"
  then have "(2 :: nat) ^ k < 2 ^ 64" by (intro power_strict_increasing) auto
  then have "take_bit 64 ((2 :: nat) ^ k) = 2 ^ k" by (rule take_bit_nat_eq_self)
  then have "unat (of_nat (2 ^ k) :: u64) = 2 ^ k" by (simp only: unsigned_of_nat of_nat_id) simp
  then show ?thesis by simp
qed

lemma unat_max: "unat (- 1 :: u64) = 2 ^ 64 - 1"
  by (simp add: unsigned_minus_1_eq_mask mask_eq_exp_minus_1)

lemma log_bound:
  assumes "(2 :: nat) ^ e \<le> n" "n < 2 ^ Suc e"
  shows "e < k \<longleftrightarrow> n < 2 ^ k"
proof
  assume "e < k"
  then have "(2 :: nat) ^ Suc e \<le> 2 ^ k" by (intro power_increasing) auto
  then show "n < 2 ^ k" using assms(2) by linarith
next
  assume "n < 2 ^ k"
  then have "(2 :: nat) ^ e < 2 ^ k" using assms(1) by linarith
  then show "e < k" by simp
qed

lemma power_bounds_unique:
  assumes "(2 :: nat) ^ a \<le> n" "n < 2 ^ Suc a" "2 ^ b \<le> n" "n < 2 ^ Suc b"
  shows "a = b"
proof -
  have "(2 :: nat) ^ a < 2 ^ Suc b" "(2 :: nat) ^ b < 2 ^ Suc a" using assms by linarith+
  then show ?thesis by (simp del: power_Suc)
qed

text \<open>\<open>encodeUnsigned\<close> in terms of the number of bits of \<open>u + 1\<close>.\<close>

lemma encodeUnsigned_log:
  assumes "2 ^ e \<le> unat u + 1" "unat u + 1 < 2 ^ Suc e" "e < 64"
  shows "encodeUnsigned u = (if 31 < 7 * (e div 7 + 1) then None else Some (2 ^ (7 * (e div 7 + 1)) OR u))"
proof -
  have "(2 :: nat) ^ Suc e \<le> 2 ^ 64" using assms(3) by (intro power_increasing) auto
  then have suc: "unat (u + 1) = unat u + 1" using assms(2) by (simp add: unat_word_ariths)
  have p: "(if u + 1 = push_bit 1 (powerOf2 u) then push_bit 1 (powerOf2 u) else powerOf2 u) = 2 ^ e"
  proof (cases "unat u = 0")
    case True
    then have "u = 0" by (simp add: unat_eq_0)
    moreover have "e = 0" using power_bounds_unique [OF assms(1,2), of 0] True by simp
    ultimately show ?thesis by (simp add: powerOf2_0)
  next
    case False
    then obtain k where k: "2 ^ k \<le> unat u" "unat u < 2 ^ Suc k" using power_bounds by blast
    have shift: "push_bit 1 (powerOf2 u) = 2 ^ Suc k" using powerOf2_power [OF k] by (simp add: push_bit_eq_mult)
    show ?thesis
    proof (cases "unat u + 1 = 2 ^ Suc k")
      case True
      then have "e = Suc k" using power_bounds_unique [OF assms(1,2), of "Suc k"] by simp
      moreover have "u + 1 = 2 ^ Suc k"
        using True suc assms(3) calculation by (simp add: word_unat_eq_iff unat_power del: power_Suc)
      ultimately show ?thesis using shift by simp
    next
      case False
      then have less: "unat u + 1 < 2 ^ Suc k" using k(2) by simp
      then have "e = k" using power_bounds_unique [OF assms(1,2), of k] k(1) by simp
      moreover have "u + 1 \<noteq> 2 ^ Suc k"
      proof
        assume "u + 1 = 2 ^ Suc k"
        then have eq: "unat u + 1 = unat (2 ^ Suc k :: u64)" using suc by simp
        have "k < 64" using k(1) unsigned_less [of u, where ?'a = nat] log_bound [OF k, of 64] by simp
        then consider "Suc k < 64" | "Suc k = 64" by linarith
        then show False
        proof cases
          case 1
          then show False using eq less by (simp add: unat_power del: power_Suc)
        next
          case 2
          then show False using eq by (simp only:) simp
        qed
      qed
      ultimately show ?thesis using shift powerOf2_power [OF k] by (simp only: if_False)
    qed
  qed
  have "(7 + int e) div 7 * 7 = int (7 * (e div 7 + 1))" by presburger
  then show ?thesis
    unfolding encodeUnsigned_def Let_def p using numberOfTrailingZeros_power [OF assms(3)]
    by (simp add: push_bit_eq_mult del: of_nat_mult of_nat_add)
qed

text \<open>The descriptor of a value of at least \<open>2 ^ 28 - 1\<close> is shifted out of an \<open>int\<close>.\<close>

lemma encodeUnsigned_max: "encodeUnsigned (- 1) = None"
proof -
  have "powerOf2 (- 1) = 2 ^ 63" using unat_max by (intro powerOf2_power) simp_all
  moreover have "numberOfTrailingZeros 0 = 64"
    by (simp add: numberOfTrailingZeros_def numberOfTrailingZeros32_def NTZ_TABLE_def)
  moreover have "push_bit 1 (2 ^ 63 :: u64) = 0" "- 1 + 1 = (0 :: u64)" by (simp_all add: push_bit_eq_mult)
  ultimately show ?thesis unfolding encodeUnsigned_def Let_def by (simp only:) simp
qed

lemma encodeUnsigned_cases:
  obtains (wide) "encodeUnsigned u = None" "2 ^ 28 - 1 \<le> unat u"
  | (fits) w v where "1 \<le> w" "w \<le> 4" "encodeUnsigned u = Some v" "unat v = 2 ^ (7 * w) + unat u"
      "unat u < 2 ^ (7 * w) - 1" "w = 1 \<or> 2 ^ (7 * (w - 1)) - 1 \<le> unat u" "unat u < 2 ^ 28 - 1"
proof (cases "unat u + 1 < 2 ^ 64")
  case False
  then have "unat u = 2 ^ 64 - 1" using unsigned_less [of u, where ?'a = nat] by simp
  then have "u = - 1" by (simp add: word_unat_eq_iff unat_max)
  then show ?thesis using wide encodeUnsigned_max unat_max by simp
next
  case True
  obtain e where e: "2 ^ e \<le> unat u + 1" "unat u + 1 < 2 ^ Suc e" using power_bounds [of "unat u + 1"] by auto
  have e64: "e < 64" using log_bound [OF e] True by blast
  let ?w = "e div 7 + 1"
  note enc = encodeUnsigned_log [OF e e64]
  show ?thesis
  proof (cases "e < 28")
    case False
    then have "28 div 7 \<le> e div 7" by (intro div_le_mono) simp
    then have "31 < 7 * ?w" by simp
    then have "encodeUnsigned u = None" using enc by simp
    moreover have "2 ^ 28 - 1 \<le> unat u" using False log_bound [OF e, of 28] by simp
    ultimately show ?thesis using wide by blast
  next
    case True
    have "e < 7 * ?w" by presburger
    then have lt: "unat u + 1 < 2 ^ (7 * ?w)" using log_bound [OF e, of "7 * ?w"] by blast
    then have u: "unat u < 2 ^ (7 * ?w)" by simp
    have "e div 7 \<le> 27 div 7" using True by (intro div_le_mono) simp
    then have w: "7 * ?w \<le> 28" "\<not> 31 < 7 * ?w" by simp_all
    have "2 ^ (7 * ?w) AND u = 0"
    proof (rule bit_word_eqI)
      fix i
      have "unat u < 2 ^ i" if "i = 7 * ?w" using u that by simp
      then have "\<not> bit u i" if "i = 7 * ?w" using that by (simp add: bit_unat)
      then show "bit (2 ^ (7 * ?w) AND u) i = bit 0 i" by (auto simp: bit_simps)
    qed
    then have "2 ^ (7 * ?w) OR u = 2 ^ (7 * ?w) + u" by (simp add: disjunctive_add_eq_or)
    moreover have "(2 :: nat) ^ (7 * ?w) \<le> 2 ^ 28" using w(1) by (intro power_increasing) auto
    then have "unat (2 ^ (7 * ?w) + u) = 2 ^ (7 * ?w) + unat u"
      using u w(1) by (simp add: unat_word_ariths unat_power)
    moreover have "?w = 1 \<or> 2 ^ (7 * (?w - 1)) - 1 \<le> unat u"
      using log_bound [OF e, of "7 * (?w - 1)"] by (auto simp: not_less)
    moreover have "unat u < 2 ^ 28 - 1" using True log_bound [OF e, of 28] by simp
    ultimately show ?thesis using fits [of ?w "2 ^ (7 * ?w) OR u"] enc w lt by simp
  qed
qed

section \<open>Serialisation and reading\<close>

lemma length_serialize_loop [simp]: "length (serialize_loop n u) = n"
  by (induction n u rule: serialize_loop.induct) auto

lemma low_byte_64: "ucast (u AND 0xff) = (ucast u :: byte)" for u :: u64
proof -
  have ff: "(0xff :: u64) = mask 8" by (simp add: mask_eq_exp_minus_1)
  show ?thesis unfolding ff by (intro bit_word_eqI) (auto simp: bit_simps)
qed

lemma be_value_serialize: "unat u < 256 ^ n \<Longrightarrow> be_value (serialize_loop n u) = unat u"
proof (induction n u rule: serialize_loop.induct)
  case (1 u)
  then show ?case by simp
next
  case (2 i u)
  have "unat (drop_bit 8 u) = unat u div 256" by (simp add: unat_div drop_bit_eq_div)
  moreover have "unat (ucast (u AND 0xff) :: byte) = unat u mod 256"
    by (simp add: low_byte_64 unsigned_ucast_eq take_bit_eq_mod)
  ultimately show ?case
    using 2 by (simp add: be_value_snoc less_mult_imp_div_less mult.commute)
qed

text \<open>The size of a number in bytes.\<close>

lemma sizeOf_bytes:
  assumes "256 ^ m \<le> unat u" "unat u < 256 ^ Suc m"
  shows "sizeOf u = int (Suc m)"
proof -
  have "0 < unat u" using assms(1) by (cases "unat u") auto
  then obtain k where k: "2 ^ k \<le> unat u" "unat u < 2 ^ Suc k" using power_bounds by blast
  have p: "(256 :: nat) ^ m = 2 ^ (8 * m)" "(256 :: nat) ^ Suc m = 2 ^ (8 * m + 8)" by (simp_all add: power_mult power_add)
  have "\<not> k < 8 * m" using log_bound [OF k, of "8 * m"] assms(1) unfolding p by simp
  moreover have "k < 8 * m + 8" using log_bound [OF k, of "8 * m + 8"] assms(2) unfolding p by blast
  ultimately have "k div 8 = m" by (intro div_nat_eqI) simp_all
  moreover have "k < 64" using log_bound [OF k, of 64] unsigned_less [of u, where ?'a = nat] by simp
  ultimately show ?thesis
    using numberOfTrailingZeros_power [of k] zdiv_int [of k 8] by (simp add: sizeOf_def powerOf2_power [OF k])
qed

lemma sizeOf_0: "sizeOf 0 = 1"
  using numberOfTrailingZeros_power [of 0] by (simp add: sizeOf_def powerOf2_0)

lemma sizeOf_cases:
  obtains m where "m < 8" "sizeOf u = int (Suc m)" "unat u < 256 ^ Suc m" "m = 0 \<or> 256 ^ m \<le> unat u"
proof (cases "unat u = 0")
  case True
  then show ?thesis using that [of 0] sizeOf_0 by (simp add: unat_eq_0)
next
  case False
  then obtain m where m: "256 ^ m \<le> unat u" "unat u < 256 ^ Suc m"
    using ex_power_ivl1 [of 256 "unat u"] by auto
  have "(256 :: nat) ^ m < 256 ^ 8" using m(1) unsigned_less [of u, where ?'a = nat] by simp
  then have "m < 8" by (rule power_less_imp_less_exp [rotated]) simp
  then show ?thesis using that [of m] sizeOf_bytes [OF m] m by blast
qed

lemma serialize_loop_Suc: "serialize_loop (Suc n) u = ucast (drop_bit (8 * n) u) # serialize_loop n u"
proof (induction n arbitrary: u)
  case 0
  then show ?case by (simp add: low_byte_64)
next
  case (Suc n)
  have "serialize_loop (Suc (Suc n)) u = serialize_loop (Suc n) (drop_bit 8 u) @ [ucast (u AND 0xff)]"
    by (rule serialize_loop.simps(2))
  also have "serialize_loop (Suc n) (drop_bit 8 u) = ucast (drop_bit (8 * n) (drop_bit 8 u)) # serialize_loop n (drop_bit 8 u)"
    by (rule Suc.IH)
  finally show ?case by (simp add: drop_bit_drop_bit add.commute)
qed

text \<open>
  The reader of EBML: the number of leading zero bits of the first byte, plus one, is the width;
  an identifier keeps its descriptor bit, a size is read without it.
\<close>

definition vint_width :: "byte \<Rightarrow> nat" where
  "vint_width b = length (takeWhile (\<lambda>k. \<not> bit b (7 - k)) [0..<8]) + 1"

definition read_vint :: "byte list \<Rightarrow> (nat \<times> nat) option" where
  "read_vint bs = (case bs of [] \<Rightarrow> None
     | b # _ \<Rightarrow> if vint_width b \<le> length bs \<and> vint_width b \<le> 8
               then Some (be_value (take (vint_width b) bs), vint_width b) else None)"

definition read_size :: "byte list \<Rightarrow> (nat \<times> nat) option" where
  "read_size bs = (case read_vint bs of None \<Rightarrow> None | Some (v, w) \<Rightarrow> Some (v - 2 ^ (7 * w), w))"

lemma vint_width_eq:
  assumes "1 \<le> w" "w \<le> 8" "2 ^ (8 - w) \<le> unat b" "unat b < 2 ^ (9 - w)"
  shows "vint_width b = w"
proof -
  have top: "bit b (8 - w)" "8 - w < j \<Longrightarrow> \<not> bit b j" for j
  proof -
    have "9 - w = Suc (8 - w)" using assms(2) by simp
    then show "bit b (8 - w)" "8 - w < j \<Longrightarrow> \<not> bit b j"
      using highest_bit [OF assms(3)] assms(4) by simp_all
  qed
  have "[0..<8] = [0..<w - 1] @ (w - 1) # [w..<8]"
    using assms(1,2) upt_add_eq_append [of 0 "w - 1" "8 - (w - 1)"] by (simp add: upt_conv_Cons)
  moreover have "\<forall>k \<in> set [0..<w - 1]. \<not> bit b (7 - k)" using assms(1,2) by (auto intro!: top(2))
  moreover have "bit b (7 - (w - 1))" using top(1) assms(1,2) by (simp add: Suc_diff_le)
  ultimately have "takeWhile (\<lambda>k. \<not> bit b (7 - k)) [0..<8] = [0..<w - 1]"
    using takeWhile_append2 [of "[0..<w - 1]" "\<lambda>k. \<not> bit b (7 - k)" "(w - 1) # [w..<8]"]
    by (simp del: set_upt)
  then show ?thesis using assms(1) by (simp add: vint_width_def)
qed

lemma read_vint_serialize:
  assumes "1 \<le> w" "w \<le> 8" "2 ^ (7 * w) \<le> unat v" "unat v < 2 ^ (7 * w + 1)"
  shows "sizeOf v = int w" "read_vint (serialize_loop w v @ rest) = Some (unat v, w)"
proof -
  obtain n where n: "w = Suc n" using assms(1) by (cases w) auto
  have pow: "(256 :: nat) ^ k = 2 ^ (8 * k)" for k by (simp add: power_mult)
  have "(2 :: nat) ^ (8 * n) \<le> 2 ^ (7 * w)" "(2 :: nat) ^ (7 * w + 1) \<le> 2 ^ (8 * Suc n)"
    using assms(2) n by (intro power_increasing; simp)+
  then have bounds: "256 ^ n \<le> unat v" "unat v < 256 ^ Suc n" using assms(3,4) unfolding pow by linarith+
  then show "sizeOf v = int w" using sizeOf_bytes n by blast
  let ?b = "ucast (drop_bit (8 * n) v) :: byte"
  have "unat (drop_bit (8 * n) v) = unat v div 2 ^ (8 * n)" by (simp only: unat_drop_bit_eq) (simp only: drop_bit_eq_div)
  moreover have "unat v div 2 ^ (8 * n) < 256"
    using bounds(2) unfolding pow by (intro less_mult_imp_div_less) (simp add: power_add mult.commute)
  ultimately have b: "unat ?b = unat v div 2 ^ (8 * n)"
    by (simp only: unsigned_ucast_eq) (simp add: take_bit_nat_eq_self)
  have "vint_width ?b = w"
  proof (rule vint_width_eq [OF assms(1,2)])
    have "(2 :: nat) ^ (8 - w) * 2 ^ (8 * n) = 2 ^ (7 * w)" "(2 :: nat) ^ (9 - w) * 2 ^ (8 * n) = 2 ^ (7 * w + 1)"
      using assms(2) n by (simp_all flip: power_add)
    then show "2 ^ (8 - w) \<le> unat ?b" "unat ?b < 2 ^ (9 - w)"
      using assms(3,4) unfolding b by (simp_all add: less_eq_div_iff_mult_less_eq div_less_iff_less_mult)
  qed
  then show "read_vint (serialize_loop w v @ rest) = Some (unat v, w)"
    using be_value_serialize [of v w] bounds(2) assms(2) n
    by (simp add: read_vint_def serialize_loop_Suc del: serialize_loop.simps)
qed

text \<open>An encoded size is read back from the bytes it is written to.\<close>

lemma read_encoded_size:
  assumes "encodeUnsigned u = Some v"
  shows "\<exists>w. length (serializeCodedUnsigned v) = w \<and> read_size (serializeCodedUnsigned v @ rest) = Some (unat u, w)
    \<and> unat u < 2 ^ (7 * w) - 1 \<and> (w = 1 \<or> 2 ^ (7 * (w - 1)) - 1 \<le> unat u)"
proof (cases u rule: encodeUnsigned_cases)
  case wide
  then show ?thesis using assms by simp
next
  case (fits w v')
  then have v: "v' = v" using assms by simp
  have "unat v < 2 ^ (7 * w + 1)" using fits(4,5) v by simp
  then have "sizeOf v = int w" "read_vint (serialize_loop w v @ rest) = Some (unat v, w)"
    using read_vint_serialize [of w v] fits(1,2,4) v by simp_all
  then show ?thesis using fits(4-6) v by (simp add: serializeCodedUnsigned_def read_size_def)
qed

section \<open>Properties\<close>

text \<open>
  A size below 2 ^ 28 - 1 is encoded in as few bytes as EBML allows, and the reader gets it
  back from the bytes, whatever follows them; the value whose bits are all ones is reserved.
\<close>

theorem size_roundtrip:
  assumes "unat u < 2 ^ 28 - 1"
  shows "\<exists>v. encodeUnsigned u = Some v
    \<and> read_size (serializeCodedUnsigned v @ rest) = Some (unat u, length (serializeCodedUnsigned v))
    \<and> (\<forall>n. unat u < 2 ^ (7 * n) - 1 \<longrightarrow> length (serializeCodedUnsigned v) \<le> n)"
proof -
  obtain v where v: "encodeUnsigned u = Some v"
    using assms by (cases u rule: encodeUnsigned_cases) auto
  obtain w where w: "length (serializeCodedUnsigned v) = w" "read_size (serializeCodedUnsigned v @ rest) = Some (unat u, w)"
      "w = 1 \<or> 2 ^ (7 * (w - 1)) - 1 \<le> unat u"
    using read_encoded_size [OF v] by blast
  have "w \<le> n" if "unat u < 2 ^ (7 * n) - 1" for n
  proof (rule ccontr)
    assume "\<not> w \<le> n"
    then have "w \<noteq> 1" "(2 :: nat) ^ (7 * n) \<le> 2 ^ (7 * (w - 1))"
      using that by (cases n; auto)+
    then show False using w(3) that by linarith
  qed
  then show ?thesis using v w(1,2) by blast
qed

theorem size_roundtrip_witness:
  "\<exists>v. encodeUnsigned 300 = Some v
    \<and> read_size (serializeCodedUnsigned v @ [1, 2]) = Some (300, length (serializeCodedUnsigned v))
    \<and> (\<forall>n. (300 :: nat) < 2 ^ (7 * n) - 1 \<longrightarrow> length (serializeCodedUnsigned v) \<le> n)"
  using size_roundtrip [of 300 "[1, 2]"] by simp

text \<open>
  The sizes that encodeUnsigned cannot encode are exactly those from 2 ^ 28 - 1 on: for them
  the length descriptor is computed by a shift of an int by 35 or more.
\<close>

theorem size_limit: "encodeUnsigned u = None \<longleftrightarrow> 2 ^ 28 - 1 \<le> unat u"
  by (cases u rule: encodeUnsigned_cases) auto

end
