(* ===== verification/WebmElements.thy ===== *)
theory WebmElements
  imports EbmlCoding
begin

text \<open>
  The element tree of the WebM writer, media/libstagefright/webm/WebmElement.cpp: sizes fixed when
  an element is built, and its bytes. \<open>None\<close> is a failed CHECK or a size that
  \<open>encodeUnsigned\<close> has no value for. A floating point number is its bit pattern.
\<close>

section \<open>Elements\<close>

datatype element =
    WebmUnsigned u64 u64
  | WebmFloat32 u64 u32
  | WebmFloat64 u64 u64
  | WebmBinary u64 "byte list"
  | WebmString u64 "byte list"
  | WebmSimpleBlock "32 word" "16 word" bool "byte list"
  | EbmlVoid u64
  | WebmMaster u64 "element list"

definition kMkvVoid :: u64 where "kMkvVoid = 0xEC"
definition kMkvSimpleBlock :: u64 where "kMkvSimpleBlock = 0xA3"
definition kMkvUnknownLength :: u64 where "kMkvUnknownLength = 0x01ffffffffffffff"

fun mId :: "element \<Rightarrow> u64" where
  "mId (WebmUnsigned i _) = i"
| "mId (WebmFloat32 i _) = i"
| "mId (WebmFloat64 i _) = i"
| "mId (WebmBinary i _) = i"
| "mId (WebmString i _) = i"
| "mId (WebmSimpleBlock _ _ _ _) = kMkvSimpleBlock"
| "mId (EbmlVoid _) = kMkvVoid"
| "mId (WebmMaster i _) = i"

section \<open>Sizes\<close>

definition voidSize :: "int \<Rightarrow> int" where
  "voidSize total_size = (if total_size < 2 then -1 else if total_size < 9 then total_size - 2 else total_size - 9)"

text \<open>The width of the size of a void element, \<open>mSizeWidth\<close>.\<close>

definition mSizeWidth :: "u64 \<Rightarrow> u64" where
  "mSizeWidth total_size = total_size - of_int (sizeOf kMkvVoid) - of_int (voidSize (sint total_size))"

text \<open>\<open>serializePayloadSize\<close> of the class of an element, whose \<open>mSize\<close> is given.\<close>

definition serializePayloadSize :: "element \<Rightarrow> u64 \<Rightarrow> byte list option" where
  "serializePayloadSize e n =
     (case e of
        EbmlVoid t \<Rightarrow> Some (serializeCodedUnsigned (encodeUnsigned_width n (unat (mSizeWidth t))))
      | WebmMaster _ _ \<Rightarrow>
          if n = 0 then Some (serializeCodedUnsigned kMkvUnknownLength)
          else do { v \<leftarrow> encodeUnsigned n; Some (serializeCodedUnsigned v) }
      | _ \<Rightarrow> do { v \<leftarrow> encodeUnsigned n; Some (serializeCodedUnsigned v) })"

text \<open>The member \<open>mSize\<close>, and the sum of the sizes of children, each its \<open>totalSize\<close>.\<close>

fun mSize :: "element \<Rightarrow> u64 option"
  and childrenSum :: "element list \<Rightarrow> u64 option" where
  "mSize (WebmUnsigned _ v) = Some (of_int (sizeOf v))"
| "mSize (WebmFloat32 _ _) = Some 4"
| "mSize (WebmFloat64 _ _) = Some 8"
| "mSize (WebmBinary _ bs) = Some (of_nat (length bs))"
| "mSize (WebmString _ s) = Some (of_nat (length s))"
| "mSize (WebmSimpleBlock _ _ _ d) = Some (of_nat (length d) + 4)"
| "mSize (EbmlVoid t) = do { CHECK (0 \<le> voidSize (sint t)); Some (of_int (voidSize (sint t))) }"
| "mSize (WebmMaster _ cs) = childrenSum cs"
| "childrenSum [] = Some 0"
| "childrenSum (c # cs) = do {
     n \<leftarrow> mSize c;
     neck \<leftarrow> serializePayloadSize c n;
     total \<leftarrow> childrenSum cs;
     Some (of_int (sizeOf (mId c)) + of_nat (length neck) + n + total) }"

definition totalSize :: "element \<Rightarrow> u64 option" where
  "totalSize e = do {
     n \<leftarrow> mSize e;
     neck \<leftarrow> serializePayloadSize e n;
     Some (of_int (sizeOf (mId e)) + of_nat (length neck) + n) }"

section \<open>Bytes\<close>

text \<open>Storing bytes at an offset of a buffer.\<close>

definition store :: "nat \<Rightarrow> byte list \<Rightarrow> byte list \<Rightarrow> byte list" where
  "store off bs buf = take off (buf @ replicate (off - length buf) 0) @ bs @ drop (off + length bs) buf"

text \<open>
  The bytes that \<open>serializePayload\<close> stores from the start of its buffer. A master stores every
  child at the sum of the sizes of those before it.
\<close>

fun serializePayload :: "element \<Rightarrow> byte list option"
  and serializeChildren :: "element list \<Rightarrow> u64 \<Rightarrow> byte list \<Rightarrow> byte list option" where
  "serializePayload (WebmUnsigned _ v) = Some (serializeCodedUnsigned v)"
| "serializePayload (WebmFloat32 _ d) = Some (serialize_loop 4 (ucast d))"
| "serializePayload (WebmFloat64 _ d) = Some (serialize_loop 8 d)"
| "serializePayload (WebmBinary _ bs) = Some bs"
| "serializePayload (WebmString _ s) = Some s"
| "serializePayload (WebmSimpleBlock trackNum relTimecode key d) = do {
     v \<leftarrow> encodeUnsigned (scast trackNum);
     let buf = take 4 (serializeCodedUnsigned v @ [0, 0, 0]);
         buf = buf[1 := ucast (drop_bit 8 (relTimecode AND 0xff00)), 2 := ucast (relTimecode AND 0xff),
                   3 := if key then 0x80 else 0] in
     Some (store 4 d buf) }"
| "serializePayload (EbmlVoid t) = do { n \<leftarrow> mSize (EbmlVoid t); Some (replicate (unat n) 0) }"
| "serializePayload (WebmMaster _ cs) = serializeChildren cs 0 []"
| "serializeChildren [] off buf = Some buf"
| "serializeChildren (c # cs) off buf = do {
     n \<leftarrow> mSize c;
     neck \<leftarrow> serializePayloadSize c n;
     body \<leftarrow> serializePayload c;
     let child = serializeCodedUnsigned (mId c) @ neck @ body;
         size_c = of_int (sizeOf (mId c)) + of_nat (length neck) + n in
     serializeChildren cs (off + size_c) (store (unat off) child buf) }"

definition serializeInto :: "element \<Rightarrow> byte list option" where
  "serializeInto e = do {
     n \<leftarrow> mSize e;
     neck \<leftarrow> serializePayloadSize e n;
     body \<leftarrow> serializePayload e;
     Some (serializeCodedUnsigned (mId e) @ neck @ body) }"

lemma childrenSum_Cons: "childrenSum (c # cs) = do { t \<leftarrow> totalSize c; s \<leftarrow> childrenSum cs; Some (t + s) }"
  by (simp add: totalSize_def)

lemma serializeChildren_Cons:
  "serializeChildren (c # cs) off buf = do {
     bs \<leftarrow> serializeInto c; t \<leftarrow> totalSize c; serializeChildren cs (off + t) (store (unat off) bs buf) }"
  by (auto simp: totalSize_def serializeInto_def Let_def split: bind_splits)

section \<open>Sizes and bytes agree\<close>

lemma sizeOf_positive: "0 < sizeOf u"
  by (cases u rule: sizeOf_cases) auto

lemma length_serializeCodedUnsigned: "of_nat (length (serializeCodedUnsigned u)) = (of_int (sizeOf u) :: u64)"
  using sizeOf_positive [of u] by (simp add: serializeCodedUnsigned_def)

lemma length_store: "length buf \<le> length (store off bs buf)" "off \<le> length buf \<Longrightarrow> off + length bs \<le> length (store off bs buf)"
  by (auto simp: store_def)

lemma store_at_end: "store (length buf) bs buf = buf @ bs"
  by (simp add: store_def)

lemma serializeChildren_grows: "serializeChildren cs off buf = Some out \<Longrightarrow> length buf \<le> length out"
proof (induction cs arbitrary: off buf)
  case (Cons c cs)
  then obtain bs off' where "serializeChildren cs off' (store (unat off) bs buf) = Some out"
    by (auto simp: Let_def split: bind_splits)
  from Cons.IH [OF this] length_store(1) [of buf "unat off" bs] show ?case by simp
qed simp

lemma serializeInto_size:
  assumes "serializeInto e = Some bs" "serializePayload e = Some body" "mSize e = Some (of_nat (length body))"
  shows "totalSize e = Some (of_nat (length bs))"
  using assms length_serializeCodedUnsigned [of "mId e"]
  by (auto simp: serializeInto_def totalSize_def split: bind_splits)

lemma size_is_length:
  "serializePayload e = Some body \<Longrightarrow> length body < 2 ^ 64 \<Longrightarrow> mSize e = Some (of_nat (length body))"
  "serializeChildren cs off buf = Some out \<Longrightarrow> length out < 2 ^ 64 \<Longrightarrow> unat off = length buf \<Longrightarrow>
    \<exists>bss. map serializeInto cs = map Some bss \<and> out = buf @ concat bss \<and> childrenSum cs = Some (of_nat (length (concat bss)))"
  for cs :: "element list" and off :: u64
proof (induction e and cs arbitrary: body and off buf out rule: mSize_childrenSum.induct)
  case (6 t r k d)
  obtain v where v: "encodeUnsigned (scast t) = Some v" using 6 by (auto split: bind_splits)
  have "0 < length (serializeCodedUnsigned v)" using sizeOf_positive [of v] by (simp add: serializeCodedUnsigned_def)
  then have "length (take 4 (serializeCodedUnsigned v @ [0, 0, 0])) = 4"
    by (cases "serializeCodedUnsigned v") auto
  moreover define b where "b = take 4 (serializeCodedUnsigned v @ [0, 0, 0])"
  ultimately have "length b = 4" by simp
  moreover have "body = store 4 d (b[1 := ucast (drop_bit 8 (r AND 0xff00)), 2 := ucast (r AND 0xff),
      3 := if k then 0x80 else 0])"
    using 6 v by (simp add: Let_def b_def)
  ultimately have "length body = 4 + length d" by (simp add: store_def)
  then show ?case by simp
next
  case (8 i cs)
  then obtain bss where "body = concat bss" "childrenSum cs = Some (of_nat (length (concat bss)))"
    using "8.IH" [of 0 "[]" body] by auto
  then show ?case by simp
next
  case (10 c cs)
  from "10.prems"(1) obtain n neck child where
    c: "mSize c = Some n" "serializePayloadSize c n = Some neck" "serializePayload c = Some child"
      "serializeChildren cs (off + (of_int (sizeOf (mId c)) + of_nat (length neck) + n))
        (store (unat off) (serializeCodedUnsigned (mId c) @ neck @ child) buf) = Some out"
    by (auto simp: Let_def split: bind_splits)
  let ?bs = "serializeCodedUnsigned (mId c) @ neck @ child"
  have store: "store (unat off) ?bs buf = buf @ ?bs" using "10.prems"(3) store_at_end by simp
  have len: "length buf + length ?bs < 2 ^ 64"
    using serializeChildren_grows [OF c(4)] "10.prems"(2) unfolding store by simp
  have n: "n = of_nat (length child)" using "10.IH"(1) [OF c(3)] len c(1) by simp
  have t: "of_int (sizeOf (mId c)) + of_nat (length neck) + n = (of_nat (length ?bs) :: u64)"
    by (simp add: n flip: length_serializeCodedUnsigned)
  have "unat (off + of_nat (length ?bs)) = length (buf @ ?bs)"
    using len "10.prems"(3) by (simp add: unat_word_ariths unsigned_of_nat take_bit_nat_eq_self)
  then obtain bss where "map serializeInto cs = map Some bss" "out = (buf @ ?bs) @ concat bss"
      "childrenSum cs = Some (of_nat (length (concat bss)))"
    using "10.IH"(2) [OF c(1,2) c(4) [unfolded t store] "10.prems"(2)] by blast
  moreover have "serializeInto c = Some ?bs" using c by (simp add: serializeInto_def)
  moreover have "totalSize c = Some (of_nat (length ?bs))" using c(1,2) t by (simp add: totalSize_def)
  ultimately show ?case
    by (intro exI [of _ "?bs # bss"]) (simp add: childrenSum_Cons del: childrenSum.simps)
qed (auto simp: length_serializeCodedUnsigned split: bind_splits)

section \<open>Reading elements\<close>

text \<open>
  One element: its identifier, its payload unless the size is the reserved value that says it is
  unknown, and the bytes that follow.
\<close>

definition read_element :: "byte list \<Rightarrow> (nat \<times> byte list option \<times> byte list) option" where
  "read_element bs = do {
     (i, w) \<leftarrow> read_vint bs;
     (n, w') \<leftarrow> read_size (drop w bs);
     let body = drop (w + w') bs in
     if n = 2 ^ (7 * w') - 1 then Some (i, None, body)
     else if n \<le> length body then Some (i, Some (take n body), drop n body)
     else None }"

fun read_elements :: "nat \<Rightarrow> byte list \<Rightarrow> (nat \<times> byte list option) list option" where
  "read_elements 0 bs = (if bs = [] then Some [] else None)"
| "read_elements (Suc n) bs = do {
     (i, body, rest) \<leftarrow> read_element bs;
     es \<leftarrow> read_elements n rest;
     Some ((i, body) # es) }"

text \<open>Identifiers that carry their own descriptor bit, and voids whose size has a width.\<close>

definition ebml_id :: "u64 \<Rightarrow> bool" where
  "ebml_id i \<longleftrightarrow> list_ex (\<lambda>w. 2 ^ (7 * w) \<le> unat i \<and> unat i < 2 ^ (7 * w + 1)) [1..<5]"

definition writable :: "element \<Rightarrow> bool" where
  "writable e \<longleftrightarrow> ebml_id (mId e) \<and> (case e of EbmlVoid t \<Rightarrow> unat t < 2 ^ 56 | _ \<Rightarrow> True)"

definition unknown_size :: "element \<Rightarrow> byte list \<Rightarrow> bool" where
  "unknown_size e body \<longleftrightarrow> (case e of WebmMaster _ _ \<Rightarrow> body = [] | _ \<Rightarrow> False)"

lemma read_id:
  assumes "ebml_id i"
  shows "read_vint (serializeCodedUnsigned i @ rest) = Some (unat i, length (serializeCodedUnsigned i))"
proof -
  obtain w where "1 \<le> w" "w \<le> 8" "2 ^ (7 * w) \<le> unat i" "unat i < 2 ^ (7 * w + 1)"
    using assms by (auto simp: ebml_id_def list_ex_iff)
  from read_vint_serialize [OF this] show ?thesis by (simp add: serializeCodedUnsigned_def)
qed

text \<open>A size of a given width.\<close>

lemma read_wide_size:
  assumes "1 \<le> w" "w \<le> 8" "unat n < 2 ^ (7 * w)"
  shows "length (serializeCodedUnsigned (encodeUnsigned_width n w)) = w"
    "read_size (serializeCodedUnsigned (encodeUnsigned_width n w) @ rest) = Some (unat n, w)"
proof -
  have "2 ^ (7 * w) AND n = 0"
  proof (rule bit_word_eqI)
    fix i
    have "\<not> bit n i" if "i = 7 * w" using that assms(3) by (simp add: bit_unat)
    then show "bit (2 ^ (7 * w) AND n) i = bit 0 i" by (auto simp: bit_simps)
  qed
  then have "2 ^ (7 * w) OR n = 2 ^ (7 * w) + n" by (simp add: disjunctive_add_eq_or)
  moreover have "(2 :: nat) ^ (7 * w) \<le> 2 ^ 56" using assms(2) by (intro power_increasing) auto
  ultimately have "unat (encodeUnsigned_width n w) = 2 ^ (7 * w) + unat n"
    using assms by (simp add: encodeUnsigned_width_def push_bit_eq_mult unat_word_ariths unat_power)
  then have r: "sizeOf (encodeUnsigned_width n w) = int w"
      "read_vint (serialize_loop w (encodeUnsigned_width n w) @ rest) = Some (2 ^ (7 * w) + unat n, w)"
    using read_vint_serialize [OF assms(1,2), of "encodeUnsigned_width n w"] assms(3) by simp_all
  then show "length (serializeCodedUnsigned (encodeUnsigned_width n w)) = w"
    "read_size (serializeCodedUnsigned (encodeUnsigned_width n w) @ rest) = Some (unat n, w)"
    by (simp_all add: serializeCodedUnsigned_def read_size_def)
qed

lemma read_unknown_size:
  "read_size (serializeCodedUnsigned kMkvUnknownLength @ rest) = Some (2 ^ 56 - 1, 8)"
  "length (serializeCodedUnsigned kMkvUnknownLength) = 8"
  using read_vint_serialize(1) [of 8 kMkvUnknownLength] read_vint_serialize(2) [of 8 kMkvUnknownLength rest]
  by (simp_all add: serializeCodedUnsigned_def read_size_def kMkvUnknownLength_def)

text \<open>The size of a void.\<close>

lemma void_size:
  assumes "serializePayloadSize (EbmlVoid t) n = Some neck" "mSize (EbmlVoid t) = Some n" "unat t < 2 ^ 56"
  shows "\<exists>w. length neck = w \<and> read_size (neck @ rest) = Some (unat n, w) \<and> unat n < 2 ^ (7 * w) - 1
    \<and> unat t = 1 + w + unat n"
proof -
  have one: "sizeOf kMkvVoid = 1" using sizeOf_bytes [of 0 kMkvVoid] by (simp add: kMkvVoid_def)
  have n: "0 \<le> voidSize (sint t)" "n = of_int (voidSize (sint t))" using assms(2) by auto
  have t: "sint t = int (unat t)"
  proof -
    from assms(3) have "int (unat t) < int (2 ^ 56)" by (simp only: of_nat_less_iff)
    then have "uint t < 2 ^ 56" by simp
    moreover have "- (2 ^ 63) \<le> uint t" by (rule order_trans [of _ 0]) simp_all
    ultimately have "signed_take_bit 63 (uint t) = uint t" by (intro signed_take_bit_int_eq_self) auto
    then show ?thesis by (simp add: sint_uint)
  qed
  have t_of: "t = of_int (int (unat t))" by simp
  have "\<exists>w. (w = 1 \<or> w = 8) \<and> unat (mSizeWidth t) = w \<and> unat n < 2 ^ (7 * w) - 1 \<and> unat t = 1 + w + unat n"
  proof (cases "unat t < 9")
    case True
    then have v: "voidSize (sint t) = int (unat t) - 2" "2 \<le> unat t" using n(1) t
      by (auto simp: voidSize_def simp del: of_nat_unat split: if_splits)
    have "mSizeWidth t = 1" unfolding mSizeWidth_def one v by simp
    moreover have "n = of_nat (unat t - 2)" using n(2) v by (simp add: of_nat_diff)
    then have "unat n = unat t - 2" using True by (simp add: unsigned_of_nat take_bit_nat_eq_self)
    ultimately show ?thesis using True v(2) by (intro exI [of _ 1]) auto
  next
    case False
    then have v: "voidSize (sint t) = int (unat t) - 9" using t by (auto simp: voidSize_def simp del: of_nat_unat)
    have "mSizeWidth t = 8" unfolding mSizeWidth_def one v by simp
    moreover have "n = of_nat (unat t - 9)" using n(2) v False by (simp add: of_nat_diff)
    then have "unat n = unat t - 9" using assms(3) by (simp add: unsigned_of_nat take_bit_nat_eq_self)
    ultimately show ?thesis using False assms(3) by (intro exI [of _ 8]) simp
  qed
  then obtain w where w: "w = 1 \<or> w = 8" "unat (mSizeWidth t) = w" "unat n < 2 ^ (7 * w) - 1" "unat t = 1 + w + unat n" by blast
  then have "neck = serializeCodedUnsigned (encodeUnsigned_width n w)"
    using assms(1) by (simp add: serializePayloadSize_def)
  then show ?thesis using read_wide_size(1) [of w n] read_wide_size(2) [of w n rest] w(1,3,4) by auto
qed

lemma payload_size_read:
  assumes "serializePayloadSize e n = Some neck" "mSize e = Some n" "writable e"
    "n = 0 \<Longrightarrow> \<forall>i cs. e \<noteq> WebmMaster i cs"
  shows "\<exists>w. length neck = w \<and> read_size (neck @ rest) = Some (unat n, w) \<and> unat n < 2 ^ (7 * w) - 1"
proof -
  consider t where "e = EbmlVoid t" | v where "encodeUnsigned n = Some v" "neck = serializeCodedUnsigned v"
    using assms(1,4) by (cases e) (auto simp: serializePayloadSize_def split: bind_splits if_splits)
  then show ?thesis
  proof cases
    case 1
    then show ?thesis using void_size [of t n neck rest] assms by (auto simp: writable_def)
  next
    case 2
    then show ?thesis using read_encoded_size [of n v rest] by blast
  qed
qed

lemma read_serialized:
  assumes "serializeInto e = Some bs" "length bs < 2 ^ 64" "writable e"
  shows "\<exists>body. serializePayload e = Some body \<and> read_element (bs @ rest) =
    Some (unat (mId e), if unknown_size e body then None else Some body, rest)"
proof -
  obtain n neck body where e: "mSize e = Some n" "serializePayloadSize e n = Some neck" "serializePayload e = Some body"
      "bs = serializeCodedUnsigned (mId e) @ neck @ body"
    using assms(1) by (auto simp: serializeInto_def split: bind_splits)
  have len: "length body < 2 ^ 64" using e(4) assms(2) by simp
  have "n = of_nat (length body)" using size_is_length(1) [OF e(3) len] e(1) by simp
  then have n: "unat n = length body" using len by (simp add: unsigned_of_nat take_bit_nat_eq_self)
  have i: "read_vint (bs @ rest) = Some (unat (mId e), length (serializeCodedUnsigned (mId e)))"
    using read_id [of "mId e" "neck @ body @ rest"] assms(3) e(4) by (simp add: writable_def)
  have rest: "drop (length (serializeCodedUnsigned (mId e))) (bs @ rest) = neck @ body @ rest" by (simp add: e(4))
  then have rest': "drop (length (serializeCodedUnsigned (mId e)) + k) (bs @ rest) = drop k (neck @ body @ rest)" for k
    by (metis add.commute drop_drop)
  show ?thesis
  proof (cases "unknown_size e body")
    case True
    then obtain i cs where "e = WebmMaster i cs" "body = []" by (auto simp: unknown_size_def split: element.splits)
    then have "neck = serializeCodedUnsigned kMkvUnknownLength"
      using e(2) n by (simp add: serializePayloadSize_def unat_eq_0)
    moreover from this have "drop 8 (neck @ body @ rest) = rest" using read_unknown_size(2) \<open>body = []\<close> by simp
    ultimately show ?thesis using i rest rest' e(3) True \<open>body = []\<close> read_unknown_size
      by (simp add: read_element_def Let_def del: drop_append)
  next
    case False
    have "\<exists>w. length neck = w \<and> read_size (neck @ body @ rest) = Some (unat n, w) \<and> unat n < 2 ^ (7 * w) - 1"
      by (rule payload_size_read [OF e(2,1) assms(3)]) (use False n in \<open>auto simp: unknown_size_def\<close>)
    then obtain w where "length neck = w" "read_size (neck @ body @ rest) = Some (unat n, w)" "unat n < 2 ^ (7 * w) - 1"
      by blast
    moreover from this(1) have "drop w (neck @ body @ rest) = body @ rest" "drop (length body) (body @ rest) = rest"
      by simp_all
    ultimately show ?thesis using i rest rest' e(3) False n
      by (simp add: read_element_def Let_def del: drop_append)
  qed
qed

lemma read_children:
  "map serializeInto cs = map Some bss \<Longrightarrow> length (concat bss) < 2 ^ 64 \<Longrightarrow> list_all writable cs \<Longrightarrow>
    \<exists>bodies. map serializePayload cs = map Some bodies
      \<and> read_elements (length cs) (concat bss)
        = Some (map (\<lambda>(c, body). (unat (mId c), if unknown_size c body then None else Some body)) (zip cs bodies))"
proof (induction cs arbitrary: bss)
  case Nil
  then show ?case by simp
next
  case (Cons c cs)
  then obtain bs bss' where bss: "bss = bs # bss'" by (cases bss) auto
  obtain bodies where b: "map serializePayload cs = map Some bodies" "read_elements (length cs) (concat bss')
      = Some (map (\<lambda>(c, body). (unat (mId c), if unknown_size c body then None else Some body)) (zip cs bodies))"
    using Cons.IH [of bss'] Cons.prems bss by auto
  obtain body where c: "serializePayload c = Some body" "read_element (bs @ concat bss')
      = Some (unat (mId c), if unknown_size c body then None else Some body, concat bss')"
    using read_serialized [of c bs "concat bss'"] Cons.prems bss by auto
  show ?case using b c bss by (intro exI [of _ "body # bodies"]) simp
qed

section \<open>Properties\<close>

text \<open>
  C18: The payload of a master, read as EBML, is the sequence of its children: each is found with its
  identifier and its own payload, where the code stored it, and the sizes that were fixed when the
  tree was built are the numbers of bytes written.
\<close>

theorem master_roundtrip:
  assumes "serializePayload (WebmMaster i cs) = Some payload" "length payload < 2 ^ 64" "list_all writable cs"
  shows "mSize (WebmMaster i cs) = Some (of_nat (length payload))
    \<and> (\<exists>bodies. map serializePayload cs = map Some bodies
      \<and> read_elements (length cs) payload
        = Some (map (\<lambda>(c, body). (unat (mId c), if unknown_size c body then None else Some body)) (zip cs bodies)))"
proof -
  obtain bss where "map serializeInto cs = map Some bss" "payload = concat bss"
    using size_is_length(2) [of cs 0 "[]" payload] assms(1,2) by auto
  then show ?thesis
    using read_children [of cs bss] size_is_length(1) [OF assms(1,2)] assms(2,3) by simp
qed

definition example_seek :: "element list" where
  "example_seek = [WebmUnsigned 0x53AB 0x1549A966, EbmlVoid 5, WebmUnsigned 0x53AC 300]"

lemma example_seek_bytes: "serializePayload (WebmMaster 0x4DBB example_seek)
    = Some [0x53, 0xAB, 0x84, 0x15, 0x49, 0xA9, 0x66, 0xEC, 0x83, 0, 0, 0, 0x53, 0xAC, 0x82, 1, 0x2C]"
  by code_simp

theorem master_roundtrip_witness:
  "\<exists>bodies. mSize (WebmMaster 0x4DBB example_seek) = Some 17
    \<and> map serializePayload example_seek = map Some bodies
    \<and> read_elements 3 [0x53, 0xAB, 0x84, 0x15, 0x49, 0xA9, 0x66, 0xEC, 0x83, 0, 0, 0, 0x53, 0xAC, 0x82, 1, 0x2C]
      = Some (map (\<lambda>(c, body). (unat (mId c), if unknown_size c body then None else Some body)) (zip example_seek bodies))"
proof -
  have "list_all writable example_seek"
    by (simp add: example_seek_def writable_def ebml_id_def kMkvVoid_def upt_rec)
  moreover have "length example_seek = 3" by (simp add: example_seek_def)
  ultimately show ?thesis
    using master_roundtrip [OF example_seek_bytes]
    by (simp del: mSize.simps serializePayload.simps read_elements.simps list.map)
qed

end
