(* ===== verification/WebmEntries.thy ===== *)
theory WebmEntries
  imports WebmElements "HOL-Library.Log_Nat"
begin

text \<open>
  The entries of a WebM file that WebmElement.cpp builds from element constructors, the identifiers
  of WebmConstants.h, and the Vorbis headers: packed by \<open>WebmWriter::audioTrack\<close>
  (WebmWriter.cpp), unpacked by \<open>addVorbisCodecInfo\<close> (MatroskaExtractor.cpp). A string of the
  source is its bytes without the terminator, a double its bit pattern.
\<close>

section \<open>Identifiers\<close>

named_theorems webm_ids

definition kMkvEbml :: u64 where [webm_ids]: "kMkvEbml = 0x1A45DFA3"
definition kMkvEbmlVersion :: u64 where [webm_ids]: "kMkvEbmlVersion = 0x4286"
definition kMkvEbmlReadVersion :: u64 where [webm_ids]: "kMkvEbmlReadVersion = 0x42F7"
definition kMkvEbmlMaxIdlength :: u64 where [webm_ids]: "kMkvEbmlMaxIdlength = 0x42F2"
definition kMkvEbmlMaxSizeLength :: u64 where [webm_ids]: "kMkvEbmlMaxSizeLength = 0x42F3"
definition kMkvDocType :: u64 where [webm_ids]: "kMkvDocType = 0x4282"
definition kMkvDocTypeVersion :: u64 where [webm_ids]: "kMkvDocTypeVersion = 0x4287"
definition kMkvDocTypeReadVersion :: u64 where [webm_ids]: "kMkvDocTypeReadVersion = 0x4285"
definition kMkvSegment :: u64 where [webm_ids]: "kMkvSegment = 0x18538067"
definition kMkvSeekHead :: u64 where [webm_ids]: "kMkvSeekHead = 0x114D9B74"
definition kMkvSeek :: u64 where [webm_ids]: "kMkvSeek = 0x4DBB"
definition kMkvSeekId :: u64 where [webm_ids]: "kMkvSeekId = 0x53AB"
definition kMkvSeekPosition :: u64 where [webm_ids]: "kMkvSeekPosition = 0x53AC"
definition kMkvInfo :: u64 where [webm_ids]: "kMkvInfo = 0x1549A966"
definition kMkvTimecodeScale :: u64 where [webm_ids]: "kMkvTimecodeScale = 0x2AD7B1"
definition kMkvSegmentDuration :: u64 where [webm_ids]: "kMkvSegmentDuration = 0x4489"
definition kMkvMuxingApp :: u64 where [webm_ids]: "kMkvMuxingApp = 0x4D80"
definition kMkvWritingApp :: u64 where [webm_ids]: "kMkvWritingApp = 0x5741"
definition kMkvCluster :: u64 where [webm_ids]: "kMkvCluster = 0x1F43B675"
definition kMkvTimecode :: u64 where [webm_ids]: "kMkvTimecode = 0xE7"
definition kMkvTracks :: u64 where [webm_ids]: "kMkvTracks = 0x1654AE6B"
definition kMkvTrackEntry :: u64 where [webm_ids]: "kMkvTrackEntry = 0xAE"
definition kMkvTrackNumber :: u64 where [webm_ids]: "kMkvTrackNumber = 0xD7"
definition kMkvTrackUid :: u64 where [webm_ids]: "kMkvTrackUid = 0x73C5"
definition kMkvTrackType :: u64 where [webm_ids]: "kMkvTrackType = 0x83"
definition kMkvFlagLacing :: u64 where [webm_ids]: "kMkvFlagLacing = 0x9C"
definition kMkvLanguage :: u64 where [webm_ids]: "kMkvLanguage = 0x22B59C"
definition kMkvCodecId :: u64 where [webm_ids]: "kMkvCodecId = 0x86"
definition kMkvCodecPrivate :: u64 where [webm_ids]: "kMkvCodecPrivate = 0x63A2"
definition kMkvVideo :: u64 where [webm_ids]: "kMkvVideo = 0xE0"
definition kMkvPixelWidth :: u64 where [webm_ids]: "kMkvPixelWidth = 0xB0"
definition kMkvPixelHeight :: u64 where [webm_ids]: "kMkvPixelHeight = 0xBA"
definition kMkvAudio :: u64 where [webm_ids]: "kMkvAudio = 0xE1"
definition kMkvSamplingFrequency :: u64 where [webm_ids]: "kMkvSamplingFrequency = 0xB5"
definition kMkvChannels :: u64 where [webm_ids]: "kMkvChannels = 0x9F"
definition kMkvBitDepth :: u64 where [webm_ids]: "kMkvBitDepth = 0x6264"
definition kMkvCues :: u64 where [webm_ids]: "kMkvCues = 0x1C53BB6B"
definition kMkvCuePoint :: u64 where [webm_ids]: "kMkvCuePoint = 0xBB"
definition kMkvCueTime :: u64 where [webm_ids]: "kMkvCueTime = 0xB3"
definition kMkvCueTrackPositions :: u64 where [webm_ids]: "kMkvCueTrackPositions = 0xB7"
definition kMkvCueTrack :: u64 where [webm_ids]: "kMkvCueTrack = 0xF7"
definition kMkvCueClusterPosition :: u64 where [webm_ids]: "kMkvCueClusterPosition = 0xF1"

definition kVideoType :: int where "kVideoType = 1"
definition kAudioType :: int where "kAudioType = 2"
definition kInvalidType :: int where "kInvalidType = -1"
definition kVideoTrackNum :: int where "kVideoTrackNum = 1"
definition kAudioTrackNum :: int where "kAudioTrackNum = 2"

lemmas [webm_ids] = kMkvVoid_def kMkvSimpleBlock_def kVideoType_def kAudioType_def kInvalidType_def
  kVideoTrackNum_def kAudioTrackNum_def

section \<open>Values of the C++ language\<close>

text \<open>The bytes of a string, and the bits of the double that an integer converts to (rounded to even).\<close>

definition c_str :: "string \<Rightarrow> byte list" where
  "c_str s = map (\<lambda>c. of_nat (of_char c)) s"

definition double_of_nat :: "nat \<Rightarrow> u64" where
  "double_of_nat n =
     (if n = 0 then 0 else
      let e = floorlog 2 n - 1;
          m = (if e \<le> 52 then n * 2 ^ (52 - e)
               else let q = n div 2 ^ (e - 52); r = n mod 2 ^ (e - 52) in
                    if 2 * r > 2 ^ (e - 52) \<or> 2 * r = 2 ^ (e - 52) \<and> odd q then q + 1 else q) in
      of_nat ((e + 1022) * 2 ^ 52 + m))"

definition double_of_int :: "int \<Rightarrow> u64" where
  "double_of_int i = (if i < 0 then double_of_nat (nat (- i)) OR push_bit 63 1 else double_of_nat (nat i))"

section \<open>Entries\<close>

definition populateCommonTrackEntries ::
    "int \<Rightarrow> u64 \<Rightarrow> bool \<Rightarrow> byte list \<Rightarrow> byte list \<Rightarrow> int \<Rightarrow> element list \<Rightarrow> element list" where
  "populateCommonTrackEntries num uid lacing lang codec type ls = ls @ [
     WebmUnsigned kMkvTrackNumber (of_int num),
     WebmUnsigned kMkvTrackUid uid,
     WebmUnsigned kMkvFlagLacing (of_bool lacing),
     WebmString kMkvLanguage lang,
     WebmString kMkvCodecId codec,
     WebmUnsigned kMkvTrackType (of_int type)]"

definition CuePointEntry :: "u64 \<Rightarrow> int \<Rightarrow> u64 \<Rightarrow> element" where
  "CuePointEntry time track off =
     (let cueTrackPositions = WebmMaster kMkvCueTrackPositions
            [WebmUnsigned kMkvCueTrack (of_int track), WebmUnsigned kMkvCueClusterPosition off] in
      WebmMaster kMkvCuePoint [WebmUnsigned kMkvCueTime time, cueTrackPositions])"

definition SeekEntry :: "u64 \<Rightarrow> u64 \<Rightarrow> element" where
  "SeekEntry i off = WebmMaster kMkvSeek [WebmUnsigned kMkvSeekId i, WebmUnsigned kMkvSeekPosition off]"

definition EbmlHeader :: "int \<Rightarrow> int \<Rightarrow> int \<Rightarrow> int \<Rightarrow> int \<Rightarrow> int \<Rightarrow> element" where
  "EbmlHeader ver readVer maxIdLen maxSizeLen docVer docReadVer = WebmMaster kMkvEbml [
     WebmUnsigned kMkvEbmlVersion (of_int ver),
     WebmUnsigned kMkvEbmlReadVersion (of_int readVer),
     WebmUnsigned kMkvEbmlMaxIdlength (of_int maxIdLen),
     WebmUnsigned kMkvEbmlMaxSizeLength (of_int maxSizeLen),
     WebmString kMkvDocType (c_str ''webm''),
     WebmUnsigned kMkvDocTypeVersion (of_int docVer),
     WebmUnsigned kMkvDocTypeReadVersion (of_int docReadVer)]"

text \<open>The second argument is the duration, as the bits of a double.\<close>

definition SegmentInfo :: "u64 \<Rightarrow> u64 \<Rightarrow> element" where
  "SegmentInfo scale dur = WebmMaster kMkvInfo [
     WebmFloat64 kMkvSegmentDuration dur,
     WebmUnsigned kMkvTimecodeScale scale,
     WebmString kMkvMuxingApp (c_str ''android''),
     WebmString kMkvWritingApp (c_str ''android'')]"

definition AudioTrackEntry :: "int \<Rightarrow> u64 \<Rightarrow> byte list \<Rightarrow> int \<Rightarrow> u64 \<Rightarrow> bool \<Rightarrow> byte list \<Rightarrow> element" where
  "AudioTrackEntry chans rate buf bps uid lacing lang =
     (let uid = (if uid = 0 then of_int kAudioTrackNum else uid);
          trackEntryFields = populateCommonTrackEntries kAudioTrackNum uid lacing lang (c_str ''A_VORBIS'') kAudioType [];
          audioInfo = [WebmUnsigned kMkvChannels (of_int chans), WebmFloat64 kMkvSamplingFrequency rate]
            @ (if bps \<noteq> 0 then [WebmUnsigned kMkvBitDepth (of_int bps)] else []) in
      WebmMaster kMkvTrackEntry
        (trackEntryFields @ [WebmMaster kMkvAudio audioInfo, WebmBinary kMkvCodecPrivate buf]))"

definition VideoTrackEntry :: "u64 \<Rightarrow> u64 \<Rightarrow> u64 \<Rightarrow> bool \<Rightarrow> byte list \<Rightarrow> element" where
  "VideoTrackEntry width height uid lacing lang =
     (let uid = (if uid = 0 then of_int kVideoTrackNum else uid);
          trackEntryFields = populateCommonTrackEntries kVideoTrackNum uid lacing lang (c_str ''V_VP8'') kVideoType [];
          videoInfo = [WebmUnsigned kMkvPixelWidth width, WebmUnsigned kMkvPixelHeight height] in
      WebmMaster kMkvTrackEntry (trackEntryFields @ [WebmMaster kMkvVideo videoInfo]))"

section \<open>Track entries of the writer\<close>

text \<open>The meta data of a source, as far as a track entry reads it; \<open>None\<close> is a key that is absent.\<close>

record track_meta =
  kKeyWidth :: "int option"
  kKeyHeight :: "int option"
  kKeyChannelCount :: "int option"
  kKeySampleRate :: "int option"
  kKeyVorbisInfo :: "byte list option"
  kKeyVorbisBooks :: "byte list option"

definition XiphLaceCodeLen :: "nat \<Rightarrow> nat" where
  "XiphLaceCodeLen size_h = size_h div 0xff + 1"

fun XiphLaceEnc :: "nat \<Rightarrow> byte list" where
  "XiphLaceEnc size_h = (if 0xff \<le> size_h then 0xff # XiphLaceEnc (size_h - 0xff) else [of_nat size_h])"

declare XiphLaceEnc.simps [simp del]

definition headerData2 :: "byte list" where
  "headerData2 = [3] @ c_str ''vorbis'' @ [7, 0, 0, 0] @ c_str ''android'' @ [0, 0, 0, 0, 1]"

text \<open>
  The codec private data: a buffer of the announced size, filled from its start; \<open>None\<close> is a
  store past its end.
\<close>

definition codecPrivate :: "byte list \<Rightarrow> byte list \<Rightarrow> byte list option" where
  "codecPrivate headerData1 headerData3 =
     (let headerSize1 = length headerData1; headerSize2 = length headerData2; headerSize3 = length headerData3;
          codecPrivateSize = 1 + XiphLaceCodeLen headerSize1 + XiphLaceCodeLen headerSize2
            + (headerSize1 + headerSize2 + headerSize3);
          stores = [2] @ XiphLaceEnc headerSize1 @ XiphLaceEnc headerSize2 @ headerData1 @ headerData2 @ headerData3 in
      if length stores \<le> codecPrivateSize then Some (stores @ replicate (codecPrivateSize - length stores) 0)
      else None)"

definition videoTrack :: "track_meta \<Rightarrow> element option" where
  "videoTrack md = do {
     width \<leftarrow> kKeyWidth md;
     height \<leftarrow> kKeyHeight md;
     Some (VideoTrackEntry (of_int width) (of_int height) 0 False (c_str ''und'')) }"

definition audioTrack :: "track_meta \<Rightarrow> element option" where
  "audioTrack md = do {
     nChannels \<leftarrow> kKeyChannelCount md;
     samplerate \<leftarrow> kKeySampleRate md;
     headerData1 \<leftarrow> kKeyVorbisInfo md;
     headerData3 \<leftarrow> kKeyVorbisBooks md;
     codecPrivateBuf \<leftarrow> codecPrivate headerData1 headerData3;
     Some (AudioTrackEntry nChannels (double_of_int samplerate) codecPrivateBuf 0 0 False (c_str ''und'')) }"

section \<open>The reader of the Vorbis headers\<close>

text \<open>A length in Xiph lacing at an offset, with the offset behind it; \<open>None\<close> is ERROR_MALFORMED.\<close>

definition SIZE_MAX :: nat where "SIZE_MAX = 2 ^ 64 - 1"

function lace_loop :: "byte list \<Rightarrow> nat \<Rightarrow> nat \<Rightarrow> (nat \<times> nat) option" where
  "lace_loop data off len =
     (if off < length data \<and> data ! off = 0xff then
        if len > SIZE_MAX - 0xff then None else lace_loop data (off + 1) (len + 0xff)
      else Some (off, len))"
  by pat_completeness auto
termination by (relation "measure (\<lambda>(data, off, _). length data - off)") auto

declare lace_loop.simps [simp del]

definition read_lace :: "byte list \<Rightarrow> nat \<Rightarrow> (nat \<times> nat) option" where
  "read_lace data off0 = do {
     (off, len) \<leftarrow> lace_loop data off0 0;
     if off \<ge> length data then None
     else if len > SIZE_MAX - unat (data ! off) then None
     else Some (off + 1, len + unat (data ! off)) }"

text \<open>
  The status, and the two pieces of meta data when they are set. \<open>None\<close> is a read past the end of
  the codec private data.
\<close>

definition addVorbisCodecInfo :: "byte list \<Rightarrow> (int \<times> byte list option \<times> byte list option) option" where
  "addVorbisCodecInfo data =
     (if length data < 1 then Some (ERROR_MALFORMED, None, None)
      else if data ! 0 \<noteq> 0x02 then Some (ERROR_MALFORMED, None, None)
      else
        case read_lace data 1 of None \<Rightarrow> Some (ERROR_MALFORMED, None, None)
        | Some (off, len1) \<Rightarrow>
        (case read_lace data off of None \<Rightarrow> Some (ERROR_MALFORMED, None, None)
         | Some (off, len2) \<Rightarrow>
           if len1 > SIZE_MAX - len2 \<or> off > SIZE_MAX - (len1 + len2) \<or> length data < off + len1 + len2
           then Some (ERROR_MALFORMED, None, None)
           else do {
             b \<leftarrow> fetch data off;
             if b \<noteq> 0x01 then Some (ERROR_MALFORMED, None, None)
             else do {
               let info = Some (take len1 (drop off data));
               b \<leftarrow> fetch data (off + len1);
               if b \<noteq> 0x03 then Some (ERROR_MALFORMED, info, None)
               else do {
                 b \<leftarrow> fetch data (off + len1 + len2);
                 if b \<noteq> 0x05 then Some (ERROR_MALFORMED, info, None)
                 else Some (OK, info, Some (drop (off + len1 + len2) data)) } } }))"

section \<open>Lacing\<close>

lemma XiphLaceEnc_replicate: "XiphLaceEnc n = replicate (n div 255) 0xff @ [of_nat (n mod 255)]"
proof (induction n rule: XiphLaceEnc.induct)
  case (1 n)
  show ?case
  proof (cases "255 \<le> n")
    case True
    then have "n div 255 = Suc ((n - 255) div 255)" "n mod 255 = (n - 255) mod 255"
      by (simp_all add: le_div_geq le_mod_geq)
    then show ?thesis using 1 True by (simp add: XiphLaceEnc.simps [of n])
  qed (simp add: XiphLaceEnc.simps [of n])
qed

lemma length_XiphLaceEnc [simp]: "length (XiphLaceEnc n) = XiphLaceCodeLen n"
  by (simp add: XiphLaceEnc_replicate XiphLaceCodeLen_def)

lemma lace_loop_replicate:
  "b \<noteq> 0xff \<Longrightarrow> len + 255 * k \<le> SIZE_MAX
    \<Longrightarrow> lace_loop (pre @ replicate k 0xff @ b # post) (length pre) len = Some (length pre + k, len + 255 * k)"
proof (induction k arbitrary: pre len)
  case 0
  then show ?case by (simp add: lace_loop.simps)
next
  case (Suc k)
  have "lace_loop ((pre @ [0xff]) @ replicate k 0xff @ b # post) (length (pre @ [0xff])) (len + 255)
      = Some (length (pre @ [0xff]) + k, len + 255 + 255 * k)"
    using Suc.prems by (intro Suc.IH) simp_all
  then show ?case
    using Suc.prems by (simp add: lace_loop.simps [of "pre @ 0xff # replicate k 0xff @ b # post"])
qed

lemma last_lace:
  "unat (of_nat (n mod 255) :: byte) = n mod 255" "of_nat (n mod 255) \<noteq> (0xff :: byte)"
proof -
  have less: "n mod 255 < 255" by simp
  then show u: "unat (of_nat (n mod 255) :: byte) = n mod 255"
    by (simp add: unat_of_nat)
  show "of_nat (n mod 255) \<noteq> (0xff :: byte)"
  proof
    assume "of_nat (n mod 255) = (0xff :: byte)"
    then have "unat (of_nat (n mod 255) :: byte) = 255" by simp
    then show False using u less by linarith
  qed
qed

lemma read_lace_enc:
  assumes "n \<le> SIZE_MAX"
  shows "read_lace (pre @ XiphLaceEnc n @ post) (length pre) = Some (length pre + XiphLaceCodeLen n, n)"
proof -
  have n: "n = 255 * (n div 255) + n mod 255" by simp
  then have "0 + 255 * (n div 255) \<le> SIZE_MAX" using assms by linarith
  then have "lace_loop (pre @ XiphLaceEnc n @ post) (length pre) 0
      = Some (length pre + n div 255, 255 * (n div 255))"
    using lace_loop_replicate [OF last_lace(2) [of n], of 0 "n div 255" pre post]
    by (simp add: XiphLaceEnc_replicate)
  moreover have "(pre @ XiphLaceEnc n @ post) ! (length pre + n div 255) = of_nat (n mod 255)"
    by (simp add: XiphLaceEnc_replicate nth_append)
  moreover have "\<not> 255 * (n div 255) > SIZE_MAX - n mod 255" using assms n by linarith
  ultimately show ?thesis
    using last_lace(1) [of n] by (simp add: read_lace_def XiphLaceCodeLen_def)
qed

lemma codecPrivate_bytes:
  "codecPrivate h1 h3 = Some ([2] @ XiphLaceEnc (length h1) @ XiphLaceEnc (length headerData2) @ h1 @ headerData2 @ h3)"
  by (simp add: codecPrivate_def)

lemma headerData2_bytes: "length headerData2 = 23" "headerData2 ! 0 = 3"
  by (simp_all add: headerData2_def c_str_def)

section \<open>Properties\<close>

text \<open>
  The codec private data that the writer packs for a Vorbis track fills its buffer exactly, and
  the reader of this repository gets from it the information and the books that the writer was given.
\<close>

theorem vorbis_headers_roundtrip:
  assumes "h1 \<noteq> []" "hd h1 = 0x01" "h3 \<noteq> []" "hd h3 = 0x05" "length h1 < 2 ^ 62"
  shows "\<exists>data. codecPrivate h1 h3 = Some data
    \<and> length data = 1 + XiphLaceCodeLen (length h1) + 1 + (length h1 + 23 + length h3)
    \<and> addVorbisCodecInfo data = Some (OK, Some h1, Some h3)"
proof -
  define n1 where "n1 = XiphLaceCodeLen (length h1)"
  define data where "data = [2] @ XiphLaceEnc (length h1) @ XiphLaceEnc 23 @ h1 @ headerData2 @ h3"
  have n1: "n1 \<le> length h1 + 1" by (simp add: n1_def XiphLaceCodeLen_def)
  have one: "XiphLaceCodeLen 23 = 1" by (simp add: XiphLaceCodeLen_def)
  have len: "length data = 1 + n1 + 1 + (length h1 + 23 + length h3)"
    by (simp add: data_def n1_def one headerData2_bytes)
  have r1: "read_lace data 1 = Some (1 + n1, length h1)"
    using read_lace_enc [of "length h1" "[2]"] assms(5) by (simp add: data_def n1_def SIZE_MAX_def)
  have r2: "read_lace data (1 + n1) = Some (2 + n1, 23)"
    using read_lace_enc [of 23 "2 # XiphLaceEnc (length h1)" "h1 @ headerData2 @ h3"]
    by (simp add: data_def n1_def one SIZE_MAX_def)
  have tail: "drop (2 + n1) data = h1 @ headerData2 @ h3"
    by (simp add: data_def n1_def one)
  then have books: "drop (2 + n1 + length h1 + 23) data = h3"
    using headerData2_bytes(1)
    by (metis (no_types, lifting) append_eq_conv_conj drop_drop add.commute length_append append_assoc)
  have b1: "data ! (2 + n1) = 1"
    using tail len assms(1,2) by (metis add_leD1 hd_append2 hd_drop_conv_nth le_add_same_cancel1 length_drop
      length_greater_0_conv append_is_Nil_conv not_le drop_all)
  have b2: "data ! (2 + n1 + length h1) = 3"
    using tail headerData2_bytes len nth_drop [of "2 + n1" data "length h1"] by (simp add: nth_append)
  have b3: "data ! (2 + n1 + length h1 + 23) = 5"
    using books len assms(3,4) hd_drop_conv_nth [of "2 + n1 + length h1 + 23" data] by simp
  have b0: "data ! 0 = 2" by (simp add: data_def)
  have no_overflow: "\<not> (length h1 > SIZE_MAX - 23 \<or> 2 + n1 > SIZE_MAX - (length h1 + 23)
      \<or> length data < 2 + n1 + length h1 + 23)"
    using n1 assms(5) len by (simp add: SIZE_MAX_def)
  have "0 < length h3" using assms(3) by simp
  then have "addVorbisCodecInfo data = Some (OK, Some h1, Some h3)"
    using no_overflow b1 b2 b3 len books tail
    by (simp add: addVorbisCodecInfo_def b0 r1 [simplified] r2 [simplified])
  then show ?thesis using len by (simp add: codecPrivate_bytes headerData2_bytes data_def n1_def)
qed

theorem vorbis_headers_roundtrip_witness:
  "\<exists>data. codecPrivate (1 # replicate 300 7) [5, 9] = Some data \<and> length data = 330
    \<and> addVorbisCodecInfo data = Some (OK, Some (1 # replicate 300 7), Some [5, 9])"
  using vorbis_headers_roundtrip [of "1 # replicate 300 7" "[5, 9]"] by (simp add: XiphLaceCodeLen_def)

text \<open>Lengths that sum up to the size of the data: the byte behind them is outside of it.\<close>

lemma vorbis_info_overread:
  "addVorbisCodecInfo [2, 0, 0] = None" "addVorbisCodecInfo [2, 1, 1, 1, 3] = None"
  by (simp_all add: addVorbisCodecInfo_def read_lace_def lace_loop.simps SIZE_MAX_def fetch_def)

end
