(* ===== verification/WebmFrames.thy ===== *)
theory WebmFrames
  imports WebmEntries
begin

text \<open>
  The sink thread of the WebM writer (media/libstagefright/webm: WebmFrame.cpp,
  WebmFrameThread.cpp, LinkedBlockingQueue.h): two queues of frames, filled by other threads, are
  merged by time and written as clusters. \<open>None\<close> is a CHECK that fails, which aborts the process,
  or a size that \<open>encodeUnsigned\<close> has no value for.
\<close>

section \<open>Frames\<close>

record frame =
  mType :: int
  mKey :: bool
  mAbsTimecode :: u64
  mData :: "byte list"
  mEos :: bool

definition EOS :: frame where
  "EOS = \<lparr> mType = kInvalidType, mKey = False, mAbsTimecode = - 1, mData = [], mEos = True \<rparr>"

definition SimpleBlock :: "frame \<Rightarrow> u64 \<Rightarrow> element" where
  "SimpleBlock f baseTimecode = WebmSimpleBlock
     (of_int (if mType f = kVideoType then kVideoTrackNum else kAudioTrackNum))
     (ucast (mAbsTimecode f - baseTimecode)) (mKey f) (mData f)"

text \<open>The operator \<open><\<close> of frames.\<close>

definition frame_less :: "'a frame_scheme \<Rightarrow> 'a frame_scheme \<Rightarrow> bool" where
  "frame_less f other =
     (if mEos f then False
      else if mEos other then True
      else if mAbsTimecode f = mAbsTimecode other then
        if mType f = kAudioType \<and> mType other = kVideoType then True
        else if mType f = kVideoType \<and> mType other = kAudioType then False
        else False
      else mAbsTimecode f < mAbsTimecode other)"

instantiation frame_ext :: (type) ord
begin

definition less_frame_ext_def: "f < other = frame_less f other" for f :: "'a frame_ext"

definition less_eq_frame_ext_def: "f \<le> other = (\<not> frame_less other f)" for f :: "'a frame_ext"

instance ..

end

section \<open>The file\<close>

text \<open>
  An open file: its bytes and the position of the descriptor. \<open>WebmElement::write\<close> grows the file
  by the size of the element and stores the bytes of the element there; the calls it makes of the
  kernel succeed.
\<close>

record wfile =
  content :: "byte list"
  offset :: nat

definition write_element :: "element \<Rightarrow> wfile \<Rightarrow> (u64 \<times> wfile) option" where
  "write_element e fd = do {
     n \<leftarrow> totalSize e;
     bs \<leftarrow> serializeInto e;
     Some (n, fd\<lparr> content := store (offset fd) bs (content fd), offset := offset fd + unat n \<rparr>) }"

section \<open>The sink\<close>

definition INT16_MAX :: u64 where "INT16_MAX = 32767"

text \<open>
  The two queues, the local variables of \<open>run\<close> and its program point: at the test of the loop,
  waiting for a video frame, waiting for an audio frame with the video frame at hand, returned.
\<close>

datatype point = At_test | Wait_video | Wait_audio frame | Returned

record sink =
  mVideoFrames :: "frame list"
  mAudioFrames :: "frame list"
  mDone :: bool
  mSegmentDataStart :: u64
  mFd :: wfile
  mCues :: "element list"
  outstandingFrames :: "frame list"
  numVideoKeyFrames :: int
  point :: point

definition initCluster :: "frame list \<Rightarrow> element list \<Rightarrow> (u64 \<times> element list) option" where
  "initCluster frames children = do {
     CHECK (frames \<noteq> [] \<and> children = []);
     let clusterTimecodeL = mAbsTimecode (hd frames);
     Some (clusterTimecodeL, [WebmUnsigned kMkvTimecode clusterTimecodeL]) }"

definition writeCluster :: "element list \<Rightarrow> wfile \<Rightarrow> (element list \<times> wfile) option" where
  "writeCluster children fd = do {
     CHECK (2 \<le> length children);
     (_, fd) \<leftarrow> write_element (WebmMaster kMkvCluster children) fd;
     Some ([], fd) }"

text \<open>The loop of \<open>flushFrames\<close>, which takes the given number of frames from the front.\<close>

fun flush_loop :: "nat \<Rightarrow> frame list \<Rightarrow> u64 \<Rightarrow> u64 \<Rightarrow> element list \<Rightarrow> wfile
    \<Rightarrow> (frame list \<times> u64 \<times> u64 \<times> element list \<times> wfile) option" where
  "flush_loop 0 frames cueTime clusterTimecodeL children fd
     = Some (frames, cueTime, clusterTimecodeL, children, fd)"
| "flush_loop (Suc n) frames cueTime clusterTimecodeL children fd = do {
     f \<leftarrow> fetch frames 0;
     let cueTime = (if mType f = kVideoType \<and> mKey f then mAbsTimecode f else cueTime);
     (clusterTimecodeL, children, fd) \<leftarrow>
       (if mAbsTimecode f - clusterTimecodeL > INT16_MAX then do {
          (children, fd) \<leftarrow> writeCluster children fd;
          (clusterTimecodeL, children) \<leftarrow> initCluster frames children;
          Some (clusterTimecodeL, children, fd) }
        else Some (clusterTimecodeL, children, fd));
     flush_loop n (tl frames) cueTime clusterTimecodeL (children @ [SimpleBlock f clusterTimecodeL]) fd }"

definition flushFrames :: "bool \<Rightarrow> sink \<Rightarrow> sink option" where
  "flushFrames is_last s =
     (let frames = outstandingFrames s in
      if frames = [] then Some s
      else do {
        (clusterTimecodeL, children) \<leftarrow> initCluster frames [];
        let cueTime = clusterTimecodeL;
        let fpos = offset (mFd s);
        n \<leftarrow> (if \<not> is_last then do { CHECK (2 \<le> length frames); Some (length frames - 2) } else Some (length frames));
        (frames, cueTime, clusterTimecodeL, children, fd) \<leftarrow>
          flush_loop n frames cueTime clusterTimecodeL children (mFd s);
        let (frames, children) =
          (if frames \<noteq> [] \<and> mType (hd frames) = kVideoType
           then (tl frames, children @ [SimpleBlock (hd frames) clusterTimecodeL])
           else (frames, children));
        (_, fd) \<leftarrow> writeCluster children fd;
        Some (s\<lparr> outstandingFrames := frames, mFd := fd,
          mCues := mCues s @ [CuePointEntry cueTime 1 (of_nat fpos - mSegmentDataStart s)] \<rparr>) })"

text \<open>One step of \<open>run\<close>; a wait on an empty queue leaves the state as it is.\<close>

definition take_frame :: "frame \<Rightarrow> frame \<Rightarrow> sink \<Rightarrow> sink" where
  "take_frame videoFrame audioFrame s =
     (if audioFrame < videoFrame
      then s\<lparr> mAudioFrames := tl (mAudioFrames s), outstandingFrames := outstandingFrames s @ [audioFrame] \<rparr>
      else s\<lparr> mVideoFrames := tl (mVideoFrames s), outstandingFrames := outstandingFrames s @ [videoFrame],
        numVideoKeyFrames := numVideoKeyFrames s + of_bool (mKey videoFrame) \<rparr>)"

definition finish :: "sink \<Rightarrow> sink option" where
  "finish s = do { s \<leftarrow> flushFrames True s; Some (s\<lparr> mDone := True, point := Returned \<rparr>) }"

definition run_step :: "sink \<Rightarrow> sink option" where
  "run_step s =
     (case point s of
        At_test \<Rightarrow> if mDone s then finish s else Some (s\<lparr> point := Wait_video \<rparr>)
      | Wait_video \<Rightarrow>
          Some (if mVideoFrames s = [] then s else s\<lparr> point := Wait_audio (hd (mVideoFrames s)) \<rparr>)
      | Wait_audio videoFrame \<Rightarrow>
          if mAudioFrames s = [] then Some s
          else let audioFrame = hd (mAudioFrames s) in
            if mEos videoFrame \<and> mEos audioFrame then finish s
            else let s = take_frame videoFrame audioFrame s in
              do {
                s \<leftarrow> (if numVideoKeyFrames s = 2
                  then do { s \<leftarrow> flushFrames False s; Some (s\<lparr> numVideoKeyFrames := numVideoKeyFrames s - 1 \<rparr>) }
                  else Some s);
                Some (s\<lparr> point := At_test \<rparr>) }
      | Returned \<Rightarrow> Some s)"

text \<open>
  The sink and the threads around it: a source pushes a frame, the writer's \<open>stop\<close> sets \<open>mDone\<close> and
  then pushes an end of stream on each queue, the sink takes a step.
\<close>

datatype event = Push_video frame | Push_audio frame | Set_done | Sink_runs

inductive sink_step :: "sink \<Rightarrow> event \<Rightarrow> sink \<Rightarrow> bool" where
  push_video: "sink_step s (Push_video f) (s\<lparr> mVideoFrames := mVideoFrames s @ [f] \<rparr>)"
| push_audio: "sink_step s (Push_audio f) (s\<lparr> mAudioFrames := mAudioFrames s @ [f] \<rparr>)"
| set_done: "sink_step s Set_done (s\<lparr> mDone := True \<rparr>)"
| sink_runs: "run_step s = Some s' \<Longrightarrow> sink_step s Sink_runs s'"

inductive sink_trace :: "sink \<Rightarrow> event list \<Rightarrow> sink \<Rightarrow> bool" where
  started: "sink_trace s [] s"
| continued: "sink_trace s evs s' \<Longrightarrow> sink_step s' e s'' \<Longrightarrow> sink_trace s (evs @ [e]) s''"

inductive_cases sink_stepE [elim]: "sink_step s e s'"

text \<open>A sink that \<open>start\<close> has just made run, writing at the end of a file.\<close>

definition started_sink :: "byte list \<Rightarrow> u64 \<Rightarrow> sink" where
  "started_sink written start = \<lparr> mVideoFrames = [], mAudioFrames = [], mDone = False,
     mSegmentDataStart = start, mFd = \<lparr> content = written, offset = length written \<rparr>, mCues = [],
     outstandingFrames = [], numVideoKeyFrames = 0, point = At_test \<rparr>"

end
