(* ===== verification/WebmSink.thy ===== *)
theory WebmSink
  imports WebmFrames
begin

text \<open>
  The clusters that the sink thread of the WebM writer puts into its file: the sizes of clusters,
  the loop of \<open>flushFrames\<close>, an invariant of every interleaving of the sink with the threads that
  push frames and stop it, and the properties that follow from it.
\<close>

section \<open>Bytes of clusters\<close>

definition bytes_of :: "element \<Rightarrow> byte list" where
  "bytes_of e = the (serializeInto e)"

text \<open>A bound on the bytes of an element whose serialisation has a value, and that value's size.\<close>

definition sized :: "element \<Rightarrow> nat \<Rightarrow> bool" where
  "sized e k \<longleftrightarrow> (\<forall>bs. serializeInto e = Some bs \<longrightarrow> totalSize e = Some (of_nat (length bs)) \<and> length bs \<le> k)"

lemma length_coded [simp]: "length (serializeCodedUnsigned u) \<le> 8"
  by (cases u rule: sizeOf_cases) (simp add: serializeCodedUnsigned_def)

lemma length_payload_size: "serializePayloadSize e n = Some neck \<Longrightarrow> length neck \<le> 8"
  by (auto simp: serializePayloadSize_def split: element.splits if_splits bind_splits)

lemma sizedI:
  assumes "\<And>body. serializePayload e = Some body \<Longrightarrow> length body \<le> k" "k < 2 ^ 64"
  shows "sized e (16 + k)"
  unfolding sized_def
proof (intro allI impI)
  fix bs assume bs: "serializeInto e = Some bs"
  then obtain n neck body where b: "serializePayload e = Some body" "serializePayloadSize e n = Some neck"
      "bs = serializeCodedUnsigned (mId e) @ neck @ body"
    by (auto simp: serializeInto_def split: bind_splits)
  have "length body < 2 ^ 64" using assms(1) [OF b(1)] assms(2) by simp
  then have "mSize e = Some (of_nat (length body))" by (rule size_is_length(1) [OF b(1)])
  moreover have "length bs \<le> 16 + k"
    using b(3) assms(1) [OF b(1)] length_payload_size [OF b(2)] length_coded [of "mId e"]
    by (simp del: length_coded)
  ultimately show "totalSize e = Some (of_nat (length bs)) \<and> length bs \<le> 16 + k"
    using serializeInto_size [OF bs b(1)] by simp
qed

lemma encodeUnsigned_small: "unat u < 2 ^ 28 - 1 \<Longrightarrow> \<exists>v. encodeUnsigned u = Some v"
  by (cases u rule: encodeUnsigned_cases) auto

lemma serialises:
  assumes "serializePayload e = Some body" "length body < 2 ^ 28 - 1" "\<And>t. e \<noteq> EbmlVoid t"
  shows "\<exists>bs. serializeInto e = Some bs"
proof -
  have n: "mSize e = Some (of_nat (length body))"
    using assms(2) by (intro size_is_length(1) [OF assms(1)]) simp
  have "unat (of_nat (length body) :: u64) < 2 ^ 28 - 1"
    using assms(2) by (simp add: unsigned_of_nat take_bit_nat_eq_self)
  then obtain v where "encodeUnsigned (of_nat (length body)) = Some v" using encodeUnsigned_small by blast
  then have "\<exists>neck. serializePayloadSize e (of_nat (length body)) = Some neck"
    using assms(3) by (cases e; cases "of_nat (length body) = (0 :: u64)") (auto simp: serializePayloadSize_def)
  then show ?thesis using n assms(1) by (auto simp: serializeInto_def)
qed

text \<open>The children of a master are stored one after the other.\<close>

lemma serializeChildren_eq:
  assumes "\<And>c. c \<in> set cs \<Longrightarrow> sized c (k c)" "length buf + (\<Sum>c\<leftarrow>cs. k c) < 2 ^ 64" "unat off = length buf"
  shows "serializeChildren cs off buf =
    (if \<forall>c\<in>set cs. serializeInto c \<noteq> None then Some (buf @ concat (map bytes_of cs)) else None)"
  using assms
proof (induction cs arbitrary: off buf)
  case (Cons c cs)
  show ?case
  proof (cases "serializeInto c")
    case None
    then show ?thesis by (simp add: serializeChildren_Cons del: serializeChildren.simps)
  next
    case (Some bs)
    then have t: "totalSize c = Some (of_nat (length bs))" "length bs \<le> k c"
      using Cons.prems(1) [of c] by (simp_all add: sized_def)
    have "unat (off + of_nat (length bs)) = length (buf @ bs)"
      using Cons.prems(2,3) t(2) by (simp add: unat_word_ariths unsigned_of_nat take_bit_nat_eq_self)
    moreover have "length (buf @ bs) + (\<Sum>c\<leftarrow>cs. k c) < 2 ^ 64" using Cons.prems(2) t(2) by simp
    ultimately have "serializeChildren cs (off + of_nat (length bs)) (buf @ bs) =
        (if \<forall>c\<in>set cs. serializeInto c \<noteq> None then Some ((buf @ bs) @ concat (map bytes_of cs)) else None)"
      using Cons.prems(1) by (intro Cons.IH) auto
    moreover have "store (unat off) bs buf = buf @ bs" using store_at_end Cons.prems(3) by simp
    ultimately show ?thesis
      using Some t(1) by (auto simp: serializeChildren_Cons bytes_of_def [of c] simp del: serializeChildren.simps)
  qed
qed simp

section \<open>Blocks and clusters\<close>

definition cost :: "frame \<Rightarrow> nat" where
  "cost f = length (mData f) + 20"

definition costs :: "frame list \<Rightarrow> nat" where
  "costs fs = (\<Sum>f\<leftarrow>fs. cost f)"

lemma costs_simps [simp]: "costs [] = 0" "costs (f # fs) = cost f + costs fs" "costs (fs @ gs) = costs fs + costs gs"
  by (simp_all add: costs_def)

definition cluster_children :: "u64 \<Rightarrow> frame list \<Rightarrow> element list" where
  "cluster_children t g = WebmUnsigned kMkvTimecode t # map (\<lambda>f. SimpleBlock f t) g"

text \<open>The cluster of a group of frames: its timecode is that of the first frame.\<close>

definition cluster :: "frame list \<Rightarrow> element" where
  "cluster g = WebmMaster kMkvCluster (cluster_children (mAbsTimecode (hd g)) g)"

lemma block_payload:
  "\<exists>h. serializePayload (SimpleBlock f t) = Some (h @ mData f) \<and> length h = 4"
proof -
  have "encodeUnsigned (scast (of_int (if mType f = kVideoType then kVideoTrackNum else kAudioTrackNum) :: 32 word))
      = Some (if mType f = kVideoType then 0x81 else 0x82)"
    unfolding kVideoTrackNum_def kAudioTrackNum_def by (cases "mType f = kVideoType"; simp; code_simp)+
  moreover have "serializeCodedUnsigned 0x81 = [0x81]" by code_simp
  moreover have "serializeCodedUnsigned 0x82 = [0x82]" by code_simp
  ultimately show ?thesis by (auto simp: SimpleBlock_def store_def Let_def)
qed

lemma block_sized: "length (mData f) < 2 ^ 63 \<Longrightarrow> sized (SimpleBlock f t) (cost f)"
  using sizedI [of "SimpleBlock f t" "4 + length (mData f)"] block_payload [of f t]
  by (auto simp: cost_def add.commute)

lemma block_serialises: "cost f < 2 ^ 28 - 1 \<Longrightarrow> serializeInto (SimpleBlock f t) \<noteq> None"
  using block_payload [of f t] serialises [of "SimpleBlock f t"] by (auto simp: cost_def SimpleBlock_def)

lemma timecode_sized: "sized (WebmUnsigned i t) 24"
  using sizedI [of "WebmUnsigned i t" 8] by simp

lemma timecode_serialises: "serializeInto (WebmUnsigned i t) \<noteq> None"
  using serialises [of "WebmUnsigned i t" "serializeCodedUnsigned t"] length_coded [of t]
  by (auto simp: less_eq_Suc_le intro: le_less_trans)

text \<open>A bound on the children of a cluster.\<close>

definition child_bound :: "element \<Rightarrow> nat" where
  "child_bound e = (case e of WebmSimpleBlock _ _ _ d \<Rightarrow> length d + 20 | _ \<Rightarrow> 24)"

lemma child_bounds: "(\<Sum>c\<leftarrow>cluster_children t g. child_bound c) = 24 + costs g"
  by (induction g) (auto simp: cluster_children_def child_bound_def SimpleBlock_def cost_def)

lemma cost_le_costs: "f \<in> set g \<Longrightarrow> cost f \<le> costs g"
  by (induction g) auto

lemma children_sized:
  assumes "costs g < 2 ^ 62" "c \<in> set (cluster_children t g)"
  shows "sized c (child_bound c)"
proof -
  consider "c = WebmUnsigned kMkvTimecode t" | f where "f \<in> set g" "c = SimpleBlock f t"
    using assms(2) by (auto simp: cluster_children_def)
  then show ?thesis
  proof cases
    case 1
    then show ?thesis using timecode_sized by (simp add: child_bound_def)
  next
    case (2 f)
    then have "sized c (cost f)" using block_sized [of f t] cost_le_costs [of f g] assms(1) by (simp add: cost_def)
    then show ?thesis using 2(2) by (simp add: child_bound_def SimpleBlock_def cost_def)
  qed
qed

lemma length_concat_bytes:
  "(\<And>c. c \<in> set cs \<Longrightarrow> sized c (k c) \<and> serializeInto c \<noteq> None)
    \<Longrightarrow> length (concat (map bytes_of cs)) \<le> (\<Sum>c\<leftarrow>cs. k c)"
proof (induction cs)
  case (Cons c cs)
  have "length (bytes_of c) \<le> k c" using Cons.prems [of c] by (auto simp: bytes_of_def sized_def)
  then show ?case using Cons by (simp add: add_mono)
qed simp

lemma cluster_payload:
  assumes "costs g < 2 ^ 62"
  shows "serializePayload (WebmMaster i (cluster_children t g)) =
    (if \<forall>c\<in>set (cluster_children t g). serializeInto c \<noteq> None
     then Some (concat (map bytes_of (cluster_children t g))) else None)"
  using serializeChildren_eq [of "cluster_children t g" child_bound "[]" 0] children_sized [OF assms] assms
  by (simp add: child_bounds)

lemma cluster_payload_length:
  assumes "serializePayload (WebmMaster i (cluster_children t g)) = Some body" "costs g < 2 ^ 62"
  shows "length body \<le> 24 + costs g"
  using assms(1) length_concat_bytes [of "cluster_children t g" child_bound] children_sized [OF assms(2)]
  unfolding cluster_payload [OF assms(2)] child_bounds by (auto split: if_splits)

definition append_bytes :: "byte list \<Rightarrow> wfile \<Rightarrow> wfile" where
  "append_bytes bs fd = fd\<lparr> content := content fd @ bs, offset := length (content fd @ bs) \<rparr>"

lemma append_bytes_simps [simp]:
  "content (append_bytes bs fd) = content fd @ bs"
  "offset (append_bytes bs fd) = length (content (append_bytes bs fd))"
  by (simp_all add: append_bytes_def)

lemma writeCluster_Some:
  assumes "writeCluster (cluster_children t g) fd = Some (children, fd')" "costs g < 2 ^ 62"
    "offset fd = length (content fd)"
  shows "g \<noteq> [] \<and> children = [] \<and> fd' = append_bytes (bytes_of (WebmMaster kMkvCluster (cluster_children t g))) fd"
proof -
  let ?e = "WebmMaster kMkvCluster (cluster_children t g)"
  obtain n where n: "write_element ?e fd = Some (n, fd')" and g: "1 \<le> length g" "children = []"
    using assms(1) by (auto simp: writeCluster_def cluster_children_def split: bind_splits)
  then obtain bs where bs: "serializeInto ?e = Some bs" "totalSize ?e = Some n"
      "fd' = fd\<lparr> content := store (offset fd) bs (content fd), offset := offset fd + unat n \<rparr>"
    by (auto simp: write_element_def split: bind_splits)
  have "sized ?e (16 + (24 + costs g))"
    using sizedI [of ?e "24 + costs g"] cluster_payload_length [OF _ assms(2)] assms(2) by simp
  then have b: "n = of_nat (length bs)" "length bs < 2 ^ 64" using bs(1,2) assms(2) by (auto simp: sized_def)
  then have "unat n = length bs" by (simp add: unsigned_of_nat take_bit_nat_eq_self)
  then show ?thesis
    using bs(1,3) assms(3) g store_at_end by (auto simp: append_bytes_def bytes_of_def)
qed

lemma writeCluster_succeeds:
  assumes "g \<noteq> []" "costs g + 100 < 2 ^ 28"
  shows "writeCluster (cluster_children t g) fd \<noteq> None"
proof -
  let ?e = "WebmMaster kMkvCluster (cluster_children t g)"
  have "serializeInto c \<noteq> None" if c: "c \<in> set (cluster_children t g)" for c
  proof -
    consider "c = WebmUnsigned kMkvTimecode t" | f where "f \<in> set g" "c = SimpleBlock f t"
      using c by (auto simp: cluster_children_def)
    then show ?thesis
    proof cases
      case (2 f)
      then have "cost f < 2 ^ 28 - 1" using cost_le_costs [of f g] assms(2) by simp
      then show ?thesis using block_serialises 2(2) by blast
    qed (use timecode_serialises in blast)
  qed
  then obtain body where body: "serializePayload ?e = Some body"
    using cluster_payload [of g kMkvCluster t] assms(2) by simp
  have "length body \<le> 24 + costs g" using cluster_payload_length [OF body] assms(2) by simp
  then obtain bs where bs: "serializeInto ?e = Some bs"
    using serialises [OF body] assms(2) by auto
  have "sized ?e (16 + (24 + costs g))"
    using sizedI [of ?e "24 + costs g"] cluster_payload_length [of kMkvCluster t g] assms(2) by simp
  then have "write_element ?e fd \<noteq> None" using bs by (auto simp: write_element_def sized_def)
  then show ?thesis using assms(1) by (cases g) (auto simp: writeCluster_def cluster_children_def)
qed

section \<open>Flushing\<close>

text \<open>
  The timecode of a frame is representable in a cluster: the loop looks at all frames of a group
  but the one that \<open>flushFrames\<close> adds after it.
\<close>

definition near :: "u64 \<Rightarrow> frame \<Rightarrow> bool" where
  "near t f \<longleftrightarrow> mAbsTimecode f - t \<le> INT16_MAX"

definition group_ok :: "frame list \<Rightarrow> bool" where
  "group_ok g \<longleftrightarrow> g \<noteq> [] \<and> (\<forall>f\<in>set (butlast g). near (mAbsTimecode (hd g)) f)"

definition open_group :: "frame list \<Rightarrow> u64 \<Rightarrow> bool" where
  "open_group g t \<longleftrightarrow> g \<noteq> [] \<and> t = mAbsTimecode (hd g) \<and> (\<forall>f\<in>set g. near t f)"

lemma open_group_ok: "open_group g t \<Longrightarrow> group_ok g"
  by (auto simp: open_group_def group_ok_def dest: in_set_butlastD)

lemma open_group_last: "open_group g t \<Longrightarrow> group_ok (g @ [f])"
  by (auto simp: open_group_def group_ok_def)

lemma near_self [simp]: "near (mAbsTimecode f) f"
  by (simp add: near_def)

lemma open_group_snoc: "open_group g t \<Longrightarrow> near t f \<Longrightarrow> open_group (g @ [f]) t"
  by (auto simp: open_group_def)

lemma open_group_single [simp]: "open_group [f] (mAbsTimecode f)"
  by (simp add: open_group_def)

definition groups_bytes :: "frame list list \<Rightarrow> byte list" where
  "groups_bytes gs = concat (map (\<lambda>g. bytes_of (cluster g)) gs)"

lemma groups_bytes_simps [simp]: "groups_bytes [] = []" "groups_bytes (g # gs) = bytes_of (cluster g) @ groups_bytes gs"
  "groups_bytes (gs @ hs) = groups_bytes gs @ groups_bytes hs"
  by (simp_all add: groups_bytes_def)

lemma append_append_bytes [simp]: "append_bytes bs (append_bytes as fd) = append_bytes (as @ bs) fd"
  by (simp add: append_bytes_def)

lemma append_nothing: "offset fd = length (content fd) \<Longrightarrow> append_bytes [] fd = fd"
  by (simp add: append_bytes_def)

lemma cluster_open: "open_group g t \<Longrightarrow> WebmMaster kMkvCluster (cluster_children t g) = cluster g"
  by (simp add: open_group_def cluster_def)

lemma children_snoc: "cluster_children t g @ [SimpleBlock f t] = cluster_children t (g @ [f])"
  by (simp add: cluster_children_def)

text \<open>The step of the loop on a frame, by whether a cluster is closed before it.\<close>

lemma flush_loop_near:
  assumes "near t f"
  shows "flush_loop (Suc n) (f # frames) cueTime t (cluster_children t g) fd
    = flush_loop n frames (if mType f = kVideoType \<and> mKey f then mAbsTimecode f else cueTime) t
        (cluster_children t (g @ [f])) fd"
  using assms by (simp add: near_def children_snoc leD)

lemma flush_loop_far:
  assumes "\<not> near t f" "offset fd = length (content fd)" "open_group g t" "costs g < 2 ^ 62"
  shows "flush_loop (Suc n) (f # frames) cueTime t (cluster_children t g) fd
    = do { _ \<leftarrow> writeCluster (cluster_children t g) fd;
           flush_loop n frames (if mType f = kVideoType \<and> mKey f then mAbsTimecode f else cueTime)
             (mAbsTimecode f) (cluster_children (mAbsTimecode f) [f]) (append_bytes (bytes_of (cluster g)) fd) }"
proof (cases "writeCluster (cluster_children t g) fd")
  case None
  then show ?thesis using assms(1) by (simp add: near_def not_less Let_def)
next
  case (Some r)
  then have "r = ([], append_bytes (bytes_of (cluster g)) fd)"
    using writeCluster_Some [of t g fd "fst r" "snd r"] assms(2,4) cluster_open [OF assms(3)] by (cases r) auto
  then show ?thesis
    using Some assms(1) by (simp add: near_def not_less Let_def initCluster_def cluster_children_def)
qed

text \<open>What the loop has done when it ends: complete groups are written, the last one is at hand.\<close>

lemma flush_loop_groups:
  assumes "flush_loop n frames cueTime t (cluster_children t g) fd = Some (frames', cueTime', t', children', fd')"
    "n \<le> length frames" "offset fd = length (content fd)" "costs (g @ frames) < 2 ^ 62" "open_group g t"
  shows "\<exists>gs g'. frames' = drop n frames \<and> children' = cluster_children t' g' \<and> concat gs @ g' = g @ take n frames
    \<and> list_all group_ok gs \<and> open_group g' t' \<and> fd' = append_bytes (groups_bytes gs) fd"
  using assms
proof (induction n arbitrary: frames cueTime t g fd)
  case 0
  then show ?case by - (rule exI [of _ "[]"], rule exI [of _ g], auto simp: append_nothing)
next
  case (Suc n)
  obtain f rest where fr: "frames = f # rest" using Suc.prems(2) by (cases frames) auto
  show ?case
  proof (cases "near t f")
    case True
    have "\<exists>gs g'. frames' = drop n rest \<and> children' = cluster_children t' g' \<and> concat gs @ g' = (g @ [f]) @ take n rest
        \<and> list_all group_ok gs \<and> open_group g' t' \<and> fd' = append_bytes (groups_bytes gs) fd"
      using Suc.prems fr by (intro Suc.IH [of rest _ t "g @ [f]" fd])
        (simp_all add: flush_loop_near [OF True] open_group_snoc [OF _ True] del: flush_loop.simps)
    then show ?thesis using fr by simp
  next
    case False
    have "costs g < 2 ^ 62" using Suc.prems(4) by simp
    note far = flush_loop_far [OF False Suc.prems(3,5) this]
    have "\<exists>gs g'. frames' = drop n rest \<and> children' = cluster_children t' g' \<and> concat gs @ g' = [f] @ take n rest
        \<and> list_all group_ok gs \<and> open_group g' t'
        \<and> fd' = append_bytes (groups_bytes gs) (append_bytes (bytes_of (cluster g)) fd)"
      using Suc.prems fr by (intro Suc.IH [of rest _ "mAbsTimecode f" "[f]"])
        (auto simp: far simp del: flush_loop.simps split: bind_splits)
    then obtain gs g' where r: "frames' = drop n rest" "children' = cluster_children t' g'"
        "concat gs @ g' = [f] @ take n rest" "list_all group_ok gs" "open_group g' t'"
        "fd' = append_bytes (groups_bytes gs) (append_bytes (bytes_of (cluster g)) fd)" by blast
    then show ?thesis
      using fr open_group_ok [OF Suc.prems(5)] by (intro exI [of _ "g # gs"] exI [of _ g']) simp
  qed
qed

lemma flush_loop_succeeds:
  assumes "n \<le> length frames" "offset fd = length (content fd)" "costs (g @ frames) + 100 < 2 ^ 28" "open_group g t"
  shows "flush_loop n frames cueTime t (cluster_children t g) fd \<noteq> None"
  using assms
proof (induction n arbitrary: frames cueTime t g fd)
  case (Suc n)
  obtain f rest where fr: "frames = f # rest" using Suc.prems(1) by (cases frames) auto
  show ?case
  proof (cases "near t f")
    case True
    then show ?thesis
      using Suc.IH [of rest fd "g @ [f]" t] Suc.prems fr
      by (simp add: flush_loop_near open_group_snoc del: flush_loop.simps not_None_eq)
  next
    case False
    have "writeCluster (cluster_children t g) fd \<noteq> None"
      using Suc.prems(3,4) by (intro writeCluster_succeeds) (auto simp: open_group_def)
    then obtain r where "writeCluster (cluster_children t g) fd = Some r" by blast
    then show ?thesis
      using Suc.IH [of rest "append_bytes (bytes_of (cluster g)) fd" "[f]" "mAbsTimecode f"] Suc.prems fr
        flush_loop_far [OF False Suc.prems(2,4)]
      by (simp del: flush_loop.simps not_None_eq)
  qed
qed simp

text \<open>The same from the start of \<open>flushFrames\<close>, where the first cluster has no block yet.\<close>

lemma flush_loop_first:
  assumes "frames \<noteq> []" "t = mAbsTimecode (hd frames)"
  shows "flush_loop (Suc n) frames cueTime t (cluster_children t []) fd
    = flush_loop n (tl frames) (if mType (hd frames) = kVideoType \<and> mKey (hd frames) then t else cueTime) t
        (cluster_children t [hd frames]) fd"
  using assms flush_loop_near [of t "hd frames" n "tl frames" cueTime "[]" fd] by simp

lemma flush_loop_start:
  assumes "flush_loop n frames cueTime t (cluster_children t []) fd = Some (frames', cueTime', t', children', fd')"
    "frames \<noteq> []" "t = mAbsTimecode (hd frames)" "n \<le> length frames" "offset fd = length (content fd)"
    "costs frames < 2 ^ 62"
  shows "\<exists>gs g'. frames' = drop n frames \<and> children' = cluster_children t' g' \<and> concat gs @ g' = take n frames
    \<and> list_all group_ok gs \<and> (open_group g' t' \<or> g' = [] \<and> n = 0 \<and> t' = t) \<and> fd' = append_bytes (groups_bytes gs) fd"
proof (cases n)
  case 0
  then show ?thesis
    using assms(1,5) by - (rule exI [of _ "[]"], rule exI [of _ "[]"], auto simp: append_nothing)
next
  case (Suc m)
  obtain f rest where fr: "frames = f # rest" using assms(2) by (cases frames) auto
  have "flush_loop m rest (if mType f = kVideoType \<and> mKey f then t else cueTime) t (cluster_children t [f]) fd
      = Some (frames', cueTime', t', children', fd')"
    using assms(1) flush_loop_first [OF assms(2,3)] Suc fr by simp
  from flush_loop_groups [OF this _ assms(5)] show ?thesis
    using assms(3,4,6) Suc fr by auto
qed

lemma flush_start_succeeds:
  assumes "frames \<noteq> []" "t = mAbsTimecode (hd frames)" "n \<le> length frames" "offset fd = length (content fd)"
    "costs frames + 100 < 2 ^ 28"
  shows "flush_loop n frames cueTime t (cluster_children t []) fd \<noteq> None"
proof (cases n)
  case (Suc m)
  then show ?thesis
    using flush_loop_succeeds [of m "tl frames" fd "[hd frames]" t] flush_loop_first [OF assms(1,2)] assms
    by (cases frames) (simp_all del: flush_loop.simps not_None_eq)
qed simp

text \<open>The frames that a flush leaves for the next one.\<close>

definition flush_rest :: "bool \<Rightarrow> frame list \<Rightarrow> frame list" where
  "flush_rest is_last frames =
     (let r = drop (if is_last then length frames else length frames - 2) frames in
      if r \<noteq> [] \<and> mType (hd r) = kVideoType then tl r else r)"

lemma initCluster_start: "frames \<noteq> [] \<Longrightarrow>
    initCluster frames [] = Some (mAbsTimecode (hd frames), cluster_children (mAbsTimecode (hd frames)) [])"
  by (simp add: initCluster_def cluster_children_def Let_def)

lemma flushFrames_groups:
  assumes "flushFrames is_last s = Some s'" "outstandingFrames s \<noteq> []" "offset (mFd s) = length (content (mFd s))"
    "costs (outstandingFrames s) < 2 ^ 62"
  shows "\<exists>gs cueTime. gs \<noteq> [] \<and> list_all group_ok gs
    \<and> concat gs @ flush_rest is_last (outstandingFrames s) = outstandingFrames s
    \<and> s' = s\<lparr> outstandingFrames := flush_rest is_last (outstandingFrames s),
        mFd := append_bytes (groups_bytes gs) (mFd s),
        mCues := mCues s @ [CuePointEntry cueTime 1 (of_nat (offset (mFd s)) - mSegmentDataStart s)] \<rparr>"
proof -
  define frames where "frames = outstandingFrames s"
  define n where "n = (if is_last then length frames else length frames - 2)"
  define t where "t = mAbsTimecode (hd frames)"
  have ne: "frames \<noteq> []" using assms(2) by (simp add: frames_def)
  obtain r c t' children fd where loop: "flush_loop n frames t t (cluster_children t []) (mFd s) = Some (r, c, t', children, fd)"
    and out: "(let (r', children) = (if r \<noteq> [] \<and> mType (hd r) = kVideoType
           then (tl r, children @ [SimpleBlock (hd r) t']) else (r, children)) in
        do { (_, fd) \<leftarrow> writeCluster children fd;
             Some (s\<lparr> outstandingFrames := r', mFd := fd,
               mCues := mCues s @ [CuePointEntry c 1 (of_nat (offset (mFd s)) - mSegmentDataStart s)] \<rparr>) }) = Some s'"
    using assms(1) ne unfolding flushFrames_def frames_def [symmetric] Let_def n_def t_def
    by (auto simp: initCluster_start split: bind_splits if_splits)
  have n: "n \<le> length frames" by (simp add: n_def)
  obtain gs g where gs: "r = drop n frames" "children = cluster_children t' g" "concat gs @ g = take n frames"
      "list_all group_ok gs" "open_group g t' \<or> g = [] \<and> n = 0 \<and> t' = t" "fd = append_bytes (groups_bytes gs) (mFd s)"
    using flush_loop_start [OF loop ne _ n assms(3)] assms(4) by (auto simp: t_def frames_def)
  define extra where "extra = (if r \<noteq> [] \<and> mType (hd r) = kVideoType then [hd r] else [])"
  define G where "G = g @ extra"
  have rest: "flush_rest is_last frames = (if r \<noteq> [] \<and> mType (hd r) = kVideoType then tl r else r)"
    by (simp add: flush_rest_def gs(1) n_def Let_def)
  have split: "concat gs @ G @ flush_rest is_last frames = frames"
    using gs(1,3) append_take_drop_id [of n frames] unfolding G_def extra_def rest
    by (cases "drop n frames") (simp_all flip: append_assoc, simp)
  have "costs (concat gs @ G @ flush_rest is_last frames) < 2 ^ 62"
    unfolding split using assms(4) by (simp add: frames_def)
  then have small: "costs G < 2 ^ 62" by simp
  obtain ch fd' where w: "writeCluster (cluster_children t' G) fd = Some (ch, fd')"
    and s': "s' = s\<lparr> outstandingFrames := flush_rest is_last frames, mFd := fd',
        mCues := mCues s @ [CuePointEntry c 1 (of_nat (offset (mFd s)) - mSegmentDataStart s)] \<rparr>"
    using out unfolding rest G_def extra_def gs(2)
    by (auto simp: children_snoc split: bind_splits if_splits)
  have wf: "offset fd = length (content fd)" using gs(6) by simp
  have G: "G \<noteq> []" "fd' = append_bytes (bytes_of (WebmMaster kMkvCluster (cluster_children t' G))) fd"
    using writeCluster_Some [OF w small wf] by simp_all
  have t': "t' = mAbsTimecode (hd G)" and ok: "group_ok G"
  proof -
    have "group_ok G \<and> t' = mAbsTimecode (hd G)"
      using gs(5)
    proof
      assume "open_group g t'"
      then show ?thesis
        using open_group_ok open_group_last [of g t'] by (auto simp: G_def extra_def open_group_def)
    next
      assume "g = [] \<and> n = 0 \<and> t' = t"
      then show ?thesis
        using G(1) gs(1) by (auto simp: G_def extra_def group_ok_def t_def split: if_splits)
    qed
    then show "t' = mAbsTimecode (hd G)" "group_ok G" by simp_all
  qed
  show ?thesis
  proof (intro exI conjI)
    show "gs @ [G] \<noteq> []" by simp
    show "list_all group_ok (gs @ [G])" using gs(4) ok by simp
    show "concat (gs @ [G]) @ flush_rest is_last (outstandingFrames s) = outstandingFrames s"
      using split by (simp add: frames_def)
    show "s' = s\<lparr> outstandingFrames := flush_rest is_last (outstandingFrames s),
        mFd := append_bytes (groups_bytes (gs @ [G])) (mFd s),
        mCues := mCues s @ [CuePointEntry c 1 (of_nat (offset (mFd s)) - mSegmentDataStart s)] \<rparr>"
      using s' G(2) gs(6) t' by (simp add: cluster_def frames_def)
  qed
qed

lemma flushFrames_succeeds:
  assumes "offset (mFd s) = length (content (mFd s))" "costs (outstandingFrames s) + 100 < 2 ^ 28"
    "is_last \<or> 2 < length (outstandingFrames s)
      \<or> length (outstandingFrames s) = 2 \<and> mType (hd (outstandingFrames s)) = kVideoType"
  shows "flushFrames is_last s \<noteq> None"
proof (cases "outstandingFrames s = []")
  case False
  define frames where "frames = outstandingFrames s"
  define n where "n = (if is_last then length frames else length frames - 2)"
  define t where "t = mAbsTimecode (hd frames)"
  have ne: "frames \<noteq> []" using False by (simp add: frames_def)
  have n: "n \<le> length frames" by (simp add: n_def)
  have cost: "costs frames + 100 < 2 ^ 28" using assms(2) by (simp add: frames_def)
  obtain r c t' children fd where loop: "flush_loop n frames t t (cluster_children t []) (mFd s) = Some (r, c, t', children, fd)"
    using flush_start_succeeds [OF ne t_def n assms(1) cost, of t] by (auto simp: split_paired_all)
  obtain gs g where gs: "r = drop n frames" "children = cluster_children t' g" "concat gs @ g = take n frames"
      "open_group g t' \<or> g = [] \<and> n = 0 \<and> t' = t"
    using flush_loop_start [OF loop ne t_def n assms(1)] cost by auto
  define extra where "extra = (if r \<noteq> [] \<and> mType (hd r) = kVideoType then [hd r] else [])"
  have extra: "(let (r', children) = (if r \<noteq> [] \<and> mType (hd r) = kVideoType
           then (tl r, children @ [SimpleBlock (hd r) t']) else (r, children)) in (r', children))
      = (if r \<noteq> [] \<and> mType (hd r) = kVideoType then tl r else r, cluster_children t' (g @ extra))"
    using gs(2) by (simp add: extra_def children_snoc)
  have "g @ extra \<noteq> []"
  proof (cases "n = 0")
    case True
    then have "r = frames" "mType (hd frames) = kVideoType"
      using gs(1) assms(3) ne by (auto simp: n_def frames_def split: if_splits)
    then show ?thesis using ne by (simp add: extra_def)
  qed (use gs(4) in \<open>auto simp: open_group_def\<close>)
  moreover have "costs (g @ extra) + 100 < 2 ^ 28"
  proof -
    have "costs extra \<le> costs r" by (cases r) (simp_all add: extra_def)
    moreover have "costs (concat gs @ g @ r) = costs frames"
      using gs(1,3) append_take_drop_id [of n frames] by (metis append_assoc)
    ultimately show ?thesis using cost by simp
  qed
  ultimately have w: "writeCluster (cluster_children t' (g @ extra)) fd \<noteq> None"
    by (rule writeCluster_succeeds)
  have two: "\<not> is_last \<Longrightarrow> 2 \<le> length frames" using assms(3) by (auto simp: frames_def)
  show ?thesis
    using loop w ne two extra
    unfolding flushFrames_def frames_def [symmetric] Let_def n_def t_def
    by (auto simp: initCluster_start split: bind_splits if_splits)
qed (simp add: flushFrames_def)

section \<open>An invariant of every interleaving\<close>

abbreviation is_video :: "frame \<Rightarrow> bool" where
  "is_video f \<equiv> mType f = kVideoType"

abbreviation is_key :: "frame \<Rightarrow> bool" where
  "is_key f \<equiv> is_video f \<and> mKey f"

definition pushed_video :: "event list \<Rightarrow> frame list" where
  "pushed_video evs = concat (map (\<lambda>e. case e of Push_video f \<Rightarrow> [f] | _ \<Rightarrow> []) evs)"

definition pushed_audio :: "event list \<Rightarrow> frame list" where
  "pushed_audio evs = concat (map (\<lambda>e. case e of Push_audio f \<Rightarrow> [f] | _ \<Rightarrow> []) evs)"

text \<open>The source threads push frames of their own type and ends of stream.\<close>

definition typed_pushes :: "event list \<Rightarrow> bool" where
  "typed_pushes evs \<longleftrightarrow> list_all (\<lambda>f. mEos f \<or> is_video f) (pushed_video evs)
    \<and> list_all (\<lambda>f. mEos f \<or> \<not> is_video f) (pushed_audio evs)"

text \<open>A cue point of a cluster in the file.\<close>

definition cue_ok :: "byte list \<Rightarrow> u64 \<Rightarrow> frame list list \<Rightarrow> element \<Rightarrow> bool" where
  "cue_ok written start gs cue \<longleftrightarrow> (\<exists>k t. k < length gs
    \<and> cue = CuePointEntry t 1 (of_nat (length (written @ groups_bytes (take k gs))) - start))"

text \<open>
  The frames of the groups in the file and the outstanding ones are what was taken from the queues,
  in the order of either queue.
\<close>

definition taken_frames :: "frame list list \<Rightarrow> sink \<Rightarrow> frame list" where
  "taken_frames gs s = concat gs @ outstandingFrames s"

definition sink_core :: "byte list \<Rightarrow> u64 \<Rightarrow> event list \<Rightarrow> frame list list \<Rightarrow> sink \<Rightarrow> bool" where
  "sink_core written start evs gs s \<longleftrightarrow>
     content (mFd s) = written @ groups_bytes gs \<and> offset (mFd s) = length (content (mFd s))
     \<and> mSegmentDataStart s = start \<and> list_all group_ok gs \<and> list_all (cue_ok written start gs) (mCues s)
     \<and> pushed_video evs = filter is_video (taken_frames gs s) @ mVideoFrames s
     \<and> pushed_audio evs = filter (\<lambda>f. \<not> is_video f) (taken_frames gs s) @ mAudioFrames s
     \<and> list_all (\<lambda>f. \<not> mEos f) (taken_frames gs s)"

definition key_frames :: "sink \<Rightarrow> nat" where
  "key_frames s = length (filter is_key (outstandingFrames s))"

definition sink_inv :: "byte list \<Rightarrow> u64 \<Rightarrow> event list \<Rightarrow> frame list list \<Rightarrow> sink \<Rightarrow> bool" where
  "sink_inv written start evs gs s \<longleftrightarrow> sink_core written start evs gs s
     \<and> (case point s of
          Returned \<Rightarrow> outstandingFrames s = []
        | Wait_audio f \<Rightarrow> mVideoFrames s \<noteq> [] \<and> f = hd (mVideoFrames s)
            \<and> numVideoKeyFrames s = int (key_frames s) \<and> key_frames s \<le> 1
        | _ \<Rightarrow> numVideoKeyFrames s = int (key_frames s) \<and> key_frames s \<le> 1)"

lemma cue_ok_mono:
  assumes "cue_ok written start gs cue"
  shows "cue_ok written start (gs @ hs) cue"
proof -
  obtain k t where "k < length gs"
      "cue = CuePointEntry t 1 (of_nat (length (written @ groups_bytes (take k gs))) - start)"
    using assms by (auto simp: cue_ok_def)
  then show ?thesis unfolding cue_ok_def by (intro exI [of _ k] exI [of _ t]) simp
qed

lemma flushFrames_frame:
  assumes "flushFrames is_last s = Some s'"
  shows "mVideoFrames s' = mVideoFrames s" "mAudioFrames s' = mAudioFrames s" "mDone s' = mDone s"
    "numVideoKeyFrames s' = numVideoKeyFrames s" "point s' = point s"
  using assms by (auto simp: flushFrames_def Let_def split: bind_splits if_splits)

lemma flush_core:
  assumes "sink_core written start evs gs s" "flushFrames is_last s = Some s'" "costs (outstandingFrames s) < 2 ^ 62"
    "outstandingFrames s \<noteq> []"
  shows "\<exists>hs. sink_core written start evs (gs @ hs) s' \<and> taken_frames (gs @ hs) s' = taken_frames gs s
    \<and> outstandingFrames s' = flush_rest is_last (outstandingFrames s)"
proof -
  obtain hs t where hs: "hs \<noteq> []" "list_all group_ok hs" "concat hs @ flush_rest is_last (outstandingFrames s) = outstandingFrames s"
      "s' = s\<lparr> outstandingFrames := flush_rest is_last (outstandingFrames s),
        mFd := append_bytes (groups_bytes hs) (mFd s),
        mCues := mCues s @ [CuePointEntry t 1 (of_nat (offset (mFd s)) - mSegmentDataStart s)] \<rparr>"
    using flushFrames_groups [OF assms(2,4) _ assms(3)] assms(1) by (auto simp: sink_core_def)
  have taken: "taken_frames (gs @ hs) s' = taken_frames gs s" using hs(3,4) by (simp add: taken_frames_def)
  have "cue_ok written start (gs @ hs) (CuePointEntry t 1 (of_nat (offset (mFd s)) - mSegmentDataStart s))"
    unfolding cue_ok_def using assms(1) hs(1)
    by (intro exI [of _ "length gs"] exI [of _ t]) (simp add: sink_core_def)
  then have "sink_core written start evs (gs @ hs) s'"
    using assms(1) hs(2,4) cue_ok_mono taken unfolding sink_core_def taken
    by (auto simp: list_all_iff)
  then show ?thesis using hs(4) taken by auto
qed

lemma costs_filter: "costs fs = costs (filter P fs) + costs (filter (\<lambda>f. \<not> P f) fs)"
  by (induction fs) auto

lemma costs_taken:
  assumes "sink_core written start evs gs s"
  shows "costs (taken_frames gs s) \<le> costs (pushed_video evs) + costs (pushed_audio evs)"
    "costs (outstandingFrames s) \<le> costs (pushed_video evs) + costs (pushed_audio evs)"
proof -
  show "costs (taken_frames gs s) \<le> costs (pushed_video evs) + costs (pushed_audio evs)"
    using assms costs_filter [of "taken_frames gs s" is_video] by (simp add: sink_core_def)
  then show "costs (outstandingFrames s) \<le> costs (pushed_video evs) + costs (pushed_audio evs)"
    by (simp add: taken_frames_def)
qed

lemma sink_core_point [simp]:
  "sink_core written start evs gs (s\<lparr> point := p \<rparr>) = sink_core written start evs gs s"
  "sink_core written start evs gs (s\<lparr> mDone := d \<rparr>) = sink_core written start evs gs s"
  "sink_core written start evs gs (s\<lparr> numVideoKeyFrames := n \<rparr>) = sink_core written start evs gs s"
  by (simp_all add: sink_core_def taken_frames_def)

lemma flush_rest_last [simp]: "flush_rest True frames = []"
  by (simp add: flush_rest_def)

lemma finish_inv:
  assumes "sink_core written start evs gs s" "finish s = Some s'" "costs (outstandingFrames s) < 2 ^ 62"
  shows "\<exists>hs. sink_inv written start evs (gs @ hs) s' \<and> taken_frames (gs @ hs) s' = taken_frames gs s
    \<and> mVideoFrames s' = mVideoFrames s \<and> mAudioFrames s' = mAudioFrames s"
proof (cases "outstandingFrames s = []")
  case True
  then have "s' = s\<lparr> mDone := True, point := Returned \<rparr>"
    using assms(2) by (auto simp: finish_def flushFrames_def)
  then show ?thesis using assms(1) True by (intro exI [of _ "[]"]) (simp add: sink_inv_def taken_frames_def)
next
  case False
  obtain s1 where s1: "flushFrames True s = Some s1" "s' = s1\<lparr> mDone := True, point := Returned \<rparr>"
    using assms(2) by (auto simp: finish_def split: bind_splits)
  obtain hs where "sink_core written start evs (gs @ hs) s1" "taken_frames (gs @ hs) s1 = taken_frames gs s"
      "outstandingFrames s1 = []"
    using flush_core [OF assms(1) s1(1) assms(3) False] by auto
  then show ?thesis
    using s1(2) flushFrames_frame [OF s1(1)] by (intro exI [of _ hs]) (simp add: sink_inv_def taken_frames_def)
qed

text \<open>Which frame is taken, and that neither kind is taken at its end of stream.\<close>

lemma take_frame_core:
  assumes "sink_core written start evs gs s" "typed_pushes evs" "mVideoFrames s \<noteq> []" "mAudioFrames s \<noteq> []"
    "\<not> (mEos (hd (mVideoFrames s)) \<and> mEos (hd (mAudioFrames s)))" "numVideoKeyFrames s = int (key_frames s)"
    "s1 = take_frame (hd (mVideoFrames s)) (hd (mAudioFrames s)) s"
  shows "sink_core written start evs gs s1 \<and> numVideoKeyFrames s1 = int (key_frames s1)
    \<and> (\<exists>f. outstandingFrames s1 = outstandingFrames s @ [f] \<and> f \<in> {hd (mVideoFrames s), hd (mAudioFrames s)})
    \<and> key_frames s1 \<le> key_frames s + of_bool (is_key (List.last (outstandingFrames s1)))"
proof -
  obtain v vs a as where q: "mVideoFrames s = v # vs" "mAudioFrames s = a # as"
    using assms(3,4) by (meson neq_Nil_conv)
  have pv: "pushed_video evs = filter is_video (taken_frames gs s) @ v # vs"
    and pa: "pushed_audio evs = filter (\<lambda>f. \<not> is_video f) (taken_frames gs s) @ a # as"
    using assms(1) q by (simp_all add: sink_core_def)
  have types: "mEos v \<or> is_video v" "mEos a \<or> \<not> is_video a"
    using assms(2) unfolding typed_pushes_def pv pa by simp_all
  show ?thesis
  proof (cases "a < v")
    case True
    then have "\<not> mEos a" by (simp add: less_frame_ext_def frame_less_def split: if_splits)
    then show ?thesis
      using assms(1,6,7) True q types(2) pv pa
      by (simp add: take_frame_def sink_core_def taken_frames_def key_frames_def)
  next
    case False
    then have "\<not> mEos v" using assms(5) q by (auto simp: less_frame_ext_def frame_less_def split: if_splits)
    then show ?thesis
      using assms(1,6,7) False q types(1) pv pa
      by (simp add: take_frame_def sink_core_def taken_frames_def key_frames_def)
  qed
qed

text \<open>What is left after a second key frame: that frame, and an audio frame just before it.\<close>

lemma flush_rest_keys:
  assumes "length (filter is_key frames) = 2" "is_key (List.last frames)"
  shows "length (filter is_key (flush_rest False frames)) = 1"
    "2 < length frames \<or> length frames = 2 \<and> is_video (hd frames)"
proof -
  have "length (filter is_key frames) \<le> length frames" by (rule length_filter_le)
  then obtain pre x y where f: "frames = pre @ [x, y]"
    using assms(1) by (cases frames rule: rev_cases; simp) (metis append_butlast_last_id length_greater_0_conv
      Suc_1 length_Suc_conv list.size(3) not_less_eq_eq numeral_2_eq_2 zero_less_Suc le_zero_eq)
  have d: "drop (length frames - 2) frames = [x, y]" by (simp add: f)
  show "length (filter is_key (flush_rest False frames)) = 1"
    using assms(2) unfolding flush_rest_def by (simp add: d Let_def) (simp add: f)
  show "2 < length frames \<or> length frames = 2 \<and> is_video (hd frames)"
    using assms(1) by (cases pre) (auto simp: f split: if_splits)
qed

lemma sink_wait_inv:
  assumes "sink_core written start evs gs s" "numVideoKeyFrames s = int (key_frames s)" "key_frames s \<le> 1"
  shows "sink_inv written start evs gs (s\<lparr> point := At_test \<rparr>)" "sink_inv written start evs gs (s\<lparr> point := Wait_video \<rparr>)"
    "mVideoFrames s \<noteq> [] \<Longrightarrow> sink_inv written start evs gs (s\<lparr> point := Wait_audio (hd (mVideoFrames s)) \<rparr>)"
  using assms by (simp_all add: sink_inv_def key_frames_def)

text \<open>What a step does to the taken frames and the queues.\<close>

definition step_effect :: "frame list \<Rightarrow> sink \<Rightarrow> frame list \<Rightarrow> sink \<Rightarrow> bool" where
  "step_effect fs s fs' s' \<longleftrightarrow>
     fs' = fs \<and> mVideoFrames s' = mVideoFrames s \<and> mAudioFrames s' = mAudioFrames s
     \<or> (\<exists>v vs a as. mVideoFrames s = v # vs \<and> mAudioFrames s = a # as \<and> \<not> (mEos v \<and> mEos a)
        \<and> (if a < v then fs' = fs @ [a] \<and> mVideoFrames s' = v # vs \<and> mAudioFrames s' = as
           else fs' = fs @ [v] \<and> mVideoFrames s' = vs \<and> mAudioFrames s' = a # as))"

lemma step_effect_same:
  "mVideoFrames s' = mVideoFrames s \<Longrightarrow> mAudioFrames s' = mAudioFrames s \<Longrightarrow> step_effect fs s fs s'"
  by (simp add: step_effect_def)

lemma step_effect_take:
  assumes "mVideoFrames s \<noteq> []" "mAudioFrames s \<noteq> []" "\<not> (mEos (hd (mVideoFrames s)) \<and> mEos (hd (mAudioFrames s)))"
    "s1 = take_frame (hd (mVideoFrames s)) (hd (mAudioFrames s)) s"
    "mVideoFrames s' = mVideoFrames s1" "mAudioFrames s' = mAudioFrames s1"
  shows "step_effect (taken_frames gs s) s (taken_frames gs s1) s'"
proof -
  obtain v vs a as where "mVideoFrames s = v # vs" "mAudioFrames s = a # as"
    using assms(1,2) by (meson neq_Nil_conv)
  then show ?thesis using assms(3-6) by (auto simp: step_effect_def take_frame_def taken_frames_def)
qed

lemma taken_frames_update [simp]:
  "taken_frames gs (s\<lparr> point := p \<rparr>) = taken_frames gs s" "taken_frames gs (s\<lparr> numVideoKeyFrames := n \<rparr>) = taken_frames gs s"
  by (simp_all add: taken_frames_def)

lemma run_step_inv:
  assumes inv: "sink_inv written start evs gs s" and typed: "typed_pushes evs" and run: "run_step s = Some s'"
    and cost: "costs (pushed_video evs) + costs (pushed_audio evs) < 2 ^ 62"
  shows "\<exists>hs. sink_inv written start evs (gs @ hs) s' \<and> step_effect (taken_frames gs s) s (taken_frames (gs @ hs) s') s'"
proof (cases "point s")
  case At_test
  have core: "sink_core written start evs gs s" using inv by (simp add: sink_inv_def)
  show ?thesis
  proof (cases "mDone s")
    case True
    then show ?thesis
      using run At_test finish_inv [OF core, of s'] costs_taken(2) [OF core] cost by (auto simp: run_step_def step_effect_same)
  next
    case False
    then show ?thesis
      using run At_test inv sink_wait_inv(2) [OF core] by (intro exI [of _ "[]"]) (auto simp: run_step_def sink_inv_def step_effect_same)
  qed
next
  case Wait_video
  then show ?thesis
    using run inv by (intro exI [of _ "[]"]) (auto simp: run_step_def sink_inv_def key_frames_def step_effect_same split: if_splits)
next
  case Returned
  then show ?thesis using run inv by (intro exI [of _ "[]"]) (simp add: run_step_def step_effect_same)
next
  case (Wait_audio v)
  have core: "sink_core written start evs gs s" and v: "mVideoFrames s \<noteq> []" "v = hd (mVideoFrames s)"
    and keys: "numVideoKeyFrames s = int (key_frames s)" "key_frames s \<le> 1"
    using inv Wait_audio by (simp_all add: sink_inv_def)
  show ?thesis
  proof (cases "mAudioFrames s = []")
    case True
    then show ?thesis using run inv Wait_audio by (intro exI [of _ "[]"]) (simp add: run_step_def step_effect_same)
  next
    case a: False
    show ?thesis
    proof (cases "mEos v \<and> mEos (hd (mAudioFrames s))")
      case True
      then show ?thesis
        using run Wait_audio a finish_inv [OF core, of s'] costs_taken(2) [OF core] cost
        by (auto simp: run_step_def Let_def step_effect_same)
    next
      case False
      define s1 where "s1 = take_frame v (hd (mAudioFrames s)) s"
      have t: "sink_core written start evs gs s1" "numVideoKeyFrames s1 = int (key_frames s1)"
          "outstandingFrames s1 \<noteq> []" "key_frames s1 \<le> key_frames s + of_bool (is_key (List.last (outstandingFrames s1)))"
        using take_frame_core [OF core typed v(1) a _ keys(1) s1_def [unfolded v(2)]] False v(2) by auto
      note effect = step_effect_take [OF v(1) a _ s1_def [unfolded v(2)], of s' gs] False [unfolded v(2)]
      show ?thesis
      proof (cases "key_frames s1 = 2")
        case two: True
        obtain s2 where s2: "flushFrames False s1 = Some s2"
            "s' = s2\<lparr> numVideoKeyFrames := numVideoKeyFrames s2 - 1, point := At_test \<rparr>"
          using run Wait_audio a False two t(2) unfolding run_step_def s1_def [symmetric]
          by (auto simp: Let_def s1_def [symmetric] split: bind_splits)
        obtain hs where hs: "sink_core written start evs (gs @ hs) s2" "taken_frames (gs @ hs) s2 = taken_frames gs s1"
            "outstandingFrames s2 = flush_rest False (outstandingFrames s1)"
          using flush_core [OF t(1) s2(1) _ t(3)] costs_taken(2) [OF t(1)] cost by auto
        note same = flushFrames_frame [OF s2(1)]
        have last: "is_key (List.last (outstandingFrames s1))"
          using t(4) two keys(2) by (cases "is_key (List.last (outstandingFrames s1))") auto
        have "key_frames s2 = 1"
          using flush_rest_keys(1) [OF _ last] two by (simp add: key_frames_def hs(3))
        then have "sink_inv written start evs (gs @ hs) (s2\<lparr> numVideoKeyFrames := numVideoKeyFrames s2 - 1, point := At_test \<rparr>)"
          using hs(1) t(2) two same(4) by (intro sink_wait_inv(1)) (simp_all add: key_frames_def)
        then show ?thesis using s2(2) hs(2) same effect by (intro exI [of _ hs]) simp
      next
        case False2: False
        then have "s' = s1\<lparr> point := At_test \<rparr>"
          using run Wait_audio a False t(2) unfolding run_step_def s1_def [symmetric]
          by (auto simp: Let_def s1_def [symmetric] split: bind_splits)
        moreover have "key_frames s1 \<le> 1" using t(4) keys(2) False2
          by (cases "is_key (List.last (outstandingFrames s1))") auto
        ultimately show ?thesis
          using sink_wait_inv(1) [OF t(1,2)] effect by (intro exI [of _ "[]"]) simp
      qed
    qed
  qed
qed

text \<open>A step has a value as long as the outstanding frames fit into a cluster.\<close>

lemma finish_succeeds:
  "sink_core written start evs gs s \<Longrightarrow> costs (outstandingFrames s) + 100 < 2 ^ 28 \<Longrightarrow> finish s \<noteq> None"
  using flushFrames_succeeds [of s True] by (auto simp: finish_def sink_core_def)

lemma run_step_succeeds:
  assumes inv: "sink_inv written start evs gs s" and typed: "typed_pushes evs"
    and cost: "costs (outstandingFrames s @ take 1 (mVideoFrames s) @ take 1 (mAudioFrames s)) + 100 < 2 ^ 28"
  shows "run_step s \<noteq> None"
proof -
  have core: "sink_core written start evs gs s" using inv by (simp add: sink_inv_def)
  have fin: "finish s \<noteq> None" using finish_succeeds [OF core] cost by simp
  show ?thesis
  proof (cases "point s")
    case (Wait_audio v)
    have v: "mVideoFrames s \<noteq> []" "v = hd (mVideoFrames s)"
      and keys: "numVideoKeyFrames s = int (key_frames s)" "key_frames s \<le> 1"
      using inv Wait_audio by (simp_all add: sink_inv_def)
    show ?thesis
    proof (cases "mAudioFrames s = [] \<or> mEos v \<and> mEos (hd (mAudioFrames s))")
      case True
      then show ?thesis using Wait_audio fin by (auto simp: run_step_def Let_def)
    next
      case False
      define s1 where "s1 = take_frame v (hd (mAudioFrames s)) s"
      have t: "sink_core written start evs gs s1" "numVideoKeyFrames s1 = int (key_frames s1)"
          "key_frames s1 \<le> key_frames s + of_bool (is_key (List.last (outstandingFrames s1)))"
        and f: "\<exists>f. outstandingFrames s1 = outstandingFrames s @ [f] \<and> f \<in> {v, hd (mAudioFrames s)}"
        using take_frame_core [OF core typed v(1) _ _ keys(1) s1_def [unfolded v(2)]] False v(2) by auto
      have "take 1 (mVideoFrames s) = [v]" "take 1 (mAudioFrames s) = [hd (mAudioFrames s)]"
        using v False by (cases "mVideoFrames s"; cases "mAudioFrames s"; simp)+
      then have c: "costs (outstandingFrames s1) + 100 < 2 ^ 28" using f cost by auto
      have "flushFrames False s1 \<noteq> None" if "numVideoKeyFrames s1 = 2"
      proof -
        have two: "key_frames s1 = 2" using that t(2) by simp
        then have "is_key (List.last (outstandingFrames s1))"
          using t(3) keys(2) by (cases "is_key (List.last (outstandingFrames s1))") auto
        then show ?thesis
          using flushFrames_succeeds [of s1 False] flush_rest_keys(2) [of "outstandingFrames s1"] t(1) c two
          by (simp add: sink_core_def key_frames_def)
      qed
      then show ?thesis
        using Wait_audio False unfolding run_step_def by (auto simp: Let_def s1_def [symmetric])
    qed
  qed (use fin in \<open>auto simp: run_step_def\<close>)
qed

section \<open>Traces\<close>

lemma pushed_simps [simp]:
  "pushed_video [] = []" "pushed_audio [] = []"
  "pushed_video (evs @ evs') = pushed_video evs @ pushed_video evs'"
  "pushed_audio (evs @ evs') = pushed_audio evs @ pushed_audio evs'"
  "pushed_video [Push_video f] = [f]" "pushed_audio [Push_video f] = []"
  "pushed_video [Push_audio f] = []" "pushed_audio [Push_audio f] = [f]"
  "pushed_video [Set_done] = []" "pushed_audio [Set_done] = []"
  "pushed_video [Sink_runs] = []" "pushed_audio [Sink_runs] = []"
  by (simp_all add: pushed_video_def pushed_audio_def)

lemma typed_pushes_append: "typed_pushes (evs @ evs') \<Longrightarrow> typed_pushes evs"
  by (simp add: typed_pushes_def)

lemma sink_inv_push:
  assumes "sink_inv written start evs gs s"
  shows "sink_inv written start (evs @ [Push_video f]) gs (s\<lparr> mVideoFrames := mVideoFrames s @ [f] \<rparr>)"
    "sink_inv written start (evs @ [Push_audio f]) gs (s\<lparr> mAudioFrames := mAudioFrames s @ [f] \<rparr>)"
    "sink_inv written start (evs @ [Set_done]) gs (s\<lparr> mDone := True \<rparr>)"
    "sink_inv written start (evs @ [Sink_runs]) gs s"
  using assms by (auto simp: sink_inv_def sink_core_def taken_frames_def key_frames_def split: point.splits)

definition total_cost :: "event list \<Rightarrow> nat" where
  "total_cost evs = costs (pushed_video evs) + costs (pushed_audio evs)"

lemma started_sink_inv: "sink_inv written start [] [] (started_sink written start)"
  by (simp add: sink_inv_def sink_core_def started_sink_def taken_frames_def key_frames_def)

lemma sink_trace_inv:
  assumes "sink_trace s0 evs s" "s0 = started_sink written start" "typed_pushes evs" "total_cost evs < 2 ^ 62"
  shows "\<exists>gs. sink_inv written start evs gs s"
  using assms
proof (induction rule: sink_trace.induct)
  case (started s)
  then show ?case using started_sink_inv by blast
next
  case (continued s0 evs s' e s'')
  have small: "total_cost evs < 2 ^ 62" using continued.prems(3) by (simp add: total_cost_def)
  obtain gs where gs: "sink_inv written start evs gs s'"
    using continued.IH continued.prems(1) typed_pushes_append [OF continued.prems(2)] small by blast
  from continued.hyps(2) show ?case
  proof cases
    case sink_runs
    obtain hs where "sink_inv written start evs (gs @ hs) s''"
      using run_step_inv [OF gs typed_pushes_append [OF continued.prems(2)] sink_runs(2)] small
      by (auto simp: total_cost_def)
    then show ?thesis using sink_inv_push(4) sink_runs(1) by blast
  qed (use gs sink_inv_push in blast)+
qed

text \<open>The frames taken are in the order of their timecodes when either stream is.\<close>

definition in_order :: "event list \<Rightarrow> bool" where
  "in_order evs \<longleftrightarrow> sorted (map mAbsTimecode (pushed_video evs)) \<and> sorted (map mAbsTimecode (pushed_audio evs))
    \<and> (\<forall>f\<in>set (pushed_video evs @ pushed_audio evs). mEos f \<longrightarrow> mAbsTimecode f = - 1)"

definition ordered :: "frame list \<Rightarrow> sink \<Rightarrow> bool" where
  "ordered fs s \<longleftrightarrow> sorted (map mAbsTimecode fs)
    \<and> (\<forall>f\<in>set fs. \<forall>h\<in>set (mVideoFrames s @ mAudioFrames s). mAbsTimecode f \<le> mAbsTimecode h)
    \<and> (mVideoFrames s = [] \<longrightarrow> fs = [] \<or> is_video (List.last fs))
    \<and> (mAudioFrames s = [] \<longrightarrow> fs = [] \<or> \<not> is_video (List.last fs))"

lemma sorted_last: "sorted (map g xs) \<Longrightarrow> x \<in> set xs \<Longrightarrow> g x \<le> g (List.last xs)" for g :: "'a \<Rightarrow> 'b::linorder"
  by (induction xs) (auto split: if_splits)

lemma ordered_push_video:
  assumes "ordered fs s" "sorted (map mAbsTimecode (filter is_video fs @ mVideoFrames s @ [f]))"
  shows "ordered fs (s\<lparr> mVideoFrames := mVideoFrames s @ [f] \<rparr>)"
proof -
  have "mAbsTimecode x \<le> mAbsTimecode f" if x: "x \<in> set fs" for x
  proof (cases "mVideoFrames s = []")
    case True
    then have "is_video (List.last fs)" "fs \<noteq> []" using assms(1) x by (auto simp: ordered_def)
    then have "mAbsTimecode (List.last fs) \<le> mAbsTimecode f"
      using assms(2) True by (auto simp: sorted_append)
    then show ?thesis using sorted_last [of mAbsTimecode fs x] assms(1) x by (auto simp: ordered_def)
  next
    case False
    then obtain h where "h \<in> set (mVideoFrames s)" by (meson list.set_sel(1))
    then have "mAbsTimecode x \<le> mAbsTimecode h" "mAbsTimecode h \<le> mAbsTimecode f"
      using assms x by (auto simp: ordered_def sorted_append)
    then show ?thesis by simp
  qed
  then show ?thesis using assms(1) by (auto simp: ordered_def)
qed

lemma ordered_push_audio:
  assumes "ordered fs s" "sorted (map mAbsTimecode (filter (\<lambda>f. \<not> is_video f) fs @ mAudioFrames s @ [f]))"
  shows "ordered fs (s\<lparr> mAudioFrames := mAudioFrames s @ [f] \<rparr>)"
proof -
  have "mAbsTimecode x \<le> mAbsTimecode f" if x: "x \<in> set fs" for x
  proof (cases "mAudioFrames s = []")
    case True
    then have "\<not> is_video (List.last fs)" "fs \<noteq> []" using assms(1) x by (auto simp: ordered_def)
    then have "mAbsTimecode (List.last fs) \<le> mAbsTimecode f"
      using assms(2) True by (auto simp: sorted_append)
    then show ?thesis using sorted_last [of mAbsTimecode fs x] assms(1) x by (auto simp: ordered_def)
  next
    case False
    then obtain h where "h \<in> set (mAudioFrames s)" by (meson list.set_sel(1))
    then have "mAbsTimecode x \<le> mAbsTimecode h" "mAbsTimecode h \<le> mAbsTimecode f"
      using assms x by (auto simp: ordered_def sorted_append)
    then show ?thesis by simp
  qed
  then show ?thesis using assms(1) by (auto simp: ordered_def)
qed

lemma timecode_le_max: "mAbsTimecode f \<le> (- 1)"
  by simp

lemma ordered_step:
  assumes "ordered fs s" "step_effect fs s fs' s'"
    "sorted (map mAbsTimecode (mVideoFrames s))" "sorted (map mAbsTimecode (mAudioFrames s))"
    "\<forall>f\<in>set (mVideoFrames s). (mEos f \<longrightarrow> mAbsTimecode f = - 1) \<and> (mEos f \<or> is_video f)"
    "\<forall>f\<in>set (mAudioFrames s). (mEos f \<longrightarrow> mAbsTimecode f = - 1) \<and> (mEos f \<or> \<not> is_video f)"
  shows "ordered fs' s'"
proof (cases "fs' = fs \<and> mVideoFrames s' = mVideoFrames s \<and> mAudioFrames s' = mAudioFrames s")
  case True
  then show ?thesis using assms(1) by (simp add: ordered_def)
next
  case False
  then obtain v vs a as where q: "mVideoFrames s = v # vs" "mAudioFrames s = a # as" "\<not> (mEos v \<and> mEos a)"
    and eff: "if a < v then fs' = fs @ [a] \<and> mVideoFrames s' = v # vs \<and> mAudioFrames s' = as
           else fs' = fs @ [v] \<and> mVideoFrames s' = vs \<and> mAudioFrames s' = a # as"
    using assms(2) by (auto simp: step_effect_def)
  have sorted_fs: "sorted (map mAbsTimecode fs)"
    and up: "\<forall>f\<in>set fs. \<forall>h\<in>set ((v # vs) @ a # as). mAbsTimecode f \<le> mAbsTimecode h"
    using assms(1) q by (simp_all add: ordered_def)
  have vs: "\<forall>h\<in>set vs. mAbsTimecode v \<le> mAbsTimecode h" and as: "\<forall>h\<in>set as. mAbsTimecode a \<le> mAbsTimecode h"
    using assms(3,4) q by simp_all
  show ?thesis
  proof (cases "a < v")
    case True
    then have "\<not> mEos a" and "mEos v \<or> mAbsTimecode a \<le> mAbsTimecode v"
      by (auto simp: less_frame_ext_def frame_less_def split: if_splits)
    then have "mAbsTimecode a \<le> mAbsTimecode v" "\<not> is_video a" using assms(5,6) q by auto
    then show ?thesis
      using eff True sorted_fs up vs as by (auto simp: ordered_def sorted_append intro: order_trans)
  next
    case not_less: False
    then have "\<not> mEos v" and "mEos a \<or> mAbsTimecode v \<le> mAbsTimecode a"
      using q(3) by (auto simp: less_frame_ext_def frame_less_def split: if_splits)
    then have "mAbsTimecode v \<le> mAbsTimecode a" "is_video v" using assms(5,6) q by auto
    then show ?thesis
      using eff not_less sorted_fs up vs as by (auto simp: ordered_def sorted_append intro: order_trans)
  qed
qed

lemma in_order_append: "in_order (evs @ evs') \<Longrightarrow> in_order evs"
  unfolding in_order_def by (simp add: sorted_append ball_Un)

lemma queue_facts:
  assumes "sink_core written start evs gs s" "typed_pushes evs" "in_order evs"
  shows "sorted (map mAbsTimecode (filter is_video (taken_frames gs s) @ mVideoFrames s))"
    "sorted (map mAbsTimecode (filter (\<lambda>f. \<not> is_video f) (taken_frames gs s) @ mAudioFrames s))"
    "\<forall>f\<in>set (mVideoFrames s). (mEos f \<longrightarrow> mAbsTimecode f = - 1) \<and> (mEos f \<or> is_video f)"
    "\<forall>f\<in>set (mAudioFrames s). (mEos f \<longrightarrow> mAbsTimecode f = - 1) \<and> (mEos f \<or> \<not> is_video f)"
proof -
  have p: "pushed_video evs = filter is_video (taken_frames gs s) @ mVideoFrames s"
      "pushed_audio evs = filter (\<lambda>f. \<not> is_video f) (taken_frames gs s) @ mAudioFrames s"
    using assms(1) by (simp_all add: sink_core_def)
  have "sorted (map mAbsTimecode (pushed_video evs))" "sorted (map mAbsTimecode (pushed_audio evs))"
    using assms(3) by (simp_all add: in_order_def)
  then show "sorted (map mAbsTimecode (filter is_video (taken_frames gs s) @ mVideoFrames s))"
      "sorted (map mAbsTimecode (filter (\<lambda>f. \<not> is_video f) (taken_frames gs s) @ mAudioFrames s))"
    unfolding p by simp_all
  show "\<forall>f\<in>set (mVideoFrames s). (mEos f \<longrightarrow> mAbsTimecode f = - 1) \<and> (mEos f \<or> is_video f)"
      "\<forall>f\<in>set (mAudioFrames s). (mEos f \<longrightarrow> mAbsTimecode f = - 1) \<and> (mEos f \<or> \<not> is_video f)"
    using assms(2,3) unfolding typed_pushes_def in_order_def p by (simp_all add: list_all_iff)
qed

lemma sink_trace_ordered:
  assumes "sink_trace s0 evs s" "s0 = started_sink written start" "typed_pushes evs" "total_cost evs < 2 ^ 62" "in_order evs"
  shows "\<exists>gs. sink_inv written start evs gs s \<and> ordered (taken_frames gs s) s"
  using assms
proof (induction rule: sink_trace.induct)
  case (started s)
  then show ?case
    using started_sink_inv by (intro exI [of _ "[]"]) (simp add: ordered_def taken_frames_def started_sink_def)
next
  case (continued s0 evs s' e s'')
  have small: "total_cost evs < 2 ^ 62" using continued.prems(3) by (simp add: total_cost_def)
  note typed = typed_pushes_append [OF continued.prems(2)] and order = in_order_append [OF continued.prems(4)]
  obtain gs where gs: "sink_inv written start evs gs s'" "ordered (taken_frames gs s') s'"
    using continued.IH continued.prems(1) typed small order by blast
  then have core: "sink_core written start evs gs s'" by (simp add: sink_inv_def)
  note facts = queue_facts [OF core typed order]
  from continued.hyps(2) show ?case
  proof cases
    case (push_video f)
    then have inv: "sink_inv written start (evs @ [e]) gs s''" using gs(1) sink_inv_push(1) by blast
    have "in_order (evs @ [e])" by (rule continued.prems(4))
    then have "sorted (map mAbsTimecode (filter is_video (taken_frames gs s') @ mVideoFrames s' @ [f]))"
      using core push_video(1) by (simp add: in_order_def sink_core_def)
    from ordered_push_video [OF gs(2) this] inv push_video show ?thesis
      by (intro exI [of _ gs]) (simp add: taken_frames_def)
  next
    case (push_audio f)
    then have inv: "sink_inv written start (evs @ [e]) gs s''" using gs(1) sink_inv_push(2) by blast
    have "in_order (evs @ [e])" by (rule continued.prems(4))
    then have "sorted (map mAbsTimecode (filter (\<lambda>f. \<not> is_video f) (taken_frames gs s') @ mAudioFrames s' @ [f]))"
      using core push_audio(1) by (simp add: in_order_def sink_core_def)
    from ordered_push_audio [OF gs(2) this] inv push_audio show ?thesis
      by (intro exI [of _ gs]) (simp add: taken_frames_def)
  next
    case set_done
    then show ?thesis
      using sink_inv_push(3) [OF gs(1)] gs(2) by (intro exI [of _ gs]) (simp add: taken_frames_def ordered_def)
  next
    case sink_runs
    obtain hs where hs: "sink_inv written start evs (gs @ hs) s''"
        "step_effect (taken_frames gs s') s' (taken_frames (gs @ hs) s'') s''"
      using run_step_inv [OF gs(1) typed sink_runs(2)] small by (auto simp: total_cost_def)
    have "ordered (taken_frames (gs @ hs) s'') s''"
      using facts by (intro ordered_step [OF gs(2) hs(2)]) (simp_all add: sorted_append)
    then show ?thesis using sink_inv_push(4) [OF hs(1)] sink_runs(1) by blast
  qed
qed

text \<open>The timecode that a reader gets for a block: that of the cluster plus the signed 16 bits.\<close>

definition block_time :: "u64 \<Rightarrow> frame \<Rightarrow> int" where
  "block_time t f = uint t + sint (ucast (mAbsTimecode f - t) :: 16 word)"

lemma near_time:
  assumes "near t f" "t \<le> mAbsTimecode f"
  shows "block_time t f = uint (mAbsTimecode f)"
proof -
  define d where "d = mAbsTimecode f - t"
  have small: "uint d \<le> 32767" using assms(1) by (simp add: d_def near_def INT16_MAX_def word_le_def)
  have "0 \<le> uint d" by simp
  with small have "signed_take_bit 15 (uint d) = uint d"
    by (intro signed_take_bit_int_eq_self, simp add: order_trans [of _ 0]) simp
  then have "sint (ucast d :: 16 word) = uint d"
    using small by (simp add: sint_uint unsigned_ucast_eq take_bit_int_eq_self)
  moreover have "uint d = uint (mAbsTimecode f) - uint t"
    using assms(2) by (simp add: d_def uint_minus_simple_alt)
  ultimately show ?thesis by (simp add: block_time_def d_def)
qed

lemma group_times:
  assumes "group_ok g" "sorted (map mAbsTimecode g)" "f \<in> set (butlast g)"
  shows "block_time (mAbsTimecode (hd g)) f = uint (mAbsTimecode f)"
proof -
  have "f \<in> set g" using assms(3) by (rule in_set_butlastD)
  then have "mAbsTimecode (hd g) \<le> mAbsTimecode f" using assms(2) by (cases g) auto
  then show ?thesis using near_time assms(1,3) by (simp add: group_ok_def)
qed

lemma sorted_concat: "sorted (map h (concat xss)) \<Longrightarrow> xs \<in> set xss \<Longrightarrow> sorted (map h xs)"
  by (induction xss) (auto simp: sorted_append)

section \<open>Ending\<close>

fun sink_run :: "nat \<Rightarrow> sink \<Rightarrow> sink option" where
  "sink_run 0 s = Some s"
| "sink_run (Suc n) s = do { s \<leftarrow> run_step s; sink_run n s }"

text \<open>A number that every step makes smaller while both queues have frames.\<close>

definition steps_left :: "sink \<Rightarrow> nat" where
  "steps_left s = (case point s of Returned \<Rightarrow> 0
     | At_test \<Rightarrow> 3 * length (mVideoFrames s @ mAudioFrames s) + 3
     | Wait_video \<Rightarrow> 3 * length (mVideoFrames s @ mAudioFrames s) + 2
     | Wait_audio _ \<Rightarrow> 3 * length (mVideoFrames s @ mAudioFrames s) + 1)"

lemma finish_frame:
  "finish s = Some s' \<Longrightarrow> point s' = Returned \<and> mDone s' \<and> mVideoFrames s' = mVideoFrames s \<and> mAudioFrames s' = mAudioFrames s"
  by (auto simp: finish_def flushFrames_frame split: bind_splits)

lemma take_frame_frame:
  assumes "mVideoFrames s \<noteq> []" "mAudioFrames s \<noteq> []"
  shows "Suc (length (mVideoFrames (take_frame v a s) @ mAudioFrames (take_frame v a s)))
      = length (mVideoFrames s @ mAudioFrames s)" "mDone (take_frame v a s) = mDone s"
  using assms by (cases "mVideoFrames s"; cases "mAudioFrames s"; simp add: take_frame_def)+

lemma run_step_shorter:
  assumes "run_step s = Some s'" "point s \<noteq> Returned" "mVideoFrames s \<noteq> []" "mAudioFrames s \<noteq> []"
  shows "steps_left s' < steps_left s"
proof (cases "point s")
  case At_test
  then show ?thesis using assms(1) finish_frame [of s s'] by (auto simp: run_step_def steps_left_def split: if_splits)
next
  case Wait_video
  then show ?thesis using assms(1,3) by (auto simp: run_step_def steps_left_def)
next
  case (Wait_audio v)
  define s1 where "s1 = take_frame v (hd (mAudioFrames s)) s"
  have s1: "Suc (length (mVideoFrames s1 @ mAudioFrames s1)) = length (mVideoFrames s @ mAudioFrames s)"
    using take_frame_frame(1) [OF assms(3,4)] by (simp add: s1_def)
  show ?thesis
  proof (cases "mEos v \<and> mEos (hd (mAudioFrames s))")
    case True
    then show ?thesis
      using assms(1,4) Wait_audio finish_frame [of s s'] by (auto simp: run_step_def steps_left_def Let_def)
  next
    case False
    then have "point s' = At_test \<and> mVideoFrames s' = mVideoFrames s1 \<and> mAudioFrames s' = mAudioFrames s1"
      using assms(1,4) Wait_audio unfolding run_step_def
      by (auto simp: Let_def flushFrames_frame s1_def [symmetric] split: bind_splits if_splits)
    then show ?thesis using s1 Wait_audio by (simp add: steps_left_def)
  qed
qed (use assms(2) in simp)

definition has_eos :: "frame list \<Rightarrow> bool" where
  "has_eos fs \<longleftrightarrow> (\<exists>f\<in>set fs. mEos f)"

lemma step_effect_eos:
  assumes "step_effect fs s fs' s'" "list_all (\<lambda>f. \<not> mEos f) fs'" "has_eos (mVideoFrames s)" "has_eos (mAudioFrames s)"
  shows "has_eos (mVideoFrames s') \<and> has_eos (mAudioFrames s')"
  using assms by (auto simp: step_effect_def has_eos_def split: if_splits)

text \<open>Without a stop, the sink has returned only at two ends of stream.\<close>

definition ended :: "sink \<Rightarrow> bool" where
  "ended s \<longleftrightarrow> mVideoFrames s \<noteq> [] \<and> mAudioFrames s \<noteq> [] \<and> mEos (hd (mVideoFrames s)) \<and> mEos (hd (mAudioFrames s))"

definition done_ok :: "sink \<Rightarrow> bool" where
  "done_ok s \<longleftrightarrow> (mDone s \<or> point s = Returned \<longrightarrow> point s = Returned \<and> ended s)"

lemma run_step_done_ok:
  assumes "run_step s = Some s'" "done_ok s" "sink_inv written start evs gs s"
  shows "done_ok s'"
proof (cases "point s")
  case At_test
  then show ?thesis using assms(1,2) by (auto simp: run_step_def done_ok_def)
next
  case Wait_video
  then show ?thesis using assms(1,2) by (auto simp: run_step_def done_ok_def split: if_splits)
next
  case Returned
  then show ?thesis using assms(1,2) by (simp add: run_step_def)
next
  case (Wait_audio v)
  have v: "mVideoFrames s \<noteq> []" "v = hd (mVideoFrames s)" using assms(3) Wait_audio by (simp_all add: sink_inv_def)
  have nd: "\<not> mDone s" using assms(2) Wait_audio by (auto simp: done_ok_def)
  define s1 where "s1 = take_frame v (hd (mAudioFrames s)) s"
  show ?thesis
  proof (cases "mAudioFrames s = []")
    case True
    then show ?thesis using assms(1,2) Wait_audio by (simp add: run_step_def)
  next
    case a: False
    show ?thesis
    proof (cases "mEos v \<and> mEos (hd (mAudioFrames s))")
      case True
      then show ?thesis
        using assms(1) a v Wait_audio finish_frame [of s s'] by (auto simp: run_step_def Let_def done_ok_def ended_def)
    next
      case False
      then have "point s' = At_test \<and> mDone s' = mDone s1"
        using assms(1) a Wait_audio unfolding run_step_def
        by (auto simp: Let_def flushFrames_frame s1_def [symmetric] split: bind_splits if_splits)
      then show ?thesis using nd take_frame_frame(2) [OF v(1) a] by (simp add: done_ok_def s1_def)
    qed
  qed
qed

lemma sink_trace_done_ok:
  assumes "sink_trace s0 evs s" "s0 = started_sink written start" "typed_pushes evs" "total_cost evs < 2 ^ 62"
    "Set_done \<notin> set evs"
  shows "done_ok s"
  using assms
proof (induction rule: sink_trace.induct)
  case (started s)
  then show ?case by (simp add: started_sink_def done_ok_def)
next
  case (continued s0 evs s' e s'')
  have small: "total_cost evs < 2 ^ 62" using continued.prems(3) by (simp add: total_cost_def)
  note typed = typed_pushes_append [OF continued.prems(2)]
  have ok: "done_ok s'" using continued.IH continued.prems(1,4) typed small by simp
  obtain gs where gs: "sink_inv written start evs gs s'"
    using sink_trace_inv [OF continued.hyps(1) continued.prems(1) typed small] by blast
  from continued.hyps(2) show ?case
  proof cases
    case (push_video f)
    then show ?thesis using ok by (auto simp: done_ok_def ended_def)
  next
    case (push_audio f)
    then show ?thesis using ok by (auto simp: done_ok_def ended_def)
  next
    case set_done
    then show ?thesis using continued.prems(4) by simp
  next
    case sink_runs
    then show ?thesis using run_step_done_ok [OF _ ok gs] by blast
  qed
qed

text \<open>Running the sink, from any state in which both streams have ended.\<close>

lemma sink_run_returns:
  assumes "steps_left s \<le> n" "sink_inv written start evs gs s" "done_ok s" "typed_pushes evs"
    "total_cost evs + 100 < 2 ^ 28" "has_eos (mVideoFrames s)" "has_eos (mAudioFrames s)"
  shows "\<exists>s' gs'. sink_run n s = Some s' \<and> point s' = Returned \<and> sink_inv written start evs gs' s' \<and> ended s'"
  using assms
proof (induction n arbitrary: s gs)
  case 0
  then have "point s = Returned" by (simp add: steps_left_def split: point.splits)
  then show ?case using 0 by (auto simp: done_ok_def)
next
  case (Suc n)
  have core: "sink_core written start evs gs s" using Suc.prems(2) by (simp add: sink_inv_def)
  have q: "pushed_video evs = filter is_video (taken_frames gs s) @ mVideoFrames s"
      "pushed_audio evs = filter (\<lambda>f. \<not> is_video f) (taken_frames gs s) @ mAudioFrames s"
    using core by (simp_all add: sink_core_def)
  have "costs (take 1 fs) \<le> costs fs" for fs by (cases fs) simp_all
  from this [of "mVideoFrames s"] this [of "mAudioFrames s"]
  have "costs (outstandingFrames s @ take 1 (mVideoFrames s) @ take 1 (mAudioFrames s)) \<le> total_cost evs"
    unfolding total_cost_def q using costs_filter [of "taken_frames gs s" is_video] by (simp add: taken_frames_def)
  then have "run_step s \<noteq> None" using Suc.prems(5) by (intro run_step_succeeds [OF Suc.prems(2,4)]) simp
  then obtain s1 where s1: "run_step s = Some s1" by blast
  obtain hs where hs: "sink_inv written start evs (gs @ hs) s1" "step_effect (taken_frames gs s) s (taken_frames (gs @ hs) s1) s1"
    using run_step_inv [OF Suc.prems(2,4) s1] Suc.prems(5) by (auto simp: total_cost_def)
  have "has_eos (mVideoFrames s1) \<and> has_eos (mAudioFrames s1)"
    using step_effect_eos [OF hs(2) _ Suc.prems(6,7)] hs(1) by (simp add: sink_inv_def sink_core_def)
  moreover have "steps_left s1 \<le> n"
  proof (cases "point s = Returned")
    case True
    then show ?thesis using s1 by (auto simp: run_step_def steps_left_def)
  next
    case False
    have "mVideoFrames s \<noteq> []" "mAudioFrames s \<noteq> []" using Suc.prems(6,7) by (auto simp: has_eos_def)
    then show ?thesis using run_step_shorter [OF s1 False] Suc.prems(1) by simp
  qed
  ultimately show ?case
    using Suc.IH [OF _ hs(1) run_step_done_ok [OF s1 Suc.prems(3,2)] Suc.prems(4,5)] s1 by simp
qed

lemma eos_in_rest:
  assumes "vs @ [e] = fs @ rest" "list_all (\<lambda>f. \<not> mEos f) fs" "mEos e"
  shows "e \<in> set rest"
proof -
  have "e \<in> set (fs @ rest)" unfolding assms(1) [symmetric] by simp
  then show ?thesis using assms(2,3) by (auto simp: list_all_iff)
qed

lemma takeWhile_ended:
  assumes "vs @ [EOS] = fs @ rest" "list_all (\<lambda>f. \<not> mEos f) (vs @ fs)" "rest \<noteq> []" "mEos (hd rest)"
  shows "fs = vs"
proof -
  have "takeWhile (\<lambda>f. \<not> mEos f) (vs @ [EOS]) = vs" "takeWhile (\<lambda>f. \<not> mEos f) (fs @ rest) = fs"
    using assms(2-4) by (cases rest; simp add: takeWhile_append list_all_iff EOS_def)+
  then show ?thesis using assms(1) by simp
qed

section \<open>Properties\<close>

text \<open>
  C13: Whatever the order in which the threads run, no CHECK of the sink fails: not the one for a
  second outstanding key frame with less than two frames, nor the one for a cluster without a block,
  as long as the frames of one cluster stay below the size that can be encoded.
\<close>

theorem sink_never_aborts:
  assumes "sink_trace (started_sink written start) evs s" "typed_pushes evs" "total_cost evs < 2 ^ 62"
    "costs (outstandingFrames s @ take 1 (mVideoFrames s) @ take 1 (mAudioFrames s)) + 100 < 2 ^ 28"
  shows "run_step s \<noteq> None"
  using sink_trace_inv [OF assms(1) refl assms(2,3)] run_step_succeeds assms(2,4) by blast

text \<open>
  C12: What is in the file is a sequence of clusters of the frames taken from the queues, each once
  and in the order of their timecodes when both streams are in order; every cue point has the
  position of a cluster; and a reader gets the timecode of every frame but the last of a cluster
  from the 16 bits of its block.
\<close>

theorem sink_writes_clusters:
  assumes "sink_trace (started_sink written start) evs s" "typed_pushes evs" "total_cost evs < 2 ^ 62" "in_order evs"
  shows "\<exists>gs. content (mFd s) = written @ groups_bytes gs
    \<and> pushed_video evs = filter is_video (concat gs @ outstandingFrames s) @ mVideoFrames s
    \<and> pushed_audio evs = filter (\<lambda>f. \<not> is_video f) (concat gs @ outstandingFrames s) @ mAudioFrames s
    \<and> sorted (map mAbsTimecode (concat gs @ outstandingFrames s))
    \<and> list_all (cue_ok written start gs) (mCues s)
    \<and> (\<forall>g\<in>set gs. g \<noteq> [] \<and> (\<forall>f\<in>set (butlast g). block_time (mAbsTimecode (hd g)) f = uint (mAbsTimecode f)))"
proof -
  obtain gs where inv: "sink_inv written start evs gs s" "ordered (taken_frames gs s) s"
    using sink_trace_ordered [OF assms(1) refl assms(2-4)] by blast
  have sorted: "sorted (map mAbsTimecode (concat gs @ outstandingFrames s))"
    using inv(2) by (simp add: ordered_def taken_frames_def)
  have "g \<noteq> [] \<and> (\<forall>f\<in>set (butlast g). block_time (mAbsTimecode (hd g)) f = uint (mAbsTimecode f))"
    if g: "g \<in> set gs" for g
  proof -
    have "group_ok g" using inv(1) g by (auto simp: sink_inv_def sink_core_def list_all_iff)
    moreover have "sorted (map mAbsTimecode g)" using sorted g sorted_concat [of mAbsTimecode gs g]
      by (simp add: sorted_append)
    ultimately show ?thesis using group_times by (simp add: group_ok_def)
  qed
  then show ?thesis
    using inv(1) sorted by (intro exI [of _ gs]) (simp add: sink_inv_def sink_core_def taken_frames_def)
qed


section \<open>Examples\<close>

definition example_frame :: "int \<Rightarrow> bool \<Rightarrow> u64 \<Rightarrow> frame" where
  "example_frame t k c = \<lparr> mType = t, mKey = k, mAbsTimecode = c, mData = [1, 2], mEos = False \<rparr>"

definition example_events :: "event list" where
  "example_events = [Push_video (example_frame 1 True 0), Push_audio (example_frame 2 False 5),
     Push_video EOS, Push_audio EOS]"

definition example_sink :: sink where
  "example_sink = (started_sink [7] 1)
     \<lparr> mVideoFrames := [example_frame 1 True 0, EOS], mAudioFrames := [example_frame 2 False 5, EOS] \<rparr>"

lemma example_trace: "sink_trace (started_sink [7] 1) example_events example_sink"
proof -
  have "sink_trace (started_sink [7] 1) ((([] @ [Push_video (example_frame 1 True 0)]) @ [Push_audio (example_frame 2 False 5)])
      @ [Push_video EOS] @ [Push_audio EOS]) example_sink"
    unfolding append_assoc [symmetric]
    by (rule continued, rule continued, rule continued, rule continued, rule started, rule push_video,
        rule push_audio, rule push_video)
      (use push_audio [of "(started_sink [7] 1)\<lparr> mVideoFrames := [example_frame 1 True 0, EOS],
        mAudioFrames := [example_frame 2 False 5] \<rparr>" EOS] in \<open>simp add: example_sink_def started_sink_def\<close>)
  then show ?thesis by (simp add: example_events_def)
qed

lemma example_pushes:
  "pushed_video example_events = [example_frame 1 True 0] @ [EOS]"
  "pushed_audio example_events = [example_frame 2 False 5] @ [EOS]"
  by (simp_all add: example_events_def pushed_video_def pushed_audio_def)

lemma example_events_ok: "typed_pushes example_events" "in_order example_events" "total_cost example_events = 84"
  unfolding typed_pushes_def in_order_def total_cost_def example_pushes
  by (simp_all add: example_frame_def EOS_def kVideoType_def cost_def)

theorem sink_never_aborts_witness: "run_step example_sink \<noteq> None"
  by (rule sink_never_aborts [OF example_trace example_events_ok(1)])
    (simp_all add: example_events_ok example_sink_def started_sink_def example_frame_def cost_def)

theorem sink_writes_clusters_witness:
  "\<exists>gs. content (mFd example_sink) = [7] @ groups_bytes gs
    \<and> sorted (map mAbsTimecode (concat gs @ outstandingFrames example_sink))
    \<and> list_all (cue_ok [7] 1 gs) (mCues example_sink)"
  using sink_writes_clusters [OF example_trace example_events_ok(1) _ example_events_ok(2)]
  by (auto simp: example_events_ok(3))


text \<open>
  The frame before a second key frame joins the cluster without a look at its timecode: 40 seconds
  after the first frame of the cluster, its block says 25.536 seconds before it.
\<close>

lemma last_block_time:
  "flush_rest False [example_frame 1 True 0, example_frame 1 False 40000, example_frame 1 True 40001]
     = [example_frame 1 True 40001]"
  "block_time 0 (example_frame 1 False 40000) = -25536"
  by (simp_all add: flush_rest_def example_frame_def kVideoType_def block_time_def Let_def)

text \<open>After \<open>stop\<close> the frames that are still in the queues are never written.\<close>

lemma stop_drops_queues:
  assumes "sink_trace (started_sink written start) evs s" "typed_pushes evs" "total_cost evs < 2 ^ 62"
    "mDone s" "point s = At_test" "run_step s = Some s'"
  shows "\<exists>gs. content (mFd s') = written @ groups_bytes gs \<and> sink_run n s' = Some s'
    \<and> pushed_video evs = filter is_video (concat gs) @ mVideoFrames s
    \<and> pushed_audio evs = filter (\<lambda>f. \<not> is_video f) (concat gs) @ mAudioFrames s"
proof -
  have fin: "finish s = Some s'" using assms(4-6) by (simp add: run_step_def)
  then have s': "point s' = Returned" "mVideoFrames s' = mVideoFrames s" "mAudioFrames s' = mAudioFrames s"
    using finish_frame by blast+
  obtain gs where "sink_inv written start evs gs s"
    using sink_trace_inv [OF assms(1) refl assms(2,3)] by blast
  from run_step_inv [OF this assms(2,6)] obtain hs where "sink_inv written start evs (gs @ hs) s'"
    using assms(3) by (auto simp: total_cost_def)
  moreover have "sink_run n s' = Some s'" by (induction n) (simp_all add: run_step_def s'(1))
  ultimately show ?thesis
    using s' by (intro exI [of _ "gs @ hs"]) (simp add: sink_inv_def sink_core_def taken_frames_def)
qed

end
