(* ===== verification/WebmSource.thy ===== *)
theory WebmSource
  imports WebmSink
begin

text \<open>
  The threads that read a media source for the WebM writer (\<open>WebmFrameMediaSourceThread\<close> and
  \<open>WebmFrameEmptySourceThread\<close> of WebmFrameThread.cpp) with \<open>pause\<close>, \<open>resume\<close> and \<open>stop\<close> called from
  the writer, and the adjustment of timestamps after a pause. \<open>None\<close> is a CHECK that fails. Signed
  sums are mathematical integers: a run that would overflow them has no meaning in the source.
\<close>

section \<open>State\<close>

definition kUninitialized :: u64 where "kUninitialized = 0xffffffffffffffff"
definition kInitialDelayTimeUs :: int where "kInitialDelayTimeUs = 700000"

text \<open>What \<open>read\<close> of the media source returns: the bytes of the range and the meta data.\<close>

record media_buffer =
  range_bytes :: "byte list"
  kKeyTime :: "int option"
  kKeyIsSyncFrame :: "int option"

text \<open>The program point of \<open>run\<close>: not started, at the test of the loop, in \<open>read\<close>, returned.\<close>

datatype source_point = Not_running | At_loop | Reading | Ended

text \<open>The members, the local variables of \<open>run\<close>, and the frames pushed so far.\<close>

record source_thread =
  mType_s :: int
  mTimeCodeScale :: u64
  mStartTimeUs :: u64
  mDone_s :: bool
  mPaused :: bool
  mResumed :: bool
  mStarted :: bool
  mReachedEOS :: bool
  mTrackDurationUs :: int
  mSink :: "frame list"
  lastTimestampUs :: int
  lastDurationUs :: int
  previousPausedDurationUs :: int
  source_point :: source_point

section \<open>Operations\<close>

definition new_source_thread :: "int \<Rightarrow> u64 \<Rightarrow> int \<Rightarrow> int \<Rightarrow> int \<Rightarrow> bool \<Rightarrow> source_thread" where
  "new_source_thread type timeCodeScale startTimeRealUs startTimeOffsetMs numTracks realTimeRecording =
     \<lparr> mType_s = type, mTimeCodeScale = timeCodeScale,
       mStartTimeUs =
         (if realTimeRecording \<and> numTracks > 1 then
            let startTimeOffsetUs = startTimeOffsetMs * 1000;
                startTimeOffsetUs = (if startTimeOffsetUs < 0 then kInitialDelayTimeUs else startTimeOffsetUs) in
            of_int startTimeRealUs + of_int startTimeOffsetUs
          else of_int startTimeRealUs),
       mDone_s = False, mPaused = False, mResumed = False, mStarted = False, mReachedEOS = False,
       mTrackDurationUs = 0, mSink = [], lastTimestampUs = 0, lastDurationUs = 0,
       previousPausedDurationUs = 0, source_point = Not_running \<rparr>"

text \<open>\<open>start\<close>, given what \<open>start\<close> of the media source returns; then \<open>run\<close> begins.\<close>

definition source_start :: "int \<Rightarrow> source_thread \<Rightarrow> int \<times> source_thread" where
  "source_start err th =
     (if err \<noteq> OK then (err, th\<lparr> mDone_s := True, mReachedEOS := True \<rparr>)
      else (OK, th\<lparr> mStarted := True, mStartTimeUs := kUninitialized, lastTimestampUs := 0, lastDurationUs := 0,
        previousPausedDurationUs := 0, source_point := At_loop \<rparr>))"

definition source_resume :: "source_thread \<Rightarrow> source_thread" where
  "source_resume th = (if \<not> mDone_s th \<and> mPaused th then th\<lparr> mPaused := False, mResumed := True \<rparr> else th)"

definition source_pause :: "source_thread \<Rightarrow> source_thread" where
  "source_pause th = (if mStarted th then th\<lparr> mPaused := True \<rparr> else th)"

definition source_stop :: "source_thread \<Rightarrow> source_thread" where
  "source_stop th = (if mStarted th then th\<lparr> mStarted := False, mDone_s := True \<rparr> else th)"

text \<open>The body of the loop of \<open>run\<close>, for a buffer that was read.\<close>

definition read_buffer :: "media_buffer \<Rightarrow> source_thread \<Rightarrow> source_thread option" where
  "read_buffer b th =
     (if range_bytes b = [] then Some th
      else do {
        time \<leftarrow> kKeyTime b;
        let th = (if mStartTimeUs th = kUninitialized then th\<lparr> mStartTimeUs := of_int time \<rparr> else th);
        let timestampUs = sint (of_int time - mStartTimeUs th);
        if mPaused th \<and> \<not> mResumed th then
          Some (th\<lparr> lastDurationUs := timestampUs - lastTimestampUs th, lastTimestampUs := timestampUs \<rparr>)
        else do {
          th \<leftarrow> (if mResumed th then
              let durExcludingEarlierPausesUs = timestampUs - previousPausedDurationUs th;
                  pausedDurationUs = durExcludingEarlierPausesUs - mTrackDurationUs th in
              do {
                CHECK (durExcludingEarlierPausesUs \<ge> 0);
                CHECK (pausedDurationUs \<ge> lastDurationUs th);
                Some (th\<lparr> previousPausedDurationUs :=
                    previousPausedDurationUs th + (pausedDurationUs - lastDurationUs th), mResumed := False \<rparr>) }
            else Some th);
          let timestampUs = timestampUs - previousPausedDurationUs th;
          CHECK (timestampUs \<ge> 0);
          let f = \<lparr> mType = mType_s th, mKey = (case kKeyIsSyncFrame b of Some i \<Rightarrow> i \<noteq> 0 | None \<Rightarrow> False),
                mAbsTimecode = of_int (timestampUs * 1000) div mTimeCodeScale th, mData = range_bytes b, mEos = False \<rparr>;
          Some (th\<lparr> mSink := mSink th @ [f], mTrackDurationUs := max (mTrackDurationUs th) timestampUs,
            lastDurationUs := timestampUs - lastTimestampUs th, lastTimestampUs := timestampUs \<rparr>) } })"

definition source_end :: "source_thread \<Rightarrow> source_thread" where
  "source_end th = th\<lparr> mTrackDurationUs := mTrackDurationUs th + lastDurationUs th, mSink := mSink th @ [EOS],
     source_point := Ended \<rparr>"

text \<open>
  What happens to a thread: it tests its loop, its \<open>read\<close> returns a buffer or an error, and the
  writer calls one of its operations.
\<close>

datatype source_event = Tests | Reads "media_buffer option" | Pause | Resume | Stop

fun source_step :: "source_event \<Rightarrow> source_thread \<Rightarrow> source_thread option" where
  "source_step Tests th =
     Some (if source_point th = At_loop
           then if mDone_s th then source_end th else th\<lparr> source_point := Reading \<rparr> else th)"
| "source_step (Reads r) th =
     (if source_point th = Reading then
        case r of None \<Rightarrow> Some (source_end th)
        | Some b \<Rightarrow> do { th \<leftarrow> read_buffer b th; Some (th\<lparr> source_point := At_loop \<rparr>) }
      else Some th)"
| "source_step Pause th = Some (source_pause th)"
| "source_step Resume th = Some (source_resume th)"
| "source_step Stop th = Some (source_stop th)"

fun source_steps :: "source_event list \<Rightarrow> source_thread \<Rightarrow> source_thread option" where
  "source_steps [] th = Some th"
| "source_steps (e # es) th = do { th \<leftarrow> source_step e th; source_steps es th }"

text \<open>The thread of a stream without a source.\<close>

definition empty_source_run :: "frame list \<Rightarrow> frame list" where
  "empty_source_run queue = queue @ [EOS]"

section \<open>Timestamps\<close>

definition timecode :: "u64 \<Rightarrow> int \<Rightarrow> u64" where
  "timecode scale t = of_int (t * 1000) div scale"

lemma timecode_mono:
  assumes "0 \<le> s" "s \<le> t" "t < 2 ^ 53"
  shows "timecode scale s \<le> timecode scale t"
proof -
  have "uint (of_int (s * 1000) :: u64) = s * 1000" "uint (of_int (t * 1000) :: u64) = t * 1000"
    using assms by (simp_all add: unsigned_of_int take_bit_int_eq_self del: of_int_mult)
  moreover have "s * 1000 div uint scale \<le> t * 1000 div uint scale"
  proof (cases "uint scale = 0")
    case False
    then have "0 < uint scale" using uint_ge_0 [of scale] by linarith
    then show ?thesis using assms(2) by (intro zdiv_mono1) simp_all
  qed simp
  ultimately show ?thesis by (simp add: timecode_def word_le_def uint_div_distrib del: of_int_mult)
qed

text \<open>
  The state of a thread that has read buffers up to a time, of a recording that is paused at most
  once: before the pause, from the pause to the first frame after it, and later.
\<close>

definition frames_ok :: "source_thread \<Rightarrow> bool" where
  "frames_ok th \<longleftrightarrow> sorted (map mAbsTimecode (mSink th))
     \<and> (\<forall>f\<in>set (mSink th). mType f = mType_s th \<and> \<not> mEos f \<and> mAbsTimecode f \<le> timecode (mTimeCodeScale th) (mTrackDurationUs th))"

definition times_ok :: "bool \<Rightarrow> int \<Rightarrow> source_thread \<Rightarrow> bool" where
  "times_ok may_pause r th \<longleftrightarrow> 0 \<le> mTrackDurationUs th \<and> mTrackDurationUs th \<le> r
     \<and> (\<not> mPaused th \<and> \<not> mResumed th \<and> mTrackDurationUs th = r - previousPausedDurationUs th
           \<and> (may_pause \<longrightarrow> previousPausedDurationUs th = 0 \<and> lastTimestampUs th = r \<and> lastDurationUs th \<ge> 0)
        \<or> (mPaused th \<noteq> mResumed th) \<and> \<not> may_pause \<and> previousPausedDurationUs th = 0 \<and> lastTimestampUs th = r
           \<and> lastDurationUs th \<ge> 0)"

definition source_ok :: "bool \<Rightarrow> int \<Rightarrow> source_thread \<Rightarrow> bool" where
  "source_ok may_pause m th \<longleftrightarrow> frames_ok th \<and>
     (mStartTimeUs th = kUninitialized \<and> times_ok may_pause 0 th
      \<or> (\<exists>s. 0 \<le> s \<and> s \<le> m \<and> m < 2 ^ 53 \<and> mStartTimeUs th = of_int s \<and> times_ok may_pause (m - s) th))"

lemma started_neq: "0 \<le> s \<Longrightarrow> s < 2 ^ 53 \<Longrightarrow> (of_int s :: u64) \<noteq> kUninitialized"
proof
  assume s: "0 \<le> s" "s < 2 ^ 53" "(of_int s :: u64) = kUninitialized"
  from s(1,2) have "uint (of_int s :: u64) = s" by (simp add: unsigned_of_int take_bit_int_eq_self)
  then show False using s by (simp add: kUninitialized_def)
qed

lemma relative_time: "0 \<le> s \<Longrightarrow> s \<le> t \<Longrightarrow> t < 2 ^ 53 \<Longrightarrow> sint (of_int t - of_int s :: u64) = t - s"
  by (simp add: signed_of_int signed_take_bit_int_eq_self flip: of_int_diff)

lemma frames_ok_push:
  assumes "frames_ok th" "0 \<le> mTrackDurationUs th" "mTrackDurationUs th \<le> t" "t < 2 ^ 53"
    "f = \<lparr> mType = mType_s th, mKey = k, mAbsTimecode = of_int (t * 1000) div mTimeCodeScale th, mData = d, mEos = False \<rparr>"
  shows "frames_ok (th\<lparr> mSink := mSink th @ [f], mTrackDurationUs := max (mTrackDurationUs th) t,
            lastDurationUs := u, lastTimestampUs := v \<rparr>)"
proof -
  have "timecode (mTimeCodeScale th) (mTrackDurationUs th) \<le> timecode (mTimeCodeScale th) t"
    using assms(2-4) by (rule timecode_mono)
  moreover have "mAbsTimecode f = timecode (mTimeCodeScale th) t" using assms(5) by (simp add: timecode_def)
  moreover have "max (mTrackDurationUs th) t = t" using assms(3) by simp
  ultimately show ?thesis
    using assms(1,5) by (auto simp: frames_ok_def sorted_append intro: order_trans)
qed

text \<open>A buffer that is read, at a time that is not before that of the previous one.\<close>

lemma read_relative:
  assumes "frames_ok th" "times_ok p r th" "r \<le> t" "t < 2 ^ 53" "mStartTimeUs th = of_int s" "0 \<le> s" "s + t < 2 ^ 53"
    "kKeyTime b = Some (s + t)" "range_bytes b \<noteq> []" "read_buffer b th = Some th'"
  shows "frames_ok th' \<and> times_ok p t th' \<and> mStartTimeUs th' = of_int s"
proof -
  have start: "mStartTimeUs th \<noteq> kUninitialized" using started_neq [of s] assms(3,5,6,7) assms(2)
    by (simp add: times_ok_def)
  have rel: "sint (of_int (s + t) - of_int s :: u64) = t"
    using relative_time [of s "s + t"] assms(2,3,6,7) by (simp add: times_ok_def)
  show ?thesis
  proof (cases "mPaused th \<and> \<not> mResumed th")
    case True
    then have "th' = th\<lparr> lastDurationUs := t - lastTimestampUs th, lastTimestampUs := t \<rparr>"
      using assms(5,8,9,10) start rel by (simp add: read_buffer_def Let_def)
    then show ?thesis
      using True assms(1,2,3,5) by (auto simp: times_ok_def frames_ok_def)
  next
    case False
    define th1 where "th1 = (if mResumed th then th\<lparr> previousPausedDurationUs := previousPausedDurationUs th
        + (t - previousPausedDurationUs th - mTrackDurationUs th - lastDurationUs th), mResumed := False \<rparr> else th)"
    define u where "u = t - previousPausedDurationUs th1"
    obtain f k where f: "f = \<lparr> mType = mType_s th1, mKey = k, mAbsTimecode = of_int (u * 1000) div mTimeCodeScale th1,
          mData = range_bytes b, mEos = False \<rparr>"
      and th': "th' = th1\<lparr> mSink := mSink th1 @ [f], mTrackDurationUs := max (mTrackDurationUs th1) u,
            lastDurationUs := u - lastTimestampUs th1, lastTimestampUs := u \<rparr>"
      and checks: "u \<ge> 0" "mResumed th \<Longrightarrow> t - previousPausedDurationUs th - mTrackDurationUs th \<ge> lastDurationUs th"
      using assms(5,8,9,10) start rel False unfolding read_buffer_def th1_def u_def
      by (auto simp: Let_def split: if_splits bind_splits)
    have u: "mTrackDurationUs th1 \<le> u" "0 \<le> mTrackDurationUs th1" "u \<le> t"
      using False assms(2,3) checks unfolding u_def th1_def times_ok_def by (auto split: if_splits)
    have "frames_ok th1" using assms(1) by (simp add: th1_def frames_ok_def)
    then have "frames_ok th'"
      unfolding th' using u assms(4) by (intro frames_ok_push [OF _ u(2,1) _ f]) simp_all
    moreover have "times_ok p t th'"
      using False assms(2,3) u checks unfolding th' times_ok_def
      by (auto simp: th1_def u_def split: if_splits)
    ultimately show ?thesis using assms(5) by (simp add: th' th1_def)
  qed
qed

lemma read_source_ok:
  assumes "source_ok p m th" "m \<le> t" "0 \<le> t" "t < 2 ^ 53" "kKeyTime b = Some t" "range_bytes b \<noteq> []"
    "read_buffer b th = Some th'"
  shows "source_ok p t th'"
proof (cases "mStartTimeUs th = kUninitialized")
  case True
  let ?th = "th\<lparr> mStartTimeUs := of_int t \<rparr>"
  have "\<not> (\<exists>s. 0 \<le> s \<and> s \<le> m \<and> m < 2 ^ 53 \<and> mStartTimeUs th = of_int s \<and> times_ok p (m - s) th)"
    using True started_neq by (metis le_less_trans)
  then have "frames_ok th" "times_ok p 0 th" using assms(1) unfolding source_ok_def by blast+
  then have "frames_ok ?th" "times_ok p 0 ?th" by (simp_all add: frames_ok_def times_ok_def)
  moreover have "read_buffer b ?th = Some th'"
    using assms(3-7) True started_neq [of t] by (simp add: read_buffer_def Let_def)
  ultimately have "frames_ok th' \<and> times_ok p 0 th' \<and> mStartTimeUs th' = of_int t"
    using assms(3-6) by (intro read_relative [of ?th p 0 0 t b]) simp_all
  then show ?thesis using assms(3,4) by (auto simp: source_ok_def intro!: disjI2 exI [of _ t])
next
  case False
  then obtain s where s: "0 \<le> s" "s \<le> m" "mStartTimeUs th = of_int s" "times_ok p (m - s) th" "frames_ok th"
    using assms(1) by (auto simp: source_ok_def)
  have "frames_ok th' \<and> times_ok p (t - s) th' \<and> mStartTimeUs th' = of_int s"
    using s assms(2-7) by (intro read_relative [of th p "m - s" "t - s" s b]) simp_all
  then show ?thesis using s(1,2) assms(2,4) by (auto simp: source_ok_def intro!: disjI2 exI [of _ s])
qed

lemma read_empty: "range_bytes b = [] \<Longrightarrow> read_buffer b th = Some th' \<Longrightarrow> th' = th"
  by (simp add: read_buffer_def)

lemma read_needs_time: "read_buffer b th = Some th' \<Longrightarrow> range_bytes b \<noteq> [] \<Longrightarrow> \<exists>t. kKeyTime b = Some t"
  by (auto simp: read_buffer_def split: bind_splits)

lemma source_ok_update [simp]:
  "source_ok p m (th\<lparr> source_point := x \<rparr>) = source_ok p m th"
  "source_ok p m (th\<lparr> mStarted := y, mDone_s := z \<rparr>) = source_ok p m th"
  by (simp_all add: source_ok_def frames_ok_def times_ok_def)

lemma source_ok_resume: "source_ok p m th \<Longrightarrow> source_ok p m (source_resume th)"
  by (auto simp: source_resume_def source_ok_def frames_ok_def times_ok_def)

lemma source_ok_pause: "source_ok True m th \<Longrightarrow> source_ok False m (source_pause th)"
  by (auto simp: source_pause_def source_ok_def frames_ok_def times_ok_def)

lemma source_ok_stop: "source_ok p m th \<Longrightarrow> source_ok p m (source_stop th)"
  by (simp add: source_stop_def)

text \<open>The times of the buffers in a list of events, and how often the recording is paused.\<close>

definition read_times :: "source_event list \<Rightarrow> int list" where
  "read_times es = concat (map (\<lambda>e. case e of Reads (Some b) \<Rightarrow>
     (case kKeyTime b of Some t \<Rightarrow> [t] | None \<Rightarrow> []) | _ \<Rightarrow> []) es)"

definition pauses :: "source_event list \<Rightarrow> nat" where
  "pauses es = length (filter (\<lambda>e. e = Pause) es)"

lemma read_times_Cons: "read_times (e # es) = (case e of Reads (Some b) \<Rightarrow>
     (case kKeyTime b of Some t \<Rightarrow> [t] | None \<Rightarrow> []) | _ \<Rightarrow> []) @ read_times es"
  by (simp add: read_times_def)

text \<open>A thread that has returned has pushed one end of stream, as the last frame.\<close>

definition pushed_ok :: "source_thread \<Rightarrow> bool" where
  "pushed_ok th \<longleftrightarrow> sorted (map mAbsTimecode (mSink th))
     \<and> (\<forall>f\<in>set (mSink th). mType f = mType_s th \<or> f = EOS)
     \<and> (\<forall>f\<in>set (if source_point th = Ended then butlast (mSink th) else mSink th). \<not> mEos f)
     \<and> (source_point th = Ended \<longrightarrow> mSink th \<noteq> [] \<and> List.last (mSink th) = EOS)"

lemma source_ok_pushed: "source_ok p m th \<Longrightarrow> source_point th \<noteq> Ended \<Longrightarrow> pushed_ok th"
  by (auto simp: source_ok_def frames_ok_def pushed_ok_def)

lemma source_point_end: "source_point (source_end th) = Ended"
  by (simp add: source_end_def)

lemma source_end_pushed: "source_ok p m th \<Longrightarrow> pushed_ok (source_end th)"
  by (auto simp: source_ok_def frames_ok_def pushed_ok_def source_end_def sorted_append EOS_def)

lemma ended_stays:
  assumes "source_steps es th = Some th'" "source_point th = Ended"
  shows "mSink th' = mSink th \<and> source_point th' = Ended \<and> mType_s th' = mType_s th"
  using assms
proof (induction es arbitrary: th)
  case (Cons e es)
  then obtain th1 where th1: "source_step e th = Some th1" "source_steps es th1 = Some th'"
    by (auto split: bind_splits)
  then have "mSink th1 = mSink th" "source_point th1 = Ended" "mType_s th1 = mType_s th"
    using Cons.prems(2) by (cases e; auto simp: source_pause_def source_resume_def source_stop_def split: if_splits)+
  then show ?case using Cons.IH [OF th1(2)] by simp
qed simp

lemma pushed_ok_ended: "pushed_ok th \<Longrightarrow> source_steps es th = Some th' \<Longrightarrow> source_point th = Ended \<Longrightarrow> pushed_ok th'"
  using ended_stays [of es th th'] by (simp add: pushed_ok_def)

lemma source_steps_ok:
  assumes "source_steps es th = Some th'" "source_ok p m th" "source_point th \<noteq> Ended" "sorted (m # read_times es)"
    "\<forall>t\<in>set (read_times es). t < 2 ^ 53" "0 \<le> m" "pauses es \<le> (if p then 1 else 0)"
  shows "pushed_ok th'"
  using assms
proof (induction es arbitrary: th m p)
  case Nil
  then show ?case using source_ok_pushed by auto
next
  case (Cons e es)
  obtain th1 where th1: "source_step e th = Some th1" "source_steps es th1 = Some th'"
    using Cons.prems(1) by (auto split: bind_splits)
  have times: "sorted (m # read_times es)" "\<forall>t\<in>set (read_times es). t < 2 ^ 53"
    using Cons.prems(4,5) unfolding read_times_Cons by (auto simp: sorted_append)
  have pauses: "pauses es \<le> (if p then 1 else 0)" "e = Pause \<Longrightarrow> p \<and> pauses es = 0"
    using Cons.prems(7) by (auto simp: pauses_def split: if_splits)
  note IH = Cons.IH [OF th1(2) _ _ times Cons.prems(6)]
  note ended = pushed_ok_ended [OF source_end_pushed [OF Cons.prems(2)]]
  show ?case
  proof (cases e)
    case Tests
    then show ?thesis
      using th1 Cons.prems(2,3) IH [of p] pauses(1) ended by (auto simp: source_end_def split: if_splits)
  next
    case Pause
    then have "source_ok False m th1" "source_point th1 \<noteq> Ended"
      using th1(1) source_ok_pause [of m th] Cons.prems(2,3) pauses(2) by (auto simp: source_pause_def split: if_splits)
    then show ?thesis using IH [of False] pauses(2) Pause by simp
  next
    case Resume
    then have "source_ok p m th1" "source_point th1 \<noteq> Ended"
      using th1(1) source_ok_resume [of p m th] Cons.prems(2,3) by (auto simp: source_resume_def split: if_splits)
    then show ?thesis using IH [of p] pauses(1) by simp
  next
    case Stop
    then have "source_ok p m th1" "source_point th1 \<noteq> Ended"
      using th1(1) source_ok_stop [of p m th] Cons.prems(2,3) by (auto simp: source_stop_def split: if_splits)
    then show ?thesis using IH [of p] pauses(1) by simp
  next
    case (Reads r)
    show ?thesis
    proof (cases "source_point th = Reading")
      case False
      then show ?thesis using Reads th1 Cons.prems(2,3) IH [of p] pauses(1) by simp
    next
      case reading: True
      show ?thesis
      proof (cases r)
        case None
        then have "th1 = source_end th" using Reads reading th1(1) by simp
        then show ?thesis using ended th1(2) source_point_end by blast
      next
        case (Some b)
        obtain th2 where th2: "read_buffer b th = Some th2" "th1 = th2\<lparr> source_point := At_loop \<rparr>"
          using Reads Some reading th1(1) by (auto split: bind_splits)
        show ?thesis
        proof (cases "range_bytes b = []")
          case True
          then have "th2 = th" using read_empty th2(1) by blast
          then show ?thesis using th2(2) Cons.prems(2) IH [of p] pauses(1) by simp
        next
          case False
          then obtain t where t: "kKeyTime b = Some t" using read_needs_time th2(1) by blast
          then have s: "sorted (m # t # read_times es)" "t < 2 ^ 53"
            using Cons.prems(4,5) Reads Some by (simp_all add: read_times_Cons)
          then have "source_ok p t th2"
            using Cons.prems(2,6) t False th2(1) by (intro read_source_ok [of p m th t b]) simp_all
          then show ?thesis
            using Cons.IH [OF th1(2), of p t] th2(2) s times(2) Cons.prems(6) pauses(1) by simp
        qed
      qed
    qed
  qed
qed

section \<open>Properties\<close>

text \<open>
  C15: The frames that a source thread of a recording that is paused at most once pushes are in the
  order of their timecodes, of its type, and followed by one end of stream when it returns, for a
  media source whose timestamps do not decrease: what the sink relies on.
\<close>

theorem source_pushes_in_order:
  assumes "source_steps es (snd (source_start OK (new_source_thread type scale start off n realtime))) = Some th"
    "sorted (read_times es)" "\<forall>t\<in>set (read_times es). 0 \<le> t \<and> t < 2 ^ 53" "pauses es \<le> 1"
  shows "sorted (map mAbsTimecode (mSink th)) \<and> (\<forall>f\<in>set (mSink th). mType f = mType_s th \<or> f = EOS)
    \<and> (\<forall>f\<in>set (butlast (mSink th)). \<not> mEos f)
    \<and> (source_point th = Ended \<longrightarrow> mSink th \<noteq> [] \<and> List.last (mSink th) = EOS)"
proof -
  let ?th = "snd (source_start OK (new_source_thread type scale start off n realtime))"
  have "source_ok True 0 ?th"
    by (simp add: source_start_def new_source_thread_def source_ok_def frames_ok_def times_ok_def)
  then have "pushed_ok th"
    using assms by (intro source_steps_ok [of es ?th th True 0])
      (simp_all add: source_start_def new_source_thread_def)
  then show ?thesis by (auto simp: pushed_ok_def split: if_splits dest: in_set_butlastD)
qed

section \<open>Examples\<close>

definition example_buffer :: "int \<Rightarrow> media_buffer" where
  "example_buffer t = \<lparr> range_bytes = [9], kKeyTime = Some t, kKeyIsSyncFrame = Some 1 \<rparr>"

abbreviation reads :: "int \<Rightarrow> source_event list" where
  "reads t \<equiv> [Tests, Reads (Some (example_buffer t))]"

definition example_thread :: source_thread where
  "example_thread = snd (source_start OK (new_source_thread kVideoType 1000000 0 0 1 False))"

definition pushed_timecodes :: "source_event list \<Rightarrow> u64 list option" where
  "pushed_timecodes es = do { th \<leftarrow> source_steps es example_thread; Some (map mAbsTimecode (mSink th)) }"

lemmas source_eval = pushed_timecodes_def example_thread_def source_start_def new_source_thread_def OK_def
  example_buffer_def read_buffer_def source_pause_def source_resume_def source_end_def kUninitialized_def
  EOS_def Let_def

text \<open>A pause over one frame; the next frame comes one frame duration after the last one.\<close>

definition one_pause :: "source_event list" where
  "one_pause = reads 50000 @ reads 90000 @ [Pause] @ reads 130000 @ [Resume] @ reads 170000 @ [Tests, Reads None]"

lemma one_pause_timecodes: "pushed_timecodes one_pause = Some [0, 40, 80, - 1]"
  unfolding one_pause_def by (simp add: source_eval)

theorem source_pushes_in_order_witness:
  "\<exists>th. source_steps one_pause (snd (source_start OK (new_source_thread kVideoType 1000000 0 0 1 False))) = Some th
    \<and> sorted (map mAbsTimecode (mSink th)) \<and> map mAbsTimecode (mSink th) = [0, 40, 80, - 1]"
proof -
  obtain th where th: "source_steps one_pause example_thread = Some th" "map mAbsTimecode (mSink th) = [0, 40, 80, - 1]"
    using one_pause_timecodes unfolding pushed_timecodes_def
    by (cases "source_steps one_pause example_thread") simp_all
  have times: "read_times one_pause = [50000, 90000, 130000, 170000]"
    by (simp add: one_pause_def read_times_def example_buffer_def)
  have one: "pauses one_pause \<le> 1" by (simp add: one_pause_def pauses_def example_buffer_def)
  have "sorted (map mAbsTimecode (mSink th))"
    using source_pushes_in_order [OF th(1) [unfolded example_thread_def] _ _ one] unfolding times by simp
  then show ?thesis using th unfolding example_thread_def by (intro exI [of _ th] conjI)
qed

text \<open>
  Runs that the CHECKs end, or whose timestamps go backwards: a pause between two frames, the
  second of which comes sooner than the first did; a second pause over one frame; a second pause
  right after one over several frames.
\<close>

lemma pause_aborts:
  "pushed_timecodes (reads 0 @ reads 40000 @ [Pause, Resume] @ reads 73000) = None"
  "pushed_timecodes (reads 0 @ reads 40000 @ [Pause] @ reads 80000 @ reads 120000 @ reads 160000 @ [Resume] @ reads 200000
     @ reads 240000 @ [Pause] @ reads 280000 @ [Resume] @ reads 320000) = None"
  by code_simp+

lemma pause_goes_back:
  "pushed_timecodes (reads 0 @ reads 1000000 @ [Pause] @ reads 1040000 @ reads 1080000 @ reads 1120000 @ [Resume]
     @ reads 1160000 @ [Pause, Resume] @ reads 1200000) = Some [0, 1000, 1040, 960]"
  by code_simp

end
