(* ===== verification/WebmWriter.thy ===== *)
theory WebmWriter
  imports WebmSource
begin

text \<open>
  The WebM writer, media/libstagefright/webm/WebmWriter.cpp: the tracks, the head of the file that
  \<open>start\<close> writes, and the places of it that \<open>reset\<close> overwrites when the recording stops. \<open>None\<close> is a
  CHECK that fails, or a size that \<open>encodeUnsigned\<close> has no value for. The file is the bytes behind
  the descriptor, whose system calls succeed.
\<close>

section \<open>State\<close>

definition kMinEbmlVoidSize :: u64 where "kMinEbmlVoidSize = 2"
definition kMaxMetaSeekSize :: u64 where "kMaxMetaSeekSize = 64"
definition kMinStreamableFileSizeInBytes :: int where "kMinStreamableFileSizeInBytes = 5 * 1024 * 1024"
definition kAudioIndex :: nat where "kAudioIndex = 0"
definition kVideoIndex :: nat where "kVideoIndex = 1"
definition kMaxStreams :: nat where "kMaxStreams = 2"

datatype stream_thread = Empty_source | Media_source source_thread

record webm_stream =
  mStreamType :: int
  mHasSource :: bool
  mTrackEntry :: "element option"
  mThread :: "stream_thread option"

record writer =
  mFile :: wfile
  mInitCheck :: int
  mCodeScale :: u64
  mStartTimestampUs :: int
  mStartTimeOffsetMs :: int
  mSegmentOffset :: u64
  mDataStart :: u64
  mInfoOffset :: u64
  mInfoSize :: u64
  mTracksOffset :: u64
  mCuesOffset :: u64
  mWriterPaused :: bool
  mWriterStarted :: bool
  mIsFileSizeLimitExplicitlyRequested :: bool
  mIsRealTimeRecording :: bool
  mStreamableFile :: bool
  mEstimatedCuesSize :: u64
  mCuePoints :: "element list"
  mStreams :: "webm_stream list"
  mSinkRunning :: bool
  mMaxFileSizeLimitBytes :: int
  mMaxFileDurationLimitUs :: int

text \<open>The writer of a duplicated descriptor, negative when \<open>dup\<close> failed.\<close>

definition new_writer :: "int \<Rightarrow> wfile \<Rightarrow> writer" where
  "new_writer fd f = \<lparr> mFile = f, mInitCheck = (if fd < 0 then NO_INIT else OK), mCodeScale = 1000000,
     mStartTimestampUs = 0, mStartTimeOffsetMs = 0, mSegmentOffset = 0, mDataStart = 0, mInfoOffset = 0,
     mInfoSize = 0, mTracksOffset = 0, mCuesOffset = 0, mWriterPaused = False, mWriterStarted = False,
     mIsFileSizeLimitExplicitlyRequested = False, mIsRealTimeRecording = False, mStreamableFile = True,
     mEstimatedCuesSize = 0, mCuePoints = [],
     mStreams = [
       \<lparr> mStreamType = kAudioType, mHasSource = False, mTrackEntry = None, mThread = None \<rparr>,
       \<lparr> mStreamType = kVideoType, mHasSource = False, mTrackEntry = None, mThread = None \<rparr>],
     mSinkRunning = False, mMaxFileSizeLimitBytes = 0, mMaxFileDurationLimitUs = 0 \<rparr>"

section \<open>Tracks\<close>

definition numTracks :: "writer \<Rightarrow> nat" where
  "numTracks w = length (filter (\<lambda>s. mTrackEntry s \<noteq> None) (mStreams w))"

definition lower :: "char \<Rightarrow> char" where
  "lower c = (if of_char c \<ge> (65 :: nat) \<and> of_char c \<le> (90 :: nat) then char_of (of_char c + 32 :: nat) else c)"

text \<open>\<open>!strncasecmp(mime, prefix, strlen(prefix))\<close>\<close>

definition has_prefix_nocase :: "string \<Rightarrow> string \<Rightarrow> bool" where
  "has_prefix_nocase mime prefix \<longleftrightarrow> map lower (take (length prefix) mime) = map lower prefix"

text \<open>The source is given by its MIME type and the meta data of its format.\<close>

definition addSource :: "string \<Rightarrow> track_meta \<Rightarrow> writer \<Rightarrow> (int \<times> writer) option" where
  "addSource mime md w =
     (if mWriterStarted w then Some (UNKNOWN_ERROR, w)
      else if mTrackEntry (mStreams w ! kVideoIndex) \<noteq> None \<and> mTrackEntry (mStreams w ! kAudioIndex) \<noteq> None
      then Some (ERROR_UNSUPPORTED, w)
      else if has_prefix_nocase mime ''video/x-vnd.on2.vp8'' \<or> has_prefix_nocase mime ''audio/vorbis'' then
        let streamIndex = (if has_prefix_nocase mime ''video/x-vnd.on2.vp8'' then kVideoIndex else kAudioIndex) in
        if mTrackEntry (mStreams w ! streamIndex) \<noteq> None then Some (ERROR_UNSUPPORTED, w)
        else do {
          track \<leftarrow> (if streamIndex = kVideoIndex then videoTrack md else audioTrack md);
          Some (OK, w\<lparr> mStreams := (mStreams w)[streamIndex :=
            (mStreams w ! streamIndex)\<lparr> mHasSource := True, mTrackEntry := Some track \<rparr>] \<rparr>) }
      else Some (ERROR_UNSUPPORTED, w))"

section \<open>Starting\<close>

text \<open>Division of signed integers, which rounds towards zero.\<close>

definition quot :: "int \<Rightarrow> int \<Rightarrow> int" where
  "quot a b = (if a < 0 then - ((- a) div b) else a div b)"

definition estimateCuesSize :: "int \<Rightarrow> writer \<Rightarrow> u64" where
  "estimateCuesSize bitRate w =
     (let MIN_CUES_SIZE = 3 * 1024;
          MAX_CUES_SIZE = 180 * 3000000 * 6 div 8000;
          size_c = MIN_CUES_SIZE;
          size_limit = mMaxFileSizeLimitBytes w \<noteq> 0 \<and> mIsFileSizeLimitExplicitlyRequested w;
          size_c = (if size_limit then quot (mMaxFileSizeLimitBytes w * 6) 1000 else size_c);
          size_c =
            (if mMaxFileDurationLimitUs w \<noteq> 0 \<and> bitRate > 0 then
               let size2 = quot (quot (mMaxFileDurationLimitUs w * bitRate * 6) 1000) 8000000 in
               if size_limit then (if size_c > size2 then size2 else size_c) else size2
             else size_c);
          size_c = (if size_c < MIN_CUES_SIZE then MIN_CUES_SIZE else size_c);
          size_c = (if size_c > MAX_CUES_SIZE then MAX_CUES_SIZE else size_c) in
      of_int (2 * size_c))"

definition initStream :: "nat \<Rightarrow> writer \<Rightarrow> writer" where
  "initStream idx w =
     (let s = mStreams w ! idx in
      if mThread s \<noteq> None then w
      else let th = (if \<not> mHasSource s then Empty_source
             else Media_source (new_source_thread (mStreamType s) (mCodeScale w) (mStartTimestampUs w)
               (mStartTimeOffsetMs w) (int (numTracks w)) (mIsRealTimeRecording w))) in
        w\<lparr> mStreams := (mStreams w)[idx := s\<lparr> mThread := Some th \<rparr>] \<rparr>)"

text \<open>An operation on the thread of a stream; the ones of an empty source do nothing.\<close>

definition on_thread :: "(source_thread \<Rightarrow> source_thread) \<Rightarrow> nat \<Rightarrow> writer \<Rightarrow> writer" where
  "on_thread g idx w = w\<lparr> mStreams := (mStreams w)[idx := (mStreams w ! idx)\<lparr> mThread :=
     (case mThread (mStreams w ! idx) of Some (Media_source th) \<Rightarrow> Some (Media_source (g th)) | t \<Rightarrow> t) \<rparr>] \<rparr>"

record start_params =
  kKeyRealTimeRecording :: "int option"
  kKeyTimeScale :: "int option"
  kKeyBitRate :: "int option"
  kKeyStartTime :: "int option"

text \<open>Variables that are read although nothing was stored into them.\<close>

record indeterminate =
  any_isRealTimeRecording :: bool
  any_offset :: u64

text \<open>The loop that writes the head of the file: the offset and the size of every element.\<close>

fun write_all :: "element option list \<Rightarrow> wfile \<Rightarrow> ((u64 \<times> u64) option list \<times> wfile) option" where
  "write_all [] fd = Some ([], fd)"
| "write_all (None # es) fd = do { (r, fd) \<leftarrow> write_all es fd; Some (None # r, fd) }"
| "write_all (Some e # es) fd = do {
     let off = of_nat (offset fd);
     n \<leftarrow> mSize e;
     (_, fd) \<leftarrow> write_element e fd;
     (r, fd) \<leftarrow> write_all es fd;
     Some (Some (off, n) # r, fd) }"

text \<open>The time scale, and the space for the cues that is reserved in a file that is to be streamable.\<close>

definition configure :: "start_params option \<Rightarrow> writer \<Rightarrow> writer option" where
  "configure params w = do {
     let w = (case params of Some p \<Rightarrow>
         (case kKeyTimeScale p of Some tcsl \<Rightarrow> w\<lparr> mCodeScale := of_int tcsl \<rparr> | None \<Rightarrow> w) | None \<Rightarrow> w);
     CHECK (mCodeScale w > 0);
     let w = w\<lparr> mStreamableFile := mMaxFileSizeLimitBytes w = 0
         \<or> mMaxFileSizeLimitBytes w \<ge> kMinStreamableFileSizeInBytes \<rparr>;
     let bitRate = (case params of Some p \<Rightarrow> (case kKeyBitRate p of Some b \<Rightarrow> b | None \<Rightarrow> -1) | None \<Rightarrow> -1);
     if \<not> mStreamableFile w then Some w
     else do {
       let w = w\<lparr> mEstimatedCuesSize := estimateCuesSize bitRate w \<rparr>;
       CHECK (mEstimatedCuesSize w \<ge> 8);
       Some w } }"

text \<open>The head of the file, and the offsets that are kept of it.\<close>

definition write_head :: "indeterminate \<Rightarrow> writer \<Rightarrow> writer option" where
  "write_head junk w = do {
     let ebml = EbmlHeader 1 1 4 8 2 2;
     let segment = WebmMaster kMkvSegment [];
     let seekHead = EbmlVoid kMaxMetaSeekSize;
     let info = SegmentInfo (mCodeScale w) 0;
     let tracks = WebmMaster kMkvTracks (List.map_filter mTrackEntry (mStreams w));
     let cues = (if mStreamableFile w then Some (EbmlVoid (mEstimatedCuesSize w)) else None);
     (places, fd) \<leftarrow> write_all [Some ebml, Some segment, Some seekHead, Some info, Some tracks, cues] (mFile w);
     let offsets = (\<lambda>i. case places ! i of Some (off, _) \<Rightarrow> off | None \<Rightarrow> any_offset junk);
     let sizes = (\<lambda>i. case places ! i of Some (_, n) \<Rightarrow> n | None \<Rightarrow> any_offset junk);
     Some (w\<lparr> mFile := fd, mSegmentOffset := offsets 1, mDataStart := offsets 2, mInfoOffset := offsets 3,
       mInfoSize := sizes 3, mTracksOffset := offsets 4, mCuesOffset := offsets 5 \<rparr>) }"

text \<open>
  \<open>start\<close>, given what \<open>start\<close> of the media source of a stream returns; that status is not looked at.
\<close>

definition writer_start :: "indeterminate \<Rightarrow> (nat \<Rightarrow> int) \<Rightarrow> start_params option \<Rightarrow> writer \<Rightarrow> (int \<times> writer) option" where
  "writer_start junk source_status params w =
     (if mInitCheck w \<noteq> OK then Some (UNKNOWN_ERROR, w)
      else if mTrackEntry (mStreams w ! kVideoIndex) = None \<and> mTrackEntry (mStreams w ! kAudioIndex) = None
      then Some (INVALID_OPERATION, w)
      else
        let w = (if mMaxFileSizeLimitBytes w \<noteq> 0 then w\<lparr> mIsFileSizeLimitExplicitlyRequested := True \<rparr> else w);
            w = (case params of Some p \<Rightarrow> w\<lparr> mIsRealTimeRecording :=
                   (case kKeyRealTimeRecording p of Some i \<Rightarrow> i \<noteq> 0 | None \<Rightarrow> any_isRealTimeRecording junk) \<rparr>
                 | None \<Rightarrow> w) in
        if mWriterStarted w then
          Some (OK, if mWriterPaused w
            then on_thread source_resume kVideoIndex (on_thread source_resume kAudioIndex (w\<lparr> mWriterPaused := False \<rparr>))
            else w)
        else do {
          w \<leftarrow> configure params w;
          w \<leftarrow> write_head junk w;
          let w = (case params of Some p \<Rightarrow>
              (case kKeyStartTime p of Some t \<Rightarrow> w\<lparr> mStartTimestampUs := t \<rparr> | None \<Rightarrow> w) | None \<Rightarrow> w);
          let w = initStream kVideoIndex (initStream kAudioIndex w);
          let w = on_thread (\<lambda>th. snd (source_start (source_status kAudioIndex) th)) kAudioIndex w;
          let w = on_thread (\<lambda>th. snd (source_start (source_status kVideoIndex) th)) kVideoIndex w;
          Some (OK, w\<lparr> mSinkRunning := True, mWriterStarted := True \<rparr>) })"

definition writer_pause :: "writer \<Rightarrow> int \<times> writer" where
  "writer_pause w =
     (if mInitCheck w \<noteq> OK then (OK, w)
      else (OK, on_thread source_pause kVideoIndex (on_thread source_pause kAudioIndex (w\<lparr> mWriterPaused := True \<rparr>))))"

section \<open>Stopping\<close>

definition release :: "writer \<Rightarrow> writer" where
  "release w = w\<lparr> mInitCheck := NO_INIT, mWriterStarted := False \<rparr>"

definition seek :: "u64 \<Rightarrow> wfile \<Rightarrow> wfile" where
  "seek off fd = fd\<lparr> offset := unat off \<rparr>"

definition put :: "byte list \<Rightarrow> wfile \<Rightarrow> wfile" where
  "put bs fd = fd\<lparr> content := store (offset fd) bs (content fd), offset := offset fd + length bs \<rparr>"

text \<open>The cues: into the space that was reserved for them, or to the end of the file.\<close>

definition write_cues :: "element list \<Rightarrow> writer \<Rightarrow> writer option" where
  "write_cues cuePoints w = do {
     let cues = WebmMaster kMkvCues cuePoints;
     cuesSize \<leftarrow> totalSize cues;
     if cuesSize \<noteq> mEstimatedCuesSize w \<and> cuesSize > mEstimatedCuesSize w - kMinEbmlVoidSize then do {
       let w = w\<lparr> mCuesOffset := of_nat (offset (mFile w)) \<rparr>;
       (_, fd) \<leftarrow> write_element cues (mFile w);
       Some (w\<lparr> mFile := fd \<rparr>) }
     else do {
       (cuesSize, fd) \<leftarrow> write_element cues (seek (mCuesOffset w) (mFile w));
       (_, fd) \<leftarrow> write_element (EbmlVoid (mEstimatedCuesSize w - cuesSize)) fd;
       Some (w\<lparr> mFile := fd \<rparr>) } }"

text \<open>The size of the segment, the duration, and the table of the sections.\<close>

definition patch_head :: "int \<Rightarrow> writer \<Rightarrow> writer option" where
  "patch_head maxDurationUs w = do {
     let fd = mFile w;
     let fd = fd\<lparr> offset := length (content fd) \<rparr>;
     let segmentSize = of_nat (offset fd) - mDataStart w;
     let fd = seek (mSegmentOffset w + of_int (sizeOf kMkvSegment)) fd;
     let segmentSizeCoded = encodeUnsigned_width segmentSize (nat (sizeOf kMkvUnknownLength));
     let fd = put (take (nat (sizeOf kMkvUnknownLength)) (serializeCodedUnsigned segmentSizeCoded)) fd;
     let durationOffset = mInfoOffset w + of_int (sizeOf kMkvInfo) + of_int (sizeOf (mInfoSize w))
           + of_int (sizeOf kMkvSegmentDuration) + of_int (sizeOf 8);
     bary \<leftarrow> serializePayload (WebmFloat64 kMkvSegmentDuration
       (double_of_nat (unat (of_int (maxDurationUs * 1000) div mCodeScale w))));
     let fd = put bary (seek durationOffset fd);
     let seekHead = WebmMaster kMkvSeekHead [
           SeekEntry kMkvInfo (mInfoOffset w - mDataStart w),
           SeekEntry kMkvTracks (mTracksOffset w - mDataStart w),
           SeekEntry kMkvCues (mCuesOffset w - mDataStart w)];
     (metaSeekSize, fd) \<leftarrow> write_element seekHead (seek (mDataStart w) fd);
     (_, fd) \<leftarrow> write_element (EbmlVoid (kMaxMetaSeekSize - metaSeekSize)) fd;
     Some (w\<lparr> mFile := fd \<rparr>) }"

text \<open>The streams with a thread, the first status that is an error, and the longest duration.\<close>

definition running_streams :: "writer \<Rightarrow> nat list" where
  "running_streams w = filter (\<lambda>i. mThread (mStreams w ! i) \<noteq> None) [0..<kMaxStreams]"

definition stop_error :: "(nat \<Rightarrow> int) \<Rightarrow> writer \<Rightarrow> int" where
  "stop_error stop_status w =
     foldl (\<lambda>err i. if err = OK \<and> stop_status i \<noteq> OK then stop_status i else err) OK (running_streams w)"

definition max_duration :: "(nat \<Rightarrow> int) \<Rightarrow> writer \<Rightarrow> int" where
  "max_duration duration w = foldl (\<lambda>m i. if duration i > m then duration i else m) 0 (running_streams w)"

text \<open>
  \<open>reset\<close>: given the status and the duration of the thread of a stream after its \<open>stop\<close>, and the
  file and the cue points that the sink thread leaves when it returns.
\<close>

definition writer_reset :: "(nat \<Rightarrow> int) \<Rightarrow> (nat \<Rightarrow> int) \<Rightarrow> wfile \<times> element list \<Rightarrow> writer \<Rightarrow> (int \<times> writer) option" where
  "writer_reset stop_status duration sink_end w =
     (if mInitCheck w \<noteq> OK then Some (OK, w)
      else if \<not> mWriterStarted w then Some (OK, release w)
      else
        let err = stop_error stop_status w;
            maxDurationUs = max_duration duration w;
            w = on_thread source_stop kVideoIndex (on_thread source_stop kAudioIndex w);
            w = w\<lparr> mSinkRunning := False, mFile := fst sink_end, mCuePoints := snd sink_end \<rparr> in
        if err \<noteq> OK then Some (err, release w)
        else do {
          w \<leftarrow> write_cues (mCuePoints w) w;
          w \<leftarrow> patch_head maxDurationUs (w\<lparr> mCuePoints := [] \<rparr>);
          Some (err, release w) })"

definition writer_stop :: "(nat \<Rightarrow> int) \<Rightarrow> (nat \<Rightarrow> int) \<Rightarrow> wfile \<times> element list \<Rightarrow> writer \<Rightarrow> (int \<times> writer) option" where
  "writer_stop = writer_reset"

definition reachedEOS :: "writer \<Rightarrow> bool" where
  "reachedEOS w \<longleftrightarrow> \<not> mSinkRunning w"

end
