(* ===== verification/WebmFile.thy ===== *)
theory WebmFile
  imports WebmWriter
begin

text \<open>
  The file of a finished recording: what \<open>start\<close>, the sink and \<open>reset\<close> of the WebM writer leave
  together. The places that \<open>reset\<close> overwrites are those that \<open>start\<close> left for it.
\<close>

section \<open>Small elements\<close>

lemma small_element:
  assumes "serializePayload e = Some body" "0 < length body" "length body < 127" "\<And>t. e \<noteq> EbmlVoid t"
  shows "serializeInto e = Some (serializeCodedUnsigned (mId e) @ of_nat (128 + length body) # body)"
    "mSize e = Some (of_nat (length body))"
proof -
  show n: "mSize e = Some (of_nat (length body))"
    using assms(3) by (intro size_is_length(1) [OF assms(1)]) simp
  have u: "unat (of_nat (length body) :: u64) = length body"
    using assms(3) by (simp add: unsigned_of_nat take_bit_nat_eq_self)
  have "serializePayloadSize e (of_nat (length body)) = Some [of_nat (128 + length body)]"
  proof (cases "of_nat (length body) :: u64" rule: encodeUnsigned_cases)
    case wide
    then show ?thesis using assms(3) u by simp
  next
    case (fits w v)
    have "w = 1"
    proof (rule ccontr)
      assume "w \<noteq> 1"
      then have "(2 :: nat) ^ 7 \<le> 2 ^ (7 * (w - 1))" using fits(1) by (intro power_increasing) simp_all
      moreover have "2 ^ (7 * (w - 1)) - 1 \<le> length body" using fits(6) u \<open>w \<noteq> 1\<close> by simp
      ultimately have "(2 :: nat) ^ 7 - 1 \<le> length body" by linarith
      then show False using assms(3) by simp
    qed
    then have v: "unat v = 128 + length body" using fits(4) u by simp
    then have "sizeOf v = 1" using sizeOf_bytes [of 0 v] assms(3) by simp
    moreover have "ucast v = (of_nat (128 + length body) :: byte)"
    proof -
      have "v = of_nat (unat v)" by simp
      then have "ucast v = (ucast (of_nat (unat v) :: u64) :: byte)" by simp
      also have "\<dots> = of_nat (unat v)" by (intro bit_word_eqI) (auto simp: bit_simps)
      finally show ?thesis unfolding v .
    qed
    ultimately have "serializeCodedUnsigned v = [of_nat (128 + length body)]"
      by (simp add: serializeCodedUnsigned_def low_byte_64)
    moreover have "of_nat (length body) \<noteq> (0 :: u64)" using u assms(2) by (metis neq0_conv unsigned_0)
    ultimately show ?thesis
      using fits(3) assms(4) by (cases e; simp add: serializePayloadSize_def; blast)
  qed
  then show "serializeInto e = Some (serializeCodedUnsigned (mId e) @ of_nat (128 + length body) # body)"
    using n assms(1) by (simp add: serializeInto_def)
qed

lemma void_bytes:
  assumes "2 \<le> unat t" "unat t < 2 ^ 56"
  shows "\<exists>bs. serializeInto (EbmlVoid t) = Some bs \<and> length bs = unat t"
proof -
  have t: "sint t = int (unat t)"
  proof -
    from assms(2) have "int (unat t) < int (2 ^ 56)" by (simp only: of_nat_less_iff)
    then have "uint t < 2 ^ 56" by simp
    moreover have "- (2 ^ 63) \<le> uint t" by (rule order_trans [of _ 0]) simp_all
    ultimately have "signed_take_bit 63 (uint t) = uint t" by (intro signed_take_bit_int_eq_self) auto
    then show ?thesis by (simp add: sint_uint)
  qed
  define n where "n = (of_int (voidSize (sint t)) :: u64)"
  have n: "mSize (EbmlVoid t) = Some n"
  proof -
    have "0 \<le> voidSize (int (unat t))" using assms(1) by (simp add: voidSize_def del: of_nat_unat)
    then show ?thesis unfolding n_def t by (simp add: t del: of_nat_unat)
  qed
  obtain neck where neck: "serializePayloadSize (EbmlVoid t) n = Some neck" by (simp add: serializePayloadSize_def)
  have "unat t = 1 + length neck + unat n" using void_size [OF neck n assms(2)] by auto
  moreover have "length (serializeCodedUnsigned kMkvVoid) = 1"
    using sizeOf_bytes [of 0 kMkvVoid] by (simp add: kMkvVoid_def serializeCodedUnsigned_def)
  ultimately show ?thesis using n neck by (auto simp: serializeInto_def)
qed

section \<open>Overwriting a file\<close>

lemma store_middle:
  assumes "off = length as" "length bs = length cs"
  shows "store off cs (as @ bs @ ds) = as @ cs @ ds"
  using assms by (simp add: store_def)

lemma serializeInto_total:
  assumes "serializeInto e = Some bs" "length bs < 2 ^ 64"
  shows "totalSize e = Some (of_nat (length bs))"
proof -
  obtain body where body: "serializePayload e = Some body" "length body \<le> length bs"
    using assms(1) by (auto simp: serializeInto_def split: bind_splits)
  then have "mSize e = Some (of_nat (length body))" using assms(2) by (intro size_is_length(1)) simp_all
  then show ?thesis by (rule serializeInto_size [OF assms(1) body(1)])
qed

lemma write_element_bytes:
  assumes "serializeInto e = Some bs" "length bs < 2 ^ 64"
  shows "write_element e fd = Some (of_nat (length bs),
    fd\<lparr> content := store (offset fd) bs (content fd), offset := offset fd + length bs \<rparr>)"
  using serializeInto_total [OF assms] assms
  by (simp add: write_element_def unsigned_of_nat take_bit_nat_eq_self)

lemma write_element_Some:
  assumes "write_element e fd = Some (n, fd')"
  shows "\<exists>bs. serializeInto e = Some bs"
  using assms by (auto simp: write_element_def split: bind_splits)

section \<open>The parts of the head\<close>

lemma payload_bytes:
  "serializePayload (WebmUnsigned i v) = Some (serializeCodedUnsigned v)"
  "serializePayload (WebmString i s) = Some s"
  "serializePayload (WebmFloat64 i d) = Some (serialize_loop 8 d)"
  by simp_all

lemma coded_positive [simp]: "serializeCodedUnsigned u \<noteq> []"
proof -
  have "0 < length (serializeCodedUnsigned u)" using sizeOf_positive [of u] by (simp add: serializeCodedUnsigned_def)
  then show ?thesis by simp
qed

lemma unsigned_into: "serializeInto (WebmUnsigned i v) =
    Some (serializeCodedUnsigned i @ of_nat (128 + length (serializeCodedUnsigned v)) # serializeCodedUnsigned v)"
  using small_element(1) [of "WebmUnsigned i v" "serializeCodedUnsigned v"] length_coded [of v] by simp

lemma double_into: "serializeInto (WebmFloat64 i d) = Some (serializeCodedUnsigned i @ 0x88 # serialize_loop 8 d)"
  using small_element(1) [of "WebmFloat64 i d" "serialize_loop 8 d"] by simp

lemma string_into: "0 < length s \<Longrightarrow> length s < 127 \<Longrightarrow>
    serializeInto (WebmString i s) = Some (serializeCodedUnsigned i @ of_nat (128 + length s) # s)"
  using small_element(1) [of "WebmString i s" s] by simp

lemma small_master:
  assumes "map serializeInto cs = map Some bss" "0 < length (concat bss)" "length (concat bss) < 127"
  shows "serializeInto (WebmMaster i cs) = Some (serializeCodedUnsigned i @ of_nat (128 + length (concat bss)) # concat bss)"
    "mSize (WebmMaster i cs) = Some (of_nat (length (concat bss)))"
proof -
  have in_into: "serializeInto c = Some (bytes_of c) \<and> bytes_of c \<in> set bss" if "c \<in> set cs" for c
  proof -
    have "serializeInto c \<in> Some ` set bss"
      using that assms(1) by (metis image_eqI list.set_map)
    then show ?thesis by (auto simp: bytes_of_def)
  qed
  have bss: "bss = map bytes_of cs"
  proof -
    have "map serializeInto cs = map (\<lambda>c. Some (bytes_of c)) cs" using in_into by simp
    then have "map Some bss = map Some (map bytes_of cs)" using assms(1) by simp
    moreover have "inj (map (Some :: byte list \<Rightarrow> _))" by (intro list.inj_map) (simp add: inj_def)
    ultimately show ?thesis by (rule injD [rotated])
  qed
  define k where "k = (\<lambda>c. length (bytes_of c))"
  have small: "k c < 127" if "c \<in> set cs" for c
  proof -
    have "k c \<le> (\<Sum>c\<leftarrow>cs. k c)" using that by (simp add: member_le_sum_list)
    moreover have "(\<Sum>c\<leftarrow>cs. k c) = length (concat bss)" by (simp add: bss k_def length_concat comp_def)
    ultimately show ?thesis using assms(3) by simp
  qed
  have sized: "sized c (k c)" if "c \<in> set cs" for c
    using in_into [OF that] small [OF that] serializeInto_total [of c "bytes_of c"] by (simp add: sized_def k_def)
  have "(\<Sum>c\<leftarrow>cs. k c) < 127" using assms(3) by (simp add: bss k_def length_concat comp_def)
  then have "serializePayload (WebmMaster i cs) = Some (concat bss)"
    using serializeChildren_eq [of cs k "[]" 0] sized in_into by (simp add: bss)
  from small_element [OF this assms(2,3)]
  show "serializeInto (WebmMaster i cs) = Some (serializeCodedUnsigned i @ of_nat (128 + length (concat bss)) # concat bss)"
    "mSize (WebmMaster i cs) = Some (of_nat (length (concat bss)))"
    by simp_all
qed

text \<open>The information of the segment: only the bytes of the duration depend on the duration.\<close>

definition info_tail :: "u64 \<Rightarrow> byte list" where
  "info_tail scale = serializeCodedUnsigned kMkvTimecodeScale
     @ of_nat (128 + length (serializeCodedUnsigned scale)) # serializeCodedUnsigned scale
     @ serializeCodedUnsigned kMkvMuxingApp @ 0x87 # c_str ''android''
     @ serializeCodedUnsigned kMkvWritingApp @ 0x87 # c_str ''android''"

lemma coded_ids:
  "serializeCodedUnsigned kMkvInfo = [0x15, 0x49, 0xA9, 0x66]"
  "serializeCodedUnsigned kMkvSegmentDuration = [0x44, 0x89]"
  "serializeCodedUnsigned kMkvTimecodeScale = [0x2A, 0xD7, 0xB1]"
  "serializeCodedUnsigned kMkvMuxingApp = [0x4D, 0x80]"
  "serializeCodedUnsigned kMkvWritingApp = [0x57, 0x41]"
  "serializeCodedUnsigned kMkvSegment = [0x18, 0x53, 0x80, 0x67]"
  "serializeCodedUnsigned kMkvSeekHead = [0x11, 0x4D, 0x9B, 0x74]"
  "serializeCodedUnsigned kMkvSeek = [0x4D, 0xBB]"
  "serializeCodedUnsigned kMkvSeekId = [0x53, 0xAB]"
  "serializeCodedUnsigned kMkvSeekPosition = [0x53, 0xAC]"
  "serializeCodedUnsigned kMkvTracks = [0x16, 0x54, 0xAE, 0x6B]"
  "serializeCodedUnsigned kMkvCues = [0x1C, 0x53, 0xBB, 0x6B]"
  by code_simp+

lemma coded_sizes:
  "sizeOf kMkvInfo = 4" "sizeOf kMkvSegmentDuration = 2" "sizeOf kMkvSegment = 4" "sizeOf 8 = 1"
  "sizeOf kMkvUnknownLength = 8"
  by code_simp+

lemma length_android: "length (c_str ''android'') = 7"
  by (simp add: c_str_def)

lemma length_info_tail: "length (info_tail scale) = 24 + length (serializeCodedUnsigned scale)"
  by (simp add: info_tail_def coded_ids length_android)

lemma segment_info:
  "serializeInto (SegmentInfo scale dur) = Some ([0x15, 0x49, 0xA9, 0x66, of_nat (128 + (11 + length (info_tail scale))),
     0x44, 0x89, 0x88] @ serialize_loop 8 dur @ info_tail scale)"
  "mSize (SegmentInfo scale dur) = Some (of_nat (11 + length (info_tail scale)))"
proof -
  define cs where "cs = [WebmFloat64 kMkvSegmentDuration dur, WebmUnsigned kMkvTimecodeScale scale,
     WebmString kMkvMuxingApp (c_str ''android''), WebmString kMkvWritingApp (c_str ''android'')]"
  define bss where "bss = [[0x44, 0x89, 0x88] @ serialize_loop 8 dur,
     serializeCodedUnsigned kMkvTimecodeScale @ of_nat (128 + length (serializeCodedUnsigned scale)) # serializeCodedUnsigned scale,
     serializeCodedUnsigned kMkvMuxingApp @ 0x87 # c_str ''android'',
     serializeCodedUnsigned kMkvWritingApp @ 0x87 # c_str ''android'']"
  have into: "map serializeInto cs = map Some bss"
    using string_into [of "c_str ''android''"] length_android
    by (simp add: cs_def bss_def double_into unsigned_into coded_ids(2))
  have c: "concat bss = [0x44, 0x89, 0x88] @ serialize_loop 8 dur @ info_tail scale"
    by (simp add: bss_def info_tail_def)
  then have len: "length (concat bss) = 11 + length (info_tail scale)" by simp
  then have "0 < length (concat bss)" "length (concat bss) < 127"
    using length_coded [of scale] by (simp_all add: length_info_tail del: length_coded)
  from small_master [OF into this] show
    "serializeInto (SegmentInfo scale dur) = Some ([0x15, 0x49, 0xA9, 0x66, of_nat (128 + (11 + length (info_tail scale))),
       0x44, 0x89, 0x88] @ serialize_loop 8 dur @ info_tail scale)"
    "mSize (SegmentInfo scale dur) = Some (of_nat (11 + length (info_tail scale)))"
    by (simp_all add: SegmentInfo_def cs_def [symmetric] len c coded_ids)
qed

text \<open>The table of the sections, and its size.\<close>

lemma seek_entry:
  "serializeInto (SeekEntry i off) = Some ([0x4D, 0xBB, of_nat (128 + (6 + length (serializeCodedUnsigned i) + length (serializeCodedUnsigned off)))]
     @ [0x53, 0xAB, of_nat (128 + length (serializeCodedUnsigned i))] @ serializeCodedUnsigned i
     @ [0x53, 0xAC, of_nat (128 + length (serializeCodedUnsigned off))] @ serializeCodedUnsigned off)"
proof -
  let ?cs = "[WebmUnsigned kMkvSeekId i, WebmUnsigned kMkvSeekPosition off]"
  let ?bss = "[[0x53, 0xAB, of_nat (128 + length (serializeCodedUnsigned i))] @ serializeCodedUnsigned i,
     [0x53, 0xAC, of_nat (128 + length (serializeCodedUnsigned off))] @ serializeCodedUnsigned off]"
  have "map serializeInto ?cs = map Some ?bss" by (simp add: unsigned_into coded_ids)
  moreover have "length (concat ?bss) = 6 + length (serializeCodedUnsigned i) + length (serializeCodedUnsigned off)" by simp
  moreover have "\<dots> < 127" using length_coded [of i] length_coded [of off] by linarith
  ultimately show ?thesis
    using small_master(1) [of ?cs ?bss kMkvSeek] by (simp add: SeekEntry_def coded_ids)
qed

definition seek_head :: "u64 \<Rightarrow> u64 \<Rightarrow> u64 \<Rightarrow> element" where
  "seek_head info tracks cues = WebmMaster kMkvSeekHead
     [SeekEntry kMkvInfo info, SeekEntry kMkvTracks tracks, SeekEntry kMkvCues cues]"

lemma seek_head_bytes:
  "\<exists>bs. serializeInto (seek_head info tracks cues) = Some bs
     \<and> length bs = 44 + length (serializeCodedUnsigned info) + length (serializeCodedUnsigned tracks) + length (serializeCodedUnsigned cues)"
proof -
  let ?cs = "[SeekEntry kMkvInfo info, SeekEntry kMkvTracks tracks, SeekEntry kMkvCues cues]"
  define bss where "bss = map bytes_of ?cs"
  have into: "map serializeInto ?cs = map Some bss" by (simp add: bss_def bytes_of_def seek_entry)
  have len: "length (concat bss) = 39 + length (serializeCodedUnsigned info) + length (serializeCodedUnsigned tracks) + length (serializeCodedUnsigned cues)"
    by (simp add: bss_def bytes_of_def seek_entry coded_ids)
  then have "0 < length (concat bss)" "length (concat bss) < 127"
    using length_coded [of info] length_coded [of tracks] length_coded [of cues] by linarith+
  from small_master(1) [OF into this] show ?thesis using len by (simp add: seek_head_def coded_ids)
qed

section \<open>The head that \<open>start\<close> writes\<close>

lemma write_element_grows: "write_element e fd = Some (n, fd') \<Longrightarrow> length (content fd) \<le> length (content fd')"
  using length_store(1) by (auto simp: write_element_def split: bind_splits)

lemma write_all_grows: "write_all es fd = Some (r, fd') \<Longrightarrow> length (content fd) \<le> length (content fd')"
proof (induction es fd arbitrary: r fd' rule: write_all.induct)
  case (3 e es fd)
  then obtain n fd1 r' where "write_element e fd = Some (n, fd1)" "write_all es fd1 = Some (r', fd')"
    by (auto simp: Let_def split: bind_splits)
  then show ?case using 3 write_element_grows [of e fd n fd1]
    by (metis (no_types, lifting) "3.IH" bind_eq_Some_conv order_trans write_all.simps(3))
qed (auto split: bind_splits)

lemma write_at_end:
  assumes "write_element e fd = Some (n, fd')" "offset fd = length (content fd)" "length (content fd') < 2 ^ 62"
  shows "\<exists>bs. serializeInto e = Some bs \<and> fd' = append_bytes bs fd"
proof -
  obtain bs where bs: "serializeInto e = Some bs" using write_element_Some [OF assms(1)] by blast
  have "content fd' = content fd @ bs"
    using assms(1,2) bs by (auto simp: write_element_def store_at_end split: bind_splits)
  then have "length bs < 2 ^ 64" using assms(3) by simp
  then show ?thesis
    using write_element_bytes [OF bs, of fd] assms(1,2) bs by (simp add: append_bytes_def store_at_end)
qed

text \<open>The bytes and the place of every element that is written.\<close>

definition into_option :: "element option \<Rightarrow> byte list option" where
  "into_option e = (case e of None \<Rightarrow> Some [] | Some e \<Rightarrow> serializeInto e)"

lemma into_option_simps [simp]: "into_option None = Some []" "into_option (Some e) = serializeInto e"
  by (simp_all add: into_option_def)

lemma write_all_places:
  assumes "write_all es fd = Some (r, fd')" "offset fd = length (content fd)" "length (content fd') < 2 ^ 62"
  shows "\<exists>bss. map into_option es = map Some bss \<and> fd' = append_bytes (concat bss) fd
    \<and> (\<forall>i e. i < length es \<and> es ! i = Some e \<longrightarrow>
        (\<exists>n. mSize e = Some n \<and> r ! i = Some (of_nat (length (content fd @ concat (take i bss))), n)))"
  using assms
proof (induction es fd arbitrary: r fd' rule: write_all.induct)
  case (1 fd)
  then show ?case by (intro exI [of _ "[]"]) (simp add: append_nothing)
next
  case (2 es fd)
  then obtain r' where r: "write_all es fd = Some (r', fd')" "r = None # r'" by (auto split: bind_splits)
  obtain bss where "map into_option es = map Some bss" "fd' = append_bytes (concat bss) fd"
      "\<forall>i e. i < length es \<and> es ! i = Some e \<longrightarrow>
        (\<exists>n. mSize e = Some n \<and> r' ! i = Some (of_nat (length (content fd @ concat (take i bss))), n))"
    using "2.IH" [OF r(1) "2.prems"(2,3)] by blast
  then show ?case
    using r(2) by (intro exI [of _ "[] # bss"]) (auto simp: nth_Cons' less_Suc_eq_0_disj)
next
  case (3 e es fd)
  obtain n m fd1 r' where w: "mSize e = Some n" "write_element e fd = Some (m, fd1)" "write_all es fd1 = Some (r', fd')"
      "r = Some (of_nat (offset fd), n) # r'"
    using "3.prems"(1) by (auto simp: Let_def split: bind_splits)
  have "length (content fd1) < 2 ^ 62" using write_all_grows [OF w(3)] "3.prems"(3) by simp
  then obtain bs where bs: "serializeInto e = Some bs" "fd1 = append_bytes bs fd"
    using write_at_end [OF w(2) "3.prems"(2)] by blast
  have "\<exists>bss. map into_option es = map Some bss \<and> fd' = append_bytes (concat bss) fd1
    \<and> (\<forall>i e. i < length es \<and> es ! i = Some e \<longrightarrow>
        (\<exists>n. mSize e = Some n \<and> r' ! i = Some (of_nat (length (content fd1 @ concat (take i bss))), n)))"
    using "3.IH" [OF refl w(1) w(2) _ w(3)] bs(2) "3.prems"(3) by simp
  then obtain bss where bss: "map into_option es = map Some bss" "fd' = append_bytes (concat bss) fd1"
      "\<forall>i e. i < length es \<and> es ! i = Some e \<longrightarrow>
        (\<exists>n. mSize e = Some n \<and> r' ! i = Some (of_nat (length (content fd1 @ concat (take i bss))), n))"
    by blast
  have places: "\<exists>n. mSize e' = Some n \<and> r ! i = Some (of_nat (length (content fd @ concat (take i (bs # bss)))), n)"
    if "i < length (Some e # es) \<and> (Some e # es) ! i = Some e'" for i e'
  proof (cases i)
    case 0
    then show ?thesis using that w(1,4) "3.prems"(2) by simp
  next
    case (Suc j)
    then have "\<exists>n. mSize e' = Some n \<and> r' ! j = Some (of_nat (length (content fd1 @ concat (take j bss))), n)"
      using that bss(3) by simp
    then show ?thesis using Suc w(4) bs(2) by simp
  qed
  have "map into_option (Some e # es) = map Some (bs # bss)" using bs(1) bss(1) by simp
  moreover have "fd' = append_bytes (concat (bs # bss)) fd" using bs(2) bss(2) by simp
  ultimately show ?case using places by blast
qed

text \<open>
  The head: after what the file had, the header, the segment of unknown size, space for the table of
  sections, the information, the tracks, and space for the cues; with the offsets that are kept.
\<close>

definition tracks_of :: "writer \<Rightarrow> element" where
  "tracks_of w = WebmMaster kMkvTracks (List.map_filter mTrackEntry (mStreams w))"

definition head_layout :: "byte list \<Rightarrow> byte list \<Rightarrow> byte list \<Rightarrow> byte list \<Rightarrow> byte list \<Rightarrow> writer \<Rightarrow> bool" where
  "head_layout before ebml void tracks space w \<longleftrightarrow>
     (let seg = before @ ebml; data = seg @ serializeCodedUnsigned kMkvSegment @ serializeCodedUnsigned kMkvUnknownLength;
          info = bytes_of (SegmentInfo (mCodeScale w) 0) in
      content (mFile w) = data @ void @ info @ tracks @ space
      \<and> mSegmentOffset w = of_nat (length seg) \<and> mDataStart w = of_nat (length data)
      \<and> mInfoOffset w = of_nat (length (data @ void)) \<and> mInfoSize w = of_nat (11 + length (info_tail (mCodeScale w)))
      \<and> mTracksOffset w = of_nat (length (data @ void @ info))
      \<and> mCuesOffset w = of_nat (length (data @ void @ info @ tracks))
      \<and> length void = 64 \<and> length space = unat (mEstimatedCuesSize w) \<and> 8 \<le> mEstimatedCuesSize w)"

lemma segment_bytes:
  "serializeInto (WebmMaster kMkvSegment []) = Some (serializeCodedUnsigned kMkvSegment @ serializeCodedUnsigned kMkvUnknownLength)"
  by (simp add: serializeInto_def serializePayloadSize_def)

lemma void_length:
  assumes "serializeInto (EbmlVoid t) = Some bs" "8 \<le> t" "t < 2 ^ 56"
  shows "length bs = unat t"
  using void_bytes [of t] assms by (auto simp: word_le_nat_alt word_less_nat_alt)

definition clamp_cues :: "int \<Rightarrow> int" where
  "clamp_cues n = (let n = (if n < 3 * 1024 then 3 * 1024 else n) in
     if n > 180 * 3000000 * 6 div 8000 then 180 * 3000000 * 6 div 8000 else n)"

lemma estimate_clamped: "\<exists>n. estimateCuesSize bitRate w = of_int (2 * clamp_cues n)"
  unfolding estimateCuesSize_def clamp_cues_def Let_def by (rule exI, rule refl)

lemma estimate_small: "8 \<le> estimateCuesSize bitRate w" "estimateCuesSize bitRate w < 2 ^ 56"
proof -
  obtain n where n: "estimateCuesSize bitRate w = of_int (2 * clamp_cues n)" using estimate_clamped by blast
  have c: "3072 \<le> clamp_cues n" "clamp_cues n \<le> 405000" by (simp_all add: clamp_cues_def Let_def)
  then have "uint (of_int (2 * clamp_cues n) :: u64) = 2 * clamp_cues n"
    by (simp add: unsigned_of_int take_bit_int_eq_self del: of_int_mult)
  then show "8 \<le> estimateCuesSize bitRate w" "estimateCuesSize bitRate w < 2 ^ 56"
    using c unfolding n by (simp_all add: word_less_def word_le_def del: of_int_mult)
qed

lemma configure_estimate:
  assumes "configure params w = Some w1" "mStreamableFile w1"
  shows "8 \<le> mEstimatedCuesSize w1" "mEstimatedCuesSize w1 < 2 ^ 56"
proof -
  obtain w0 bitRate where "w1 = w0\<lparr> mEstimatedCuesSize := estimateCuesSize bitRate w0 \<rparr>"
    using assms unfolding configure_def Let_def by (auto split: bind_splits if_splits)
  then show "8 \<le> mEstimatedCuesSize w1" "mEstimatedCuesSize w1 < 2 ^ 56"
    using estimate_small by simp_all
qed

lemma six_values:
  assumes "[a1, a2, a3, a4, a5, a6] = map Some bss"
  shows "\<exists>b1 b2 b3 b4 b5 b6. a1 = Some b1 \<and> a2 = Some b2 \<and> a3 = Some b3 \<and> a4 = Some b4 \<and> a5 = Some b5
    \<and> a6 = Some b6 \<and> bss = [b1, b2, b3, b4, b5, b6]"
  using assms by (auto simp: Cons_eq_map_conv)

lemma write_head_layout:
  assumes "write_head junk w = Some w1" "mStreamableFile w" "offset (mFile w) = length (content (mFile w))"
    "length (content (mFile w1)) < 2 ^ 62" "8 \<le> mEstimatedCuesSize w" "mEstimatedCuesSize w < 2 ^ 56"
  shows "\<exists>ebml void tracks space. serializeInto (EbmlHeader 1 1 4 8 2 2) = Some ebml
    \<and> serializeInto (tracks_of w) = Some tracks
    \<and> head_layout (content (mFile w)) ebml void tracks space w1"
proof -
  let ?es = "[Some (EbmlHeader 1 1 4 8 2 2), Some (WebmMaster kMkvSegment []), Some (EbmlVoid kMaxMetaSeekSize),
        Some (SegmentInfo (mCodeScale w) 0), Some (tracks_of w), Some (EbmlVoid (mEstimatedCuesSize w))]"
  obtain places fd where all: "write_all ?es (mFile w) = Some (places, fd)"
    and w1: "w1 = w\<lparr> mFile := fd,
       mSegmentOffset := (case places ! 1 of Some (off, _) \<Rightarrow> off | None \<Rightarrow> any_offset junk),
       mDataStart := (case places ! 2 of Some (off, _) \<Rightarrow> off | None \<Rightarrow> any_offset junk),
       mInfoOffset := (case places ! 3 of Some (off, _) \<Rightarrow> off | None \<Rightarrow> any_offset junk),
       mInfoSize := (case places ! 3 of Some (_, n) \<Rightarrow> n | None \<Rightarrow> any_offset junk),
       mTracksOffset := (case places ! 4 of Some (off, _) \<Rightarrow> off | None \<Rightarrow> any_offset junk),
       mCuesOffset := (case places ! 5 of Some (off, _) \<Rightarrow> off | None \<Rightarrow> any_offset junk) \<rparr>"
    using assms(1,2) unfolding write_head_def Let_def tracks_of_def by (auto split: bind_splits)
  have "length (content fd) < 2 ^ 62" using assms(4) w1 by simp
  from write_all_places [OF all assms(3) this] obtain bss where
    bss: "map into_option ?es = map Some bss" "fd = append_bytes (concat bss) (mFile w)"
      "\<forall>i e. i < length ?es \<and> ?es ! i = Some e \<longrightarrow> (\<exists>n. mSize e = Some n
        \<and> places ! i = Some (of_nat (length (content (mFile w) @ concat (take i bss))), n))"
    by blast
  obtain ebml void tracks space where
    b: "serializeInto (EbmlHeader 1 1 4 8 2 2) = Some ebml" "serializeInto (EbmlVoid kMaxMetaSeekSize) = Some void"
      "serializeInto (tracks_of w) = Some tracks" "serializeInto (EbmlVoid (mEstimatedCuesSize w)) = Some space"
      "bss = [ebml, serializeCodedUnsigned kMkvSegment @ serializeCodedUnsigned kMkvUnknownLength, void,
        bytes_of (SegmentInfo (mCodeScale w) 0), tracks, space]"
  proof -
    have "[serializeInto (EbmlHeader 1 1 4 8 2 2), serializeInto (WebmMaster kMkvSegment []),
        serializeInto (EbmlVoid kMaxMetaSeekSize), serializeInto (SegmentInfo (mCodeScale w) 0), serializeInto (tracks_of w),
        serializeInto (EbmlVoid (mEstimatedCuesSize w))] = map Some bss"
      using bss(1) by (simp only: list.map into_option_simps)
    from six_values [OF this] show ?thesis
      using that segment_bytes unfolding bytes_of_def by (metis option.inject option.sel)
  qed
  have place: "places ! i = Some (of_nat (length (content (mFile w) @ concat (take i bss))), n)"
    if "i < 6" "?es ! i = Some e" "mSize e = Some n" for i e n
  proof -
    have "i < length ?es \<and> ?es ! i = Some e" using that(1,2) by simp
    then obtain n' where "mSize e = Some n'"
        "places ! i = Some (of_nat (length (content (mFile w) @ concat (take i bss))), n')"
      using bss(3) by blast
    then show ?thesis using that(3) by simp
  qed
  obtain n1 n2 n4 n5 where sizes: "mSize (WebmMaster kMkvSegment []) = Some n1" "mSize (EbmlVoid kMaxMetaSeekSize) = Some n2"
      "mSize (tracks_of w) = Some n4" "mSize (EbmlVoid (mEstimatedCuesSize w)) = Some n5"
    using b(2-4) segment_bytes by (auto simp: serializeInto_def split: bind_splits)
  have "length void = 64" using void_length [OF b(2)] by (simp add: kMaxMetaSeekSize_def)
  moreover have "length space = unat (mEstimatedCuesSize w)" using void_length [OF b(4) assms(5,6)] .
  moreover have "concat (take 1 bss) = ebml" "concat (take 2 bss) = ebml @ serializeCodedUnsigned kMkvSegment @ serializeCodedUnsigned kMkvUnknownLength"
      "concat (take 3 bss) = ebml @ serializeCodedUnsigned kMkvSegment @ serializeCodedUnsigned kMkvUnknownLength @ void"
      "concat (take 4 bss) = ebml @ serializeCodedUnsigned kMkvSegment @ serializeCodedUnsigned kMkvUnknownLength @ void
        @ bytes_of (SegmentInfo (mCodeScale w) 0)"
      "concat (take 5 bss) = ebml @ serializeCodedUnsigned kMkvSegment @ serializeCodedUnsigned kMkvUnknownLength @ void
        @ bytes_of (SegmentInfo (mCodeScale w) 0) @ tracks"
    by (simp_all add: b(5))
  ultimately have "head_layout (content (mFile w)) ebml void tracks space w1"
    using place [of 1, OF _ _ sizes(1)] place [of 2, OF _ _ sizes(2)] place [of 3, OF _ _ segment_info(2)]
      place [of 4, OF _ _ sizes(3)] place [of 5, OF _ _ sizes(4)] assms(5)
    unfolding head_layout_def Let_def w1 by (simp add: bss(2) b(5))
  then show ?thesis using b(1,3) by blast
qed

lemma head_layout_thread [simp]:
  "head_layout before ebml void tracks space (on_thread g i w) = head_layout before ebml void tracks space w"
  "head_layout before ebml void tracks space (initStream i w) = head_layout before ebml void tracks space w"
  by (simp_all add: head_layout_def on_thread_def initStream_def Let_def)

lemma thread_frame [simp]:
  "mStreamableFile (on_thread g i w) = mStreamableFile w" "mStreamableFile (initStream i w) = mStreamableFile w"
  "mInitCheck (on_thread g i w) = mInitCheck w" "mInitCheck (initStream i w) = mInitCheck w"
  "mFile (on_thread g i w) = mFile w" "mFile (initStream i w) = mFile w"
  "mEstimatedCuesSize (on_thread g i w) = mEstimatedCuesSize w" "mEstimatedCuesSize (initStream i w) = mEstimatedCuesSize w"
  "mWriterStarted (on_thread g i w) = mWriterStarted w" "mCodeScale (on_thread g i w) = mCodeScale w"
  by (simp_all add: on_thread_def initStream_def Let_def)

lemma configure_frame:
  "configure params w = Some w1 \<Longrightarrow> mFile w1 = mFile w \<and> mStreams w1 = mStreams w \<and> mInitCheck w1 = mInitCheck w"
  unfolding configure_def Let_def by (auto split: bind_splits if_splits option.splits)

lemma configure_limited:
  "configure params w = Some w1 \<Longrightarrow> 0 < mMaxFileSizeLimitBytes w \<Longrightarrow> mMaxFileSizeLimitBytes w < 5 * 1024 * 1024
    \<Longrightarrow> mEstimatedCuesSize w1 = mEstimatedCuesSize w"
  unfolding configure_def Let_def kMinStreamableFileSizeInBytes_def by (auto split: bind_splits if_splits option.splits)

lemma write_head_frame:
  "write_head junk w = Some w1 \<Longrightarrow> mStreamableFile w1 = mStreamableFile w \<and> mStreams w1 = mStreams w
    \<and> mInitCheck w1 = mInitCheck w \<and> mEstimatedCuesSize w1 = mEstimatedCuesSize w \<and> mCodeScale w1 = mCodeScale w"
  unfolding write_head_def Let_def by (auto split: bind_splits)

lemma head_layout_update [simp]:
  "head_layout before ebml void tracks space (w\<lparr> mStartTimestampUs := t \<rparr>) = head_layout before ebml void tracks space w"
  "head_layout before ebml void tracks space (w\<lparr> mSinkRunning := b, mWriterStarted := c \<rparr>) = head_layout before ebml void tracks space w"
  by (simp_all add: head_layout_def Let_def)

text \<open>What \<open>start\<close> returns: the head is written, and the rest of the writer follows from it.\<close>

lemma writer_start_head:
  assumes "writer_start junk st params w = Some (OK, w1)" "\<not> mWriterStarted w"
  obtains wc wh where "configure params wc = Some wh" "mFile wc = mFile w" "mStreams wc = mStreams w" "mInitCheck wc = OK"
    "mEstimatedCuesSize wc = mEstimatedCuesSize w" "mMaxFileSizeLimitBytes wc = mMaxFileSizeLimitBytes w"
    "\<exists>w2. write_head junk wh = Some w2 \<and> mFile w1 = mFile w2 \<and> mStreamableFile w1 = mStreamableFile w2
      \<and> mInitCheck w1 = mInitCheck w2 \<and> mWriterStarted w1 \<and> mEstimatedCuesSize w1 = mEstimatedCuesSize w2
      \<and> (\<forall>before ebml void tracks space. head_layout before ebml void tracks space w2
          \<longrightarrow> head_layout before ebml void tracks space w1)"
proof -
  have ok: "mInitCheck w = OK" using assms(1) by (auto simp: writer_start_def OK_def UNKNOWN_ERROR_def split: if_splits)
  have tracks: "\<not> (mTrackEntry (mStreams w ! kVideoIndex) = None \<and> mTrackEntry (mStreams w ! kAudioIndex) = None)"
  proof
    assume "mTrackEntry (mStreams w ! kVideoIndex) = None \<and> mTrackEntry (mStreams w ! kAudioIndex) = None"
    then have "writer_start junk st params w = Some (INVALID_OPERATION, w)" using ok by (simp add: writer_start_def)
    then show False using assms(1) by (simp add: OK_def INVALID_OPERATION_def)
  qed
  define wl where "wl = (if mMaxFileSizeLimitBytes w \<noteq> 0 then w\<lparr> mIsFileSizeLimitExplicitlyRequested := True \<rparr> else w)"
  define wc where "wc = (case params of Some p \<Rightarrow> wl\<lparr> mIsRealTimeRecording :=
      (case kKeyRealTimeRecording p of Some i \<Rightarrow> i \<noteq> 0 | None \<Rightarrow> any_isRealTimeRecording junk) \<rparr> | None \<Rightarrow> wl)"
  have wc: "mFile wc = mFile w" "mStreams wc = mStreams w" "mInitCheck wc = OK" "\<not> mWriterStarted wc"
      "mEstimatedCuesSize wc = mEstimatedCuesSize w" "mMaxFileSizeLimitBytes wc = mMaxFileSizeLimitBytes w"
    using ok assms(2) by (simp_all add: wc_def wl_def split: option.split)
  obtain wh w2 where h: "configure params wc = Some wh" "write_head junk wh = Some w2"
    and w1: "w1 = (on_thread (\<lambda>th. snd (source_start (st kVideoIndex) th)) kVideoIndex
        (on_thread (\<lambda>th. snd (source_start (st kAudioIndex) th)) kAudioIndex
          (initStream kVideoIndex (initStream kAudioIndex
            (case params of Some p \<Rightarrow> (case kKeyStartTime p of Some t \<Rightarrow> w2\<lparr> mStartTimestampUs := t \<rparr> | None \<Rightarrow> w2)
              | None \<Rightarrow> w2)))))\<lparr> mSinkRunning := True, mWriterStarted := True \<rparr>"
    using assms(1) ok tracks wc(4) unfolding writer_start_def Let_def wl_def [symmetric] wc_def [symmetric]
    by (simp split: bind_splits)
  have "\<exists>w2. write_head junk wh = Some w2 \<and> mFile w1 = mFile w2 \<and> mStreamableFile w1 = mStreamableFile w2
      \<and> mInitCheck w1 = mInitCheck w2 \<and> mWriterStarted w1 \<and> mEstimatedCuesSize w1 = mEstimatedCuesSize w2
      \<and> (\<forall>before ebml void tracks space. head_layout before ebml void tracks space w2
          \<longrightarrow> head_layout before ebml void tracks space w1)"
    using h(2) unfolding w1 by (intro exI [of _ w2]) (simp split: option.split)
  then show ?thesis using that h(1) wc(1-3,5,6) by blast
qed

section \<open>The places that \<open>reset\<close> overwrites\<close>

lemma write_over:
  assumes "serializeInto e = Some bs" "content fd = as @ old @ ds" "length old = length bs" "offset fd = length as"
    "length bs < 2 ^ 64"
  shows "write_element e fd = Some (of_nat (length bs), fd\<lparr> content := as @ bs @ ds, offset := length (as @ bs) \<rparr>)"
  using write_element_bytes [OF assms(1,5), of fd] store_middle [OF assms(4), of old bs ds] assms(2-4) by simp

lemma put_over:
  assumes "content fd = as @ old @ ds" "length old = length bs" "offset fd = length as"
  shows "put bs fd = fd\<lparr> content := as @ bs @ ds, offset := length (as @ bs) \<rparr>"
  using store_middle [OF assms(3), of old bs ds] assms by (simp add: put_def)

lemma unat_length: "length xs < 2 ^ 64 \<Longrightarrow> unat (of_nat (length xs) :: u64) = length xs"
  by (simp add: unsigned_of_nat take_bit_nat_eq_self)

lemma seek_content [simp]: "content (seek off fd) = content fd" "offset (seek off fd) = unat off"
  by (simp_all add: seek_def)

text \<open>The cues and a void fill the space that was reserved for the cues.\<close>

lemma write_cues_fit:
  assumes "serializeInto (WebmMaster kMkvCues cues) = Some cue_bytes" "content (mFile w) = as @ space @ ds"
    "mCuesOffset w = of_nat (length as)" "length space = unat (mEstimatedCuesSize w)"
    "length cue_bytes + 2 \<le> length space" "length (content (mFile w)) < 2 ^ 56"
  shows "\<exists>void off. serializeInto (EbmlVoid (mEstimatedCuesSize w - of_nat (length cue_bytes))) = Some void
    \<and> length cue_bytes + length void = length space
    \<and> write_cues cues w = Some (w\<lparr> mFile := (mFile w)\<lparr> content := as @ cue_bytes @ void @ ds, offset := off \<rparr> \<rparr>)"
proof -
  let ?est = "mEstimatedCuesSize w"
  define n where "n = (of_nat (length cue_bytes) :: u64)"
  have len: "length as + length space < 2 ^ 56" using assms(2,6) by simp
  then have small: "length cue_bytes < 2 ^ 64" "length as < 2 ^ 64" using assms(5) by simp_all
  have n: "unat n = length cue_bytes" using small(1) by (simp add: n_def unat_length)
  have le: "n \<le> ?est" using n assms(4,5) by (simp add: word_le_nat_alt)
  have rest: "unat (?est - n) = length space - length cue_bytes" using le n assms(4) by (simp add: unat_sub)
  obtain void where void: "serializeInto (EbmlVoid (?est - n)) = Some void" "length void = length space - length cue_bytes"
  proof -
    have "2 \<le> unat (?est - n)" "unat (?est - n) < 2 ^ 56" using rest assms(5) len by linarith+
    from void_bytes [OF this] show ?thesis using that rest by auto
  qed
  have "\<not> (n \<noteq> ?est \<and> n > ?est - kMinEbmlVoidSize)"
  proof -
    have "2 \<le> unat ?est" using assms(4,5) by simp
    then have "unat (?est - 2) = unat ?est - 2" by (simp add: unat_sub word_le_nat_alt)
    then show ?thesis using n assms(4,5) by (auto simp: kMinEbmlVoidSize_def word_less_nat_alt)
  qed
  moreover have "totalSize (WebmMaster kMkvCues cues) = Some n"
    using serializeInto_total [OF assms(1) small(1)] by (simp add: n_def)
  moreover obtain s1 s2 where space: "space = s1 @ s2" "length s1 = length cue_bytes" "length s2 = length void"
    using assms(5) void(2) by (intro that [of "take (length cue_bytes) space" "drop (length cue_bytes) space"]) simp_all
  moreover have "write_element (WebmMaster kMkvCues cues) (seek (mCuesOffset w) (mFile w))
      = Some (n, (seek (mCuesOffset w) (mFile w))\<lparr> content := as @ cue_bytes @ s2 @ ds, offset := length (as @ cue_bytes) \<rparr>)"
    unfolding n_def using assms(2,3) space(1,2) small unat_length [OF small(2)]
    by (intro write_over [OF assms(1), where old = s1]) simp_all
  moreover have "write_element (EbmlVoid (?est - n))
      ((seek (mCuesOffset w) (mFile w))\<lparr> content := as @ cue_bytes @ s2 @ ds, offset := length (as @ cue_bytes) \<rparr>)
      = Some (of_nat (length void), ((seek (mCuesOffset w) (mFile w))\<lparr> content := as @ cue_bytes @ s2 @ ds,
          offset := length (as @ cue_bytes) \<rparr>)\<lparr> content := (as @ cue_bytes) @ void @ ds, offset := length ((as @ cue_bytes) @ void) \<rparr>)"
    using space(3) void(2) len by (intro write_over [OF void(1), where old = s2]) simp_all
  ultimately have "write_cues cues w
      = Some (w\<lparr> mFile := (mFile w)\<lparr> content := as @ cue_bytes @ void @ ds, offset := length (as @ cue_bytes @ void) \<rparr> \<rparr>)"
    by (auto simp: write_cues_def Let_def seek_def)
  then show ?thesis using void assms(5) unfolding n_def by auto
qed

text \<open>
  The size of the segment in its eight bytes, the duration in its eight bytes, and the table of the
  sections with a void in the 64 bytes that were kept for it.
\<close>

definition segment_size_bytes :: "nat \<Rightarrow> byte list" where
  "segment_size_bytes n = serializeCodedUnsigned (encodeUnsigned_width (of_nat n) 8)"

lemma length_segment_size: "n < 2 ^ 56 \<Longrightarrow> length (segment_size_bytes n) = 8"
  unfolding segment_size_bytes_def by (intro read_wide_size(1)) (simp_all add: unsigned_of_nat take_bit_nat_eq_self)

definition duration_bits :: "int \<Rightarrow> u64 \<Rightarrow> u64" where
  "duration_bits us scale = double_of_nat (unat (of_int (us * 1000) div scale))"

lemma coded_one: "unat u < 256 \<Longrightarrow> length (serializeCodedUnsigned u) = 1"
proof (cases "unat u = 0")
  case True
  then have "u = 0" by (simp add: unat_eq_0)
  then show ?thesis by (simp add: serializeCodedUnsigned_def sizeOf_0)
next
  case False
  then show "unat u < 256 \<Longrightarrow> ?thesis" using sizeOf_bytes [of 0 u] by (simp add: serializeCodedUnsigned_def)
qed

lemma info_bytes:
  "bytes_of (SegmentInfo scale dur) = [0x15, 0x49, 0xA9, 0x66, of_nat (128 + (11 + length (info_tail scale))),
     0x44, 0x89, 0x88] @ serialize_loop 8 dur @ info_tail scale"
  by (simp add: bytes_of_def segment_info)

lemma info_size_one: "sizeOf (of_nat (11 + length (info_tail scale))) = 1"
proof -
  have "length (info_tail scale) \<le> 32" using length_coded [of scale] by (simp add: length_info_tail del: length_coded)
  then have u: "unat (of_nat (11 + length (info_tail scale)) :: u64) = 11 + length (info_tail scale)"
    by (simp add: unsigned_of_nat take_bit_nat_eq_self del: of_nat_add)
  then show ?thesis using \<open>length (info_tail scale) \<le> 32\<close> by (intro sizeOf_bytes [of 0, simplified]) simp_all
qed

lemma patch_head_places:
  assumes "head_layout before ebml void tracks space w0" "mSegmentOffset w = mSegmentOffset w0" "mDataStart w = mDataStart w0"
    "mInfoOffset w = mInfoOffset w0" "mInfoSize w = mInfoSize w0" "mTracksOffset w = mTracksOffset w0"
    "mCuesOffset w = mCuesOffset w0" "mCodeScale w = mCodeScale w0"
    "content (mFile w) = (before @ ebml @ serializeCodedUnsigned kMkvSegment) @ serializeCodedUnsigned kMkvUnknownLength
      @ void @ bytes_of (SegmentInfo (mCodeScale w0) 0) @ tracks @ rest"
    "length (content (mFile w)) < 2 ^ 56"
  shows "\<exists>seek void' w'. patch_head us w = Some w' \<and> length (seek @ void') = 64
    \<and> content (mFile w') = (before @ ebml @ serializeCodedUnsigned kMkvSegment)
        @ segment_size_bytes (length (void @ bytes_of (SegmentInfo (mCodeScale w0) 0) @ tracks @ rest))
        @ seek @ void' @ bytes_of (SegmentInfo (mCodeScale w0) (duration_bits us (mCodeScale w0))) @ tracks @ rest
    \<and> serializeInto (seek_head 64 (of_nat (64 + length (bytes_of (SegmentInfo (mCodeScale w0) 0))))
        (of_nat (64 + length (bytes_of (SegmentInfo (mCodeScale w0) 0) @ tracks)))) = Some seek
    \<and> serializeInto (EbmlVoid (of_nat (length void'))) = Some void'"
proof -
  let ?scale = "mCodeScale w0"
  define pre where "pre = before @ ebml @ serializeCodedUnsigned kMkvSegment"
  define usize where "usize = serializeCodedUnsigned kMkvUnknownLength"
  define info where "info = bytes_of (SegmentInfo ?scale 0)"
  define info' where "info' = bytes_of (SegmentInfo ?scale (duration_bits us ?scale))"
  define body where "body = void @ info @ tracks @ rest"
  define ssize where "ssize = segment_size_bytes (length body)"
  have c: "content (mFile w) = pre @ usize @ body"
    using assms(9) by (simp add: pre_def usize_def body_def info_def)
  have usize: "length usize = 8" using read_unknown_size(2) by (simp add: usize_def)
  have lens: "length pre + 8 + length body < 2 ^ 56" using assms(10) usize by (simp add: c)
  have void: "length void = 64" using assms(1) by (simp add: head_layout_def Let_def)
  have pre: "length (before @ ebml) + 4 = length pre" by (simp add: pre_def coded_ids)
  have offs: "mSegmentOffset w = of_nat (length (before @ ebml))" "mDataStart w = of_nat (length (pre @ usize))"
      "mInfoOffset w = of_nat (length (pre @ usize @ void))" "mInfoSize w = of_nat (11 + length (info_tail ?scale))"
      "mTracksOffset w = of_nat (length (pre @ usize @ void @ info))"
      "mCuesOffset w = of_nat (length (pre @ usize @ void @ info @ tracks))"
    using assms(1-7) by (simp_all add: head_layout_def Let_def pre_def usize_def info_def)
  have big: "length (pre @ usize @ body) < 2 ^ 64" using lens usize by simp
  text \<open>The size of the segment.\<close>
  have size_eq: "of_nat (length (content (mFile w))) - mDataStart w = of_nat (length body)"
    by (simp add: c offs(2))
  have ssize: "length ssize = 8" using length_segment_size lens by (simp add: ssize_def)
  have seg_at: "unat (mSegmentOffset w + of_int (sizeOf kMkvSegment)) = length pre"
  proof -
    have "mSegmentOffset w + of_int (sizeOf kMkvSegment) = of_nat (length pre)"
      by (simp add: offs(1) coded_sizes flip: pre)
    then show ?thesis using unat_length [of pre] lens by simp
  qed
  define fd1 where "fd1 = put ssize (seek (mSegmentOffset w + of_int (sizeOf kMkvSegment))
      ((mFile w)\<lparr> offset := length (content (mFile w)) \<rparr>))"
  have fd1: "content fd1 = pre @ ssize @ body"
    unfolding fd1_def using c usize ssize seg_at by (subst put_over [of _ pre usize body]) simp_all
  text \<open>The duration.\<close>
  define dur where "dur = duration_bits us ?scale"
  define h where "h = [0x15, 0x49, 0xA9, 0x66, of_nat (128 + (11 + length (info_tail ?scale))), 0x44, 0x89, 0x88 :: byte]"
  have info_eq: "info = h @ serialize_loop 8 0 @ info_tail ?scale" "info' = h @ serialize_loop 8 dur @ info_tail ?scale"
    by (simp_all add: info_def info'_def h_def dur_def info_bytes)
  define doff where "doff = mInfoOffset w + of_int (sizeOf kMkvInfo) + of_int (sizeOf (mInfoSize w))
           + of_int (sizeOf kMkvSegmentDuration) + of_int (sizeOf 8)"
  have doff: "unat doff = length (pre @ ssize @ void @ h)"
  proof -
    have "doff = of_nat (length (pre @ usize @ void) + 8)"
      unfolding doff_def offs(4) info_size_one coded_sizes offs(3) by simp
    moreover have "length (pre @ usize @ void) + 8 = length (pre @ ssize @ void @ h)" using usize ssize by (simp add: h_def)
    ultimately have "doff = of_nat (length (pre @ ssize @ void @ h))" by (simp only:)
    moreover have "length (pre @ ssize @ void @ h) < 2 ^ 64"
      using big usize ssize by (simp add: body_def info_eq(1))
    ultimately show ?thesis using unat_length [of "pre @ ssize @ void @ h"] by (simp only:)
  qed
  define fd2 where "fd2 = put (serialize_loop 8 dur) (seek doff fd1)"
  have fd2: "content fd2 = pre @ ssize @ void @ info' @ tracks @ rest"
    unfolding fd2_def using fd1 doff
    by (subst put_over [of _ "pre @ ssize @ void @ h" "serialize_loop 8 0" "info_tail ?scale @ tracks @ rest"])
      (simp_all add: body_def info_eq)
  text \<open>The table of the sections.\<close>
  define e where "e = seek_head 64 (of_nat (64 + length info)) (of_nat (64 + length (info @ tracks)))"
  have rel: "mInfoOffset w - mDataStart w = 64" "mTracksOffset w - mDataStart w = of_nat (64 + length info)"
      "mCuesOffset w - mDataStart w = of_nat (64 + length (info @ tracks))"
    by (simp_all add: offs void)
  obtain sk where sk: "serializeInto e = Some sk" "length sk \<le> 60"
  proof -
    have "length info \<le> 48" using length_coded [of ?scale] by (simp add: info_eq(1) h_def length_info_tail del: length_coded)
    then have "length (serializeCodedUnsigned (of_nat (64 + length info))) = 1"
      by (intro coded_one) (simp add: unsigned_of_nat take_bit_nat_eq_self del: of_nat_add)
    moreover have "length (serializeCodedUnsigned 64) = 1" by (intro coded_one) simp
    ultimately show ?thesis
      using seek_head_bytes [of 64 "of_nat (64 + length info)" "of_nat (64 + length (info @ tracks))"]
        length_coded [of "of_nat (64 + length (info @ tracks))"] that
      by (auto simp: e_def simp del: length_coded of_nat_add)
  qed
  define m where "m = (of_nat (length sk) :: u64)"
  have rest_size: "unat (kMaxMetaSeekSize - m) = 64 - length sk"
    using sk(2) unat_length [of sk] by (simp add: m_def kMaxMetaSeekSize_def unat_sub word_le_nat_alt)
  obtain vd where vd: "serializeInto (EbmlVoid (kMaxMetaSeekSize - m)) = Some vd" "length vd = 64 - length sk"
  proof -
    have "2 \<le> unat (kMaxMetaSeekSize - m)" "unat (kMaxMetaSeekSize - m) < 2 ^ 56" using rest_size sk(2) by simp_all
    from void_bytes [OF this] show ?thesis using that rest_size by auto
  qed
  obtain v1 v2 where v: "void = v1 @ v2" "length v1 = length sk" "length v2 = length vd"
    using sk(2) vd(2) void by (intro that [of "take (length sk) void" "drop (length sk) void"]) simp_all
  have data_at: "unat (mDataStart w) = length (pre @ ssize)"
    using unat_length [of "pre @ usize"] big usize ssize by (simp add: offs(2))
  have w1: "write_element e (seek (mDataStart w) fd2) = Some (m, (seek (mDataStart w) fd2)\<lparr>
      content := (pre @ ssize) @ sk @ v2 @ info' @ tracks @ rest, offset := length ((pre @ ssize) @ sk) \<rparr>)"
    unfolding m_def using fd2 v(1,2) data_at sk(2) by (intro write_over [OF sk(1), where old = v1]) simp_all
  have w2: "write_element (EbmlVoid (kMaxMetaSeekSize - m)) ((seek (mDataStart w) fd2)\<lparr>
      content := (pre @ ssize) @ sk @ v2 @ info' @ tracks @ rest, offset := length ((pre @ ssize) @ sk) \<rparr>)
    = Some (of_nat (length vd), ((seek (mDataStart w) fd2)\<lparr>
      content := (pre @ ssize) @ sk @ v2 @ info' @ tracks @ rest, offset := length ((pre @ ssize) @ sk) \<rparr>)\<lparr>
      content := (pre @ ssize @ sk) @ vd @ info' @ tracks @ rest, offset := length ((pre @ ssize @ sk) @ vd) \<rparr>)"
    using v(3) vd(2) by (intro write_over [OF vd(1), where old = v2]) simp_all
  have "patch_head us w = Some (w\<lparr> mFile := (mFile w)\<lparr> content := (pre @ ssize @ sk) @ vd @ info' @ tracks @ rest,
      offset := length ((pre @ ssize @ sk) @ vd) \<rparr> \<rparr>)"
  proof -
    have eight: "nat (sizeOf kMkvUnknownLength) = 8" by (simp add: coded_sizes)
    have size_bytes: "take 8 (serializeCodedUnsigned (encodeUnsigned_width (of_nat (length body)) 8)) = ssize"
      using ssize by (simp add: ssize_def segment_size_bytes_def)
    have bary: "serializePayload (WebmFloat64 kMkvSegmentDuration
        (double_of_nat (unat (of_int (us * 1000) div mCodeScale w)))) = Some (serialize_loop 8 dur)"
      by (simp add: dur_def duration_bits_def assms(8))
    have sections: "WebmMaster kMkvSeekHead [SeekEntry kMkvInfo (mInfoOffset w - mDataStart w),
           SeekEntry kMkvTracks (mTracksOffset w - mDataStart w), SeekEntry kMkvCues (mCuesOffset w - mDataStart w)] = e"
      unfolding e_def seek_head_def rel ..
    have at_end: "offset ((mFile w)\<lparr> offset := n \<rparr>) = n" for n by simp
    have "patch_head us w = do {
        (metaSeekSize, fd) \<leftarrow> write_element e (seek (mDataStart w) fd2);
        (_, fd) \<leftarrow> write_element (EbmlVoid (kMaxMetaSeekSize - metaSeekSize)) fd;
        Some (w\<lparr> mFile := fd \<rparr>) }"
      unfolding patch_head_def Let_def doff_def [symmetric] sections bary eight at_end size_eq size_bytes fd1_def [symmetric]
        fd2_def [symmetric] bind.bind_lunit ..
    then show ?thesis unfolding w1 bind.bind_lunit prod.case w2
      by (simp add: seek_def fd2_def fd1_def put_def)
  qed
  moreover have "of_nat (length vd) = kMaxMetaSeekSize - m"
    unfolding word_unat_eq_iff rest_size using unat_length [of vd] vd(2) by simp
  ultimately show ?thesis
    using sk vd unfolding pre_def [symmetric] info_def [symmetric] info'_def [symmetric] body_def [symmetric] ssize_def [symmetric]
      e_def [symmetric]
    by (intro exI [of _ sk] exI [of _ vd] exI) auto
qed

section \<open>Properties\<close>

lemma stop_error_OK: "(\<And>i. stop_status i = OK) \<Longrightarrow> stop_error stop_status w = OK"
proof -
  assume ok: "\<And>i. stop_status i = OK"
  have "foldl (\<lambda>err i. if err = OK \<and> stop_status i \<noteq> OK then stop_status i else err) OK xs = OK" for xs :: "nat list"
    using ok by (induction xs) simp_all
  then show ?thesis by (simp add: stop_error_def)
qed

lemma writer_start_layout:
  assumes "writer_start junk st params w = Some (OK, w1)" "\<not> mWriterStarted w" "offset (mFile w) = length (content (mFile w))"
    "mStreamableFile w1" "length (content (mFile w1)) < 2 ^ 62"
  shows "\<exists>ebml void tracks space. serializeInto (EbmlHeader 1 1 4 8 2 2) = Some ebml
    \<and> serializeInto (tracks_of w) = Some tracks \<and> head_layout (content (mFile w)) ebml void tracks space w1
    \<and> mInitCheck w1 = OK \<and> mWriterStarted w1"
proof -
  obtain wc wh w2 where c: "configure params wc = Some wh" "mFile wc = mFile w" "mStreams wc = mStreams w" "mInitCheck wc = OK"
    and h: "write_head junk wh = Some w2" "mFile w1 = mFile w2" "mStreamableFile w1 = mStreamableFile w2"
      "mInitCheck w1 = mInitCheck w2" "mWriterStarted w1"
    and layout: "\<forall>before ebml void tracks space. head_layout before ebml void tracks space w2
          \<longrightarrow> head_layout before ebml void tracks space w1"
    by (rule writer_start_head [OF assms(1,2)]) blast
  have frame: "mStreamableFile wh" "mFile wh = mFile w" "tracks_of wh = tracks_of w" "mInitCheck w1 = OK"
    using configure_frame [OF c(1)] write_head_frame [OF h(1)] h(3,4) c(2-4) assms(4) by (simp_all add: tracks_of_def)
  have "offset (mFile wh) = length (content (mFile wh))" "length (content (mFile w2)) < 2 ^ 62"
    using frame(2) assms(3,5) h(2) by simp_all
  from write_head_layout [OF h(1) frame(1) this configure_estimate [OF c(1) frame(1)]] show ?thesis
    using layout frame(2-4) h(5) by metis
qed


text \<open>A void of no bytes, or of a negative number of them, fails its CHECK.\<close>

lemma no_void: "sint t < 2 \<Longrightarrow> write_element (EbmlVoid t) fd = None"
  by (simp add: write_element_def totalSize_def voidSize_def)

lemma write_cues_aborts:
  assumes "serializeInto (WebmMaster kMkvCues cues) = Some cue_bytes" "length cue_bytes < 2 ^ 62"
    "mEstimatedCuesSize w = 0 \<or> unat (mEstimatedCuesSize w) = length cue_bytes"
  shows "write_cues cues w = None"
proof -
  define n where "n = (of_nat (length cue_bytes) :: u64)"
  have n: "unat n = length cue_bytes" using assms(2) unat_length [of cue_bytes] by (simp add: n_def)
  have t: "totalSize (WebmMaster kMkvCues cues) = Some n"
    using serializeInto_total [OF assms(1)] assms(2) by (simp add: n_def)
  have small: "sint (mEstimatedCuesSize w - n) < 2"
    using assms(3)
  proof
    assume "mEstimatedCuesSize w = 0"
    moreover have "sint (- n) = - int (length cue_bytes)"
    proof -
      have "- n = of_int (- int (length cue_bytes))" by (simp add: n_def)
      moreover have "- (2 ^ 63) \<le> - int (length cue_bytes)" "- int (length cue_bytes) < 2 ^ 63"
        using assms(2) by simp_all
      ultimately show ?thesis by (simp only: signed_of_int) (simp add: signed_take_bit_int_eq_self)
    qed
    ultimately show ?thesis by simp
  next
    assume "unat (mEstimatedCuesSize w) = length cue_bytes"
    then have "mEstimatedCuesSize w = n" using n by (simp add: word_unat_eq_iff)
    then show ?thesis by simp
  qed
  have fits: "\<not> (n \<noteq> mEstimatedCuesSize w \<and> n > mEstimatedCuesSize w - kMinEbmlVoidSize)"
    using assms(3)
  proof
    assume "mEstimatedCuesSize w = 0"
    moreover have "unat (- 2 :: u64) = 2 ^ 64 - 2" by simp
    ultimately show ?thesis using n assms(2) by (simp add: kMinEbmlVoidSize_def word_less_nat_alt)
  next
    assume "unat (mEstimatedCuesSize w) = length cue_bytes"
    then show ?thesis using n by (simp add: word_unat_eq_iff)
  qed
  have "write_element (WebmMaster kMkvCues cues) fd = Some (n, fd')
      \<Longrightarrow> write_element (EbmlVoid (mEstimatedCuesSize w - n)) fd' = None" for fd fd'
    using no_void [OF small] by blast
  moreover have "\<exists>fd'. write_element (WebmMaster kMkvCues cues) fd = Some (n, fd')" for fd
    using t assms(1) by (simp add: write_element_def)
  ultimately show ?thesis
    using t fits no_void [OF small] by (auto simp: write_cues_def Let_def write_element_def split: bind_splits)
qed

lemma stop_without_cues:
  assumes "write_cues cues ((on_thread source_stop kVideoIndex (on_thread source_stop kAudioIndex w))
      \<lparr> mSinkRunning := False, mFile := fd, mCuePoints := cues \<rparr>) = None"
    "mInitCheck w = OK" "mWriterStarted w" "\<And>i. stop_status i = OK"
  shows "writer_stop stop_status duration (fd, cues) w = None"
  using assms(1-3) stop_error_OK [OF assms(4), where w = w] by (simp add: writer_stop_def writer_reset_def Let_def)

text \<open>
  C17: A recording with a limit on its size below 5 megabytes cannot be stopped: \<open>start\<close> reserves no
  space for the cues, the test of \<open>reset\<close> wraps around below zero and takes the cues to fit, and the
  void for the rest of the space fails its CHECK.
\<close>

theorem limited_recording_aborts:
  assumes "writer_start junk source_status params w = Some (OK, w1)" "\<not> mWriterStarted w" "mEstimatedCuesSize w = 0"
    "0 < mMaxFileSizeLimitBytes w" "mMaxFileSizeLimitBytes w < 5 * 1024 * 1024"
    "serializeInto (WebmMaster kMkvCues cues) = Some cue_bytes" "length cue_bytes < 2 ^ 62" "\<And>i. stop_status i = OK"
  shows "writer_stop stop_status duration (fd, cues) w1 = None"
proof -
  obtain wc wh w2 where c: "configure params wc = Some wh" "mInitCheck wc = OK" "mEstimatedCuesSize wc = mEstimatedCuesSize w"
      "mMaxFileSizeLimitBytes wc = mMaxFileSizeLimitBytes w"
    and h: "write_head junk wh = Some w2" "mInitCheck w1 = mInitCheck w2" "mWriterStarted w1"
      "mEstimatedCuesSize w1 = mEstimatedCuesSize w2"
    by (rule writer_start_head [OF assms(1,2)]) blast
  have "mEstimatedCuesSize wh = mEstimatedCuesSize wc"
    using c(4) assms(4,5) by (intro configure_limited [OF c(1)]) simp_all
  then have est: "mEstimatedCuesSize w1 = 0" "mInitCheck w1 = OK" "mWriterStarted w1"
    using c(2,3) h assms(3) configure_frame [OF c(1)] write_head_frame [OF h(1)] by simp_all
  then show ?thesis
    using assms(8) by (intro stop_without_cues write_cues_aborts [OF assms(6,7)]) (simp_all add: on_thread_def)
qed

section \<open>Examples\<close>

lemma write_all_writes:
  assumes "list_all2 (\<lambda>e bs. into_option e = Some bs \<and> length bs < 2 ^ 64) es bss" "offset fd = length (content fd)"
  shows "\<exists>r. write_all es fd = Some (r, append_bytes (concat bss) fd)"
  using assms
proof (induction es fd arbitrary: bss rule: write_all.induct)
  case (1 fd)
  then show ?case by (simp add: append_nothing)
next
  case (2 es fd)
  then obtain bss' where "bss = [] # bss'" "list_all2 (\<lambda>e bs. into_option e = Some bs \<and> length bs < 2 ^ 64) es bss'"
    by (auto simp: list_all2_Cons1)
  then show ?case using "2.IH" [of bss'] "2.prems"(2) by auto
next
  case (3 e es fd)
  then obtain bs bss' where b: "bss = bs # bss'" "serializeInto e = Some bs" "length bs < 2 ^ 64"
      "list_all2 (\<lambda>e bs. into_option e = Some bs \<and> length bs < 2 ^ 64) es bss'"
    by (auto simp: list_all2_Cons1)
  obtain n where n: "mSize e = Some n" using b(2) by (auto simp: serializeInto_def split: bind_splits)
  have w: "write_element e fd = Some (of_nat (length bs), append_bytes bs fd)"
    using write_element_bytes [OF b(2,3)] "3.prems"(2) by (simp add: append_bytes_def store_at_end)
  obtain r where "write_all es (append_bytes bs fd) = Some (r, append_bytes (concat bss') (append_bytes bs fd))"
    using "3.IH" [OF refl n w refl b(4)] by auto
  then show ?case using n w b(1) by (simp add: Let_def)
qed

definition example_writer :: "int \<Rightarrow> writer" where
  "example_writer limit = (new_writer 3 \<lparr> content = [], offset = 0 \<rparr>)
     \<lparr> mStreams := [
         \<lparr> mStreamType = kAudioType, mHasSource = False, mTrackEntry = None, mThread = None \<rparr>,
         \<lparr> mStreamType = kVideoType, mHasSource = True,
           mTrackEntry = Some (VideoTrackEntry 320 240 0 False (c_str ''und'')), mThread = None \<rparr>],
       mMaxFileSizeLimitBytes := limit \<rparr>"

lemma example_adds: "addSource ''video/x-vnd.on2.vp8'' \<lparr> kKeyWidth = Some 320, kKeyHeight = Some 240, kKeyChannelCount = None,
    kKeySampleRate = None, kKeyVorbisInfo = None, kKeyVorbisBooks = None \<rparr> (new_writer 3 \<lparr> content = [], offset = 0 \<rparr>)
  = Some (OK, example_writer 0)"
  by (simp add: addSource_def new_writer_def has_prefix_nocase_def kVideoIndex_def kAudioIndex_def videoTrack_def example_writer_def)

lemma example_header_size: "map_option length (serializeInto (EbmlHeader 1 1 4 8 2 2)) = Some 36"
  by code_simp

text \<open>The length of a master from those of its children.\<close>

lemma serializeChildren_concat:
  "list_all2 (\<lambda>c bs. serializeInto c = Some bs) cs bss \<Longrightarrow> length buf + length (concat bss) < 2 ^ 64 \<Longrightarrow>
   unat off = length buf \<Longrightarrow> serializeChildren cs off buf = Some (buf @ concat bss)"
proof (induction cs bss arbitrary: off buf rule: list_all2_induct)
  case (Cons c cs bs bss)
  obtain n neck body where e: "mSize c = Some n" "serializePayloadSize c n = Some neck" "serializePayload c = Some body"
      "bs = serializeCodedUnsigned (mId c) @ neck @ body"
    using Cons.hyps(1) by (auto simp: serializeInto_def split: bind_splits)
  have "mSize c = Some (of_nat (length body))"
    using size_is_length(1) [OF e(3)] Cons.prems(1) e(4) by simp
  then have t: "totalSize c = Some (of_nat (length bs))" by (rule serializeInto_size [OF Cons.hyps(1) e(3)])
  have u: "unat (of_nat (length bs) :: u64) = length bs" using Cons.prems(1) by (simp add: unat_of_nat)
  have "unat off + length bs < 2 ^ 64" using Cons.prems by simp
  then have "unat (off + of_nat (length bs)) = length (buf @ bs)"
    using Cons.prems(2) u by (subst unat_add_lem [THEN iffD1]) auto
  then have "serializeChildren cs (off + of_nat (length bs)) (buf @ bs) = Some ((buf @ bs) @ concat bss)"
    using Cons.prems(1) by (intro Cons.IH) auto
  then show ?case using Cons.hyps(1) t Cons.prems(2)
    by (simp add: serializeChildren_Cons store_at_end del: serializeChildren.simps)
qed simp

lemma master_length:
  assumes "list_all2 (\<lambda>c k. map_option length (serializeInto c) = Some k) cs ks" "sum_list ks < 2 ^ 64"
    "serializePayloadSize (WebmMaster i cs) (of_nat (sum_list ks)) = Some neck"
  shows "map_option length (serializeInto (WebmMaster i cs)) =
    Some (length (serializeCodedUnsigned i) + length neck + sum_list ks)"
proof -
  have "\<exists>bss. list_all2 (\<lambda>c bs. serializeInto c = Some bs) cs bss \<and> map length bss = ks"
    using assms(1)
  proof (induction cs ks rule: list_all2_induct)
    case (Cons c cs k ks)
    then obtain bs bss where "serializeInto c = Some bs" "length bs = k"
      "list_all2 (\<lambda>c bs. serializeInto c = Some bs) cs bss" "map length bss = ks" by auto
    then show ?case by (intro exI [of _ "bs # bss"]) simp
  qed simp
  then obtain bss where b: "list_all2 (\<lambda>c bs. serializeInto c = Some bs) cs bss" "map length bss = ks" by blast
  then have len: "length (concat bss) = sum_list ks" by (simp add: length_concat)
  have "serializeChildren cs 0 [] = Some ([] @ concat bss)"
    by (rule serializeChildren_concat [OF b(1)]) (use assms(2) len in simp_all)
  then have p: "serializePayload (WebmMaster i cs) = Some (concat bss)" by simp
  then have "mSize (WebmMaster i cs) = Some (of_nat (sum_list ks))"
    using size_is_length(1) [OF p] assms(2) len by simp
  then show ?thesis using p assms(3) len by (simp add: serializeInto_def)
qed

lemma example_fields:
  "map_option length (serializeInto (WebmUnsigned kMkvTrackNumber (of_int kVideoTrackNum))) = Some 3"
  "map_option length (serializeInto (WebmUnsigned kMkvTrackUid (of_int kVideoTrackNum))) = Some 4"
  "map_option length (serializeInto (WebmUnsigned kMkvFlagLacing 0)) = Some 3"
  "map_option length (serializeInto (WebmString kMkvLanguage (c_str ''und''))) = Some 7"
  "map_option length (serializeInto (WebmString kMkvCodecId (c_str ''V_VP8''))) = Some 7"
  "map_option length (serializeInto (WebmUnsigned kMkvTrackType (of_int kVideoType))) = Some 3"
  "map_option length (serializeInto (WebmMaster kMkvVideo [WebmUnsigned kMkvPixelWidth 320, WebmUnsigned kMkvPixelHeight 240])) = Some 9"
  by code_simp+

lemma example_necks: "serializePayloadSize (WebmMaster kMkvTrackEntry []) 36 = Some [0xa4]"
  "serializePayloadSize (WebmMaster kMkvTracks []) 38 = Some [0xa6]"
  "length (serializeCodedUnsigned kMkvTrackEntry) = 1" "length (serializeCodedUnsigned kMkvTracks) = 4"
  by code_simp+

lemma example_track_size: "map_option length (serializeInto (VideoTrackEntry 320 240 0 False (c_str ''und''))) = Some 38"
proof -
  define cs where "cs = [WebmUnsigned kMkvTrackNumber (of_int kVideoTrackNum), WebmUnsigned kMkvTrackUid (of_int kVideoTrackNum),
     WebmUnsigned kMkvFlagLacing 0, WebmString kMkvLanguage (c_str ''und''), WebmString kMkvCodecId (c_str ''V_VP8''),
     WebmUnsigned kMkvTrackType (of_int kVideoType),
     WebmMaster kMkvVideo [WebmUnsigned kMkvPixelWidth 320, WebmUnsigned kMkvPixelHeight 240]]"
  have "list_all2 (\<lambda>c k. map_option length (serializeInto c) = Some k) cs [3, 4, 3, 7, 7, 3, 9]"
    unfolding cs_def by (simp only: list_all2_Cons list_all2_Nil example_fields simp_thms)
  moreover have "serializePayloadSize (WebmMaster kMkvTrackEntry cs) (of_nat (sum_list [3, 4, 3, 7, 7, 3, 9])) = Some [0xa4]"
    using example_necks(1) by (simp add: serializePayloadSize_def)
  ultimately have "map_option length (serializeInto (WebmMaster kMkvTrackEntry cs)) = Some (1 + 1 + 36)"
    using master_length [of cs "[3, 4, 3, 7, 7, 3, 9]" kMkvTrackEntry "[0xa4]"] example_necks(3) by simp
  moreover have "VideoTrackEntry 320 240 0 False (c_str ''und'') = WebmMaster kMkvTrackEntry cs"
    by (simp add: VideoTrackEntry_def populateCommonTrackEntries_def cs_def)
  ultimately show ?thesis by simp
qed

lemma example_tracks_size:
  "map_option length (serializeInto (WebmMaster kMkvTracks [VideoTrackEntry 320 240 0 False (c_str ''und'')])) = Some 43"
proof -
  let ?v = "VideoTrackEntry 320 240 0 False (c_str ''und'')"
  have "serializePayloadSize (WebmMaster kMkvTracks [?v]) (of_nat (sum_list [38])) = Some [0xa6]"
    using example_necks(2) by (simp add: serializePayloadSize_def)
  then show ?thesis
    using master_length [of "[?v]" "[38]" kMkvTracks "[0xa6]"] example_track_size example_necks(4) by simp
qed

lemma example_cues_size: "map_option length (serializeInto (WebmMaster kMkvCues [CuePointEntry 0 1 200])) = Some 18"
  by code_simp

lemmas example_sizes = example_header_size example_tracks_size example_cues_size

definition any_junk :: indeterminate where
  "any_junk = \<lparr> any_isRealTimeRecording = False, any_offset = 12345 \<rparr>"

lemma example_head:
  assumes "mStreamableFile wh \<longrightarrow> mEstimatedCuesSize wh = 6144" "mFile wh = \<lparr> content = [], offset = 0 \<rparr>" "mStreams wh = mStreams (example_writer limit)"
  shows "\<exists>w2. write_head any_junk wh = Some w2 \<and> length (content (mFile w2)) < 10000"
proof -
  obtain ebml tracks where b: "serializeInto (EbmlHeader 1 1 4 8 2 2) = Some ebml" "length ebml = 36"
      "serializeInto (tracks_of wh) = Some tracks" "length tracks = 43"
    using example_sizes(1,2) assms(3) by (auto simp: tracks_of_def example_writer_def List.map_filter_def)
  obtain void where void: "serializeInto (EbmlVoid kMaxMetaSeekSize) = Some void" "length void = 64"
    using void_bytes [of kMaxMetaSeekSize] by (auto simp: kMaxMetaSeekSize_def)
  obtain sp where sp: "serializeInto (EbmlVoid 6144) = Some sp" "length sp = 6144"
    using void_bytes [of 6144] by auto
  define cues where "cues = (if mStreamableFile wh then Some (EbmlVoid (mEstimatedCuesSize wh)) else None)"
  obtain space where space: "into_option cues = Some space" "length space \<le> 6144"
    using sp assms(1) by (cases "mStreamableFile wh") (auto simp: cues_def)
  define info where "info = bytes_of (SegmentInfo (mCodeScale wh) 0)"
  have info: "serializeInto (SegmentInfo (mCodeScale wh) 0) = Some info" "length info \<le> 48"
    using length_coded [of "mCodeScale wh"]
    by (simp_all add: info_def info_bytes segment_info(1) length_info_tail del: length_coded)
  have ids: "length (serializeCodedUnsigned kMkvSegment) = 4" "length (serializeCodedUnsigned kMkvUnknownLength) = 8"
    using read_unknown_size(2) by (simp_all add: coded_ids)
  let ?es = "[Some (EbmlHeader 1 1 4 8 2 2), Some (WebmMaster kMkvSegment []), Some (EbmlVoid kMaxMetaSeekSize),
        Some (SegmentInfo (mCodeScale wh) 0), Some (tracks_of wh), cues]"
  let ?bss = "[ebml, serializeCodedUnsigned kMkvSegment @ serializeCodedUnsigned kMkvUnknownLength, void, info, tracks, space]"
  have "list_all2 (\<lambda>e bs. into_option e = Some bs \<and> length bs < 2 ^ 64) ?es ?bss"
    using b void info space ids segment_bytes by simp
  then obtain r where r: "write_all ?es (mFile wh) = Some (r, append_bytes (concat ?bss) (mFile wh))"
    using write_all_writes [of ?es ?bss "mFile wh"] assms(2) by auto
  have "length (content (append_bytes (concat ?bss) (mFile wh))) < 10000"
    using assms(2) b(2,4) void(2) info(2) space(2) ids by simp
  then show ?thesis
    using r unfolding write_head_def Let_def cues_def tracks_of_def by simp
qed

text \<open>Starting it, without a limit on the size of the file and with one of a million bytes.\<close>

lemma example_start:
  assumes "limit = 0 \<or> limit = 1000000"
  shows "\<exists>w1. writer_start any_junk (\<lambda>_. OK) None (example_writer limit) = Some (OK, w1)
    \<and> (limit = 0 \<longrightarrow> mStreamableFile w1 \<and> mEstimatedCuesSize w1 = 6144 \<and> length (content (mFile w1)) < 10000)"
proof -
  define wl where "wl = (if limit \<noteq> 0 then (example_writer limit)\<lparr> mIsFileSizeLimitExplicitlyRequested := True \<rparr>
      else example_writer limit)"
  define wh where "wh = (if limit = 0 then wl\<lparr> mStreamableFile := True, mEstimatedCuesSize := 6144 \<rparr>
      else wl\<lparr> mStreamableFile := False \<rparr>)"
  have c: "configure None wl = Some wh"
    using assms unfolding wh_def wl_def
    by (auto simp: configure_def Let_def example_writer_def new_writer_def estimateCuesSize_def kMinStreamableFileSizeInBytes_def)
  have wh: "mFile wh = \<lparr> content = [], offset = 0 \<rparr>" "mStreams wh = mStreams (example_writer limit)"
      "mStreamableFile wh \<longrightarrow> mEstimatedCuesSize wh = 6144" "limit = 0 \<longrightarrow> mStreamableFile wh"
    by (auto simp: wh_def wl_def example_writer_def new_writer_def)
  obtain w2 where w2: "write_head any_junk wh = Some w2" "length (content (mFile w2)) < 10000"
    using example_head [OF wh(3,1,2)] by blast
  have init: "mInitCheck (example_writer limit) = OK" "\<not> mWriterStarted (example_writer limit)"
      "mMaxFileSizeLimitBytes (example_writer limit) = limit"
      "mTrackEntry (mStreams (example_writer limit) ! kVideoIndex) \<noteq> None"
    by (simp_all add: example_writer_def new_writer_def kVideoIndex_def)
  then have started: "\<not> mWriterStarted wl" by (auto simp: wl_def)
  have "writer_start any_junk (\<lambda>_. OK) None (example_writer limit)
      = Some (OK, (on_thread (\<lambda>th. snd (source_start OK th)) kVideoIndex (on_thread (\<lambda>th. snd (source_start OK th)) kAudioIndex
          (initStream kVideoIndex (initStream kAudioIndex w2))))\<lparr> mSinkRunning := True, mWriterStarted := True \<rparr>)"
    using init(1,4) started c w2(1) unfolding writer_start_def Let_def init(3) wl_def [symmetric] by auto
  then show ?thesis
    using w2(2) write_head_frame [OF w2(1)] wh(3,4) by auto
qed

lemma example_cues: obtains cue_bytes where
  "serializeInto (WebmMaster kMkvCues [CuePointEntry 0 1 200]) = Some cue_bytes" "length cue_bytes = 18"
  using example_sizes(3) by auto


theorem limited_recording_aborts_witness:
  "\<exists>w1. writer_start any_junk (\<lambda>_. OK) None (example_writer 1000000) = Some (OK, w1)
    \<and> writer_stop (\<lambda>_. OK) (\<lambda>_. 40000) (mFile w1, [CuePointEntry 0 1 200]) w1 = None"
proof -
  obtain w1 where w1: "writer_start any_junk (\<lambda>_. OK) None (example_writer 1000000) = Some (OK, w1)"
    using example_start [of 1000000] by auto
  obtain cue_bytes where cue: "serializeInto (WebmMaster kMkvCues [CuePointEntry 0 1 200]) = Some cue_bytes" "length cue_bytes = 18"
    by (rule example_cues)
  have "writer_stop (\<lambda>_. OK) (\<lambda>_. 40000) (mFile w1, [CuePointEntry 0 1 200]) w1 = None"
    using cue(2) by (intro limited_recording_aborts [OF w1 _ _ _ _ cue(1)]) (simp_all add: example_writer_def new_writer_def)
  then show ?thesis using w1 by blast
qed

end
