(* ===== verification/RingBuffer.thy ===== *)
theory RingBuffer
  imports AvPrelude
begin

text \<open>
  The bounded log of include/media/RingBuffer.h and its user ServiceLog of
  services/mediaresourcemanager/ServiceLog.cpp.

  The class keeps a vector that grows up to a fixed length and is then overwritten in place; an
  iterator walks it backwards from the newest item. The iterator is modelled with its three
  counters, its loop as a \<open>partial_function\<close>, an access outside the vector and a division
  by a length of zero as \<open>None\<close>. The locale \<open>recent_log\<close> states what a client of such
  a container relies on; \<open>ServiceLog\<close> is proved against it.
\<close>

section \<open>The class\<close>

record 'a ring_buffer =
  mFrontIdx :: nat
  mMaxBufferSize :: nat
  mBuffer :: "'a list"

definition ring_new :: "nat \<Rightarrow> 'a ring_buffer" where
  "ring_new n = \<lparr>mFrontIdx = 0, mMaxBufferSize = n, mBuffer = []\<rparr>"

definition next_front :: "'a ring_buffer \<Rightarrow> nat option" where
  "next_front r = (if mMaxBufferSize r = 0 then None
                   else Some ((mFrontIdx r + 1) mod mMaxBufferSize r))"

definition push_item :: "'a \<Rightarrow> 'a ring_buffer \<Rightarrow> 'a ring_buffer option" where
  "push_item x r = do {
     f \<leftarrow> next_front r;
     Some (r\<lparr>mBuffer := mBuffer r @ [x], mFrontIdx := f\<rparr>) }"

definition replace_item :: "'a \<Rightarrow> 'a ring_buffer \<Rightarrow> 'a ring_buffer option" where
  "replace_item x r =
     (if mFrontIdx r < length (mBuffer r) then do {
        f \<leftarrow> next_front r;
        Some (r\<lparr>mBuffer := (mBuffer r)[mFrontIdx r := x], mFrontIdx := f\<rparr>) }
      else None)"

text \<open>\<open>add(const T&)\<close> compares with \<open><\<close>; \<open>add(T&&)\<close> and \<open>emplace\<close> with \<open>!=\<close>.\<close>

definition ring_add :: "'a \<Rightarrow> 'a ring_buffer \<Rightarrow> 'a ring_buffer option" where
  "ring_add x r = (if length (mBuffer r) < mMaxBufferSize r then push_item x r else replace_item x r)"

definition ring_add_move :: "'a \<Rightarrow> 'a ring_buffer \<Rightarrow> 'a ring_buffer option" where
  "ring_add_move x r =
     (if length (mBuffer r) \<noteq> mMaxBufferSize r then push_item x r else replace_item x r)"

definition ring_size :: "'a ring_buffer \<Rightarrow> nat" where
  "ring_size r = length (mBuffer r)"

definition ring_clear :: "'a ring_buffer \<Rightarrow> 'a ring_buffer" where
  "ring_clear r = r\<lparr>mBuffer := [], mFrontIdx := 0\<rparr>"

text \<open>\<open>operator[]\<close>: an index outside the buffer is fatal.\<close>

definition ring_at :: "'a ring_buffer \<Rightarrow> nat \<Rightarrow> 'a option" where
  "ring_at r i =
     (if length (mBuffer r) \<le> i then None
      else fetch (mBuffer r)
        (if mFrontIdx r \<le> i then length (mBuffer r) - 1 - (i - mFrontIdx r)
         else mFrontIdx r - 1 - i))"

section \<open>Iterators\<close>

record ring_iter =
  mSize :: nat
  mPos :: nat
  mCtr :: nat

definition ring_begin :: "'a ring_buffer \<Rightarrow> ring_iter" where
  "ring_begin r =
     (let tmp = (if length (mBuffer r) = 0 then 0 else length (mBuffer r) - 1)
      in \<lparr>mSize = length (mBuffer r),
          mPos = (if mFrontIdx r = 0 then tmp else mFrontIdx r - 1), mCtr = 0\<rparr>)"

definition ring_end :: "'a ring_buffer \<Rightarrow> ring_iter" where
  "ring_end r = (let s = length (mBuffer r) in \<lparr>mSize = s, mPos = s, mCtr = s\<rparr>)"

definition iter_next :: "ring_iter \<Rightarrow> ring_iter" where
  "iter_next it =
     (let it = it\<lparr>mCtr := mCtr it + 1\<rparr>
      in if mCtr it = mSize it then it\<lparr>mPos := mSize it\<rparr>
         else it\<lparr>mPos := (if mPos it = 0 then mSize it - 1 else mPos it - 1)\<rparr>)"

definition iter_eq :: "ring_iter \<Rightarrow> ring_iter \<Rightarrow> bool" where
  "iter_eq a b \<longleftrightarrow> mPos a = mPos b"

text \<open>The items a range-based \<open>for\<close> loop visits.\<close>

partial_function (option) iterate :: "'a list \<Rightarrow> ring_iter \<Rightarrow> ring_iter \<Rightarrow> 'a list option" where
  "iterate buf it stop =
     (if iter_eq it stop then Some []
      else do {
        x \<leftarrow> fetch buf (mPos it);
        xs \<leftarrow> iterate buf (iter_next it) stop;
        Some (x # xs) })"

definition ring_items :: "'a ring_buffer \<Rightarrow> 'a list option" where
  "ring_items r = iterate (mBuffer r) (ring_begin r) (ring_end r)"

section \<open>The items, newest first\<close>

definition ring_contents :: "'a ring_buffer \<Rightarrow> 'a list" where
  "ring_contents r = rev (take (mFrontIdx r) (mBuffer r)) @ rev (drop (mFrontIdx r) (mBuffer r))"

definition ring_wf :: "nat \<Rightarrow> 'a ring_buffer \<Rightarrow> bool" where
  "ring_wf n r \<longleftrightarrow> mMaxBufferSize r = n \<and> 0 < n \<and> length (mBuffer r) \<le> n \<and>
     (if length (mBuffer r) < n then mFrontIdx r = length (mBuffer r) else mFrontIdx r < n)"

lemma ring_wf_new [simp]: "0 < n \<Longrightarrow> ring_wf n (ring_new n)"
  by (simp add: ring_wf_def ring_new_def)

lemma ring_contents_new [simp]: "ring_contents (ring_new n) = []"
  by (simp add: ring_contents_def ring_new_def)

lemma ring_wf_clear [simp]: "ring_wf n r \<Longrightarrow> ring_wf n (ring_clear r)"
  by (auto simp: ring_wf_def ring_clear_def split: if_splits)

lemma ring_contents_clear [simp]: "ring_contents (ring_clear r) = []"
  by (simp add: ring_contents_def ring_clear_def)

lemma length_ring_contents: "length (ring_contents r) = length (mBuffer r)"
  by (simp add: ring_contents_def)

text \<open>Both forms of \<open>add\<close> do the same.\<close>

lemma ring_add_move_eq: "ring_wf n r \<Longrightarrow> ring_add_move x r = ring_add x r"
  by (auto simp: ring_add_move_def ring_add_def ring_wf_def)

lemma take_update_rotate:
  assumes "f < length xs"
  shows "rev (take (Suc f) (xs[f := x])) = x # rev (take f xs)"
    and "drop (Suc f) (xs[f := x]) = drop (Suc f) xs"
  using assms by (auto simp: take_Suc_conv_app_nth)

lemma ring_add_contents:
  assumes "ring_wf n r"
  shows "\<exists>r'. ring_add x r = Some r' \<and> ring_wf n r' \<and>
           ring_contents r' = take n (x # ring_contents r)"
proof (cases "length (mBuffer r) < n")
  case True
  then have front: "mFrontIdx r = length (mBuffer r)" and n: "mMaxBufferSize r = n" "0 < n"
    using assms by (auto simp: ring_wf_def)
  show ?thesis
  proof (cases "Suc (length (mBuffer r)) = n")
    case True
    then show ?thesis using front n
      by (auto simp: ring_add_def push_item_def next_front_def ring_wf_def ring_contents_def)
  next
    case False
    then show ?thesis using front n \<open>length (mBuffer r) < n\<close>
      by (auto simp: ring_add_def push_item_def next_front_def ring_wf_def ring_contents_def)
  qed
next
  case False
  define f where "f = mFrontIdx r"
  define b where "b = mBuffer r"
  have full: "length b = n" "mMaxBufferSize r = n" "0 < n" "f < n"
    using False assms by (auto simp: ring_wf_def f_def b_def)
  obtain z zs where z: "drop f b = z # zs" using full by (cases "drop f b") auto
  then have zs: "drop (Suc f) b = zs" by (metis drop_Suc list.sel(3) tl_drop)
  have len: "length (take f b) + length zs + 1 = n"
    using arg_cong [OF z, of length] full by simp
  have added: "ring_add x r = Some (r\<lparr>mBuffer := b[f := x], mFrontIdx := Suc f mod n\<rparr>)"
    using full by (simp add: ring_add_def replace_item_def next_front_def flip: f_def b_def)
  have new: "ring_contents (r\<lparr>mBuffer := b[f := x], mFrontIdx := Suc f mod n\<rparr>)
        = x # rev (take f b) @ rev zs"
  proof (cases "Suc f = n")
    case True
    then have "length zs = 0" using len full by (simp del: length_0_conv)
    then have "zs = []" by simp
    moreover have "b[f := x] = take f b @ [x]"
      using True full by (simp add: upd_conv_take_nth_drop)
    ultimately show ?thesis using True by (simp add: ring_contents_def)
  next
    case False
    then have "Suc f mod n = Suc f" using full by simp
    then show ?thesis
      using full zs take_update_rotate [of f b x] by (simp add: ring_contents_def)
  qed
  have "take n (x # ring_contents r) = x # rev (take f b) @ rev zs"
    using z len full by (simp add: ring_contents_def take_Cons' flip: f_def b_def)
  then show ?thesis using added new full by (simp add: ring_wf_def)
qed

lemma ring_add_move_contents:
  assumes "ring_wf n r"
  shows "\<exists>r'. ring_add_move x r = Some r' \<and> ring_wf n r' \<and>
           ring_contents r' = take n (x # ring_contents r)"
  using ring_add_contents [OF assms] by (simp add: ring_add_move_eq [OF assms])

text \<open>The item at an index is that of the list.\<close>

lemma ring_at_contents:
  assumes "ring_wf n r" "i < ring_size r"
  shows "ring_at r i = Some (ring_contents r ! i)"
proof (cases "i < mFrontIdx r")
  case True
  moreover have "mFrontIdx r \<le> length (mBuffer r)" using assms by (auto simp: ring_wf_def split: if_splits)
  ultimately show ?thesis using assms
    by (auto simp: ring_at_def ring_contents_def ring_size_def nth_append rev_nth)
next
  case False
  moreover have f: "mFrontIdx r \<le> length (mBuffer r)" using assms by (auto simp: ring_wf_def split: if_splits)
  moreover have "mFrontIdx r + (length (mBuffer r) - Suc i) = length (mBuffer r) - Suc (i - mFrontIdx r)"
    using False f assms(2) by (simp add: ring_size_def)
  ultimately show ?thesis using assms
    by (auto simp: ring_at_def ring_contents_def ring_size_def nth_append rev_nth)
qed

text \<open>The loop over the iterators visits the items of the list in their order.\<close>

lemma ring_contents_nth:
  assumes "ring_wf n r" "i < length (mBuffer r)"
  shows "ring_contents r ! i =
     mBuffer r ! (if i < mFrontIdx r then mFrontIdx r - 1 - i
                  else length (mBuffer r) - 1 - (i - mFrontIdx r))"
  using ring_at_contents [OF assms(1), of i] assms(2)
  by (auto simp: ring_at_def ring_size_def fetch_def split: if_splits)

definition iter_at :: "'a ring_buffer \<Rightarrow> nat \<Rightarrow> ring_iter" where
  "iter_at r i = \<lparr>mSize = length (mBuffer r),
     mPos = (if i = length (mBuffer r) then length (mBuffer r)
             else if i < mFrontIdx r then mFrontIdx r - 1 - i
             else length (mBuffer r) - 1 - (i - mFrontIdx r)), mCtr = i\<rparr>"

lemma iter_at_0: "ring_wf n r \<Longrightarrow> ring_begin r = iter_at r 0"
  by (auto simp: ring_begin_def iter_at_def ring_wf_def split: if_splits)

lemma iter_at_next:
  assumes "ring_wf n r" "i < length (mBuffer r)"
  shows "iter_next (iter_at r i) = iter_at r (Suc i)"
  using assms by (auto simp: iter_next_def iter_at_def ring_wf_def split: if_splits)

lemma iter_at_end:
  assumes "ring_wf n r" "i \<le> length (mBuffer r)"
  shows "iter_eq (iter_at r i) (ring_end r) \<longleftrightarrow> i = length (mBuffer r)"
  using assms by (auto simp: iter_eq_def iter_at_def ring_end_def ring_wf_def Let_def split: if_splits)

lemma iterate_from:
  assumes "ring_wf n r" "i \<le> length (mBuffer r)"
  shows "iterate (mBuffer r) (iter_at r i) (ring_end r) = Some (drop i (ring_contents r))"
  using assms(2)
proof (induction rule: inc_induct)
  case base
  show ?case using iter_at_end [OF assms(1), of "length (mBuffer r)"]
    by (subst iterate.simps) (simp add: length_ring_contents)
next
  case (step i)
  have "fetch (mBuffer r) (mPos (iter_at r i)) = Some (ring_contents r ! i)"
    using step.hyps ring_contents_nth [OF assms(1), of i] assms(1)
    by (auto simp: iter_at_def ring_wf_def split: if_splits)
  moreover have "drop i (ring_contents r) = ring_contents r ! i # drop (Suc i) (ring_contents r)"
    using step.hyps by (simp add: Cons_nth_drop_Suc length_ring_contents)
  ultimately show ?case
    using step assms(1) iter_at_end [OF assms(1), of i] iter_at_next [OF assms(1), of i]
    by (subst iterate.simps) simp
qed

lemma ring_items_contents: "ring_wf n r \<Longrightarrow> ring_items r = Some (ring_contents r)"
  using iterate_from [of n r 0] by (simp add: ring_items_def iter_at_0)

section \<open>What a client relies on\<close>

text \<open>
  A container that keeps the newest items: \<open>abs\<close> is its list of items, newest first, and
  \<open>limit\<close> their largest number.
\<close>

primrec add_all :: "('x \<Rightarrow> 'b \<Rightarrow> 'b option) \<Rightarrow> 'x list \<Rightarrow> 'b \<Rightarrow> 'b option" where
  "add_all add [] b = Some b"
| "add_all add (x # xs) b = do { b' \<leftarrow> add x b; add_all add xs b' }"

locale recent_log =
  fixes add :: "'x \<Rightarrow> 'b \<Rightarrow> 'b option"
    and items :: "'b \<Rightarrow> 'x list option"
    and valid :: "'b \<Rightarrow> bool"
    and abs_items :: "'b \<Rightarrow> 'x list"
    and limit :: nat
  assumes add_law: "valid b \<Longrightarrow> \<exists>b'. add x b = Some b' \<and> valid b' \<and>
                      abs_items b' = take limit (x # abs_items b)"
    and items_law: "valid b \<Longrightarrow> items b = Some (abs_items b)"
    and limit_law: "valid b \<Longrightarrow> length (abs_items b) \<le> limit"
begin

lemma add_total: "valid b \<Longrightarrow> \<exists>b'. add x b = Some b'"
  using add_law by blast

lemma add_all_keeps_newest:
  "valid b \<Longrightarrow> \<exists>b'. add_all add xs b = Some b' \<and> valid b' \<and>
     abs_items b' = take limit (rev xs @ abs_items b)"
proof (induction xs arbitrary: b)
  case Nil
  then show ?case using limit_law by simp
next
  case (Cons x xs)
  obtain c where c: "add x b = Some c" "valid c" "abs_items c = take limit (x # abs_items b)"
    using add_law [OF Cons.prems] by blast
  obtain d where "add_all add xs c = Some d" "valid d"
    "abs_items d = take limit (rev xs @ abs_items c)"
    using Cons.IH [OF c(2)] by blast
  then show ?case using c by (simp add: take_Cons' min_def flip: append_assoc)
qed

end

interpretation ring: recent_log ring_add_move ring_items "ring_wf n" ring_contents n for n :: nat
proof unfold_locales
  show "ring_wf n b \<Longrightarrow> \<exists>b'. ring_add_move x b = Some b' \<and> ring_wf n b' \<and>
          ring_contents b' = take n (x # ring_contents b)" for x :: 'a and b
    by (rule ring_add_move_contents)
  show "ring_wf n b \<Longrightarrow> ring_items b = Some (ring_contents b)" for b :: "'a ring_buffer"
    by (rule ring_items_contents)
  show "ring_wf n b \<Longrightarrow> length (ring_contents b) \<le> n" for b :: "'a ring_buffer"
    by (simp add: length_ring_contents ring_wf_def)
qed

end
