(* ===== verification/ServiceLog.thy ===== *)
theory ServiceLog
  imports RingBuffer
begin

text \<open>
  The event log of the resource manager service,
  services/mediaresourcemanager/ServiceLog.cpp: a ring buffer of lines and their listing. The
  time stamp that \<open>strftime\<close> prints into the 64 bytes of \<open>buf\<close> is an argument of
  \<open>add\<close>. The \<open>prefix\<close> of a listing is \<open>None\<close> where the code has a null pointer.
\<close>

definition kDefaultMaxNum :: nat where "kDefaultMaxNum = 100"

record service_log =
  mMaxNum :: nat
  mLogs :: "string ring_buffer"

definition ServiceLog :: "nat \<Rightarrow> service_log" where
  "ServiceLog maxNum = \<lparr>mMaxNum = maxNum, mLogs = ring_new maxNum\<rparr>"

definition log_add :: "string \<Rightarrow> string \<Rightarrow> service_log \<Rightarrow> service_log option" where
  "log_add now l s = do {
     r \<leftarrow> ring_add_move (now @ '' '' @ l) (mLogs s);
     Some (s\<lparr>mLogs := r\<rparr>) }"

definition addLine :: "string \<Rightarrow> string option \<Rightarrow> string \<Rightarrow> string" where
  "addLine l prefix result =
     (let result = (case prefix of None \<Rightarrow> result | Some p \<Rightarrow> result @ p);
          result = result @ l
      in result @ [CHR 0x0A])"

definition log_toString :: "string option \<Rightarrow> service_log \<Rightarrow> string option" where
  "log_toString prefix s = do {
     ls \<leftarrow> ring_items (mLogs s);
     let result = foldl (\<lambda>result l. addLine l prefix result) [] ls;
     Some (if ring_size (mLogs s) = mMaxNum s then addLine ''...'' prefix result
           else if ring_size (mLogs s) = 0 then addLine ''[no events yet]'' prefix result
           else result) }"

definition log_valid :: "service_log \<Rightarrow> bool" where
  "log_valid s \<longleftrightarrow> ring_wf (mMaxNum s) (mLogs s)"

lemma log_valid_new [simp]: "0 < n \<Longrightarrow> log_valid (ServiceLog n)"
  by (simp add: log_valid_def ServiceLog_def)

lemma log_add_total: "log_valid s \<Longrightarrow> \<exists>s'. log_add now l s = Some s' \<and> log_valid s'"
proof -
  assume "log_valid s"
  then obtain r where "ring_add_move (now @ '' '' @ l) (mLogs s) = Some r" "ring_wf (mMaxNum s) r"
    using ring.add_law [of "mMaxNum s" "mLogs s" "now @ '' '' @ l"] by (auto simp: log_valid_def)
  then show ?thesis by (simp add: log_add_def log_valid_def)
qed

text \<open>A sequence of events, each with its time stamp.\<close>

primrec log_all :: "(string \<times> string) list \<Rightarrow> service_log \<Rightarrow> service_log option" where
  "log_all [] s = Some s"
| "log_all (e # es) s = do { s' \<leftarrow> log_add (fst e) (snd e) s; log_all es s' }"

definition stamped :: "string \<times> string \<Rightarrow> string" where
  "stamped e = fst e @ '' '' @ snd e"

lemma log_all_ring:
  "log_all es s = map_option (\<lambda>r. s\<lparr>mLogs := r\<rparr>) (add_all ring_add_move (map stamped es) (mLogs s))"
proof (induction es arbitrary: s)
  case (Cons e es)
  then show ?case
    by (cases "ring_add_move (stamped e) (mLogs s)")
      (auto simp: log_add_def stamped_def intro!: arg_cong [where f = "\<lambda>f. map_option f _"])
qed simp

definition listed :: "string option \<Rightarrow> string \<Rightarrow> string" where
  "listed prefix l = (case prefix of None \<Rightarrow> [] | Some p \<Rightarrow> p) @ l @ [CHR 0x0A]"

lemma addLine_listed: "addLine l prefix result = result @ listed prefix l"
  by (simp add: addLine_def listed_def split: option.split)

lemma listing: "foldl (\<lambda>result l. result @ listed prefix l) acc ls = acc @ concat (map (listed prefix) ls)"
  by (induction ls arbitrary: acc) simp_all

text \<open>
  The log holds the most recent events. After any sequence of events, the listing has the
  lines of the last \<open>n\<close> of them, newest first, with their time stamps; it ends with the line
  \<open>...\<close> when \<open>n\<close> or more events were logged, and is a line saying so when there were none.
\<close>

theorem log_lists_newest:
  assumes "0 < n"
  shows "do { s \<leftarrow> log_all es (ServiceLog n); log_toString prefix s } =
    Some (concat (map (listed prefix) (take n (rev (map stamped es)))) @
          (if n \<le> length es then listed prefix ''...''
           else if es = [] then listed prefix ''[no events yet]'' else []))"
proof -
  obtain r where r: "add_all ring_add_move (map stamped es) (ring_new n) = Some r" "ring_wf n r"
    "ring_contents r = take n (rev (map stamped es))"
    using ring.add_all_keeps_newest [OF ring_wf_new [OF assms], of "map stamped es"] by auto
  then have "ring_size r = min n (length es)"
    using length_ring_contents [of r] by (simp add: ring_size_def min.commute)
  then show ?thesis
    using r assms
    by (simp add: log_all_ring ServiceLog_def log_toString_def ring.items_law listing addLine_listed)
qed

lemma log_lists_newest_witness:
  "do { s \<leftarrow> log_all [(''1'', ''a''), (''2'', ''b''), (''3'', ''c'')] (ServiceLog 2);
        log_toString None s } =
   Some ([CHR ''3'', CHR '' '', CHR ''c'', CHR 0x0A, CHR ''2'', CHR '' '', CHR ''b'', CHR 0x0A] @
         ''...'' @ [CHR 0x0A])"
  using log_lists_newest [of 2 "[(''1'', ''a''), (''2'', ''b''), (''3'', ''c'')]" None]
  by (simp add: stamped_def listed_def take_Cons')

end
