(* ===== verification/ResourceManager.thy ===== *)
theory ResourceManager
  imports ServiceLog
begin

text \<open>
  The service that takes codecs and graphic memory away from processes of lower priority,
  services/mediaresourcemanager/ResourceManagerService.cpp: the resources registered per
  process and client, the policies, the choice of the clients to reclaim from and the
  request itself.

  The priority of a process, \<open>ProcessInfoInterface::getPriority\<close>, is an argument \<open>prio\<close>
  (\<open>None\<close> where the call returns false; a lower value is a higher priority), fixed during one
  locked section. A client is the identity of its binder object, \<open>None\<close> for a null
  pointer, and a call on a null client is the outcome \<open>None\<close>. What a client answers, and the
  operations that other threads and the client itself perform on the service while it is
  asked, are an argument of \<open>reclaimResource\<close>. The time stamp of a log line is an argument
  \<open>now\<close> and \<open>%p\<close> an argument \<open>ptr\<close>.
\<close>

section \<open>Resources and policies\<close>

definition kResourceSecureCodec :: string where "kResourceSecureCodec = ''secure-codec''"
definition kResourceNonSecureCodec :: string where "kResourceNonSecureCodec = ''non-secure-codec''"
definition kResourceAudioCodec :: string where "kResourceAudioCodec = ''audio-codec''"
definition kResourceVideoCodec :: string where "kResourceVideoCodec = ''video-codec''"
definition kResourceGraphicMemory :: string where "kResourceGraphicMemory = ''graphic-memory''"

definition kPolicySupportsMultipleSecureCodecs :: string where
  "kPolicySupportsMultipleSecureCodecs = ''supports-multiple-secure-codecs''"
definition kPolicySupportsSecureWithNonSecureCodec :: string where
  "kPolicySupportsSecureWithNonSecureCodec = ''supports-secure-with-non-secure-codec''"

record media_resource =
  mType :: string
  mSubType :: string
  mValue :: u64

record media_policy =
  policy_type :: string
  policy_value :: string

text \<open>\<open>%llu\<close> and \<open>%lld\<close>.\<close>

fun decimal :: "nat \<Rightarrow> string" where
  "decimal n = (if n < 10 then [char_of (48 + n)] else decimal (n div 10) @ [char_of (48 + n mod 10)])"

declare decimal.simps [simp del]

definition signed_decimal :: "int \<Rightarrow> string" where
  "signed_decimal i = (if i < 0 then CHR ''-'' # decimal (nat (- i)) else decimal (nat i))"

definition resource_toString :: "media_resource \<Rightarrow> string" where
  "resource_toString r = mType r @ ''/'' @ mSubType r @ '':'' @ decimal (unat (mValue r))"

definition policy_toString :: "media_policy \<Rightarrow> string" where
  "policy_toString p = policy_type p @ '':'' @ policy_value p"

definition getString :: "('a \<Rightarrow> string) \<Rightarrow> 'a list \<Rightarrow> string" where
  "getString toString xs = foldl (\<lambda>itemsStr x. itemsStr @ toString x @ '' '') [] xs"

section \<open>The state\<close>

record resource_info =
  clientId :: int
  client :: "nat option"
  resources :: "media_resource list"

text \<open>
  \<open>PidResourceInfosMap\<close> is a \<open>KeyedVector\<close>: its entries in the order of their keys, each
  key once.
\<close>

type_synonym pid_map = "(int \<times> resource_info list) list"

record service =
  mServiceLog :: service_log
  mMap :: pid_map
  mSupportsMultipleSecureCodecs :: bool
  mSupportsSecureWithNonSecureCodec :: bool

definition ResourceManagerService :: service where
  "ResourceManagerService = \<lparr>mServiceLog = ServiceLog kDefaultMaxNum, mMap = [],
     mSupportsMultipleSecureCodecs = True, mSupportsSecureWithNonSecureCodec = True\<rparr>"

definition service_log_add :: "string \<Rightarrow> string \<Rightarrow> service \<Rightarrow> service option" where
  "service_log_add now l s = do {
     g \<leftarrow> log_add now l (mServiceLog s);
     Some (s\<lparr>mServiceLog := g\<rparr>) }"

definition hasResourceType :: "string \<Rightarrow> media_resource list \<Rightarrow> bool" where
  "hasResourceType type rs \<longleftrightarrow> list_ex (\<lambda>r. mType r = type) rs"

definition hasResourceType_infos :: "string \<Rightarrow> resource_info list \<Rightarrow> bool" where
  "hasResourceType_infos type infos \<longleftrightarrow> list_ex (\<lambda>i. hasResourceType type (resources i)) infos"

section \<open>Configuration, adding and removing\<close>

definition config_policy :: "media_policy \<Rightarrow> service \<Rightarrow> service" where
  "config_policy p s =
     (if policy_type p = kPolicySupportsMultipleSecureCodecs
      then s\<lparr>mSupportsMultipleSecureCodecs := (policy_value p = ''true'')\<rparr>
      else if policy_type p = kPolicySupportsSecureWithNonSecureCodec
      then s\<lparr>mSupportsSecureWithNonSecureCodec := (policy_value p = ''true'')\<rparr>
      else s)"

definition config :: "string \<Rightarrow> media_policy list \<Rightarrow> service \<Rightarrow> service option" where
  "config now policies s = do {
     s \<leftarrow> service_log_add now (''config('' @ getString policy_toString policies @ '')'') s;
     Some (foldl (\<lambda>s p. config_policy p s) s policies) }"

text \<open>
  \<open>getResourceInfosForEdit\<close> and \<open>getResourceInfoForEdit\<close> return references; here they take
  the change \<open>f\<close> made through the reference.
\<close>

fun getResourceInfosForEdit ::
    "int \<Rightarrow> (resource_info list \<Rightarrow> resource_info list) \<Rightarrow> pid_map \<Rightarrow> pid_map" where
  "getResourceInfosForEdit pid f [] = [(pid, f [])]"
| "getResourceInfosForEdit pid f ((k, infos) # m) =
     (if k = pid then (k, f infos) # m
      else if pid < k then (pid, f []) # (k, infos) # m
      else (k, infos) # getResourceInfosForEdit pid f m)"

fun getResourceInfoForEdit ::
    "int \<Rightarrow> nat option \<Rightarrow> (resource_info \<Rightarrow> resource_info) \<Rightarrow> resource_info list \<Rightarrow> resource_info list" where
  "getResourceInfoForEdit cid c f [] = [f \<lparr>clientId = cid, client = c, resources = []\<rparr>]"
| "getResourceInfoForEdit cid c f (i # infos) =
     (if clientId i = cid then f i # infos else i # getResourceInfoForEdit cid c f infos)"

definition add_to_map ::
    "int \<Rightarrow> int \<Rightarrow> nat option \<Rightarrow> media_resource list \<Rightarrow> pid_map \<Rightarrow> pid_map" where
  "add_to_map pid cid c rs m =
     getResourceInfosForEdit pid
       (getResourceInfoForEdit cid c (\<lambda>i. i\<lparr>resources := resources i @ rs\<rparr>)) m"

definition addResource ::
    "string \<Rightarrow> int \<Rightarrow> int \<Rightarrow> nat option \<Rightarrow> media_resource list \<Rightarrow> service \<Rightarrow> service option" where
  "addResource now pid cid c rs s = do {
     s \<leftarrow> service_log_add now (''addResource(pid '' @ signed_decimal pid @ '', clientId ''
            @ signed_decimal cid @ '', resources '' @ getString resource_toString rs @ '')'') s;
     Some (s\<lparr>mMap := add_to_map pid cid c rs (mMap s)\<rparr>) }"

text \<open>The loop that removes the first entry of the client.\<close>

fun remove_client :: "int \<Rightarrow> resource_info list \<Rightarrow> resource_info list" where
  "remove_client cid [] = []"
| "remove_client cid (i # infos) =
     (if clientId i = cid then infos else i # remove_client cid infos)"

fun remove_from_map :: "int \<Rightarrow> int \<Rightarrow> pid_map \<Rightarrow> pid_map" where
  "remove_from_map pid cid [] = []"
| "remove_from_map pid cid ((k, infos) # m) =
     (if k = pid then (k, remove_client cid infos) # m
      else (k, infos) # remove_from_map pid cid m)"

definition removeResource :: "string \<Rightarrow> int \<Rightarrow> int \<Rightarrow> service \<Rightarrow> service option" where
  "removeResource now pid cid s = do {
     s \<leftarrow> service_log_add now (''removeResource(pid '' @ signed_decimal pid @ '', clientId ''
            @ signed_decimal cid @ '')'') s;
     Some (s\<lparr>mMap := remove_from_map pid cid (mMap s)\<rparr>) }"

section \<open>Choosing the clients\<close>

type_synonym priority = "int \<Rightarrow> int option"

definition isCallingPriorityHigher_l :: "priority \<Rightarrow> int \<Rightarrow> int \<Rightarrow> bool" where
  "isCallingPriorityHigher_l prio callingPid pid =
     (case prio callingPid of None \<Rightarrow> False
      | Some c \<Rightarrow> (case prio pid of None \<Rightarrow> False | Some p \<Rightarrow> c < p))"

text \<open>The two loops of \<open>getAllClients_l\<close>; \<open>None\<close> is its early \<open>return false\<close>.\<close>

fun all_clients_of ::
    "priority \<Rightarrow> int \<Rightarrow> string \<Rightarrow> int \<Rightarrow> resource_info list \<Rightarrow> nat option list \<Rightarrow> nat option list option" where
  "all_clients_of prio callingPid type pid [] temp = Some temp"
| "all_clients_of prio callingPid type pid (i # infos) temp =
     (if hasResourceType type (resources i)
      then if \<not> isCallingPriorityHigher_l prio callingPid pid then None
           else all_clients_of prio callingPid type pid infos (temp @ [client i])
      else all_clients_of prio callingPid type pid infos temp)"

fun all_clients_loop ::
    "priority \<Rightarrow> int \<Rightarrow> string \<Rightarrow> pid_map \<Rightarrow> nat option list \<Rightarrow> nat option list option" where
  "all_clients_loop prio callingPid type [] temp = Some temp"
| "all_clients_loop prio callingPid type ((pid, infos) # m) temp = do {
     temp \<leftarrow> all_clients_of prio callingPid type pid infos temp;
     all_clients_loop prio callingPid type m temp }"

definition getAllClients_l ::
    "priority \<Rightarrow> int \<Rightarrow> string \<Rightarrow> nat option list \<Rightarrow> service \<Rightarrow> nat option list option" where
  "getAllClients_l prio callingPid type clients s = do {
     temp \<leftarrow> all_clients_loop prio callingPid type (mMap s) [];
     if temp = [] then Some clients else Some (clients @ temp) }"

fun lowest_loop :: "priority \<Rightarrow> string \<Rightarrow> pid_map \<Rightarrow> int \<times> int \<Rightarrow> int \<times> int" where
  "lowest_loop prio type [] acc = acc"
| "lowest_loop prio type ((k, infos) # m) (pid, priority) =
     (if infos = [] then lowest_loop prio type m (pid, priority)
      else if \<not> hasResourceType_infos type infos then lowest_loop prio type m (pid, priority)
      else (case prio k of
          None \<Rightarrow> lowest_loop prio type m (pid, priority)
        | Some tempPriority \<Rightarrow>
            if pid = -1 \<or> tempPriority > priority
            then lowest_loop prio type m (k, tempPriority)
            else lowest_loop prio type m (pid, priority)))"

definition getLowestPriorityPid_l :: "priority \<Rightarrow> string \<Rightarrow> service \<Rightarrow> (int \<times> int) option" where
  "getLowestPriorityPid_l prio type s =
     (let (pid, priority) = lowest_loop prio type (mMap s) (-1, -1)
      in if pid \<noteq> -1 then Some (pid, priority) else None)"

text \<open>The two loops of \<open>getBiggestClient_l\<close>.\<close>

fun biggest_resource ::
    "string \<Rightarrow> nat option \<Rightarrow> media_resource list \<Rightarrow> u64 \<times> nat option \<Rightarrow> u64 \<times> nat option" where
  "biggest_resource type c [] acc = acc"
| "biggest_resource type c (r # rs) (largestValue, clientTemp) =
     (if mType r = type \<and> mValue r > largestValue
      then biggest_resource type c rs (mValue r, c)
      else biggest_resource type c rs (largestValue, clientTemp))"

fun biggest_loop :: "string \<Rightarrow> resource_info list \<Rightarrow> u64 \<times> nat option \<Rightarrow> u64 \<times> nat option" where
  "biggest_loop type [] acc = acc"
| "biggest_loop type (i # infos) acc =
     biggest_loop type infos (biggest_resource type (client i) (resources i) acc)"

definition getBiggestClient_l :: "int \<Rightarrow> string \<Rightarrow> service \<Rightarrow> nat option" where
  "getBiggestClient_l pid type s =
     (case map_of (mMap s) pid of None \<Rightarrow> None
      | Some infos \<Rightarrow> snd (biggest_loop type infos (0, None)))"

definition getLowestPriorityBiggestClient_l :: "priority \<Rightarrow> int \<Rightarrow> string \<Rightarrow> service \<Rightarrow> nat option" where
  "getLowestPriorityBiggestClient_l prio callingPid type s =
     (case prio callingPid of None \<Rightarrow> None
      | Some callingPriority \<Rightarrow>
          (case getLowestPriorityPid_l prio type s of None \<Rightarrow> None
           | Some (lowestPriorityPid, lowestPriority) \<Rightarrow>
               if lowestPriority \<le> callingPriority then None
               else getBiggestClient_l lowestPriorityPid type s))"

definition getClientForResource_l ::
    "priority \<Rightarrow> int \<Rightarrow> media_resource option \<Rightarrow> nat option list \<Rightarrow> service \<Rightarrow> nat option list" where
  "getClientForResource_l prio callingPid res clients s =
     (case res of None \<Rightarrow> clients
      | Some r \<Rightarrow>
          (case getLowestPriorityBiggestClient_l prio callingPid (mType r) s of None \<Rightarrow> clients
           | Some c \<Rightarrow> clients @ [Some c]))"

text \<open>The first loop of \<open>reclaimResource\<close>: secure codec, non-secure codec, graphic memory.\<close>

definition note_request ::
    "media_resource \<Rightarrow> media_resource option \<times> media_resource option \<times> media_resource option \<Rightarrow>
     media_resource option \<times> media_resource option \<times> media_resource option" where
  "note_request r acc =
     (case acc of (secureCodec, nonSecureCodec, graphicMemory) \<Rightarrow>
        if mType r = kResourceSecureCodec then (Some r, nonSecureCodec, graphicMemory)
        else if mType r = kResourceNonSecureCodec then (secureCodec, Some r, graphicMemory)
        else if mType r = kResourceGraphicMemory then (secureCodec, nonSecureCodec, Some r)
        else acc)"

definition requested ::
    "media_resource list \<Rightarrow> media_resource option \<times> media_resource option \<times> media_resource option" where
  "requested rs = foldl (\<lambda>acc r. note_request r acc) (None, None, None) rs"

text \<open>The first pass, for the conflicts of secure and non-secure codecs.\<close>

definition first_pass ::
    "priority \<Rightarrow> int \<Rightarrow> media_resource option \<Rightarrow> media_resource option \<Rightarrow> service \<Rightarrow>
     nat option list option" where
  "first_pass prio callingPid secureCodec nonSecureCodec s = do {
     clients \<leftarrow> (if secureCodec \<noteq> None \<and> \<not> mSupportsMultipleSecureCodecs s
                 then getAllClients_l prio callingPid kResourceSecureCodec [] s else Some []);
     clients \<leftarrow> (if secureCodec \<noteq> None \<and> \<not> mSupportsSecureWithNonSecureCodec s
                 then getAllClients_l prio callingPid kResourceNonSecureCodec clients s else Some clients);
     if nonSecureCodec \<noteq> None \<and> \<not> mSupportsSecureWithNonSecureCodec s
     then getAllClients_l prio callingPid kResourceSecureCodec clients s else Some clients }"

definition plain_resource :: "string \<Rightarrow> u64 \<Rightarrow> media_resource" where
  "plain_resource type v = \<lparr>mType = type, mSubType = [], mValue = v\<rparr>"

text \<open>
  The first locked section: the clients to ask, and \<open>None\<close> where the request is refused
  before any is chosen.
\<close>

definition select_clients ::
    "priority \<Rightarrow> int \<Rightarrow> media_resource list \<Rightarrow> service \<Rightarrow> nat option list option" where
  "select_clients prio callingPid rs s =
     (case requested rs of (secureCodec, nonSecureCodec, graphicMemory) \<Rightarrow> do {
        clients \<leftarrow> first_pass prio callingPid secureCodec nonSecureCodec s;
        let clients = (if clients = []
          then getClientForResource_l prio callingPid graphicMemory clients s else clients);
        let clients = (if clients = []
          then getClientForResource_l prio callingPid nonSecureCodec
                 (getClientForResource_l prio callingPid secureCodec clients s) s else clients);
        let clients = (if clients = []
          then (let clients = (if secureCodec \<noteq> None
                  then getClientForResource_l prio callingPid
                         (Some (plain_resource kResourceNonSecureCodec 1)) clients s else clients)
                in if nonSecureCodec \<noteq> None
                   then getClientForResource_l prio callingPid
                          (Some (plain_resource kResourceSecureCodec 1)) clients s else clients)
          else clients);
        Some clients })"

section \<open>Asking the clients\<close>

text \<open>The second locked section: the entries of a client that failed leave the first process
  that has some.\<close>

fun forget_client :: "nat option \<Rightarrow> pid_map \<Rightarrow> pid_map" where
  "forget_client c [] = []"
| "forget_client c ((k, infos) # m) =
     (if list_ex (\<lambda>i. client i = c) infos
      then (k, filter (\<lambda>i. client i \<noteq> c) infos) # m
      else (k, infos) # forget_client c m)"

text \<open>
  What happens to the service while no lock is held: whole operations of other threads and of
  the client that is being asked, and the parts of other requests that write.
\<close>

datatype service_op =
    Config string "media_policy list"
  | AddResource string int int "nat option" "media_resource list"
  | RemoveResource string int int
  | LogLine string string
  | ForgetClient "nat option"

fun exec_op :: "service_op \<Rightarrow> service \<Rightarrow> service option" where
  "exec_op (Config now ps) s = config now ps s"
| "exec_op (AddResource now pid cid c rs) s = addResource now pid cid c rs s"
| "exec_op (RemoveResource now pid cid) s = removeResource now pid cid s"
| "exec_op (LogLine now l) s = service_log_add now l s"
| "exec_op (ForgetClient c) s = Some (s\<lparr>mMap := forget_client c (mMap s)\<rparr>)"

primrec exec_ops :: "service_op list \<Rightarrow> service \<Rightarrow> service option" where
  "exec_ops [] s = Some s"
| "exec_ops (op # ops) s = do { s' \<leftarrow> exec_op op s; exec_ops ops s' }"

type_synonym answers = "nat \<Rightarrow> service \<Rightarrow> service_op list \<times> bool"

text \<open>
  The loop over the chosen clients: the state, the client that failed (\<open>None\<close> when all
  agreed) and the clients that were asked.
\<close>

fun ask_clients ::
    "string \<Rightarrow> (nat option \<Rightarrow> string) \<Rightarrow> answers \<Rightarrow> nat option list \<Rightarrow> nat list \<Rightarrow> service \<Rightarrow>
     (service \<times> nat option \<times> nat list) option" where
  "ask_clients now ptr answer [] asked s = Some (s, None, asked)"
| "ask_clients now ptr answer (c # cs) asked s = do {
     s \<leftarrow> service_log_add now (''reclaimResource from client '' @ ptr c) s;
     i \<leftarrow> c;
     case answer i s of (ops, agreed) \<Rightarrow> do {
       s \<leftarrow> exec_ops ops s;
       if agreed then ask_clients now ptr answer cs (asked @ [i]) s
       else Some (s, Some i, asked @ [i]) } }"

definition reclaimResource ::
    "string \<Rightarrow> (nat option \<Rightarrow> string) \<Rightarrow> priority \<Rightarrow> answers \<Rightarrow> int \<Rightarrow> media_resource list \<Rightarrow> service \<Rightarrow>
     (service \<times> bool \<times> nat list) option" where
  "reclaimResource now ptr prio answer callingPid rs s = do {
     s \<leftarrow> service_log_add now (''reclaimResource(callingPid '' @ signed_decimal callingPid
            @ '', resources '' @ getString resource_toString rs @ '')'') s;
     case select_clients prio callingPid rs s of
       None \<Rightarrow> Some (s, False, [])
     | Some clients \<Rightarrow>
         if clients = [] then Some (s, False, [])
         else do {
           (s, failedClient, asked) \<leftarrow> ask_clients now ptr answer clients [] s;
           if failedClient = None then Some (s, True, asked)
           else Some (s\<lparr>mMap := forget_client failedClient (mMap s)\<rparr>, False, asked) } }"

end
