(* ===== verification/ResourceReclaim.thy ===== *)
theory ResourceReclaim
  imports ResourceManager
begin

text \<open>
  What the resource manager guarantees: its map keeps its shape under every operation, the
  client that is chosen is the biggest one of the lowest priority, only clients of processes
  that the caller outranks are asked, and the codecs that exclude each other are taken from all
  or from none.
\<close>

section \<open>The shape of the map\<close>

definition map_wf :: "pid_map \<Rightarrow> bool" where
  "map_wf m \<longleftrightarrow> sorted_wrt (<) (map fst m) \<and> (\<forall>(k, infos) \<in> set m. distinct (map clientId infos))"

definition service_wf :: "service \<Rightarrow> bool" where
  "service_wf s \<longleftrightarrow> map_wf (mMap s) \<and> log_valid (mServiceLog s)"

lemma map_wf_Nil [simp]: "map_wf []"
  by (simp add: map_wf_def)

lemma map_wf_Cons [simp]:
  "map_wf ((k, infos) # m) \<longleftrightarrow>
     (\<forall>k' \<in> fst ` set m. k < k') \<and> distinct (map clientId infos) \<and> map_wf m"
  by (auto simp: map_wf_def)

lemma edit_info_ids:
  assumes "\<And>i. clientId (f i) = clientId i"
  shows "clientId ` set (getResourceInfoForEdit cid c f infos) = insert cid (clientId ` set infos)"
  by (induction infos) (auto simp: assms)

lemma edit_info_distinct:
  assumes "\<And>i. clientId (f i) = clientId i" "distinct (map clientId infos)"
  shows "distinct (map clientId (getResourceInfoForEdit cid c f infos))"
  using assms(2)
proof (induction infos)
  case (Cons i infos)
  then show ?case
    using edit_info_ids [of f cid c infos, OF assms(1)] assms(1) by (auto simp: image_iff)
qed (simp add: assms(1))

lemma edit_infos_keys:
  "fst ` set (getResourceInfosForEdit pid f m) = insert pid (fst ` set m)"
  by (induction m rule: getResourceInfosForEdit.induct) auto

lemma edit_infos_wf:
  assumes "\<And>infos. distinct (map clientId infos) \<Longrightarrow> distinct (map clientId (f infos))" "map_wf m"
  shows "map_wf (getResourceInfosForEdit pid f m)"
  using assms(2)
proof (induction m)
  case Nil
  then show ?case using assms(1) [of "[]"] by simp
next
  case (Cons e m)
  obtain k infos where e: "e = (k, infos)" by fastforce
  show ?case using Cons assms(1) [of infos] assms(1) [of "[]"] by (auto simp: e edit_infos_keys)
qed

lemma add_to_map_wf: "map_wf m \<Longrightarrow> map_wf (add_to_map pid cid c rs m)"
  unfolding add_to_map_def by (rule edit_infos_wf) (simp_all add: edit_info_distinct)

lemma remove_client_ids: "set (map clientId (remove_client cid infos)) \<subseteq> set (map clientId infos)"
  by (induction infos) auto

lemma remove_client_distinct:
  "distinct (map clientId infos) \<Longrightarrow> distinct (map clientId (remove_client cid infos))"
  using remove_client_ids by (induction infos) (fastforce simp: subset_iff)+

lemma remove_from_map_keys: "map fst (remove_from_map pid cid m) = map fst m"
  by (induction m rule: remove_from_map.induct) auto

lemma remove_from_map_wf: "map_wf m \<Longrightarrow> map_wf (remove_from_map pid cid m)"
proof (induction m rule: remove_from_map.induct)
  case (2 pid cid k infos m)
  have "fst ` set (remove_from_map pid cid m) = fst ` set m"
    using arg_cong [OF remove_from_map_keys [of pid cid m], of set] by simp
  then show ?case using 2 by (auto simp: remove_client_distinct)
qed simp

lemma forget_client_keys: "map fst (forget_client c m) = map fst m"
  by (induction m rule: forget_client.induct) auto

lemma forget_client_wf: "map_wf m \<Longrightarrow> map_wf (forget_client c m)"
proof (induction m rule: forget_client.induct)
  case (2 c k infos m)
  have "fst ` set (forget_client c m) = fst ` set m"
    using arg_cong [OF forget_client_keys [of c m], of set] by simp
  then show ?case using 2 by (auto simp: distinct_map_filter)
qed simp

section \<open>Every operation returns and keeps the shape\<close>

lemma service_log_add_wf:
  assumes "service_wf s"
  shows "\<exists>s'. service_log_add now l s = Some s' \<and> service_wf s' \<and> mMap s' = mMap s \<and>
           mSupportsMultipleSecureCodecs s' = mSupportsMultipleSecureCodecs s \<and>
           mSupportsSecureWithNonSecureCodec s' = mSupportsSecureWithNonSecureCodec s"
  using log_add_total [of "mServiceLog s" now l] assms
  by (auto simp: service_wf_def service_log_add_def)

lemma config_policies_keep:
  "service_wf s \<Longrightarrow> service_wf (foldl (\<lambda>s p. config_policy p s) s ps)"
  by (induction ps arbitrary: s) (simp_all add: config_policy_def service_wf_def)

lemma exec_op_wf:
  assumes "service_wf s"
  shows "\<exists>s'. exec_op op s = Some s' \<and> service_wf s'"
proof (cases op)
  case (Config now ps)
  obtain s1 where "service_log_add now (''config('' @ getString policy_toString ps @ '')'') s = Some s1"
    "service_wf s1" using service_log_add_wf [OF assms] by blast
  then show ?thesis using config_policies_keep [of s1 ps] by (simp add: Config config_def)
next
  case (AddResource now pid cid c rs)
  obtain l where l: "exec_op op s = do {
      s \<leftarrow> service_log_add now l s; Some (s\<lparr>mMap := add_to_map pid cid c rs (mMap s)\<rparr>) }"
    by (simp add: AddResource addResource_def)
  show ?thesis
    using service_log_add_wf [OF assms, of now l] by (auto simp: l service_wf_def add_to_map_wf)
next
  case (RemoveResource now pid cid)
  obtain l where l: "exec_op op s = do {
      s \<leftarrow> service_log_add now l s; Some (s\<lparr>mMap := remove_from_map pid cid (mMap s)\<rparr>) }"
    by (simp add: RemoveResource removeResource_def)
  show ?thesis
    using service_log_add_wf [OF assms, of now l] by (auto simp: l service_wf_def remove_from_map_wf)
next
  case (LogLine now l)
  then show ?thesis using service_log_add_wf [OF assms, of now l] by auto
next
  case (ForgetClient c)
  then show ?thesis using assms by (simp add: service_wf_def forget_client_wf)
qed

lemma exec_ops_wf: "service_wf s \<Longrightarrow> \<exists>s'. exec_ops ops s = Some s' \<and> service_wf s'"
proof (induction ops arbitrary: s)
  case (Cons op ops)
  then show ?case using exec_op_wf [of s op] by auto
qed simp

text \<open>A null client is the one way in which the loop does not return.\<close>

lemma ask_clients_returns:
  assumes "service_wf s" "None \<notin> set cs"
  shows "\<exists>s' f asked'. ask_clients now ptr answer cs asked s = Some (s', f, asked') \<and> service_wf s'"
  using assms
proof (induction cs arbitrary: s asked)
  case (Cons c cs)
  obtain s1 where s1: "service_log_add now (''reclaimResource from client '' @ ptr c) s = Some s1"
    "service_wf s1" using service_log_add_wf [OF Cons.prems(1)] by blast
  obtain i where i: "c = Some i" using Cons.prems(2) by (cases c) auto
  obtain ops agreed where a: "answer i s1 = (ops, agreed)" by fastforce
  obtain s2 where s2: "exec_ops ops s1 = Some s2" "service_wf s2"
    using exec_ops_wf [OF s1(2)] by blast
  show ?case using Cons.IH [OF s2(2), of "asked @ [i]"] Cons.prems(2) s1 s2 i a by auto
qed simp

lemma ask_clients_wf:
  assumes "ask_clients now ptr answer cs asked s = Some (s', f, asked')" "service_wf s"
  shows "service_wf s'"
  using assms
proof (induction cs arbitrary: s asked)
  case (Cons c cs)
  obtain s1 where s1: "service_log_add now (''reclaimResource from client '' @ ptr c) s = Some s1"
    "service_wf s1" using service_log_add_wf [OF Cons.prems(2)] by blast
  obtain i where i: "c = Some i" using Cons.prems(1) s1 by (cases c) auto
  obtain ops agreed where a: "answer i s1 = (ops, agreed)" by fastforce
  obtain s2 where s2: "exec_ops ops s1 = Some s2" "service_wf s2"
    using exec_ops_wf [OF s1(2)] by blast
  show ?case using Cons.IH [OF _ s2(2), of "asked @ [i]"] Cons.prems(1) s1 s2 i a
    by (auto split: if_splits)
qed simp

section \<open>The parts of a request\<close>

lemma select_clients_cong:
  assumes "mMap s' = mMap s" "mSupportsMultipleSecureCodecs s' = mSupportsMultipleSecureCodecs s"
    "mSupportsSecureWithNonSecureCodec s' = mSupportsSecureWithNonSecureCodec s"
  shows "select_clients prio callingPid rs s' = select_clients prio callingPid rs s"
proof -
  have all: "getAllClients_l prio callingPid type clients s' = getAllClients_l prio callingPid type clients s"
    for type clients by (simp add: getAllClients_l_def assms)
  have one: "getClientForResource_l prio callingPid res clients s' = getClientForResource_l prio callingPid res clients s"
    for res clients
    by (simp only: getClientForResource_l_def getLowestPriorityBiggestClient_l_def
        getLowestPriorityPid_l_def getBiggestClient_l_def assms)
  show ?thesis by (simp only: select_clients_def first_pass_def all one assms)
qed

definition reclaim_from ::
    "string \<Rightarrow> (nat option \<Rightarrow> string) \<Rightarrow> answers \<Rightarrow> nat option list option \<Rightarrow> service \<Rightarrow>
     (service \<times> bool \<times> nat list) option" where
  "reclaim_from now ptr answer sel s =
     (case sel of
        None \<Rightarrow> Some (s, False, [])
      | Some clients \<Rightarrow>
          if clients = [] then Some (s, False, [])
          else do {
            (s, failedClient, asked) \<leftarrow> ask_clients now ptr answer clients [] s;
            if failedClient = None then Some (s, True, asked)
            else Some (s\<lparr>mMap := forget_client failedClient (mMap s)\<rparr>, False, asked) })"

lemma reclaim_steps:
  assumes "service_wf s"
  obtains s1 where "service_wf s1" "mMap s1 = mMap s"
    "reclaimResource now ptr prio answer callingPid rs s =
       reclaim_from now ptr answer (select_clients prio callingPid rs s) s1"
proof -
  obtain s1 where s1: "service_log_add now (''reclaimResource(callingPid '' @ signed_decimal callingPid
            @ '', resources '' @ getString resource_toString rs @ '')'') s = Some s1"
    "service_wf s1" "mMap s1 = mMap s"
    "mSupportsMultipleSecureCodecs s1 = mSupportsMultipleSecureCodecs s"
    "mSupportsSecureWithNonSecureCodec s1 = mSupportsSecureWithNonSecureCodec s"
    using service_log_add_wf [OF assms] by blast
  show thesis
    by (rule that [OF s1(2,3)])
      (simp only: reclaimResource_def s1(1) bind.bind_lunit reclaim_from_def
        select_clients_cong [OF s1(3-5)])
qed

lemma reclaim_wf:
  assumes "service_wf s" "reclaimResource now ptr prio answer callingPid rs s = Some (s', ok, asked)"
  shows "service_wf s'"
proof -
  obtain s1 where s1: "service_wf s1"
    "reclaim_from now ptr answer (select_clients prio callingPid rs s) s1 = Some (s', ok, asked)"
    using reclaim_steps [OF assms(1), of now ptr prio answer callingPid rs] assms(2) by metis
  show ?thesis
  proof (cases "select_clients prio callingPid rs s")
    case None
    then show ?thesis using s1 by (simp add: reclaim_from_def)
  next
    case (Some clients)
    show ?thesis
    proof (cases "clients = []")
      case True
      then show ?thesis using s1 Some by (simp add: reclaim_from_def)
    next
      case False
      obtain s2 f asked2 where a: "ask_clients now ptr answer clients [] s1 = Some (s2, f, asked2)"
        using s1(2) Some False by (cases "ask_clients now ptr answer clients [] s1") (auto simp: reclaim_from_def)
      show ?thesis
        using ask_clients_wf [OF a s1(1)] s1(2) Some False a
        by (auto simp: reclaim_from_def service_wf_def forget_client_wf split: if_splits)
    qed
  qed
qed

lemma ask_clients_asked:
  "ask_clients now ptr answer cs asked s = Some (s', f, asked') \<Longrightarrow>
     \<exists>n \<le> length cs. map Some asked' = map Some asked @ take n cs \<and>
       (f = None \<longrightarrow> n = length cs) \<and> (f \<noteq> None \<longrightarrow> 0 < n \<and> f = cs ! (n - 1))"
proof (induction cs arbitrary: s asked)
  case (Cons c cs)
  obtain s1 where s1: "service_log_add now (''reclaimResource from client '' @ ptr c) s = Some s1"
    using Cons.prems by (cases "service_log_add now (''reclaimResource from client '' @ ptr c) s") auto
  obtain i where i: "c = Some i" using Cons.prems s1 by (cases c) auto
  obtain ops agreed where a: "answer i s1 = (ops, agreed)" by fastforce
  obtain s2 where s2: "exec_ops ops s1 = Some s2"
    using Cons.prems s1 i a by (cases "exec_ops ops s1") auto
  show ?case
  proof (cases agreed)
    case True
    then have "ask_clients now ptr answer cs (asked @ [i]) s2 = Some (s', f, asked')"
      using Cons.prems s1 s2 i a by simp
    then obtain n where "n \<le> length cs" "map Some asked' = map Some (asked @ [i]) @ take n cs"
      "f = None \<longrightarrow> n = length cs" "f \<noteq> None \<longrightarrow> 0 < n \<and> f = cs ! (n - 1)"
      using Cons.IH by blast
    then show ?thesis using i by (intro exI [of _ "Suc n"]) (auto simp: nth_Cons')
  next
    case False
    then have "f = Some i" "asked' = asked @ [i]" using Cons.prems s1 s2 i a by auto
    then show ?thesis using i by (intro exI [of _ 1]) simp
  qed
qed simp

text \<open>The clients asked are the first of those chosen, all of them when the answer is true.\<close>

lemma reclaim_asked:
  assumes "service_wf s" "reclaimResource now ptr prio answer callingPid rs s = Some (s', ok, asked)"
  shows "asked = [] \<and> \<not> ok \<or>
    (\<exists>clients. select_clients prio callingPid rs s = Some clients \<and>
       (\<exists>n \<le> length clients. map Some asked = take n clients \<and> (ok \<longrightarrow> n = length clients \<and> n > 0)))"
proof -
  obtain s1 where s1:
    "reclaim_from now ptr answer (select_clients prio callingPid rs s) s1 = Some (s', ok, asked)"
    using reclaim_steps [OF assms(1), of now ptr prio answer callingPid rs] assms(2) by metis
  show ?thesis
  proof (cases "asked = [] \<and> \<not> ok")
    case False
    then obtain clients where c: "select_clients prio callingPid rs s = Some clients" "clients \<noteq> []"
      using s1 by (auto simp: reclaim_from_def split: option.splits if_splits)
    then obtain s2 f asked2 where a: "ask_clients now ptr answer clients [] s1 = Some (s2, f, asked2)"
      using s1 by (cases "ask_clients now ptr answer clients [] s1") (auto simp: reclaim_from_def)
    have "asked = asked2" "ok \<longleftrightarrow> f = None"
      using s1 c a by (auto simp: reclaim_from_def split: if_splits)
    then show ?thesis using ask_clients_asked [OF a] c by auto
  qed simp
qed

section \<open>All the clients of a type\<close>

text \<open>Both priorities are known and the process is of strictly lower priority.\<close>

definition outranks :: "priority \<Rightarrow> int \<Rightarrow> int \<Rightarrow> bool" where
  "outranks prio callingPid pid \<longleftrightarrow> (\<exists>cp p. prio callingPid = Some cp \<and> prio pid = Some p \<and> cp < p)"

lemma isCallingPriorityHigher_outranks: "isCallingPriorityHigher_l prio callingPid pid \<longleftrightarrow> outranks prio callingPid pid"
  by (auto simp: isCallingPriorityHigher_l_def outranks_def split: option.splits)

definition holders :: "string \<Rightarrow> resource_info list \<Rightarrow> nat option list" where
  "holders type infos = map client (filter (\<lambda>i. hasResourceType type (resources i)) infos)"

lemma all_clients_of_eq:
  "all_clients_of prio callingPid type pid infos temp =
     (if hasResourceType_infos type infos \<and> \<not> outranks prio callingPid pid then None
      else Some (temp @ holders type infos))"
  by (induction infos arbitrary: temp)
    (auto simp: hasResourceType_infos_def holders_def isCallingPriorityHigher_outranks)

lemma all_clients_loop_eq:
  "all_clients_loop prio callingPid type m temp =
     (if \<exists>(k, infos) \<in> set m. hasResourceType_infos type infos \<and> \<not> outranks prio callingPid k
      then None else Some (temp @ concat (map (holders type \<circ> snd) m)))"
proof (induction m arbitrary: temp)
  case (Cons e m)
  obtain k infos where "e = (k, infos)" by fastforce
  then show ?case by (simp add: all_clients_of_eq Cons comp_def)
qed simp

lemma getAllClients_eq:
  "getAllClients_l prio callingPid type clients s =
     (if \<exists>(k, infos) \<in> set (mMap s). hasResourceType_infos type infos \<and>
           \<not> outranks prio callingPid k
      then None else Some (clients @ concat (map (holders type \<circ> snd) (mMap s))))"
  by (simp add: getAllClients_l_def all_clients_loop_eq)

text \<open>A client that holds a resource of the type in a process that the caller outranks.\<close>

definition outranked :: "priority \<Rightarrow> int \<Rightarrow> string \<Rightarrow> pid_map \<Rightarrow> nat option \<Rightarrow> bool" where
  "outranked prio callingPid type m c \<longleftrightarrow>
     (\<exists>(k, infos) \<in> set m. outranks prio callingPid k \<and> c \<in> set (holders type infos))"

lemma holders_type: "c \<in> set (holders type infos) \<Longrightarrow> hasResourceType_infos type infos"
  by (auto simp: holders_def hasResourceType_infos_def list_ex_iff)

lemma getAllClients_outranked:
  assumes "getAllClients_l prio callingPid type clients s = Some cs"
  shows "c \<in> set cs \<longleftrightarrow> c \<in> set clients \<or> outranked prio callingPid type (mMap s) c"
proof -
  have low: "\<And>k infos. (k, infos) \<in> set (mMap s) \<Longrightarrow> hasResourceType_infos type infos \<Longrightarrow>
      outranks prio callingPid k"
    and cs: "cs = clients @ concat (map (holders type \<circ> snd) (mMap s))"
    using assms by (auto simp: getAllClients_eq split: if_splits)
  have "outranked prio callingPid type (mMap s) c \<longleftrightarrow> (\<exists>e \<in> set (mMap s). c \<in> set (holders type (snd e)))"
  proof
    assume "outranked prio callingPid type (mMap s) c"
    then show "\<exists>e \<in> set (mMap s). c \<in> set (holders type (snd e))"
      unfolding outranked_def by force
  next
    assume "\<exists>e \<in> set (mMap s). c \<in> set (holders type (snd e))"
    then obtain k infos where e: "(k, infos) \<in> set (mMap s)" "c \<in> set (holders type infos)" by auto
    then have "outranks prio callingPid k"
      using low holders_type [OF e(2)] by blast
    then show "outranked prio callingPid type (mMap s) c" using e by (auto simp: outranked_def)
  qed
  then show ?thesis by (simp add: cs)
qed

section \<open>The biggest client\<close>

lemma biggest_resource_spec:
  assumes "biggest_resource type c rs (v, t) = (v', t')"
  shows "v \<le> v' \<and> (\<forall>r \<in> set rs. mType r = type \<longrightarrow> mValue r \<le> v') \<and>
    ((v', t') = (v, t) \<or> 0 < v' \<and> t' = c \<and> (\<exists>r \<in> set rs. mType r = type \<and> mValue r = v'))"
  using assms
proof (induction rs arbitrary: v t)
  case (Cons r rs)
  show ?case
  proof (cases "mType r = type \<and> v < mValue r")
    case True
    then have "biggest_resource type c rs (mValue r, c) = (v', t')" using Cons.prems by simp
    moreover have "0 < mValue r" using True by (metis word_gt_0 word_not_simps(1))
    ultimately show ?thesis
      using Cons.IH [of "mValue r" c] True by (auto dest: less_imp_le order_trans)
  next
    case False
    then have "biggest_resource type c rs (v, t) = (v', t')" using Cons.prems by auto
    from Cons.IH [OF this] show ?thesis using False by auto
  qed
qed simp

lemma biggest_loop_spec:
  assumes "biggest_loop type infos (v, t) = (v', t')"
  shows "v \<le> v' \<and> (\<forall>i \<in> set infos. \<forall>r \<in> set (resources i). mType r = type \<longrightarrow> mValue r \<le> v') \<and>
    ((v', t') = (v, t) \<or>
     (\<exists>i \<in> set infos. 0 < v' \<and> t' = client i \<and> (\<exists>r \<in> set (resources i). mType r = type \<and> mValue r = v')))"
  using assms
proof (induction infos arbitrary: v t)
  case (Cons i infos)
  obtain w u where w: "biggest_resource type (client i) (resources i) (v, t) = (w, u)" by fastforce
  have "biggest_loop type infos (w, u) = (v', t')" using Cons.prems w by simp
  from Cons.IH [OF this] biggest_resource_spec [OF w] show ?case
    by (auto intro: order_trans)
qed simp

text \<open>The first client whose largest resource of the type is the largest of the process.\<close>

definition biggest_of :: "string \<Rightarrow> resource_info list \<Rightarrow> nat \<Rightarrow> bool" where
  "biggest_of type infos c \<longleftrightarrow>
     (\<exists>i \<in> set infos. client i = Some c \<and>
        (\<exists>r \<in> set (resources i). mType r = type \<and> 0 < mValue r \<and>
           (\<forall>j \<in> set infos. \<forall>q \<in> set (resources j). mType q = type \<longrightarrow> mValue q \<le> mValue r)))"

lemma biggest_Some:
  assumes "getBiggestClient_l pid type s = Some c"
  shows "\<exists>infos. (pid, infos) \<in> set (mMap s) \<and> biggest_of type infos c"
proof -
  obtain infos where infos: "map_of (mMap s) pid = Some infos"
    and b: "snd (biggest_loop type infos (0, None)) = Some c"
    using assms by (auto simp: getBiggestClient_l_def split: option.splits)
  obtain v where v: "biggest_loop type infos (0, None) = (v, Some c)"
    using b by (cases "biggest_loop type infos (0, None)") auto
  from biggest_loop_spec [OF v] have "biggest_of type infos c"
    unfolding biggest_of_def by fastforce
  then show ?thesis using map_of_SomeD [OF infos] by blast
qed

text \<open>Where no client is null and every resource has a value, some client is found.\<close>

lemma biggest_None:
  assumes "map_wf (mMap s)" "(pid, infos) \<in> set (mMap s)" "hasResourceType_infos type infos"
    and "\<And>i r. i \<in> set infos \<Longrightarrow> client i \<noteq> None \<and> (r \<in> set (resources i) \<longrightarrow> 0 < mValue r)"
  shows "getBiggestClient_l pid type s \<noteq> None"
proof -
  have "distinct (map fst (mMap s))"
    using assms(1) strict_sorted_iff by (auto simp: map_wf_def)
  then have infos: "map_of (mMap s) pid = Some infos" using assms(2) by simp
  obtain v t where v: "biggest_loop type infos (0, None) = (v, t)" by fastforce
  obtain i r where ir: "i \<in> set infos" "r \<in> set (resources i)" "mType r = type"
    using assms(3) by (auto simp: hasResourceType_infos_def hasResourceType_def list_ex_iff)
  have "mValue r \<le> v" using biggest_loop_spec [OF v] ir by blast
  moreover have "0 < mValue r" using assms(4) ir by blast
  ultimately have "v \<noteq> 0" by auto
  then obtain j where "j \<in> set infos" "t = client j"
    using biggest_loop_spec [OF v] by auto
  then show ?thesis using assms(4) [of j] infos v by (simp add: getBiggestClient_l_def)
qed

section \<open>The process of the lowest priority\<close>

definition rated :: "priority \<Rightarrow> string \<Rightarrow> pid_map \<Rightarrow> int \<Rightarrow> int \<Rightarrow> bool" where
  "rated prio type m k p \<longleftrightarrow>
     (\<exists>infos. (k, infos) \<in> set m \<and> hasResourceType_infos type infos) \<and> prio k = Some p"

lemma rated_Nil [simp]: "\<not> rated prio type [] k p"
  by (simp add: rated_def)

lemma rated_Cons:
  "rated prio type ((k', infos) # m) k p \<longleftrightarrow>
     (k = k' \<and> hasResourceType_infos type infos \<and> prio k = Some p) \<or> rated prio type m k p"
  by (auto simp: rated_def)

lemma lowest_loop_step:
  "lowest_loop prio type ((k, infos) # m) (pid, pr) =
     (case if hasResourceType_infos type infos then prio k else None of
        None \<Rightarrow> lowest_loop prio type m (pid, pr)
      | Some t \<Rightarrow> if pid = -1 \<or> t > pr then lowest_loop prio type m (k, t)
                 else lowest_loop prio type m (pid, pr))"
  by (auto simp: hasResourceType_infos_def split: option.split)

declare lowest_loop.simps(2) [simp del]

lemma lowest_loop_rated:
  assumes "lowest_loop prio type m (pid, pr) = (k, p)"
  shows "(k, p) = (pid, pr) \<or> rated prio type m k p"
  using assms
proof (induction m arbitrary: pid pr)
  case (Cons e m)
  obtain k0 infos where e: "e = (k0, infos)" by fastforce
  have step: "(lowest_loop prio type m (pid, pr) = (k, p)) \<or>
      (\<exists>t. lowest_loop prio type m (k0, t) = (k, p) \<and> hasResourceType_infos type infos \<and> prio k0 = Some t)"
    using Cons.prems by (auto simp: e lowest_loop_step split: option.splits if_splits)
  then show ?case using Cons.IH [of pid pr] Cons.IH [of k0] by (auto simp: e rated_Cons)
qed simp

lemma lowest_loop_bound:
  assumes "lowest_loop prio type m (pid, pr) = (k, p)" "-1 \<notin> fst ` set m"
  shows "(k = -1 \<longrightarrow> pid = -1 \<and> (\<forall>k' p'. \<not> rated prio type m k' p')) \<and>
         (pid \<noteq> -1 \<longrightarrow> pr \<le> p) \<and> (\<forall>k' p'. rated prio type m k' p' \<longrightarrow> p' \<le> p)"
  using assms
proof (induction m arbitrary: pid pr)
  case (Cons e m)
  obtain k0 infos where e: "e = (k0, infos)" by fastforce
  show ?case
  proof (cases "if hasResourceType_infos type infos then prio k0 else None")
    case None
    then have "lowest_loop prio type m (pid, pr) = (k, p)" using Cons.prems(1) by (simp add: e lowest_loop_step)
    moreover have "\<And>k' p'. rated prio type (e # m) k' p' \<longleftrightarrow> rated prio type m k' p'"
      using None by (auto simp: e rated_Cons split: if_splits)
    ultimately show ?thesis using Cons.IH [of pid pr] Cons.prems(2) by auto
  next
    case (Some t)
    then have r: "\<And>k' p'. rated prio type (e # m) k' p' \<longleftrightarrow> (k' = k0 \<and> p' = t) \<or> rated prio type m k' p'"
      by (auto simp: e rated_Cons split: if_splits)
    have k0: "k0 \<noteq> -1" using Cons.prems(2) by (auto simp: e)
    show ?thesis
    proof (cases "pid = -1 \<or> t > pr")
      case True
      then have "lowest_loop prio type m (k0, t) = (k, p)"
        using Cons.prems(1) Some by (simp add: e lowest_loop_step)
      then show ?thesis using Cons.IH [of k0 t] Cons.prems(2) True k0 by (auto simp: r)
    next
      case False
      then have "lowest_loop prio type m (pid, pr) = (k, p)"
        using Cons.prems(1) Some by (simp add: e lowest_loop_step)
      then show ?thesis using Cons.IH [of pid pr] Cons.prems(2) False by (auto simp: r)
    qed
  qed
qed simp

lemma lowest_pid_rated:
  "getLowestPriorityPid_l prio type s = Some (k, p) \<Longrightarrow> rated prio type (mMap s) k p"
  using lowest_loop_rated [of prio type "mMap s" "-1" "-1"]
  by (auto simp: getLowestPriorityPid_l_def split: prod.splits if_splits)

lemma lowest_pid_bound:
  assumes "-1 \<notin> fst ` set (mMap s)"
  shows "case getLowestPriorityPid_l prio type s of
      None \<Rightarrow> \<forall>k' p'. \<not> rated prio type (mMap s) k' p'
    | Some (k, p) \<Rightarrow> \<forall>k' p'. rated prio type (mMap s) k' p' \<longrightarrow> p' \<le> p"
proof -
  obtain k p where kp: "lowest_loop prio type (mMap s) (-1, -1) = (k, p)" by fastforce
  show ?thesis using lowest_loop_bound [OF kp assms] kp
    by (auto simp: getLowestPriorityPid_l_def)
qed


section \<open>Who is asked\<close>

lemma biggest_of_holder: "biggest_of type infos c \<Longrightarrow> Some c \<in> set (holders type infos)"
  by (force simp: biggest_of_def holders_def hasResourceType_def list_ex_iff)

lemma chosen_outranked:
  assumes "getLowestPriorityBiggestClient_l prio callingPid type s = Some c"
  shows "outranked prio callingPid type (mMap s) (Some c)"
proof -
  obtain cp k p where c: "prio callingPid = Some cp" "getLowestPriorityPid_l prio type s = Some (k, p)"
    "cp < p" "getBiggestClient_l k type s = Some c"
    using assms by (auto simp: getLowestPriorityBiggestClient_l_def split: option.splits if_splits)
  have "prio k = Some p" using lowest_pid_rated [OF c(2)] by (simp add: rated_def)
  then have "outranks prio callingPid k"
    using c by (simp add: outranks_def)
  then show ?thesis
    using biggest_Some [OF c(4)] biggest_of_holder by (auto simp: outranked_def)
qed

lemma getClientForResource_outranked:
  "c \<in> set (getClientForResource_l prio callingPid res clients s) \<Longrightarrow>
     c \<in> set clients \<or> (\<exists>r. res = Some r \<and> outranked prio callingPid (mType r) (mMap s) c)"
  using chosen_outranked
  by (fastforce simp: getClientForResource_l_def split: option.splits)

definition reclaimable :: "string set" where
  "reclaimable = {kResourceSecureCodec, kResourceNonSecureCodec, kResourceGraphicMemory}"

lemma requested_snoc: "requested (rs @ [r]) = note_request r (requested rs)"
  by (simp add: requested_def)

lemma requested_types:
  "(case requested rs of (a, b, g) \<Rightarrow>
      pred_option (\<lambda>r. mType r = kResourceSecureCodec) a \<and>
      pred_option (\<lambda>r. mType r = kResourceNonSecureCodec) b \<and>
      pred_option (\<lambda>r. mType r = kResourceGraphicMemory) g)"
proof (induction rs rule: rev_induct)
  case (snoc r rs)
  obtain x y z where "requested rs = (x, y, z)" by (cases "requested rs") auto
  then show ?case using snoc by (simp add: requested_snoc note_request_def)
qed (simp add: requested_def)

lemma requested_secure: "fst (requested rs) \<noteq> None \<longleftrightarrow> hasResourceType kResourceSecureCodec rs"
proof (induction rs rule: rev_induct)
  case (snoc r rs)
  have "hasResourceType kResourceSecureCodec (rs @ [r]) \<longleftrightarrow>
      hasResourceType kResourceSecureCodec rs \<or> mType r = kResourceSecureCodec"
    by (simp add: hasResourceType_def)
  moreover obtain x y z where "requested rs = (x, y, z)" by (cases "requested rs") auto
  ultimately show ?case using snoc by (auto simp: requested_snoc note_request_def)
qed (simp add: requested_def hasResourceType_def)

lemma first_pass_outranked:
  assumes "first_pass prio callingPid a b s = Some cs" "c \<in> set cs"
  shows "\<exists>type \<in> reclaimable. outranked prio callingPid type (mMap s) c"
proof -
  let ?o = "\<lambda>type. outranked prio callingPid type (mMap s) c"
  let ?P = "\<lambda>cs. c \<in> set cs \<longrightarrow> ?o kResourceSecureCodec \<or> ?o kResourceNonSecureCodec"
  have step: "?P cs'" if "(if t then getAllClients_l prio callingPid type xs s else Some xs) = Some cs'"
    "?P xs" "type = kResourceSecureCodec \<or> type = kResourceNonSecureCodec" for t type xs cs'
    using that getAllClients_outranked [of prio callingPid type xs s cs' c] by (auto split: if_splits)
  obtain xs ys where
    "(if a \<noteq> None \<and> \<not> mSupportsMultipleSecureCodecs s
      then getAllClients_l prio callingPid kResourceSecureCodec [] s else Some []) = Some xs"
    "(if a \<noteq> None \<and> \<not> mSupportsSecureWithNonSecureCodec s
      then getAllClients_l prio callingPid kResourceNonSecureCodec xs s else Some xs) = Some ys"
    "(if b \<noteq> None \<and> \<not> mSupportsSecureWithNonSecureCodec s
      then getAllClients_l prio callingPid kResourceSecureCodec ys s else Some ys) = Some cs"
    using assms(1) unfolding first_pass_def bind_eq_Some_conv by blast
  note passes = this
  have "?P []" by simp
  then have "?P xs" using step [OF passes(1)] by blast
  then have "?P ys" using step [OF passes(2)] by blast
  then have "?P cs" using step [OF passes(3)] by blast
  then have "?o kResourceSecureCodec \<or> ?o kResourceNonSecureCodec" using assms(2) by (rule mp)
  then show ?thesis by (simp add: reclaimable_def disj_commute disj_left_commute)
qed

lemma selected_outranked:
  assumes "select_clients prio callingPid rs s = Some cs" "c \<in> set cs"
  shows "\<exists>type \<in> reclaimable. outranked prio callingPid type (mMap s) c"
proof -
  let ?O = "\<exists>type \<in> reclaimable. outranked prio callingPid type (mMap s) c"
  obtain a b g where r: "requested rs = (a, b, g)" by (cases "requested rs") auto
  have "(\<forall>r. a = Some r \<longrightarrow> mType r \<in> reclaimable) \<and> (\<forall>r. b = Some r \<longrightarrow> mType r \<in> reclaimable) \<and>
      (\<forall>r. g = Some r \<longrightarrow> mType r \<in> reclaimable)"
    using requested_types [of rs] unfolding r prod.case reclaimable_def option.pred_set
    by (auto simp: elem_set)
  then have type: "mType r \<in> reclaimable"
    if "res = Some r" "res = a \<or> res = b \<or> res = g \<or> res = Some (plain_resource kResourceNonSecureCodec 1) \<or>
       res = Some (plain_resource kResourceSecureCodec 1)" for res r
    using that by (auto simp: plain_resource_def reclaimable_def)
  have one: "c \<in> set (getClientForResource_l prio callingPid res clients s) \<longrightarrow> ?O"
    if "c \<in> set clients \<longrightarrow> ?O"
      "res = a \<or> res = b \<or> res = g \<or> res = Some (plain_resource kResourceNonSecureCodec 1) \<or>
       res = Some (plain_resource kResourceSecureCodec 1)" for res clients
    using that(1) getClientForResource_outranked [of c prio callingPid res clients s] type [OF _ that(2)]
    by blast
  obtain ds where ds: "first_pass prio callingPid a b s = Some ds"
    using assms(1) by (cases "first_pass prio callingPid a b s") (auto simp: select_clients_def r)
  define d1 where "d1 = (if ds = [] then getClientForResource_l prio callingPid g ds s else ds)"
  define d2 where "d2 = (if d1 = [] then getClientForResource_l prio callingPid b
      (getClientForResource_l prio callingPid a d1 s) s else d1)"
  define d3 where "d3 = (if a \<noteq> None then getClientForResource_l prio callingPid
      (Some (plain_resource kResourceNonSecureCodec 1)) d2 s else d2)"
  define d4 where "d4 = (if b \<noteq> None then getClientForResource_l prio callingPid
      (Some (plain_resource kResourceSecureCodec 1)) d3 s else d3)"
  have cs: "cs = (if d2 = [] then d4 else d2)"
    using assms(1)
    unfolding select_clients_def r ds prod.case bind.bind_lunit Let_def d4_def d3_def d2_def d1_def option.inject
    by (rule sym)
  have stage: "c \<in> set (if t then xs else ys) \<longrightarrow> ?O"
    if "c \<in> set xs \<longrightarrow> ?O" "c \<in> set ys \<longrightarrow> ?O" for t xs ys
    using that by (cases t) (simp_all only: if_True if_False)
  have "c \<in> set ds \<longrightarrow> ?O" using first_pass_outranked [OF ds] by blast
  then have 1: "c \<in> set d1 \<longrightarrow> ?O"
    unfolding d1_def by (intro stage one) simp_all
  then have 2: "c \<in> set d2 \<longrightarrow> ?O"
    unfolding d2_def by (intro stage one) simp_all
  then have 3: "c \<in> set d3 \<longrightarrow> ?O"
    unfolding d3_def by (intro stage one) simp_all
  then have "c \<in> set d4 \<longrightarrow> ?O"
    unfolding d4_def by (intro stage one) simp_all
  then show ?thesis using 2 assms(2) unfolding cs by (simp split: if_splits)
qed

text \<open>
  C19: Only clients of processes that the caller outranks are asked to give up their
  resources: each client that is asked held, when the request was made, a codec or graphic
  memory in a process whose known priority is strictly lower than the known priority of the
  caller, whatever the other threads do in the meantime. When the answer is true, at least
  one client was asked and all those chosen were.
\<close>

theorem only_outranked_clients_asked:
  assumes "service_wf s" "reclaimResource now ptr prio answer callingPid rs s = Some (s', ok, asked)"
  shows "(\<forall>c \<in> set asked. \<exists>type \<in> reclaimable. outranked prio callingPid type (mMap s) (Some c)) \<and>
    (ok \<longrightarrow> asked \<noteq> [] \<and> select_clients prio callingPid rs s = Some (map Some asked))"
proof (cases "asked = [] \<and> \<not> ok")
  case False
  then obtain clients n where c: "select_clients prio callingPid rs s = Some clients"
    "map Some asked = take n clients" "ok \<longrightarrow> n = length clients \<and> n > 0"
    using reclaim_asked [OF assms] by blast
  have "Some c \<in> set clients" if "c \<in> set asked" for c
  proof -
    have "Some c \<in> set (map Some asked)" using that by simp
    then show ?thesis unfolding c(2) by (rule in_set_takeD)
  qed
  then show ?thesis using selected_outranked [OF c(1)] c by auto
qed simp

text \<open>The other half: exclusive codecs are taken from every holder or the request is refused.\<close>

lemma first_pass_conflict:
  assumes "a \<noteq> None" "\<not> mSupportsMultipleSecureCodecs s"
  shows "first_pass prio callingPid a b s = Some cs \<Longrightarrow>
           (\<exists>ds. getAllClients_l prio callingPid kResourceSecureCodec [] s = Some ds \<and> set ds \<subseteq> set cs)"
    and "getAllClients_l prio callingPid kResourceSecureCodec [] s = None \<Longrightarrow>
           first_pass prio callingPid a b s = None"
proof -
  have grow: "set xs \<subseteq> set cs'"
    if "(if t then getAllClients_l prio callingPid type xs s else Some xs) = Some cs'" for t type xs cs'
    using that by (auto simp: getAllClients_eq split: if_splits)
  assume "first_pass prio callingPid a b s = Some cs"
  then obtain xs ys where
    "getAllClients_l prio callingPid kResourceSecureCodec [] s = Some xs"
    "(if a \<noteq> None \<and> \<not> mSupportsSecureWithNonSecureCodec s
      then getAllClients_l prio callingPid kResourceNonSecureCodec xs s else Some xs) = Some ys"
    "(if b \<noteq> None \<and> \<not> mSupportsSecureWithNonSecureCodec s
      then getAllClients_l prio callingPid kResourceSecureCodec ys s else Some ys) = Some cs"
    using assms unfolding first_pass_def bind_eq_Some_conv by auto
  then show "\<exists>ds. getAllClients_l prio callingPid kResourceSecureCodec [] s = Some ds \<and> set ds \<subseteq> set cs"
    using grow by blast
next
  assume "getAllClients_l prio callingPid kResourceSecureCodec [] s = None"
  then show "first_pass prio callingPid a b s = None" using assms by (simp add: first_pass_def)
qed

lemma select_first_pass:
  assumes "requested rs = (a, b, g)"
  shows "first_pass prio callingPid a b s = None \<Longrightarrow> select_clients prio callingPid rs s = None"
    and "first_pass prio callingPid a b s = Some ds \<Longrightarrow> ds \<noteq> [] \<Longrightarrow>
           select_clients prio callingPid rs s = Some ds"
  by (simp_all add: select_clients_def assms)

text \<open>
  C20: Where secure codecs exclude each other, a request for one succeeds only at the expense
  of all the others: if a process that the caller does not outrank holds a secure codec, the
  request is refused, no client is asked and the registered resources stay as they are;
  if the answer is true, every client that held a secure codec was asked.
\<close>

theorem secure_codecs_all_or_none:
  assumes "service_wf s" "hasResourceType kResourceSecureCodec rs" "\<not> mSupportsMultipleSecureCodecs s"
    and "(k, infos) \<in> set (mMap s)" "c \<in> set (holders kResourceSecureCodec infos)"
  shows "if outranks prio callingPid k
    then reclaimResource now ptr prio answer callingPid rs s = Some (s', True, asked) \<longrightarrow> c \<in> Some ` set asked
    else \<exists>s'. reclaimResource now ptr prio answer callingPid rs s = Some (s', False, []) \<and> mMap s' = mMap s"
proof -
  obtain a b g where r: "requested rs = (a, b, g)" by (cases "requested rs") auto
  have a: "a \<noteq> None" using requested_secure [of rs] assms(2) by (simp add: r)
  obtain s1 where s1: "mMap s1 = mMap s" "reclaimResource now ptr prio answer callingPid rs s =
       reclaim_from now ptr answer (select_clients prio callingPid rs s) s1"
    by (rule reclaim_steps [OF assms(1)])
  show ?thesis
  proof (cases "outranks prio callingPid k")
    case False
    then have "getAllClients_l prio callingPid kResourceSecureCodec [] s = None"
      using assms(4) holders_type [OF assms(5)] by (auto simp: getAllClients_eq)
    then have "select_clients prio callingPid rs s = None"
      using select_first_pass(1) [OF r] first_pass_conflict(2) [OF a assms(3)] by blast
    then show ?thesis using False s1 by (simp add: reclaim_from_def)
  next
    case True
    have "c \<in> Some ` set asked"
      if granted: "reclaimResource now ptr prio answer callingPid rs s = Some (s', True, asked)"
    proof -
      obtain clients where cl: "select_clients prio callingPid rs s = Some clients" "map Some asked = clients"
        using reclaim_asked [OF assms(1) granted] by fastforce
      obtain cs where cs: "first_pass prio callingPid a b s = Some cs"
        using select_first_pass(1) [OF r] cl(1) by (cases "first_pass prio callingPid a b s") auto
      obtain ds where ds: "getAllClients_l prio callingPid kResourceSecureCodec [] s = Some ds" "set ds \<subseteq> set cs"
        using first_pass_conflict(1) [OF a assms(3) cs] by blast
      have "outranked prio callingPid kResourceSecureCodec (mMap s) c"
        using True assms(4,5) by (auto simp: outranked_def)
      then have "c \<in> set cs" using getAllClients_outranked [OF ds(1)] ds(2) by blast
      moreover from this have "cs \<noteq> []" by auto
      then have "cs = clients" using select_first_pass(2) [OF r cs] cl(1) by simp
      ultimately show ?thesis using cl(2) by force
    qed
    then show ?thesis using True by simp
  qed
qed

section \<open>The service from its start\<close>

text \<open>The states that whole operations and requests can bring the service to.\<close>

inductive service_reach :: "service \<Rightarrow> bool" where
  started: "service_reach ResourceManagerService"
| operated: "service_reach s \<Longrightarrow> exec_op op s = Some s' \<Longrightarrow> service_reach s'"
| reclaimed: "service_reach s \<Longrightarrow>
    reclaimResource now ptr prio answer callingPid rs s = Some (s', ok, asked) \<Longrightarrow> service_reach s'"

lemma service_reach_wf: "service_reach s \<Longrightarrow> service_wf s"
proof (induction rule: service_reach.induct)
  case started
  then show ?case by (simp add: service_wf_def ResourceManagerService_def kDefaultMaxNum_def)
next
  case (operated s op s')
  then show ?case using exec_op_wf [of s op] by auto
next
  case (reclaimed s now ptr prio answer callingPid rs s' ok asked)
  then show ?case using reclaim_wf by blast
qed

text \<open>
  C22: The service keeps its data well formed. In every state it can reach, each process is
  registered once, in the order of the pids, and each client once in its process; every
  operation returns; and a request returns unless it chooses a null client.
\<close>

theorem service_state_well_formed:
  assumes "service_reach s"
  shows "map_wf (mMap s) \<and> (\<exists>s'. exec_op op s = Some s') \<and>
    ((\<exists>s' ok asked. reclaimResource now ptr prio answer callingPid rs s = Some (s', ok, asked)) \<or>
     (\<exists>clients. select_clients prio callingPid rs s = Some clients \<and> None \<in> set clients))"
proof (intro conjI)
  have wf: "service_wf s" by (rule service_reach_wf [OF assms])
  then show "map_wf (mMap s)" by (simp add: service_wf_def)
  show "\<exists>s'. exec_op op s = Some s'" using exec_op_wf [OF wf] by blast
  obtain s1 where s1: "service_wf s1" "reclaimResource now ptr prio answer callingPid rs s =
       reclaim_from now ptr answer (select_clients prio callingPid rs s) s1"
    by (rule reclaim_steps [OF wf])
  have returns: "\<exists>s' ok asked. reclaim_from now ptr answer (Some cs) s1 = Some (s', ok, asked)" if "None \<notin> set cs" for cs
    using ask_clients_returns [OF s1(1) that, of now ptr answer "[]"] by (auto simp: reclaim_from_def)
  then show "(\<exists>s' ok asked. reclaimResource now ptr prio answer callingPid rs s = Some (s', ok, asked)) \<or>
     (\<exists>clients. select_clients prio callingPid rs s = Some clients \<and> None \<in> set clients)"
  proof (cases "select_clients prio callingPid rs s")
    case None
    then show ?thesis by (simp add: s1(2) reclaim_from_def) blast
  next
    case (Some cs)
    then show ?thesis using returns [of cs] by (cases "None \<in> set cs") (simp_all only: s1(2), blast+)
  qed
qed

section \<open>Runs\<close>

text \<open>Two processes; the second one, of lower priority, has two clients with secure codecs.\<close>

definition two_processes :: service where
  "two_processes = ResourceManagerService\<lparr>
     mMap := [(20, [\<lparr>clientId = 1, client = Some 1, resources = [plain_resource kResourceGraphicMemory 300]\<rparr>]),
              (30, [\<lparr>clientId = 2, client = Some 2, resources = [plain_resource kResourceSecureCodec 1,
                       plain_resource kResourceGraphicMemory 100]\<rparr>,
                    \<lparr>clientId = 3, client = Some 3, resources = [plain_resource kResourceSecureCodec 1,
                       plain_resource kResourceGraphicMemory 200]\<rparr>])],
     mSupportsMultipleSecureCodecs := False\<rparr>"

definition request_secure :: "media_resource list" where
  "request_secure = [plain_resource kResourceSecureCodec 1]"

definition agree_except :: "nat list \<Rightarrow> answers" where
  "agree_except refuse i s =
     (if i \<in> set refuse then ([], False) else ([RemoveResource [] 30 (int i)], True))"

lemma two_processes_wf: "service_wf two_processes"
  by (simp add: service_wf_def two_processes_def ResourceManagerService_def kDefaultMaxNum_def)


text \<open>A request that is refused although the first client gave its codec up.\<close>

lemma refused_after_reclaiming:
  "map_option (\<lambda>(s, ok, asked). (map (map client \<circ> snd) (mMap s), ok, asked))
     (reclaimResource [] (\<lambda>_. []) Some (agree_except [3]) 10 request_secure two_processes) =
   Some ([[Some 1], []], False, [2, 3])"
  by code_simp

text \<open>A client asked twice, since secure codecs conflict with both requests.\<close>

lemma asked_twice:
  "select_clients Some 10 [plain_resource kResourceSecureCodec 1, plain_resource kResourceNonSecureCodec 1]
     (two_processes\<lparr>mSupportsSecureWithNonSecureCodec := False\<rparr>) = Some [Some 2, Some 3, Some 2, Some 3]"
  by code_simp

text \<open>A client whose only resource of the type has the value 0 is never chosen.\<close>

lemma value_0_never_chosen:
  "getLowestPriorityBiggestClient_l Some 10 kResourceVideoCodec
     (two_processes\<lparr>mMap := [(30, [\<lparr>clientId = 2, client = Some 2,
        resources = [plain_resource kResourceVideoCodec 0]\<rparr>])]\<rparr>) = None"
  by code_simp

text \<open>A null client ends the request with a call on a null pointer.\<close>

lemma null_client_crashes:
  "reclaimResource [] (\<lambda>_. []) Some (agree_except []) 10 request_secure
     (two_processes\<lparr>mMap := [(30, [\<lparr>clientId = 2, client = None,
        resources = [plain_resource kResourceSecureCodec 1]\<rparr>])]\<rparr>) = None"
  by code_simp

lemma only_outranked_clients_asked_witness:
  "\<exists>s'. reclaimResource [] (\<lambda>_. []) Some (agree_except []) 10 request_secure two_processes = Some (s', True, [2, 3]) \<and>
     (\<forall>c \<in> {2, 3}. \<exists>type \<in> reclaimable. outranked Some 10 type (mMap two_processes) (Some c))"
proof -
  let ?r = "reclaimResource [] (\<lambda>_. []) Some (agree_except []) 10 request_secure two_processes"
  have "map_option snd ?r = Some (True, [2, 3])" by code_simp
  then obtain s' where "?r = Some (s', True, [2, 3])" by (cases ?r) auto
  then show ?thesis using only_outranked_clients_asked [OF two_processes_wf, of "[]" "\<lambda>_. []" Some "agree_except []" 10 request_secure s' True "[2, 3]"]
    by simp
qed

lemma secure_codecs_all_or_none_witness:
  "\<exists>s'. reclaimResource [] (\<lambda>_. []) Some (agree_except []) 40 request_secure two_processes = Some (s', False, []) \<and>
     mMap s' = mMap two_processes"
proof -
  obtain infos where infos: "(30, infos) \<in> set (mMap two_processes)"
    "Some 2 \<in> set (holders kResourceSecureCodec infos)"
    by (auto simp: two_processes_def holders_def hasResourceType_def plain_resource_def)
  have "hasResourceType kResourceSecureCodec request_secure" "\<not> mSupportsMultipleSecureCodecs two_processes"
    "\<not> outranks Some 40 30"
    by (simp_all add: hasResourceType_def request_secure_def plain_resource_def two_processes_def
        outranks_def)
  then show ?thesis
    using secure_codecs_all_or_none [OF two_processes_wf _ _ infos, of request_secure Some 40 "[]" "\<lambda>_. []" "agree_except []"]
    by simp
qed

lemma service_state_well_formed_witness:
  "map_wf (mMap ResourceManagerService) \<and>
     (\<exists>s'. exec_op (AddResource [] 20 1 (Some 1) request_secure) ResourceManagerService = Some s')"
  using service_state_well_formed [OF service_reach.started] by blast

end
