(* ===== verification/AudioShared.thy ===== *)
theory AudioShared
  imports AvPrelude
begin

text \<open>
  The queue of audio frames that a client and the audio server share,
  media/libmedia/AudioTrackShared.cpp with include/private/media/AudioTrackShared.h: the control
  block and the proxies of both sides for streaming tracks and for records.

  The control block holds two counters of frames that run through all the values of a 32-bit
  number; the memory has a power of two of frames. \<open>roundup\<close> (audio_utils) is an argument of the
  constructors. The difference of two \<open>int32_t\<close> counters is taken modulo \<open>2^32\<close>, as on the
  targets. A pointer into the shared memory is its offset in bytes.

  Each function is one or several parts, cut where the other side can see or change the
  control block: \<open>ClientProxy::obtainBuffer\<close> is the look at the counters, the decision to
  wait, the clearing of the futex and the wait itself; \<open>ServerProxy::obtainBuffer\<close> is the load of
  \<open>mFlush\<close> and the rest; \<open>ServerProxy::releaseBuffer\<close> is the store and the wake. A
  \<open>LOG_ALWAYS_FATAL_IF\<close> that fires is \<open>None\<close>.
\<close>

section \<open>The control block and the proxies\<close>

definition CBLK_UNDERRUN :: u32 where "CBLK_UNDERRUN = 0x01"
definition CBLK_INVALID :: u32 where "CBLK_INVALID = 0x04"
definition CBLK_OVERRUN :: u32 where "CBLK_OVERRUN = 0x100"
definition CBLK_INTERRUPT :: u32 where "CBLK_INTERRUPT = 0x200"
definition CBLK_STREAM_END_DONE :: u32 where "CBLK_STREAM_END_DONE = 0x400"
definition CBLK_FUTEX_WAKE :: u32 where "CBLK_FUTEX_WAKE = 1"

definition WOULD_BLOCK :: int where "WOULD_BLOCK = -11"
definition TIMED_OUT :: int where "TIMED_OUT = -110"
definition DEAD_OBJECT :: int where "DEAD_OBJECT = -32"
definition EINTR :: int where "EINTR = 4"
definition EWOULDBLOCK :: int where "EWOULDBLOCK = 11"
definition ETIMEDOUT :: int where "ETIMEDOUT = 110"
definition INT_MAX :: int where "INT_MAX = 2147483647"

lemmas cblk_flags = CBLK_UNDERRUN_def CBLK_INVALID_def CBLK_OVERRUN_def CBLK_INTERRUPT_def
  CBLK_STREAM_END_DONE_def CBLK_FUTEX_WAKE_def

record cblk =
  mServer :: u32
  mFutex :: u32
  mMinimum :: u32
  mFlags :: u32
  mFront :: u32
  mRear :: u32
  mFlush :: u32
  mUnderrunFrames :: u32

definition audio_track_cblk :: cblk where
  "audio_track_cblk = \<lparr>mServer = 0, mFutex = 0, mMinimum = 0, mFlags = 0, mFront = 0, mRear = 0,
     mFlush = 0, mUnderrunFrames = 0\<rparr>"

record proxy =
  mFrameCount :: nat
  mFrameSize :: nat
  mFrameCountP2 :: nat
  mIsOut :: bool
  mClientInServer :: bool
  mIsShutdown :: bool
  mUnreleased :: nat

record client = proxy +
  mEpoch :: u64

record server = proxy +
  mAvailToClient :: nat
  mFlushSeen :: u32

definition ClientProxy :: "(nat \<Rightarrow> nat) \<Rightarrow> nat \<Rightarrow> nat \<Rightarrow> bool \<Rightarrow> bool \<Rightarrow> client" where
  "ClientProxy roundup frameCount frameSize isOut clientInServer =
     \<lparr>mFrameCount = frameCount, mFrameSize = frameSize, mFrameCountP2 = roundup frameCount,
      mIsOut = isOut, mClientInServer = clientInServer, mIsShutdown = False, mUnreleased = 0,
      mEpoch = 0\<rparr>"

definition ServerProxy :: "(nat \<Rightarrow> nat) \<Rightarrow> nat \<Rightarrow> nat \<Rightarrow> bool \<Rightarrow> bool \<Rightarrow> server" where
  "ServerProxy roundup frameCount frameSize isOut clientInServer =
     \<lparr>mFrameCount = frameCount, mFrameSize = frameSize, mFrameCountP2 = roundup frameCount,
      mIsOut = isOut, mClientInServer = clientInServer, mIsShutdown = False, mUnreleased = 0,
      mAvailToClient = 0, mFlushSeen = 0\<rparr>"

text \<open>\<open>Proxy::Buffer\<close>\<close>

record buffer =
  bFrameCount :: nat
  bRaw :: "nat option"
  bNonContig :: nat

definition no_buffer :: buffer where
  "no_buffer = \<lparr>bFrameCount = 0, bRaw = None, bNonContig = 0\<rparr>"

text \<open>\<open>rear - front\<close>, and the test that the pipe is not overfull.\<close>

definition filled_of :: "u32 \<Rightarrow> u32 \<Rightarrow> int" where
  "filled_of rear front = sint (rear - front)"

definition in_range :: "'a proxy_scheme \<Rightarrow> int \<Rightarrow> bool" where
  "in_range p filled \<longleftrightarrow> 0 \<le> filled \<and> nat filled \<le> mFrameCount p"

text \<open>
  The first contiguous chunk from the counter \<open>own\<close> on: at most \<open>avail\<close> frames, at most
  \<open>want\<close>, and none past the end of the memory.
\<close>

definition chunk_index :: "'a proxy_scheme \<Rightarrow> u32 \<Rightarrow> nat" where
  "chunk_index p own = unat (own AND of_nat (mFrameCountP2 p - 1))"

definition first_chunk :: "'a proxy_scheme \<Rightarrow> u32 \<Rightarrow> nat \<Rightarrow> nat \<Rightarrow> buffer" where
  "first_chunk p own avail want =
     (let part1 = mFrameCountP2 p - chunk_index p own;
          part1 = (if part1 > avail then avail else part1);
          part1 = (if part1 > want then want else part1)
      in \<lparr>bFrameCount = part1,
          bRaw = (if part1 > 0 then Some (chunk_index p own * mFrameSize p) else None),
          bNonContig = avail - part1\<rparr>)"

section \<open>The client\<close>

datatype look = Got buffer | Failed int | Blocked

text \<open>
  One turn of the loop of \<open>ClientProxy::obtainBuffer\<close> up to the decision to wait;
  \<open>ignore\<close> is \<open>ignoreInitialPendingInterrupt\<close>.
\<close>

definition client_look :: "bool \<Rightarrow> nat \<Rightarrow> cblk \<Rightarrow> client \<Rightarrow> cblk \<times> client \<times> look" where
  "client_look ignore want b c =
     (let flags = mFlags b;
          b = b\<lparr>mFlags := flags AND NOT CBLK_INTERRUPT\<rparr>
      in if flags AND CBLK_INVALID \<noteq> 0 then (b, c, Failed DEAD_OBJECT)
         else if \<not> ignore \<and> flags AND CBLK_INTERRUPT \<noteq> 0 then (b, c, Failed (- EINTR))
         else
           let front = mFront b; rear = mRear b; filled = filled_of rear front
           in if \<not> in_range c filled \<and> mIsOut c
              then (b, c\<lparr>mIsShutdown := True\<rparr>, Failed NO_INIT)
              else
                let b = (if in_range c filled then b
                         else b\<lparr>mFront := rear, mFlags := mFlags b OR CBLK_OVERRUN\<rparr>);
                    filled = (if in_range c filled then nat filled else 0);
                    avail = (if mIsOut c then mFrameCount c - filled else filled)
                in if avail > 0
                   then let buf = first_chunk c (if mIsOut c then rear else front) avail want
                        in (b, c\<lparr>mUnreleased := bFrameCount buf\<rparr>, Got buf)
                   else (b, c, Blocked))"

text \<open>The entry of the function, and its exit where it fails.\<close>

definition client_enter :: "nat \<Rightarrow> client \<Rightarrow> int option option" where
  "client_enter want c =
     (if want = 0 then None else Some (if mIsShutdown c then Some NO_INIT else None))"

definition client_fail :: "client \<Rightarrow> client \<times> buffer" where
  "client_fail c = (c\<lparr>mUnreleased := 0\<rparr>, no_buffer)"

subsection \<open>Waiting\<close>

datatype timeout = TIMEOUT_ZERO | TIMEOUT_INFINITE | TIMEOUT_FINITE | TIMEOUT_CONTINUE

type_synonym timespec = "int \<times> int"

definition MEASURE_NS :: int where "MEASURE_NS = 10000000"
definition MAX_SEC :: int where "MAX_SEC = 5"

record waiting =
  timeout_w :: timeout
  measure_w :: bool
  spent :: timespec
  before_w :: "timespec option"

definition start_waiting :: "timespec option \<Rightarrow> bool \<Rightarrow> waiting" where
  "start_waiting req elapsed =
     (let (t, m) = (case req of
          None \<Rightarrow> (TIMEOUT_ZERO, elapsed)
        | Some (sec, nsec) \<Rightarrow>
            if sec = 0 \<and> nsec = 0 then (TIMEOUT_ZERO, elapsed)
            else if sec = INT_MAX then (TIMEOUT_INFINITE, elapsed)
            else (TIMEOUT_FINITE, elapsed \<or> sec > 0 \<or> nsec \<ge> MEASURE_NS))
      in \<lparr>timeout_w = t, measure_w = m, spent = (0, 0), before_w = None\<rparr>)"

text \<open>The time that is left, as the code computes it.\<close>

definition remaining_time :: "timespec \<Rightarrow> timespec \<Rightarrow> timespec" where
  "remaining_time req w =
     (let sec = fst req - fst w; nsec = snd req - snd w;
          (sec, nsec) = (if nsec < 0 then (sec + 1, nsec + 1000000000) else (sec, nsec))
      in if MAX_SEC < sec then (MAX_SEC, 0) else (sec, nsec))"

text \<open>The \<open>switch\<close>: the status where it gives up, else the time to wait (\<open>None\<close> for ever).\<close>

definition wait_time :: "timespec option \<Rightarrow> waiting \<Rightarrow> (int, waiting \<times> timespec option) sum" where
  "wait_time req w =
     (case timeout_w w of
        TIMEOUT_ZERO \<Rightarrow> Inl WOULD_BLOCK
      | TIMEOUT_INFINITE \<Rightarrow> Inr (w, None)
      | _ \<Rightarrow>
          let w = w\<lparr>timeout_w := TIMEOUT_CONTINUE\<rparr>;
              (sec, nsec) = (case req of Some r \<Rightarrow> r | None \<Rightarrow> (0, 0))
          in if \<not> measure_w w \<or> sec < fst (spent w) \<or> (sec = fst (spent w) \<and> nsec \<le> snd (spent w))
             then Inl TIMED_OUT
             else Inr (w, Some (remaining_time (sec, nsec) (spent w))))"

text \<open>The flag is taken; the thread waits only where it was down.\<close>

definition futex_down :: "cblk \<Rightarrow> cblk \<times> bool" where
  "futex_down b = (b\<lparr>mFutex := mFutex b AND NOT CBLK_FUTEX_WAKE\<rparr>, mFutex b AND CBLK_FUTEX_WAKE = 0)"

text \<open>The flag is put up; the other side is woken where it was down.\<close>

definition futex_up :: "cblk \<Rightarrow> cblk \<times> bool" where
  "futex_up b = (b\<lparr>mFutex := mFutex b OR CBLK_FUTEX_WAKE\<rparr>, mFutex b AND CBLK_FUTEX_WAKE = 0)"

text \<open>The elapsed time after a wait that lasted from \<open>before\<close> to \<open>after\<close>.\<close>

definition add_spent :: "timespec \<Rightarrow> timespec \<Rightarrow> timespec \<Rightarrow> timespec" where
  "add_spent w before after =
     (let sec = fst w + (fst after - fst before);
          deltaNs = snd after - snd before;
          (sec, deltaNs) = (if deltaNs < 0 then (sec - 1, deltaNs + 1000000000) else (sec, deltaNs));
          nsec = snd w + deltaNs
      in if nsec \<ge> 1000000000 then (sec + 1, nsec - 1000000000) else (sec, nsec))"

definition after_wait :: "int \<Rightarrow> timespec \<Rightarrow> timespec \<Rightarrow> waiting \<Rightarrow> (int, waiting) sum" where
  "after_wait errno before after w =
     (let w = (if measure_w w
               then w\<lparr>spent := add_spent (spent w) (case before_w w of None \<Rightarrow> before | Some t \<Rightarrow> t) after,
                      before_w := Some after\<rparr>
               else w)
      in if errno \<in> {0, EWOULDBLOCK, EINTR, ETIMEDOUT} then Inr w else Inl errno)"

subsection \<open>Releasing and the other operations\<close>

definition client_release :: "nat \<Rightarrow> cblk \<Rightarrow> client \<Rightarrow> (cblk \<times> client) option" where
  "client_release stepCount b c =
     (if stepCount = 0 \<or> mIsShutdown c then Some (b, c)
      else if \<not> (stepCount \<le> mUnreleased c \<and> mUnreleased c \<le> mFrameCount c) then None
      else Some (if mIsOut c then b\<lparr>mRear := of_nat stepCount + mRear b\<rparr>
                 else b\<lparr>mFront := of_nat stepCount + mFront b\<rparr>,
                 c\<lparr>mUnreleased := mUnreleased c - stepCount\<rparr>))"

text \<open>\<open>binderDied\<close> and \<open>interrupt\<close>; the second value is the call of \<open>FUTEX_WAKE\<close>.\<close>

definition signal_flag :: "u32 \<Rightarrow> cblk \<Rightarrow> cblk \<times> bool" where
  "signal_flag flag b =
     (let old = mFlags b; b = b\<lparr>mFlags := old OR flag\<rparr>
      in if old AND flag = 0 then (b\<lparr>mFutex := mFutex b OR CBLK_FUTEX_WAKE\<rparr>, True) else (b, False))"

definition binderDied :: "cblk \<Rightarrow> cblk \<times> bool" where
  "binderDied b = signal_flag CBLK_INVALID b"

definition interrupt :: "cblk \<Rightarrow> cblk \<times> bool" where
  "interrupt b = signal_flag CBLK_INTERRUPT b"

definition getMisalignment :: "cblk \<Rightarrow> client \<Rightarrow> nat" where
  "getMisalignment b c =
     unat ((of_nat (mFrameCountP2 c) - (if mIsOut c then mRear b else mFront b))
           AND of_nat (mFrameCountP2 c - 1))"

definition getFramesFilled :: "cblk \<Rightarrow> client \<Rightarrow> nat" where
  "getFramesFilled b c =
     (let filled = filled_of (mRear b) (mFront b) in if in_range c filled then nat filled else 0)"

definition flush_mask :: "'a proxy_scheme \<Rightarrow> u32" where
  "flush_mask p = of_nat (mFrameCountP2 p * 2 - 1)"

definition client_flush :: "client \<Rightarrow> cblk \<Rightarrow> cblk" where
  "client_flush c b =
     b\<lparr>mFlush := (mRear b AND flush_mask c) OR
         ((mFlush b AND NOT (flush_mask c)) + of_nat (mFrameCountP2 c * 2))\<rparr>"

definition clearStreamEndDone :: "cblk \<Rightarrow> cblk \<times> bool" where
  "clearStreamEndDone b =
     (b\<lparr>mFlags := mFlags b AND NOT CBLK_STREAM_END_DONE\<rparr>, mFlags b AND CBLK_STREAM_END_DONE \<noteq> 0)"

definition getStreamEndDone :: "cblk \<Rightarrow> bool" where
  "getStreamEndDone b \<longleftrightarrow> mFlags b AND CBLK_STREAM_END_DONE \<noteq> 0"

definition getPosition :: "cblk \<Rightarrow> client \<Rightarrow> u64" where
  "getPosition b c = mEpoch c + ucast (mServer b)"

definition setMinimum :: "nat \<Rightarrow> cblk \<Rightarrow> cblk" where
  "setMinimum minimum b = b\<lparr>mMinimum := (if minimum > 0xffffffff then 0xffffffff else of_nat minimum)\<rparr>"

section \<open>The server\<close>

text \<open>
  The flush that a streaming output track has pending: the new front, and the call of
  \<open>FUTEX_WAKE\<close>.
\<close>

definition new_front :: "'a proxy_scheme \<Rightarrow> u32 \<Rightarrow> u32 \<Rightarrow> u32 \<Rightarrow> u32" where
  "new_front p flush front rear =
     (let overflowBit = mFrameCountP2 p * 2;
          newFront = (front AND NOT (flush_mask p)) OR (flush AND flush_mask p);
          filled = filled_of rear newFront;
          (newFront, filled) = (if filled \<ge> int overflowBit
                                then (newFront + of_nat overflowBit, filled - int overflowBit)
                                else (newFront, filled))
      in if in_range p filled then newFront else rear)"

definition server_flush :: "u32 \<Rightarrow> cblk \<Rightarrow> server \<Rightarrow> cblk \<times> server \<times> bool" where
  "server_flush flush b s =
     (if mIsOut s \<and> flush \<noteq> mFlushSeen s
      then let b = b\<lparr>mFront := new_front s flush (mFront b) (mRear b)\<rparr>; (b, wake) = futex_up b
           in (b, s\<lparr>mFlushSeen := flush\<rparr>, wake)
      else (b, s, False))"

definition no_init :: "cblk \<Rightarrow> server \<Rightarrow> bool \<Rightarrow> cblk \<times> server \<times> buffer \<times> int \<times> bool" where
  "no_init b s wake = (b, s\<lparr>mUnreleased := 0\<rparr>, no_buffer, NO_INIT, wake)"

text \<open>\<open>ServerProxy::obtainBuffer\<close> after \<open>mFlush\<close> was loaded.\<close>

definition server_obtain ::
    "u32 \<Rightarrow> nat \<Rightarrow> bool \<Rightarrow> cblk \<Rightarrow> server \<Rightarrow> (cblk \<times> server \<times> buffer \<times> int \<times> bool) option" where
  "server_obtain flush want ackFlush b s =
     (if want = 0 then None
      else if mIsShutdown s then Some (no_init b s False)
      else case server_flush flush b s of (b, s, wake) \<Rightarrow>
        let front = mFront b; rear = mRear b; filled = filled_of rear front in
        if \<not> in_range s filled then Some (no_init b (s\<lparr>mIsShutdown := True\<rparr>) wake)
        else
          let filled = nat filled;
              availToServer = (if mIsOut s then filled else mFrameCount s - filled);
              s = s\<lparr>mAvailToClient := (if mIsOut s then mFrameCount s - filled else filled)\<rparr>;
              buf = first_chunk s (if mIsOut s then front else rear) availToServer want;
              s = (if ackFlush then s else s\<lparr>mUnreleased := bFrameCount buf\<rparr>)
          in Some (b, s, buf, if bFrameCount buf > 0 then OK else WOULD_BLOCK, wake))"

text \<open>\<open>ServerProxy::releaseBuffer\<close>: the store, and the wake of the client.\<close>

definition server_store :: "nat \<Rightarrow> cblk \<Rightarrow> server \<Rightarrow> (cblk \<times> server) option" where
  "server_store stepCount b s =
     (if \<not> (stepCount \<le> mUnreleased s \<and> mUnreleased s \<le> mFrameCount s) then None
      else
        let b = (if mIsOut s then b\<lparr>mFront := of_nat stepCount + mFront b\<rparr>
                 else b\<lparr>mRear := of_nat stepCount + mRear b\<rparr>)
        in Some (b\<lparr>mServer := mServer b + of_nat stepCount\<rparr>, s\<lparr>mUnreleased := mUnreleased s - stepCount\<rparr>))"

definition wake_minimum :: "cblk \<Rightarrow> server \<Rightarrow> nat" where
  "wake_minimum b s =
     (let half = (if mFrameCount s div 2 = 0 then 1 else mFrameCount s div 2);
          minimum = unat (mMinimum b)
      in if minimum = 0 then (if mIsOut s then half else 1)
         else if minimum > half then half else minimum)"

definition server_wake :: "nat \<Rightarrow> cblk \<Rightarrow> server \<Rightarrow> cblk \<times> bool" where
  "server_wake stepCount b s =
     (if \<not> mIsOut s \<or> mAvailToClient s + stepCount \<ge> wake_minimum b s then futex_up b else (b, False))"

definition server_release :: "nat \<Rightarrow> cblk \<Rightarrow> server \<Rightarrow> (cblk \<times> server \<times> bool) option" where
  "server_release stepCount b s =
     (if stepCount = 0 \<or> mIsShutdown s then Some (b, s, False)
      else do {
        (b, s) \<leftarrow> server_store stepCount b s;
        let (b, wake) = server_wake stepCount b s;
        Some (b, s, wake) })"

definition framesReady :: "cblk \<Rightarrow> server \<Rightarrow> (server \<times> nat) option" where
  "framesReady b s =
     (if \<not> mIsOut s then None
      else if mIsShutdown s then Some (s, 0)
      else if mFlush b \<noteq> mFlushSeen s then Some (s, mFrameCount s)
      else let filled = filled_of (mRear b) (mFront b)
           in if in_range s filled then Some (s, nat filled) else Some (s\<lparr>mIsShutdown := True\<rparr>, 0))"

definition setStreamEndDone :: "cblk \<Rightarrow> cblk \<times> bool" where
  "setStreamEndDone b =
     (b\<lparr>mFlags := mFlags b OR CBLK_STREAM_END_DONE\<rparr>, mFlags b AND CBLK_STREAM_END_DONE \<noteq> 0)"

definition tallyUnderrunFrames :: "u32 \<Rightarrow> cblk \<Rightarrow> cblk" where
  "tallyUnderrunFrames frameCount b =
     b\<lparr>mUnderrunFrames := mUnderrunFrames b + frameCount, mFlags := mFlags b OR CBLK_UNDERRUN\<rparr>"

end
