(* ===== verification/AudioFifo.thy ===== *)
theory AudioFifo
  imports AudioShared
begin

text \<open>
  A playback track: the client proxy, the server proxy and the shared memory between them, run
  in every interleaving of their steps, for frames of any kind.

  \<open>written\<close> is the list of all frames the client has released, \<open>fpos\<close> the number of frames the
  server has passed and \<open>fx\<close> the number of frames that had been released when the client last
  asked for a flush; they are only recorded, and so is \<open>fresh\<close>, that the server obtained since it last released. In every reachable state the chunk the server
  holds has exactly the frames that are next in \<open>written\<close>, the counters never look corrupt to
  either side, and a flush passes exactly the frames that were released before it.
\<close>

section \<open>The track and its steps\<close>

text \<open>Where the client is: outside, after a look that found no room, with the flag taken, or in
  the wait.\<close>

datatype client_pc = Running | No_room | Flag_taken | Asleep

record 'f track =
  blk :: cblk
  mem :: "'f list"
  cli :: client
  srv :: server
  cpc :: client_pc
  cbuf :: buffer
  cdone :: nat
  loaded :: "u32 option"
  sbuf :: buffer
  sdone :: nat
  stored :: "nat option"
  fresh :: bool
  written :: "'f list"
  fpos :: nat
  fx :: nat

definition track_start :: "(nat \<Rightarrow> nat) \<Rightarrow> nat \<Rightarrow> nat \<Rightarrow> bool \<Rightarrow> 'f list \<Rightarrow> 'f track" where
  "track_start roundup frameCount frameSize clientInServer m =
     \<lparr>blk = audio_track_cblk, mem = m,
      cli = ClientProxy roundup frameCount frameSize True clientInServer,
      srv = ServerProxy roundup frameCount frameSize True clientInServer,
      cpc = Running, cbuf = no_buffer, cdone = 0, loaded = None, sbuf = no_buffer, sdone = 0,
      stored = None, fresh = False, written = [], fpos = 0, fx = 0\<rparr>"

text \<open>
  Steps of the client: a look for up to \<open>want\<close> frames of room, giving up (any of the exits of the
  \<open>switch\<close>), taking the flag, the wait and its end, storing a frame into the chunk that was
  obtained, releasing, flushing, interrupting, setting the minimum. Steps of the server: the
  load of \<open>mFlush\<close>, the rest of \<open>obtainBuffer\<close>, the two halves of \<open>releaseBuffer\<close>,
  \<open>framesReady\<close>, counting an underrun.
\<close>

datatype 'f action =
    Look bool nat | Give_up | Take_flag | Wait | Awake
  | Store nat 'f | Release nat | Flush | Interrupt | Minimum nat
  | Load_flush | Obtain nat bool | Release_store nat | Release_wake | Frames_ready | Tally u32

text \<open>The address of frame \<open>k\<close> of a chunk.\<close>

definition frame_index :: "'a proxy_scheme \<Rightarrow> buffer \<Rightarrow> nat \<Rightarrow> nat option" where
  "frame_index p buf k = map_option (\<lambda>r. r div mFrameSize p + k) (bRaw buf)"

text \<open>A wake by the server ends the wait.\<close>

definition woken_pc :: "bool \<Rightarrow> client_pc \<Rightarrow> client_pc" where
  "woken_pc wake pc = (if wake \<and> pc = Asleep then Running else pc)"

definition passed :: "cblk \<Rightarrow> cblk \<Rightarrow> nat" where
  "passed b b' = nat (filled_of (mFront b') (mFront b))"

definition released_frames :: "'f track \<Rightarrow> nat \<Rightarrow> 'f list" where
  "released_frames t n =
     map (\<lambda>k. mem t ! ((length (written t) + k) mod length (mem t))) [0..<n]"

fun track_exec :: "'f action \<Rightarrow> 'f track \<Rightarrow> 'f track option" where
  "track_exec (Look ignore want) t =
     (case client_enter want (cli t) of
        None \<Rightarrow> None
      | Some (Some status) \<Rightarrow> (case client_fail (cli t) of (c, buf) \<Rightarrow> Some (t\<lparr>cli := c, cbuf := buf, cdone := 0\<rparr>))
      | Some None \<Rightarrow>
          (case client_look ignore want (blk t) (cli t) of
             (b, c, Got buf) \<Rightarrow> Some (t\<lparr>blk := b, cli := c, cbuf := buf, cdone := 0, cpc := Running\<rparr>)
           | (b, c, Failed _) \<Rightarrow> (case client_fail c of (c, buf) \<Rightarrow>
               Some (t\<lparr>blk := b, cli := c, cbuf := buf, cdone := 0, cpc := Running\<rparr>))
           | (b, c, Blocked) \<Rightarrow> Some (t\<lparr>blk := b, cli := c, cpc := No_room\<rparr>)))"
| "track_exec Give_up t =
     (case client_fail (cli t) of (c, buf) \<Rightarrow> Some (t\<lparr>cli := c, cbuf := buf, cdone := 0, cpc := Running\<rparr>))"
| "track_exec Take_flag t =
     (case futex_down (blk t) of (b, down) \<Rightarrow>
        Some (t\<lparr>blk := b, cpc := (if down then Flag_taken else Running)\<rparr>))"
| "track_exec Wait t =
     Some (t\<lparr>cpc := (if mFutex (blk t) AND CBLK_FUTEX_WAKE = 0 then Asleep else Running)\<rparr>)"
| "track_exec Awake t = Some (t\<lparr>cpc := Running\<rparr>)"
| "track_exec (Store k f) t =
     (case frame_index (cli t) (cbuf t) k of
        None \<Rightarrow> None
      | Some i \<Rightarrow> if i < length (mem t) then Some (t\<lparr>mem := (mem t)[i := f]\<rparr>) else None)"
| "track_exec (Release n) t = do {
     (b, c) \<leftarrow> client_release n (blk t) (cli t);
     let moved = unat (mRear b - mRear (blk t));
     Some (t\<lparr>blk := b, cli := c, cdone := cdone t + moved,
             written := written t @ released_frames t moved\<rparr>) }"
| "track_exec Flush t = Some (t\<lparr>blk := client_flush (cli t) (blk t), fx := length (written t)\<rparr>)"
| "track_exec Interrupt t =
     (case interrupt (blk t) of (b, wake) \<Rightarrow> Some (t\<lparr>blk := b, cpc := woken_pc wake (cpc t)\<rparr>))"
| "track_exec (Minimum n) t = Some (t\<lparr>blk := setMinimum n (blk t)\<rparr>)"
| "track_exec Load_flush t = Some (t\<lparr>loaded := Some (mFlush (blk t))\<rparr>)"
| "track_exec (Obtain want ackFlush) t = do {
     flush \<leftarrow> loaded t;
     (b, s, buf, status, wake) \<leftarrow> server_obtain flush want ackFlush (blk t) (srv t);
     Some (t\<lparr>blk := b, srv := s, loaded := None, cpc := woken_pc wake (cpc t),
             sbuf := (if ackFlush then sbuf t else buf), sdone := (if ackFlush then sdone t else 0),
             fresh := True, fpos := fpos t + passed (blk t) b\<rparr>) }"
| "track_exec (Release_store n) t = do {
     (b, s) \<leftarrow> server_store n (blk t) (srv t);
     Some (t\<lparr>blk := b, srv := s, sdone := sdone t + n, stored := Some n,
             fresh := False, fpos := fpos t + passed (blk t) b\<rparr>) }"
| "track_exec Release_wake t = do {
     n \<leftarrow> stored t;
     case server_wake n (blk t) (srv t) of (b, wake) \<Rightarrow>
       Some (t\<lparr>blk := b, stored := None, cpc := woken_pc wake (cpc t)\<rparr>) }"
| "track_exec Frames_ready t = do {
     (s, n) \<leftarrow> framesReady (blk t) (srv t);
     Some (t\<lparr>srv := s\<rparr>) }"
| "track_exec (Tally n) t = Some (t\<lparr>blk := tallyUnderrunFrames n (blk t)\<rparr>)"

text \<open>
  What the two sides may do: the documented use of the proxies. A flush does not fall between the
  load of \<open>mFlush\<close> and the rest of \<open>obtainBuffer\<close> unless \<open>racy\<close>; it is acknowledged
  only when the server holds no chunk. Unless \<open>chunked\<close>, the server releases once after it
  obtained.
\<close>

fun may :: "bool \<Rightarrow> bool \<Rightarrow> 'f action \<Rightarrow> 'f track \<Rightarrow> bool" where
  "may racy chunked (Look ignore want) t \<longleftrightarrow> cpc t = Running \<and> 0 < want"
| "may racy chunked Give_up t \<longleftrightarrow> cpc t = No_room"
| "may racy chunked Take_flag t \<longleftrightarrow> cpc t = No_room"
| "may racy chunked Wait t \<longleftrightarrow> cpc t = Flag_taken"
| "may racy chunked Awake t \<longleftrightarrow> cpc t = Asleep"
| "may racy chunked (Store k f) t \<longleftrightarrow> cpc t = Running \<and> cdone t \<le> k \<and> k < bFrameCount (cbuf t)"
| "may racy chunked (Release n) t \<longleftrightarrow> cpc t = Running \<and> 0 < n \<and> n \<le> mUnreleased (cli t)"
| "may racy chunked Flush t \<longleftrightarrow> cpc t = Running \<and> (racy \<or> loaded t = None)"
| "may racy chunked Interrupt t \<longleftrightarrow> True"
| "may racy chunked (Minimum n) t \<longleftrightarrow> cpc t = Running"
| "may racy chunked Load_flush t \<longleftrightarrow> loaded t = None \<and> stored t = None"
| "may racy chunked (Obtain want ackFlush) t \<longleftrightarrow> loaded t \<noteq> None \<and> 0 < want \<and> (ackFlush \<longrightarrow> mUnreleased (srv t) = 0)"
| "may racy chunked (Release_store n) t \<longleftrightarrow> loaded t = None \<and> stored t = None \<and> 0 < n \<and> n \<le> mUnreleased (srv t) \<and>
     (chunked \<or> fresh t)"
| "may racy chunked Release_wake t \<longleftrightarrow> stored t \<noteq> None"
| "may racy chunked Frames_ready t \<longleftrightarrow> loaded t = None \<and> stored t = None"
| "may racy chunked (Tally n) t \<longleftrightarrow> loaded t = None \<and> stored t = None"

inductive track_reach :: "bool \<Rightarrow> bool \<Rightarrow> 'f track \<Rightarrow> 'f track \<Rightarrow> bool" for racy chunked t0 where
  begun: "track_reach racy chunked t0 t0"
| moved: "track_reach racy chunked t0 t \<Longrightarrow> may racy chunked a t \<Longrightarrow> track_exec a t = Some t' \<Longrightarrow> track_reach racy chunked t0 t'"

text \<open>What \<open>roundup\<close> is documented to return, for counts up to \<open>2^29\<close>.\<close>

definition roundup_ok :: "(nat \<Rightarrow> nat) \<Rightarrow> nat \<Rightarrow> bool" where
  "roundup_ok roundup n \<longleftrightarrow> 0 < n \<and> (\<exists>k \<le> 29. roundup n = 2 ^ k \<and> n \<le> 2 ^ k)"

section \<open>Counters\<close>

lemma of_nat_and_mask:
  assumes "m \<le> 32"
  shows "(of_nat n :: u32) AND mask m = of_nat (n mod 2 ^ m)"
proof -
  have "(of_nat n :: u32) AND mask m = take_bit m (of_nat n)" by (simp only: take_bit_eq_mask)
  also have "\<dots> = of_nat (take_bit m n)"
    using assms by (simp add: take_bit_of_nat)
  finally show ?thesis by (simp add: take_bit_eq_mod)
qed

lemma unat_of_nat_and_mask:
  assumes "k \<le> 31"
  shows "unat ((of_nat n :: u32) AND of_nat (2 ^ k - 1)) = n mod 2 ^ k"
proof -
  have "(of_nat (2 ^ k - 1) :: u32) = mask k" by (simp add: mask_eq_exp_minus_1 of_nat_diff)
  then have "(of_nat n :: u32) AND of_nat (2 ^ k - 1) = of_nat (n mod 2 ^ k)"
    using of_nat_and_mask [of k n] assms by simp
  moreover have "n mod 2 ^ k < 2 ^ 32"
    by (rule less_le_trans [OF mod_less_divisor power_increasing]) (use assms in simp_all)
  ultimately show ?thesis by (simp add: unat_of_nat)
qed

lemma filled_of_nat:
  assumes "d < 2 ^ 31"
  shows "filled_of (of_nat (f + d)) (of_nat f) = int d"
proof -
  have "(of_nat (f + d) :: u32) - of_nat f = of_nat d" by simp
  moreover have "sint (of_nat d :: u32) = signed_take_bit 31 (int d)"
    by (simp add: signed_of_nat)
  moreover have "signed_take_bit 31 (int d) = int d"
    using assms by (simp add: signed_take_bit_int_eq_self)
  ultimately show ?thesis by (simp add: filled_of_def)
qed

lemma passed_forward:
  assumes "mFront b' = of_nat n + mFront b" "n < 2 ^ 31"
  shows "passed b b' = n"
proof -
  obtain f where "mFront b = of_nat f" by (metis word_nat_cases)
  then show ?thesis using filled_of_nat [OF assms(2), of f] assms(1) by (simp add: passed_def add.commute)
qed

lemma passed_0 [simp]: "mFront b' = mFront b \<Longrightarrow> passed b b' = 0"
  by (simp add: passed_def filled_of_def)

text \<open>Clearing the low bits of a counter and putting in those of another one.\<close>

lemma of_nat_and_not_mask:
  assumes "m \<le> 32"
  shows "(of_nat f :: u32) AND NOT (mask m) = of_nat (f - f mod 2 ^ m)"
proof -
  let ?w = "of_nat f :: u32"
  have "(?w AND NOT (mask m)) AND (?w AND mask m) = 0"
    by (rule bit_word_eqI) (auto simp: bit_simps)
  moreover have "(?w AND NOT (mask m)) OR (?w AND mask m) = ?w"
    by (rule bit_word_eqI) (auto simp: bit_simps)
  ultimately have "?w = (?w AND NOT (mask m)) + (?w AND mask m)" by (metis disjunctive_add_eq_or)
  moreover have "f mod 2 ^ m \<le> f" by simp
  ultimately show ?thesis
    using of_nat_and_mask [of m f] assms by (simp add: of_nat_diff eq_diff_eq)
qed

lemma splice_low_bits:
  assumes "m \<le> 31"
  shows "((of_nat f :: u32) AND NOT (mask m)) OR (of_nat x AND mask m) = of_nat (f - f mod 2 ^ m + x mod 2 ^ m)"
proof -
  let ?w = "of_nat f :: u32" and ?v = "of_nat x :: u32"
  have "(?w AND NOT (mask m)) AND (?v AND mask m) = 0"
    by (rule bit_word_eqI) (auto simp: bit_simps)
  then have "(?w AND NOT (mask m)) OR (?v AND mask m) = (?w AND NOT (mask m)) + (?v AND mask m)"
    by (metis disjunctive_add_eq_or)
  also have "\<dots> = of_nat (f - f mod 2 ^ m) + of_nat (x mod 2 ^ m)"
    using of_nat_and_not_mask [of m f] of_nat_and_mask [of m x] assms by simp
  finally show ?thesis by (simp only: of_nat_add)
qed

text \<open>The two cases of a flush position: in the block of the front, or in the next one.\<close>

lemma spliced_position:
  fixes f x M :: nat
  assumes "f \<le> x" "x < f + M"
  shows "f - f mod M + x mod M = x \<or> f - f mod M + x mod M + M = x"
proof -
  have M: "0 < M" using assms by linarith
  have f: "f - f mod M = f div M * M" by (simp add: minus_mod_eq_div_mult)
  have "f div M \<le> x div M" using assms(1) by (rule div_le_mono)
  moreover have "x div M \<le> (f + M) div M" using assms(2) by (intro div_le_mono) simp
  moreover have "(f + M) div M = f div M + 1" using M by (simp add: div_add_self2)
  ultimately consider "x div M = f div M" | "x div M = f div M + 1" by linarith
  then show ?thesis
  proof cases
    case 1
    have "x div M * M + x mod M = x" by simp
    then show ?thesis unfolding f 1 [symmetric] by blast
  next
    case 2
    have "x div M * M + x mod M = x" by simp
    then have "f div M * M + M + x mod M = x" unfolding 2 by (simp add: algebra_simps)
    then show ?thesis unfolding f by simp
  qed
qed

lemma new_front_exact:
  assumes P: "mFrameCountP2 p = 2 ^ k" "k \<le> 29" "mFrameCount p \<le> 2 ^ k"
    and pos: "f \<le> x" "x \<le> r" "r \<le> f + mFrameCount p"
    and flush: "flush AND flush_mask p = of_nat x AND flush_mask p"
  shows "new_front p flush (of_nat f) (of_nat r) = of_nat x"
proof -
  let ?M = "2 ^ Suc k :: nat"
  have M31: "?M \<le> 2 ^ 30" using P(2) by (intro power_increasing) simp_all
  have N: "mFrameCount p < ?M" by (rule le_less_trans [OF P(3)]) simp
  have "(of_nat (?M - 1) :: u32) = mask (Suc k)" by (simp only: mask_eq_exp_minus_1 of_nat_diff) simp
  then have mask: "flush_mask p = mask (Suc k)" by (simp add: flush_mask_def P(1) mult.commute)
  define y where "y = f - f mod ?M + x mod ?M"
  have nf: "(of_nat f AND NOT (flush_mask p)) OR (flush AND flush_mask p) = of_nat y"
    unfolding flush unfolding mask y_def by (rule splice_low_bits) (use P(2) in simp)
  have y: "y = x \<or> y + ?M = x" unfolding y_def by (rule spliced_position) (use pos N in linarith)+
  have x: "filled_of (of_nat r) (of_nat x) = int (r - x)" "in_range p (int (r - x))"
    using filled_of_nat [of "r - x" x] pos N M31 by (simp_all add: in_range_def)
  show ?thesis
  proof (cases "y = x")
    case True
    have "r - x < mFrameCountP2 p * 2" using pos N P(1) by (simp add: mult.commute)
    then have "\<not> int (mFrameCountP2 p * 2) \<le> int (r - x)" by (simp only: of_nat_le_iff not_le)
    then show ?thesis using x by (simp add: new_front_def nf True)
  next
    case False
    then have yM: "x = y + ?M" using y by simp
    have "r - y < 2 ^ 31" using pos N M31 yM by simp
    then have "filled_of (of_nat r) (of_nat y) = int (r - y)"
      using filled_of_nat [of "r - y" y] pos yM by simp
    moreover have "int (r - y) = int (r - x) + int ?M" using pos yM by simp
    moreover have "(of_nat y :: u32) + of_nat (mFrameCountP2 p * 2) = of_nat x"
      by (simp add: yM P(1) mult.commute)
    moreover have "int (mFrameCountP2 p * 2) = int ?M" by (simp add: P(1))
    ultimately show ?thesis using x by (simp add: new_front_def nf)
  qed
qed

section \<open>The invariant\<close>

definition size_ok :: "nat \<Rightarrow> nat \<Rightarrow> nat \<Rightarrow> bool" where
  "size_ok P N FS \<longleftrightarrow> (\<exists>k \<le> 29. P = 2 ^ k) \<and> 0 < N \<and> N \<le> P \<and> 0 < FS"

definition pipe_ok :: "nat \<Rightarrow> nat \<Rightarrow> nat \<Rightarrow> 'a proxy_scheme \<Rightarrow> bool" where
  "pipe_ok P N FS p \<longleftrightarrow> mFrameCountP2 p = P \<and> mFrameCount p = N \<and> mFrameSize p = FS \<and>
     mIsOut p \<and> \<not> mIsShutdown p"

text \<open>A chunk of which \<open>d\<close> frames are gone and \<open>u\<close> are left, from position \<open>pos\<close> on.\<close>

definition chunk_ok :: "nat \<Rightarrow> nat \<Rightarrow> buffer \<Rightarrow> nat \<Rightarrow> nat \<Rightarrow> nat \<Rightarrow> bool" where
  "chunk_ok P FS buf d u pos \<longleftrightarrow> d \<le> bFrameCount buf \<and> u = bFrameCount buf - d \<and>
     (0 < u \<longrightarrow> (\<exists>i. bRaw buf = Some (i * FS) \<and> i + d = pos mod P \<and> i + bFrameCount buf \<le> P))"

definition fifo_ok :: "nat \<Rightarrow> nat \<Rightarrow> cblk \<Rightarrow> 'f list \<Rightarrow> 'f list \<Rightarrow> nat \<Rightarrow> bool" where
  "fifo_ok P N b m ws f \<longleftrightarrow> length m = P \<and> mFront b = of_nat f \<and> mRear b = of_nat (length ws) \<and>
     f \<le> length ws \<and> length ws \<le> f + N \<and> (\<forall>i. f \<le> i \<and> i < length ws \<longrightarrow> m ! (i mod P) = ws ! i)"

definition flush_ok :: "cblk \<Rightarrow> server \<Rightarrow> nat \<Rightarrow> nat \<Rightarrow> nat \<Rightarrow> bool" where
  "flush_ok b s f x r \<longleftrightarrow> (mFlush b \<noteq> mFlushSeen s \<longrightarrow> f + mUnreleased s \<le> x \<and> x \<le> r \<and>
     mFlush b AND flush_mask s = of_nat x AND flush_mask s)"

definition track_inv :: "nat \<Rightarrow> nat \<Rightarrow> nat \<Rightarrow> 'f track \<Rightarrow> bool" where
  "track_inv P N FS t \<longleftrightarrow> pipe_ok P N FS (cli t) \<and> pipe_ok P N FS (srv t) \<and>
     fifo_ok P N (blk t) (mem t) (written t) (fpos t) \<and>
     chunk_ok P FS (cbuf t) (cdone t) (mUnreleased (cli t)) (length (written t)) \<and>
     length (written t) + mUnreleased (cli t) \<le> fpos t + N \<and>
     chunk_ok P FS (sbuf t) (sdone t) (mUnreleased (srv t)) (fpos t) \<and>
     fpos t + mUnreleased (srv t) \<le> length (written t) \<and>
     flush_ok (blk t) (srv t) (fpos t) (fx t) (length (written t)) \<and>
     (\<forall>v. loaded t = Some v \<longrightarrow> v = mFlush (blk t))"

named_theorems track_defs

lemmas [track_defs] = track_inv_def pipe_ok_def fifo_ok_def flush_ok_def

lemma size_okD:
  assumes "size_ok P N FS"
  shows "0 < P" "P \<le> 2 ^ 29" "N \<le> 2 ^ 29" "0 < N" "N \<le> P" "0 < FS"
proof -
  obtain k where k: "k \<le> 29" "P = 2 ^ k" "0 < N" "N \<le> P" "0 < FS"
    using assms by (auto simp: size_ok_def)
  then show "0 < P" "0 < N" "N \<le> P" "0 < FS" by simp_all
  show P: "P \<le> 2 ^ 29" unfolding k(2) by (rule power_increasing) (use k(1) in simp_all)
  show "N \<le> 2 ^ 29" using P k(4) by (rule order_trans [rotated])
qed

lemma fifo_okD:
  assumes "fifo_ok P N b m ws f"
  shows "length m = P" "mFront b = of_nat f" "mRear b = of_nat (length ws)" "f \<le> length ws"
    "length ws \<le> f + N" "\<And>i. f \<le> i \<Longrightarrow> i < length ws \<Longrightarrow> m ! (i mod P) = ws ! i"
  using assms by (simp_all add: fifo_ok_def)

lemma filled_fifo:
  assumes "size_ok P N FS" "fifo_ok P N b m ws f"
  shows "filled_of (mRear b) (mFront b) = int (length ws - f)"
proof -
  have "length ws - f < 2 ^ 31"
    using fifo_okD(4,5) [OF assms(2)] size_okD(3) [OF assms(1)] by simp
  then show ?thesis
    using filled_of_nat [of "length ws - f" f] fifo_okD(2-4) [OF assms(2)] by simp
qed

lemma in_range_fifo:
  assumes "fifo_ok P N b m ws f" "pipe_ok P N FS p"
  shows "in_range p (int (length ws - f))"
  using fifo_okD(4,5) [OF assms(1)] assms(2) by (simp add: in_range_def pipe_ok_def nat_diff_distrib)

lemma first_chunk_ok:
  fixes n avail want :: nat
  assumes "size_ok P N FS" "pipe_ok P N FS p" "0 < want"
  defines "buf \<equiv> first_chunk p (of_nat n) avail want"
  shows "bFrameCount buf \<le> avail" "chunk_ok P FS buf 0 (bFrameCount buf) n"
    "0 < bFrameCount buf \<longleftrightarrow> 0 < avail"
proof -
  obtain k where k: "k \<le> 29" "P = 2 ^ k" using assms(1) by (auto simp: size_ok_def)
  have i: "chunk_index p (of_nat n) = n mod P"
    using unat_of_nat_and_mask [of k n] k assms(2) by (simp add: chunk_index_def pipe_ok_def)
  have "n mod P < P" using size_okD(1) [OF assms(1)] by simp
  then show "bFrameCount buf \<le> avail" "chunk_ok P FS buf 0 (bFrameCount buf) n"
    "0 < bFrameCount buf \<longleftrightarrow> 0 < avail"
    using assms(2,3) by (auto simp: buf_def first_chunk_def i Let_def chunk_ok_def pipe_ok_def)
qed

lemma mod_add_small: "(a :: nat) mod P + n < P \<Longrightarrow> (a + n) mod P = a mod P + n"
  by (metis mod_add_left_eq mod_less)

lemma mod_far:
  fixes j l P :: nat
  assumes "j < l" "l < j + P"
  shows "j mod P \<noteq> l mod P"
proof
  assume "j mod P = l mod P"
  then have "P dvd l - j" using assms(1) by (metis less_imp_le mod_eq_dvd_iff_nat)
  then show False using assms by (simp add: nat_dvd_not_less)
qed

lemma chunk_ok_advance:
  assumes "chunk_ok P FS buf d u pos" "n \<le> u"
  shows "chunk_ok P FS buf (d + n) (u - n) (pos + n)"
proof -
  have "bRaw buf = Some (i * FS) \<and> i + (d + n) = (pos + n) mod P \<and> i + bFrameCount buf \<le> P"
    if "n < u" "bRaw buf = Some (i * FS)" "i + d = pos mod P" "i + bFrameCount buf \<le> P" for i
  proof -
    have "pos mod P + n < P" using that assms(1) by (simp add: chunk_ok_def flip: that(3))
    then show ?thesis using that mod_add_small [of pos P n] by simp
  qed
  then show ?thesis using assms by (auto simp: chunk_ok_def)
qed

lemma unat_small: "n \<le> 2 ^ 29 \<Longrightarrow> unat (of_nat n :: u32) = n"
  by (simp add: unat_of_nat)

section \<open>Every step keeps it\<close>

definition keeps :: "nat \<Rightarrow> nat \<Rightarrow> nat \<Rightarrow> 'f action \<Rightarrow> 'f track \<Rightarrow> bool" where
  "keeps P N FS a t \<longleftrightarrow> (\<exists>t'. track_exec a t = Some t' \<and> track_inv P N FS t')"

text \<open>Steps that touch neither the counters nor the proxies.\<close>

lemma track_inv_cong:
  assumes "track_inv P N FS t" "mFront (blk t') = mFront (blk t)" "mRear (blk t') = mRear (blk t)"
    "mFlush (blk t') = mFlush (blk t)" "mem t' = mem t" "cli t' = cli t" "srv t' = srv t"
    "cbuf t' = cbuf t" "cdone t' = cdone t" "loaded t' = loaded t \<or> loaded t' = Some (mFlush (blk t))"
    "sbuf t' = sbuf t" "sdone t' = sdone t" "written t' = written t" "fpos t' = fpos t" "fx t' = fx t"
  shows "track_inv P N FS t'"
  using assms(1,10) by (auto simp: track_inv_def fifo_ok_def flush_ok_def assms(2-9,11-15))

lemma keeps_neutral:
  assumes "track_inv P N FS t"
  shows "keeps P N FS Take_flag t" "keeps P N FS Wait t" "keeps P N FS Awake t"
    "keeps P N FS Interrupt t" "keeps P N FS (Minimum n) t" "keeps P N FS Load_flush t"
    "keeps P N FS (Tally u) t"
  by (auto simp: keeps_def futex_down_def interrupt_def signal_flag_def setMinimum_def
      tallyUnderrunFrames_def Let_def intro!: track_inv_cong [OF assms])

lemma keeps_give_up:
  assumes "track_inv P N FS t"
  shows "keeps P N FS Give_up t"
  using assms by (auto simp: keeps_def client_fail_def track_inv_def pipe_ok_def chunk_ok_def no_buffer_def)

lemma keeps_look:
  assumes size: "size_ok P N FS" and inv: "track_inv P N FS t" and "0 < want"
  shows "keeps P N FS (Look ignore want) t"
proof -
  let ?b = "blk t" and ?c = "cli t" and ?R = "length (written t)" and ?F = "fpos t"
  have pc: "pipe_ok P N FS ?c" and fifo: "fifo_ok P N ?b (mem t) (written t) ?F"
    using inv by (simp_all add: track_inv_def)
  have out: "mIsOut ?c" "\<not> mIsShutdown ?c" "mFrameCount ?c = N" using pc by (simp_all add: pipe_ok_def)
  define b where "b = ?b\<lparr>mFlags := mFlags ?b AND NOT CBLK_INTERRUPT\<rparr>"
  define buf where "buf = first_chunk ?c (mRear ?b) (N - (?R - ?F)) want"
  note filled = filled_fifo [OF size fifo] in_range_fifo [OF fifo pc]
  have buf: "bFrameCount buf \<le> N - (?R - ?F)" "chunk_ok P FS buf 0 (bFrameCount buf) ?R"
    using first_chunk_ok [OF size pc assms(3), of ?R "N - (?R - ?F)"] fifo_okD(3) [OF fifo]
    by (simp_all add: buf_def)
  have fail: "keeps P N FS (Look ignore want) t"
    if "client_look ignore want ?b ?c = (b, ?c, Failed e)" for e
    using inv that assms(3) out
    by (auto simp: keeps_def client_enter_def client_fail_def b_def track_inv_def pipe_ok_def
        chunk_ok_def no_buffer_def fifo_ok_def flush_ok_def)
  show ?thesis
  proof (cases "mFlags ?b AND CBLK_INVALID \<noteq> 0 \<or> \<not> ignore \<and> mFlags ?b AND CBLK_INTERRUPT \<noteq> 0")
    case True
    then have "client_look ignore want ?b ?c = (b, ?c, Failed DEAD_OBJECT) \<or>
        client_look ignore want ?b ?c = (b, ?c, Failed (- EINTR))"
      by (auto simp: client_look_def Let_def b_def)
    then show ?thesis using fail by blast
  next
    case ok: False
    show ?thesis
    proof (cases "0 < N - (?R - ?F)")
      case True
      then have "client_look ignore want ?b ?c = (b, ?c\<lparr>mUnreleased := bFrameCount buf\<rparr>, Got buf)"
        using ok filled out by (simp add: client_look_def Let_def b_def buf_def)
      then show ?thesis
        using inv assms(3) out buf fifo_okD(4) [OF fifo]
        by (auto simp: keeps_def client_enter_def b_def track_inv_def pipe_ok_def fifo_ok_def flush_ok_def)
    next
      case False
      then have "client_look ignore want ?b ?c = (b, ?c, Blocked)"
        using ok filled out by (simp add: client_look_def Let_def b_def)
      then have "track_exec (Look ignore want) t = Some (t\<lparr>blk := b, cpc := No_room\<rparr>)"
        using assms(3) out by (simp add: client_enter_def)
      moreover have "track_inv P N FS (t\<lparr>blk := b, cpc := No_room\<rparr>)"
        by (rule track_inv_cong [OF inv]) (simp_all add: b_def)
      ultimately show ?thesis unfolding keeps_def by blast
    qed
  qed
qed

lemma keeps_store:
  assumes size: "size_ok P N FS" and inv: "track_inv P N FS t"
    and "cdone t \<le> k" "k < bFrameCount (cbuf t)"
  shows "keeps P N FS (Store k f) t"
proof -
  let ?R = "length (written t)" and ?F = "fpos t" and ?d = "k - cdone t"
  have fifo: "fifo_ok P N (blk t) (mem t) (written t) ?F"
    and chunk: "chunk_ok P FS (cbuf t) (cdone t) (mUnreleased (cli t)) ?R"
    and room: "?R + mUnreleased (cli t) \<le> ?F + N" and fs: "mFrameSize (cli t) = FS"
    using inv by (simp_all add: track_inv_def pipe_ok_def)
  have u: "?d < mUnreleased (cli t)" using chunk assms(3,4) by (simp add: chunk_ok_def)
  then obtain i where i: "bRaw (cbuf t) = Some (i * FS)" "i + cdone t = ?R mod P" "i + bFrameCount (cbuf t) \<le> P"
    using chunk by (auto simp: chunk_ok_def)
  have ik: "i + k < P" using i(3) assms(4) by simp
  have "?R mod P + ?d < P" unfolding i(2) [symmetric] using ik assms(3) by simp
  then have pos: "i + k = (?R + ?d) mod P" using mod_add_small [of ?R P ?d] i(2) assms(3) by simp
  have "i + k \<noteq> j mod P" if "?F \<le> j" "j < ?R" for j
    unfolding pos by (rule mod_far [symmetric]) (use that u room size_okD(5) [OF size] in simp_all)
  then have "fifo_ok P N (blk t) ((mem t)[i + k := f]) (written t) ?F"
    using fifo by (auto simp: fifo_ok_def)
  moreover have "frame_index (cli t) (cbuf t) k = Some (i + k)"
    using i(1) fs size_okD(6) [OF size] by (simp add: frame_index_def)
  ultimately show ?thesis
    using inv ik fifo_okD(1) [OF fifo] by (simp add: keeps_def track_inv_def)
qed

lemma keeps_release:
  assumes size: "size_ok P N FS" and inv: "track_inv P N FS t" and n: "0 < n" "n \<le> mUnreleased (cli t)"
  shows "keeps P N FS (Release n) t"
proof -
  let ?R = "length (written t)" and ?F = "fpos t" and ?c = "cli t"
  have fifo: "fifo_ok P N (blk t) (mem t) (written t) ?F"
    and chunk: "chunk_ok P FS (cbuf t) (cdone t) (mUnreleased ?c) ?R"
    and room: "?R + mUnreleased ?c \<le> ?F + N" and pipe: "mFrameCount ?c = N" "mIsOut ?c" "\<not> mIsShutdown ?c"
    using inv by (simp_all add: track_inv_def pipe_ok_def)
  have N: "mUnreleased ?c \<le> N" using room fifo_okD(4) [OF fifo] by simp
  then have moved: "unat (of_nat n :: u32) = n" using n size_okD(3) [OF size] by (intro unat_small) simp
  define b where "b = (blk t)\<lparr>mRear := of_nat n + mRear (blk t)\<rparr>"
  define ws where "ws = written t @ released_frames t n"
  have exec: "track_exec (Release n) t = Some (t\<lparr>blk := b, cli := ?c\<lparr>mUnreleased := mUnreleased ?c - n\<rparr>,
      cdone := cdone t + n, written := ws\<rparr>)"
    using n N pipe moved by (simp add: client_release_def b_def ws_def)
  have ws: "length ws = ?R + n" by (simp add: ws_def released_frames_def)
  have "mem t ! (i mod P) = ws ! i" if "?F \<le> i" "i < length ws" for i
    using that ws fifo_okD(1,6) [OF fifo]
    by (cases "i < ?R") (simp_all add: ws_def released_frames_def nth_append)
  then have "fifo_ok P N b (mem t) ws ?F"
    using fifo_okD(1-5) [OF fifo] ws n room by (simp add: fifo_ok_def b_def add.commute)
  moreover have "chunk_ok P FS (cbuf t) (cdone t + n) (mUnreleased ?c - n) (length ws)"
    using chunk_ok_advance [OF chunk n(2)] by (simp add: ws)
  ultimately show ?thesis
    unfolding keeps_def exec using inv n room ws
    by (auto simp: track_inv_def pipe_ok_def flush_ok_def b_def)
qed

lemma and_mask_of_next_flush:
  assumes "m \<le> 31"
  shows "((r AND mask m) OR ((w AND NOT (mask m)) + 2 ^ m)) AND mask m = (r :: u32) AND mask m"
proof -
  let ?f = "unat w"
  have "w AND NOT (mask m) = of_nat (?f - ?f mod 2 ^ m)"
    using of_nat_and_not_mask [of m ?f] assms by simp
  then have "(w AND NOT (mask m)) + 2 ^ m = of_nat (?f - ?f mod 2 ^ m + 2 ^ m)"
    by (simp only: of_nat_add of_nat_power of_nat_numeral)
  moreover have "(?f - ?f mod 2 ^ m + 2 ^ m) mod 2 ^ m = 0"
    by (simp add: minus_mod_eq_div_mult)
  ultimately have "((w AND NOT (mask m)) + 2 ^ m) AND mask m = 0"
    using of_nat_and_mask [of m "?f - ?f mod 2 ^ m + 2 ^ m"] assms by simp
  then have zero: "\<not> (bit ((w AND NOT (mask m)) + 2 ^ m) i \<and> bit (mask m :: u32) i)" for i
    by (metis bit_0_eq bit_and_iff bot_apply bot_bool_def)
  show ?thesis by (rule bit_word_eqI) (use zero in \<open>auto simp: bit_simps\<close>)
qed

lemma keeps_flush:
  assumes size: "size_ok P N FS" and inv: "track_inv P N FS t" and "loaded t = None"
  shows "keeps P N FS Flush t"
proof -
  obtain k where k: "k \<le> 29" "P = 2 ^ k" using size by (auto simp: size_ok_def)
  have m: "flush_mask (cli t) = mask (Suc k)" "flush_mask (srv t) = mask (Suc k)"
    and step: "of_nat (mFrameCountP2 (cli t) * 2) = (2 ^ Suc k :: u32)"
  proof -
    have "(of_nat (2 ^ Suc k - 1) :: u32) = mask (Suc k)"
      by (simp only: mask_eq_exp_minus_1 of_nat_diff) simp
    then show "flush_mask (cli t) = mask (Suc k)" "flush_mask (srv t) = mask (Suc k)"
      using inv k by (simp_all add: flush_mask_def track_inv_def pipe_ok_def mult.commute)
    show "of_nat (mFrameCountP2 (cli t) * 2) = (2 ^ Suc k :: u32)"
      using inv k by (simp add: track_inv_def pipe_ok_def mult.commute)
  qed
  have "mFlush (client_flush (cli t) (blk t)) =
      (mRear (blk t) AND mask (Suc k)) OR ((mFlush (blk t) AND NOT (mask (Suc k))) + 2 ^ Suc k)"
    unfolding client_flush_def m step by simp
  moreover have "mRear (blk t) = of_nat (length (written t))"
    using inv by (simp add: track_inv_def fifo_ok_def)
  ultimately have "mFlush (client_flush (cli t) (blk t)) AND flush_mask (srv t) =
      of_nat (length (written t)) AND flush_mask (srv t)"
    using and_mask_of_next_flush [of "Suc k" "mRear (blk t)" "mFlush (blk t)"] k(1) m by simp
  then show ?thesis
    using inv assms(3) by (auto simp: keeps_def track_inv_def fifo_ok_def flush_ok_def client_flush_def)
qed

lemma new_front_fifo:
  assumes size: "size_ok P N FS" and pipe: "pipe_ok P N FS s" and fifo: "fifo_ok P N b m ws f"
    and x: "f \<le> x" "x \<le> length ws" "flush AND flush_mask s = of_nat x AND flush_mask s"
  shows "new_front s flush (mFront b) (mRear b) = of_nat x"
    "passed b (b\<lparr>mFront := of_nat x\<rparr>) = x - f" "fifo_ok P N (b\<lparr>mFront := of_nat x\<rparr>) m ws x"
proof -
  obtain k where k: "k \<le> 29" "P = 2 ^ k" "N \<le> 2 ^ k" using size by (auto simp: size_ok_def)
  show "new_front s flush (mFront b) (mRear b) = of_nat x"
    unfolding fifo_okD(2,3) [OF fifo]
    by (rule new_front_exact [of s k]) (use k x pipe fifo_okD(5) [OF fifo] in \<open>simp_all add: pipe_ok_def\<close>)
  have "x - f < 2 ^ 31" using x(2) fifo_okD(5) [OF fifo] size_okD(3) [OF size] by simp
  moreover have "(of_nat x :: u32) = of_nat (x - f) + mFront b"
    unfolding fifo_okD(2) [OF fifo] using x(1) by (simp add: of_nat_diff)
  ultimately show "passed b (b\<lparr>mFront := of_nat x\<rparr>) = x - f"
    by (intro passed_forward) simp_all
  show "fifo_ok P N (b\<lparr>mFront := of_nat x\<rparr>) m ws x"
    using x fifo by (auto simp: fifo_ok_def)
qed

text \<open>What \<open>server_flush\<close> leaves: the queue from the position of the flush on, if one is pending.\<close>

lemma server_flush_ok:
  assumes size: "size_ok P N FS" and inv: "track_inv P N FS t"
  defines "x \<equiv> (if mFlush (blk t) \<noteq> mFlushSeen (srv t) then fx t else fpos t)"
  obtains b wake where
    "server_flush (mFlush (blk t)) (blk t) (srv t) = (b, (srv t)\<lparr>mFlushSeen := mFlush (blk t)\<rparr>, wake)"
    "fifo_ok P N b (mem t) (written t) x" "mFlush b = mFlush (blk t)"
    "passed (blk t) b = x - fpos t" "fpos t \<le> x"
proof (cases "mFlush (blk t) = mFlushSeen (srv t)")
  case True
  have "server_flush (mFlush (blk t)) (blk t) (srv t) =
      (blk t, (srv t)\<lparr>mFlushSeen := mFlush (blk t)\<rparr>, False)"
    using True by (simp add: server_flush_def)
  then show thesis
    by (rule that) (use True inv in \<open>simp_all add: x_def track_inv_def\<close>)
next
  case False
  have pipe: "pipe_ok P N FS (srv t)" and fifo: "fifo_ok P N (blk t) (mem t) (written t) (fpos t)"
    and x: "fpos t + mUnreleased (srv t) \<le> fx t" "fx t \<le> length (written t)"
      "mFlush (blk t) AND flush_mask (srv t) = of_nat (fx t) AND flush_mask (srv t)"
    using inv False by (simp_all add: track_inv_def flush_ok_def)
  have "fpos t \<le> fx t" using x(1) by simp
  note nf = new_front_fifo [OF size pipe fifo this x(2,3)]
  let ?b = "(blk t)\<lparr>mFront := of_nat (fx t)\<rparr>"
  obtain b wake where up: "futex_up ?b = (b, wake)" by fastforce
  have b: "b = ?b\<lparr>mFutex := mFutex b\<rparr>" using up by (auto simp: futex_up_def)
  have "server_flush (mFlush (blk t)) (blk t) (srv t) = (b, (srv t)\<lparr>mFlushSeen := mFlush (blk t)\<rparr>, wake)"
    using False pipe nf(1) up by (simp add: server_flush_def pipe_ok_def)
  moreover have "fifo_ok P N b (mem t) (written t) (fx t)"
    using nf(3) by (subst b) (simp add: fifo_ok_def)
  moreover have "mFlush b = mFlush (blk t)" "mFront b = of_nat (fx t)" by (subst b, simp)+
  ultimately show thesis
    using that nf(2) \<open>fpos t \<le> fx t\<close> False by (simp add: x_def passed_def)
qed

text \<open>What \<open>obtainBuffer\<close> of the server does in such a state.\<close>

lemma server_obtain_ok:
  assumes size: "size_ok P N FS" and inv: "track_inv P N FS t" and want: "0 < want"
  defines "x \<equiv> (if mFlush (blk t) \<noteq> mFlushSeen (srv t) then fx t else fpos t)"
  obtains b s buf status wake where
    "server_obtain (mFlush (blk t)) want ack (blk t) (srv t) = Some (b, s, buf, status, wake)"
    "fifo_ok P N b (mem t) (written t) x" "mFlush b = mFlush (blk t)"
    "passed (blk t) b = x - fpos t" "fpos t \<le> x"
    "pipe_ok P N FS s" "mFlushSeen s = mFlush (blk t)"
    "mUnreleased s = (if ack then mUnreleased (srv t) else bFrameCount buf)"
    "chunk_ok P FS buf 0 (bFrameCount buf) x" "x + bFrameCount buf \<le> length (written t)"
    "mAvailToClient s = N - (length (written t) - x)"
    "0 < bFrameCount buf \<longleftrightarrow> x < length (written t)"
proof -
  let ?R = "length (written t)"
  obtain b wake where fl:
    "server_flush (mFlush (blk t)) (blk t) (srv t) = (b, (srv t)\<lparr>mFlushSeen := mFlush (blk t)\<rparr>, wake)"
    and fifo: "fifo_ok P N b (mem t) (written t) x" and rest: "mFlush b = mFlush (blk t)"
      "passed (blk t) b = x - fpos t" "fpos t \<le> x"
    using server_flush_ok [OF size inv] unfolding x_def by blast
  define s where "s = (srv t)\<lparr>mFlushSeen := mFlush (blk t), mAvailToClient := N - (?R - x)\<rparr>"
  define buf where "buf = first_chunk s (mFront b) (?R - x) want"
  have pipe: "pipe_ok P N FS (srv t)" using inv by (simp add: track_inv_def)
  then have pipes: "pipe_ok P N FS s" by (simp add: s_def pipe_ok_def)
  have buf: "bFrameCount buf \<le> ?R - x" "chunk_ok P FS buf 0 (bFrameCount buf) x"
    "0 < bFrameCount buf \<longleftrightarrow> 0 < ?R - x"
    using first_chunk_ok [OF size pipes want, of x "?R - x"] fifo_okD(2) [OF fifo] by (simp_all add: buf_def)
  have fills: "filled_of (mRear b) (mFront b) = int (?R - x)"
    "in_range ((srv t)\<lparr>mFlushSeen := mFlush (blk t)\<rparr>) (int (?R - x))"
    using filled_fifo [OF size fifo] in_range_fifo [OF fifo pipe] by (simp_all add: in_range_def)
  have "server_obtain (mFlush (blk t)) want ack (blk t) (srv t) =
      Some (b, if ack then s else s\<lparr>mUnreleased := bFrameCount buf\<rparr>, buf,
            if bFrameCount buf > 0 then OK else WOULD_BLOCK, wake)"
    using pipe want by (simp add: server_obtain_def fl fills Let_def pipe_ok_def s_def buf_def)
  then show thesis
  proof (rule that)
    show "x + bFrameCount buf \<le> ?R" using buf(1) fifo_okD(4) [OF fifo] by simp
  qed (use fifo rest pipes buf in \<open>simp_all add: s_def pipe_ok_def\<close>)
qed

lemma keeps_obtain:
  assumes size: "size_ok P N FS" and inv: "track_inv P N FS t" and "loaded t \<noteq> None" "0 < want"
    and ack: "ack \<longrightarrow> mUnreleased (srv t) = 0"
  shows "keeps P N FS (Obtain want ack) t"
proof -
  have l: "loaded t = Some (mFlush (blk t))" using assms(3) inv by (auto simp: track_inv_def)
  define x where "x = (if mFlush (blk t) \<noteq> mFlushSeen (srv t) then fx t else fpos t)"
  obtain b s buf status wake where o:
    "server_obtain (mFlush (blk t)) want ack (blk t) (srv t) = Some (b, s, buf, status, wake)"
    "fifo_ok P N b (mem t) (written t) x" "mFlush b = mFlush (blk t)"
    "passed (blk t) b = x - fpos t" "fpos t \<le> x"
    "pipe_ok P N FS s" "mFlushSeen s = mFlush (blk t)"
    "mUnreleased s = (if ack then mUnreleased (srv t) else bFrameCount buf)"
    "chunk_ok P FS buf 0 (bFrameCount buf) x" "x + bFrameCount buf \<le> length (written t)"
    by (rule server_obtain_ok [OF size inv assms(4), of ack, folded x_def])
  define t' where "t' = t\<lparr>blk := b, srv := s, loaded := None, cpc := woken_pc wake (cpc t),
      sbuf := (if ack then sbuf t else buf), sdone := (if ack then sdone t else 0), fresh := True, fpos := x\<rparr>"
  have "track_exec (Obtain want ack) t = Some t'"
    using o(1,4,5) by (simp add: l t'_def)
  moreover have "track_inv P N FS t'"
    unfolding track_inv_def
  proof (intro conjI)
    show "chunk_ok P FS (sbuf t') (sdone t') (mUnreleased (srv t')) (fpos t')"
      using inv ack o(8,9) by (auto simp: t'_def track_inv_def chunk_ok_def)
    show "fpos t' + mUnreleased (srv t') \<le> length (written t')"
      using ack o(8,10) by (auto simp: t'_def)
    show "length (written t') + mUnreleased (cli t') \<le> fpos t' + N"
      using inv o(5) by (simp add: t'_def track_inv_def)
    show "flush_ok (blk t') (srv t') (fpos t') (fx t') (length (written t'))"
      using o(3,7) by (simp add: t'_def flush_ok_def)
  qed (use inv o(2,6) in \<open>simp_all add: t'_def track_inv_def\<close>)
  ultimately show ?thesis unfolding keeps_def by blast
qed

lemma keeps_release_store:
  assumes size: "size_ok P N FS" and inv: "track_inv P N FS t" and l: "loaded t = None"
    and n: "0 < n" "n \<le> mUnreleased (srv t)"
  shows "keeps P N FS (Release_store n) t"
proof -
  let ?R = "length (written t)" and ?F = "fpos t" and ?s = "srv t"
  have fifo: "fifo_ok P N (blk t) (mem t) (written t) ?F"
    and chunk: "chunk_ok P FS (sbuf t) (sdone t) (mUnreleased ?s) ?F"
    and left: "?F + mUnreleased ?s \<le> ?R" and pipe: "mFrameCount ?s = N" "mIsOut ?s"
    using inv by (simp_all add: track_inv_def pipe_ok_def)
  have N: "mUnreleased ?s \<le> N" using left fifo_okD(5) [OF fifo] by simp
  then have moved: "n < 2 ^ 31" using n size_okD(3) [OF size] by simp
  define b where "b = (blk t)\<lparr>mFront := of_nat n + mFront (blk t), mServer := mServer (blk t) + of_nat n\<rparr>"
  have exec: "track_exec (Release_store n) t = Some (t\<lparr>blk := b, srv := ?s\<lparr>mUnreleased := mUnreleased ?s - n\<rparr>,
      sdone := sdone t + n, stored := Some n, fresh := False, fpos := ?F + n\<rparr>)"
    using n N pipe passed_forward [of b n "blk t"] moved by (simp add: server_store_def b_def)
  have "fifo_ok P N b (mem t) (written t) (?F + n)"
    using fifo left n by (auto simp: fifo_ok_def b_def add.commute)
  moreover have "chunk_ok P FS (sbuf t) (sdone t + n) (mUnreleased ?s - n) (?F + n)"
    by (rule chunk_ok_advance [OF chunk n(2)])
  ultimately show ?thesis
    unfolding keeps_def exec using inv n left l
    by (auto simp: track_inv_def pipe_ok_def flush_ok_def flush_mask_def b_def)
qed

lemma keeps_release_wake:
  assumes inv: "track_inv P N FS t" and "stored t \<noteq> None"
  shows "keeps P N FS Release_wake t"
proof -
  obtain n where n: "stored t = Some n" using assms(2) by auto
  obtain b wake where w: "server_wake n (blk t) (srv t) = (b, wake)" by fastforce
  have "mFront b = mFront (blk t)" "mRear b = mRear (blk t)" "mFlush b = mFlush (blk t)"
    using w by (auto simp: server_wake_def futex_up_def split: if_splits)
  then show ?thesis
    unfolding keeps_def by (auto simp: n w intro!: track_inv_cong [OF inv])
qed

lemma keeps_frames_ready:
  assumes size: "size_ok P N FS" and inv: "track_inv P N FS t"
  shows "keeps P N FS Frames_ready t"
proof -
  have pipe: "pipe_ok P N FS (srv t)" and fifo: "fifo_ok P N (blk t) (mem t) (written t) (fpos t)"
    using inv by (simp_all add: track_inv_def)
  have "\<exists>n. framesReady (blk t) (srv t) = Some (srv t, n)"
    using pipe filled_fifo [OF size fifo] in_range_fifo [OF fifo pipe]
    by (simp add: framesReady_def pipe_ok_def)
  then show ?thesis using inv by (auto simp: keeps_def)
qed

lemma track_step_keeps:
  assumes "size_ok P N FS" "track_inv P N FS t" "may False chunked a t"
  shows "keeps P N FS a t"
proof (cases a)
  case (Look ignore want)
  then show ?thesis using assms keeps_look by auto
next
  case (Store k f)
  then show ?thesis using assms keeps_store by auto
next
  case (Release n)
  then show ?thesis using assms keeps_release by auto
next
  case Flush
  then show ?thesis using assms keeps_flush by auto
next
  case (Obtain want ack)
  then show ?thesis using assms keeps_obtain [of P N FS t want ack] by auto
next
  case (Release_store n)
  then show ?thesis using assms keeps_release_store by auto
next
  case Release_wake
  then show ?thesis using assms keeps_release_wake [of P N FS t] by simp
qed (use assms keeps_neutral keeps_give_up keeps_frames_ready in auto)

lemma track_start_inv:
  assumes "roundup_ok roundup N" "0 < FS" "length m = roundup N"
  shows "size_ok (roundup N) N FS" "track_inv (roundup N) N FS (track_start roundup N FS cis m)"
  using assms
  by (auto simp: size_ok_def roundup_ok_def track_inv_def track_start_def pipe_ok_def fifo_ok_def
      chunk_ok_def flush_ok_def ClientProxy_def ServerProxy_def audio_track_cblk_def no_buffer_def)

lemma track_reach_inv:
  assumes "track_reach False chunked (track_start roundup N FS cis m) t"
    and "roundup_ok roundup N" "0 < FS" "length m = roundup N"
  shows "track_inv (roundup N) N FS t"
  using assms(1)
proof (induction rule: track_reach.induct)
  case begun
  then show ?case by (rule track_start_inv [OF assms(2-4)])
next
  case (moved t a t')
  then show ?case
    using track_step_keeps [OF track_start_inv(1) [OF assms(2-4)] moved.IH moved.hyps(2)]
    by (auto simp: keeps_def)
qed

section \<open>What the two sides see\<close>

lemma server_chunk_content:
  assumes size: "size_ok P N FS" and inv: "track_inv P N FS t" and k: "k < mUnreleased (srv t)"
  shows "\<exists>i. frame_index (srv t) (sbuf t) (sdone t + k) = Some i \<and> i < length (mem t) \<and>
             mem t ! i = written t ! (fpos t + k)"
proof -
  have fifo: "fifo_ok P N (blk t) (mem t) (written t) (fpos t)" and fs: "mFrameSize (srv t) = FS"
    and chunk: "chunk_ok P FS (sbuf t) (sdone t) (mUnreleased (srv t)) (fpos t)"
    and left: "fpos t + mUnreleased (srv t) \<le> length (written t)"
    using inv by (simp_all add: track_inv_def pipe_ok_def)
  obtain i where i: "bRaw (sbuf t) = Some (i * FS)" "i + sdone t = fpos t mod P"
    "i + bFrameCount (sbuf t) \<le> P" using chunk k by (auto simp: chunk_ok_def)
  have "sdone t + k < bFrameCount (sbuf t)" using chunk k by (simp add: chunk_ok_def)
  then have small: "i + (sdone t + k) < P" using i(3) by simp
  then have "fpos t mod P + k < P" unfolding i(2) [symmetric] by simp
  then have "i + (sdone t + k) = (fpos t + k) mod P" using mod_add_small [of "fpos t" P k] i(2) by simp
  moreover have "mem t ! ((fpos t + k) mod P) = written t ! (fpos t + k)"
    using fifo_okD(6) [OF fifo, of "fpos t + k"] left k by simp
  moreover have "frame_index (srv t) (sbuf t) (sdone t + k) = Some (i + (sdone t + k))"
    using i(1) fs size_okD(6) [OF size] by (simp add: frame_index_def)
  ultimately show ?thesis using small fifo_okD(1) [OF fifo] by simp
qed



section \<open>Runs\<close>

fun track_run :: "bool \<Rightarrow> bool \<Rightarrow> 'f action list \<Rightarrow> 'f track \<Rightarrow> 'f track option" where
  "track_run racy chunked [] t = Some t"
| "track_run racy chunked (a # as) t =
     (if may racy chunked a t then do { t' \<leftarrow> track_exec a t; track_run racy chunked as t' } else None)"

lemma track_run_reach:
  "track_run racy chunked as t = Some t' \<Longrightarrow> track_reach racy chunked t0 t \<Longrightarrow> track_reach racy chunked t0 t'"
proof (induction as arbitrary: t)
  case (Cons a as)
  then show ?case
    by (auto split: if_splits bind_splits intro: track_reach.moved)
qed simp

text \<open>Two frames of room in two frames of memory.\<close>

definition small_track :: "nat track" where
  "small_track = track_start (\<lambda>_. 2) 2 1 False [0, 0]"

lemma small_track_ok: "roundup_ok (\<lambda>_. 2) 2" "length [0, 0 :: nat] = 2"
  by (auto simp: roundup_ok_def intro!: exI [of _ 1])

definition three_frames :: "nat action list" where
  "three_frames = [Look True 2, Store 0 11, Store 1 12, Release 2, Load_flush, Obtain 1 False,
     Release_store 1, Release_wake, Look True 2, Store 0 13, Release 1, Load_flush, Obtain 2 False]"


definition flush_run :: "nat action list" where
  "flush_run = [Look True 2, Store 0 11, Release 1, Flush, Look True 2, Store 0 12, Release 1, Load_flush]"


end
