(* ===== verification/AudioWait.thy ===== *)
theory AudioWait
  imports AudioFifo
begin

text \<open>
  Waiting for room in the pipe of a playback track, and what goes wrong. A client that sleeps is
  woken before the pipe runs empty as long as the server releases each chunk at once; releasing
  in pieces, which the header permits, can let it sleep over an empty pipe. A flush between the
  two loads of the server moves the front backwards. The timeouts of \<open>obtainBuffer\<close> and
  \<open>waitStreamEndDone\<close>.
\<close>

section \<open>No wake-up is lost\<close>

definition room :: "'f track \<Rightarrow> nat" where
  "room t = mFrameCount (srv t) - (length (written t) - fpos t)"

definition flag_up :: "cblk \<Rightarrow> bool" where
  "flag_up b \<longleftrightarrow> mFutex b AND CBLK_FUTEX_WAKE \<noteq> 0"

text \<open>The client is about to sleep, or sleeps, and nothing has signalled it.\<close>

definition unsignalled :: "'f track \<Rightarrow> bool" where
  "unsignalled t \<longleftrightarrow> cpc t = Asleep \<or> (cpc t \<in> {No_room, Flag_taken} \<and> \<not> flag_up (blk t))"

definition wake_inv :: "'f track \<Rightarrow> bool" where
  "wake_inv t \<longleftrightarrow> (cpc t = Asleep \<longrightarrow> \<not> flag_up (blk t)) \<and>
     (loaded t \<noteq> None \<longrightarrow> stored t = None) \<and>
     (fresh t \<longrightarrow> stored t = None \<and> room t \<le> mAvailToClient (srv t)) \<and>
     (unsignalled t \<longrightarrow>
        (case stored t of None \<Rightarrow> room t < wake_minimum (blk t) (srv t)
         | Some n \<Rightarrow> room t \<le> mAvailToClient (srv t) + n))"

lemma flag_up_futex_up: "futex_up b = (b', wake) \<Longrightarrow> flag_up b' \<and> (wake \<longleftrightarrow> \<not> flag_up b)"
proof -
  have "(w OR 1) AND (1 :: u32) \<noteq> 0" for w
  proof
    assume "(w OR 1) AND (1 :: u32) = 0"
    then have "bit ((w OR 1) AND (1 :: u32)) 0 = False" by simp
    then show False by (simp add: bit_simps)
  qed
  then show "futex_up b = (b', wake) \<Longrightarrow> ?thesis"
    by (auto simp: futex_up_def flag_up_def CBLK_FUTEX_WAKE_def)
qed

lemma wake_minimum_pos: "0 < wake_minimum b s"
  by (auto simp: wake_minimum_def Let_def)

lemma wake_minimum_le: "0 < mFrameCount s \<Longrightarrow> mIsOut s \<Longrightarrow> wake_minimum b s \<le> mFrameCount s"
  by (auto simp: wake_minimum_def Let_def)

text \<open>What the wake depends on.\<close>

lemma wake_minimum_cong:
  "mMinimum b' = mMinimum b \<Longrightarrow> mFrameCount s' = mFrameCount s \<Longrightarrow> mIsOut s' = mIsOut s \<Longrightarrow>
     wake_minimum b' s' = wake_minimum b s"
  by (simp only: wake_minimum_def)

text \<open>A step that leaves the counters alone and does not make the client sleep.\<close>

lemma wake_inv_cong:
  assumes "wake_inv t" "mFrameCount (srv t') = mFrameCount (srv t)" "mIsOut (srv t') = mIsOut (srv t)"
    "mAvailToClient (srv t') = mAvailToClient (srv t)"
    "length (written t') - fpos t' = length (written t) - fpos t"
    "loaded t' \<noteq> None \<longrightarrow> stored t' = None" "stored t' = stored t" "fresh t' = fresh t"
    "cpc t' = Asleep \<longrightarrow> \<not> flag_up (blk t')"
    "unsignalled t' \<longrightarrow> unsignalled t \<and> mMinimum (blk t') = mMinimum (blk t)"
  shows "wake_inv t'"
  using assms wake_minimum_cong [of "blk t'" "blk t" "srv t'" "srv t"]
  by (auto simp: wake_inv_def room_def split: option.splits)

definition wakes :: "'f action \<Rightarrow> 'f track \<Rightarrow> bool" where
  "wakes a t \<longleftrightarrow> (\<forall>t'. track_exec a t = Some t' \<longrightarrow> wake_inv t')"

lemma wakes_neutral:
  assumes inv: "wake_inv t"
  shows "wakes Give_up t" "cpc t = No_room \<Longrightarrow> wakes Take_flag t" "cpc t = Flag_taken \<Longrightarrow> wakes Wait t"
    "wakes Awake t" "cpc t = Running \<Longrightarrow> wakes Flush t" "cpc t = Running \<Longrightarrow> wakes (Minimum n) t"
    "wakes (Store k f) t" "wakes (Tally u) t"
    "stored t = None \<Longrightarrow> wakes Load_flush t"
proof -
  note cong = wake_inv_cong [OF inv]
  have asleep: "cpc t = Asleep \<longrightarrow> \<not> flag_up (blk t)" and ls: "loaded t \<noteq> None \<longrightarrow> stored t = None"
    using inv by (simp_all add: wake_inv_def)
  note facts = asleep ls
  show "wakes Give_up t"
    unfolding wakes_def by (auto intro!: cong simp: client_fail_def facts unsignalled_def)
  show "wakes Awake t" unfolding wakes_def by (auto intro!: cong simp: facts unsignalled_def)
  show "wakes (Store k f) t"
    unfolding wakes_def by (auto intro!: cong simp: facts unsignalled_def split: option.splits if_splits)
  show "wakes (Tally u) t"
    unfolding wakes_def using asleep
    by (auto intro!: cong simp: tallyUnderrunFrames_def ls unsignalled_def flag_up_def)
  show "stored t = None \<Longrightarrow> wakes Load_flush t"
    unfolding wakes_def by (auto intro!: cong simp: facts unsignalled_def)
  show "cpc t = Running \<Longrightarrow> wakes Flush t"
    unfolding wakes_def by (auto intro!: cong simp: client_flush_def facts unsignalled_def)
  show "cpc t = Running \<Longrightarrow> wakes (Minimum n) t"
    unfolding wakes_def by (auto intro!: cong simp: setMinimum_def facts unsignalled_def)
  show "cpc t = Flag_taken \<Longrightarrow> wakes Wait t"
    unfolding wakes_def by (auto intro!: cong simp: facts unsignalled_def flag_up_def split: if_splits)
  show "cpc t = No_room \<Longrightarrow> wakes Take_flag t"
    unfolding wakes_def
    by (auto intro!: cong simp: futex_down_def facts unsignalled_def flag_up_def split: if_splits)
qed

text \<open>After a signal with the flag up nothing more is owed to the client.\<close>

lemma wake_inv_signalled:
  assumes "wake_inv t" "flag_up (blk t')" "cpc t' = woken_pc wake (cpc t)" "wake \<or> cpc t \<noteq> Asleep"
    "loaded t' \<noteq> None \<longrightarrow> stored t' = None"
    "fresh t' \<longrightarrow> stored t' = None \<and> room t' \<le> mAvailToClient (srv t')"
  shows "wake_inv t'"
  using assms by (auto simp: wake_inv_def unsignalled_def woken_pc_def split: if_splits)

lemma wakes_interrupt:
  assumes inv: "wake_inv t"
  shows "wakes Interrupt t"
proof -
  obtain b wake where b: "interrupt (blk t) = (b, wake)" by fastforce
  define t' where "t' = t\<lparr>blk := b, cpc := woken_pc wake (cpc t)\<rparr>"
  have exec: "track_exec Interrupt t = Some t'" by (simp add: b t'_def)
  have "wake_inv t'"
  proof (cases wake)
    case True
    then have "mFutex b = mFutex (blk t) OR CBLK_FUTEX_WAKE"
      using b by (auto simp: interrupt_def signal_flag_def Let_def split: if_splits)
    then have "flag_up b"
      using flag_up_futex_up [of "blk t" "fst (futex_up (blk t))" "snd (futex_up (blk t))"]
      by (simp add: futex_up_def flag_up_def)
    then show ?thesis
      using inv True by (intro wake_inv_signalled [OF inv, where wake = wake]) (simp_all add: t'_def wake_inv_def room_def)
  next
    case False
    then have "mFutex b = mFutex (blk t)" "mMinimum b = mMinimum (blk t)"
      using b by (auto simp: interrupt_def signal_flag_def Let_def split: if_splits)
    then show ?thesis
      using inv False
      by (intro wake_inv_cong [OF inv]) (simp_all add: t'_def woken_pc_def unsignalled_def flag_up_def wake_inv_def)
  qed
  then show ?thesis by (simp only: wakes_def exec option.inject simp_thms)
qed

lemma wakes_release:
  assumes inv: "wake_inv t" and run: "cpc t = Running"
  shows "wakes (Release n) t"
  unfolding wakes_def
proof (intro allI impI)
  fix t' assume "track_exec (Release n) t = Some t'"
  then obtain b c d ws where t': "t' = t\<lparr>blk := b, cli := c, cdone := d, written := written t @ ws\<rparr>"
    by (auto simp: Let_def split: bind_splits)
  have "room t' \<le> room t" by (subst t') (simp add: room_def)
  moreover have "cpc t' = Running" "loaded t' = loaded t" "stored t' = stored t" "fresh t' = fresh t"
    "srv t' = srv t" by (subst t', simp add: run)+
  ultimately show "wake_inv t'" using inv by (auto simp: wake_inv_def unsignalled_def)
qed

text \<open>A look that finds no room finds no room at all.\<close>

lemma wakes_look:
  assumes size: "size_ok P N FS" and tinv: "track_inv P N FS t" and inv: "wake_inv t" and run: "cpc t = Running"
  shows "wakes (Look ignore want) t"
  unfolding wakes_def
proof (intro allI impI)
  fix t' assume exec: "track_exec (Look ignore want) t = Some t'"
  have same: "srv t' = srv t" "loaded t' = loaded t" "stored t' = stored t" "fresh t' = fresh t"
    "written t' = written t" "fpos t' = fpos t" "cpc t' = Running \<or> cpc t' = No_room"
    using exec run by (auto split: option.splits look.splits prod.splits)
  have pc: "pipe_ok P N FS (cli t)" and fifo: "fifo_ok P N (blk t) (mem t) (written t) (fpos t)"
    and N: "mFrameCount (srv t) = N" using tinv by (simp_all add: track_inv_def pipe_ok_def)
  have "room t' = 0 \<or> cpc t' = Running"
  proof (cases "client_look ignore want (blk t) (cli t)")
    case (fields b c l)
    show ?thesis
    proof (cases l)
      case Blocked
      then have "N - (length (written t) - fpos t) = 0"
        using fields filled_fifo [OF size fifo] in_range_fifo [OF fifo pc] pc
        by (auto simp: client_look_def Let_def pipe_ok_def split: if_splits)
      then show ?thesis by (simp add: room_def same N)
    qed (use exec fields run in \<open>auto simp: client_fail_def split: option.splits\<close>)
  qed
  then show "wake_inv t'"
    using inv same wake_minimum_pos [of "blk t'" "srv t'"]
    by (auto simp: wake_inv_def room_def unsignalled_def split: option.splits)
qed

lemma server_obtain_futex:
  assumes "server_obtain flush want ack b0 s0 = Some (b, s, buf, status, wake)"
  shows "mMinimum b = mMinimum b0"
    "flag_up b \<and> (wake \<longleftrightarrow> \<not> flag_up b0) \<or> mFutex b = mFutex b0 \<and> \<not> wake \<and> mFront b = mFront b0"
proof -
  obtain b1 s1 w1 where f: "server_flush flush b0 s0 = (b1, s1, w1)" by (cases "server_flush flush b0 s0") auto
  have b: "b = b0 \<and> \<not> wake \<or> b = b1 \<and> wake = w1"
    using assms by (auto simp: server_obtain_def f no_init_def Let_def split: if_splits)
  have "mMinimum b1 = mMinimum b0" using f by (auto simp: server_flush_def futex_up_def split: if_splits)
  then show "mMinimum b = mMinimum b0" using b by auto
  have "flag_up b1 \<and> (w1 \<longleftrightarrow> \<not> flag_up b0) \<or> mFutex b1 = mFutex b0 \<and> \<not> w1 \<and> mFront b1 = mFront b0"
  proof (cases "mIsOut s0 \<and> flush \<noteq> mFlushSeen s0")
    case True
    then have "futex_up (b0\<lparr>mFront := new_front s0 flush (mFront b0) (mRear b0)\<rparr>) = (b1, w1)"
      using f by (auto simp: server_flush_def Let_def split: prod.splits)
    from flag_up_futex_up [OF this] show ?thesis by (simp add: flag_up_def)
  qed (use f in \<open>auto simp: server_flush_def split: if_splits\<close>)
  then show "flag_up b \<and> (wake \<longleftrightarrow> \<not> flag_up b0) \<or> mFutex b = mFutex b0 \<and> \<not> wake \<and> mFront b = mFront b0"
    using b by auto
qed

lemma wakes_obtain:
  assumes size: "size_ok P N FS" and tinv: "track_inv P N FS t" and inv: "wake_inv t"
    and may: "loaded t \<noteq> None" "0 < want"
  shows "wakes (Obtain want ack) t"
proof -
  have l: "loaded t = Some (mFlush (blk t))" using may(1) tinv by (auto simp: track_inv_def)
  have st: "stored t = None" using inv may(1) by (simp add: wake_inv_def)
  define x where "x = (if mFlush (blk t) \<noteq> mFlushSeen (srv t) then fx t else fpos t)"
  obtain b s buf status wake where o:
    "server_obtain (mFlush (blk t)) want ack (blk t) (srv t) = Some (b, s, buf, status, wake)"
    "passed (blk t) b = x - fpos t" "fpos t \<le> x" "pipe_ok P N FS s"
    "mAvailToClient s = N - (length (written t) - x)"
    by (rule server_obtain_ok [OF size tinv may(2), of ack, folded x_def])
  define t' where "t' = t\<lparr>blk := b, srv := s, loaded := None, cpc := woken_pc wake (cpc t),
      sbuf := (if ack then sbuf t else buf), sdone := (if ack then sdone t else 0), fresh := True, fpos := x\<rparr>"
  have exec: "track_exec (Obtain want ack) t = Some t'" using o(1-3) by (simp add: l t'_def)
  have pipe: "mFrameCount s = N" "mIsOut s" "mFrameCount (srv t) = N" "mIsOut (srv t)"
    using o(4) tinv by (simp_all add: pipe_ok_def track_inv_def)
  have room: "room t' \<le> mAvailToClient (srv t')" using o(5) pipe by (simp add: room_def t'_def)
  note futex = server_obtain_futex [OF o(1)]
  have "wake_inv t'"
  proof (cases "flag_up b \<and> (wake \<longleftrightarrow> \<not> flag_up (blk t))")
    case True
    then show ?thesis
      using inv room st
      by (intro wake_inv_signalled [OF inv, where wake = wake]) (auto simp: t'_def wake_inv_def)
  next
    case False
    then have same: "mFutex b = mFutex (blk t)" "\<not> wake" "mFront b = mFront (blk t)" using futex(2) by auto
    then have "x = fpos t" using o(2,3) by simp
    moreover have "wake_minimum b s = wake_minimum (blk t) (srv t)"
      by (rule wake_minimum_cong) (simp_all add: futex(1) pipe)
    ultimately show ?thesis
      using inv room st same pipe
      by (auto simp: t'_def wake_inv_def unsignalled_def flag_up_def woken_pc_def room_def)
  qed
  then show ?thesis by (simp only: wakes_def exec option.inject simp_thms)
qed

text \<open>The first half of a release: the estimate the server made covers the room.\<close>

lemma wakes_release_store:
  assumes size: "size_ok P N FS" and tinv: "track_inv P N FS t" and inv: "wake_inv t"
    and may: "loaded t = None" "fresh t" "n \<le> mUnreleased (srv t)"
  shows "wakes (Release_store n) t"
  unfolding wakes_def
proof (intro allI impI)
  fix t' assume exec: "track_exec (Release_store n) t = Some t'"
  have fifo: "fifo_ok P N (blk t) (mem t) (written t) (fpos t)" and N: "mFrameCount (srv t) = N" "mIsOut (srv t)"
    and left: "fpos t + mUnreleased (srv t) \<le> length (written t)"
    using tinv by (simp_all add: track_inv_def pipe_ok_def)
  have "n \<le> 2 ^ 29" using may(3) left fifo_okD(5) [OF fifo] size_okD(3) [OF size] by simp
  then have moved: "n < 2 ^ 31" by simp
  obtain b s where bs: "server_store n (blk t) (srv t) = Some (b, s)"
    "t' = t\<lparr>blk := b, srv := s, sdone := sdone t + n, stored := Some n, fresh := False,
           fpos := fpos t + passed (blk t) b\<rparr>"
    using exec by (auto split: bind_splits)
  have "mFrameCount s = N" "mAvailToClient s = mAvailToClient (srv t)" "mFutex b = mFutex (blk t)"
    "passed (blk t) b = n"
    using bs(1) N passed_forward [of b n "blk t"] moved by (auto simp: server_store_def Let_def split: if_splits)
  moreover have "room t \<le> mAvailToClient (srv t)" using inv may(2) by (simp add: wake_inv_def)
  ultimately show "wake_inv t'"
    using inv may(1) N unfolding bs(2) by (auto simp: wake_inv_def room_def unsignalled_def flag_up_def)
qed

text \<open>The second half: the client is signalled, or the room is below its minimum.\<close>

lemma wakes_release_wake:
  assumes inv: "wake_inv t" and may: "stored t \<noteq> None"
  shows "wakes Release_wake t"
proof -
  obtain n where n: "stored t = Some n" using may by auto
  obtain b wake where w: "server_wake n (blk t) (srv t) = (b, wake)" by fastforce
  define t' where "t' = t\<lparr>blk := b, stored := None, cpc := woken_pc wake (cpc t)\<rparr>"
  have exec: "track_exec Release_wake t = Some t'" by (simp add: n w t'_def)
  have "\<not> fresh t" "loaded t = None" using inv n by (auto simp: wake_inv_def)
  moreover have "wake_inv t'"
  proof (cases "\<not> mIsOut (srv t) \<or> mAvailToClient (srv t) + n \<ge> wake_minimum (blk t) (srv t)")
    case True
    then have "futex_up (blk t) = (b, wake)" using w by (simp add: server_wake_def)
    from flag_up_futex_up [OF this] show ?thesis
      using inv \<open>\<not> fresh t\<close> \<open>loaded t = None\<close>
      by (intro wake_inv_signalled [OF inv, where wake = wake]) (auto simp: t'_def wake_inv_def)
  next
    case False
    then have "b = blk t" "\<not> wake" using w by (simp_all add: server_wake_def)
    moreover have "unsignalled t \<Longrightarrow> room t \<le> mAvailToClient (srv t) + n" using inv n by (simp add: wake_inv_def)
    ultimately show ?thesis
      using inv False \<open>\<not> fresh t\<close> \<open>loaded t = None\<close>
      by (auto simp: t'_def wake_inv_def unsignalled_def room_def woken_pc_def)
  qed
  ultimately show ?thesis by (simp only: wakes_def exec option.inject simp_thms)
qed

lemma wakes_frames_ready:
  assumes inv: "wake_inv t"
  shows "wakes Frames_ready t"
  unfolding wakes_def
proof (intro allI impI)
  fix t' assume "track_exec Frames_ready t = Some t'"
  then obtain s n where s: "framesReady (blk t) (srv t) = Some (s, n)" "t' = t\<lparr>srv := s\<rparr>"
    by (auto split: bind_splits)
  have "mFrameCount s = mFrameCount (srv t)" "mIsOut s = mIsOut (srv t)" "mAvailToClient s = mAvailToClient (srv t)"
    using s(1) by (auto simp: framesReady_def Let_def split: if_splits)
  then show "wake_inv t'"
    using inv unfolding s(2) by (intro wake_inv_cong [OF inv]) (simp_all add: wake_inv_def unsignalled_def)
qed

lemma track_step_wakes:
  assumes "size_ok P N FS" "track_inv P N FS t" "wake_inv t" "may False False a t"
  shows "wakes a t"
proof (cases a)
  case (Look ignore want)
  then show ?thesis using assms wakes_look by auto
next
  case (Release n)
  then show ?thesis using assms wakes_release [of t n] by simp
next
  case (Obtain want ack)
  then show ?thesis using assms wakes_obtain [of P N FS t want ack] by simp
next
  case (Release_store n)
  then show ?thesis using assms wakes_release_store [of P N FS t n] by simp
next
  case Release_wake
  then show ?thesis using assms wakes_release_wake [of t] by simp
next
  case Interrupt
  then show ?thesis using assms wakes_interrupt [of t] by simp
next
  case Frames_ready
  then show ?thesis using assms wakes_frames_ready [of t] by simp
qed (use assms wakes_neutral [of t] in auto)

text \<open>
  C6: No wake-up is lost. While the server releases each chunk at once, a client that sleeps in
  \<open>obtainBuffer\<close> has less room than the server's threshold of waking it, unless a wake
  is on its way: so the server still has frames to play, and the client never sleeps over an
  empty pipe.
\<close>

theorem no_wakeup_lost:
  assumes "roundup_ok roundup N" "0 < FS" "length m = roundup N"
    and reach: "track_reach False False (track_start roundup N FS cis m) t"
    and asleep: "cpc t = Asleep" "stored t = None"
  shows "N - (length (written t) - fpos t) < wake_minimum (blk t) (srv t) \<and> fpos t < length (written t)"
proof -
  have size: "size_ok (roundup N) N FS" by (rule track_start_inv(1) [OF assms(1-3)])
  have "wake_inv (track_start roundup N FS cis m)"
    by (simp add: wake_inv_def track_start_def unsignalled_def)
  with reach have inv: "wake_inv t"
  proof (induction rule: track_reach.induct)
    case (moved t a t')
    then show ?case
      using track_step_wakes [OF size track_reach_inv [OF moved.hyps(1) assms(1-3)] moved.IH moved.hyps(2)]
      by (simp add: wakes_def)
  qed simp
  have "track_inv (roundup N) N FS t" by (rule track_reach_inv [OF reach assms(1-3)])
  then have N: "mFrameCount (srv t) = N" "mIsOut (srv t)" "fpos t \<le> length (written t)"
    by (simp_all add: track_inv_def pipe_ok_def fifo_ok_def)
  have "room t < wake_minimum (blk t) (srv t)" using inv asleep by (simp add: wake_inv_def unsignalled_def)
  moreover have "wake_minimum (blk t) (srv t) \<le> N"
    using wake_minimum_le [of "srv t" "blk t"] N size_okD(4) [OF size] by simp
  ultimately show ?thesis using N by (auto simp: room_def)
qed

lemma no_wakeup_lost_witness:
  "\<exists>t. track_reach False False small_track t \<and> cpc t = Asleep \<and> fpos t < length (written t)"
proof -
  let ?as = "[Look True 2, Release 2, Look True 2, Take_flag, Wait]"
  have "map_option (\<lambda>t. (cpc t, stored t)) (track_run False False ?as small_track) = Some (Asleep, None)"
    by code_simp
  then obtain t where run: "track_run False False ?as small_track = Some t"
    and t: "cpc t = Asleep" "stored t = None" by auto
  have reach: "track_reach False False small_track t"
    by (rule track_run_reach [OF run track_reach.begun])
  then show ?thesis
    using no_wakeup_lost [OF small_track_ok(1) _ small_track_ok(2), of 1 False t] t
    by (auto simp: small_track_def)
qed

section \<open>A wake-up that is lost\<close>

fun server_action :: "'f action \<Rightarrow> bool" where
  "server_action Load_flush = True"
| "server_action (Obtain want ack) = True"
| "server_action (Release_store n) = True"
| "server_action Release_wake = True"
| "server_action Frames_ready = True"
| "server_action (Tally n) = True"
| "server_action a = False"

text \<open>The client sleeps, the pipe is empty and the server holds nothing.\<close>

definition starved :: "'f track \<Rightarrow> bool" where
  "starved t \<longleftrightarrow> cpc t = Asleep \<and> fpos t = length (written t) \<and> mFront (blk t) = mRear (blk t) \<and>
     mFlush (blk t) = mFlushSeen (srv t) \<and> (loaded t = None \<or> loaded t = Some (mFlush (blk t))) \<and>
     mUnreleased (srv t) = 0 \<and> stored t = None \<and> mIsOut (srv t)"

lemma starved_obtain:
  assumes "starved t" "0 < want"
  shows "\<exists>s buf status. server_obtain (mFlush (blk t)) want ack (blk t) (srv t) = Some (blk t, s, buf, status, False) \<and>
     mUnreleased s = 0 \<and> mFlushSeen s = mFlush (blk t) \<and> mIsOut s"
  using assms
  by (auto simp: starved_def server_obtain_def server_flush_def no_init_def filled_of_def in_range_def
      first_chunk_def Let_def)

lemma starved_step:
  assumes st: "starved t" and may: "server_action a" "may racy chunked a t" and exec: "track_exec a t = Some t'"
  shows "starved t'"
proof (cases a)
  case (Obtain want ack)
  then have "loaded t = Some (mFlush (blk t))" "0 < want" using st may by (auto simp: starved_def)
  then show ?thesis
    using starved_obtain [OF st, of want ack] st exec Obtain
    by (auto simp: starved_def woken_pc_def)
next
  case Frames_ready
  then show ?thesis
    using st exec by (auto simp: starved_def framesReady_def Let_def split: if_splits)
qed (use st may exec in \<open>auto simp: starved_def tallyUnderrunFrames_def\<close>)

lemma starved_run:
  "track_run racy chunked as t = Some t' \<Longrightarrow> list_all server_action as \<Longrightarrow> starved t \<Longrightarrow> starved t'"
proof (induction as arbitrary: t)
  case (Cons a as)
  then show ?case using starved_step [of t a racy chunked] by (auto split: if_splits bind_splits)
qed simp

definition four_frames :: "nat track" where
  "four_frames = track_start (\<lambda>_. 4) 4 1 False [0, 0, 0, 0]"

definition chunked_run :: "nat action list" where
  "chunked_run = [Look True 4, Release 4, Load_flush, Obtain 4 False, Look True 4, Take_flag, Wait,
     Release_store 1, Release_wake, Release_store 1, Release_wake, Release_store 1, Release_wake,
     Release_store 1, Release_wake]"

text \<open>
  C36: Releasing a chunk in pieces, as the header permits, can lose the wake-up for ever. The
  threshold is compared with the room the server saw when it obtained plus the size of the last
  piece; a server that plays four frames one by one never reaches half of the pipe, and then the
  client sleeps over an empty pipe whatever the server goes on to do.
\<close>

theorem chunked_release_loses_wakeup:
  "\<exists>t. track_reach False True four_frames t \<and> cpc t = Asleep \<and> fpos t = length (written t) \<and>
     (\<forall>as. pred_option (\<lambda>t'. cpc t' = Asleep \<and> fpos t' = length (written t'))
        (track_run False True (filter server_action as) t))"
proof -
  have "map_option starved (track_run False True chunked_run four_frames) = Some True" by code_simp
  then obtain t where run: "track_run False True chunked_run four_frames = Some t" and st: "starved t" by auto
  have reach: "track_reach False True four_frames t" by (rule track_run_reach [OF run track_reach.begun])
  have "pred_option starved (track_run False True (filter server_action as) t)" for as
    using starved_run [of False True "filter server_action as" t] st
    by (cases "track_run False True (filter server_action as) t") (auto simp: list_all_iff)
  then have "pred_option (\<lambda>t'. cpc t' = Asleep \<and> fpos t' = length (written t'))
      (track_run False True (filter server_action as) t)" for as
    by (rule option.pred_mono_strong) (auto simp: starved_def)
  then show ?thesis using reach st by (auto simp: starved_def)
qed

section \<open>Flushes out of order\<close>

definition stale_flush_run :: "nat action list" where
  "stale_flush_run = [Look True 1, Store 0 11, Release 1, Load_flush, Flush, Look True 1, Store 0 12,
     Release 1, Obtain 2 False, Release_store 2, Release_wake, Look True 2, Load_flush, Obtain 1 False,
     Store 0 13, Store 1 14, Release 2, Load_flush, Obtain 1 False]"

text \<open>
  A flush that falls between the two loads of the server moves the front backwards and
  ends in a shutdown. The server loads \<open>mFlush\<close>, the client flushes and writes on, the server
  plays past the position of the flush; at the next \<open>obtainBuffer\<close> it sets the front back to
  that position although the client has been given the room, and when the client releases its
  chunk the server takes the control block for corrupt. No code of the two sides wrote a value
  that was not its own.
\<close>

theorem stale_flush_shuts_down:
  "\<exists>t. track_reach True True small_track t \<and> mIsShutdown (srv t) \<and> written t = [11, 12, 13, 14]"
proof -
  have "map_option (\<lambda>t. (mIsShutdown (srv t), written t)) (track_run True True stale_flush_run small_track)
      = Some (True, [11, 12, 13, 14])" by code_simp
  then obtain t where run: "track_run True True stale_flush_run small_track = Some t"
    and t: "mIsShutdown (srv t)" "written t = [11, 12, 13, 14]" by auto
  then show ?thesis using track_run_reach [OF run track_reach.begun] by blast
qed

text \<open>Steps without regard to what the two sides may do.\<close>

fun track_do :: "'f action list \<Rightarrow> 'f track \<Rightarrow> 'f track option" where
  "track_do [] t = Some t"
| "track_do (a # as) t = do { t' \<leftarrow> track_exec a t; track_do as t' }"

text \<open>
  \<open>Track::start\<close> acknowledges a flush while the mixer still holds a chunk from before; releasing
  that chunk passes over a frame written after the flush, and shuts the track down when there is
  none.
\<close>

lemma acknowledged_flush_skips:
  "map_option (\<lambda>t. (written t, fpos t))
     (track_do [Look True 1, Store 0 11, Release 1, Load_flush, Obtain 1 False, Flush, Load_flush,
        Obtain 1 True, Look True 1, Store 0 12, Release 1, Release_store 1] small_track) =
   Some ([11, 12], 2)"
  by code_simp

lemma acknowledged_flush_shuts_down:
  "map_option (\<lambda>t. mIsShutdown (srv t))
     (track_do [Look True 1, Store 0 11, Release 1, Load_flush, Obtain 1 False, Flush, Load_flush,
        Obtain 1 True, Release_store 1, Release_wake, Load_flush, Obtain 1 False] small_track) = Some True"
  by code_simp

text \<open>
  The comment on \<open>flush\<close> admits memories of up to \<open>2^30\<close> frames. With that size the frames
  written after a flush beyond a multiple of \<open>2^31\<close> are discarded too: the front goes to the
  rear instead of the position of the flush.
\<close>

lemma flush_of_largest_memory:
  assumes "mFrameCountP2 p = 2 ^ 30" "mFrameCount p = 2 ^ 30"
  shows "new_front p (0x80000000 AND flush_mask p) 0x7FFFFFFF 0x80000005 = 0x80000005"
  by (simp add: new_front_def flush_mask_def filled_of_def in_range_def assms)

section \<open>Timeouts\<close>

definition total_ns :: "timespec \<Rightarrow> int" where
  "total_ns t = fst t * 1000000000 + snd t"

text \<open>
  The time left is computed with the borrow in the wrong direction: where the nanoseconds of the
  request are fewer than those already spent, the next wait is two seconds too long.
\<close>

lemma remaining_time_exact:
  assumes "snd w \<le> snd req" "fst req - fst w \<le> MAX_SEC"
  shows "total_ns (remaining_time req w) = total_ns req - total_ns w"
  using assms by (simp add: remaining_time_def total_ns_def Let_def)

lemma remaining_time_too_long:
  assumes "snd req < snd w" "fst req - fst w < MAX_SEC"
  shows "total_ns (remaining_time req w) = total_ns req - total_ns w + 2000000000"
  using assms by (simp add: remaining_time_def total_ns_def Let_def)

text \<open>
  \<open>AudioTrackClientProxy::waitStreamEndDone\<close>: the look at the flags, the decision to wait, which
  is that of \<open>obtainBuffer\<close> but for the test of \<open>measure\<close>, and the loop. The time spent, \<open>total\<close>, is
  never changed. Each turn has the control block it finds and the outcome of its wait; \<open>None\<close> is
  a run that has not returned after these turns.
\<close>

definition end_look :: "cblk \<Rightarrow> int option" where
  "end_look b =
     (let flags = mFlags b
      in if flags AND CBLK_INVALID \<noteq> 0 then Some DEAD_OBJECT
         else if flags AND CBLK_STREAM_END_DONE \<noteq> 0 then Some OK
         else if flags AND CBLK_INTERRUPT \<noteq> 0 then Some (- EINTR)
         else None)"

definition end_timeout :: "timespec option \<Rightarrow> timeout" where
  "end_timeout req = (case req of None \<Rightarrow> TIMEOUT_ZERO
     | Some (sec, nsec) \<Rightarrow> if sec = 0 \<and> nsec = 0 then TIMEOUT_ZERO
                         else if sec = INT_MAX then TIMEOUT_INFINITE else TIMEOUT_FINITE)"

definition end_wait_time ::
    "timespec option \<Rightarrow> timeout \<Rightarrow> timespec \<Rightarrow> (int, timeout \<times> timespec option) sum" where
  "end_wait_time req t tot =
     (case t of
        TIMEOUT_ZERO \<Rightarrow> Inl WOULD_BLOCK
      | TIMEOUT_INFINITE \<Rightarrow> Inr (t, None)
      | _ \<Rightarrow>
          let (sec, nsec) = (case req of Some r \<Rightarrow> r | None \<Rightarrow> (0, 0))
          in if sec < fst tot \<or> (sec = fst tot \<and> nsec \<le> snd tot) then Inl TIMED_OUT
             else Inr (TIMEOUT_CONTINUE, Some (remaining_time (sec, nsec) tot)))"

fun end_loop :: "timespec option \<Rightarrow> timespec \<Rightarrow> timeout \<Rightarrow> (cblk \<times> int) list \<Rightarrow> int option" where
  "end_loop req tot t [] = None"
| "end_loop req tot t ((b, errno) # turns) =
     (case end_look b of
        Some status \<Rightarrow> Some status
      | None \<Rightarrow>
          (case end_wait_time req t tot of
             Inl status \<Rightarrow> Some status
           | Inr (t, ts) \<Rightarrow>
               if snd (futex_down b) \<and> errno \<notin> {0, EWOULDBLOCK, EINTR, ETIMEDOUT} then Some errno
               else end_loop req tot t turns))"

definition waitStreamEndDone :: "timespec option \<Rightarrow> (cblk \<times> int) list \<Rightarrow> int option" where
  "waitStreamEndDone req turns = end_loop req (0, 0) (end_timeout req) turns"

lemma end_loop_waits:
  assumes "t = TIMEOUT_FINITE \<or> t = TIMEOUT_CONTINUE" "0 < sec \<or> sec = 0 \<and> 0 < nsec"
    "\<forall>(b, errno) \<in> set turns. end_look b = None \<and> errno \<in> {0, EWOULDBLOCK, EINTR, ETIMEDOUT}"
  shows "end_loop (Some (sec, nsec)) (0, 0) t turns = None"
  using assms
proof (induction turns arbitrary: t)
  case (Cons turn turns)
  obtain b errno where turn: "turn = (b, errno)" by fastforce
  have "end_wait_time (Some (sec, nsec)) t (0, 0) =
      Inr (TIMEOUT_CONTINUE, Some (remaining_time (sec, nsec) (0, 0)))"
    using Cons.prems(1,2) by (auto simp: end_wait_time_def)
  moreover have "end_look b = None" "errno \<in> {0, EWOULDBLOCK, EINTR, ETIMEDOUT}"
    using Cons.prems(3) by (auto simp: turn)
  moreover have "end_loop (Some (sec, nsec)) (0, 0) TIMEOUT_CONTINUE turns = None"
    by (rule Cons.IH) (use Cons.prems in auto)
  ultimately show ?case unfolding turn by (simp only: end_loop.simps option.case sum.case prod.case) simp
qed simp

text \<open>
  \<open>waitStreamEndDone\<close> never times out. With a finite timeout, as long as the server sets none of
  the flags, the call has not returned after any number of waits, each of which may have run to
  its own timeout: the time spent is never added up, and \<open>TIMED_OUT\<close> cannot be returned.
\<close>

theorem stream_end_wait_never_times_out:
  assumes "0 < sec \<or> sec = 0 \<and> 0 < nsec" "sec \<noteq> INT_MAX"
    and "\<forall>(b, errno) \<in> set turns. mFlags b AND (CBLK_INVALID OR CBLK_STREAM_END_DONE OR CBLK_INTERRUPT) = 0 \<and>
           errno \<in> {0, EWOULDBLOCK, EINTR, ETIMEDOUT}"
  shows "waitStreamEndDone (Some (sec, nsec)) turns = None"
proof -
  have "end_look b = None"
    if "mFlags b AND (CBLK_INVALID OR CBLK_STREAM_END_DONE OR CBLK_INTERRUPT) = 0" for b
    using that by (simp add: end_look_def bit.conj_disj_distrib or_eq_0_iff)
  then have turns: "\<forall>(b, errno) \<in> set turns. end_look b = None \<and> errno \<in> {0, EWOULDBLOCK, EINTR, ETIMEDOUT}"
    using assms(3) by auto
  have "end_timeout (Some (sec, nsec)) = TIMEOUT_FINITE"
    using assms(1,2) by (auto simp: end_timeout_def)
  then show ?thesis
    unfolding waitStreamEndDone_def using end_loop_waits [OF _ assms(1) turns] by simp
qed

lemma stream_end_wait_never_times_out_witness:
  "waitStreamEndDone (Some (120, 0)) (replicate 1000 (audio_track_cblk, ETIMEDOUT)) = None"
  by (rule stream_end_wait_never_times_out) (simp_all add: INT_MAX_def audio_track_cblk_def)

end
