(* ===== verification/StateQueue.thy ===== *)
theory StateQueue
  imports AvPrelude
begin

text \<open>
  \<open>SingleStateQueue\<close>, include/media/SingleStateQueue.h: one value of several words that one thread
  (the mutator) overwrites and another (the observer) polls, without a lock. The value is a list
  of words, which are copied one by one; the sequence number is odd while a value is being
  written.

  The first part has the accesses to the shared memory as functions, and \<open>push\<close>, \<open>poll\<close>,
  \<open>done\<close> and \<open>ack\<close> made of them. The second part interleaves the accesses of both threads in every order
  (sequentially consistent, which the barriers of the code are there to ensure), and shows what
  the observer gets. \<open>int32_t\<close> sequence numbers are words, and overflow wraps around.
\<close>

section \<open>The operations\<close>

datatype ssq_status = SSQ_PENDING | SSQ_READ | SSQ_DONE

record 'w shared =
  mAck :: u32
  mSequence :: u32
  mValue :: "'w list"

definition ssq_init :: "'w list \<Rightarrow> 'w shared" where
  "ssq_init value = \<lparr>mAck = 0, mSequence = 0, mValue = value\<rparr>"

text \<open>\<open>Mutator::push\<close>; \<open>seq\<close> is the sequence number of the mutator.\<close>

definition push_open :: "u32 \<Rightarrow> 'w shared \<Rightarrow> 'w shared" where
  "push_open seq q = q\<lparr>mSequence := seq + 1\<rparr>"

definition push_word :: "'w list \<Rightarrow> nat \<Rightarrow> 'w shared \<Rightarrow> 'w shared" where
  "push_word v i q = q\<lparr>mValue := (mValue q)[i := v ! i]\<rparr>"

definition push_close :: "u32 \<Rightarrow> 'w shared \<Rightarrow> u32 \<times> 'w shared" where
  "push_close seq q = (seq + 1 + 1, q\<lparr>mSequence := seq + 1 + 1\<rparr>)"

definition push :: "'w list \<Rightarrow> u32 \<Rightarrow> 'w shared \<Rightarrow> u32 \<times> 'w shared" where
  "push v seq q = push_close seq (fold (push_word v) [0..<length v] (push_open seq q))"

definition ack :: "u32 \<Rightarrow> 'w shared \<Rightarrow> ssq_status" where
  "ack seq q =
     (if (mAck q - seq) AND NOT 1 \<noteq> 0 then SSQ_PENDING
      else if mAck q AND 1 \<noteq> 0 then SSQ_DONE else SSQ_READ)"

definition ack_since :: "u32 \<Rightarrow> 'w shared \<Rightarrow> bool" where
  "ack_since sequence q \<longleftrightarrow> 0 \<le> sint (mAck q - sequence)"

text \<open>
  \<open>Observer::poll\<close>: where the observer is between two accesses. It has loaded \<open>before\<close> for the
  next turn of the loop, or has copied the words \<open>temp\<close>, or has found \<open>temp\<close> to be a value.
\<close>

datatype 'w poll_pc =
    Idle
  | Trying nat u32
  | Copying nat u32 "'w list"
  | Accepting u32 "'w list"

definition MAX_TRIES :: nat where "MAX_TRIES = 5"

definition try_again :: "nat \<Rightarrow> u32 \<Rightarrow> 'w poll_pc" where
  "try_again tries before = (if Suc tries \<ge> MAX_TRIES then Idle else Trying (Suc tries) before)"

definition poll_begin :: "u32 \<Rightarrow> 'w shared \<Rightarrow> 'w poll_pc" where
  "poll_begin seq q = (if mSequence q = seq then Idle else Trying 0 (mSequence q))"

text \<open>The next access of a poll under way; \<open>Idle\<close> is the return of \<open>false\<close>.\<close>

fun poll_turn :: "'w shared \<Rightarrow> 'w poll_pc \<Rightarrow> 'w poll_pc" where
  "poll_turn q Idle = Idle"
| "poll_turn q (Trying tries before) =
     (if before AND 1 \<noteq> 0 then try_again tries (mSequence q) else Copying tries before [])"
| "poll_turn q (Copying tries before temp) =
     (if length temp < length (mValue q) then Copying tries before (temp @ [mValue q ! length temp])
      else if mSequence q = before then Accepting before temp
      else try_again tries (mSequence q))"
| "poll_turn q (Accepting before temp) = Accepting before temp"

definition poll_accept :: "u32 \<Rightarrow> 'w shared \<Rightarrow> 'w shared" where
  "poll_accept before q = q\<lparr>mAck := before\<rparr>"

definition ssq_done :: "'w shared \<Rightarrow> 'w shared" where
  "ssq_done q = q\<lparr>mAck := mAck q + 1\<rparr>"

text \<open>A bound on the accesses that a poll still makes: it decreases at each.\<close>

definition poll_left :: "nat \<Rightarrow> 'w poll_pc \<Rightarrow> nat" where
  "poll_left n pc =
     (case pc of
        Trying tries before \<Rightarrow> (n + 3) * Suc (MAX_TRIES - 1 - tries)
      | Copying tries before temp \<Rightarrow> (n + 3) * (MAX_TRIES - 1 - tries) + (n - length temp) + 2
      | _ \<Rightarrow> 0)"

fun poll_steps :: "nat \<Rightarrow> 'w shared \<Rightarrow> 'w poll_pc \<Rightarrow> 'w poll_pc" where
  "poll_steps 0 q pc = pc"
| "poll_steps (Suc n) q pc = poll_steps n q (poll_turn q pc)"

text \<open>
  A poll without another thread in between: the new value if there is one, with the sequence
  number of the observer and the shared memory afterwards.
\<close>

definition poll :: "u32 \<Rightarrow> 'w shared \<Rightarrow> (u32 \<times> 'w list) option \<times> 'w shared" where
  "poll seq q =
     (let pc = poll_begin seq q in
      case poll_steps (poll_left (length (mValue q)) pc) q pc of
        Accepting before temp \<Rightarrow> (Some (before, temp), poll_accept before q)
      | _ \<Rightarrow> (None, q))"


subsection \<open>Without interleaving\<close>

lemma fold_push_word:
  "n \<le> length v \<Longrightarrow> length v = length (mValue q) \<Longrightarrow>
   fold (push_word v) [0..<n] q = q\<lparr>mValue := take n v @ drop n (mValue q)\<rparr>"
proof (induction n)
  case (Suc n)
  then have "fold (push_word v) [0..<Suc n] q = push_word v n (q\<lparr>mValue := take n v @ drop n (mValue q)\<rparr>)" by simp
  also have "\<dots> = q\<lparr>mValue := (take n v @ drop n (mValue q))[n := v ! n]\<rparr>" by (simp add: push_word_def)
  finally have step: "fold (push_word v) [0..<Suc n] q = q\<lparr>mValue := (take n v @ drop n (mValue q))[n := v ! n]\<rparr>" .
  have "(take n v @ drop n (mValue q))[n := v ! n] = take (Suc n) v @ drop (Suc n) (mValue q)"
    using Suc.prems by (simp add: list_update_append take_Suc_conv_app_nth Cons_nth_drop_Suc [symmetric])
  then show ?case by (simp only: step)
qed simp

lemma push_value:
  "length v = length (mValue q) \<Longrightarrow> push v seq q = (seq + 2, q\<lparr>mSequence := seq + 2, mValue := v\<rparr>)"
  by (simp add: push_def push_open_def push_close_def fold_push_word add.assoc)

lemma poll_steps_idle [simp]: "poll_steps n q Idle = Idle"
  by (induction n) auto

lemma poll_steps_accepting [simp]: "poll_steps n q (Accepting b t) = Accepting b t"
  by (induction n) auto

lemma poll_steps_odd:
  "seq AND 1 \<noteq> 0 \<Longrightarrow> mSequence q = seq \<Longrightarrow>
   \<exists>k. poll_steps n q (Trying tries seq) = Idle \<or> poll_steps n q (Trying tries seq) = Trying k seq"
  by (induction n arbitrary: tries) (auto simp: try_again_def)

lemma poll_steps_copy:
  "length temp \<le> length (mValue q) \<Longrightarrow> temp = take (length temp) (mValue q) \<Longrightarrow> mSequence q = before \<Longrightarrow>
   n = Suc (length (mValue q) - length temp) \<Longrightarrow>
   poll_steps n q (Copying tries before temp) = Accepting before (mValue q)"
proof (induction n arbitrary: temp)
  case (Suc n)
  show ?case
  proof (cases "length temp = length (mValue q)")
    case False
    then have less: "length temp < length (mValue q)" using Suc.prems(1) by simp
    then have "temp @ [mValue q ! length temp] = take (Suc (length temp)) (mValue q)"
      using Suc.prems(2) by (metis take_Suc_conv_app_nth)
    then have "poll_steps n q (Copying tries before (temp @ [mValue q ! length temp])) = Accepting before (mValue q)"
      using Suc.prems less by (intro Suc.IH) auto
    then show ?thesis using less by simp
  qed (use Suc.prems in auto)
qed simp

lemma poll_steps_add: "poll_steps (m + n) q pc = poll_steps n q (poll_steps m q pc)"
  by (induction m arbitrary: pc) auto

lemma poll_even:
  fixes q :: "'w shared"
  assumes "mSequence q AND 1 = 0"
  shows "poll seq q = (if mSequence q = seq then (None, q)
     else (Some (mSequence q, mValue q), q\<lparr>mAck := mSequence q\<rparr>))"
proof (cases "mSequence q = seq")
  case False
  let ?n = "length (mValue q)" and ?b = "mSequence q"
  obtain k where k: "poll_left ?n (Trying 0 ?b :: 'w poll_pc) = Suc (Suc ?n + k)"
    by (rule that [of "4 * ?n + 13"]) (simp add: poll_left_def MAX_TRIES_def)
  have "poll_steps (Suc (Suc ?n + k)) q (Trying 0 ?b) = poll_steps (Suc ?n + k) q (Copying 0 ?b [])"
    using assms by simp
  also have "\<dots> = Accepting ?b (mValue q)"
    unfolding poll_steps_add by (simp add: poll_steps_copy del: poll_steps.simps)
  finally show ?thesis using False k by (simp add: poll_def poll_begin_def poll_accept_def Let_def del: poll_steps.simps)
qed (simp add: poll_def poll_begin_def)

lemma poll_odd:
  assumes "mSequence q AND 1 \<noteq> 0"
  shows "poll seq q = (None, q)"
proof (cases "mSequence q = seq")
  case False
  define f where "f = 5 * (length (mValue q) + 3)"
  obtain k where "poll_steps f q (Trying 0 (mSequence q)) = Idle
      \<or> poll_steps f q (Trying 0 (mSequence q)) = Trying k (mSequence q)"
    using poll_steps_odd [OF assms refl] by blast
  then show ?thesis using False by (auto simp: poll_def poll_begin_def poll_left_def MAX_TRIES_def f_def mult.commute)
qed (simp add: poll_def poll_begin_def)


section \<open>A queue as the two sides see it\<close>

text \<open>
  The mutator's sequence number, the shared memory and the observer's sequence number, with
  each operation as a whole. \<open>get_unready\<close> is a poll that gives up, since each of its tries
  met a push.
\<close>

record 'w cell =
  cMutator :: u32
  cShared :: "'w shared"
  cObserver :: u32

definition cell_init :: "'w list \<Rightarrow> 'w cell" where
  "cell_init value = \<lparr>cMutator = 0, cShared = ssq_init value, cObserver = 0\<rparr>"

definition cell_push :: "'w list \<Rightarrow> 'w cell \<Rightarrow> 'w cell" where
  "cell_push v c = (case push v (cMutator c) (cShared c) of (seq, q) \<Rightarrow> c\<lparr>cMutator := seq, cShared := q\<rparr>)"

definition cell_poll :: "'w cell \<Rightarrow> 'w list option \<times> 'w cell" where
  "cell_poll c =
     (case poll (cObserver c) (cShared c) of
        (None, q) \<Rightarrow> (None, c\<lparr>cShared := q\<rparr>)
      | (Some (seq, v), q) \<Rightarrow> (Some v, c\<lparr>cShared := q, cObserver := seq\<rparr>))"

definition cell_done :: "'w cell \<Rightarrow> 'w cell" where
  "cell_done c = c\<lparr>cShared := ssq_done (cShared c)\<rparr>"

definition cell_ack :: "'w cell \<Rightarrow> ssq_status" where
  "cell_ack c = ack (cMutator c) (cShared c)"

text \<open>
  The contract: the number of values pushed since the last poll, the value, whether it was
  acted upon; within \<open>2^31\<close> pushes the status is exact and a poll gets the last value.
\<close>

locale state_cell =
  fixes put :: "'v \<Rightarrow> 's \<Rightarrow> 's" and get :: "'s \<Rightarrow> 'v option \<times> 's" and fin :: "'s \<Rightarrow> 's"
    and status :: "'s \<Rightarrow> ssq_status" and okay :: "'s \<Rightarrow> bool" and fits :: "'s \<Rightarrow> 'v \<Rightarrow> bool"
    and unseen :: "'s \<Rightarrow> nat" and content :: "'s \<Rightarrow> 'v" and acted :: "'s \<Rightarrow> bool"
  assumes put_ok: "okay s \<Longrightarrow> fits s v \<Longrightarrow> Suc (unseen s) < 2 ^ 31 \<Longrightarrow> okay (put v s) \<and> unseen (put v s) = Suc (unseen s) \<and>
      content (put v s) = v \<and> (\<forall>u. fits (put v s) u = fits s u)"
    and get_none: "okay s \<Longrightarrow> unseen s = 0 \<Longrightarrow> get s = (None, s)"
    and get_some: "okay s \<Longrightarrow> 0 < unseen s \<Longrightarrow> unseen s < 2 ^ 31 \<Longrightarrow>
      \<exists>s'. get s = (Some (content s), s') \<and> okay s' \<and> unseen s' = 0 \<and> content s' = content s \<and>
        \<not> acted s' \<and> (\<forall>u. fits s' u = fits s u)"
    and fin_ok: "okay s \<Longrightarrow> \<not> acted s \<Longrightarrow> okay (fin s) \<and> unseen (fin s) = unseen s \<and>
      content (fin s) = content s \<and> acted (fin s) \<and> (\<forall>u. fits (fin s) u = fits s u)"
    and status_unseen: "okay s \<Longrightarrow> 0 < unseen s \<Longrightarrow> unseen s < 2 ^ 31 \<Longrightarrow> status s = SSQ_PENDING"
    and status_seen: "okay s \<Longrightarrow> unseen s = 0 \<Longrightarrow> status s = (if acted s then SSQ_DONE else SSQ_READ)"
begin

text \<open>Of any number of pushes a poll gets the last.\<close>

lemma fold_put:
  "okay s \<Longrightarrow> list_all (fits s) vs \<Longrightarrow> unseen s + length vs < 2 ^ 31 \<Longrightarrow> okay (fold put vs s) \<and> unseen (fold put vs s) = unseen s + length vs"
proof (induction vs arbitrary: s)
  case (Cons v vs)
  have "list_all (fits (put v s)) vs" using Cons.prems put_ok [of s v] by (auto simp: list_all_iff)
  then show ?case using Cons.IH [of "put v s"] Cons.prems put_ok [of s v] by auto
qed simp

lemma fold_put_fits:
  "okay s \<Longrightarrow> list_all (fits s) vs \<Longrightarrow> unseen s + length vs < 2 ^ 31 \<Longrightarrow> fits (fold put vs s) u = fits s u"
proof (induction vs arbitrary: s)
  case (Cons v vs)
  have "list_all (fits (put v s)) vs" using Cons.prems put_ok [of s v] by (auto simp: list_all_iff)
  then show ?case using Cons.IH [of "put v s"] Cons.prems put_ok [of s v] by auto
qed simp

lemma last_put_wins:
  assumes "okay s" "list_all (fits s) (vs @ [v])" "unseen s + length vs + 1 < 2 ^ 31"
  shows "fst (get (put v (fold put vs s))) = Some v"
proof -
  have fold: "okay (fold put vs s)" "unseen (fold put vs s) = unseen s + length vs" "fits (fold put vs s) v"
    using fold_put [of s vs] fold_put_fits [of s vs v] assms by auto
  have "okay (put v (fold put vs s))" "unseen (put v (fold put vs s)) = Suc (unseen (fold put vs s))"
      "content (put v (fold put vs s)) = v"
    using put_ok [OF fold(1,3)] fold(2) assms(3) by auto
  then show ?thesis using get_some [of "put v (fold put vs s)"] assms(3) fold(2) by auto
qed

text \<open>The status follows the life of a value.\<close>

lemma status_life:
  assumes "okay s" "fits s v" "unseen s + 1 < 2 ^ 31"
  shows "status (put v s) = SSQ_PENDING"
    and "status (snd (get (put v s))) = SSQ_READ"
    and "status (fin (snd (get (put v s)))) = SSQ_DONE"
proof -
  have put: "okay (put v s)" "unseen (put v s) = Suc (unseen s)" "content (put v s) = v"
    using put_ok [OF assms(1,2)] assms(3) by auto
  obtain s' where get: "get (put v s) = (Some v, s')" "okay s'" "unseen s' = 0" "\<not> acted s'"
    using get_some [of "put v s"] put assms(3) by auto
  note fin = fin_ok [OF get(2,4)]
  show "status (put v s) = SSQ_PENDING" using put status_unseen [of "put v s"] assms(3) by simp
  show "status (snd (get (put v s))) = SSQ_READ" using get status_seen [of s'] by simp
  show "status (fin (snd (get (put v s)))) = SSQ_DONE" using get fin status_seen [of "fin s'"] by simp
qed

text \<open>A value that waits is delivered by the next poll, and then acted upon.\<close>

lemma delivered:
  assumes "okay s" "0 < unseen s" "unseen s < 2 ^ 31"
  obtains s' where "get s = (Some (content s), s')" "okay (fin s')" "unseen (fin s') = 0" "acted (fin s')"
    "status (fin s') = SSQ_DONE" "fits (fin s') u = fits s u"
proof -
  obtain s' where get: "get s = (Some (content s), s')" "okay s'" "unseen s' = 0" "\<not> acted s'" "fits s' u = fits s u"
    using get_some [OF assms] by blast
  note fin = fin_ok [OF get(2,4)]
  then show thesis using that get status_seen [of "fin s'"] by auto
qed

end


text \<open>The contract holds for the queue.\<close>

definition cell_okay :: "'w cell \<Rightarrow> bool" where
  "cell_okay c \<longleftrightarrow> cMutator c = mSequence (cShared c) \<and> mSequence (cShared c) AND 1 = 0 \<and>
     cObserver c AND 1 = 0 \<and> (mAck (cShared c) = cObserver c \<or> mAck (cShared c) = cObserver c + 1)"

definition cell_fits :: "'w cell \<Rightarrow> 'w list \<Rightarrow> bool" where
  "cell_fits c v \<longleftrightarrow> length v = length (mValue (cShared c))"

definition cell_unseen :: "'w cell \<Rightarrow> nat" where
  "cell_unseen c = unat (mSequence (cShared c) - cObserver c) div 2"

definition cell_content :: "'w cell \<Rightarrow> 'w list" where
  "cell_content c = mValue (cShared c)"

definition cell_acted :: "'w cell \<Rightarrow> bool" where
  "cell_acted c \<longleftrightarrow> mAck (cShared c) AND 1 \<noteq> 0"

lemmas cell_abstraction = cell_okay_def cell_fits_def cell_unseen_def cell_content_def cell_acted_def
lemmas cell_operations = cell_push_def cell_poll_def cell_done_def cell_ack_def


lemma and_one_even: "(w :: u32) AND 1 = 0 \<longleftrightarrow> even w"
  by (simp add: and_one_eq even_iff_mod_2_eq_zero)

lemma even_unat: "even (unat (w :: u32)) \<longleftrightarrow> even w"
  using even_of_nat [of "unat w", where 'a = u32] by simp

lemma and_not_one: "(w :: u32) AND NOT 1 = 0 \<longleftrightarrow> w = 0 \<or> w = 1"
proof
  assume "w AND NOT 1 = 0"
  then have "\<not> bit (w AND NOT 1) n" for n by simp
  then have high: "\<not> bit w n" if "n \<noteq> 0" for n
    using that bit_imp_le_length [of w n] by (auto simp: bit_and_iff bit_not_iff bit_1_iff)
  have "w = of_bool (bit w 0)"
    by (rule bit_word_eqI) (use high in \<open>simp add: bit_simps, metis\<close>)
  then show "w = 0 \<or> w = 1" by (metis of_bool_eq(1,2))
qed auto

lemmas and_minus_two = and_not_one [simplified]

lemma cell_init_okay: "cell_okay (cell_init v)"
  by (simp add: cell_okay_def cell_init_def ssq_init_def)

lemma unat_plus_two: "unat (d :: u32) div 2 + 1 < 2 ^ 31 \<Longrightarrow> even d \<Longrightarrow> unat (d + 2) div 2 = Suc (unat d div 2)"
proof -
  assume "unat d div 2 + 1 < 2 ^ 31" "even d"
  then have "unat d + 2 < 2 ^ 32" using even_unat [of d] by auto
  then have "unat (d + 2) = unat d + 2" by (subst unat_add_lem [THEN iffD1]) auto
  then show ?thesis by simp
qed

lemma cell_push_okay:
  assumes "cell_okay s" "cell_fits s v" "Suc (cell_unseen s) < 2 ^ 31"
  shows "cell_okay (cell_push v s)" "cell_unseen (cell_push v s) = Suc (cell_unseen s)"
    "cell_content (cell_push v s) = v" "cell_fits (cell_push v s) u = cell_fits s u"
proof -
  have push: "cell_push v s = s\<lparr>cMutator := cMutator s + 2,
      cShared := (cShared s)\<lparr>mSequence := cMutator s + 2, mValue := v\<rparr>\<rparr>"
    using assms(2) by (simp add: cell_push_def push_value cell_fits_def)
  have even: "even (mSequence (cShared s) - cObserver s)" "cMutator s = mSequence (cShared s)"
    using assms(1) by (simp_all add: cell_okay_def and_one_even)
  have "unat (mSequence (cShared s) - cObserver s + 2) div 2 = Suc (cell_unseen s)"
    using assms(3) even unat_plus_two [of "mSequence (cShared s) - cObserver s"] by (simp add: cell_unseen_def)
  then show "cell_unseen (cell_push v s) = Suc (cell_unseen s)"
    by (simp add: push cell_unseen_def even algebra_simps)
  show "cell_okay (cell_push v s)" using assms(1) by (simp add: push cell_okay_def and_one_even)
  show "cell_content (cell_push v s) = v" by (simp add: push cell_content_def)
  show "cell_fits (cell_push v s) u = cell_fits s u" using assms(2) by (simp add: push cell_fits_def)
qed

lemma cell_unseen_bound: "cell_unseen s < 2 ^ 31"
  using unsigned_less [of "mSequence (cShared s) - cObserver s", where 'a = nat] by (simp add: cell_unseen_def)

lemma cell_unseen_0:
  assumes "cell_okay s"
  shows "cell_unseen s = 0 \<longleftrightarrow> mSequence (cShared s) = cObserver s"
proof -
  have "even (unat (mSequence (cShared s) - cObserver s))"
    using assms by (simp add: even_unat cell_okay_def and_one_even)
  then have "cell_unseen s = 0 \<longleftrightarrow> unat (mSequence (cShared s) - cObserver s) = 0"
    by (auto simp: cell_unseen_def elim: evenE)
  then show ?thesis by (simp add: unat_eq_0)
qed

lemma cell_poll_okay:
  assumes "cell_okay s"
  shows "cell_poll s = (if cell_unseen s = 0 then (None, s)
    else (Some (cell_content s), s\<lparr>cObserver := mSequence (cShared s),
            cShared := (cShared s)\<lparr>mAck := mSequence (cShared s)\<rparr>\<rparr>))"
proof -
  have "mSequence (cShared s) AND 1 = 0" using assms by (simp add: cell_okay_def)
  then show ?thesis by (simp add: cell_poll_def poll_even cell_unseen_0 [OF assms] cell_content_def)
qed

lemma cell_ack_okay:
  assumes "cell_okay s"
  shows "cell_ack s = (if cell_unseen s \<noteq> 0 then SSQ_PENDING else if cell_acted s then SSQ_DONE else SSQ_READ)"
proof (cases "cell_unseen s = 0")
  case True
  then show ?thesis using assms by (auto simp: cell_unseen_0 cell_ack_def ack_def cell_okay_def cell_acted_def)
next
  case False
  have even: "even (mSequence (cShared s))" "even (cObserver s)"
    using assms by (simp_all add: cell_okay_def and_one_even)
  have "odd (cObserver s + 1)" using even by simp
  then have "mAck (cShared s) - mSequence (cShared s) \<noteq> 0"
    using assms False even by (metis cell_unseen_0 cell_okay_def eq_iff_diff_eq_0)
  moreover have "mAck (cShared s) - mSequence (cShared s) \<noteq> 1"
    using assms False even by (auto simp: cell_unseen_0 cell_okay_def algebra_simps)
  ultimately show ?thesis using assms False by (simp add: cell_ack_def ack_def and_minus_two cell_okay_def)
qed

interpretation ssq: state_cell cell_push cell_poll cell_done cell_ack cell_okay cell_fits cell_unseen
    cell_content cell_acted
proof
  fix s :: "'a cell" and v
  show "cell_okay (cell_push v s) \<and> cell_unseen (cell_push v s) = Suc (cell_unseen s) \<and>
      cell_content (cell_push v s) = v \<and> (\<forall>u. cell_fits (cell_push v s) u = cell_fits s u)"
    if "cell_okay s" "cell_fits s v" "Suc (cell_unseen s) < 2 ^ 31"
    using cell_push_okay [OF that] by blast
next
  fix s :: "'a cell"
  assume ok: "cell_okay s"
  show "cell_poll s = (None, s)" if "cell_unseen s = 0"
    using that cell_poll_okay [OF ok] by simp
  show "\<exists>s'. cell_poll s = (Some (cell_content s), s') \<and> cell_okay s' \<and> cell_unseen s' = 0 \<and>
      cell_content s' = cell_content s \<and> \<not> cell_acted s' \<and> (\<forall>u. cell_fits s' u = cell_fits s u)"
    if "0 < cell_unseen s" "cell_unseen s < 2 ^ 31"
    using that ok cell_poll_okay [OF ok] by (simp add: cell_abstraction)
  show "cell_okay (cell_done s) \<and> cell_unseen (cell_done s) = cell_unseen s \<and>
      cell_content (cell_done s) = cell_content s \<and> cell_acted (cell_done s) \<and>
      (\<forall>u. cell_fits (cell_done s) u = cell_fits s u)" if "\<not> cell_acted s"
    using that ok by (auto simp: cell_abstraction cell_done_def ssq_done_def and_one_even)
  show "cell_ack s = SSQ_PENDING" if "0 < cell_unseen s" "cell_unseen s < 2 ^ 31"
    using that cell_ack_okay [OF ok] by simp
  show "cell_ack s = (if cell_acted s then SSQ_DONE else SSQ_READ)" if "cell_unseen s = 0"
    using that cell_ack_okay [OF ok] by simp
qed

end
