(* ===== verification/StateQueueRuns.thy ===== *)
theory StateQueueRuns
  imports StateQueue
begin

text \<open>
  The mutator and the observer of a \<open>SingleStateQueue\<close> (include/media/SingleStateQueue.h) with
  their accesses interleaved in every order: a push stores the odd sequence number, the words
  one by one and the even number; a poll loads the number, the words and the number again.

  \<open>pushed\<close> (all values from the initial one on), \<open>base\<close> (the number of stores to the sequence number that
  had happened when the observer last loaded it), \<open>begun\<close> (the newest complete value when the
  poll began) and the lists \<open>taken\<close>, \<open>asked\<close> and \<open>returned\<close> of the polls that were
  successful are only recorded.
\<close>

record 'w ssq =
  sh :: "'w shared"
  mut :: u32
  writing :: "('w list \<times> nat) option"
  obs :: u32
  pc :: "'w poll_pc"
  finished :: bool
  pushed :: "'w list list"
  base :: nat
  begun :: nat
  taken :: "nat list"
  asked :: "nat list"
  returned :: "'w list list"

definition ssq_start :: "'w list \<Rightarrow> 'w ssq" where
  "ssq_start v0 = \<lparr>sh = ssq_init v0, mut = 0, writing = None, obs = 0, pc = Idle, finished = False,
     pushed = [v0], base = 0, begun = 0, taken = [], asked = [], returned = []\<rparr>"

definition ticks :: "'w ssq \<Rightarrow> nat" where
  "ticks q = 2 * (length (pushed q) - 1) + (if writing q = None then 0 else 1)"

definition seen :: "'w ssq \<Rightarrow> nat" where
  "seen q = (if taken q = [] then 0 else last (taken q))"

datatype 'w ssq_action =
    Push_open "'w list" | Push_word | Push_close
  | Poll_begin | Poll_turn | Poll_accept | Poll_done

text \<open>Whether the next access of the observer loads the sequence number for another turn.\<close>

definition reloads :: "'w shared \<Rightarrow> 'w poll_pc \<Rightarrow> bool" where
  "reloads q p = (case p of Trying _ before \<Rightarrow> before AND 1 \<noteq> 0 | Copying _ _ temp \<Rightarrow> length temp = length (mValue q)
     | _ \<Rightarrow> False)"

text \<open>One access; \<open>None\<close> where the thread is not at that access.\<close>

fun ssq_exec :: "'w ssq_action \<Rightarrow> 'w ssq \<Rightarrow> 'w ssq option" where
  "ssq_exec (Push_open v) q =
     (if writing q = None \<and> length v = length (mValue (sh q))
      then Some (q\<lparr>sh := push_open (mut q) (sh q), writing := Some (v, 0)\<rparr>) else None)"
| "ssq_exec Push_word q =
     (case writing q of
        Some (v, i) \<Rightarrow> if i < length v then Some (q\<lparr>sh := push_word v i (sh q), writing := Some (v, Suc i)\<rparr>) else None
      | None \<Rightarrow> None)"
| "ssq_exec Push_close q =
     (case writing q of
        Some (v, i) \<Rightarrow>
          if i = length v
          then (case push_close (mut q) (sh q) of (seq, s) \<Rightarrow>
                  Some (q\<lparr>sh := s, mut := seq, writing := None, pushed := pushed q @ [v]\<rparr>))
          else None
      | None \<Rightarrow> None)"
| "ssq_exec Poll_begin q =
     (case pc q of
        Idle \<Rightarrow> Some (q\<lparr>pc := poll_begin (obs q) (sh q), base := ticks q, begun := length (pushed q) - 1\<rparr>)
      | _ \<Rightarrow> None)"
| "ssq_exec Poll_turn q =
     (case pc q of
        Idle \<Rightarrow> None
      | Accepting _ _ \<Rightarrow> None
      | _ \<Rightarrow> Some (q\<lparr>pc := poll_turn (sh q) (pc q), base := (if reloads (sh q) (pc q) then ticks q else base q)\<rparr>))"
| "ssq_exec Poll_accept q =
     (case pc q of
        Accepting before temp \<Rightarrow>
          Some (q\<lparr>sh := poll_accept before (sh q), obs := before, pc := Idle, finished := False,
                 taken := taken q @ [base q div 2], asked := asked q @ [begun q], returned := returned q @ [temp]\<rparr>)
      | _ \<Rightarrow> None)"
| "ssq_exec Poll_done q =
     (if pc q = Idle \<and> taken q \<noteq> [] \<and> \<not> finished q
      then Some (q\<lparr>sh := ssq_done (sh q), finished := True\<rparr>) else None)"

text \<open>
  The observer is never so slow that the sequence number comes round to the same value, that is
  \<open>2^31\<close> pushes, between its two loads.
\<close>

definition in_time :: "'w ssq \<Rightarrow> bool" where
  "in_time q \<longleftrightarrow> ticks q < base q + 2 ^ 32"

inductive ssq_reach :: "'w list \<Rightarrow> 'w ssq \<Rightarrow> bool" for v0 where
  begun: "ssq_reach v0 (ssq_start v0)"
| step: "ssq_reach v0 q \<Longrightarrow> ssq_exec a q = Some q' \<Longrightarrow> (a = Poll_turn \<Longrightarrow> in_time q) \<Longrightarrow> ssq_reach v0 q'"

section \<open>The invariant\<close>

definition pc_inv :: "nat \<Rightarrow> 'w ssq \<Rightarrow> bool" where
  "pc_inv w q = (case pc q of
       Idle \<Rightarrow> True
     | Trying n b \<Rightarrow> n < MAX_TRIES \<and> b = of_nat (base q) \<and> base q \<le> ticks q \<and> 2 * seen q < base q \<and> 2 * begun q \<le> base q
     | Copying n b temp \<Rightarrow> n < MAX_TRIES \<and> b = of_nat (base q) \<and> base q \<le> ticks q \<and> 2 * seen q < base q \<and>
         2 * begun q \<le> base q \<and> even (base q) \<and> length temp \<le> w \<and>
         (ticks q = base q \<longrightarrow> temp = take (length temp) (mValue (sh q)))
     | Accepting b temp \<Rightarrow> b = of_nat (base q) \<and> base q \<le> ticks q \<and> 2 * seen q < base q \<and>
         2 * begun q \<le> base q \<and> even (base q) \<and> base q div 2 < length (pushed q) \<and> temp = pushed q ! (base q div 2))"

definition mem_inv :: "nat \<Rightarrow> 'w ssq \<Rightarrow> bool" where
  "mem_inv w q \<longleftrightarrow> length (mValue (sh q)) = w \<and> pushed q \<noteq> [] \<and>
     mSequence (sh q) = of_nat (ticks q) \<and> mut q = of_nat (2 * (length (pushed q) - 1)) \<and>
     (case writing q of
        None \<Rightarrow> mValue (sh q) = last (pushed q)
      | Some (v, i) \<Rightarrow> length v = w \<and> i \<le> w \<and> take i (mValue (sh q)) = take i v)"

definition log_inv :: "'w ssq \<Rightarrow> bool" where
  "log_inv q \<longleftrightarrow> returned q = map ((!) (pushed q)) (taken q) \<and> sorted_wrt (<) (taken q) \<and>
     list_all (\<lambda>i. i < length (pushed q)) (taken q) \<and> list_all2 (\<le>) (asked q) (taken q) \<and>
     obs q = of_nat (2 * seen q) \<and> mAck (sh q) = of_nat (2 * seen q + (if finished q then 1 else 0))"

definition ssq_inv :: "nat \<Rightarrow> 'w ssq \<Rightarrow> bool" where
  "ssq_inv w q \<longleftrightarrow> mem_inv w q \<and> log_inv q \<and> pc_inv w q"

lemma seen_less: "log_inv q \<Longrightarrow> pushed q \<noteq> [] \<Longrightarrow> seen q < length (pushed q)"
  by (auto simp: log_inv_def seen_def list_all_iff)

lemma even_of_nat_u32: "(of_nat n :: u32) AND 1 = 0 \<longleftrightarrow> even n"
  by (simp add: and_one_even)

lemma ssq_inv_start: "ssq_inv (length v0) (ssq_start v0)"
  by (simp add: ssq_inv_def mem_inv_def log_inv_def pc_inv_def ssq_start_def ssq_init_def ticks_def seen_def)

lemma inv_push_open:
  assumes "ssq_exec (Push_open v) q = Some q'" "ssq_inv w q"
  shows "ssq_inv w q'"
proof -
  have q': "writing q = None" "length v = length (mValue (sh q))"
      "q' = q\<lparr>sh := push_open (mut q) (sh q), writing := Some (v, 0)\<rparr>"
    using assms(1) by (auto split: if_splits)
  have ticks: "ticks q' = Suc (ticks q)" "seen q' = seen q" using q' by (simp_all add: ticks_def seen_def)
  have "mem_inv w q'" using assms(2) q' ticks by (auto simp: ssq_inv_def mem_inv_def push_open_def ticks_def)
  moreover have "log_inv q'" using assms(2) q' ticks by (auto simp: ssq_inv_def log_inv_def push_open_def)
  moreover have "pc_inv w q'"
    using assms(2) q' ticks by (auto simp: ssq_inv_def pc_inv_def push_open_def split: poll_pc.splits)
  ultimately show ?thesis by (simp add: ssq_inv_def)
qed

lemma take_list_update_Suc:
  "i < length xs \<Longrightarrow> i < length v \<Longrightarrow> take i xs = take i v \<Longrightarrow> take (Suc i) (xs[i := v ! i]) = take (Suc i) v"
  by (simp add: take_Suc_conv_app_nth)

lemma inv_push_word:
  assumes "ssq_exec Push_word q = Some q'" "ssq_inv w q"
  shows "ssq_inv w q'"
proof -
  obtain v i where q': "writing q = Some (v, i)" "i < length v"
      "q' = q\<lparr>sh := push_word v i (sh q), writing := Some (v, Suc i)\<rparr>"
    using assms(1) by (auto split: if_splits option.splits)
  have ticks: "ticks q' = ticks q" "seen q' = seen q" "odd (ticks q)"
    using q' by (simp_all add: ticks_def seen_def)
  have "mem_inv w q'" using assms(2) q' ticks(1)
    by (auto simp: ssq_inv_def mem_inv_def push_word_def take_list_update_Suc)
  moreover have "log_inv q'" using assms(2) q' ticks by (auto simp: ssq_inv_def log_inv_def push_word_def)
  moreover have "pc_inv w q'"
    using assms(2) q' ticks by (auto simp: ssq_inv_def pc_inv_def push_word_def split: poll_pc.splits)
  ultimately show ?thesis by (simp add: ssq_inv_def)
qed

lemma inv_push_close:
  assumes "ssq_exec Push_close q = Some q'" "ssq_inv w q"
  shows "ssq_inv w q'"
proof -
  obtain v i where q': "writing q = Some (v, i)" "i = length v"
      "q' = q\<lparr>sh := snd (push_close (mut q) (sh q)), mut := fst (push_close (mut q) (sh q)), writing := None,
         pushed := pushed q @ [v]\<rparr>"
    using assms(1) by (auto split: if_splits option.splits prod.splits)
  have ne: "pushed q \<noteq> []" using assms(2) by (simp add: ssq_inv_def mem_inv_def)
  then obtain n where n: "length (pushed q) = Suc n" by (cases "pushed q") auto
  have ticks: "ticks q' = Suc (ticks q)" "seen q' = seen q"
    using q' ne n by (simp_all add: ticks_def seen_def)
  have mem: "mem_inv w q" using assms(2) by (simp add: ssq_inv_def)
  then have "length (mValue (sh q)) = w \<and> length v = w \<and> take i (mValue (sh q)) = take i v"
    unfolding mem_inv_def q'(1) by simp
  then have whole: "mValue (sh q) = v" "length v = w" unfolding q'(2) by (metis order_refl take_all, blast)
  have seq: "mut q = of_nat (2 * n)" using mem n by (simp add: mem_inv_def)
  have "mem_inv w q'" unfolding mem_inv_def ticks_def
    using whole n by (simp add: q'(3) push_close_def seq)
  moreover have "log_inv q'" using assms(2) q' ticks
    by (auto simp: ssq_inv_def log_inv_def push_close_def list_all_iff nth_append)
  moreover have "pc_inv w q'"
    using assms(2) q' ticks by (auto simp: ssq_inv_def pc_inv_def push_close_def nth_append split: poll_pc.splits)
  ultimately show ?thesis by (simp add: ssq_inv_def)
qed


lemma mem_inv_cong:
  "mValue (sh q') = mValue (sh q) \<Longrightarrow> mSequence (sh q') = mSequence (sh q) \<Longrightarrow> mut q' = mut q \<Longrightarrow>
   writing q' = writing q \<Longrightarrow> pushed q' = pushed q \<Longrightarrow> mem_inv w q' = mem_inv w q"
  by (cases "writing q") (auto simp: mem_inv_def ticks_def)

lemma inv_poll_begin:
  assumes "ssq_exec Poll_begin q = Some q'" "ssq_inv w q"
  shows "ssq_inv w q'"
proof -
  have q': "pc q = Idle"
      "q' = q\<lparr>pc := poll_begin (obs q) (sh q), base := ticks q, begun := length (pushed q) - 1\<rparr>"
    using assms(1) by (auto split: poll_pc.splits)
  have same: "ticks q' = ticks q" "seen q' = seen q" using q' by (simp_all add: ticks_def seen_def)
  have inv: "mem_inv w q" "log_inv q" using assms(2) by (simp_all add: ssq_inv_def)
  have le: "2 * seen q \<le> ticks q" "2 * (length (pushed q) - 1) \<le> ticks q"
    using seen_less [OF inv(2)] inv(1) by (auto simp: mem_inv_def ticks_def)
  have "pc_inv w q'"
  proof (cases "mSequence (sh q) = obs q")
    case False
    then have "ticks q \<noteq> 2 * seen q" using inv by (auto simp: mem_inv_def log_inv_def)
    then show ?thesis using le inv(1) same False q'(2)
      by (simp add: pc_inv_def poll_begin_def MAX_TRIES_def mem_inv_def)
  qed (simp add: q' pc_inv_def poll_begin_def)
  moreover have "mem_inv w q'" using inv(1) mem_inv_cong [of q' q w] q'(2) by simp
  moreover have "log_inv q'" using inv(2) same by (simp add: q' log_inv_def)
  ultimately show ?thesis by (simp add: ssq_inv_def)
qed

text \<open>A number that came up again is the same store, when the observer was in time.\<close>

lemma same_store:
  assumes "of_nat (ticks q) = (of_nat (base q) :: u32)" "base q \<le> ticks q" "in_time q"
  shows "ticks q = base q"
proof -
  obtain d where d: "ticks q = base q + d" using assms(2) le_Suc_ex by blast
  then have "(of_nat d :: u32) = 0" using assms(1) by simp
  then have "2 ^ 32 dvd d" by (simp add: word_of_nat_eq_0_iff)
  then show ?thesis using assms(3) d by (auto simp: in_time_def dest: dvd_imp_le)
qed

lemma inv_poll_turn:
  assumes "ssq_exec Poll_turn q = Some q'" "in_time q" "ssq_inv w q"
  shows "ssq_inv w q'"
proof -
  have q': "q' = q\<lparr>pc := poll_turn (sh q) (pc q), base := (if reloads (sh q) (pc q) then ticks q else base q)\<rparr>"
    and p: "pc q \<noteq> Idle" "\<And>b t. pc q \<noteq> Accepting b t"
    using assms(1) by (auto split: poll_pc.splits)
  have inv: "mem_inv w q" "log_inv q" "pc_inv w q" using assms(3) by (simp_all add: ssq_inv_def)
  have same: "ticks q' = ticks q" "seen q' = seen q" using q' by (simp_all add: ticks_def seen_def)
  have len: "length (mValue (sh q)) = w" and seq: "mSequence (sh q) = of_nat (ticks q)"
    using inv(1) by (simp_all add: mem_inv_def)
  have again: "pc_inv w q'" if "pc q' = try_again n (mSequence (sh q))" "base q' = ticks q"
      "2 * seen q < ticks q" "2 * begun q \<le> ticks q" for n
    using that same q' seq by (auto simp: pc_inv_def try_again_def)
  have "pc_inv w q'"
  proof (cases "pc q")
    case (Trying n b)
    show ?thesis
    proof (cases "b AND 1 = 0")
      case True
      then have "even (base q)" using inv(3) Trying by (simp add: pc_inv_def even_of_nat_u32)
      then show ?thesis using Trying True inv(3) same by (simp add: q' pc_inv_def reloads_def)
    next
      case False
      then show ?thesis using Trying inv(3) by (intro again [of n]) (auto simp: q' pc_inv_def reloads_def)
    qed
  next
    case (Copying n b temp)
    have c: "n < MAX_TRIES" "b = of_nat (base q)" "base q \<le> ticks q" "2 * seen q < base q" "2 * begun q \<le> base q"
        "even (base q)" "length temp \<le> w" "ticks q = base q \<Longrightarrow> temp = take (length temp) (mValue (sh q))"
      using inv(3) Copying by (simp_all add: pc_inv_def)
    consider "length temp < w" | "length temp = w" "mSequence (sh q) = b" | "length temp = w" "mSequence (sh q) \<noteq> b"
      using c(7) by linarith
    then show ?thesis
    proof cases
      case 1
      then have "temp @ [mValue (sh q) ! length temp] = take (Suc (length temp)) (mValue (sh q))"
        if "ticks q = base q" using c(8) [OF that] len by (metis take_Suc_conv_app_nth)
      then show ?thesis using 1 Copying c same len by (simp add: q' pc_inv_def reloads_def)
    next
      case 2
      then have tick: "ticks q = base q" using same_store [of q] c(2,3) seq assms(2) by simp
      have idle: "writing q = None"
      proof (rule ccontr)
        assume "writing q \<noteq> None"
        then have "odd (ticks q)" by (simp add: ticks_def)
        then show False using tick c(6) by simp
      qed
      have "mValue (sh q) = last (pushed q)" using inv(1) idle by (simp add: mem_inv_def)
      then have "temp = last (pushed q)" using c(8) [OF tick] 2(1) len by simp
      moreover have "base q div 2 = length (pushed q) - 1" using tick idle by (simp add: ticks_def)
      moreover have "pushed q \<noteq> []" using inv(1) by (simp add: mem_inv_def)
      ultimately show ?thesis using 2 Copying c same len tick
        by (simp add: q' pc_inv_def reloads_def last_conv_nth)
    next
      case 3
      then show ?thesis using Copying c len by (intro again [of n]) (auto simp: q' reloads_def)
    qed
  qed (use p in auto)
  moreover have "mem_inv w q'" using inv(1) mem_inv_cong [of q' q w] q' by simp
  moreover have "log_inv q'" using inv(2) same by (simp add: q' log_inv_def)
  ultimately show ?thesis by (simp add: ssq_inv_def)
qed

lemma sorted_wrt_last: "sorted_wrt (<) xs \<Longrightarrow> i \<in> set xs \<Longrightarrow> i \<le> (last xs :: nat)"
  by (induction xs) (auto intro: less_imp_le)

lemma inv_poll_accept:
  assumes "ssq_exec Poll_accept q = Some q'" "ssq_inv w q"
  shows "ssq_inv w q'"
proof -
  obtain b temp where p: "pc q = Accepting b temp"
      and q': "q' = q\<lparr>sh := poll_accept b (sh q), obs := b, pc := Idle, finished := False,
         taken := taken q @ [base q div 2], asked := asked q @ [begun q], returned := returned q @ [temp]\<rparr>"
    using assms(1) by (auto split: poll_pc.splits)
  have inv: "mem_inv w q" "log_inv q" "pc_inv w q" using assms(2) by (simp_all add: ssq_inv_def)
  have c: "b = of_nat (base q)" "2 * seen q < base q" "2 * begun q \<le> base q" "even (base q)"
      "base q div 2 < length (pushed q)" "temp = pushed q ! (base q div 2)"
    using inv(3) p by (simp_all add: pc_inv_def)
  have even: "2 * (base q div 2) = base q" using c(4) by simp
  have new: "i < base q div 2" if "i \<in> set (taken q)" for i
  proof -
    have "i \<le> last (taken q)"
      using that inv(2) sorted_wrt_last [of "taken q" i] by (simp add: log_inv_def)
    then show ?thesis using that c(2) even by (auto simp: seen_def split: if_splits)
  qed
  have "seen q' = base q div 2" by (simp add: q' seen_def)
  moreover have "list_all2 (\<le>) (asked q @ [begun q]) (taken q @ [base q div 2])"
    using inv(2) c(3) even by (intro list_all2_appendI) (auto simp: log_inv_def)
  moreover have "sorted_wrt (<) (taken q @ [base q div 2])"
    using inv(2) new by (auto simp: log_inv_def sorted_wrt_append)
  ultimately have "log_inv q'" using inv(2) c even
    by (simp add: log_inv_def) (simp add: q' poll_accept_def)
  moreover have "mem_inv w q'" using inv(1) mem_inv_cong [of q' q w] by (simp add: q' poll_accept_def)
  moreover have "pc_inv w q'" by (simp add: q' pc_inv_def)
  ultimately show ?thesis by (simp add: ssq_inv_def)
qed

lemma inv_poll_done:
  assumes "ssq_exec Poll_done q = Some q'" "ssq_inv w q"
  shows "ssq_inv w q'"
proof -
  have q': "q' = q\<lparr>sh := ssq_done (sh q), finished := True\<rparr>" "pc q = Idle" "\<not> finished q"
    using assms(1) by (auto split: if_splits)
  have inv: "mem_inv w q" "log_inv q" using assms(2) by (simp_all add: ssq_inv_def)
  have "mem_inv w q'" using inv(1) mem_inv_cong [of q' q w] by (simp add: q'(1) ssq_done_def)
  moreover have "log_inv q'" using inv(2) q'(3) by (simp add: q'(1) log_inv_def ssq_done_def seen_def)
  moreover have "pc_inv w q'" using q' by (simp add: pc_inv_def)
  ultimately show ?thesis by (simp add: ssq_inv_def)
qed

theorem ssq_reach_inv: "ssq_reach v0 q \<Longrightarrow> ssq_inv (length v0) q"
proof (induction rule: ssq_reach.induct)
  case (step q a q')
  then show ?case
    by (cases a) (auto intro: inv_push_open inv_push_word inv_push_close inv_poll_begin inv_poll_turn
        inv_poll_accept inv_poll_done simp del: ssq_exec.simps)
qed (rule ssq_inv_start)


section \<open>What the observer gets\<close>

text \<open>
  C7: However the accesses of the two threads fall, the values that successful polls return are
  values that were pushed, whole; each is newer than the one before, and none is older than the
  newest value that was complete when its poll began. (The poll must not be so slow that
  \<open>2^31\<close> pushes fall between its two loads of the sequence number.)
\<close>

theorem polls_return_pushes:
  assumes "ssq_reach v0 q"
  shows "returned q = map ((!) (pushed q)) (taken q) \<and> list_all (\<lambda>i. i < length (pushed q)) (taken q) \<and>
    sorted_wrt (<) (taken q) \<and> list_all2 (\<le>) (asked q) (taken q)"
  using ssq_reach_inv [OF assms] by (simp add: ssq_inv_def log_inv_def)

text \<open>A run as a list of actions.\<close>

fun ssq_run :: "'w ssq_action list \<Rightarrow> 'w ssq \<Rightarrow> 'w ssq option" where
  "ssq_run [] q = Some q"
| "ssq_run (a # as) q = do { q' \<leftarrow> ssq_exec a q; ssq_run as q' }"

fun turns_in_time :: "'w ssq_action list \<Rightarrow> 'w ssq \<Rightarrow> bool" where
  "turns_in_time [] q = True"
| "turns_in_time (a # as) q =
     ((a = Poll_turn \<longrightarrow> in_time q) \<and> (case ssq_exec a q of None \<Rightarrow> True | Some q' \<Rightarrow> turns_in_time as q'))"

lemma ssq_run_reach:
  "ssq_run as q = Some q' \<Longrightarrow> turns_in_time as q \<Longrightarrow> ssq_reach v0 q \<Longrightarrow> ssq_reach v0 q'"
proof (induction as arbitrary: q)
  case (Cons a as)
  then obtain q1 where "ssq_exec a q = Some q1" "ssq_run as q1 = Some q'" by (auto split: bind_splits)
  then show ?case using Cons by (auto intro: ssq_reach.step)
qed simp

text \<open>A poll that a push overtakes copies half of each value and tries again.\<close>

definition torn_run :: "nat ssq_action list" where
  "torn_run = [Push_open [1, 2], Push_word, Push_word, Push_close, Poll_begin, Poll_turn, Poll_turn,
     Push_open [3, 4], Push_word, Push_word, Push_close, Poll_turn, Poll_turn,
     Poll_turn, Poll_turn, Poll_turn, Poll_turn, Poll_accept, Poll_done]"

lemma turns_in_time_small:
  "ticks q + length as < 2 ^ 32 \<Longrightarrow> turns_in_time as q"
proof (induction as arbitrary: q)
  case (Cons a as)
  have "ticks q' \<le> Suc (ticks q)" if "ssq_exec a q = Some q'" for q'
    using that by (cases a) (auto simp: ticks_def push_close_def split: if_splits option.splits poll_pc.splits)
  then show ?case using Cons by (fastforce simp: in_time_def split: option.splits)
qed simp

lemma torn_run_reaches:
  obtains q where "ssq_reach [0, 0 :: nat] q" "returned q = [[3, 4]]" "taken q = [2]" "asked q = [1]"
    "ack (mut q) (sh q) = SSQ_DONE" "pushed q = [[0, 0], [1, 2], [3, 4]]"
proof -
  have "map_option (\<lambda>q. (returned q, taken q, asked q, ack (mut q) (sh q), pushed q))
      (ssq_run torn_run (ssq_start [0, 0])) = Some ([[3, 4]], [2], [1], SSQ_DONE, [[0, 0], [1, 2], [3, 4]])"
    by code_simp
  then obtain q where run: "ssq_run torn_run (ssq_start [0, 0]) = Some q"
    and q: "returned q = [[3, 4]]" "taken q = [2]" "asked q = [1]" "ack (mut q) (sh q) = SSQ_DONE"
      "pushed q = [[0, 0], [1, 2], [3, 4]]"
    by auto
  have "turns_in_time torn_run (ssq_start [0, 0])"
    by (rule turns_in_time_small) (simp add: torn_run_def ticks_def ssq_start_def)
  then show thesis using that ssq_run_reach [OF run _ ssq_reach.begun] q by blast
qed

theorem polls_return_pushes_witness:
  "\<exists>q. ssq_reach [0, 0 :: nat] q \<and> returned q = [[3, 4]] \<and> returned q = map ((!) (pushed q)) (taken q) \<and>
     sorted_wrt (<) (taken q) \<and> list_all2 (\<le>) (asked q) (taken q)"
proof -
  obtain q where "ssq_reach [0, 0 :: nat] q" "returned q = [[3, 4]]" by (rule torn_run_reaches)
  then show ?thesis using polls_return_pushes by blast
qed

text \<open>
  \<open>ack()\<close> tells the mutator exactly how far its last push has come, read and acted upon or
  not, as long as fewer than \<open>2^31\<close> pushes were overwritten unread.
\<close>

theorem ack_of_last_push:
  assumes "ssq_reach v0 q" "length (pushed q) - 1 - seen q < 2 ^ 31"
  shows "ack (mut q) (sh q) =
    (if seen q < length (pushed q) - 1 then SSQ_PENDING else if finished q then SSQ_DONE else SSQ_READ)"
proof -
  have inv: "mem_inv (length v0) q" "log_inv q" using ssq_reach_inv [OF assms(1)] by (simp_all add: ssq_inv_def)
  define n where "n = length (pushed q) - 1"
  have le: "seen q \<le> n" using seen_less [OF inv(2)] inv(1) by (auto simp: mem_inv_def n_def)
  have mut: "mut q = of_nat (2 * n)" using inv(1) by (simp add: mem_inv_def n_def)
  define f :: nat where "f = (if finished q then 1 else 0)"
  have mack: "mAck (sh q) = of_nat (2 * seen q + f)" using inv(2) by (simp add: log_inv_def f_def)
  have odd: "mAck (sh q) AND 1 = 0 \<longleftrightarrow> \<not> finished q" by (simp add: mack and_one_even f_def)
  show ?thesis
  proof (cases "seen q = n")
    case True
    then have "mAck (sh q) - mut q = of_nat f" by (simp add: mack mut)
    then show ?thesis using True odd by (simp add: ack_def n_def f_def)
  next
    case False
    define d where "d = n - seen q"
    have d: "n = seen q + d" "0 < d" "d < 2 ^ 31" using False le assms(2) by (auto simp: d_def n_def)
    have "mAck (sh q) - mut q = - of_nat (2 * d - f)"
      using d(2) by (simp add: mack mut d(1) of_nat_diff f_def algebra_simps)
    moreover have "\<not> (2 ^ 32 :: nat) dvd 2 * d - f" using d by (intro nat_dvd_not_less) (auto simp: f_def)
    moreover have "- of_nat (2 * d - f) \<noteq> (1 :: u32)"
    proof
      assume "- of_nat (2 * d - f) = (1 :: u32)"
      then have "(of_nat (2 * d - f) :: u32) + 1 = 0" by (metis add.left_inverse add.inverse_inverse)
      then have "(of_nat (Suc (2 * d - f)) :: u32) = 0" by (simp add: add.commute)
      then have "(2 ^ 32 :: nat) dvd Suc (2 * d - f)" by (simp only: word_of_nat_eq_0_iff) simp
      then have "2 ^ 32 \<le> Suc (2 * d - f)" by (rule dvd_imp_le) simp
      then show False using d(3) by simp
    qed
    ultimately have "(mAck (sh q) - mut q) AND - 2 \<noteq> 0"
      by (simp add: and_minus_two word_of_nat_eq_0_iff)
    then show ?thesis using False le by (simp add: ack_def n_def)
  qed
qed

theorem ack_of_last_push_witness:
  "\<exists>q. ssq_reach [0, 0 :: nat] q \<and> ack (mut q) (sh q) = SSQ_DONE \<and>
     ack (mut q) (sh q) =
       (if seen q < length (pushed q) - 1 then SSQ_PENDING else if finished q then SSQ_DONE else SSQ_READ)"
proof -
  obtain q where q: "ssq_reach [0, 0 :: nat] q" "ack (mut q) (sh q) = SSQ_DONE"
      "pushed q = [[0, 0], [1, 2], [3, 4]]" by (rule torn_run_reaches)
  moreover have "length (pushed q) - 1 - seen q < 2 ^ 31" by (rule le_less_trans [OF diff_le_self]) (simp add: q(3))
  ultimately show ?thesis using ack_of_last_push by metis
qed

lemma poll_left_0: "poll_left w p = 0 \<longleftrightarrow> (case p of Idle \<Rightarrow> True | Accepting _ _ \<Rightarrow> True | _ \<Rightarrow> False)"
  by (cases p) (auto simp: poll_left_def)

lemma poll_turn_left:
  fixes q :: "'w shared"
  assumes "length (mValue q) = w"
  shows "poll_left w (poll_turn q p) \<le> poll_left w p - 1"
proof -
  have again: "poll_left w (try_again n b :: 'w poll_pc) \<le> (w + 3) * (MAX_TRIES - 1 - n)" for n b
    by (auto simp: try_again_def poll_left_def MAX_TRIES_def Suc_diff_Suc simp del: mult_Suc_right)
  have left: "poll_left w (Trying n b :: 'w poll_pc) = (w + 3) * Suc (MAX_TRIES - 1 - n)"
      "poll_left w (Copying n b temp) = (w + 3) * (MAX_TRIES - 1 - n) + (w - length temp) + 2"
      "poll_left w (Accepting b temp) = 0" for n b and temp :: "'w list"
    by (simp_all add: poll_left_def)
  show ?thesis
  proof (cases p)
    case (Trying n b)
    then show ?thesis using again [of n "mSequence q"] by (auto simp: left)
  next
    case (Copying n b temp)
    then show ?thesis using assms again [of n "mSequence q"] by (auto simp: left)
  qed (simp_all add: poll_left_def)
qed

lemma poll_turns_left:
  "list_all (\<lambda>q. length (mValue q) = w) qs \<Longrightarrow> poll_left w (fold poll_turn qs p) \<le> poll_left w p - length qs"
proof (induction qs arbitrary: p)
  case (Cons q qs)
  then have "poll_left w (fold poll_turn qs (poll_turn q p)) \<le> poll_left w (poll_turn q p) - length qs" by simp
  moreover have "poll_left w (poll_turn q p) \<le> poll_left w p - 1" 
    using Cons.prems by (intro poll_turn_left) simp
  ultimately show ?case by simp
qed simp

text \<open>
  A poll is wait-free: whatever the mutator does to the shared memory between its accesses, it
  has returned, or has its value, after five turns through the words.
\<close>

theorem poll_wait_free:
  assumes "list_all (\<lambda>q. length (mValue q) = w) qs" "MAX_TRIES * (w + 3) \<le> length qs"
  shows "case fold poll_turn qs (poll_begin seq q) of Idle \<Rightarrow> True | Accepting _ _ \<Rightarrow> True | _ \<Rightarrow> False"
proof -
  have "poll_left w (poll_begin seq q) \<le> MAX_TRIES * (w + 3)"
    by (simp add: poll_begin_def poll_left_def MAX_TRIES_def)
  then have "poll_left w (fold poll_turn qs (poll_begin seq q)) = 0"
    using poll_turns_left [OF assms(1), of "poll_begin seq q"] assms(2) by simp
  then show ?thesis by (simp only: poll_left_0)
qed

theorem poll_wait_free_witness:
  "case fold poll_turn (replicate 20 \<lparr>mAck = 0, mSequence = 1, mValue = [7 :: nat]\<rparr>)
     (poll_begin 0 \<lparr>mAck = 0, mSequence = 2, mValue = [7]\<rparr>) of Idle \<Rightarrow> True | Accepting _ _ \<Rightarrow> True | _ \<Rightarrow> False"
  by (rule poll_wait_free [where w = 1]) (simp_all add: MAX_TRIES_def list_all_iff)

end
