(* ===== verification/AudioStatic.thy ===== *)
theory AudioStatic
  imports AudioShared StateQueue
begin

text \<open>
  Static tracks of media/libmedia/AudioTrackShared.cpp: the whole sound is in the shared memory, and
  the client sends positions and loops to the server through one \<open>SingleStateQueue\<close>, the
  server its position and the loops that are left through another.

  A queue is a \<open>cell\<close> (theory StateQueue), whose mutator and observer belong to the proxies of
  the two sides. The argument \<open>busy\<close> of an operation says that its poll gives up because every
  try meets a push. \<open>size_t\<close> has 64 bits; the frame counts are \<open>nat\<close>, and
  \<open>mFramesReady\<close> is the 64-bit number of the code.
\<close>

section \<open>The states in the queues\<close>

definition CBLK_LOOP_CYCLE :: u32 where "CBLK_LOOP_CYCLE = 0x20"
definition CBLK_LOOP_FINAL :: u32 where "CBLK_LOOP_FINAL = 0x40"
definition CBLK_BUFFER_END :: u32 where "CBLK_BUFFER_END = 0x80"
definition MIN_LOOP :: nat where "MIN_LOOP = 16"
definition INT64_MAX :: u64 where "INT64_MAX = 0x7fffffffffffffff"
definition SIZE_MAX :: nat where "SIZE_MAX = 0xffffffffffffffff"
definition UINT32_MAX :: int where "UINT32_MAX = 0xffffffff"
definition INT32_MAX :: int where "INT32_MAX = 0x7fffffff"

record static_state =
  mLoopStart :: u32
  mLoopEnd :: u32
  mLoopCount :: u32
  mLoopSequence :: u32
  mPosition :: u32
  mPositionSequence :: u32

definition state_words :: "static_state \<Rightarrow> u32 list" where
  "state_words s = [mLoopStart s, mLoopEnd s, mLoopCount s, mLoopSequence s, mPosition s, mPositionSequence s]"

definition state_of_words :: "u32 list \<Rightarrow> static_state" where
  "state_of_words w = \<lparr>mLoopStart = w ! 0, mLoopEnd = w ! 1, mLoopCount = w ! 2, mLoopSequence = w ! 3,
     mPosition = w ! 4, mPositionSequence = w ! 5\<rparr>"

definition zero_state :: static_state where
  "zero_state = \<lparr>mLoopStart = 0, mLoopEnd = 0, mLoopCount = 0, mLoopSequence = 0, mPosition = 0, mPositionSequence = 0\<rparr>"

record pos_loop =
  mBufferPosition :: u32
  plLoopCount :: u32

definition pos_words :: "pos_loop \<Rightarrow> u32 list" where
  "pos_words p = [mBufferPosition p, plLoopCount p]"

definition pos_of_words :: "u32 list \<Rightarrow> pos_loop" where
  "pos_of_words w = \<lparr>mBufferPosition = w ! 0, plLoopCount = w ! 1\<rparr>"

text \<open>The control block of a static track.\<close>

record static_cblk = cblk +
  mSingleStateQueue :: "u32 cell"
  mPosLoopQueue :: "u32 cell"

definition static_track_cblk :: static_cblk where
  "static_track_cblk =
     cblk.extend audio_track_cblk
       \<lparr>mSingleStateQueue = cell_init (replicate 6 0), mPosLoopQueue = cell_init (replicate 2 0)\<rparr>"

section \<open>The client\<close>

record static_client = client +
  mState :: static_state
  mPosLoop :: pos_loop

definition StaticAudioTrackClientProxy :: "(nat \<Rightarrow> nat) \<Rightarrow> nat \<Rightarrow> nat \<Rightarrow> static_client" where
  "StaticAudioTrackClientProxy roundup frameCount frameSize =
     client.extend (ClientProxy roundup frameCount frameSize True False)
       \<lparr>mState = zero_state, mPosLoop = \<lparr>mBufferPosition = 0, plLoopCount = 0\<rparr>\<rparr>"

definition incrementSequence :: "u32 \<Rightarrow> u32 \<Rightarrow> u32" where
  "incrementSequence self other =
     (let diff = sint (self - other) in if 0 \<le> diff \<and> diff < INT32_MAX then self + 1 else other + 1)"

text \<open>A poll of a queue, which may give up.\<close>

definition try_poll :: "bool \<Rightarrow> 'w cell \<Rightarrow> 'w list option \<times> 'w cell" where
  "try_poll busy c = (if busy then (None, c) else cell_poll c)"

definition getBufferPositionAndLoopCount ::
    "bool \<Rightarrow> static_cblk \<Rightarrow> static_client \<Rightarrow> static_cblk \<times> static_client" where
  "getBufferPositionAndLoopCount busy b c =
     (if cell_ack (mSingleStateQueue b) = SSQ_DONE
      then (case try_poll busy (mPosLoopQueue b) of
              (Some w, q) \<Rightarrow> (b\<lparr>mPosLoopQueue := q\<rparr>, c\<lparr>mPosLoop := pos_of_words w\<rparr>)
            | (None, q) \<Rightarrow> (b\<lparr>mPosLoopQueue := q\<rparr>, c))
      else (b, c))"

definition push_state :: "static_cblk \<Rightarrow> static_client \<Rightarrow> static_cblk \<times> static_client" where
  "push_state b c = (b\<lparr>mSingleStateQueue := cell_push (state_words (mState c)) (mSingleStateQueue b)\<rparr>, c)"

definition setLoop ::
    "bool \<Rightarrow> nat \<Rightarrow> nat \<Rightarrow> u32 \<Rightarrow> static_cblk \<Rightarrow> static_client \<Rightarrow> static_cblk \<times> static_client" where
  "setLoop busy loopStart loopEnd loopCount b c =
     (if UINT32_MAX < int loopStart \<or> UINT32_MAX < int loopEnd then (b, c)
      else
        let c = c\<lparr>mState := (mState c)\<lparr>mLoopStart := of_nat loopStart, mLoopEnd := of_nat loopEnd,
              mLoopCount := loopCount,
              mLoopSequence := incrementSequence (mLoopSequence (mState c)) (mPositionSequence (mState c))\<rparr>\<rparr>;
            (b, c) = getBufferPositionAndLoopCount busy b c;
            p = mPosLoop c;
            p = (if loopCount \<noteq> 0 \<and> mLoopEnd (mState c) \<le> mBufferPosition p
                 then p\<lparr>mBufferPosition := mLoopStart (mState c)\<rparr> else p)
        in push_state b (c\<lparr>mPosLoop := p\<lparr>plLoopCount := loopCount\<rparr>\<rparr>))"

definition setBufferPosition ::
    "bool \<Rightarrow> nat \<Rightarrow> static_cblk \<Rightarrow> static_client \<Rightarrow> static_cblk \<times> static_client" where
  "setBufferPosition busy position b c =
     (if UINT32_MAX < int position then (b, c)
      else
        let c = c\<lparr>mState := (mState c)\<lparr>mPosition := of_nat position,
              mPositionSequence := incrementSequence (mPositionSequence (mState c)) (mLoopSequence (mState c))\<rparr>\<rparr>;
            (b, c) = (if 0 < sint (mLoopCount (mState c)) then getBufferPositionAndLoopCount busy b c else (b, c));
            p = (mPosLoop c)\<lparr>mBufferPosition := of_nat position\<rparr>;
            p = (if unat (mLoopEnd (mState c)) \<le> position then p\<lparr>plLoopCount := 0\<rparr> else p)
        in push_state b (c\<lparr>mPosLoop := p\<rparr>))"

definition setBufferPositionAndLoop ::
    "bool \<Rightarrow> bool \<Rightarrow> nat \<Rightarrow> nat \<Rightarrow> nat \<Rightarrow> u32 \<Rightarrow> static_cblk \<Rightarrow> static_client \<Rightarrow> static_cblk \<times> static_client" where
  "setBufferPositionAndLoop busy busy' position loopStart loopEnd loopCount b c =
     (case setLoop busy loopStart loopEnd loopCount b c of (b, c) \<Rightarrow> setBufferPosition busy' position b c)"

definition getBufferPosition ::
    "bool \<Rightarrow> static_cblk \<Rightarrow> static_client \<Rightarrow> static_cblk \<times> static_client \<times> nat" where
  "getBufferPosition busy b c =
     (case getBufferPositionAndLoopCount busy b c of (b, c) \<Rightarrow> (b, c, unat (mBufferPosition (mPosLoop c))))"

text \<open>\<open>flush\<close> of a static track is fatal.\<close>

definition static_flush :: "static_cblk \<Rightarrow> static_client \<Rightarrow> (static_cblk \<times> static_client) option" where
  "static_flush b c = None"

section \<open>The server\<close>

record static_server = server +
  svState :: static_state
  mFramesReadySafe :: nat
  mFramesReady :: u64
  mFramesReadyIsCalledByMultipleThreads :: bool

definition StaticAudioTrackServerProxy :: "(nat \<Rightarrow> nat) \<Rightarrow> nat \<Rightarrow> nat \<Rightarrow> static_server" where
  "StaticAudioTrackServerProxy roundup frameCount frameSize =
     server.extend (ServerProxy roundup frameCount frameSize True False)
       \<lparr>svState = zero_state, mFramesReadySafe = frameCount, mFramesReady = of_nat frameCount,
        mFramesReadyIsCalledByMultipleThreads = False\<rparr>"

definition framesReadyIsCalledByMultipleThreads :: "static_server \<Rightarrow> static_server" where
  "framesReadyIsCalledByMultipleThreads s = s\<lparr>mFramesReadyIsCalledByMultipleThreads := True\<rparr>"

definition clampToSize :: "u64 \<Rightarrow> nat" where
  "clampToSize x = (if sint x < 0 then 0 else unat x)"

definition updateStateWithLoop :: "nat \<Rightarrow> static_state \<Rightarrow> static_state \<Rightarrow> static_state option" where
  "updateStateWithLoop frameCount localState update =
     (if mLoopSequence localState \<noteq> mLoopSequence update
      then
        let loopStart = unat (mLoopStart update);
            loopEnd = unat (mLoopEnd update);
            position = unat (mPosition localState);
            (valid, position) =
              (if mLoopCount update = 0 then (True, position)
               else if -1 \<le> sint (mLoopCount update)
               then if loopStart < loopEnd \<and> loopEnd \<le> frameCount \<and> MIN_LOOP \<le> loopEnd - loopStart
                    then (True, if loopEnd \<le> position then loopStart else position)
                    else (False, position)
               else (False, position))
        in if \<not> valid \<or> frameCount < position then None
           else Some (localState\<lparr>mPosition := of_nat position, mLoopCount := mLoopCount update,
                  mLoopEnd := of_nat loopEnd, mLoopStart := of_nat loopStart,
                  mLoopSequence := mLoopSequence update\<rparr>)
      else Some localState)"

definition updateStateWithPosition :: "nat \<Rightarrow> static_state \<Rightarrow> static_state \<Rightarrow> static_state option" where
  "updateStateWithPosition frameCount localState update =
     (if mPositionSequence localState \<noteq> mPositionSequence update
      then if frameCount < unat (mPosition update) then None
           else
             let localState = (if mLoopCount localState \<noteq> 0 \<and> mLoopEnd localState \<le> mPosition update
                               then localState\<lparr>mLoopCount := 0\<rparr> else localState)
             in Some (localState\<lparr>mPosition := mPosition update, mPositionSequence := mPositionSequence update\<rparr>)
      else Some localState)"

definition frames_left :: "nat \<Rightarrow> static_state \<Rightarrow> u64 \<Rightarrow> u64" where
  "frames_left frameCount s old =
     (if mLoopCount s = -1 then INT64_MAX
      else if mLoopCount s = 0 then of_nat frameCount - ucast (mPosition s)
      else if 0 < sint (mLoopCount s)
      then scast (mLoopCount s) * ucast (mLoopEnd s - mLoopStart s) + of_nat frameCount - ucast (mPosition s)
      else old)"

definition adopt :: "nat \<Rightarrow> static_state \<Rightarrow> static_state \<Rightarrow> static_state option" where
  "adopt frameCount localState update =
     (if sint (mLoopSequence update - mPositionSequence update) < 0
      then do {
        s \<leftarrow> updateStateWithLoop frameCount localState update;
        updateStateWithPosition frameCount s update }
      else do {
        s \<leftarrow> updateStateWithPosition frameCount localState update;
        updateStateWithLoop frameCount s update })"

text \<open>The server tells its position and the loops that are left.\<close>

definition push_pos :: "static_cblk \<Rightarrow> static_server \<Rightarrow> static_cblk" where
  "push_pos b s =
     b\<lparr>mPosLoopQueue := cell_push (pos_words \<lparr>mBufferPosition = mPosition (svState s),
         plLoopCount = mLoopCount (svState s)\<rparr>) (mPosLoopQueue b)\<rparr>"

definition finish_poll :: "static_cblk \<Rightarrow> static_cblk" where
  "finish_poll b = b\<lparr>mSingleStateQueue := cell_done (mSingleStateQueue b)\<rparr>"

definition pollPosition :: "bool \<Rightarrow> static_cblk \<Rightarrow> static_server \<Rightarrow> static_cblk \<times> static_server \<times> int" where
  "pollPosition busy b s =
     (case try_poll busy (mSingleStateQueue b) of
        (None, q) \<Rightarrow> (b\<lparr>mSingleStateQueue := q\<rparr>, s, uint (mPosition (svState s)))
      | (Some w, q) \<Rightarrow>
          let b = b\<lparr>mSingleStateQueue := q\<rparr> in
          (case adopt (mFrameCount s) (svState s) (state_of_words w) of
             None \<Rightarrow> (finish_poll b, s\<lparr>mIsShutdown := True\<rparr>, NO_INIT)
           | Some st \<Rightarrow>
               let s = s\<lparr>svState := st, mFramesReady := frames_left (mFrameCount s) st (mFramesReady s)\<rparr>;
                   s = s\<lparr>mFramesReadySafe := clampToSize (mFramesReady s)\<rparr>
               in (finish_poll (push_pos b s), s, uint (mPosition st))))"

definition static_framesReady :: "bool \<Rightarrow> static_cblk \<Rightarrow> static_server \<Rightarrow> static_cblk \<times> static_server \<times> nat" where
  "static_framesReady busy b s =
     (if mFramesReadyIsCalledByMultipleThreads s then (b, s, mFramesReadySafe s)
      else case pollPosition busy b s of (b, s, _) \<Rightarrow> (b, s, mFramesReadySafe s))"

definition static_obtain ::
    "bool \<Rightarrow> nat \<Rightarrow> bool \<Rightarrow> static_cblk \<Rightarrow> static_server \<Rightarrow> (static_cblk \<times> static_server \<times> buffer \<times> int) option" where
  "static_obtain busy wanted ackFlush b s =
     (if mIsShutdown s then Some (b, s\<lparr>mUnreleased := 0\<rparr>, no_buffer, NO_INIT)
      else case pollPosition busy b s of (b, s, positionOrStatus) \<Rightarrow>
        if positionOrStatus < 0 then Some (b, s\<lparr>mUnreleased := 0\<rparr>, no_buffer, positionOrStatus)
        else
          let position = nat positionOrStatus;
              limit = (if mLoopCount (svState s) \<noteq> 0 then unat (mLoopEnd (svState s)) else mFrameCount s);
              (avail, raw) =
                (if position < limit
                 then (if limit - position < wanted then limit - position else wanted,
                       Some (position * mFrameSize s))
                 else (0, None))
          in if sint (mFramesReady s) < sint (of_nat avail :: u64) then None
             else Some (b, if ackFlush then s else s\<lparr>mUnreleased := avail\<rparr>,
                    \<lparr>bFrameCount = avail, bRaw = raw,
                     bNonContig = (if mFramesReady s = INT64_MAX then SIZE_MAX
                                   else unat (mFramesReady s - of_nat avail))\<rparr>, OK))"

definition static_release ::
    "nat \<Rightarrow> static_cblk \<Rightarrow> static_server \<Rightarrow> (static_cblk \<times> static_server) option" where
  "static_release stepCount b s =
     (if \<not> sint (of_nat stepCount :: u64) \<le> sint (mFramesReady s) then None
      else if \<not> stepCount \<le> mUnreleased s then None
      else if stepCount = 0 then Some (b, s)
      else
        let st = svState s;
            position = unat (mPosition st);
            newPosition = position + stepCount;
            (newPosition, count, setFlags) =
              (if mFrameCount s < newPosition then (mFrameCount s, mLoopCount st, 0)
               else if mLoopCount st \<noteq> 0 \<and> newPosition = unat (mLoopEnd st)
               then if mLoopCount st = -1 then (unat (mLoopStart st), mLoopCount st, CBLK_LOOP_CYCLE)
                    else (unat (mLoopStart st), mLoopCount st - 1,
                          if mLoopCount st - 1 \<noteq> 0 then CBLK_LOOP_CYCLE else CBLK_LOOP_FINAL)
               else (newPosition, mLoopCount st, 0));
            setFlags = (if newPosition = mFrameCount s then setFlags OR CBLK_BUFFER_END else setFlags);
            s = s\<lparr>mUnreleased := mUnreleased s - stepCount,
                  svState := st\<lparr>mPosition := of_nat newPosition, mLoopCount := count\<rparr>,
                  mFramesReady := (if mFramesReady s \<noteq> INT64_MAX then mFramesReady s - of_nat stepCount
                                   else mFramesReady s)\<rparr>;
            s = s\<lparr>mFramesReadySafe := clampToSize (mFramesReady s)\<rparr>;
            b = push_pos (b\<lparr>mServer := mServer b + of_nat stepCount\<rparr>) s
        in Some (b\<lparr>mFlags := mFlags b OR setFlags\<rparr>, s))"

definition static_tally :: "static_cblk \<Rightarrow> static_cblk" where
  "static_tally b = b\<lparr>mFlags := mFlags b OR CBLK_UNDERRUN\<rparr>"

end
