(* ===== verification/StaticPlayback.thy ===== *)
theory StaticPlayback
  imports AudioStatic
begin

text \<open>
  A static track played by its server (media/libmedia/AudioTrackShared.cpp): the invariant of
  the server under everything a client can write, the frames that are played, and the proof that
  they are the sound with its loop unrolled.
\<close>

section \<open>The invariant of the server\<close>

abbreviation pos :: "static_state \<Rightarrow> nat" where "pos st \<equiv> unat (mPosition st)"
abbreviation lstart :: "static_state \<Rightarrow> nat" where "lstart st \<equiv> unat (mLoopStart st)"
abbreviation lend :: "static_state \<Rightarrow> nat" where "lend st \<equiv> unat (mLoopEnd st)"

definition looping :: "static_state \<Rightarrow> bool" where
  "looping st \<longleftrightarrow> mLoopCount st \<noteq> 0"

text \<open>The position is in the buffer, and in front of the end of the loop while it loops.\<close>

definition state_ok :: "nat \<Rightarrow> static_state \<Rightarrow> bool" where
  "state_ok fc st \<longleftrightarrow> pos st \<le> fc \<and> -1 \<le> sint (mLoopCount st) \<and>
     (looping st \<longrightarrow> lstart st < lend st \<and> lend st \<le> fc \<and> pos st < lend st)"

definition play_limit :: "nat \<Rightarrow> static_state \<Rightarrow> nat" where
  "play_limit fc st = (if looping st then lend st else fc)"

text \<open>The frames that are left where the loop ends.\<close>

definition left :: "nat \<Rightarrow> static_state \<Rightarrow> nat" where
  "left fc st = (if looping st then unat (mLoopCount st) * (lend st - lstart st) else 0) + (fc - pos st)"

definition ready_word :: "nat \<Rightarrow> static_state \<Rightarrow> u64" where
  "ready_word fc st = (if mLoopCount st = -1 then INT64_MAX else of_nat (left fc st))"

definition server_ok :: "static_server \<Rightarrow> bool" where
  "server_ok s \<longleftrightarrow> mFrameCount s < 2 ^ 32 \<and> state_ok (mFrameCount s) (svState s) \<and>
     mFramesReady s = ready_word (mFrameCount s) (svState s)"

text \<open>The frames that are held lie in front of the limit.\<close>

definition holding_ok :: "static_server \<Rightarrow> bool" where
  "holding_ok s \<longleftrightarrow> pos (svState s) + mUnreleased s \<le> play_limit (mFrameCount s) (svState s)"

lemmas server_abstraction = state_ok_def play_limit_def left_def ready_word_def looping_def

lemma sint_nonneg: "0 \<le> sint (w :: 'a :: len word) \<Longrightarrow> uint w = sint w"
proof -
  assume "0 \<le> sint w"
  moreover have "sint w < 2 ^ LENGTH('a)"
    by (rule less_le_trans [OF sint_less]) (simp add: power_increasing)
  ultimately show ?thesis by (simp add: uint_sint take_bit_int_eq_self)
qed

lemma loop_count_unat:
  "-1 \<le> sint (w :: u32) \<Longrightarrow> w \<noteq> -1 \<Longrightarrow> 0 \<le> sint w \<and> sint w = int (unat w) \<and> unat w < 2 ^ 31"
proof -
  assume a: "-1 \<le> sint w" "w \<noteq> -1"
  have "sint w \<noteq> -1" using a(2) by (metis sint_n1 signed_word_eqI)
  then have nonneg: "0 \<le> sint w" using a(1) by simp
  then have "int (unat w) = sint w" by (metis sint_nonneg uint_nat)
  moreover have "sint w < 2147483648" using sint_less [of w] by simp
  ultimately have "sint w = int (unat w) \<and> unat w < 2147483648" by linarith
  then show ?thesis using nonneg by simp
qed

lemma left_bound:
  assumes "state_ok fc st" "fc < 2 ^ 32" "mLoopCount st \<noteq> -1"
  shows "left fc st < 2 ^ 63 - 1"
proof -
  have "unat (mLoopCount st) \<le> 2 ^ 31 - 1"
    using loop_count_unat [of "mLoopCount st"] assms by (auto simp: state_ok_def)
  moreover have "lend st - lstart st \<le> 2 ^ 32 - 1" using unsigned_less [of "mLoopEnd st", where 'a = nat] by simp
  ultimately have "unat (mLoopCount st) * (lend st - lstart st) \<le> (2 ^ 31 - 1) * (2 ^ 32 - 1)"
    by (rule mult_le_mono)
  then show ?thesis using assms(2) by (auto simp: left_def)
qed

lemma sint_of_nat_64: "n < 2 ^ 63 \<Longrightarrow> sint (of_nat n :: u64) = int n"
  by (simp add: signed_of_nat signed_take_bit_int_eq_self)

lemma sint_ready_word:
  assumes "state_ok fc st" "fc < 2 ^ 32"
  shows "sint (ready_word fc st) = (if mLoopCount st = -1 then 2 ^ 63 - 1 else int (left fc st))"
proof (cases "mLoopCount st = -1")
  case True
  have "sint INT64_MAX = 2 ^ 63 - 1" unfolding INT64_MAX_def by code_simp
  then show ?thesis using True by (simp add: ready_word_def)
next
  case False
  then show ?thesis using left_bound [OF assms False] by (simp add: ready_word_def sint_of_nat_64)
qed

lemma ready_word_INT64_MAX:
  assumes "state_ok fc st" "fc < 2 ^ 32"
  shows "ready_word fc st = INT64_MAX \<longleftrightarrow> mLoopCount st = -1"
proof (cases "mLoopCount st = -1")
  case False
  have "sint INT64_MAX = 2 ^ 63 - 1" unfolding INT64_MAX_def by code_simp
  then show ?thesis using False sint_ready_word [OF assms] left_bound [OF assms False] by auto
qed (simp add: ready_word_def)

lemma ucast_of_nat: "unat (w :: u32) = n \<Longrightarrow> (ucast w :: u64) = of_nat n"
  by (transfer fixing: n) auto

lemma frames_left_ready:
  assumes "state_ok fc st"
  shows "frames_left fc st old = ready_word fc st"
proof -
  obtain p where p: "pos st = p" by blast
  have pos: "p \<le> fc" and count: "-1 \<le> sint (mLoopCount st)" using assms p by (simp_all add: state_ok_def)
  note p' = ucast_of_nat [OF p]
  consider "mLoopCount st = -1" | "mLoopCount st = 0" | "mLoopCount st \<noteq> -1" "looping st"
    by (auto simp: looping_def)
  then show ?thesis
  proof cases
    case 2
    then show ?thesis using pos by (simp add: frames_left_def ready_word_def left_def looping_def p p' of_nat_diff)
  next
    case 3
    obtain a where a: "unat (mLoopCount st) = a" by blast
    have c: "0 \<le> sint (mLoopCount st)" "sint (mLoopCount st) = int a"
      using loop_count_unat [OF count 3(1)] a by simp_all
    have nz: "mLoopCount st \<noteq> 0" using 3(2) by (simp add: looping_def)
    then have "a \<noteq> 0" using a by (simp add: unat_eq_0 flip: a)
    then have positive: "0 < sint (mLoopCount st)" using c(2) by linarith
    have a': "(scast (mLoopCount st) :: u64) = of_nat a" unfolding scast_eq c(2) by simp
    obtain d where d: "lend st - lstart st = d" by blast
    have "unat (mLoopEnd st - mLoopStart st) = lend st - lstart st"
      using assms 3(2) by (intro unat_sub) (auto simp: state_ok_def word_le_nat_alt)
    then have "(ucast (mLoopEnd st - mLoopStart st) :: u64) = of_nat d" using d by (intro ucast_of_nat) simp
    then show ?thesis using 3 pos positive nz
      by (simp add: frames_left_def ready_word_def left_def p p' a a' d of_nat_diff)
  qed (simp_all add: frames_left_def ready_word_def)
qed

section \<open>Adopting a state\<close>

lemma unat_of_nat_unat: "unat (of_nat (unat (w :: u32)) :: u32) = unat w"
  by simp

lemma update_loop_ok:
  assumes "updateStateWithLoop fc st u = Some st'" "state_ok fc st"
  shows "state_ok fc st'"
  using assms by (auto simp: updateStateWithLoop_def state_ok_def looping_def Let_def split: if_splits)

lemma update_position_ok:
  assumes "updateStateWithPosition fc st u = Some st'" "state_ok fc st"
  shows "state_ok fc st'"
  using assms by (auto simp: updateStateWithPosition_def state_ok_def looping_def Let_def word_le_nat_alt split: if_splits)

lemma adopt_ok: "adopt fc st u = Some st' \<Longrightarrow> state_ok fc st \<Longrightarrow> state_ok fc st'"
  by (auto simp: adopt_def split: if_splits bind_splits intro: update_loop_ok update_position_ok)

lemma poll_ok:
  assumes "pollPosition busy b s = (b', s', r)" "server_ok s"
  shows "server_ok s'" "mFrameCount s' = mFrameCount s" "mUnreleased s' = mUnreleased s"
    "mFrameSize s' = mFrameSize s" "r = NO_INIT \<and> mIsShutdown s' \<or> r = int (pos (svState s')) \<and> mIsShutdown s' = mIsShutdown s"
proof -
  obtain w q where q: "try_poll busy (mSingleStateQueue b) = (w, q)" by fastforce
  show "server_ok s'" "mFrameCount s' = mFrameCount s" "mUnreleased s' = mUnreleased s"
    "mFrameSize s' = mFrameSize s" "r = NO_INIT \<and> mIsShutdown s' \<or> r = int (pos (svState s')) \<and> mIsShutdown s' = mIsShutdown s"
    using assms q adopt_ok [of "mFrameCount s" "svState s"] frames_left_ready [of "mFrameCount s"]
    by (auto simp: pollPosition_def server_ok_def Let_def split: option.splits)
qed


section \<open>Obtaining and releasing\<close>

lemma left_limit:
  assumes "state_ok fc st"
  shows "play_limit fc st - pos st \<le> left fc st"
proof (cases "looping st")
  case True
  have ls: "lstart st < lend st" "lend st \<le> fc" "pos st < lend st" using True assms by (simp_all add: state_ok_def)
  then show ?thesis using True by (auto simp: play_limit_def left_def)
qed (simp add: play_limit_def left_def)

lemma ready_enough:
  assumes "state_ok fc st" "fc < 2 ^ 32" "n \<le> play_limit fc st - pos st"
  shows "int n \<le> sint (ready_word fc st)"
proof -
  have "play_limit fc st \<le> fc" using assms(1) by (auto simp: play_limit_def state_ok_def)
  then show ?thesis using assms left_limit [OF assms(1)] by (auto simp: sint_ready_word)
qed

lemma sint_count: "n < 2 ^ 32 \<Longrightarrow> sint (of_nat n :: u64) = int n"
  by (intro sint_of_nat_64) simp

text \<open>Obtaining never fails, and what it hands out lies in the buffer in front of the limit.\<close>

lemma obtain_ok:
  assumes "server_ok s" "holding_ok s"
  obtains b' s' buf status where "static_obtain busy wanted ackFlush b s = Some (b', s', buf, status)"
    "server_ok s'" "mFrameCount s' = mFrameCount s" "mFrameSize s' = mFrameSize s" "bFrameCount buf \<le> wanted"
    "bRaw buf = None \<and> bFrameCount buf = 0 \<or> bRaw buf = Some (pos (svState s') * mFrameSize s)"
    "ackFlush = False \<Longrightarrow> mUnreleased s' = bFrameCount buf"
    "ackFlush = False \<or> mUnreleased s = 0 \<Longrightarrow> holding_ok s'"
    "pos (svState s') + bFrameCount buf \<le> play_limit (mFrameCount s) (svState s')"
    "status = OK \<and> \<not> mIsShutdown s' \<and>
       bFrameCount buf = min wanted (play_limit (mFrameCount s) (svState s') - pos (svState s')) \<or>
     status = NO_INIT \<and> mIsShutdown s' \<and> bFrameCount buf = 0"
proof (cases "mIsShutdown s")
  case True
  then show thesis
    using assms by (intro that [of b "s\<lparr>mUnreleased := 0\<rparr>" no_buffer NO_INIT])
      (auto simp: static_obtain_def server_ok_def holding_ok_def no_buffer_def state_ok_def play_limit_def)
next
  case False
  obtain b1 s1 r where poll: "pollPosition busy b s = (b1, s1, r)" by (metis prod_cases3)
  note ok = poll_ok [OF poll assms(1)]
  have st: "state_ok (mFrameCount s1) (svState s1)" "mFrameCount s1 < 2 ^ 32"
      "mFramesReady s1 = ready_word (mFrameCount s1) (svState s1)"
    using ok(1) by (simp_all add: server_ok_def)
  have le: "pos (svState s1) \<le> play_limit (mFrameCount s1) (svState s1)"
    using st(1) by (auto simp: state_ok_def play_limit_def)
  show thesis
  proof (cases "r < 0")
    case neg: True
    then have "r = NO_INIT" "mIsShutdown s1" using ok(5) by auto
    then show thesis using False poll neg ok le
      by (intro that [of b1 "s1\<lparr>mUnreleased := 0\<rparr>" no_buffer NO_INIT])
        (auto simp: static_obtain_def server_ok_def holding_ok_def no_buffer_def)
  next
    case nonneg: False
    then have r: "r = int (pos (svState s1))" "\<not> mIsShutdown s1"
      using ok(5) False by (auto simp: NO_INIT_def)
    define avail where "avail = min wanted (play_limit (mFrameCount s1) (svState s1) - pos (svState s1))"
    have "play_limit (mFrameCount s1) (svState s1) < 2 ^ 32"
      using st by (auto simp: play_limit_def state_ok_def)
    then have "avail < 2 ^ 32" by (simp add: avail_def)
    then have enough: "\<not> sint (mFramesReady s1) < sint (of_nat avail :: u64)"
      using ready_enough [OF st(1,2), of avail] st(3) by (simp add: sint_count avail_def)
    define raw where "raw = (if pos (svState s1) < play_limit (mFrameCount s1) (svState s1)
      then Some (pos (svState s1) * mFrameSize s1) else None)"
    define buf where "buf = \<lparr>bFrameCount = avail, bRaw = raw,
      bNonContig = (if mFramesReady s1 = INT64_MAX then SIZE_MAX else unat (mFramesReady s1 - of_nat avail))\<rparr>"
    have limit: "(if mLoopCount (svState s1) \<noteq> 0 then lend (svState s1) else mFrameCount s1) =
        play_limit (mFrameCount s1) (svState s1)"
      by (simp add: play_limit_def looping_def)
    have avail: "(if pos (svState s1) < play_limit (mFrameCount s1) (svState s1)
        then (if play_limit (mFrameCount s1) (svState s1) - pos (svState s1) < wanted
              then play_limit (mFrameCount s1) (svState s1) - pos (svState s1) else wanted,
              Some (pos (svState s1) * mFrameSize s1))
        else (0, None)) = (avail, raw)"
      by (simp add: avail_def raw_def min_def)
    have nat: "nat r = pos (svState s1)" using r(1) by (simp only: nat_int)
    have "static_obtain busy wanted ackFlush b s =
        Some (b1, if ackFlush then s1 else s1\<lparr>mUnreleased := avail\<rparr>, buf, OK)"
      unfolding static_obtain_def poll prod.case if_not_P [OF False] if_not_P [OF nonneg] Let_def nat limit avail
      using enough by (simp only: if_not_P buf_def prod.case if_False)
    then show thesis using ok st r le assms(2)
      by (elim that) (auto simp: server_ok_def holding_ok_def buf_def avail_def raw_def)
  qed
qed


section \<open>The frames that are played\<close>

text \<open>
  What a track is to play from a state on: to the end of the loop, the loop as often as it is left,
  and the rest of the sound. An endless loop is unrolled \<open>k\<close> times.
\<close>

definition program :: "nat \<Rightarrow> nat \<Rightarrow> static_state \<Rightarrow> nat list" where
  "program k fc st =
     (if mLoopCount st = 0 then [pos st..<fc]
      else if mLoopCount st = -1 then [pos st..<lend st] @ concat (replicate k [lstart st..<lend st])
      else [pos st..<lend st] @ concat (replicate (unat (mLoopCount st) - 1) [lstart st..<lend st]) @ [lstart st..<fc])"

text \<open>The state after \<open>n\<close> frames were released.\<close>

definition advance :: "nat \<Rightarrow> static_state \<Rightarrow> static_state" where
  "advance n st =
     (if looping st \<and> pos st + n = lend st
      then st\<lparr>mPosition := mLoopStart st,
              mLoopCount := (if mLoopCount st = -1 then -1 else mLoopCount st - 1)\<rparr>
      else st\<lparr>mPosition := of_nat (pos st + n)\<rparr>)"

lemma unat_plus_of_nat:
  assumes "unat (p :: u32) + n < 2 ^ 32"
  shows "unat (p + of_nat n) = unat p + n"
proof -
  have "p + of_nat n = of_nat (unat p + n)" by simp
  then show ?thesis using assms by (simp only: unat_of_nat) simp
qed

lemma count_minus_one:
  "looping st \<Longrightarrow> mLoopCount st \<noteq> -1 \<Longrightarrow> unat (mLoopCount st - 1) = unat (mLoopCount st) - 1"
  by (simp add: looping_def unat_minus_one)

lemma count_minus_one_sint:
  assumes "looping st" "mLoopCount st \<noteq> -1" "-1 \<le> sint (mLoopCount st)"
  shows "-1 \<le> sint (mLoopCount st - 1)" "mLoopCount st - 1 \<noteq> -1"
proof -
  have c: "sint (mLoopCount st) = int (unat (mLoopCount st))" "unat (mLoopCount st) < 2 ^ 31"
    using loop_count_unat [OF assms(3,2)] by simp_all
  have u: "unat (mLoopCount st - 1) = unat (mLoopCount st) - 1" by (rule count_minus_one [OF assms(1,2)])
  define n where "n = unat (mLoopCount st - 1)"
  have "mLoopCount st - 1 = of_nat n" by (simp add: n_def)
  moreover have "n < 2 ^ 31" using u c(2) by (simp add: n_def)
  ultimately have "sint (mLoopCount st - 1) = int n" by (simp add: signed_of_nat signed_take_bit_int_eq_self)
  then show "-1 \<le> sint (mLoopCount st - 1)" by simp
  show "mLoopCount st - 1 \<noteq> -1" using assms(1) by (simp add: looping_def)
qed

lemma advance_ok:
  assumes "state_ok fc st" "fc < 2 ^ 32" "pos st + n \<le> play_limit fc st"
  shows "state_ok fc (advance n st)"
proof (cases "looping st \<and> pos st + n = lend st")
  case True
  then have l: "lstart st < lend st" "lend st \<le> fc" "-1 \<le> sint (mLoopCount st)"
    using assms(1) by (simp_all add: state_ok_def)
  show ?thesis
  proof (cases "mLoopCount st = -1")
    case False
    then show ?thesis using True l count_minus_one_sint [of st] by (auto simp: advance_def state_ok_def looping_def)
  qed (use True l in \<open>auto simp: advance_def state_ok_def looping_def\<close>)
next
  case False
  have "pos st + n < 2 ^ 32" "pos st + n \<le> fc"
    using assms by (auto simp: play_limit_def state_ok_def split: if_splits)
  then show ?thesis using assms False
    by (auto simp: advance_def state_ok_def play_limit_def looping_def unat_plus_of_nat)
qed

lemma upt_parts: "a \<le> b \<Longrightarrow> b \<le> c \<Longrightarrow> [a..<c] = [a..<b] @ [b..<c]"
  by (metis le_Suc_ex upt_add_eq_append)

text \<open>Released frames are the next ones of the program.\<close>

lemma program_advance:
  assumes "state_ok fc st" "fc < 2 ^ 32" "pos st + n \<le> play_limit fc st"
  shows "program (Suc k) fc st =
    [pos st..<pos st + n] @ program (if mLoopCount st = -1 \<and> pos st + n = lend st then k else Suc k) fc (advance n st)"
proof (cases "looping st \<and> pos st + n = lend st")
  case True
  then have l: "lstart st < lend st" "lend st \<le> fc" using assms(1) by (simp_all add: state_ok_def)
  show ?thesis
  proof (cases "mLoopCount st = -1")
    case False
    obtain m where m: "unat (mLoopCount st) = Suc m"
      using True by (metis looping_def not0_implies_Suc unat_eq_0)
    then have "unat (mLoopCount st - 1) = m" using True False count_minus_one [of st] by simp
    moreover have "mLoopCount st - 1 = 0 \<longleftrightarrow> m = 0" using calculation by (simp add: unat_eq_0 [symmetric])
    ultimately show ?thesis using True False l m
      by (cases m) (auto simp: program_def advance_def looping_def upt_parts [of "lstart st" "lend st" fc])
  qed (use True l in \<open>auto simp: program_def advance_def looping_def\<close>)
next
  case False
  have n: "pos st + n < 2 ^ 32" "pos st + n \<le> fc"
    using assms by (auto simp: play_limit_def state_ok_def split: if_splits)
  show ?thesis
  proof (cases "looping st")
    case True
    then have "pos st + n \<le> lend st" using assms(3) by (simp add: play_limit_def)
    then have "[pos st..<lend st] = [pos st..<pos st + n] @ [pos st + n..<lend st]" by (intro upt_parts) simp_all
    then show ?thesis using True False n by (auto simp: program_def advance_def looping_def unat_plus_of_nat)
  next
    case False
    have "[pos st..<fc] = [pos st..<pos st + n] @ [pos st + n..<fc]" using n by (intro upt_parts) simp_all
    then show ?thesis using False n by (auto simp: program_def advance_def looping_def unat_plus_of_nat)
  qed
qed

lemma length_concat_replicate: "length (concat (replicate k xs)) = k * length xs"
  by (induction k) auto

lemma length_program:
  assumes "state_ok fc st" "mLoopCount st \<noteq> -1"
  shows "length (program k fc st) = left fc st"
proof (cases "looping st")
  case True
  then have l: "lstart st < lend st" "lend st \<le> fc" "pos st < lend st" using assms(1) by (simp_all add: state_ok_def)
  obtain m where m: "unat (mLoopCount st) = Suc m" using True by (metis looping_def not0_implies_Suc unat_eq_0)
  then show ?thesis using True assms(2) l
    by (simp add: program_def left_def looping_def length_concat_replicate)
qed (simp add: program_def left_def looping_def)

lemma left_advance:
  assumes "state_ok fc st" "fc < 2 ^ 32" "pos st + n \<le> play_limit fc st" "mLoopCount st \<noteq> -1"
  shows "left fc (advance n st) + n = left fc st" "mLoopCount (advance n st) \<noteq> -1"
proof -
  show other: "mLoopCount (advance n st) \<noteq> -1"
    using assms(4) by (auto simp: advance_def looping_def)
  have "length (program 1 fc st) = n + length (program 1 fc (advance n st))"
    using program_advance [OF assms(1-3), of 0] assms(4) by simp
  then show "left fc (advance n st) + n = left fc st"
    using length_program [OF assms(1,4)] length_program [OF advance_ok [OF assms(1-3)] other] by simp
qed


lemma advance_0: "state_ok fc st \<Longrightarrow> advance 0 st = st"
  by (auto simp: advance_def state_ok_def)

text \<open>Releasing frames that are held never fails.\<close>

lemma release_held_ok:
  assumes "server_ok s" "holding_ok s" "n \<le> mUnreleased s"
  obtains b' s' where "static_release n b s = Some (b', s')" "server_ok s'" "holding_ok s'"
    "svState s' = advance n (svState s)" "mUnreleased s' = mUnreleased s - n"
    "mFrameCount s' = mFrameCount s" "mFrameSize s' = mFrameSize s" "mIsShutdown s' = mIsShutdown s"
proof -
  let ?st = "svState s" and ?fc = "mFrameCount s"
  have st: "state_ok ?fc ?st" "?fc < 2 ^ 32" "mFramesReady s = ready_word ?fc ?st"
    using assms(1) by (simp_all add: server_ok_def)
  have n: "pos ?st + n \<le> play_limit ?fc ?st" using assms(2,3) by (simp add: holding_ok_def)
  have limit: "play_limit ?fc ?st \<le> ?fc" using st(1) by (auto simp: play_limit_def state_ok_def)
  have "n < 2 ^ 32" using n limit st(2) by linarith
  then have enough: "sint (of_nat n :: u64) \<le> sint (mFramesReady s)"
    using ready_enough [OF st(1,2), of n] n st(3) by (simp add: sint_count)
  note adv = advance_ok [OF st(1,2) n]
  show thesis
  proof (cases "n = 0")
    case True
    then show thesis using assms enough advance_0 [OF st(1)]
      by (intro that [of b s]) (auto simp: static_release_def)
  next
    case False
    define fr where "fr = (if mFramesReady s \<noteq> INT64_MAX then mFramesReady s - of_nat n else mFramesReady s)"
    define s1 where "s1 = s\<lparr>mUnreleased := mUnreleased s - n, svState := advance n ?st, mFramesReady := fr,
        mFramesReadySafe := clampToSize fr\<rparr>"
    have fr: "fr = ready_word ?fc (advance n ?st)"
    proof (cases "mLoopCount ?st = -1")
      case True
      then show ?thesis by (auto simp: fr_def st(3) ready_word_def advance_def looping_def)
    next
      case False
      have "of_nat (left ?fc ?st) = (of_nat (left ?fc (advance n ?st)) + of_nat n :: u64)"
        by (simp only: left_advance(1) [OF st(1,2) n False, symmetric] of_nat_add)
      then show ?thesis using False left_advance(2) [OF st(1,2) n False] ready_word_INT64_MAX [OF st(1,2)]
        by (simp add: fr_def st(3) ready_word_def)
    qed
    have ok: "server_ok s1" using adv st(2) fr by (simp add: s1_def server_ok_def)
    have hold: "holding_ok s1"
    proof (cases "looping ?st \<and> pos ?st + n = lend ?st")
      case True
      then have "mUnreleased s = n" using assms(2,3) by (simp add: holding_ok_def play_limit_def)
      moreover have "pos (advance n ?st) \<le> play_limit ?fc (advance n ?st)"
        using adv by (auto simp: state_ok_def play_limit_def)
      ultimately show ?thesis by (simp add: s1_def holding_ok_def)
    next
      case False
      then have "pos (advance n ?st) = pos ?st + n" "play_limit ?fc (advance n ?st) = play_limit ?fc ?st"
        using n limit st(2) by (auto simp: advance_def play_limit_def looping_def unat_plus_of_nat)
      then show ?thesis using assms(2,3) by (simp add: s1_def holding_ok_def)
    qed
    have lim: "\<not> ?fc < pos ?st + n" using n limit by simp
    obtain newPosition count f where t:
      "(if ?fc < pos ?st + n then (?fc, mLoopCount ?st, 0)
        else if mLoopCount ?st \<noteq> 0 \<and> pos ?st + n = lend ?st
        then if mLoopCount ?st = -1 then (lstart ?st, mLoopCount ?st, CBLK_LOOP_CYCLE)
             else (lstart ?st, mLoopCount ?st - 1,
                   if mLoopCount ?st - 1 \<noteq> 0 then CBLK_LOOP_CYCLE else CBLK_LOOP_FINAL)
        else (pos ?st + n, mLoopCount ?st, 0)) = (newPosition, count, f)"
      by (metis prod_cases3)
    have adv_eq: "?st\<lparr>mPosition := of_nat newPosition, mLoopCount := count\<rparr> = advance n ?st"
      using t lim by (auto simp: advance_def looping_def split: if_splits)
    have "\<exists>b'. static_release n b s = Some (b', s1)"
      using False enough assms(3)
      by (simp add: static_release_def Let_def t adv_eq s1_def flip: fr_def)
    then show thesis using that ok hold by (fastforce simp: s1_def)
  qed
qed

end
