(* ===== verification/StaticTracks.thy ===== *)
theory StaticTracks
  imports StaticPlayback
begin

text \<open>
  The client and the server of a static track together (media/libmedia/AudioTrackShared.cpp): what a
  client can do to the server, what is played, and how far the position and the loop count that
  the client reports are those of the server.
\<close>

section \<open>The track and its steps\<close>

record static_track =
  stBlk :: static_cblk
  stCli :: static_client
  stSrv :: static_server
  stBuf :: buffer

definition static_start :: "(nat \<Rightarrow> nat) \<Rightarrow> nat \<Rightarrow> nat \<Rightarrow> static_track" where
  "static_start roundup frameCount frameSize =
     \<lparr>stBlk = static_track_cblk, stCli = StaticAudioTrackClientProxy roundup frameCount frameSize,
      stSrv = StaticAudioTrackServerProxy roundup frameCount frameSize, stBuf = no_buffer\<rparr>"

text \<open>
  The operations of the two proxies; \<open>S_scribble\<close> is a client that writes what it likes over the
  shared memory.
\<close>

datatype static_action =
    S_loop bool nat nat u32 | S_position bool nat | S_both bool bool nat nat nat u32 | S_get bool
  | S_scribble static_cblk
  | S_ready bool | S_obtain bool nat bool | S_release nat | S_tally | S_multiple

definition scribble :: "static_cblk \<Rightarrow> static_cblk \<Rightarrow> static_cblk" where
  "scribble b' b =
     b'\<lparr>mSingleStateQueue := (mSingleStateQueue b')\<lparr>cObserver := cObserver (mSingleStateQueue b)\<rparr>,
        mPosLoopQueue := (mPosLoopQueue b')\<lparr>cMutator := cMutator (mPosLoopQueue b)\<rparr>\<rparr>"

fun static_exec :: "static_action \<Rightarrow> static_track \<Rightarrow> static_track option" where
  "static_exec (S_loop busy s e n) t =
     (case setLoop busy s e n (stBlk t) (stCli t) of (b, c) \<Rightarrow> Some (t\<lparr>stBlk := b, stCli := c\<rparr>))"
| "static_exec (S_position busy p) t =
     (case setBufferPosition busy p (stBlk t) (stCli t) of (b, c) \<Rightarrow> Some (t\<lparr>stBlk := b, stCli := c\<rparr>))"
| "static_exec (S_both busy busy' p s e n) t =
     (case setBufferPositionAndLoop busy busy' p s e n (stBlk t) (stCli t) of (b, c) \<Rightarrow> Some (t\<lparr>stBlk := b, stCli := c\<rparr>))"
| "static_exec (S_get busy) t =
     (case getBufferPosition busy (stBlk t) (stCli t) of (b, c, _) \<Rightarrow> Some (t\<lparr>stBlk := b, stCli := c\<rparr>))"
| "static_exec (S_scribble b) t = Some (t\<lparr>stBlk := scribble b (stBlk t)\<rparr>)"
| "static_exec (S_ready busy) t =
     (case static_framesReady busy (stBlk t) (stSrv t) of (b, s, _) \<Rightarrow> Some (t\<lparr>stBlk := b, stSrv := s\<rparr>))"
| "static_exec (S_obtain busy want ackFlush) t = do {
     (b, s, buf, status) \<leftarrow> static_obtain busy want ackFlush (stBlk t) (stSrv t);
     Some (t\<lparr>stBlk := b, stSrv := s, stBuf := buf\<rparr>) }"
| "static_exec (S_release n) t = do {
     (b, s) \<leftarrow> static_release n (stBlk t) (stSrv t);
     Some (t\<lparr>stBlk := b, stSrv := s\<rparr>) }"
| "static_exec S_tally t = Some (t\<lparr>stBlk := static_tally (stBlk t)\<rparr>)"
| "static_exec S_multiple t = Some (t\<lparr>stSrv := framesReadyIsCalledByMultipleThreads (stSrv t)\<rparr>)"

text \<open>
  The contract of the server: it releases no more than it holds, and it does not look for a new
  state while it holds frames. The client may do anything.
\<close>

fun static_may :: "static_action \<Rightarrow> static_track \<Rightarrow> bool" where
  "static_may (S_ready busy) t \<longleftrightarrow> mUnreleased (stSrv t) = 0 \<or> mFramesReadyIsCalledByMultipleThreads (stSrv t)"
| "static_may (S_obtain busy want ackFlush) t \<longleftrightarrow> \<not> ackFlush \<or> mUnreleased (stSrv t) = 0"
| "static_may (S_release n) t \<longleftrightarrow> n \<le> mUnreleased (stSrv t)"
| "static_may _ t \<longleftrightarrow> True"

inductive static_reach :: "static_track \<Rightarrow> static_track \<Rightarrow> bool" for t0 where
  begun: "static_reach t0 t0"
| step: "static_reach t0 t \<Longrightarrow> static_may a t \<Longrightarrow> static_exec a t = Some t' \<Longrightarrow> static_reach t0 t'"

section \<open>The server stands what the client does\<close>

definition chunk_ok :: "nat \<Rightarrow> nat \<Rightarrow> buffer \<Rightarrow> bool" where
  "chunk_ok fc fs buf \<longleftrightarrow>
     (case bRaw buf of None \<Rightarrow> bFrameCount buf = 0 | Some raw \<Rightarrow> raw + bFrameCount buf * fs \<le> fc * fs)"

definition static_inv :: "nat \<Rightarrow> nat \<Rightarrow> static_track \<Rightarrow> bool" where
  "static_inv fc fs t \<longleftrightarrow> server_ok (stSrv t) \<and> holding_ok (stSrv t) \<and> mFrameCount (stSrv t) = fc \<and>
     mFrameSize (stSrv t) = fs \<and> chunk_ok fc fs (stBuf t)"

lemma static_inv_start: "fc < 2 ^ 32 \<Longrightarrow> static_inv fc fs (static_start roundup fc fs)"
  by (simp add: static_inv_def static_start_def StaticAudioTrackServerProxy_def ServerProxy_def server.defs
      server_ok_def holding_ok_def server_abstraction zero_state_def chunk_ok_def no_buffer_def)

lemma chunk_in_memory:
  assumes "server_ok s" "pos (svState s) + n \<le> play_limit (mFrameCount s) (svState s)"
  shows "pos (svState s) * fs + n * fs \<le> mFrameCount s * fs"
proof -
  have "play_limit (mFrameCount s) (svState s) \<le> mFrameCount s"
    using assms(1) by (auto simp: server_ok_def state_ok_def play_limit_def)
  then have "(pos (svState s) + n) * fs \<le> mFrameCount s * fs" using assms(2) by (intro mult_le_mono1) simp
  then show ?thesis by (simp add: add_mult_distrib)
qed

lemma static_step_ok:
  assumes "static_inv fc fs t" "static_may a t"
  shows "\<exists>t'. static_exec a t = Some t' \<and> static_inv fc fs t'"
proof -
  have inv: "server_ok (stSrv t)" "holding_ok (stSrv t)" "mFrameCount (stSrv t) = fc" "mFrameSize (stSrv t) = fs"
    using assms(1) by (simp_all add: static_inv_def)
  show ?thesis
  proof (cases a)
    case (S_ready busy)
    obtain b s r where poll: "pollPosition busy (stBlk t) (stSrv t) = (b, s, r)" by (metis prod_cases3)
    note ok = poll_ok [OF poll inv(1)]
    have "holding_ok s" if "mUnreleased (stSrv t) = 0"
      using that ok(1,3) by (auto simp: holding_ok_def server_ok_def state_ok_def play_limit_def)
    then show ?thesis using S_ready assms poll ok by (auto simp: static_framesReady_def static_inv_def)
  next
    case (S_obtain busy want ackFlush)
    obtain b s buf status where o: "static_obtain busy want ackFlush (stBlk t) (stSrv t) = Some (b, s, buf, status)"
      and ok: "server_ok s" "mFrameCount s = fc" "mFrameSize s = fs"
        "bRaw buf = None \<and> bFrameCount buf = 0 \<or> bRaw buf = Some (pos (svState s) * fs)"
        "ackFlush = False \<or> mUnreleased (stSrv t) = 0 \<Longrightarrow> holding_ok s"
        "pos (svState s) + bFrameCount buf \<le> play_limit fc (svState s)"
      using inv(3,4) by (rule_tac obtain_ok [OF inv(1,2), of busy want ackFlush "stBlk t"]) (rule that, auto)
    have "chunk_ok fc fs buf"
      using ok(4) chunk_in_memory [OF ok(1), of "bFrameCount buf" fs] ok(2,6) by (auto simp: chunk_ok_def)
    then show ?thesis using S_obtain assms o ok by (auto simp: static_inv_def)
  next
    case (S_release n)
    have n: "n \<le> mUnreleased (stSrv t)" using assms(2) S_release by simp
    obtain b s where "static_release n (stBlk t) (stSrv t) = Some (b, s)" "server_ok s" "holding_ok s"
        "mFrameCount s = fc" "mFrameSize s = fs"
      by (rule release_held_ok [OF inv(1,2) n, of "stBlk t"]) (rule that, simp_all add: inv)
    then show ?thesis using S_release assms(1) by (auto simp: static_inv_def)
  qed (use assms(1) in \<open>auto simp: static_inv_def framesReadyIsCalledByMultipleThreads_def server_ok_def holding_ok_def
      split: prod.splits\<close>)
qed

lemma static_reach_inv: "static_reach (static_start roundup fc fs) t \<Longrightarrow> fc < 2 ^ 32 \<Longrightarrow> static_inv fc fs t"
proof (induction rule: static_reach.induct)
  case (step t a t')
  then show ?case using static_step_ok [of fc fs t a] by auto
qed (rule static_inv_start)

text \<open>
  C9: Whatever the client sends through the queue or writes over the shared memory, no fatal check
  of a static track's server fails as long as the server does not poll while it holds frames, and
  every chunk it gets lies inside the memory of the sound.
\<close>

theorem static_server_never_aborts:
  assumes "static_reach (static_start roundup fc fs) t" "fc < 2 ^ 32"
  shows "chunk_ok fc fs (stBuf t) \<and> (static_may a t \<longrightarrow> static_exec a t \<noteq> None)"
  using static_reach_inv [OF assms] static_step_ok [of fc fs t a] by (auto simp: static_inv_def)


text \<open>Runs as lists of actions, each one allowed where it is taken.\<close>

fun static_run :: "static_action list \<Rightarrow> static_track \<Rightarrow> static_track option" where
  "static_run [] t = Some t"
| "static_run (a # as) t =
     (if static_may a t then do { t' \<leftarrow> static_exec a t; static_run as t' } else None)"

lemma static_run_reach: "static_run as t = Some t' \<Longrightarrow> static_reach t0 t \<Longrightarrow> static_reach t0 t'"
proof (induction as arbitrary: t)
  case (Cons a as)
  then obtain t1 where "static_may a t" "static_exec a t = Some t1" "static_run as t1 = Some t'"
    by (auto split: if_splits bind_splits)
  then show ?case using Cons by (auto intro: static_reach.step)
qed simp

definition small_static :: static_track where
  "small_static = static_start (\<lambda>n. n) 20 4"

definition looped_run :: "static_action list" where
  "looped_run = [S_loop False 0 16 2, S_position False 10, S_obtain False 8 False, S_release 4, S_release 2,
     S_get False, S_obtain False 3 False]"

lemma looped_run_reaches:
  obtains t where "static_reach small_static t" "bFrameCount (stBuf t) = 3" "bRaw (stBuf t) = Some 0"
    "plLoopCount (mPosLoop (stCli t)) = 1"
proof -
  have "map_option (\<lambda>t. (bFrameCount (stBuf t), bRaw (stBuf t), plLoopCount (mPosLoop (stCli t))))
      (static_run looped_run small_static) = Some (3, Some 0, 1)"
    by code_simp
  then obtain t where "static_run looped_run small_static = Some t" "bFrameCount (stBuf t) = 3"
      "bRaw (stBuf t) = Some 0" "plLoopCount (mPosLoop (stCli t)) = 1" by auto
  then show thesis using that static_run_reach static_reach.begun by blast
qed

theorem static_server_never_aborts_witness:
  "\<exists>t. static_reach small_static t \<and> bFrameCount (stBuf t) = 3 \<and> chunk_ok 20 4 (stBuf t) \<and>
     static_exec (S_obtain False 5 False) t \<noteq> None"
proof -
  obtain t where t: "static_reach (static_start (\<lambda>n. n) 20 4) t" "bFrameCount (stBuf t) = 3"
    using looped_run_reaches unfolding small_static_def by metis
  show ?thesis
    using t static_server_never_aborts [OF t(1), of "S_obtain False 5 False"] by (auto simp: small_static_def)
qed

definition held_run :: "static_action list" where
  "held_run = [S_obtain False 2 False, S_position False 4]"

text \<open>
  A server that polls while it holds frames, as the normal mixer does when the resampler of a
  track holds some over to the next period, can be made to abort by a client that sets the
  position: its chunk is then longer than what is left of the sound.
\<close>

theorem poll_while_holding_aborts:
  "\<exists>t t'. static_reach (static_start (\<lambda>n. n) 4 4) t \<and> mUnreleased (stSrv t) = 2 \<and>
     static_exec (S_ready False) t = Some t' \<and> mUnreleased (stSrv t') = 2 \<and> static_exec (S_release 2) t' = None"
proof -
  have "map_option (\<lambda>t. map_option (\<lambda>t'. (mUnreleased (stSrv t), mUnreleased (stSrv t'),
        case static_exec (S_release 2) t' of None \<Rightarrow> True | Some _ \<Rightarrow> False)) (static_exec (S_ready False) t))
      (static_run held_run (static_start (\<lambda>n. n) 4 4)) = Some (Some (2, 2, True))"
    by code_simp
  then obtain t t' where "static_run held_run (static_start (\<lambda>n. n) 4 4) = Some t"
      "static_exec (S_ready False) t = Some t'" "mUnreleased (stSrv t) = 2" "mUnreleased (stSrv t') = 2"
      "static_exec (S_release 2) t' = None"
    by (auto split: option.splits)
  then show ?thesis using static_run_reach static_reach.begun by blast
qed


section \<open>What is played\<close>

text \<open>
  The server obtains up to \<open>want\<close> frames and releases at most \<open>rel\<close> of them, again and again,
  while the client is silent. The result are the frames it released, by their place in the memory.
\<close>

definition chunk_frames :: "nat \<Rightarrow> nat \<Rightarrow> buffer \<Rightarrow> nat list" where
  "chunk_frames fs n buf = (case bRaw buf of None \<Rightarrow> [] | Some raw \<Rightarrow> [raw div fs..<raw div fs + n])"

fun static_play ::
    "(nat \<times> nat) list \<Rightarrow> static_cblk \<Rightarrow> static_server \<Rightarrow> (nat list \<times> static_cblk \<times> static_server) option" where
  "static_play [] b s = Some ([], b, s)"
| "static_play ((want, rel) # ws) b s = do {
     (b1, s1, buf, status) \<leftarrow> static_obtain True want False b s;
     let n = min rel (bFrameCount buf);
     (b2, s2) \<leftarrow> static_release n b1 s1;
     (fs, b3, s3) \<leftarrow> static_play ws b2 s2;
     Some (chunk_frames (mFrameSize s) n buf @ fs, b3, s3) }"

lemma obtain_silent:
  assumes "static_obtain True want ackFlush b s = Some (b', s', buf, status)" "\<not> mIsShutdown s"
  shows "svState s' = svState s" "mIsShutdown s' = mIsShutdown s"
  using assms by (auto simp: static_obtain_def pollPosition_def try_poll_def Let_def split: if_splits)

lemma play_round:
  assumes "server_ok s" "holding_ok s" "\<not> mIsShutdown s" "0 < mFrameSize s"
  obtains b2 s2 buf n where
    "static_play ((want, rel) # ws) b s =
       map_option (\<lambda>(fs, b3, s3). ([pos (svState s)..<pos (svState s) + n] @ fs, b3, s3)) (static_play ws b2 s2)"
    "n = min rel (min want (play_limit (mFrameCount s) (svState s) - pos (svState s)))"
    "server_ok s2" "holding_ok s2" "\<not> mIsShutdown s2" "mFrameSize s2 = mFrameSize s" "mFrameCount s2 = mFrameCount s"
    "svState s2 = advance n (svState s)"
proof -
  obtain b1 s1 buf status where o: "static_obtain True want False b s = Some (b1, s1, buf, status)"
    and ok: "server_ok s1" "mFrameCount s1 = mFrameCount s" "mFrameSize s1 = mFrameSize s"
      "mUnreleased s1 = bFrameCount buf" "holding_ok s1"
    and raw: "bRaw buf = None \<and> bFrameCount buf = 0 \<or> bRaw buf = Some (pos (svState s1) * mFrameSize s)"
    and status: "status = OK \<and> \<not> mIsShutdown s1 \<and>
       bFrameCount buf = min want (play_limit (mFrameCount s) (svState s1) - pos (svState s1)) \<or>
     status = NO_INIT \<and> mIsShutdown s1 \<and> bFrameCount buf = 0"
    by (rule obtain_ok [OF assms(1,2), of True want False b]) (rule that, simp_all)
  note silent = obtain_silent [OF o assms(3)]
  have count: "bFrameCount buf = min want (play_limit (mFrameCount s) (svState s) - pos (svState s))"
    using status silent assms(3) by auto
  define n where "n = min rel (bFrameCount buf)"
  have "n \<le> mUnreleased s1" by (simp add: n_def ok(4))
  then obtain b2 s2 where r: "static_release n b1 s1 = Some (b2, s2)"
    and ok2: "server_ok s2" "holding_ok s2" "svState s2 = advance n (svState s1)" "mFrameCount s2 = mFrameCount s1"
      "mFrameSize s2 = mFrameSize s1" "mIsShutdown s2 = mIsShutdown s1"
    by (rule release_held_ok [OF ok(1,5), of n b1]) (rule that, assumption+)
  have "chunk_frames (mFrameSize s) n buf = [pos (svState s)..<pos (svState s) + n]"
    using raw silent assms(4) by (auto simp: chunk_frames_def n_def)
  then have "static_play ((want, rel) # ws) b s =
       map_option (\<lambda>(fs, b3, s3). ([pos (svState s)..<pos (svState s) + n] @ fs, b3, s3)) (static_play ws b2 s2)"
    using o r by (auto simp flip: n_def split: bind_splits)
  then show thesis using that ok ok2 silent assms(3) count by (simp add: n_def)
qed

lemma static_play_program:
  assumes "server_ok s" "holding_ok s" "\<not> mIsShutdown s" "0 < mFrameSize s" "length ws \<le> k"
  shows "\<exists>fs b' s' j. static_play ws b s = Some (fs, b', s') \<and> server_ok s' \<and> mFrameCount s' = mFrameCount s \<and>
    k \<le> j + length ws \<and>
    program k (mFrameCount s) (svState s) = fs @ program j (mFrameCount s) (svState s')"
  using assms
proof (induction ws arbitrary: k b s)
  case (Cons w ws)
  obtain want rel where w: "w = (want, rel)" by fastforce
  obtain k' where k: "k = Suc k'" using Cons.prems(5) by (cases k) auto
  let ?st = "svState s" and ?fc = "mFrameCount s"
  obtain b2 s2 n where play: "static_play ((want, rel) # ws) b s =
       map_option (\<lambda>(fs, b3, s3). ([pos ?st..<pos ?st + n] @ fs, b3, s3)) (static_play ws b2 s2)"
    and n: "n = min rel (min want (play_limit ?fc ?st - pos ?st))"
    and ok: "server_ok s2" "holding_ok s2" "\<not> mIsShutdown s2" "mFrameSize s2 = mFrameSize s" "mFrameCount s2 = ?fc"
      "svState s2 = advance n ?st"
    by (rule play_round [OF Cons.prems(1-4), of want rel ws b]) (rule that)
  have st: "state_ok ?fc ?st" "?fc < 2 ^ 32" using Cons.prems(1) by (simp_all add: server_ok_def)
  have "pos ?st \<le> play_limit ?fc ?st" using st(1) by (auto simp: state_ok_def play_limit_def)
  then have "pos ?st + n \<le> play_limit ?fc ?st" using n by simp
  note step = program_advance [OF st this, of k']
  define k1 where "k1 = (if mLoopCount ?st = -1 \<and> pos ?st + n = lend ?st then k' else Suc k')"
  have "length ws \<le> k1" using Cons.prems(5) k by (simp add: k1_def)
  then obtain fs b' s' j where ih: "static_play ws b2 s2 = Some (fs, b', s')" "server_ok s'" "mFrameCount s' = mFrameCount s2"
      "k1 \<le> j + length ws" "program k1 (mFrameCount s2) (svState s2) = fs @ program j (mFrameCount s2) (svState s')"
    using Cons.IH [OF ok(1-3), of k1 b2] ok(4) Cons.prems(4) by auto
  have "k \<le> Suc k1" by (simp add: k k1_def)
  then have le: "k \<le> j + length (w # ws)" using ih(4) by simp
  have "static_play (w # ws) b s = Some ([pos ?st..<pos ?st + n] @ fs, b', s')"
    using play ih(1) w by (simp del: static_play.simps)
  moreover have "program k ?fc ?st = ([pos ?st..<pos ?st + n] @ fs) @ program j ?fc (svState s')"
    using step ih(5) ok(5,6) by (simp add: k k1_def)
  moreover have "mFrameCount s' = ?fc" using ih(3) ok(5) by simp
  ultimately show ?case using ih(2) le by blast
qed auto

lemma program_left:
  assumes "state_ok fc st" "mLoopCount st \<noteq> -1" "left fc st = 0"
  shows "program k fc st = []"
  using length_program [OF assms(1,2), of k] assms(3) by simp

lemma limit_left:
  assumes "state_ok fc st" "left fc st \<noteq> 0"
  shows "pos st < play_limit fc st"
  using assms by (auto simp: state_ok_def play_limit_def left_def)

lemma static_play_left:
  assumes "server_ok s" "holding_ok s" "\<not> mIsShutdown s" "0 < mFrameSize s" "mLoopCount (svState s) \<noteq> -1"
    "list_all (\<lambda>(want, rel). 0 < want \<and> 0 < rel) ws" "static_play ws b s = Some (fs, b', s')"
  shows "mLoopCount (svState s') \<noteq> -1 \<and> left (mFrameCount s) (svState s') \<le> left (mFrameCount s) (svState s) - length ws"
  using assms
proof (induction ws arbitrary: b s fs)
  case (Cons w ws)
  obtain want rel where w: "w = (want, rel)" "0 < want" "0 < rel" using Cons.prems(6) by (cases w) auto
  let ?st = "svState s" and ?fc = "mFrameCount s"
  obtain b2 s2 n where play: "static_play ((want, rel) # ws) b s =
       map_option (\<lambda>(fs, b3, s3). ([pos ?st..<pos ?st + n] @ fs, b3, s3)) (static_play ws b2 s2)"
    and n: "n = min rel (min want (play_limit ?fc ?st - pos ?st))"
    and ok: "server_ok s2" "holding_ok s2" "\<not> mIsShutdown s2" "mFrameSize s2 = mFrameSize s" "mFrameCount s2 = ?fc"
      "svState s2 = advance n ?st"
    by (rule play_round [OF Cons.prems(1-4), of want rel ws b]) (rule that)
  have st: "state_ok ?fc ?st" "?fc < 2 ^ 32" using Cons.prems(1) by (simp_all add: server_ok_def)
  have "pos ?st \<le> play_limit ?fc ?st" using st(1) by (auto simp: state_ok_def play_limit_def)
  then have lim: "pos ?st + n \<le> play_limit ?fc ?st" using n by simp
  note step = left_advance [OF st lim Cons.prems(5)]
  obtain fs1 where rest: "static_play ws b2 s2 = Some (fs1, b', s')"
    using Cons.prems(7) play w(1) by (auto simp del: static_play.simps)
  have "mLoopCount (svState s') \<noteq> -1 \<and> left ?fc (svState s') \<le> left ?fc (svState s2) - length ws"
    using Cons.IH [OF ok(1-3) _ _ _ rest] ok(4-6) Cons.prems(4,6) step(2) by simp
  moreover have "left ?fc (svState s2) \<le> left ?fc ?st - 1"
  proof (cases "left ?fc ?st = 0")
    case False
    then have "0 < n" using limit_left [OF st(1)] n w(2,3) by simp
    then show ?thesis using step(1) unfolding ok(6) by linarith
  qed (use step(1) in \<open>unfold ok(6), linarith\<close>)
  ultimately show ?case unfolding list.size by linarith
qed simp

text \<open>
  C8: While the client is silent, however the server cuts the sound into chunks and returns parts of
  them, it plays the frames of the memory to the end of the loop, the loop as often as it is
  left, and the rest of the sound, each frame once and in order; and it gets through all of them,
  as each round of at least one frame makes progress.
\<close>

theorem static_plays_program:
  assumes "server_ok s" "holding_ok s" "\<not> mIsShutdown s" "0 < mFrameSize s" "mLoopCount (svState s) \<noteq> -1"
    "list_all (\<lambda>(want, rel). 0 < want \<and> 0 < rel) ws" "left (mFrameCount s) (svState s) \<le> length ws"
  shows "\<exists>b' s'. static_play ws b s = Some (program 0 (mFrameCount s) (svState s), b', s')"
proof -
  let ?fc = "mFrameCount s" and ?st = "svState s"
  have st: "state_ok ?fc ?st" using assms(1) by (simp add: server_ok_def)
  obtain fs b' s' j where p: "static_play ws b s = Some (fs, b', s')" "server_ok s'" "mFrameCount s' = ?fc"
      "program (length ws) ?fc ?st = fs @ program j ?fc (svState s')"
    using static_play_program [OF assms(1-4), of ws "length ws" b] by auto
  note l = static_play_left [OF assms(1-6) p(1)]
  have "program j ?fc (svState s') = []"
    using p(2,3) l assms(7) by (intro program_left) (auto simp: server_ok_def)
  moreover have "program (length ws) ?fc ?st = program 0 ?fc ?st" using assms(5) by (simp add: program_def)
  ultimately show ?thesis using p by auto
qed


text \<open>A sound of 20 frames at frame 10, with the frames 0 to 15 still to be repeated.\<close>

definition looped_server :: static_server where
  "looped_server = (StaticAudioTrackServerProxy (\<lambda>n. n) 20 4)
     \<lparr>svState := zero_state\<lparr>mLoopEnd := 16, mLoopCount := 1, mPosition := 10\<rparr>, mFramesReady := 26\<rparr>"

theorem static_plays_program_witness:
  "\<exists>b' s'. static_play (replicate 26 (3, 2)) static_track_cblk looped_server = Some ([10..<16] @ [0..<20], b', s')"
proof -
  have "state_ok 20 (svState looped_server)" "mFramesReady looped_server = ready_word 20 (svState looped_server)"
      "holding_ok looped_server" "left 20 (svState looped_server) = 26"
      "program 0 20 (svState looped_server) = [10..<16] @ [0..<20]"
    by code_simp+
  moreover have "\<not> mIsShutdown looped_server" "0 < mFrameSize looped_server" "mFrameCount looped_server = 20"
      "mLoopCount (svState looped_server) \<noteq> -1"
    by code_simp+
  moreover have "server_ok looped_server" using calculation by (simp add: server_ok_def)
  ultimately show ?thesis
    using static_plays_program [of looped_server "replicate 26 (3, 2)" static_track_cblk] by (simp add: list_all_iff)
qed

end
