(* ===== verification/StaticPrediction.thy ===== *)
theory StaticPrediction
  imports StaticTracks
begin

text \<open>
  What the client of a static track reports (media/libmedia/AudioTrackShared.cpp): after
  \<open>setLoop\<close> or \<open>setBufferPosition\<close> the client predicts the position and the loop count,
  and reports the prediction until the server has adopted the new state. From a track that is
  in step the prediction of one operation is exact; before the first operation, and for several
  operations that the server sees as one, it is not.
\<close>

section \<open>Sequence numbers\<close>

lemma sint_uminus: "sint (d :: u32) \<noteq> - (2 ^ 31) \<Longrightarrow> sint (- d) = - sint d"
proof -
  assume a: "sint d \<noteq> - (2 ^ 31)"
  have r: "- (2 ^ 31) \<le> sint d" "sint d < 2 ^ 31" using sint_greater_eq [of d] sint_less [of d] by simp_all
  have "- d = word_of_int (- sint d)" by simp
  then have "sint (- d) = signed_take_bit 31 (- sint d)" by (simp only: sint_sbintrunc') simp
  also have "\<dots> = - sint d" using a r by (intro signed_take_bit_int_eq_self) auto
  finally show ?thesis .
qed

text \<open>The new number of one counter is ahead of the other, and differs from the old one.\<close>

lemma incrementSequence_ahead:
  "0 < sint (incrementSequence self other - other)" "sint (other - incrementSequence self other) < 0"
  "incrementSequence self other \<noteq> self"
proof -
  have one: "sint (1 :: u32) = 1" by code_simp
  have small: "sint (d + 1) = sint d + 1" if "0 \<le> sint d" "sint d < INT32_MAX" for d :: u32
  proof -
    have "d + 1 = word_of_int (sint d + 1)" by simp
    then have "sint (d + 1) = signed_take_bit 31 (sint d + 1)" by (simp only: sint_sbintrunc') simp
    also have "\<dots> = sint d + 1" using that by (intro signed_take_bit_int_eq_self) (auto simp: INT32_MAX_def)
    finally show ?thesis .
  qed
  show ahead: "0 < sint (incrementSequence self other - other)"
  proof (cases "0 \<le> sint (self - other) \<and> sint (self - other) < INT32_MAX")
    case True
    then show ?thesis using small [of "self - other"] by (simp add: incrementSequence_def algebra_simps)
  qed (auto simp: incrementSequence_def one)
  have "sint (- (incrementSequence self other - other)) = - sint (incrementSequence self other - other)"
    using ahead by (intro sint_uminus) simp
  then show "sint (other - incrementSequence self other) < 0" using ahead by simp
  show "incrementSequence self other \<noteq> self"
  proof (cases "0 \<le> sint (self - other) \<and> sint (self - other) < INT32_MAX")
    case False
    have "self \<noteq> other + 1" using False one by (auto simp: INT32_MAX_def)
    then show ?thesis using False by (auto simp: incrementSequence_def Let_def)
  qed (simp add: incrementSequence_def)
qed

section \<open>A track that is in step\<close>

definition server_pos :: "static_server \<Rightarrow> pos_loop" where
  "server_pos s = \<lparr>mBufferPosition = mPosition (svState s), plLoopCount = mLoopCount (svState s)\<rparr>"

definition pos_known :: "static_cblk \<Rightarrow> static_client \<Rightarrow> static_server \<Rightarrow> bool" where
  "pos_known b c s \<longleftrightarrow> cell_okay (mPosLoopQueue b) \<and> cell_fits (mPosLoopQueue b) [0, 0] \<and>
     (if cell_unseen (mPosLoopQueue b) = 0 then mPosLoop c = server_pos s
      else cell_content (mPosLoopQueue b) = pos_words (server_pos s))"

definition queue_ready :: "static_cblk \<Rightarrow> bool" where
  "queue_ready b \<longleftrightarrow> cell_okay (mSingleStateQueue b) \<and> cell_fits (mSingleStateQueue b) (state_words zero_state)"

definition same_state :: "static_client \<Rightarrow> static_server \<Rightarrow> bool" where
  "same_state c s \<longleftrightarrow> mLoopSequence (mState c) = mLoopSequence (svState s) \<and>
     mPositionSequence (mState c) = mPositionSequence (svState s) \<and> mLoopEnd (mState c) = mLoopEnd (svState s)"

text \<open>A client that set no finite loop has the count of the server, which does not change.\<close>

definition count_known :: "static_client \<Rightarrow> static_server \<Rightarrow> bool" where
  "count_known c s \<longleftrightarrow> (0 < sint (mLoopCount (mState c)) \<or>
     plLoopCount (mPosLoop c) = mLoopCount (svState s) \<and> sint (mLoopCount (svState s)) \<le> 0)"

definition in_step :: "static_cblk \<Rightarrow> static_client \<Rightarrow> static_server \<Rightarrow> bool" where
  "in_step b c s \<longleftrightarrow> server_ok s \<and> queue_ready b \<and> cell_unseen (mSingleStateQueue b) = 0 \<and>
     cell_acted (mSingleStateQueue b) \<and> pos_known b c s \<and> same_state c s \<and> count_known c s"

lemma pos_of_words_inverse [simp]: "pos_of_words (pos_words p) = p"
  by (simp add: pos_of_words_def pos_words_def)

lemma state_of_words_inverse [simp]: "state_of_words (state_words s) = s"
  by (simp add: state_of_words_def state_words_def)

lemma length_words [simp]: "length (state_words s) = 6" "length (pos_words p) = 2"
  by (simp_all add: state_words_def pos_words_def)

text \<open>The client asks for the position.\<close>

lemma get_in_step:
  assumes "pos_known b c s" "queue_ready b" "cell_unseen (mSingleStateQueue b) = 0" "cell_acted (mSingleStateQueue b)"
  obtains q where "getBufferPositionAndLoopCount False b c = (b\<lparr>mPosLoopQueue := q\<rparr>, c\<lparr>mPosLoop := server_pos s\<rparr>)"
    "cell_okay q" "cell_fits q [0, 0]" "cell_unseen q = 0"
proof -
  have acked: "cell_ack (mSingleStateQueue b) = SSQ_DONE"
    using assms(2-4) by (simp add: queue_ready_def cell_ack_okay)
  have ok: "cell_okay (mPosLoopQueue b)" "cell_fits (mPosLoopQueue b) [0, 0]" using assms(1) by (simp_all add: pos_known_def)
  show thesis
  proof (cases "cell_unseen (mPosLoopQueue b) = 0")
    case True
    then have "mPosLoop c = server_pos s" using assms(1) by (simp add: pos_known_def)
    then show thesis using acked ok True cell_poll_okay [OF ok(1)]
      by (intro that [of "mPosLoopQueue b"]) (auto simp: getBufferPositionAndLoopCount_def try_poll_def)
  next
    case False
    then have content: "cell_content (mPosLoopQueue b) = pos_words (server_pos s)"
      using assms(1) by (simp add: pos_known_def)
    obtain q where q: "cell_poll (mPosLoopQueue b) = (Some (pos_words (server_pos s)), q)" "cell_okay q"
        "cell_unseen q = 0" "cell_fits q [0, 0]"
      using ssq.get_some [OF ok(1)] cell_unseen_bound [of "mPosLoopQueue b"] False ok(2) content by auto
    then show thesis using acked by (intro that [of q]) (auto simp: getBufferPositionAndLoopCount_def try_poll_def)
  qed
qed


section \<open>One operation\<close>

datatype client_op = Op_loop nat nat u32 | Op_position nat | Op_both nat nat nat u32

text \<open>What \<open>AudioTrack::setLoop\<close> and \<open>setPosition\<close> let through.\<close>

definition valid_loop :: "nat \<Rightarrow> nat \<Rightarrow> nat \<Rightarrow> u32 \<Rightarrow> bool" where
  "valid_loop fc ls le n \<longleftrightarrow> int ls \<le> UINT32_MAX \<and> int le \<le> UINT32_MAX \<and>
     (n = 0 \<or> -1 \<le> sint n \<and> ls < le \<and> le \<le> fc \<and> MIN_LOOP \<le> le - ls)"

fun valid_op :: "nat \<Rightarrow> client_op \<Rightarrow> bool" where
  "valid_op fc (Op_loop ls le n) = valid_loop fc ls le n"
| "valid_op fc (Op_position p) = (p \<le> fc)"
| "valid_op fc (Op_both p ls le n) = (valid_loop fc ls le n \<and> p \<le> fc)"

fun client_does :: "client_op \<Rightarrow> static_cblk \<Rightarrow> static_client \<Rightarrow> static_cblk \<times> static_client" where
  "client_does (Op_loop ls le n) b c = setLoop False ls le n b c"
| "client_does (Op_position p) b c = setBufferPosition False p b c"
| "client_does (Op_both p ls le n) b c = setBufferPositionAndLoop False False p ls le n b c"

text \<open>The state that waits in the queue, and what the server makes of it.\<close>

definition sent :: "static_cblk \<Rightarrow> static_state \<Rightarrow> bool" where
  "sent b st \<longleftrightarrow> cell_okay (mSingleStateQueue b) \<and> cell_unseen (mSingleStateQueue b) \<noteq> 0 \<and>
     cell_fits (mSingleStateQueue b) (state_words zero_state) \<and> cell_content (mSingleStateQueue b) = state_words st"

lemma sent_push:
  assumes "cell_okay (mSingleStateQueue b)" "cell_unseen (mSingleStateQueue b) < 5"
    "cell_fits (mSingleStateQueue b) (state_words zero_state)"
  shows "sent (fst (push_state b c)) (mState c)"
    "cell_unseen (mSingleStateQueue (fst (push_state b c))) = Suc (cell_unseen (mSingleStateQueue b))"
proof -
  have fits: "cell_fits (mSingleStateQueue b) (state_words (mState c))" using assms(3) by (simp add: cell_fits_def)
  have "Suc (cell_unseen (mSingleStateQueue b)) < 2 ^ 31" using assms(2) by simp
  note push = cell_push_okay [OF assms(1) fits this]
  show "sent (fst (push_state b c)) (mState c)"
    "cell_unseen (mSingleStateQueue (fst (push_state b c))) = Suc (cell_unseen (mSingleStateQueue b))"
    using push assms(3) by (simp_all add: push_state_def sent_def)
qed

lemma poll_sent:
  assumes "sent b st" "server_ok s" "adopt (mFrameCount s) (svState s) st = Some st'"
    "cell_okay (mPosLoopQueue b)" "cell_fits (mPosLoopQueue b) [0, 0]" "Suc (cell_unseen (mPosLoopQueue b)) < 2 ^ 31"
  obtains b' s' where "pollPosition False b s = (b', s', int (pos st'))" "svState s' = st'" "server_ok s'"
    "queue_ready b'" "cell_unseen (mSingleStateQueue b') = 0" "cell_acted (mSingleStateQueue b')"
    "cell_okay (mPosLoopQueue b')" "cell_fits (mPosLoopQueue b') [0, 0]" "cell_unseen (mPosLoopQueue b') \<noteq> 0"
    "cell_content (mPosLoopQueue b') = pos_words (server_pos s')"
proof -
  have q: "cell_okay (mSingleStateQueue b)" "0 < cell_unseen (mSingleStateQueue b)"
      "cell_content (mSingleStateQueue b) = state_words st"
      "cell_fits (mSingleStateQueue b) (state_words zero_state)"
    using assms(1) by (simp_all add: sent_def)
  obtain q' where q': "cell_poll (mSingleStateQueue b) = (Some (state_words st), q')" "cell_okay (cell_done q')"
      "cell_unseen (cell_done q') = 0" "cell_acted (cell_done q')" "cell_fits (cell_done q') (state_words zero_state)"
    by (rule ssq.delivered [OF q(1,2) cell_unseen_bound, where u = "state_words zero_state"])
      (rule that, simp_all add: q(3,4))
  define s' where "s' = s\<lparr>svState := st', mFramesReady := frames_left (mFrameCount s) st' (mFramesReady s),
      mFramesReadySafe := clampToSize (frames_left (mFrameCount s) st' (mFramesReady s))\<rparr>"
  define b' where "b' = finish_poll (push_pos (b\<lparr>mSingleStateQueue := q'\<rparr>) s')"
  have poll: "pollPosition False b s = (b', s', int (pos st'))"
    using assms(3) q'(1) by (simp add: pollPosition_def try_poll_def Let_def s'_def b'_def)
  have fits: "cell_fits (mPosLoopQueue b) (pos_words (server_pos s'))" using assms(5) by (simp add: cell_fits_def)
  note push = cell_push_okay [OF assms(4) fits assms(6)]
  have "server_ok s'" by (rule poll_ok(1) [OF poll assms(2)])
  then show thesis using that [OF poll] push q' assms(5)
    by (simp add: s'_def b'_def finish_poll_def push_pos_def queue_ready_def server_pos_def)
qed


text \<open>The state that the server adopts.\<close>

definition with_loop :: "static_state \<Rightarrow> static_state \<Rightarrow> static_state" where
  "with_loop u st = st\<lparr>mPosition := (if mLoopCount u \<noteq> 0 \<and> mLoopEnd u \<le> mPosition st then mLoopStart u else mPosition st),
     mLoopCount := mLoopCount u, mLoopEnd := mLoopEnd u, mLoopStart := mLoopStart u, mLoopSequence := mLoopSequence u\<rparr>"

definition with_position :: "static_state \<Rightarrow> static_state \<Rightarrow> static_state" where
  "with_position u st = st\<lparr>mLoopCount := (if mLoopEnd st \<le> mPosition u then 0 else mLoopCount st),
     mPosition := mPosition u, mPositionSequence := mPositionSequence u\<rparr>"

lemma update_loop:
  assumes "mLoopSequence st \<noteq> mLoopSequence u" "pos st \<le> fc"
    "mLoopCount u = 0 \<or> -1 \<le> sint (mLoopCount u) \<and> lstart u < lend u \<and> lend u \<le> fc \<and> MIN_LOOP \<le> lend u - lstart u"
  shows "updateStateWithLoop fc st u = Some (with_loop u st)"
  using assms by (auto simp: updateStateWithLoop_def with_loop_def Let_def word_le_nat_alt)

lemma update_position:
  assumes "mPositionSequence st \<noteq> mPositionSequence u" "pos u \<le> fc"
  shows "updateStateWithPosition fc st u = Some (with_position u st)"
  using assms by (auto simp: updateStateWithPosition_def with_position_def)

lemma adopt_loop:
  assumes "mPositionSequence u = mPositionSequence st"
    "mLoopSequence u = incrementSequence (mLoopSequence st) (mPositionSequence st)" "pos st \<le> fc"
    "mLoopCount u = 0 \<or> -1 \<le> sint (mLoopCount u) \<and> lstart u < lend u \<and> lend u \<le> fc \<and> MIN_LOOP \<le> lend u - lstart u"
  shows "adopt fc st u = Some (with_loop u st)"
proof -
  have "mLoopSequence st \<noteq> mLoopSequence u" using incrementSequence_ahead(3) assms(2) by metis
  moreover have "\<not> sint (mLoopSequence u - mPositionSequence u) < 0"
    using incrementSequence_ahead(1) [of "mLoopSequence st" "mPositionSequence st"] assms(1,2) by simp
  ultimately show ?thesis using update_loop [OF _ assms(3,4)] assms(1)
    by (simp add: adopt_def updateStateWithPosition_def)
qed

lemma adopt_position:
  assumes "mLoopSequence u = mLoopSequence st"
    "mPositionSequence u = incrementSequence (mPositionSequence st) (mLoopSequence st)" "pos u \<le> fc"
  shows "adopt fc st u = Some (with_position u st)"
proof -
  have "mPositionSequence st \<noteq> mPositionSequence u" using incrementSequence_ahead(3) assms(2) by metis
  moreover have "sint (mLoopSequence u - mPositionSequence u) < 0"
    using incrementSequence_ahead(2) assms(1,2) by simp
  ultimately show ?thesis using update_position [OF _ assms(3)] assms(1)
    by (simp add: adopt_def updateStateWithLoop_def)
qed

lemma adopt_both:
  assumes "mLoopSequence u = incrementSequence (mLoopSequence st) (mPositionSequence st)"
    "mPositionSequence u = incrementSequence (mPositionSequence st) (mLoopSequence u)" "pos st \<le> fc" "pos u \<le> fc"
    "mLoopCount u = 0 \<or> -1 \<le> sint (mLoopCount u) \<and> lstart u < lend u \<and> lend u \<le> fc \<and> MIN_LOOP \<le> lend u - lstart u"
  shows "adopt fc st u = Some (with_position u (with_loop u st))"
proof -
  have "mPositionSequence st \<noteq> mPositionSequence u" using incrementSequence_ahead(3) assms(2) by metis
  moreover have "mLoopSequence st \<noteq> mLoopSequence u" using incrementSequence_ahead(3) assms(1) by metis
  moreover have "sint (mLoopSequence u - mPositionSequence u) < 0"
    using incrementSequence_ahead(2) assms(2) by simp
  moreover have "mPositionSequence (with_loop u st) = mPositionSequence st" by (simp add: with_loop_def)
  ultimately show ?thesis using update_position [OF _ assms(4)] update_loop [OF _ assms(3,5)]
    by (simp add: adopt_def)
qed

text \<open>
  What a client operation leaves behind: the state that waits, the position queue in order, and a
  prediction that is what the server will adopt.
\<close>

definition predicted :: "static_cblk \<Rightarrow> static_client \<Rightarrow> static_server \<Rightarrow> static_state \<Rightarrow> bool" where
  "predicted b c s st' \<longleftrightarrow> sent b (mState c) \<and> cell_okay (mPosLoopQueue b) \<and> cell_fits (mPosLoopQueue b) [0, 0] \<and>
     Suc (cell_unseen (mPosLoopQueue b)) < 2 ^ 31 \<and> adopt (mFrameCount s) (svState s) (mState c) = Some st' \<and>
     mPosLoop c = \<lparr>mBufferPosition = mPosition st', plLoopCount = mLoopCount st'\<rparr> \<and>
     mLoopSequence (mState c) = mLoopSequence st' \<and> mPositionSequence (mState c) = mPositionSequence st' \<and>
     mLoopEnd (mState c) = mLoopEnd st' \<and> (0 < sint (mLoopCount (mState c)) \<or> sint (mLoopCount st') \<le> 0)"

lemma predicted_exact:
  assumes "predicted b c s st'" "server_ok s"
  shows "\<exists>b' s'. pollPosition False b s = (b', s', int (pos st')) \<and> server_pos s' = mPosLoop c \<and> in_step b' c s'"
proof -
  have p: "sent b (mState c)" "adopt (mFrameCount s) (svState s) (mState c) = Some st'"
      "cell_okay (mPosLoopQueue b)" "cell_fits (mPosLoopQueue b) [0, 0]" "Suc (cell_unseen (mPosLoopQueue b)) < 2 ^ 31"
    using assms(1) by (simp_all add: predicted_def)
  show ?thesis
    by (rule poll_sent [OF p(1) assms(2) p(2-5)])
      (use assms(1) in \<open>auto simp: predicted_def in_step_def server_pos_def pos_known_def same_state_def count_known_def\<close>)
qed


lemma unat_of_nat_small: "int n \<le> UINT32_MAX \<Longrightarrow> unat (of_nat n :: u32) = n"
  by (simp add: UINT32_MAX_def unat_of_nat)

lemma push_state_parts:
  "mPosLoopQueue (fst (push_state b c)) = mPosLoopQueue b" "snd (push_state b c) = c"
  by (simp_all add: push_state_def)

lemma loop_predicted:
  assumes "in_step b c s" "valid_loop (mFrameCount s) ls le n" "setLoop False ls le n b c = (b1, c1)"
  shows "predicted b1 c1 s (with_loop (mState c1) (svState s))"
    "cell_unseen (mSingleStateQueue b1) = 1" "mPositionSequence (mState c1) = mPositionSequence (svState s)"
    "mLoopSequence (mState c1) = incrementSequence (mLoopSequence (svState s)) (mPositionSequence (svState s))"
    "mLoopCount (mState c1) = n" "mLoopEnd (mState c1) = of_nat le" "mLoopStart (mState c1) = of_nat ls"
proof -
  have i: "server_ok s" "queue_ready b" "cell_unseen (mSingleStateQueue b) = 0" "cell_acted (mSingleStateQueue b)"
      "pos_known b c s" "same_state c s"
    using assms(1) by (simp_all add: in_step_def)
  define u where "u = (mState c)\<lparr>mLoopStart := of_nat ls, mLoopEnd := of_nat le, mLoopCount := n,
      mLoopSequence := incrementSequence (mLoopSequence (mState c)) (mPositionSequence (mState c))\<rparr>"
  have "pos_known b (c\<lparr>mState := u\<rparr>) s" using i(5) by (simp add: pos_known_def)
  then obtain q where q: "getBufferPositionAndLoopCount False b (c\<lparr>mState := u\<rparr>) =
      (b\<lparr>mPosLoopQueue := q\<rparr>, c\<lparr>mState := u, mPosLoop := server_pos s\<rparr>)"
      "cell_okay q" "cell_fits q [0, 0]" "cell_unseen q = 0"
    by (rule get_in_step [OF _ i(2-4)]) (rule that, assumption+)
  have range: "int ls \<le> UINT32_MAX" "int le \<le> UINT32_MAX" using assms(2) by (simp_all add: valid_loop_def)
  define p where "p = \<lparr>mBufferPosition = (if n \<noteq> 0 \<and> of_nat le \<le> mPosition (svState s) then of_nat ls else mPosition (svState s)),
      plLoopCount = n\<rparr>"
  define b0 where "b0 = b\<lparr>mPosLoopQueue := q\<rparr>"
  define cc where "cc = c\<lparr>mState := u, mPosLoop := p\<rparr>"
  have eq: "setLoop False ls le n b c = push_state b0 cc"
    using range q(1) by (simp add: setLoop_def Let_def server_pos_def p_def b0_def cc_def flip: u_def) (simp add: u_def)
  then have b1: "b1 = fst (push_state b0 cc)" and c1: "c1 = cc"
    using assms(3) push_state_parts(2) [of b0 cc] by (auto simp: prod_eq_iff)
  have sent: "sent b1 u" "cell_unseen (mSingleStateQueue b1) = 1"
    using sent_push [of b0 cc] i(2,3) b1 by (simp_all add: queue_ready_def b0_def cc_def)
  have st: "pos (svState s) \<le> mFrameCount s" using i(1) by (simp add: server_ok_def state_ok_def)
  have seq: "mPositionSequence u = mPositionSequence (svState s)"
      "mLoopSequence u = incrementSequence (mLoopSequence (svState s)) (mPositionSequence (svState s))"
    using i(6) by (simp_all add: u_def same_state_def)
  have "mLoopCount u = 0 \<or> -1 \<le> sint (mLoopCount u) \<and> lstart u < lend u \<and> lend u \<le> mFrameCount s \<and>
      MIN_LOOP \<le> lend u - lstart u"
    using assms(2) range by (auto simp: u_def valid_loop_def unat_of_nat_small)
  then have adopt: "adopt (mFrameCount s) (svState s) u = Some (with_loop u (svState s))"
    by (rule adopt_loop [OF seq st])
  show "predicted b1 c1 s (with_loop (mState c1) (svState s))"
  proof -
    have parts: "mState c1 = u" "mPosLoop c1 = p" "mPosLoopQueue b1 = q"
      by (simp_all add: b1 c1 push_state_parts b0_def cc_def)
    have "p = \<lparr>mBufferPosition = mPosition (with_loop u (svState s)), plLoopCount = mLoopCount (with_loop u (svState s))\<rparr>"
      by (simp add: p_def with_loop_def u_def)
    moreover have "mLoopSequence u = mLoopSequence (with_loop u (svState s))"
        "mPositionSequence u = mPositionSequence (with_loop u (svState s))" "mLoopEnd u = mLoopEnd (with_loop u (svState s))"
        "0 < sint (mLoopCount u) \<or> sint (mLoopCount (with_loop u (svState s))) \<le> 0"
      using seq(1) by (auto simp: with_loop_def)
    ultimately show ?thesis using sent(1) adopt q(2-4) unfolding predicted_def parts by simp
  qed
  show "cell_unseen (mSingleStateQueue b1) = 1" by (rule sent(2))
  show "mPositionSequence (mState c1) = mPositionSequence (svState s)"
    "mLoopSequence (mState c1) = incrementSequence (mLoopSequence (svState s)) (mPositionSequence (svState s))"
    "mLoopCount (mState c1) = n" "mLoopEnd (mState c1) = of_nat le" "mLoopStart (mState c1) = of_nat ls"
    using seq by (simp_all add: c1 cc_def u_def)
qed


text \<open>The client state and the prediction after \<open>setBufferPosition\<close> with the last position known.\<close>

definition moved :: "nat \<Rightarrow> static_client \<Rightarrow> static_client" where
  "moved p c =
     c\<lparr>mState := (mState c)\<lparr>mPosition := of_nat p,
         mPositionSequence := incrementSequence (mPositionSequence (mState c)) (mLoopSequence (mState c))\<rparr>,
       mPosLoop := \<lparr>mBufferPosition = of_nat p,
         plLoopCount = (if mLoopEnd (mState c) \<le> of_nat p then 0 else plLoopCount (mPosLoop c))\<rparr>\<rparr>"

lemma of_nat_le_word: "int p \<le> UINT32_MAX \<Longrightarrow> (w :: u32) \<le> of_nat p \<longleftrightarrow> unat w \<le> p"
  by (simp add: word_le_nat_alt unat_of_nat_small)

lemma setBufferPosition_moved:
  assumes "int p \<le> UINT32_MAX"
    and u: "u = (mState c)\<lparr>mPosition := of_nat p,
          mPositionSequence := incrementSequence (mPositionSequence (mState c)) (mLoopSequence (mState c))\<rparr>"
    and get: "(if 0 < sint (mLoopCount (mState c)) then getBufferPositionAndLoopCount busy b (c\<lparr>mState := u\<rparr>)
      else (b, c\<lparr>mState := u\<rparr>)) = (b', c\<lparr>mState := u, mPosLoop := l\<rparr>)"
  shows "setBufferPosition busy p b c = push_state b' (moved p (c\<lparr>mPosLoop := l\<rparr>))"
proof -
  have count: "mLoopCount u = mLoopCount (mState c)" "mLoopEnd u = mLoopEnd (mState c)" by (simp_all add: u)
  have moved: "moved p (c\<lparr>mPosLoop := l\<rparr>) = c\<lparr>mState := u, mPosLoop := \<lparr>mBufferPosition = of_nat p,
      plLoopCount = (if mLoopEnd (mState c) \<le> of_nat p then 0 else plLoopCount l)\<rparr>\<rparr>"
    by (simp add: moved_def u)
  have l: "l = \<lparr>mBufferPosition = mBufferPosition l, plLoopCount = plLoopCount l\<rparr>" by simp
  show ?thesis
    unfolding setBufferPosition_def Let_def u [symmetric] moved
    using assms(1) get by (cases l) (simp add: count of_nat_le_word)
qed

lemma position_predicted:
  assumes "in_step b c s" "p \<le> mFrameCount s" "setBufferPosition False p b c = (b1, c1)"
    "Suc (cell_unseen (mPosLoopQueue b)) < 2 ^ 31"
  shows "predicted b1 c1 s (with_position (mState c1) (svState s))"
proof -
  have i: "server_ok s" "queue_ready b" "cell_unseen (mSingleStateQueue b) = 0" "cell_acted (mSingleStateQueue b)"
      "pos_known b c s" "same_state c s" "count_known c s"
    using assms(1) by (simp_all add: in_step_def)
  define u where "u = (mState c)\<lparr>mPosition := of_nat p,
      mPositionSequence := incrementSequence (mPositionSequence (mState c)) (mLoopSequence (mState c))\<rparr>"
  have range: "int p \<le> UINT32_MAX" using assms(2) i(1) by (simp add: server_ok_def UINT32_MAX_def)
  have "\<exists>q l. (if 0 < sint (mLoopCount (mState c)) then getBufferPositionAndLoopCount False b (c\<lparr>mState := u\<rparr>)
        else (b, c\<lparr>mState := u\<rparr>)) = (b\<lparr>mPosLoopQueue := q\<rparr>, c\<lparr>mState := u, mPosLoop := l\<rparr>) \<and>
      cell_okay q \<and> cell_fits q [0, 0] \<and> Suc (cell_unseen q) < 2 ^ 31 \<and> plLoopCount l = mLoopCount (svState s) \<and>
      (0 < sint (mLoopCount (mState c)) \<or> sint (mLoopCount (svState s)) \<le> 0)"
  proof (cases "0 < sint (mLoopCount (mState c))")
    case True
    have "pos_known b (c\<lparr>mState := u\<rparr>) s" using i(5) by (simp add: pos_known_def)
    then obtain q where "getBufferPositionAndLoopCount False b (c\<lparr>mState := u\<rparr>) =
        (b\<lparr>mPosLoopQueue := q\<rparr>, c\<lparr>mState := u, mPosLoop := server_pos s\<rparr>)"
        "cell_okay q" "cell_fits q [0, 0]" "cell_unseen q = 0"
      by (rule get_in_step [OF _ i(2-4)]) (rule that, assumption+)
    then show ?thesis using True by (intro exI [of _ q] exI [of _ "server_pos s"]) (simp add: server_pos_def)
  next
    case False
    then show ?thesis using i(5,7) assms(4)
      by (intro exI [of _ "mPosLoopQueue b"] exI [of _ "mPosLoop c"]) (simp add: pos_known_def count_known_def)
  qed
  then obtain q l where g: "(if 0 < sint (mLoopCount (mState c)) then getBufferPositionAndLoopCount False b (c\<lparr>mState := u\<rparr>)
        else (b, c\<lparr>mState := u\<rparr>)) = (b\<lparr>mPosLoopQueue := q\<rparr>, c\<lparr>mState := u, mPosLoop := l\<rparr>)"
      and q: "cell_okay q" "cell_fits q [0, 0]" "Suc (cell_unseen q) < 2 ^ 31"
      and l: "plLoopCount l = mLoopCount (svState s)"
        "0 < sint (mLoopCount (mState c)) \<or> sint (mLoopCount (svState s)) \<le> 0"
    by blast
  define cc where "cc = moved p (c\<lparr>mPosLoop := l\<rparr>)"
  have eq: "setBufferPosition False p b c = push_state (b\<lparr>mPosLoopQueue := q\<rparr>) cc"
    using setBufferPosition_moved [OF range u_def g] by (simp add: cc_def)
  then have b1: "b1 = fst (push_state (b\<lparr>mPosLoopQueue := q\<rparr>) cc)" and c1: "c1 = cc"
    using assms(3) push_state_parts(2) [of "b\<lparr>mPosLoopQueue := q\<rparr>" cc] by (auto simp: prod_eq_iff)
  have parts: "mState c1 = u" "mPosLoopQueue b1 = q"
      "mPosLoop c1 = \<lparr>mBufferPosition = mPosition u, plLoopCount = (if mLoopEnd u \<le> mPosition u then 0 else plLoopCount l)\<rparr>"
    by (simp_all add: b1 c1 push_state_parts cc_def moved_def u_def)
  have sent: "sent b1 u"
    using sent_push(1) [of "b\<lparr>mPosLoopQueue := q\<rparr>" cc] i(2,3) b1 parts(1) c1 by (simp add: queue_ready_def)
  have seq: "mLoopSequence u = mLoopSequence (svState s)"
      "mPositionSequence u = incrementSequence (mPositionSequence (svState s)) (mLoopSequence (svState s))"
      "mLoopEnd u = mLoopEnd (svState s)" "mLoopCount u = mLoopCount (mState c)"
    using i(6) by (simp_all add: u_def same_state_def)
  have "pos u \<le> mFrameCount s" using assms(2) range by (simp add: u_def unat_of_nat_small)
  note adopt = adopt_position [OF seq(1,2) this]
  have "mPosLoop c1 = \<lparr>mBufferPosition = mPosition (with_position u (svState s)),
      plLoopCount = mLoopCount (with_position u (svState s))\<rparr>"
    using seq(3) l(1) by (simp add: parts with_position_def)
  moreover have "mLoopSequence u = mLoopSequence (with_position u (svState s))"
      "mPositionSequence u = mPositionSequence (with_position u (svState s))"
      "mLoopEnd u = mLoopEnd (with_position u (svState s))"
      "0 < sint (mLoopCount u) \<or> sint (mLoopCount (with_position u (svState s))) \<le> 0"
    using seq l(2) by (auto simp: with_position_def)
  ultimately show ?thesis using sent adopt q unfolding predicted_def parts(1,2) by simp
qed


text \<open>A second state pushed over the first: the prediction of \<open>setLoop\<close> is the base of the second.\<close>

lemma both_predicted:
  assumes "in_step b c s" "valid_loop (mFrameCount s) ls le n" "p \<le> mFrameCount s"
    "setBufferPositionAndLoop False False p ls le n b c = (b1, c1)"
  shows "predicted b1 c1 s (with_position (mState c1) (with_loop (mState c1) (svState s)))"
proof -
  obtain b0 c0 where first: "setLoop False ls le n b c = (b0, c0)" by fastforce
  note loop = loop_predicted [OF assms(1,2) first]
  have ok: "server_ok s" using assms(1) by (simp add: in_step_def)
  have range: "int p \<le> UINT32_MAX" using assms(3) ok by (simp add: server_ok_def UINT32_MAX_def)
  have p0: "sent b0 (mState c0)" "cell_okay (mPosLoopQueue b0)" "cell_fits (mPosLoopQueue b0) [0, 0]"
      "Suc (cell_unseen (mPosLoopQueue b0)) < 2 ^ 31"
      "mPosLoop c0 = \<lparr>mBufferPosition = mPosition (with_loop (mState c0) (svState s)), plLoopCount = mLoopCount (mState c0)\<rparr>"
    using loop(1) by (simp_all add: predicted_def with_loop_def)
  define u where "u = (mState c0)\<lparr>mPosition := of_nat p,
      mPositionSequence := incrementSequence (mPositionSequence (mState c0)) (mLoopSequence (mState c0))\<rparr>"
  have "cell_ack (mSingleStateQueue b0) \<noteq> SSQ_DONE" using p0(1) by (simp add: sent_def cell_ack_okay)
  then have get: "(if 0 < sint (mLoopCount (mState c0)) then getBufferPositionAndLoopCount False b0 (c0\<lparr>mState := u\<rparr>)
        else (b0, c0\<lparr>mState := u\<rparr>)) = (b0, c0\<lparr>mState := u, mPosLoop := mPosLoop c0\<rparr>)"
    by (simp add: getBufferPositionAndLoopCount_def)
  define cc where "cc = moved p c0"
  have "setBufferPosition False p b0 c0 = push_state b0 cc"
    using setBufferPosition_moved [OF range u_def get] by (simp add: cc_def)
  then have b1: "b1 = fst (push_state b0 cc)" and c1: "c1 = cc"
    using assms(4) first push_state_parts(2) [of b0 cc] by (auto simp: setBufferPositionAndLoop_def prod_eq_iff)
  have parts: "mState c1 = u" "mPosLoopQueue b1 = mPosLoopQueue b0"
      "mPosLoop c1 = \<lparr>mBufferPosition = mPosition u, plLoopCount = (if mLoopEnd u \<le> mPosition u then 0 else mLoopCount u)\<rparr>"
    using p0(5) by (simp_all add: b1 c1 push_state_parts cc_def moved_def u_def)
  have sent: "sent b1 u"
    using sent_push(1) [of b0 cc] p0(1) loop(2) b1 parts(1) c1 by (simp add: sent_def)
  have same: "mLoopStart u = of_nat ls" "mLoopEnd u = of_nat le" "mLoopCount u = n"
    using loop(5-7) by (simp_all add: u_def)
  have seq: "mLoopSequence u = incrementSequence (mLoopSequence (svState s)) (mPositionSequence (svState s))"
      "mPositionSequence u = incrementSequence (mPositionSequence (svState s)) (mLoopSequence u)"
    using loop(3,4) by (simp_all add: u_def)
  have st: "pos (svState s) \<le> mFrameCount s" "pos u \<le> mFrameCount s"
    using ok assms(3) range by (simp_all add: server_ok_def state_ok_def u_def unat_of_nat_small)
  have "mLoopCount u = 0 \<or> -1 \<le> sint (mLoopCount u) \<and> lstart u < lend u \<and> lend u \<le> mFrameCount s \<and>
      MIN_LOOP \<le> lend u - lstart u"
    using assms(2) by (auto simp: same valid_loop_def unat_of_nat_small)
  note adopt = adopt_both [OF seq st this]
  let ?w = "with_position u (with_loop u (svState s))"
  have "mPosLoop c1 = \<lparr>mBufferPosition = mPosition ?w, plLoopCount = mLoopCount ?w\<rparr>"
    by (simp add: parts with_position_def with_loop_def)
  moreover have "mLoopSequence u = mLoopSequence ?w" "mPositionSequence u = mPositionSequence ?w"
      "mLoopEnd u = mLoopEnd ?w" "0 < sint (mLoopCount u) \<or> sint (mLoopCount ?w) \<le> 0"
    by (auto simp: with_position_def with_loop_def)
  ultimately show ?thesis using sent adopt p0(2-4) unfolding predicted_def parts(1,2) by simp
qed



text \<open>Playing on keeps a track in step.\<close>

lemma sint_le_0: "-1 \<le> sint (w :: u32) \<Longrightarrow> sint w \<le> 0 \<Longrightarrow> w = 0 \<or> w = -1"
proof -
  assume "-1 \<le> sint w" "sint w \<le> 0"
  then have "sint w = sint (0 :: u32) \<or> sint w = sint (-1 :: u32)" by auto
  then show ?thesis by (metis signed_word_eqI)
qed

lemma advance_known:
  "mLoopSequence (advance n st) = mLoopSequence st" "mPositionSequence (advance n st) = mPositionSequence st"
  "mLoopEnd (advance n st) = mLoopEnd st"
  "-1 \<le> sint (mLoopCount st) \<Longrightarrow> sint (mLoopCount st) \<le> 0 \<Longrightarrow> mLoopCount (advance n st) = mLoopCount st"
  using sint_le_0 [of "mLoopCount st"] by (auto simp: advance_def looping_def)

lemma release_queue:
  assumes "static_release n b s = Some (b', s')" "n \<noteq> 0"
  shows "mSingleStateQueue b' = mSingleStateQueue b"
    "mPosLoopQueue b' = cell_push (pos_words (server_pos s')) (mPosLoopQueue b)"
  using assms by (auto simp: static_release_def push_pos_def server_pos_def Let_def split: if_splits)

lemma in_step_release:
  assumes "in_step b c s" "holding_ok s" "n \<le> mUnreleased s" "Suc (cell_unseen (mPosLoopQueue b)) < 2 ^ 31"
  obtains b' s' where "static_release n b s = Some (b', s')" "in_step b' c s'" "holding_ok s'"
proof -
  have i: "server_ok s" "queue_ready b" "cell_unseen (mSingleStateQueue b) = 0" "cell_acted (mSingleStateQueue b)"
      "pos_known b c s" "same_state c s" "count_known c s"
    using assms(1) by (simp_all add: in_step_def)
  obtain b' s' where r: "static_release n b s = Some (b', s')"
    and ok: "server_ok s'" "holding_ok s'" "svState s' = advance n (svState s)"
    by (rule release_held_ok [OF i(1) assms(2,3), of b]) (rule that, assumption+)
  have count: "-1 \<le> sint (mLoopCount (svState s))" using i(1) by (simp add: server_ok_def state_ok_def)
  show thesis
  proof (cases "n = 0")
    case True
    then have "b' = b" "s' = s" using r by (auto simp: static_release_def split: if_splits)
    then show ?thesis using that r assms(1,2) by simp
  next
    case False
    note q = release_queue [OF r False]
    have pos: "cell_okay (mPosLoopQueue b)" "cell_fits (mPosLoopQueue b) [0, 0]"
      using i(5) by (simp_all add: pos_known_def)
    then have "cell_fits (mPosLoopQueue b) (pos_words (server_pos s'))" by (simp add: cell_fits_def)
    note push = cell_push_okay [OF pos(1) this assms(4)]
    have "pos_known b' c s'" using push pos(2) by (simp add: pos_known_def q)
    moreover have "same_state c s'" using i(6) by (simp add: same_state_def ok(3) advance_known)
    moreover have "count_known c s'" using i(7) advance_known(4) [OF count] by (auto simp: count_known_def ok(3))
    ultimately have "in_step b' c s'" using ok i(2-4) by (simp add: in_step_def queue_ready_def q)
    then show ?thesis using that r ok(2) by blast
  qed
qed

definition moving_run :: "static_action list" where
  "moving_run = [S_loop False 0 16 2, S_obtain False 5 False, S_release 5]"

lemma moving_run_in_step:
  obtains t where "static_reach small_static t" "in_step (stBlk t) (stCli t) (stSrv t)"
    "cell_unseen (mPosLoopQueue (stBlk t)) = 2" "mFrameCount (stSrv t) = 20"
    "mPosition (svState (stSrv t)) = 5"
proof -
  have "map_option (\<lambda>t. (mFrameCount (stSrv t), queue_ready (stBlk t), cell_unseen (mSingleStateQueue (stBlk t)),
      cell_acted (mSingleStateQueue (stBlk t)), pos_known (stBlk t) (stCli t) (stSrv t), same_state (stCli t) (stSrv t),
      count_known (stCli t) (stSrv t), cell_unseen (mPosLoopQueue (stBlk t)), mPosition (svState (stSrv t))))
    (static_run moving_run small_static) = Some (20, True, 0, True, True, True, True, 2, 5)"
    by code_simp
  then obtain t where t: "static_run moving_run small_static = Some t" "mFrameCount (stSrv t) = 20"
      "queue_ready (stBlk t)" "cell_unseen (mSingleStateQueue (stBlk t)) = 0"
      "cell_acted (mSingleStateQueue (stBlk t))" "pos_known (stBlk t) (stCli t) (stSrv t)" "same_state (stCli t) (stSrv t)"
      "count_known (stCli t) (stSrv t)" "cell_unseen (mPosLoopQueue (stBlk t)) = 2" "mPosition (svState (stSrv t)) = 5"
    by auto
  have reach: "static_reach small_static t" by (rule static_run_reach [OF t(1) static_reach.begun])
  then have "server_ok (stSrv t)"
    using static_reach_inv [of "\<lambda>n. n" 20 4 t] by (simp add: small_static_def static_inv_def)
  then show thesis using that reach t by (simp add: in_step_def)
qed


section \<open>Where the prediction fails\<close>

text \<open>What the server does, and a client that only asks.\<close>

fun quiet :: "static_action \<Rightarrow> bool" where
  "quiet (S_loop _ _ _ _) = False"
| "quiet (S_position _ _) = False"
| "quiet (S_both _ _ _ _ _ _) = False"
| "quiet (S_scribble _) = False"
| "quiet _ = True"

definition untouched :: "static_track \<Rightarrow> bool" where
  "untouched t \<longleftrightarrow> mSingleStateQueue (stBlk t) = cell_init (replicate 6 0) \<and>
     mPosLoop (stCli t) = \<lparr>mBufferPosition = 0, plLoopCount = 0\<rparr>"

lemma poll_untouched:
  assumes "mSingleStateQueue b = cell_init (replicate 6 0)"
  shows "pollPosition busy b s = (b, s, uint (mPosition (svState s)))"
proof -
  have "cell_poll (cell_init (replicate 6 (0 :: u32))) = (None, cell_init (replicate 6 0))"
    by (simp add: cell_poll_okay cell_init_okay cell_unseen_0) (simp add: cell_init_def ssq_init_def)
  then show ?thesis using assms by (auto simp: pollPosition_def try_poll_def)
qed

lemma get_untouched:
  assumes "mSingleStateQueue b = cell_init (replicate 6 0)"
  shows "getBufferPositionAndLoopCount busy b c = (b, c)"
proof -
  have "cell_ack (cell_init (replicate 6 (0 :: u32))) = SSQ_READ" by code_simp
  then show ?thesis using assms by (simp add: getBufferPositionAndLoopCount_def)
qed

lemma untouched_step: "static_exec a t = Some t' \<Longrightarrow> quiet a \<Longrightarrow> untouched t \<Longrightarrow> untouched t'"
proof (cases a)
  case (S_release n)
  assume "static_exec a t = Some t'" "untouched t"
  then show ?thesis using S_release
    by (auto simp: untouched_def static_release_def push_pos_def Let_def split: if_splits bind_splits)
next
  case (S_obtain busy want ackFlush)
  assume "static_exec a t = Some t'" "untouched t"
  then show ?thesis using S_obtain
    by (auto simp: untouched_def static_obtain_def poll_untouched Let_def split: if_splits bind_splits)
qed (auto simp: untouched_def static_framesReady_def poll_untouched get_untouched getBufferPosition_def
    static_tally_def split: if_splits)

text \<open>
  A client that never set a position or a loop reports position 0 for ever, however far the
  server has played: \<open>ack()\<close> of a queue that nothing was pushed to is not \<open>SSQ_DONE\<close>, so the
  server's position is never polled.
\<close>

theorem untouched_position_frozen:
  assumes "static_run as (static_start roundup fc fs) = Some t" "list_all quiet as"
  shows "getBufferPosition busy (stBlk t) (stCli t) = (stBlk t, stCli t, 0)"
proof -
  have "untouched t' \<Longrightarrow> static_run as t' = Some t \<Longrightarrow> list_all quiet as \<Longrightarrow> untouched t" for t'
    by (induction as arbitrary: t') (auto split: if_splits bind_splits intro: untouched_step)
  moreover have "untouched (static_start roundup fc fs)"
    by (simp add: untouched_def static_start_def static_track_cblk_def cblk.defs static_cblk.defs
        StaticAudioTrackClientProxy_def ClientProxy_def client.defs audio_track_cblk_def)
  ultimately have "untouched t" using assms by blast
  then show ?thesis by (simp add: untouched_def getBufferPosition_def get_untouched)
qed

theorem untouched_position_frozen_witness:
  "\<exists>t. static_run [S_obtain False 7 False, S_release 7, S_get False] small_static = Some t \<and>
     mPosition (svState (stSrv t)) = 7 \<and> getBufferPosition False (stBlk t) (stCli t) = (stBlk t, stCli t, 0)"
proof -
  have "map_option (\<lambda>t. mPosition (svState (stSrv t)))
      (static_run [S_obtain False 7 False, S_release 7, S_get False] small_static) = Some 7"
    by code_simp
  then obtain t where t: "static_run [S_obtain False 7 False, S_release 7, S_get False] small_static = Some t"
      "mPosition (svState (stSrv t)) = 7" by auto
  then show ?thesis using untouched_position_frozen [OF t(1) [unfolded small_static_def], of False] by simp
qed

text \<open>
  The result of two operations depends on whether the server polls between them. A position
  behind the loop and then one in front of its end stop the loop if the server sees both, and
  leave it running if it sees only the second; the client has told in the meantime that it
  stopped.
\<close>

theorem coalesced_positions_keep_loop:
  "map_option (\<lambda>t. (plLoopCount (mPosLoop (stCli t)), mLoopCount (svState (stSrv t))))
     (static_run [S_loop False 0 16 2, S_ready False, S_position False 18, S_ready False, S_position False 3,
        S_ready False, S_get False] small_static) = Some (0, 0) \<and>
   map_option (\<lambda>t. (plLoopCount (mPosLoop (stCli t)), mLoopCount (svState (stSrv t))))
     (static_run [S_loop False 0 16 2, S_ready False, S_position False 18, S_position False 3, S_get False]
        small_static) = Some (0, 2) \<and>
   map_option (\<lambda>t. (plLoopCount (mPosLoop (stCli t)), mLoopCount (svState (stSrv t))))
     (static_run [S_loop False 0 16 2, S_ready False, S_position False 18, S_position False 3,
        S_ready False, S_get False] small_static) = Some (2, 2)"
  by (intro conjI) code_simp+

end
