(* ===== verification/MtpPackets.thy ===== *)
theory MtpPackets
  imports AvPrelude
begin

text \<open>
  The packets of the Media Transfer Protocol: \<open>MtpPacket\<close> with its growing buffer and the container
  header, and \<open>MtpDataPacket\<close> with its typed put and get operations, media/mtp/MtpPacket.cpp and
  MtpDataPacket.cpp. Both ends of the protocol use them.

  A buffer is the list of its bytes; what \<open>malloc\<close> and \<open>realloc\<close> leave in memory is the parameter \<open>fresh\<close>.
  An access outside the buffer, and \<open>abort\<close>, are \<open>None\<close>. \<open>size_t\<close> has 64 bits: sizes are
  \<open>nat\<close>, and the subtraction that can pass below zero is written modulo \<open>2 ^ 64\<close>. A get operation returns
  \<open>None\<close> within its result where the code returns false.
\<close>

section \<open>MtpPacket\<close>

definition MTP_CONTAINER_LENGTH_OFFSET :: nat where "MTP_CONTAINER_LENGTH_OFFSET = 0"
definition MTP_CONTAINER_TYPE_OFFSET :: nat where "MTP_CONTAINER_TYPE_OFFSET = 4"
definition MTP_CONTAINER_CODE_OFFSET :: nat where "MTP_CONTAINER_CODE_OFFSET = 6"
definition MTP_CONTAINER_TRANSACTION_ID_OFFSET :: nat where "MTP_CONTAINER_TRANSACTION_ID_OFFSET = 8"
definition MTP_CONTAINER_PARAMETER_OFFSET :: nat where "MTP_CONTAINER_PARAMETER_OFFSET = 12"
definition MTP_CONTAINER_HEADER_SIZE :: nat where "MTP_CONTAINER_HEADER_SIZE = 12"
definition MTP_CONTAINER_TYPE_COMMAND :: u16 where "MTP_CONTAINER_TYPE_COMMAND = 1"
definition MTP_CONTAINER_TYPE_DATA :: u16 where "MTP_CONTAINER_TYPE_DATA = 2"
definition MTP_CONTAINER_TYPE_RESPONSE :: u16 where "MTP_CONTAINER_TYPE_RESPONSE = 3"
definition MTP_CONTAINER_TYPE_EVENT :: u16 where "MTP_CONTAINER_TYPE_EVENT = 4"

named_theorems mtp_consts

lemmas mtp_containers [mtp_consts] = MTP_CONTAINER_LENGTH_OFFSET_def MTP_CONTAINER_TYPE_OFFSET_def
  MTP_CONTAINER_CODE_OFFSET_def MTP_CONTAINER_TRANSACTION_ID_OFFSET_def
  MTP_CONTAINER_PARAMETER_OFFSET_def MTP_CONTAINER_HEADER_SIZE_def MTP_CONTAINER_TYPE_COMMAND_def
  MTP_CONTAINER_TYPE_DATA_def MTP_CONTAINER_TYPE_RESPONSE_def MTP_CONTAINER_TYPE_EVENT_def

record mtp_packet =
  mBuffer :: "byte list"
  mBufferSize :: nat
  mAllocationIncrement :: nat
  mPacketSize :: nat

text \<open>Memory: bytes stored one after the other, \<open>memset\<close>, \<open>realloc\<close> and the block read by \<open>write\<close>.\<close>

fun pokes :: "byte list \<Rightarrow> nat \<Rightarrow> byte list \<Rightarrow> byte list option" where
  "pokes buf i [] = Some buf"
| "pokes buf i (b # bs) = (if i < length buf then pokes (buf[i := b]) (i + 1) bs else None)"

definition peeks :: "byte list \<Rightarrow> nat \<Rightarrow> nat \<Rightarrow> byte list option" where
  "peeks buf i n = (if i + n \<le> length buf then Some (take n (drop i buf)) else None)"

definition realloc :: "(nat \<Rightarrow> byte) \<Rightarrow> byte list \<Rightarrow> int \<Rightarrow> byte list option" where
  "realloc fresh buf n =
     (if n \<le> 0 then None else Some (take (nat n) buf @ map fresh [length buf..<nat n]))"

definition to_int32 :: "nat \<Rightarrow> int" where
  "to_int32 n = sint (word_of_nat n :: u32)"

definition MtpPacket :: "(nat \<Rightarrow> byte) \<Rightarrow> nat \<Rightarrow> mtp_packet" where
  "MtpPacket fresh bufferSize = \<lparr>mBuffer = map fresh [0..<bufferSize], mBufferSize = bufferSize,
     mAllocationIncrement = bufferSize, mPacketSize = 0\<rparr>"

definition allocate :: "(nat \<Rightarrow> byte) \<Rightarrow> nat \<Rightarrow> 'a mtp_packet_scheme \<Rightarrow> 'a mtp_packet_scheme option" where
  "allocate fresh n p =
     (if mBufferSize p < n then do {
        let newLength = to_int32 (n + mAllocationIncrement p);
        buf \<leftarrow> realloc fresh (mBuffer p) newLength;
        Some (p\<lparr>mBuffer := buf, mBufferSize := nat newLength\<rparr>) }
      else Some p)"

definition packet_reset :: "(nat \<Rightarrow> byte) \<Rightarrow> 'a mtp_packet_scheme \<Rightarrow> 'a mtp_packet_scheme option" where
  "packet_reset fresh p = do {
     p \<leftarrow> allocate fresh MTP_CONTAINER_HEADER_SIZE p;
     let p = p\<lparr>mPacketSize := MTP_CONTAINER_HEADER_SIZE\<rparr>;
     buf \<leftarrow> pokes (mBuffer p) 0 (replicate (mBufferSize p) 0);
     Some (p\<lparr>mBuffer := buf\<rparr>) }"

definition copyFrom ::
    "(nat \<Rightarrow> byte) \<Rightarrow> 'b mtp_packet_scheme \<Rightarrow> 'a mtp_packet_scheme \<Rightarrow> 'a mtp_packet_scheme option" where
  "copyFrom fresh src p = do {
     let len = to_int32 (mPacketSize src);
     CHECK (0 \<le> len);
     p \<leftarrow> allocate fresh (nat len) p;
     bs \<leftarrow> peeks (mBuffer src) 0 (nat len);
     buf \<leftarrow> pokes (mBuffer p) 0 bs;
     Some (p\<lparr>mBuffer := buf, mPacketSize := nat len\<rparr>) }"

text \<open>The fixed-width integers of the header, least significant byte first.\<close>

definition packet_getUInt16 :: "'a mtp_packet_scheme \<Rightarrow> nat \<Rightarrow> u16 option" where
  "packet_getUInt16 p offset = do {
     hi \<leftarrow> fetch (mBuffer p) (offset + 1);
     lo \<leftarrow> fetch (mBuffer p) offset;
     Some (push_bit 8 (ucast hi) OR ucast lo) }"

definition packet_getUInt32 :: "'a mtp_packet_scheme \<Rightarrow> nat \<Rightarrow> u32 option" where
  "packet_getUInt32 p offset = do {
     b3 \<leftarrow> fetch (mBuffer p) (offset + 3);
     b2 \<leftarrow> fetch (mBuffer p) (offset + 2);
     b1 \<leftarrow> fetch (mBuffer p) (offset + 1);
     b0 \<leftarrow> fetch (mBuffer p) offset;
     Some (push_bit 24 (ucast b3) OR push_bit 16 (ucast b2) OR push_bit 8 (ucast b1) OR ucast b0) }"

text \<open>\<open>(uint8_t)((value >> (8 * k)) & 0xFF)\<close>.\<close>

definition byte_at :: "'a::len word \<Rightarrow> nat \<Rightarrow> byte" where
  "byte_at w k = ucast (drop_bit (8 * k) w AND 0xFF)"

definition packet_putUInt16 :: "nat \<Rightarrow> u16 \<Rightarrow> 'a mtp_packet_scheme \<Rightarrow> 'a mtp_packet_scheme option" where
  "packet_putUInt16 offset v p = do {
     buf \<leftarrow> pokes (mBuffer p) offset [byte_at v 0, byte_at v 1];
     Some (p\<lparr>mBuffer := buf\<rparr>) }"

definition packet_putUInt32 :: "nat \<Rightarrow> u32 \<Rightarrow> 'a mtp_packet_scheme \<Rightarrow> 'a mtp_packet_scheme option" where
  "packet_putUInt32 offset v p = do {
     buf \<leftarrow> pokes (mBuffer p) offset [byte_at v 0, byte_at v 1, byte_at v 2, byte_at v 3];
     Some (p\<lparr>mBuffer := buf\<rparr>) }"

definition getContainerCode :: "'a mtp_packet_scheme \<Rightarrow> u16 option" where
  "getContainerCode p = packet_getUInt16 p MTP_CONTAINER_CODE_OFFSET"

definition setContainerCode :: "u16 \<Rightarrow> 'a mtp_packet_scheme \<Rightarrow> 'a mtp_packet_scheme option" where
  "setContainerCode c p = packet_putUInt16 MTP_CONTAINER_CODE_OFFSET c p"

definition getContainerType :: "'a mtp_packet_scheme \<Rightarrow> u16 option" where
  "getContainerType p = packet_getUInt16 p MTP_CONTAINER_TYPE_OFFSET"

definition getTransactionID :: "'a mtp_packet_scheme \<Rightarrow> u32 option" where
  "getTransactionID p = packet_getUInt32 p MTP_CONTAINER_TRANSACTION_ID_OFFSET"

definition setTransactionID :: "u32 \<Rightarrow> 'a mtp_packet_scheme \<Rightarrow> 'a mtp_packet_scheme option" where
  "setTransactionID t p = packet_putUInt32 MTP_CONTAINER_TRANSACTION_ID_OFFSET t p"

definition getParameter :: "'a mtp_packet_scheme \<Rightarrow> int \<Rightarrow> u32 option" where
  "getParameter p i =
     (if i < 1 \<or> 5 < i then Some 0
      else packet_getUInt32 p (MTP_CONTAINER_PARAMETER_OFFSET + nat (i - 1) * 4))"

definition setParameter :: "int \<Rightarrow> u32 \<Rightarrow> 'a mtp_packet_scheme \<Rightarrow> 'a mtp_packet_scheme option" where
  "setParameter i v p =
     (if i < 1 \<or> 5 < i then Some p
      else let offset = MTP_CONTAINER_PARAMETER_OFFSET + nat (i - 1) * 4;
               p = (if mPacketSize p < offset + 4 then p\<lparr>mPacketSize := offset + 4\<rparr> else p)
           in packet_putUInt32 offset v p)"

section \<open>MtpDataPacket\<close>

definition MTP_BUFFER_SIZE :: nat where "MTP_BUFFER_SIZE = 16384"

record mtp_data_packet = mtp_packet +
  mOffset :: nat

definition MtpDataPacket :: "(nat \<Rightarrow> byte) \<Rightarrow> mtp_data_packet" where
  "MtpDataPacket fresh =
     mtp_packet.extend (MtpPacket fresh MTP_BUFFER_SIZE)
       (mtp_data_packet.fields MTP_CONTAINER_HEADER_SIZE)"

definition data_reset :: "(nat \<Rightarrow> byte) \<Rightarrow> mtp_data_packet \<Rightarrow> mtp_data_packet option" where
  "data_reset fresh p = do {
     p \<leftarrow> packet_reset fresh p;
     Some (p\<lparr>mOffset := MTP_CONTAINER_HEADER_SIZE\<rparr>) }"

definition setOperationCode :: "u16 \<Rightarrow> mtp_data_packet \<Rightarrow> mtp_data_packet option" where
  "setOperationCode c p = packet_putUInt16 MTP_CONTAINER_CODE_OFFSET c p"

definition hasData :: "mtp_data_packet \<Rightarrow> bool" where
  "hasData p \<longleftrightarrow> MTP_CONTAINER_HEADER_SIZE < mPacketSize p"

definition getContainerLength :: "mtp_data_packet \<Rightarrow> u32 option" where
  "getContainerLength p = packet_getUInt32 p MTP_CONTAINER_LENGTH_OFFSET"

subsection \<open>Get operations\<close>

text \<open>\<open>mPacketSize - mOffset\<close>, in \<open>size_t\<close>.\<close>

definition left_to_read :: "mtp_data_packet \<Rightarrow> nat" where
  "left_to_read p = (if mOffset p \<le> mPacketSize p then mPacketSize p - mOffset p
     else 2 ^ 64 + mPacketSize p - mOffset p)"

definition advance :: "nat \<Rightarrow> mtp_data_packet \<Rightarrow> mtp_data_packet" where
  "advance n p = p\<lparr>mOffset := mOffset p + n\<rparr>"

definition getUInt8 :: "mtp_data_packet \<Rightarrow> (byte option \<times> mtp_data_packet) option" where
  "getUInt8 p =
     (if left_to_read p < 1 then Some (None, p)
      else do { b \<leftarrow> fetch (mBuffer p) (mOffset p); Some (Some b, advance 1 p) })"

definition getUInt16 :: "mtp_data_packet \<Rightarrow> (u16 option \<times> mtp_data_packet) option" where
  "getUInt16 p =
     (if left_to_read p < 2 then Some (None, p)
      else do {
        let offset = mOffset p;
        b0 \<leftarrow> fetch (mBuffer p) offset;
        b1 \<leftarrow> fetch (mBuffer p) (offset + 1);
        Some (Some (ucast b0 OR push_bit 8 (ucast b1)), advance 2 p) })"

definition getUInt32 :: "mtp_data_packet \<Rightarrow> (u32 option \<times> mtp_data_packet) option" where
  "getUInt32 p =
     (if left_to_read p < 4 then Some (None, p)
      else do {
        let offset = mOffset p;
        b0 \<leftarrow> fetch (mBuffer p) offset;
        b1 \<leftarrow> fetch (mBuffer p) (offset + 1);
        b2 \<leftarrow> fetch (mBuffer p) (offset + 2);
        b3 \<leftarrow> fetch (mBuffer p) (offset + 3);
        Some (Some (ucast b0 OR push_bit 8 (ucast b1) OR push_bit 16 (ucast b2) OR push_bit 24 (ucast b3)),
          advance 4 p) })"

definition getUInt64 :: "mtp_data_packet \<Rightarrow> (u64 option \<times> mtp_data_packet) option" where
  "getUInt64 p =
     (if left_to_read p < 8 then Some (None, p)
      else do {
        let offset = mOffset p;
        b0 \<leftarrow> fetch (mBuffer p) offset;
        b1 \<leftarrow> fetch (mBuffer p) (offset + 1);
        b2 \<leftarrow> fetch (mBuffer p) (offset + 2);
        b3 \<leftarrow> fetch (mBuffer p) (offset + 3);
        b4 \<leftarrow> fetch (mBuffer p) (offset + 4);
        b5 \<leftarrow> fetch (mBuffer p) (offset + 5);
        b6 \<leftarrow> fetch (mBuffer p) (offset + 6);
        b7 \<leftarrow> fetch (mBuffer p) (offset + 7);
        Some (Some (ucast b0 OR push_bit 8 (ucast b1) OR push_bit 16 (ucast b2) OR push_bit 24 (ucast b3)
            OR push_bit 32 (ucast b4) OR push_bit 40 (ucast b5) OR push_bit 48 (ucast b6)
            OR push_bit 56 (ucast b7)),
          advance 8 p) })"

text \<open>
  A \<open>uint128_t\<close> is an array of four 32-bit words; here a word of 128 bits whose part \<open>k\<close> is element
  \<open>k\<close>. The elements that were read before the packet ended stay assigned.
\<close>

type_synonym u128 = "128 word"

definition element128 :: "u128 \<Rightarrow> nat \<Rightarrow> u32" where
  "element128 v k = ucast (drop_bit (32 * k) v)"

definition set_element128 :: "nat \<Rightarrow> u32 \<Rightarrow> u128 \<Rightarrow> u128" where
  "set_element128 k x v = (v AND NOT (push_bit (32 * k) (mask 32))) OR push_bit (32 * k) (ucast x)"

fun get_elements128 :: "nat list \<Rightarrow> u128 \<Rightarrow> mtp_data_packet \<Rightarrow> (bool \<times> u128 \<times> mtp_data_packet) option" where
  "get_elements128 [] v p = Some (True, v, p)"
| "get_elements128 (k # ks) v p = do {
     (r, p) \<leftarrow> getUInt32 p;
     case r of None \<Rightarrow> Some (False, v, p)
     | Some x \<Rightarrow> get_elements128 ks (set_element128 k x v) p }"

definition getUInt128 :: "u128 \<Rightarrow> mtp_data_packet \<Rightarrow> (bool \<times> u128 \<times> mtp_data_packet) option" where
  "getUInt128 v p = get_elements128 [0, 1, 2, 3] v p"

text \<open>The signed versions cast the reference.\<close>

definition getInt8 :: "mtp_data_packet \<Rightarrow> (byte option \<times> mtp_data_packet) option" where
  "getInt8 p = getUInt8 p"

definition getInt16 :: "mtp_data_packet \<Rightarrow> (u16 option \<times> mtp_data_packet) option" where
  "getInt16 p = getUInt16 p"

definition getInt32 :: "mtp_data_packet \<Rightarrow> (u32 option \<times> mtp_data_packet) option" where
  "getInt32 p = getUInt32 p"

definition getInt64 :: "mtp_data_packet \<Rightarrow> (u64 option \<times> mtp_data_packet) option" where
  "getInt64 p = getUInt64 p"

definition getInt128 :: "u128 \<Rightarrow> mtp_data_packet \<Rightarrow> (bool \<times> u128 \<times> mtp_data_packet) option" where
  "getInt128 v p = getUInt128 v p"

text \<open>The arrays: a count, and then as many elements, given up at the first that is missing.\<close>

type_synonym 'v getter = "mtp_data_packet \<Rightarrow> ('v option \<times> mtp_data_packet) option"

fun get_elements :: "'v getter \<Rightarrow> nat \<Rightarrow> 'v list getter" where
  "get_elements get 0 p = Some (Some [], p)"
| "get_elements get (Suc n) p = do {
     (r, p) \<leftarrow> get p;
     case r of None \<Rightarrow> Some (None, p)
     | Some v \<Rightarrow> do {
         (rs, p) \<leftarrow> get_elements get n p;
         case rs of None \<Rightarrow> Some (None, p) | Some vs \<Rightarrow> Some (Some (v # vs), p) } }"

definition get_array :: "'v getter \<Rightarrow> 'v list getter" where
  "get_array get p = do {
     (c, p) \<leftarrow> getUInt32 p;
     case c of None \<Rightarrow> Some (None, p) | Some n \<Rightarrow> get_elements get (unat n) p }"

definition getAInt8 :: "byte list getter" where "getAInt8 = get_array getInt8"
definition getAUInt8 :: "byte list getter" where "getAUInt8 = get_array getUInt8"
definition getAInt16 :: "u16 list getter" where "getAInt16 = get_array getInt16"
definition getAUInt16 :: "u16 list getter" where "getAUInt16 = get_array getUInt16"
definition getAInt32 :: "u32 list getter" where "getAInt32 = get_array getInt32"
definition getAUInt32 :: "u32 list getter" where "getAUInt32 = get_array getUInt32"
definition getAInt64 :: "u64 list getter" where "getAInt64 = get_array getInt64"
definition getAUInt64 :: "u64 list getter" where "getAUInt64 = get_array getUInt64"

text \<open>
  A function that reads field after field, \<open>if (!packet.get...(field)) return false;\<close>, is the list of its reads. The
  fields read so far stay assigned.
\<close>

fun run_steps :: "('s \<Rightarrow> (bool \<times> 's) option) list \<Rightarrow> 's \<Rightarrow> (bool \<times> 's) option" where
  "run_steps [] s = Some (True, s)"
| "run_steps (f # fs) s = do {
     (ok, s) \<leftarrow> f s;
     if ok then run_steps fs s else Some (False, s) }"

definition get_field ::
    "'v getter \<Rightarrow> ('v \<Rightarrow> 'r \<Rightarrow> 'r) \<Rightarrow> 'r \<times> mtp_data_packet \<Rightarrow> (bool \<times> 'r \<times> mtp_data_packet) option" where
  "get_field get assign = (\<lambda>(r, p). do {
     (v, p) \<leftarrow> get p;
     Some (case v of None \<Rightarrow> (False, r, p) | Some x \<Rightarrow> (True, assign x r, p)) })"

definition getData :: "mtp_data_packet \<Rightarrow> byte list option option" where
  "getData p =
     (if to_int32 (mPacketSize p) - int MTP_CONTAINER_HEADER_SIZE > 0
      then do { bs \<leftarrow> peeks (mBuffer p) MTP_CONTAINER_HEADER_SIZE
                   (nat (to_int32 (mPacketSize p) - int MTP_CONTAINER_HEADER_SIZE)); Some (Some bs) }
      else Some None)"

subsection \<open>Put operations\<close>

type_synonym put_run = "mtp_data_packet \<Rightarrow> mtp_data_packet option"

definition put_bytes :: "(nat \<Rightarrow> byte) \<Rightarrow> byte list \<Rightarrow> put_run" where
  "put_bytes fresh bs p = do {
     p \<leftarrow> allocate fresh (mOffset p + length bs) p;
     buf \<leftarrow> pokes (mBuffer p) (mOffset p) bs;
     let p = p\<lparr>mBuffer := buf, mOffset := mOffset p + length bs\<rparr>;
     Some (if mPacketSize p < mOffset p then p\<lparr>mPacketSize := mOffset p\<rparr> else p) }"

definition putInt8 :: "(nat \<Rightarrow> byte) \<Rightarrow> byte \<Rightarrow> put_run" where
  "putInt8 fresh v = put_bytes fresh [v]"

definition putUInt8 :: "(nat \<Rightarrow> byte) \<Rightarrow> byte \<Rightarrow> put_run" where
  "putUInt8 fresh v = put_bytes fresh [v]"

definition putUInt16 :: "(nat \<Rightarrow> byte) \<Rightarrow> u16 \<Rightarrow> put_run" where
  "putUInt16 fresh v = put_bytes fresh [byte_at v 0, byte_at v 1]"

definition putUInt32 :: "(nat \<Rightarrow> byte) \<Rightarrow> u32 \<Rightarrow> put_run" where
  "putUInt32 fresh v = put_bytes fresh [byte_at v 0, byte_at v 1, byte_at v 2, byte_at v 3]"

definition putUInt64 :: "(nat \<Rightarrow> byte) \<Rightarrow> u64 \<Rightarrow> put_run" where
  "putUInt64 fresh v = put_bytes fresh [byte_at v 0, byte_at v 1, byte_at v 2, byte_at v 3,
     byte_at v 4, byte_at v 5, byte_at v 6, byte_at v 7]"

text \<open>The signed versions shift arithmetically.\<close>

definition signed_byte_at :: "'a::len word \<Rightarrow> nat \<Rightarrow> byte" where
  "signed_byte_at w k = ucast (signed_drop_bit (8 * k) w AND 0xFF)"

definition putInt16 :: "(nat \<Rightarrow> byte) \<Rightarrow> u16 \<Rightarrow> put_run" where
  "putInt16 fresh v = put_bytes fresh [signed_byte_at v 0, signed_byte_at v 1]"

definition putInt32 :: "(nat \<Rightarrow> byte) \<Rightarrow> u32 \<Rightarrow> put_run" where
  "putInt32 fresh v = put_bytes fresh [signed_byte_at v 0, signed_byte_at v 1, signed_byte_at v 2,
     signed_byte_at v 3]"

definition putInt64 :: "(nat \<Rightarrow> byte) \<Rightarrow> u64 \<Rightarrow> put_run" where
  "putInt64 fresh v = put_bytes fresh [signed_byte_at v 0, signed_byte_at v 1, signed_byte_at v 2,
     signed_byte_at v 3, signed_byte_at v 4, signed_byte_at v 5, signed_byte_at v 6, signed_byte_at v 7]"

definition putInt128 :: "(nat \<Rightarrow> byte) \<Rightarrow> u128 \<Rightarrow> put_run" where
  "putInt128 fresh v p = do {
     p \<leftarrow> putInt32 fresh (element128 v 0) p;
     p \<leftarrow> putInt32 fresh (element128 v 1) p;
     p \<leftarrow> putInt32 fresh (element128 v 2) p;
     putInt32 fresh (element128 v 3) p }"

definition putUInt128 :: "(nat \<Rightarrow> byte) \<Rightarrow> u128 \<Rightarrow> put_run" where
  "putUInt128 fresh v p = do {
     p \<leftarrow> putUInt32 fresh (element128 v 0) p;
     p \<leftarrow> putUInt32 fresh (element128 v 1) p;
     p \<leftarrow> putUInt32 fresh (element128 v 2) p;
     putUInt32 fresh (element128 v 3) p }"

definition putInt128_of64 :: "(nat \<Rightarrow> byte) \<Rightarrow> u64 \<Rightarrow> put_run" where
  "putInt128_of64 fresh v p = do {
     p \<leftarrow> putInt64 fresh v p;
     putInt64 fresh (if sint v < 0 then -1 else 0) p }"

definition putUInt128_of64 :: "(nat \<Rightarrow> byte) \<Rightarrow> u64 \<Rightarrow> put_run" where
  "putUInt128_of64 fresh v p = do { p \<leftarrow> putUInt64 fresh v p; putUInt64 fresh 0 p }"

text \<open>Arrays given by a pointer and a count; reading behind the array is a fault.\<close>

fun put_elements :: "('v \<Rightarrow> put_run) \<Rightarrow> nat \<Rightarrow> 'v list \<Rightarrow> put_run" where
  "put_elements put 0 vs p = Some p"
| "put_elements put (Suc n) [] p = None"
| "put_elements put (Suc n) (v # vs) p = do { p \<leftarrow> put v p; put_elements put n vs p }"

definition put_array :: "(nat \<Rightarrow> byte) \<Rightarrow> ('v \<Rightarrow> put_run) \<Rightarrow> 'v list \<Rightarrow> int \<Rightarrow> put_run" where
  "put_array fresh put vs count p = do {
     p \<leftarrow> putUInt32 fresh (word_of_int count) p;
     put_elements put (nat count) vs p }"

definition putAInt8 :: "(nat \<Rightarrow> byte) \<Rightarrow> byte list \<Rightarrow> int \<Rightarrow> put_run" where
  "putAInt8 fresh = put_array fresh (putInt8 fresh)"

definition putAUInt8 :: "(nat \<Rightarrow> byte) \<Rightarrow> byte list \<Rightarrow> int \<Rightarrow> put_run" where
  "putAUInt8 fresh = put_array fresh (putUInt8 fresh)"

definition putAInt16 :: "(nat \<Rightarrow> byte) \<Rightarrow> u16 list \<Rightarrow> int \<Rightarrow> put_run" where
  "putAInt16 fresh = put_array fresh (putInt16 fresh)"

definition putAUInt16 :: "(nat \<Rightarrow> byte) \<Rightarrow> u16 list \<Rightarrow> int \<Rightarrow> put_run" where
  "putAUInt16 fresh = put_array fresh (putUInt16 fresh)"

definition putAInt32 :: "(nat \<Rightarrow> byte) \<Rightarrow> u32 list \<Rightarrow> int \<Rightarrow> put_run" where
  "putAInt32 fresh = put_array fresh (putInt32 fresh)"

definition putAUInt32 :: "(nat \<Rightarrow> byte) \<Rightarrow> u32 list \<Rightarrow> int \<Rightarrow> put_run" where
  "putAUInt32 fresh = put_array fresh (putUInt32 fresh)"

definition putAInt64 :: "(nat \<Rightarrow> byte) \<Rightarrow> u64 list \<Rightarrow> int \<Rightarrow> put_run" where
  "putAInt64 fresh = put_array fresh (putInt64 fresh)"

definition putAUInt64 :: "(nat \<Rightarrow> byte) \<Rightarrow> u64 list \<Rightarrow> int \<Rightarrow> put_run" where
  "putAUInt64 fresh = put_array fresh (putUInt64 fresh)"

definition putEmptyString :: "(nat \<Rightarrow> byte) \<Rightarrow> put_run" where
  "putEmptyString fresh = putUInt8 fresh 0"

definition putEmptyArray :: "(nat \<Rightarrow> byte) \<Rightarrow> put_run" where
  "putEmptyArray fresh = putUInt32 fresh 0"

text \<open>The versions that take a \<open>Vector\<close>, or a null pointer.\<close>

definition putAUInt16_list :: "(nat \<Rightarrow> byte) \<Rightarrow> u16 list option \<Rightarrow> put_run" where
  "putAUInt16_list fresh values p = do {
     let vs = (case values of None \<Rightarrow> [] | Some vs \<Rightarrow> vs);
     p \<leftarrow> putUInt32 fresh (word_of_nat (length vs)) p;
     put_elements (putUInt16 fresh) (length vs) vs p }"

definition putAUInt32_list :: "(nat \<Rightarrow> byte) \<Rightarrow> u32 list option \<Rightarrow> put_run" where
  "putAUInt32_list fresh l p =
     (case l of None \<Rightarrow> putEmptyArray fresh p
      | Some vs \<Rightarrow> do {
          p \<leftarrow> putUInt32 fresh (word_of_nat (length vs)) p;
          put_elements (putUInt32 fresh) (length vs) vs p })"

end
