(* ===== verification/MtpCodec.thy ===== *)
theory MtpCodec
  imports MtpPackets
begin

text \<open>
  What the put and get operations of \<open>MtpDataPacket\<close> promise each other. A put operation \<open>writes\<close> a string of
  bytes: it appends them to the contents of a packet, however often the buffer has to grow. A get operation
  \<open>reads\<close> a value off a string of bytes, and is \<open>safe\<close>: on every packet whose offset is inside,
  whatever the bytes, it ends without an access outside the packet. The locale \<open>codec\<close> states this as an
  interface, and derives the same for arrays; the operations of every width are its instances.
\<close>

section \<open>Memory\<close>

lemma pokes_inside:
  "i + length bs \<le> length buf \<Longrightarrow> pokes buf i bs = Some (take i buf @ bs @ drop (i + length bs) buf)"
proof (induction bs arbitrary: buf i)
  case Nil
  then show ?case by simp
next
  case (Cons b bs)
  then have "pokes buf i (b # bs) = Some (take (i + 1) (buf[i := b]) @ bs @ drop (i + 1 + length bs) (buf[i := b]))"
    by simp
  also have "take (i + 1) (buf[i := b]) = take i buf @ [b]"
    using Cons.prems by (simp add: take_Suc_conv_app_nth)
  finally show ?case by simp
qed

lemma pokes_outside: "length buf < i + length bs \<Longrightarrow> bs \<noteq> [] \<Longrightarrow> pokes buf i bs = None"
proof (induction bs arbitrary: buf i)
  case (Cons b bs)
  then show ?case by (cases "bs = []") auto
qed simp

lemma length_pokes: "pokes buf i bs = Some buf' \<Longrightarrow> length buf' = length buf"
  by (induction bs arbitrary: buf i) (auto split: if_splits)

lemma to_int32_small [simp]: "n < 2 ^ 31 \<Longrightarrow> to_int32 n = int n"
  by (simp add: to_int32_def sint_uint uint_nat unsigned_of_nat take_bit_nat_eq_self
      signed_take_bit_int_eq_self)

section \<open>Appending to a packet\<close>

definition contents :: "'a mtp_packet_scheme \<Rightarrow> byte list" where
  "contents p = take (mPacketSize p) (mBuffer p)"

definition well_formed :: "'a mtp_packet_scheme \<Rightarrow> bool" where
  "well_formed p \<longleftrightarrow> mBufferSize p = length (mBuffer p) \<and> mPacketSize p \<le> mBufferSize p"

definition appending :: "mtp_data_packet \<Rightarrow> bool" where
  "appending p \<longleftrightarrow> well_formed p \<and> mOffset p = mPacketSize p"

text \<open>Sizes up to which the buffer can grow: its new length is an \<open>int\<close>.\<close>

definition room :: "nat \<Rightarrow> mtp_data_packet \<Rightarrow> bool" where
  "room n p \<longleftrightarrow> mPacketSize p + n + mAllocationIncrement p < 2 ^ 31"

definition appended :: "byte list \<Rightarrow> mtp_data_packet \<Rightarrow> mtp_data_packet \<Rightarrow> bool" where
  "appended bs p q \<longleftrightarrow> appending q \<and> contents q = contents p @ bs
     \<and> mAllocationIncrement q = mAllocationIncrement p"

definition writes :: "byte list \<Rightarrow> put_run \<Rightarrow> bool" where
  "writes bs put \<longleftrightarrow> (\<forall>p. appending p \<and> room (length bs) p \<longrightarrow> (\<exists>q. put p = Some q \<and> appended bs p q))"

lemma writesI:
  "(\<And>p. appending p \<Longrightarrow> room (length bs) p \<Longrightarrow> \<exists>q. put p = Some q \<and> appended bs p q) \<Longrightarrow> writes bs put"
  by (simp add: writes_def)

lemma writesE:
  assumes "writes bs put" "appending p" "room (length bs) p"
  obtains q where "put p = Some q" "appended bs p q"
  using assms by (auto simp: writes_def)

lemma length_contents: "well_formed p \<Longrightarrow> length (contents p) = mPacketSize p"
  by (simp add: well_formed_def contents_def)

lemma appended_size: "appending p \<Longrightarrow> appended bs p q \<Longrightarrow> mPacketSize q = mPacketSize p + length bs"
  using length_contents [of p] length_contents [of q]
  by (simp add: appended_def appending_def)

lemma appended_trans: "appended xs p q \<Longrightarrow> appended ys q r \<Longrightarrow> appended (xs @ ys) p r"
  by (simp add: appended_def)

lemma room_after: "appending p \<Longrightarrow> appended xs p q \<Longrightarrow> room (length xs + n) p \<Longrightarrow> room n q"
  by (simp add: room_def appended_size) (simp add: appended_def)

lemma room_less: "room n p \<Longrightarrow> m \<le> n \<Longrightarrow> room m p"
  by (simp add: room_def)

lemma allocate_extends:
  assumes "well_formed p" "n + mAllocationIncrement p < 2 ^ 31"
  obtains ext where "allocate fresh n p = Some (p\<lparr>mBuffer := mBuffer p @ ext, mBufferSize := length (mBuffer p @ ext)\<rparr>)"
    "n \<le> length (mBuffer p @ ext)"
proof (cases "mBufferSize p < n")
  case True
  let ?m = "n + mAllocationIncrement p"
  have "length (mBuffer p) < n" using assms(1) True by (simp add: well_formed_def)
  then have "allocate fresh n p = Some (p\<lparr>mBuffer := mBuffer p @ map fresh [length (mBuffer p)..<?m],
      mBufferSize := length (mBuffer p @ map fresh [length (mBuffer p)..<?m])\<rparr>)"
    using True assms(2) by (simp add: allocate_def realloc_def Let_def nat_int_add)
  then show ?thesis by (rule that) (use \<open>length (mBuffer p) < n\<close> in simp)
next
  case False
  then have "allocate fresh n p = Some (p\<lparr>mBuffer := mBuffer p @ [], mBufferSize := length (mBuffer p @ [])\<rparr>)"
    using assms(1) by (simp add: allocate_def well_formed_def)
  then show ?thesis by (rule that) (use False assms(1) in \<open>simp add: well_formed_def\<close>)
qed

lemma allocate_keeps:
  assumes "well_formed p" "n + mAllocationIncrement p < 2 ^ 31"
  obtains q where "allocate fresh n p = Some q" "well_formed q" "n \<le> mBufferSize q"
    "contents q = contents p" "mPacketSize q = mPacketSize p"
    "mAllocationIncrement q = mAllocationIncrement p" "mtp_packet.more q = mtp_packet.more p"
proof -
  obtain ext where ext: "allocate fresh n p
      = Some (p\<lparr>mBuffer := mBuffer p @ ext, mBufferSize := length (mBuffer p @ ext)\<rparr>)"
    "n \<le> length (mBuffer p @ ext)"
    by (rule allocate_extends [OF assms])
  show ?thesis
    by (rule that [OF ext(1)]) (use assms(1) ext(2) in \<open>auto simp: well_formed_def contents_def\<close>)
qed

lemma writes_put_bytes: "writes bs (put_bytes fresh bs)"
proof (rule writesI)
  fix p
  assume p: "appending p" and r: "room (length bs) p"
  then have "well_formed p" "mOffset p + length bs + mAllocationIncrement p < 2 ^ 31"
    by (auto simp: appending_def room_def)
  then obtain q where q: "allocate fresh (mOffset p + length bs) p = Some q" "well_formed q"
    "mOffset p + length bs \<le> mBufferSize q" "contents q = contents p" "mPacketSize q = mPacketSize p"
    "mAllocationIncrement q = mAllocationIncrement p" "mtp_packet.more q = mtp_packet.more p"
    by (rule allocate_keeps)
  have off: "mOffset q = mOffset p" "mOffset p = mPacketSize p" "mBufferSize q = length (mBuffer q)"
    using q(7) p q(2) by (cases q; cases p; simp add: appending_def well_formed_def)+
  have fits: "mPacketSize p \<le> length (mBuffer p)"
    using p by (simp add: appending_def well_formed_def)
  let ?n = "mPacketSize p" and ?k = "length bs"
  let ?buf = "take ?n (mBuffer q) @ bs @ drop (?n + ?k) (mBuffer q)"
  let ?r = "q\<lparr>mBuffer := ?buf, mOffset := ?n + ?k\<rparr>"
  have "pokes (mBuffer q) (mOffset q) bs = Some ?buf"
    using pokes_inside [of ?n bs "mBuffer q"] q(3) off by simp
  then have run: "put_bytes fresh bs p = Some (?r\<lparr>mPacketSize := ?n + ?k\<rparr>)"
    using q(1,5) off by (simp add: put_bytes_def Let_def)
  have "appended bs p (?r\<lparr>mPacketSize := ?n + ?k\<rparr>)"
    using q(3-6) off fits by (auto simp: appended_def appending_def well_formed_def contents_def)
  with run show "\<exists>q. put_bytes fresh bs p = Some q \<and> appended bs p q" by blast
qed

lemma writes_none: "writes [] Some"
  by (auto simp: writes_def appended_def appending_def)

lemma writes_seq:
  assumes "writes xs f" "writes ys g"
  shows "writes (xs @ ys) (\<lambda>p. f p \<bind> g)"
proof (rule writesI)
  fix p
  assume p: "appending p" "room (length (xs @ ys)) p"
  obtain q where q: "f p = Some q" "appended xs p q"
    using assms(1) p(1) room_less [OF p(2)] by (rule writesE) simp
  have "appending q" using q(2) by (simp add: appended_def)
  moreover have "room (length ys) q" using room_after [OF p(1) q(2)] p(2) by simp
  ultimately obtain r where "g q = Some r" "appended ys q r"
    by (rule writesE [OF assms(2)])
  then show "\<exists>r. f p \<bind> g = Some r \<and> appended (xs @ ys) p r"
    using q by (auto intro: appended_trans)
qed

lemma put_no_elements: "put_elements put 0 [] = Some"
  by (rule ext) simp

lemma put_elements_cons: "put_elements put (Suc n) (v # vs) = (\<lambda>p. put v p \<bind> put_elements put n vs)"
  by (rule ext) simp

section \<open>Reading a packet\<close>

definition readable :: "mtp_data_packet \<Rightarrow> bool" where
  "readable p \<longleftrightarrow> mOffset p \<le> mPacketSize p \<and> mPacketSize p \<le> length (mBuffer p)"

definition unread :: "mtp_data_packet \<Rightarrow> byte list" where
  "unread p = drop (mOffset p) (contents p)"

definition moved :: "mtp_data_packet \<Rightarrow> mtp_data_packet \<Rightarrow> bool" where
  "moved p q \<longleftrightarrow> (\<exists>n. q = advance n p \<and> n \<le> length (unread p))"

definition reads :: "'v getter \<Rightarrow> byte list \<Rightarrow> 'v \<Rightarrow> bool" where
  "reads get bs v \<longleftrightarrow> (\<forall>p rest. readable p \<and> unread p = bs @ rest
     \<longrightarrow> get p = Some (Some v, advance (length bs) p))"

definition safe :: "'v getter \<Rightarrow> bool" where
  "safe get \<longleftrightarrow> (\<forall>p. readable p \<longrightarrow> (\<exists>r q. get p = Some (r, q) \<and> moved p q))"

lemma length_unread: "readable p \<Longrightarrow> length (unread p) = mPacketSize p - mOffset p"
  by (simp add: readable_def unread_def contents_def)

lemma unread_nth: "readable p \<Longrightarrow> i < length (unread p) \<Longrightarrow>
    fetch (mBuffer p) (mOffset p + i) = Some (unread p ! i)"
  by (auto simp: readable_def unread_def contents_def)

lemma left_to_read: "readable p \<Longrightarrow> left_to_read p = length (unread p)"
  by (simp add: length_unread left_to_read_def) (simp add: readable_def)

lemma advance_simps [simp]:
  "mBuffer (advance n p) = mBuffer p" "mPacketSize (advance n p) = mPacketSize p"
  "mOffset (advance n p) = mOffset p + n" "mBufferSize (advance n p) = mBufferSize p"
  "mAllocationIncrement (advance n p) = mAllocationIncrement p" "contents (advance n p) = contents p"
  "advance m (advance n p) = advance (n + m) p" "advance 0 p = p"
  by (simp_all add: advance_def contents_def add.assoc)

lemma unread_advance: "unread (advance n p) = drop n (unread p)"
  by (simp add: unread_def add.commute)

lemma readable_advance: "readable p \<Longrightarrow> n \<le> length (unread p) \<Longrightarrow> readable (advance n p)"
  by (frule length_unread) (auto simp: readable_def)

lemma moved_refl: "moved p p"
  by (auto simp: moved_def intro: exI [of _ 0])

lemma moved_advance: "n \<le> length (unread p) \<Longrightarrow> moved p (advance n p)"
  by (auto simp: moved_def)

lemma moved_readable: "moved p q \<Longrightarrow> readable p \<Longrightarrow> readable q"
  by (auto simp: moved_def intro: readable_advance)

lemma moved_trans: "moved p q \<Longrightarrow> moved q r \<Longrightarrow> moved p r"
proof -
  assume "moved p q" "moved q r"
  then obtain m n where "q = advance m p" "m \<le> length (unread p)" "r = advance n q" "n \<le> length (unread q)"
    by (auto simp: moved_def)
  then show ?thesis by (intro iffD2 [OF moved_def] exI [of _ "m + n"]) (simp add: unread_advance)
qed

lemma moved_keeps: "moved p q \<Longrightarrow> contents q = contents p \<and> mBuffer q = mBuffer p \<and> mPacketSize q = mPacketSize p"
  by (auto simp: moved_def)

lemma safeI:
  "(\<And>p. readable p \<Longrightarrow> \<exists>r q. get p = Some (r, q) \<and> moved p q) \<Longrightarrow> safe get"
  by (simp add: safe_def)

lemma safeE:
  assumes "safe get" "readable p"
  obtains r q where "get p = Some (r, q)" "moved p q" "readable q"
  using assms by (metis safe_def moved_readable)

lemma readsI:
  "(\<And>p rest. readable p \<Longrightarrow> unread p = bs @ rest \<Longrightarrow> get p = Some (Some v, advance (length bs) p))
     \<Longrightarrow> reads get bs v"
  by (simp add: reads_def)

lemma readsD:
  "reads get bs v \<Longrightarrow> readable p \<Longrightarrow> unread p = bs @ rest \<Longrightarrow> get p = Some (Some v, advance (length bs) p)"
  by (simp add: reads_def)

text \<open>After a value has been read the packet is at the next one.\<close>

lemma read_on:
  "readable p \<Longrightarrow> unread p = bs @ rest \<Longrightarrow>
     readable (advance (length bs) p) \<and> unread (advance (length bs) p) = rest"
  by (simp add: readable_advance unread_advance)

subsection \<open>The integers\<close>

lemma getUInt8_cases:
  assumes "readable p"
  shows "getUInt8 p = (case unread p of b # bs \<Rightarrow> Some (Some b, advance 1 p) | _ \<Rightarrow> Some (None, p))"
proof (cases "unread p")
  case Nil
  then show ?thesis using left_to_read [OF assms] by (simp add: getUInt8_def)
next
  case (Cons b bs)
  then show ?thesis
    using left_to_read [OF assms] unread_nth [OF assms, of 0] by (simp add: getUInt8_def)
qed

lemma load_le2: "load_le [a, b] = (ucast a OR push_bit 8 (ucast b) :: 'a::len word)"
  by simp

lemma load_le4: "load_le [a, b, c, d] =
    (ucast a OR push_bit 8 (ucast b) OR push_bit 16 (ucast c) OR push_bit 24 (ucast d) :: 'a::len word)"
  by (simp add: push_bit_or or.assoc)

lemma load_le8: "load_le [a, b, c, d, e, f, g, h] =
    (ucast a OR push_bit 8 (ucast b) OR push_bit 16 (ucast c) OR push_bit 24 (ucast d)
     OR push_bit 32 (ucast e) OR push_bit 40 (ucast f) OR push_bit 48 (ucast g) OR push_bit 56 (ucast h)
     :: 'a::len word)"
  by (simp add: push_bit_or or.assoc)

lemma take_4: "4 \<le> length xs \<Longrightarrow> take 4 xs = [xs ! 0, xs ! 1, xs ! 2, xs ! 3]"
  by (rule nth_equalityI) (auto simp: numeral_eq_Suc less_Suc_eq nth_Cons split: nat.splits)

lemma take_2: "2 \<le> length xs \<Longrightarrow> take 2 xs = [xs ! 0, xs ! 1]"
  by (rule nth_equalityI) (auto simp: numeral_eq_Suc less_Suc_eq)

lemma take_8: "8 \<le> length xs \<Longrightarrow>
    take 8 xs = [xs ! 0, xs ! 1, xs ! 2, xs ! 3, xs ! 4, xs ! 5, xs ! 6, xs ! 7]"
  by (rule nth_equalityI) (auto simp: numeral_eq_Suc less_Suc_eq)

text \<open>Each reader takes its bytes off the unread ones, or returns false when there are too few.\<close>

definition takes :: "nat \<Rightarrow> ('a::len word) getter \<Rightarrow> bool" where
  "takes n get \<longleftrightarrow> (\<forall>p. readable p \<longrightarrow> get p =
     (if n \<le> length (unread p) then Some (Some (load_le (take n (unread p))), advance n p) else Some (None, p)))"

lemma takes_8: "takes 1 getUInt8"
proof -
  have "getUInt8 p = (if 1 \<le> length (unread p) then Some (Some (load_le (take 1 (unread p))), advance 1 p)
      else Some (None, p))" if "readable p" for p
    by (cases "unread p") (simp_all add: getUInt8_cases [OF that])
  then show ?thesis by (simp add: takes_def)
qed

lemma takes_16: "takes 2 getUInt16"
  unfolding takes_def
proof (intro allI impI)
  fix p
  assume p: "readable p"
  note nth = unread_nth [OF p]
  show "getUInt16 p = (if 2 \<le> length (unread p) then Some (Some (load_le (take 2 (unread p))), advance 2 p)
      else Some (None, p))"
    using left_to_read [OF p] nth [of 0] nth [of 1]
    by (cases "unread p = []") (simp_all add: getUInt16_def take_2 load_le2 del: load_le.simps)
qed

lemma takes_32: "takes 4 getUInt32"
  unfolding takes_def
proof (intro allI impI)
  fix p
  assume p: "readable p"
  note nth = unread_nth [OF p]
  show "getUInt32 p = (if 4 \<le> length (unread p) then Some (Some (load_le (take 4 (unread p))), advance 4 p)
      else Some (None, p))"
    using left_to_read [OF p] nth [of 0] nth [of 1] nth [of 2] nth [of 3]
    by (cases "unread p = []") (simp_all add: getUInt32_def take_4 load_le4 del: load_le.simps)
qed

lemma takes_64: "takes 8 getUInt64"
  unfolding takes_def
proof (intro allI impI)
  fix p
  assume p: "readable p"
  note nth = unread_nth [OF p]
  show "getUInt64 p = (if 8 \<le> length (unread p) then Some (Some (load_le (take 8 (unread p))), advance 8 p)
      else Some (None, p))"
    using left_to_read [OF p] nth [of 0] nth [of 1] nth [of 2] nth [of 3] nth [of 4] nth [of 5]
      nth [of 6] nth [of 7]
    by (cases "unread p = []") (simp_all add: getUInt64_def take_8 load_le8 del: load_le.simps)
qed

lemma takes_safe: "takes n get \<Longrightarrow> safe get"
  by (rule safeI) (auto simp: takes_def intro: moved_advance moved_refl)

lemma takes_reads: "takes n get \<Longrightarrow> length bs = n \<Longrightarrow> reads get bs (load_le bs)"
  by (rule readsI) (simp add: takes_def)

text \<open>The bytes of an integer, and the integer of the bytes.\<close>

definition le_bytes :: "nat \<Rightarrow> 'a::len word \<Rightarrow> byte list" where
  "le_bytes n w = map (byte_at w) [0..<n]"

lemma length_le_bytes [simp]: "length (le_bytes n w) = n"
  by (simp add: le_bytes_def)

lemma ff_byte: "(0xFF :: 'a::len word) = mask 8"
  by (simp add: mask_eq_exp_minus_1)

lemma bit_byte_at: "bit (byte_at w k) i \<longleftrightarrow> i < 8 \<and> bit w (8 * k + i)"
  by (auto simp: byte_at_def ff_byte bit_simps dest: bit_imp_le_length)

lemma load_le_bytes: "LENGTH('a) = 8 * n \<Longrightarrow> load_le (le_bytes n w) = (w :: 'a::len word)"
proof (rule bit_word_eqI)
  fix i
  assume n: "LENGTH('a) = 8 * n" and i: "i < LENGTH('a)"
  then have "i div 8 < n" by auto
  then show "bit (load_le (le_bytes n w) :: 'a word) i = bit w i"
    using i by (simp add: bit_load_le le_bytes_def bit_byte_at)
qed

lemma signed_byte_at: "8 * k < LENGTH('a) \<Longrightarrow> 8 dvd LENGTH('a) \<Longrightarrow>
    signed_byte_at w k = byte_at (w :: 'a::len word) k"
proof (rule bit_word_eqI)
  fix i
  assume k: "8 * k < LENGTH('a)" "8 dvd LENGTH('a)" and i: "i < LENGTH(8)"
  then obtain m where m: "LENGTH('a) = 8 * m" by (auto elim: dvdE)
  with k i have "8 * k + i < LENGTH('a)" by simp
  then show "bit (signed_byte_at w k) i = bit (byte_at w k) i"
    using i by (auto simp: signed_byte_at_def bit_byte_at ff_byte bit_simps bit_signed_drop_bit_iff add.commute)
qed

lemma le_bytes_simps:
  "le_bytes 1 w = [byte_at w 0]" "le_bytes 2 w = [byte_at w 0, byte_at w 1]"
  "le_bytes 4 w = [byte_at w 0, byte_at w 1, byte_at w 2, byte_at w 3]"
  "le_bytes 8 w = [byte_at w 0, byte_at w 1, byte_at w 2, byte_at w 3, byte_at w 4, byte_at w 5,
     byte_at w 6, byte_at w 7]"
  by (simp_all add: le_bytes_def upt_rec numeral_eq_Suc)

lemma byte_at_0 [simp]: "byte_at (b :: byte) 0 = b"
  by (rule bit_word_eqI) (simp add: bit_byte_at)

lemmas put_defs = putUInt8_def putInt8_def putUInt16_def putUInt32_def putUInt64_def putInt16_def
  putInt32_def putInt64_def

lemma put_unsigned:
  "putUInt8 fresh v8 = put_bytes fresh (le_bytes 1 v8)"
  "putUInt16 fresh v16 = put_bytes fresh (le_bytes 2 v16)"
  "putUInt32 fresh v32 = put_bytes fresh (le_bytes 4 v32)"
  "putUInt64 fresh v64 = put_bytes fresh (le_bytes 8 v64)"
  by (simp_all only: put_defs le_bytes_simps byte_at_0)

lemma put_signed:
  "putInt8 fresh v8 = putUInt8 fresh v8" "putInt16 fresh v16 = putUInt16 fresh v16"
  "putInt32 fresh v32 = putUInt32 fresh v32" "putInt64 fresh v64 = putUInt64 fresh v64"
  by (simp_all add: put_defs signed_byte_at)

section \<open>The interface\<close>

locale codec =
  fixes put :: "'v \<Rightarrow> put_run"
    and get :: "'v getter"
    and enc :: "'v \<Rightarrow> byte list"
    and ok :: "'v \<Rightarrow> bool"
  assumes put_writes: "ok v \<Longrightarrow> writes (enc v) (put v)"
    and get_reads: "ok v \<Longrightarrow> reads get (enc v) v"
    and get_safe: "safe get"
begin

lemma put_elements_writes:
  "list_all ok vs \<Longrightarrow> writes (concat (map enc vs)) (put_elements put (length vs) vs)"
proof (induction vs)
  case Nil
  show ?case using writes_none by (simp add: put_no_elements)
next
  case (Cons v vs)
  then show ?case
    using put_writes [of v] by (auto simp: put_elements_cons simp del: put_elements.simps intro: writes_seq)
qed

lemma get_elements_reads:
  "list_all ok vs \<Longrightarrow> reads (get_elements get (length vs)) (concat (map enc vs)) vs"
proof (induction vs)
  case Nil
  show ?case by (rule readsI) simp
next
  case (Cons v vs)
  show ?case
  proof (rule readsI)
    fix p rest
    assume p: "readable p" "unread p = concat (map enc (v # vs)) @ rest"
    let ?q = "advance (length (enc v)) p"
    from p have u: "unread p = enc v @ concat (map enc vs) @ rest" by simp
    have v: "get p = Some (Some v, ?q)"
      using Cons.prems p(1) u by (intro readsD [OF get_reads]) auto
    have q: "readable ?q \<and> unread ?q = concat (map enc vs) @ rest"
      by (rule read_on [OF p(1) u])
    have IH: "reads (get_elements get (length vs)) (concat (map enc vs)) vs"
      using Cons by simp
    have "get_elements get (length vs) ?q = Some (Some vs, advance (length (concat (map enc vs))) ?q)"
      by (rule readsD [OF IH q [THEN conjunct1] q [THEN conjunct2]])
    with v show "get_elements get (length (v # vs)) p
        = Some (Some (v # vs), advance (length (concat (map enc (v # vs)))) p)"
      by simp
  qed
qed

lemma get_elements_safe: "safe (get_elements get n)"
proof (induction n)
  case 0
  show ?case by (rule safeI) (auto intro: moved_refl)
next
  case (Suc n)
  show ?case
  proof (rule safeI)
    fix p
    assume "readable p"
    then obtain r q where q: "get p = Some (r, q)" "moved p q" "readable q"
      by (rule safeE [OF get_safe])
    obtain rs s where "get_elements get n q = Some (rs, s)" "moved q s"
      by (rule safeE [OF Suc q(3)])
    then show "\<exists>r q. get_elements get (Suc n) p = Some (r, q) \<and> moved p q"
      using q by (cases r; cases rs) (auto intro: moved_trans)
  qed
qed

text \<open>An array is its count followed by its elements, and is a value of this kind itself.\<close>

lemma counted_writes:
  assumes "length vs < 2 ^ 32" "list_all ok vs"
  shows "writes (le_bytes 4 (of_nat (length vs) :: u32) @ concat (map enc vs))
    (\<lambda>p. putUInt32 fresh (of_nat (length vs)) p \<bind> put_elements put (length vs) vs)"
  using writes_put_bytes put_elements_writes [OF assms(2)]
  by (intro writes_seq) (simp_all add: put_unsigned)

lemma array_reads:
  assumes "length vs < 2 ^ 32" "list_all ok vs"
  shows "reads (get_array get) (le_bytes 4 (of_nat (length vs) :: u32) @ concat (map enc vs)) vs"
proof (rule readsI)
  let ?n = "of_nat (length vs) :: u32"
  fix p rest
  assume p: "readable p" and u: "unread p = (le_bytes 4 ?n @ concat (map enc vs)) @ rest"
  let ?q = "advance 4 p"
  have n: "unat ?n = length vs"
    using assms(1) by (simp add: unsigned_of_nat take_bit_nat_eq_self)
  have count: "getUInt32 p = Some (Some ?n, ?q)"
    using takes_32 p u load_le_bytes [of 4 ?n] by (simp add: takes_def)
  have "readable ?q \<and> unread ?q = concat (map enc vs) @ rest"
    using read_on [OF p, of "le_bytes 4 ?n"] u by simp
  then have "get_elements get (length vs) ?q = Some (Some vs, advance (length (concat (map enc vs))) ?q)"
    by (intro readsD [OF get_elements_reads [OF assms(2)]]) auto
  then show "get_array get p = Some (Some vs, advance (length (le_bytes 4 ?n @ concat (map enc vs))) p)"
    by (simp add: get_array_def count n)
qed

lemma array_safe: "safe (get_array get)"
proof (rule safeI)
  fix p
  assume "readable p"
  then obtain r q where q: "getUInt32 p = Some (r, q)" "moved p q" "readable q"
    by (rule safeE [OF takes_safe [OF takes_32]])
  obtain rs s where "get_elements get (unat (the r)) q = Some (rs, s)" "moved q s"
    by (rule safeE [OF get_elements_safe q(3)])
  then show "\<exists>r q. get_array get p = Some (r, q) \<and> moved p q"
    using q by (cases r) (auto simp: get_array_def intro: moved_trans)
qed

lemma array_codec:
  "codec (\<lambda>vs. put_array fresh put vs (int (length vs))) (get_array get)
     (\<lambda>vs. le_bytes 4 (of_nat (length vs) :: u32) @ concat (map enc vs))
     (\<lambda>vs. length vs < 2 ^ 32 \<and> list_all ok vs)"
proof
  fix vs
  assume ok: "length vs < 2 ^ 32 \<and> list_all ok vs"
  have "put_array fresh put vs (int (length vs))
      = (\<lambda>p. putUInt32 fresh (of_nat (length vs)) p \<bind> put_elements put (length vs) vs)"
    by (rule ext) (simp add: put_array_def)
  then show "writes (le_bytes 4 (of_nat (length vs) :: u32) @ concat (map enc vs))
      (put_array fresh put vs (int (length vs)))"
    using ok counted_writes [of vs fresh] by simp
  show "reads (get_array get) (le_bytes 4 (of_nat (length vs) :: u32) @ concat (map enc vs)) vs"
    using ok by (intro array_reads) auto
qed (rule array_safe)

text \<open>What is written into a packet at its end is what is read from there.\<close>

lemma roundtrip:
  assumes "ok v" "appending p" "room (length (enc v)) p"
  obtains q where "put v p = Some q"
    "get (q\<lparr>mOffset := mPacketSize p\<rparr>) = Some (Some v, q)"
proof -
  obtain q where q: "put v p = Some q" "appended (enc v) p q"
    using put_writes [OF assms(1)] assms(2,3) by (rule writesE)
  let ?q = "q\<lparr>mOffset := mPacketSize p\<rparr>"
  have sizes: "mPacketSize q = mPacketSize p + length (enc v)" "mOffset q = mPacketSize q" "well_formed q"
    using appended_size [OF assms(2) q(2)] q(2) by (simp_all add: appended_def appending_def)
  then have "readable ?q" by (simp add: readable_def well_formed_def)
  moreover have "unread ?q = enc v @ []"
    using q(2) assms(2) length_contents [of p]
    by (simp add: unread_def appended_def contents_def appending_def)
  ultimately have "get ?q = Some (Some v, advance (length (enc v)) ?q)"
    by (rule readsD [OF get_reads [OF assms(1)]])
  also have "advance (length (enc v)) ?q = q"
    using sizes by (simp add: advance_def)
  finally show ?thesis using q(1) that by blast
qed

end

subsection \<open>Its instances\<close>

lemma codec_of_takes:
  assumes "takes n get" "LENGTH('a) = 8 * n" "\<And>v. put v = put_bytes fresh (le_bytes n v)"
  shows "codec put (get :: ('a::len word) getter) (le_bytes n) (\<lambda>_. True)"
proof
  show "writes (le_bytes n v) (put v)" for v by (simp add: assms(3) writes_put_bytes)
  show "reads get (le_bytes n v) v" for v
    using takes_reads [OF assms(1), of "le_bytes n v"] load_le_bytes [OF assms(2)] by simp
  show "safe get" by (rule takes_safe [OF assms(1)])
qed

interpretation u8: codec "putUInt8 fresh" getUInt8 "le_bytes 1" "\<lambda>_. True" for fresh
  by (rule codec_of_takes [OF takes_8]) (simp_all add: put_unsigned)

interpretation u16: codec "putUInt16 fresh" getUInt16 "le_bytes 2" "\<lambda>_. True" for fresh
  by (rule codec_of_takes [OF takes_16]) (simp_all add: put_unsigned)

interpretation u32: codec "putUInt32 fresh" getUInt32 "le_bytes 4" "\<lambda>_. True" for fresh
  by (rule codec_of_takes [OF takes_32]) (simp_all add: put_unsigned)

interpretation u64: codec "putUInt64 fresh" getUInt64 "le_bytes 8" "\<lambda>_. True" for fresh
  by (rule codec_of_takes [OF takes_64]) (simp_all add: put_unsigned)

text \<open>
  The arrays of the packet: \<open>putA*\<close> with a pointer and the number of its elements, and \<open>getA*\<close>. A signed
  array has the bytes of the unsigned one.
\<close>

interpretation au8: codec "\<lambda>vs. putAUInt8 fresh vs (int (length vs))" getAUInt8
    "\<lambda>vs. le_bytes 4 (of_nat (length vs) :: u32) @ concat (map (le_bytes 1) vs)"
    "\<lambda>vs. length vs < 2 ^ 32 \<and> list_all (\<lambda>_. True) vs" for fresh
  unfolding putAUInt8_def getAUInt8_def by (rule u8.array_codec)

interpretation au16: codec "\<lambda>vs. putAUInt16 fresh vs (int (length vs))" getAUInt16
    "\<lambda>vs. le_bytes 4 (of_nat (length vs) :: u32) @ concat (map (le_bytes 2) vs)"
    "\<lambda>vs. length vs < 2 ^ 32 \<and> list_all (\<lambda>_. True) vs" for fresh
  unfolding putAUInt16_def getAUInt16_def by (rule u16.array_codec)

interpretation au32: codec "\<lambda>vs. putAUInt32 fresh vs (int (length vs))" getAUInt32
    "\<lambda>vs. le_bytes 4 (of_nat (length vs) :: u32) @ concat (map (le_bytes 4) vs)"
    "\<lambda>vs. length vs < 2 ^ 32 \<and> list_all (\<lambda>_. True) vs" for fresh
  unfolding putAUInt32_def getAUInt32_def by (rule u32.array_codec)

interpretation au64: codec "\<lambda>vs. putAUInt64 fresh vs (int (length vs))" getAUInt64
    "\<lambda>vs. le_bytes 4 (of_nat (length vs) :: u32) @ concat (map (le_bytes 8) vs)"
    "\<lambda>vs. length vs < 2 ^ 32 \<and> list_all (\<lambda>_. True) vs" for fresh
  unfolding putAUInt64_def getAUInt64_def by (rule u64.array_codec)

lemma put_signed_arrays:
  "putAInt8 = putAUInt8" "putAInt16 = putAUInt16" "putAInt32 = putAUInt32" "putAInt64 = putAUInt64"
proof -
  have same: "putInt8 = putUInt8" "putInt16 = putUInt16" "putInt32 = putUInt32" "putInt64 = putUInt64"
    by ((rule ext)+, simp add: put_signed)+
  show "putAInt8 = putAUInt8" "putAInt16 = putAUInt16" "putAInt32 = putAUInt32"
    "putAInt64 = putAUInt64"
    by ((rule ext)+, simp add: same putAInt8_def putAUInt8_def putAInt16_def putAUInt16_def putAInt32_def
        putAUInt32_def putAInt64_def putAUInt64_def)+
qed

lemma get_signed_arrays:
  "getAInt8 = getAUInt8" "getAInt16 = getAUInt16" "getAInt32 = getAUInt32" "getAInt64 = getAUInt64"
proof -
  have "getInt8 = getUInt8" "getInt16 = getUInt16" "getInt32 = getUInt32" "getInt64 = getUInt64"
    by (rule ext, simp add: getInt8_def getInt16_def getInt32_def getInt64_def)+
  then show "getAInt8 = getAUInt8" "getAInt16 = getAUInt16" "getAInt32 = getAUInt32" "getAInt64 = getAUInt64"
    by (simp_all add: getAInt8_def getAUInt8_def getAInt16_def getAUInt16_def getAInt32_def
      getAUInt32_def getAInt64_def getAUInt64_def)
qed

lemma put_lists:
  "putAUInt16_list fresh (Some v16) = putAUInt16 fresh v16 (int (length v16))"
  "putAUInt32_list fresh (Some v32) = putAUInt32 fresh v32 (int (length v32))"
  "putAUInt16_list fresh None = putAUInt16 fresh [] 0"
  "putAUInt32_list fresh None = putAUInt32 fresh [] 0"
  by (rule ext, simp add: putAUInt16_list_def putAUInt32_list_def putAUInt16_def putAUInt32_def
      put_array_def putEmptyArray_def put_no_elements)+

subsection \<open>128 bits\<close>

lemma bit_element128: "bit (element128 v k) i \<longleftrightarrow> i < 32 \<and> bit v (32 * k + i)"
  by (auto simp: element128_def bit_simps dest: bit_imp_le_length)

lemma bit_set_element128:
  "bit (set_element128 k x v) i \<longleftrightarrow> i < 128 \<and> (if i div 32 = k then bit x (i mod 32) else bit v i)"
proof -
  have "i div 32 = k \<longleftrightarrow> 32 * k \<le> i \<and> i - 32 * k < 32" by auto
  moreover have "i div 32 = k \<Longrightarrow> i - 32 * k = i mod 32" by (auto simp: minus_mult_div_eq_mod [symmetric])
  ultimately show ?thesis
    by (auto simp: set_element128_def bit_simps dest: bit_imp_le_length)
qed

lemma bit_set_same_element:
  assumes "i < 128"
  shows "bit (set_element128 k (element128 w k) v) i = (if i div 32 = k then bit w i else bit v i)"
proof -
  have "32 * (i div 32) + i mod 32 = i" by simp
  then show ?thesis using assms by (auto simp: bit_set_element128 bit_element128)
qed

lemma set_elements128:
  "set_element128 3 (element128 w 3) (set_element128 2 (element128 w 2)
     (set_element128 1 (element128 w 1) (set_element128 0 (element128 w 0) v))) = w"
proof (rule bit_word_eqI)
  fix i
  assume "i < LENGTH(128)"
  then have i: "i < 128" "i div 32 = 0 \<or> i div 32 = 1 \<or> i div 32 = 2 \<or> i div 32 = 3" by auto
  then show "bit (set_element128 3 (element128 w 3) (set_element128 2 (element128 w 2)
      (set_element128 1 (element128 w 1) (set_element128 0 (element128 w 0) v)))) i = bit w i"
    by (auto simp: bit_set_same_element)
qed

definition bytes128 :: "u128 \<Rightarrow> byte list" where
  "bytes128 v = concat (map (\<lambda>k. le_bytes 4 (element128 v k)) [0, 1, 2, 3])"

lemma length_bytes128 [simp]: "length (bytes128 v) = 16"
  by (simp add: bytes128_def)

lemma put_int128: "putInt128 = putUInt128"
  by (intro ext) (simp add: putInt128_def putUInt128_def put_signed)

lemma writes_128: "writes (bytes128 v) (putUInt128 fresh v)"
proof -
  have w: "writes (le_bytes 4 (element128 v k)) (putUInt32 fresh (element128 v k))" for k
    by (rule u32.put_writes) simp
  have "putUInt128 fresh v = (\<lambda>p. putUInt32 fresh (element128 v 0) p \<bind>
      (\<lambda>p. putUInt32 fresh (element128 v 1) p \<bind>
        (\<lambda>p. putUInt32 fresh (element128 v 2) p \<bind> putUInt32 fresh (element128 v 3))))"
    by (rule ext) (simp add: putUInt128_def)
  then show ?thesis
    using writes_seq [OF w [of 0] writes_seq [OF w [of 1] writes_seq [OF w [of 2] w [of 3]]]]
    by (simp add: bytes128_def)
qed

lemma get_elements128_reads:
  "readable p \<Longrightarrow> unread p = concat (map (\<lambda>k. le_bytes 4 (element128 w k)) ks) @ rest \<Longrightarrow>
    get_elements128 ks v p =
      Some (True, fold (\<lambda>k. set_element128 k (element128 w k)) ks v, advance (4 * length ks) p)"
proof (induction ks arbitrary: v p)
  case Nil
  then show ?case by simp
next
  case (Cons k ks)
  let ?q = "advance 4 p"
  have "getUInt32 p = Some (Some (element128 w k), ?q)"
    using readsD [OF u32.get_reads, of p "element128 w k"] Cons.prems by simp
  moreover have "readable ?q \<and> unread ?q = concat (map (\<lambda>k. le_bytes 4 (element128 w k)) ks) @ rest"
    using read_on [OF Cons.prems(1), of "le_bytes 4 (element128 w k)"] Cons.prems(2) by simp
  ultimately show ?case using Cons.IH [of ?q] by simp
qed

lemma reads_128:
  assumes "readable p" "unread p = bytes128 w @ rest"
  shows "getUInt128 v p = Some (True, w, advance 16 p)"
  using get_elements128_reads [OF assms(1), of w "[0, 1, 2, 3]" rest v] assms(2) set_elements128 [of w v]
  by (simp add: getUInt128_def bytes128_def)

lemma safe_128:
  assumes "readable p"
  obtains ok w q where "getUInt128 v p = Some (ok, w, q)" "moved p q" "readable q"
proof -
  have "\<exists>ok w q. get_elements128 ks v p = Some (ok, w, q) \<and> moved p q" for ks
    using assms
  proof (induction ks arbitrary: v p)
    case Nil
    then show ?case by (auto intro: moved_refl)
  next
    case (Cons k ks)
    obtain r q where q: "getUInt32 p = Some (r, q)" "moved p q" "readable q"
      by (rule safeE [OF u32.get_safe Cons.prems])
    show ?case
    proof (cases r)
      case None
      with q show ?thesis by auto
    next
      case (Some x)
      with q Cons.IH [OF q(3), of "set_element128 k x v"] show ?thesis by (auto intro: moved_trans)
    qed
  qed
  then show ?thesis using that moved_readable assms unfolding getUInt128_def by metis
qed

subsection \<open>Sequences of fields\<close>

text \<open>
  A step of a dataset reader is safe if it ends with the packet moved on, whatever the bytes; then so is
  the whole reader.
\<close>

definition safe_step :: "('r \<Rightarrow> bool) \<Rightarrow> ('r \<times> mtp_data_packet \<Rightarrow> (bool \<times> 'r \<times> mtp_data_packet) option) \<Rightarrow> bool" where
  "safe_step I f \<longleftrightarrow> (\<forall>r p. I r \<and> readable p \<longrightarrow> (\<exists>ok r' q. f (r, p) = Some (ok, r', q) \<and> moved p q \<and> I r'))"

lemma safe_stepI:
  "(\<And>r p. I r \<Longrightarrow> readable p \<Longrightarrow> \<exists>ok r' q. f (r, p) = Some (ok, r', q) \<and> moved p q \<and> I r') \<Longrightarrow> safe_step I f"
  by (simp add: safe_step_def)

lemma safe_stepE:
  assumes "safe_step I f" "I r" "readable p"
  obtains ok r' q where "f (r, p) = Some (ok, r', q)" "moved p q" "readable q" "I r'"
  using assms by (metis safe_step_def moved_readable)

lemma safe_get_field: "safe get \<Longrightarrow> (\<And>x r. I r \<Longrightarrow> I (assign x r)) \<Longrightarrow> safe_step I (get_field get assign)"
proof (rule safe_stepI)
  fix r p
  assume get: "safe get" "\<And>x r. I r \<Longrightarrow> I (assign x r)" and r: "I r" and p: "readable p"
  obtain v q where "get p = Some (v, q)" "moved p q"
    by (rule safeE [OF get(1) p])
  then show "\<exists>ok r' q. get_field get assign (r, p) = Some (ok, r', q) \<and> moved p q \<and> I r'"
    using get(2) r by (cases v) (auto simp: get_field_def)
qed

lemma safe_steps: "list_all (safe_step I) fs \<Longrightarrow> safe_step I (run_steps fs)"
proof (induction fs)
  case Nil
  show ?case by (rule safe_stepI) (auto intro: moved_refl)
next
  case (Cons f fs)
  show ?case
  proof (rule safe_stepI)
    fix r p
    assume r: "I r" and p: "readable p"
    have f: "safe_step I f" and fs: "safe_step I (run_steps fs)" using Cons by auto
    obtain ok r' q where q: "f (r, p) = Some (ok, r', q)" "moved p q" "readable q" "I r'"
      by (rule safe_stepE [OF f r p])
    obtain ok' r'' s where s: "run_steps fs (r', q) = Some (ok', r'', s)" "moved q s" "I r''"
      by (rule safe_stepE [OF fs q(4,3)])
    show "\<exists>ok r' s. run_steps (f # fs) (r, p) = Some (ok, r', s) \<and> moved p s \<and> I r'"
      using q s moved_trans [OF q(2) s(2)] by (cases ok) auto
  qed
qed

text \<open>A step reads a string of bytes off the packet.\<close>

definition step_reads ::
    "('r \<times> mtp_data_packet \<Rightarrow> (bool \<times> 's \<times> mtp_data_packet) option) \<Rightarrow> byte list \<Rightarrow> 'r \<Rightarrow> 's \<Rightarrow> bool" where
  "step_reads f bs r r' \<longleftrightarrow> (\<forall>p rest. readable p \<and> unread p = bs @ rest
     \<longrightarrow> f (r, p) = Some (True, r', advance (length bs) p))"

lemma step_readsI:
  "(\<And>p rest. readable p \<Longrightarrow> unread p = bs @ rest \<Longrightarrow> f (r, p) = Some (True, r', advance (length bs) p))
     \<Longrightarrow> step_reads f bs r r'"
  by (simp add: step_reads_def)

lemma step_readsD:
  "step_reads f bs r r' \<Longrightarrow> readable p \<Longrightarrow> unread p = bs @ rest
     \<Longrightarrow> f (r, p) = Some (True, r', advance (length bs) p)"
  by (simp add: step_reads_def)

lemma step_reads_field: "reads get bs v \<Longrightarrow> step_reads (get_field get assign) bs r (assign v r)"
  by (rule step_readsI) (simp add: get_field_def reads_def)

lemma step_reads_none: "step_reads (run_steps []) [] r r"
  by (rule step_readsI) simp

lemma step_reads_seq:
  assumes "step_reads f xs r r'" "step_reads (run_steps fs) ys r' r''"
  shows "step_reads (run_steps (f # fs)) (xs @ ys) r r''"
proof (rule step_readsI)
  fix p rest
  assume p: "readable p" and u: "unread p = (xs @ ys) @ rest"
  have u': "unread p = xs @ (ys @ rest)" using u by simp
  have "f (r, p) = Some (True, r', advance (length xs) p)"
    by (rule step_readsD [OF assms(1) p u'])
  moreover have "run_steps fs (r', advance (length xs) p) = Some (True, r'', advance (length ys) (advance (length xs) p))"
    using read_on [OF p u'] by (intro step_readsD [OF assms(2)]) auto
  ultimately show "run_steps (f # fs) (r, p) = Some (True, r'', advance (length (xs @ ys)) p)"
    by simp
qed

end
