(* ===== verification/MtpStrings.thy ===== *)
theory MtpStrings
  imports MtpCodec
begin

text \<open>
  Strings of the Media Transfer Protocol, media/mtp/MtpStringBuffer.cpp and the string operations of
  MtpDataPacket.cpp. A buffer holds up to 255 characters as UTF-8 with a terminator; a packet holds them as
  16-bit characters behind a count byte. What the stack holds where a buffer is created is the
  parameter \<open>junk\<close>. A C string is given with its terminator, and reading behind its end is a fault.
\<close>

section \<open>MtpStringBuffer\<close>

definition MTP_STRING_MAX_CHARACTER_NUMBER :: nat where "MTP_STRING_MAX_CHARACTER_NUMBER = 255"

record mtp_string_buffer =
  mBytes :: "byte list"
  mCharCount :: int
  mByteCount :: int

definition string_bytes :: nat where
  "string_bytes = MTP_STRING_MAX_CHARACTER_NUMBER * 3 + 1"

definition uninitialized :: "(nat \<Rightarrow> byte) \<Rightarrow> mtp_string_buffer" where
  "uninitialized junk = \<lparr>mBytes = map junk [0..<string_bytes], mCharCount = 0, mByteCount = 1\<rparr>"

definition MtpStringBuffer :: "(nat \<Rightarrow> byte) \<Rightarrow> mtp_string_buffer" where
  "MtpStringBuffer junk = (uninitialized junk)\<lparr>mBytes := (map junk [0..<string_bytes])[0 := 0]\<rparr>"

text \<open>\<open>set(const char*)\<close>: the bytes stored through \<open>dest\<close>, and the count.\<close>

definition emit :: "byte list \<Rightarrow> (byte list \<times> nat) option \<Rightarrow> (byte list \<times> nat) option" where
  "emit bs r = map_option (\<lambda>(out, count). (bs @ out, count)) r"

fun utf8_loop :: "byte list \<Rightarrow> nat \<Rightarrow> (byte list \<times> nat) option" where
  "utf8_loop [] count = None"
| "utf8_loop (ch # src) count =
     (if ch \<noteq> 0 \<and> count < MTP_STRING_MAX_CHARACTER_NUMBER then
        if ch AND 0x80 = 0 then emit [ch] (utf8_loop src (count + 1))
        else if ch AND 0xE0 = 0xC0 then
          (case src of [] \<Rightarrow> None
           | ch1 # src \<Rightarrow>
               if ch1 = 0 then Some ([], count)
               else emit [ch, ch1] (utf8_loop src (count + 1)))
        else if ch AND 0xF0 = 0xE0 then
          (case src of [] \<Rightarrow> None
           | ch1 # src \<Rightarrow>
               if ch1 = 0 then Some ([], count)
               else (case src of [] \<Rightarrow> None
                 | ch2 # src \<Rightarrow>
                     if ch2 = 0 then Some ([], count)
                     else emit [ch, ch1, ch2] (utf8_loop src (count + 1))))
        else utf8_loop src (count + 1)
      else Some ([], count))"

definition store_string :: "byte list \<Rightarrow> int \<Rightarrow> mtp_string_buffer \<Rightarrow> mtp_string_buffer option" where
  "store_string out count b = do {
     buf \<leftarrow> pokes (mBytes b) 0 (out @ [0]);
     Some \<lparr>mBytes = buf, mCharCount = count, mByteCount = int (length out) + 1\<rparr> }"

definition set_utf8 :: "byte list \<Rightarrow> mtp_string_buffer \<Rightarrow> mtp_string_buffer option" where
  "set_utf8 src b = do { (out, count) \<leftarrow> utf8_loop src 0; store_string out (int count) b }"

text \<open>One 16-bit character as UTF-8, and \<open>set(const uint16_t*)\<close>.\<close>

definition utf8_char :: "u16 \<Rightarrow> byte list" where
  "utf8_char ch =
     (if 0x0800 \<le> ch then
        [ucast (0xE0 OR drop_bit 12 ch), ucast (0x80 OR (drop_bit 6 ch AND 0x3F)), ucast (0x80 OR (ch AND 0x3F))]
      else if 0x80 \<le> ch then [ucast (0xC0 OR drop_bit 6 ch), ucast (0x80 OR (ch AND 0x3F))]
      else [ucast ch])"

fun utf16_loop :: "u16 list \<Rightarrow> nat \<Rightarrow> (byte list \<times> nat) option" where
  "utf16_loop [] count = None"
| "utf16_loop (ch # src) count =
     (if ch \<noteq> 0 \<and> count < MTP_STRING_MAX_CHARACTER_NUMBER
      then emit (utf8_char ch) (utf16_loop src (count + 1))
      else Some ([], count))"

definition set_utf16 :: "u16 list \<Rightarrow> mtp_string_buffer \<Rightarrow> mtp_string_buffer option" where
  "set_utf16 src b = do { (out, count) \<leftarrow> utf16_loop src 0; store_string out (int count) b }"

text \<open>\<open>readFromPacket\<close>. When the packet ends early, what was stored stays, without a terminator.\<close>

fun read_chars :: "nat \<Rightarrow> mtp_data_packet \<Rightarrow> (bool \<times> byte list \<times> mtp_data_packet) option" where
  "read_chars 0 p = Some (True, [], p)"
| "read_chars (Suc n) p = do {
     (c, p) \<leftarrow> getUInt16 p;
     case c of None \<Rightarrow> Some (False, [], p)
     | Some ch \<Rightarrow> do { (ok, out, p) \<leftarrow> read_chars n p; Some (ok, utf8_char ch @ out, p) } }"

definition readFromPacket ::
    "mtp_string_buffer \<Rightarrow> mtp_data_packet \<Rightarrow> (bool \<times> mtp_string_buffer \<times> mtp_data_packet) option" where
  "readFromPacket b p = do {
     (c, p) \<leftarrow> getUInt8 p;
     case c of None \<Rightarrow> Some (False, b, p)
     | Some count \<Rightarrow> do {
         (ok, out, p) \<leftarrow> read_chars (unat count) p;
         if ok then do { b \<leftarrow> store_string out (uint count) b; Some (True, b, p) }
         else do { buf \<leftarrow> pokes (mBytes b) 0 out; Some (False, b\<lparr>mBytes := buf\<rparr>, p) } } }"

text \<open>\<open>writeToPacket\<close>: each turn decodes one character at \<open>src\<close>.\<close>

definition decode_at :: "byte list \<Rightarrow> nat \<Rightarrow> (u16 \<times> nat) option" where
  "decode_at buf i = do {
     b1 \<leftarrow> fetch buf i;
     let ch1 = (ucast b1 :: u16);
     if ch1 AND 0x80 = 0 then Some (ch1, i + 1)
     else if ch1 AND 0xE0 = 0xC0 then do {
       b2 \<leftarrow> fetch buf (i + 1);
       let ch2 = (ucast b2 :: u16);
       Some (push_bit 6 (ch1 AND 0x1F) OR (ch2 AND 0x3F), i + 2) }
     else do {
       b2 \<leftarrow> fetch buf (i + 1);
       b3 \<leftarrow> fetch buf (i + 2);
       let ch2 = (ucast b2 :: u16);
       let ch3 = (ucast b3 :: u16);
       Some (push_bit 12 (ch1 AND 0x0F) OR push_bit 6 (ch2 AND 0x3F) OR (ch3 AND 0x3F), i + 3) } }"

fun write_chars :: "(nat \<Rightarrow> byte) \<Rightarrow> byte list \<Rightarrow> nat \<Rightarrow> nat \<Rightarrow> put_run" where
  "write_chars fresh buf i 0 p = Some p"
| "write_chars fresh buf i (Suc n) p = do {
     (ch, i) \<leftarrow> decode_at buf i;
     p \<leftarrow> putUInt16 fresh ch p;
     write_chars fresh buf i n p }"

definition writeToPacket :: "(nat \<Rightarrow> byte) \<Rightarrow> mtp_string_buffer \<Rightarrow> put_run" where
  "writeToPacket fresh b p = do {
     let count = mCharCount b;
     p \<leftarrow> putUInt8 fresh (if 0 < count then word_of_int (count + 1) else 0) p;
     p \<leftarrow> write_chars fresh (mBytes b) 0 (nat count) p;
     if 0 < count then putUInt16 fresh 0 p else Some p }"

section \<open>Strings in a data packet\<close>

definition getString ::
    "mtp_string_buffer \<Rightarrow> mtp_data_packet \<Rightarrow> (bool \<times> mtp_string_buffer \<times> mtp_data_packet) option" where
  "getString b p = readFromPacket b p"

definition putString_buffer :: "(nat \<Rightarrow> byte) \<Rightarrow> mtp_string_buffer \<Rightarrow> put_run" where
  "putString_buffer fresh b = writeToPacket fresh b"

definition putString :: "(nat \<Rightarrow> byte) \<Rightarrow> (nat \<Rightarrow> byte) \<Rightarrow> byte list \<Rightarrow> put_run" where
  "putString fresh junk s p = do {
     b \<leftarrow> set_utf8 s (uninitialized junk);
     writeToPacket fresh b p }"

text \<open>\<open>putString(const uint16_t*)\<close> counts at most 256 characters before it writes them.\<close>

fun count_chars :: "nat \<Rightarrow> u16 list \<Rightarrow> nat option" where
  "count_chars 0 s = Some 0"
| "count_chars (Suc n) [] = None"
| "count_chars (Suc n) (ch # s) = (if ch \<noteq> 0 then map_option Suc (count_chars n s) else Some 0)"

definition putString_utf16 :: "(nat \<Rightarrow> byte) \<Rightarrow> u16 list \<Rightarrow> put_run" where
  "putString_utf16 fresh s p = do {
     count \<leftarrow> count_chars (MTP_STRING_MAX_CHARACTER_NUMBER + 1) s;
     p \<leftarrow> putUInt8 fresh (if 0 < count then word_of_nat (count + 1) else 0) p;
     p \<leftarrow> put_elements (putUInt16 fresh) count s p;
     if 0 < count then putUInt16 fresh 0 p else Some p }"

text \<open>\<open>strdup\<close> of a buffer: the bytes before the first zero.\<close>

definition strdup :: "mtp_string_buffer \<Rightarrow> byte list option" where
  "strdup b = (if 0 \<in> set (mBytes b) then Some (takeWhile (\<lambda>c. c \<noteq> 0) (mBytes b)) else None)"

section \<open>Characters\<close>

definition utf8 :: "u16 list \<Rightarrow> byte list" where
  "utf8 cs = concat (map utf8_char cs)"

lemma utf8_simps [simp]: "utf8 [] = []" "utf8 (ch # cs) = utf8_char ch @ utf8 cs"
  by (simp_all add: utf8_def)

definition proper_string :: "u16 list \<Rightarrow> bool" where
  "proper_string cs \<longleftrightarrow> length cs \<le> 254 \<and> 0 \<notin> set cs"

lemma length_utf8_char: "length (utf8_char ch) \<le> 3"
  by (simp add: utf8_char_def)

lemma length_utf8: "length (utf8 cs) \<le> 3 * length cs"
proof (induction cs)
  case (Cons ch cs)
  then show ?case using length_utf8_char [of ch] by simp
qed simp

text \<open>Two words are equal if their sixteen bits are.\<close>

lemma u16_eqI:
  assumes "list_all (\<lambda>n. bit v n = bit w n) [0, 1, 2, 3, 4, 5, 6, 7, 8, 9, 10, 11, 12, 13, 14, 15]"
  shows "v = (w :: u16)"
proof (rule bit_word_eqI)
  fix n
  assume "n < LENGTH(16)"
  then have "n \<in> set [0, 1, 2, 3, 4, 5, 6, 7, 8, 9, 10, 11, 12, 13, 14, 15]" by simp arith
  with assms show "bit v n = bit w n" unfolding list_all_iff by blast
qed

lemma high_bits:
  "(ch :: u16) < 0x80 \<longleftrightarrow> (\<forall>n\<in>set [7, 8, 9, 10, 11, 12, 13, 14, 15]. \<not> bit ch n)"
  "(ch :: u16) < 0x0800 \<longleftrightarrow> (\<forall>n\<in>set [11, 12, 13, 14, 15]. \<not> bit ch n)"
proof -
  have small: "unat ch < 2 ^ k \<longleftrightarrow> (\<forall>n. k \<le> n \<longrightarrow> \<not> bit ch n)" for k
  proof -
    have "unat ch < 2 ^ k \<longleftrightarrow> take_bit k (unat ch) = unat ch"
      by (simp add: take_bit_nat_eq_self_iff)
    also have "\<dots> \<longleftrightarrow> take_bit k ch = ch"
      by (simp add: word_unat_eq_iff unsigned_take_bit_eq)
    also have "\<dots> \<longleftrightarrow> (\<forall>n. k \<le> n \<longrightarrow> \<not> bit ch n)"
    proof
      assume "take_bit k ch = ch"
      then show "\<forall>n. k \<le> n \<longrightarrow> \<not> bit ch n" by (metis bit_take_bit_iff not_le)
    next
      assume "\<forall>n. k \<le> n \<longrightarrow> \<not> bit ch n"
      then show "take_bit k ch = ch" by (intro bit_word_eqI) (auto simp: bit_simps not_le)
    qed
    finally show ?thesis .
  qed
  have up: "(\<forall>n. k \<le> n \<longrightarrow> \<not> bit ch n) \<longleftrightarrow> (\<forall>n\<in>{k..<16}. \<not> bit ch n)" for k
    using bit_imp_le_length [of ch] by (simp add: Ball_def) blast
  have r: "{7..<16} = set [7 :: nat, 8, 9, 10, 11, 12, 13, 14, 15]"
    "{11..<16} = set [11 :: nat, 12, 13, 14, 15]" by auto
  show "(ch :: u16) < 0x80 \<longleftrightarrow> (\<forall>n\<in>set [7, 8, 9, 10, 11, 12, 13, 14, 15]. \<not> bit ch n)"
    using small [of 7] up [of 7] by (simp only: r) (simp add: word_less_nat_alt)
  show "(ch :: u16) < 0x0800 \<longleftrightarrow> (\<forall>n\<in>set [11, 12, 13, 14, 15]. \<not> bit ch n)"
    using small [of 11] up [of 11] by (simp only: r) (simp add: word_less_nat_alt)
qed

lemma decode3:
  "push_bit 12 ((ucast (ucast (0xE0 OR drop_bit 12 ch :: u16) :: byte) :: u16) AND 0x0F)
     OR push_bit 6 ((ucast (ucast (0x80 OR (drop_bit 6 ch AND 0x3F) :: u16) :: byte) :: u16) AND 0x3F)
     OR ((ucast (ucast (0x80 OR (ch AND 0x3F) :: u16) :: byte) :: u16) AND 0x3F) = (ch :: u16)"
  by (rule u16_eqI) (simp add: bit_simps)

lemma decode2:
  assumes "ch < 0x0800"
  shows "push_bit 6 ((ucast (ucast (0xC0 OR drop_bit 6 ch :: u16) :: byte) :: u16) AND 0x1F)
     OR ((ucast (ucast (0x80 OR (ch AND 0x3F) :: u16) :: byte) :: u16) AND 0x3F) = (ch :: u16)"
  by (rule u16_eqI) (use assms in \<open>simp add: bit_simps high_bits\<close>)

lemma bit_test:
  "v AND 0x80 = 0 \<longleftrightarrow> \<not> bit v 7"
  "v AND 0xE0 = 0xC0 \<longleftrightarrow> \<not> bit v 5 \<and> bit v 6 \<and> bit v 7" for v :: u16
proof -
  show "v AND 0x80 = 0 \<longleftrightarrow> \<not> bit v 7"
    by (rule iffI, drule arg_cong [where f = "\<lambda>w. bit w 7"], simp add: bit_simps,
        rule u16_eqI, simp add: bit_simps)
  show "v AND 0xE0 = 0xC0 \<longleftrightarrow> \<not> bit v 5 \<and> bit v 6 \<and> bit v 7"
  proof
    assume v: "v AND 0xE0 = 0xC0"
    have "bit (v AND 0xE0) n = bit (0xC0 :: u16) n" for n by (simp only: v)
    from this [of 5] this [of 6] this [of 7] show "\<not> bit v 5 \<and> bit v 6 \<and> bit v 7"
      by (simp add: bit_simps)
  next
    assume "\<not> bit v 5 \<and> bit v 6 \<and> bit v 7"
    then show "v AND 0xE0 = 0xC0" by (intro u16_eqI) (simp add: bit_simps)
  qed
qed

lemma fetch_append: "fetch (pre @ suf) (length pre + n) = fetch suf n"
  by (simp add: fetch_def nth_append)

lemma decode_utf8_char:
  "decode_at (pre @ utf8_char ch @ suf) (length pre) = Some (ch, length pre + length (utf8_char ch))"
proof -
  note at = fetch_append [of pre "utf8_char ch @ suf"] fetch_append [of pre "utf8_char ch @ suf" 0, simplified]
  consider "ch < 0x80" | "0x80 \<le> ch" "ch < 0x0800" | "0x0800 \<le> ch" by fastforce
  then show ?thesis
  proof cases
    case 1
    then have u: "utf8_char ch = [ucast ch]"
      by (auto simp: utf8_char_def word_le_nat_alt word_less_nat_alt)
    have "(ucast (ucast ch :: byte) :: u16) = ch"
      by (rule u16_eqI) (use 1 in \<open>simp add: bit_simps high_bits\<close>)
    moreover have "\<not> bit ch 7" using 1 by (simp add: high_bits)
    ultimately show ?thesis
      unfolding decode_at_def at u by (simp add: bit_test nth_append)
  next
    case 2
    then have u: "utf8_char ch = [ucast (0xC0 OR drop_bit 6 ch), ucast (0x80 OR (ch AND 0x3F))]"
      by (simp add: utf8_char_def)
    have "bit (ucast (ucast (0xC0 OR drop_bit 6 ch) :: byte) :: u16) 7"
      "bit (ucast (ucast (0xC0 OR drop_bit 6 ch) :: byte) :: u16) 6"
      "\<not> bit (ucast (ucast (0xC0 OR drop_bit 6 ch) :: byte) :: u16) 5"
      using 2 by (simp_all add: bit_simps high_bits)
    with decode2 [OF 2(2)] show ?thesis
      unfolding decode_at_def at u by (simp add: bit_test nth_append)
  next
    case 3
    then have "0x80 \<le> ch" by (rule order_trans [rotated]) simp
    with 3 have u: "utf8_char ch = [ucast (0xE0 OR drop_bit 12 ch),
        ucast (0x80 OR (drop_bit 6 ch AND 0x3F)), ucast (0x80 OR (ch AND 0x3F))]"
      by (simp add: utf8_char_def)
    have "bit (ucast (ucast (0xE0 OR drop_bit 12 ch) :: byte) :: u16) 7"
      "bit (ucast (ucast (0xE0 OR drop_bit 12 ch) :: byte) :: u16) 5"
      by (simp_all add: bit_simps)
    with decode3 [of ch] show ?thesis
      unfolding decode_at_def at u by (simp add: bit_test nth_append)
  qed
qed

section \<open>Writing and reading strings\<close>

text \<open>A string on the wire.\<close>

definition wire :: "u16 list \<Rightarrow> byte list" where
  "wire cs = (if cs = [] then [0]
     else of_nat (length cs + 1) # concat (map (le_bytes 2) cs) @ [0, 0])"

lemma write_chars_utf8:
  "write_chars fresh (pre @ utf8 cs @ suf) (length pre) (length cs) = put_elements (putUInt16 fresh) (length cs) cs"
proof (induction cs arbitrary: pre)
  case Nil
  show ?case by (rule ext) simp
next
  case (Cons ch cs)
  show ?case
    using Cons [of "pre @ utf8_char ch"]
    by (intro ext) (simp add: decode_utf8_char)
qed

lemma le_bytes_0: "le_bytes 2 (0 :: u16) = [0, 0]"
  by (simp add: le_bytes_simps byte_at_def)

lemma writes_string:
  assumes "mBytes b = utf8 cs @ suf" "mCharCount b = int (length cs)"
  shows "writes (wire cs) (writeToPacket fresh b)"
proof (cases "cs = []")
  case True
  then have "writeToPacket fresh b = putUInt8 fresh 0"
    using assms by (intro ext) (simp add: writeToPacket_def bind_assoc)
  then show ?thesis
    using True writes_put_bytes [of "[0]" fresh] by (simp add: wire_def putUInt8_def)
next
  case False
  let ?n = "of_nat (length cs + 1) :: byte"
  have run: "writeToPacket fresh b = (\<lambda>p. putUInt8 fresh ?n p \<bind>
      (\<lambda>p. put_elements (putUInt16 fresh) (length cs) cs p \<bind> putUInt16 fresh 0))"
    using False assms write_chars_utf8 [of fresh "[]" cs suf]
    by (intro ext) (simp add: writeToPacket_def ac_simps)
  have "writes ([?n] @ (concat (map (le_bytes 2) cs) @ [0, 0])) (writeToPacket fresh b)"
    unfolding run
  proof (intro writes_seq)
    show "writes [?n] (putUInt8 fresh ?n)"
      using writes_put_bytes by (simp add: putUInt8_def)
    show "writes (concat (map (le_bytes 2) cs)) (put_elements (putUInt16 fresh) (length cs) cs)"
      by (rule u16.put_elements_writes) (simp add: list_all_iff)
    show "writes [0, 0] (putUInt16 fresh 0)"
      using u16.put_writes [of 0 fresh] by (simp add: le_bytes_0)
  qed
  then show ?thesis using False by (simp add: wire_def)
qed

text \<open>Filling a buffer from UTF-8.\<close>

lemma byte_tests:
  "v AND 0x80 = 0 \<longleftrightarrow> \<not> bit v 7"
  "v AND 0xE0 = 0xC0 \<longleftrightarrow> \<not> bit v 5 \<and> bit v 6 \<and> bit v 7"
  "v AND 0xF0 = 0xE0 \<longleftrightarrow> \<not> bit v 4 \<and> bit v 5 \<and> bit v 6 \<and> bit v 7" for v :: byte
proof -
  have up: "v AND m = w \<longleftrightarrow> (ucast v :: u16) AND ucast m = ucast w" for m w :: byte
  proof
    assume "v AND m = w"
    then show "(ucast v :: u16) AND ucast m = ucast w" by (auto simp: unsigned_and_eq)
  next
    assume a: "(ucast v :: u16) AND ucast m = ucast w"
    show "v AND m = w"
    proof (rule bit_word_eqI)
      fix n
      assume "n < LENGTH(8)"
      then show "bit (v AND m) n = bit w n"
        using arg_cong [OF a, of "\<lambda>w. bit w n"] by (simp add: bit_simps)
    qed
  qed
  show "v AND 0x80 = 0 \<longleftrightarrow> \<not> bit v 7"
    using bit_test(1) [of "ucast v"] up [of "0x80" 0] by (simp add: bit_simps)
  show "v AND 0xE0 = 0xC0 \<longleftrightarrow> \<not> bit v 5 \<and> bit v 6 \<and> bit v 7"
    using bit_test(2) [of "ucast v"] up [of "0xE0" "0xC0"] by (simp add: bit_simps)
  show "v AND 0xF0 = 0xE0 \<longleftrightarrow> \<not> bit v 4 \<and> bit v 5 \<and> bit v 6 \<and> bit v 7"
  proof
    assume v: "v AND 0xF0 = 0xE0"
    have "bit (v AND 0xF0) n = bit (0xE0 :: byte) n" for n by (simp only: v)
    from this [of 4] this [of 5] this [of 6] this [of 7]
    show "\<not> bit v 4 \<and> bit v 5 \<and> bit v 6 \<and> bit v 7" by (simp add: bit_simps)
  next
    assume v: "\<not> bit v 4 \<and> bit v 5 \<and> bit v 6 \<and> bit v 7"
    show "v AND 0xF0 = 0xE0"
    proof (rule bit_word_eqI)
      fix n
      assume "n < LENGTH(8)"
      then have "n = 0 \<or> n = 1 \<or> n = 2 \<or> n = 3 \<or> n = 4 \<or> n = 5 \<or> n = 6 \<or> n = 7" by simp arith
      then show "bit (v AND 0xF0) n = bit (0xE0 :: byte) n"
        using v by (elim disjE) (simp_all add: bit_simps)
    qed
  qed
qed

lemma nonzero_byte: "bit (b :: byte) n \<Longrightarrow> b \<noteq> 0"
  by auto

lemma utf8_char_nonzero: "ch \<noteq> 0 \<Longrightarrow> 0 \<notin> set (utf8_char ch)"
proof -
  assume ch: "ch \<noteq> 0"
  consider "ch < 0x80" | "0x80 \<le> ch" by fastforce
  then show "0 \<notin> set (utf8_char ch)"
  proof cases
    case 1
    then have u: "utf8_char ch = [ucast ch]"
      by (auto simp: utf8_char_def word_le_nat_alt word_less_nat_alt)
    have "(ucast (ucast ch :: byte) :: u16) = ch"
      by (rule u16_eqI) (use 1 in \<open>simp add: bit_simps high_bits\<close>)
    with ch u show ?thesis by auto
  next
    case 2
    have "bit (ucast (0xE0 OR drop_bit 12 ch) :: byte) 7" "bit (ucast (0xC0 OR drop_bit 6 ch) :: byte) 7"
      "bit (ucast (0x80 OR (drop_bit 6 ch AND 0x3F)) :: byte) 7" "bit (ucast (0x80 OR (ch AND 0x3F)) :: byte) 7"
      by (simp_all add: bit_simps)
    with 2 show ?thesis by (auto simp: utf8_char_def dest!: nonzero_byte)
  qed
qed

lemma utf8_loop_char:
  assumes "ch \<noteq> 0" "n < 255"
  shows "utf8_loop (utf8_char ch @ src) n = emit (utf8_char ch) (utf8_loop src (n + 1))"
proof -
  note max = MTP_STRING_MAX_CHARACTER_NUMBER_def
  note nz = utf8_char_nonzero [OF assms(1)]
  consider "ch < 0x80" | "0x80 \<le> ch" "ch < 0x0800" | "0x0800 \<le> ch" by fastforce
  then show ?thesis
  proof cases
    case 1
    then have u: "utf8_char ch = [ucast ch]"
      by (auto simp: utf8_char_def word_le_nat_alt word_less_nat_alt)
    have "\<not> bit (ucast ch :: byte) 7" using 1 by (simp add: bit_simps high_bits)
    then show ?thesis using nz assms(2) unfolding u by (simp add: byte_tests max)
  next
    case 2
    then have u: "utf8_char ch = [ucast (0xC0 OR drop_bit 6 ch), ucast (0x80 OR (ch AND 0x3F))]"
      by (simp add: utf8_char_def)
    have "bit (ucast (0xC0 OR drop_bit 6 ch) :: byte) 7" "bit (ucast (0xC0 OR drop_bit 6 ch) :: byte) 6"
      "\<not> bit (ucast (0xC0 OR drop_bit 6 ch) :: byte) 5"
      using 2 by (simp_all add: bit_simps high_bits)
    then show ?thesis using nz assms(2) unfolding u by (simp add: byte_tests max)
  next
    case 3
    then have "0x80 \<le> ch" by (rule order_trans [rotated]) simp
    with 3 have u: "utf8_char ch = [ucast (0xE0 OR drop_bit 12 ch),
        ucast (0x80 OR (drop_bit 6 ch AND 0x3F)), ucast (0x80 OR (ch AND 0x3F))]"
      by (simp add: utf8_char_def)
    have "bit (ucast (0xE0 OR drop_bit 12 ch) :: byte) 7" "bit (ucast (0xE0 OR drop_bit 12 ch) :: byte) 6"
      "bit (ucast (0xE0 OR drop_bit 12 ch) :: byte) 5" "\<not> bit (ucast (0xE0 OR drop_bit 12 ch) :: byte) 4"
      by (auto simp: bit_simps dest: bit_imp_le_length)
    then show ?thesis using nz assms(2) unfolding u by (simp add: byte_tests max)
  qed
qed

lemma utf8_loop_utf8:
  "0 \<notin> set cs \<Longrightarrow> n + length cs \<le> 255 \<Longrightarrow> utf8_loop (utf8 cs @ [0]) n = Some (utf8 cs, n + length cs)"
proof (induction cs arbitrary: n)
  case Nil
  then show ?case by simp
next
  case (Cons ch cs)
  then show ?case
    using utf8_loop_char [of ch n "utf8 cs @ [0]"] by (simp add: emit_def)
qed

lemma utf16_loop_chars:
  "0 \<notin> set cs \<Longrightarrow> n + length cs \<le> 255 \<Longrightarrow> utf16_loop (cs @ [0]) n = Some (utf8 cs, n + length cs)"
  by (induction cs arbitrary: n) (auto simp: emit_def MTP_STRING_MAX_CHARACTER_NUMBER_def)

lemma store_string_inside:
  assumes "length (mBytes b) = string_bytes" "length out < string_bytes"
  shows "store_string out n b =
    Some \<lparr>mBytes = out @ 0 # drop (length out + 1) (mBytes b), mCharCount = n, mByteCount = int (length out) + 1\<rparr>"
  using pokes_inside [of 0 "out @ [0]" "mBytes b"] assms by (simp add: store_string_def)

lemma length_uninitialized [simp]:
  "length (mBytes (uninitialized junk)) = string_bytes" "length (mBytes (MtpStringBuffer junk)) = string_bytes"
  by (simp_all add: uninitialized_def MtpStringBuffer_def)

lemma utf8_fits: "length cs \<le> 255 \<Longrightarrow> length (utf8 cs) < string_bytes"
  using length_utf8 [of cs] by (simp add: string_bytes_def MTP_STRING_MAX_CHARACTER_NUMBER_def)

lemma set_utf8_string:
  assumes "0 \<notin> set cs" "length cs \<le> 255" "length (mBytes b) = string_bytes"
  obtains suf where "set_utf8 (utf8 cs @ [0]) b =
    Some \<lparr>mBytes = utf8 cs @ 0 # suf, mCharCount = int (length cs), mByteCount = int (length (utf8 cs)) + 1\<rparr>"
  using assms utf8_fits [OF assms(2)]
  by (intro that [of "drop (length (utf8 cs) + 1) (mBytes b)"])
    (simp add: set_utf8_def utf8_loop_utf8 store_string_inside)

lemma set_utf16_string:
  assumes "0 \<notin> set cs" "length cs \<le> 255" "length (mBytes b) = string_bytes"
  obtains suf where "set_utf16 (cs @ [0]) b =
    Some \<lparr>mBytes = utf8 cs @ 0 # suf, mCharCount = int (length cs), mByteCount = int (length (utf8 cs)) + 1\<rparr>"
  using assms utf8_fits [OF assms(2)]
  by (intro that [of "drop (length (utf8 cs) + 1) (mBytes b)"])
    (simp add: set_utf16_def utf16_loop_chars store_string_inside)

text \<open>Writing a string of up to 255 characters.\<close>

lemma writes_putString:
  assumes "0 \<notin> set cs" "length cs \<le> 255"
  shows "writes (wire cs) (putString fresh junk (utf8 cs @ [0]))"
proof -
  obtain suf where b: "set_utf8 (utf8 cs @ [0]) (uninitialized junk) =
      Some \<lparr>mBytes = utf8 cs @ 0 # suf, mCharCount = int (length cs), mByteCount = int (length (utf8 cs)) + 1\<rparr>"
    by (rule set_utf8_string [OF assms length_uninitialized(1)])
  have "putString fresh junk (utf8 cs @ [0]) = writeToPacket fresh
      \<lparr>mBytes = utf8 cs @ 0 # suf, mCharCount = int (length cs), mByteCount = int (length (utf8 cs)) + 1\<rparr>"
    by (rule ext) (simp add: putString_def b)
  then show ?thesis by (simp add: writes_string)
qed

text \<open>Reading it back: the characters with their terminator, and \<open>strdup\<close> of the buffer.\<close>

lemma read_chars_reads:
  "readable p \<Longrightarrow> unread p = concat (map (le_bytes 2) cs) @ rest \<Longrightarrow>
    read_chars (length cs) p = Some (True, utf8 cs, advance (2 * length cs) p)"
proof (induction cs arbitrary: p)
  case Nil
  then show ?case by simp
next
  case (Cons ch cs)
  have u: "unread p = le_bytes 2 ch @ (concat (map (le_bytes 2) cs) @ rest)"
    using Cons.prems(2) by simp
  have "getUInt16 p = Some (Some ch, advance 2 p)"
    using readsD [OF u16.get_reads _ u] Cons.prems(1) by simp
  then show ?case
    using Cons.IH [of "advance 2 p"] read_on [OF Cons.prems(1) u] by simp
qed

lemma read_chars_safe:
  assumes "readable p"
  obtains ok out q where "read_chars n p = Some (ok, out, q)" "moved p q" "length out \<le> 3 * n"
proof -
  have "\<exists>ok out q. read_chars n p = Some (ok, out, q) \<and> moved p q \<and> length out \<le> 3 * n"
    using assms
  proof (induction n arbitrary: p)
    case 0
    then show ?case by (auto intro: moved_refl)
  next
    case (Suc n)
    obtain r q where q: "getUInt16 p = Some (r, q)" "moved p q" "readable q"
      by (rule safeE [OF u16.get_safe Suc.prems])
    show ?case
    proof (cases r)
      case None
      with q show ?thesis by auto
    next
      case (Some ch)
      obtain ok out s where "read_chars n q = Some (ok, out, s)" "moved q s" "length out \<le> 3 * n"
        using Suc.IH [OF q(3)] by blast
      with Some q show ?thesis
        using length_utf8_char [of ch] by (auto intro: moved_trans)
    qed
  qed
  then show ?thesis using that by blast
qed

text \<open>Reading a string is safe, whatever the buffer holds.\<close>

lemma readFromPacket_safe:
  assumes "readable p" "length (mBytes b) = string_bytes"
  obtains ok b' q where "readFromPacket b p = Some (ok, b', q)" "moved p q" "length (mBytes b') = string_bytes"
    "ok \<Longrightarrow> 0 \<in> set (mBytes b')"
proof -
  obtain r q where q: "getUInt8 p = Some (r, q)" "moved p q" "readable q"
    by (rule safeE [OF u8.get_safe assms(1)])
  show ?thesis
  proof (cases r)
    case None
    with q assms(2) that [of False b q] show ?thesis by (simp add: readFromPacket_def)
  next
    case (Some c)
    obtain ok out s where s: "read_chars (unat c) q = Some (ok, out, s)" "moved q s" "length out \<le> 3 * unat c"
      by (rule read_chars_safe [OF q(3)])
    have len: "length out < string_bytes"
      using s(3) unat_byte_less [of c] by (simp add: string_bytes_def MTP_STRING_MAX_CHARACTER_NUMBER_def)
    have m: "moved p s" using q(2) s(2) by (rule moved_trans)
    show ?thesis
    proof (cases ok)
      case True
      have run: "readFromPacket b p = Some (True, \<lparr>mBytes = out @ 0 # drop (length out + 1) (mBytes b),
          mCharCount = uint c, mByteCount = int (length out) + 1\<rparr>, s)"
        using q s Some True store_string_inside [OF assms(2) len] by (simp add: readFromPacket_def)
      show ?thesis by (rule that [OF run m]) (use len assms(2) in auto)
    next
      case False
      have run: "readFromPacket b p = Some (False, b\<lparr>mBytes := out @ drop (length out) (mBytes b)\<rparr>, s)"
        using q s Some False len assms(2) pokes_inside [of 0 out "mBytes b"]
        by (simp add: readFromPacket_def)
      show ?thesis by (rule that [OF run m]) (use len assms(2) in auto)
    qed
  qed
qed

lemma takeWhile_utf8: "0 \<notin> set cs \<Longrightarrow> takeWhile (\<lambda>c. c \<noteq> 0) (utf8 cs @ 0 # suf) = utf8 cs"
proof -
  assume "0 \<notin> set cs"
  then have "\<forall>c\<in>set (utf8 cs). c \<noteq> 0"
    using utf8_char_nonzero by (auto simp: utf8_def) metis
  then show ?thesis by (simp add: takeWhile_append2)
qed

lemma readFromPacket_reads:
  assumes "readable p" "unread p = wire cs @ rest" "proper_string cs" "length (mBytes b) = string_bytes"
  obtains b' where "readFromPacket b p = Some (True, b', advance (length (wire cs)) p)"
    "strdup b' = Some (utf8 cs)" "length (mBytes b') = string_bytes"
proof (cases "cs = []")
  case True
  have "getUInt8 p = Some (Some 0, advance 1 p)"
    using assms(1,2) True by (simp add: getUInt8_cases wire_def)
  then have run: "readFromPacket b p = Some (True, \<lparr>mBytes = 0 # drop 1 (mBytes b), mCharCount = 0, mByteCount = 1\<rparr>,
      advance (length (wire cs)) p)"
    using True store_string_inside [OF assms(4), of "[]"]
    by (simp add: readFromPacket_def wire_def string_bytes_def)
  show ?thesis
    by (rule that [OF run]) (use True assms(4) in \<open>auto simp: strdup_def string_bytes_def\<close>)
next
  case False
  let ?out = "utf8 cs @ [0]"
  define c :: byte where "c = of_nat (length cs + 1)"
  define m where "m = unat c"
  have cs: "length cs \<le> 254" "0 \<notin> set cs" using assms(3) by (auto simp: proper_string_def)
  then have m: "m = length (cs @ [0])"
    by (simp add: m_def c_def unsigned_of_nat take_bit_nat_eq_self del: of_nat_add of_nat_Suc)
  have u: "unread p = [c] @ (concat (map (le_bytes 2) (cs @ [0])) @ rest)"
    using assms(2) False by (simp add: wire_def le_bytes_0 c_def)
  have "getUInt8 p = Some (Some c, advance 1 p)"
    using assms(1) u by (simp add: getUInt8_cases)
  moreover have "read_chars m (advance 1 p) = Some (True, ?out, advance (2 * m) (advance 1 p))"
    using read_chars_reads [of "advance 1 p" "cs @ [0]" rest] read_on [OF assms(1) u]
    by (simp add: utf8_def utf8_char_def m)
  moreover have "length ?out < string_bytes"
    using length_utf8 [of cs] cs(1) by (simp add: string_bytes_def MTP_STRING_MAX_CHARACTER_NUMBER_def)
  moreover have "length (wire cs) = 1 + 2 * m"
    using m False by (simp add: wire_def length_concat comp_def sum_list_triv)
  ultimately have run: "readFromPacket b p = Some (True,
      \<lparr>mBytes = ?out @ 0 # drop (length ?out + 1) (mBytes b), mCharCount = uint c,
        mByteCount = int (length ?out) + 1\<rparr>, advance (length (wire cs)) p)"
    using store_string_inside [OF assms(4), of ?out]
    by (simp add: readFromPacket_def m_def [symmetric])
  show ?thesis
    by (rule that [OF run])
      (use takeWhile_utf8 [OF cs(2)] \<open>length ?out < string_bytes\<close> assms(4) in \<open>auto simp: strdup_def\<close>)
qed

section \<open>What holds of strings in packets\<close>

lemma appended_readable:
  assumes "appending p" "appended bs p q"
  shows "readable (q\<lparr>mOffset := mPacketSize p\<rparr>) \<and> unread (q\<lparr>mOffset := mPacketSize p\<rparr>) = bs
    \<and> advance (length bs) (q\<lparr>mOffset := mPacketSize p\<rparr>) = q"
  using assms appended_size [OF assms] length_contents [of p]
  by (auto simp: readable_def unread_def contents_def appended_def appending_def well_formed_def advance_def)

text \<open>
  C29: A string of at most 254 characters of the basic plane, put into a packet with \<open>putString\<close> and read
  from there with \<open>getString\<close>, is the same string, and the packet is left behind it. This holds whatever
  the memory of the two string buffers held before, and however the packet has to grow.
\<close>

theorem string_roundtrip:
  assumes "proper_string cs" "appending p" "room (length (wire cs)) p"
  shows "\<exists>q b. putString fresh junk (utf8 cs @ [0]) p = Some q
    \<and> getString (MtpStringBuffer junk') (q\<lparr>mOffset := mPacketSize p\<rparr>) = Some (True, b, q)
    \<and> strdup b = Some (utf8 cs)"
proof -
  have cs: "0 \<notin> set cs" "length cs \<le> 255" using assms(1) by (auto simp: proper_string_def)
  obtain q where q: "putString fresh junk (utf8 cs @ [0]) p = Some q" "appended (wire cs) p q"
    by (rule writesE [OF writes_putString [OF cs] assms(2,3)])
  have at: "readable (q\<lparr>mOffset := mPacketSize p\<rparr>)" "unread (q\<lparr>mOffset := mPacketSize p\<rparr>) = wire cs @ []"
    "advance (length (wire cs)) (q\<lparr>mOffset := mPacketSize p\<rparr>) = q"
    using appended_readable [OF assms(2) q(2)] by auto
  obtain b where "readFromPacket (MtpStringBuffer junk') (q\<lparr>mOffset := mPacketSize p\<rparr>)
      = Some (True, b, advance (length (wire cs)) (q\<lparr>mOffset := mPacketSize p\<rparr>))"
    "strdup b = Some (utf8 cs)"
    by (rule readFromPacket_reads [OF at(1,2) assms(1) length_uninitialized(2)])
  then show ?thesis using q(1) at(3) by (auto simp: getString_def)
qed

lemma writes_putString_utf16:
  assumes "0 \<notin> set cs" "length cs \<le> 255"
  shows "putString_utf16 fresh (cs @ [0]) = (\<lambda>p. putUInt8 fresh (if cs = [] then 0 else of_nat (length cs + 1)) p \<bind>
    (\<lambda>p. put_elements (putUInt16 fresh) (length cs) cs p \<bind> (if cs = [] then Some else putUInt16 fresh 0)))"
proof -
  have count: "count_chars n (cs @ [0]) = Some (length cs)" if "length cs < n" for n
    using that assms(1)
  proof (induction cs arbitrary: n)
    case Nil
    then show ?case by (cases n) auto
  next
    case (Cons ch cs)
    then show ?case by (cases n) auto
  qed
  have elements: "put_elements put (length vs) (vs @ ws) p = put_elements put (length vs) vs p"
    for put :: "u16 \<Rightarrow> put_run" and vs ws p
  proof (induction vs arbitrary: p)
    case (Cons v vs)
    then show ?case by (cases "put v p") simp_all
  qed simp
  show ?thesis
    using assms(2) count [of 256]
    by (intro ext) (auto simp: putString_utf16_def elements MTP_STRING_MAX_CHARACTER_NUMBER_def)
qed

text \<open>
  The direct \<open>putString(const uint16_t*)\<close> and the way through a string buffer, \<open>MtpStringBuffer\<close> of the same
  characters and \<open>putString\<close> of the buffer, do the same to every packet for up to 255 characters.
\<close>

theorem utf16_put_agrees:
  assumes "0 \<notin> set cs" "length cs \<le> 255"
  shows "putString_utf16 fresh (cs @ [0]) p =
    set_utf16 (cs @ [0]) (uninitialized junk) \<bind> (\<lambda>b. putString_buffer fresh b p)"
proof -
  obtain suf where b: "set_utf16 (cs @ [0]) (uninitialized junk) =
      Some \<lparr>mBytes = utf8 cs @ 0 # suf, mCharCount = int (length cs), mByteCount = int (length (utf8 cs)) + 1\<rparr>"
    by (rule set_utf16_string [OF assms length_uninitialized(1)])
  show ?thesis
    using write_chars_utf8 [of fresh "[]" cs "0 # suf"]
    by (simp add: b writes_putString_utf16 [OF assms] putString_buffer_def writeToPacket_def ac_simps)
qed

theorem utf16_put_agrees_witness:
  "putString_utf16 fresh ([0x48, 0x20AC] @ [0]) p =
     set_utf16 ([0x48, 0x20AC] @ [0]) (uninitialized junk) \<bind> (\<lambda>b. putString_buffer fresh b p)"
  by (rule utf16_put_agrees) simp_all

text \<open>
  A string of 255 characters, the longest a buffer holds, cannot be read back: its count byte
  wraps around to zero, so that \<open>getString\<close> finds the empty string and leaves all characters in front of the
  next read.
\<close>

theorem full_string_unreadable:
  assumes "0 \<notin> set cs" "length cs = 255" "appending p" "room 513 p"
  shows "\<exists>q b. putString fresh junk (utf8 cs @ [0]) p = Some q
    \<and> getString (MtpStringBuffer junk') (q\<lparr>mOffset := mPacketSize p\<rparr>)
        = Some (True, b, q\<lparr>mOffset := mPacketSize p + 1\<rparr>)
    \<and> strdup b = Some [] \<and> mPacketSize q = mPacketSize p + 513"
proof -
  have cs: "cs \<noteq> []" "length cs \<le> 255" using assms(2) by auto
  have zero: "word_of_nat (Suc (length cs)) = (0 :: byte)"
    by (simp add: assms(2))
  have w: "wire cs = 0 # concat (map (le_bytes 2) cs) @ [0, 0]" "length (wire cs) = 513"
    using cs(1) zero assms(2) by (simp_all add: wire_def length_concat comp_def sum_list_triv)
  obtain q where q: "putString fresh junk (utf8 cs @ [0]) p = Some q" "appended (wire cs) p q"
    by (rule writesE [OF writes_putString [OF assms(1) cs(2)] assms(3)]) (simp add: w(2) assms(4))
  let ?q = "q\<lparr>mOffset := mPacketSize p\<rparr>"
  have at: "readable ?q" "unread ?q = wire [] @ (concat (map (le_bytes 2) cs) @ [0, 0])"
    using appended_readable [OF assms(3) q(2)] w(1) by (simp_all add: wire_def)
  obtain b where "readFromPacket (MtpStringBuffer junk') ?q = Some (True, b, advance (length (wire [])) ?q)"
    "strdup b = Some (utf8 [])"
    by (rule readFromPacket_reads [OF at _ length_uninitialized(2)]) (simp_all add: proper_string_def)
  then show ?thesis
    using q(1) appended_size [OF assms(3) q(2)] w(2)
    by (intro exI [of _ q] exI [of _ b]) (simp add: getString_def wire_def advance_def)
qed

text \<open>
  A name with a character outside the basic plane, U+1F600 here, which takes four bytes in UTF-8, discloses memory:
  \<open>set\<close> counts its four bytes as four characters without storing any, and \<open>writeToPacket\<close> sends what the
  stack held in their place.
\<close>

theorem four_byte_character_leaks:
  assumes "\<forall>i \<in> {1, 2, 3}. \<not> bit (junk i) 7" "appending p" "room 11 p"
  shows "\<exists>q. putString fresh junk [0xF0, 0x9F, 0x98, 0x80, 0] p = Some q
    \<and> contents q = contents p @ [5, 0, 0, junk 1, 0, junk 2, 0, junk 3, 0, 0, 0]"
proof -
  let ?u = "uninitialized junk"
  have lp: "utf8_loop [0xF0, 0x9F, 0x98, 0x80, 0] 0 = Some ([], 4)"
    by (simp add: MTP_STRING_MAX_CHARACTER_NUMBER_def)
  have up: "[1..<n] = [1, 2, 3] @ [4..<n]" if "4 \<le> n" for n
    using that upt_add_eq_append [of 1 4 "n - 4"] by (simp add: upt_rec)
  have four: "4 \<le> string_bytes" "Suc 0 < string_bytes"
    by (simp_all add: string_bytes_def MTP_STRING_MAX_CHARACTER_NUMBER_def)
  have bytes: "drop 1 (mBytes ?u) = junk 1 # junk 2 # junk 3 # map junk [4..<string_bytes]"
    using up [OF four(1)] by (simp add: uninitialized_def drop_map del: upt_Suc)
  have b: "set_utf8 [0xF0, 0x9F, 0x98, 0x80, 0] ?u =
      Some \<lparr>mBytes = 0 # junk 1 # junk 2 # junk 3 # map junk [4..<string_bytes], mCharCount = 4, mByteCount = 1\<rparr>"
    using store_string_inside [of ?u "[]" 4] bytes four by (simp add: set_utf8_def lp del: utf8_loop.simps)
  have ascii: "utf8_char (ucast c) = [c]" if "\<not> bit c 7" for c :: byte
  proof -
    have "(ucast c :: u16) < 0x80" using that by (simp add: high_bits bit_simps bit_byte_high)
    moreover have "(ucast (ucast c :: u16) :: byte) = c"
      by (rule bit_word_eqI) (simp add: bit_simps)
    ultimately show ?thesis by (auto simp: utf8_char_def word_le_nat_alt word_less_nat_alt)
  qed
  let ?cs = "map ucast [0, junk 1, junk 2, junk 3] :: u16 list"
  have cs: "utf8 ?cs = [0, junk 1, junk 2, junk 3]"
    using assms(1) ascii [of 0] by (simp add: ascii)
  have "putString fresh junk [0xF0, 0x9F, 0x98, 0x80, 0] = writeToPacket fresh
      \<lparr>mBytes = utf8 ?cs @ map junk [4..<string_bytes], mCharCount = 4, mByteCount = 1\<rparr>"
    unfolding cs by (rule ext) (simp add: putString_def b)
  then have "writes (wire ?cs) (putString fresh junk [0xF0, 0x9F, 0x98, 0x80, 0])"
    by (simp add: writes_string)
  moreover have "le_bytes 2 (ucast c :: u16) = [c, 0]" for c
  proof -
    have "byte_at (ucast c :: u16) 0 = c" "byte_at (ucast c :: u16) 1 = 0"
      by (rule bit_word_eqI, auto simp: bit_byte_at bit_simps dest: bit_imp_le_length)+
    then show ?thesis by (simp add: le_bytes_simps)
  qed
  ultimately have w: "writes [5, 0, 0, junk 1, 0, junk 2, 0, junk 3, 0, 0, 0]
      (putString fresh junk [0xF0, 0x9F, 0x98, 0x80, 0])"
    by (simp add: wire_def le_bytes_0)
  obtain q where "putString fresh junk [0xF0, 0x9F, 0x98, 0x80, 0] p = Some q"
    "appended [5, 0, 0, junk 1, 0, junk 2, 0, junk 3, 0, 0, 0] p q"
    by (rule writesE [OF w assms(2)]) (simp_all add: room_less [OF assms(3)])
  then show ?thesis by (auto simp: appended_def)
qed

text \<open>Instances of the theorems.\<close>

definition blank_packet :: mtp_data_packet where
  "blank_packet = \<lparr>mBuffer = replicate 16384 0, mBufferSize = 16384, mAllocationIncrement = 16384,
     mPacketSize = 12, mOffset = 12\<rparr>"

lemma blank_packet: "appending blank_packet" "n < 2000000000 \<Longrightarrow> room n blank_packet"
  by (simp_all add: blank_packet_def appending_def well_formed_def room_def)

theorem string_roundtrip_witness:
  "\<exists>q b. putString (\<lambda>_. 0) (\<lambda>_. 7) (utf8 [0x48, 0x20AC] @ [0]) blank_packet = Some q
    \<and> getString (MtpStringBuffer (\<lambda>_. 9)) (q\<lparr>mOffset := mPacketSize blank_packet\<rparr>) = Some (True, b, q)
    \<and> strdup b = Some (utf8 [0x48, 0x20AC])"
  by (rule string_roundtrip)
    (simp_all add: blank_packet proper_string_def wire_def length_concat)

theorem full_string_unreadable_witness:
  "\<exists>q b. putString (\<lambda>_. 0) (\<lambda>_. 7) (utf8 (replicate 255 0x41) @ [0]) blank_packet = Some q
    \<and> getString (MtpStringBuffer (\<lambda>_. 9)) (q\<lparr>mOffset := mPacketSize blank_packet\<rparr>)
        = Some (True, b, q\<lparr>mOffset := mPacketSize blank_packet + 1\<rparr>)
    \<and> strdup b = Some [] \<and> mPacketSize q = mPacketSize blank_packet + 513"
  by (rule full_string_unreadable) (simp_all add: blank_packet)

theorem four_byte_character_leaks_witness:
  "\<exists>q. putString (\<lambda>_. 0) (\<lambda>i. of_nat i) [0xF0, 0x9F, 0x98, 0x80, 0] blank_packet = Some q
    \<and> contents q = contents blank_packet @ [5, 0, 0, of_nat 1, 0, of_nat 2, 0, of_nat 3, 0, 0, 0]"
  by (rule four_byte_character_leaks) (simp_all add: blank_packet)

end
