(* ===== verification/MtpProperties.thy ===== *)
theory MtpProperties
  imports MtpStrings
begin

text \<open>
  Property descriptions, media/mtp/MtpProperty.cpp: a value with its type, reading a description from
  a data packet and writing it, the forms, and the destructor.

  The union of a value is a word of 128 bits of which a member is the low part, as on a little-endian
  machine. A pointer to a string is null, owns a string, or was never assigned; what \<open>new\<close> leaves in a value is the
  parameter \<open>garbage\<close>.
\<close>

section \<open>Values\<close>

definition MTP_TYPE_UNDEFINED :: u16 where "MTP_TYPE_UNDEFINED = 0x0000"
definition MTP_TYPE_INT8 :: u16 where "MTP_TYPE_INT8 = 0x0001"
definition MTP_TYPE_UINT8 :: u16 where "MTP_TYPE_UINT8 = 0x0002"
definition MTP_TYPE_INT16 :: u16 where "MTP_TYPE_INT16 = 0x0003"
definition MTP_TYPE_UINT16 :: u16 where "MTP_TYPE_UINT16 = 0x0004"
definition MTP_TYPE_INT32 :: u16 where "MTP_TYPE_INT32 = 0x0005"
definition MTP_TYPE_UINT32 :: u16 where "MTP_TYPE_UINT32 = 0x0006"
definition MTP_TYPE_INT64 :: u16 where "MTP_TYPE_INT64 = 0x0007"
definition MTP_TYPE_UINT64 :: u16 where "MTP_TYPE_UINT64 = 0x0008"
definition MTP_TYPE_INT128 :: u16 where "MTP_TYPE_INT128 = 0x0009"
definition MTP_TYPE_UINT128 :: u16 where "MTP_TYPE_UINT128 = 0x000A"
definition MTP_TYPE_AINT8 :: u16 where "MTP_TYPE_AINT8 = 0x4001"
definition MTP_TYPE_AUINT8 :: u16 where "MTP_TYPE_AUINT8 = 0x4002"
definition MTP_TYPE_AINT16 :: u16 where "MTP_TYPE_AINT16 = 0x4003"
definition MTP_TYPE_AUINT16 :: u16 where "MTP_TYPE_AUINT16 = 0x4004"
definition MTP_TYPE_AINT32 :: u16 where "MTP_TYPE_AINT32 = 0x4005"
definition MTP_TYPE_AUINT32 :: u16 where "MTP_TYPE_AUINT32 = 0x4006"
definition MTP_TYPE_AINT64 :: u16 where "MTP_TYPE_AINT64 = 0x4007"
definition MTP_TYPE_AUINT64 :: u16 where "MTP_TYPE_AUINT64 = 0x4008"
definition MTP_TYPE_AINT128 :: u16 where "MTP_TYPE_AINT128 = 0x4009"
definition MTP_TYPE_AUINT128 :: u16 where "MTP_TYPE_AUINT128 = 0x400A"
definition MTP_TYPE_STR :: u16 where "MTP_TYPE_STR = 0xFFFF"

named_theorems mtp_types

lemmas mtp_type_codes [mtp_types] = MTP_TYPE_UNDEFINED_def MTP_TYPE_INT8_def MTP_TYPE_UINT8_def
  MTP_TYPE_INT16_def MTP_TYPE_UINT16_def MTP_TYPE_INT32_def MTP_TYPE_UINT32_def MTP_TYPE_INT64_def
  MTP_TYPE_UINT64_def MTP_TYPE_INT128_def MTP_TYPE_UINT128_def MTP_TYPE_AINT8_def MTP_TYPE_AUINT8_def
  MTP_TYPE_AINT16_def MTP_TYPE_AUINT16_def MTP_TYPE_AINT32_def MTP_TYPE_AUINT32_def
  MTP_TYPE_AINT64_def MTP_TYPE_AUINT64_def MTP_TYPE_AINT128_def MTP_TYPE_AUINT128_def MTP_TYPE_STR_def

datatype char_ptr = Null | Owned "byte list" | Unset

record mtp_value =
  member :: u128
  str :: char_ptr

text \<open>Assigning a member of the union, of the width of the assigned word.\<close>

definition set_member :: "'a::len word \<Rightarrow> mtp_value \<Rightarrow> mtp_value" where
  "set_member x v = v\<lparr>member := (member v AND NOT (mask LENGTH('a))) OR ucast x\<rparr>"

definition get_member :: "'a::len word getter \<Rightarrow> mtp_value \<times> mtp_data_packet
    \<Rightarrow> (bool \<times> mtp_value \<times> mtp_data_packet) option" where
  "get_member get = get_field get set_member"

definition get_member128 :: "(u128 \<Rightarrow> mtp_data_packet \<Rightarrow> (bool \<times> u128 \<times> mtp_data_packet) option)
    \<Rightarrow> mtp_value \<times> mtp_data_packet \<Rightarrow> (bool \<times> mtp_value \<times> mtp_data_packet) option" where
  "get_member128 get = (\<lambda>(v, p). do {
     (ok, x, p) \<leftarrow> get (member v) p;
     Some (ok, v\<lparr>member := x\<rparr>, p) })"

definition readValue :: "(nat \<Rightarrow> byte) \<Rightarrow> u16 \<Rightarrow> mtp_value \<times> mtp_data_packet
    \<Rightarrow> (bool \<times> mtp_value \<times> mtp_data_packet) option" where
  "readValue junk t = (\<lambda>(v, p).
     if t = MTP_TYPE_INT8 \<or> t = MTP_TYPE_AINT8 then get_member getInt8 (v, p)
     else if t = MTP_TYPE_UINT8 \<or> t = MTP_TYPE_AUINT8 then get_member getUInt8 (v, p)
     else if t = MTP_TYPE_INT16 \<or> t = MTP_TYPE_AINT16 then get_member getInt16 (v, p)
     else if t = MTP_TYPE_UINT16 \<or> t = MTP_TYPE_AUINT16 then get_member getUInt16 (v, p)
     else if t = MTP_TYPE_INT32 \<or> t = MTP_TYPE_AINT32 then get_member getInt32 (v, p)
     else if t = MTP_TYPE_UINT32 \<or> t = MTP_TYPE_AUINT32 then get_member getUInt32 (v, p)
     else if t = MTP_TYPE_INT64 \<or> t = MTP_TYPE_AINT64 then get_member getInt64 (v, p)
     else if t = MTP_TYPE_UINT64 \<or> t = MTP_TYPE_AUINT64 then get_member getUInt64 (v, p)
     else if t = MTP_TYPE_INT128 \<or> t = MTP_TYPE_AINT128 then get_member128 getInt128 (v, p)
     else if t = MTP_TYPE_UINT128 \<or> t = MTP_TYPE_AUINT128 then get_member128 getUInt128 (v, p)
     else if t = MTP_TYPE_STR then do {
       (ok, b, p) \<leftarrow> getString (MtpStringBuffer junk) p;
       if ok then do { s \<leftarrow> strdup b; Some (True, v\<lparr>str := Owned s\<rparr>, p) }
       else Some (False, v, p) }
     else Some (False, v, p))"

definition writeValue :: "(nat \<Rightarrow> byte) \<Rightarrow> (nat \<Rightarrow> byte) \<Rightarrow> u16 \<Rightarrow> mtp_value \<Rightarrow> put_run" where
  "writeValue fresh junk t v p =
     (if t = MTP_TYPE_INT8 \<or> t = MTP_TYPE_AINT8 then putInt8 fresh (ucast (member v)) p
      else if t = MTP_TYPE_UINT8 \<or> t = MTP_TYPE_AUINT8 then putUInt8 fresh (ucast (member v)) p
      else if t = MTP_TYPE_INT16 \<or> t = MTP_TYPE_AINT16 then putInt16 fresh (ucast (member v)) p
      else if t = MTP_TYPE_UINT16 \<or> t = MTP_TYPE_AUINT16 then putUInt16 fresh (ucast (member v)) p
      else if t = MTP_TYPE_INT32 \<or> t = MTP_TYPE_AINT32 then putInt32 fresh (ucast (member v)) p
      else if t = MTP_TYPE_UINT32 \<or> t = MTP_TYPE_AUINT32 then putUInt32 fresh (ucast (member v)) p
      else if t = MTP_TYPE_INT64 \<or> t = MTP_TYPE_AINT64 then putInt64 fresh (ucast (member v)) p
      else if t = MTP_TYPE_UINT64 \<or> t = MTP_TYPE_AUINT64 then putUInt64 fresh (ucast (member v)) p
      else if t = MTP_TYPE_INT128 \<or> t = MTP_TYPE_AINT128 then putInt128 fresh (member v) p
      else if t = MTP_TYPE_UINT128 \<or> t = MTP_TYPE_AUINT128 then putUInt128 fresh (member v) p
      else if t = MTP_TYPE_STR then
        (case str v of
           Owned s \<Rightarrow> putString fresh junk (s @ [0]) p
         | Null \<Rightarrow> putEmptyString fresh p
         | Unset \<Rightarrow> None)
      else Some p)"

text \<open>An array of new values, filled in order; at the first that is missing the rest stays as \<open>new\<close> left it.\<close>

definition new_value :: "u128 \<Rightarrow> mtp_value" where
  "new_value garbage = \<lparr>member = garbage, str = Unset\<rparr>"

fun read_values :: "(nat \<Rightarrow> byte) \<Rightarrow> u128 \<Rightarrow> u16 \<Rightarrow> nat \<Rightarrow> mtp_data_packet
    \<Rightarrow> (bool \<times> mtp_value list \<times> mtp_data_packet) option" where
  "read_values junk garbage t 0 p = Some (True, [], p)"
| "read_values junk garbage t (Suc n) p = do {
     (ok, v, p) \<leftarrow> readValue junk t (new_value garbage, p);
     if ok then do { (ok, vs, p) \<leftarrow> read_values junk garbage t n p; Some (ok, v # vs, p) }
     else Some (False, v # replicate n (new_value garbage), p) }"

text \<open>\<open>INT32_MAX / sizeof(MtpPropertyValue)\<close>, with the union aligned to 8 bytes and followed by a pointer.\<close>

definition max_values :: nat where
  "max_values = (2 ^ 31 - 1) div 24"

definition readArrayValues :: "(nat \<Rightarrow> byte) \<Rightarrow> u128 \<Rightarrow> u16 \<Rightarrow> u32 \<Rightarrow> mtp_data_packet
    \<Rightarrow> (mtp_value list option \<times> u32 \<times> mtp_data_packet) option" where
  "readArrayValues junk garbage t len p = do {
     (c, p) \<leftarrow> getUInt32 p;
     case c of None \<Rightarrow> Some (None, len, p)
     | Some n \<Rightarrow>
         if n = 0 \<or> max_values \<le> unat n then Some (None, 0, p)
         else do {
           (ok, vs, p) \<leftarrow> read_values junk garbage t (unat n) p;
           Some (if ok then Some vs else None, n, p) } }"

definition write_values :: "(nat \<Rightarrow> byte) \<Rightarrow> (nat \<Rightarrow> byte) \<Rightarrow> u16 \<Rightarrow> mtp_value list option \<Rightarrow> nat \<Rightarrow> put_run" where
  "write_values fresh junk t values n p =
     (case values of None \<Rightarrow> (if n = 0 then Some p else None)
      | Some vs \<Rightarrow> put_elements (writeValue fresh junk t) n vs p)"

definition writeArrayValues :: "(nat \<Rightarrow> byte) \<Rightarrow> (nat \<Rightarrow> byte) \<Rightarrow> u16 \<Rightarrow> mtp_value list option \<Rightarrow> u32 \<Rightarrow> put_run" where
  "writeArrayValues fresh junk t values len p = do {
     p \<leftarrow> putUInt32 fresh len p;
     write_values fresh junk t values (unat len) p }"

section \<open>Property descriptions\<close>

record mtp_property =
  mCode :: u16
  mType :: u16
  mWriteable :: bool
  mDefaultValue :: mtp_value
  mCurrentValue :: mtp_value
  mDefaultArrayLength :: u32
  mDefaultArrayValues :: "mtp_value list option"
  mCurrentArrayLength :: u32
  mCurrentArrayValues :: "mtp_value list option"
  mGroupCode :: u32
  mFormFlag :: byte
  mMinimumValue :: mtp_value
  mMaximumValue :: mtp_value
  mStepSize :: mtp_value
  mEnumLength :: u16
  mEnumValues :: "mtp_value list option"

definition kFormNone :: byte where "kFormNone = 0"
definition kFormRange :: byte where "kFormRange = 1"
definition kFormEnum :: byte where "kFormEnum = 2"
definition kFormDateTime :: byte where "kFormDateTime = 3"

definition zero_value :: mtp_value where
  "zero_value = \<lparr>member = 0, str = Null\<rparr>"

definition MtpProperty :: "u128 \<Rightarrow> mtp_property" where
  "MtpProperty garbage = \<lparr>mCode = 0, mType = 0, mWriteable = False, mDefaultValue = zero_value,
     mCurrentValue = zero_value, mDefaultArrayLength = 0, mDefaultArrayValues = None,
     mCurrentArrayLength = 0, mCurrentArrayValues = None, mGroupCode = 0, mFormFlag = kFormNone,
     mMinimumValue = zero_value, mMaximumValue = zero_value, mStepSize = new_value garbage,
     mEnumLength = 0, mEnumValues = None\<rparr>"

text \<open>The conversion of an \<open>int\<close> to the member of the property's type, which the constructor and the form
  setters share; other types are logged only.\<close>

definition set_int :: "u16 \<Rightarrow> u32 \<Rightarrow> mtp_value \<Rightarrow> mtp_value" where
  "set_int t x v =
     (if t = MTP_TYPE_INT8 then set_member (ucast x :: byte) v
      else if t = MTP_TYPE_UINT8 then set_member (ucast x :: byte) v
      else if t = MTP_TYPE_INT16 then set_member (ucast x :: u16) v
      else if t = MTP_TYPE_UINT16 then set_member (ucast x :: u16) v
      else if t = MTP_TYPE_INT32 then set_member x v
      else if t = MTP_TYPE_UINT32 then set_member x v
      else if t = MTP_TYPE_INT64 then set_member (scast x :: u64) v
      else if t = MTP_TYPE_UINT64 then set_member (scast x :: u64) v
      else v)"

definition MtpProperty_of :: "u128 \<Rightarrow> u16 \<Rightarrow> u16 \<Rightarrow> bool \<Rightarrow> u32 \<Rightarrow> mtp_property" where
  "MtpProperty_of garbage code t writeable defaultValue =
     (let pr = (MtpProperty garbage)\<lparr>mCode := code, mType := t, mWriteable := writeable\<rparr>
      in if defaultValue \<noteq> 0 then pr\<lparr>mDefaultValue := set_int t defaultValue (mDefaultValue pr)\<rparr> else pr)"

definition isDeviceProperty :: "mtp_property \<Rightarrow> bool" where
  "isDeviceProperty pr \<longleftrightarrow> mCode pr AND 0xF000 = 0x5000 \<or> mCode pr AND 0xF800 = 0xD000"

definition is_array_type :: "u16 \<Rightarrow> bool" where
  "is_array_type t \<longleftrightarrow> t = MTP_TYPE_AINT8 \<or> t = MTP_TYPE_AUINT8 \<or> t = MTP_TYPE_AINT16 \<or> t = MTP_TYPE_AUINT16
     \<or> t = MTP_TYPE_AINT32 \<or> t = MTP_TYPE_AUINT32 \<or> t = MTP_TYPE_AINT64 \<or> t = MTP_TYPE_AUINT64
     \<or> t = MTP_TYPE_AINT128 \<or> t = MTP_TYPE_AUINT128"

subsection \<open>Reading a description\<close>

type_synonym property_step = "mtp_property \<times> mtp_data_packet \<Rightarrow> (bool \<times> mtp_property \<times> mtp_data_packet) option"

definition read_value_field ::
    "(nat \<Rightarrow> byte) \<Rightarrow> (mtp_property \<Rightarrow> mtp_value) \<Rightarrow> (mtp_value \<Rightarrow> mtp_property \<Rightarrow> mtp_property) \<Rightarrow> property_step" where
  "read_value_field junk field assign = (\<lambda>(pr, p). do {
     (ok, v, p) \<leftarrow> readValue junk (mType pr) (field pr, p);
     Some (ok, assign v pr, p) })"

definition read_default :: "(nat \<Rightarrow> byte) \<Rightarrow> u128 \<Rightarrow> property_step" where
  "read_default junk garbage = (\<lambda>(pr, p).
     if is_array_type (mType pr) then do {
       (vs, n, p) \<leftarrow> readArrayValues junk garbage (mType pr) (mDefaultArrayLength pr) p;
       Some (vs \<noteq> None, pr\<lparr>mDefaultArrayValues := vs, mDefaultArrayLength := n\<rparr>, p) }
     else read_value_field junk mDefaultValue (\<lambda>v. mDefaultValue_update (\<lambda>_. v)) (pr, p))"

definition read_current :: "(nat \<Rightarrow> byte) \<Rightarrow> u128 \<Rightarrow> property_step" where
  "read_current junk garbage = (\<lambda>(pr, p).
     if \<not> isDeviceProperty pr then Some (True, pr, p)
     else if is_array_type (mType pr) then do {
       (vs, n, p) \<leftarrow> readArrayValues junk garbage (mType pr) (mCurrentArrayLength pr) p;
       Some (vs \<noteq> None, pr\<lparr>mCurrentArrayValues := vs, mCurrentArrayLength := n\<rparr>, p) }
     else read_value_field junk mCurrentValue (\<lambda>v. mCurrentValue_update (\<lambda>_. v)) (pr, p))"

definition read_group :: property_step where
  "read_group = (\<lambda>(pr, p).
     if isDeviceProperty pr then Some (True, pr, p)
     else get_field getUInt32 (\<lambda>x. mGroupCode_update (\<lambda>_. x)) (pr, p))"

definition read_enum_values :: "(nat \<Rightarrow> byte) \<Rightarrow> u128 \<Rightarrow> property_step" where
  "read_enum_values junk garbage = (\<lambda>(pr, p). do {
     (ok, vs, p) \<leftarrow> read_values junk garbage (mType pr) (unat (mEnumLength pr)) p;
     Some (ok, pr\<lparr>mEnumValues := Some vs\<rparr>, p) })"

definition read_form :: "(nat \<Rightarrow> byte) \<Rightarrow> u128 \<Rightarrow> property_step" where
  "read_form junk garbage = (\<lambda>(pr, p).
     if mFormFlag pr = kFormRange then
       run_steps [read_value_field junk mMinimumValue (\<lambda>v. mMinimumValue_update (\<lambda>_. v)),
         read_value_field junk mMaximumValue (\<lambda>v. mMaximumValue_update (\<lambda>_. v)),
         read_value_field junk mStepSize (\<lambda>v. mStepSize_update (\<lambda>_. v))] (pr, p)
     else if mFormFlag pr = kFormEnum then
       run_steps [get_field getUInt16 (\<lambda>x. mEnumLength_update (\<lambda>_. x)), read_enum_values junk garbage] (pr, p)
     else Some (True, pr, p))"

definition property_read :: "(nat \<Rightarrow> byte) \<Rightarrow> u128 \<Rightarrow> property_step" where
  "property_read junk garbage = run_steps [
     get_field getUInt16 (\<lambda>x. mCode_update (\<lambda>_. x)),
     get_field getUInt16 (\<lambda>x. mType_update (\<lambda>_. x)),
     get_field getUInt8 (\<lambda>x. mWriteable_update (\<lambda>_. x = 1)),
     read_default junk garbage,
     read_current junk garbage,
     read_group,
     get_field getUInt8 (\<lambda>x. mFormFlag_update (\<lambda>_. x)),
     read_form junk garbage]"

subsection \<open>Writing a description\<close>

definition property_write :: "(nat \<Rightarrow> byte) \<Rightarrow> (nat \<Rightarrow> byte) \<Rightarrow> mtp_property \<Rightarrow> put_run" where
  "property_write fresh junk pr p = do {
     let deviceProp = isDeviceProperty pr;
     p \<leftarrow> putUInt16 fresh (mCode pr) p;
     p \<leftarrow> putUInt16 fresh (mType pr) p;
     p \<leftarrow> putUInt8 fresh (if mWriteable pr then 1 else 0) p;
     p \<leftarrow> (if is_array_type (mType pr) then do {
            p \<leftarrow> writeArrayValues fresh junk (mType pr) (mDefaultArrayValues pr) (mDefaultArrayLength pr) p;
            if deviceProp
            then writeArrayValues fresh junk (mType pr) (mCurrentArrayValues pr) (mCurrentArrayLength pr) p
            else Some p }
          else do {
            p \<leftarrow> writeValue fresh junk (mType pr) (mDefaultValue pr) p;
            if deviceProp then writeValue fresh junk (mType pr) (mCurrentValue pr) p else Some p });
     p \<leftarrow> (if \<not> deviceProp then putUInt32 fresh (mGroupCode pr) p else Some p);
     p \<leftarrow> putUInt8 fresh (mFormFlag pr) p;
     if mFormFlag pr = kFormRange then do {
       p \<leftarrow> writeValue fresh junk (mType pr) (mMinimumValue pr) p;
       p \<leftarrow> writeValue fresh junk (mType pr) (mMaximumValue pr) p;
       writeValue fresh junk (mType pr) (mStepSize pr) p }
     else if mFormFlag pr = kFormEnum then do {
       p \<leftarrow> putUInt16 fresh (mEnumLength pr) p;
       write_values fresh junk (mType pr) (mEnumValues pr) (unat (mEnumLength pr)) p }
     else Some p }"

subsection \<open>Setters and destructor\<close>

text \<open>Freeing what was never assigned is a fault; freeing null does nothing.\<close>

definition free_ptr :: "char_ptr \<Rightarrow> unit option" where
  "free_ptr s = CHECK (s \<noteq> Unset)"

definition string_of_utf16 :: "(nat \<Rightarrow> byte) \<Rightarrow> u16 list option \<Rightarrow> char_ptr option" where
  "string_of_utf16 junk s = (case s of None \<Rightarrow> Some Null
     | Some cs \<Rightarrow> do {
         b \<leftarrow> set_utf16 cs (uninitialized junk);
         t \<leftarrow> strdup b;
         Some (Owned t) })"

definition setDefaultValue :: "(nat \<Rightarrow> byte) \<Rightarrow> u16 list option \<Rightarrow> mtp_property \<Rightarrow> mtp_property option" where
  "setDefaultValue junk s pr = do {
     free_ptr (str (mDefaultValue pr));
     t \<leftarrow> string_of_utf16 junk s;
     Some (pr\<lparr>mDefaultValue := (mDefaultValue pr)\<lparr>str := t\<rparr>\<rparr>) }"

definition setCurrentValue :: "(nat \<Rightarrow> byte) \<Rightarrow> u16 list option \<Rightarrow> mtp_property \<Rightarrow> mtp_property option" where
  "setCurrentValue junk s pr = do {
     free_ptr (str (mCurrentValue pr));
     t \<leftarrow> string_of_utf16 junk s;
     Some (pr\<lparr>mCurrentValue := (mCurrentValue pr)\<lparr>str := t\<rparr>\<rparr>) }"

definition setFormRange :: "u32 \<Rightarrow> u32 \<Rightarrow> u32 \<Rightarrow> mtp_property \<Rightarrow> mtp_property" where
  "setFormRange lo hi step pr = pr\<lparr>mFormFlag := kFormRange,
     mMinimumValue := set_int (mType pr) lo (mMinimumValue pr),
     mMaximumValue := set_int (mType pr) hi (mMaximumValue pr),
     mStepSize := set_int (mType pr) step (mStepSize pr)\<rparr>"

definition setFormEnum :: "u128 \<Rightarrow> u32 list \<Rightarrow> mtp_property \<Rightarrow> mtp_property" where
  "setFormEnum garbage values pr = pr\<lparr>mFormFlag := kFormEnum,
     mEnumValues := Some (map (\<lambda>x. set_int (mType pr) x (new_value garbage)) values),
     mEnumLength := word_of_nat (length values)\<rparr>"

definition setFormDateTime :: "mtp_property \<Rightarrow> mtp_property" where
  "setFormDateTime pr = pr\<lparr>mFormFlag := kFormDateTime\<rparr>"

text \<open>The strings of the first \<open>n\<close> values of an array.\<close>

fun free_values :: "nat \<Rightarrow> mtp_value list \<Rightarrow> unit option" where
  "free_values 0 vs = Some ()"
| "free_values (Suc n) [] = None"
| "free_values (Suc n) (v # vs) = do { free_ptr (str v); free_values n vs }"

definition free_array :: "nat \<Rightarrow> mtp_value list option \<Rightarrow> unit option" where
  "free_array n vs = (case vs of None \<Rightarrow> Some () | Some vs \<Rightarrow> free_values n vs)"

definition property_destroy :: "mtp_property \<Rightarrow> unit option" where
  "property_destroy pr =
     (if mType pr = MTP_TYPE_STR then do {
        free_ptr (str (mDefaultValue pr));
        free_ptr (str (mCurrentValue pr));
        free_ptr (str (mMinimumValue pr));
        free_ptr (str (mMaximumValue pr));
        free_array (unat (mDefaultArrayLength pr)) (mDefaultArrayValues pr);
        free_array (unat (mCurrentArrayLength pr)) (mCurrentArrayValues pr);
        free_array (unat (mEnumLength pr)) (mEnumValues pr) }
      else Some ())"

section \<open>The meaning of a description\<close>

text \<open>
  What a value means for its type: a number of as many bits as the type has, or a string, a null pointer being the
  empty one; and its bytes in a packet.
\<close>

datatype meaning = Number u128 | Text "u16 list"

definition type_bytes :: "u16 \<Rightarrow> nat" where
  "type_bytes t =
     (if t = MTP_TYPE_INT8 \<or> t = MTP_TYPE_AINT8 \<or> t = MTP_TYPE_UINT8 \<or> t = MTP_TYPE_AUINT8 then 1
      else if t = MTP_TYPE_INT16 \<or> t = MTP_TYPE_AINT16 \<or> t = MTP_TYPE_UINT16 \<or> t = MTP_TYPE_AUINT16 then 2
      else if t = MTP_TYPE_INT32 \<or> t = MTP_TYPE_AINT32 \<or> t = MTP_TYPE_UINT32 \<or> t = MTP_TYPE_AUINT32 then 4
      else if t = MTP_TYPE_INT64 \<or> t = MTP_TYPE_AINT64 \<or> t = MTP_TYPE_UINT64 \<or> t = MTP_TYPE_AUINT64 then 8
      else if t = MTP_TYPE_INT128 \<or> t = MTP_TYPE_AINT128 \<or> t = MTP_TYPE_UINT128 \<or> t = MTP_TYPE_AUINT128 then 16
      else 0)"

definition means :: "u16 \<Rightarrow> mtp_value \<Rightarrow> meaning \<Rightarrow> bool" where
  "means t v x \<longleftrightarrow>
     (if t = MTP_TYPE_STR then
        (\<exists>cs. x = Text cs \<and> proper_string cs \<and> (str v = Owned (utf8 cs) \<or> str v = Null \<and> cs = []))
      else type_bytes t \<noteq> 0 \<and> x = Number (take_bit (8 * type_bytes t) (member v)))"

definition meaning_bytes :: "u16 \<Rightarrow> meaning \<Rightarrow> byte list" where
  "meaning_bytes t x = (case x of
     Number n \<Rightarrow> if type_bytes t = 16 then bytes128 n else le_bytes (type_bytes t) n
   | Text cs \<Rightarrow> wire cs)"

lemma le_bytes_ucast:
  "8 * n \<le> LENGTH('a) \<Longrightarrow> LENGTH('a::len) \<le> LENGTH('b) \<Longrightarrow>
    le_bytes n (ucast w :: 'a word) = le_bytes n (take_bit (8 * n) (w :: 'b::len word))"
proof (rule nth_equalityI)
  fix i
  assume n: "8 * n \<le> LENGTH('a)" "LENGTH('a) \<le> LENGTH('b)" and i: "i < length (le_bytes n (ucast w :: 'a word))"
  have "byte_at (ucast w :: 'a word) i = byte_at (take_bit (8 * n) w) i"
    by (rule bit_word_eqI) (use n i in \<open>auto simp: bit_byte_at bit_simps\<close>)
  then show "le_bytes n (ucast w :: 'a word) ! i = le_bytes n (take_bit (8 * n) w) ! i"
    using i by (simp add: le_bytes_def)
qed simp

lemma put_member:
  "writes (le_bytes 1 (take_bit 8 w)) (putUInt8 fresh (ucast (w :: u128)))"
  "writes (le_bytes 2 (take_bit 16 w)) (putUInt16 fresh (ucast w))"
  "writes (le_bytes 4 (take_bit 32 w)) (putUInt32 fresh (ucast w))"
  "writes (le_bytes 8 (take_bit 64 w)) (putUInt64 fresh (ucast w))"
  using u8.put_writes [of "ucast w" fresh] le_bytes_ucast [of 1 w, where ?'a = 8]
    u16.put_writes [of "ucast w" fresh] le_bytes_ucast [of 2 w, where ?'a = 16]
    u32.put_writes [of "ucast w" fresh] le_bytes_ucast [of 4 w, where ?'a = 32]
    u64.put_writes [of "ucast w" fresh] le_bytes_ucast [of 8 w, where ?'a = 64]
  by simp_all

text \<open>The types, by their width.\<close>

lemma type_cases:
  assumes "type_bytes t \<noteq> 0 \<or> t = MTP_TYPE_STR"
  obtains (W8) "t = MTP_TYPE_INT8 \<or> t = MTP_TYPE_AINT8 \<or> t = MTP_TYPE_UINT8 \<or> t = MTP_TYPE_AUINT8"
  | (W16) "t = MTP_TYPE_INT16 \<or> t = MTP_TYPE_AINT16 \<or> t = MTP_TYPE_UINT16 \<or> t = MTP_TYPE_AUINT16"
  | (W32) "t = MTP_TYPE_INT32 \<or> t = MTP_TYPE_AINT32 \<or> t = MTP_TYPE_UINT32 \<or> t = MTP_TYPE_AUINT32"
  | (W64) "t = MTP_TYPE_INT64 \<or> t = MTP_TYPE_AINT64 \<or> t = MTP_TYPE_UINT64 \<or> t = MTP_TYPE_AUINT64"
  | (W128) "t = MTP_TYPE_INT128 \<or> t = MTP_TYPE_AINT128 \<or> t = MTP_TYPE_UINT128 \<or> t = MTP_TYPE_AUINT128"
  | (STR) "t = MTP_TYPE_STR"
  using assms by (auto simp: type_bytes_def split: if_splits)

lemma write_number:
  "type_bytes t = 1 \<Longrightarrow> writeValue fresh junk t v = putUInt8 fresh (ucast (member v))"
  "type_bytes t = 2 \<Longrightarrow> writeValue fresh junk t v = putUInt16 fresh (ucast (member v))"
  "type_bytes t = 4 \<Longrightarrow> writeValue fresh junk t v = putUInt32 fresh (ucast (member v))"
  "type_bytes t = 8 \<Longrightarrow> writeValue fresh junk t v = putUInt64 fresh (ucast (member v))"
  "type_bytes t = 16 \<Longrightarrow> writeValue fresh junk t v = putUInt128 fresh (member v)"
  by (rule ext, auto simp: writeValue_def type_bytes_def put_signed put_int128 mtp_types split: if_splits)+

lemma number_bytes:
  assumes "type_bytes t \<noteq> 0"
  shows "type_bytes t \<in> {1, 2, 4, 8, 16} \<and> t \<noteq> MTP_TYPE_STR"
  using assms by (auto simp: type_bytes_def mtp_types split: if_splits)

lemma writes_value:
  assumes "means t v x"
  shows "writes (meaning_bytes t x) (writeValue fresh junk t v)"
proof (cases "t = MTP_TYPE_STR")
  case True
  then obtain cs where cs: "x = Text cs" "proper_string cs" "str v = Owned (utf8 cs) \<or> str v = Null \<and> cs = []"
    using assms by (auto simp: means_def)
  have w: "writeValue fresh junk t v =
      (case str v of Owned s \<Rightarrow> putString fresh junk (s @ [0]) | Null \<Rightarrow> putEmptyString fresh | Unset \<Rightarrow> (\<lambda>_. None))"
    using True by (intro ext) (simp add: writeValue_def mtp_types split: char_ptr.splits)
  have "writes (wire cs) (putString fresh junk (utf8 cs @ [0]))"
    using cs(2) by (intro writes_putString) (auto simp: proper_string_def)
  moreover have "writes (wire []) (putEmptyString fresh)"
    using writes_put_bytes [of "[0]" fresh] by (simp add: putEmptyString_def putUInt8_def wire_def)
  ultimately show ?thesis
    using cs by (auto simp: w meaning_bytes_def)
next
  case False
  then have x: "type_bytes t \<noteq> 0" "x = Number (take_bit (8 * type_bytes t) (member v))"
    using assms by (auto simp: means_def)
  have whole: "take_bit 128 w = w" for w :: u128
    by (rule bit_word_eqI) (simp add: bit_simps)
  consider "type_bytes t = 1" | "type_bytes t = 2" | "type_bytes t = 4" | "type_bytes t = 8" | "type_bytes t = 16"
    using number_bytes [OF x(1)] by auto
  then show ?thesis
    by cases (simp_all add: x(2) write_number meaning_bytes_def put_member writes_128 whole
        flip: One_nat_def)
qed

text \<open>Reading a value that means \<open>x\<close> gives a value that means \<open>x\<close>.\<close>

lemma read_number:
  "type_bytes t = 1 \<Longrightarrow> readValue junk t = get_member getUInt8"
  "type_bytes t = 2 \<Longrightarrow> readValue junk t = get_member getUInt16"
  "type_bytes t = 4 \<Longrightarrow> readValue junk t = get_member getUInt32"
  "type_bytes t = 8 \<Longrightarrow> readValue junk t = get_member getUInt64"
  "type_bytes t = 16 \<Longrightarrow> readValue junk t = get_member128 getUInt128"
proof -
  have same: "getInt8 = getUInt8" "getInt16 = getUInt16" "getInt32 = getUInt32" "getInt64 = getUInt64"
    "getInt128 = getUInt128"
    by (rule ext, (rule ext)?, simp add: getInt8_def getInt16_def getInt32_def getInt64_def getInt128_def)+
  show "type_bytes t = 1 \<Longrightarrow> readValue junk t = get_member getUInt8"
    "type_bytes t = 2 \<Longrightarrow> readValue junk t = get_member getUInt16"
    "type_bytes t = 4 \<Longrightarrow> readValue junk t = get_member getUInt32"
    "type_bytes t = 8 \<Longrightarrow> readValue junk t = get_member getUInt64"
    "type_bytes t = 16 \<Longrightarrow> readValue junk t = get_member128 getUInt128"
    by (rule ext, auto simp: readValue_def type_bytes_def same mtp_types split: if_splits)+
qed

lemma take_bit_set_member:
  "LENGTH('a::len) \<le> 128 \<Longrightarrow> take_bit LENGTH('a) (member (set_member (x :: 'a word) v)) = ucast x"
  by (rule bit_word_eqI) (auto simp: set_member_def bit_simps dest: bit_imp_le_length)

lemma read_member:
  assumes "reads get (le_bytes n (ucast w :: 'a::len word)) (ucast w :: 'a word)" "LENGTH('a) = 8 * n" "LENGTH('a) \<le> 128"
  shows "\<exists>u. step_reads (get_member get) (le_bytes n (take_bit (8 * n) (w :: u128))) v u
    \<and> take_bit (8 * n) (member u) = take_bit (8 * n) w"
proof (intro exI conjI)
  have bytes: "le_bytes n (take_bit (8 * n) w) = le_bytes n (ucast w :: 'a word)"
    using assms(2,3) le_bytes_ucast [of n w, where ?'a = 'a] by simp
  show "step_reads (get_member get) (le_bytes n (take_bit (8 * n) w)) v (set_member (ucast w :: 'a word) v)"
    using step_reads_field [OF assms(1), of set_member v] by (simp add: bytes get_member_def)
  have "take_bit (8 * n) (member (set_member (ucast w :: 'a word) v)) = ucast (ucast w :: 'a word)"
    using take_bit_set_member [where ?'a = 'a, of "ucast w" v] assms(2,3) by simp
  also have "\<dots> = take_bit (8 * n) w"
    using assms(2) by (intro bit_word_eqI) (auto simp: bit_simps)
  finally show "take_bit (8 * n) (member (set_member (ucast w :: 'a word) v)) = take_bit (8 * n) w" .
qed

lemma read_member128:
  "step_reads (get_member128 getUInt128) (bytes128 w) v (v\<lparr>member := w\<rparr>)"
  by (rule step_readsI) (simp add: get_member128_def reads_128)

lemma read_string_value:
  assumes "proper_string cs"
  shows "step_reads (readValue junk MTP_TYPE_STR) (wire cs) v (v\<lparr>str := Owned (utf8 cs)\<rparr>)"
proof (rule step_readsI)
  fix p rest
  assume p: "readable p" "unread p = wire cs @ rest"
  obtain b where "readFromPacket (MtpStringBuffer junk) p = Some (True, b, advance (length (wire cs)) p)"
    "strdup b = Some (utf8 cs)"
    by (rule readFromPacket_reads [OF p assms length_uninitialized(2)])
  then show "readValue junk MTP_TYPE_STR (v, p)
      = Some (True, v\<lparr>str := Owned (utf8 cs)\<rparr>, advance (length (wire cs)) p)"
    by (simp add: readValue_def getString_def mtp_types)
qed

lemma read_value_means:
  assumes "means t v x"
  obtains u where "step_reads (readValue junk t) (meaning_bytes t x) v0 u" "means t u x"
proof (cases "t = MTP_TYPE_STR")
  case True
  then obtain cs where cs: "x = Text cs" "proper_string cs"
    using assms by (auto simp: means_def)
  then have "step_reads (readValue junk t) (meaning_bytes t x) v0 (v0\<lparr>str := Owned (utf8 cs)\<rparr>)"
    using read_string_value [OF cs(2)] True by (simp add: meaning_bytes_def)
  then show ?thesis
    by (rule that) (use cs True in \<open>simp add: means_def\<close>)
next
  case False
  define n where "n = type_bytes t"
  have x: "n \<noteq> 0" "x = Number (take_bit (8 * n) (member v))"
    using assms False by (auto simp: means_def n_def)
  have whole: "take_bit 128 w = w" for w :: u128
    by (rule bit_word_eqI) (simp add: bit_simps)
  consider "n = 1" | "n = 2" | "n = 4" | "n = 8" | "n = 16"
    using number_bytes [of t] x(1) by (auto simp: n_def)
  then have "\<exists>u. step_reads (readValue junk t) (meaning_bytes t x) v0 u
      \<and> take_bit (8 * n) (member u) = take_bit (8 * n) (member v)"
  proof cases
    case 1
    with read_member [OF u8.get_reads, of "member v" v0] show ?thesis
      by (simp add: x(2) meaning_bytes_def read_number n_def)
  next
    case 2
    with read_member [OF u16.get_reads, of "member v" v0] show ?thesis
      by (simp add: x(2) meaning_bytes_def read_number n_def)
  next
    case 3
    with read_member [OF u32.get_reads, of "member v" v0] show ?thesis
      by (simp add: x(2) meaning_bytes_def read_number n_def)
  next
    case 4
    with read_member [OF u64.get_reads, of "member v" v0] show ?thesis
      by (simp add: x(2) meaning_bytes_def read_number n_def)
  next
    case 5
    then show ?thesis
      using read_member128 [of "member v" v0]
      by (intro exI [of _ "v0\<lparr>member := member v\<rparr>"])
        (simp add: x(2) meaning_bytes_def read_number n_def whole)
  qed
  then obtain u where u: "step_reads (readValue junk t) (meaning_bytes t x) v0 u"
    "take_bit (8 * n) (member u) = take_bit (8 * n) (member v)" by blast
  show ?thesis
    by (rule that [OF u(1)]) (use False x u(2) in \<open>simp add: means_def n_def\<close>)
qed

definition values_bytes :: "u16 \<Rightarrow> meaning list \<Rightarrow> byte list" where
  "values_bytes t xs = concat (map (meaning_bytes t) xs)"

lemma writes_values:
  "list_all2 (means t) vs xs \<Longrightarrow>
    writes (values_bytes t xs) (put_elements (writeValue fresh junk t) (length vs) vs)"
proof (induction vs xs rule: list_all2_induct)
  case Nil
  then show ?case using writes_none by (simp add: values_bytes_def put_no_elements)
next
  case (Cons v vs x xs)
  have "put_elements (writeValue fresh junk t) (length (v # vs)) (v # vs)
      = (\<lambda>p. writeValue fresh junk t v p \<bind> put_elements (writeValue fresh junk t) (length vs) vs)"
    by (rule ext) simp
  with writes_seq [OF writes_value [OF Cons(1)] Cons(3)] show ?case
    by (simp add: values_bytes_def)
qed

lemma read_values_mean:
  assumes "list_all2 (means t) vs xs"
  obtains us where "list_all2 (means t) us xs"
    "step_reads (\<lambda>(_ :: unit, p). read_values junk garbage t (length xs) p) (values_bytes t xs) () us"
proof -
  have "\<exists>us. list_all2 (means t) us xs \<and>
      step_reads (\<lambda>(_ :: unit, p). read_values junk garbage t (length xs) p) (values_bytes t xs) () us"
    using assms
  proof (induction vs xs rule: list_all2_induct)
    case Nil
    show ?case by (intro exI [of _ "[]"] conjI step_readsI) (simp_all add: values_bytes_def)
  next
    case (Cons v vs x xs)
    obtain u where u: "step_reads (readValue junk t) (meaning_bytes t x) (new_value garbage) u" "means t u x"
      using Cons(1) by (rule read_value_means)
    obtain us where us: "list_all2 (means t) us xs"
      "step_reads (\<lambda>(_ :: unit, p). read_values junk garbage t (length xs) p) (values_bytes t xs) () us"
      using Cons(3) by blast
    have "step_reads (\<lambda>(_ :: unit, p). read_values junk garbage t (length (x # xs)) p)
        (values_bytes t (x # xs)) () (u # us)"
    proof (rule step_readsI)
      fix p rest
      assume p: "readable p" and b: "unread p = values_bytes t (x # xs) @ rest"
      have b': "unread p = meaning_bytes t x @ (values_bytes t xs @ rest)"
        using b by (simp add: values_bytes_def)
      note at = read_on [OF p b']
      show "(case ((), p) of (_, p) \<Rightarrow> read_values junk garbage t (length (x # xs)) p)
          = Some (True, u # us, advance (length (values_bytes t (x # xs))) p)"
        using step_readsD [OF u(1) p b'] step_readsD [OF us(2) at [THEN conjunct1] at [THEN conjunct2]]
        by (simp add: values_bytes_def)
    qed
    with u(2) us(1) show ?case by (intro exI [of _ "u # us"]) simp
  qed
  then show ?thesis using that by blast
qed

section \<open>Descriptions\<close>

text \<open>
  What a property description says. The default and current value of an array type are lists, those of another
  type have one element; only a device property has a current value, and only an object property a group code.
\<close>

record description =
  code :: u16
  kind :: u16
  writeable :: bool
  default_values :: "meaning list"
  current_values :: "meaning list"
  group :: u32
  form_flag :: byte
  form_values :: "meaning list"

definition array_means :: "u16 \<Rightarrow> mtp_value list option \<Rightarrow> u32 \<Rightarrow> meaning list \<Rightarrow> bool" where
  "array_means t vs n xs \<longleftrightarrow> (\<exists>l. vs = Some l \<and> length l = unat n \<and> list_all2 (means t) l xs)"

definition value_means :: "u16 \<Rightarrow> mtp_value \<Rightarrow> mtp_value list option \<Rightarrow> u32 \<Rightarrow> meaning list \<Rightarrow> bool" where
  "value_means t v vs n xs \<longleftrightarrow>
     (if is_array_type t then array_means t vs n xs else list_all2 (means t) [v] xs)"

definition device_code :: "u16 \<Rightarrow> bool" where
  "device_code c \<longleftrightarrow> c AND 0xF000 = 0x5000 \<or> c AND 0xF800 = 0xD000"

definition describes :: "mtp_property \<Rightarrow> description \<Rightarrow> bool" where
  "describes pr d \<longleftrightarrow> mCode pr = code d \<and> mType pr = kind d \<and> mWriteable pr = writeable d
     \<and> value_means (kind d) (mDefaultValue pr) (mDefaultArrayValues pr) (mDefaultArrayLength pr) (default_values d)
     \<and> (if device_code (code d)
        then value_means (kind d) (mCurrentValue pr) (mCurrentArrayValues pr) (mCurrentArrayLength pr)
               (current_values d)
        else mGroupCode pr = group d)
     \<and> mFormFlag pr = form_flag d
     \<and> (if form_flag d = kFormRange
        then list_all2 (means (kind d)) [mMinimumValue pr, mMaximumValue pr, mStepSize pr] (form_values d)
        else if form_flag d = kFormEnum
        then (\<exists>l. mEnumValues pr = Some l \<and> length l = unat (mEnumLength pr)
               \<and> list_all2 (means (kind d)) l (form_values d))
        else form_values d = [])"

text \<open>The lengths that the reader accepts for an array.\<close>

definition array_lengths_ok :: "description \<Rightarrow> bool" where
  "array_lengths_ok d \<longleftrightarrow> is_array_type (kind d) \<longrightarrow>
     0 < length (default_values d) \<and> length (default_values d) < max_values \<and>
     (device_code (code d) \<longrightarrow> 0 < length (current_values d) \<and> length (current_values d) < max_values)"

definition array_bytes :: "u16 \<Rightarrow> meaning list \<Rightarrow> byte list" where
  "array_bytes t xs = (if is_array_type t then le_bytes 4 (of_nat (length xs) :: u32) else []) @ values_bytes t xs"

definition form_bytes :: "description \<Rightarrow> byte list" where
  "form_bytes d =
     (if form_flag d = kFormEnum then le_bytes 2 (of_nat (length (form_values d)) :: u16) else [])
     @ values_bytes (kind d) (form_values d)"

definition description_bytes :: "description \<Rightarrow> byte list" where
  "description_bytes d = le_bytes 2 (code d) @ le_bytes 2 (kind d) @ [if writeable d then 1 else 0]
     @ array_bytes (kind d) (default_values d)
     @ (if device_code (code d) then array_bytes (kind d) (current_values d) else le_bytes 4 (group d))
     @ [form_flag d] @ form_bytes d"

lemma isDeviceProperty: "isDeviceProperty pr = device_code (mCode pr)"
  by (simp add: isDeviceProperty_def device_code_def)

subsection \<open>Writing\<close>

lemma writes_values_some:
  "list_all2 (means t) l xs \<Longrightarrow> n = length l \<Longrightarrow>
    writes (values_bytes t xs) (write_values fresh junk t (Some l) n)"
proof -
  have "write_values fresh junk t (Some l) n = put_elements (writeValue fresh junk t) n l"
    by (rule ext) (simp add: write_values_def)
  then show "list_all2 (means t) l xs \<Longrightarrow> n = length l \<Longrightarrow> ?thesis"
    using writes_values [of t l xs fresh junk] by simp
qed

lemma list_all2_one: "list_all2 R [v] xs \<longleftrightarrow> (\<exists>x. xs = [x] \<and> R v x)"
  by (cases xs) auto

lemma writes_array_or_value:
  assumes "value_means t v vs n xs"
  shows "writes (array_bytes t xs)
    (if is_array_type t then writeArrayValues fresh junk t vs n else writeValue fresh junk t v)"
proof (cases "is_array_type t")
  case True
  then obtain l where l: "vs = Some l" "length l = unat n" "list_all2 (means t) l xs"
    using assms by (auto simp: value_means_def array_means_def)
  have "length xs = unat n" using list_all2_lengthD [OF l(3)] l(2) by simp
  then have n: "of_nat (length xs) = n" by (simp only:) simp
  have "writeArrayValues fresh junk t vs n = (\<lambda>p. putUInt32 fresh n p \<bind> write_values fresh junk t vs (unat n))"
    by (rule ext) (simp add: writeArrayValues_def)
  with True n show ?thesis
    using writes_seq [OF u32.put_writes [of n fresh] writes_values_some [OF l(3), of "unat n" fresh junk]] l(1,2)
    by (simp add: array_bytes_def)
next
  case False
  then obtain x where "xs = [x]" "means t v x"
    using assms by (auto simp: value_means_def list_all2_one)
  with False show ?thesis
    using writes_value [of t v x fresh junk] by (simp add: array_bytes_def values_bytes_def)
qed

lemma put_flag: "writes [b] (putUInt8 fresh b)"
  using writes_put_bytes [of "[b]" fresh] by (simp add: putUInt8_def)

lemma writes_form:
  assumes "describes pr d"
  shows "writes (form_bytes d) (\<lambda>p.
    if mFormFlag pr = kFormRange then do {
       p \<leftarrow> writeValue fresh junk (mType pr) (mMinimumValue pr) p;
       p \<leftarrow> writeValue fresh junk (mType pr) (mMaximumValue pr) p;
       writeValue fresh junk (mType pr) (mStepSize pr) p }
     else if mFormFlag pr = kFormEnum then do {
       p \<leftarrow> putUInt16 fresh (mEnumLength pr) p;
       write_values fresh junk (mType pr) (mEnumValues pr) (unat (mEnumLength pr)) p }
     else Some p)"
proof -
  have d: "mFormFlag pr = form_flag d" "mType pr = kind d" using assms by (auto simp: describes_def)
  consider (range) "form_flag d = kFormRange" | (enum) "form_flag d = kFormEnum" "form_flag d \<noteq> kFormRange"
    | (none) "form_flag d \<noteq> kFormRange" "form_flag d \<noteq> kFormEnum" by blast
  then show ?thesis
  proof cases
    case range
    then have l: "list_all2 (means (kind d)) [mMinimumValue pr, mMaximumValue pr, mStepSize pr] (form_values d)"
      using assms by (simp add: describes_def)
    have three: "put_elements put (length [a, b, c]) [a, b, c] = (\<lambda>p. put a p \<bind> (\<lambda>p. put b p \<bind> put c))"
      for put :: "mtp_value \<Rightarrow> put_run" and a b c
      by (simp add: put_elements_cons put_no_elements del: put_elements.simps)
    show ?thesis
      using writes_values [OF l, of fresh junk] range d
      by (simp only: three) (simp add: form_bytes_def kFormRange_def kFormEnum_def)
  next
    case enum
    then obtain l where l: "mEnumValues pr = Some l" "length l = unat (mEnumLength pr)"
      "list_all2 (means (kind d)) l (form_values d)"
      using assms by (auto simp: describes_def)
    have "length (form_values d) = unat (mEnumLength pr)"
      using list_all2_lengthD [OF l(3)] l(2) by simp
    then have n: "of_nat (length (form_values d)) = mEnumLength pr" by (simp only:) simp
    show ?thesis
      using writes_seq [OF u16.put_writes [of "mEnumLength pr" fresh] writes_values_some [OF l(3), of _ fresh junk]]
        enum d n l(1,2) by (simp add: form_bytes_def)
  next
    case none
    then show ?thesis
      using assms d writes_none by (simp add: describes_def form_bytes_def values_bytes_def)
  qed
qed

lemma writes_description:
  assumes "describes pr d"
  shows "writes (description_bytes d) (property_write fresh junk pr)"
proof -
  let ?t = "mType pr" and ?dev = "device_code (mCode pr)"
  have d: "mCode pr = code d" "?t = kind d" "mWriteable pr = writeable d" "mFormFlag pr = form_flag d"
    using assms by (auto simp: describes_def)
  let ?val = "\<lambda>v vs n. if is_array_type ?t then writeArrayValues fresh junk ?t vs n else writeValue fresh junk ?t v"
  let ?default = "?val (mDefaultValue pr) (mDefaultArrayValues pr) (mDefaultArrayLength pr)"
  let ?current = "if ?dev then ?val (mCurrentValue pr) (mCurrentArrayValues pr) (mCurrentArrayLength pr)
      else putUInt32 fresh (mGroupCode pr)"
  let ?form = "\<lambda>p. if mFormFlag pr = kFormRange then do {
       p \<leftarrow> writeValue fresh junk (mType pr) (mMinimumValue pr) p;
       p \<leftarrow> writeValue fresh junk (mType pr) (mMaximumValue pr) p;
       writeValue fresh junk (mType pr) (mStepSize pr) p }
     else if mFormFlag pr = kFormEnum then do {
       p \<leftarrow> putUInt16 fresh (mEnumLength pr) p;
       write_values fresh junk (mType pr) (mEnumValues pr) (unat (mEnumLength pr)) p }
     else Some p"
  have run: "property_write fresh junk pr = (\<lambda>p. putUInt16 fresh (mCode pr) p \<bind>
      (\<lambda>p. putUInt16 fresh ?t p \<bind> (\<lambda>p. putUInt8 fresh (if mWriteable pr then 1 else 0) p \<bind>
      (\<lambda>p. ?default p \<bind> (\<lambda>p. ?current p \<bind> (\<lambda>p. putUInt8 fresh (mFormFlag pr) p \<bind> ?form))))))"
    by (rule ext, cases ?dev; cases "is_array_type ?t"; simp add: property_write_def isDeviceProperty)
  have vm: "value_means ?t (mDefaultValue pr) (mDefaultArrayValues pr) (mDefaultArrayLength pr) (default_values d)"
    "?dev \<Longrightarrow> value_means ?t (mCurrentValue pr) (mCurrentArrayValues pr) (mCurrentArrayLength pr) (current_values d)"
    "\<not> ?dev \<Longrightarrow> mGroupCode pr = group d"
    using assms by (simp_all add: describes_def)
  have w1: "writes (array_bytes ?t (default_values d)) ?default"
    by (rule writes_array_or_value [OF vm(1)])
  have w2: "writes (if ?dev then array_bytes ?t (current_values d) else le_bytes 4 (group d)) ?current"
    using writes_array_or_value [OF vm(2), of fresh junk] u32.put_writes [of "group d" fresh] vm(3)
    by (cases ?dev) (simp_all only: if_True if_False simp_thms)
  have w3: "writes (le_bytes 2 c) (putUInt16 fresh c)" for c by (rule u16.put_writes) simp
  have w4: "writes [if mWriteable pr then 1 else 0] (putUInt8 fresh (if mWriteable pr then 1 else 0))"
    by (rule put_flag)
  show ?thesis
    unfolding run description_bytes_def d [symmetric]
    by (intro writes_seq w1 w2 w3 w4 put_flag writes_form [OF assms])
qed

subsection \<open>Reading\<close>

lemma max_values_bound: "n < max_values \<Longrightarrow> unat (of_nat n :: u32) = n"
  by (simp add: max_values_def unsigned_of_nat take_bit_nat_eq_self)

lemma read_array:
  assumes "array_means t vs0 n0 xs" "0 < length xs" "length xs < max_values"
  obtains us n where "array_means t (Some us) n xs"
    "\<And>p rest len. readable p \<Longrightarrow>
       unread p = (le_bytes 4 (of_nat (length xs) :: u32) @ values_bytes t xs) @ rest \<Longrightarrow>
       readArrayValues junk garbage t len p = Some (Some us, n,
         advance (length (le_bytes 4 (of_nat (length xs) :: u32) @ values_bytes t xs)) p)"
proof -
  obtain l where "list_all2 (means t) l xs" using assms(1) by (auto simp: array_means_def)
  then obtain us where us: "list_all2 (means t) us xs"
    "step_reads (\<lambda>(_ :: unit, p). read_values junk garbage t (length xs) p) (values_bytes t xs) () us"
    by (rule read_values_mean)
  define n where "n = (of_nat (length xs) :: u32)"
  have n: "unat n = length xs" "n \<noteq> 0"
    using max_values_bound [OF assms(3)] assms(2) by (auto simp: n_def)
  have "array_means t (Some us) n xs"
    using us(1) list_all2_lengthD [OF us(1)] n(1) by (simp add: array_means_def)
  moreover have "readArrayValues junk garbage t len p = Some (Some us, n,
      advance (length (le_bytes 4 n @ values_bytes t xs)) p)"
    if p: "readable p" and u: "unread p = (le_bytes 4 n @ values_bytes t xs) @ rest" for p rest len
  proof -
    have u': "unread p = le_bytes 4 n @ (values_bytes t xs @ rest)" using u by simp
    have "getUInt32 p = Some (Some n, advance 4 p)"
      using readsD [OF u32.get_reads p u'] by simp
    moreover have "read_values junk garbage t (length xs) (advance 4 p)
        = Some (True, us, advance (length (values_bytes t xs)) (advance 4 p))"
      using read_on [OF p u'] step_readsD [OF us(2), of "advance 4 p" rest] by simp
    ultimately show ?thesis
      using n assms(3) by (simp add: readArrayValues_def)
  qed
  ultimately show ?thesis using that unfolding n_def by blast
qed

lemma read_value_field_means:
  assumes "means (mType pr) v x"
  obtains u where "step_reads (read_value_field junk field assign) (meaning_bytes (mType pr) x) pr (assign u pr)"
    "means (mType pr) u x"
proof -
  obtain u where u: "step_reads (readValue junk (mType pr)) (meaning_bytes (mType pr) x) (field pr) u"
    "means (mType pr) u x"
    using assms by (rule read_value_means)
  have "step_reads (read_value_field junk field assign) (meaning_bytes (mType pr) x) pr (assign u pr)"
    by (rule step_readsI) (simp add: read_value_field_def step_readsD [OF u(1)])
  then show ?thesis using u(2) by (rule that)
qed

lemma read_default_means:
  assumes "value_means (mType pr) v0 vs0 n0 xs"
    "is_array_type (mType pr) \<longrightarrow> 0 < length xs \<and> length xs < max_values"
  obtains v vs n where "step_reads (read_default junk garbage) (array_bytes (mType pr) xs) pr
      (pr\<lparr>mDefaultValue := v, mDefaultArrayValues := vs, mDefaultArrayLength := n\<rparr>)"
    "value_means (mType pr) v vs n xs"
proof (cases "is_array_type (mType pr)")
  case True
  then have a: "array_means (mType pr) vs0 n0 xs" "0 < length xs" "length xs < max_values"
    using assms by (auto simp: value_means_def)
  obtain us n where us: "array_means (mType pr) (Some us) n xs"
    "\<And>p rest len. readable p \<Longrightarrow>
       unread p = (le_bytes 4 (of_nat (length xs) :: u32) @ values_bytes (mType pr) xs) @ rest \<Longrightarrow>
       readArrayValues junk garbage (mType pr) len p = Some (Some us, n,
         advance (length (le_bytes 4 (of_nat (length xs) :: u32) @ values_bytes (mType pr) xs)) p)"
    by (rule read_array [OF a]) (rule that)
  have "step_reads (read_default junk garbage) (array_bytes (mType pr) xs) pr
      (pr\<lparr>mDefaultValue := mDefaultValue pr, mDefaultArrayValues := Some us, mDefaultArrayLength := n\<rparr>)"
    by (rule step_readsI) (simp add: read_default_def array_bytes_def True us(2))
  then show ?thesis
    by (rule that) (use us(1) True in \<open>simp add: value_means_def\<close>)
next
  case False
  then obtain x where x: "xs = [x]" "means (mType pr) v0 x"
    using assms(1) by (auto simp: value_means_def list_all2_one)
  obtain u where u: "step_reads (read_value_field junk mDefaultValue (\<lambda>v. mDefaultValue_update (\<lambda>_. v)))
      (meaning_bytes (mType pr) x) pr (pr\<lparr>mDefaultValue := u\<rparr>)" "means (mType pr) u x"
    using x(2) by (rule read_value_field_means)
  have "step_reads (read_default junk garbage) (array_bytes (mType pr) xs) pr
      (pr\<lparr>mDefaultValue := u, mDefaultArrayValues := mDefaultArrayValues pr,
         mDefaultArrayLength := mDefaultArrayLength pr\<rparr>)"
    by (rule step_readsI)
      (simp add: read_default_def array_bytes_def values_bytes_def False x(1) step_readsD [OF u(1)])
  then show ?thesis
    by (rule that) (use u(2) False x(1) in \<open>simp add: value_means_def\<close>)
qed

lemma read_current_means:
  assumes "value_means (mType pr) v0 vs0 n0 xs" "isDeviceProperty pr"
    "is_array_type (mType pr) \<longrightarrow> 0 < length xs \<and> length xs < max_values"
  obtains v vs n where "step_reads (read_current junk garbage) (array_bytes (mType pr) xs) pr
      (pr\<lparr>mCurrentValue := v, mCurrentArrayValues := vs, mCurrentArrayLength := n\<rparr>)"
    "value_means (mType pr) v vs n xs"
proof (cases "is_array_type (mType pr)")
  case True
  then have a: "array_means (mType pr) vs0 n0 xs" "0 < length xs" "length xs < max_values"
    using assms by (auto simp: value_means_def)
  obtain us n where us: "array_means (mType pr) (Some us) n xs"
    "\<And>p rest len. readable p \<Longrightarrow>
       unread p = (le_bytes 4 (of_nat (length xs) :: u32) @ values_bytes (mType pr) xs) @ rest \<Longrightarrow>
       readArrayValues junk garbage (mType pr) len p = Some (Some us, n,
         advance (length (le_bytes 4 (of_nat (length xs) :: u32) @ values_bytes (mType pr) xs)) p)"
    by (rule read_array [OF a]) (rule that)
  have "step_reads (read_current junk garbage) (array_bytes (mType pr) xs) pr
      (pr\<lparr>mCurrentValue := mCurrentValue pr, mCurrentArrayValues := Some us, mCurrentArrayLength := n\<rparr>)"
    by (rule step_readsI) (simp add: read_current_def array_bytes_def True us(2) assms(2))
  then show ?thesis
    by (rule that) (use us(1) True in \<open>simp add: value_means_def\<close>)
next
  case False
  then obtain x where x: "xs = [x]" "means (mType pr) v0 x"
    using assms(1) by (auto simp: value_means_def list_all2_one)
  obtain u where u: "step_reads (read_value_field junk mCurrentValue (\<lambda>v. mCurrentValue_update (\<lambda>_. v)))
      (meaning_bytes (mType pr) x) pr (pr\<lparr>mCurrentValue := u\<rparr>)" "means (mType pr) u x"
    using x(2) by (rule read_value_field_means)
  have "step_reads (read_current junk garbage) (array_bytes (mType pr) xs) pr
      (pr\<lparr>mCurrentValue := u, mCurrentArrayValues := mCurrentArrayValues pr,
         mCurrentArrayLength := mCurrentArrayLength pr\<rparr>)"
    by (rule step_readsI)
      (simp add: read_current_def array_bytes_def values_bytes_def False x(1) step_readsD [OF u(1)] assms(2))
  then show ?thesis
    by (rule that) (use u(2) False x(1) in \<open>simp add: value_means_def\<close>)
qed

lemma read_u16_field: "step_reads (get_field getUInt16 assign) (le_bytes 2 x) r (assign x r)"
  by (rule step_reads_field) (rule u16.get_reads, simp)

lemma read_u32_field: "step_reads (get_field getUInt32 assign) (le_bytes 4 x) r (assign x r)"
  by (rule step_reads_field) (rule u32.get_reads, simp)

lemma read_u8_field: "step_reads (get_field getUInt8 assign) [x] r (assign x r)"
  using step_reads_field [OF u8.get_reads [of x], of assign r] le_bytes_simps(1) [of x] by simp

lemma read_form_means:
  assumes "describes pr0 d" "mType pr = kind d" "mFormFlag pr = form_flag d"
  obtains lo hi st n vs where "step_reads (read_form junk garbage) (form_bytes d) pr
      (pr\<lparr>mMinimumValue := lo, mMaximumValue := hi, mStepSize := st, mEnumLength := n, mEnumValues := vs\<rparr>)"
    "if form_flag d = kFormRange then list_all2 (means (kind d)) [lo, hi, st] (form_values d)
     else if form_flag d = kFormEnum
     then (\<exists>l. vs = Some l \<and> length l = unat n \<and> list_all2 (means (kind d)) l (form_values d))
     else form_values d = []"
proof -
  consider (range) "form_flag d = kFormRange" | (enum) "form_flag d = kFormEnum" "form_flag d \<noteq> kFormRange"
    | (none) "form_flag d \<noteq> kFormRange" "form_flag d \<noteq> kFormEnum" by blast
  then show ?thesis
  proof cases
    case range
    then obtain a b c where abc: "form_values d = [a, b, c]" "means (kind d) (mMinimumValue pr0) a"
      "means (kind d) (mMaximumValue pr0) b" "means (kind d) (mStepSize pr0) c"
      using assms(1) by (auto simp: describes_def list_all2_Cons1)
    obtain u where u: "step_reads (read_value_field junk mMinimumValue (\<lambda>v. mMinimumValue_update (\<lambda>_. v)))
        (meaning_bytes (kind d) a) pr (pr\<lparr>mMinimumValue := u\<rparr>)" "means (kind d) u a"
      using read_value_field_means [of pr _ a junk mMinimumValue "\<lambda>v. mMinimumValue_update (\<lambda>_. v)"] abc(2) assms(2)
      by auto
    let ?p1 = "pr\<lparr>mMinimumValue := u\<rparr>"
    obtain v where v: "step_reads (read_value_field junk mMaximumValue (\<lambda>v. mMaximumValue_update (\<lambda>_. v)))
        (meaning_bytes (kind d) b) ?p1 (?p1\<lparr>mMaximumValue := v\<rparr>)" "means (kind d) v b"
      using read_value_field_means [of ?p1 _ b junk mMaximumValue "\<lambda>v. mMaximumValue_update (\<lambda>_. v)"] abc(3) assms(2)
      by auto
    let ?p2 = "?p1\<lparr>mMaximumValue := v\<rparr>"
    obtain w where w: "step_reads (read_value_field junk mStepSize (\<lambda>v. mStepSize_update (\<lambda>_. v)))
        (meaning_bytes (kind d) c) ?p2 (?p2\<lparr>mStepSize := w\<rparr>)" "means (kind d) w c"
      using read_value_field_means [of ?p2 _ c junk mStepSize "\<lambda>v. mStepSize_update (\<lambda>_. v)"] abc(4) assms(2)
      by auto
    let ?steps = "[read_value_field junk mMinimumValue (\<lambda>v. mMinimumValue_update (\<lambda>_. v)),
       read_value_field junk mMaximumValue (\<lambda>v. mMaximumValue_update (\<lambda>_. v)),
       read_value_field junk mStepSize (\<lambda>v. mStepSize_update (\<lambda>_. v))]"
    have "step_reads (run_steps ?steps) (meaning_bytes (kind d) a @ meaning_bytes (kind d) b
        @ meaning_bytes (kind d) c @ []) pr (?p2\<lparr>mStepSize := w\<rparr>)"
      by (rule step_reads_seq [OF u(1) step_reads_seq [OF v(1) step_reads_seq [OF w(1) step_reads_none]]])
    then have "step_reads (read_form junk garbage) (form_bytes d) pr
        (pr\<lparr>mMinimumValue := u, mMaximumValue := v, mStepSize := w, mEnumLength := mEnumLength pr,
           mEnumValues := mEnumValues pr\<rparr>)"
      using range assms(3) abc(1)
      by (auto simp: step_reads_def read_form_def form_bytes_def values_bytes_def kFormRange_def kFormEnum_def
          simp del: run_steps.simps)
    then show ?thesis
      by (rule that) (use range abc(1) u(2) v(2) w(2) in simp)
  next
    case enum
    then obtain l where l: "length l = unat (mEnumLength pr0)" "list_all2 (means (kind d)) l (form_values d)"
      using assms(1) by (auto simp: describes_def)
    let ?n = "mEnumLength pr0"
    have len: "length (form_values d) = unat ?n" using list_all2_lengthD [OF l(2)] l(1) by simp
    then have n: "of_nat (length (form_values d)) = ?n" by (simp only:) simp
    obtain us where us: "list_all2 (means (kind d)) us (form_values d)"
      "step_reads (\<lambda>(_ :: unit, p). read_values junk garbage (kind d) (length (form_values d)) p)
         (values_bytes (kind d) (form_values d)) () us"
      using l(2) by (rule read_values_mean)
    let ?p1 = "pr\<lparr>mEnumLength := ?n\<rparr>"
    have s1: "step_reads (get_field getUInt16 (\<lambda>x. mEnumLength_update (\<lambda>_. x))) (le_bytes 2 ?n) pr ?p1"
      using read_u16_field [of "\<lambda>x. mEnumLength_update (\<lambda>_. x)" ?n pr] by simp
    have s2: "step_reads (read_enum_values junk garbage) (values_bytes (kind d) (form_values d)) ?p1
        (?p1\<lparr>mEnumValues := Some us\<rparr>)"
      by (rule step_readsI) (use step_readsD [OF us(2)] len assms(2) in \<open>simp add: read_enum_values_def\<close>)
    have "step_reads (run_steps [get_field getUInt16 (\<lambda>x. mEnumLength_update (\<lambda>_. x)), read_enum_values junk garbage])
        (le_bytes 2 ?n @ values_bytes (kind d) (form_values d) @ []) pr (?p1\<lparr>mEnumValues := Some us\<rparr>)"
      by (rule step_reads_seq [OF s1 step_reads_seq [OF s2 step_reads_none]])
    then have "step_reads (read_form junk garbage) (form_bytes d) pr
        (pr\<lparr>mMinimumValue := mMinimumValue pr, mMaximumValue := mMaximumValue pr, mStepSize := mStepSize pr,
           mEnumLength := ?n, mEnumValues := Some us\<rparr>)"
      using enum assms(3) n
      by (auto simp: step_reads_def read_form_def form_bytes_def kFormRange_def kFormEnum_def
          simp del: run_steps.simps)
    then show ?thesis
      by (rule that) (use enum us(1) list_all2_lengthD [OF us(1)] len in auto)
  next
    case none
    then have "step_reads (read_form junk garbage) (form_bytes d) pr
        (pr\<lparr>mMinimumValue := mMinimumValue pr, mMaximumValue := mMaximumValue pr, mStepSize := mStepSize pr,
           mEnumLength := mEnumLength pr, mEnumValues := mEnumValues pr\<rparr>)"
      using assms(1,3) by (intro step_readsI) (simp add: read_form_def form_bytes_def values_bytes_def describes_def)
    then show ?thesis
      by (rule that) (use none assms(1) in \<open>simp add: describes_def\<close>)
  qed
qed

lemma read_group_or_current:
  assumes "describes pr0 d" "array_lengths_ok d" "mType pr = kind d" "mCode pr = code d"
  obtains v vs n g where "step_reads (run_steps [read_current junk garbage, read_group])
      (if device_code (code d) then array_bytes (kind d) (current_values d) else le_bytes 4 (group d)) pr
      (pr\<lparr>mCurrentValue := v, mCurrentArrayValues := vs, mCurrentArrayLength := n, mGroupCode := g\<rparr>)"
    "if device_code (code d) then value_means (kind d) v vs n (current_values d) else g = group d"
proof (cases "device_code (code d)")
  case True
  then have dev: "isDeviceProperty pr" using assms(4) by (simp add: isDeviceProperty)
  obtain v vs n where v: "step_reads (read_current junk garbage) (array_bytes (mType pr) (current_values d)) pr
      (pr\<lparr>mCurrentValue := v, mCurrentArrayValues := vs, mCurrentArrayLength := n\<rparr>)"
    "value_means (mType pr) v vs n (current_values d)"
    by (rule read_current_means [of pr "mCurrentValue pr0" "mCurrentArrayValues pr0" "mCurrentArrayLength pr0"
          "current_values d"])
      (use assms True dev in \<open>auto simp: describes_def array_lengths_ok_def\<close>)
  let ?q = "pr\<lparr>mCurrentValue := v, mCurrentArrayValues := vs, mCurrentArrayLength := n\<rparr>"
  have g: "step_reads read_group [] ?q ?q"
    by (rule step_readsI) (use dev in \<open>simp add: read_group_def isDeviceProperty\<close>)
  have "step_reads (run_steps [read_current junk garbage, read_group])
      (array_bytes (mType pr) (current_values d) @ [] @ []) pr ?q"
    by (rule step_reads_seq [OF v(1) step_reads_seq [OF g step_reads_none]])
  then have "step_reads (run_steps [read_current junk garbage, read_group])
      (if device_code (code d) then array_bytes (kind d) (current_values d) else le_bytes 4 (group d)) pr
      (pr\<lparr>mCurrentValue := v, mCurrentArrayValues := vs, mCurrentArrayLength := n, mGroupCode := mGroupCode pr\<rparr>)"
    using True assms(3) by simp
  then show ?thesis
    by (rule that) (use v(2) True assms(3) in simp)
next
  case False
  then have dev: "\<not> isDeviceProperty pr" using assms(4) by (simp add: isDeviceProperty)
  have "step_reads (read_current junk garbage) [] pr pr"
    by (rule step_readsI) (simp add: read_current_def dev)
  note r = this
  have g: "step_reads read_group (le_bytes 4 (group d)) pr (pr\<lparr>mGroupCode := group d\<rparr>)"
    using read_u32_field [of "\<lambda>x. mGroupCode_update (\<lambda>_. x)" "group d" pr] dev
    by (simp add: step_reads_def read_group_def)
  have "step_reads (run_steps [read_current junk garbage, read_group])
      ([] @ le_bytes 4 (group d) @ []) pr (pr\<lparr>mGroupCode := group d\<rparr>)"
    by (rule step_reads_seq [OF r step_reads_seq [OF g step_reads_none]])
  then have "step_reads (run_steps [read_current junk garbage, read_group])
      (if device_code (code d) then array_bytes (kind d) (current_values d) else le_bytes 4 (group d)) pr
      (pr\<lparr>mCurrentValue := mCurrentValue pr, mCurrentArrayValues := mCurrentArrayValues pr,
         mCurrentArrayLength := mCurrentArrayLength pr, mGroupCode := group d\<rparr>)"
    using False by simp
  then show ?thesis
    by (rule that) (use False in simp)
qed

lemma run_steps_append: "run_steps (fs @ gs) s = do { (ok, s) \<leftarrow> run_steps fs s; if ok then run_steps gs s else Some (False, s) }"
proof (induction fs arbitrary: s)
  case Nil
  show ?case by simp
next
  case (Cons f fs)
  show ?case
  proof (cases "f s")
    case (Some r)
    then show ?thesis using Cons by (cases r; cases "fst r") auto
  qed simp
qed

lemma step_reads_append:
  assumes "step_reads (run_steps fs) xs r r'" "step_reads (run_steps gs) ys r' r''"
  shows "step_reads (run_steps (fs @ gs)) (xs @ ys) r r''"
proof (rule step_readsI)
  fix p rest
  assume p: "readable p" and "unread p = (xs @ ys) @ rest"
  then have u: "unread p = xs @ (ys @ rest)" by simp
  note at = read_on [OF p u]
  show "run_steps (fs @ gs) (r, p) = Some (True, r'', advance (length (xs @ ys)) p)"
    using step_readsD [OF assms(1) p u] step_readsD [OF assms(2) at [THEN conjunct1] at [THEN conjunct2]]
    by (simp add: run_steps_append)
qed

lemma read_description:
  assumes "describes pr d" "array_lengths_ok d"
  obtains pr' where "step_reads (property_read junk garbage) (description_bytes d) pr0 pr'" "describes pr' d"
proof -
  let ?t = "kind d"
  let ?p3 = "pr0\<lparr>mCode := code d, mType := ?t, mWriteable := writeable d\<rparr>"
  have s1: "step_reads (get_field getUInt16 (\<lambda>x. mCode_update (\<lambda>_. x))) (le_bytes 2 (code d)) pr0
      (pr0\<lparr>mCode := code d\<rparr>)"
    by (rule read_u16_field)
  have s2: "step_reads (get_field getUInt16 (\<lambda>x. mType_update (\<lambda>_. x))) (le_bytes 2 ?t) (pr0\<lparr>mCode := code d\<rparr>)
      (pr0\<lparr>mCode := code d, mType := ?t\<rparr>)"
    by (rule read_u16_field)
  have s3: "step_reads (get_field getUInt8 (\<lambda>x. mWriteable_update (\<lambda>_. x = 1))) [if writeable d then 1 else 0]
      (pr0\<lparr>mCode := code d, mType := ?t\<rparr>) ?p3"
    using read_u8_field [of "\<lambda>x. mWriteable_update (\<lambda>_. x = 1)" "if writeable d then 1 else 0"
        "pr0\<lparr>mCode := code d, mType := ?t\<rparr>"] by (cases "writeable d") simp_all
  obtain v vs n where s4: "step_reads (read_default junk garbage) (array_bytes (mType ?p3) (default_values d)) ?p3
      (?p3\<lparr>mDefaultValue := v, mDefaultArrayValues := vs, mDefaultArrayLength := n\<rparr>)"
    and d4: "value_means (mType ?p3) v vs n (default_values d)"
    by (rule read_default_means [of ?p3 "mDefaultValue pr" "mDefaultArrayValues pr" "mDefaultArrayLength pr"
          "default_values d"])
      (use assms in \<open>auto simp: describes_def array_lengths_ok_def\<close>)
  let ?p4 = "?p3\<lparr>mDefaultValue := v, mDefaultArrayValues := vs, mDefaultArrayLength := n\<rparr>"
  obtain cv cvs cn g where s5: "step_reads (run_steps [read_current junk garbage, read_group])
      (if device_code (code d) then array_bytes ?t (current_values d) else le_bytes 4 (group d)) ?p4
      (?p4\<lparr>mCurrentValue := cv, mCurrentArrayValues := cvs, mCurrentArrayLength := cn, mGroupCode := g\<rparr>)"
    and d5: "if device_code (code d) then value_means ?t cv cvs cn (current_values d) else g = group d"
    by (rule read_group_or_current [OF assms, of ?p4]) auto
  let ?p5 = "?p4\<lparr>mCurrentValue := cv, mCurrentArrayValues := cvs, mCurrentArrayLength := cn, mGroupCode := g\<rparr>"
  let ?p6 = "?p5\<lparr>mFormFlag := form_flag d\<rparr>"
  have s6: "step_reads (get_field getUInt8 (\<lambda>x. mFormFlag_update (\<lambda>_. x))) [form_flag d] ?p5 ?p6"
    by (rule read_u8_field)
  obtain lo hi st en es where s7: "step_reads (read_form junk garbage) (form_bytes d) ?p6
      (?p6\<lparr>mMinimumValue := lo, mMaximumValue := hi, mStepSize := st, mEnumLength := en, mEnumValues := es\<rparr>)"
    and d7: "if form_flag d = kFormRange then list_all2 (means ?t) [lo, hi, st] (form_values d)
      else if form_flag d = kFormEnum
      then (\<exists>l. es = Some l \<and> length l = unat en \<and> list_all2 (means ?t) l (form_values d))
      else form_values d = []"
    by (rule read_form_means [OF assms(1), of ?p6]) auto
  let ?p7 = "?p6\<lparr>mMinimumValue := lo, mMaximumValue := hi, mStepSize := st, mEnumLength := en, mEnumValues := es\<rparr>"
  have head: "step_reads (run_steps [get_field getUInt16 (\<lambda>x. mCode_update (\<lambda>_. x)),
      get_field getUInt16 (\<lambda>x. mType_update (\<lambda>_. x)), get_field getUInt8 (\<lambda>x. mWriteable_update (\<lambda>_. x = 1)),
      read_default junk garbage])
      (le_bytes 2 (code d) @ le_bytes 2 ?t @ [if writeable d then 1 else 0] @ array_bytes ?t (default_values d) @ [])
      pr0 ?p4"
    using s4 by (intro step_reads_seq [OF s1] step_reads_seq [OF s2] step_reads_seq [OF s3]
        step_reads_seq [OF _ step_reads_none]) simp
  have tail: "step_reads (run_steps [get_field getUInt8 (\<lambda>x. mFormFlag_update (\<lambda>_. x)), read_form junk garbage])
      ([form_flag d] @ form_bytes d @ []) ?p5 ?p7"
    by (rule step_reads_seq [OF s6 step_reads_seq [OF s7 step_reads_none]])
  have "step_reads (property_read junk garbage) (description_bytes d) pr0 ?p7"
    using step_reads_append [OF head step_reads_append [OF s5 tail]]
    by (simp add: property_read_def description_bytes_def del: run_steps.simps)
  moreover have "describes ?p7 d"
    using d4 d5 d7 by (simp add: describes_def)
  ultimately show ?thesis by (rule that)
qed

subsection \<open>Reading arbitrary bytes\<close>

lemma no_number:
  assumes "type_bytes t = 0"
  shows "t \<noteq> MTP_TYPE_INT8" "t \<noteq> MTP_TYPE_AINT8" "t \<noteq> MTP_TYPE_UINT8" "t \<noteq> MTP_TYPE_AUINT8"
    "t \<noteq> MTP_TYPE_INT16" "t \<noteq> MTP_TYPE_AINT16" "t \<noteq> MTP_TYPE_UINT16" "t \<noteq> MTP_TYPE_AUINT16"
    "t \<noteq> MTP_TYPE_INT32" "t \<noteq> MTP_TYPE_AINT32" "t \<noteq> MTP_TYPE_UINT32" "t \<noteq> MTP_TYPE_AUINT32"
    "t \<noteq> MTP_TYPE_INT64" "t \<noteq> MTP_TYPE_AINT64" "t \<noteq> MTP_TYPE_UINT64" "t \<noteq> MTP_TYPE_AUINT64"
    "t \<noteq> MTP_TYPE_INT128" "t \<noteq> MTP_TYPE_AINT128" "t \<noteq> MTP_TYPE_UINT128" "t \<noteq> MTP_TYPE_AUINT128"
  using assms by (auto simp: type_bytes_def mtp_types)

lemma safe_field: "safe get \<Longrightarrow> safe_step (\<lambda>_. True) (get_field get assign)"
  by (rule safe_get_field) simp_all

lemma safe_readValue: "safe_step (\<lambda>_. True) (readValue junk t)"
proof (cases "type_bytes t \<noteq> 0")
  case True
  have m: "safe get \<Longrightarrow> safe_step (\<lambda>_. True) (get_member get)" for get :: "('a::len word) getter"
    by (simp add: get_member_def safe_field)
  have m128: "safe_step (\<lambda>_. True) (get_member128 getUInt128)"
  proof (rule safe_stepI)
    fix v :: mtp_value and p
    assume "readable p"
    then obtain ok w q where "getUInt128 (member v) p = Some (ok, w, q)" "moved p q"
      by (rule safe_128)
    then show "\<exists>ok r' q. get_member128 getUInt128 (v, p) = Some (ok, r', q) \<and> moved p q \<and> True"
      by (simp add: get_member128_def)
  qed
  consider "type_bytes t = 1" | "type_bytes t = 2" | "type_bytes t = 4" | "type_bytes t = 8" | "type_bytes t = 16"
    using number_bytes [OF True] by auto
  then show ?thesis
    by cases (simp_all only: read_number m128 m [OF u8.get_safe] m [OF u16.get_safe] m [OF u32.get_safe]
        m [OF u64.get_safe])
next
  case False
  show ?thesis
  proof (rule safe_stepI)
    fix v p
    assume p: "readable p"
    obtain ok b q where b: "readFromPacket (MtpStringBuffer junk) p = Some (ok, b, q)" "moved p q"
      "ok \<Longrightarrow> 0 \<in> set (mBytes b)"
      by (rule readFromPacket_safe [OF p length_uninitialized(2) [of junk]]) (rule that)
    have "readValue junk t (v, p) = (if t = MTP_TYPE_STR then do {
         (ok, b, p) \<leftarrow> getString (MtpStringBuffer junk) p;
         if ok then do { s \<leftarrow> strdup b; Some (True, v\<lparr>str := Owned s\<rparr>, p) }
         else Some (False, v, p) } else Some (False, v, p))"
      using no_number [OF False [simplified]] by (simp add: readValue_def)
    then show "\<exists>ok r' q. readValue junk t (v, p) = Some (ok, r', q) \<and> moved p q \<and> True"
      using b by (cases ok) (auto simp: getString_def strdup_def intro: moved_refl)
  qed
qed

lemma safe_read_values:
  assumes "readable p"
  obtains ok vs q where "read_values junk garbage t n p = Some (ok, vs, q)" "moved p q"
proof -
  have "\<exists>ok vs q. read_values junk garbage t n p = Some (ok, vs, q) \<and> moved p q"
    using assms
  proof (induction n arbitrary: p)
    case 0
    then show ?case by (auto intro: moved_refl)
  next
    case (Suc n)
    obtain ok v q where q: "readValue junk t (new_value garbage, p) = Some (ok, v, q)" "moved p q" "readable q"
      by (rule safe_stepE [OF safe_readValue TrueI Suc.prems])
    with Suc.IH [OF q(3)] show ?case by (cases ok) (auto intro: moved_trans)
  qed
  then show ?thesis using that by blast
qed

lemma safe_readArrayValues:
  assumes "readable p"
  obtains vs n q where "readArrayValues junk garbage t len p = Some (vs, n, q)" "moved p q"
proof -
  obtain r q where q: "getUInt32 p = Some (r, q)" "moved p q" "readable q"
    by (rule safeE [OF u32.get_safe assms])
  obtain ok vs s where "read_values junk garbage t (unat (the r)) q = Some (ok, vs, s)" "moved q s"
    by (rule safe_read_values [OF q(3)])
  with q have "\<exists>vs n q. readArrayValues junk garbage t len p = Some (vs, n, q) \<and> moved p q"
    by (cases r) (auto simp: readArrayValues_def intro: moved_trans)
  then show ?thesis using that by blast
qed

lemma safe_value_field: "safe_step (\<lambda>_. True) (read_value_field junk field assign)"
proof (rule safe_stepI)
  fix pr :: mtp_property and p
  assume p: "readable p"
  obtain ok v q where "readValue junk (mType pr) (field pr, p) = Some (ok, v, q)" "moved p q"
    by (rule safe_stepE [OF safe_readValue TrueI p])
  then show "\<exists>ok r' q. read_value_field junk field assign (pr, p) = Some (ok, r', q) \<and> moved p q \<and> True"
    by (simp add: read_value_field_def)
qed

lemma safe_read_parts:
  "safe_step (\<lambda>_. True) (read_default junk garbage)" "safe_step (\<lambda>_. True) (read_current junk garbage)"
  "safe_step (\<lambda>_. True) read_group" "safe_step (\<lambda>_. True) (read_form junk garbage)"
proof -
  note field = safe_value_field [unfolded safe_step_def, rule_format, simplified]
  show "safe_step (\<lambda>_. True) (read_default junk garbage)"
  proof (rule safe_stepI)
    fix pr :: mtp_property and p
    assume p: "readable p"
    obtain vs n q where "readArrayValues junk garbage (mType pr) (mDefaultArrayLength pr) p = Some (vs, n, q)" "moved p q"
      by (rule safe_readArrayValues [OF p])
    then show "\<exists>ok r' q. read_default junk garbage (pr, p) = Some (ok, r', q) \<and> moved p q \<and> True"
      using field [OF p] by (simp add: read_default_def)
  qed
  show "safe_step (\<lambda>_. True) (read_current junk garbage)"
  proof (rule safe_stepI)
    fix pr :: mtp_property and p
    assume p: "readable p"
    obtain vs n q where "readArrayValues junk garbage (mType pr) (mCurrentArrayLength pr) p = Some (vs, n, q)" "moved p q"
      by (rule safe_readArrayValues [OF p])
    then show "\<exists>ok r' q. read_current junk garbage (pr, p) = Some (ok, r', q) \<and> moved p q \<and> True"
      using field [OF p] by (auto simp: read_current_def intro: moved_refl)
  qed
  show "safe_step (\<lambda>_. True) read_group"
  proof (rule safe_stepI)
    fix pr :: mtp_property and p
    assume p: "readable p"
    obtain ok r' q where "get_field getUInt32 (\<lambda>x. mGroupCode_update (\<lambda>_. x)) (pr, p) = Some (ok, r', q)" "moved p q"
      using safe_field [OF u32.get_safe, of "\<lambda>x. mGroupCode_update (\<lambda>_. x)"] p
      unfolding safe_step_def by blast
    then show "\<exists>ok r' q. read_group (pr, p) = Some (ok, r', q) \<and> moved p q \<and> True"
      by (auto simp: read_group_def intro: moved_refl)
  qed
  have enum: "safe_step (\<lambda>_. True) (read_enum_values junk garbage)"
  proof (rule safe_stepI)
    fix pr :: mtp_property and p
    assume p: "readable p"
    obtain ok vs q where "read_values junk garbage (mType pr) (unat (mEnumLength pr)) p = Some (ok, vs, q)" "moved p q"
      by (rule safe_read_values [OF p])
    then show "\<exists>ok r' q. read_enum_values junk garbage (pr, p) = Some (ok, r', q) \<and> moved p q \<and> True"
      by (simp add: read_enum_values_def)
  qed
  have "safe_step (\<lambda>_. True) (run_steps [get_field getUInt16 (\<lambda>x. mEnumLength_update (\<lambda>_. x)),
      read_enum_values junk garbage])"
    by (intro safe_steps) (simp add: enum safe_field [OF u16.get_safe])
  moreover have "safe_step (\<lambda>_. True) (run_steps [read_value_field junk mMinimumValue (\<lambda>v. mMinimumValue_update (\<lambda>_. v)),
      read_value_field junk mMaximumValue (\<lambda>v. mMaximumValue_update (\<lambda>_. v)),
      read_value_field junk mStepSize (\<lambda>v. mStepSize_update (\<lambda>_. v))])"
    by (intro safe_steps) (simp add: safe_value_field)
  ultimately show "safe_step (\<lambda>_. True) (read_form junk garbage)"
    by (auto simp: safe_step_def read_form_def intro: moved_refl simp del: run_steps.simps)
qed

section \<open>What holds of descriptions\<close>


text \<open>
  C28: Reading a property description never leaves the packet and never faults, whatever bytes the
  other side has sent: \<open>read\<close> returns true or false with the offset within the packet.
\<close>

theorem property_read_safe:
  assumes "readable p"
  shows "\<exists>ok pr' q. property_read junk garbage (pr, p) = Some (ok, pr', q)
    \<and> mOffset p \<le> mOffset q \<and> mOffset q \<le> mPacketSize p \<and> contents q = contents p"
proof -
  have "safe_step (\<lambda>_. True) (property_read junk garbage)"
    unfolding property_read_def
    by (intro safe_steps) (simp add: safe_read_parts safe_field [OF u8.get_safe] safe_field [OF u16.get_safe])
  then obtain ok pr' q where q: "property_read junk garbage (pr, p) = Some (ok, pr', q)" "moved p q"
    using assms unfolding safe_step_def by blast
  then show ?thesis
    using moved_keeps [OF q(2)] moved_readable [OF q(2) assms] by (auto simp: moved_def readable_def)
qed

text \<open>
  A property of an array type whose default value is the empty array is written without complaint, and cannot be
  read: the reader refuses the length zero.
\<close>

theorem empty_array_unreadable:
  assumes "describes pr d" "is_array_type (kind d)" "default_values d = []" "appending p"
    "room (length (description_bytes d)) p"
  shows "\<exists>q pr' r. property_write fresh junk pr p = Some q
    \<and> property_read junk' garbage (MtpProperty garbage, q\<lparr>mOffset := mPacketSize p\<rparr>) = Some (False, pr', r)"
proof -
  obtain q where q: "property_write fresh junk pr p = Some q" "appended (description_bytes d) p q"
    by (rule writesE [OF writes_description [OF assms(1)] assms(4,5)])
  let ?q = "q\<lparr>mOffset := mPacketSize p\<rparr>" and ?t = "kind d"
  let ?p1 = "(MtpProperty garbage)\<lparr>mCode := code d\<rparr>"
  let ?p2 = "?p1\<lparr>mType := ?t\<rparr>"
  let ?b3 = "if writeable d then 1 else 0 :: byte"
  let ?p3 = "?p2\<lparr>mWriteable := (?b3 = 1)\<rparr>"
  let ?head = "[get_field getUInt16 (\<lambda>x. mCode_update (\<lambda>_. x)), get_field getUInt16 (\<lambda>x. mType_update (\<lambda>_. x)),
      get_field getUInt8 (\<lambda>x. mWriteable_update (\<lambda>_. x = 1))]"
  have head: "step_reads (run_steps ?head) (le_bytes 2 (code d) @ le_bytes 2 ?t @ [?b3] @ []) (MtpProperty garbage) ?p3"
    by (intro step_reads_seq [OF read_u16_field] step_reads_seq [OF read_u8_field] step_reads_none)
  obtain rest where u: "readable ?q" "unread ?q = (le_bytes 2 (code d) @ le_bytes 2 ?t @ [?b3] @ [])
      @ le_bytes 4 (0 :: u32) @ rest"
    using appended_readable [OF assms(4) q(2)] assms(2,3)
    by (simp add: description_bytes_def array_bytes_def values_bytes_def)
  note h = step_readsD [OF head u]
  let ?s = "advance (length (le_bytes 2 (code d) @ le_bytes 2 ?t @ [?b3] @ [])) ?q"
  have s: "readable ?s \<and> unread ?s = le_bytes 4 (0 :: u32) @ rest"
    by (rule read_on [OF u])
  have "getUInt32 ?s = Some (Some 0, advance (length (le_bytes 4 (0 :: u32))) ?s)"
    using s by (intro readsD [OF u32.get_reads]) auto
  then have arr: "readArrayValues junk' garbage ?t len ?s = Some (None, 0, advance 4 ?s)" for len
    by (simp add: readArrayValues_def)
  have "property_read junk' garbage = run_steps (?head @ [read_default junk' garbage, read_current junk' garbage,
      read_group, get_field getUInt8 (\<lambda>x. mFormFlag_update (\<lambda>_. x)), read_form junk' garbage])"
    by (simp add: property_read_def)
  then have "\<exists>pr'. property_read junk' garbage (MtpProperty garbage, ?q) = Some (False, pr', advance 4 ?s)"
    using h arr assms(2) by (simp only: run_steps_append) (simp add: read_default_def)
  with q(1) show ?thesis by blast
qed

text \<open>
  The destructor frees pointers that were never assigned: when a device describes an enumeration of strings and
  its data ends before the strings, \<open>read\<close> returns false with the array allocated, and deleting the
  property, which is what the caller does then, passes uninitialised memory to \<open>free\<close>.
\<close>

theorem truncated_enumeration_frees_garbage:
  assumes "readable p" "unread p = le_bytes 2 (0xDC07 :: u16) @ le_bytes 2 MTP_TYPE_STR @ [1] @ wire []
      @ le_bytes 4 (0 :: u32) @ [kFormEnum] @ le_bytes 2 (n :: u16)" "n \<noteq> 0"
  shows "\<exists>pr q. property_read junk garbage (MtpProperty garbage, p) = Some (False, pr, q)
    \<and> property_destroy pr = None"
proof -
  let ?p1 = "(MtpProperty garbage)\<lparr>mCode := 0xDC07\<rparr>"
  let ?p2 = "?p1\<lparr>mType := MTP_TYPE_STR\<rparr>"
  let ?p3 = "?p2\<lparr>mWriteable := True\<rparr>"
  let ?p4 = "?p3\<lparr>mDefaultValue := zero_value\<lparr>str := Owned (utf8 [])\<rparr>\<rparr>"
  let ?p5 = "?p4\<lparr>mGroupCode := 0\<rparr>"
  let ?p6 = "?p5\<lparr>mFormFlag := kFormEnum\<rparr>"
  let ?p7 = "?p6\<lparr>mEnumLength := n\<rparr>"
  have not_array: "\<not> is_array_type MTP_TYPE_STR" by (simp add: is_array_type_def mtp_types)
  have not_device: "\<not> isDeviceProperty r" if "mCode r = 0xDC07" for r
    using that by (simp add: isDeviceProperty_def)
  have s3: "step_reads (get_field getUInt8 (\<lambda>x. mWriteable_update (\<lambda>_. x = 1))) [1] ?p2 ?p3"
    using read_u8_field [of "\<lambda>x. mWriteable_update (\<lambda>_. x = 1)" 1 ?p2] by simp
  have s4: "step_reads (read_default junk garbage) (wire []) ?p3 ?p4"
  proof (rule step_readsI)
    fix p rest
    assume "readable p" "unread p = wire [] @ rest"
    moreover have "proper_string []" by (simp add: proper_string_def)
    ultimately show "read_default junk garbage (?p3, p) = Some (True, ?p4, advance (length (wire [])) p)"
      using step_readsD [OF read_string_value [of "[]" junk zero_value]]
      by (simp add: read_default_def not_array read_value_field_def MtpProperty_def)
  qed
  have s5: "step_reads (read_current junk garbage) [] ?p4 ?p4"
    by (rule step_readsI) (simp add: read_current_def not_device)
  have s6: "step_reads read_group (le_bytes 4 (0 :: u32)) ?p4 ?p5"
    using read_u32_field [of "\<lambda>x. mGroupCode_update (\<lambda>_. x)" 0 ?p4] by (simp add: step_reads_def read_group_def not_device)
  let ?head = "[get_field getUInt16 (\<lambda>x. mCode_update (\<lambda>_. x)), get_field getUInt16 (\<lambda>x. mType_update (\<lambda>_. x)),
      get_field getUInt8 (\<lambda>x. mWriteable_update (\<lambda>_. x = 1)), read_default junk garbage, read_current junk garbage,
      read_group, get_field getUInt8 (\<lambda>x. mFormFlag_update (\<lambda>_. x))]"
  let ?bytes = "le_bytes 2 (0xDC07 :: u16) @ le_bytes 2 MTP_TYPE_STR @ [1] @ wire [] @ [] @ le_bytes 4 (0 :: u32)
      @ [kFormEnum] @ []"
  have head: "step_reads (run_steps ?head) ?bytes (MtpProperty garbage) ?p6"
    by (intro step_reads_seq [OF read_u16_field] step_reads_seq [OF s3] step_reads_seq [OF s4]
        step_reads_seq [OF s5] step_reads_seq [OF s6] step_reads_seq [OF read_u8_field] step_reads_none)
  have u: "unread p = ?bytes @ (le_bytes 2 n)" using assms(2) by simp
  let ?q = "advance (length ?bytes) p"
  have at: "readable ?q" "unread ?q = le_bytes 2 n @ []"
    using read_on [OF assms(1) u] by simp_all
  have n: "get_field getUInt16 (\<lambda>x. mEnumLength_update (\<lambda>_. x)) (?p6, ?q)
      = Some (True, ?p7, advance (length (le_bytes 2 n)) ?q)"
    by (rule step_readsD [OF read_u16_field at])
  let ?r = "advance (length (le_bytes 2 n)) ?q"
  have r: "readable ?r" "unread ?r = []" using read_on [OF at] by simp_all
  have "0 < unat n" using assms(3) by (simp add: unat_gt_0)
  then obtain m where m: "unat n = Suc m" by (cases "unat n") auto
  have "getUInt8 ?r = Some (None, ?r)" using r by (simp add: getUInt8_cases)
  then have v: "read_values junk garbage MTP_TYPE_STR (Suc m) ?r
      = Some (False, replicate (Suc m) (new_value garbage), ?r)"
    by (simp add: readValue_def mtp_types getString_def readFromPacket_def)
  let ?p8 = "?p7\<lparr>mEnumValues := Some (replicate (Suc m) (new_value garbage))\<rparr>"
  have "property_read junk garbage = run_steps (?head @ [read_form junk garbage])"
    by (simp add: property_read_def)
  moreover have "read_form junk garbage (?p6, ?q) = Some (False, ?p8, ?r)"
    using n v m by (simp add: read_form_def kFormRange_def kFormEnum_def read_enum_values_def del: read_values.simps)
  ultimately have "property_read junk garbage (MtpProperty garbage, p) = Some (False, ?p8, ?r)"
    using step_readsD [OF head assms(1) u] by (simp only: run_steps_append) simp
  moreover have "property_destroy ?p8 = None"
    using m by (simp add: property_destroy_def MtpProperty_def zero_value_def new_value_def free_ptr_def free_array_def)
  ultimately show ?thesis by blast
qed

text \<open>Instances of the theorems.\<close>

definition battery :: mtp_property where
  "battery = setFormRange 0 100 1 (MtpProperty_of 0 0x5001 MTP_TYPE_UINT16 False 50)"

definition battery_description :: description where
  "battery_description = \<lparr>code = 0x5001, kind = MTP_TYPE_UINT16, writeable = False,
     default_values = [Number 50], current_values = [Number 0], group = 0, form_flag = kFormRange,
     form_values = [Number 0, Number 100, Number 1]\<rparr>"

lemma describes_battery: "describes battery battery_description"
  by (simp add: describes_def battery_def battery_description_def MtpProperty_of_def MtpProperty_def
      setFormRange_def value_means_def is_array_type_def means_def type_bytes_def set_int_def set_member_def
      zero_value_def new_value_def mtp_types)

lemma length_battery: "length (description_bytes battery_description) < 100"
  by (simp add: description_bytes_def battery_description_def array_bytes_def values_bytes_def meaning_bytes_def
      type_bytes_def form_bytes_def is_array_type_def device_code_def mtp_types)


theorem property_read_safe_witness:
  "\<exists>ok pr' q. property_read (\<lambda>_. 1) 7 (MtpProperty 7, blank_packet) = Some (ok, pr', q)
    \<and> mOffset blank_packet \<le> mOffset q \<and> mOffset q \<le> mPacketSize blank_packet \<and> contents q = contents blank_packet"
  by (rule property_read_safe) (simp add: blank_packet_def readable_def)

definition no_formats :: mtp_property where
  "no_formats = (MtpProperty_of 0 0xD404 MTP_TYPE_AUINT16 False 0)
     \<lparr>mDefaultArrayValues := Some [], mCurrentArrayValues := Some []\<rparr>"

definition no_formats_description :: description where
  "no_formats_description = \<lparr>code = 0xD404, kind = MTP_TYPE_AUINT16, writeable = False,
     default_values = [], current_values = [], group = 0, form_flag = kFormNone, form_values = []\<rparr>"

theorem empty_array_unreadable_witness:
  "\<exists>q pr' r. property_write (\<lambda>_. 0) (\<lambda>_. 0) no_formats blank_packet = Some q
    \<and> property_read (\<lambda>_. 1) 7 (MtpProperty 7, q\<lparr>mOffset := mPacketSize blank_packet\<rparr>) = Some (False, pr', r)"
  by (rule empty_array_unreadable [where d = no_formats_description])
    (simp_all add: describes_def no_formats_def no_formats_description_def MtpProperty_of_def MtpProperty_def
      value_means_def array_means_def is_array_type_def device_code_def kFormNone_def kFormRange_def kFormEnum_def
      mtp_types blank_packet description_bytes_def array_bytes_def values_bytes_def form_bytes_def)

definition string_packet :: mtp_data_packet where
  "string_packet = (let bs = le_bytes 2 (0xDC07 :: u16) @ le_bytes 2 MTP_TYPE_STR @ [1] @ wire []
      @ le_bytes 4 (0 :: u32) @ [kFormEnum] @ le_bytes 2 (1 :: u16)
    in \<lparr>mBuffer = bs, mBufferSize = length bs, mAllocationIncrement = 16384, mPacketSize = length bs, mOffset = 0\<rparr>)"

theorem truncated_enumeration_frees_garbage_witness:
  "\<exists>pr q. property_read (\<lambda>_. 1) 7 (MtpProperty 7, string_packet) = Some (False, pr, q)
    \<and> property_destroy pr = None"
  by (rule truncated_enumeration_frees_garbage [where n = 1])
    (simp_all add: string_packet_def readable_def unread_def contents_def Let_def)

end
