(* ===== verification/MtpTransport.thy ===== *)
theory MtpTransport
  imports MtpCodec
begin

text \<open>
  How packets are sent and received, the read and write operations of media/mtp/Mtp*Packet.cpp: over the
  file of the kernel driver on a device, and by USB transfers on a host. The outside is a state \<open>'e\<close> on which the
  parameters act: \<open>inp n e\<close> is a read or an incoming transfer of at most \<open>n\<close> bytes, with its
  return value and the bytes that it stored, and \<open>out bs e\<close> sends bytes. Contracts that these must keep
  (as many bytes stored as returned) are stated where a lemma needs them.
\<close>

type_synonym 'e receiver = "nat \<Rightarrow> 'e \<Rightarrow> int \<times> byte list \<times> 'e"
type_synonym 'e sender = "byte list \<Rightarrow> 'e \<Rightarrow> int \<times> 'e"

section \<open>On the device\<close>

text \<open>\<open>MtpRequestPacket\<close>: 12 bytes of header and up to five parameters.\<close>

record mtp_request_packet = mtp_packet +
  mParameterCount :: int

definition small_packet :: nat where "small_packet = 512"

definition MtpRequestPacket :: "(nat \<Rightarrow> byte) \<Rightarrow> mtp_request_packet" where
  "MtpRequestPacket fresh =
     mtp_packet.extend (MtpPacket fresh small_packet) (mtp_request_packet.fields 0)"

definition MtpResponsePacket :: "(nat \<Rightarrow> byte) \<Rightarrow> mtp_packet" where
  "MtpResponsePacket fresh = MtpPacket fresh small_packet"

definition MtpEventPacket :: "(nat \<Rightarrow> byte) \<Rightarrow> mtp_packet" where
  "MtpEventPacket fresh = MtpPacket fresh small_packet"

definition request_read :: "'e receiver \<Rightarrow> mtp_request_packet \<Rightarrow> 'e \<Rightarrow> (int \<times> mtp_request_packet \<times> 'e) option" where
  "request_read inp p e = (let (ret, bs, e) = inp (mBufferSize p) e in do {
     buf \<leftarrow> pokes (mBuffer p) 0 bs;
     let p = p\<lparr>mBuffer := buf\<rparr>;
     if ret < 0 then Some (ret, p, e)
     else if int MTP_CONTAINER_HEADER_SIZE \<le> ret \<and> ret \<le> int MTP_CONTAINER_HEADER_SIZE + 5 * 4
         \<and> (ret - int MTP_CONTAINER_HEADER_SIZE) AND 3 = 0
     then Some (ret, p\<lparr>mPacketSize := nat ret,
            mParameterCount := (ret - int MTP_CONTAINER_HEADER_SIZE) div 4\<rparr>, e)
     else Some (-1, p, e) })"

definition send_header :: "u16 \<Rightarrow> 'a mtp_packet_scheme \<Rightarrow> 'a mtp_packet_scheme option" where
  "send_header t p = do {
     p \<leftarrow> packet_putUInt32 MTP_CONTAINER_LENGTH_OFFSET (word_of_nat (mPacketSize p)) p;
     packet_putUInt16 MTP_CONTAINER_TYPE_OFFSET t p }"

definition ok_result :: "int \<Rightarrow> int" where
  "ok_result ret = (if ret < 0 then ret else 0)"

definition response_write :: "'e sender \<Rightarrow> mtp_packet \<Rightarrow> 'e \<Rightarrow> (int \<times> mtp_packet \<times> 'e) option" where
  "response_write out p e = do {
     p \<leftarrow> send_header MTP_CONTAINER_TYPE_RESPONSE p;
     bs \<leftarrow> peeks (mBuffer p) 0 (mPacketSize p);
     let (ret, e) = out bs e;
     Some (ok_result ret, p, e) }"

text \<open>\<open>MtpEventPacket::write\<close> sends by an \<open>ioctl\<close>.\<close>

definition event_write :: "'e sender \<Rightarrow> mtp_packet \<Rightarrow> 'e \<Rightarrow> (int \<times> mtp_packet \<times> 'e) option" where
  "event_write ioctl p e = do {
     p \<leftarrow> send_header MTP_CONTAINER_TYPE_EVENT p;
     bs \<leftarrow> peeks (mBuffer p) 0 (mPacketSize p);
     let (ret, e) = ioctl bs e;
     Some (ok_result ret, p, e) }"

definition data_read :: "'e receiver \<Rightarrow> mtp_data_packet \<Rightarrow> 'e \<Rightarrow> (int \<times> mtp_data_packet \<times> 'e) option" where
  "data_read inp p e = (let (ret, bs, e) = inp MTP_BUFFER_SIZE e in do {
     buf \<leftarrow> pokes (mBuffer p) 0 bs;
     let p = p\<lparr>mBuffer := buf\<rparr>;
     if ret < int MTP_CONTAINER_HEADER_SIZE then Some (-1, p, e)
     else Some (ret, p\<lparr>mPacketSize := nat ret, mOffset := MTP_CONTAINER_HEADER_SIZE\<rparr>, e) })"

definition data_write :: "'e sender \<Rightarrow> mtp_data_packet \<Rightarrow> 'e \<Rightarrow> (int \<times> mtp_data_packet \<times> 'e) option" where
  "data_write out p e = do {
     p \<leftarrow> send_header MTP_CONTAINER_TYPE_DATA p;
     bs \<leftarrow> peeks (mBuffer p) 0 (mPacketSize p);
     let (ret, e) = out bs e;
     Some (ok_result ret, p, e) }"

text \<open>\<open>length\<close> is a \<open>uint32_t\<close>, to which the header is added.\<close>

definition writeData ::
    "(nat \<Rightarrow> byte) \<Rightarrow> 'e sender \<Rightarrow> byte list \<Rightarrow> u32 \<Rightarrow> mtp_data_packet \<Rightarrow> 'e \<Rightarrow> (int \<times> mtp_data_packet \<times> 'e) option" where
  "writeData fresh out data len p e = do {
     p \<leftarrow> allocate fresh (unat (len + of_nat MTP_CONTAINER_HEADER_SIZE)) p;
     bs \<leftarrow> peeks data 0 (unat len);
     buf \<leftarrow> pokes (mBuffer p) MTP_CONTAINER_HEADER_SIZE bs;
     let p = p\<lparr>mBuffer := buf\<rparr>;
     let len = len + of_nat MTP_CONTAINER_HEADER_SIZE;
     p \<leftarrow> packet_putUInt32 MTP_CONTAINER_LENGTH_OFFSET len p;
     p \<leftarrow> packet_putUInt16 MTP_CONTAINER_TYPE_OFFSET MTP_CONTAINER_TYPE_DATA p;
     bs \<leftarrow> peeks (mBuffer p) 0 (unat len);
     let (ret, e) = out bs e;
     Some (ok_result ret, p, e) }"

section \<open>On the host\<close>

definition request_write :: "'e sender \<Rightarrow> mtp_request_packet \<Rightarrow> 'e \<Rightarrow> (int \<times> mtp_request_packet \<times> 'e) option" where
  "request_write out p e = do {
     p \<leftarrow> send_header MTP_CONTAINER_TYPE_COMMAND p;
     bs \<leftarrow> peeks (mBuffer p) 0 (mPacketSize p);
     let (ret, e) = out bs e;
     Some (ret, p, e) }"

text \<open>\<open>MtpResponsePacket::read\<close> and \<open>MtpEventPacket::read\<close>.\<close>

definition packet_read :: "'e receiver \<Rightarrow> mtp_packet \<Rightarrow> 'e \<Rightarrow> (int \<times> mtp_packet \<times> 'e) option" where
  "packet_read inp p e = (let (ret, bs, e) = inp (mBufferSize p) e in do {
     buf \<leftarrow> pokes (mBuffer p) 0 bs;
     Some (ret, p\<lparr>mBuffer := buf, mPacketSize := (if 0 \<le> ret then nat ret else 0)\<rparr>, e) })"

text \<open>
  \<open>MtpDataPacket::read(request)\<close>: the first transfer tells the length of all, and further ones follow
  until it is reached. \<open>fuel\<close> bounds the number of transfers; a result \<open>None\<close> says that the loop has not
  ended within it.
\<close>

fun read_more :: "nat \<Rightarrow> 'e receiver \<Rightarrow> u32 \<Rightarrow> int \<Rightarrow> mtp_data_packet \<Rightarrow> 'e
    \<Rightarrow> (int option \<times> mtp_data_packet \<times> 'e) option" where
  "read_more 0 inp totalLength len p e = Some (None, p, e)"
| "read_more (Suc fuel) inp totalLength len p e =
     (if word_of_int len < totalLength then
        let (ret, bs, e) = inp (unat (totalLength - word_of_int len)) e in do {
          buf \<leftarrow> pokes (mBuffer p) (nat len) bs;
          let p = p\<lparr>mBuffer := buf\<rparr>;
          if 0 \<le> ret then read_more fuel inp totalLength (len + ret) p e
          else Some (Some ret, p, e) }
      else Some (Some len, p, e))"

definition usb_read :: "(nat \<Rightarrow> byte) \<Rightarrow> nat \<Rightarrow> 'e receiver \<Rightarrow> mtp_data_packet \<Rightarrow> 'e
    \<Rightarrow> (int option \<times> mtp_data_packet \<times> 'e) option" where
  "usb_read fresh fuel inp p e = (let (len, bs, e) = inp (mBufferSize p) e in do {
     buf \<leftarrow> pokes (mBuffer p) 0 bs;
     let p = p\<lparr>mBuffer := buf\<rparr>;
     (r, p, e) \<leftarrow>
       (if int MTP_CONTAINER_HEADER_SIZE \<le> len then do {
          totalLength \<leftarrow> packet_getUInt32 p MTP_CONTAINER_LENGTH_OFFSET;
          p \<leftarrow> allocate fresh (unat totalLength) p;
          read_more fuel inp totalLength len p e }
        else Some (Some len, p, e));
     case r of None \<Rightarrow> Some (None, p, e)
     | Some len \<Rightarrow> Some (Some len, if 0 \<le> len then p\<lparr>mPacketSize := nat len\<rparr> else p, e) })"

definition usb_write :: "'e sender \<Rightarrow> mtp_data_packet \<Rightarrow> 'e \<Rightarrow> (int \<times> mtp_data_packet \<times> 'e) option" where
  "usb_write out p e = do {
     p \<leftarrow> send_header MTP_CONTAINER_TYPE_DATA p;
     hd \<leftarrow> peeks (mBuffer p) 0 MTP_CONTAINER_HEADER_SIZE;
     let (ret, e) = out hd e;
     CHECK (MTP_CONTAINER_HEADER_SIZE \<le> mPacketSize p);
     (ret, e) \<leftarrow>
       (if ret = int MTP_CONTAINER_HEADER_SIZE then do {
          bs \<leftarrow> peeks (mBuffer p) MTP_CONTAINER_HEADER_SIZE (mPacketSize p - MTP_CONTAINER_HEADER_SIZE);
          Some (out bs e) }
        else Some (ret, e));
     Some (ok_result ret, p, e) }"

definition usb_write_buffer :: "'e sender \<Rightarrow> byte list \<Rightarrow> 'e \<Rightarrow> int \<times> 'e" where
  "usb_write_buffer out bs e = (let (ret, e) = out bs e in (ok_result ret, e))"

definition readDataHeader :: "nat \<Rightarrow> 'e receiver \<Rightarrow> mtp_data_packet \<Rightarrow> 'e \<Rightarrow> (int \<times> mtp_data_packet \<times> 'e) option" where
  "readDataHeader max_packet_size inp p e = (let (len, bs, e) = inp max_packet_size e in do {
     buf \<leftarrow> pokes (mBuffer p) 0 bs;
     let p = p\<lparr>mBuffer := buf\<rparr>;
     Some (len, if 0 \<le> len then p\<lparr>mPacketSize := nat len\<rparr> else p, e) })"

definition writeDataHeader :: "'e sender \<Rightarrow> u32 \<Rightarrow> mtp_data_packet \<Rightarrow> 'e \<Rightarrow> (int \<times> mtp_data_packet \<times> 'e) option" where
  "writeDataHeader out len p e = do {
     p \<leftarrow> packet_putUInt32 MTP_CONTAINER_LENGTH_OFFSET len p;
     p \<leftarrow> packet_putUInt16 MTP_CONTAINER_TYPE_OFFSET MTP_CONTAINER_TYPE_DATA p;
     hd \<leftarrow> peeks (mBuffer p) 0 MTP_CONTAINER_HEADER_SIZE;
     let (ret, e) = out hd e;
     Some (ok_result ret, p, e) }"

text \<open>\<open>readData\<close> fills a caller's buffer; \<open>None\<close> in the result again stands for fuel used up.\<close>

fun readData :: "nat \<Rightarrow> 'e receiver \<Rightarrow> nat \<Rightarrow> byte list \<Rightarrow> 'e \<Rightarrow> int option \<times> byte list \<times> 'e" where
  "readData 0 inp n got e = (None, got, e)"
| "readData (Suc fuel) inp n got e =
     (if length got < n then
        let (ret, bs, e) = inp (n - length got) e in
        if ret < 0 then (Some ret, got, e) else readData fuel inp n (got @ bs) e
      else (Some (int (length got)), got, e))"

section \<open>Sending what a packet holds\<close>

lemma packet_put_le:
  "packet_putUInt16 i v p = pokes (mBuffer p) i (le_bytes 2 v) \<bind> (\<lambda>buf. Some (p\<lparr>mBuffer := buf\<rparr>))"
  "packet_putUInt32 i w p = pokes (mBuffer p) i (le_bytes 4 w) \<bind> (\<lambda>buf. Some (p\<lparr>mBuffer := buf\<rparr>))"
  by (simp_all add: packet_putUInt16_def packet_putUInt32_def le_bytes_simps)

lemma fetch_at: "fetch (pre @ suf) (length pre) = fetch suf 0" "fetch (pre @ suf) (length pre + n) = fetch suf n"
  by (simp_all add: fetch_def nth_append)

lemma packet_get_le:
  "mBuffer p = pre @ le_bytes 2 v @ suf \<Longrightarrow> packet_getUInt16 p (length pre) = Some v"
  "mBuffer q = pre @ le_bytes 4 w @ suf \<Longrightarrow> packet_getUInt32 q (length pre) = Some w"
  using load_le_bytes [of 2 v] load_le_bytes [of 4 w]
  by (simp_all add: packet_getUInt16_def packet_getUInt32_def le_bytes_simps fetch_at load_le2 load_le4
      nth_append ac_simps del: load_le.simps)

text \<open>A header that is completed, and a packet that is sent with it.\<close>

lemma send_header:
  assumes "well_formed p" "12 \<le> mPacketSize p"
  obtains q where "send_header t p = Some q" "well_formed q" "mPacketSize q = mPacketSize p"
    "mAllocationIncrement q = mAllocationIncrement p" "mBufferSize q = mBufferSize p"
    "contents q = le_bytes 4 (of_nat (mPacketSize p) :: u32) @ le_bytes 2 t @ drop 6 (contents p)"
proof -
  let ?len = "le_bytes 4 (of_nat (mPacketSize p) :: u32)" and ?t = "le_bytes 2 t"
  have size: "12 \<le> length (mBuffer p)" using assms by (simp add: well_formed_def)
  have "pokes (mBuffer p) 0 ?len = Some (?len @ drop 4 (mBuffer p))"
    using pokes_inside [of 0 ?len "mBuffer p"] size by simp
  moreover have "pokes (?len @ drop 4 (mBuffer p)) 4 ?t = Some (?len @ ?t @ drop 6 (mBuffer p))"
    using pokes_inside [of 4 ?t "?len @ drop 4 (mBuffer p)"] size by simp
  ultimately have run: "send_header t p = Some (p\<lparr>mBuffer := ?len @ ?t @ drop 6 (mBuffer p)\<rparr>)"
    by (simp add: send_header_def packet_put_le MTP_CONTAINER_LENGTH_OFFSET_def MTP_CONTAINER_TYPE_OFFSET_def)
  show ?thesis
    by (rule that [OF run]) (use assms size in \<open>auto simp: well_formed_def contents_def take_drop\<close>)
qed

lemma peeks_contents: "well_formed p \<Longrightarrow> peeks (mBuffer p) 0 (mPacketSize p) = Some (contents p)"
  by (simp add: peeks_def well_formed_def contents_def)

text \<open>The bytes of a container in front of which its length and type are written.\<close>

definition sealed :: "u16 \<Rightarrow> byte list \<Rightarrow> byte list" where
  "sealed t bs = le_bytes 4 (of_nat (length bs) :: u32) @ le_bytes 2 t @ drop 6 bs"

lemma length_sealed: "12 \<le> length bs \<Longrightarrow> length (sealed t bs) = length bs"
  by (simp add: sealed_def)

lemma data_write_sends:
  assumes "well_formed p" "12 \<le> mPacketSize p"
  obtains q where "\<And>out e. data_write out p e =
      (let (ret, e) = out (sealed MTP_CONTAINER_TYPE_DATA (contents p)) e in Some (ok_result ret, q, e))"
    "well_formed q"
proof -
  obtain q where q: "send_header MTP_CONTAINER_TYPE_DATA p = Some q" "well_formed q"
    "mPacketSize q = mPacketSize p"
    "contents q = le_bytes 4 (of_nat (mPacketSize p) :: u32) @ le_bytes 2 MTP_CONTAINER_TYPE_DATA @ drop 6 (contents p)"
    by (rule send_header [OF assms, of MTP_CONTAINER_TYPE_DATA]) (rule that)
  have "contents q = sealed MTP_CONTAINER_TYPE_DATA (contents p)"
    using q(4) by (simp add: sealed_def length_contents [OF assms(1)])
  then have "peeks (mBuffer q) 0 (mPacketSize q) = Some (sealed MTP_CONTAINER_TYPE_DATA (contents p))"
    using peeks_contents [OF q(2)] by simp
  then have "\<And>out e. data_write out p e =
      (let (ret, e) = out (sealed MTP_CONTAINER_TYPE_DATA (contents p)) e in Some (ok_result ret, q, e))"
    by (simp add: data_write_def q(1))
  then show ?thesis using q(2) by (rule that)
qed

section \<open>Receiving it in pieces\<close>

text \<open>A bus that delivers given pieces one after the other, each in a transfer with room for it.\<close>

fun deliver :: "byte list list receiver" where
  "deliver n [] = (-1, [], [])"
| "deliver n (c # cs) = (if length c \<le> n then (int (length c), c, cs) else (-1, [], cs))"

lemma sealed_length_field:
  assumes "12 \<le> length bs" "mBuffer p = sealed t bs @ rest"
  shows "packet_getUInt32 p MTP_CONTAINER_LENGTH_OFFSET = Some (of_nat (length bs))"
  using assms packet_get_le(2) [of p "[]"] by (simp add: sealed_def MTP_CONTAINER_LENGTH_OFFSET_def)

lemma small_u32: "n < 2 ^ 32 \<Longrightarrow> unat (of_nat n :: u32) = n"
  by (simp add: unsigned_of_nat take_bit_nat_eq_self)

lemma read_more_delivers:
  assumes "mBuffer p = got @ old" "length (concat cs) \<le> length old"
    "length got + length (concat cs) < 2 ^ 31" "length cs < fuel" "[] \<notin> set cs"
  shows "\<exists>q. read_more fuel deliver (of_nat (length got + length (concat cs))) (int (length got)) p cs
      = Some (Some (int (length got + length (concat cs))), q, [])
    \<and> mBuffer q = got @ concat cs @ drop (length (concat cs)) old
    \<and> mBufferSize q = mBufferSize p \<and> mOffset q = mOffset p"
  using assms
proof (induction cs arbitrary: fuel p got old)
  case Nil
  then obtain f where "fuel = Suc f" by (cases fuel) auto
  then show ?case using Nil by simp
next
  case (Cons c cs)
  then obtain f where f: "fuel = Suc f" "length cs < f" by (cases fuel) auto
  define total_length :: u32 where "total_length = of_nat (length got + length (concat (c # cs)))"
  have "(of_nat (length got) :: u32) < total_length"
    using Cons.prems(3,5) small_u32 [of "length got"] small_u32 [of "length got + length (concat (c # cs))"]
    by (cases c) (simp_all add: word_less_nat_alt total_length_def del: of_nat_add)
  moreover have "total_length - of_nat (length got) = of_nat (length (concat (c # cs)))"
    by (simp add: total_length_def)
  then have "unat (total_length - of_nat (length got)) = length (concat (c # cs))"
    using Cons.prems(3) small_u32 [of "length (concat (c # cs))"] by simp
  moreover let ?p = "p\<lparr>mBuffer := (got @ c) @ drop (length c) old\<rparr>"
  have "pokes (mBuffer p) (length got) c = Some (mBuffer ?p)"
    using Cons.prems(1,2) pokes_inside [of "length got" c "mBuffer p"] by simp
  ultimately have step: "read_more fuel deliver total_length (int (length got)) p (c # cs)
      = read_more f deliver total_length (int (length (got @ c))) ?p cs"
    by (simp add: f(1))
  have "\<exists>q. read_more f deliver (of_nat (length (got @ c) + length (concat cs))) (int (length (got @ c))) ?p cs
      = Some (Some (int (length (got @ c) + length (concat cs))), q, [])
    \<and> mBuffer q = (got @ c) @ concat cs @ drop (length (concat cs)) (drop (length c) old)
    \<and> mBufferSize q = mBufferSize ?p \<and> mOffset q = mOffset ?p"
    using Cons.prems f(2) by (intro Cons.IH) auto
  moreover have "length (got @ c) + length (concat cs) = length got + length (concat (c # cs))" by simp
  ultimately show ?case
    using step by (simp add: total_length_def ac_simps)
qed

lemma usb_read_delivers:
  assumes "well_formed p" "12 \<le> mPacketSize p" "mPacketSize p + mAllocationIncrement h < 2 ^ 31"
    "well_formed h" "concat (c # cs) = sealed MTP_CONTAINER_TYPE_DATA (contents p)"
    "12 \<le> length c" "length c \<le> mBufferSize h" "[] \<notin> set cs" "length cs < fuel"
  shows "\<exists>q. usb_read fresh fuel deliver h (c # cs) = Some (Some (int (mPacketSize p)), q, [])
    \<and> mOffset q = mOffset h \<and> drop 12 (contents q) = drop 12 (contents p)
    \<and> mPacketSize q = mPacketSize p \<and> mPacketSize q \<le> length (mBuffer q)"
proof -
  let ?n = "mPacketSize p" and ?bytes = "sealed MTP_CONTAINER_TYPE_DATA (contents p)"
  have len: "length (contents p) = ?n" by (rule length_contents [OF assms(1)])
  have n: "length ?bytes = ?n" "length c + length (concat cs) = ?n"
    using length_sealed [of "contents p"] len assms(2) arg_cong [OF assms(5), of length] by simp_all
  let ?h1 = "h\<lparr>mBuffer := c @ drop (length c) (mBuffer h)\<rparr>"
  have p1: "pokes (mBuffer h) 0 c = Some (mBuffer ?h1)"
    using pokes_inside [of 0 c "mBuffer h"] assms(4,7) by (simp add: well_formed_def)
  have head: "packet_getUInt32 ?h1 MTP_CONTAINER_LENGTH_OFFSET = Some (of_nat ?n)"
  proof -
    have "take 4 (c @ concat cs) = le_bytes 4 (of_nat ?n :: u32)"
      using assms(5) by (simp add: sealed_def len)
    then have "take 4 c = le_bytes 4 (of_nat ?n :: u32)" using assms(6) by simp
    then have "mBuffer ?h1 = [] @ le_bytes 4 (of_nat ?n :: u32) @ drop 4 c @ drop (length c) (mBuffer h)"
      by (metis append_Nil append_assoc append_take_drop_id mtp_packet.select_convs(1) mtp_packet.surjective
          mtp_packet.update_convs(1))
    from packet_get_le(2) [OF this] show ?thesis by (simp add: MTP_CONTAINER_LENGTH_OFFSET_def)
  qed
  have unat_n: "unat (of_nat ?n :: u32) = ?n" using assms(3) by (intro small_u32) simp
  have wf1: "well_formed ?h1"
    using assms(4,7) by (auto simp: well_formed_def)
  obtain ext where ext: "allocate fresh ?n ?h1
      = Some (?h1\<lparr>mBuffer := mBuffer ?h1 @ ext, mBufferSize := length (mBuffer ?h1 @ ext)\<rparr>)"
    "?n \<le> length (mBuffer ?h1 @ ext)"
    by (rule allocate_extends [OF wf1, of ?n fresh]) (use assms(3) in simp)
  let ?old = "drop (length c) (mBuffer h) @ ext"
  let ?h2 = "?h1\<lparr>mBuffer := c @ ?old, mBufferSize := length (c @ ?old)\<rparr>"
  obtain q where q: "read_more fuel deliver (of_nat (length c + length (concat cs))) (int (length c)) ?h2 cs
      = Some (Some (int (length c + length (concat cs))), q, [])"
    "mBuffer q = c @ concat cs @ drop (length (concat cs)) ?old" "mOffset q = mOffset ?h2"
    using read_more_delivers [of ?h2 c ?old cs fuel] ext(2) n assms(3,8,9) by auto
  have "usb_read fresh fuel deliver h (c # cs) = Some (Some (int ?n), q\<lparr>mPacketSize := ?n\<rparr>, [])"
    using p1 head ext(1) q(1) assms(6,7) n(2) unat_n
    by (simp add: usb_read_def MTP_CONTAINER_HEADER_SIZE_def)
  moreover have "contents (q\<lparr>mPacketSize := ?n\<rparr>) = ?bytes"
    using q(2) n(2) assms(5) by (simp add: contents_def)
  moreover from this have "drop 12 (contents (q\<lparr>mPacketSize := ?n\<rparr>)) = drop 12 (contents p)"
    by (simp add: sealed_def)
  moreover have "?n \<le> length (mBuffer q)"
    using arg_cong [OF calculation(2), of length] n(1) by (simp add: contents_def)
  ultimately show ?thesis using q(3) by auto
qed



definition sample_packet :: mtp_data_packet where
  "sample_packet = \<lparr>mBuffer = replicate 20 7, mBufferSize = 20, mAllocationIncrement = 16384,
     mPacketSize = 20, mOffset = 20\<rparr>"



end
