(* ===== verification/MtpDatasets.thy ===== *)
theory MtpDatasets
  imports MtpStrings
begin

text \<open>
  The datasets a host reads: \<open>MtpDeviceInfo\<close>, \<open>MtpStorageInfo\<close> and \<open>MtpObjectInfo\<close>, media/mtp/Mtp*Info.cpp. A
  string that was never read is a null pointer, \<open>None\<close>. All strings of a dataset go through one string
  buffer. The conversion of times, MtpUtils.cpp over the time zone of the C library, is the parameter \<open>parse_time\<close>.
\<close>

record mtp_device_info =
  mStandardVersion :: u16
  mVendorExtensionID :: u32
  mVendorExtensionVersion :: u16
  mVendorExtensionDesc :: "byte list option"
  mFunctionalMode :: u16
  mOperations :: "u16 list option"
  mEvents :: "u16 list option"
  mDeviceProperties :: "u16 list option"
  mCaptureFormats :: "u16 list option"
  mPlaybackFormats :: "u16 list option"
  mManufacturer :: "byte list option"
  mModel :: "byte list option"
  mVersion :: "byte list option"
  mSerial :: "byte list option"

definition MtpDeviceInfo :: mtp_device_info where
  "MtpDeviceInfo = \<lparr>mStandardVersion = 0, mVendorExtensionID = 0, mVendorExtensionVersion = 0,
     mVendorExtensionDesc = None, mFunctionalMode = 0, mOperations = None, mEvents = None,
     mDeviceProperties = None, mCaptureFormats = None, mPlaybackFormats = None, mManufacturer = None,
     mModel = None, mVersion = None, mSerial = None\<rparr>"

text \<open>
  The steps of a reader act on the string buffer and the dataset. A string step copies the buffer with
  \<open>strdup\<close>; an array step returns false on a null pointer, but has assigned it.
\<close>

type_synonym 'r dataset_step =
  "(mtp_string_buffer \<times> 'r) \<times> mtp_data_packet \<Rightarrow> (bool \<times> (mtp_string_buffer \<times> 'r) \<times> mtp_data_packet) option"

definition number_field :: "'v getter \<Rightarrow> ('v \<Rightarrow> 'r \<Rightarrow> 'r) \<Rightarrow> 'r dataset_step" where
  "number_field get assign = get_field get (\<lambda>x (b, r). (b, assign x r))"

definition string_field :: "(byte list \<Rightarrow> 'r \<Rightarrow> 'r) \<Rightarrow> 'r dataset_step" where
  "string_field assign = (\<lambda>((b, r), p). do {
     (ok, b, p) \<leftarrow> getString b p;
     if ok then do { s \<leftarrow> strdup b; Some (True, (b, assign s r), p) }
     else Some (False, (b, r), p) })"

definition array_field :: "('v list option \<Rightarrow> 'r \<Rightarrow> 'r) \<Rightarrow> 'v list getter \<Rightarrow> 'r dataset_step" where
  "array_field assign get = (\<lambda>((b, r), p). do {
     (v, p) \<leftarrow> get p;
     Some (v \<noteq> None, (b, assign v r), p) })"

text \<open>The last array is assigned, and then the one before it is tested again.\<close>

definition playback_field :: "mtp_device_info dataset_step" where
  "playback_field = (\<lambda>((b, r), p). do {
     (v, p) \<leftarrow> getAUInt16 p;
     let r = r\<lparr>mPlaybackFormats := v\<rparr>;
     Some (mCaptureFormats r \<noteq> None, (b, r), p) })"

definition device_info_read :: "mtp_device_info dataset_step" where
  "device_info_read = run_steps [
     number_field getUInt16 (\<lambda>x. mStandardVersion_update (\<lambda>_. x)),
     number_field getUInt32 (\<lambda>x. mVendorExtensionID_update (\<lambda>_. x)),
     number_field getUInt16 (\<lambda>x. mVendorExtensionVersion_update (\<lambda>_. x)),
     string_field (\<lambda>s. mVendorExtensionDesc_update (\<lambda>_. Some s)),
     number_field getUInt16 (\<lambda>x. mFunctionalMode_update (\<lambda>_. x)),
     array_field (\<lambda>v. mOperations_update (\<lambda>_. v)) getAUInt16,
     array_field (\<lambda>v. mEvents_update (\<lambda>_. v)) getAUInt16,
     array_field (\<lambda>v. mDeviceProperties_update (\<lambda>_. v)) getAUInt16,
     array_field (\<lambda>v. mCaptureFormats_update (\<lambda>_. v)) getAUInt16,
     playback_field,
     string_field (\<lambda>s. mManufacturer_update (\<lambda>_. Some s)),
     string_field (\<lambda>s. mModel_update (\<lambda>_. Some s)),
     string_field (\<lambda>s. mVersion_update (\<lambda>_. Some s)),
     string_field (\<lambda>s. mSerial_update (\<lambda>_. Some s))]"

record mtp_storage_info =
  mStorageID :: u32
  mStorageType :: u16
  mFileSystemType :: u16
  mAccessCapability :: u16
  mMaxCapacity :: u64
  mFreeSpaceBytes :: u64
  mFreeSpaceObjects :: u32
  mStorageDescription :: "byte list option"
  mVolumeIdentifier :: "byte list option"

definition MtpStorageInfo :: "u32 \<Rightarrow> mtp_storage_info" where
  "MtpStorageInfo i = \<lparr>mStorageID = i, mStorageType = 0, mFileSystemType = 0, mAccessCapability = 0,
     mMaxCapacity = 0, mFreeSpaceBytes = 0, mFreeSpaceObjects = 0, mStorageDescription = None,
     mVolumeIdentifier = None\<rparr>"

definition storage_info_read :: "mtp_storage_info dataset_step" where
  "storage_info_read = run_steps [
     number_field getUInt16 (\<lambda>x. mStorageType_update (\<lambda>_. x)),
     number_field getUInt16 (\<lambda>x. mFileSystemType_update (\<lambda>_. x)),
     number_field getUInt16 (\<lambda>x. mAccessCapability_update (\<lambda>_. x)),
     number_field getUInt64 (\<lambda>x. mMaxCapacity_update (\<lambda>_. x)),
     number_field getUInt64 (\<lambda>x. mFreeSpaceBytes_update (\<lambda>_. x)),
     number_field getUInt32 (\<lambda>x. mFreeSpaceObjects_update (\<lambda>_. x)),
     string_field (\<lambda>s. mStorageDescription_update (\<lambda>_. Some s)),
     string_field (\<lambda>s. mVolumeIdentifier_update (\<lambda>_. Some s))]"

record mtp_object_info =
  oHandle :: u32
  oStorageID :: u32
  oFormat :: u16
  oProtectionStatus :: u16
  oCompressedSize :: u32
  oThumbFormat :: u16
  oThumbCompressedSize :: u32
  oThumbPixWidth :: u32
  oThumbPixHeight :: u32
  oImagePixWidth :: u32
  oImagePixHeight :: u32
  oImagePixDepth :: u32
  oParent :: u32
  oAssociationType :: u16
  oAssociationDesc :: u32
  oSequenceNumber :: u32
  oName :: "byte list option"
  oDateCreated :: int
  oDateModified :: int
  oKeywords :: "byte list option"

definition MtpObjectInfo :: "u32 \<Rightarrow> mtp_object_info" where
  "MtpObjectInfo h = \<lparr>oHandle = h, oStorageID = 0, oFormat = 0, oProtectionStatus = 0, oCompressedSize = 0,
     oThumbFormat = 0, oThumbCompressedSize = 0, oThumbPixWidth = 0, oThumbPixHeight = 0,
     oImagePixWidth = 0, oImagePixHeight = 0, oImagePixDepth = 0, oParent = 0, oAssociationType = 0,
     oAssociationDesc = 0, oSequenceNumber = 0, oName = None, oDateCreated = 0, oDateModified = 0,
     oKeywords = None\<rparr>"

definition date_field :: "(byte list \<Rightarrow> int option) \<Rightarrow> (int \<Rightarrow> 'r \<Rightarrow> 'r) \<Rightarrow> 'r dataset_step" where
  "date_field parse_time assign =
     string_field (\<lambda>s r. case parse_time s of None \<Rightarrow> r | Some t \<Rightarrow> assign t r)"

definition object_info_read :: "(byte list \<Rightarrow> int option) \<Rightarrow> mtp_object_info dataset_step" where
  "object_info_read parse_time = run_steps [
     number_field getUInt32 (\<lambda>x. oStorageID_update (\<lambda>_. x)),
     number_field getUInt16 (\<lambda>x. oFormat_update (\<lambda>_. x)),
     number_field getUInt16 (\<lambda>x. oProtectionStatus_update (\<lambda>_. x)),
     number_field getUInt32 (\<lambda>x. oCompressedSize_update (\<lambda>_. x)),
     number_field getUInt16 (\<lambda>x. oThumbFormat_update (\<lambda>_. x)),
     number_field getUInt32 (\<lambda>x. oThumbCompressedSize_update (\<lambda>_. x)),
     number_field getUInt32 (\<lambda>x. oThumbPixWidth_update (\<lambda>_. x)),
     number_field getUInt32 (\<lambda>x. oThumbPixHeight_update (\<lambda>_. x)),
     number_field getUInt32 (\<lambda>x. oImagePixWidth_update (\<lambda>_. x)),
     number_field getUInt32 (\<lambda>x. oImagePixHeight_update (\<lambda>_. x)),
     number_field getUInt32 (\<lambda>x. oImagePixDepth_update (\<lambda>_. x)),
     number_field getUInt32 (\<lambda>x. oParent_update (\<lambda>_. x)),
     number_field getUInt16 (\<lambda>x. oAssociationType_update (\<lambda>_. x)),
     number_field getUInt32 (\<lambda>x. oAssociationDesc_update (\<lambda>_. x)),
     number_field getUInt32 (\<lambda>x. oSequenceNumber_update (\<lambda>_. x)),
     string_field (\<lambda>s. oName_update (\<lambda>_. Some s)),
     date_field parse_time (\<lambda>t. oDateCreated_update (\<lambda>_. t)),
     date_field parse_time (\<lambda>t. oDateModified_update (\<lambda>_. t)),
     string_field (\<lambda>s. oKeywords_update (\<lambda>_. Some s))]"

section \<open>What the steps read\<close>

text \<open>The buffer always has its whole memory.\<close>

definition whole_buffer :: "mtp_string_buffer \<times> 'r \<Rightarrow> bool" where
  "whole_buffer s \<longleftrightarrow> length (mBytes (fst s)) = string_bytes"

lemma safe_number_field: "safe get \<Longrightarrow> safe_step whole_buffer (number_field get assign)"
  unfolding number_field_def by (rule safe_get_field) (auto simp: whole_buffer_def)

lemma safe_string_field: "safe_step whole_buffer (string_field assign)"
proof (rule safe_stepI)
  fix s :: "mtp_string_buffer \<times> 'a" and p
  assume s: "whole_buffer s" and p: "readable p"
  obtain b r where br: "s = (b, r)" by (cases s)
  have len: "length (mBytes b) = string_bytes" using s br by (simp add: whole_buffer_def)
  obtain ok b' q where "readFromPacket b p = Some (ok, b', q)" "moved p q" "length (mBytes b') = string_bytes"
    "ok \<Longrightarrow> 0 \<in> set (mBytes b')"
    by (rule readFromPacket_safe [OF p len]) (rule that)
  then show "\<exists>ok r' q. string_field assign (s, p) = Some (ok, r', q) \<and> moved p q \<and> whole_buffer r'"
    by (cases ok) (auto simp: string_field_def getString_def strdup_def whole_buffer_def br)
qed

lemma safe_array_field: "safe get \<Longrightarrow> safe_step whole_buffer (array_field assign get)"
proof (rule safe_stepI)
  fix s :: "mtp_string_buffer \<times> 'b" and p
  assume get: "safe get" and s: "whole_buffer s" and p: "readable p"
  obtain v q where "get p = Some (v, q)" "moved p q"
    by (rule safeE [OF get p])
  then show "\<exists>ok r' q. array_field assign get (s, p) = Some (ok, r', q) \<and> moved p q \<and> whole_buffer r'"
    using s by (cases s) (auto simp: array_field_def whole_buffer_def)
qed

lemma safe_playback_field: "safe_step whole_buffer playback_field"
proof (rule safe_stepI)
  fix s :: "mtp_string_buffer \<times> mtp_device_info" and p
  assume s: "whole_buffer s" and p: "readable p"
  obtain v q where "getAUInt16 p = Some (v, q)" "moved p q"
    by (rule safeE [OF au16.get_safe p])
  then show "\<exists>ok r' q. playback_field (s, p) = Some (ok, r', q) \<and> moved p q \<and> whole_buffer r'"
    using s by (cases s) (auto simp: playback_field_def whole_buffer_def Let_def)
qed

lemmas safe_fields = safe_number_field [OF u16.get_safe] safe_number_field [OF u32.get_safe]
  safe_number_field [OF u64.get_safe] safe_string_field safe_array_field [OF au16.get_safe] safe_playback_field

lemma safe_device_info: "safe_step whole_buffer device_info_read"
  unfolding device_info_read_def
  by (intro safe_steps) (simp only: list.pred_inject safe_fields simp_thms)

lemma safe_storage_info: "safe_step whole_buffer storage_info_read"
  unfolding storage_info_read_def
  by (intro safe_steps) (simp only: list.pred_inject safe_fields simp_thms)

lemma safe_object_info: "safe_step whole_buffer (object_info_read parse_time)"
  unfolding object_info_read_def date_field_def
  by (intro safe_steps) (simp only: list.pred_inject safe_fields simp_thms)

section \<open>What a dataset reads\<close>

text \<open>
  A step of a dataset reader reads a string of bytes: whatever the shared buffer holds, it turns the dataset
  \<open>r\<close> into \<open>r'\<close> and leaves a whole buffer.
\<close>

definition gives :: "'r dataset_step \<Rightarrow> byte list \<Rightarrow> 'r \<Rightarrow> 'r \<Rightarrow> bool" where
  "gives f bs r r' \<longleftrightarrow> (\<forall>p rest (b :: mtp_string_buffer). readable p \<and> unread p = bs @ rest \<and> length (mBytes b) = string_bytes \<longrightarrow>
     (\<exists>b'. f ((b, r), p) = Some (True, (b', r'), advance (length bs) p) \<and> length (mBytes b') = string_bytes))"

lemma givesI:
  "(\<And>p rest (b :: mtp_string_buffer). readable p \<Longrightarrow> unread p = bs @ rest \<Longrightarrow> length (mBytes b) = string_bytes \<Longrightarrow>
     \<exists>b'. f ((b, r), p) = Some (True, (b', r'), advance (length bs) p) \<and> length (mBytes b') = string_bytes)
     \<Longrightarrow> gives f bs r r'"
  by (simp add: gives_def)

lemma givesE:
  assumes "gives f bs r r'" "readable p" "unread p = bs @ rest" "length (mBytes b) = string_bytes"
  obtains b' where "f ((b, r), p) = Some (True, (b', r'), advance (length bs) p)" "length (mBytes b') = string_bytes"
  using assms unfolding gives_def by metis

lemma gives_number: "reads get bs v \<Longrightarrow> gives (number_field get assign) bs r (assign v r)"
  by (rule givesI) (simp add: number_field_def get_field_def reads_def)

lemma gives_array: "reads get bs v \<Longrightarrow> gives (array_field assign get) bs r (assign (Some v) r)"
  by (rule givesI) (simp add: array_field_def reads_def)

lemma gives_string: "proper_string cs \<Longrightarrow> gives (string_field assign) (wire cs) r (assign (utf8 cs) r)"
proof (rule givesI)
  fix p rest and b :: mtp_string_buffer
  assume cs: "proper_string cs" and p: "readable p" "unread p = wire cs @ rest" "length (mBytes b) = string_bytes"
  obtain b' where "readFromPacket b p = Some (True, b', advance (length (wire cs)) p)"
    "strdup b' = Some (utf8 cs)" "length (mBytes b') = string_bytes"
    by (rule readFromPacket_reads [OF p(1,2) cs p(3)]) (rule that)
  then show "\<exists>b'. string_field assign ((b, r), p) = Some (True, (b', assign (utf8 cs) r), advance (length (wire cs)) p)
      \<and> length (mBytes b') = string_bytes"
    by (simp add: string_field_def getString_def)
qed

lemma gives_playback: "reads getAUInt16 bs v \<Longrightarrow> mCaptureFormats r \<noteq> None \<Longrightarrow>
    gives playback_field bs r (r\<lparr>mPlaybackFormats := Some v\<rparr>)"
  by (rule givesI) (simp add: playback_field_def reads_def Let_def)

lemma gives_none: "gives (run_steps []) [] r r"
  by (rule givesI) simp

lemma gives_seq:
  assumes "gives f xs r r'" "gives (run_steps fs) ys r' r''"
  shows "gives (run_steps (f # fs)) (xs @ ys) r r''"
proof (rule givesI)
  fix p rest and b :: mtp_string_buffer
  assume p: "readable p" "unread p = (xs @ ys) @ rest" "length (mBytes b) = string_bytes"
  then have u: "unread p = xs @ (ys @ rest)" by simp
  obtain b1 where b1: "f ((b, r), p) = Some (True, (b1, r'), advance (length xs) p)" "length (mBytes b1) = string_bytes"
    by (rule givesE [OF assms(1) p(1) u p(3)])
  have q: "readable (advance (length xs) p)" "unread (advance (length xs) p) = ys @ rest"
    using read_on [OF p(1) u] by auto
  obtain b2 where "run_steps fs ((b1, r'), advance (length xs) p)
      = Some (True, (b2, r''), advance (length ys) (advance (length xs) p))" "length (mBytes b2) = string_bytes"
    by (rule givesE [OF assms(2) q b1(2)])
  then show "\<exists>b'. run_steps (f # fs) ((b, r), p) = Some (True, (b', r''), advance (length (xs @ ys)) p)
      \<and> length (mBytes b') = string_bytes"
    using b1(1) by simp
qed

lemma gives_to: "gives f bs r r' \<Longrightarrow> r' = r'' \<Longrightarrow> gives f bs r r''"
  by simp

lemmas reads_numbers = u16.get_reads [OF TrueI] u32.get_reads [OF TrueI] u64.get_reads [OF TrueI]

definition array16 :: "u16 list \<Rightarrow> byte list" where
  "array16 vs = le_bytes 4 (of_nat (length vs) :: u32) @ concat (map (le_bytes 2) vs)"

lemma reads_array16: "length vs < 2 ^ 32 \<Longrightarrow> reads getAUInt16 (array16 vs) vs"
  unfolding array16_def by (rule au16.get_reads) (simp add: list_all_iff)

text \<open>The bytes of the dataset of a device.\<close>

definition device_info_bytes :: "u32 \<Rightarrow> u16 list \<Rightarrow> u16 list \<Rightarrow> u16 list \<Rightarrow> u16 list \<Rightarrow> u16 list \<Rightarrow> u16 list
    \<Rightarrow> u16 list \<Rightarrow> u16 list \<Rightarrow> u16 list \<Rightarrow> u16 list \<Rightarrow> byte list list" where
  "device_info_bytes vendor desc ops evs props capture playback manufacturer model version serial =
     [le_bytes 2 (100 :: u16), le_bytes 4 vendor, le_bytes 2 (100 :: u16), wire desc, le_bytes 2 (0 :: u16),
      array16 ops, array16 evs, array16 props, array16 capture, array16 playback,
      wire manufacturer, wire model, wire version, wire serial]"

lemma device_info_gives:
  assumes "list_all proper_string [desc, manufacturer, model, version, serial]"
    "list_all (\<lambda>vs. length vs < 2 ^ 32) [ops, evs, props, capture, playback]"
  shows "gives device_info_read
    (concat (device_info_bytes vendor desc ops evs props capture playback manufacturer model version serial)) r
    \<lparr>mStandardVersion = 100, mVendorExtensionID = vendor, mVendorExtensionVersion = 100,
     mVendorExtensionDesc = Some (utf8 desc), mFunctionalMode = 0, mOperations = Some ops, mEvents = Some evs,
     mDeviceProperties = Some props, mCaptureFormats = Some capture, mPlaybackFormats = Some playback,
     mManufacturer = Some (utf8 manufacturer), mModel = Some (utf8 model), mVersion = Some (utf8 version),
     mSerial = Some (utf8 serial)\<rparr>"
proof -
  have s: "proper_string desc" "proper_string manufacturer" "proper_string model" "proper_string version"
    "proper_string serial" using assms(1) by simp_all
  have a: "length ops < 2 ^ 32" "length evs < 2 ^ 32" "length props < 2 ^ 32" "length capture < 2 ^ 32"
    "length playback < 2 ^ 32" using assms(2) by simp_all
  note step = gives_seq [OF gives_number [OF reads_numbers(1)]] gives_seq [OF gives_number [OF reads_numbers(2)]]
    s [THEN gives_string, THEN gives_seq] a [THEN reads_array16, THEN gives_array, THEN gives_seq]
    gives_seq [OF gives_playback [OF reads_array16 [OF a(5)]]]
  have "gives device_info_read
      (le_bytes 2 (100 :: u16) @ le_bytes 4 vendor @ le_bytes 2 (100 :: u16) @ wire desc @ le_bytes 2 (0 :: u16)
       @ array16 ops @ array16 evs @ array16 props @ array16 capture @ array16 playback
       @ wire manufacturer @ wire model @ wire version @ wire serial @ []) r
      \<lparr>mStandardVersion = 100, mVendorExtensionID = vendor, mVendorExtensionVersion = 100,
       mVendorExtensionDesc = Some (utf8 desc), mFunctionalMode = 0, mOperations = Some ops, mEvents = Some evs,
       mDeviceProperties = Some props, mCaptureFormats = Some capture, mPlaybackFormats = Some playback,
       mManufacturer = Some (utf8 manufacturer), mModel = Some (utf8 model), mVersion = Some (utf8 version),
       mSerial = Some (utf8 serial)\<rparr>"
    unfolding device_info_read_def
    by (rule gives_to, (rule step)+, simp, (rule step gives_none)+) (cases r, simp)
  then show ?thesis by (simp add: device_info_bytes_def)
qed

text \<open>
  Reading the dataset of a device, a storage or an object never leaves the packet and never faults, whatever
  bytes the device has sent.
\<close>

theorem datasets_read_safe:
  assumes "readable p" "length (mBytes b) = string_bytes"
  shows "(\<exists>ok r q. device_info_read ((b, di), p) = Some (ok, r, q) \<and> moved p q)
    \<and> (\<exists>ok r q. storage_info_read ((b, si), p) = Some (ok, r, q) \<and> moved p q)
    \<and> (\<exists>ok r q. object_info_read parse_time ((b, oi), p) = Some (ok, r, q) \<and> moved p q)"
proof -
  have b: "whole_buffer (b, r)" for r by (simp add: whole_buffer_def assms(2))
  show ?thesis
    using safe_stepE [OF safe_device_info b assms(1)] safe_stepE [OF safe_storage_info b assms(1)]
      safe_stepE [OF safe_object_info b assms(1)] by metis
qed

theorem datasets_read_safe_witness:
  "(\<exists>ok r q. device_info_read ((MtpStringBuffer (\<lambda>_. 7), MtpDeviceInfo), blank_packet) = Some (ok, r, q)
      \<and> moved blank_packet q)
    \<and> (\<exists>ok r q. storage_info_read ((MtpStringBuffer (\<lambda>_. 7), MtpStorageInfo 1), blank_packet) = Some (ok, r, q)
      \<and> moved blank_packet q)
    \<and> (\<exists>ok r q. object_info_read (\<lambda>_. None) ((MtpStringBuffer (\<lambda>_. 7), MtpObjectInfo 1), blank_packet)
        = Some (ok, r, q) \<and> moved blank_packet q)"
  by (rule datasets_read_safe) (simp_all add: readable_def blank_packet_def)

end
