(* ===== verification/MtpServer.thy ===== *)
theory MtpServer
  imports MtpProperties MtpTransport MtpDatasets
begin

text \<open>
  The server of the Media Transfer Protocol on a device, media/mtp/MtpServer.cpp with MtpStorage.cpp: its state,
  one definition per operation, the dispatch of a request, events, and the loop that reads requests and sends
  data and responses.

  The database (MtpDatabase.h, implemented outside the repository), the file system and the driver are
  the fields of the record \<open>outside\<close>, functions on a state \<open>'e\<close> that they may read and change. So are the conversions
  of times (MtpUtils.cpp, over the time zone of the C library) and what fresh memory holds. A handler returns its response code with both states,
  or \<open>None\<close> where the code faults.
\<close>

section \<open>Codes\<close>

definition MTP_OPERATION_GET_DEVICE_INFO :: u16 where "MTP_OPERATION_GET_DEVICE_INFO = 0x1001"
definition MTP_OPERATION_OPEN_SESSION :: u16 where "MTP_OPERATION_OPEN_SESSION = 0x1002"
definition MTP_OPERATION_CLOSE_SESSION :: u16 where "MTP_OPERATION_CLOSE_SESSION = 0x1003"
definition MTP_OPERATION_GET_STORAGE_IDS :: u16 where "MTP_OPERATION_GET_STORAGE_IDS = 0x1004"
definition MTP_OPERATION_GET_STORAGE_INFO :: u16 where "MTP_OPERATION_GET_STORAGE_INFO = 0x1005"
definition MTP_OPERATION_GET_NUM_OBJECTS :: u16 where "MTP_OPERATION_GET_NUM_OBJECTS = 0x1006"
definition MTP_OPERATION_GET_OBJECT_HANDLES :: u16 where "MTP_OPERATION_GET_OBJECT_HANDLES = 0x1007"
definition MTP_OPERATION_GET_OBJECT_INFO :: u16 where "MTP_OPERATION_GET_OBJECT_INFO = 0x1008"
definition MTP_OPERATION_GET_OBJECT :: u16 where "MTP_OPERATION_GET_OBJECT = 0x1009"
definition MTP_OPERATION_GET_THUMB :: u16 where "MTP_OPERATION_GET_THUMB = 0x100A"
definition MTP_OPERATION_DELETE_OBJECT :: u16 where "MTP_OPERATION_DELETE_OBJECT = 0x100B"
definition MTP_OPERATION_SEND_OBJECT_INFO :: u16 where "MTP_OPERATION_SEND_OBJECT_INFO = 0x100C"
definition MTP_OPERATION_SEND_OBJECT :: u16 where "MTP_OPERATION_SEND_OBJECT = 0x100D"
definition MTP_OPERATION_GET_DEVICE_PROP_DESC :: u16 where "MTP_OPERATION_GET_DEVICE_PROP_DESC = 0x1014"
definition MTP_OPERATION_GET_DEVICE_PROP_VALUE :: u16 where "MTP_OPERATION_GET_DEVICE_PROP_VALUE = 0x1015"
definition MTP_OPERATION_SET_DEVICE_PROP_VALUE :: u16 where "MTP_OPERATION_SET_DEVICE_PROP_VALUE = 0x1016"
definition MTP_OPERATION_RESET_DEVICE_PROP_VALUE :: u16 where "MTP_OPERATION_RESET_DEVICE_PROP_VALUE = 0x1017"
definition MTP_OPERATION_GET_PARTIAL_OBJECT :: u16 where "MTP_OPERATION_GET_PARTIAL_OBJECT = 0x101B"
definition MTP_OPERATION_GET_OBJECT_PROPS_SUPPORTED :: u16 where "MTP_OPERATION_GET_OBJECT_PROPS_SUPPORTED = 0x9801"
definition MTP_OPERATION_GET_OBJECT_PROP_DESC :: u16 where "MTP_OPERATION_GET_OBJECT_PROP_DESC = 0x9802"
definition MTP_OPERATION_GET_OBJECT_PROP_VALUE :: u16 where "MTP_OPERATION_GET_OBJECT_PROP_VALUE = 0x9803"
definition MTP_OPERATION_SET_OBJECT_PROP_VALUE :: u16 where "MTP_OPERATION_SET_OBJECT_PROP_VALUE = 0x9804"
definition MTP_OPERATION_GET_OBJECT_PROP_LIST :: u16 where "MTP_OPERATION_GET_OBJECT_PROP_LIST = 0x9805"
definition MTP_OPERATION_GET_OBJECT_REFERENCES :: u16 where "MTP_OPERATION_GET_OBJECT_REFERENCES = 0x9810"
definition MTP_OPERATION_SET_OBJECT_REFERENCES :: u16 where "MTP_OPERATION_SET_OBJECT_REFERENCES = 0x9811"
definition MTP_OPERATION_GET_PARTIAL_OBJECT_64 :: u16 where "MTP_OPERATION_GET_PARTIAL_OBJECT_64 = 0x95C1"
definition MTP_OPERATION_SEND_PARTIAL_OBJECT :: u16 where "MTP_OPERATION_SEND_PARTIAL_OBJECT = 0x95C2"
definition MTP_OPERATION_TRUNCATE_OBJECT :: u16 where "MTP_OPERATION_TRUNCATE_OBJECT = 0x95C3"
definition MTP_OPERATION_BEGIN_EDIT_OBJECT :: u16 where "MTP_OPERATION_BEGIN_EDIT_OBJECT = 0x95C4"
definition MTP_OPERATION_END_EDIT_OBJECT :: u16 where "MTP_OPERATION_END_EDIT_OBJECT = 0x95C5"
definition MTP_RESPONSE_OK :: u16 where "MTP_RESPONSE_OK = 0x2001"
definition MTP_RESPONSE_GENERAL_ERROR :: u16 where "MTP_RESPONSE_GENERAL_ERROR = 0x2002"
definition MTP_RESPONSE_SESSION_NOT_OPEN :: u16 where "MTP_RESPONSE_SESSION_NOT_OPEN = 0x2003"
definition MTP_RESPONSE_OPERATION_NOT_SUPPORTED :: u16 where "MTP_RESPONSE_OPERATION_NOT_SUPPORTED = 0x2005"
definition MTP_RESPONSE_INVALID_STORAGE_ID :: u16 where "MTP_RESPONSE_INVALID_STORAGE_ID = 0x2008"
definition MTP_RESPONSE_INVALID_OBJECT_HANDLE :: u16 where "MTP_RESPONSE_INVALID_OBJECT_HANDLE = 0x2009"
definition MTP_RESPONSE_DEVICE_PROP_NOT_SUPPORTED :: u16 where "MTP_RESPONSE_DEVICE_PROP_NOT_SUPPORTED = 0x200A"
definition MTP_RESPONSE_STORAGE_FULL :: u16 where "MTP_RESPONSE_STORAGE_FULL = 0x200C"
definition MTP_RESPONSE_NO_VALID_OBJECT_INFO :: u16 where "MTP_RESPONSE_NO_VALID_OBJECT_INFO = 0x2015"
definition MTP_RESPONSE_INVALID_PARENT_OBJECT :: u16 where "MTP_RESPONSE_INVALID_PARENT_OBJECT = 0x201A"
definition MTP_RESPONSE_INVALID_PARAMETER :: u16 where "MTP_RESPONSE_INVALID_PARAMETER = 0x201D"
definition MTP_RESPONSE_SESSION_ALREADY_OPEN :: u16 where "MTP_RESPONSE_SESSION_ALREADY_OPEN = 0x201E"
definition MTP_RESPONSE_TRANSACTION_CANCELLED :: u16 where "MTP_RESPONSE_TRANSACTION_CANCELLED = 0x201F"
definition MTP_RESPONSE_OBJECT_TOO_LARGE :: u16 where "MTP_RESPONSE_OBJECT_TOO_LARGE = 0xA809"
definition MTP_RESPONSE_OBJECT_PROP_NOT_SUPPORTED :: u16 where "MTP_RESPONSE_OBJECT_PROP_NOT_SUPPORTED = 0xA80A"
definition MTP_EVENT_OBJECT_ADDED :: u16 where "MTP_EVENT_OBJECT_ADDED = 0x4002"
definition MTP_EVENT_OBJECT_REMOVED :: u16 where "MTP_EVENT_OBJECT_REMOVED = 0x4003"
definition MTP_EVENT_STORE_ADDED :: u16 where "MTP_EVENT_STORE_ADDED = 0x4004"
definition MTP_EVENT_STORE_REMOVED :: u16 where "MTP_EVENT_STORE_REMOVED = 0x4005"
definition MTP_EVENT_DEVICE_PROP_CHANGED :: u16 where "MTP_EVENT_DEVICE_PROP_CHANGED = 0x4006"

lemmas mtp_codes [mtp_consts] = MTP_OPERATION_GET_DEVICE_INFO_def MTP_OPERATION_OPEN_SESSION_def MTP_OPERATION_CLOSE_SESSION_def
  MTP_OPERATION_GET_STORAGE_IDS_def MTP_OPERATION_GET_STORAGE_INFO_def MTP_OPERATION_GET_NUM_OBJECTS_def
  MTP_OPERATION_GET_OBJECT_HANDLES_def MTP_OPERATION_GET_OBJECT_INFO_def MTP_OPERATION_GET_OBJECT_def
  MTP_OPERATION_GET_THUMB_def MTP_OPERATION_DELETE_OBJECT_def MTP_OPERATION_SEND_OBJECT_INFO_def
  MTP_OPERATION_SEND_OBJECT_def MTP_OPERATION_GET_DEVICE_PROP_DESC_def
  MTP_OPERATION_GET_DEVICE_PROP_VALUE_def MTP_OPERATION_SET_DEVICE_PROP_VALUE_def
  MTP_OPERATION_RESET_DEVICE_PROP_VALUE_def MTP_OPERATION_GET_PARTIAL_OBJECT_def
  MTP_OPERATION_GET_OBJECT_PROPS_SUPPORTED_def MTP_OPERATION_GET_OBJECT_PROP_DESC_def
  MTP_OPERATION_GET_OBJECT_PROP_VALUE_def MTP_OPERATION_SET_OBJECT_PROP_VALUE_def
  MTP_OPERATION_GET_OBJECT_PROP_LIST_def MTP_OPERATION_GET_OBJECT_REFERENCES_def
  MTP_OPERATION_SET_OBJECT_REFERENCES_def MTP_OPERATION_GET_PARTIAL_OBJECT_64_def
  MTP_OPERATION_SEND_PARTIAL_OBJECT_def MTP_OPERATION_TRUNCATE_OBJECT_def
  MTP_OPERATION_BEGIN_EDIT_OBJECT_def MTP_OPERATION_END_EDIT_OBJECT_def MTP_RESPONSE_OK_def
  MTP_RESPONSE_GENERAL_ERROR_def MTP_RESPONSE_SESSION_NOT_OPEN_def MTP_RESPONSE_OPERATION_NOT_SUPPORTED_def
  MTP_RESPONSE_INVALID_STORAGE_ID_def MTP_RESPONSE_INVALID_OBJECT_HANDLE_def
  MTP_RESPONSE_DEVICE_PROP_NOT_SUPPORTED_def MTP_RESPONSE_STORAGE_FULL_def
  MTP_RESPONSE_NO_VALID_OBJECT_INFO_def MTP_RESPONSE_INVALID_PARENT_OBJECT_def
  MTP_RESPONSE_INVALID_PARAMETER_def MTP_RESPONSE_SESSION_ALREADY_OPEN_def
  MTP_RESPONSE_TRANSACTION_CANCELLED_def MTP_RESPONSE_OBJECT_TOO_LARGE_def
  MTP_RESPONSE_OBJECT_PROP_NOT_SUPPORTED_def MTP_EVENT_OBJECT_ADDED_def MTP_EVENT_OBJECT_REMOVED_def
  MTP_EVENT_STORE_ADDED_def MTP_EVENT_STORE_REMOVED_def MTP_EVENT_DEVICE_PROP_CHANGED_def

definition MTP_STANDARD_VERSION :: u16 where "MTP_STANDARD_VERSION = 100"
definition MTP_FORMAT_ASSOCIATION :: u16 where "MTP_FORMAT_ASSOCIATION = 0x3001"
definition MTP_PARENT_ROOT :: u32 where "MTP_PARENT_ROOT = 0xFFFFFFFF"
definition kInvalidObjectHandle :: u32 where "kInvalidObjectHandle = 0xFFFFFFFF"

definition kSupportedOperationCodes :: "u16 list" where
  "kSupportedOperationCodes = [MTP_OPERATION_GET_DEVICE_INFO, MTP_OPERATION_OPEN_SESSION,
     MTP_OPERATION_CLOSE_SESSION, MTP_OPERATION_GET_STORAGE_IDS, MTP_OPERATION_GET_STORAGE_INFO,
     MTP_OPERATION_GET_NUM_OBJECTS, MTP_OPERATION_GET_OBJECT_HANDLES, MTP_OPERATION_GET_OBJECT_INFO,
     MTP_OPERATION_GET_OBJECT, MTP_OPERATION_GET_THUMB, MTP_OPERATION_DELETE_OBJECT,
     MTP_OPERATION_SEND_OBJECT_INFO, MTP_OPERATION_SEND_OBJECT, MTP_OPERATION_GET_DEVICE_PROP_DESC,
     MTP_OPERATION_GET_DEVICE_PROP_VALUE, MTP_OPERATION_SET_DEVICE_PROP_VALUE,
     MTP_OPERATION_RESET_DEVICE_PROP_VALUE, MTP_OPERATION_GET_PARTIAL_OBJECT,
     MTP_OPERATION_GET_OBJECT_PROPS_SUPPORTED, MTP_OPERATION_GET_OBJECT_PROP_DESC,
     MTP_OPERATION_GET_OBJECT_PROP_VALUE, MTP_OPERATION_SET_OBJECT_PROP_VALUE,
     MTP_OPERATION_GET_OBJECT_PROP_LIST, MTP_OPERATION_GET_OBJECT_REFERENCES,
     MTP_OPERATION_SET_OBJECT_REFERENCES, MTP_OPERATION_GET_PARTIAL_OBJECT_64,
     MTP_OPERATION_SEND_PARTIAL_OBJECT, MTP_OPERATION_TRUNCATE_OBJECT, MTP_OPERATION_BEGIN_EDIT_OBJECT,
     MTP_OPERATION_END_EDIT_OBJECT]"

definition kSupportedEventCodes :: "u16 list" where
  "kSupportedEventCodes = [MTP_EVENT_OBJECT_ADDED, MTP_EVENT_OBJECT_REMOVED, MTP_EVENT_STORE_ADDED,
     MTP_EVENT_STORE_REMOVED, MTP_EVENT_DEVICE_PROP_CHANGED]"

section \<open>State\<close>

record mtp_storage =
  storageID :: u32
  filePath :: "byte list"
  description_of :: "byte list"
  maxCapacity :: u64
  maxFileSize :: u64
  reserveSpace :: u64
  removable :: bool

record object_edit =
  eHandle :: u32
  ePath :: "byte list"
  eSize :: u64
  eFormat :: u16
  eFD :: int

record mtp_server =
  mPtp :: bool
  mSessionID :: u32
  mSessionOpen :: bool
  mRequest :: mtp_request_packet
  mData :: mtp_data_packet
  mResponse :: mtp_packet
  mEvent :: mtp_packet
  mStorages :: "mtp_storage list"
  mSendObjectHandle :: u32
  mSendObjectFormat :: u16
  mSendObjectFilePath :: "byte list"
  mSendObjectFileSize :: nat
  mObjectEditList :: "object_edit list"

text \<open>\<open>file_path\<close> is what \<open>getObjectFilePath\<close> returns through its references.\<close>

record file_path =
  fPath :: "byte list"
  fLength :: u64
  fFormat :: u16

record 'e outside =
  fresh :: "nat \<Rightarrow> byte"
  junk :: "nat \<Rightarrow> byte"
  parse_time :: "byte list \<Rightarrow> int option"
  format_time :: "int \<Rightarrow> byte list"
  product_strings :: "'e \<Rightarrow> byte list \<times> byte list \<times> byte list"
  beginSendObject :: "byte list \<Rightarrow> u16 \<Rightarrow> u32 \<Rightarrow> u32 \<Rightarrow> nat \<Rightarrow> int \<Rightarrow> 'e \<Rightarrow> u32 \<times> 'e"
  endSendObject :: "byte list \<Rightarrow> u32 \<Rightarrow> u16 \<Rightarrow> bool \<Rightarrow> 'e \<Rightarrow> 'e"
  getObjectList :: "u32 \<Rightarrow> u16 \<Rightarrow> u32 \<Rightarrow> 'e \<Rightarrow> u32 list option \<times> 'e"
  getNumObjects :: "u32 \<Rightarrow> u16 \<Rightarrow> u32 \<Rightarrow> 'e \<Rightarrow> u32 \<times> 'e"
  getSupportedPlaybackFormats :: "'e \<Rightarrow> u16 list option \<times> 'e"
  getSupportedCaptureFormats :: "'e \<Rightarrow> u16 list option \<times> 'e"
  getSupportedObjectProperties :: "u16 \<Rightarrow> 'e \<Rightarrow> u16 list option \<times> 'e"
  getSupportedDeviceProperties :: "'e \<Rightarrow> u16 list option \<times> 'e"
  getObjectPropertyValue :: "u32 \<Rightarrow> u16 \<Rightarrow> mtp_data_packet \<Rightarrow> 'e \<Rightarrow> u16 \<times> mtp_data_packet \<times> 'e"
  setObjectPropertyValue :: "u32 \<Rightarrow> u16 \<Rightarrow> mtp_data_packet \<Rightarrow> 'e \<Rightarrow> u16 \<times> mtp_data_packet \<times> 'e"
  getDevicePropertyValue :: "u16 \<Rightarrow> mtp_data_packet \<Rightarrow> 'e \<Rightarrow> u16 \<times> mtp_data_packet \<times> 'e"
  setDevicePropertyValue :: "u16 \<Rightarrow> mtp_data_packet \<Rightarrow> 'e \<Rightarrow> u16 \<times> mtp_data_packet \<times> 'e"
  resetDeviceProperty :: "u16 \<Rightarrow> 'e \<Rightarrow> u16 \<times> 'e"
  getObjectPropertyList :: "u32 \<Rightarrow> u32 \<Rightarrow> u32 \<Rightarrow> u32 \<Rightarrow> u32 \<Rightarrow> mtp_data_packet \<Rightarrow> 'e \<Rightarrow> u16 \<times> mtp_data_packet \<times> 'e"
  getObjectInfo :: "u32 \<Rightarrow> mtp_object_info \<Rightarrow> 'e \<Rightarrow> u16 \<times> mtp_object_info \<times> 'e"
  getThumbnail :: "u32 \<Rightarrow> 'e \<Rightarrow> byte list option \<times> 'e"
  getObjectFilePath :: "u32 \<Rightarrow> 'e \<Rightarrow> u16 \<times> file_path \<times> 'e"
  deleteFile :: "u32 \<Rightarrow> 'e \<Rightarrow> u16 \<times> 'e"
  getObjectReferences :: "u32 \<Rightarrow> 'e \<Rightarrow> u32 list option \<times> 'e"
  setObjectReferences :: "u32 \<Rightarrow> u32 list \<Rightarrow> 'e \<Rightarrow> u16 \<times> 'e"
  getObjectPropertyDesc :: "u16 \<Rightarrow> u16 \<Rightarrow> 'e \<Rightarrow> mtp_property option \<times> 'e"
  getDevicePropertyDesc :: "u16 \<Rightarrow> 'e \<Rightarrow> mtp_property option \<times> 'e"
  sessionStarted :: "'e \<Rightarrow> 'e"
  sessionEnded :: "'e \<Rightarrow> 'e"
  statfs :: "byte list \<Rightarrow> 'e \<Rightarrow> (u64 \<times> u64 \<times> u64) option"
  open_read :: "byte list \<Rightarrow> 'e \<Rightarrow> int \<times> 'e"
  open_create :: "byte list \<Rightarrow> 'e \<Rightarrow> int \<times> 'e"
  open_edit :: "byte list \<Rightarrow> 'e \<Rightarrow> int \<times> 'e"
  set_permissions :: "int \<Rightarrow> 'e \<Rightarrow> 'e"
  close_file :: "int \<Rightarrow> 'e \<Rightarrow> 'e"
  write_file :: "int \<Rightarrow> byte list \<Rightarrow> 'e \<Rightarrow> int \<times> 'e"
  pwrite_file :: "int \<Rightarrow> byte list \<Rightarrow> u64 \<Rightarrow> 'e \<Rightarrow> int \<times> 'e"
  ftruncate :: "int \<Rightarrow> u64 \<Rightarrow> 'e \<Rightarrow> int \<times> 'e"
  make_dir :: "byte list \<Rightarrow> 'e \<Rightarrow> int \<times> 'e"
  chown_dir :: "byte list \<Rightarrow> 'e \<Rightarrow> 'e"
  unlink_file :: "byte list \<Rightarrow> 'e \<Rightarrow> 'e"
  remove_dir :: "byte list \<Rightarrow> 'e \<Rightarrow> 'e"
  stat_is_dir :: "byte list \<Rightarrow> 'e \<Rightarrow> bool option"
  read_dir :: "byte list \<Rightarrow> 'e \<Rightarrow> (byte list \<times> bool) list option"
  errno_cancelled :: "'e \<Rightarrow> bool"
  fd_read :: "'e receiver"
  fd_write :: "'e sender"
  send_event :: "'e sender"
  send_file :: "int \<Rightarrow> u64 \<Rightarrow> int \<Rightarrow> u16 \<Rightarrow> u32 \<Rightarrow> 'e \<Rightarrow> int \<times> 'e"
  receive_file :: "int \<Rightarrow> u64 \<Rightarrow> int \<Rightarrow> 'e \<Rightarrow> int \<times> 'e"

type_synonym 'e handler = "'e outside \<Rightarrow> mtp_server \<Rightarrow> 'e \<Rightarrow> (u16 \<times> mtp_server \<times> 'e) option"

definition MtpServer :: "'e outside \<Rightarrow> bool \<Rightarrow> mtp_server" where
  "MtpServer x ptp = \<lparr>mPtp = ptp, mSessionID = 0, mSessionOpen = False, mRequest = MtpRequestPacket (fresh x),
     mData = MtpDataPacket (fresh x), mResponse = MtpResponsePacket (fresh x), mEvent = MtpEventPacket (fresh x),
     mStorages = [], mSendObjectHandle = kInvalidObjectHandle, mSendObjectFormat = 0,
     mSendObjectFilePath = [], mSendObjectFileSize = 0, mObjectEditList = []\<rparr>"

subsection \<open>Storages\<close>

definition MTP_STORAGE_FIXED_RAM :: u16 where "MTP_STORAGE_FIXED_RAM = 3"
definition MTP_STORAGE_REMOVABLE_RAM :: u16 where "MTP_STORAGE_REMOVABLE_RAM = 4"
definition MTP_STORAGE_FILESYSTEM_HIERARCHICAL :: u16 where "MTP_STORAGE_FILESYSTEM_HIERARCHICAL = 2"
definition MTP_STORAGE_READ_WRITE :: u16 where "MTP_STORAGE_READ_WRITE = 0"

definition getType :: "mtp_storage \<Rightarrow> u16" where
  "getType st = (if removable st then MTP_STORAGE_REMOVABLE_RAM else MTP_STORAGE_FIXED_RAM)"

definition getFileSystemType :: "mtp_storage \<Rightarrow> u16" where
  "getFileSystemType st = MTP_STORAGE_FILESYSTEM_HIERARCHICAL"

definition getAccessCapability :: "mtp_storage \<Rightarrow> u16" where
  "getAccessCapability st = MTP_STORAGE_READ_WRITE"

text \<open>The capacity is asked for once.\<close>

definition getMaxCapacity :: "'e outside \<Rightarrow> mtp_storage \<Rightarrow> 'e \<Rightarrow> u64 \<times> mtp_storage" where
  "getMaxCapacity x st e =
     (if maxCapacity st = 0
      then (case statfs x (filePath st) e of None \<Rightarrow> (-1, st)
        | Some (blocks, bsize, bavail) \<Rightarrow> (blocks * bsize, st\<lparr>maxCapacity := blocks * bsize\<rparr>))
      else (maxCapacity st, st))"

definition getFreeSpace :: "'e outside \<Rightarrow> mtp_storage \<Rightarrow> 'e \<Rightarrow> u64" where
  "getFreeSpace x st e = (case statfs x (filePath st) e of None \<Rightarrow> -1
     | Some (blocks, bsize, bavail) \<Rightarrow>
         let freeSpace = bavail * bsize
         in if reserveSpace st < freeSpace then freeSpace - reserveSpace st else 0)"

text \<open>The index of a storage; storage 0 is the first one, whether there is one or not.\<close>

fun find_storage :: "u32 \<Rightarrow> mtp_storage list \<Rightarrow> nat option" where
  "find_storage i [] = None"
| "find_storage i (st # sts) = (if storageID st = i then Some 0 else map_option Suc (find_storage i sts))"

definition getStorage :: "u32 \<Rightarrow> mtp_server \<Rightarrow> nat option option" where
  "getStorage i s =
     (if i = 0 then do { CHECK (mStorages s \<noteq> []); Some (Some 0) }
      else Some (find_storage i (mStorages s)))"

definition hasAnyStorage :: "mtp_server \<Rightarrow> bool" where
  "hasAnyStorage s \<longleftrightarrow> 0 < length (mStorages s)"

definition hasStorage :: "u32 \<Rightarrow> mtp_server \<Rightarrow> bool option" where
  "hasStorage i s =
     (if i = 0 \<or> i = 0xFFFFFFFF then Some (0 < length (mStorages s))
      else do { st \<leftarrow> getStorage i s; Some (st \<noteq> None) })"

subsection \<open>Events\<close>

definition sendEvent :: "'e outside \<Rightarrow> u16 \<Rightarrow> u32 \<Rightarrow> mtp_server \<Rightarrow> 'e \<Rightarrow> (mtp_server \<times> 'e) option" where
  "sendEvent x c param1 s e =
     (if mSessionOpen s then do {
        ev \<leftarrow> setContainerCode c (mEvent s);
        t \<leftarrow> getTransactionID (mRequest s);
        ev \<leftarrow> setTransactionID t ev;
        ev \<leftarrow> setParameter 1 param1 ev;
        (ret, ev, e) \<leftarrow> event_write (send_event x) ev e;
        Some (s\<lparr>mEvent := ev\<rparr>, e) }
      else Some (s, e))"

definition sendObjectAdded :: "'e outside \<Rightarrow> u32 \<Rightarrow> mtp_server \<Rightarrow> 'e \<Rightarrow> (mtp_server \<times> 'e) option" where
  "sendObjectAdded x h = sendEvent x MTP_EVENT_OBJECT_ADDED h"

definition sendObjectRemoved :: "'e outside \<Rightarrow> u32 \<Rightarrow> mtp_server \<Rightarrow> 'e \<Rightarrow> (mtp_server \<times> 'e) option" where
  "sendObjectRemoved x h = sendEvent x MTP_EVENT_OBJECT_REMOVED h"

definition sendStoreAdded :: "'e outside \<Rightarrow> u32 \<Rightarrow> mtp_server \<Rightarrow> 'e \<Rightarrow> (mtp_server \<times> 'e) option" where
  "sendStoreAdded x i = sendEvent x MTP_EVENT_STORE_ADDED i"

definition sendStoreRemoved :: "'e outside \<Rightarrow> u32 \<Rightarrow> mtp_server \<Rightarrow> 'e \<Rightarrow> (mtp_server \<times> 'e) option" where
  "sendStoreRemoved x i = sendEvent x MTP_EVENT_STORE_REMOVED i"

definition sendDevicePropertyChanged :: "'e outside \<Rightarrow> u16 \<Rightarrow> mtp_server \<Rightarrow> 'e \<Rightarrow> (mtp_server \<times> 'e) option" where
  "sendDevicePropertyChanged x c = sendEvent x MTP_EVENT_DEVICE_PROP_CHANGED (ucast c)"

definition addStorage :: "'e outside \<Rightarrow> mtp_storage \<Rightarrow> mtp_server \<Rightarrow> 'e \<Rightarrow> (mtp_server \<times> 'e) option" where
  "addStorage x st s e = sendStoreAdded x (storageID st) (s\<lparr>mStorages := mStorages s @ [st]\<rparr>) e"

text \<open>The storage object is found by its address, here its index.\<close>

definition removeStorage :: "'e outside \<Rightarrow> nat \<Rightarrow> mtp_server \<Rightarrow> 'e \<Rightarrow> (mtp_server \<times> 'e) option" where
  "removeStorage x i s e =
     (if i < length (mStorages s)
      then sendStoreRemoved x (storageID (mStorages s ! i))
             (s\<lparr>mStorages := take i (mStorages s) @ drop (i + 1) (mStorages s)\<rparr>) e
      else Some (s, e))"

subsection \<open>Objects that are edited\<close>

definition addEditObject :: "u32 \<Rightarrow> byte list \<Rightarrow> u64 \<Rightarrow> u16 \<Rightarrow> int \<Rightarrow> mtp_server \<Rightarrow> mtp_server" where
  "addEditObject h path n f fd s = s\<lparr>mObjectEditList := mObjectEditList s
     @ [\<lparr>eHandle = h, ePath = path, eSize = n, eFormat = f, eFD = fd\<rparr>]\<rparr>"

fun find_edit :: "u32 \<Rightarrow> object_edit list \<Rightarrow> object_edit option" where
  "find_edit h [] = None"
| "find_edit h (ed # eds) = (if eHandle ed = h then Some ed else find_edit h eds)"

definition getEditObject :: "u32 \<Rightarrow> mtp_server \<Rightarrow> object_edit option" where
  "getEditObject h s = find_edit h (mObjectEditList s)"

text \<open>\<open>edit->mSize = n\<close>, through the pointer that \<open>getEditObject\<close> returned.\<close>

fun resize_edit :: "u32 \<Rightarrow> u64 \<Rightarrow> object_edit list \<Rightarrow> object_edit list" where
  "resize_edit h n [] = []"
| "resize_edit h n (ed # eds) = (if eHandle ed = h then ed\<lparr>eSize := n\<rparr> # eds else ed # resize_edit h n eds)"

definition setEditSize :: "u32 \<Rightarrow> u64 \<Rightarrow> mtp_server \<Rightarrow> mtp_server" where
  "setEditSize h n s = s\<lparr>mObjectEditList := resize_edit h n (mObjectEditList s)\<rparr>"

fun drop_edit :: "u32 \<Rightarrow> object_edit list \<Rightarrow> object_edit list" where
  "drop_edit h [] = []"
| "drop_edit h (ed # eds) = (if eHandle ed = h then eds else ed # drop_edit h eds)"

text \<open>Deleting the edit closes its file.\<close>

definition removeEditObject :: "'e outside \<Rightarrow> u32 \<Rightarrow> mtp_server \<Rightarrow> 'e \<Rightarrow> mtp_server \<times> 'e" where
  "removeEditObject x h s e = (case getEditObject h s of None \<Rightarrow> (s, e)
     | Some ed \<Rightarrow> (s\<lparr>mObjectEditList := drop_edit h (mObjectEditList s)\<rparr>, close_file x (eFD ed) e))"

definition commitEdit :: "'e outside \<Rightarrow> object_edit \<Rightarrow> 'e \<Rightarrow> 'e" where
  "commitEdit x ed e = endSendObject x (ePath ed) (eHandle ed) (eFormat ed) True e"

section \<open>Handlers\<close>

definition param :: "mtp_server \<Rightarrow> int \<Rightarrow> u32 option" where
  "param s i = getParameter (mRequest s) i"

definition params :: "mtp_server \<Rightarrow> int" where
  "params s = mParameterCount (mRequest s)"

definition respond :: "int \<Rightarrow> u32 \<Rightarrow> mtp_server \<Rightarrow> mtp_server option" where
  "respond i v s = do { r \<leftarrow> setParameter i v (mResponse s); Some (s\<lparr>mResponse := r\<rparr>) }"

fun run_puts :: "put_run list \<Rightarrow> put_run" where
  "run_puts [] p = Some p"
| "run_puts (f # fs) p = do { p \<leftarrow> f p; run_puts fs p }"

definition put_data :: "put_run list \<Rightarrow> mtp_server \<Rightarrow> mtp_server option" where
  "put_data fs s = do { p \<leftarrow> run_puts fs (mData s); Some (s\<lparr>mData := p\<rparr>) }"

text \<open>A C string of the source, and \<open>MtpStringBuffer::set\<close> followed by \<open>putString\<close>.\<close>

definition c_string :: "string \<Rightarrow> byte list" where
  "c_string s = map (\<lambda>c. of_nat (of_char c)) s"

definition put_text :: "'e outside \<Rightarrow> byte list \<Rightarrow> put_run" where
  "put_text x s = putString (fresh x) (junk x) (s @ [0])"

definition doGetDeviceInfo :: "'e handler" where
  "doGetDeviceInfo x s e = (let
       (playbackFormats, e) = getSupportedPlaybackFormats x e;
       (captureFormats, e) = getSupportedCaptureFormats x e;
       (deviceProperties, e) = getSupportedDeviceProperties x e;
       (manufacturer, model, serial) = product_strings x e
     in do {
       s \<leftarrow> put_data [
         putUInt16 (fresh x) MTP_STANDARD_VERSION,
         putUInt32 (fresh x) (if mPtp s then 0 else 6),
         putUInt16 (fresh x) MTP_STANDARD_VERSION,
         put_text x (if mPtp s then [] else c_string ''microsoft.com: 1.0; android.com: 1.0;''),
         putUInt16 (fresh x) 0,
         putAUInt16 (fresh x) kSupportedOperationCodes (int (length kSupportedOperationCodes)),
         putAUInt16 (fresh x) kSupportedEventCodes (int (length kSupportedEventCodes)),
         putAUInt16_list (fresh x) deviceProperties,
         putAUInt16_list (fresh x) captureFormats,
         putAUInt16_list (fresh x) playbackFormats,
         put_text x manufacturer,
         put_text x model,
         put_text x (c_string ''1.0''),
         put_text x serial] s;
       Some (MTP_RESPONSE_OK, s, e) })"

definition doOpenSession :: "'e handler" where
  "doOpenSession x s e =
     (if mSessionOpen s then do {
        s \<leftarrow> respond 1 (mSessionID s) s;
        Some (MTP_RESPONSE_SESSION_ALREADY_OPEN, s, e) }
      else if params s < 1 then Some (MTP_RESPONSE_INVALID_PARAMETER, s, e)
      else do {
        i \<leftarrow> param s 1;
        Some (MTP_RESPONSE_OK, s\<lparr>mSessionID := i, mSessionOpen := True\<rparr>, sessionStarted x e) })"

definition doCloseSession :: "'e handler" where
  "doCloseSession x s e =
     (if \<not> mSessionOpen s then Some (MTP_RESPONSE_SESSION_NOT_OPEN, s, e)
      else Some (MTP_RESPONSE_OK, s\<lparr>mSessionID := 0, mSessionOpen := False\<rparr>, sessionEnded x e))"

definition doGetStorageIDs :: "'e handler" where
  "doGetStorageIDs x s e =
     (if \<not> mSessionOpen s then Some (MTP_RESPONSE_SESSION_NOT_OPEN, s, e)
      else do {
        s \<leftarrow> put_data (putUInt32 (fresh x) (word_of_nat (length (mStorages s)))
               # map (\<lambda>st. putUInt32 (fresh x) (storageID st)) (mStorages s)) s;
        Some (MTP_RESPONSE_OK, s, e) })"

definition doGetStorageInfo :: "'e handler" where
  "doGetStorageInfo x s e =
     (if \<not> mSessionOpen s then Some (MTP_RESPONSE_SESSION_NOT_OPEN, s, e)
      else if params s < 1 then Some (MTP_RESPONSE_INVALID_PARAMETER, s, e)
      else do {
        i \<leftarrow> param s 1;
        r \<leftarrow> getStorage i s;
        case r of None \<Rightarrow> Some (MTP_RESPONSE_INVALID_STORAGE_ID, s, e)
        | Some k \<Rightarrow> let st = mStorages s ! k; (capacity, st) = getMaxCapacity x st e;
                       s = s\<lparr>mStorages := (mStorages s)[k := st]\<rparr> in do {
            s \<leftarrow> put_data [
              putUInt16 (fresh x) (getType st),
              putUInt16 (fresh x) (getFileSystemType st),
              putUInt16 (fresh x) (getAccessCapability st),
              putUInt64 (fresh x) capacity,
              putUInt64 (fresh x) (getFreeSpace x st e),
              putUInt32 (fresh x) (1024 * 1024 * 1024),
              put_text x (description_of st),
              putEmptyString (fresh x)] s;
            Some (MTP_RESPONSE_OK, s, e) } })"

definition doGetObjectPropsSupported :: "'e handler" where
  "doGetObjectPropsSupported x s e =
     (if \<not> mSessionOpen s then Some (MTP_RESPONSE_SESSION_NOT_OPEN, s, e)
      else if params s < 1 then Some (MTP_RESPONSE_INVALID_PARAMETER, s, e)
      else do {
        f \<leftarrow> param s 1;
        let (properties, e) = getSupportedObjectProperties x (ucast f) e;
        s \<leftarrow> put_data [putAUInt16_list (fresh x) properties] s;
        Some (MTP_RESPONSE_OK, s, e) })"

definition doGetObjectHandles :: "'e handler" where
  "doGetObjectHandles x s e =
     (if \<not> mSessionOpen s then Some (MTP_RESPONSE_SESSION_NOT_OPEN, s, e)
      else if params s < 3 then Some (MTP_RESPONSE_INVALID_PARAMETER, s, e)
      else do {
        i \<leftarrow> param s 1;
        f \<leftarrow> param s 2;
        parent \<leftarrow> param s 3;
        found \<leftarrow> hasStorage i s;
        if \<not> found then Some (MTP_RESPONSE_INVALID_STORAGE_ID, s, e)
        else do {
          let (handles, e) = getObjectList x i (ucast f) parent e;
          s \<leftarrow> put_data [putAUInt32_list (fresh x) handles] s;
          Some (MTP_RESPONSE_OK, s, e) } })"

definition doGetNumObjects :: "'e handler" where
  "doGetNumObjects x s e =
     (if \<not> mSessionOpen s then Some (MTP_RESPONSE_SESSION_NOT_OPEN, s, e)
      else if params s < 3 then Some (MTP_RESPONSE_INVALID_PARAMETER, s, e)
      else do {
        i \<leftarrow> param s 1;
        f \<leftarrow> param s 2;
        parent \<leftarrow> param s 3;
        found \<leftarrow> hasStorage i s;
        if \<not> found then Some (MTP_RESPONSE_INVALID_STORAGE_ID, s, e)
        else let (count, e) = getNumObjects x i (ucast f) parent e in
          if 0 \<le> sint count then do { s \<leftarrow> respond 1 count s; Some (MTP_RESPONSE_OK, s, e) }
          else do { s \<leftarrow> respond 1 0 s; Some (MTP_RESPONSE_INVALID_OBJECT_HANDLE, s, e) } })"

definition doGetObjectReferences :: "'e handler" where
  "doGetObjectReferences x s e =
     (if \<not> mSessionOpen s then Some (MTP_RESPONSE_SESSION_NOT_OPEN, s, e)
      else if \<not> hasAnyStorage s then Some (MTP_RESPONSE_INVALID_OBJECT_HANDLE, s, e)
      else if params s < 1 then Some (MTP_RESPONSE_INVALID_PARAMETER, s, e)
      else do {
        h \<leftarrow> param s 1;
        let (handles, e) = getObjectReferences x h e;
        s \<leftarrow> put_data [case handles of Some hs \<Rightarrow> putAUInt32_list (fresh x) (Some hs)
               | None \<Rightarrow> putEmptyArray (fresh x)] s;
        Some (MTP_RESPONSE_OK, s, e) })"

definition doSetObjectReferences :: "'e handler" where
  "doSetObjectReferences x s e =
     (if \<not> mSessionOpen s then Some (MTP_RESPONSE_SESSION_NOT_OPEN, s, e)
      else if \<not> hasAnyStorage s then Some (MTP_RESPONSE_INVALID_OBJECT_HANDLE, s, e)
      else if params s < 1 then Some (MTP_RESPONSE_INVALID_PARAMETER, s, e)
      else do {
        h \<leftarrow> param s 1;
        (references, p) \<leftarrow> getAUInt32 (mData s);
        let s = s\<lparr>mData := p\<rparr>;
        case references of None \<Rightarrow> Some (MTP_RESPONSE_INVALID_PARAMETER, s, e)
        | Some rs \<Rightarrow> let (result, e) = setObjectReferences x h rs e in Some (result, s, e) })"

text \<open>Operations that pass the data packet to the database.\<close>

definition doGetObjectPropValue :: "'e handler" where
  "doGetObjectPropValue x s e =
     (if \<not> hasAnyStorage s then Some (MTP_RESPONSE_INVALID_OBJECT_HANDLE, s, e)
      else if params s < 2 then Some (MTP_RESPONSE_INVALID_PARAMETER, s, e)
      else do {
        h \<leftarrow> param s 1;
        c \<leftarrow> param s 2;
        let (result, p, e) = getObjectPropertyValue x h (ucast c) (mData s) e;
        Some (result, s\<lparr>mData := p\<rparr>, e) })"

definition doSetObjectPropValue :: "'e handler" where
  "doSetObjectPropValue x s e =
     (if \<not> hasAnyStorage s then Some (MTP_RESPONSE_INVALID_OBJECT_HANDLE, s, e)
      else if params s < 2 then Some (MTP_RESPONSE_INVALID_PARAMETER, s, e)
      else do {
        h \<leftarrow> param s 1;
        c \<leftarrow> param s 2;
        let (result, p, e) = setObjectPropertyValue x h (ucast c) (mData s) e;
        Some (result, s\<lparr>mData := p\<rparr>, e) })"

definition doGetDevicePropValue :: "'e handler" where
  "doGetDevicePropValue x s e =
     (if params s < 1 then Some (MTP_RESPONSE_INVALID_PARAMETER, s, e)
      else do {
        c \<leftarrow> param s 1;
        let (result, p, e) = getDevicePropertyValue x (ucast c) (mData s) e;
        Some (result, s\<lparr>mData := p\<rparr>, e) })"

definition doSetDevicePropValue :: "'e handler" where
  "doSetDevicePropValue x s e =
     (if params s < 1 then Some (MTP_RESPONSE_INVALID_PARAMETER, s, e)
      else do {
        c \<leftarrow> param s 1;
        let (result, p, e) = setDevicePropertyValue x (ucast c) (mData s) e;
        Some (result, s\<lparr>mData := p\<rparr>, e) })"

definition doResetDevicePropValue :: "'e handler" where
  "doResetDevicePropValue x s e =
     (if params s < 1 then Some (MTP_RESPONSE_INVALID_PARAMETER, s, e)
      else do {
        c \<leftarrow> param s 1;
        let (result, e) = resetDeviceProperty x (ucast c) e;
        Some (result, s, e) })"

definition doGetObjectPropList :: "'e handler" where
  "doGetObjectPropList x s e =
     (if \<not> hasAnyStorage s then Some (MTP_RESPONSE_INVALID_OBJECT_HANDLE, s, e)
      else if params s < 5 then Some (MTP_RESPONSE_INVALID_PARAMETER, s, e)
      else do {
        h \<leftarrow> param s 1;
        f \<leftarrow> param s 2;
        c \<leftarrow> param s 3;
        g \<leftarrow> param s 4;
        depth \<leftarrow> param s 5;
        let (result, p, e) = getObjectPropertyList x h f c g depth (mData s) e;
        Some (result, s\<lparr>mData := p\<rparr>, e) })"

text \<open>The size of an object that is being edited is the one the edits have made.\<close>

definition current_size :: "u32 \<Rightarrow> mtp_server \<Rightarrow> u32 \<Rightarrow> u32" where
  "current_size h s sz = (case getEditObject h s of None \<Rightarrow> sz
     | Some ed \<Rightarrow> if 0xFFFFFFFF < eSize ed then 0xFFFFFFFF else ucast (eSize ed))"

definition put_optional :: "'e outside \<Rightarrow> byte list option \<Rightarrow> put_run" where
  "put_optional x s = (case s of None \<Rightarrow> (\<lambda>_. None) | Some t \<Rightarrow> put_text x t)"

definition doGetObjectInfo :: "'e handler" where
  "doGetObjectInfo x s e =
     (if \<not> hasAnyStorage s then Some (MTP_RESPONSE_INVALID_OBJECT_HANDLE, s, e)
      else if params s < 1 then Some (MTP_RESPONSE_INVALID_PARAMETER, s, e)
      else do {
        h \<leftarrow> param s 1;
        let (result, info, e) = getObjectInfo x h (MtpObjectInfo h) e;
        if result = MTP_RESPONSE_OK then do {
          s \<leftarrow> put_data [
            putUInt32 (fresh x) (oStorageID info),
            putUInt16 (fresh x) (oFormat info),
            putUInt16 (fresh x) (oProtectionStatus info),
            putUInt32 (fresh x) (current_size h s (oCompressedSize info)),
            putUInt16 (fresh x) (oThumbFormat info),
            putUInt32 (fresh x) (oThumbCompressedSize info),
            putUInt32 (fresh x) (oThumbPixWidth info),
            putUInt32 (fresh x) (oThumbPixHeight info),
            putUInt32 (fresh x) (oImagePixWidth info),
            putUInt32 (fresh x) (oImagePixHeight info),
            putUInt32 (fresh x) (oImagePixDepth info),
            putUInt32 (fresh x) (oParent info),
            putUInt16 (fresh x) (oAssociationType info),
            putUInt32 (fresh x) (oAssociationDesc info),
            putUInt32 (fresh x) (oSequenceNumber info),
            put_optional x (oName info),
            put_text x (format_time x (oDateCreated info)),
            put_text x (format_time x (oDateModified info)),
            putEmptyString (fresh x)] s;
          Some (result, s, e) }
        else Some (result, s, e) })"

text \<open>Sending a file to the host by an \<open>ioctl\<close> of the driver.\<close>

definition transfer_file :: "'e outside \<Rightarrow> file_path \<Rightarrow> u64 \<Rightarrow> int \<Rightarrow> u32 option \<Rightarrow> mtp_server \<Rightarrow> 'e
    \<Rightarrow> (u16 \<times> mtp_server \<times> 'e) option" where
  "transfer_file x f offset len report s e = (let (fd, e) = open_read x (fPath f) e in
     if fd < 0 then Some (MTP_RESPONSE_GENERAL_ERROR, s, e)
     else do {
       c \<leftarrow> getContainerCode (mRequest s);
       t \<leftarrow> getTransactionID (mRequest s);
       s \<leftarrow> (case report of None \<Rightarrow> Some s | Some n \<Rightarrow> respond 1 n s);
       let (ret, e) = send_file x fd offset len c t e;
       let e = close_file x fd e;
       Some (if ret < 0 then if errno_cancelled x e then MTP_RESPONSE_TRANSACTION_CANCELLED
                             else MTP_RESPONSE_GENERAL_ERROR
             else MTP_RESPONSE_OK, s, e) })"

definition doGetObject :: "'e handler" where
  "doGetObject x s e =
     (if \<not> hasAnyStorage s then Some (MTP_RESPONSE_INVALID_OBJECT_HANDLE, s, e)
      else if params s < 1 then Some (MTP_RESPONSE_INVALID_PARAMETER, s, e)
      else do {
        h \<leftarrow> param s 1;
        let (result, f, e) = getObjectFilePath x h e;
        if result \<noteq> MTP_RESPONSE_OK then Some (result, s, e)
        else transfer_file x f 0 (sint (fLength f)) None s e })"

definition doGetThumb :: "'e handler" where
  "doGetThumb x s e =
     (if params s < 1 then Some (MTP_RESPONSE_INVALID_PARAMETER, s, e)
      else do {
        h \<leftarrow> param s 1;
        let (thumb, e) = getThumbnail x h e;
        case thumb of None \<Rightarrow> Some (MTP_RESPONSE_GENERAL_ERROR, s, e)
        | Some bytes \<Rightarrow> do {
            c \<leftarrow> getContainerCode (mRequest s);
            t \<leftarrow> getTransactionID (mRequest s);
            p \<leftarrow> setOperationCode c (mData s);
            p \<leftarrow> setTransactionID t p;
            (ret, p, e) \<leftarrow> writeData (fresh x) (fd_write x) bytes (word_of_nat (length bytes)) p e;
            Some (MTP_RESPONSE_OK, s\<lparr>mData := p\<rparr>, e) } })"

text \<open>The offset of a 64-bit operation comes in two parameters.\<close>

definition offset64 :: "u32 \<Rightarrow> u32 \<Rightarrow> u64" where
  "offset64 lo hi = ucast lo OR push_bit 32 (ucast hi)"

definition clip_length :: "u64 \<Rightarrow> u32 \<Rightarrow> u64 \<Rightarrow> u32" where
  "clip_length offset len fileLength =
     (if fileLength < offset + ucast len then ucast (fileLength - offset) else len)"

definition doGetPartialObject :: "u16 \<Rightarrow> 'e handler" where
  "doGetPartialObject operation x s e =
     (if \<not> hasAnyStorage s then Some (MTP_RESPONSE_INVALID_OBJECT_HANDLE, s, e)
      else do {
        h \<leftarrow> param s 1;
        lo \<leftarrow> param s 2;
        range \<leftarrow>
          (if operation = MTP_OPERATION_GET_PARTIAL_OBJECT_64 then
             if params s < 4 then Some None
             else do { hi \<leftarrow> param s 3; len \<leftarrow> param s 4; Some (Some (offset64 lo hi, len)) }
           else if params s < 3 then Some None
             else do { len \<leftarrow> param s 3; Some (Some (ucast lo, len)) });
        case range of None \<Rightarrow> Some (MTP_RESPONSE_INVALID_PARAMETER, s, e)
        | Some (offset, len) \<Rightarrow> let (result, f, e) = getObjectFilePath x h e in
            if result \<noteq> MTP_RESPONSE_OK then Some (result, s, e)
            else let len = clip_length offset len (fLength f)
              in transfer_file x f offset (uint len) (Some len) s e })"

subsection \<open>Receiving an object\<close>

record send_info =
  iFormat :: u16
  iSize :: u32
  iAssociationType :: u16
  iAssociationDesc :: u32
  iName :: mtp_string_buffer
  iCreated :: mtp_string_buffer
  iModified :: mtp_string_buffer

definition info_string :: "(send_info \<Rightarrow> mtp_string_buffer) \<Rightarrow> (mtp_string_buffer \<Rightarrow> send_info \<Rightarrow> send_info)
    \<Rightarrow> send_info \<times> mtp_data_packet \<Rightarrow> (bool \<times> send_info \<times> mtp_data_packet) option" where
  "info_string field assign = (\<lambda>(i, p). do {
     (ok, b, p) \<leftarrow> getString (field i) p;
     Some (ok, assign b i, p) })"

definition skip_field :: "'v getter \<Rightarrow> send_info \<times> mtp_data_packet \<Rightarrow> (bool \<times> send_info \<times> mtp_data_packet) option" where
  "skip_field get = get_field get (\<lambda>_ i. i)"

definition read_send_info :: "send_info \<times> mtp_data_packet \<Rightarrow> (bool \<times> send_info \<times> mtp_data_packet) option" where
  "read_send_info = run_steps [
     skip_field getUInt32,
     get_field getUInt16 (\<lambda>v. iFormat_update (\<lambda>_. v)),
     skip_field getUInt16,
     get_field getUInt32 (\<lambda>v. iSize_update (\<lambda>_. v)),
     skip_field getUInt16,
     skip_field getUInt32, skip_field getUInt32, skip_field getUInt32, skip_field getUInt32,
     skip_field getUInt32, skip_field getUInt32, skip_field getUInt32,
     get_field getUInt16 (\<lambda>v. iAssociationType_update (\<lambda>_. v)),
     get_field getUInt32 (\<lambda>v. iAssociationDesc_update (\<lambda>_. v)),
     skip_field getUInt32,
     info_string iName (\<lambda>b. iName_update (\<lambda>_. b)),
     info_string iCreated (\<lambda>b. iCreated_update (\<lambda>_. b)),
     info_string iModified (\<lambda>b. iModified_update (\<lambda>_. b))]"

text \<open>The directory into which an object goes: the root of the storage, or the path of its parent.\<close>

definition parent_path :: "'e outside \<Rightarrow> mtp_storage \<Rightarrow> u32 \<Rightarrow> 'e \<Rightarrow> (u16 + byte list \<times> u32) \<times> 'e" where
  "parent_path x st parent e =
     (if parent = MTP_PARENT_ROOT then (Inr (filePath st, 0), e)
      else let (result, f, e) = getObjectFilePath x parent e in
        (if result \<noteq> MTP_RESPONSE_OK then Inl result
         else if fFormat f \<noteq> MTP_FORMAT_ASSOCIATION then Inl MTP_RESPONSE_INVALID_PARENT_OBJECT
         else Inr (fPath f, parent), e))"

definition slash :: byte where "slash = 0x2F"

definition join_path :: "byte list \<Rightarrow> byte list \<Rightarrow> byte list option" where
  "join_path path name = do {
     CHECK (path \<noteq> []);
     Some ((if last path \<noteq> slash then path @ [slash] else path) @ name) }"

text \<open>The checks of the space and of the largest size of a file.\<close>

definition space_response :: "'e outside \<Rightarrow> mtp_storage \<Rightarrow> nat \<Rightarrow> 'e \<Rightarrow> u16 option" where
  "space_response x st n e =
     (if unat (getFreeSpace x st e) < n then Some MTP_RESPONSE_STORAGE_FULL
      else if maxFileSize st \<noteq> 0 \<and> (unat (maxFileSize st) < n \<or> n = 0xFFFFFFFF)
      then Some MTP_RESPONSE_OBJECT_TOO_LARGE else None)"

definition accept_object :: "'e outside \<Rightarrow> byte list \<Rightarrow> u16 \<Rightarrow> u32 \<Rightarrow> u32 \<Rightarrow> int \<Rightarrow> mtp_server \<Rightarrow> 'e
    \<Rightarrow> (u16 \<times> mtp_server \<times> 'e) option" where
  "accept_object x path f i parent modifiedTime s e = (let
       (h, e) = beginSendObject x path f parent i (mSendObjectFileSize s) modifiedTime e
     in if h = kInvalidObjectHandle then Some (MTP_RESPONSE_GENERAL_ERROR, s, e)
     else let (r, s, e) =
         (if f = MTP_FORMAT_ASSOCIATION then
            let (ret, e) = make_dir x path e in
            if ret \<noteq> 0 \<and> ret \<noteq> -17 then (Some MTP_RESPONSE_GENERAL_ERROR, s, e)
            else (None, s, endSendObject x path h MTP_FORMAT_ASSOCIATION (MTP_RESPONSE_OK \<noteq> 0) (chown_dir x path e))
          else (None, s\<lparr>mSendObjectFilePath := path, mSendObjectHandle := h, mSendObjectFormat := f\<rparr>, e))
       in case r of Some answer \<Rightarrow> Some (answer, s, e)
       | None \<Rightarrow> do {
           s \<leftarrow> respond 1 i s;
           s \<leftarrow> respond 2 parent s;
           s \<leftarrow> respond 3 h s;
           Some (MTP_RESPONSE_OK, s, e) })"

definition doSendObjectInfo :: "'e handler" where
  "doSendObjectInfo x s e =
     (if params s < 2 then Some (MTP_RESPONSE_INVALID_PARAMETER, s, e)
      else do {
        i \<leftarrow> param s 1;
        r \<leftarrow> getStorage i s;
        parent \<leftarrow> param s 2;
        case r of None \<Rightarrow> Some (MTP_RESPONSE_INVALID_STORAGE_ID, s, e)
        | Some k \<Rightarrow> let st = mStorages s ! k; (pr, e) = parent_path x st parent e in
          (case pr of Inl answer \<Rightarrow> Some (answer, s, e)
           | Inr (path, parent) \<Rightarrow> do {
               let b = MtpStringBuffer (junk x);
               (ok, info, p) \<leftarrow> read_send_info
                 (\<lparr>iFormat = 0, iSize = word_of_nat (mSendObjectFileSize s), iAssociationType = 0,
                    iAssociationDesc = 0, iName = b, iCreated = b, iModified = b\<rparr>, mData s);
               let s = s\<lparr>mData := p, mSendObjectFileSize := unat (iSize info)\<rparr>;
               if \<not> ok then Some (MTP_RESPONSE_INVALID_PARAMETER, s, e)
               else do {
                 modified \<leftarrow> strdup (iModified info);
                 let modifiedTime = (case parse_time x modified of None \<Rightarrow> 0 | Some t \<Rightarrow> t);
                 name \<leftarrow> strdup (iName info);
                 path \<leftarrow> join_path path name;
                 case space_response x st (mSendObjectFileSize s) e of Some answer \<Rightarrow> Some (answer, s, e)
                 | None \<Rightarrow> accept_object x path (iFormat info) i parent modifiedTime s e } }) })"

text \<open>\<open>mSendObjectFileSize - initialData\<close> is a \<open>size_t\<close>, passed on as a signed number of 64 bits.\<close>

definition remaining_size :: "nat \<Rightarrow> nat \<Rightarrow> nat" where
  "remaining_size n m = (if m \<le> n then n - m else 2 ^ 64 + n - m)"

definition signed64 :: "nat \<Rightarrow> int" where
  "signed64 n = sint (word_of_nat n :: u64)"

definition receive_object :: "'e outside \<Rightarrow> int \<Rightarrow> int \<Rightarrow> mtp_server \<Rightarrow> 'e \<Rightarrow> (int \<times> 'e) option" where
  "receive_object x fd ret s e = (let initialData = nat (ret - int MTP_CONTAINER_HEADER_SIZE) in do {
     (ret, e) \<leftarrow>
       (if 0 < initialData then do {
          bs \<leftarrow> peeks (mBuffer (mData s)) MTP_CONTAINER_HEADER_SIZE initialData;
          Some (write_file x fd bs e) }
        else Some (ret, e));
     Some (if ret < 0 then (ret, e)
       else if 0 < remaining_size (mSendObjectFileSize s) initialData
       then receive_file x fd (word_of_nat initialData)
              (if mSendObjectFileSize s = 0xFFFFFFFF then 0xFFFFFFFF
               else signed64 (remaining_size (mSendObjectFileSize s) initialData)) e
       else (ret, e)) })"

definition doSendObject :: "'e handler" where
  "doSendObject x s e =
     (if \<not> hasAnyStorage s then Some (MTP_RESPONSE_GENERAL_ERROR, s, e)
      else do {
        (result, s, e) \<leftarrow>
          (if mSendObjectHandle s = kInvalidObjectHandle then Some (MTP_RESPONSE_NO_VALID_OBJECT_INFO, s, e)
           else do {
             (ret, p, e) \<leftarrow> data_read (fd_read x) (mData s) e;
             let s = s\<lparr>mData := p\<rparr>;
             if ret < int MTP_CONTAINER_HEADER_SIZE then Some (MTP_RESPONSE_GENERAL_ERROR, s, e)
             else let (fd, e) = open_create x (mSendObjectFilePath s) e in
               if fd < 0 then Some (MTP_RESPONSE_GENERAL_ERROR, s, e)
               else do {
                 (ret, e) \<leftarrow> receive_object x fd ret s (set_permissions x fd e);
                 let e = close_file x fd e;
                 if ret < 0 then let e = unlink_file x (mSendObjectFilePath s) e in
                   Some (if errno_cancelled x e then MTP_RESPONSE_TRANSACTION_CANCELLED
                         else MTP_RESPONSE_GENERAL_ERROR, s, e)
                 else Some (MTP_RESPONSE_OK, s, e) } });
        p \<leftarrow> data_reset (fresh x) (mData s);
        let e = endSendObject x (mSendObjectFilePath s) (mSendObjectHandle s) (mSendObjectFormat s)
                  (result = MTP_RESPONSE_OK) e;
        Some (result, s\<lparr>mData := p, mSendObjectHandle := kInvalidObjectHandle, mSendObjectFormat := 0\<rparr>, e) })"

subsection \<open>Deleting\<close>

definition PATH_MAX :: nat where "PATH_MAX = 4096"

text \<open>
  \<open>deleteRecursive\<close>; \<open>fuel\<close> bounds the depth of the directories, and \<open>None\<close> also stands for a deeper tree. A path
  that does not fit into the buffer is logged, and then copied all the same.
\<close>

definition dot_entry :: "byte list \<Rightarrow> bool" where
  "dot_entry name \<longleftrightarrow> name = [0x2E] \<or> name = [0x2E, 0x2E]"

fun deleteRecursive :: "nat \<Rightarrow> 'e outside \<Rightarrow> byte list \<Rightarrow> 'e \<Rightarrow> 'e option"
  and delete_entries :: "nat \<Rightarrow> 'e outside \<Rightarrow> byte list \<Rightarrow> (byte list \<times> bool) list \<Rightarrow> 'e \<Rightarrow> 'e option" where
  "deleteRecursive 0 x path e = None"
| "deleteRecursive (Suc fuel) x path e = do {
     CHECK (path \<noteq> [] \<and> length path < PATH_MAX);
     let prefix = (if last path \<noteq> slash then path @ [slash] else path);
     case read_dir x path e of None \<Rightarrow> Some e
     | Some entries \<Rightarrow> delete_entries fuel x prefix entries e }"
| "delete_entries fuel x prefix [] e = Some e"
| "delete_entries fuel x prefix ((name, is_dir) # entries) e =
     (if dot_entry name then delete_entries fuel x prefix entries e
      else if int (length name) > int PATH_MAX - int (length prefix) - 1
      then delete_entries fuel x prefix entries e
      else if is_dir then do {
        e \<leftarrow> deleteRecursive fuel x (prefix @ name) e;
        delete_entries fuel x prefix entries (remove_dir x (prefix @ name) e) }
      else delete_entries fuel x prefix entries (unlink_file x (prefix @ name) e))"

definition deletePath :: "nat \<Rightarrow> 'e outside \<Rightarrow> byte list \<Rightarrow> 'e \<Rightarrow> 'e option" where
  "deletePath fuel x path e = (case stat_is_dir x path e of None \<Rightarrow> Some e
     | Some True \<Rightarrow> do { e \<leftarrow> deleteRecursive fuel x path e; Some (remove_dir x path e) }
     | Some False \<Rightarrow> Some (unlink_file x path e))"

definition doDeleteObject :: "nat \<Rightarrow> 'e handler" where
  "doDeleteObject fuel x s e =
     (if \<not> hasAnyStorage s then Some (MTP_RESPONSE_INVALID_OBJECT_HANDLE, s, e)
      else if params s < 1 then Some (MTP_RESPONSE_INVALID_PARAMETER, s, e)
      else do {
        h \<leftarrow> param s 1;
        let (result, f, e) = getObjectFilePath x h e;
        if result = MTP_RESPONSE_OK then
          let (result, e) = deleteFile x h e in
          if result = MTP_RESPONSE_OK then do { e \<leftarrow> deletePath fuel x (fPath f) e; Some (result, s, e) }
          else Some (result, s, e)
        else Some (result, s, e) })"

definition doGetObjectPropDesc :: "'e handler" where
  "doGetObjectPropDesc x s e =
     (if params s < 2 then Some (MTP_RESPONSE_INVALID_PARAMETER, s, e)
      else do {
        c \<leftarrow> param s 1;
        f \<leftarrow> param s 2;
        let (pr, e) = getObjectPropertyDesc x (ucast c) (ucast f) e;
        case pr of None \<Rightarrow> Some (MTP_RESPONSE_OBJECT_PROP_NOT_SUPPORTED, s, e)
        | Some pr \<Rightarrow> do {
            s \<leftarrow> put_data [property_write (fresh x) (junk x) pr] s;
            property_destroy pr;
            Some (MTP_RESPONSE_OK, s, e) } })"

definition doGetDevicePropDesc :: "'e handler" where
  "doGetDevicePropDesc x s e =
     (if params s < 1 then Some (MTP_RESPONSE_INVALID_PARAMETER, s, e)
      else do {
        c \<leftarrow> param s 1;
        let (pr, e) = getDevicePropertyDesc x (ucast c) e;
        case pr of None \<Rightarrow> Some (MTP_RESPONSE_DEVICE_PROP_NOT_SUPPORTED, s, e)
        | Some pr \<Rightarrow> do {
            s \<leftarrow> put_data [property_write (fresh x) (junk x) pr] s;
            property_destroy pr;
            Some (MTP_RESPONSE_OK, s, e) } })"

subsection \<open>Editing in place\<close>

text \<open>The data that came with the header is written first; \<open>offset\<close> and \<open>length\<close> then describe the rest.\<close>

definition write_initial :: "'e outside \<Rightarrow> object_edit \<Rightarrow> u64 \<Rightarrow> u32 \<Rightarrow> int \<Rightarrow> mtp_data_packet \<Rightarrow> 'e
    \<Rightarrow> (int \<times> u64 \<times> u32 \<times> 'e) option" where
  "write_initial x ed offset len ret p e = (let initialData = nat (ret - int MTP_CONTAINER_HEADER_SIZE) in
     if 0 < initialData then do {
       bs \<leftarrow> peeks (mBuffer p) MTP_CONTAINER_HEADER_SIZE initialData;
       let (ret, e) = pwrite_file x (eFD ed) bs offset e;
       Some (ret, offset + word_of_nat initialData, len - word_of_nat initialData, e) }
     else Some (ret, offset, len, e))"

definition doSendPartialObject :: "'e handler" where
  "doSendPartialObject x s e =
     (if \<not> hasAnyStorage s then Some (MTP_RESPONSE_INVALID_OBJECT_HANDLE, s, e)
      else if params s < 4 then Some (MTP_RESPONSE_INVALID_PARAMETER, s, e)
      else do {
        h \<leftarrow> param s 1;
        lo \<leftarrow> param s 2;
        hi \<leftarrow> param s 3;
        len \<leftarrow> param s 4;
        let offset = offset64 lo hi;
        case getEditObject h s of None \<Rightarrow> Some (MTP_RESPONSE_GENERAL_ERROR, s, e)
        | Some ed \<Rightarrow>
          if eSize ed < offset then Some (MTP_RESPONSE_GENERAL_ERROR, s, e)
          else do {
            (ret, p, e) \<leftarrow> data_read (fd_read x) (mData s) e;
            let s = s\<lparr>mData := p\<rparr>;
            if ret < int MTP_CONTAINER_HEADER_SIZE then Some (MTP_RESPONSE_GENERAL_ERROR, s, e)
            else do {
              (ret, offset, len, e) \<leftarrow> write_initial x ed offset len ret p e;
              let (ret, e) = (if 0 \<le> ret \<and> 0 < len then receive_file x (eFD ed) offset (uint len) e else (ret, e));
              if ret < 0 then do {
                s \<leftarrow> respond 1 0 s;
                Some (if errno_cancelled x e then MTP_RESPONSE_TRANSACTION_CANCELLED
                      else MTP_RESPONSE_GENERAL_ERROR, s, e) }
              else do {
                p \<leftarrow> data_reset (fresh x) (mData s);
                let s = s\<lparr>mData := p\<rparr>;
                s \<leftarrow> respond 1 len s;
                let after = offset + ucast len;
                Some (MTP_RESPONSE_OK, if eSize ed < after then setEditSize h after s else s, e) } } } })"

definition doTruncateObject :: "'e handler" where
  "doTruncateObject x s e =
     (if params s < 3 then Some (MTP_RESPONSE_INVALID_PARAMETER, s, e)
      else do {
        h \<leftarrow> param s 1;
        case getEditObject h s of None \<Rightarrow> Some (MTP_RESPONSE_GENERAL_ERROR, s, e)
        | Some ed \<Rightarrow> do {
            lo \<leftarrow> param s 2;
            hi \<leftarrow> param s 3;
            let offset = offset64 lo hi;
            let (ret, e) = ftruncate x (eFD ed) offset e;
            Some (if ret \<noteq> 0 then (MTP_RESPONSE_GENERAL_ERROR, s, e)
                  else (MTP_RESPONSE_OK, setEditSize h offset s, e)) } })"

definition doBeginEditObject :: "'e handler" where
  "doBeginEditObject x s e =
     (if params s < 1 then Some (MTP_RESPONSE_INVALID_PARAMETER, s, e)
      else do {
        h \<leftarrow> param s 1;
        if getEditObject h s \<noteq> None then Some (MTP_RESPONSE_GENERAL_ERROR, s, e)
        else let (result, f, e) = getObjectFilePath x h e in
          if result \<noteq> MTP_RESPONSE_OK then Some (result, s, e)
          else let (fd, e) = open_edit x (fPath f) e in
            Some (if fd < 0 then (MTP_RESPONSE_GENERAL_ERROR, s, e)
              else (MTP_RESPONSE_OK, addEditObject h (fPath f) (fLength f) (fFormat f) fd s, e)) })"

definition doEndEditObject :: "'e handler" where
  "doEndEditObject x s e =
     (if params s < 1 then Some (MTP_RESPONSE_INVALID_PARAMETER, s, e)
      else do {
        h \<leftarrow> param s 1;
        case getEditObject h s of None \<Rightarrow> Some (MTP_RESPONSE_GENERAL_ERROR, s, e)
        | Some ed \<Rightarrow> let (s, e) = removeEditObject x h s (commitEdit x ed e) in Some (MTP_RESPONSE_OK, s, e) })"

section \<open>Requests\<close>

definition dispatch :: "nat \<Rightarrow> u16 \<Rightarrow> 'e handler" where
  "dispatch fuel c =
     (if c = MTP_OPERATION_GET_DEVICE_INFO then doGetDeviceInfo
      else if c = MTP_OPERATION_OPEN_SESSION then doOpenSession
      else if c = MTP_OPERATION_CLOSE_SESSION then doCloseSession
      else if c = MTP_OPERATION_GET_STORAGE_IDS then doGetStorageIDs
      else if c = MTP_OPERATION_GET_STORAGE_INFO then doGetStorageInfo
      else if c = MTP_OPERATION_GET_OBJECT_PROPS_SUPPORTED then doGetObjectPropsSupported
      else if c = MTP_OPERATION_GET_OBJECT_HANDLES then doGetObjectHandles
      else if c = MTP_OPERATION_GET_NUM_OBJECTS then doGetNumObjects
      else if c = MTP_OPERATION_GET_OBJECT_REFERENCES then doGetObjectReferences
      else if c = MTP_OPERATION_SET_OBJECT_REFERENCES then doSetObjectReferences
      else if c = MTP_OPERATION_GET_OBJECT_PROP_VALUE then doGetObjectPropValue
      else if c = MTP_OPERATION_SET_OBJECT_PROP_VALUE then doSetObjectPropValue
      else if c = MTP_OPERATION_GET_DEVICE_PROP_VALUE then doGetDevicePropValue
      else if c = MTP_OPERATION_SET_DEVICE_PROP_VALUE then doSetDevicePropValue
      else if c = MTP_OPERATION_RESET_DEVICE_PROP_VALUE then doResetDevicePropValue
      else if c = MTP_OPERATION_GET_OBJECT_PROP_LIST then doGetObjectPropList
      else if c = MTP_OPERATION_GET_OBJECT_INFO then doGetObjectInfo
      else if c = MTP_OPERATION_GET_OBJECT then doGetObject
      else if c = MTP_OPERATION_GET_THUMB then doGetThumb
      else if c = MTP_OPERATION_GET_PARTIAL_OBJECT \<or> c = MTP_OPERATION_GET_PARTIAL_OBJECT_64
        then doGetPartialObject c
      else if c = MTP_OPERATION_SEND_OBJECT_INFO then doSendObjectInfo
      else if c = MTP_OPERATION_SEND_OBJECT then doSendObject
      else if c = MTP_OPERATION_DELETE_OBJECT then doDeleteObject fuel
      else if c = MTP_OPERATION_GET_OBJECT_PROP_DESC then doGetObjectPropDesc
      else if c = MTP_OPERATION_GET_DEVICE_PROP_DESC then doGetDevicePropDesc
      else if c = MTP_OPERATION_SEND_PARTIAL_OBJECT then doSendPartialObject
      else if c = MTP_OPERATION_TRUNCATE_OBJECT then doTruncateObject
      else if c = MTP_OPERATION_BEGIN_EDIT_OBJECT then doBeginEditObject
      else if c = MTP_OPERATION_END_EDIT_OBJECT then doEndEditObject
      else (\<lambda>x s e. Some (MTP_RESPONSE_OPERATION_NOT_SUPPORTED, s, e)))"

text \<open>The result is whether a response is to be sent.\<close>

definition handleRequest :: "nat \<Rightarrow> 'e outside \<Rightarrow> mtp_server \<Rightarrow> 'e \<Rightarrow> (bool \<times> mtp_server \<times> 'e) option" where
  "handleRequest fuel x s e = do {
     operation \<leftarrow> getContainerCode (mRequest s);
     r \<leftarrow> packet_reset (fresh x) (mResponse s);
     let s = s\<lparr>mResponse := r\<rparr>;
     let s = (if mSendObjectHandle s \<noteq> kInvalidObjectHandle \<and> operation \<noteq> MTP_OPERATION_SEND_OBJECT
              then s\<lparr>mSendObjectHandle := kInvalidObjectHandle\<rparr> else s);
     t \<leftarrow> getContainerType (mRequest s);
     if t \<noteq> MTP_CONTAINER_TYPE_COMMAND then Some (False, s, e)
     else do {
       (response, s, e) \<leftarrow> dispatch fuel operation x s e;
       if response = MTP_RESPONSE_TRANSACTION_CANCELLED then Some (False, s, e)
       else do {
         r \<leftarrow> setContainerCode response (mResponse s);
         Some (True, s\<lparr>mResponse := r\<rparr>, e) } } }"

text \<open>
  One turn of the loop of \<open>run\<close>: the result is whether the loop goes on. An error leaves the loop, unless it
  is a cancellation.
\<close>

definition data_in :: "u16 \<Rightarrow> bool" where
  "data_in c \<longleftrightarrow> c = MTP_OPERATION_SEND_OBJECT_INFO \<or> c = MTP_OPERATION_SET_OBJECT_REFERENCES
     \<or> c = MTP_OPERATION_SET_OBJECT_PROP_VALUE \<or> c = MTP_OPERATION_SET_DEVICE_PROP_VALUE"

definition send_answer :: "'e outside \<Rightarrow> u16 \<Rightarrow> u32 \<Rightarrow> mtp_server \<Rightarrow> 'e \<Rightarrow> (bool \<times> mtp_server \<times> 'e) option" where
  "send_answer x operation transaction s e = do {
     (ret, s, e) \<leftarrow>
       (if \<not> data_in operation \<and> hasData (mData s) then do {
          p \<leftarrow> setOperationCode operation (mData s);
          p \<leftarrow> setTransactionID transaction p;
          (ret, p, e) \<leftarrow> data_write (fd_write x) p e;
          Some (ret, s\<lparr>mData := p\<rparr>, e) }
        else Some (0, s, e));
     if ret < 0 then Some (errno_cancelled x e, s, e)
     else do {
       r \<leftarrow> setTransactionID transaction (mResponse s);
       (ret, r, e) \<leftarrow> response_write (fd_write x) r e;
       let s = s\<lparr>mResponse := r\<rparr>;
       Some (if ret < 0 then errno_cancelled x e else True, s, e) } }"

definition serve :: "nat \<Rightarrow> 'e outside \<Rightarrow> mtp_server \<Rightarrow> 'e \<Rightarrow> (bool \<times> mtp_server \<times> 'e) option" where
  "serve fuel x s e = do {
     (ret, r, e) \<leftarrow> request_read (fd_read x) (mRequest s) e;
     let s = s\<lparr>mRequest := r\<rparr>;
     if ret < 0 then Some (errno_cancelled x e, s, e)
     else do {
       operation \<leftarrow> getContainerCode (mRequest s);
       transaction \<leftarrow> getTransactionID (mRequest s);
       (ret, p, e) \<leftarrow>
         (if data_in operation then data_read (fd_read x) (mData s) e
          else do { p \<leftarrow> data_reset (fresh x) (mData s); Some (0, p, e) });
       let s = s\<lparr>mData := p\<rparr>;
       if ret < 0 then Some (errno_cancelled x e, s, e)
       else do {
         (answer, s, e) \<leftarrow> handleRequest fuel x s e;
         if answer then send_answer x operation transaction s e else Some (True, s, e) } } }"

text \<open>\<open>run\<close>, with a bound \<open>turns\<close> on the turns; the first result is whether the loop has ended. At the end the open edits
  are committed.\<close>

fun close_edits :: "'e outside \<Rightarrow> object_edit list \<Rightarrow> 'e \<Rightarrow> 'e" where
  "close_edits x [] e = e"
| "close_edits x (ed # eds) e = close_edits x eds (close_file x (eFD ed) (commitEdit x ed e))"

fun run_server :: "nat \<Rightarrow> nat \<Rightarrow> 'e outside \<Rightarrow> mtp_server \<Rightarrow> 'e \<Rightarrow> (bool \<times> mtp_server \<times> 'e) option" where
  "run_server 0 fuel x s e = Some (False, s, e)"
| "run_server (Suc turns) fuel x s e = do {
     (go_on, s, e) \<leftarrow> serve fuel x s e;
     if go_on then run_server turns fuel x s e
     else let e = close_edits x (mObjectEditList s) e;
              s = s\<lparr>mObjectEditList := []\<rparr>
       in Some (True, s, if mSessionOpen s then sessionEnded x e else e) }"

end
