(* ===== verification/MtpServerFacts.thy ===== *)
theory MtpServerFacts
  imports MtpServer
begin

text \<open>
  The part of the server's state that outlives a request, the machine of commands on it, and how each
  handler implements it.
\<close>

section \<open>The lasting state\<close>

text \<open>
  The packets are refilled by every request and the storages belong to the application. What remains is
  the session, the object announced by \<open>SendObjectInfo\<close> and the edits.
\<close>

record lasting =
  session_of :: "bool \<times> u32"
  pending_of :: u32
  announced_of :: "u16 \<times> byte list"
  edits_of :: "object_edit list"

definition lasting :: "mtp_server \<Rightarrow> lasting" where
  "lasting s = \<lparr>session_of = (mSessionOpen s, mSessionID s), pending_of = mSendObjectHandle s,
     announced_of = (mSendObjectFormat s, mSendObjectFilePath s), edits_of = mObjectEditList s\<rparr>"

lemma lasting_simps [simp]:
  "lasting (s\<lparr>mRequest := rq\<rparr>) = lasting s" "lasting (s\<lparr>mData := p\<rparr>) = lasting s"
  "lasting (s\<lparr>mResponse := r\<rparr>) = lasting s" "lasting (s\<lparr>mStorages := sts\<rparr>) = lasting s"
  "lasting (s\<lparr>mSendObjectFileSize := n\<rparr>) = lasting s" "lasting (s\<lparr>mEvent := r\<rparr>) = lasting s"
  "lasting (s\<lparr>mObjectEditList := eds\<rparr>) = lasting s\<lparr>edits_of := eds\<rparr>"
  "lasting (s\<lparr>mSendObjectHandle := h\<rparr>) = lasting s\<lparr>pending_of := h\<rparr>"
  "lasting (s\<lparr>mSendObjectFormat := f\<rparr>) = lasting s\<lparr>announced_of := (f, mSendObjectFilePath s)\<rparr>"
  "lasting (s\<lparr>mSendObjectFilePath := path\<rparr>) = lasting s\<lparr>announced_of := (mSendObjectFormat s, path)\<rparr>"
  "lasting (s\<lparr>mSessionID := i\<rparr>) = lasting s\<lparr>session_of := (mSessionOpen s, i)\<rparr>"
  "lasting (s\<lparr>mSessionOpen := b\<rparr>) = lasting s\<lparr>session_of := (b, mSessionID s)\<rparr>"
  by (simp_all add: lasting_def)

lemma bindE:
  assumes "m \<bind> f = Some y"
  obtains z where "m = Some z" "f z = Some y"
  using assms by (cases m) auto

lemma respond_lasting [simp]: "respond i v s = Some s' \<Longrightarrow> lasting s' = lasting s"
  by (auto simp: respond_def bind_eq_Some_conv)

lemma put_data_lasting [simp]: "put_data fs s = Some s' \<Longrightarrow> lasting s' = lasting s"
  by (auto simp: put_data_def bind_eq_Some_conv)

text \<open>A handler that leaves the lasting state as it is.\<close>

definition transient :: "'e handler \<Rightarrow> bool" where
  "transient h \<longleftrightarrow> (\<forall>x s e r s' e'. h x s e = Some (r, s', e') \<longrightarrow> lasting s' = lasting s)"

lemma transientI: "(\<And>x s e r s' e'. h x s e = Some (r, s', e') \<Longrightarrow> lasting s' = lasting s) \<Longrightarrow> transient h"
  by (simp add: transient_def)

lemma transientD: "transient h \<Longrightarrow> h x s e = Some (r, s', e') \<Longrightarrow> lasting s' = lasting s"
  unfolding transient_def by blast

lemma transfer_file_lasting: "transfer_file x f offset len report s e = Some (r, s', e') \<Longrightarrow> lasting s' = lasting s"
  by (auto simp: transfer_file_def bind_eq_Some_conv Let_def case_prod_unfold
      split: if_split_asm option.split_asm)

lemma transient_info [intro]:
  "transient doGetDeviceInfo" "transient doGetStorageIDs" "transient doGetStorageInfo"
  "transient doGetObjectPropsSupported" "transient doGetObjectHandles" "transient doGetNumObjects"
  "transient doGetObjectReferences" "transient doSetObjectReferences"
  by (rule transientI, auto simp: doGetDeviceInfo_def doGetStorageIDs_def doGetStorageInfo_def
      doGetObjectPropsSupported_def doGetObjectHandles_def doGetNumObjects_def doGetObjectReferences_def
      doSetObjectReferences_def bind_eq_Some_conv Let_def case_prod_unfold
      split: if_split_asm option.split_asm)+

lemma transient_properties [intro]:
  "transient doGetObjectPropValue" "transient doSetObjectPropValue" "transient doGetDevicePropValue"
  "transient doSetDevicePropValue" "transient doResetDevicePropValue" "transient doGetObjectPropList"
  "transient doGetObjectPropDesc" "transient doGetDevicePropDesc"
  by (rule transientI, auto simp: doGetObjectPropValue_def doSetObjectPropValue_def doGetDevicePropValue_def
      doSetDevicePropValue_def doResetDevicePropValue_def doGetObjectPropList_def doGetObjectPropDesc_def
      doGetDevicePropDesc_def bind_eq_Some_conv Let_def case_prod_unfold
      split: if_split_asm option.split_asm)+

lemma transient_objects [intro]:
  "transient doGetObjectInfo" "transient doGetObject" "transient doGetThumb"
  "transient (doGetPartialObject c)" "transient (doDeleteObject fuel)"
  by (rule transientI, auto simp: doGetObjectInfo_def doGetObject_def doGetThumb_def doGetPartialObject_def
      doDeleteObject_def bind_eq_Some_conv Let_def case_prod_unfold dest: transfer_file_lasting
     
      split: if_split_asm option.split_asm)+

section \<open>The machine of sessions, announced objects and edits\<close>

text \<open>
  What a command may do to the lasting state. A session is opened when there is none and closed when there is one; an
  announced object is a file with a path, and sending it ends its announcement; an edit begins when the object has none,
  its size changes with the data that is sent or when it is truncated, and ends.
\<close>

inductive command_step :: "u16 \<Rightarrow> lasting \<Rightarrow> lasting \<Rightarrow> bool" where
  stays: "command_step c l l"
| opens: "\<not> fst (session_of l) \<Longrightarrow> command_step MTP_OPERATION_OPEN_SESSION l (l\<lparr>session_of := (True, i)\<rparr>)"
| closes: "fst (session_of l) \<Longrightarrow> command_step MTP_OPERATION_CLOSE_SESSION l (l\<lparr>session_of := (False, 0)\<rparr>)"
| announces: "h \<noteq> kInvalidObjectHandle \<Longrightarrow> f \<noteq> MTP_FORMAT_ASSOCIATION \<Longrightarrow> path \<noteq> [] \<Longrightarrow>
    command_step MTP_OPERATION_SEND_OBJECT_INFO l (l\<lparr>pending_of := h, announced_of := (f, path)\<rparr>)"
| sends: "command_step MTP_OPERATION_SEND_OBJECT l
    (l\<lparr>pending_of := kInvalidObjectHandle, announced_of := (0, snd (announced_of l))\<rparr>)"
| grows: "find_edit h (edits_of l) = Some ed \<Longrightarrow> eSize ed < n \<Longrightarrow>
    command_step MTP_OPERATION_SEND_PARTIAL_OBJECT l (l\<lparr>edits_of := resize_edit h n (edits_of l)\<rparr>)"
| truncates: "find_edit h (edits_of l) = Some ed \<Longrightarrow>
    command_step MTP_OPERATION_TRUNCATE_OBJECT l (l\<lparr>edits_of := resize_edit h n (edits_of l)\<rparr>)"
| begins: "find_edit (eHandle ed) (edits_of l) = None \<Longrightarrow>
    command_step MTP_OPERATION_BEGIN_EDIT_OBJECT l (l\<lparr>edits_of := edits_of l @ [ed]\<rparr>)"
| ends: "find_edit h (edits_of l) = Some ed \<Longrightarrow>
    command_step MTP_OPERATION_END_EDIT_OBJECT l (l\<lparr>edits_of := drop_edit h (edits_of l)\<rparr>)"

definition implements :: "'e handler \<Rightarrow> u16 \<Rightarrow> bool" where
  "implements h c \<longleftrightarrow> (\<forall>x s e r s' e'. h x s e = Some (r, s', e') \<longrightarrow> command_step c (lasting s) (lasting s'))"

lemma implementsI:
  "(\<And>x s e r s' e'. h x s e = Some (r, s', e') \<Longrightarrow> command_step c (lasting s) (lasting s')) \<Longrightarrow> implements h c"
  unfolding implements_def by blast

lemma implementsD: "implements h c \<Longrightarrow> h x s e = Some (r, s', e') \<Longrightarrow> command_step c (lasting s) (lasting s')"
  unfolding implements_def by blast

lemma transient_implements: "transient h \<Longrightarrow> implements h c"
  unfolding implements_def transient_def by (metis stays)

lemma fields_of_lasting:
  "edits_of (lasting s) = mObjectEditList s" "pending_of (lasting s) = mSendObjectHandle s"
  "session_of (lasting s) = (mSessionOpen s, mSessionID s)"
  "announced_of (lasting s) = (mSendObjectFormat s, mSendObjectFilePath s)"
  by (simp_all add: lasting_def)

lemma implements_sessions:
  "implements doOpenSession MTP_OPERATION_OPEN_SESSION" "implements doCloseSession MTP_OPERATION_CLOSE_SESSION"
proof (rule implementsI)
  fix x s e r s' e'
  assume "doOpenSession x s e = Some (r, s', e')"
  then show "command_step MTP_OPERATION_OPEN_SESSION (lasting s) (lasting s')"
    by (auto simp: doOpenSession_def bind_eq_Some_conv fields_of_lasting intro!: stays opens split: if_split_asm)
next
  show "implements doCloseSession MTP_OPERATION_CLOSE_SESSION"
    by (rule implementsI) (auto simp: doCloseSession_def fields_of_lasting intro!: stays closes split: if_split_asm)
qed

lemma join_path_nonempty [simp]: "join_path path name \<noteq> Some []"
  by (auto simp: join_path_def split: if_split_asm)

lemma accept_object_step:
  assumes "accept_object x path f i parent t s e = Some (r, s', e')" "path \<noteq> []"
  shows "command_step MTP_OPERATION_SEND_OBJECT_INFO (lasting s) (lasting s')"
proof -
  have "lasting s' = lasting s \<or> (\<exists>h. h \<noteq> kInvalidObjectHandle \<and> f \<noteq> MTP_FORMAT_ASSOCIATION
      \<and> lasting s' = lasting s\<lparr>pending_of := h, announced_of := (f, path)\<rparr>)"
    using assms(1)
    by (auto simp: accept_object_def Let_def case_prod_unfold bind_eq_Some_conv split: if_split_asm)
  then show ?thesis using assms(2) by (auto intro: stays announces)
qed

lemma implements_send_info: "implements doSendObjectInfo MTP_OPERATION_SEND_OBJECT_INFO"
proof (rule implementsI)
  fix x s e r s' e'
  assume "doSendObjectInfo x s e = Some (r, s', e')"
  then show "command_step MTP_OPERATION_SEND_OBJECT_INFO (lasting s) (lasting s')"
    by (auto simp: doSendObjectInfo_def Let_def case_prod_unfold intro!: stays
        elim!: bindE dest!: accept_object_step
        split: if_split_asm option.split_asm sum.split_asm)
qed

lemma implements_send: "implements doSendObject MTP_OPERATION_SEND_OBJECT"
proof (rule implementsI)
  fix x s e r s' e'
  assume run: "doSendObject x s e = Some (r, s', e')"
  have "lasting s' = lasting s \<or> lasting s'
      = lasting s\<lparr>pending_of := kInvalidObjectHandle, announced_of := (0, snd (announced_of (lasting s)))\<rparr>"
    using run by (auto simp: doSendObject_def Let_def case_prod_unfold lasting_def elim!: bindE split: if_split_asm)
  then show "command_step MTP_OPERATION_SEND_OBJECT (lasting s) (lasting s')"
    by (auto intro: stays sends)
qed

lemma edits_lasting:
  "getEditObject h s = find_edit h (edits_of (lasting s))"
  "lasting (setEditSize h n s) = lasting s\<lparr>edits_of := resize_edit h n (edits_of (lasting s))\<rparr>"
  "lasting (addEditObject h path n f fd s) = lasting s\<lparr>edits_of := edits_of (lasting s)
     @ [\<lparr>eHandle = h, ePath = path, eSize = n, eFormat = f, eFD = fd\<rparr>]\<rparr>"
  "removeEditObject x h s e = (s', e') \<Longrightarrow> find_edit h (edits_of (lasting s)) = Some ed \<Longrightarrow>
     lasting s' = lasting s\<lparr>edits_of := drop_edit h (edits_of (lasting s))\<rparr>"
  by (auto simp: getEditObject_def setEditSize_def addEditObject_def removeEditObject_def fields_of_lasting)

lemmas edit_defs = doTruncateObject_def doBeginEditObject_def doEndEditObject_def doSendPartialObject_def

lemma implements_edits:
  "implements doTruncateObject MTP_OPERATION_TRUNCATE_OBJECT"
  "implements doBeginEditObject MTP_OPERATION_BEGIN_EDIT_OBJECT"
  "implements doEndEditObject MTP_OPERATION_END_EDIT_OBJECT"
  by (rule implementsI, auto simp: edit_defs Let_def case_prod_unfold edits_lasting elim!: bindE
      intro!: stays begins truncates ends split: if_split_asm option.split_asm)+

lemma implements_partial: "implements doSendPartialObject MTP_OPERATION_SEND_PARTIAL_OBJECT"
proof (rule implementsI)
  fix x s e r s' e'
  assume "doSendPartialObject x s e = Some (r, s', e')"
  then show "command_step MTP_OPERATION_SEND_PARTIAL_OBJECT (lasting s) (lasting s')"
    by (auto simp: edit_defs Let_def case_prod_unfold edits_lasting elim!: bindE
        intro!: stays grows split: if_split_asm option.split_asm) simp_all
qed

text \<open>Every command, whichever handler it is dispatched to.\<close>

lemma transient_unsupported: "transient (\<lambda>x s e. Some (MTP_RESPONSE_OPERATION_NOT_SUPPORTED, s, e))"
  by (rule transientI) simp

lemmas dispatched = transient_info transient_properties transient_objects transient_unsupported

lemmas implementing = implements_sessions implements_send_info implements_send implements_edits implements_partial
  dispatched [THEN transient_implements]

lemma implements_dispatch: "implements (dispatch fuel c) c"
  unfolding dispatch_def by (simp add: implementing)

end
