(* ===== verification/MtpExchange.thy ===== *)
theory MtpExchange
  imports MtpServerFacts
begin

text \<open>
  The dataset that describes a device on its way from the server that is asked for it to the host: what the list
  of put operations writes, how it is sent and received, and what the host reads.
\<close>

section \<open>What a list of put operations writes\<close>

lemma run_puts_cons: "run_puts (f # fs) = (\<lambda>p. f p \<bind> run_puts fs)"
  by (rule ext) simp

lemma writes_run_puts: "list_all2 writes bss fs \<Longrightarrow> writes (concat bss) (run_puts fs)"
proof (induction rule: list_all2_induct)
  case Nil
  have "run_puts [] = Some" by (rule ext) simp
  then show ?case by (simp add: writes_none)
next
  case (Cons bs bss f fs)
  then show ?case by (simp add: run_puts_cons writes_seq del: run_puts.simps)
qed

lemma writes_array16:
  "length vs < 2 ^ 32 \<Longrightarrow> writes (array16 vs) (putAUInt16 g vs (int (length vs)))"
  unfolding array16_def by (rule au16.put_writes) (simp add: list_all_iff)

lemma writes_array16_list:
  "length (case vs of None \<Rightarrow> [] | Some ws \<Rightarrow> ws) < 2 ^ 32 \<Longrightarrow>
     writes (array16 (case vs of None \<Rightarrow> [] | Some ws \<Rightarrow> ws)) (putAUInt16_list g vs)"
  using writes_array16 [of "case vs of None \<Rightarrow> [] | Some ws \<Rightarrow> ws" g] by (cases vs) (simp_all add: put_lists)

lemma writes_text: "proper_string cs \<Longrightarrow> writes (wire cs) (put_text x (utf8 cs))"
  unfolding put_text_def by (rule writes_putString) (auto simp: proper_string_def)

text \<open>ASCII is its own UTF-8.\<close>

lemma utf8_char_ascii: "\<not> bit c 7 \<Longrightarrow> utf8_char (ucast (c :: byte)) = [c]"
proof -
  assume "\<not> bit c 7"
  then have "(ucast c :: u16) < 0x80" by (simp add: high_bits bit_simps bit_byte_high)
  moreover have "(ucast (ucast c :: u16) :: byte) = c"
    by (rule bit_word_eqI) (simp add: bit_simps)
  ultimately show ?thesis by (auto simp: utf8_char_def word_le_nat_alt word_less_nat_alt)
qed

lemma utf8_ascii: "list_all (\<lambda>c. \<not> bit c 7) bs \<Longrightarrow> utf8 (map ucast bs) = bs"
  by (induction bs) (simp_all add: utf8_char_ascii)

definition extensions :: "u16 list" where
  "extensions = map ucast (c_string ''microsoft.com: 1.0; android.com: 1.0;'')"

lemma extensions: "utf8 extensions = c_string ''microsoft.com: 1.0; android.com: 1.0;''" "proper_string extensions"
  unfolding extensions_def
  by (rule utf8_ascii, simp add: c_string_def, simp add: c_string_def proper_string_def)

definition version_1_0 :: "u16 list" where
  "version_1_0 = map ucast (c_string ''1.0'')"

lemma version_1_0: "utf8 version_1_0 = c_string ''1.0''" "proper_string version_1_0"
  unfolding version_1_0_def
  by (rule utf8_ascii, simp add: c_string_def, simp add: c_string_def proper_string_def)

section \<open>The dataset of a device\<close>

definition given :: "u16 list option \<Rightarrow> u16 list" where
  "given vs = (case vs of None \<Rightarrow> [] | Some ws \<Rightarrow> ws)"

definition vendor_of :: "mtp_server \<Rightarrow> u32" where
  "vendor_of s = (if mPtp s then 0 else 6)"

definition extensions_of :: "mtp_server \<Rightarrow> u16 list" where
  "extensions_of s = (if mPtp s then [] else extensions)"

text \<open>What the server says, for the answers of the database and the texts of the product.\<close>

record device_answers =
  aPlayback :: "u16 list option"
  aCapture :: "u16 list option"
  aProperties :: "u16 list option"
  aManufacturer :: "u16 list"
  aModel :: "u16 list"
  aSerial :: "u16 list"

definition sent_bytes :: "mtp_server \<Rightarrow> device_answers \<Rightarrow> byte list list" where
  "sent_bytes s a = device_info_bytes (vendor_of s) (extensions_of s) kSupportedOperationCodes kSupportedEventCodes
     (given (aProperties a)) (given (aCapture a)) (given (aPlayback a)) (aManufacturer a) (aModel a) version_1_0 (aSerial a)"

definition sent_info :: "mtp_server \<Rightarrow> device_answers \<Rightarrow> mtp_device_info" where
  "sent_info s a = \<lparr>mStandardVersion = 100, mVendorExtensionID = (if mPtp s then 0 else 6),
     mVendorExtensionVersion = 100,
     mVendorExtensionDesc = Some (if mPtp s then [] else c_string ''microsoft.com: 1.0; android.com: 1.0;''),
     mFunctionalMode = 0, mOperations = Some kSupportedOperationCodes, mEvents = Some kSupportedEventCodes,
     mDeviceProperties = Some (given (aProperties a)), mCaptureFormats = Some (given (aCapture a)),
     mPlaybackFormats = Some (given (aPlayback a)), mManufacturer = Some (utf8 (aManufacturer a)),
     mModel = Some (utf8 (aModel a)), mVersion = Some (c_string ''1.0''), mSerial = Some (utf8 (aSerial a))\<rparr>"

definition answers_ok :: "device_answers \<Rightarrow> bool" where
  "answers_ok a \<longleftrightarrow> list_all proper_string [aManufacturer a, aModel a, aSerial a]
     \<and> list_all (\<lambda>vs. length (given vs) < 2 ^ 32) [aPlayback a, aCapture a, aProperties a]"

definition answered :: "'e outside \<Rightarrow> 'e \<Rightarrow> device_answers \<Rightarrow> 'e \<Rightarrow> bool" where
  "answered x e a e' \<longleftrightarrow> (\<exists>e1 e2. getSupportedPlaybackFormats x e = (aPlayback a, e1)
     \<and> getSupportedCaptureFormats x e1 = (aCapture a, e2) \<and> getSupportedDeviceProperties x e2 = (aProperties a, e')
     \<and> product_strings x e' = (utf8 (aManufacturer a), utf8 (aModel a), utf8 (aSerial a)))"

lemma extensions_of: "utf8 (extensions_of s) = (if mPtp s then [] else c_string ''microsoft.com: 1.0; android.com: 1.0;'')"
  "proper_string (extensions_of s)"
  using extensions by (simp_all add: extensions_of_def proper_string_def)

lemma sent_info_read:
  assumes "answers_ok a"
  shows "gives device_info_read (concat (sent_bytes s a)) r (sent_info s a)"
  using assms device_info_gives [of "extensions_of s" "aManufacturer a" "aModel a" version_1_0 "aSerial a"
      kSupportedOperationCodes kSupportedEventCodes "given (aProperties a)" "given (aCapture a)"
      "given (aPlayback a)" "vendor_of s" r]
  by (simp add: answers_ok_def sent_bytes_def sent_info_def extensions_of version_1_0 vendor_of_def
      kSupportedOperationCodes_def kSupportedEventCodes_def)

lemma device_info_answered:
  assumes "answered x e a e'" "answers_ok a" "appending (mData s)" "room (length (concat (sent_bytes s a))) (mData s)"
  obtains q where "doGetDeviceInfo x s e = Some (MTP_RESPONSE_OK, s\<lparr>mData := q\<rparr>, e')"
    "appended (concat (sent_bytes s a)) (mData s) q"
proof -
  let ?f = "fresh x"
  let ?puts = "[putUInt16 ?f MTP_STANDARD_VERSION, putUInt32 ?f (vendor_of s), putUInt16 ?f MTP_STANDARD_VERSION,
    put_text x (utf8 (extensions_of s)), putUInt16 ?f 0,
    putAUInt16 ?f kSupportedOperationCodes (int (length kSupportedOperationCodes)),
    putAUInt16 ?f kSupportedEventCodes (int (length kSupportedEventCodes)),
    putAUInt16_list ?f (aProperties a), putAUInt16_list ?f (aCapture a), putAUInt16_list ?f (aPlayback a),
    put_text x (utf8 (aManufacturer a)), put_text x (utf8 (aModel a)), put_text x (utf8 version_1_0),
    put_text x (utf8 (aSerial a))]"
  have n: "writes (le_bytes 2 v) (putUInt16 ?f v)" "writes (le_bytes 4 w) (putUInt32 ?f w)" for v w
    by (simp_all add: u16.put_writes u32.put_writes)
  have c: "length kSupportedOperationCodes < 2 ^ 32" "length kSupportedEventCodes < 2 ^ 32"
    by (simp_all add: kSupportedOperationCodes_def kSupportedEventCodes_def)
  have l: "length (given vs) < 2 ^ 32 \<Longrightarrow> writes (array16 (given vs)) (putAUInt16_list ?f vs)" for vs
    unfolding given_def by (rule writes_array16_list)
  have "list_all2 writes (sent_bytes s a) ?puts"
    using assms(2) c
    by (simp add: sent_bytes_def device_info_bytes_def answers_ok_def MTP_STANDARD_VERSION_def n l
        writes_array16 writes_text extensions_of(2) version_1_0(2))
  then obtain q where q: "run_puts ?puts (mData s) = Some q" "appended (concat (sent_bytes s a)) (mData s) q"
    by (rule writesE [OF writes_run_puts assms(3,4)])
  have "doGetDeviceInfo x s e = (put_data ?puts s \<bind> (\<lambda>s. Some (MTP_RESPONSE_OK, s, e')))"
    using assms(1) by (auto simp: doGetDeviceInfo_def answered_def vendor_of_def extensions_of(1) version_1_0(1)
        simp del: run_puts.simps)
  then have "doGetDeviceInfo x s e = Some (MTP_RESPONSE_OK, s\<lparr>mData := q\<rparr>, e')"
    by (simp add: put_data_def q(1) del: run_puts.simps)
  then show ?thesis using q(2) by (rule that)
qed

section \<open>On to the host\<close>

text \<open>Storing into the header leaves the data behind it.\<close>

lemma header_stored:
  assumes "well_formed p" "12 \<le> mPacketSize p" "i + length bs \<le> 12"
  obtains buf where "pokes (mBuffer p) i bs = Some buf" "well_formed (p\<lparr>mBuffer := buf\<rparr>)"
    "drop 12 (contents (p\<lparr>mBuffer := buf\<rparr>)) = drop 12 (contents p)"
proof -
  have "12 \<le> length (mBuffer p)" using assms by (simp add: well_formed_def)
  then have run: "pokes (mBuffer p) i bs = Some (take i (mBuffer p) @ bs @ drop (i + length bs) (mBuffer p))"
    using assms(3) by (intro pokes_inside) simp
  have "drop 12 (take i (mBuffer p) @ bs @ drop (i + length bs) (mBuffer p)) = drop 12 (mBuffer p)"
    using assms(3) \<open>12 \<le> length (mBuffer p)\<close> by (simp add: drop_append)
  then show ?thesis
    using assms by (intro that [OF run]) (auto simp: well_formed_def contents_def drop_take)
qed

lemma header_filled:
  assumes "well_formed p" "12 \<le> mPacketSize p"
  obtains q where "setOperationCode c p \<bind> setTransactionID t = Some q" "well_formed q"
    "mPacketSize q = mPacketSize p" "drop 12 (contents q) = drop 12 (contents p)"
proof -
  obtain b1 where b1: "pokes (mBuffer p) 6 [byte_at c 0, byte_at c 1] = Some b1" "well_formed (p\<lparr>mBuffer := b1\<rparr>)"
    "drop 12 (contents (p\<lparr>mBuffer := b1\<rparr>)) = drop 12 (contents p)"
    by (rule header_stored [OF assms, of 6 "[byte_at c 0, byte_at c 1]"]) simp_all
  let ?p1 = "p\<lparr>mBuffer := b1\<rparr>"
  have "12 \<le> mPacketSize ?p1" using assms(2) by simp
  then obtain b2 where b2: "pokes (mBuffer ?p1) 8 [byte_at t 0, byte_at t 1, byte_at t 2, byte_at t 3] = Some b2"
    "well_formed (?p1\<lparr>mBuffer := b2\<rparr>)" "drop 12 (contents (?p1\<lparr>mBuffer := b2\<rparr>)) = drop 12 (contents ?p1)"
    by (rule header_stored [OF b1(2), of 8 "[byte_at t 0, byte_at t 1, byte_at t 2, byte_at t 3]"]) simp_all
  have "setOperationCode c p \<bind> setTransactionID t = Some (?p1\<lparr>mBuffer := b2\<rparr>)"
    using b1(1) b2(1) by (simp add: setOperationCode_def setTransactionID_def packet_putUInt16_def packet_putUInt32_def
        MTP_CONTAINER_CODE_OFFSET_def MTP_CONTAINER_TRANSACTION_ID_OFFSET_def)
  then show ?thesis by (rule that) (use b1(3) b2(2,3) in simp_all)
qed

text \<open>
  A bus between the two: the pieces into which the container \<open>bs\<close> is cut, the first with its header, for a
  host whose packet is empty and that makes enough transfers.
\<close>

definition cut_for :: "mtp_data_packet \<Rightarrow> nat \<Rightarrow> byte list \<Rightarrow> byte list list \<Rightarrow> bool" where
  "cut_for h fuel bs pieces \<longleftrightarrow> (\<exists>c cs. pieces = c # cs \<and> concat pieces = bs \<and> 12 \<le> length c
     \<and> length c \<le> mBufferSize h \<and> [] \<notin> set cs \<and> length cs < fuel)
     \<and> well_formed h \<and> mOffset h = 12 \<and> length bs + mAllocationIncrement h < 2 ^ 31"

text \<open>
  C26: What a server says of its device arrives at the host: the server answers \<open>GetDeviceInfo\<close> by a data packet which it
  sends as one container; however the bus cuts that container, the host receives it and reads from it exactly
  the dataset that the server has put together, with the operations and events it supports, what its
  database answered, and the texts of the product.
\<close>

theorem device_info_reaches_host:
  assumes "answered x e a e'" "answers_ok a" "appending (mData s)" "mPacketSize (mData s) = 12"
    "room (length (concat (sent_bytes s a))) (mData s)" "length (mBytes b) = string_bytes"
  shows "\<exists>s' p bytes. doGetDeviceInfo x s e = Some (MTP_RESPONSE_OK, s', e')
    \<and> setOperationCode MTP_OPERATION_GET_DEVICE_INFO (mData s') \<bind> setTransactionID t = Some p
    \<and> (\<forall>e. \<exists>q. data_write (fd_write x) p e = (let (ret, e) = fd_write x bytes e in Some (ok_result ret, q, e)))
    \<and> (\<forall>h fuel pieces. cut_for h fuel bytes pieces \<longrightarrow>
        (\<exists>n q b' q'. usb_read g fuel deliver h pieces = Some (Some n, q, [])
          \<and> device_info_read ((b, MtpDeviceInfo), q) = Some (True, (b', sent_info s a), q')))"
proof -
  let ?bs = "concat (sent_bytes s a)"
  obtain d where d: "doGetDeviceInfo x s e = Some (MTP_RESPONSE_OK, s\<lparr>mData := d\<rparr>, e')" "appended ?bs (mData s) d"
    by (rule device_info_answered [OF assms(1-3,5)])
  have wf: "well_formed d" "12 \<le> mPacketSize d" "drop 12 (contents d) = ?bs"
    using d(2) appended_size [OF assms(3) d(2)] assms(3,4) length_contents [of "mData s"]
    by (simp_all add: appended_def appending_def)
  obtain p where p: "setOperationCode MTP_OPERATION_GET_DEVICE_INFO d \<bind> setTransactionID t = Some p"
    "well_formed p" "mPacketSize p = mPacketSize d" "drop 12 (contents p) = drop 12 (contents d)"
    by (rule header_filled [OF wf(1,2)])
  let ?bytes = "sealed MTP_CONTAINER_TYPE_DATA (contents p)"
  have size: "12 \<le> mPacketSize p" using p(3) wf(2) by simp
  have len: "length ?bytes = mPacketSize p"
    using length_sealed [of "contents p"] size length_contents [OF p(2)] by simp
  have sent: "\<exists>q. data_write (fd_write x) p e = (let (ret, e) = fd_write x ?bytes e in Some (ok_result ret, q, e))" for e
  proof -
    obtain q where "data_write (fd_write x) p e = (let (ret, e) = fd_write x ?bytes e in Some (ok_result ret, q, e))"
      by (rule data_write_sends [OF p(2) size]) (rule that)
    then show ?thesis by blast
  qed
  have got: "\<exists>n q b' q'. usb_read g fuel deliver h pieces = Some (Some n, q, [])
      \<and> device_info_read ((b, MtpDeviceInfo), q) = Some (True, (b', sent_info s a), q')"
    if cut: "cut_for h fuel ?bytes pieces" for h fuel pieces
  proof -
    obtain c cs where c: "pieces = c # cs" "concat (c # cs) = ?bytes" "12 \<le> length c" "length c \<le> mBufferSize h"
      "[] \<notin> set cs" "length cs < fuel" and h: "well_formed h" "mOffset h = 12"
      "mPacketSize p + mAllocationIncrement h < 2 ^ 31"
      using cut len unfolding cut_for_def by auto
    obtain q where q: "usb_read g fuel deliver h pieces = Some (Some (int (mPacketSize p)), q, [])"
      "mOffset q = 12" "drop 12 (contents q) = ?bs" "mPacketSize q = mPacketSize p" "mPacketSize q \<le> length (mBuffer q)"
      using usb_read_delivers [OF p(2) size h(3,1) c(2-6), of g] c(1) h(2) p(4) wf(3) by auto
    have "readable q" "unread q = ?bs @ []"
      using q size by (simp_all add: readable_def unread_def)
    then obtain b' where "device_info_read ((b, MtpDeviceInfo), q) = Some (True, (b', sent_info s a), advance (length ?bs) q)"
      by (rule givesE [OF sent_info_read [OF assms(2)] _ _ assms(6)])
    then show ?thesis using q(1) by blast
  qed
  show ?thesis
    using d(1) p(1) sent got by (intro exI [of _ "s\<lparr>mData := d\<rparr>"] exI [of _ p] exI [of _ ?bytes]) auto
qed

text \<open>An outside in which every call succeeds, for a device with one file, and a server that has just started.\<close>

definition sample_outside :: "unit outside" where
  "sample_outside = \<lparr>fresh = (\<lambda>_. 7), junk = (\<lambda>_. 9), parse_time = (\<lambda>_. None), format_time = (\<lambda>_. []),
     product_strings = (\<lambda>_. ([0x41], [0x42], [0x43])),
     beginSendObject = (\<lambda>_ _ _ _ _ _ e. (5, e)), endSendObject = (\<lambda>_ _ _ _ e. e),
     getObjectList = (\<lambda>_ _ _ e. (Some [5], e)), getNumObjects = (\<lambda>_ _ _ e. (1, e)),
     getSupportedPlaybackFormats = (\<lambda>e. (Some [0x3000], e)), getSupportedCaptureFormats = (\<lambda>e. (None, e)),
     getSupportedObjectProperties = (\<lambda>_ e. (None, e)), getSupportedDeviceProperties = (\<lambda>e. (Some [0x5001], e)),
     getObjectPropertyValue = (\<lambda>_ _ p e. (MTP_RESPONSE_OK, p, e)),
     setObjectPropertyValue = (\<lambda>_ _ p e. (MTP_RESPONSE_OK, p, e)),
     getDevicePropertyValue = (\<lambda>_ p e. (MTP_RESPONSE_OK, p, e)),
     setDevicePropertyValue = (\<lambda>_ p e. (MTP_RESPONSE_OK, p, e)),
     resetDeviceProperty = (\<lambda>_ e. (MTP_RESPONSE_OK, e)),
     getObjectPropertyList = (\<lambda>_ _ _ _ _ p e. (MTP_RESPONSE_OK, p, e)),
     getObjectInfo = (\<lambda>_ info e. (MTP_RESPONSE_OK, info, e)), getThumbnail = (\<lambda>_ e. (None, e)),
     getObjectFilePath = (\<lambda>_ e. (MTP_RESPONSE_OK, \<lparr>fPath = [0x2F], fLength = 10, fFormat = 0x3000\<rparr>, e)),
     deleteFile = (\<lambda>_ e. (MTP_RESPONSE_OK, e)), getObjectReferences = (\<lambda>_ e. (None, e)),
     setObjectReferences = (\<lambda>_ _ e. (MTP_RESPONSE_OK, e)), getObjectPropertyDesc = (\<lambda>_ _ e. (None, e)),
     getDevicePropertyDesc = (\<lambda>_ e. (None, e)), sessionStarted = (\<lambda>e. e), sessionEnded = (\<lambda>e. e),
     statfs = (\<lambda>_ _. None), open_read = (\<lambda>_ e. (3, e)), open_create = (\<lambda>_ e. (3, e)), open_edit = (\<lambda>_ e. (3, e)),
     set_permissions = (\<lambda>_ e. e), close_file = (\<lambda>_ e. e), write_file = (\<lambda>_ bs e. (int (length bs), e)),
     pwrite_file = (\<lambda>_ bs _ e. (int (length bs), e)), ftruncate = (\<lambda>_ _ e. (0, e)), make_dir = (\<lambda>_ e. (0, e)),
     chown_dir = (\<lambda>_ e. e), unlink_file = (\<lambda>_ e. e), remove_dir = (\<lambda>_ e. e), stat_is_dir = (\<lambda>_ _. None),
     read_dir = (\<lambda>_ _. None), errno_cancelled = (\<lambda>_. False), fd_read = (\<lambda>_ e. (20, replicate 20 1, e)),
     fd_write = (\<lambda>bs e. (int (length bs), e)), send_event = (\<lambda>_ e. (0, e)),
     send_file = (\<lambda>_ _ _ _ _ e. (0, e)), receive_file = (\<lambda>_ _ _ e. (0, e))\<rparr>"

definition sample_answers :: device_answers where
  "sample_answers = \<lparr>aPlayback = Some [0x3000], aCapture = None, aProperties = Some [0x5001], aManufacturer = [0x41],
     aModel = [0x42], aSerial = [0x43]\<rparr>"

definition sample_server :: mtp_server where
  "sample_server = (MtpServer sample_outside False)\<lparr>mData := blank_packet\<rparr>"

lemma sample_room: "room (length (concat (sent_bytes sample_server sample_answers))) blank_packet"
proof (rule blank_packet(2))
  have "length (wire cs) = (if cs = [] then 1 else 3 + 2 * length cs)" for cs
    by (simp add: wire_def length_concat comp_def sum_list_triv)
  moreover have "length (array16 vs) = 4 + 2 * length vs" for vs
    by (simp add: array16_def length_concat comp_def sum_list_triv)
  ultimately show "length (concat (sent_bytes sample_server sample_answers)) < 2000000000"
    by (simp add: sent_bytes_def device_info_bytes_def sample_answers_def given_def extensions_of_def extensions_def
        c_string_def version_1_0_def kSupportedOperationCodes_def kSupportedEventCodes_def)
qed

theorem device_info_reaches_host_witness:
  "\<exists>s' p bytes. doGetDeviceInfo sample_outside sample_server () = Some (MTP_RESPONSE_OK, s', ())
    \<and> setOperationCode MTP_OPERATION_GET_DEVICE_INFO (mData s') \<bind> setTransactionID 1 = Some p
    \<and> (\<forall>e. \<exists>q. data_write (fd_write sample_outside) p e
        = (let (ret, e) = fd_write sample_outside bytes e in Some (ok_result ret, q, e)))
    \<and> (\<forall>h fuel pieces. cut_for h fuel bytes pieces \<longrightarrow>
        (\<exists>n q b' q'. usb_read (\<lambda>_. 0) fuel deliver h pieces = Some (Some n, q, [])
          \<and> device_info_read ((MtpStringBuffer (\<lambda>_. 0), MtpDeviceInfo), q)
              = Some (True, (b', sent_info sample_server sample_answers), q')))"
proof (rule device_info_reaches_host)
  have "utf8 [0x41] = [0x41]" "utf8 [0x42] = [0x42]" "utf8 [0x43] = [0x43]"
    by (simp_all add: utf8_char_def)
  then show "answered sample_outside () sample_answers ()"
    by (simp add: answered_def sample_outside_def sample_answers_def)
  show "answers_ok sample_answers"
    by (simp add: answers_ok_def sample_answers_def given_def proper_string_def)
  show "room (length (concat (sent_bytes sample_server sample_answers))) (mData sample_server)"
    using sample_room by (simp add: sample_server_def)
qed (simp_all add: sample_server_def blank_packet(1), simp add: blank_packet_def)

end
