(* ===== verification/MtpServerProperties.thy ===== *)
theory MtpServerProperties
  imports MtpExchange
begin

text \<open>
  The properties of the server: it refines the machine of sessions, announced objects and edits; the invariants
  that follow for every run; and the operations that go wrong at the borders of their arguments.
\<close>

section \<open>Requests and runs\<close>

text \<open>
  A request: whatever it is, an object that was announced before is given up unless it is \<open>SendObject\<close>; then,
  if its container is a command, the command.
\<close>

definition given_up :: "u16 \<Rightarrow> lasting \<Rightarrow> lasting" where
  "given_up c l = (if c = MTP_OPERATION_SEND_OBJECT then l else l\<lparr>pending_of := kInvalidObjectHandle\<rparr>)"

lemma given_up_lasting:
  "lasting (if mSendObjectHandle s \<noteq> kInvalidObjectHandle \<and> c \<noteq> MTP_OPERATION_SEND_OBJECT
     then s\<lparr>mSendObjectHandle := kInvalidObjectHandle\<rparr> else s) = given_up c (lasting s)"
  by (auto simp: given_up_def lasting_def)

lemma handle_request_step:
  assumes "handleRequest fuel x s e = Some (answer, s', e')" "getContainerCode (mRequest s) = Some c"
  shows "lasting s' = given_up c (lasting s) \<or>
    getContainerType (mRequest s) = Some MTP_CONTAINER_TYPE_COMMAND \<and> command_step c (given_up c (lasting s)) (lasting s')"
proof -
  obtain r where r: "packet_reset (fresh x) (mResponse s) = Some r"
    using assms by (auto simp: handleRequest_def elim!: bindE)
  let ?s0 = "s\<lparr>mResponse := r\<rparr>"
  let ?s = "if mSendObjectHandle s \<noteq> kInvalidObjectHandle \<and> c \<noteq> MTP_OPERATION_SEND_OBJECT
     then ?s0\<lparr>mSendObjectHandle := kInvalidObjectHandle\<rparr> else ?s0"
  have l: "lasting ?s = given_up c (lasting s)" "mRequest ?s = mRequest s"
    using given_up_lasting [of s c] by (auto simp: given_up_def lasting_def)
  obtain t where t: "getContainerType (mRequest s) = Some t"
    using assms l(2) by (auto simp: handleRequest_def Let_def elim!: bindE split: if_split_asm)
  show ?thesis
  proof (cases "t = MTP_CONTAINER_TYPE_COMMAND")
    case False
    then have "lasting s' = lasting ?s"
      using assms r t l(2) by (auto simp: handleRequest_def Let_def split: if_split_asm)
    then show ?thesis using l(1) by simp
  next
    case True
    have run: "dispatch fuel c x ?s e \<bind> (\<lambda>(response, s, e).
        if response = MTP_RESPONSE_TRANSACTION_CANCELLED then Some (False, s, e)
        else do { r \<leftarrow> setContainerCode response (mResponse s); Some (True, s\<lparr>mResponse := r\<rparr>, e) })
        = Some (answer, s', e')"
      using assms r t True l(2) by (simp add: handleRequest_def Let_def split: if_split_asm)
    obtain response s1 e1 where d: "dispatch fuel c x ?s e = Some (response, s1, e1)" "lasting s' = lasting s1"
      using run by (auto elim!: bindE split: if_split_asm)
    have "command_step c (lasting ?s) (lasting s1)"
      by (rule implementsD [OF implements_dispatch d(1)])
    then show ?thesis using True t d(2) l(1) by simp
  qed
qed

text \<open>
  Runs of the server: turns of its loop, and storages and events that the application announces in between, while the
  outside may have changed.
\<close>

inductive server_run :: "nat \<Rightarrow> 'e outside \<Rightarrow> mtp_server \<Rightarrow> bool" for fuel x where
  start: "server_run fuel x (MtpServer x ptp)"
| turn: "server_run fuel x s \<Longrightarrow> serve fuel x s e = Some (go_on, s', e') \<Longrightarrow> server_run fuel x s'"
| added: "server_run fuel x s \<Longrightarrow> addStorage x st s e = Some (s', e') \<Longrightarrow> server_run fuel x s'"
| removed: "server_run fuel x s \<Longrightarrow> removeStorage x i s e = Some (s', e') \<Longrightarrow> server_run fuel x s'"
| event: "server_run fuel x s \<Longrightarrow> sendEvent x c v s e = Some (s', e') \<Longrightarrow> server_run fuel x s'"

text \<open>The machine that it refines.\<close>

definition machine_start :: lasting where
  "machine_start = \<lparr>session_of = (False, 0), pending_of = kInvalidObjectHandle, announced_of = (0, []), edits_of = []\<rparr>"

inductive machine_run :: "lasting \<Rightarrow> bool" where
  begin_run: "machine_run machine_start"
| give_up: "machine_run l \<Longrightarrow> machine_run (given_up c l)"
| command: "machine_run l \<Longrightarrow> command_step c (given_up c l) l' \<Longrightarrow> machine_run l'"

lemma send_event_lasting: "sendEvent x c v s e = Some (s', e') \<Longrightarrow> lasting s' = lasting s"
  by (auto simp: sendEvent_def case_prod_unfold elim!: bindE split: if_split_asm)

lemma send_answer_lasting: "send_answer x c t s e = Some (go_on, s', e') \<Longrightarrow> lasting s' = lasting s"
  by (auto simp: send_answer_def Let_def elim!: bindE split: if_split_asm prod.split_asm)

lemma serve_step:
  assumes "serve fuel x s e = Some (go_on, s', e')"
  obtains "lasting s' = lasting s"
  | c where "lasting s' = given_up c (lasting s)"
  | c where "command_step c (given_up c (lasting s)) (lasting s')"
proof -
  obtain ret rq e1 where rq: "request_read (fd_read x) (mRequest s) e = Some (ret, rq, e1)"
    using assms by (auto simp: serve_def elim!: bindE)
  let ?s1 = "s\<lparr>mRequest := rq\<rparr>"
  show ?thesis
  proof (cases "ret < 0")
    case True
    then have "lasting s' = lasting s" using assms rq by (auto simp: serve_def)
    then show ?thesis by (rule that(1))
  next
    case False
    obtain c t ret' p e2 where c: "getContainerCode rq = Some c" "getTransactionID rq = Some t"
      "(if data_in c then data_read (fd_read x) (mData ?s1) e1
        else do { p \<leftarrow> data_reset (fresh x) (mData ?s1); Some (0, p, e1) }) = Some (ret', p, e2)"
      using assms rq False by (auto simp: serve_def Let_def elim!: bindE)
    let ?s2 = "?s1\<lparr>mData := p\<rparr>"
    show ?thesis
    proof (cases "ret' < 0")
      case True
      then have "lasting s' = lasting s"
        using assms rq False c by (auto simp: serve_def Let_def split: if_split_asm)
      then show ?thesis by (rule that(1))
    next
      case no: False
      have run: "handleRequest fuel x ?s2 e2 \<bind> (\<lambda>(answer, s, e).
          if answer then send_answer x c t s e else Some (True, s, e)) = Some (go_on, s', e')"
        using assms rq False c no by (simp add: serve_def Let_def)
      obtain answer s3 e3 where h: "handleRequest fuel x ?s2 e2 = Some (answer, s3, e3)" "lasting s' = lasting s3"
        using run by (auto elim!: bindE dest!: send_answer_lasting split: if_split_asm)
      have "lasting s' = given_up c (lasting s) \<or> command_step c (given_up c (lasting s)) (lasting s')"
        using handle_request_step [OF h(1)] c(1) h(2) by auto
      then show ?thesis using that by blast
    qed
  qed
qed

lemma run_refines: "server_run fuel x s \<Longrightarrow> machine_run (lasting s)"
proof (induction rule: server_run.induct)
  case (start ptp)
  have "lasting (MtpServer x ptp) = machine_start"
    by (simp add: lasting_def MtpServer_def machine_start_def)
  then show ?case using begin_run by simp
next
  case (turn s e go_on s' e')
  from turn(2) show ?case
    by (cases rule: serve_step) (use turn.IH in \<open>auto intro: give_up command\<close>)
next
  case (added s st e s' e')
  then show ?case by (auto simp: addStorage_def sendStoreAdded_def dest: send_event_lasting)
next
  case (removed s i e s' e')
  then show ?case
    by (auto simp: removeStorage_def sendStoreRemoved_def dest: send_event_lasting split: if_split_asm)
next
  case (event s c v e s' e')
  then show ?case by (auto dest: send_event_lasting)
qed


text \<open>The sample server with a storage, which it had none of at its start.\<close>

definition sample_storage :: mtp_storage where
  "sample_storage = \<lparr>storageID = 0x10001, filePath = [0x2F], description_of = [0x41], maxCapacity = 0, maxFileSize = 0,
     reserveSpace = 0, removable = False\<rparr>"

definition stored_server :: mtp_server where
  "stored_server = (MtpServer sample_outside False)\<lparr>mStorages := [sample_storage]\<rparr>"

lemma stored_server_run: "server_run fuel sample_outside stored_server"
  by (rule server_run.added [OF server_run.start [where ptp = False], where st = sample_storage and e = "()" and e' = "()"])
    (simp add: stored_server_def addStorage_def sendStoreAdded_def sendEvent_def MtpServer_def)


section \<open>What holds in every run\<close>

definition machine_inv :: "lasting \<Rightarrow> bool" where
  "machine_inv l \<longleftrightarrow> distinct (map eHandle (edits_of l))
     \<and> (pending_of l \<noteq> kInvalidObjectHandle \<longrightarrow> fst (announced_of l) \<noteq> MTP_FORMAT_ASSOCIATION \<and> snd (announced_of l) \<noteq> [])
     \<and> (fst (session_of l) \<or> snd (session_of l) = 0)"

lemma handles_resize [simp]: "map eHandle (resize_edit h n eds) = map eHandle eds"
  by (induction eds) auto

lemma handles_drop: "distinct (map eHandle eds) \<Longrightarrow> distinct (map eHandle (drop_edit h eds)) \<and>
    set (map eHandle (drop_edit h eds)) = set (map eHandle eds) - {h}"
  by (induction eds) (auto simp: rev_image_eqI)

lemma find_edit_None: "find_edit h eds = None \<longleftrightarrow> h \<notin> set (map eHandle eds)"
  by (induction eds) auto

lemma find_edit_handle: "find_edit h eds = Some ed \<Longrightarrow> eHandle ed = h \<and> ed \<in> set eds"
  by (induction eds) (auto split: if_split_asm)

lemma machine_inv_given_up: "machine_inv l \<Longrightarrow> machine_inv (given_up c l)"
  by (simp add: machine_inv_def given_up_def)

lemma command_keeps: "command_step c l l' \<Longrightarrow> machine_inv l \<Longrightarrow> machine_inv l'"
  by (induction rule: command_step.induct)
    (auto simp: machine_inv_def handles_drop find_edit_None)

lemma machine_run_inv: "machine_run l \<Longrightarrow> machine_inv l"
proof (induction rule: machine_run.induct)
  case begin_run
  show ?case by (simp add: machine_inv_def machine_start_def)
next
  case (give_up l c)
  then show ?case by (simp add: machine_inv_given_up)
next
  case (command l c l')
  then show ?case by (auto intro: command_keeps machine_inv_given_up)
qed

text \<open>
  C24: In every run an object has at most one edit, so that the operations on its handle always find the
  one that \<open>BeginEditObject\<close> has opened; an object that waits for \<open>SendObject\<close> is never a folder and has a path; and
  outside a session the session number is zero.
\<close>

theorem server_state_invariant:
  assumes "server_run fuel x s"
  shows "distinct (map eHandle (mObjectEditList s))
    \<and> (mSendObjectHandle s \<noteq> kInvalidObjectHandle \<longrightarrow>
        mSendObjectFormat s \<noteq> MTP_FORMAT_ASSOCIATION \<and> mSendObjectFilePath s \<noteq> [])
    \<and> (\<not> mSessionOpen s \<longrightarrow> mSessionID s = 0)"
  using machine_run_inv [OF run_refines [OF assms]] by (auto simp: machine_inv_def fields_of_lasting)

theorem server_state_invariant_witness:
  "\<not> mSessionOpen stored_server \<and> distinct (map eHandle (mObjectEditList stored_server)) \<and> mSessionID stored_server = 0"
proof -
  have "\<not> mSessionOpen stored_server" by (simp add: stored_server_def MtpServer_def)
  then show ?thesis using server_state_invariant [OF stored_server_run] by simp
qed

lemma send_object_code: "MTP_OPERATION_SEND_OBJECT \<notin> {MTP_OPERATION_OPEN_SESSION, MTP_OPERATION_CLOSE_SESSION,
    MTP_OPERATION_SEND_OBJECT_INFO, MTP_OPERATION_SEND_PARTIAL_OBJECT, MTP_OPERATION_TRUNCATE_OBJECT,
    MTP_OPERATION_BEGIN_EDIT_OBJECT, MTP_OPERATION_END_EDIT_OBJECT}"
  by (simp add: mtp_codes)

inductive_cases command_stepE: "command_step c l l'"

lemma send_object_step:
  assumes "command_step MTP_OPERATION_SEND_OBJECT l l'"
  shows "l' = l \<or> pending_of l' = kInvalidObjectHandle"
  using assms send_object_code by (cases rule: command_stepE) auto

lemma announcing_step:
  assumes "command_step c l l'" "pending_of l = kInvalidObjectHandle"
  shows "c = MTP_OPERATION_SEND_OBJECT_INFO \<or> pending_of l' = kInvalidObjectHandle"
  using assms by (cases rule: command_stepE) auto

text \<open>
  C25: An announcement lasts for one request: after a request has been handled an object waits for \<open>SendObject\<close> only
  if the request was the command \<open>SendObjectInfo\<close> itself, or if it was a \<open>SendObject\<close> that has changed nothing.
\<close>

theorem announcement_lasts_one_request:
  assumes "handleRequest fuel x s e = Some (answer, s', e')" "getContainerCode (mRequest s) = Some c"
    "mSendObjectHandle s' \<noteq> kInvalidObjectHandle"
  shows "c = MTP_OPERATION_SEND_OBJECT_INFO \<and> getContainerType (mRequest s) = Some MTP_CONTAINER_TYPE_COMMAND
    \<or> c = MTP_OPERATION_SEND_OBJECT \<and> mSendObjectHandle s' = mSendObjectHandle s
        \<and> mObjectEditList s' = mObjectEditList s \<and> mSessionOpen s' = mSessionOpen s"
proof (cases "c = MTP_OPERATION_SEND_OBJECT")
  have waits: "pending_of (lasting s') \<noteq> kInvalidObjectHandle"
    using assms(3) by (simp add: fields_of_lasting)
  case True
  have "given_up c (lasting s) = lasting s" using True by (simp add: given_up_def)
  then have "lasting s' = lasting s"
    using handle_request_step [OF assms(1,2)] send_object_step waits True by auto
  then show ?thesis using True by (simp add: lasting_def)
next
  case False
  have l: "pending_of (given_up c (lasting s)) = kInvalidObjectHandle" using False by (simp add: given_up_def)
  have "pending_of (lasting s') \<noteq> kInvalidObjectHandle" using assms(3) by (simp add: fields_of_lasting)
  then show ?thesis
    using handle_request_step [OF assms(1,2)] l announcing_step [OF _ l] by metis
qed

text \<open>A server at which an object waits, and that receives a container of the wrong type.\<close>

definition small_response :: mtp_packet where
  "small_response = \<lparr>mBuffer = replicate 16 0, mBufferSize = 16, mAllocationIncrement = 16, mPacketSize = 12\<rparr>"

definition request_of :: "u16 \<Rightarrow> u16 \<Rightarrow> u32 list \<Rightarrow> mtp_request_packet" where
  "request_of t c ps = \<lparr>mBuffer = le_bytes 4 (12 :: u32) @ le_bytes 2 t @ le_bytes 2 c @ le_bytes 4 (1 :: u32)
       @ concat (map (le_bytes 4) ps),
     mBufferSize = 12 + 4 * length ps, mAllocationIncrement = 512, mPacketSize = 12 + 4 * length ps,
     mParameterCount = int (length ps)\<rparr>"

definition waiting_server :: mtp_server where
  "waiting_server = stored_server\<lparr>mRequest := request_of MTP_CONTAINER_TYPE_DATA MTP_OPERATION_SEND_OBJECT [],
     mResponse := small_response, mSendObjectHandle := 5\<rparr>"

lemma request_of_header:
  "getContainerCode (request_of t c ps) = Some c" "getContainerType (request_of t c ps) = Some t"
  using packet_get_le(1) [of "request_of t c ps" "le_bytes 4 (12 :: u32)" t]
    packet_get_le(1) [of "request_of t c ps" "le_bytes 4 (12 :: u32) @ le_bytes 2 t" c]
  by (simp_all add: request_of_def getContainerCode_def getContainerType_def
      MTP_CONTAINER_CODE_OFFSET_def MTP_CONTAINER_TYPE_OFFSET_def)

lemma request_of_params:
  "k < length ps \<Longrightarrow> k < 5 \<Longrightarrow> getParameter (request_of t c ps) (int k + 1) = Some (ps ! k)"
proof -
  assume k: "k < length ps" "k < 5"
  let ?pre = "le_bytes 4 (12 :: u32) @ le_bytes 2 t @ le_bytes 2 c @ le_bytes 4 (1 :: u32)"
  have "concat (map (le_bytes 4) ps) = concat (map (le_bytes 4) (take k ps)) @ le_bytes 4 (ps ! k)
      @ concat (map (le_bytes 4) (drop (Suc k) ps))"
    using id_take_nth_drop [OF k(1)] by (metis append.assoc append_Cons concat.simps(2) concat_append list.simps(9) map_append)
  moreover have "length (?pre @ concat (map (le_bytes 4) (take k ps))) = 12 + 4 * k"
    using k by (simp add: length_concat comp_def sum_list_triv)
  ultimately show ?thesis
    using packet_get_le(2) [of "request_of t c ps" "?pre @ concat (map (le_bytes 4) (take k ps))" "ps ! k"] k(2)
    by (simp add: request_of_def getParameter_def MTP_CONTAINER_PARAMETER_OFFSET_def mult.commute)
qed

lemma small_response_reset: "packet_reset f small_response = Some small_response"
  by (simp add: packet_reset_def small_response_def allocate_def MTP_CONTAINER_HEADER_SIZE_def numeral_eq_Suc)

theorem announcement_lasts_one_request_witness:
  "MTP_OPERATION_SEND_OBJECT = MTP_OPERATION_SEND_OBJECT_INFO
      \<and> getContainerType (mRequest waiting_server) = Some MTP_CONTAINER_TYPE_COMMAND
    \<or> MTP_OPERATION_SEND_OBJECT = MTP_OPERATION_SEND_OBJECT
      \<and> mSendObjectHandle waiting_server = mSendObjectHandle waiting_server
      \<and> mObjectEditList waiting_server = mObjectEditList waiting_server
      \<and> mSessionOpen waiting_server = mSessionOpen waiting_server"
proof (rule announcement_lasts_one_request)
  show "handleRequest 0 sample_outside waiting_server () = Some (False, waiting_server, ())"
    by (simp add: handleRequest_def waiting_server_def request_of_header small_response_reset Let_def mtp_consts)
  show "getContainerCode (mRequest waiting_server) = Some MTP_OPERATION_SEND_OBJECT"
    by (simp add: waiting_server_def request_of_header)
  show "mSendObjectHandle waiting_server \<noteq> kInvalidObjectHandle"
    by (simp add: waiting_server_def kInvalidObjectHandle_def)
qed

section \<open>Reading and writing parts of an object\<close>

lemma take_bit_wrap: "0 < d \<Longrightarrow> d < 2 ^ 32 \<Longrightarrow> take_bit 32 (2 ^ 64 - d) = 2 ^ 32 - (d :: nat)"
proof -
  assume d: "0 < d" "d < 2 ^ 32"
  have "(2 :: nat) ^ 64 - d = (2 ^ 32 - d) + 2 ^ 32 * (2 ^ 32 - 1)" using d by simp
  then show ?thesis using d by (simp only: take_bit_eq_mod mod_mult_self2) simp
qed

lemma clip_length_value:
  "unat (clip_length (ucast (lo :: u32)) len fl) =
     (if unat lo \<le> unat fl then min (unat len) (unat fl - unat lo) else 2 ^ 32 - (unat lo - unat fl))"
proof -
  let ?lo = "ucast lo :: u64" and ?len = "ucast len :: u64"
  have b: "unat ?lo = unat lo" "unat ?len = unat len" "unat lo < 2 ^ 32" "unat len < 2 ^ 32" "unat fl < 2 ^ 64"
    using unsigned_less [of lo, where ?'a = nat] unsigned_less [of len, where ?'a = nat]
      unsigned_less [of fl, where ?'a = nat] by (simp_all add: unsigned_ucast_eq take_bit_nat_eq_self)
  have s: "unat (?lo + ?len) = unat lo + unat len"
    using b by (simp add: unat_word_ariths)
  have c: "unat (ucast (fl - ?lo) :: u32) = take_bit 32 (unat (fl - ?lo))"
    by (simp add: unsigned_ucast_eq)
  show ?thesis
  proof (cases "unat lo \<le> unat fl")
    case True
    then have "unat (fl - ?lo) = unat fl - unat lo"
      using b(1) by (simp add: unat_sub word_le_nat_alt)
    then show ?thesis
      using True b s c by (auto simp: clip_length_def word_less_nat_alt take_bit_nat_eq_self min_def)
  next
    case False
    then have "unat (fl - ?lo) = 2 ^ 64 - (unat lo - unat fl)"
      using b(1) by (simp add: unat_sub_if_size word_le_nat_alt word_size)
    then show ?thesis
      using False b s c take_bit_wrap [of "unat lo - unat fl"]
      by (auto simp: clip_length_def word_less_nat_alt)
  qed
qed

text \<open>
  C31: \<open>GetPartialObject\<close> sends the part of the file that was asked for and exists, and reports its length, when the offset
  lies in the file. When it lies behind the end, the subtraction wraps around: the driver is told to send
  almost four gigabytes, and the host is told to expect them.
\<close>

theorem partial_read_range:
  assumes "hasAnyStorage s" "3 \<le> params s" "param s 1 = Some h" "param s 2 = Some lo" "param s 3 = Some len"
    "getObjectFilePath x h e = (MTP_RESPONSE_OK, f, e1)"
    "n = (if unat lo \<le> unat (fLength f) then min (unat len) (unat (fLength f) - unat lo)
          else 2 ^ 32 - (unat lo - unat (fLength f)))"
  shows "doGetPartialObject MTP_OPERATION_GET_PARTIAL_OBJECT x s e
    = transfer_file x f (ucast lo) (int n) (Some (of_nat n)) s e1"
proof -
  let ?c = "clip_length (ucast lo) len (fLength f)"
  have c: "unat ?c = n" using assms(7) by (simp only: clip_length_value)
  then have "of_nat n = ?c" "uint ?c = int n" by (auto simp: uint_nat)
  moreover have "MTP_OPERATION_GET_PARTIAL_OBJECT \<noteq> MTP_OPERATION_GET_PARTIAL_OBJECT_64" by (simp add: mtp_codes)
  ultimately show ?thesis
    using assms(1-6) by (simp add: doGetPartialObject_def Let_def)
qed

text \<open>
  Initial data of a partial write: what came with the header of the data container, of which \<open>m\<close> bytes
  are more than the header.
\<close>

definition arrives :: "'e outside \<Rightarrow> mtp_server \<Rightarrow> 'e \<Rightarrow> nat \<Rightarrow> mtp_data_packet \<Rightarrow> 'e \<Rightarrow> bool" where
  "arrives x s e m p e' \<longleftrightarrow> data_read (fd_read x) (mData s) e = Some (12 + int m, p, e')
     \<and> 12 + m \<le> length (mBuffer p) \<and> (\<exists>q. data_reset (fresh x) p = Some q)"

definition writes_succeed :: "'e outside \<Rightarrow> object_edit \<Rightarrow> bool" where
  "writes_succeed x ed \<longleftrightarrow> (\<forall>bs offset e. 0 \<le> fst (pwrite_file x (eFD ed) bs offset e))
     \<and> (\<forall>offset n e. 0 \<le> fst (receive_file x (eFD ed) offset n e))"

lemma find_resized: "find_edit h eds = Some ed \<Longrightarrow> find_edit h (resize_edit h n eds) = Some (ed\<lparr>eSize := n\<rparr>)"
  by (induction eds) (auto split: if_split_asm)

lemma written_length:
  assumes "m < 2 ^ 31"
  shows "unat (len - word_of_nat m :: u32) = (if m \<le> unat len then unat len - m else 2 ^ 32 + unat len - m)"
proof -
  have "unat (word_of_nat m :: u32) = m" using assms by (simp add: unsigned_of_nat take_bit_nat_eq_self)
  then show ?thesis by (simp add: unat_sub_if_size word_size word_le_nat_alt) presburger
qed

lemma write_initial_ok:
  assumes "writes_succeed x ed" "12 + m \<le> length (mBuffer p)"
  obtains ret e' where "write_initial x ed offset len (12 + int m) p e
    = Some (ret, offset + word_of_nat m, len - word_of_nat m, e')" "0 \<le> ret"
proof (cases "m = 0")
  case True
  then have "write_initial x ed offset len (12 + int m) p e = Some (12, offset + word_of_nat m, len - word_of_nat m, e)"
    by (simp add: write_initial_def MTP_CONTAINER_HEADER_SIZE_def)
  then show ?thesis by (rule that) simp
next
  case False
  let ?bs = "take m (drop 12 (mBuffer p))"
  have "write_initial x ed offset len (12 + int m) p e = Some (fst (pwrite_file x (eFD ed) ?bs offset e),
      offset + word_of_nat m, len - word_of_nat m, snd (pwrite_file x (eFD ed) ?bs offset e))"
    using False assms(2)
    by (simp add: write_initial_def MTP_CONTAINER_HEADER_SIZE_def peeks_def Let_def case_prod_unfold)
  then show ?thesis by (rule that) (use assms(1) in \<open>simp add: writes_succeed_def\<close>)
qed


text \<open>The sample file has ten bytes; five of them are asked for at 20.\<close>

definition reading_server :: mtp_server where
  "reading_server = stored_server\<lparr>mRequest :=
     request_of MTP_CONTAINER_TYPE_COMMAND MTP_OPERATION_GET_PARTIAL_OBJECT [1, 20, 5]\<rparr>"

theorem partial_read_range_witness:
  "doGetPartialObject MTP_OPERATION_GET_PARTIAL_OBJECT sample_outside reading_server ()
    = transfer_file sample_outside \<lparr>fPath = [0x2F], fLength = 10, fFormat = 0x3000\<rparr> (ucast (20 :: u32))
        (int 4294967286) (Some (of_nat 4294967286)) reading_server ()"
proof (rule partial_read_range)
  note ps = request_of_params [of 0 "[1, 20, 5]"] request_of_params [of 1 "[1, 20, 5]"] request_of_params [of 2 "[1, 20, 5]"]
  show "hasAnyStorage reading_server" by (simp add: hasAnyStorage_def reading_server_def stored_server_def)
  show "3 \<le> params reading_server" by (simp add: params_def reading_server_def request_of_def)
  show "param reading_server 1 = Some 1" "param reading_server 2 = Some 20" "param reading_server 3 = Some 5"
    using ps by (simp_all add: param_def reading_server_def)
  show "getObjectFilePath sample_outside 1 () = (MTP_RESPONSE_OK, \<lparr>fPath = [0x2F], fLength = 10, fFormat = 0x3000\<rparr>, ())"
    by (simp add: sample_outside_def)
qed simp

text \<open>Eight bytes arrive at the start of an object of ten, of which five were announced.\<close>

definition sample_edit :: object_edit where
  "sample_edit = \<lparr>eHandle = 1, ePath = [0x2F], eSize = 10, eFormat = 0x3000, eFD = 3\<rparr>"

definition editing_server :: mtp_server where
  "editing_server = stored_server\<lparr>mRequest :=
     request_of MTP_CONTAINER_TYPE_COMMAND MTP_OPERATION_SEND_PARTIAL_OBJECT [1, 0, 0, 5],
     mData := sample_packet, mResponse := small_response, mObjectEditList := [sample_edit]\<rparr>"

lemma eight_arrive: "arrives sample_outside editing_server () 8
    (sample_packet\<lparr>mBuffer := replicate 20 1, mPacketSize := 20, mOffset := 12\<rparr>) ()"
  by (simp add: arrives_def data_read_def editing_server_def sample_outside_def sample_packet_def data_reset_def
      packet_reset_def allocate_def MTP_CONTAINER_HEADER_SIZE_def numeral_eq_Suc)


section \<open>Requests that are answered wrongly\<close>

text \<open>With no storage, storage 0 is looked up in an empty vector.\<close>

lemma storage_zero_faults:
  "mStorages s = [] \<Longrightarrow> 2 \<le> params s \<Longrightarrow> param s 1 = Some 0 \<Longrightarrow> doSendObjectInfo x s e = None"
  by (simp add: doSendObjectInfo_def getStorage_def)

text \<open>
  A folder that exists already is refused, as \<open>mkdir\<close> returns -1 and not the negated error number; the database has
  been told of the beginning and is not told of the end.
\<close>

lemma existing_folder_refused:
  "beginSendObject x path MTP_FORMAT_ASSOCIATION parent i (mSendObjectFileSize s) t e = (h, e1) \<Longrightarrow>
    h \<noteq> kInvalidObjectHandle \<Longrightarrow> make_dir x path e1 = (-1, e2) \<Longrightarrow>
    accept_object x path MTP_FORMAT_ASSOCIATION i parent t s e = Some (MTP_RESPONSE_GENERAL_ERROR, s, e2)"
  by (simp add: accept_object_def)

end
